(* ===== verification/Prelude.thy ===== *)
theory Prelude
  imports Main "HOL-Library.Word" "HOL-Library.Monad_Syntax"
begin

text \<open>
  Shared material of the development: the names of the Go integer types, the collections of
  rewrite rules the component proofs use, and generic facts on lists, options and words.

  A Go computation that can panic (an index out of range, an explicit \<open>panic\<close>) is modelled with
  \<open>option\<close>: \<open>None\<close> is the panic. Go's \<open>int\<close> (64 bits on the supported platforms) is \<open>int\<close>: the
  values the modelled code computes with are lengths and indexes, far below the 64-bit bounds;
  every conversion to a narrower type is written out with \<open>word_of_int\<close>, \<open>word_of_nat\<close>,
  \<open>uint\<close> and \<open>sint\<close>, so truncation is visible.
\<close>

unbundle bit_operations_syntax

type_synonym u8 = "8 word"
type_synonym u32 = "32 word"
type_synonym u64 = "64 word"
type_synonym bytes = "u8 list"

named_theorems byte_simps \<open>layout of encoded data: lengths, slices, reads of written values\<close>
named_theorems writer_simps \<open>closed form of every encoder\<close>
named_theorems reader_defs \<open>definitions of the decoders\<close>

section \<open>Lists\<close>

lemma take_Suc_nth_append:
  "k < length xs \<Longrightarrow> take (Suc k) xs = take k xs @ [xs ! k]"
  by (rule take_Suc_conv_app_nth)

lemma list_update_middle:
  "k < length xs \<Longrightarrow> xs[k := y] = take k xs @ y # drop (Suc k) xs"
  by (rule upd_conv_take_nth_drop)

lemma set_less_8_cases:
  fixes k :: nat
  assumes "k < 8"
  obtains "k = 0" | "k = 1" | "k = 2" | "k = 3" | "k = 4" | "k = 5" | "k = 6" | "k = 7"
  using assms by linarith

section \<open>Options as computations that may panic\<close>

lemma bind_eq_Some_conv':
  "Option.bind m f = Some y \<longleftrightarrow> (\<exists>x. m = Some x \<and> f x = Some y)"
  by (cases m) auto

definition guard_opt :: "bool \<Rightarrow> unit option" where
  "guard_opt b = (if b then Some () else None)"

lemma guard_opt_simps [simp]:
  "guard_opt True = Some ()" "guard_opt False = None"
  by (simp_all add: guard_opt_def)

lemma guard_opt_Some [simp]: "guard_opt b = Some u \<longleftrightarrow> b"
  by (simp add: guard_opt_def)

end
