(* ===== verification/Bit_Vector.thy ===== *)
theory Bit_Vector
  imports Prelude
begin

text \<open>
  The variable-sized bit vector of src/pkg/internal/edittree/bitvector/bitvector.go.
  The record holds the byte slice and the number of bits; every operation is a definition that
  returns \<open>None\<close> where the Go code panics.  The abstraction \<^term>\<open>bits\<close> reads a vector as a list
  of booleans, and each operation is shown to be the list operation of the same name.
\<close>

record BitVector =
  bv_data :: bytes
  bv_length :: int

definition NewBitVector :: "bytes \<Rightarrow> int \<Rightarrow> BitVector" where
  "NewBitVector d n = \<lparr>bv_data = d, bv_length = n\<rparr>"

definition BitVector_Bytes :: "BitVector \<Rightarrow> bytes" where
  "BitVector_Bytes v = bv_data v"

definition BitVector_Length :: "BitVector \<Rightarrow> int" where
  "BitVector_Length v = bv_length v"

text \<open>The loop of \<open>shiftLower\<close> runs from the last byte to the first, the carry is already in
  the most significant position.\<close>

fun shiftLower_loop :: "u8 \<Rightarrow> bytes \<Rightarrow> u8 \<times> bytes" where
  "shiftLower_loop c [] = (c, [])"
| "shiftLower_loop c (x # xs) =
     (let (c', ys) = shiftLower_loop c xs;
          newByte = drop_bit 1 x OR c'
      in (push_bit 7 (x AND 1), newByte # ys))"

definition shiftLower :: "u8 \<Rightarrow> bytes \<Rightarrow> u8 \<times> bytes" where
  "shiftLower b xs = (let (c, ys) = shiftLower_loop (push_bit 7 b) xs in (drop_bit 7 c, ys))"

fun shiftHigher :: "u8 \<Rightarrow> bytes \<Rightarrow> u8 \<times> bytes" where
  "shiftHigher c [] = (c, [])"
| "shiftHigher c (x # xs) =
     (let newByte = push_bit 1 x OR c;
          c' = drop_bit 7 (x AND 0x80);
          (r, ys) = shiftHigher c' xs
      in (r, newByte # ys))"

text \<open>\<open>>> 3\<close> on a Go \<open>int\<close> is an arithmetic shift, that is \<open>div 8\<close> rounding down.\<close>

definition BitVector_bytesLength :: "BitVector \<Rightarrow> int" where
  "BitVector_bytesLength v = (let lastBitIndex = bv_length v - 1; lastByteIndex = lastBitIndex div 8
                    in lastByteIndex + 1)"

definition BitVector_indexAssert :: "BitVector \<Rightarrow> int \<Rightarrow> unit option" where
  "BitVector_indexAssert v i = guard_opt (\<not> (i < 0 \<or> i \<ge> bv_length v))"

text \<open>Go's indexing \<open>b[i]\<close> and \<open>b[i] = x\<close> on a slice, with the bounds check.\<close>

definition index_byte :: "bytes \<Rightarrow> nat \<Rightarrow> u8 option" where
  "index_byte d i = (if i < length d then Some (d ! i) else None)"

definition store_byte :: "bytes \<Rightarrow> nat \<Rightarrow> u8 \<Rightarrow> bytes option" where
  "store_byte d i x = (if i < length d then Some (d[i := x]) else None)"

definition BitVector_grow :: "BitVector \<Rightarrow> BitVector" where
  "BitVector_grow v = (if BitVector_bytesLength v > int (length (bv_data v)) then v\<lparr>bv_data := bv_data v @ [0]\<rparr> else v)"

definition BitVector_Append :: "u8 \<Rightarrow> BitVector \<Rightarrow> BitVector option" where
  "BitVector_Append b v =
     (let index = (word_of_int (bv_length v) :: u32);
          v1 = BitVector_grow (v\<lparr>bv_length := bv_length v + 1\<rparr>);
          byteIndex = unat (drop_bit 3 index);
          byteOffset = unat (index mod 8)
      in do {
        oldByte \<leftarrow> index_byte (bv_data v1) byteIndex;
        let newByte = (if b = 1 then oldByte OR push_bit byteOffset 1
                       else oldByte AND (NOT (push_bit byteOffset 1)));
        d \<leftarrow> store_byte (bv_data v1) byteIndex newByte;
        Some (v1\<lparr>bv_data := d\<rparr>)
      })"

definition BitVector_Element :: "BitVector \<Rightarrow> int \<Rightarrow> u8 option" where
  "BitVector_Element v i = do {
     BitVector_indexAssert v i;
     let byteIndex = nat (i div 8);
     let byteOffset = unat (word_of_int (i mod 8) :: u32);
     b \<leftarrow> index_byte (bv_data v) byteIndex;
     Some (drop_bit byteOffset b AND 1)
   }"

definition BitVector_Set :: "u8 \<Rightarrow> int \<Rightarrow> BitVector \<Rightarrow> BitVector option" where
  "BitVector_Set b index v = do {
     BitVector_indexAssert v index;
     let byteIndex = unat (word_of_int (index div 8) :: u32);
     let byteOffset = unat (word_of_int (index mod 8) :: u32);
     oldByte \<leftarrow> index_byte (bv_data v) byteIndex;
     let newByte = (if b = 1 then oldByte OR push_bit byteOffset 1
                    else oldByte AND (NOT (push_bit byteOffset 1)));
     d \<leftarrow> store_byte (bv_data v) byteIndex newByte;
     Some (v\<lparr>bv_data := d\<rparr>)
   }"

definition BitVector_Insert :: "u8 \<Rightarrow> int \<Rightarrow> BitVector \<Rightarrow> BitVector option" where
  "BitVector_Insert b index v = do {
     BitVector_indexAssert v index;
     let v1 = BitVector_grow (v\<lparr>bv_length := bv_length v + 1\<rparr>);
     let byteIndex = unat (word_of_int (index div 8) :: u32);
     let byteOffset = unat (word_of_int (index mod 8) :: u32);
     let bitToInsert = (if b = 1 then push_bit byteOffset 1 else 0);
     oldByte \<leftarrow> index_byte (bv_data v1) byteIndex;
     let leftoverBit = drop_bit 7 (oldByte AND 0x80);
     let bottomMask = push_bit byteOffset 1 - 1;
     let topMask = NOT bottomMask;
     let top = push_bit 1 (oldByte AND topMask);
     let newByte = bitToInsert OR (oldByte AND bottomMask) OR top;
     d \<leftarrow> store_byte (bv_data v1) byteIndex newByte;
     let rest = snd (shiftHigher leftoverBit (drop (Suc byteIndex) d));
     Some (v1\<lparr>bv_data := take (Suc byteIndex) d @ rest\<rparr>)
   }"

definition BitVector_Delete :: "int \<Rightarrow> BitVector \<Rightarrow> BitVector option" where
  "BitVector_Delete index v = do {
     BitVector_indexAssert v index;
     let v1 = v\<lparr>bv_length := bv_length v - 1\<rparr>;
     let byteIndex = unat (word_of_int (index div 8) :: u32);
     let byteOffset = unat (word_of_int (index mod 8) :: u32);
     oldByte \<leftarrow> index_byte (bv_data v1) byteIndex;
     let (b, rest) = shiftLower 0 (drop (Suc byteIndex) (bv_data v1));
     let bottomMask = push_bit byteOffset 1 - 1;
     let topMask = NOT (push_bit (byteOffset + 1) 1 - 1);
     let newTop = drop_bit 1 (oldByte AND topMask) OR push_bit 7 b;
     let newByte = (bottomMask AND oldByte) OR newTop;
     d \<leftarrow> store_byte (take (Suc byteIndex) (bv_data v1) @ rest) byteIndex newByte;
     let v2 = v1\<lparr>bv_data := d\<rparr>;
     let byteLength = BitVector_bytesLength v2;
     Some (if byteLength < int (length d) then v2\<lparr>bv_data := take (nat byteLength) d\<rparr> else v2)
   }"

section \<open>Abstraction and invariant\<close>

definition byte_bits :: "u8 \<Rightarrow> bool list" where
  "byte_bits x = map (bit x) [0..<8]"

definition bytes_bits :: "bytes \<Rightarrow> bool list" where
  "bytes_bits d = concat (map byte_bits d)"

definition bits :: "BitVector \<Rightarrow> bool list" where
  "bits v = take (nat (bv_length v)) (bytes_bits (bv_data v))"

definition bv_ok :: "BitVector \<Rightarrow> bool" where
  "bv_ok v \<longleftrightarrow> 0 \<le> bv_length v \<and> bv_length v \<le> 8 * int (length (bv_data v))"

lemma byte_bits_eq:
  "byte_bits x = [bit x 0, bit x 1, bit x 2, bit x 3, bit x 4, bit x 5, bit x 6, bit x 7]"
  by (simp add: byte_bits_def upt_conv_Cons numeral_eq_Suc)

lemma length_byte_bits [simp]: "length (byte_bits x) = 8"
  by (simp add: byte_bits_def)

lemma length_bytes_bits [simp]: "length (bytes_bits d) = 8 * length d"
  by (induction d) (simp_all add: bytes_bits_def)

lemma bytes_bits_simps [simp]:
  "bytes_bits [] = []"
  "bytes_bits (x # d) = byte_bits x @ bytes_bits d"
  "bytes_bits (d @ e) = bytes_bits d @ bytes_bits e"
  by (simp_all add: bytes_bits_def)

lemma bytes_bits_split:
  "i < length d \<Longrightarrow>
   bytes_bits d = bytes_bits (take i d) @ byte_bits (d ! i) @ bytes_bits (drop (Suc i) d)"
  by (subst id_take_nth_drop [of i d]) simp_all

lemma bytes_bits_take: "bytes_bits (take i d) = take (8 * i) (bytes_bits d)"
proof (induction d arbitrary: i)
  case (Cons x d)
  then show ?case by (cases i) simp_all
qed simp

subsection \<open>Single bytes\<close>

lemma bit_double_u8: "bit (x * 2 :: u8) n \<longleftrightarrow> 0 < n \<and> n < 8 \<and> bit x (n - 1)"
proof -
  have "x * 2 = push_bit 1 x" by simp
  then show ?thesis by (simp only: bit_push_bit_iff) auto
qed

lemma shiftHigher_byte:
  fixes x c :: u8
  assumes "c = 0 \<or> c = 1"
  shows "byte_bits (push_bit 1 x OR c) = (c = 1) # butlast (byte_bits x)"
  using assms by (elim disjE) (simp_all add: byte_bits_eq bit_simps bit_double_u8)

lemma shiftHigher_carry:
  "drop_bit 7 (x AND 0x80) = (of_bool (bit x 7) :: u8)"
  by (rule bit_eqI) (auto simp: bit_simps)

lemma set_byte_1:
  "k < 8 \<Longrightarrow> byte_bits (x OR push_bit k 1) = (byte_bits x)[k := True]"
  by (erule set_less_8_cases; simp add: byte_bits_eq bit_simps)
lemma set_byte_0:
  "k < 8 \<Longrightarrow> byte_bits (x AND NOT (push_bit k 1)) = (byte_bits x)[k := False]"
  by (erule set_less_8_cases; simp add: byte_bits_eq bit_simps)

lemma insert_byte:
  fixes x :: u8
  shows "k < 8 \<Longrightarrow> byte_bits ((if b then push_bit k 1 else 0) OR (x AND (push_bit k 1 - 1))
     OR push_bit 1 (x AND NOT (push_bit k 1 - 1)))
   = take k (byte_bits x) @ b # take (7 - k) (drop k (byte_bits x))"
  by (erule set_less_8_cases; simp add: byte_bits_eq bit_simps bit_double_u8)

lemma bit_Suc_fold:
  fixes x :: u8
  shows "bit x (Suc (Suc 0)) = bit x 2" and "bit x (Suc (Suc (Suc 0))) = bit x 3"
  by (simp_all add: numeral_2_eq_2 numeral_3_eq_3)

lemma delete_byte:
  fixes x c :: u8
  assumes "k < 8" and "c = 0 \<or> c = 1"
  shows "byte_bits (((push_bit k 1 - 1) AND x) OR (drop_bit 1 (x AND NOT (push_bit (k + 1) 1 - 1)) OR push_bit 7 c))
   = take k (byte_bits x) @ drop (Suc k) (byte_bits x) @ [c = 1]"
  using assms
  by (elim disjE; elim set_less_8_cases;
      simp add: byte_bits_eq bit_simps bit_double_u8 bit_Suc_fold)

lemma element_byte:
  fixes x :: u8
  shows "drop_bit k x AND 1 = of_bool (bit x k)"
  by (rule bit_eqI) (auto simp: bit_simps)

lemma not_bit_u8_8: "\<not> bit (x :: u8) 8"
  using bit_imp_le_length [of x 8] by auto

lemma shiftLower_byte:
  fixes x c :: u8
  assumes "c = 0 \<or> c = 0x80"
  shows "byte_bits (drop_bit 1 x OR c) = tl (byte_bits x) @ [c \<noteq> 0]"
  using assms
  by (elim disjE) (simp_all add: byte_bits_eq bit_simps not_bit_u8_8 bit_Suc_fold)

lemma low_bit_high:
  fixes x :: u8
  shows "push_bit 7 (x AND 1) = (if bit x 0 then 0x80 else 0)"
proof -
  have "x AND 1 = of_bool (bit x 0)" using element_byte [of 0 x] by simp
  then show ?thesis by simp
qed

subsection \<open>Shifting whole slices\<close>

lemma shiftHigher_Cons:
  "snd (shiftHigher c (x # xs)) = (push_bit 1 x OR c) # snd (shiftHigher (of_bool (bit x 7)) xs)"
  by (simp only: shiftHigher.simps Let_def shiftHigher_carry) (simp split: prod.split)

lemma length_shiftHigher [simp]: "length (snd (shiftHigher c xs)) = length xs"
  by (induction xs arbitrary: c) (simp_all add: shiftHigher_Cons del: shiftHigher.simps(2))

lemma byte_bits_butlast: "byte_bits x = butlast (byte_bits x) @ [bit x 7]"
  by (simp add: byte_bits_eq)

lemma shiftHigher_bits:
  "c = 0 \<or> c = 1 \<Longrightarrow>
   bytes_bits (snd (shiftHigher c xs)) = take (8 * length xs) ((c = 1) # bytes_bits xs)"
proof (induction xs arbitrary: c)
  case (Cons x xs)
  have "butlast (byte_bits x) @ take (8 * length xs) (bit x 7 # bytes_bits xs)
      = take (7 + 8 * length xs) ((butlast (byte_bits x) @ [bit x 7]) @ bytes_bits xs)"
    by simp
  moreover have "bytes_bits (snd (shiftHigher c (x # xs)))
      = (c = 1) # butlast (byte_bits x) @ take (8 * length xs) (bit x 7 # bytes_bits xs)"
    using Cons shiftHigher_byte [of c x] by (simp add: shiftHigher_Cons del: shiftHigher.simps(2))
  ultimately have "bytes_bits (snd (shiftHigher c (x # xs)))
      = take (Suc (7 + 8 * length xs)) ((c = 1) # byte_bits x @ bytes_bits xs)"
    by (simp only: byte_bits_butlast [symmetric] take_Suc_Cons)
  then show ?case by (simp only: bytes_bits_simps length_Cons mult_Suc_right) simp
qed simp

lemma shiftLower_loop_Cons:
  "shiftLower_loop c (x # xs) =
     ((if bit x 0 then 0x80 else 0), (drop_bit 1 x OR fst (shiftLower_loop c xs)) # snd (shiftLower_loop c xs))"
  by (simp only: shiftLower_loop.simps Let_def low_bit_high) (simp split: prod.split)

lemma length_shiftLower_loop [simp]: "length (snd (shiftLower_loop c xs)) = length xs"
  by (induction xs) (simp_all add: shiftLower_loop_Cons del: shiftLower_loop.simps(2))

lemma Cons_tl_byte_bits:
  "bit x 0 \<Longrightarrow> True # tl (byte_bits x) = byte_bits x"
  "\<not> bit x 0 \<Longrightarrow> False # tl (byte_bits x) = byte_bits x"
  by (simp_all add: byte_bits_eq)

lemma shiftLower_loop_fst:
  "c = 0 \<or> c = 0x80 \<Longrightarrow> fst (shiftLower_loop c xs) = 0 \<or> fst (shiftLower_loop c xs) = 0x80"
  by (cases xs) (simp_all add: shiftLower_loop_Cons del: shiftLower_loop.simps(2))

lemma shiftLower_loop_bits:
  assumes "c = 0 \<or> c = 0x80"
  shows "(fst (shiftLower_loop c xs) \<noteq> 0) # bytes_bits (snd (shiftLower_loop c xs))
       = bytes_bits xs @ [c \<noteq> 0]"
proof (induction xs)
  case (Cons x xs)
  let ?r = "shiftLower_loop c xs"
  have "byte_bits (drop_bit 1 x OR fst ?r) = tl (byte_bits x) @ [fst ?r \<noteq> 0]"
    by (intro shiftLower_byte shiftLower_loop_fst assms)
  with Cons show ?case
    by (simp add: shiftLower_loop_Cons Cons_tl_byte_bits del: shiftLower_loop.simps(2))
qed simp

lemma shiftLower_zero:
  "shiftLower 0 xs = (of_bool (fst (shiftLower_loop 0 xs) \<noteq> 0), snd (shiftLower_loop 0 xs))"
  using shiftLower_loop_fst [of 0 xs]
  by (auto simp: shiftLower_def split: prod.splits)


subsection \<open>Positions\<close>

lemma unat_u32_of_int: "0 \<le> i \<Longrightarrow> i < 2 ^ 32 \<Longrightarrow> unat (word_of_int i :: u32) = nat i"
  by (simp add: unsigned_of_int take_bit_int_eq_self)

text \<open>A bit position \<open>i\<close> of a vector is bit \<open>i mod 8\<close> of byte \<open>i div 8\<close>.\<close>

lemma bytes_bits_nth:
  "b < length d \<Longrightarrow> k < 8 \<Longrightarrow> bytes_bits d ! (8 * b + k) = bit (d ! b) k"
  by (subst bytes_bits_split [of b d]) (simp_all add: nth_append byte_bits_def)

lemma bytes_bits_update:
  assumes "b < length d" and "k < 8" and "byte_bits y = (byte_bits (d ! b))[k := x]"
  shows "bytes_bits (d[b := y]) = (bytes_bits d)[8 * b + k := x]"
proof -
  have "bytes_bits (d[b := y]) = bytes_bits (take b d) @ byte_bits y @ bytes_bits (drop (Suc b) d)"
    using assms(1) by (simp add: upd_conv_take_nth_drop)
  also have "\<dots> = (bytes_bits (take b d) @ byte_bits (d ! b) @ bytes_bits (drop (Suc b) d))[8 * b + k := x]"
    using assms by (simp add: list_update_append)
  finally show ?thesis
    using bytes_bits_split [OF assms(1)] by simp
qed

lemma take_append_plus: "length xs + n = m \<Longrightarrow> take m (xs @ ys) = xs @ take n ys"
  by auto

lemma take_insert:
  "i \<le> n \<Longrightarrow> i \<le> length ys \<Longrightarrow> Suc n \<le> m \<Longrightarrow>
   take (Suc n) (take m (take i ys @ x # drop i ys)) = take i ys @ x # take (n - i) (drop i ys)"
  by (simp add: min_def Suc_diff_le)

lemma take_delete:
  assumes "i < n" and "n \<le> length ys"
  shows "take (n - 1) (take i ys @ drop (Suc i) ys @ zs) = take i ys @ take (n - Suc i) (drop (Suc i) ys)"
proof -
  have "take (n - 1) (take i ys) = take i ys" and "length (take i ys) = i"
    using assms by simp_all
  then show ?thesis using assms by (simp add: min_def)
qed

lemma bytes_bits_insert:
  assumes "b < length d" and "k < 8"
    and y: "byte_bits y = take k (byte_bits (d ! b)) @ x # take (7 - k) (drop k (byte_bits (d ! b)))"
    and r: "rest = snd (shiftHigher (of_bool (bit (d ! b) 7)) (drop (Suc b) d))"
  shows "bytes_bits (take (Suc b) (d[b := y]) @ rest)
       = take (8 * length d) (take (8 * b + k) (bytes_bits d) @ x # drop (8 * b + k) (bytes_bits d))"
proof -
  let ?P = "bytes_bits (take b d)" and ?B = "byte_bits (d ! b)" and ?R = "bytes_bits (drop (Suc b) d)"
  have all: "bytes_bits d = ?P @ ?B @ ?R" and lenP: "length ?P = 8 * b"
    using assms(1) bytes_bits_split by simp_all
  have tk: "take (Suc b) (d[b := y]) = take b d @ [y]"
    using assms(1) by (simp add: take_Suc_conv_app_nth)
  obtain T where T: "drop k ?B = T @ [bit (d ! b) 7]" and T_def: "T = take (7 - k) (drop k ?B)"
    using assms(2) by (elim set_less_8_cases; simp add: byte_bits_eq)
  have lenT: "length T = 7 - k" using T_def by simp
  have "take (8 * length d) (take (8 * b + k) (?P @ ?B @ ?R) @ x # drop (8 * b + k) (?P @ ?B @ ?R))
     = take (8 * length d) (?P @ take k ?B @ x # T @ bit (d ! b) 7 # ?R)"
    using assms(2) lenP T by simp
  also have "\<dots> = ?P @ take k ?B @ x # T @ take (8 * length (drop (Suc b) d)) (bit (d ! b) 7 # ?R)"
    using take_append_plus [of "?P @ take k ?B @ x # T" "8 * length (drop (Suc b) d)" "8 * length d"]
      assms(1,2) lenP lenT by simp
  also have "take (8 * length (drop (Suc b) d)) (bit (d ! b) 7 # ?R) = bytes_bits rest"
    using r shiftHigher_bits [of "of_bool (bit (d ! b) 7)" "drop (Suc b) d"] by simp
  finally have "take (8 * length d) (take (8 * b + k) (?P @ ?B @ ?R) @ x # drop (8 * b + k) (?P @ ?B @ ?R))
      = ?P @ take k ?B @ x # T @ bytes_bits rest" .
  moreover have "bytes_bits (take (Suc b) (d[b := y]) @ rest) = ?P @ take k ?B @ x # T @ bytes_bits rest"
    unfolding tk by (simp add: y T_def)
  ultimately show ?thesis by (simp only: all)
qed

lemma bytes_bits_delete:
  assumes "b < length d" and "k < 8"
    and c: "c = of_bool (fst (shiftLower_loop 0 (drop (Suc b) d)) \<noteq> 0)"
    and y: "byte_bits y = take k (byte_bits (d ! b)) @ drop (Suc k) (byte_bits (d ! b)) @ [c = 1]"
    and r: "rest = snd (shiftLower_loop 0 (drop (Suc b) d))"
  shows "bytes_bits ((take (Suc b) d @ rest)[b := y])
       = take (8 * b + k) (bytes_bits d) @ drop (Suc (8 * b + k)) (bytes_bits d) @ [False]"
proof -
  let ?P = "bytes_bits (take b d)" and ?B = "byte_bits (d ! b)" and ?R = "bytes_bits (drop (Suc b) d)"
  have all: "bytes_bits d = ?P @ ?B @ ?R" and lenP: "length ?P = 8 * b"
    using assms(1) bytes_bits_split by simp_all
  have tk: "(take (Suc b) d @ rest)[b := y] = take b d @ y # rest"
    using assms(1) by (simp add: take_Suc_conv_app_nth list_update_append)
  have "(c = 1) # bytes_bits rest = ?R @ [False]"
    using shiftLower_loop_bits [of 0 "drop (Suc b) d"] c r by simp
  with all lenP tk y assms(2) show ?thesis by simp
qed


subsection \<open>The operations as list operations\<close>

lemma length_bits: "bv_ok v \<Longrightarrow> int (length (bits v)) = bv_length v"
  by (auto simp: bits_def bv_ok_def)

lemma index_split:
  assumes "0 \<le> i" and "i < 2 ^ 32"
  shows "nat i = 8 * nat (i div 8) + nat (i mod 8)" "nat (i mod 8) < 8"
    "unat (word_of_int (i div 8) :: u32) = nat (i div 8)"
    "unat (word_of_int (i mod 8) :: u32) = nat (i mod 8)"
proof -
  show "nat i = 8 * nat (i div 8) + nat (i mod 8)"
    using assms by (simp add: nat_div_distrib nat_mod_distrib)
  show "nat (i mod 8) < 8" by linarith
  show "unat (word_of_int (i div 8) :: u32) = nat (i div 8)"
    using assms by (intro unat_u32_of_int) linarith+
  have "i mod 8 < 8" by simp
  then show "unat (word_of_int (i mod 8) :: u32) = nat (i mod 8)"
    by (intro unat_u32_of_int) simp_all
qed

lemma byte_in_range: "bv_ok v \<Longrightarrow> i < bv_length v \<Longrightarrow> 0 \<le> i \<Longrightarrow> nat (i div 8) < length (bv_data v)"
  unfolding bv_ok_def by linarith

lemma Element_bits:
  assumes "bv_ok v" "bv_length v \<le> 2 ^ 32" "0 \<le> i" "i < bv_length v"
  shows "BitVector_Element v i = Some (of_bool (bits v ! nat i))"
proof -
  have i: "i < 2 ^ 32" using assms by simp
  note ix = index_split [OF assms(3) i]
  have "bits v ! nat i = bytes_bits (bv_data v) ! nat i"
    using assms by (simp add: bits_def)
  also have "\<dots> = bit (bv_data v ! nat (i div 8)) (nat (i mod 8))"
    unfolding ix(1) by (rule bytes_bits_nth) (use byte_in_range assms ix(2) in auto)
  finally show ?thesis
    using assms byte_in_range [of v i] ix(4)
    by (simp add: BitVector_Element_def BitVector_indexAssert_def index_byte_def element_byte)
qed

lemma Set_bits:
  assumes "bv_ok v" "bv_length v \<le> 2 ^ 32" "0 \<le> i" "i < bv_length v"
  shows "\<exists>v'. BitVector_Set x i v = Some v' \<and> bv_ok v' \<and> bv_length v' = bv_length v
    \<and> bits v' = (bits v)[nat i := (x = 1)]"
proof -
  have i: "i < 2 ^ 32" using assms by simp
  note ix = index_split [OF assms(3) i]
  let ?b = "nat (i div 8)" and ?k = "nat (i mod 8)" and ?d = "bv_data v"
  let ?y = "if x = 1 then ?d ! ?b OR push_bit ?k 1 else ?d ! ?b AND NOT (push_bit ?k 1)"
  have b: "?b < length ?d" using byte_in_range assms by blast
  have "bytes_bits (?d[?b := ?y]) = (bytes_bits ?d)[nat i := (x = 1)]"
    unfolding ix(1) using b ix(2) by (intro bytes_bits_update) (simp_all add: set_byte_1 set_byte_0 del: push_bit_of_1)
  moreover have "BitVector_Set x i v = Some (v\<lparr>bv_data := ?d[?b := ?y]\<rparr>)"
    using assms b ix(3,4)
    by (simp add: BitVector_Set_def BitVector_indexAssert_def index_byte_def store_byte_def
        Let_def del: push_bit_of_1)
  ultimately show ?thesis
    using assms by (auto simp: bv_ok_def bits_def take_update_swap)
qed

lemma grow_props:
  assumes "0 \<le> bv_length v" and "bv_length v \<le> 8 * int (length (bv_data v)) + 1"
  shows "bv_length (BitVector_grow v) = bv_length v" "bv_ok (BitVector_grow v)"
    "\<exists>z. bytes_bits (bv_data (BitVector_grow v)) = bytes_bits (bv_data v) @ z"
  using assms by (auto simp: BitVector_grow_def BitVector_bytesLength_def bv_ok_def Let_def)

lemma grow_bits:
  assumes "bv_ok v" and "w = BitVector_grow (v\<lparr>bv_length := bv_length v + 1\<rparr>)"
  shows "bv_length w = bv_length v + 1" "bv_ok w"
    "take (nat (bv_length v)) (bytes_bits (bv_data w)) = bits v"
  using assms grow_props [of "v\<lparr>bv_length := bv_length v + 1\<rparr>"]
  by (auto simp: bv_ok_def bits_def)

lemma Append_bits:
  assumes "bv_ok v" "bv_length v < 2 ^ 32"
  shows "\<exists>v'. BitVector_Append x v = Some v' \<and> bv_ok v' \<and> bv_length v' = bv_length v + 1
    \<and> bits v' = bits v @ [x = 1]"
proof -
  let ?i = "bv_length v"
  have i0: "0 \<le> ?i" using assms by (simp add: bv_ok_def)
  note ix = index_split [OF i0 assms(2)]
  define w where "w = BitVector_grow (v\<lparr>bv_length := bv_length v + 1\<rparr>)"
  note g = grow_bits [OF assms(1) w_def]
  let ?b = "nat (?i div 8)" and ?k = "nat (?i mod 8)" and ?d = "bv_data w"
  let ?y = "if x = 1 then ?d ! ?b OR push_bit ?k 1 else ?d ! ?b AND NOT (push_bit ?k 1)"
  have b: "?b < length ?d" using byte_in_range [of w ?i] g i0 by simp
  have bb: "bytes_bits (?d[?b := ?y]) = (bytes_bits ?d)[nat ?i := (x = 1)]"
    unfolding ix(1) using b ix(2)
    by (intro bytes_bits_update) (simp_all add: set_byte_1 set_byte_0 del: push_bit_of_1)
  have idx: "unat (drop_bit 3 (word_of_int ?i :: u32)) = ?b" "unat ((word_of_int ?i :: u32) mod 8) = ?k"
    using i0 assms(2) by (simp_all add: unat_div drop_bit_eq_div unat_mod unat_u32_of_int nat_div_distrib nat_mod_distrib)
  have ap: "BitVector_Append x v = Some (w\<lparr>bv_data := ?d[?b := ?y]\<rparr>)"
    using b idx
    by (simp add: BitVector_Append_def index_byte_def store_byte_def w_def [symmetric] Let_def
        del: push_bit_of_1)
  have lt: "nat ?i < length (bytes_bits ?d)" using g(1,2) i0 by (simp add: bv_ok_def)
  have "take (Suc (nat ?i)) ((bytes_bits ?d)[nat ?i := (x = 1)]) = bits v @ [x = 1]"
    using lt by (simp add: take_Suc_conv_app_nth g(3))
  then have "bits (w\<lparr>bv_data := ?d[?b := ?y]\<rparr>) = bits v @ [x = 1]"
    using g(1) i0 bb by (simp add: bits_def nat_add_distrib)
  then show ?thesis using ap g by (simp add: bv_ok_def)
qed

lemma bv_data_update: "bv_data (v\<lparr>bv_length := n\<rparr>) = bv_data v"
  by simp

lemma indexAssert_Some: "0 \<le> i \<Longrightarrow> i < bv_length v \<Longrightarrow> BitVector_indexAssert v i = Some ()"
  by (simp add: BitVector_indexAssert_def)

lemma index_byte_Some: "b < length d \<Longrightarrow> index_byte d b = Some (d ! b)"
  by (simp add: index_byte_def)

lemma store_byte_Some: "b < length d \<Longrightarrow> store_byte d b y = Some (d[b := y])"
  by (simp add: store_byte_def)

lemma Insert_bits:
  assumes "bv_ok v" "bv_length v \<le> 2 ^ 32" "0 \<le> i" "i < bv_length v"
  shows "\<exists>v'. BitVector_Insert x i v = Some v' \<and> bv_ok v' \<and> bv_length v' = bv_length v + 1
    \<and> bits v' = take (nat i) (bits v) @ (x = 1) # drop (nat i) (bits v)"
proof -
  have i: "i < 2 ^ 32" using assms by simp
  note ix = index_split [OF assms(3) i]
  define w where "w = BitVector_grow (v\<lparr>bv_length := bv_length v + 1\<rparr>)"
  note g = grow_bits [OF assms(1) w_def]
  let ?b = "nat (i div 8)" and ?k = "nat (i mod 8)" and ?d = "bv_data w"
  let ?o = "?d ! ?b"
  let ?y = "(if x = 1 then push_bit ?k 1 else 0) OR (?o AND (push_bit ?k 1 - 1)) OR
     push_bit 1 (?o AND NOT (push_bit ?k 1 - 1))"
  let ?r = "snd (shiftHigher (of_bool (bit ?o 7)) (drop (Suc ?b) ?d))"
  let ?D = "take (Suc ?b) (?d[?b := ?y]) @ ?r"
  have b: "?b < length ?d" using byte_in_range [of w i] g assms by simp
  have bb: "bytes_bits ?D = take (8 * length ?d) (take (nat i) (bytes_bits ?d) @ (x = 1) # drop (nat i) (bytes_bits ?d))"
    unfolding ix(1) using b ix(2) by (intro bytes_bits_insert insert_byte) simp_all
  have ins: "BitVector_Insert x i v = Some (w\<lparr>bv_data := ?D\<rparr>)"
    using b assms ix(3,4) shiftHigher_carry [of ?o]
    by (simp add: BitVector_Insert_def BitVector_indexAssert_def index_byte_def store_byte_def
        w_def [symmetric] Let_def del: push_bit_of_1)
  have len: "length ?D = length ?d" using b by simp
  obtain D where D: "BitVector_Insert x i v = Some (w\<lparr>bv_data := D\<rparr>)" "length D = length ?d"
    "bytes_bits D = take (8 * length ?d) (take (nat i) (bytes_bits ?d) @ (x = 1) # drop (nat i) (bytes_bits ?d))"
    using ins len bb by blast
  have "take (nat (bv_length v + 1)) (bytes_bits D)
      = take (nat i) (bytes_bits ?d) @ (x = 1) # take (nat (bv_length v) - nat i) (drop (nat i) (bytes_bits ?d))"
  proof -
    have "nat (bv_length v + 1) = Suc (nat (bv_length v))" "nat i \<le> nat (bv_length v)"
      "nat i \<le> length (bytes_bits ?d)" "Suc (nat (bv_length v)) \<le> 8 * length ?d"
      using assms g(1,2) by (simp_all add: bv_ok_def)
    then show ?thesis unfolding D(3) by (simp only: take_insert)
  qed
  also have "\<dots> = take (nat i) (bits v) @ (x = 1) # drop (nat i) (bits v)"
    unfolding g(3) [symmetric] take_take drop_take using assms by simp
  finally show ?thesis using D(1,2) g by (simp add: bits_def bv_ok_def)
qed

lemma Delete_bits:
  assumes "bv_ok v" "bv_length v \<le> 2 ^ 32" "0 \<le> i" "i < bv_length v"
  shows "\<exists>v'. BitVector_Delete i v = Some v' \<and> bv_ok v' \<and> bv_length v' = bv_length v - 1
    \<and> bits v' = take (nat i) (bits v) @ drop (Suc (nat i)) (bits v)"
proof -
  have i: "i < 2 ^ 32" using assms by simp
  note ix = index_split [OF assms(3) i]
  let ?b = "nat (i div 8)" and ?k = "nat (i mod 8)" and ?d = "bv_data v"
  let ?o = "?d ! ?b" and ?L = "shiftLower_loop 0 (drop (Suc (nat (i div 8))) (bv_data v))"
  let ?c = "of_bool (fst ?L \<noteq> 0) :: u8"
  let ?y = "((push_bit ?k 1 - 1) AND ?o) OR
     (drop_bit 1 (?o AND NOT (push_bit (?k + 1) 1 - 1)) OR push_bit 7 ?c)"
  let ?D = "(take (Suc ?b) ?d @ snd ?L)[?b := ?y]"
  let ?v = "v\<lparr>bv_length := bv_length v - 1, bv_data := ?D\<rparr>"
  have b: "?b < length ?d" using byte_in_range assms by blast
  have b': "?b < length (take (Suc ?b) ?d @ snd ?L)" using b by simp
  have len: "length ?D = length ?d" using b by simp
  have y: "byte_bits ?y = take ?k (byte_bits ?o) @ drop (Suc ?k) (byte_bits ?o) @ [?c = 1]"
    by (rule delete_byte) (use ix(2) in auto)
  have bb: "bytes_bits ?D = take (nat i) (bytes_bits ?d) @ drop (Suc (nat i)) (bytes_bits ?d) @ [False]"
    unfolding ix(1) by (rule bytes_bits_delete [OF b ix(2) refl y refl])
  have del: "BitVector_Delete i v = Some (if BitVector_bytesLength ?v < int (length ?D)
       then ?v\<lparr>bv_data := take (nat (BitVector_bytesLength ?v)) ?D\<rparr> else ?v)" (is "_ = Some ?v'")
    unfolding BitVector_Delete_def Let_def
    by (simp only: indexAssert_Some [OF assms(3,4)] index_byte_Some [OF b] ix(3,4) shiftLower_zero prod.case
        store_byte_Some [OF b'] Option.bind.bind_lunit bv_data_update)
  obtain D where D: "BitVector_Delete i v = Some (let u = v\<lparr>bv_length := bv_length v - 1, bv_data := D\<rparr>
       in if BitVector_bytesLength u < int (length D) then u\<lparr>bv_data := take (nat (BitVector_bytesLength u)) D\<rparr> else u)"
    "length D = length ?d"
    "bytes_bits D = take (nat i) (bytes_bits ?d) @ drop (Suc (nat i)) (bytes_bits ?d) @ [False]"
    using del len bb unfolding Let_def by blast
  define v' where "v' = the (BitVector_Delete i v)"
  have v': "BitVector_Delete i v = Some v'" "bv_length v' = bv_length v - 1"
    "bv_data v' = take (nat (BitVector_bytesLength (v\<lparr>bv_length := bv_length v - 1\<rparr>))) D"
    using D(1) by (simp_all add: v'_def Let_def BitVector_bytesLength_def)
  have ok: "bv_ok v'"
    using assms D(2) v' by (auto simp: bv_ok_def BitVector_bytesLength_def Let_def)
  have "bits v' = take (nat (bv_length v - 1)) (bytes_bits D)"
    using assms v' by (auto simp: bits_def BitVector_bytesLength_def Let_def bytes_bits_take min_def)
  also have "\<dots> = take (nat i) (bytes_bits ?d) @ take (nat (bv_length v) - Suc (nat i)) (drop (Suc (nat i)) (bytes_bits ?d))"
    unfolding D(3) using assms take_delete [of "nat i" "nat (bv_length v)" "bytes_bits ?d"]
    by (simp add: bv_ok_def nat_diff_distrib)
  also have "\<dots> = take (nat i) (bits v) @ drop (Suc (nat i)) (bits v)"
    unfolding bits_def take_take drop_take using assms by simp
  finally show ?thesis using v' ok by blast
qed


definition bv_inv :: "BitVector \<Rightarrow> bool" where
  "bv_inv v \<longleftrightarrow> bv_ok v \<and> bv_length v \<le> 2 ^ 32"

section \<open>The interface the edit tree relies on\<close>

text \<open>
  A sequence of bits with positional access.  The laws are stated against the list of booleans an
  instance stands for; the derived facts below are what a client uses.
\<close>

locale bit_sequence =
  fixes element :: "'b \<Rightarrow> int \<Rightarrow> u8 option"
    and set_bit_at :: "u8 \<Rightarrow> int \<Rightarrow> 'b \<Rightarrow> 'b option"
    and insert_at :: "u8 \<Rightarrow> int \<Rightarrow> 'b \<Rightarrow> 'b option"
    and delete_at :: "int \<Rightarrow> 'b \<Rightarrow> 'b option"
    and append_bit :: "u8 \<Rightarrow> 'b \<Rightarrow> 'b option"
    and len :: "'b \<Rightarrow> int"
    and abs :: "'b \<Rightarrow> bool list"
    and inv :: "'b \<Rightarrow> bool"
    and capacity :: int
  assumes len_abs: "inv v \<Longrightarrow> len v = int (length (abs v))"
    and element_abs: "inv v \<Longrightarrow> 0 \<le> i \<Longrightarrow> i < len v \<Longrightarrow> element v i = Some (of_bool (abs v ! nat i))"
    and set_abs: "inv v \<Longrightarrow> 0 \<le> i \<Longrightarrow> i < len v \<Longrightarrow>
      \<exists>v'. set_bit_at x i v = Some v' \<and> inv v' \<and> abs v' = (abs v)[nat i := (x = 1)]"
    and insert_abs: "inv v \<Longrightarrow> len v < capacity \<Longrightarrow> 0 \<le> i \<Longrightarrow> i < len v \<Longrightarrow>
      \<exists>v'. insert_at x i v = Some v' \<and> inv v' \<and> abs v' = take (nat i) (abs v) @ (x = 1) # drop (nat i) (abs v)"
    and delete_abs: "inv v \<Longrightarrow> 0 \<le> i \<Longrightarrow> i < len v \<Longrightarrow>
      \<exists>v'. delete_at i v = Some v' \<and> inv v' \<and> abs v' = take (nat i) (abs v) @ drop (Suc (nat i)) (abs v)"
    and append_abs: "inv v \<Longrightarrow> len v < capacity \<Longrightarrow>
      \<exists>v'. append_bit x v = Some v' \<and> inv v' \<and> abs v' = abs v @ [x = 1]"
begin

lemma delete_after_insert:
  assumes "inv v" "len v < capacity" "0 \<le> i" "i < len v"
  shows "\<exists>v1 v2. insert_at x i v = Some v1 \<and> delete_at i v1 = Some v2 \<and> inv v2 \<and> abs v2 = abs v"
proof -
  obtain v1 where v1: "insert_at x i v = Some v1" "inv v1"
    "abs v1 = take (nat i) (abs v) @ (x = 1) # drop (nat i) (abs v)"
    using insert_abs assms by blast
  have n: "nat i < length (abs v)" using assms len_abs by fastforce
  then have "i < len v1" using v1 len_abs assms by (simp add: min_def)
  then obtain v2 where v2: "delete_at i v1 = Some v2" "inv v2"
    "abs v2 = take (nat i) (abs v1) @ drop (Suc (nat i)) (abs v1)"
    using delete_abs v1(2) assms(3) by blast
  have "abs v2 = take (nat i) (abs v) @ drop (nat i) (abs v)"
    using v2(3) v1(3) n by (simp add: min_def)
  then show ?thesis using v1 v2 by auto
qed

lemma insert_after_delete:
  assumes "inv v" "len v \<le> capacity" "0 \<le> i" "i + 1 < len v"
  shows "\<exists>v1 v2. delete_at i v = Some v1 \<and> insert_at (of_bool (abs v ! nat i)) i v1 = Some v2 \<and>
    inv v2 \<and> abs v2 = abs v"
proof -
  have n: "Suc (nat i) < length (abs v)" using assms len_abs by fastforce
  obtain v1 where v1: "delete_at i v = Some v1" "inv v1"
    "abs v1 = take (nat i) (abs v) @ drop (Suc (nat i)) (abs v)"
    using delete_abs assms by fastforce
  have len1: "len v1 = len v - 1" using v1 len_abs assms n by (simp add: min_def)
  obtain v2 where v2: "insert_at (of_bool (abs v ! nat i)) i v1 = Some v2" "inv v2"
    "abs v2 = take (nat i) (abs v1) @ (of_bool (abs v ! nat i) = (1 :: u8)) # drop (nat i) (abs v1)"
    using insert_abs [OF v1(2), of i "of_bool (abs v ! nat i)"] len1 assms by auto
  have "abs v2 = take (nat i) (abs v) @ abs v ! nat i # drop (Suc (nat i)) (abs v)"
    using v2(3) v1(3) n by (simp add: min_def)
  also have "\<dots> = abs v" using n by (simp add: id_take_nth_drop [symmetric])
  finally show ?thesis using v1 v2 by auto
qed

lemma element_after_set:
  assumes "inv v" "0 \<le> i" "i < len v" "0 \<le> j" "j < len v"
  shows "\<exists>v'. set_bit_at x i v = Some v' \<and>
    element v' j = (if j = i then Some (of_bool (x = 1)) else element v j)"
proof -
  obtain v' where v': "set_bit_at x i v = Some v'" "inv v'" "abs v' = (abs v)[nat i := (x = 1)]"
    using set_abs assms by blast
  have "element v' j = Some (of_bool (abs v' ! nat j))"
    using v' assms len_abs by (intro element_abs) simp_all
  moreover have "nat i < length (abs v)" using assms len_abs by fastforce
  ultimately show ?thesis using v' assms element_abs [of v j]
    by (auto simp: nth_list_update nat_eq_iff)
qed

end

interpretation bv: bit_sequence BitVector_Element BitVector_Set BitVector_Insert BitVector_Delete
  BitVector_Append BitVector_Length bits bv_inv "2 ^ 32"
proof (unfold_locales, goal_cases)
  case 1 then show ?case by (simp add: bv_inv_def BitVector_Length_def length_bits)
next
  case 2 then show ?case by (simp add: bv_inv_def BitVector_Length_def Element_bits)
next
  case 3 then show ?case using Set_bits by (fastforce simp: bv_inv_def BitVector_Length_def)
next
  case 4 then show ?case using Insert_bits by (fastforce simp: bv_inv_def BitVector_Length_def)
next
  case 5 then show ?case using Delete_bits by (fastforce simp: bv_inv_def BitVector_Length_def)
next
  case 6 then show ?case using Append_bits by (fastforce simp: bv_inv_def BitVector_Length_def)
qed

lemma out_of_range_panics:
  assumes "i < 0 \<or> BitVector_Length v \<le> i"
  shows "BitVector_Element v i = None" "BitVector_Set x i v = None"
    "BitVector_Insert x i v = None" "BitVector_Delete i v = None"
  using assms
  by (simp_all add: BitVector_Length_def BitVector_Element_def BitVector_Set_def BitVector_Insert_def
      BitVector_Delete_def BitVector_indexAssert_def guard_opt_def)

lemma new_bits: "0 \<le> n \<Longrightarrow> n \<le> 2 ^ 32 \<Longrightarrow> n \<le> 8 * int m \<Longrightarrow>
   bv_inv (NewBitVector (replicate m 0) n) \<and>
   bits (NewBitVector (replicate m 0) n) = replicate (nat n) False"
proof -
  have "bytes_bits (replicate m 0) = replicate (8 * m) False"
    by (induction m) (simp_all add: byte_bits_eq numeral_eq_Suc replicate_app_Cons_same)
  then show "0 \<le> n \<Longrightarrow> n \<le> 2 ^ 32 \<Longrightarrow> n \<le> 8 * int m \<Longrightarrow> ?thesis"
    by (simp add: NewBitVector_def bv_inv_def bv_ok_def bits_def)
qed

section \<open>Properties\<close>

text \<open>C38.  On a well-formed vector \<open>Insert\<close> puts the bit at the index and moves every later bit up
  by one, across byte boundaries, and keeps the invariant; out of range it panics.\<close>

theorem BitVector_Insert_correct:
  assumes "bv_inv v" and "BitVector_Length v < 2 ^ 32"
  shows "if 0 \<le> i \<and> i < BitVector_Length v
    then \<exists>v'. BitVector_Insert b i v = Some v' \<and> bv_inv v' \<and>
      bits v' = take (nat i) (bits v) @ (b = 1) # drop (nat i) (bits v)
    else BitVector_Insert b i v = None"
  using bv.insert_abs [OF assms] out_of_range_panics(3) by (simp add: linorder_not_less) (meson not_le)

theorem BitVector_Insert_correct_witness:
  "\<exists>v'. BitVector_Insert 1 7 (NewBitVector [0x81, 1] 9) = Some v' \<and> bv_inv v' \<and>
     bits v' = [True, False, False, False, False, False, False, True, True, True]"
  using BitVector_Insert_correct [of "NewBitVector [0x81, 1] 9" 7 1]
  by (simp add: bv_inv_def bv_ok_def NewBitVector_def BitVector_Length_def bits_def byte_bits_eq)

text \<open> \<open>Delete\<close> removes the bit at the index and moves every later bit down by one, keeps the
  invariant (the byte slice is cut to the bytes still needed), and panics out of range.\<close>

theorem BitVector_Delete_correct:
  assumes "bv_inv v"
  shows "if 0 \<le> i \<and> i < BitVector_Length v
    then \<exists>v'. BitVector_Delete i v = Some v' \<and> bv_inv v' \<and>
      bits v' = take (nat i) (bits v) @ drop (Suc (nat i)) (bits v)
    else BitVector_Delete i v = None"
  using bv.delete_abs [OF assms] out_of_range_panics(4) by (simp add: linorder_not_less) (meson not_le)

theorem BitVector_Delete_correct_witness:
  "\<exists>v'. BitVector_Delete 0 (NewBitVector [0x02, 1] 9) = Some v' \<and> bv_inv v' \<and>
     bits v' = [True, False, False, False, False, False, False, True]"
  using BitVector_Delete_correct [of "NewBitVector [0x02, 1] 9" 0]
  by (simp add: bv_inv_def bv_ok_def NewBitVector_def BitVector_Length_def bits_def byte_bits_eq)

text \<open> \<open>Append\<close> adds the bit at the end, growing the byte slice when the last byte is full, and keeps the
  invariant.\<close>

theorem BitVector_Append_correct:
  assumes "bv_inv v" and "BitVector_Length v < 2 ^ 32"
  shows "\<exists>v'. BitVector_Append b v = Some v' \<and> bv_inv v' \<and> bits v' = bits v @ [b = 1]"
  using bv.append_abs [OF assms] .

theorem BitVector_Append_correct_witness:
  "\<exists>v'. BitVector_Append 1 (NewBitVector [0x81] 8) = Some v' \<and> bv_inv v' \<and>
     bits v' = [True, False, False, False, False, False, False, True, True]"
  using BitVector_Append_correct [of "NewBitVector [0x81] 8" 1]
  by (simp add: bv_inv_def bv_ok_def NewBitVector_def BitVector_Length_def bits_def byte_bits_eq)

text \<open> \<open>Set\<close> changes the bit at its index and no other: \<open>Element\<close> at any index of the vector returns the
  new bit there and the old one elsewhere.\<close>

theorem BitVector_Element_after_Set:
  assumes "bv_inv v" and "0 \<le> i" and "i < BitVector_Length v" and "0 \<le> j" and "j < BitVector_Length v"
  shows "\<exists>v'. BitVector_Set b i v = Some v' \<and>
    BitVector_Element v' j = (if j = i then Some (of_bool (b = 1)) else BitVector_Element v j)"
  using bv.element_after_set [OF assms] .

theorem BitVector_Element_after_Set_witness:
  "\<exists>v'. BitVector_Set 1 8 (NewBitVector [0x81, 0] 9) = Some v' \<and> BitVector_Element v' 8 = Some 1"
  using BitVector_Element_after_Set [of "NewBitVector [0x81, 0] 9" 8 8 1]
  by (simp add: bv_inv_def bv_ok_def NewBitVector_def BitVector_Length_def)

text \<open> \<open>Insert\<close> followed by \<open>Delete\<close> at the same index restores the sequence of bits.\<close>

theorem BitVector_Delete_after_Insert:
  assumes "bv_inv v" and "BitVector_Length v < 2 ^ 32" and "0 \<le> i" and "i < BitVector_Length v"
  shows "\<exists>v1 v2. BitVector_Insert b i v = Some v1 \<and> BitVector_Delete i v1 = Some v2 \<and> bv_inv v2 \<and> bits v2 = bits v"
  using bv.delete_after_insert [OF assms] .

theorem BitVector_Delete_after_Insert_witness:
  "\<exists>v1 v2. BitVector_Insert 0 3 (NewBitVector [0x81, 1] 9) = Some v1 \<and> BitVector_Delete 3 v1 = Some v2 \<and> bv_inv v2 \<and>
     bits v2 = [True, False, False, False, False, False, False, True, True]"
  using BitVector_Delete_after_Insert [of "NewBitVector [0x81, 1] 9" 3 0]
  by (simp add: bv_inv_def bv_ok_def NewBitVector_def BitVector_Length_def bits_def byte_bits_eq)

end
