(* ===== verification/Bytes.thy ===== *)
theory Bytes
  imports Prelude
begin

text \<open>
  The primitive types of src/pkg/vm/executable.go (from \<open>// Primitive types\<close> on): booleans, big-endian
  integers, offset tables, strings, arrays of locals and of operands, and the type/length word of a
  statement.  Readers return \<open>None\<close> where the Go code panics on a slice bound.  The lemmas show what
  a reader returns on data a writer produced, wherever it is embedded.
\<close>

section \<open>Slices and encoding/binary\<close>

text \<open>\<open>data[offset:]\<close>\<close>

definition slice_from :: "bytes \<Rightarrow> nat \<Rightarrow> bytes option" where
  "slice_from d n = (if n \<le> length d then Some (drop n d) else None)"

text \<open>\<open>binary.BigEndian.Uint32\<close> and \<open>Uint64\<close> panic on a slice that is too short.\<close>

fun BigEndian_Uint32 :: "bytes \<Rightarrow> u32 option" where
  "BigEndian_Uint32 (b0 # b1 # b2 # b3 # _) =
     Some (ucast b3 OR push_bit 8 (ucast b2) OR push_bit 16 (ucast b1) OR push_bit 24 (ucast b0))"
| "BigEndian_Uint32 _ = None"

definition be32 :: "u32 \<Rightarrow> bytes" where
  "be32 v = [ucast (drop_bit 24 v), ucast (drop_bit 16 v), ucast (drop_bit 8 v), ucast v]"

fun BigEndian_Uint64 :: "bytes \<Rightarrow> u64 option" where
  "BigEndian_Uint64 (b0 # b1 # b2 # b3 # b4 # b5 # b6 # b7 # _) =
     Some (ucast b7 OR push_bit 8 (ucast b6) OR push_bit 16 (ucast b5) OR push_bit 24 (ucast b4) OR
       push_bit 32 (ucast b3) OR push_bit 40 (ucast b2) OR push_bit 48 (ucast b1) OR push_bit 56 (ucast b0))"
| "BigEndian_Uint64 _ = None"

definition be64 :: "u64 \<Rightarrow> bytes" where
  "be64 v = [ucast (drop_bit 56 v), ucast (drop_bit 48 v), ucast (drop_bit 40 v), ucast (drop_bit 32 v),
     ucast (drop_bit 24 v), ucast (drop_bit 16 v), ucast (drop_bit 8 v), ucast v]"

text \<open>\<open>binary.BigEndian.PutUint32\<close> into \<open>data[p:]\<close>.\<close>

definition put_at :: "bytes \<Rightarrow> nat \<Rightarrow> u32 \<Rightarrow> bytes option" where
  "put_at d p v = (if p + 4 \<le> length d then Some (take p d @ be32 v @ drop (p + 4) d) else None)"

section \<open>Booleans, integers, offset tables\<close>

definition appendBool :: "bytes \<Rightarrow> bool \<Rightarrow> bytes" where
  "appendBool d value = (if value then d @ [1] else d @ [0])"

definition getBool :: "bytes \<Rightarrow> u32 \<Rightarrow> bool option" where
  "getBool d off = (if unat off < length d then Some (d ! unat off \<noteq> 0) else None)"

definition getUint32 :: "bytes \<Rightarrow> u32 \<Rightarrow> u32 option" where
  "getUint32 d off = do { s \<leftarrow> slice_from d (unat off); BigEndian_Uint32 s }"

definition getOffsetIndex :: "bytes \<Rightarrow> u32 \<Rightarrow> int \<Rightarrow> u32 option" where
  "getOffsetIndex d off i = getUint32 d (off + word_of_int i * 4)"

definition appendOffsetSize :: "int \<Rightarrow> int" where
  "appendOffsetSize n = n * 4"

definition appendOffsetIndex :: "bytes \<Rightarrow> nat \<Rightarrow> bytes" where
  "appendOffsetIndex d n = d @ replicate (4 * n) 0"

definition putOffsetIndex :: "bytes \<Rightarrow> u32 \<Rightarrow> int \<Rightarrow> u32 \<Rightarrow> bytes option" where
  "putOffsetIndex d off i v = put_at d (unat (off + word_of_int (i * 4))) v"

definition appendUint32 :: "bytes \<Rightarrow> u32 \<Rightarrow> bytes" where
  "appendUint32 d value = d @ be32 value"

text \<open>\<open>data[offset:offset+4]\<close> needs \<open>offset \<le> offset + 4\<close> in 32-bit arithmetic.\<close>

definition putUint32 :: "bytes \<Rightarrow> u32 \<Rightarrow> u32 \<Rightarrow> bytes option" where
  "putUint32 d off v = (if off \<le> off + 4 then put_at d (unat off) v else None)"

definition getInt32 :: "bytes \<Rightarrow> u32 \<Rightarrow> int option" where
  "getInt32 d off = map_option sint (getUint32 d off)"

definition appendInt32 :: "bytes \<Rightarrow> int \<Rightarrow> bytes" where
  "appendInt32 d value = d @ be32 (word_of_int value)"

definition getInt64 :: "bytes \<Rightarrow> u32 \<Rightarrow> int option" where
  "getInt64 d off = do { s \<leftarrow> slice_from d (unat off); w \<leftarrow> BigEndian_Uint64 s; Some (sint w) }"

definition appendInt64 :: "bytes \<Rightarrow> int \<Rightarrow> bytes" where
  "appendInt64 d value = d @ be64 (word_of_int value)"

definition getInt32ArrayLen :: "bytes \<Rightarrow> u32 \<Rightarrow> int option" where
  "getInt32ArrayLen d off = map_option uint (getUint32 d off)"

definition getInt32ArraySize :: "bytes \<Rightarrow> u32 \<Rightarrow> int option" where
  "getInt32ArraySize d off = map_option (\<lambda>n. 4 + 4 * n) (getInt32ArrayLen d off)"

section \<open>Loops over a range of positions\<close>

fun read_range :: "(nat \<Rightarrow> 'a option) \<Rightarrow> nat \<Rightarrow> nat \<Rightarrow> 'a list option" where
  "read_range rd i 0 = Some []"
| "read_range rd i (Suc n) = do { x \<leftarrow> rd i; xs \<leftarrow> read_range rd (Suc i) n; Some (x # xs) }"

text \<open>The iterators of the executable call a function on each element; it may stop the loop with an
  error, or panic.  The closure's captured variables are the state \<open>s\<close>.\<close>

fun iter_range :: "(nat \<Rightarrow> 'a option) \<Rightarrow> (nat \<Rightarrow> 'a \<Rightarrow> 's \<Rightarrow> ('e + 's) option) \<Rightarrow> nat \<Rightarrow> nat \<Rightarrow> 's \<Rightarrow> ('e + 's) option" where
  "iter_range rd f i 0 s = Some (Inr s)"
| "iter_range rd f i (Suc n) s = do {
     x \<leftarrow> rd i;
     y \<leftarrow> f i x s;
     case y of Inl e \<Rightarrow> Some (Inl e) | Inr s' \<Rightarrow> iter_range rd f (Suc i) n s' }"

fun iter_list :: "(nat \<Rightarrow> 'a \<Rightarrow> 's \<Rightarrow> ('e + 's) option) \<Rightarrow> nat \<Rightarrow> 'a list \<Rightarrow> 's \<Rightarrow> ('e + 's) option" where
  "iter_list f i [] s = Some (Inr s)"
| "iter_list f i (x # xs) s = do {
     y \<leftarrow> f i x s;
     case y of Inl e \<Rightarrow> Some (Inl e) | Inr s' \<Rightarrow> iter_list f (Suc i) xs s' }"

section \<open>Strings\<close>

text \<open>A Go string is its bytes.\<close>

type_synonym gostring = bytes

definition str :: "string \<Rightarrow> gostring" where
  "str s = map of_char s"

text \<open>\<open>unsafe.String(&data[offset], l)\<close>: the address of \<open>data[offset]\<close> is bounds checked, the length
  is not; a string that runs past the slice has no defined value, here \<open>None\<close>.\<close>

definition getString :: "bytes \<Rightarrow> u32 \<Rightarrow> gostring option" where
  "getString d off = do {
     l \<leftarrow> getUint32 d off;
     let off1 = off + 4;
     if unat off1 < length d \<and> unat off1 + unat l \<le> length d
     then Some (take (unat l) (drop (unat off1) d)) else None }"

definition appendStringSize :: "gostring \<Rightarrow> int" where
  "appendStringSize value = 4 + int (length value)"

definition appendString :: "bytes \<Rightarrow> gostring \<Rightarrow> bytes" where
  "appendString d value = appendUint32 d (word_of_nat (length value)) @ value"

definition appendStringArraySize :: "gostring list \<Rightarrow> int" where
  "appendStringArraySize value =
     foldl (\<lambda>pad s. pad + appendStringSize s) (4 + appendOffsetSize (int (length value))) value"

text \<open>The loop that fills an offset table while appending the elements; \<open>enc\<close> appends one element and
  \<open>base\<close> is subtracted from the position.  \<open>strings.Write\<close>, \<open>plans.Write\<close>, \<open>blocks.Write\<close> and
  \<open>appendStringArray\<close> all have this loop.\<close>

fun append_indexed :: "('a \<Rightarrow> bytes \<Rightarrow> bytes) \<Rightarrow> u32 \<Rightarrow> nat \<Rightarrow> nat \<Rightarrow> 'a list \<Rightarrow> bytes \<Rightarrow> bytes option" where
  "append_indexed enc off base i [] d = Some d"
| "append_indexed enc off base i (x # xs) d = do {
     d1 \<leftarrow> putOffsetIndex d off (int i) (word_of_nat (length d - base));
     append_indexed enc off base (Suc i) xs (enc x d1) }"

definition appendStringArray :: "bytes \<Rightarrow> gostring list \<Rightarrow> bytes option" where
  "appendStringArray d value =
     (let base = length d;
          n = length value;
          offsets = word_of_nat (base + 4);
          d1 = appendUint32 d (word_of_nat n);
          d2 = appendOffsetIndex d1 n
      in append_indexed (\<lambda>s d. appendString d s) offsets base 0 value d2)"

definition getStringArray :: "bytes \<Rightarrow> u32 \<Rightarrow> gostring list option" where
  "getStringArray d off = do {
     s \<leftarrow> slice_from d (unat off);
     n \<leftarrow> getUint32 s 0;
     read_range (\<lambda>i. do { so \<leftarrow> getOffsetIndex s 4 (int i); getString s so }) 0 (unat n) }"

section \<open>Type and length word of a statement\<close>

definition getLen :: "bytes \<Rightarrow> u32 option" where
  "getLen d = map_option (\<lambda>w. w AND 0xffffff) (getUint32 d 0)"

definition getType :: "bytes \<Rightarrow> u32 option" where
  "getType d = map_option (drop_bit 24) (getUint32 d 0)"

definition putTypeLength :: "bytes \<Rightarrow> u32 \<Rightarrow> u32 \<Rightarrow> u32 \<Rightarrow> bytes option" where
  "putTypeLength d off t l = putUint32 d off (push_bit 24 t OR l)"

section \<open>Locals and operands\<close>

type_synonym Local = int

record LocalOrConst =
  lc_t :: int
  lc_v :: int

definition localType :: int where "localType = 0"
definition boolConstType :: int where "boolConstType = 1"
definition stringIndexConstType :: int where "stringIndexConstType = 2"

definition NewLocal :: "int \<Rightarrow> LocalOrConst" where
  "NewLocal v = \<lparr>lc_t = localType, lc_v = v\<rparr>"

definition NewBoolConst :: "bool \<Rightarrow> LocalOrConst" where
  "NewBoolConst v = (if v then \<lparr>lc_t = boolConstType, lc_v = 1\<rparr> else \<lparr>lc_t = boolConstType, lc_v = 0\<rparr>)"

definition NewStringIndexConst :: "int \<Rightarrow> LocalOrConst" where
  "NewStringIndexConst v = \<lparr>lc_t = stringIndexConstType, lc_v = v\<rparr>"

definition LocalOrConst_BoolConst :: "LocalOrConst \<Rightarrow> bool" where
  "LocalOrConst_BoolConst l \<longleftrightarrow> lc_v l \<noteq> 0"

definition appendLocal :: "bytes \<Rightarrow> Local \<Rightarrow> bytes" where
  "appendLocal d l = appendUint32 d (word_of_int l)"

definition getLocal :: "bytes \<Rightarrow> u32 \<Rightarrow> Local option" where
  "getLocal d off = map_option uint (getUint32 d off)"

definition getLocalArray :: "bytes \<Rightarrow> u32 \<Rightarrow> Local list option" where
  "getLocalArray d off = do {
     n \<leftarrow> getUint32 d off;
     read_range (\<lambda>i. getLocal d (off + 4 + word_of_nat i * 4)) 0 (unat n) }"

definition getLocalArraySize :: "bytes \<Rightarrow> u32 \<Rightarrow> int option" where
  "getLocalArraySize d off = getInt32ArraySize d off"

definition appendIntArraySize :: "int list \<Rightarrow> int" where
  "appendIntArraySize l = 4 + int (length l) * 4"

definition appendIntArray :: "bytes \<Rightarrow> int list \<Rightarrow> bytes" where
  "appendIntArray d l = foldl appendInt32 (appendUint32 d (word_of_nat (length l))) l"

definition appendLocalArraySize :: "Local list \<Rightarrow> int" where
  "appendLocalArraySize l = 4 + int (length l) * 4"

text \<open>\<open>int32(v)\<close> truncates the local, \<open>appendInt32\<close> writes its bits.\<close>

definition appendLocalArray :: "bytes \<Rightarrow> Local list \<Rightarrow> bytes" where
  "appendLocalArray d l =
     foldl (\<lambda>d v. appendInt32 d (sint (word_of_int v :: u32))) (appendUint32 d (word_of_nat (length l))) l"

definition appendLocalOrConst :: "bytes \<Rightarrow> LocalOrConst \<Rightarrow> bytes option" where
  "appendLocalOrConst d lc =
     (if lc_t lc = localType then
        Some (appendUint32 d (push_bit 24 (word_of_int localType) OR word_of_int (lc_v lc)))
      else if lc_t lc = boolConstType then
        Some (appendUint32 d (push_bit 24 (word_of_int boolConstType) OR
          (if LocalOrConst_BoolConst lc then 1 else 0)))
      else if lc_t lc = stringIndexConstType then
        Some (appendUint32 d (push_bit 24 (word_of_int stringIndexConstType) OR word_of_int (lc_v lc)))
      else None)"

definition getLocalOrConst :: "bytes \<Rightarrow> u32 \<Rightarrow> LocalOrConst option" where
  "getLocalOrConst d off = do {
     v0 \<leftarrow> getUint32 d off;
     let t = uint (drop_bit 24 v0);
     let v = v0 AND 0xffffff;
     if t = localType then Some (NewLocal (uint v))
     else if t = boolConstType then (if v = 0 then Some (NewBoolConst False) else Some (NewBoolConst True))
     else if t = stringIndexConstType then Some (NewStringIndexConst (uint v))
     else None }"

definition getLocalOrConstArray :: "bytes \<Rightarrow> u32 \<Rightarrow> LocalOrConst list option" where
  "getLocalOrConstArray d off = do {
     n \<leftarrow> getUint32 d off;
     read_range (\<lambda>i. getLocalOrConst d (off + 4 + word_of_nat i * 4)) 0 (unat n) }"

definition appendLocalOrConstArraySize :: "LocalOrConst list \<Rightarrow> int" where
  "appendLocalOrConstArraySize l = 4 + int (length l) * 4"

fun appendLocalOrConst_loop :: "bytes \<Rightarrow> LocalOrConst list \<Rightarrow> bytes option" where
  "appendLocalOrConst_loop d [] = Some d"
| "appendLocalOrConst_loop d (l # ls) = do { d1 \<leftarrow> appendLocalOrConst d l; appendLocalOrConst_loop d1 ls }"

definition appendLocalOrConstArray :: "bytes \<Rightarrow> LocalOrConst list \<Rightarrow> bytes option" where
  "appendLocalOrConstArray d l = appendLocalOrConst_loop (appendUint32 d (word_of_nat (length l))) l"

section \<open>Reading what was written\<close>

lemma length_be32 [simp, byte_simps]: "length (be32 w) = 4"
  by (simp add: be32_def)

lemma length_be64 [simp, byte_simps]: "length (be64 w) = 8"
  by (simp add: be64_def)

lemma be32_not_Nil [simp]: "be32 w \<noteq> []"
  by (simp add: be32_def)

lemma byte_of_cases:
  fixes n :: nat
  obtains "n < 8" | "8 \<le> n" "n < 16" | "16 \<le> n" "n < 24" | "24 \<le> n" "n < 32"
    | "32 \<le> n" "n < 40" | "40 \<le> n" "n < 48" | "48 \<le> n" "n < 56" | "56 \<le> n"
  by linarith

lemma BigEndian_Uint32_be32 [simp, byte_simps]: "BigEndian_Uint32 (be32 w @ r) = Some w"
proof -
  have "ucast (ucast w :: u8) OR push_bit 8 (ucast (ucast (drop_bit 8 w) :: u8)) OR
     push_bit 16 (ucast (ucast (drop_bit 16 w) :: u8)) OR push_bit 24 (ucast (ucast (drop_bit 24 w) :: u8)) = w"
    (is "?l = _")
  proof (rule bit_word_eqI)
    fix n assume "n < LENGTH(32)"
    then show "bit ?l n = bit w n"
      by (cases n rule: byte_of_cases) (simp_all add: bit_simps less_diff_conv2)
  qed
  then show ?thesis by (simp add: be32_def)
qed

lemma BigEndian_Uint64_be64 [simp, byte_simps]: "BigEndian_Uint64 (be64 w @ r) = Some w"
proof -
  have "ucast (ucast w :: u8) OR push_bit 8 (ucast (ucast (drop_bit 8 w) :: u8)) OR
     push_bit 16 (ucast (ucast (drop_bit 16 w) :: u8)) OR push_bit 24 (ucast (ucast (drop_bit 24 w) :: u8)) OR
     push_bit 32 (ucast (ucast (drop_bit 32 w) :: u8)) OR push_bit 40 (ucast (ucast (drop_bit 40 w) :: u8)) OR
     push_bit 48 (ucast (ucast (drop_bit 48 w) :: u8)) OR push_bit 56 (ucast (ucast (drop_bit 56 w) :: u8)) = w"
    (is "?l = _")
  proof (rule bit_word_eqI)
    fix n assume "n < LENGTH(64)"
    then show "bit ?l n = bit w n"
      by (cases n rule: byte_of_cases) (simp_all add: bit_simps less_diff_conv2)
  qed
  then show ?thesis by (simp add: be64_def)
qed

lemma slice_from_0 [simp, byte_simps]: "slice_from d 0 = Some d"
  by (simp add: slice_from_def)

lemma slice_from_length: "slice_from d n = Some s \<Longrightarrow> length s \<le> length d"
  by (auto simp: slice_from_def split: if_splits)

lemma slice_from_skip32 [byte_simps]: "4 \<le> n \<Longrightarrow> slice_from (be32 w @ r) n = slice_from r (n - 4)"
  by (auto simp: slice_from_def)

lemma slice_from_skip64 [byte_simps]: "8 \<le> n \<Longrightarrow> slice_from (be64 w @ r) n = slice_from r (n - 8)"
  by (auto simp: slice_from_def)

lemma slice_from_append [byte_simps]: "length p \<le> n \<Longrightarrow> slice_from (p @ r) n = slice_from r (n - length p)"
  by (auto simp: slice_from_def)

lemma unat_minus_numeral: "n \<le> unat (off :: u32) \<Longrightarrow> n < 2 ^ 32 \<Longrightarrow> unat (off - word_of_nat n) = unat off - n"
  by (simp add: unat_sub_if' unat_of_nat)

lemma getUint32_here [simp, byte_simps]:
  "getUint32 (be32 w @ r) 0 = Some w" "getUint32 (be32 w) 0 = Some w"
  using BigEndian_Uint32_be32 [of w "[]"] by (simp_all add: getUint32_def)

lemma getUint32_skip [byte_simps]:
  "4 \<le> unat off \<Longrightarrow> getUint32 (be32 w @ r) off = getUint32 r (off - 4)"
  "8 \<le> unat off \<Longrightarrow> getUint32 (be64 u @ r) off = getUint32 r (off - 8)"
  using unat_minus_numeral [of 4 off] unat_minus_numeral [of 8 off]
  by (simp_all add: getUint32_def slice_from_skip32 slice_from_skip64)

lemma getInt64_here [simp, byte_simps]: "getInt64 (be64 w @ r) 0 = Some (sint w)"
  by (simp add: getInt64_def)

lemma getInt64_skip [byte_simps]: "4 \<le> unat off \<Longrightarrow> getInt64 (be32 w @ r) off = getInt64 r (off - 4)"
  using unat_minus_numeral [of 4 off] by (simp add: getInt64_def slice_from_skip32)

lemma getUint32_at: "unat off = length p \<Longrightarrow> getUint32 (p @ be32 w @ r) off = Some w"
  by (simp add: getUint32_def slice_from_append)

subsection \<open>Locals and operands as words\<close>

definition wf_local :: "Local \<Rightarrow> bool" where
  "wf_local l \<longleftrightarrow> 0 \<le> l \<and> l < 2 ^ 32"

lemma uint_word_of_int_u32: "wf_local l \<Longrightarrow> uint (word_of_int l :: u32) = l"
  by (simp add: wf_local_def unsigned_of_int take_bit_int_eq_self)

definition word_of_lc :: "LocalOrConst \<Rightarrow> u32" where
  "word_of_lc lc = push_bit 24 (word_of_int (lc_t lc)) OR word_of_int (lc_v lc)"

definition wf_lc :: "LocalOrConst \<Rightarrow> bool" where
  "wf_lc lc \<longleftrightarrow> lc_t lc \<in> {0, 1, 2} \<and> 0 \<le> lc_v lc \<and> lc_v lc < (if lc_t lc = 1 then 2 else 2 ^ 24)"

lemma take_bit_of_small: "unat (w :: u32) < 2 ^ n \<Longrightarrow> take_bit n w = w"
  by (rule word_unat_eq_iff [THEN iffD2]) (simp add: unsigned_take_bit_eq take_bit_nat_eq_self)

lemma type_length_word:
  fixes t l :: u32
  assumes "unat t < 2 ^ 8" and "unat l < 2 ^ 24"
  shows "drop_bit 24 (push_bit 24 t OR l) = t" and "(push_bit 24 t OR l) AND 0xffffff = l"
proof -
  have l: "take_bit 24 l = l" using assms(2) by (rule take_bit_of_small)
  have t: "take_bit 8 t = t" using assms(1) by (rule take_bit_of_small)
  have "drop_bit 24 (push_bit 24 t OR l) = take_bit 8 t OR drop_bit 24 (take_bit 24 l)"
    unfolding l by (rule bit_word_eqI) (auto simp: bit_simps)
  also have "\<dots> = t" unfolding t by (simp add: drop_bit_take_bit)
  finally show "drop_bit 24 (push_bit 24 t OR l) = t" .
  have "(push_bit 24 t OR l) AND 0xffffff = take_bit 24 (push_bit 24 t OR l)"
    by (simp add: take_bit_eq_mask mask_eq_exp_minus_1)
  also have "\<dots> = take_bit 24 l"
    by (rule bit_word_eqI) (auto simp: bit_simps)
  finally show "(push_bit 24 t OR l) AND 0xffffff = l" unfolding l .
qed

lemma wf_lc_word:
  assumes "wf_lc lc"
  shows "appendLocalOrConst d lc = Some (d @ be32 (word_of_lc lc))"
proof -
  consider "lc_t lc = 0" | "lc_t lc = 2" | "lc_t lc = 1" "lc_v lc = 0" | "lc_t lc = 1" "lc_v lc = 1"
    using assms unfolding wf_lc_def by (auto split: if_splits) fastforce
  then show ?thesis
    by cases (simp_all add: appendLocalOrConst_def word_of_lc_def appendUint32_def LocalOrConst_BoolConst_def
      localType_def boolConstType_def stringIndexConstType_def)
qed

definition lc_of_word :: "u32 \<Rightarrow> LocalOrConst option" where
  "lc_of_word w = (let t = uint (drop_bit 24 w); v = w AND 0xffffff in
     if t = localType then Some (NewLocal (uint v))
     else if t = boolConstType then Some (NewBoolConst (v \<noteq> 0))
     else if t = stringIndexConstType then Some (NewStringIndexConst (uint v))
     else None)"

lemma getLocalOrConst_alt: "getLocalOrConst d off = do { w \<leftarrow> getUint32 d off; lc_of_word w }"
  by (cases "getUint32 d off") (simp_all add: getLocalOrConst_def lc_of_word_def Let_def)

lemma lc_of_word_of_lc:
  assumes "wf_lc lc"
  shows "lc_of_word (word_of_lc lc) = Some lc"
proof -
  have t: "uint (word_of_int (lc_t lc) :: u32) = lc_t lc" and v: "uint (word_of_int (lc_v lc) :: u32) = lc_v lc"
    using assms by (auto simp: wf_lc_def intro!: uint_word_of_int_u32 simp: wf_local_def split: if_splits)
  have "unat (word_of_int (lc_t lc) :: u32) < 2 ^ 8" "unat (word_of_int (lc_v lc) :: u32) < 2 ^ 24"
    using assms t v by (auto simp: wf_lc_def nat_less_iff simp flip: nat_uint_eq split: if_splits)
  note tl = type_length_word [OF this]
  have b: "lc_v lc = 0 \<or> lc_v lc = 1" if "lc_t lc = 1" using assms that by (auto simp: wf_lc_def)
  show ?thesis
    unfolding lc_of_word_def word_of_lc_def Let_def tl t v
    using assms b by (auto simp: wf_lc_def localType_def boolConstType_def stringIndexConstType_def
        NewLocal_def NewBoolConst_def NewStringIndexConst_def)
qed

definition tl_word :: "u32 \<Rightarrow> nat \<Rightarrow> u32" where
  "tl_word t l = push_bit 24 t OR word_of_nat l"

lemma type_of_tl_word [byte_simps]:
  assumes "unat t < 2 ^ 8" and "l < 2 ^ 24"
  shows "getType (be32 (tl_word t l) @ r) = Some t" "getLen (be32 (tl_word t l) @ r) = Some (word_of_nat l)"
    "getType (be32 (tl_word t l)) = Some t" "getLen (be32 (tl_word t l)) = Some (word_of_nat l)"
proof -
  have "unat (word_of_nat l :: u32) < 2 ^ 24"
    using assms by (simp add: unat_of_nat)
  note tl = type_length_word [OF assms(1) this]
  show "getType (be32 (tl_word t l) @ r) = Some t" "getLen (be32 (tl_word t l) @ r) = Some (word_of_nat l)"
    "getType (be32 (tl_word t l)) = Some t" "getLen (be32 (tl_word t l)) = Some (word_of_nat l)"
    using tl by (simp_all add: getType_def getLen_def tl_word_def)
qed

subsection \<open>Arrays\<close>

abbreviation words :: "u32 list \<Rightarrow> bytes" where
  "words ws \<equiv> concat (map be32 ws)"

lemma length_words [simp, byte_simps]: "length (words ws) = 4 * length ws"
  by (induction ws) simp_all

lemma length_words_comp [simp, byte_simps]:
  "length (concat (map (be32 \<circ> f) xs)) = 4 * length xs"
  "length (concat (map (\<lambda>x. be32 (f x)) xs)) = 4 * length xs"
  by (induction xs) simp_all

lemma unat_u32_small: "n < 2 ^ 32 \<Longrightarrow> unat (word_of_nat n :: u32) = n"
  by (simp add: unat_of_nat)

lemma words_split: "i < length ws \<Longrightarrow> words ws = words (take i ws) @ be32 (ws ! i) @ words (drop (Suc i) ws)"
  by (subst id_take_nth_drop [of i ws]) simp_all

lemma getUint32_words:
  assumes "unat off = length p + 4 * i" and "i < length ws"
  shows "getUint32 (p @ words ws @ r) off = Some (ws ! i)"
  using getUint32_at [of off "p @ words (take i ws)" "ws ! i" "words (drop (Suc i) ws) @ r"] assms
  by (simp add: words_split [OF assms(2)])

lemma read_range_list:
  "(\<And>j. j < length xs \<Longrightarrow> rd (i + j) = Some (xs ! j)) \<Longrightarrow> read_range rd i (length xs) = Some xs"
proof (induction xs arbitrary: i)
  case (Cons x xs)
  have "rd i = Some x" using Cons.prems [of 0] by simp
  moreover have "read_range rd (Suc i) (length xs) = Some xs"
    using Cons.prems [of "Suc _"] by (intro Cons.IH) simp
  ultimately show ?case by simp
qed simp

lemma iter_range_list:
  "(\<And>j. j < length xs \<Longrightarrow> rd (i + j) = Some (xs ! j)) \<Longrightarrow>
   iter_range rd f i (length xs) s = iter_list f i xs s"
proof (induction xs arbitrary: i s)
  case (Cons x xs)
  have "rd i = Some x" using Cons.prems [of 0] by simp
  moreover have "iter_range rd f (Suc i) (length xs) = iter_list f (Suc i) xs"
    using Cons.prems [of "Suc _"] by (intro ext Cons.IH) simp
  ultimately show ?case by simp
qed simp

lemma array_offset:
  fixes off :: u32
  assumes "unat off + 4 + 4 * n < 2 ^ 32" and "i < n"
  shows "unat (off + 4 + word_of_nat i * 4) = unat off + 4 + 4 * i"
proof -
  have "off + 4 + word_of_nat i * 4 = word_of_nat (unat off + 4 + 4 * i)" by simp
  then show ?thesis using assms by (simp only: unat_of_nat) simp
qed

lemma words_array_nth:
  assumes "unat off = length p" and "length p + 4 + 4 * length ws < 2 ^ 32" and "i < length ws"
  shows "getUint32 (p @ be32 n @ words ws @ r) (off + 4 + word_of_nat i * 4) = Some (ws ! i)"
  using getUint32_words [of "off + 4 + word_of_nat i * 4" "p @ be32 n" i ws r] assms
    array_offset [of off "length ws" i] by simp

lemma getLocalArray_at:
  assumes "unat off = length p" and "length p + 4 + 4 * length ls < 2 ^ 32" and "list_all wf_local ls"
  shows "getLocalArray (p @ be32 (word_of_nat (length ls)) @ words (map word_of_int ls) @ r) off = Some ls"
proof -
  let ?d = "p @ be32 (word_of_nat (length ls)) @ words (map word_of_int ls) @ r"
  have "unat (word_of_nat (length ls) :: u32) = length ls"
    using assms(2) by (simp add: unat_of_nat)
  moreover have "read_range (\<lambda>i. getLocal ?d (off + 4 + word_of_nat i * 4)) 0 (length ls) = Some ls"
    using assms words_array_nth [of off p "map word_of_int ls"]
    by (intro read_range_list) (auto simp: getLocal_def uint_word_of_int_u32 list_all_length)
  ultimately show ?thesis
    using assms(1) by (simp add: getLocalArray_def getUint32_at)
qed

lemma getLocalOrConstArray_at:
  assumes "unat off = length p" and "length p + 4 + 4 * length ls < 2 ^ 32" and "list_all wf_lc ls"
  shows "getLocalOrConstArray (p @ be32 (word_of_nat (length ls)) @ words (map word_of_lc ls) @ r) off = Some ls"
proof -
  let ?d = "p @ be32 (word_of_nat (length ls)) @ words (map word_of_lc ls) @ r"
  have "unat (word_of_nat (length ls) :: u32) = length ls"
    using assms(2) by (simp add: unat_of_nat)
  moreover have "read_range (\<lambda>i. getLocalOrConst ?d (off + 4 + word_of_nat i * 4)) 0 (length ls) = Some ls"
    using assms words_array_nth [of off p "map word_of_lc ls"]
    by (intro read_range_list) (auto simp: getLocalOrConst_alt lc_of_word_of_lc list_all_length)
  ultimately show ?thesis
    using assms(1) by (simp add: getLocalOrConstArray_def getUint32_at)
qed

subsection \<open>Closed forms of the array writers\<close>

lemma foldl_append_words: "foldl (\<lambda>d v. d @ be32 (g v)) d xs = d @ words (map g xs)"
  by (induction xs arbitrary: d) simp_all

lemma appendLocalArray_eq [writer_simps]:
  "appendLocalArray d ls = d @ be32 (word_of_nat (length ls)) @ words (map word_of_int ls)"
  by (simp add: appendLocalArray_def appendInt32_def appendUint32_def foldl_append_words)

lemma appendIntArray_eq [writer_simps]:
  "appendIntArray d ls = d @ be32 (word_of_nat (length ls)) @ words (map word_of_int ls)"
  by (simp add: appendIntArray_def appendInt32_def [abs_def] appendUint32_def foldl_append_words)

lemma appendLocalOrConst_loop_eq:
  "list_all wf_lc ls \<Longrightarrow> appendLocalOrConst_loop d ls = Some (d @ words (map word_of_lc ls))"
  by (induction ls arbitrary: d) (simp_all add: wf_lc_word)

lemma appendLocalOrConstArray_eq [writer_simps]:
  "list_all wf_lc ls \<Longrightarrow>
   appendLocalOrConstArray d ls = Some (d @ be32 (word_of_nat (length ls)) @ words (map word_of_lc ls))"
  by (simp add: appendLocalOrConstArray_def appendUint32_def appendLocalOrConst_loop_eq)

lemmas append_defs [writer_simps] = appendUint32_def appendInt32_def appendInt64_def appendLocal_def
  appendString_def appendBool_def appendOffsetIndex_def

lemma putUint32_0 [writer_simps]: "putUint32 (be32 x @ r) 0 v = Some (be32 v @ r)" "putUint32 (be32 x) 0 v = Some (be32 v)"
  by (simp_all add: putUint32_def put_at_def)

subsection \<open>Offset tables\<close>

fun offsets_from :: "nat \<Rightarrow> nat list \<Rightarrow> nat list" where
  "offsets_from s [] = []"
| "offsets_from s (l # ls) = s # offsets_from (s + l) ls"

lemma length_offsets_from [simp]: "length (offsets_from s ls) = length ls"
  by (induction ls arbitrary: s) simp_all

lemma offsets_from_nth: "i < length ls \<Longrightarrow> offsets_from s ls ! i = s + sum_list (take i ls)"
proof (induction ls arbitrary: s i)
  case (Cons l ls)
  then show ?case by (cases i) simp_all
qed simp

lemma put_at_append: "length P = n \<Longrightarrow> length Z = 4 \<Longrightarrow> put_at (P @ Z @ r) n v = Some (P @ be32 v @ r)"
  by (simp add: put_at_def)

lemma table_offset:
  fixes off :: u32
  assumes "unat off + 4 * i < 2 ^ 32"
  shows "unat (off + word_of_int (int i * 4)) = unat off + 4 * i"
proof -
  have "off + word_of_int (int i * 4) = word_of_nat (unat off + 4 * i)" by simp
  then show ?thesis using assms by (simp only: unat_of_nat) simp
qed

lemma append_indexed_eq:
  assumes enc: "\<And>x d. enc x d = d @ e x"
    and "unat off = length p" and "length ws = i" and "base \<le> length p"
    and "length p + 4 * (i + length xs) < 2 ^ 32"
  shows "append_indexed enc off base i xs (p @ words ws @ replicate (4 * length xs) 0 @ body) =
    Some (p @ words (ws @ map word_of_nat (offsets_from (length p + 4 * (i + length xs) + length body - base)
       (map (length \<circ> e) xs))) @ body @ concat (map e xs))"
  using assms(2-)
proof (induction xs arbitrary: i ws body)
  case (Cons x xs)
  let ?pos = "length p + 4 * (i + length (x # xs)) + length body - base"
  let ?z = "replicate (4 * length xs) (0 :: u8)"
  have z: "replicate (4 * length (x # xs)) 0 = replicate 4 (0 :: u8) @ ?z"
    by (simp add: replicate_add [symmetric])
  have put: "putOffsetIndex (p @ words ws @ replicate (4 * length (x # xs)) 0 @ body) off (int i) v
     = Some (p @ words (ws @ [v]) @ ?z @ body)" for v
    using Cons.prems put_at_append [of "p @ words ws" "length p + 4 * i" "replicate 4 0" "?z @ body" v]
    unfolding putOffsetIndex_def z by (subst table_offset) (simp_all add: Cons.prems)
  have "append_indexed enc off base (Suc i) xs (p @ words (ws @ [word_of_nat ?pos]) @ ?z @ (body @ e x)) =
    Some (p @ words ((ws @ [word_of_nat ?pos]) @ map word_of_nat (offsets_from (length p + 4 * (Suc i + length xs) +
       length (body @ e x) - base) (map (length \<circ> e) xs))) @ (body @ e x) @ concat (map e xs))"
    using Cons.prems by (intro Cons.IH) simp_all
  moreover have "length (p @ words ws @ replicate (4 * length (x # xs)) 0 @ body) - base = ?pos"
    using Cons.prems by simp
  moreover have "?pos + length (e x) = length p + 4 * (Suc i + length xs) + length (body @ e x) - base"
    using Cons.prems by simp
  ultimately show ?case
    unfolding append_indexed.simps put by (simp add: enc comp_def)
qed simp

text \<open>The data an offset table is written for: the elements follow the table, the table holds their
  positions counted from \<open>h\<close>.\<close>

definition table :: "nat \<Rightarrow> bytes list \<Rightarrow> bytes" where
  "table h es = words (map word_of_nat (offsets_from (h + 4 * length es) (map length es))) @ concat es"

lemma length_table [simp]: "length (table h es) = 4 * length es + length (concat es)"
  by (simp add: table_def)

lemma append_indexed_table:
  assumes "\<And>x d. enc x d = d @ e x" and "unat off = length p" and "base \<le> length p"
    and "length p + 4 * length xs < 2 ^ 32"
  shows "append_indexed enc off base 0 xs (p @ replicate (4 * length xs) 0) =
    Some (p @ table (length p - base) (map e xs))"
proof -
  have "length p + 4 * length xs - base = length p - base + 4 * length xs" using assms(3) by simp
  then show ?thesis
    using append_indexed_eq [of enc e off p "[]" 0 base xs "[]"] assms
    by (simp add: table_def)
qed

lemma sum_list_take_le: "sum_list (take i (map length es)) \<le> length (concat es)"
  by (induction es arbitrary: i) (simp_all add: take_Cons' length_concat)

lemma drop_concat: "drop (sum_list (take i (map length es))) (concat es @ r) = concat (drop i es) @ r"
proof (induction es arbitrary: i)
  case (Cons e es)
  then show ?case by (cases i) simp_all
qed simp

lemma table_lookup:
  assumes "unat off = length p" and "h = length p" and "i < length es"
    and "length p + length (table h es) < 2 ^ 32"
  obtains pos where "getOffsetIndex (p @ table h es @ r) off (int i) = Some pos"
    "slice_from (p @ table h es @ r) (unat pos) = Some (es ! i @ concat (drop (Suc i) es) @ r)"
proof
  let ?n = "h + 4 * length es + sum_list (take i (map length es))"
  have small: "?n < 2 ^ 32" using sum_list_take_le [of i es] assms by simp
  have "off + word_of_int (int i) * 4 = off + word_of_int (int i * 4)" by simp
  then have "unat (off + word_of_int (int i) * 4) = length p + 4 * i"
    using table_offset [of off i] assms by simp
  then show "getOffsetIndex (p @ table h es @ r) off (int i) = Some (word_of_nat ?n)"
    using getUint32_words [of _ p i "map word_of_nat (offsets_from (h + 4 * length es) (map length es))" "concat es @ r"]
      assms by (simp add: getOffsetIndex_def table_def offsets_from_nth)
  have "concat (drop i es) = es ! i @ concat (drop (Suc i) es)"
    using assms(3) by (metis Cons_nth_drop_Suc concat.simps(2))
  then show "slice_from (p @ table h es @ r) (unat (word_of_nat ?n :: u32)) = Some (es ! i @ concat (drop (Suc i) es) @ r)"
    unfolding unat_u32_small [OF small] using sum_list_take_le [of i es] assms drop_concat [of i es r]
    by (simp add: slice_from_def table_def)
qed

subsection \<open>Strings\<close>

abbreviation enc_string :: "gostring \<Rightarrow> bytes" where
  "enc_string s \<equiv> be32 (word_of_nat (length s)) @ s"

lemma getString_at:
  assumes "unat off = length p" and "length p + 4 + length s < 2 ^ 32" and "s @ r \<noteq> []"
  shows "getString (p @ enc_string s @ r) off = Some s"
proof -
  have "unat (off + 4) = length p + 4"
  proof -
    have "off + 4 = word_of_nat (unat off + 4)" by simp
    then show ?thesis using assms by (simp only: unat_of_nat) simp
  qed
  moreover have "unat (word_of_nat (length s) :: u32) = length s" using assms by (simp add: unat_of_nat)
  moreover have "0 < length s + length r" using assms(3) by auto
  ultimately show ?thesis using assms by (simp add: getString_def getUint32_at)
qed

lemma getString_slice:
  assumes "slice_from d (unat off) = Some (enc_string s @ r)" and "length d < 2 ^ 32" and "s @ r \<noteq> []"
  shows "getString d off = Some s"
proof -
  have "unat off \<le> length d" and "drop (unat off) d = enc_string s @ r"
    using assms(1) by (auto simp: slice_from_def split: if_splits)
  then have "d = take (unat off) d @ enc_string s @ r" "length (take (unat off) d) = unat off"
    by (metis append_take_drop_id, simp)
  moreover from this have "length d = unat off + length (enc_string s @ r)"
    by (metis length_append)
  ultimately show ?thesis
    using getString_at [of off "take (unat off) d" s r] assms by simp
qed

lemma appendStringArray_eq [writer_simps]:
  assumes "length d + 4 + 4 * length ss < 2 ^ 32"
  shows "appendStringArray d ss = Some (d @ be32 (word_of_nat (length ss)) @ table 4 (map enc_string ss))"
  using assms unat_u32_small [of "length d + 4"] append_indexed_table [of "\<lambda>s d. appendString d s" enc_string "word_of_nat (length d + 4)"
      "d @ be32 (word_of_nat (length ss))" "length d" ss]
  by (simp add: appendStringArray_def Let_def append_defs)

lemma string_table_nth:
  assumes "length (be32 n @ table 4 (map enc_string ss)) < 2 ^ 32"
    and "length (be32 n @ table 4 (map enc_string ss) @ r) < 2 ^ 32" and "i < length ss"
    and "last ss \<noteq> [] \<or> r \<noteq> []"
  shows "do { so \<leftarrow> getOffsetIndex (be32 n @ table 4 (map enc_string ss) @ r) 4 (int i);
       getString (be32 n @ table 4 (map enc_string ss) @ r) so } = Some (ss ! i)"
proof -
  obtain pos where pos: "getOffsetIndex (be32 n @ table 4 (map enc_string ss) @ r) 4 (int i) = Some pos"
    "slice_from (be32 n @ table 4 (map enc_string ss) @ r) (unat pos) =
       Some (map enc_string ss ! i @ concat (drop (Suc i) (map enc_string ss)) @ r)"
  proof (rule table_lookup [of 4 "be32 n" 4 i "map enc_string ss" r])
    show "length (be32 n) + length (table 4 (map enc_string ss)) < 2 ^ 32"
      using assms(1) by (simp only: length_append)
  qed (use assms(3) in simp_all)
  have "ss ! i @ concat (drop (Suc i) (map enc_string ss)) @ r \<noteq> []"
  proof (cases "Suc i = length ss")
    case True
    then have "last ss = ss ! i" by (cases ss rule: rev_cases) auto
    then show ?thesis using assms(4) by auto
  next
    case False
    then have "drop (Suc i) ss \<noteq> []" using assms(3) by simp
    then show ?thesis by (cases "drop (Suc i) ss") (auto simp: drop_map)
  qed
  then show ?thesis
    using getString_slice [OF _ assms(2), of pos "ss ! i" "concat (drop (Suc i) (map enc_string ss)) @ r"]
      pos assms(3) by simp
qed

lemma getStringArray_at:
  assumes "slice_from d (unat off) = Some (be32 (word_of_nat (length ss)) @ table 4 (map enc_string ss) @ r)"
    and "length d < 2 ^ 32" and "ss = [] \<or> last ss \<noteq> [] \<or> r \<noteq> []"
  shows "getStringArray d off = Some ss"
proof -
  let ?s = "be32 (word_of_nat (length ss)) @ table 4 (map enc_string ss) @ r"
  have len: "length ?s < 2 ^ 32"
    using slice_from_length [OF assms(1)] assms(2) by (rule le_less_trans)
  have n: "unat (word_of_nat (length ss) :: u32) = length ss"
    using len by (simp add: unat_of_nat)
  have "read_range (\<lambda>i. do { so \<leftarrow> getOffsetIndex ?s 4 (int i); getString ?s so }) 0 (length ss) = Some ss"
  proof (rule read_range_list)
    fix j assume "j < length ss"
    moreover from this have "last ss \<noteq> [] \<or> r \<noteq> []" using assms(3) by auto
    moreover have "length (be32 (word_of_nat (length ss)) @ table 4 (map enc_string ss)) \<le> length ?s"
      by (simp only: length_append)
    ultimately show "do { so \<leftarrow> getOffsetIndex ?s 4 (int (0 + j)); getString ?s so } = Some (ss ! j)"
      using len unfolding add_0 by (intro string_table_nth; linarith)
  qed
  then show ?thesis using assms(1) n by (simp add: getStringArray_def)
qed


end
