(* ===== verification/Executable.thy ===== *)
theory Executable
  imports Bytes
begin

text \<open>
  The executable format of src/pkg/vm/executable.go: one encoder and one set of readers for every
  statement, and for blocks, functions, plans, the string table and the file header.  Names follow the
  Go receivers: \<open>assignInt_Write\<close> is \<open>assignInt.Write\<close>, \<open>assignInt_Value\<close> the method \<open>Value\<close>.  The lemmas \<open>*_read\<close>
  show that each reader returns what the encoder was given, with arbitrary data after the encoding,
  which is how the reader sees it: a statement is a slice that runs to the end of the file.
\<close>

section \<open>Statement types\<close>

definition typeStatementArrayAppend :: u32 where [simp]: "typeStatementArrayAppend = 1"
definition typeStatementAssignInt :: u32 where [simp]: "typeStatementAssignInt = 2"
definition typeStatementAssignVar :: u32 where [simp]: "typeStatementAssignVar = 3"
definition typeStatementAssignVarOnce :: u32 where [simp]: "typeStatementAssignVarOnce = 4"
definition typeStatementBlockStmt :: u32 where [simp]: "typeStatementBlockStmt = 5"
definition typeStatementBreakStmt :: u32 where [simp]: "typeStatementBreakStmt = 6"
definition typeStatementCall :: u32 where [simp]: "typeStatementCall = 7"
definition typeStatementCallDynamic :: u32 where [simp]: "typeStatementCallDynamic = 8"
definition typeStatementDot :: u32 where [simp]: "typeStatementDot = 9"
definition typeStatementEqual :: u32 where [simp]: "typeStatementEqual = 10"
definition typeStatementIsArray :: u32 where [simp]: "typeStatementIsArray = 11"
definition typeStatementIsDefined :: u32 where [simp]: "typeStatementIsDefined = 12"
definition typeStatementIsObject :: u32 where [simp]: "typeStatementIsObject = 13"
definition typeStatementIsSet :: u32 where [simp]: "typeStatementIsSet = 14"
definition typeStatementIsUndefined :: u32 where [simp]: "typeStatementIsUndefined = 15"
definition typeStatementLen :: u32 where [simp]: "typeStatementLen = 16"
definition typeStatementMakeArray :: u32 where [simp]: "typeStatementMakeArray = 17"
definition typeStatementMakeNull :: u32 where [simp]: "typeStatementMakeNull = 18"
definition typeStatementMakeNumberInt :: u32 where [simp]: "typeStatementMakeNumberInt = 19"
definition typeStatementMakeNumberRef :: u32 where [simp]: "typeStatementMakeNumberRef = 20"
definition typeStatementMakeObject :: u32 where [simp]: "typeStatementMakeObject = 21"
definition typeStatementMakeSet :: u32 where [simp]: "typeStatementMakeSet = 22"
definition typeStatementNop :: u32 where [simp]: "typeStatementNop = 23"
definition typeStatementNot :: u32 where [simp]: "typeStatementNot = 24"
definition typeStatementNotEqual :: u32 where [simp]: "typeStatementNotEqual = 25"
definition typeStatementObjectInsert :: u32 where [simp]: "typeStatementObjectInsert = 26"
definition typeStatementObjectInsertOnce :: u32 where [simp]: "typeStatementObjectInsertOnce = 27"
definition typeStatementObjectMerge :: u32 where [simp]: "typeStatementObjectMerge = 28"
definition typeStatementResetLocal :: u32 where [simp]: "typeStatementResetLocal = 29"
definition typeStatementResultSetAdd :: u32 where [simp]: "typeStatementResultSetAdd = 30"
definition typeStatementReturnLocal :: u32 where [simp]: "typeStatementReturnLocal = 31"
definition typeStatementScan :: u32 where [simp]: "typeStatementScan = 32"
definition typeStatementSetAdd :: u32 where [simp]: "typeStatementSetAdd = 33"
definition typeStatementWith :: u32 where [simp]: "typeStatementWith = 34"

section \<open>Statements of a fixed layout\<close>

text \<open>Every statement encoder ends alike: it panics when the size it computed is not the size written,
  then patches the type and length into the first word.\<close>

definition finish_stmt :: "int \<Rightarrow> u32 \<Rightarrow> bytes \<Rightarrow> bytes option" where
  "finish_stmt l t d = (if l \<noteq> int (length d) then None else putTypeLength d 0 t (word_of_nat (length d)))"

definition assignInt_Write :: "int \<Rightarrow> Local \<Rightarrow> bytes option" where
  "assignInt_Write value target = do {
     let d = appendUint32 [] 0;
     let d = appendInt64 d value;
     let d = appendLocal d target;
     finish_stmt (4 + 8 + 4) typeStatementAssignInt d
   }"

definition assignInt_Value :: "bytes \<Rightarrow> int option" where
  "assignInt_Value d = getInt64 d 4"

definition assignInt_Target :: "bytes \<Rightarrow> Local option" where
  "assignInt_Target d = getLocal d 12"

definition assignInt_Type :: "bytes \<Rightarrow> u32 option" where
  "assignInt_Type d = getType d"

definition assignVar_Write :: "LocalOrConst \<Rightarrow> Local \<Rightarrow> bytes option" where
  "assignVar_Write source target = do {
     let d = appendUint32 [] 0;
     let d = appendLocal d target;
     d \<leftarrow> appendLocalOrConst d source;
     finish_stmt (4 + 4 + 4) typeStatementAssignVar d
   }"

definition assignVar_Source :: "bytes \<Rightarrow> LocalOrConst option" where
  "assignVar_Source d = getLocalOrConst d 8"

definition assignVar_Target :: "bytes \<Rightarrow> Local option" where
  "assignVar_Target d = getLocal d 4"

definition assignVar_Type :: "bytes \<Rightarrow> u32 option" where
  "assignVar_Type d = getType d"

definition assignVarOnce_Write :: "LocalOrConst \<Rightarrow> Local \<Rightarrow> bytes option" where
  "assignVarOnce_Write source target = do {
     let d = appendUint32 [] 0;
     let d = appendLocal d target;
     d \<leftarrow> appendLocalOrConst d source;
     finish_stmt (4 + 4 + 4) typeStatementAssignVarOnce d
   }"

definition assignVarOnce_Source :: "bytes \<Rightarrow> LocalOrConst option" where
  "assignVarOnce_Source d = getLocalOrConst d 8"

definition assignVarOnce_Target :: "bytes \<Rightarrow> Local option" where
  "assignVarOnce_Target d = getLocal d 4"

definition assignVarOnce_Type :: "bytes \<Rightarrow> u32 option" where
  "assignVarOnce_Type d = getType d"

definition breakStmt_Write :: "u32 \<Rightarrow> bytes option" where
  "breakStmt_Write index = do {
     let d = appendUint32 [] 0;
     let d = appendUint32 d index;
     finish_stmt (4 + 4) typeStatementBreakStmt d
   }"

definition breakStmt_Index :: "bytes \<Rightarrow> u32 option" where
  "breakStmt_Index d = getUint32 d 4"

definition breakStmt_Type :: "bytes \<Rightarrow> u32 option" where
  "breakStmt_Type d = getType d"

definition dot_Write :: "LocalOrConst \<Rightarrow> LocalOrConst \<Rightarrow> Local \<Rightarrow> bytes option" where
  "dot_Write source key target = do {
     let d = appendUint32 [] 0;
     let d = appendLocal d target;
     d \<leftarrow> appendLocalOrConst d source;
     d \<leftarrow> appendLocalOrConst d key;
     finish_stmt (4 + 4 + 4 + 4) typeStatementDot d
   }"

definition dot_Source :: "bytes \<Rightarrow> LocalOrConst option" where
  "dot_Source d = getLocalOrConst d 8"

definition dot_Key :: "bytes \<Rightarrow> LocalOrConst option" where
  "dot_Key d = getLocalOrConst d 12"

definition dot_Target :: "bytes \<Rightarrow> Local option" where
  "dot_Target d = getLocal d 4"

definition dot_Type :: "bytes \<Rightarrow> u32 option" where
  "dot_Type d = getType d"

definition equal_Write :: "LocalOrConst \<Rightarrow> LocalOrConst \<Rightarrow> bytes option" where
  "equal_Write aa bb = do {
     let d = appendUint32 [] 0;
     d \<leftarrow> appendLocalOrConst d aa;
     d \<leftarrow> appendLocalOrConst d bb;
     finish_stmt (4 + 4 + 4) typeStatementEqual d
   }"

definition equal_A :: "bytes \<Rightarrow> LocalOrConst option" where
  "equal_A d = getLocalOrConst d 4"

definition equal_B :: "bytes \<Rightarrow> LocalOrConst option" where
  "equal_B d = getLocalOrConst d 8"

definition equal_Type :: "bytes \<Rightarrow> u32 option" where
  "equal_Type d = getType d"

definition isArray_Write :: "LocalOrConst \<Rightarrow> bytes option" where
  "isArray_Write source = do {
     let d = appendUint32 [] 0;
     d \<leftarrow> appendLocalOrConst d source;
     finish_stmt (4 + 4) typeStatementIsArray d
   }"

definition isArray_Source :: "bytes \<Rightarrow> LocalOrConst option" where
  "isArray_Source d = getLocalOrConst d 4"

definition isArray_Type :: "bytes \<Rightarrow> u32 option" where
  "isArray_Type d = getType d"

definition isObject_Write :: "LocalOrConst \<Rightarrow> bytes option" where
  "isObject_Write source = do {
     let d = appendUint32 [] 0;
     d \<leftarrow> appendLocalOrConst d source;
     finish_stmt (4 + 4) typeStatementIsObject d
   }"

definition isObject_Source :: "bytes \<Rightarrow> LocalOrConst option" where
  "isObject_Source d = getLocalOrConst d 4"

definition isObject_Type :: "bytes \<Rightarrow> u32 option" where
  "isObject_Type d = getType d"

definition isSet_Write :: "LocalOrConst \<Rightarrow> bytes option" where
  "isSet_Write source = do {
     let d = appendUint32 [] 0;
     d \<leftarrow> appendLocalOrConst d source;
     finish_stmt (4 + 4) typeStatementIsSet d
   }"

definition isSet_Source :: "bytes \<Rightarrow> LocalOrConst option" where
  "isSet_Source d = getLocalOrConst d 4"

definition isSet_Type :: "bytes \<Rightarrow> u32 option" where
  "isSet_Type d = getType d"

definition isDefined_Write :: "Local \<Rightarrow> bytes option" where
  "isDefined_Write source = do {
     let d = appendUint32 [] 0;
     let d = appendLocal d source;
     finish_stmt (4 + 4) typeStatementIsDefined d
   }"

definition isDefined_Source :: "bytes \<Rightarrow> Local option" where
  "isDefined_Source d = getLocal d 4"

definition isDefined_Type :: "bytes \<Rightarrow> u32 option" where
  "isDefined_Type d = getType d"

definition isUndefined_Write :: "Local \<Rightarrow> bytes option" where
  "isUndefined_Write source = do {
     let d = appendUint32 [] 0;
     let d = appendLocal d source;
     finish_stmt (4 + 4) typeStatementIsUndefined d
   }"

definition isUndefined_Source :: "bytes \<Rightarrow> Local option" where
  "isUndefined_Source d = getLocal d 4"

definition isUndefined_Type :: "bytes \<Rightarrow> u32 option" where
  "isUndefined_Type d = getType d"

definition makeNull_Write :: "Local \<Rightarrow> bytes option" where
  "makeNull_Write target = do {
     let d = appendUint32 [] 0;
     let d = appendLocal d target;
     finish_stmt (4 + 4) typeStatementMakeNull d
   }"

definition makeNull_Target :: "bytes \<Rightarrow> Local option" where
  "makeNull_Target d = getLocal d 4"

definition makeNull_Type :: "bytes \<Rightarrow> u32 option" where
  "makeNull_Type d = getType d"

definition makeNumberInt_Write :: "int \<Rightarrow> Local \<Rightarrow> bytes option" where
  "makeNumberInt_Write value target = do {
     let d = appendUint32 [] 0;
     let d = appendInt64 d value;
     let d = appendLocal d target;
     finish_stmt (4 + 8 + 4) typeStatementMakeNumberInt d
   }"

definition makeNumberInt_Value :: "bytes \<Rightarrow> int option" where
  "makeNumberInt_Value d = getInt64 d 4"

definition makeNumberInt_Target :: "bytes \<Rightarrow> Local option" where
  "makeNumberInt_Target d = getLocal d 12"

definition makeNumberInt_Type :: "bytes \<Rightarrow> u32 option" where
  "makeNumberInt_Type d = getType d"

definition makeNumberRef_Write :: "int \<Rightarrow> Local \<Rightarrow> bytes option" where
  "makeNumberRef_Write index target = do {
     let d = appendUint32 [] 0;
     let d = appendUint32 d (word_of_int index);
     let d = appendLocal d target;
     finish_stmt (4 + 4 + 4) typeStatementMakeNumberRef d
   }"

definition makeNumberRef_Index :: "bytes \<Rightarrow> int option" where
  "makeNumberRef_Index d = map_option uint (getUint32 d 4)"

definition makeNumberRef_Target :: "bytes \<Rightarrow> Local option" where
  "makeNumberRef_Target d = getLocal d 8"

definition makeNumberRef_Type :: "bytes \<Rightarrow> u32 option" where
  "makeNumberRef_Type d = getType d"

definition makeArray_Write :: "int \<Rightarrow> Local \<Rightarrow> bytes option" where
  "makeArray_Write capacity target = do {
     let d = appendUint32 [] 0;
     let d = appendInt32 d capacity;
     let d = appendLocal d target;
     finish_stmt (4 + 4 + 4) typeStatementMakeArray d
   }"

definition makeArray_Capacity :: "bytes \<Rightarrow> int option" where
  "makeArray_Capacity d = getInt32 d 4"

definition makeArray_Target :: "bytes \<Rightarrow> Local option" where
  "makeArray_Target d = getLocal d 8"

definition makeArray_Type :: "bytes \<Rightarrow> u32 option" where
  "makeArray_Type d = getType d"

definition makeObject_Write :: "Local \<Rightarrow> bytes option" where
  "makeObject_Write target = do {
     let d = appendUint32 [] 0;
     let d = appendLocal d target;
     finish_stmt (4 + 4) typeStatementMakeObject d
   }"

definition makeObject_Target :: "bytes \<Rightarrow> Local option" where
  "makeObject_Target d = getLocal d 4"

definition makeObject_Type :: "bytes \<Rightarrow> u32 option" where
  "makeObject_Type d = getType d"

definition makeSet_Write :: "Local \<Rightarrow> bytes option" where
  "makeSet_Write target = do {
     let d = appendUint32 [] 0;
     let d = appendLocal d target;
     finish_stmt (4 + 4) typeStatementMakeSet d
   }"

definition makeSet_Target :: "bytes \<Rightarrow> Local option" where
  "makeSet_Target d = getLocal d 4"

definition makeSet_Type :: "bytes \<Rightarrow> u32 option" where
  "makeSet_Type d = getType d"

definition notEqual_Write :: "LocalOrConst \<Rightarrow> LocalOrConst \<Rightarrow> bytes option" where
  "notEqual_Write aa bb = do {
     let d = appendUint32 [] 0;
     d \<leftarrow> appendLocalOrConst d aa;
     d \<leftarrow> appendLocalOrConst d bb;
     finish_stmt (4 + 4 + 4) typeStatementNotEqual d
   }"

definition notEqual_A :: "bytes \<Rightarrow> LocalOrConst option" where
  "notEqual_A d = getLocalOrConst d 4"

definition notEqual_B :: "bytes \<Rightarrow> LocalOrConst option" where
  "notEqual_B d = getLocalOrConst d 8"

definition notEqual_Type :: "bytes \<Rightarrow> u32 option" where
  "notEqual_Type d = getType d"

definition lenStmt_Write :: "LocalOrConst \<Rightarrow> Local \<Rightarrow> bytes option" where
  "lenStmt_Write source target = do {
     let d = appendUint32 [] 0;
     let d = appendLocal d target;
     d \<leftarrow> appendLocalOrConst d source;
     finish_stmt (4 + 4 + 4) typeStatementLen d
   }"

definition lenStmt_Source :: "bytes \<Rightarrow> LocalOrConst option" where
  "lenStmt_Source d = getLocalOrConst d 8"

definition lenStmt_Target :: "bytes \<Rightarrow> Local option" where
  "lenStmt_Target d = getLocal d 4"

definition lenStmt_Type :: "bytes \<Rightarrow> u32 option" where
  "lenStmt_Type d = getType d"

definition arrayAppend_Write :: "LocalOrConst \<Rightarrow> Local \<Rightarrow> bytes option" where
  "arrayAppend_Write value array = do {
     let d = appendUint32 [] 0;
     let d = appendLocal d array;
     d \<leftarrow> appendLocalOrConst d value;
     finish_stmt (4 + 4 + 4) typeStatementArrayAppend d
   }"

definition arrayAppend_Value :: "bytes \<Rightarrow> LocalOrConst option" where
  "arrayAppend_Value d = getLocalOrConst d 8"

definition arrayAppend_Array :: "bytes \<Rightarrow> Local option" where
  "arrayAppend_Array d = getLocal d 4"

definition arrayAppend_Type :: "bytes \<Rightarrow> u32 option" where
  "arrayAppend_Type d = getType d"

definition setAdd_Write :: "LocalOrConst \<Rightarrow> Local \<Rightarrow> bytes option" where
  "setAdd_Write value set' = do {
     let d = appendUint32 [] 0;
     let d = appendLocal d set';
     d \<leftarrow> appendLocalOrConst d value;
     finish_stmt (4 + 4 + 4) typeStatementSetAdd d
   }"

definition setAdd_Value :: "bytes \<Rightarrow> LocalOrConst option" where
  "setAdd_Value d = getLocalOrConst d 8"

definition setAdd_Set :: "bytes \<Rightarrow> Local option" where
  "setAdd_Set d = getLocal d 4"

definition setAdd_Type :: "bytes \<Rightarrow> u32 option" where
  "setAdd_Type d = getType d"

definition objectInsertOnce_Write :: "LocalOrConst \<Rightarrow> LocalOrConst \<Rightarrow> Local \<Rightarrow> bytes option" where
  "objectInsertOnce_Write key value obj = do {
     let d = appendUint32 [] 0;
     let d = appendLocal d obj;
     d \<leftarrow> appendLocalOrConst d key;
     d \<leftarrow> appendLocalOrConst d value;
     finish_stmt (4 + 4 + 4 + 4) typeStatementObjectInsertOnce d
   }"

definition objectInsertOnce_Key :: "bytes \<Rightarrow> LocalOrConst option" where
  "objectInsertOnce_Key d = getLocalOrConst d 8"

definition objectInsertOnce_Value :: "bytes \<Rightarrow> LocalOrConst option" where
  "objectInsertOnce_Value d = getLocalOrConst d 12"

definition objectInsertOnce_Object :: "bytes \<Rightarrow> Local option" where
  "objectInsertOnce_Object d = getLocal d 4"

definition objectInsertOnce_Type :: "bytes \<Rightarrow> u32 option" where
  "objectInsertOnce_Type d = getType d"

definition objectInsert_Write :: "LocalOrConst \<Rightarrow> LocalOrConst \<Rightarrow> Local \<Rightarrow> bytes option" where
  "objectInsert_Write key value obj = do {
     let d = appendUint32 [] 0;
     let d = appendLocal d obj;
     d \<leftarrow> appendLocalOrConst d key;
     d \<leftarrow> appendLocalOrConst d value;
     finish_stmt (4 + 4 + 4 + 4) typeStatementObjectInsert d
   }"

definition objectInsert_Key :: "bytes \<Rightarrow> LocalOrConst option" where
  "objectInsert_Key d = getLocalOrConst d 8"

definition objectInsert_Value :: "bytes \<Rightarrow> LocalOrConst option" where
  "objectInsert_Value d = getLocalOrConst d 12"

definition objectInsert_Object :: "bytes \<Rightarrow> Local option" where
  "objectInsert_Object d = getLocal d 4"

definition objectInsert_Type :: "bytes \<Rightarrow> u32 option" where
  "objectInsert_Type d = getType d"

definition objectMerge_Write :: "Local \<Rightarrow> Local \<Rightarrow> Local \<Rightarrow> bytes option" where
  "objectMerge_Write a b target = do {
     let d = appendUint32 [] 0;
     let d = appendLocal d a;
     let d = appendLocal d b;
     let d = appendLocal d target;
     finish_stmt (4 + 4 + 4 + 4) typeStatementObjectMerge d
   }"

definition objectMerge_A :: "bytes \<Rightarrow> Local option" where
  "objectMerge_A d = getLocal d 4"

definition objectMerge_B :: "bytes \<Rightarrow> Local option" where
  "objectMerge_B d = getLocal d 8"

definition objectMerge_Target :: "bytes \<Rightarrow> Local option" where
  "objectMerge_Target d = getLocal d 12"

definition objectMerge_Type :: "bytes \<Rightarrow> u32 option" where
  "objectMerge_Type d = getType d"

definition nop_Write :: "bytes option" where
  "nop_Write = do {
     let d = appendUint32 [] 0;
     finish_stmt (4) typeStatementNop d
   }"

definition nop_Type :: "bytes \<Rightarrow> u32 option" where
  "nop_Type d = getType d"

definition resetLocal_Write :: "Local \<Rightarrow> bytes option" where
  "resetLocal_Write target = do {
     let d = appendUint32 [] 0;
     let d = appendLocal d target;
     finish_stmt (4 + 4) typeStatementResetLocal d
   }"

definition resetLocal_Target :: "bytes \<Rightarrow> Local option" where
  "resetLocal_Target d = getLocal d 4"

definition resetLocal_Type :: "bytes \<Rightarrow> u32 option" where
  "resetLocal_Type d = getType d"

definition resultSetAdd_Write :: "Local \<Rightarrow> bytes option" where
  "resultSetAdd_Write value = do {
     let d = appendUint32 [] 0;
     let d = appendLocal d value;
     finish_stmt (4 + 4) typeStatementResultSetAdd d
   }"

definition resultSetAdd_Value :: "bytes \<Rightarrow> Local option" where
  "resultSetAdd_Value d = getLocal d 4"

definition resultSetAdd_Type :: "bytes \<Rightarrow> u32 option" where
  "resultSetAdd_Type d = getType d"

definition returnLocal_Write :: "Local \<Rightarrow> bytes option" where
  "returnLocal_Write source = do {
     let d = appendUint32 [] 0;
     let d = appendLocal d source;
     finish_stmt (4 + 4) typeStatementReturnLocal d
   }"

definition returnLocal_Source :: "bytes \<Rightarrow> Local option" where
  "returnLocal_Source d = getLocal d 4"

definition returnLocal_Type :: "bytes \<Rightarrow> u32 option" where
  "returnLocal_Type d = getType d"

section \<open>Statements that carry arrays and blocks\<close>

definition blockStmt_Write :: "bytes \<Rightarrow> bytes option" where
  "blockStmt_Write blocks = do {
     let d = appendUint32 [] 0;
     let d = d @ blocks;
     finish_stmt (4 + int (length blocks)) typeStatementBlockStmt d
   }"

definition blockStmt_Type :: "bytes \<Rightarrow> u32 option" where
  "blockStmt_Type d = getType d"

definition blockStmt_Blocks :: "bytes \<Rightarrow> bytes option" where
  "blockStmt_Blocks d = slice_from d 4"

definition callDynamic_Write :: "Local list \<Rightarrow> Local \<Rightarrow> LocalOrConst list \<Rightarrow> bytes option" where
  "callDynamic_Write args result path = do {
     let d = appendUint32 [] 0;
     let d = appendLocal d result;
     let d = appendLocalArray d args;
     d \<leftarrow> appendLocalOrConstArray d path;
     finish_stmt (4 + 4 + appendLocalArraySize args + appendLocalOrConstArraySize path) typeStatementCallDynamic d
   }"

definition callDynamic_Type :: "bytes \<Rightarrow> u32 option" where
  "callDynamic_Type d = getType d"

definition callDynamic_Args :: "bytes \<Rightarrow> Local list option" where
  "callDynamic_Args d = getLocalArray d 8"

definition callDynamic_ArgsLen :: "bytes \<Rightarrow> u32 option" where
  "callDynamic_ArgsLen d = getUint32 d 8"

definition callDynamic_ArgsIter :: "bytes \<Rightarrow> (nat \<Rightarrow> Local \<Rightarrow> 's \<Rightarrow> ('e + 's) option) \<Rightarrow> 's \<Rightarrow> ('e + 's) option" where
  "callDynamic_ArgsIter d fcn s = do {
     let off = 8;
     n \<leftarrow> getUint32 d off;
     iter_range (\<lambda>i. getLocal d (off + 4 + word_of_nat i * 4)) fcn 0 (unat n) s }"

definition callDynamic_Result :: "bytes \<Rightarrow> Local option" where
  "callDynamic_Result d = getLocal d 4"

definition callDynamic_Path :: "bytes \<Rightarrow> LocalOrConst list option" where
  "callDynamic_Path d = do {
     off \<leftarrow> getLocalArraySize d 8;
     getLocalOrConstArray d (8 + word_of_int off) }"

definition callDynamic_PathLen :: "bytes \<Rightarrow> u32 option" where
  "callDynamic_PathLen d = do {
     off \<leftarrow> getLocalArraySize d 8;
     getUint32 d (8 + word_of_int off) }"

definition callDynamic_PathIter :: "bytes \<Rightarrow> (nat \<Rightarrow> LocalOrConst \<Rightarrow> 's \<Rightarrow> ('e + 's) option) \<Rightarrow> 's \<Rightarrow> ('e + 's) option" where
  "callDynamic_PathIter d fcn s = do {
     size \<leftarrow> getLocalArraySize d 8;
     let off = word_of_int size + 8;
     n \<leftarrow> getUint32 d off;
     iter_range (\<lambda>i. getLocalOrConst d (off + 4 + word_of_nat i * 4)) fcn 0 (unat n) s }"

definition call_Write :: "int \<Rightarrow> LocalOrConst list \<Rightarrow> Local \<Rightarrow> bytes option" where
  "call_Write index args result = do {
     let d = appendUint32 [] 0;
     let d = appendLocal d result;
     let d = appendUint32 d (word_of_int index);
     d \<leftarrow> appendLocalOrConstArray d args;
     finish_stmt (4 + 4 + 4 + appendLocalOrConstArraySize args) typeStatementCall d
   }"

definition call_Type :: "bytes \<Rightarrow> u32 option" where
  "call_Type d = getType d"

definition call_Func :: "bytes \<Rightarrow> int option" where
  "call_Func d = map_option uint (getUint32 d 8)"

definition call_Args :: "bytes \<Rightarrow> LocalOrConst list option" where
  "call_Args d = getLocalOrConstArray d 12"

definition call_ArgsLen :: "bytes \<Rightarrow> u32 option" where
  "call_ArgsLen d = getUint32 d 12"

definition call_ArgsIter :: "bytes \<Rightarrow> (nat \<Rightarrow> LocalOrConst \<Rightarrow> 's \<Rightarrow> ('e + 's) option) \<Rightarrow> 's \<Rightarrow> ('e + 's) option" where
  "call_ArgsIter d fcn s = do {
     let off = 12;
     n \<leftarrow> getUint32 d off;
     iter_range (\<lambda>i. getLocalOrConst d (off + 4 + word_of_nat i * 4)) fcn 0 (unat n) s }"

definition call_Result :: "bytes \<Rightarrow> Local option" where
  "call_Result d = getLocal d 4"

definition not_Write :: "bytes \<Rightarrow> bytes option" where
  "not_Write block = do {
     let d = appendUint32 [] 0;
     let d = d @ block;
     finish_stmt (4 + int (length block)) typeStatementNot d
   }"

definition not_Type :: "bytes \<Rightarrow> u32 option" where
  "not_Type d = getType d"

definition not_Block :: "bytes \<Rightarrow> bytes option" where
  "not_Block d = slice_from d 4"

definition scan_Write :: "Local \<Rightarrow> Local \<Rightarrow> Local \<Rightarrow> bytes \<Rightarrow> bytes option" where
  "scan_Write source key value block = do {
     let d = appendUint32 [] 0;
     let d = appendLocal d source;
     let d = appendLocal d key;
     let d = appendLocal d value;
     let d = d @ block;
     finish_stmt (4 + 4 + 4 + 4 + int (length block)) typeStatementScan d
   }"

definition scan_Type :: "bytes \<Rightarrow> u32 option" where
  "scan_Type d = getType d"

definition scan_Source :: "bytes \<Rightarrow> Local option" where
  "scan_Source d = getLocal d 4"

definition scan_Key :: "bytes \<Rightarrow> Local option" where
  "scan_Key d = getLocal d 8"

definition scan_Value :: "bytes \<Rightarrow> Local option" where
  "scan_Value d = getLocal d 12"

definition scan_Block :: "bytes \<Rightarrow> bytes option" where
  "scan_Block d = slice_from d 16"

definition with_Write :: "Local \<Rightarrow> int list \<Rightarrow> LocalOrConst \<Rightarrow> bytes \<Rightarrow> bytes option" where
  "with_Write local path value block = do {
     let d = appendUint32 [] 0;
     let d = appendLocal d local;
     d \<leftarrow> appendLocalOrConst d value;
     let d = appendIntArray d path;
     let d = d @ block;
     finish_stmt (4 + 4 + 4 + appendIntArraySize path + int (length block)) typeStatementWith d
   }"

definition with_Type :: "bytes \<Rightarrow> u32 option" where
  "with_Type d = getType d"

definition with_Local :: "bytes \<Rightarrow> Local option" where
  "with_Local d = getLocal d 4"

definition with_Path :: "bytes \<Rightarrow> int list option" where
  "with_Path d = do {
     let off = 12;
     n \<leftarrow> getUint32 d off;
     read_range (\<lambda>i. getInt32 d (off + 4 + word_of_nat i * 4)) 0 (unat n) }"

definition with_PathLen :: "bytes \<Rightarrow> u32 option" where
  "with_PathLen d = getUint32 d 12"

definition with_PathIter :: "bytes \<Rightarrow> (nat \<Rightarrow> int \<Rightarrow> 's \<Rightarrow> ('e + 's) option) \<Rightarrow> 's \<Rightarrow> ('e + 's) option" where
  "with_PathIter d fcn s = do {
     let off = 12;
     n \<leftarrow> getUint32 d off;
     iter_range (\<lambda>i. getInt32 d (off + 4 + word_of_nat i * 4)) fcn 0 (unat n) s }"

definition with_Value :: "bytes \<Rightarrow> LocalOrConst option" where
  "with_Value d = getLocalOrConst d 8"

definition with_Block :: "bytes \<Rightarrow> bytes option" where
  "with_Block d = do {
     n \<leftarrow> getInt32ArraySize d 12;
     slice_from d (nat (12 + n)) }"

section \<open>Header\<close>

definition magic :: bytes where "magic = str ''rego''"
definition version :: u32 where "version = 0"
definition headerMagicOffset :: u32 where "headerMagicOffset = 0"
definition headerVersionOffset :: u32 where "headerVersionOffset = 4"
definition headerLengthOffset :: u32 where "headerLengthOffset = 8"
definition headerStringsOffsetOffset :: u32 where "headerStringsOffsetOffset = 12"
definition headerFunctionsOffsetOffset :: u32 where "headerFunctionsOffsetOffset = 16"
definition headerPlansOffsetOffset :: u32 where "headerPlansOffsetOffset = 20"
definition headerLength :: u32 where "headerLength = 24"

definition header_Write :: "u32 \<Rightarrow> u32 \<Rightarrow> u32 \<Rightarrow> u32 \<Rightarrow> u32 \<Rightarrow> bytes option" where
  "header_Write version' totalLength stringsOffset functionsOffset plansOffset =
     (if totalLength < headerLength then None else
      let d = [] @ magic;
          d = appendUint32 d version';
          d = appendUint32 d totalLength;
          d = appendUint32 d stringsOffset;
          d = appendUint32 d functionsOffset;
          d = appendUint32 d plansOffset
      in if length d \<noteq> unat headerLength then None else Some d)"

definition header_IsValid :: "bytes \<Rightarrow> bool" where
  "header_IsValid h =
     (if length h < unat headerLength then False
      else if take 4 (drop (unat headerMagicOffset) h) \<noteq> magic then False
      else True)"

definition header_Version :: "bytes \<Rightarrow> u32 option" where
  "header_Version h = getUint32 h headerVersionOffset"

definition header_Length :: "bytes \<Rightarrow> u32 option" where
  "header_Length h = getUint32 h headerLengthOffset"

definition header_StringsOffset :: "bytes \<Rightarrow> u32 option" where
  "header_StringsOffset h = getUint32 h headerStringsOffsetOffset"

definition header_FunctionsOffset :: "bytes \<Rightarrow> u32 option" where
  "header_FunctionsOffset h = getUint32 h headerFunctionsOffsetOffset"

definition header_PlansOffset :: "bytes \<Rightarrow> u32 option" where
  "header_PlansOffset h = getUint32 h headerPlansOffsetOffset"

section \<open>Executable\<close>

definition Executable_Write :: "bytes \<Rightarrow> bytes \<Rightarrow> bytes \<Rightarrow> bytes option" where
  "Executable_Write strings functions plans = do {
     let stringsLen = length strings;
     let functionsLen = length functions;
     let plansLen = length plans;
     let l = unat headerLength + stringsLen + functionsLen + plansLen;
     d \<leftarrow> header_Write version (word_of_nat l) 0 (word_of_nat stringsLen) (word_of_nat (stringsLen + functionsLen));
     let d = d @ strings;
     let d = d @ functions;
     let d = d @ plans;
     if length d \<noteq> l then None else Some d }"

definition Executable_IsValid :: "bytes \<Rightarrow> bool option" where
  "Executable_IsValid e =
     (if \<not> header_IsValid e then Some False else do {
        v \<leftarrow> header_Version e;
        if v \<noteq> version then Some False else do {
          l \<leftarrow> header_Length e;
          if l < word_of_nat (length e) then Some False else Some True } })"

definition Executable_Strings :: "bytes \<Rightarrow> bytes option" where
  "Executable_Strings e = do {
     stringsOffset \<leftarrow> header_StringsOffset e;
     slice_from e (unat (headerLength + stringsOffset)) }"

definition Executable_Functions :: "bytes \<Rightarrow> bytes option" where
  "Executable_Functions e = do {
     off \<leftarrow> header_FunctionsOffset e;
     slice_from e (unat (headerLength + off)) }"

definition Executable_Plans :: "bytes \<Rightarrow> bytes option" where
  "Executable_Plans e = do {
     off \<leftarrow> header_PlansOffset e;
     slice_from e (unat (headerLength + off)) }"

section \<open>String table\<close>

definition strings_Len :: "bytes \<Rightarrow> int option" where
  "strings_Len s = map_option uint (getUint32 s 0)"

definition strings_Write :: "gostring list \<Rightarrow> bytes option" where
  "strings_Write strings = do {
     let n = length strings;
     let l = foldl (\<lambda>l s. l + appendStringSize s) (4 + appendOffsetSize (int n)) strings;
     let off = 4;
     let d = appendUint32 [] (word_of_nat n);
     let d = appendOffsetIndex d n;
     d \<leftarrow> append_indexed (\<lambda>s d. appendString d s) off 0 0 strings d;
     if l \<noteq> int (length d) then None else Some d }"

text \<open>The bytes behind \<open>strings.String\<close>; the cache and the construction of the value are in the machine.\<close>

definition strings_bytes :: "bytes \<Rightarrow> int \<Rightarrow> gostring option" where
  "strings_bytes s i = do {
     stringOffset \<leftarrow> getOffsetIndex s 4 i;
     getString s stringOffset }"

section \<open>Functions and builtins\<close>

definition typeBuiltin :: u32 where "typeBuiltin = 0"
definition typeSpecializedBuiltin :: u32 where "typeSpecializedBuiltin = 1"
definition typeFunction :: u32 where "typeFunction = 2"
definition typeSpecializedBuiltinRegoCompile :: u32 where "typeSpecializedBuiltinRegoCompile = 3"

definition functions_Len :: "bytes \<Rightarrow> int option" where
  "functions_Len f = map_option uint (getUint32 f 0)"

definition functions_Function :: "bytes \<Rightarrow> int \<Rightarrow> bytes option" where
  "functions_Function f i = do {
     off \<leftarrow> getOffsetIndex f 4 i;
     slice_from f (unat off) }"

definition function_Write :: "gostring \<Rightarrow> int \<Rightarrow> Local list \<Rightarrow> Local \<Rightarrow> bytes \<Rightarrow> gostring list \<Rightarrow> bytes option" where
  "function_Write name index params ret blocks path = do {
     let l = 4 + 4 + appendOffsetSize 4 + appendStringSize name + 4 + appendLocalArraySize params + 4 +
         appendStringArraySize path + int (length blocks);
     let off = 16;
     let lengthOffset = 0;
     let d = appendUint32 [] 0;
     let d = appendUint32 d typeFunction;
     let d = appendInt32 d (sint (word_of_int index :: u32));
     let d = appendLocal d ret;
     let d = appendOffsetIndex d 4;
     d \<leftarrow> putOffsetIndex d off 0 (word_of_nat (length d));
     let d = appendLocalArray d params;
     d \<leftarrow> putOffsetIndex d off 1 (word_of_nat (length d));
     let d = appendString d name;
     d \<leftarrow> putOffsetIndex d off 2 (word_of_nat (length d));
     d \<leftarrow> appendStringArray d path;
     d \<leftarrow> putOffsetIndex d off 3 (word_of_nat (length d));
     let d = d @ blocks;
     if l \<noteq> int (length d) then None else putUint32 d lengthOffset (word_of_nat (length d)) }"

definition function_IsBuiltin :: "bytes \<Rightarrow> bool option" where
  "function_IsBuiltin f = do {
     t \<leftarrow> getUint32 f 4;
     if t = typeBuiltin \<or> t = typeSpecializedBuiltin \<or> t = typeSpecializedBuiltinRegoCompile then Some True
     else Some False }"

definition function_Type :: "bytes \<Rightarrow> u32 option" where
  "function_Type f = getUint32 f 4"

definition function_Name :: "bytes \<Rightarrow> gostring option" where
  "function_Name f = do { off \<leftarrow> getOffsetIndex f 16 1; getString f off }"

definition function_Index :: "bytes \<Rightarrow> int option" where
  "function_Index f = getInt32 f 8"

definition function_Params :: "bytes \<Rightarrow> Local list option" where
  "function_Params f = getLocalArray f (word_of_int (16 + appendOffsetSize 4))"

definition function_ParamsLen :: "bytes \<Rightarrow> u32 option" where
  "function_ParamsLen f = getUint32 f (word_of_int (16 + appendOffsetSize 4))"

definition function_ParamsIter :: "bytes \<Rightarrow> (nat \<Rightarrow> Local \<Rightarrow> 's \<Rightarrow> ('e + 's) option) \<Rightarrow> 's \<Rightarrow> ('e + 's) option" where
  "function_ParamsIter f fcn s = do {
     let off = word_of_int (16 + appendOffsetSize 4);
     n \<leftarrow> getUint32 f off;
     iter_range (\<lambda>i. getLocal f (off + 4 + word_of_nat i * 4)) fcn 0 (unat n) s }"

definition function_Return :: "bytes \<Rightarrow> Local option" where
  "function_Return f = getLocal f 12"

definition function_Path :: "bytes \<Rightarrow> gostring list option" where
  "function_Path f = do { off \<leftarrow> getOffsetIndex f 16 2; getStringArray f off }"

definition function_PathLen :: "bytes \<Rightarrow> u32 option" where
  "function_PathLen f = do { off \<leftarrow> getOffsetIndex f 16 2; getUint32 f off }"

definition function_PathIter :: "bytes \<Rightarrow> (nat \<Rightarrow> gostring \<Rightarrow> 's \<Rightarrow> ('e + 's) option) \<Rightarrow> 's \<Rightarrow> ('e + 's) option" where
  "function_PathIter f fcn s = do {
     off \<leftarrow> getOffsetIndex f 16 2;
     data \<leftarrow> slice_from f (unat off);
     n \<leftarrow> getUint32 data 0;
     iter_range (\<lambda>i. do { so \<leftarrow> getOffsetIndex data 4 (int i); getString data so }) fcn 0 (unat n) s }"

definition function_Blocks :: "bytes \<Rightarrow> bytes option" where
  "function_Blocks f = do { off \<leftarrow> getOffsetIndex f 16 3; slice_from f (unat off) }"

definition specializedBuiltin_Write :: "u32 \<Rightarrow> bytes" where
  "specializedBuiltin_Write num =
     (let l = 4 + 4 + 4;
          d = appendUint32 [] l;
          d = appendUint32 d typeSpecializedBuiltin
      in appendUint32 d num)"

definition specializedBuiltin_Num :: "bytes \<Rightarrow> u32 option" where
  "specializedBuiltin_Num b = getUint32 b 8"

definition specializedBuiltinRegoCompile_Write :: bytes where
  "specializedBuiltinRegoCompile_Write =
     (let l = 4 + 4;
          d = appendUint32 [] l
      in appendUint32 d typeSpecializedBuiltinRegoCompile)"

definition builtin_Write :: "gostring \<Rightarrow> bool \<Rightarrow> bytes option" where
  "builtin_Write name relation = do {
     let l = 4 + 4 + 1 + appendStringSize name;
     let d = appendUint32 [] 0;
     let d = appendUint32 d typeBuiltin;
     let d = appendBool d relation;
     let d = appendString d name;
     if l \<noteq> int (length d) then None else putUint32 d 0 (word_of_nat (length d)) }"

definition builtin_Name :: "bytes \<Rightarrow> gostring option" where
  "builtin_Name b = getString b 9"

definition builtin_Relation :: "bytes \<Rightarrow> bool option" where
  "builtin_Relation b = getBool b 8"

section \<open>Plans, blocks and the statements of a block\<close>

definition plans_Write :: "bytes list \<Rightarrow> bytes option" where
  "plans_Write plans = do {
     let n = length plans;
     let l = foldl (\<lambda>l plan. l + int (length plan)) (4 + appendOffsetSize (int n)) plans;
     let off = 4;
     let d = appendUint32 [] (word_of_nat n);
     let d = appendOffsetIndex d n;
     d \<leftarrow> append_indexed (\<lambda>plan d. d @ plan) off 0 0 plans d;
     if l \<noteq> int (length d) then None else Some d }"

definition plans_Len :: "bytes \<Rightarrow> int option" where
  "plans_Len p = map_option uint (getUint32 p 0)"

definition plans_Plan :: "bytes \<Rightarrow> int \<Rightarrow> bytes option" where
  "plans_Plan p i = do { off \<leftarrow> getOffsetIndex p 4 i; slice_from p (unat off) }"

definition plan_Write :: "gostring \<Rightarrow> bytes \<Rightarrow> bytes option" where
  "plan_Write name blocks = do {
     let l = 4 + appendOffsetSize 2 + appendStringSize name + int (length blocks);
     let off = 4;
     let d = appendUint32 [] 0;
     let d = appendOffsetIndex d 2;
     d \<leftarrow> putOffsetIndex d off 0 (word_of_nat (length d));
     let d = appendString d name;
     d \<leftarrow> putOffsetIndex d off 1 (word_of_nat (length d));
     let d = d @ blocks;
     if l \<noteq> int (length d) then None else putUint32 d 0 (word_of_nat (length d)) }"

definition plan_Name :: "bytes \<Rightarrow> gostring option" where
  "plan_Name p = do { off \<leftarrow> getOffsetIndex p 4 0; getString p off }"

definition plan_Blocks :: "bytes \<Rightarrow> bytes option" where
  "plan_Blocks p = do { off \<leftarrow> getOffsetIndex p 4 1; slice_from p (unat off) }"

definition blocks_Write :: "bytes list \<Rightarrow> bytes option" where
  "blocks_Write blocks = do {
     let n = length blocks;
     let lengthOffset = 0;
     let l = foldl (\<lambda>l v. l + int (length v)) (4 + 4 + appendOffsetSize (int n)) blocks;
     let off = 8;
     let d = appendUint32 [] 0;
     let d = appendUint32 d (word_of_nat n);
     let d = appendOffsetIndex d n;
     d \<leftarrow> append_indexed (\<lambda>b d. d @ b) off 0 0 blocks d;
     if l \<noteq> int (length d) then None else putUint32 d lengthOffset (word_of_nat (length d)) }"

definition blocks_Len :: "bytes \<Rightarrow> int option" where
  "blocks_Len b = map_option uint (getUint32 b 4)"

definition blocks_Block :: "bytes \<Rightarrow> int \<Rightarrow> bytes option" where
  "blocks_Block b i = do { off \<leftarrow> getOffsetIndex b 8 i; slice_from b (unat off) }"

definition block_Write :: "bytes list \<Rightarrow> bytes option" where
  "block_Write stmts = do {
     let lengthOffset = 0;
     let n = length stmts;
     let l = foldl (\<lambda>l data. l + int (length data)) (4 + 4) stmts;
     let d = appendUint32 [] 0;
     let d = appendUint32 d (word_of_nat n);
     let d = foldl (\<lambda>d data. d @ data) d stmts;
     if l \<noteq> int (length d) then None else putUint32 d lengthOffset (word_of_nat (length d)) }"

definition block_Statements :: "bytes \<Rightarrow> bytes" where
  "block_Statements b = b"

definition statements_Len :: "bytes \<Rightarrow> int option" where
  "statements_Len s = map_option uint (getUint32 s 4)"

definition statements_Statement :: "bytes \<Rightarrow> bytes option" where
  "statements_Statement s = slice_from s (4 + 4)"

definition statement_Type :: "bytes \<Rightarrow> (u32 \<times> int) option" where
  "statement_Type s = do { t \<leftarrow> getType s; l \<leftarrow> getLen s; Some (t, uint l) }"

section \<open>Fixed layouts: what is written is read back\<close>

lemma finish_stmt_eq:
  assumes "l = 4 + int (length r)"
  shows "finish_stmt l t (be32 x @ r) = Some (be32 (tl_word t (4 + length r)) @ r)"
  using assms by (simp add: finish_stmt_def putTypeLength_def putUint32_0 tl_word_def)

lemma finish_stmt_nop: "finish_stmt 4 t (be32 x) = Some (be32 (tl_word t 4))"
  by (simp add: finish_stmt_def putTypeLength_def putUint32_0 tl_word_def)

definition wf_int64 :: "int \<Rightarrow> bool" where
  "wf_int64 v \<longleftrightarrow> - (2 ^ 63) \<le> v \<and> v < 2 ^ 63"

definition wf_int32 :: "int \<Rightarrow> bool" where
  "wf_int32 v \<longleftrightarrow> - (2 ^ 31) \<le> v \<and> v < 2 ^ 31"

lemma sint_word_of_int_64: "wf_int64 v \<Longrightarrow> sint (word_of_int v :: u64) = v"
  by (simp add: wf_int64_def signed_of_int signed_take_bit_int_eq_self)

lemma sint_word_of_int_32: "wf_int32 v \<Longrightarrow> sint (word_of_int v :: u32) = v"
  by (simp add: wf_int32_def signed_of_int signed_take_bit_int_eq_self)

lemmas read_back = uint_word_of_int_u32 lc_of_word_of_lc sint_word_of_int_64 sint_word_of_int_32

lemmas field_reader_defs [reader_defs] = getLocal_def getLocalOrConst_alt getInt32_def

lemma assignInt_Write_eq [writer_simps]:
  "assignInt_Write value target = Some (be32 (tl_word typeStatementAssignInt 16) @ be64 (word_of_int value) @ be32 (word_of_int target))"
  by (simp add: assignInt_Write_def finish_stmt_eq finish_stmt_nop writer_simps wf_lc_word)

lemma assignInt_read:
  assumes "assignInt_Write value target = Some d" and "wf_int64 value" and "wf_local target"
  shows "assignInt_Type (d @ r) = Some typeStatementAssignInt" "getLen (d @ r) = Some 16" "assignInt_Value (d @ r) = Some value" "assignInt_Target (d @ r) = Some target"
  using assms by (auto simp: assignInt_Write_eq assignInt_Type_def assignInt_Value_def assignInt_Target_def reader_defs byte_simps read_back)

lemma assignVar_Write_eq [writer_simps]:
  "wf_lc source \<Longrightarrow> assignVar_Write source target = Some (be32 (tl_word typeStatementAssignVar 12) @ be32 (word_of_int target) @ be32 (word_of_lc source))"
  by (simp add: assignVar_Write_def finish_stmt_eq finish_stmt_nop writer_simps wf_lc_word)

lemma assignVar_read:
  assumes "assignVar_Write source target = Some d" and "wf_lc source" and "wf_local target"
  shows "assignVar_Type (d @ r) = Some typeStatementAssignVar" "getLen (d @ r) = Some 12" "assignVar_Source (d @ r) = Some source" "assignVar_Target (d @ r) = Some target"
  using assms by (auto simp: assignVar_Write_eq assignVar_Type_def assignVar_Source_def assignVar_Target_def reader_defs byte_simps read_back)

lemma assignVarOnce_Write_eq [writer_simps]:
  "wf_lc source \<Longrightarrow> assignVarOnce_Write source target = Some (be32 (tl_word typeStatementAssignVarOnce 12) @ be32 (word_of_int target) @ be32 (word_of_lc source))"
  by (simp add: assignVarOnce_Write_def finish_stmt_eq finish_stmt_nop writer_simps wf_lc_word)

lemma assignVarOnce_read:
  assumes "assignVarOnce_Write source target = Some d" and "wf_lc source" and "wf_local target"
  shows "assignVarOnce_Type (d @ r) = Some typeStatementAssignVarOnce" "getLen (d @ r) = Some 12" "assignVarOnce_Source (d @ r) = Some source" "assignVarOnce_Target (d @ r) = Some target"
  using assms by (auto simp: assignVarOnce_Write_eq assignVarOnce_Type_def assignVarOnce_Source_def assignVarOnce_Target_def reader_defs byte_simps read_back)

lemma breakStmt_Write_eq [writer_simps]:
  "breakStmt_Write index = Some (be32 (tl_word typeStatementBreakStmt 8) @ be32 index)"
  by (simp add: breakStmt_Write_def finish_stmt_eq finish_stmt_nop writer_simps wf_lc_word)

lemma breakStmt_read:
  assumes "breakStmt_Write index = Some d"
  shows "breakStmt_Type (d @ r) = Some typeStatementBreakStmt" "getLen (d @ r) = Some 8" "breakStmt_Index (d @ r) = Some index"
  using assms by (auto simp: breakStmt_Write_eq breakStmt_Type_def breakStmt_Index_def reader_defs byte_simps read_back)

lemma dot_Write_eq [writer_simps]:
  "wf_lc source \<Longrightarrow> wf_lc key \<Longrightarrow> dot_Write source key target = Some (be32 (tl_word typeStatementDot 16) @ be32 (word_of_int target) @ be32 (word_of_lc source) @ be32 (word_of_lc key))"
  by (simp add: dot_Write_def finish_stmt_eq finish_stmt_nop writer_simps wf_lc_word)

lemma dot_read:
  assumes "dot_Write source key target = Some d" and "wf_lc source" and "wf_lc key" and "wf_local target"
  shows "dot_Type (d @ r) = Some typeStatementDot" "getLen (d @ r) = Some 16" "dot_Source (d @ r) = Some source" "dot_Key (d @ r) = Some key" "dot_Target (d @ r) = Some target"
  using assms by (auto simp: dot_Write_eq dot_Type_def dot_Source_def dot_Key_def dot_Target_def reader_defs byte_simps read_back)

lemma equal_Write_eq [writer_simps]:
  "wf_lc aa \<Longrightarrow> wf_lc bb \<Longrightarrow> equal_Write aa bb = Some (be32 (tl_word typeStatementEqual 12) @ be32 (word_of_lc aa) @ be32 (word_of_lc bb))"
  by (simp add: equal_Write_def finish_stmt_eq finish_stmt_nop writer_simps wf_lc_word)

lemma equal_read:
  assumes "equal_Write aa bb = Some d" and "wf_lc aa" and "wf_lc bb"
  shows "equal_Type (d @ r) = Some typeStatementEqual" "getLen (d @ r) = Some 12" "equal_A (d @ r) = Some aa" "equal_B (d @ r) = Some bb"
  using assms by (auto simp: equal_Write_eq equal_Type_def equal_A_def equal_B_def reader_defs byte_simps read_back)

lemma isArray_Write_eq [writer_simps]:
  "wf_lc source \<Longrightarrow> isArray_Write source = Some (be32 (tl_word typeStatementIsArray 8) @ be32 (word_of_lc source))"
  by (simp add: isArray_Write_def finish_stmt_eq finish_stmt_nop writer_simps wf_lc_word)

lemma isArray_read:
  assumes "isArray_Write source = Some d" and "wf_lc source"
  shows "isArray_Type (d @ r) = Some typeStatementIsArray" "getLen (d @ r) = Some 8" "isArray_Source (d @ r) = Some source"
  using assms by (auto simp: isArray_Write_eq isArray_Type_def isArray_Source_def reader_defs byte_simps read_back)

lemma isObject_Write_eq [writer_simps]:
  "wf_lc source \<Longrightarrow> isObject_Write source = Some (be32 (tl_word typeStatementIsObject 8) @ be32 (word_of_lc source))"
  by (simp add: isObject_Write_def finish_stmt_eq finish_stmt_nop writer_simps wf_lc_word)

lemma isObject_read:
  assumes "isObject_Write source = Some d" and "wf_lc source"
  shows "isObject_Type (d @ r) = Some typeStatementIsObject" "getLen (d @ r) = Some 8" "isObject_Source (d @ r) = Some source"
  using assms by (auto simp: isObject_Write_eq isObject_Type_def isObject_Source_def reader_defs byte_simps read_back)

lemma isSet_Write_eq [writer_simps]:
  "wf_lc source \<Longrightarrow> isSet_Write source = Some (be32 (tl_word typeStatementIsSet 8) @ be32 (word_of_lc source))"
  by (simp add: isSet_Write_def finish_stmt_eq finish_stmt_nop writer_simps wf_lc_word)

lemma isSet_read:
  assumes "isSet_Write source = Some d" and "wf_lc source"
  shows "isSet_Type (d @ r) = Some typeStatementIsSet" "getLen (d @ r) = Some 8" "isSet_Source (d @ r) = Some source"
  using assms by (auto simp: isSet_Write_eq isSet_Type_def isSet_Source_def reader_defs byte_simps read_back)

lemma isDefined_Write_eq [writer_simps]:
  "isDefined_Write source = Some (be32 (tl_word typeStatementIsDefined 8) @ be32 (word_of_int source))"
  by (simp add: isDefined_Write_def finish_stmt_eq finish_stmt_nop writer_simps wf_lc_word)

lemma isDefined_read:
  assumes "isDefined_Write source = Some d" and "wf_local source"
  shows "isDefined_Type (d @ r) = Some typeStatementIsDefined" "getLen (d @ r) = Some 8" "isDefined_Source (d @ r) = Some source"
  using assms by (auto simp: isDefined_Write_eq isDefined_Type_def isDefined_Source_def reader_defs byte_simps read_back)

lemma isUndefined_Write_eq [writer_simps]:
  "isUndefined_Write source = Some (be32 (tl_word typeStatementIsUndefined 8) @ be32 (word_of_int source))"
  by (simp add: isUndefined_Write_def finish_stmt_eq finish_stmt_nop writer_simps wf_lc_word)

lemma isUndefined_read:
  assumes "isUndefined_Write source = Some d" and "wf_local source"
  shows "isUndefined_Type (d @ r) = Some typeStatementIsUndefined" "getLen (d @ r) = Some 8" "isUndefined_Source (d @ r) = Some source"
  using assms by (auto simp: isUndefined_Write_eq isUndefined_Type_def isUndefined_Source_def reader_defs byte_simps read_back)

lemma makeNull_Write_eq [writer_simps]:
  "makeNull_Write target = Some (be32 (tl_word typeStatementMakeNull 8) @ be32 (word_of_int target))"
  by (simp add: makeNull_Write_def finish_stmt_eq finish_stmt_nop writer_simps wf_lc_word)

lemma makeNull_read:
  assumes "makeNull_Write target = Some d" and "wf_local target"
  shows "makeNull_Type (d @ r) = Some typeStatementMakeNull" "getLen (d @ r) = Some 8" "makeNull_Target (d @ r) = Some target"
  using assms by (auto simp: makeNull_Write_eq makeNull_Type_def makeNull_Target_def reader_defs byte_simps read_back)

lemma makeNumberInt_Write_eq [writer_simps]:
  "makeNumberInt_Write value target = Some (be32 (tl_word typeStatementMakeNumberInt 16) @ be64 (word_of_int value) @ be32 (word_of_int target))"
  by (simp add: makeNumberInt_Write_def finish_stmt_eq finish_stmt_nop writer_simps wf_lc_word)

lemma makeNumberInt_read:
  assumes "makeNumberInt_Write value target = Some d" and "wf_int64 value" and "wf_local target"
  shows "makeNumberInt_Type (d @ r) = Some typeStatementMakeNumberInt" "getLen (d @ r) = Some 16" "makeNumberInt_Value (d @ r) = Some value" "makeNumberInt_Target (d @ r) = Some target"
  using assms by (auto simp: makeNumberInt_Write_eq makeNumberInt_Type_def makeNumberInt_Value_def makeNumberInt_Target_def reader_defs byte_simps read_back)

lemma makeNumberRef_Write_eq [writer_simps]:
  "makeNumberRef_Write index target = Some (be32 (tl_word typeStatementMakeNumberRef 12) @ be32 (word_of_int index) @ be32 (word_of_int target))"
  by (simp add: makeNumberRef_Write_def finish_stmt_eq finish_stmt_nop writer_simps wf_lc_word)

lemma makeNumberRef_read:
  assumes "makeNumberRef_Write index target = Some d" and "wf_local index" and "wf_local target"
  shows "makeNumberRef_Type (d @ r) = Some typeStatementMakeNumberRef" "getLen (d @ r) = Some 12" "makeNumberRef_Index (d @ r) = Some index" "makeNumberRef_Target (d @ r) = Some target"
  using assms by (auto simp: makeNumberRef_Write_eq makeNumberRef_Type_def makeNumberRef_Index_def makeNumberRef_Target_def reader_defs byte_simps read_back)

lemma makeArray_Write_eq [writer_simps]:
  "makeArray_Write capacity target = Some (be32 (tl_word typeStatementMakeArray 12) @ be32 (word_of_int capacity) @ be32 (word_of_int target))"
  by (simp add: makeArray_Write_def finish_stmt_eq finish_stmt_nop writer_simps wf_lc_word)

lemma makeArray_read:
  assumes "makeArray_Write capacity target = Some d" and "wf_int32 capacity" and "wf_local target"
  shows "makeArray_Type (d @ r) = Some typeStatementMakeArray" "getLen (d @ r) = Some 12" "makeArray_Capacity (d @ r) = Some capacity" "makeArray_Target (d @ r) = Some target"
  using assms by (auto simp: makeArray_Write_eq makeArray_Type_def makeArray_Capacity_def makeArray_Target_def reader_defs byte_simps read_back)

lemma makeObject_Write_eq [writer_simps]:
  "makeObject_Write target = Some (be32 (tl_word typeStatementMakeObject 8) @ be32 (word_of_int target))"
  by (simp add: makeObject_Write_def finish_stmt_eq finish_stmt_nop writer_simps wf_lc_word)

lemma makeObject_read:
  assumes "makeObject_Write target = Some d" and "wf_local target"
  shows "makeObject_Type (d @ r) = Some typeStatementMakeObject" "getLen (d @ r) = Some 8" "makeObject_Target (d @ r) = Some target"
  using assms by (auto simp: makeObject_Write_eq makeObject_Type_def makeObject_Target_def reader_defs byte_simps read_back)

lemma makeSet_Write_eq [writer_simps]:
  "makeSet_Write target = Some (be32 (tl_word typeStatementMakeSet 8) @ be32 (word_of_int target))"
  by (simp add: makeSet_Write_def finish_stmt_eq finish_stmt_nop writer_simps wf_lc_word)

lemma makeSet_read:
  assumes "makeSet_Write target = Some d" and "wf_local target"
  shows "makeSet_Type (d @ r) = Some typeStatementMakeSet" "getLen (d @ r) = Some 8" "makeSet_Target (d @ r) = Some target"
  using assms by (auto simp: makeSet_Write_eq makeSet_Type_def makeSet_Target_def reader_defs byte_simps read_back)

lemma notEqual_Write_eq [writer_simps]:
  "wf_lc aa \<Longrightarrow> wf_lc bb \<Longrightarrow> notEqual_Write aa bb = Some (be32 (tl_word typeStatementNotEqual 12) @ be32 (word_of_lc aa) @ be32 (word_of_lc bb))"
  by (simp add: notEqual_Write_def finish_stmt_eq finish_stmt_nop writer_simps wf_lc_word)

lemma notEqual_read:
  assumes "notEqual_Write aa bb = Some d" and "wf_lc aa" and "wf_lc bb"
  shows "notEqual_Type (d @ r) = Some typeStatementNotEqual" "getLen (d @ r) = Some 12" "notEqual_A (d @ r) = Some aa" "notEqual_B (d @ r) = Some bb"
  using assms by (auto simp: notEqual_Write_eq notEqual_Type_def notEqual_A_def notEqual_B_def reader_defs byte_simps read_back)

lemma lenStmt_Write_eq [writer_simps]:
  "wf_lc source \<Longrightarrow> lenStmt_Write source target = Some (be32 (tl_word typeStatementLen 12) @ be32 (word_of_int target) @ be32 (word_of_lc source))"
  by (simp add: lenStmt_Write_def finish_stmt_eq finish_stmt_nop writer_simps wf_lc_word)

lemma lenStmt_read:
  assumes "lenStmt_Write source target = Some d" and "wf_lc source" and "wf_local target"
  shows "lenStmt_Type (d @ r) = Some typeStatementLen" "getLen (d @ r) = Some 12" "lenStmt_Source (d @ r) = Some source" "lenStmt_Target (d @ r) = Some target"
  using assms by (auto simp: lenStmt_Write_eq lenStmt_Type_def lenStmt_Source_def lenStmt_Target_def reader_defs byte_simps read_back)

lemma arrayAppend_Write_eq [writer_simps]:
  "wf_lc value \<Longrightarrow> arrayAppend_Write value array = Some (be32 (tl_word typeStatementArrayAppend 12) @ be32 (word_of_int array) @ be32 (word_of_lc value))"
  by (simp add: arrayAppend_Write_def finish_stmt_eq finish_stmt_nop writer_simps wf_lc_word)

lemma arrayAppend_read:
  assumes "arrayAppend_Write value array = Some d" and "wf_lc value" and "wf_local array"
  shows "arrayAppend_Type (d @ r) = Some typeStatementArrayAppend" "getLen (d @ r) = Some 12" "arrayAppend_Value (d @ r) = Some value" "arrayAppend_Array (d @ r) = Some array"
  using assms by (auto simp: arrayAppend_Write_eq arrayAppend_Type_def arrayAppend_Value_def arrayAppend_Array_def reader_defs byte_simps read_back)

lemma setAdd_Write_eq [writer_simps]:
  "wf_lc value \<Longrightarrow> setAdd_Write value set' = Some (be32 (tl_word typeStatementSetAdd 12) @ be32 (word_of_int set') @ be32 (word_of_lc value))"
  by (simp add: setAdd_Write_def finish_stmt_eq finish_stmt_nop writer_simps wf_lc_word)

lemma setAdd_read:
  assumes "setAdd_Write value set' = Some d" and "wf_lc value" and "wf_local set'"
  shows "setAdd_Type (d @ r) = Some typeStatementSetAdd" "getLen (d @ r) = Some 12" "setAdd_Value (d @ r) = Some value" "setAdd_Set (d @ r) = Some set'"
  using assms by (auto simp: setAdd_Write_eq setAdd_Type_def setAdd_Value_def setAdd_Set_def reader_defs byte_simps read_back)

lemma objectInsertOnce_Write_eq [writer_simps]:
  "wf_lc key \<Longrightarrow> wf_lc value \<Longrightarrow> objectInsertOnce_Write key value obj = Some (be32 (tl_word typeStatementObjectInsertOnce 16) @ be32 (word_of_int obj) @ be32 (word_of_lc key) @ be32 (word_of_lc value))"
  by (simp add: objectInsertOnce_Write_def finish_stmt_eq finish_stmt_nop writer_simps wf_lc_word)

lemma objectInsertOnce_read:
  assumes "objectInsertOnce_Write key value obj = Some d" and "wf_lc key" and "wf_lc value" and "wf_local obj"
  shows "objectInsertOnce_Type (d @ r) = Some typeStatementObjectInsertOnce" "getLen (d @ r) = Some 16" "objectInsertOnce_Key (d @ r) = Some key" "objectInsertOnce_Value (d @ r) = Some value" "objectInsertOnce_Object (d @ r) = Some obj"
  using assms by (auto simp: objectInsertOnce_Write_eq objectInsertOnce_Type_def objectInsertOnce_Key_def objectInsertOnce_Value_def objectInsertOnce_Object_def reader_defs byte_simps read_back)

lemma objectInsert_Write_eq [writer_simps]:
  "wf_lc key \<Longrightarrow> wf_lc value \<Longrightarrow> objectInsert_Write key value obj = Some (be32 (tl_word typeStatementObjectInsert 16) @ be32 (word_of_int obj) @ be32 (word_of_lc key) @ be32 (word_of_lc value))"
  by (simp add: objectInsert_Write_def finish_stmt_eq finish_stmt_nop writer_simps wf_lc_word)

lemma objectInsert_read:
  assumes "objectInsert_Write key value obj = Some d" and "wf_lc key" and "wf_lc value" and "wf_local obj"
  shows "objectInsert_Type (d @ r) = Some typeStatementObjectInsert" "getLen (d @ r) = Some 16" "objectInsert_Key (d @ r) = Some key" "objectInsert_Value (d @ r) = Some value" "objectInsert_Object (d @ r) = Some obj"
  using assms by (auto simp: objectInsert_Write_eq objectInsert_Type_def objectInsert_Key_def objectInsert_Value_def objectInsert_Object_def reader_defs byte_simps read_back)

lemma objectMerge_Write_eq [writer_simps]:
  "objectMerge_Write a b target = Some (be32 (tl_word typeStatementObjectMerge 16) @ be32 (word_of_int a) @ be32 (word_of_int b) @ be32 (word_of_int target))"
  by (simp add: objectMerge_Write_def finish_stmt_eq finish_stmt_nop writer_simps wf_lc_word)

lemma objectMerge_read:
  assumes "objectMerge_Write a b target = Some d" and "wf_local a" and "wf_local b" and "wf_local target"
  shows "objectMerge_Type (d @ r) = Some typeStatementObjectMerge" "getLen (d @ r) = Some 16" "objectMerge_A (d @ r) = Some a" "objectMerge_B (d @ r) = Some b" "objectMerge_Target (d @ r) = Some target"
  using assms by (auto simp: objectMerge_Write_eq objectMerge_Type_def objectMerge_A_def objectMerge_B_def objectMerge_Target_def reader_defs byte_simps read_back)

lemma nop_Write_eq [writer_simps]:
  "nop_Write = Some (be32 (tl_word typeStatementNop 4))"
  by (simp add: nop_Write_def finish_stmt_eq finish_stmt_nop writer_simps wf_lc_word)

lemma nop_read:
  assumes "nop_Write = Some d"
  shows "nop_Type (d @ r) = Some typeStatementNop" "getLen (d @ r) = Some 4"
  using assms by (auto simp: nop_Write_eq nop_Type_def reader_defs byte_simps read_back)

lemma resetLocal_Write_eq [writer_simps]:
  "resetLocal_Write target = Some (be32 (tl_word typeStatementResetLocal 8) @ be32 (word_of_int target))"
  by (simp add: resetLocal_Write_def finish_stmt_eq finish_stmt_nop writer_simps wf_lc_word)

lemma resetLocal_read:
  assumes "resetLocal_Write target = Some d" and "wf_local target"
  shows "resetLocal_Type (d @ r) = Some typeStatementResetLocal" "getLen (d @ r) = Some 8" "resetLocal_Target (d @ r) = Some target"
  using assms by (auto simp: resetLocal_Write_eq resetLocal_Type_def resetLocal_Target_def reader_defs byte_simps read_back)

lemma resultSetAdd_Write_eq [writer_simps]:
  "resultSetAdd_Write value = Some (be32 (tl_word typeStatementResultSetAdd 8) @ be32 (word_of_int value))"
  by (simp add: resultSetAdd_Write_def finish_stmt_eq finish_stmt_nop writer_simps wf_lc_word)

lemma resultSetAdd_read:
  assumes "resultSetAdd_Write value = Some d" and "wf_local value"
  shows "resultSetAdd_Type (d @ r) = Some typeStatementResultSetAdd" "getLen (d @ r) = Some 8" "resultSetAdd_Value (d @ r) = Some value"
  using assms by (auto simp: resultSetAdd_Write_eq resultSetAdd_Type_def resultSetAdd_Value_def reader_defs byte_simps read_back)

lemma returnLocal_Write_eq [writer_simps]:
  "returnLocal_Write source = Some (be32 (tl_word typeStatementReturnLocal 8) @ be32 (word_of_int source))"
  by (simp add: returnLocal_Write_def finish_stmt_eq finish_stmt_nop writer_simps wf_lc_word)

lemma returnLocal_read:
  assumes "returnLocal_Write source = Some d" and "wf_local source"
  shows "returnLocal_Type (d @ r) = Some typeStatementReturnLocal" "getLen (d @ r) = Some 8" "returnLocal_Source (d @ r) = Some source"
  using assms by (auto simp: returnLocal_Write_eq returnLocal_Type_def returnLocal_Source_def reader_defs byte_simps read_back)
section \<open>Statements with arrays and blocks\<close>

lemma uint_u32_small: "n < 2 ^ 32 \<Longrightarrow> uint (word_of_nat n :: u32) = int n"
  by (metis uint_nat unat_u32_small)

lemma blockStmt_Write_eq [writer_simps]:
  "blockStmt_Write bs = Some (be32 (tl_word typeStatementBlockStmt (4 + length bs)) @ bs)"
  by (simp add: blockStmt_Write_def finish_stmt_eq writer_simps)

lemma blockStmt_read:
  assumes "blockStmt_Write bs = Some d" and "length d < 2 ^ 24"
  shows "blockStmt_Type (d @ r) = Some typeStatementBlockStmt" "getLen (d @ r) = Some (word_of_nat (length d))"
    "blockStmt_Blocks (d @ r) = Some (bs @ r)"
  using assms by (auto simp: blockStmt_Write_eq blockStmt_Type_def blockStmt_Blocks_def byte_simps)

lemma not_Write_eq [writer_simps]:
  "not_Write b = Some (be32 (tl_word typeStatementNot (4 + length b)) @ b)"
  by (simp add: not_Write_def finish_stmt_eq writer_simps)

lemma not_read:
  assumes "not_Write b = Some d" and "length d < 2 ^ 24"
  shows "not_Type (d @ r) = Some typeStatementNot" "getLen (d @ r) = Some (word_of_nat (length d))"
    "not_Block (d @ r) = Some (b @ r)"
  using assms by (auto simp: not_Write_eq not_Type_def not_Block_def byte_simps)

lemma scan_Write_eq [writer_simps]:
  "scan_Write source key value b = Some (be32 (tl_word typeStatementScan (16 + length b)) @
     be32 (word_of_int source) @ be32 (word_of_int key) @ be32 (word_of_int value) @ b)"
  by (simp add: scan_Write_def finish_stmt_eq writer_simps)

lemma scan_read:
  assumes "scan_Write source key value b = Some d" and "length d < 2 ^ 24"
    and "wf_local source" and "wf_local key" and "wf_local value"
  shows "scan_Type (d @ r) = Some typeStatementScan" "getLen (d @ r) = Some (word_of_nat (length d))"
    "scan_Source (d @ r) = Some source" "scan_Key (d @ r) = Some key" "scan_Value (d @ r) = Some value"
    "scan_Block (d @ r) = Some (b @ r)"
  using assms by (auto simp: scan_Write_eq scan_Type_def scan_Source_def scan_Key_def scan_Value_def
      scan_Block_def reader_defs byte_simps read_back)

lemma call_Write_eq [writer_simps]:
  "list_all wf_lc args \<Longrightarrow> call_Write index args result =
     Some (be32 (tl_word typeStatementCall (16 + 4 * length args)) @ be32 (word_of_int result) @
       be32 (word_of_int index) @ be32 (word_of_nat (length args)) @ words (map word_of_lc args))"
  by (simp add: call_Write_def finish_stmt_eq writer_simps appendLocalOrConstArraySize_def)

lemma operand_array_iter:
  assumes "unat off = length p" and "length p + 4 + 4 * length ls < 2 ^ 32" and "list_all wf_lc ls"
  shows "iter_range (\<lambda>i. getLocalOrConst (p @ be32 n @ words (map word_of_lc ls) @ r) (off + 4 + word_of_nat i * 4))
    f 0 (length ls) s = iter_list f 0 ls s"
  using assms words_array_nth [of off p "map word_of_lc ls"]
  by (intro iter_range_list) (auto simp: getLocalOrConst_alt lc_of_word_of_lc list_all_length)

lemma local_array_iter:
  assumes "unat off = length p" and "length p + 4 + 4 * length ls < 2 ^ 32" and "list_all wf_local ls"
  shows "iter_range (\<lambda>i. getLocal (p @ be32 n @ words (map word_of_int ls) @ r) (off + 4 + word_of_nat i * 4))
    f 0 (length ls) s = iter_list f 0 ls s"
  using assms words_array_nth [of off p "map word_of_int ls"]
  by (intro iter_range_list) (auto simp: getLocal_def uint_word_of_int_u32 list_all_length)

lemma int_array_at:
  assumes "unat off = length p" and "length p + 4 + 4 * length ls < 2 ^ 32" and "list_all wf_int32 ls"
    and "j < length ls"
  shows "getInt32 (p @ be32 n @ words (map word_of_int ls) @ r) (off + 4 + word_of_nat j * 4) = Some (ls ! j)"
  using assms words_array_nth [of off p "map word_of_int ls"]
  by (auto simp: getInt32_def sint_word_of_int_32 list_all_length)

lemma call_read:
  assumes "call_Write index args result = Some d" and "length d < 2 ^ 24"
    and "list_all wf_lc args" and "wf_local index" and "wf_local result"
  shows "call_Type (d @ r) = Some typeStatementCall" "getLen (d @ r) = Some (word_of_nat (length d))"
    "call_Func (d @ r) = Some index" "call_Result (d @ r) = Some result"
    "call_Args (d @ r) = Some args" "call_ArgsLen (d @ r) = Some (word_of_nat (length args))"
    "call_ArgsIter (d @ r) fcn s = iter_list fcn 0 args s"
proof -
  let ?h = "be32 (tl_word typeStatementCall (16 + 4 * length args)) @ be32 (word_of_int result) @ be32 (word_of_int index)"
  have d: "d = ?h @ be32 (word_of_nat (length args)) @ words (map word_of_lc args)"
    using assms by (simp add: call_Write_eq)
  have small: "length ?h + 4 + 4 * length args < 2 ^ 32" using assms(2) unfolding d by simp
  have n: "unat (word_of_nat (length args) :: u32) = length args" using small by (simp add: unat_of_nat)
  show "call_Args (d @ r) = Some args"
    using getLocalOrConstArray_at [of 12 ?h args r] small assms(3) by (simp add: call_Args_def d)
  show "call_ArgsIter (d @ r) fcn s = iter_list fcn 0 args s"
    using operand_array_iter [of 12 ?h args "word_of_nat (length args)" r] small assms(3) n
    by (simp add: call_ArgsIter_def d byte_simps)
  show "call_Type (d @ r) = Some typeStatementCall" "getLen (d @ r) = Some (word_of_nat (length d))"
    "call_Func (d @ r) = Some index" "call_Result (d @ r) = Some result"
    "call_ArgsLen (d @ r) = Some (word_of_nat (length args))"
    using assms(2,4,5) by (auto simp: d call_Type_def call_Func_def call_Result_def call_ArgsLen_def
        reader_defs byte_simps read_back)
qed

lemma callDynamic_Write_eq [writer_simps]:
  "list_all wf_lc path \<Longrightarrow> callDynamic_Write args result path =
     Some (be32 (tl_word typeStatementCallDynamic (16 + 4 * length args + 4 * length path)) @ be32 (word_of_int result) @
       be32 (word_of_nat (length args)) @ words (map word_of_int args) @
       be32 (word_of_nat (length path)) @ words (map word_of_lc path))"
  by (simp add: callDynamic_Write_def finish_stmt_eq writer_simps appendLocalOrConstArraySize_def
      appendLocalArraySize_def algebra_simps)

lemma callDynamic_read:
  assumes "callDynamic_Write args result path = Some d" and "length d < 2 ^ 24"
    and "list_all wf_lc path" and "list_all wf_local args" and "wf_local result"
  shows "callDynamic_Type (d @ r) = Some typeStatementCallDynamic" "getLen (d @ r) = Some (word_of_nat (length d))"
    "callDynamic_Result (d @ r) = Some result"
    "callDynamic_Args (d @ r) = Some args" "callDynamic_ArgsLen (d @ r) = Some (word_of_nat (length args))"
    "callDynamic_Path (d @ r) = Some path" "callDynamic_PathLen (d @ r) = Some (word_of_nat (length path))"
    "callDynamic_ArgsIter (d @ r) fcn s = iter_list fcn 0 args s"
    "callDynamic_PathIter (d @ r) gcn s' = iter_list gcn 0 path s'"
proof -
  let ?h = "be32 (tl_word typeStatementCallDynamic (16 + 4 * length args + 4 * length path)) @ be32 (word_of_int result)"
  let ?a = "be32 (word_of_nat (length args)) @ words (map word_of_int args)"
  let ?p = "be32 (word_of_nat (length path)) @ words (map word_of_lc path)"
  have d: "d = ?h @ ?a @ ?p" using assms by (simp add: callDynamic_Write_eq)
  have small: "16 + 4 * length args + 4 * length path < 2 ^ 24" using assms(2) unfolding d by simp
  have n: "unat (word_of_nat (length args) :: u32) = length args"
    "unat (word_of_nat (length path) :: u32) = length path" using small by (simp_all add: unat_of_nat)
  have size: "getLocalArraySize (d @ r) 8 = Some (int (4 + 4 * length args))"
    using small uint_u32_small [of "length args"]
    by (simp add: d getLocalArraySize_def getInt32ArraySize_def getInt32ArrayLen_def byte_simps)
  define o1 :: u32 where "o1 = word_of_nat (length (?h @ ?a))"
  have o1: "8 + word_of_int (int (4 + 4 * length args)) = o1" "word_of_int (int (4 + 4 * length args)) + 8 = o1"
    by (simp_all add: o1_def)
  have "length (?h @ ?a) < 2 ^ 32" using small by simp
  then have uo: "unat o1 = length (?h @ ?a)" unfolding o1_def by (rule unat_u32_small)
  have d': "d @ r = (?h @ ?a) @ be32 (word_of_nat (length path)) @ words (map word_of_lc path) @ r"
    by (simp add: d)
  have s2: "length (?h @ ?a) + 4 + 4 * length path < 2 ^ 32" using small by simp
  have get_n: "getUint32 (d @ r) o1 = Some (word_of_nat (length path))"
    unfolding d' using uo by (rule getUint32_at)
  show "callDynamic_Path (d @ r) = Some path"
    using getLocalOrConstArray_at [OF uo s2 assms(3), of r, folded d']
    by (simp only: callDynamic_Path_def size o1 bind.bind_lunit)
  show "callDynamic_PathLen (d @ r) = Some (word_of_nat (length path))"
    by (simp only: callDynamic_PathLen_def size o1 bind.bind_lunit get_n)
  show "callDynamic_PathIter (d @ r) gcn s' = iter_list gcn 0 path s'"
    using operand_array_iter [OF uo s2 assms(3), of "word_of_nat (length path)" r gcn s', folded d']
    by (simp only: callDynamic_PathIter_def size o1 bind.bind_lunit Let_def get_n n)
  show "callDynamic_Args (d @ r) = Some args"
    using getLocalArray_at [of 8 ?h args "?p @ r"] small assms(4) by (simp add: callDynamic_Args_def d)
  show "callDynamic_ArgsIter (d @ r) fcn s = iter_list fcn 0 args s"
    using local_array_iter [of 8 ?h args "word_of_nat (length args)" "?p @ r"] small assms(4) n
    by (simp add: callDynamic_ArgsIter_def d byte_simps)
  show "callDynamic_Type (d @ r) = Some typeStatementCallDynamic" "getLen (d @ r) = Some (word_of_nat (length d))"
    "callDynamic_Result (d @ r) = Some result" "callDynamic_ArgsLen (d @ r) = Some (word_of_nat (length args))"
    using small assms(5) by (auto simp: d callDynamic_Type_def callDynamic_Result_def callDynamic_ArgsLen_def
        reader_defs byte_simps read_back)
qed

lemma with_Write_eq [writer_simps]:
  "wf_lc value \<Longrightarrow> with_Write local path value b =
     Some (be32 (tl_word typeStatementWith (16 + 4 * length path + length b)) @ be32 (word_of_int local) @
       be32 (word_of_lc value) @ be32 (word_of_nat (length path)) @ words (map word_of_int path) @ b)"
  by (simp add: with_Write_def finish_stmt_eq writer_simps appendIntArraySize_def wf_lc_word algebra_simps)

lemma with_read:
  assumes "with_Write local path value b = Some d" and "length d < 2 ^ 24"
    and "wf_lc value" and "list_all wf_int32 path" and "wf_local local"
  shows "with_Type (d @ r) = Some typeStatementWith" "getLen (d @ r) = Some (word_of_nat (length d))"
    "with_Local (d @ r) = Some local" "with_Value (d @ r) = Some value"
    "with_Path (d @ r) = Some path" "with_PathLen (d @ r) = Some (word_of_nat (length path))"
    "with_PathIter (d @ r) fcn s = iter_list fcn 0 path s"
    "with_Block (d @ r) = Some (b @ r)"
proof -
  let ?h = "be32 (tl_word typeStatementWith (16 + 4 * length path + length b)) @ be32 (word_of_int local) @ be32 (word_of_lc value)"
  have d: "d = ?h @ be32 (word_of_nat (length path)) @ words (map word_of_int path) @ b"
    using assms by (simp add: with_Write_eq)
  have small: "16 + 4 * length path + length b < 2 ^ 24" using assms(2) unfolding d by simp
  have n: "unat (word_of_nat (length path) :: u32) = length path"
    using small by (simp add: unat_of_nat)
  have nth: "getInt32 (d @ r) (12 + 4 + word_of_nat j * 4) = Some (path ! j)" if "j < length path" for j
    using int_array_at [of 12 ?h path j "word_of_nat (length path)" "b @ r"] small assms(4) that by (simp add: d)
  have get_n: "getUint32 (d @ r) 12 = Some (word_of_nat (length path))" by (simp add: d byte_simps)
  show "with_Path (d @ r) = Some path"
    using read_range_list [of path "\<lambda>i. getInt32 (d @ r) (12 + 4 + word_of_nat i * 4)" 0] nth
    by (simp add: with_Path_def get_n n)
  show "with_PathIter (d @ r) fcn s = iter_list fcn 0 path s"
    using iter_range_list [of path "\<lambda>i. getInt32 (d @ r) (12 + 4 + word_of_nat i * 4)" 0] nth
    by (simp add: with_PathIter_def get_n n)
  show "with_Block (d @ r) = Some (b @ r)"
  proof -
    have "uint (word_of_nat (length path) :: u32) = int (length path)"
      using small by (intro uint_u32_small) simp
    then have "getInt32ArraySize (d @ r) 12 = Some (4 + 4 * int (length path))"
      by (simp only: getInt32ArraySize_def getInt32ArrayLen_def get_n option.map)
    moreover have "nat (12 + (4 + 4 * int (length path))) = length (?h @ be32 (word_of_nat (length path)) @ words (map word_of_int path))"
      by simp
    moreover have "d @ r = (?h @ be32 (word_of_nat (length path)) @ words (map word_of_int path)) @ b @ r"
      by (simp add: d)
    ultimately show ?thesis
      by (simp only: with_Block_def bind.bind_lunit slice_from_append order.refl diff_self_eq_0 slice_from_0)
  qed
  show "with_Type (d @ r) = Some typeStatementWith" "getLen (d @ r) = Some (word_of_nat (length d))"
    "with_Local (d @ r) = Some local" "with_Value (d @ r) = Some value"
    "with_PathLen (d @ r) = Some (word_of_nat (length path))"
    using small assms(3,5) by (auto simp: d with_Type_def with_Local_def with_Value_def with_PathLen_def
        reader_defs byte_simps read_back)
qed

section \<open>Offset tables: plans, blocks, functions, strings\<close>

lemma foldl_sum_length: "foldl (\<lambda>l x. l + int (f x)) a xs = a + int (sum_list (map f xs))"
  by (induction xs arbitrary: a) simp_all

lemma foldl_append_concat: "foldl (\<lambda>d x. d @ x) d xs = d @ concat xs"
  by (induction xs arbitrary: d) simp_all

lemma block_Write_eq [writer_simps]:
  "block_Write stmts = Some (be32 (word_of_nat (8 + length (concat stmts))) @ be32 (word_of_nat (length stmts)) @ concat stmts)"
  by (simp add: block_Write_def Let_def foldl_sum_length foldl_append_concat length_concat writer_simps)

lemma block_read:
  assumes "block_Write stmts = Some d" and "length stmts < 2 ^ 32"
  shows "statements_Len (block_Statements (d @ r)) = Some (int (length stmts))"
    "statements_Statement (block_Statements (d @ r)) = Some (concat stmts @ r)"
    "getUint32 (d @ r) 0 = Some (word_of_nat (length d))"
  using assms uint_u32_small [of "length stmts"]
  by (auto simp: block_Write_eq block_Statements_def statements_Len_def statements_Statement_def byte_simps)

text \<open>\<open>plans.Write\<close> and \<open>blocks.Write\<close> differ only in the words before the offset table.\<close>

lemma append_indexed_bytes:
  assumes "unat off = length p" and "length p + 4 * length bs < 2 ^ 32"
  shows "append_indexed (\<lambda>b d. d @ b) off 0 0 bs (p @ replicate (4 * length bs) 0) = Some (p @ table (length p) bs)"
  using append_indexed_table [of "\<lambda>b d. d @ b" "\<lambda>b. b" off p 0 bs] assms by simp

lemma plans_Write_eq [writer_simps]:
  assumes "4 + 4 * length ps < 2 ^ 32"
  shows "plans_Write ps = Some (be32 (word_of_nat (length ps)) @ table 4 ps)"
  using assms append_indexed_bytes [of 4 "be32 (word_of_nat (length ps))" ps]
  by (simp add: plans_Write_def Let_def writer_simps foldl_sum_length appendOffsetSize_def length_concat)

lemma blocks_Write_eq [writer_simps]:
  assumes "8 + 4 * length bs < 2 ^ 32"
  shows "blocks_Write bs = Some (be32 (word_of_nat (8 + 4 * length bs + length (concat bs))) @
    be32 (word_of_nat (length bs)) @ table 8 bs)"
  using assms append_indexed_bytes [of 8 "be32 0 @ be32 (word_of_nat (length bs))" bs]
  by (simp add: blocks_Write_def Let_def writer_simps foldl_sum_length appendOffsetSize_def length_concat add.assoc)

lemma indexed_read:
  assumes "unat off = length p" and "i < length es" and "length (p @ table (length p) es) < 2 ^ 32"
  shows "do { o1 \<leftarrow> getOffsetIndex (p @ table (length p) es @ r) off (int i);
      slice_from (p @ table (length p) es @ r) (unat o1) } = Some (es ! i @ concat (drop (Suc i) es) @ r)"
proof -
  have "length p + length (table (length p) es) < 2 ^ 32" using assms(3) by (simp only: length_append)
  from table_lookup [OF assms(1) refl assms(2) this] show ?thesis by (metis bind.bind_lunit)
qed

lemma blocks_read:
  assumes "blocks_Write bs = Some d" and "length d < 2 ^ 32" and "8 + 4 * length bs < 2 ^ 32"
  shows "blocks_Len (d @ r) = Some (int (length bs))"
    and "i < length bs \<Longrightarrow> blocks_Block (d @ r) (int i) = Some (bs ! i @ concat (drop (Suc i) bs) @ r)"
proof -
  let ?h = "be32 (word_of_nat (8 + 4 * length bs + length (concat bs))) @ be32 (word_of_nat (length bs))"
  have d: "d = ?h @ table (length ?h) bs" using assms(1) blocks_Write_eq [OF assms(3)] by simp
  show "blocks_Len (d @ r) = Some (int (length bs))"
    using assms(3) uint_u32_small [of "length bs"] by (simp add: d blocks_Len_def byte_simps)
  show "blocks_Block (d @ r) (int i) = Some (bs ! i @ concat (drop (Suc i) bs) @ r)" if "i < length bs"
    using indexed_read [of 8 ?h i bs r] assms(2) that unfolding d
    by (simp only: blocks_Block_def append_assoc length_append length_be32) simp
qed

lemma plans_read:
  assumes "plans_Write ps = Some d" and "length d < 2 ^ 32" and "4 + 4 * length ps < 2 ^ 32"
  shows "plans_Len (d @ r) = Some (int (length ps))"
    and "i < length ps \<Longrightarrow> plans_Plan (d @ r) (int i) = Some (ps ! i @ concat (drop (Suc i) ps) @ r)"
proof -
  let ?h = "be32 (word_of_nat (length ps))"
  have d: "d = ?h @ table (length ?h) ps" using assms(1) plans_Write_eq [OF assms(3)] by simp
  show "plans_Len (d @ r) = Some (int (length ps))"
    using assms(3) uint_u32_small [of "length ps"] by (simp add: d plans_Len_def byte_simps)
  show "plans_Plan (d @ r) (int i) = Some (ps ! i @ concat (drop (Suc i) ps) @ r)" if "i < length ps"
    using indexed_read [of 4 ?h i ps r] assms(2) that unfolding d
    by (simp only: plans_Plan_def append_assoc length_append length_be32) simp
qed

lemma strings_Write_eq [writer_simps]:
  assumes "4 + 4 * length ss < 2 ^ 32"
  shows "strings_Write ss = Some (be32 (word_of_nat (length ss)) @ table 4 (map enc_string ss))"
  using assms append_indexed_table [of "\<lambda>s d. appendString d s" enc_string 4 "be32 (word_of_nat (length ss))" 0 ss]
    foldl_sum_length [of "\<lambda>s. 4 + length s" "4 + 4 * int (length ss)" ss]
  by (simp add: strings_Write_def Let_def writer_simps appendStringSize_def appendOffsetSize_def length_concat comp_def
      mult.commute)

lemma strings_read:
  assumes "strings_Write ss = Some d" and "length (d @ r) < 2 ^ 32" and "4 + 4 * length ss < 2 ^ 32"
  shows "strings_Len (d @ r) = Some (int (length ss))"
    and "i < length ss \<Longrightarrow> last ss \<noteq> [] \<or> r \<noteq> [] \<Longrightarrow> strings_bytes (d @ r) (int i) = Some (ss ! i)"
proof -
  have d: "d = be32 (word_of_nat (length ss)) @ table 4 (map enc_string ss)"
    using assms(1) strings_Write_eq [OF assms(3)] by simp
  show "strings_Len (d @ r) = Some (int (length ss))"
    using assms(3) uint_u32_small [of "length ss"] by (simp add: d strings_Len_def byte_simps)
  show "strings_bytes (d @ r) (int i) = Some (ss ! i)" if "i < length ss" and "last ss \<noteq> [] \<or> r \<noteq> []"
  proof -
    have "length d < 2 ^ 32" using assms(2) by simp
    then show ?thesis
      using string_table_nth [of "word_of_nat (length ss)" ss r i] assms(2) that
      unfolding d strings_bytes_def append_assoc by blast
  qed
qed

section \<open>Functions, builtins and plans\<close>

lemma put_at_skip:
  "put_at (be32 a @ r) 0 v = Some (be32 v @ r)"
  "4 \<le> p \<Longrightarrow> put_at (be32 a @ r) p v = map_option (\<lambda>d. be32 a @ d) (put_at r (p - 4) v)"
  by (auto simp: put_at_def)

lemma replicate_zero_words:
  "replicate 8 (0 :: u8) = be32 0 @ be32 0" "replicate 16 (0 :: u8) = be32 0 @ be32 0 @ be32 0 @ be32 0"
  by (simp_all add: be32_def numeral_eq_Suc)

text \<open>The offset of a part that starts after \<open>n\<close> bytes.\<close>

abbreviation enc_params :: "Local list \<Rightarrow> bytes" where
  "enc_params ps \<equiv> be32 (word_of_nat (length ps)) @ words (map word_of_int ps)"

abbreviation enc_path :: "gostring list \<Rightarrow> bytes" where
  "enc_path ss \<equiv> be32 (word_of_nat (length ss)) @ table 4 (map enc_string ss)"

definition function_layout :: "gostring \<Rightarrow> int \<Rightarrow> Local list \<Rightarrow> Local \<Rightarrow> bytes \<Rightarrow> gostring list \<Rightarrow> bytes" where
  "function_layout name index params ret blocks path =
     (let ps = enc_params params; nm = enc_string name; pa = enc_path path in
      be32 (word_of_nat (32 + length ps + length nm + length pa + length blocks)) @ be32 typeFunction @
      be32 (word_of_int index) @ be32 (word_of_int ret) @
      be32 32 @ be32 (word_of_nat (32 + length ps)) @ be32 (word_of_nat (32 + length ps + length nm)) @
      be32 (word_of_nat (32 + length ps + length nm + length pa)) @ ps @ nm @ pa @ blocks)"

lemma function_Write_eq [writer_simps]:
  assumes "length (function_layout name index params ret blocks path) < 2 ^ 32"
  shows "function_Write name index params ret blocks path = Some (function_layout name index params ret blocks path)"
proof -
  have pa: "appendStringArray d path = Some (d @ enc_path path)" if "length d = 40 + 4 * length params + length name" for d
    using assms that by (intro appendStringArray_eq) (simp add: function_layout_def Let_def)
  have "appendStringArraySize path = int (length (enc_path path))"
    using foldl_sum_length [of "\<lambda>s. 4 + length s" "4 + 4 * int (length path)" path]
    by (simp add: appendStringArraySize_def appendStringSize_def appendOffsetSize_def length_concat comp_def mult.commute)
  then show ?thesis
    by (simp add: function_Write_def function_layout_def Let_def append_defs appendLocalArray_eq putUint32_0
        replicate_zero_words putOffsetIndex_def put_at_skip pa appendOffsetSize_def appendStringSize_def appendLocalArraySize_def add.assoc)
qed

lemma slice_from_part: "n = length p \<Longrightarrow> slice_from (p @ r) n = Some r"
  by (simp add: slice_from_def)

lemma unat_part: "length (p @ r) < 2 ^ 32 \<Longrightarrow> unat (word_of_nat (length p) :: u32) = length p"
  by (rule unat_u32_small) simp

lemma function_read:
  assumes "function_Write name index params ret blocks path = Some d"
    and "length (function_layout name index params ret blocks path @ r) < 2 ^ 32"
    and "wf_int32 index" and "wf_local ret" and "list_all wf_local params" and "blocks \<noteq> []"
  shows "function_Type (d @ r) = Some typeFunction" "function_IsBuiltin (d @ r) = Some False"
    "function_Index (d @ r) = Some index" "function_Return (d @ r) = Some ret"
    "function_Params (d @ r) = Some params" "function_ParamsLen (d @ r) = Some (word_of_nat (length params))"
    "function_ParamsIter (d @ r) fcn s = iter_list fcn 0 params s"
    "function_Name (d @ r) = Some name" "function_Path (d @ r) = Some path"
    "function_PathLen (d @ r) = Some (word_of_nat (length path))"
    "function_PathIter (d @ r) gcn s' = iter_list gcn 0 path s'"
    "function_Blocks (d @ r) = Some (blocks @ r)"
    "getUint32 (d @ r) 0 = Some (word_of_nat (length d))"
proof -
  define ps where "ps = enc_params params"
  define nm where "nm = enc_string name"
  define pa where "pa = enc_path path"
  define h where "h = be32 (word_of_nat (32 + length ps + length nm + length pa + length blocks)) @ be32 typeFunction @
      be32 (word_of_int index) @ be32 (word_of_int ret) @
      be32 32 @ be32 (word_of_nat (32 + length ps)) @ be32 (word_of_nat (32 + length ps + length nm)) @
      be32 (word_of_nat (32 + length ps + length nm + length pa))"
  have layout: "function_layout name index params ret blocks path = h @ ps @ nm @ pa @ blocks"
    by (simp add: function_layout_def Let_def h_def ps_def nm_def pa_def)
  have len: "length (h @ ps @ nm @ pa @ blocks @ r) < 2 ^ 32" using assms(2) unfolding layout by simp
  have d: "d = h @ ps @ nm @ pa @ blocks"
    using assms(1) function_Write_eq [of name index params ret blocks path] len unfolding layout by simp
  have lh: "length h = 32" by (simp add: h_def)
  have small: "length params < 2 ^ 32" "length path < 2 ^ 32" using len by (simp_all add: ps_def pa_def)
  note n = small [THEN unat_u32_small]
  note fdefs = reader_defs byte_simps read_back getOffsetIndex_def
  show "function_Type (d @ r) = Some typeFunction" "function_IsBuiltin (d @ r) = Some False"
    "function_Index (d @ r) = Some index" "function_Return (d @ r) = Some ret"
    using assms(3,4) by (simp_all add: d h_def function_Type_def function_IsBuiltin_def function_Index_def
        function_Return_def typeFunction_def typeBuiltin_def typeSpecializedBuiltin_def
        typeSpecializedBuiltinRegoCompile_def fdefs)
  show "getUint32 (d @ r) 0 = Some (word_of_nat (length d))"
    by (simp add: d h_def add.assoc byte_simps)
  have dps: "d @ r = h @ be32 (word_of_nat (length params)) @ words (map word_of_int params) @ nm @ pa @ blocks @ r"
    by (simp add: d ps_def)
  have s1: "length h + 4 + 4 * length params < 2 ^ 32" using len by (simp add: ps_def)
  have o32: "unat (word_of_int (16 + appendOffsetSize 4) :: u32) = length h" by (simp add: lh appendOffsetSize_def)
  show "function_Params (d @ r) = Some params"
    unfolding function_Params_def dps using o32 s1 assms(5) by (rule getLocalArray_at)
  have "getUint32 (d @ r) (word_of_int (16 + appendOffsetSize 4)) = Some (word_of_nat (length params))"
    unfolding dps using o32 by (rule getUint32_at)
  then show "function_ParamsLen (d @ r) = Some (word_of_nat (length params))"
    "function_ParamsIter (d @ r) fcn s = iter_list fcn 0 params s"
    using local_array_iter [OF o32 s1 assms(5), of "word_of_nat (length params)" "nm @ pa @ blocks @ r" fcn s, folded dps]
    by (simp_all only: function_ParamsLen_def function_ParamsIter_def Let_def bind.bind_lunit n)
  have off1: "getOffsetIndex (d @ r) 16 1 = Some (word_of_nat (length (h @ ps)))"
    and off2: "getOffsetIndex (d @ r) 16 2 = Some (word_of_nat (length (h @ ps @ nm)))"
    and off3: "getOffsetIndex (d @ r) 16 3 = Some (word_of_nat (length (h @ ps @ nm @ pa)))"
    by (simp_all add: d lh add.assoc getOffsetIndex_def) (simp_all add: h_def byte_simps add.assoc)
  have u1: "unat (word_of_nat (length (h @ ps)) :: u32) = length (h @ ps)"
    and u2: "unat (word_of_nat (length (h @ ps @ nm)) :: u32) = length (h @ ps @ nm)"
    and u3: "unat (word_of_nat (length (h @ ps @ nm @ pa)) :: u32) = length (h @ ps @ nm @ pa)"
    by (rule unat_u32_small; use len in simp)+
  have "getString ((h @ ps) @ enc_string name @ pa @ blocks @ r) (word_of_nat (length (h @ ps))) = Some name"
    using u1 len assms(6) by (intro getString_at) (simp_all add: nm_def)
  then show "function_Name (d @ r) = Some name"
    unfolding function_Name_def off1 by (simp add: d nm_def)
  have sl2: "slice_from (d @ r) (length (h @ ps @ nm)) = Some (enc_path path @ blocks @ r)"
    using slice_from_part [of _ "h @ ps @ nm" "enc_path path @ blocks @ r"] by (simp add: d pa_def)
  have d32: "length (d @ r) < 2 ^ 32" using len by (simp add: d)
  show pth: "function_Path (d @ r) = Some path"
    unfolding function_Path_def off2 bind.bind_lunit
    by (rule getStringArray_at [of _ _ _ "blocks @ r"]) (use sl2 d32 assms(6) in \<open>simp_all only: u2 append_assoc, simp\<close>)
  show "function_PathLen (d @ r) = Some (word_of_nat (length path))"
    unfolding function_PathLen_def off2 bind.bind_lunit getUint32_def u2 sl2 append_assoc by (rule BigEndian_Uint32_be32)
  have "iter_range (\<lambda>i. do { so \<leftarrow> getOffsetIndex (enc_path path @ blocks @ r) 4 (int i); getString (enc_path path @ blocks @ r) so })
      gcn 0 (length path) s' = iter_list gcn 0 path s'"
  proof (rule iter_range_list)
    fix j assume "j < length path"
    moreover have "length (be32 (word_of_nat (length path)) @ table 4 (map enc_string path) @ blocks @ r) < 2 ^ 32"
      using len by (simp add: pa_def)
    ultimately show "do { so \<leftarrow> getOffsetIndex (enc_path path @ blocks @ r) 4 (int (0 + j)); getString (enc_path path @ blocks @ r) so } = Some (path ! j)"
      using string_table_nth [of "word_of_nat (length path)" path "blocks @ r" j] assms(6) by simp
  qed
  then show "function_PathIter (d @ r) gcn s' = iter_list gcn 0 path s'"
    unfolding function_PathIter_def off2 bind.bind_lunit u2 sl2
    by (simp only: append_assoc getUint32_here bind.bind_lunit n)
  show "function_Blocks (d @ r) = Some (blocks @ r)"
    unfolding function_Blocks_def off3 bind.bind_lunit u3
    using slice_from_part [of _ "h @ ps @ nm @ pa" "blocks @ r"] by (simp add: d)
qed

lemma specializedBuiltin_read:
  "function_Type (specializedBuiltin_Write num @ r) = Some typeSpecializedBuiltin"
  "function_IsBuiltin (specializedBuiltin_Write num @ r) = Some True"
  "specializedBuiltin_Num (specializedBuiltin_Write num @ r) = Some num"
  by (simp_all add: specializedBuiltin_Write_def Let_def append_defs function_Type_def function_IsBuiltin_def
      specializedBuiltin_Num_def byte_simps)

lemma specializedBuiltinRegoCompile_read:
  "function_Type (specializedBuiltinRegoCompile_Write @ r) = Some typeSpecializedBuiltinRegoCompile"
  "function_IsBuiltin (specializedBuiltinRegoCompile_Write @ r) = Some True"
  by (simp_all add: specializedBuiltinRegoCompile_Write_def Let_def append_defs function_Type_def
      function_IsBuiltin_def byte_simps)

lemma builtin_Write_eq [writer_simps]:
  "builtin_Write name relation =
     Some (be32 (word_of_nat (13 + length name)) @ be32 typeBuiltin @ [if relation then 1 else 0] @ enc_string name)"
  by (simp add: builtin_Write_def append_defs appendStringSize_def putUint32_0)

lemma builtin_read:
  assumes "builtin_Write name relation = Some d" and "13 + length name < 2 ^ 32" and "name @ r \<noteq> []"
  shows "function_Type (d @ r) = Some typeBuiltin" "function_IsBuiltin (d @ r) = Some True"
    "builtin_Name (d @ r) = Some name" "builtin_Relation (d @ r) = Some relation"
proof -
  let ?h = "be32 (word_of_nat (13 + length name)) @ be32 typeBuiltin @ [if relation then 1 else 0]"
  have d: "d @ r = ?h @ enc_string name @ r" using assms(1) by (simp add: builtin_Write_eq)
  show "function_Type (d @ r) = Some typeBuiltin" "function_IsBuiltin (d @ r) = Some True"
    unfolding d by (simp_all add: function_Type_def function_IsBuiltin_def byte_simps)
  show "builtin_Relation (d @ r) = Some relation"
    unfolding d by (simp add: builtin_Relation_def getBool_def nth_append)
  show "builtin_Name (d @ r) = Some name"
    unfolding d builtin_Name_def using assms(2,3) by (intro getString_at) simp_all
qed

lemma plan_Write_eq [writer_simps]:
  "plan_Write name blocks = Some (be32 (word_of_nat (16 + length name + length blocks)) @ be32 12 @
     be32 (word_of_nat (16 + length name)) @ enc_string name @ blocks)"
  by (simp add: plan_Write_def Let_def append_defs replicate_zero_words putOffsetIndex_def put_at_skip putUint32_0
      appendOffsetSize_def appendStringSize_def add.assoc)

lemma plan_read:
  assumes "plan_Write name blocks = Some d" and "length d < 2 ^ 32" and "blocks \<noteq> []"
  shows "plan_Name (d @ r) = Some name" "plan_Blocks (d @ r) = Some (blocks @ r)"
proof -
  let ?h = "be32 (word_of_nat (16 + length name + length blocks)) @ be32 12 @ be32 (word_of_nat (16 + length name))"
  have d: "d @ r = ?h @ enc_string name @ blocks @ r" and "16 + length name < 2 ^ 32"
    using assms(1,2) by (auto simp: plan_Write_eq)
  then have "unat (word_of_nat (16 + length name) :: u32) = length (?h @ enc_string name)"
    unfolding unat_u32_small [OF \<open>16 + length name < 2 ^ 32\<close>] by simp
  moreover have "getOffsetIndex (d @ r) 4 1 = Some (word_of_nat (16 + length name))"
    unfolding d by (simp add: getOffsetIndex_def byte_simps)
  ultimately show "plan_Blocks (d @ r) = Some (blocks @ r)"
    using slice_from_part [of _ "?h @ enc_string name" "blocks @ r"]
    by (simp only: plan_Blocks_def bind.bind_lunit d append_assoc)
  have "getOffsetIndex (d @ r) 4 0 = Some 12" unfolding d by (simp add: getOffsetIndex_def byte_simps)
  moreover have "getString (?h @ enc_string name @ blocks @ r) 12 = Some name"
    using assms(3) \<open>16 + length name < 2 ^ 32\<close> by (intro getString_at) simp_all
  ultimately show "plan_Name (d @ r) = Some name" by (simp add: plan_Name_def d)
qed

section \<open>The file\<close>

lemmas header_offset_defs = headerMagicOffset_def headerVersionOffset_def headerLengthOffset_def
  headerStringsOffsetOffset_def headerFunctionsOffsetOffset_def headerPlansOffsetOffset_def headerLength_def

lemma magic_be32: "magic = be32 0x7265676f"
  by code_simp

lemma Executable_Write_eq:
  assumes "24 + length ss + length fs + length ps < 2 ^ 32"
  shows "Executable_Write ss fs ps = Some (magic @ be32 version @ be32 (word_of_nat (24 + length ss + length fs + length ps)) @
     be32 0 @ be32 (word_of_nat (length ss)) @ be32 (word_of_nat (length ss + length fs)) @ ss @ fs @ ps)"
proof -
  have "\<not> word_of_nat (24 + length ss + length fs + length ps) < (24 :: u32)"
    unfolding word_less_nat_alt unat_u32_small [OF assms] by simp
  then show ?thesis
    by (simp add: Executable_Write_def header_Write_def headerLength_def Let_def append_defs magic_be32 add.assoc)
qed

lemma Executable_read:
  assumes "Executable_Write ss fs ps = Some e" and "24 + length ss + length fs + length ps < 2 ^ 32"
  shows "Executable_IsValid e = Some True" "Executable_Strings e = Some (ss @ fs @ ps)"
    "Executable_Functions e = Some (fs @ ps)" "Executable_Plans e = Some ps"
    "header_Length e = Some (word_of_nat (length e))"
proof -
  let ?h = "magic @ be32 version @ be32 (word_of_nat (24 + length ss + length fs + length ps)) @
     be32 0 @ be32 (word_of_nat (length ss)) @ be32 (word_of_nat (length ss + length fs))"
  have e: "e = ?h @ ss @ fs @ ps" using assms(1) Executable_Write_eq [OF assms(2)] by simp
  have n: "length e = 24 + length ss + length fs + length ps" by (simp add: e magic_be32)
  have off: "unat (headerLength + word_of_nat k) = 24 + k" if "k \<le> length ss + length fs" for k
  proof -
    have "headerLength + word_of_nat k = word_of_nat (24 + k)" by (simp add: headerLength_def)
    then show ?thesis using assms(2) that by (simp only:) (rule unat_u32_small, simp)
  qed
  show "header_Length e = Some (word_of_nat (length e))"
    unfolding n by (simp add: e header_Length_def header_offset_defs magic_be32 byte_simps)
  then show "Executable_IsValid e = Some True"
    using n by (simp add: Executable_IsValid_def header_IsValid_def)
      (simp add: e header_Version_def header_offset_defs magic_be32 byte_simps add.assoc)
  show "Executable_Strings e = Some (ss @ fs @ ps)"
    using off [of 0] by (simp add: Executable_Strings_def e header_StringsOffset_def header_offset_defs magic_be32 byte_simps)
  show "Executable_Functions e = Some (fs @ ps)"
    using off [of "length ss"] by (simp add: Executable_Functions_def e header_FunctionsOffset_def
        header_offset_defs magic_be32 byte_simps)
  show "Executable_Plans e = Some ps"
    using off [of "length ss + length fs"] by (simp add: Executable_Plans_def e header_PlansOffset_def
        header_offset_defs magic_be32 byte_simps)
qed

section \<open>Properties\<close>

text \<open>C39.  Round trip of the file: what \<open>Executable.Write\<close> assembles is valid, and the three accessors give back the
  string table, the functions and the plans, each with the rest of the file after it.\<close>

theorem Executable_roundtrip:
  assumes "Executable_Write ss fs ps = Some e" and "24 + length ss + length fs + length ps < 2 ^ 32"
  shows "Executable_IsValid e = Some True \<and> Executable_Strings e = Some (ss @ fs @ ps) \<and>
    Executable_Functions e = Some (fs @ ps) \<and> Executable_Plans e = Some ps"
  using Executable_read [OF assms] by simp

theorem Executable_roundtrip_witness:
  "Executable_Plans (the (Executable_Write [1] [2] [3, 4])) = Some [3, 4]"
  using Executable_roundtrip [of "[1]" "[2]" "[3, 4]" "the (Executable_Write [1] [2] [3, 4])"]
  by (simp add: Executable_Write_eq)

text \<open> Round trip of a function: every accessor of the encoded function gives back the part it was written
  from, with any data after the function.\<close>

theorem function_roundtrip:
  assumes "function_Write name index params ret blocks path = Some d"
    and "length (function_layout name index params ret blocks path @ r) < 2 ^ 32"
    and "wf_int32 index" and "wf_local ret" and "list_all wf_local params" and "blocks \<noteq> []"
  shows "function_Type (d @ r) = Some typeFunction \<and> function_Index (d @ r) = Some index \<and>
    function_Return (d @ r) = Some ret \<and> function_Params (d @ r) = Some params \<and> function_Name (d @ r) = Some name \<and>
    function_Path (d @ r) = Some path \<and> function_Blocks (d @ r) = Some (blocks @ r)"
  using function_read [OF assms] by blast

theorem function_roundtrip_witness:
  "function_Path (the (function_Write [102] 2 [0, 1, 3] 4 [7, 7] [[97], [98, 99]]) @ [5]) = Some [[97], [98, 99]]"
  using function_roundtrip [of "[102]" 2 "[0, 1, 3]" 4 "[7, 7]" "[[97], [98, 99]]"
      "the (function_Write [102] 2 [0, 1, 3] 4 [7, 7] [[97], [98, 99]])" "[5]"]
  by (simp add: function_Write_eq function_layout_def Let_def wf_int32_def wf_local_def)

text \<open> Round trip of the statement \<open>with\<close>, which has a variable-length path before its block.\<close>

theorem with_roundtrip:
  assumes "with_Write l path v b = Some d" and "length d < 2 ^ 24"
    and "wf_lc v" and "list_all wf_int32 path" and "wf_local l"
  shows "with_Type (d @ r) = Some typeStatementWith \<and> getLen (d @ r) = Some (word_of_nat (length d)) \<and>
    with_Local (d @ r) = Some l \<and> with_Value (d @ r) = Some v \<and> with_Path (d @ r) = Some path \<and>
    with_Block (d @ r) = Some (b @ r)"
  using with_read [OF assms] by blast

theorem with_roundtrip_witness:
  "with_Block (the (with_Write 1 [4, 5] (NewBoolConst True) [8, 9]) @ [3]) = Some [8, 9, 3]"
  using with_roundtrip [of 1 "[4, 5]" "NewBoolConst True" "[8, 9]" "the (with_Write 1 [4, 5] (NewBoolConst True) [8, 9])" "[3]"]
  by (simp add: with_Write_eq wf_lc_def NewBoolConst_def boolConstType_def wf_int32_def wf_local_def)

text \<open> Round trip of calls: the callee, the target and the operands are read back, and the iterator over the
  arguments visits them in order.\<close>

theorem call_roundtrip:
  assumes "call_Write index args result = Some d" and "length d < 2 ^ 24"
    and "list_all wf_lc args" and "wf_local index" and "wf_local result"
  shows "call_Type (d @ r) = Some typeStatementCall \<and> call_Func (d @ r) = Some index \<and> call_Result (d @ r) = Some result \<and>
    call_Args (d @ r) = Some args \<and> call_ArgsIter (d @ r) fcn s = iter_list fcn 0 args s"
  by (simp add: call_read [OF assms])

theorem call_roundtrip_witness:
  "call_ArgsIter (the (call_Write 3 [NewLocal 5, NewBoolConst True] 7) @ [9])
     (\<lambda>i a n. Some (Inr (n + lc_v a) :: unit + int)) 0 = Some (Inr 6)"
  using call_roundtrip [of 3 "[NewLocal 5, NewBoolConst True]" 7 "the (call_Write 3 [NewLocal 5, NewBoolConst True] 7)" "[9]"
      "\<lambda>i a n. Some (Inr (n + lc_v a) :: unit + int)" 0]
  by (simp add: call_Write_eq wf_lc_def NewBoolConst_def NewLocal_def boolConstType_def localType_def wf_local_def)

text \<open> Round trip of the string table: every string is found by its index.  The last string may be empty only
  when data follows the table, which in an executable it does.\<close>

theorem strings_roundtrip:
  assumes "strings_Write ss = Some d" and "length (d @ r) < 2 ^ 32" and "4 + 4 * length ss < 2 ^ 32"
    and "r \<noteq> []" and "i < length ss"
  shows "strings_Len (d @ r) = Some (int (length ss)) \<and> strings_bytes (d @ r) (int i) = Some (ss ! i)"
  using strings_read [OF assms(1-3)] assms(4,5) by blast

theorem strings_roundtrip_witness:
  "strings_bytes (the (strings_Write [[97], [], [98, 99]]) @ [0]) 1 = Some []"
  using strings_roundtrip [of "[[97], [], [98, 99]]" "the (strings_Write [[97], [], [98, 99]])" "[0]" 1]
  by (simp add: strings_Write_eq table_def)

text \<open> Round trip of a list of blocks: block \<open>i\<close> is found through the offset table.\<close>

theorem blocks_roundtrip:
  assumes "blocks_Write bs = Some d" and "length d < 2 ^ 32" and "8 + 4 * length bs < 2 ^ 32" and "i < length bs"
  shows "blocks_Len (d @ r) = Some (int (length bs)) \<and>
    blocks_Block (d @ r) (int i) = Some (bs ! i @ concat (drop (Suc i) bs) @ r)"
  using blocks_read [OF assms(1-3)] assms(4) by blast

theorem blocks_roundtrip_witness:
  "blocks_Block (the (blocks_Write [[1, 2], [3]]) @ [4]) 1 = Some [3, 4]"
  using blocks_roundtrip [of "[[1, 2], [3]]" "the (blocks_Write [[1, 2], [3]])" 1 "[4]"]
  by (simp add: blocks_Write_eq table_def)

text \<open> A truncated executable still passes \<open>IsValid\<close>: the length of the header is only checked not to be below
  the length of the data, so every cut that leaves the header is accepted.\<close>

theorem IsValid_accepts_truncated:
  assumes "Executable_Write ss fs ps = Some e" and "24 + length ss + length fs + length ps < 2 ^ 32" and "24 \<le> n"
  shows "Executable_IsValid (take n e) = Some True"
proof -
  let ?N = "24 + length ss + length fs + length ps"
  let ?h = "be32 0x7265676f @ be32 version @ be32 (word_of_nat ?N) @ be32 0 @ be32 (word_of_nat (length ss)) @
    be32 (word_of_nat (length ss + length fs))"
  have e: "e = ?h @ ss @ fs @ ps" using assms(1) Executable_Write_eq [OF assms(2)] by (simp add: magic_be32)
  have "length e = ?N" by (simp add: e)
  then have n: "length (take n e) \<le> ?N" by (simp only: length_take)
  have "take n ?h = ?h" using assms(3) by (intro take_all) simp
  then obtain r where r: "take n e = ?h @ r" unfolding e by (metis take_append)
  have "\<not> word_of_nat ?N < (word_of_nat (length (take n e)) :: u32)"
    using n assms(2) unfolding word_less_nat_alt unat_u32_small [OF assms(2)]
    by (subst unat_u32_small) (auto simp del: length_take)
  then show ?thesis
    by (simp add: r Executable_IsValid_def header_IsValid_def header_Version_def header_Length_def header_offset_defs
        magic_be32 byte_simps add.assoc)
qed

theorem IsValid_accepts_truncated_witness:
  "Executable_IsValid (take 24 (the (Executable_Write [1] [2] [3, 4]))) = Some True"
  using IsValid_accepts_truncated [of "[1]" "[2]" "[3, 4]" "the (Executable_Write [1] [2] [3, 4])" 24]
  by (simp add: Executable_Write_eq)

text \<open> The length of a statement shares a word with its type and is not checked against its 24 bits: a \<open>not\<close>
  statement of \<open>2 ^ 24\<close> bytes is read as a \<open>notEqual\<close>.\<close>

theorem not_Write_overflow:
  assumes "not_Write b = Some d" and "length b = 2 ^ 24 - 4"
  shows "not_Type d = Some typeStatementNotEqual"
proof -
  have "tl_word typeStatementNot (4 + length b) = (0x19000000 :: u32)"
    unfolding assms(2) by (simp add: tl_word_def)
  then show ?thesis using assms(1) by (auto simp: not_Write_eq not_Type_def getType_def byte_simps)
qed

theorem not_Write_overflow_witness:
  "not_Type (the (not_Write (replicate (2 ^ 24 - 4) 0))) = Some typeStatementNotEqual"
  using not_Write_overflow [of "replicate (2 ^ 24 - 4) 0" "the (not_Write (replicate (2 ^ 24 - 4) 0))"]
  by (simp add: not_Write_eq)

end
