(* ===== verification/Compiler.thy ===== *)
theory Compiler
  imports Executable
begin

text \<open>
  The compiler of src/pkg/vm/compiler.go: it turns the IR of a policy (the package \<open>ir\<close> of OPA, a
  dependency) into the executable format.  The IR types below have the fields the compiler reads.
  \<open>UnsupportedStmt\<close> stands for every statement type the compiler has no case for, \<open>OpOther\<close> for every
  operand value it has no case for; the first is an error, the second a panic.

  A result is \<open>None\<close> on a panic, \<open>Some (Inl e)\<close> on an error, \<open>Some (Inr data)\<close> otherwise.
\<close>

section \<open>Intermediate representation\<close>

datatype operand = OpLocal int | OpBool bool | OpStringIndex int | OpOther

datatype stmt =
    NopStmt
  | AssignIntStmt int int
  | AssignVarOnceStmt operand int
  | AssignVarStmt operand int
  | ScanStmt int int int "stmt list"
  | BlockStmt "stmt list list"
  | BreakStmt u32
  | NotStmt "stmt list"
  | ReturnLocalStmt int
  | CallDynamicStmt "int list" int "operand list"
  | CallStmt gostring "operand list" int
  | DotStmt operand operand int
  | EqualStmt operand operand
  | NotEqualStmt operand operand
  | IsArrayStmt operand
  | IsSetStmt operand
  | IsObjectStmt operand
  | IsDefinedStmt int
  | IsUndefinedStmt int
  | MakeNullStmt int
  | MakeNumberIntStmt int int
  | MakeNumberRefStmt int int
  | MakeArrayStmt int int
  | MakeSetStmt int
  | MakeObjectStmt int
  | LenStmt operand int
  | ArrayAppendStmt operand int
  | SetAddStmt operand int
  | ObjectInsertOnceStmt operand operand int
  | ObjectInsertStmt operand operand int
  | ObjectMergeStmt int int int
  | WithStmt int "int list" operand "stmt list"
  | ResultSetAddStmt int
  | ResetLocalStmt int
  | UnsupportedStmt

text \<open>A block is its list of statements.\<close>

type_synonym block = "stmt list"

record func =
  fn_Name :: gostring
  fn_Params :: "int list"
  fn_Return :: int
  fn_Blocks :: "block list"
  fn_Path :: "gostring list"

record plan =
  pl_Name :: gostring
  pl_Blocks :: "block list"

record policy =
  po_Strings :: "gostring list"
  po_BuiltinFuncs :: "gostring list"
  po_Funcs :: "func list"
  po_Plans :: "plan list"

text \<open>What the compiler reads of OPA's builtins: \<open>WithBuiltins\<close> (is there an implementation, is it a
  relation), \<open>topdown.GetBuiltin\<close>, \<open>ast.Builtins\<close>, and the names \<open>ast.Member.Name\<close> ... \<open>ast.GlobMatch.Name\<close> of
  the specialised builtins, in the order of their numbers.\<close>

record builtin_env =
  be_Funcs :: "gostring \<rightharpoonup> bool \<times> bool"
  be_GetBuiltin :: "gostring \<Rightarrow> bool"
  be_Builtins :: "(gostring \<times> bool) list"
  be_specialized_names :: "gostring list"

definition specializedBuiltins :: "builtin_env \<Rightarrow> gostring \<rightharpoonup> u32" where
  "specializedBuiltins be = map_of (rev (zip (be_specialized_names be) (map word_of_nat [0..<30])))"

section \<open>Errors\<close>

datatype compile_error =
    BuiltinNotFound gostring
  | FunctionNotFound gostring
  | UnsupportedStatementType
  | IllegalFunctionZeroArgs
  | InBlock nat compile_error
  | InFunc gostring compile_error

type_synonym 'a compiled = "(compile_error + 'a) option"

definition and_then :: "('e + 'a) option \<Rightarrow> ('a \<Rightarrow> ('e + 'b) option) \<Rightarrow> ('e + 'b) option" where
  "and_then m f = (case m of None \<Rightarrow> None | Some (Inl e) \<Rightarrow> Some (Inl e) | Some (Inr x) \<Rightarrow> f x)"

definition no_error :: "'a option \<Rightarrow> ('e + 'a) option" where
  "no_error m = map_option Inr m"

lemma and_then_simps [simp]:
  "and_then None f = None" "and_then (Some (Inl e)) f = Some (Inl e)" "and_then (Some (Inr x)) f = f x"
  by (simp_all add: and_then_def)

lemma no_error_simps [simp]: "no_error None = None" "no_error (Some x) = Some (Inr x)"
  by (simp_all add: no_error_def)

lemma and_then_Inr: "and_then m f = Some (Inr y) \<longleftrightarrow> (\<exists>x. m = Some (Inr x) \<and> f x = Some (Inr y))"
  by (auto simp: and_then_def split: option.splits sum.splits)

lemma no_error_Inr [simp]: "no_error m = Some (Inr y) \<longleftrightarrow> m = Some y"
  by (auto simp: no_error_def)

section \<open>Statements\<close>

definition Compiler_local :: "int \<Rightarrow> Local" where
  "Compiler_local l = l"

definition Compiler_localOrConst :: "operand \<Rightarrow> LocalOrConst option" where
  "Compiler_localOrConst l = (case l of
     OpLocal v \<Rightarrow> Some (NewLocal v)
   | OpBool v \<Rightarrow> Some (NewBoolConst v)
   | OpStringIndex v \<Rightarrow> Some (NewStringIndexConst v)
   | OpOther \<Rightarrow> None)"

primrec localOrConst_list :: "operand list \<Rightarrow> LocalOrConst list option" where
  "localOrConst_list [] = Some []"
| "localOrConst_list (x # xs) = do { y \<leftarrow> Compiler_localOrConst x; ys \<leftarrow> localOrConst_list xs; Some (y # ys) }"

text \<open>The cases of the statement switch that do not compile a nested block.\<close>

definition compile_simple :: "(gostring \<rightharpoonup> int) \<Rightarrow> stmt \<Rightarrow> bytes compiled" where
  "compile_simple functionIndex stmt = (case stmt of
     NopStmt \<Rightarrow> no_error nop_Write
   | AssignIntStmt value target \<Rightarrow> no_error (assignInt_Write value (Compiler_local target))
   | AssignVarOnceStmt source target \<Rightarrow> no_error (do {
       source \<leftarrow> Compiler_localOrConst source; assignVarOnce_Write source (Compiler_local target) })
   | AssignVarStmt source target \<Rightarrow> no_error (do {
       source \<leftarrow> Compiler_localOrConst source; assignVar_Write source (Compiler_local target) })
   | BreakStmt index \<Rightarrow> no_error (breakStmt_Write index)
   | ReturnLocalStmt source \<Rightarrow> no_error (returnLocal_Write (Compiler_local source))
   | CallDynamicStmt args result path \<Rightarrow> no_error (do {
       path \<leftarrow> localOrConst_list path;
       callDynamic_Write (map Compiler_local args) (Compiler_local result) path })
   | CallStmt f args result \<Rightarrow> (case functionIndex f of
       None \<Rightarrow> Some (Inl (FunctionNotFound f))
     | Some i \<Rightarrow> no_error (do { args \<leftarrow> localOrConst_list args; call_Write i args (Compiler_local result) }))
   | DotStmt source key target \<Rightarrow> no_error (do {
       source \<leftarrow> Compiler_localOrConst source; key \<leftarrow> Compiler_localOrConst key;
       dot_Write source key (Compiler_local target) })
   | EqualStmt a b \<Rightarrow> no_error (do { a \<leftarrow> Compiler_localOrConst a; b \<leftarrow> Compiler_localOrConst b; equal_Write a b })
   | NotEqualStmt a b \<Rightarrow> no_error (do { a \<leftarrow> Compiler_localOrConst a; b \<leftarrow> Compiler_localOrConst b; notEqual_Write a b })
   | IsArrayStmt source \<Rightarrow> no_error (do { source \<leftarrow> Compiler_localOrConst source; isArray_Write source })
   | IsSetStmt source \<Rightarrow> no_error (do { source \<leftarrow> Compiler_localOrConst source; isSet_Write source })
   | IsObjectStmt source \<Rightarrow> no_error (do { source \<leftarrow> Compiler_localOrConst source; isObject_Write source })
   | IsDefinedStmt source \<Rightarrow> no_error (isDefined_Write (Compiler_local source))
   | IsUndefinedStmt source \<Rightarrow> no_error (isUndefined_Write (Compiler_local source))
   | MakeNullStmt target \<Rightarrow> no_error (makeNull_Write (Compiler_local target))
   | MakeNumberIntStmt value target \<Rightarrow> no_error (makeNumberInt_Write value (Compiler_local target))
   | MakeNumberRefStmt index target \<Rightarrow> no_error (makeNumberRef_Write index (Compiler_local target))
   | MakeArrayStmt capacity target \<Rightarrow> no_error (makeArray_Write capacity (Compiler_local target))
   | MakeSetStmt target \<Rightarrow> no_error (makeSet_Write (Compiler_local target))
   | MakeObjectStmt target \<Rightarrow> no_error (makeObject_Write (Compiler_local target))
   | LenStmt source target \<Rightarrow> no_error (do {
       source \<leftarrow> Compiler_localOrConst source; lenStmt_Write source (Compiler_local target) })
   | ArrayAppendStmt value array \<Rightarrow> no_error (do {
       value \<leftarrow> Compiler_localOrConst value; arrayAppend_Write value (Compiler_local array) })
   | SetAddStmt value set' \<Rightarrow> no_error (do {
       value \<leftarrow> Compiler_localOrConst value; setAdd_Write value (Compiler_local set') })
   | ObjectInsertOnceStmt key value obj \<Rightarrow> no_error (do {
       key \<leftarrow> Compiler_localOrConst key; value \<leftarrow> Compiler_localOrConst value;
       objectInsertOnce_Write key value (Compiler_local obj) })
   | ObjectInsertStmt key value obj \<Rightarrow> no_error (do {
       key \<leftarrow> Compiler_localOrConst key; value \<leftarrow> Compiler_localOrConst value;
       objectInsert_Write key value (Compiler_local obj) })
   | ObjectMergeStmt a b target \<Rightarrow> no_error (objectMerge_Write (Compiler_local a) (Compiler_local b) (Compiler_local target))
   | ResultSetAddStmt value \<Rightarrow> no_error (resultSetAdd_Write (Compiler_local value))
   | ResetLocalStmt target \<Rightarrow> no_error (resetLocal_Write (Compiler_local target))
   | _ \<Rightarrow> Some (Inl UnsupportedStatementType))"

text \<open>\<open>compileBlock\<close> compiles the statements in order and stops at the first error;
  \<open>compileBlocks\<close> does so for a list of blocks and wraps the error with the position of the block.\<close>

fun compileStmt :: "(gostring \<rightharpoonup> int) \<Rightarrow> stmt \<Rightarrow> bytes compiled"
  and compileStmts :: "(gostring \<rightharpoonup> int) \<Rightarrow> stmt list \<Rightarrow> bytes list compiled"
  and compileBlockList :: "(gostring \<rightharpoonup> int) \<Rightarrow> nat \<Rightarrow> stmt list list \<Rightarrow> bytes list compiled" where
  "compileStmt fi (ScanStmt source key value block) =
     and_then (compileStmts fi block) (\<lambda>datas. and_then (no_error (block_Write datas)) (\<lambda>data.
       no_error (scan_Write (Compiler_local source) (Compiler_local key) (Compiler_local value) data)))"
| "compileStmt fi (BlockStmt blocks) =
     and_then (compileBlockList fi 0 blocks) (\<lambda>datas. and_then (no_error (blocks_Write datas)) (\<lambda>data.
       no_error (blockStmt_Write data)))"
| "compileStmt fi (NotStmt block) =
     and_then (compileStmts fi block) (\<lambda>datas. and_then (no_error (block_Write datas)) (\<lambda>data. no_error (not_Write data)))"
| "compileStmt fi (WithStmt local path value block) =
     and_then (compileStmts fi block) (\<lambda>datas. and_then (no_error (block_Write datas)) (\<lambda>data.
       no_error (do { value \<leftarrow> Compiler_localOrConst value; with_Write (Compiler_local local) path value data })))"
| "compileStmt fi stmt = compile_simple fi stmt"
| "compileStmts fi [] = Some (Inr [])"
| "compileStmts fi (s # ss) =
     and_then (compileStmt fi s) (\<lambda>d. and_then (compileStmts fi ss) (\<lambda>ds. Some (Inr (d # ds))))"
| "compileBlockList fi i [] = Some (Inr [])"
| "compileBlockList fi i (b # bs) =
     (case and_then (compileStmts fi b) (\<lambda>datas. no_error (block_Write datas)) of
        None \<Rightarrow> None
      | Some (Inl e) \<Rightarrow> Some (Inl (InBlock i e))
      | Some (Inr d) \<Rightarrow> and_then (compileBlockList fi (Suc i) bs) (\<lambda>ds. Some (Inr (d # ds))))"

definition compileBlock :: "(gostring \<rightharpoonup> int) \<Rightarrow> block \<Rightarrow> bytes compiled" where
  "compileBlock fi b = and_then (compileStmts fi b) (\<lambda>datas. no_error (block_Write datas))"

definition compileBlocks :: "(gostring \<rightharpoonup> int) \<Rightarrow> block list \<Rightarrow> bytes compiled" where
  "compileBlocks fi input = and_then (compileBlockList fi 0 input) (\<lambda>writtenBlocks. no_error (blocks_Write writtenBlocks))"

section \<open>Functions, plans, policy\<close>

definition compileFunc :: "(gostring \<rightharpoonup> int) \<Rightarrow> func \<Rightarrow> int \<Rightarrow> bytes compiled" where
  "compileFunc fi fn index =
     (if fn_Params fn = [] then Some (Inl IllegalFunctionZeroArgs) else
      let params = map Compiler_local (fn_Params fn) in
      and_then (compileBlocks fi (fn_Blocks fn)) (\<lambda>data.
        let ret = Compiler_local (fn_Return fn) in
        no_error (function_Write (fn_Name fn) index params ret data (fn_Path fn))))"

text \<open>The implementation and the relation flag of a declared builtin: the last entry of
  \<open>ast.Builtins\<close> with the name decides.\<close>

definition lookup_builtin :: "builtin_env \<Rightarrow> gostring \<Rightarrow> bool \<times> bool" where
  "lookup_builtin be name = (case be_Funcs be name of
     Some (impl, relation) \<Rightarrow> (impl, relation)
   | None \<Rightarrow> (be_GetBuiltin be name,
       foldl (\<lambda>relation f. if fst f = name then snd f else relation) False (be_Builtins be)))"

definition encode_builtin :: "builtin_env \<Rightarrow> gostring \<Rightarrow> bool \<Rightarrow> bytes \<Rightarrow> bytes option" where
  "encode_builtin be name relation functions = do {
     let functions = (case specializedBuiltins be name of
         Some num \<Rightarrow> functions @ specializedBuiltin_Write num | None \<Rightarrow> functions);
     let functions = (if name = str ''rego.compile'' then functions @ specializedBuiltinRegoCompile_Write else functions);
     b \<leftarrow> builtin_Write name relation;
     Some (functions @ b) }"

fun compile_builtins :: "builtin_env \<Rightarrow> u32 \<Rightarrow> nat \<Rightarrow> gostring list \<Rightarrow> (gostring \<rightharpoonup> int) \<Rightarrow> bytes \<Rightarrow>
    (bytes \<times> (gostring \<rightharpoonup> int)) compiled" where
  "compile_builtins be foffsets i [] fi functions = Some (Inr (functions, fi))"
| "compile_builtins be foffsets i (name # decls) fi functions =
     (let (impl, relation) = lookup_builtin be name in
      if \<not> impl then Some (Inl (BuiltinNotFound name)) else
      let fi = fi(name \<mapsto> int i); off = word_of_nat (length functions) in
      and_then (no_error (do {
          functions \<leftarrow> putOffsetIndex functions foffsets (int i) off;
          encode_builtin be name relation functions }))
        (\<lambda>functions. compile_builtins be foffsets (Suc i) decls fi functions))"

fun compile_functions :: "u32 \<Rightarrow> nat \<Rightarrow> nat \<Rightarrow> func list \<Rightarrow> (gostring \<rightharpoonup> int) \<Rightarrow> bytes \<Rightarrow>
    (bytes \<times> (gostring \<rightharpoonup> int)) compiled" where
  "compile_functions foffsets nb i [] fi functions = Some (Inr (functions, fi))"
| "compile_functions foffsets nb i (fn # fns) fi functions =
     and_then (no_error (putOffsetIndex functions foffsets (int (i + nb)) (word_of_nat (length functions)))) (\<lambda>functions.
       case compileFunc fi fn (int (i + nb)) of
         None \<Rightarrow> None
       | Some (Inl e) \<Rightarrow> Some (Inl (InFunc (fn_Name fn) e))
       | Some (Inr data) \<Rightarrow>
           compile_functions foffsets nb (Suc i) fns (fi(fn_Name fn \<mapsto> int (i + nb))) (functions @ data))"

definition compileFuncs :: "builtin_env \<Rightarrow> policy \<Rightarrow> (gostring \<rightharpoonup> int) \<Rightarrow> (bytes \<times> (gostring \<rightharpoonup> int)) compiled" where
  "compileFuncs be p fi =
     (let n = length (po_BuiltinFuncs p) + length (po_Funcs p);
          functions = appendUint32 [] (word_of_nat n);
          foffsets = word_of_nat (length functions);
          functions = appendOffsetIndex functions n
      in and_then (compile_builtins be foffsets 0 (po_BuiltinFuncs p) fi functions) (\<lambda>(functions, fi).
           compile_functions foffsets (length (po_BuiltinFuncs p)) 0 (po_Funcs p) fi functions))"

definition compilePlan :: "(gostring \<rightharpoonup> int) \<Rightarrow> plan \<Rightarrow> bytes compiled" where
  "compilePlan fi p = and_then (compileBlocks fi (pl_Blocks p)) (\<lambda>data. no_error (plan_Write (pl_Name p) data))"

primrec compile_plan_list :: "(gostring \<rightharpoonup> int) \<Rightarrow> plan list \<Rightarrow> bytes list compiled" where
  "compile_plan_list fi [] = Some (Inr [])"
| "compile_plan_list fi (p # ps) =
     and_then (compilePlan fi p) (\<lambda>d. and_then (compile_plan_list fi ps) (\<lambda>ds. Some (Inr (d # ds))))"

definition compilePlans :: "(gostring \<rightharpoonup> int) \<Rightarrow> policy \<Rightarrow> bytes compiled" where
  "compilePlans fi p = and_then (compile_plan_list fi (po_Plans p)) (\<lambda>ps. no_error (plans_Write ps))"

definition compileStrings :: "policy \<Rightarrow> bytes compiled" where
  "compileStrings p = no_error (strings_Write (po_Strings p))"

text \<open>\<open>NewCompiler\<close> starts with an empty function index; \<open>Compile\<close> fills it while compiling the functions.\<close>

definition Compile :: "builtin_env \<Rightarrow> policy \<Rightarrow> bytes compiled" where
  "Compile be p =
     and_then (compileStrings p) (\<lambda>strings.
     and_then (compileFuncs be p Map.empty) (\<lambda>(functions, fi).
     and_then (compilePlans fi p) (\<lambda>plans.
       no_error (Executable_Write strings functions plans))))"

end
