(* ===== verification/Registers.thy ===== *)
theory Registers
  imports Prelude
begin

text \<open>
  The registers of a function activation (src/pkg/vm/vm.go): a linked list of buckets of
  \<open>registersSize\<close> values, extended on demand by \<open>findReg\<close> and \<open>find2Regs\<close>, and the \<open>bitset\<close> that marks the
  locals bound to the data document.  A value that is undefined (Go's \<open>nil\<close>) is \<open>None\<close>.  Locals are read
  from executables with \<open>getLocal\<close> and so are never negative; they index as natural numbers here.

  The lemmas show that the buckets behave as one array of unbounded length in which every register is
  undefined at first, and that the bitset behaves as a set.
\<close>

section \<open>Buckets\<close>

definition registersSize :: nat where "registersSize = 32"

type_synonym 'v bucket = "'v option list"

text \<open>\<open>newRegisterPoolElement\<close>; also the zero value of the inline first bucket.\<close>

definition newRegisterPoolElement :: "'v bucket" where
  "newRegisterPoolElement = replicate registersSize None"

text \<open>The walk of \<open>findReg\<close>: it follows \<open>next\<close> for the given number of buckets and takes a bucket from the
  pool where the list ends.\<close>

fun findReg_walk :: "nat \<Rightarrow> 'v bucket list \<Rightarrow> 'v bucket list" where
  "findReg_walk (Suc b) (r # rs) =
     r # findReg_walk b (case rs of [] \<Rightarrow> [newRegisterPoolElement] | _ \<Rightarrow> rs)"
| "findReg_walk _ rs = rs"

definition findReg :: "'v bucket list \<Rightarrow> nat \<Rightarrow> 'v bucket list \<times> nat" where
  "findReg rs v = (let buckets = v div registersSize in (findReg_walk buckets rs, buckets))"

text \<open>\<open>find2Regs\<close> walks once for two locals; \<open>i\<close> counts the buckets passed, \<open>r1\<close> and \<open>r2\<close> are the positions of
  the buckets found.\<close>

function find2Regs_walk :: "nat \<Rightarrow> nat \<Rightarrow> nat \<Rightarrow> nat \<Rightarrow> nat \<Rightarrow> 'v bucket list \<Rightarrow> 'v bucket list \<times> nat \<times> nat" where
  "find2Regs_walk buckets1 buckets2 i r1 r2 rs =
     (if i < buckets1 \<or> i < buckets2 then
        let rs = (if Suc i < length rs then rs else rs @ [newRegisterPoolElement]);
            i = Suc i;
            r1 = (if i = buckets1 then i else r1);
            r2 = (if i = buckets2 then i else r2)
        in find2Regs_walk buckets1 buckets2 i r1 r2 rs
      else (rs, r1, r2))"
  by pat_completeness auto
termination by (relation "measure (\<lambda>(b1, b2, i, _). max b1 b2 - i)") auto

declare find2Regs_walk.simps [simp del]

definition find2Regs :: "'v bucket list \<Rightarrow> nat \<Rightarrow> nat \<Rightarrow> 'v bucket list \<times> nat \<times> nat" where
  "find2Regs rs v1 v2 = find2Regs_walk (v1 div registersSize) (v2 div registersSize) 0 0 0 rs"

definition regs_read :: "'v bucket list \<Rightarrow> nat \<Rightarrow> 'v option" where
  "regs_read rs v = (let (rs, b) = findReg rs v in rs ! b ! (v mod registersSize))"

definition regs_write :: "'v bucket list \<Rightarrow> nat \<Rightarrow> 'v option \<Rightarrow> 'v bucket list" where
  "regs_write rs v x = (let (rs, b) = findReg rs v in rs[b := (rs ! b)[v mod registersSize := x]])"

text \<open>\<open>r1.registers[target] = r2.registers[v]\<close>\<close>

definition regs_copy :: "'v bucket list \<Rightarrow> nat \<Rightarrow> nat \<Rightarrow> 'v bucket list" where
  "regs_copy rs target v =
     (let (rs, r1, r2) = find2Regs rs target v
      in rs[r1 := (rs ! r1)[target mod registersSize := rs ! r2 ! (v mod registersSize)]])"

text \<open>\<open>Release\<close> clears the buckets after the first and returns them to the pool.\<close>

definition regs_release :: "'v bucket list \<Rightarrow> 'v bucket list" where
  "regs_release rs = map (\<lambda>r. replicate (length r) None) (tl rs)"

subsection \<open>One array\<close>

definition regs_ok :: "'v bucket list \<Rightarrow> bool" where
  "regs_ok rs \<longleftrightarrow> rs \<noteq> [] \<and> list_all (\<lambda>r. length r = registersSize) rs"

definition regs_abs :: "'v bucket list \<Rightarrow> nat \<Rightarrow> 'v option" where
  "regs_abs rs v = (if v div registersSize < length rs then rs ! (v div registersSize) ! (v mod registersSize) else None)"

lemma findReg_walk_eq:
  "rs \<noteq> [] \<Longrightarrow> findReg_walk b rs = rs @ replicate (Suc b - length rs) newRegisterPoolElement"
proof (induction b rs rule: findReg_walk.induct)
  case (1 b r rs)
  show ?case
  proof (cases rs)
    case Nil
    then show ?thesis using "1.IH" by simp
  next
    case (Cons r' rs')
    then show ?thesis using "1.IH" by simp
  qed
qed (auto simp: Suc_le_eq)

lemma length_newRegisterPoolElement [simp]: "length newRegisterPoolElement = registersSize"
  by (simp add: newRegisterPoolElement_def)

lemma registersSize_pos [simp]: "0 < registersSize"
  by (simp add: registersSize_def)

lemma newRegisterPoolElement_nth [simp]: "i < registersSize \<Longrightarrow> newRegisterPoolElement ! i = None"
  by (simp add: newRegisterPoolElement_def)

lemma regs_abs_extend: "regs_abs (rs @ replicate k newRegisterPoolElement) = regs_abs rs"
  by (auto simp: regs_abs_def nth_append fun_eq_iff)

lemma regs_ok_extend: "regs_ok rs \<Longrightarrow> regs_ok (rs @ replicate k newRegisterPoolElement)"
  by (auto simp: regs_ok_def list_all_iff)

lemma regs_read_abs: "rs \<noteq> [] \<Longrightarrow> regs_read rs v = regs_abs rs v"
  by (auto simp: regs_read_def findReg_def findReg_walk_eq regs_abs_def nth_append Let_def)

lemma nth_update_abs:
  assumes "regs_ok rs" and "v div registersSize < length rs"
  shows "regs_abs (rs[v div registersSize := (rs ! (v div registersSize))[v mod registersSize := x]]) = (regs_abs rs)(v := x)"
proof (rule ext)
  fix w
  have "length (rs ! (v div registersSize)) = registersSize" using assms by (simp add: regs_ok_def list_all_length)
  moreover have "w = v \<longleftrightarrow> w div registersSize = v div registersSize \<and> w mod registersSize = v mod registersSize"
    by (metis div_mult_mod_eq)
  ultimately show "regs_abs (rs[v div registersSize := (rs ! (v div registersSize))[v mod registersSize := x]]) w =
    ((regs_abs rs)(v := x)) w"
    using assms(2) by (auto simp: regs_abs_def nth_list_update)
qed

lemma regs_ok_update: "regs_ok rs \<Longrightarrow> regs_ok (rs[b := (rs ! b)[i := x]])"
  by (cases "b < length rs") (auto simp: regs_ok_def list_all_length nth_list_update)

lemma regs_write_abs:
  assumes "regs_ok rs"
  shows "regs_abs (regs_write rs v x) = (regs_abs rs)(v := x)" "regs_ok (regs_write rs v x)"
proof -
  have rs: "rs \<noteq> []" using assms by (simp add: regs_ok_def)
  let ?k = "Suc (v div registersSize) - length rs"
  have eq: "regs_write rs v x = (rs @ replicate ?k newRegisterPoolElement)[v div registersSize :=
      ((rs @ replicate ?k newRegisterPoolElement) ! (v div registersSize))[v mod registersSize := x]]"
    by (simp add: regs_write_def findReg_def findReg_walk_eq [OF rs] Let_def)
  show "regs_abs (regs_write rs v x) = (regs_abs rs)(v := x)"
    unfolding eq by (subst nth_update_abs [OF regs_ok_extend [OF assms]]) (simp_all add: regs_abs_extend)
  show "regs_ok (regs_write rs v x)"
    unfolding eq by (intro regs_ok_update regs_ok_extend assms)
qed

lemma find2Regs_walk_eq:
  assumes "rs \<noteq> []" and "i < length rs" and "r1 = (if b1 \<le> i then b1 else 0)" and "r2 = (if b2 \<le> i then b2 else 0)"
  shows "find2Regs_walk b1 b2 i r1 r2 rs = (rs @ replicate (Suc (max b1 b2) - length rs) newRegisterPoolElement, b1, b2)
    \<or> max b1 b2 < i"
  using assms
proof (induction b1 b2 i r1 r2 rs rule: find2Regs_walk.induct)
  case (1 b1 b2 i r1 r2 rs)
  show ?case
  proof (cases "i < b1 \<or> i < b2")
    case True
    let ?rs = "if Suc i < length rs then rs else rs @ [newRegisterPoolElement]"
    have rec: "find2Regs_walk b1 b2 i r1 r2 rs = find2Regs_walk b1 b2 (Suc i) (if b1 \<le> Suc i then b1 else 0) (if b2 \<le> Suc i then b2 else 0) ?rs"
    proof -
      have "(if Suc i = b1 then Suc i else r1) = (if b1 \<le> Suc i then b1 else 0)"
        "(if Suc i = b2 then Suc i else r2) = (if b2 \<le> Suc i then b2 else 0)"
        using "1.prems" by auto
      then show ?thesis using True by (subst find2Regs_walk.simps) (simp add: Let_def)
    qed
    have ext: "?rs @ replicate (Suc (max b1 b2) - length ?rs) newRegisterPoolElement =
       rs @ replicate (Suc (max b1 b2) - length rs) newRegisterPoolElement"
    proof (cases "Suc i < length rs")
      case False
      then have "length rs = Suc i" using "1.prems" by simp
      moreover from this True have "Suc (max b1 b2) - length rs = Suc (Suc (max b1 b2) - length ?rs)" by auto
      ultimately show ?thesis by simp
    qed simp
    have "find2Regs_walk b1 b2 (Suc i) (if b1 \<le> Suc i then b1 else 0) (if b2 \<le> Suc i then b2 else 0) ?rs =
       (?rs @ replicate (Suc (max b1 b2) - length ?rs) newRegisterPoolElement, b1, b2) \<or> max b1 b2 < Suc i"
      using "1.prems" True by (intro "1.IH") auto
    then show ?thesis using True rec ext by auto
  next
    case False
    then show ?thesis using "1.prems" by (subst find2Regs_walk.simps) auto
  qed
qed

lemma find2Regs_eq:
  "rs \<noteq> [] \<Longrightarrow> find2Regs rs v1 v2 =
    (rs @ replicate (Suc (max (v1 div registersSize) (v2 div registersSize)) - length rs) newRegisterPoolElement,
     v1 div registersSize, v2 div registersSize)"
  using find2Regs_walk_eq [of rs 0 0 "v1 div registersSize" 0 "v2 div registersSize"]
  by (simp add: find2Regs_def)

lemma regs_copy_abs:
  assumes "regs_ok rs"
  shows "regs_abs (regs_copy rs target v) = (regs_abs rs)(target := regs_abs rs v)" "regs_ok (regs_copy rs target v)"
proof -
  have rs: "rs \<noteq> []" using assms by (simp add: regs_ok_def)
  let ?rs = "rs @ replicate (Suc (max (target div registersSize) (v div registersSize)) - length rs) newRegisterPoolElement"
  have v: "?rs ! (v div registersSize) ! (v mod registersSize) = regs_abs rs v"
    by (auto simp: regs_abs_def nth_append)
  have eq: "regs_copy rs target v =
     ?rs[target div registersSize := (?rs ! (target div registersSize))[target mod registersSize := regs_abs rs v]]"
    unfolding v [symmetric] by (simp add: regs_copy_def find2Regs_eq [OF rs] Let_def)
  show "regs_abs (regs_copy rs target v) = (regs_abs rs)(target := regs_abs rs v)"
    unfolding eq by (subst nth_update_abs [OF regs_ok_extend [OF assms]]) (auto simp: regs_abs_extend)
  show "regs_ok (regs_copy rs target v)"
    unfolding eq by (intro regs_ok_update regs_ok_extend assms)
qed

lemma regs_new: "regs_ok [newRegisterPoolElement]" "regs_abs [newRegisterPoolElement] v = None"
  by (auto simp: regs_ok_def regs_abs_def)

text \<open>What the pool holds stays fresh.\<close>

lemma regs_release_fresh: "regs_ok rs \<Longrightarrow> list_all (\<lambda>r. r = newRegisterPoolElement) (regs_release rs)"
  by (cases rs) (auto simp: regs_ok_def regs_release_def newRegisterPoolElement_def list_all_iff)

subsection \<open>The contract of a register file\<close>

locale register_file =
  fixes inv :: "'r \<Rightarrow> bool"
    and read :: "'r \<Rightarrow> nat \<Rightarrow> 'v option"
    and wr :: "'r \<Rightarrow> nat \<Rightarrow> 'v option \<Rightarrow> 'r"
    and cp :: "'r \<Rightarrow> nat \<Rightarrow> nat \<Rightarrow> 'r"
    and new :: 'r
  assumes inv_new: "inv new"
    and read_new: "read new v = None"
    and inv_write: "inv r \<Longrightarrow> inv (wr r v x)"
    and read_write: "inv r \<Longrightarrow> read (wr r v x) w = (if w = v then x else read r w)"
    and inv_copy: "inv r \<Longrightarrow> inv (cp r t v)"
    and read_copy: "inv r \<Longrightarrow> read (cp r t v) w = (if w = t then read r v else read r w)"
begin

lemma inv_writes: "inv r \<Longrightarrow> inv (foldl (\<lambda>r (v, x). wr r v x) r ws)"
  by (induction ws arbitrary: r) (auto simp: inv_write)

lemma read_after_writes:
  "inv r \<Longrightarrow> read (foldl (\<lambda>r (v, x). wr r v x) r ws) w =
     (case map_of (rev ws) w of Some x \<Rightarrow> x | None \<Rightarrow> read r w)"
proof (induction ws rule: rev_induct)
  case (snoc vx ws)
  then show ?case using inv_writes [of r ws] by (cases vx) (auto simp: read_write)
qed simp

end

interpretation regs: register_file regs_ok regs_read regs_write regs_copy "[newRegisterPoolElement]"
proof
  fix r :: "'v bucket list" and v w t :: nat and x :: "'v option"
  have read: "regs_read q u = regs_abs q u" if "regs_ok q" for q :: "'v bucket list" and u
    using that by (intro regs_read_abs) (simp add: regs_ok_def)
  show "regs_ok [newRegisterPoolElement]" by (rule regs_new)
  have "regs_read [newRegisterPoolElement] v = (regs_abs [newRegisterPoolElement] v :: 'v option)"
    by (rule regs_read_abs) simp
  then show "regs_read [newRegisterPoolElement] v = (None :: 'v option)" by (simp add: regs_new)
  assume "regs_ok r"
  then show "regs_ok (regs_write r v x)" "regs_ok (regs_copy r t v)"
    "regs_read (regs_write r v x) w = (if w = v then x else regs_read r w)"
    "regs_read (regs_copy r t v) w = (if w = t then regs_read r v else regs_read r w)"
    by (simp_all add: regs_write_abs regs_copy_abs read)
qed

section \<open>Bitset\<close>

record bitset =
  bs_rest :: "bool list"
  bs_base :: u64

definition baseBits :: nat where "baseBits = 64"

definition bitset_zero :: bitset where
  "bitset_zero = \<lparr>bs_rest = [], bs_base = 0\<rparr>"

definition bitset_set :: "bitset \<Rightarrow> nat \<Rightarrow> bool \<Rightarrow> bitset" where
  "bitset_set b i v =
     (if i < baseBits then
        if v then b\<lparr>bs_base := bs_base b OR push_bit i 1\<rparr>
        else b\<lparr>bs_base := bs_base b AND NOT (push_bit i 1)\<rparr>
      else
        let i = i - baseBits; l = length (bs_rest b) in
        if l \<le> i \<and> \<not> v then b
        else
          let rest = (if l \<le> i then bs_rest b @ replicate (i - l + 1) False else bs_rest b)
          in b\<lparr>bs_rest := rest[i := v]\<rparr>)"

definition bitset_isSet :: "bitset \<Rightarrow> nat \<Rightarrow> bool" where
  "bitset_isSet b i =
     (if i < baseBits then 0 < bs_base b AND push_bit i 1
      else
        let i = i - baseBits; l = length (bs_rest b) in
        if l \<le> i then False else bs_rest b ! i)"

lemma base_bit: "i < baseBits \<Longrightarrow> 0 < (w :: u64) AND push_bit i 1 \<longleftrightarrow> bit w i"
  by (simp add: word_greater_zero_iff baseBits_def and_exp_eq_0_iff_not_bit del: push_bit_of_1)
    (simp add: and_exp_eq_0_iff_not_bit)

lemma bitset_isSet_set: "bitset_isSet (bitset_set b i v) j = (if i = j then v else bitset_isSet b j)"
proof (cases "i < baseBits")
  case True
  then show ?thesis
    by (cases "j < baseBits")
      (auto simp: bitset_set_def bitset_isSet_def base_bit bit_simps Let_def baseBits_def simp del: push_bit_of_1)
next
  case False
  have rest: "(bs_rest b @ replicate k False) ! n = (n < length (bs_rest b) \<and> bs_rest b ! n)"
    if "n < length (bs_rest b) + k" for n k
    using that by (auto simp: nth_append)
  show ?thesis
    using False by (auto simp: bitset_set_def bitset_isSet_def Let_def rest nth_list_update simp del: replicate_Suc)
qed

lemma bitset_isSet_zero: "\<not> bitset_isSet bitset_zero i"
  by (simp add: bitset_isSet_def bitset_zero_def Let_def)

section \<open>Properties\<close>

text \<open>C40.  The chain of fixed-size buckets is a register file: after any sequence of writes, starting from one
  fresh bucket, a register reads as the last value written to it, or as undefined, however far apart the
  registers are.\<close>

theorem registers_read_after_writes:
  "regs_read (foldl (\<lambda>r (v, x). regs_write r v x) [newRegisterPoolElement] ws) w =
     (case map_of (rev ws) w of Some x \<Rightarrow> x | None \<Rightarrow> None)"
  unfolding regs.read_after_writes [OF regs.inv_new] regs.read_new ..

text \<open> Copying a register through \<open>find2Regs\<close> gives the target the value of the source and leaves every
  other register alone, wherever the two buckets are and whichever has to be allocated.\<close>

theorem registers_copy:
  assumes "regs_ok rs"
  shows "regs_ok (regs_copy rs target v) \<and>
    regs_read (regs_copy rs target v) w = (if w = target then regs_read rs v else regs_read rs w)"
  using assms by (simp add: regs.inv_copy regs.read_copy)

theorem registers_copy_witness:
  "regs_read (regs_copy (regs_write [newRegisterPoolElement] 40 (Some True)) 100 40) 100 = Some True"
  using registers_copy [of "regs_write [newRegisterPoolElement] 40 (Some True)" 100 40 100]
  by (simp add: regs.inv_write regs.inv_new regs.read_write)

text \<open> The set of data locals: a bit reads as it was last set, below 64 bits and beyond.\<close>

theorem bitset_isSet_after_set: "bitset_isSet (bitset_set b i v) j = (if i = j then v else bitset_isSet b j)"
  by (rule bitset_isSet_set)

end
