(* ===== verification/VM_State.thy ===== *)
theory VM_State
  imports Compiler Registers
begin

text \<open>
  The state of the virtual machine and its operations (src/pkg/vm/vm.go).  \<open>Globals\<close> is shared by every
  activation of one evaluation, \<open>Locals\<close> belongs to one activation; a \<open>State\<close> is the pair, and the shared part
  is threaded through nested calls.

  The values are a parameter, through the record \<open>ops\<close> of the operations of \<open>DataOperations\<close> (data.go).  A
  collection is a value here: where the Go code updates a collection in place it also stores the result
  back in the local it came from, and only that local is looked at.  OPA's AST values and builtins are
  parameters as well, being code of the OPA module.
\<close>

section \<open>Errors\<close>

datatype 'e vm_error =
    ErrVarAssignConflict
  | ErrObjectInsertConflict
  | ErrFunctionCallToData
  | ErrInvalidExecutable
  | ErrQueryNotFound
  | ErrInstructionsLimitExceeded
  | ErrContextCanceled
  | ErrBuiltinNotFound gostring
  | OpError 'e

section \<open>Parameters\<close>

text \<open>The operations on values. \<open>Inl\<close> is an error; the outer \<open>option\<close> of some operations is a panic.
  \<open>op_Iter\<close> gives the pairs in the order of the iteration, and the error the iterator ends with.
  \<open>op_String\<close> is the type switch on \<open>*fjson.String\<close>, \<open>op_IsCollection\<close> the one of \<open>isHashable\<close>.\<close>

record ('v, 'a, 'e) ops =
  op_Get :: "'v option \<Rightarrow> 'v option \<Rightarrow> 'e + 'v option"
  op_GetCall :: "'v \<Rightarrow> 'v \<Rightarrow> 'e + 'v option"
  op_IsCall :: "'v \<Rightarrow> 'e + bool"
  op_Call :: "'v \<Rightarrow> 'v option list \<Rightarrow> 'e + ('v option \<times> bool \<times> bool)"
  op_ArrayAppend :: "'v option \<Rightarrow> 'v option \<Rightarrow> 'e + ('v option \<times> bool)"
  op_CopyShallow :: "'v option \<Rightarrow> ('e + 'v) option"
  op_Equal :: "'v option \<Rightarrow> 'v option \<Rightarrow> 'e + bool"
  op_Iter :: "'v option \<Rightarrow> ('v \<times> 'v) list \<times> 'e option"
  op_IsArray :: "'v option \<Rightarrow> 'e + bool"
  op_IsSet :: "'v option \<Rightarrow> 'e + bool"
  op_IsObject :: "'v option \<Rightarrow> 'e + bool"
  op_MakeArray :: "int \<Rightarrow> 'v"
  op_MakeBoolean :: "bool \<Rightarrow> 'v"
  op_MakeObject :: 'v
  op_MakeNull :: 'v
  op_MakeNumberInt :: "int \<Rightarrow> 'v"
  op_MakeNumberRef :: "gostring \<Rightarrow> 'v"
  op_MakeSet :: 'v
  op_MakeString :: "gostring \<Rightarrow> 'v"
  op_Len :: "'v option \<Rightarrow> 'e + 'v"
  op_ObjectGet :: "'v option \<Rightarrow> 'v option \<Rightarrow> 'e + 'v option"
  op_ObjectInsert :: "'v option \<Rightarrow> 'v option \<Rightarrow> 'v option \<Rightarrow> ('e + ('v option \<times> bool)) option"
  op_ObjectMerge :: "'v \<Rightarrow> 'v \<Rightarrow> 'e + 'v"
  op_SetAdd :: "'v option \<Rightarrow> 'v option \<Rightarrow> 'e + 'v"
  op_ToAST :: "'v option \<Rightarrow> ('e + 'a) option"
  op_FromInterface :: "'a \<Rightarrow> ('e + 'v) option"
  op_ToInterface_number :: "'v option \<Rightarrow> ('e + gostring option) option"
  op_ToInterface :: "'v \<Rightarrow> ('e + 'v) option"
  op_String :: "'v \<Rightarrow> gostring option"
  op_IsCollection :: "'v \<Rightarrow> bool"
  op_Hash :: "'v \<Rightarrow> ('e + gostring) option"
  ast_String :: "'a \<Rightarrow> gostring option"

text \<open>A builtin implementation of OPA calls back with values (\<open>None\<close> is the nil term of \<open>print\<close>) and returns
  an error or nil; when the callback returns an error, the implementation returns it.\<close>

type_synonym ('a, 'e) builtin_impl = "'a list \<Rightarrow> 'a option list \<times> 'e option"

record builtin_decl =
  bd_Name :: gostring
  bd_Nondeterministic :: bool

datatype record_mode = intermediateResultsDisabled | intermediateResultsNoValueMode
  | intermediateResultsHashMode | intermediateResultsValueMode

datatype 'v intermediate = NoValue | Hashes "gostring list" | Values "'v list"

section \<open>State\<close>

text \<open>\<open>arg\<close> and \<open>k\<close>, the key of the memoization table.\<close>

type_synonym 'v arg = "'v option \<times> gostring"
type_synonym 'v memo = "int \<times> 'v arg list \<rightharpoonup> 'v option"

text \<open>\<open>g_checks\<close> counts how often cancellation was looked at: the environment says at which of these it has
  happened.  The statistics of the evaluation, in the code an object that the context of the query holds, are
  \<open>g_EvalInstructions\<close> and the two cache counters; \<open>VM_Eval\<close> takes them from the context and gives them back.  They
  are \<open>int64\<close> in the code and unbounded here, which is the same as long as they stay below \<open>2 ^ 63\<close>: \<open>State_Instr\<close> adds
  only while the counter is at most the limit, and at most the number of statements of one block at a time, so the
  instruction counter is exact whenever the limit and the size of the largest block together are below \<open>2 ^ 63\<close> (the
  default limit is 100000000).\<close>

record ('v, 'a, 'e) Globals =
  g_memoize :: "'v memo list"
  g_ResultSet :: 'v
  g_BuiltinErrors :: "'e vm_error list"
  g_IntermediateResults :: "int \<rightharpoonup> 'v intermediate"
  g_NDBCache :: "(gostring \<times> 'a list \<rightharpoonup> 'a) option"
  g_checks :: nat
  g_EvalInstructions :: int
  g_VirtualCacheHits :: int
  g_VirtualCacheMisses :: int

record 'v Locals =
  l_registers :: "'v bucket list"
  l_data :: bitset
  l_ret :: int

record ('v, 'a, 'e) State =
  s_Globals :: "('v, 'a, 'e) Globals"
  s_locals :: "'v Locals"

text \<open>What is fixed during one evaluation: the machine (executable, data, operations) and the options.
  \<open>env_specialized\<close> is the table \<open>specializedBuiltinsByNum\<close> of builtins.go, \<open>env_regoCompile\<close> the builtin of
  rego_compile.go; both run on the state of the callee.\<close>

record ('v, 'a, 'e) env =
  env_executable :: bytes
  env_ops :: "('v, 'a, 'e) ops"
  env_data :: "'v option"
  env_Input :: "'v option"
  env_Instructions :: int
  env_cancelled :: "nat \<Rightarrow> bool"
  env_mode :: record_mode
  env_BuiltinFuncs :: "gostring \<rightharpoonup> ('a, 'e) builtin_impl \<times> builtin_decl"
  env_GetBuiltin :: "gostring \<rightharpoonup> ('a, 'e) builtin_impl"
  env_BuiltinMap :: "gostring \<rightharpoonup> builtin_decl"
  env_Halt :: "'e vm_error \<Rightarrow> bool"
  env_specialized :: "u32 \<Rightarrow> 'v option list \<Rightarrow> ('v, 'a, 'e) State \<Rightarrow> ('e vm_error option \<times> ('v, 'a, 'e) State) option"
  env_regoCompile :: "('v, 'a, 'e) State \<Rightarrow> 'v option list \<Rightarrow> ('v, 'a, 'e) State \<Rightarrow> ('e vm_error option \<times> ('v, 'a, 'e) State) option"

section \<open>Registers of the activation\<close>

definition Input :: Local where "Input = 0"
definition Data :: Local where "Data = 1"
definition Unused :: Local where "Unused = 2"

definition undefined_value :: "'v option" where
  "undefined_value = None"

definition isUndefinedType :: "'v option \<Rightarrow> bool" where
  "isUndefinedType v \<longleftrightarrow> v = None"

definition map_locals :: "('v Locals \<Rightarrow> 'v Locals) \<Rightarrow> ('v, 'a, 'e) State \<Rightarrow> ('v, 'a, 'e) State" where
  "map_locals f s = s\<lparr>s_locals := f (s_locals s)\<rparr>"

definition map_globals :: "(('v, 'a, 'e) Globals \<Rightarrow> ('v, 'a, 'e) Globals) \<Rightarrow> ('v, 'a, 'e) State \<Rightarrow> ('v, 'a, 'e) State" where
  "map_globals f s = s\<lparr>s_Globals := f (s_Globals s)\<rparr>"

definition State_SetValue :: "Local \<Rightarrow> 'v option \<Rightarrow> ('v, 'a, 'e) State \<Rightarrow> ('v, 'a, 'e) State" where
  "State_SetValue target value = map_locals (\<lambda>l. l\<lparr>l_registers := regs_write (l_registers l) (nat target) value\<rparr>)"

definition State_Local :: "('v, 'a, 'e) State \<Rightarrow> Local \<Rightarrow> 'v option" where
  "State_Local s v = regs_read (l_registers (s_locals s)) (nat v)"

definition State_IsLocalDefined :: "('v, 'a, 'e) State \<Rightarrow> Local \<Rightarrow> bool" where
  "State_IsLocalDefined s v \<longleftrightarrow> \<not> isUndefinedType (regs_read (l_registers (s_locals s)) (nat v))"

definition State_IsDefined :: "('v, 'a, 'e) State \<Rightarrow> LocalOrConst \<Rightarrow> bool" where
  "State_IsDefined s v =
     (if lc_t v = localType then \<not> isUndefinedType (regs_read (l_registers (s_locals s)) (nat (lc_v v))) else True)"

definition State_SetLocal :: "Local \<Rightarrow> Local \<Rightarrow> ('v, 'a, 'e) State \<Rightarrow> ('v, 'a, 'e) State" where
  "State_SetLocal target source = map_locals (\<lambda>l. l\<lparr>l_registers := regs_copy (l_registers l) (nat target) (nat source)\<rparr>)"

definition State_SetData :: "Local \<Rightarrow> ('v, 'a, 'e) State \<Rightarrow> ('v, 'a, 'e) State" where
  "State_SetData l = map_locals (\<lambda>ls. ls\<lparr>l_data := bitset_set (l_data ls) (nat l) True\<rparr>)"

definition State_IsData :: "('v, 'a, 'e) State \<Rightarrow> Local \<Rightarrow> bool" where
  "State_IsData s l = bitset_isSet (l_data (s_locals s)) (nat l)"

definition State_Unset :: "Local \<Rightarrow> ('v, 'a, 'e) State \<Rightarrow> ('v, 'a, 'e) State" where
  "State_Unset target s =
     map_locals (\<lambda>ls. ls\<lparr>l_data := bitset_set (l_data ls) (nat target) False\<rparr>)
       (State_SetValue target undefined_value s)"

definition Locals_SetReturn :: "Local \<Rightarrow> bool \<Rightarrow> 'v Locals \<Rightarrow> 'v Locals" where
  "Locals_SetReturn source defined l = (if defined then l\<lparr>l_ret := source\<rparr> else l\<lparr>l_ret := - 1\<rparr>)"

definition State_SetReturn :: "Local \<Rightarrow> ('v, 'a, 'e) State \<Rightarrow> ('v, 'a, 'e) State" where
  "State_SetReturn source s =
     map_locals (Locals_SetReturn source (\<not> isUndefinedType (regs_read (l_registers (s_locals s)) (nat source)))) s"

definition State_SetReturnValue :: "Local \<Rightarrow> 'v option \<Rightarrow> ('v, 'a, 'e) State \<Rightarrow> ('v, 'a, 'e) State" where
  "State_SetReturnValue source value s = State_SetValue source value (map_locals (Locals_SetReturn source True) s)"

definition State_Return :: "('v, 'a, 'e) State \<Rightarrow> Local \<times> bool" where
  "State_Return s = (let ret = l_ret (s_locals s) in (ret, 0 \<le> ret))"

definition newState :: "('v, 'a, 'e) env \<Rightarrow> ('v, 'a, 'e) Globals \<Rightarrow> ('v, 'a, 'e) State" where
  "newState env g =
     (let s = \<lparr>s_Globals = g, s_locals = \<lparr>l_registers = [newRegisterPoolElement], l_data = bitset_zero, l_ret = - 1\<rparr>\<rparr>;
          s = State_SetData Data s;
          s = (case env_Input env of Some v \<Rightarrow> State_SetValue Input (Some v) s | None \<Rightarrow> s);
          s = (case env_data env of Some v \<Rightarrow> State_SetValue Data (Some v) s | None \<Rightarrow> s)
      in s)"

definition State_New :: "('v, 'a, 'e) env \<Rightarrow> ('v, 'a, 'e) State \<Rightarrow> ('v, 'a, 'e) State" where
  "State_New env s = newState env (s_Globals s)"

section \<open>Strings and operands\<close>

text \<open>\<open>strings.String\<close> with the cache of the machine.  \<open>len\<close> of the cache is the number of strings when the
  executable was set (\<open>WithExecutable\<close>).\<close>

definition VM_getCachedString :: "'v option list \<Rightarrow> int \<Rightarrow> 'v option option" where
  "VM_getCachedString cache i =
     (if int (length cache) \<le> i then Some None else if i < 0 then None else Some (cache ! nat i))"

definition VM_setCachedString :: "'v option list \<Rightarrow> int \<Rightarrow> 'v \<Rightarrow> 'v option list option" where
  "VM_setCachedString cache i v = (if 0 \<le> i \<and> i < int (length cache) then Some (cache[nat i := Some v]) else None)"

definition strings_String :: "(gostring \<Rightarrow> 'v) \<Rightarrow> bytes \<Rightarrow> 'v option list \<Rightarrow> int \<Rightarrow> ('v \<times> 'v option list) option" where
  "strings_String mk s cache i = do {
     c \<leftarrow> VM_getCachedString cache i;
     case c of
       Some v \<Rightarrow> Some (v, cache)
     | None \<Rightarrow> do {
         b \<leftarrow> strings_bytes s i;
         let v = mk b;
         cache \<leftarrow> VM_setCachedString cache i v;
         Some (v, cache) } }"

text \<open>The string itself: what the cache must be transparent to.\<close>

definition VM_string :: "bytes \<Rightarrow> int \<Rightarrow> gostring option" where
  "VM_string e i = do {
     s \<leftarrow> Executable_Strings e;
     n \<leftarrow> strings_Len s;
     if 0 \<le> i \<and> i < n then strings_bytes s i else None }"

definition State_String :: "('v, 'a, 'e) env \<Rightarrow> int \<Rightarrow> 'v option" where
  "State_String env i = map_option (op_MakeString (env_ops env)) (VM_string (env_executable env) i)"

text \<open>\<open>None\<close> is a panic, \<open>Some None\<close> an undefined value.\<close>

definition State_Value :: "('v, 'a, 'e) env \<Rightarrow> ('v, 'a, 'e) State \<Rightarrow> LocalOrConst \<Rightarrow> 'v option option" where
  "State_Value env s v =
     (if lc_t v = localType then Some (regs_read (l_registers (s_locals s)) (nat (lc_v v)))
      else if lc_t v = boolConstType then Some (Some (op_MakeBoolean (env_ops env) (LocalOrConst_BoolConst v)))
      else if lc_t v = stringIndexConstType then map_option Some (State_String env (lc_v v))
      else Some None)"

definition State_Set :: "('v, 'a, 'e) env \<Rightarrow> Local \<Rightarrow> LocalOrConst \<Rightarrow> ('v, 'a, 'e) State \<Rightarrow> ('v, 'a, 'e) State option" where
  "State_Set env target source s =
     (if lc_t source = localType then Some (State_SetLocal target (lc_v source) s)
      else if lc_t source = boolConstType then
        Some (State_SetValue target (Some (op_MakeBoolean (env_ops env) (LocalOrConst_BoolConst source))) s)
      else if lc_t source = stringIndexConstType then
        map_option (\<lambda>v. State_SetValue target (Some v) s) (State_String env (lc_v source))
      else Some s)"

definition State_DataGet :: "('v, 'a, 'e) env \<Rightarrow> 'v option \<Rightarrow> 'v option \<Rightarrow> ('e + 'v option) option" where
  "State_DataGet env value key =
     (let ops = env_ops env in
      case op_Get ops value key of
        Inl e \<Rightarrow> Some (Inl e)
      | Inr (Some y) \<Rightarrow> Some (Inr (Some y))
      | Inr None \<Rightarrow> do {
          x \<leftarrow> op_ToInterface_number ops key;
          case x of
            Inl e \<Rightarrow> Some (Inl e)
          | Inr (Some n) \<Rightarrow> Some (op_Get ops value (Some (op_MakeString ops n)))
          | Inr None \<Rightarrow> Some (Inr None) })"

section \<open>Functions of the executable\<close>

definition State_Func :: "('v, 'a, 'e) env \<Rightarrow> int \<Rightarrow> bytes option" where
  "State_Func env f = do { fs \<leftarrow> Executable_Functions (env_executable env); functions_Function fs f }"

text \<open>The segments are compared in order; an index past the path given cannot happen, the lengths are
  equal.\<close>

definition path_matches :: "gostring list \<Rightarrow> bytes \<Rightarrow> bool option" where
  "path_matches path f = do {
     n \<leftarrow> function_PathLen f;
     if length path = unat n then do {
       r \<leftarrow> function_PathIter f (\<lambda>i arg (_ :: unit).
              if i < length path then
                if path ! i \<noteq> arg then Some (Inl (ErrQueryNotFound :: unit vm_error)) else Some (Inr ())
              else None) ();
       Some (r = Inr ()) }
     else Some False }"

fun FindByPath_loop :: "bytes \<Rightarrow> gostring list \<Rightarrow> nat \<Rightarrow> nat \<Rightarrow> (bytes \<times> int) option option" where
  "FindByPath_loop fs path i 0 = Some None"
| "FindByPath_loop fs path i (Suc k) = do {
     f \<leftarrow> functions_Function fs (int i);
     b \<leftarrow> function_IsBuiltin f;
     if b then FindByPath_loop fs path (Suc i) k
     else do {
       m \<leftarrow> path_matches path f;
       if m then Some (Some (f, int i)) else FindByPath_loop fs path (Suc i) k } }"

definition State_FindByPath :: "('v, 'a, 'e) env \<Rightarrow> gostring list \<Rightarrow> (bytes \<times> int) option option" where
  "State_FindByPath env path = do {
     fs \<leftarrow> Executable_Functions (env_executable env);
     n \<leftarrow> functions_Len fs;
     FindByPath_loop fs path 0 (nat n) }"

section \<open>Memoization\<close>

definition State_MemoizePush :: "('v, 'a, 'e) State \<Rightarrow> ('v, 'a, 'e) State" where
  "State_MemoizePush = map_globals (\<lambda>g. g\<lparr>g_memoize := g_memoize g @ [Map.empty]\<rparr>)"

definition State_MemoizePop :: "('v, 'a, 'e) State \<Rightarrow> ('v, 'a, 'e) State" where
  "State_MemoizePop = map_globals (\<lambda>g. g\<lparr>g_memoize := butlast (g_memoize g)\<rparr>)"

definition memo_h :: "('v, 'a, 'e) ops \<Rightarrow> 'v option \<Rightarrow> 'v arg" where
  "memo_h ops v = (case v of
     Some x \<Rightarrow> (case op_String ops x of Some f \<Rightarrow> (None, f) | None \<Rightarrow> (Some x, []))
   | None \<Rightarrow> (None, []))"

text \<open>Both operations panic for more than nine arguments.\<close>

definition State_MemoizeGet :: "('v, 'a, 'e) env \<Rightarrow> ('v, 'a, 'e) State \<Rightarrow> int \<Rightarrow> 'v option list \<Rightarrow> 'v option option option" where
  "State_MemoizeGet env s idx args =
     (if length args > 9 then None
      else Some (last (g_memoize (s_Globals s)) (idx, map (memo_h (env_ops env)) args)))"

definition State_MemoizeInsert :: "('v, 'a, 'e) env \<Rightarrow> int \<Rightarrow> 'v option list \<Rightarrow> 'v option \<Rightarrow> ('v, 'a, 'e) State \<Rightarrow> ('v, 'a, 'e) State option" where
  "State_MemoizeInsert env idx args value s =
     (if length args > 9 then None
      else Some (map_globals (\<lambda>g. g\<lparr>g_memoize := butlast (g_memoize g) @
        [(last (g_memoize g))((idx, map (memo_h (env_ops env)) args) \<mapsto> value)]\<rparr>) s))"

section \<open>Instruction limit, arguments\<close>

definition State_Instr :: "('v, 'a, 'e) env \<Rightarrow> int \<Rightarrow> ('v, 'a, 'e) State \<Rightarrow> 'e vm_error option \<times> ('v, 'a, 'e) State" where
  "State_Instr env i s =
     (let instructions = g_EvalInstructions (s_Globals s);
          cancelled = env_cancelled env (g_checks (s_Globals s));
          s = map_globals (\<lambda>g. g\<lparr>g_checks := Suc (g_checks g)\<rparr>) s
      in if cancelled then (Some ErrContextCanceled, s)
      else if instructions > env_Instructions env then (Some ErrInstructionsLimitExceeded, s)
      else (None, map_globals (\<lambda>g. g\<lparr>g_EvalInstructions := instructions + i\<rparr>) s))"

text \<open>\<open>Args\<close> gives a slice of the four values of the state, or a new one.  \<open>args_slice\<close> is
  \<open>args[lo:hi]\<close> of it: the upper bound may reach the capacity, where the values are undefined.\<close>

definition args_slice :: "'v option list \<Rightarrow> nat \<Rightarrow> nat \<Rightarrow> 'v option list option" where
  "args_slice args lo hi =
     (let cap = max 4 (length args) in
      if lo \<le> hi \<and> hi \<le> cap
      then Some (take (hi - lo) (drop lo (args @ replicate (cap - length args) undefined_value)))
      else None)"

end
