(* ===== verification/VM_Exec.thy ===== *)
theory VM_Exec
  imports VM_State
begin

text \<open>
  Execution of the byte code (src/pkg/vm/statements.go): one \<open>Execute\<close> definition per statement, block,
  function, builtin and plan, reading its operands from the bytes as the Go code does.

  The result of a statement is whether to stop, how many more blocks to leave, and an error; it comes with
  the new state.  All recursion of the Go code passes through \<open>statement.Execute\<close>: the definitions take that
  function as the argument \<open>st\<close> and \<open>statement_Execute\<close> ties the knot with a bound on the depth of nested
  statements and calls.  \<open>None\<close> is a panic, or a depth beyond the bound.
\<close>

type_synonym ('v, 'a, 'e) outcome = "((bool \<times> u32 \<times> 'e vm_error option) \<times> ('v, 'a, 'e) State) option"
type_synonym ('v, 'a, 'e) stmt_outcome = "((bool \<times> u32 \<times> int \<times> 'e vm_error option) \<times> ('v, 'a, 'e) State) option"
type_synonym ('v, 'a, 'e) executor = "bytes \<Rightarrow> ('v, 'a, 'e) State \<Rightarrow> ('v, 'a, 'e) stmt_outcome"
type_synonym ('v, 'a, 'e) fun_outcome = "('e vm_error option \<times> ('v, 'a, 'e) State) option"

definition continue :: "('v, 'a, 'e) State \<Rightarrow> ('v, 'a, 'e) outcome" where
  "continue s = Some ((False, 0, None), s)"

definition leave :: "u32 \<Rightarrow> ('v, 'a, 'e) State \<Rightarrow> ('v, 'a, 'e) outcome" where
  "leave n s = Some ((True, n, None), s)"

definition raise :: "'e vm_error \<Rightarrow> ('v, 'a, 'e) State \<Rightarrow> ('v, 'a, 'e) outcome" where
  "raise e s = Some ((False, 0, Some e), s)"

section \<open>Statements without nested code\<close>

definition nop_Execute :: "bytes \<Rightarrow> ('v, 'a, 'e) State \<Rightarrow> ('v, 'a, 'e) outcome" where
  "nop_Execute a s = continue s"

definition assignInt_Execute :: "('v, 'a, 'e) env \<Rightarrow> bytes \<Rightarrow> ('v, 'a, 'e) State \<Rightarrow> ('v, 'a, 'e) outcome" where
  "assignInt_Execute env a s = do {
     target \<leftarrow> assignInt_Target a;
     value \<leftarrow> assignInt_Value a;
     continue (State_SetValue target (Some (op_MakeNumberInt (env_ops env) value)) s) }"

definition assignVarOnce_Execute :: "('v, 'a, 'e) env \<Rightarrow> bytes \<Rightarrow> ('v, 'a, 'e) State \<Rightarrow> ('v, 'a, 'e) outcome" where
  "assignVarOnce_Execute env a s = do {
     target \<leftarrow> assignVarOnce_Target a;
     source \<leftarrow> assignVarOnce_Source a;
     let targetValue = State_Local s target;
     if \<not> isUndefinedType targetValue then do {
       sourceValue \<leftarrow> State_Value env s source;
       if isUndefinedType sourceValue then raise ErrVarAssignConflict s
       else case op_Equal (env_ops env) sourceValue targetValue of
         Inl e \<Rightarrow> raise (OpError e) s
       | Inr eq \<Rightarrow> if \<not> eq then raise ErrVarAssignConflict s else continue s }
     else do { s \<leftarrow> State_Set env target source s; continue s } }"

definition assignVar_Execute :: "('v, 'a, 'e) env \<Rightarrow> bytes \<Rightarrow> ('v, 'a, 'e) State \<Rightarrow> ('v, 'a, 'e) outcome" where
  "assignVar_Execute env a s = do {
     target \<leftarrow> assignVar_Target a;
     source \<leftarrow> assignVar_Source a;
     s \<leftarrow> State_Set env target source s;
     continue s }"

definition breakStmt_Execute :: "bytes \<Rightarrow> ('v, 'a, 'e) State \<Rightarrow> ('v, 'a, 'e) outcome" where
  "breakStmt_Execute b s = do { index \<leftarrow> breakStmt_Index b; leave index s }"

definition returnLocal_Execute :: "bytes \<Rightarrow> ('v, 'a, 'e) State \<Rightarrow> ('v, 'a, 'e) outcome" where
  "returnLocal_Execute r s = do { source \<leftarrow> returnLocal_Source r; continue (State_SetReturn source s) }"

definition dot_Execute :: "('v, 'a, 'e) env \<Rightarrow> bytes \<Rightarrow> ('v, 'a, 'e) State \<Rightarrow> ('v, 'a, 'e) outcome" where
  "dot_Execute env d s = do {
     source \<leftarrow> dot_Source d;
     if lc_t source = boolConstType \<or> lc_t source = stringIndexConstType then leave 0 s
     else do {
       let src = lc_v source;
       let sourceValue = State_Local s src;
       target \<leftarrow> dot_Target d;
       if isUndefinedType sourceValue then leave 0 (State_Unset target s)
       else do {
         key \<leftarrow> dot_Key d;
         keyValue \<leftarrow> State_Value env s key;
         if isUndefinedType keyValue then leave 0 (State_Unset target s)
         else do {
           let data = State_IsData s src;
           r \<leftarrow> (if data then State_DataGet env sourceValue keyValue
                 else Some (op_Get (env_ops env) sourceValue keyValue));
           case r of
             Inl e \<Rightarrow> raise (OpError e) s
           | Inr (Some value) \<Rightarrow>
               let s = State_SetValue target (Some value) s
               in continue (if data then State_SetData target s else s)
           | Inr None \<Rightarrow> leave 0 (State_Unset target s) } } } }"

definition equal_Execute :: "('v, 'a, 'e) env \<Rightarrow> bytes \<Rightarrow> ('v, 'a, 'e) State \<Rightarrow> ('v, 'a, 'e) outcome" where
  "equal_Execute env e s = do {
     a \<leftarrow> equal_A e;
     b \<leftarrow> equal_B e;
     aValue \<leftarrow> State_Value env s a;
     bValue \<leftarrow> State_Value env s b;
     let definedA = \<not> isUndefinedType aValue;
     let definedB = \<not> isUndefinedType bValue;
     if \<not> definedA \<and> \<not> definedB then continue s
     else if definedA \<and> definedB then
       case op_Equal (env_ops env) aValue bValue of
         Inl e \<Rightarrow> raise (OpError e) s
       | Inr eq \<Rightarrow> Some ((\<not> eq, 0, None), s)
     else leave 0 s }"

text \<open>\<open>equal(ne).Execute\<close>: both statements have the same layout.\<close>

definition notEqual_Execute :: "('v, 'a, 'e) env \<Rightarrow> bytes \<Rightarrow> ('v, 'a, 'e) State \<Rightarrow> ('v, 'a, 'e) outcome" where
  "notEqual_Execute env ne s = do {
     ((stop, index, err), s) \<leftarrow> equal_Execute env ne s;
     Some ((\<not> stop, index, err), s) }"

definition isArray_Execute :: "('v, 'a, 'e) env \<Rightarrow> bytes \<Rightarrow> ('v, 'a, 'e) State \<Rightarrow> ('v, 'a, 'e) outcome" where
  "isArray_Execute env i s = do {
     source \<leftarrow> isArray_Source i;
     sourceValue \<leftarrow> State_Value env s source;
     if isUndefinedType sourceValue then leave 0 s
     else case op_IsArray (env_ops env) sourceValue of
       Inl e \<Rightarrow> raise (OpError e) s
     | Inr is \<Rightarrow> Some ((\<not> is, 0, None), s) }"

definition isSet_Execute :: "('v, 'a, 'e) env \<Rightarrow> bytes \<Rightarrow> ('v, 'a, 'e) State \<Rightarrow> ('v, 'a, 'e) outcome" where
  "isSet_Execute env i s = do {
     source \<leftarrow> isSet_Source i;
     sourceValue \<leftarrow> State_Value env s source;
     if isUndefinedType sourceValue then leave 0 s
     else case op_IsSet (env_ops env) sourceValue of
       Inl e \<Rightarrow> raise (OpError e) s
     | Inr is \<Rightarrow> Some ((\<not> is, 0, None), s) }"

definition isObject_Execute :: "('v, 'a, 'e) env \<Rightarrow> bytes \<Rightarrow> ('v, 'a, 'e) State \<Rightarrow> ('v, 'a, 'e) outcome" where
  "isObject_Execute env i s = do {
     source \<leftarrow> isObject_Source i;
     sourceValue \<leftarrow> State_Value env s source;
     if isUndefinedType sourceValue then leave 0 s
     else case op_IsObject (env_ops env) sourceValue of
       Inl e \<Rightarrow> raise (OpError e) s
     | Inr is \<Rightarrow> Some ((\<not> is, 0, None), s) }"

definition isDefined_Execute :: "bytes \<Rightarrow> ('v, 'a, 'e) State \<Rightarrow> ('v, 'a, 'e) outcome" where
  "isDefined_Execute i s = do {
     source \<leftarrow> isDefined_Source i;
     Some ((\<not> State_IsLocalDefined s source, 0, None), s) }"

definition isUndefined_Execute :: "bytes \<Rightarrow> ('v, 'a, 'e) State \<Rightarrow> ('v, 'a, 'e) outcome" where
  "isUndefined_Execute i s = do {
     source \<leftarrow> isUndefined_Source i;
     Some ((State_IsLocalDefined s source, 0, None), s) }"

definition makeNull_Execute :: "('v, 'a, 'e) env \<Rightarrow> bytes \<Rightarrow> ('v, 'a, 'e) State \<Rightarrow> ('v, 'a, 'e) outcome" where
  "makeNull_Execute env m s = do {
     target \<leftarrow> makeNull_Target m;
     continue (State_SetValue target (Some (op_MakeNull (env_ops env))) s) }"

definition makeNumberInt_Execute :: "('v, 'a, 'e) env \<Rightarrow> bytes \<Rightarrow> ('v, 'a, 'e) State \<Rightarrow> ('v, 'a, 'e) outcome" where
  "makeNumberInt_Execute env m s = do {
     target \<leftarrow> makeNumberInt_Target m;
     value \<leftarrow> makeNumberInt_Value m;
     continue (State_SetValue target (Some (op_MakeNumberInt (env_ops env) value)) s) }"

definition makeNumberRef_Execute :: "('v, 'a, 'e) env \<Rightarrow> bytes \<Rightarrow> ('v, 'a, 'e) State \<Rightarrow> ('v, 'a, 'e) outcome" where
  "makeNumberRef_Execute env m s = do {
     target \<leftarrow> makeNumberRef_Target m;
     index \<leftarrow> makeNumberRef_Index m;
     n \<leftarrow> VM_string (env_executable env) index;
     continue (State_SetValue target (Some (op_MakeNumberRef (env_ops env) n)) s) }"

definition makeArray_Execute :: "('v, 'a, 'e) env \<Rightarrow> bytes \<Rightarrow> ('v, 'a, 'e) State \<Rightarrow> ('v, 'a, 'e) outcome" where
  "makeArray_Execute env m s = do {
     target \<leftarrow> makeArray_Target m;
     capacity \<leftarrow> makeArray_Capacity m;
     continue (State_SetValue target (Some (op_MakeArray (env_ops env) capacity)) s) }"

definition makeSet_Execute :: "('v, 'a, 'e) env \<Rightarrow> bytes \<Rightarrow> ('v, 'a, 'e) State \<Rightarrow> ('v, 'a, 'e) outcome" where
  "makeSet_Execute env m s = do {
     target \<leftarrow> makeSet_Target m;
     continue (State_SetValue target (Some (op_MakeSet (env_ops env))) s) }"

definition makeObject_Execute :: "('v, 'a, 'e) env \<Rightarrow> bytes \<Rightarrow> ('v, 'a, 'e) State \<Rightarrow> ('v, 'a, 'e) outcome" where
  "makeObject_Execute env m s = do {
     target \<leftarrow> makeObject_Target m;
     continue (State_SetValue target (Some (op_MakeObject (env_ops env))) s) }"

definition lenStmt_Execute :: "('v, 'a, 'e) env \<Rightarrow> bytes \<Rightarrow> ('v, 'a, 'e) State \<Rightarrow> ('v, 'a, 'e) outcome" where
  "lenStmt_Execute env l s = do {
     source \<leftarrow> lenStmt_Source l;
     v \<leftarrow> State_Value env s source;
     case op_Len (env_ops env) v of
       Inl e \<Rightarrow> raise (OpError e) s
     | Inr n \<Rightarrow> do { target \<leftarrow> lenStmt_Target l; continue (State_SetValue target (Some n) s) } }"

definition arrayAppend_Execute :: "('v, 'a, 'e) env \<Rightarrow> bytes \<Rightarrow> ('v, 'a, 'e) State \<Rightarrow> ('v, 'a, 'e) outcome" where
  "arrayAppend_Execute env a s = do {
     array \<leftarrow> arrayAppend_Array a;
     value \<leftarrow> arrayAppend_Value a;
     v \<leftarrow> State_Value env s value;
     case op_ArrayAppend (env_ops env) (State_Local s array) v of
       Inl e \<Rightarrow> raise (OpError e) s
     | Inr (newArray, ok) \<Rightarrow> continue (if ok then State_SetValue array newArray s else s) }"

definition setAdd_Execute :: "('v, 'a, 'e) env \<Rightarrow> bytes \<Rightarrow> ('v, 'a, 'e) State \<Rightarrow> ('v, 'a, 'e) outcome" where
  "setAdd_Execute env a s = do {
     set' \<leftarrow> setAdd_Set a;
     value \<leftarrow> setAdd_Value a;
     v \<leftarrow> State_Value env s value;
     case op_SetAdd (env_ops env) (State_Local s set') v of
       Inl e \<Rightarrow> raise (OpError e) s
     | Inr newSet \<Rightarrow> continue (State_SetValue set' (Some newSet) s) }"

text \<open>The common end of the two insertions: the result is stored when the insertion returned another object.\<close>

definition insert_object :: "('v, 'a, 'e) env \<Rightarrow> Local \<Rightarrow> 'v option \<Rightarrow> 'v option \<Rightarrow> 'v option \<Rightarrow> ('v, 'a, 'e) State \<Rightarrow> ('v, 'a, 'e) outcome" where
  "insert_object env obj object key value s = do {
     r \<leftarrow> op_ObjectInsert (env_ops env) object key value;
     case r of
       Inl e \<Rightarrow> raise (OpError e) s
     | Inr (object, ok) \<Rightarrow> continue (if ok then State_SetValue obj object s else s) }"

definition objectInsertOnce_Execute :: "('v, 'a, 'e) env \<Rightarrow> bytes \<Rightarrow> ('v, 'a, 'e) State \<Rightarrow> ('v, 'a, 'e) outcome" where
  "objectInsertOnce_Execute env o' s = do {
     key \<leftarrow> objectInsertOnce_Key o'; key \<leftarrow> State_Value env s key;
     value \<leftarrow> objectInsertOnce_Value o'; value \<leftarrow> State_Value env s value;
     obj \<leftarrow> objectInsertOnce_Object o';
     let object = State_Local s obj;
     case op_ObjectGet (env_ops env) object key of
       Inl e \<Rightarrow> raise (OpError e) s
     | Inr (Some existing) \<Rightarrow>
         (case op_Equal (env_ops env) value (Some existing) of
            Inl e \<Rightarrow> raise (OpError e) s
          | Inr eq \<Rightarrow> if \<not> eq then raise ErrObjectInsertConflict s else insert_object env obj object key value s)
     | Inr None \<Rightarrow> insert_object env obj object key value s }"

definition objectInsert_Execute :: "('v, 'a, 'e) env \<Rightarrow> bytes \<Rightarrow> ('v, 'a, 'e) State \<Rightarrow> ('v, 'a, 'e) outcome" where
  "objectInsert_Execute env o' s = do {
     key \<leftarrow> objectInsert_Key o'; key \<leftarrow> State_Value env s key;
     value \<leftarrow> objectInsert_Value o'; value \<leftarrow> State_Value env s value;
     obj \<leftarrow> objectInsert_Object o';
     insert_object env obj (State_Local s obj) key value s }"

definition objectMerge_Execute :: "('v, 'a, 'e) env \<Rightarrow> bytes \<Rightarrow> ('v, 'a, 'e) State \<Rightarrow> ('v, 'a, 'e) outcome" where
  "objectMerge_Execute env o' s = do {
     ca \<leftarrow> objectMerge_A o'; cb \<leftarrow> objectMerge_B o'; target \<leftarrow> objectMerge_Target o';
     let ops = env_ops env;
     case State_Local s ca of
       None \<Rightarrow> continue (State_SetLocal target cb s)
     | Some a \<Rightarrow> (case State_Local s cb of
         None \<Rightarrow> continue (State_SetLocal target ca s)
       | Some b \<Rightarrow> (case op_IsObject ops (Some a) of
           Inl e \<Rightarrow> raise (OpError e) s
         | Inr isObject \<Rightarrow> if \<not> isObject then raise ErrObjectInsertConflict s
           else (case op_IsObject ops (Some b) of
             Inl e \<Rightarrow> raise (OpError e) s
           | Inr isObject \<Rightarrow> if \<not> isObject then raise ErrObjectInsertConflict s
             else (case op_ObjectMerge ops a b of
               Inl e \<Rightarrow> raise (OpError e) s
             | Inr m \<Rightarrow> continue (State_SetValue target (Some m) s))))) }"

definition resetLocal_Execute :: "bytes \<Rightarrow> ('v, 'a, 'e) State \<Rightarrow> ('v, 'a, 'e) outcome" where
  "resetLocal_Execute r s = do { target \<leftarrow> resetLocal_Target r; continue (State_Unset target s) }"

definition resultSetAdd_Execute :: "('v, 'a, 'e) env \<Rightarrow> bytes \<Rightarrow> ('v, 'a, 'e) State \<Rightarrow> ('v, 'a, 'e) outcome" where
  "resultSetAdd_Execute env r s = do {
     value \<leftarrow> resultSetAdd_Value r;
     let valueValue = State_Local s value;
     if isUndefinedType valueValue then continue s
     else case op_SetAdd (env_ops env) (Some (g_ResultSet (s_Globals s))) valueValue of
       Inl e \<Rightarrow> raise (OpError e) s
     | Inr newSet \<Rightarrow> continue (map_globals (\<lambda>g. g\<lparr>g_ResultSet := newSet\<rparr>) s) }"

section \<open>Blocks\<close>

text \<open>The loop of \<open>block.Execute\<close>: \<open>i\<close> counts the statements, \<open>k\<close> how many are left, \<open>instr\<close> those not yet
  accounted for; cancellation and the limit are looked at every 32 statements.\<close>

fun block_loop :: "('v, 'a, 'e) env \<Rightarrow> ('v, 'a, 'e) executor \<Rightarrow> nat \<Rightarrow> nat \<Rightarrow> int \<Rightarrow> bytes \<Rightarrow> ('v, 'a, 'e) State \<Rightarrow>
    ((bool \<times> u32 \<times> 'e vm_error option \<times> int) \<times> ('v, 'a, 'e) State) option" where
  "block_loop env st i 0 instr d s = Some ((False, 0, None, instr), s)"
| "block_loop env st i (Suc k) instr d s =
     (let (err, instr, s) = (if i mod 32 = 0 then let (err, s) = State_Instr env instr s in (err, 0, s)
                             else (None, instr, s))
      in case err of
        Some e \<Rightarrow> Some ((False, 0, Some e, instr), s)
      | None \<Rightarrow> do {
          ((stop, index, size, err), s) \<leftarrow> st d s;
          d \<leftarrow> slice_from d (nat size);
          let instr = instr + 1;
          if stop \<or> err \<noteq> None then Some ((stop, index, err, instr), s)
          else block_loop env st (Suc i) k instr d s })"

definition block_Execute :: "('v, 'a, 'e) env \<Rightarrow> ('v, 'a, 'e) executor \<Rightarrow> bytes \<Rightarrow> ('v, 'a, 'e) State \<Rightarrow> ('v, 'a, 'e) outcome" where
  "block_Execute env st b s = do {
     let statements = block_Statements b;
     statement \<leftarrow> statements_Statement statements;
     n \<leftarrow> statements_Len statements;
     ((stop, index, err, instr), s) \<leftarrow> block_loop env st 0 (nat n) 0 statement s;
     let (err2, s) = State_Instr env instr s;
     case err of
       Some e \<Rightarrow> raise e s
     | None \<Rightarrow> (case err2 of
         Some e \<Rightarrow> raise e s
       | None \<Rightarrow> if stop then if index = 0 then continue s else leave (index - 1) s else continue s) }"

text \<open>The loop of block statements: it ends on an error or a stop, and keeps the last result \<open>r\<close>.\<close>

fun blocks_loop :: "('v, 'a, 'e) env \<Rightarrow> ('v, 'a, 'e) executor \<Rightarrow> bytes \<Rightarrow> nat \<Rightarrow> nat \<Rightarrow> bool \<times> u32 \<Rightarrow> ('v, 'a, 'e) State \<Rightarrow>
    ('v, 'a, 'e) outcome" where
  "blocks_loop env st blocks i 0 r s = Some ((fst r, snd r, None), s)"
| "blocks_loop env st blocks i (Suc k) r s = do {
     b \<leftarrow> blocks_Block blocks (int i);
     ((stop, n, err), s) \<leftarrow> block_Execute env st b s;
     if err \<noteq> None \<or> stop then Some ((stop, n, err), s)
     else blocks_loop env st blocks (Suc i) k (stop, n) s }"

definition blockStmt_Execute :: "('v, 'a, 'e) env \<Rightarrow> ('v, 'a, 'e) executor \<Rightarrow> bytes \<Rightarrow> ('v, 'a, 'e) State \<Rightarrow> ('v, 'a, 'e) outcome" where
  "blockStmt_Execute env st b s = do {
     blocks \<leftarrow> blockStmt_Blocks b;
     m \<leftarrow> blocks_Len blocks;
     blocks_loop env st blocks 0 (nat m) (False, 0) s }"

text \<open>The loops of \<open>not\<close> and \<open>with\<close> over the statements of their block; they do not count instructions.\<close>

fun not_loop :: "('v, 'a, 'e) executor \<Rightarrow> nat \<Rightarrow> bytes \<Rightarrow> ('v, 'a, 'e) State \<Rightarrow> ('v, 'a, 'e) outcome" where
  "not_loop st 0 d s = continue s"
| "not_loop st (Suc k) d s = do {
     ((stop, index, size, err), s) \<leftarrow> st d s;
     d \<leftarrow> slice_from d (nat size);
     if stop \<or> err \<noteq> None then Some ((stop, index, err), s) else not_loop st k d s }"

definition not_Execute :: "('v, 'a, 'e) env \<Rightarrow> ('v, 'a, 'e) executor \<Rightarrow> bytes \<Rightarrow> ('v, 'a, 'e) State \<Rightarrow> ('v, 'a, 'e) outcome" where
  "not_Execute env st n s = do {
     b \<leftarrow> not_Block n;
     let statements = block_Statements b;
     statement \<leftarrow> statements_Statement statements;
     m \<leftarrow> statements_Len statements;
     ((stop, index, err), s) \<leftarrow> not_loop st (nat m) statement s;
     case err of
       Some e \<Rightarrow> raise e s
     | None \<Rightarrow> if stop then if index = 0 then continue s else leave (index - 1) s else leave 0 s }"

text \<open>The callback of \<open>scan\<close>: a stop or an error of the block ends the iteration; \<open>stop\<close> and \<open>n\<close> keep the last
  result.  When the pairs are exhausted the iterator may still return an error.\<close>

fun scan_loop :: "('v, 'a, 'e) env \<Rightarrow> ('v, 'a, 'e) executor \<Rightarrow> Local \<Rightarrow> Local \<Rightarrow> bytes \<Rightarrow> ('v \<times> 'v) list \<Rightarrow> 'e option \<Rightarrow>
    ('v, 'a, 'e) State \<Rightarrow> ('v, 'a, 'e) outcome" where
  "scan_loop env st skey svalue b [] ierr s = Some ((False, 0, map_option OpError ierr), s)"
| "scan_loop env st skey svalue b ((key, value) # kvs) ierr s = do {
     let s = State_SetValue skey (Some key) s;
     let s = State_SetValue svalue (Some value) s;
     ((stop, n, err), s) \<leftarrow> block_Execute env st b s;
     if stop \<or> err \<noteq> None then Some ((stop, n, err), s)
     else scan_loop env st skey svalue b kvs ierr s }"

definition scan_Execute :: "('v, 'a, 'e) env \<Rightarrow> ('v, 'a, 'e) executor \<Rightarrow> bytes \<Rightarrow> ('v, 'a, 'e) State \<Rightarrow> ('v, 'a, 'e) outcome" where
  "scan_Execute env st x s = do {
     source \<leftarrow> scan_Source x; skey \<leftarrow> scan_Key x; svalue \<leftarrow> scan_Value x;
     b \<leftarrow> scan_Block x;
     let (kvs, ierr) = op_Iter (env_ops env) (State_Local s source);
     ((stop, n, err), s) \<leftarrow> scan_loop env st skey svalue b kvs ierr s;
     case err of
       Some e \<Rightarrow> raise e s
     | None \<Rightarrow> if stop \<and> n > 0 then leave (n - 1) s else continue s }"

section \<open>Functions and builtins\<close>

definition isHashable :: "('v, 'a, 'e) env \<Rightarrow> 'v option list \<Rightarrow> bool" where
  "isHashable env as =
     (if length as > 9 then False
      else list_all (\<lambda>a. case a of Some v \<Rightarrow> \<not> op_IsCollection (env_ops env) v | None \<Rightarrow> True) as)"

text \<open>The loop of functions over their blocks: only an error ends it.\<close>

fun function_blocks :: "('v, 'a, 'e) env \<Rightarrow> ('v, 'a, 'e) executor \<Rightarrow> bytes \<Rightarrow> nat \<Rightarrow> nat \<Rightarrow> ('v, 'a, 'e) State \<Rightarrow>
    ('v, 'a, 'e) fun_outcome" where
  "function_blocks env st blocks i 0 s = Some (None, s)"
| "function_blocks env st blocks i (Suc k) s = do {
     b \<leftarrow> blocks_Block blocks (int i);
     ((_, _, err), s) \<leftarrow> block_Execute env st b s;
     if err \<noteq> None then Some (err, s) else function_blocks env st blocks (Suc i) k s }"

definition count_hit :: "('v, 'a, 'e) State \<Rightarrow> ('v, 'a, 'e) State" where
  "count_hit = map_globals (\<lambda>g. g\<lparr>g_VirtualCacheHits := g_VirtualCacheHits g + 1\<rparr>)"

definition count_miss :: "('v, 'a, 'e) State \<Rightarrow> ('v, 'a, 'e) State" where
  "count_miss = map_globals (\<lambda>g. g\<lparr>g_VirtualCacheMisses := g_VirtualCacheMisses g + 1\<rparr>)"

text \<open>\<open>state.SetValue(arg, args[i])\<close> for every parameter.\<close>

definition set_params :: "bytes \<Rightarrow> 'v option list \<Rightarrow> ('v, 'a, 'e) State \<Rightarrow> ('v, 'a, 'e) State option" where
  "set_params f args s = do {
     r \<leftarrow> function_ParamsIter f (\<lambda>i arg s.
            if i < length args then Some (Inr (State_SetValue arg (args ! i) s) :: unit + ('v, 'a, 'e) State) else None) s;
     case r of Inl _ \<Rightarrow> None | Inr s \<Rightarrow> Some s }"

definition memoize_result :: "('v, 'a, 'e) env \<Rightarrow> int \<Rightarrow> 'v option list \<Rightarrow> ('v, 'a, 'e) State \<Rightarrow> ('v, 'a, 'e) State option" where
  "memoize_result env index funArgs s =
     (let (local, defined) = State_Return s;
          value = (if defined then State_Local s local else undefined_value)
      in State_MemoizeInsert env index funArgs value s)"

definition function_Execute :: "('v, 'a, 'e) env \<Rightarrow> ('v, 'a, 'e) executor \<Rightarrow> bytes \<Rightarrow> ('v, 'a, 'e) State \<Rightarrow> 'v option list \<Rightarrow>
    ('v, 'a, 'e) fun_outcome" where
  "function_Execute env st f s args = do {
     index \<leftarrow> function_Index f;
     ret \<leftarrow> function_Return f;
     np \<leftarrow> function_ParamsLen f;
     funArgs \<leftarrow> args_slice args 2 (unat np);
     let memoize = isHashable env funArgs;
     hit \<leftarrow> (if memoize then State_MemoizeGet env s index funArgs else Some None);
     case hit of
       Some value \<Rightarrow>
         let s = count_hit s
         in Some (None, if \<not> isUndefinedType value then State_SetReturnValue ret value s else s)
     | None \<Rightarrow> do {
         let s = count_miss s;
         s \<leftarrow> set_params f args s;
         blocks \<leftarrow> function_Blocks f;
         n \<leftarrow> blocks_Len blocks;
         (err, s) \<leftarrow> function_blocks env st blocks 0 (nat n) s;
         s \<leftarrow> (if memoize then memoize_result env index funArgs s else Some s);
         Some (err, s) } }"

definition specializedBuiltin_Execute :: "('v, 'a, 'e) env \<Rightarrow> bytes \<Rightarrow> ('v, 'a, 'e) State \<Rightarrow> 'v option list \<Rightarrow> ('v, 'a, 'e) fun_outcome" where
  "specializedBuiltin_Execute env b s args = do {
     num \<leftarrow> specializedBuiltin_Num b;
     let n = num AND 31;
     env_specialized env n args s }"

text \<open>The arguments of an OPA builtin as AST values: \<open>Inr None\<close> when one is undefined.\<close>

fun builtin_args :: "('v, 'a, 'e) env \<Rightarrow> 'v option list \<Rightarrow> ('e + 'a list option) option" where
  "builtin_args env [] = Some (Inr (Some []))"
| "builtin_args env (x # xs) =
     (if isUndefinedType x then Some (Inr None) else do {
        r \<leftarrow> op_ToAST (env_ops env) x;
        case r of
          Inl e \<Rightarrow> Some (Inl e)
        | Inr v \<Rightarrow> do {
            rest \<leftarrow> builtin_args env xs;
            case rest of
              Inl e \<Rightarrow> Some (Inl e)
            | Inr vs \<Rightarrow> Some (Inr (map_option (\<lambda>vs. v # vs) vs)) } })"

text \<open>One call of the callback given to the implementation: an error, or the new state.\<close>

definition builtin_yield :: "('v, 'a, 'e) env \<Rightarrow> bool \<Rightarrow> builtin_decl \<Rightarrow> 'a list \<Rightarrow> 'a option \<Rightarrow> ('v, 'a, 'e) State \<Rightarrow>
    ('e + ('v, 'a, 'e) State) option" where
  "builtin_yield env relation bi a value s =
     (let ops = env_ops env in
      if relation then (case value of None \<Rightarrow> None | Some t \<Rightarrow> do {
          r \<leftarrow> op_FromInterface ops t;
          case r of
            Inl e \<Rightarrow> Some (Inl e)
          | Inr v \<Rightarrow> (case op_ArrayAppend ops (State_Local s Unused) (Some v) of
              Inl e \<Rightarrow> Some (Inl e)
            | Inr (newArray, ok) \<Rightarrow> Some (Inr (if ok then State_SetValue Unused newArray s else s))) })
      else (case value of
          None \<Rightarrow> Some (Inr (State_SetReturnValue Unused (Some (op_MakeArray ops 0)) s))
        | Some t \<Rightarrow> do {
            r \<leftarrow> op_FromInterface ops t;
            case r of
              Inl e \<Rightarrow> Some (Inl e)
            | Inr ret \<Rightarrow>
                let s = (case g_NDBCache (s_Globals s) of
                    Some c \<Rightarrow> if bd_Nondeterministic bi
                      then map_globals (\<lambda>g. g\<lparr>g_NDBCache := Some (c((bd_Name bi, a) \<mapsto> t))\<rparr>) s else s
                  | None \<Rightarrow> s)
                in Some (Inr (State_SetReturnValue Unused (Some ret) s)) }))"

fun builtin_yields :: "('v, 'a, 'e) env \<Rightarrow> bool \<Rightarrow> builtin_decl \<Rightarrow> 'a list \<Rightarrow> 'a option list \<Rightarrow> 'e option \<Rightarrow> ('v, 'a, 'e) State \<Rightarrow>
    ('e option \<times> ('v, 'a, 'e) State) option" where
  "builtin_yields env relation bi a [] err s = Some (err, s)"
| "builtin_yields env relation bi a (v # vs) err s = do {
     r \<leftarrow> builtin_yield env relation bi a v s;
     case r of Inl e \<Rightarrow> Some (Some e, s) | Inr s \<Rightarrow> builtin_yields env relation bi a vs err s }"

definition find_builtin :: "('v, 'a, 'e) env \<Rightarrow> gostring \<Rightarrow> (('a, 'e) builtin_impl \<times> builtin_decl) option" where
  "find_builtin env name = (case env_BuiltinFuncs env name of
     Some (impl, bi) \<Rightarrow> Some (impl, bi)
   | None \<Rightarrow> (case env_GetBuiltin env name of
       None \<Rightarrow> None
     | Some impl \<Rightarrow> map_option (Pair impl) (env_BuiltinMap env name)))"

text \<open>The run of the implementation, with the cache of nondeterministic builtins.\<close>

definition builtin_run :: "('v, 'a, 'e) env \<Rightarrow> bool \<Rightarrow> ('a, 'e) builtin_impl \<Rightarrow> builtin_decl \<Rightarrow> 'a list \<Rightarrow> ('v, 'a, 'e) State \<Rightarrow>
    ('v, 'a, 'e) fun_outcome" where
  "builtin_run env relation impl bi a s =
     (case (if bd_Nondeterministic bi then Option.bind (g_NDBCache (s_Globals s)) (\<lambda>c. c (bd_Name bi, a)) else None) of
        Some value \<Rightarrow> do {
          r \<leftarrow> op_FromInterface (env_ops env) value;
          case r of
            Inl e \<Rightarrow> Some (Some (OpError e), s)
          | Inr v \<Rightarrow> Some (None, State_SetReturnValue Unused (Some v) s) }
      | None \<Rightarrow> do {
          let (values, err) = impl a;
          (err, s) \<leftarrow> builtin_yields env relation bi a values err s;
          case err of
            None \<Rightarrow> Some (None, s)
          | Some e \<Rightarrow>
              if env_Halt env (OpError e) then Some (Some (OpError e), s)
              else Some (None, map_globals (\<lambda>g. g\<lparr>g_BuiltinErrors := g_BuiltinErrors g @ [OpError e]\<rparr>) s) })"

definition builtin_Execute :: "('v, 'a, 'e) env \<Rightarrow> bytes \<Rightarrow> ('v, 'a, 'e) State \<Rightarrow> 'v option list \<Rightarrow> ('v, 'a, 'e) fun_outcome" where
  "builtin_Execute env b s args = do {
     r \<leftarrow> builtin_args env args;
     case r of
       Inl e \<Rightarrow> Some (Some (OpError e), s)
     | Inr None \<Rightarrow> Some (None, s)
     | Inr (Some a) \<Rightarrow> do {
         name \<leftarrow> builtin_Name b;
         relation \<leftarrow> builtin_Relation b;
         let s = (if relation then State_SetReturnValue Unused (Some (op_MakeArray (env_ops env) 0)) s else s);
         case find_builtin env name of
           None \<Rightarrow> Some (Some (ErrBuiltinNotFound name), s)
         | Some (impl, bi) \<Rightarrow> builtin_run env relation impl bi a s } }"

section \<open>Calls\<close>

definition record_call :: "('v, 'a, 'e) env \<Rightarrow> int \<Rightarrow> 'v option \<Rightarrow> ('v, 'a, 'e) State \<Rightarrow> ('v, 'a, 'e) fun_outcome" where
  "record_call env fid resultValue s =
     (let set_results = (\<lambda>v. map_globals (\<lambda>g. g\<lparr>g_IntermediateResults := (g_IntermediateResults g)(fid \<mapsto> v)\<rparr>) s);
          old = g_IntermediateResults (s_Globals s) fid
      in case env_mode env of
        intermediateResultsDisabled \<Rightarrow> Some (None, s)
      | intermediateResultsNoValueMode \<Rightarrow> Some (None, set_results NoValue)
      | intermediateResultsHashMode \<Rightarrow> do {
          h \<leftarrow> (case resultValue of
                  Some v \<Rightarrow> op_Hash (env_ops env) v
                | None \<Rightarrow> Some (Inr (replicate 64 (of_char (CHR ''0'')))));
          case h of
            Inl e \<Rightarrow> Some (Some (OpError e), s)
          | Inr h \<Rightarrow> Some (None, set_results (case old of Some (Hashes m) \<Rightarrow> Hashes (if h \<in> set m then m else m @ [h]) | _ \<Rightarrow> Hashes [h])) }
      | intermediateResultsValueMode \<Rightarrow> (
          let a = (case old of Some (Values a) \<Rightarrow> a | _ \<Rightarrow> [])
          in case resultValue of
            None \<Rightarrow> Some (None, set_results (Values a))
          | Some v \<Rightarrow> do {
              r \<leftarrow> op_ToInterface (env_ops env) v;
              case r of
                Inl e \<Rightarrow> Some (Some (OpError e), s)
              | Inr v \<Rightarrow> Some (None, set_results (Values (a @ [v]))) }))"

text \<open>The end of both calls: the shared globals of the callee become those of the caller.\<close>

definition with_globals_of :: "('v, 'a, 'e) State \<Rightarrow> ('v, 'a, 'e) State \<Rightarrow> ('v, 'a, 'e) State" where
  "with_globals_of s inner = s\<lparr>s_Globals := s_Globals inner\<rparr>"

text \<open>\<open>functionTbl\<close> and the check on the type before it.\<close>

definition function_dispatch :: "('v, 'a, 'e) env \<Rightarrow> ('v, 'a, 'e) executor \<Rightarrow> bytes \<Rightarrow> ('v, 'a, 'e) State \<Rightarrow> ('v, 'a, 'e) State \<Rightarrow>
    'v option list \<Rightarrow> ('v, 'a, 'e) fun_outcome" where
  "function_dispatch env st f outer inner args = do {
     ftype \<leftarrow> function_Type f;
     if ftype = 0 then builtin_Execute env f inner args
     else if ftype = 1 then specializedBuiltin_Execute env f inner args
     else if ftype = 2 then function_Execute env st f inner args
     else env_regoCompile env outer args inner }"

definition call_values :: "('v, 'a, 'e) env \<Rightarrow> ('v, 'a, 'e) State \<Rightarrow> bytes \<Rightarrow> 'v option list option" where
  "call_values env s c = do {
     n \<leftarrow> call_ArgsLen c;
     r \<leftarrow> call_ArgsIter c (\<lambda>i arg args. do {
            v \<leftarrow> State_Value env s arg;
            Some (Inr (args[i := v]) :: unit + 'v option list) }) (replicate (unat n) undefined_value);
     case r of Inl _ \<Rightarrow> None | Inr args \<Rightarrow> Some args }"

definition call_Execute :: "('v, 'a, 'e) env \<Rightarrow> ('v, 'a, 'e) executor \<Rightarrow> bytes \<Rightarrow> ('v, 'a, 'e) State \<Rightarrow> ('v, 'a, 'e) outcome" where
  "call_Execute env st c s = do {
     let inner = State_New env s;
     args \<leftarrow> call_values env s c;
     fid \<leftarrow> call_Func c;
     f \<leftarrow> State_Func env fid;
     (err, inner) \<leftarrow> function_dispatch env st f s inner args;
     let s = with_globals_of s inner;
     case err of
       Some e \<Rightarrow> raise e s
     | None \<Rightarrow> do {
         let (result, ok) = State_Return inner;
         let resultValue = (if ok then State_Local inner result else None);
         (err, s) \<leftarrow> record_call env fid resultValue s;
         case err of
           Some e \<Rightarrow> raise e s
         | None \<Rightarrow> if \<not> ok then leave 0 s
           else do { target \<leftarrow> call_Result c; continue (State_SetValue target resultValue s) } } }"

fun external_lookup :: "('v, 'a, 'e) env \<Rightarrow> gostring list \<Rightarrow> 'v \<Rightarrow> 'e + 'v option" where
  "external_lookup env [] data = Inr (Some data)"
| "external_lookup env (seg # path) data =
     (case op_GetCall (env_ops env) data (op_MakeString (env_ops env) seg) of
        Inl e \<Rightarrow> Inl e
      | Inr None \<Rightarrow> Inr None
      | Inr (Some value) \<Rightarrow> external_lookup env path value)"

definition externalCall :: "('v, 'a, 'e) env \<Rightarrow> ('v, 'a, 'e) State \<Rightarrow> gostring list \<Rightarrow> 'v option list \<Rightarrow>
    'e vm_error + ('v option \<times> bool \<times> bool)" where
  "externalCall env s path args =
     (let path = (if path \<noteq> [] then tl path else path) in
      case State_Local s Data of
        None \<Rightarrow> Inr (None, False, False)
      | Some data \<Rightarrow> (case external_lookup env path data of
          Inl e \<Rightarrow> Inl (OpError e)
        | Inr None \<Rightarrow> Inr (None, False, False)
        | Inr (Some data) \<Rightarrow> (case op_IsCall (env_ops env) data of
            Inl e \<Rightarrow> Inl (OpError e)
          | Inr ok \<Rightarrow>
              if \<not> ok then if length args = 2 then Inr (Some data, True, True) else Inl ErrFunctionCallToData
              else (case op_Call (env_ops env) data args of Inl e \<Rightarrow> Inl (OpError e) | Inr r \<Rightarrow> Inr r))))"

definition callDynamic_values :: "('v, 'a, 'e) State \<Rightarrow> bytes \<Rightarrow> 'v option list option" where
  "callDynamic_values s c = do {
     n \<leftarrow> callDynamic_ArgsLen c;
     r \<leftarrow> callDynamic_ArgsIter c (\<lambda>i arg args.
            Some (Inr (args[i := State_Local s arg]) :: unit + 'v option list)) (replicate (unat n) undefined_value);
     case r of Inl _ \<Rightarrow> None | Inr args \<Rightarrow> Some args }"

text \<open>A segment of the path: \<open>string(s.(ast.String))\<close> panics for any other type.\<close>

definition callDynamic_path :: "('v, 'a, 'e) env \<Rightarrow> ('v, 'a, 'e) State \<Rightarrow> bytes \<Rightarrow> ('e + gostring list) option" where
  "callDynamic_path env s c = do {
     n \<leftarrow> callDynamic_PathLen c;
     callDynamic_PathIter c (\<lambda>i arg path. do {
         v \<leftarrow> State_Value env s arg;
         a \<leftarrow> op_ToAST (env_ops env) v;
         case a of
           Inl e \<Rightarrow> Some (Inl e)
         | Inr a \<Rightarrow> do { x \<leftarrow> ast_String (env_ops env) a; Some (Inr (path[i := x])) } }) (replicate (unat n) []) }"

definition callDynamic_Execute :: "('v, 'a, 'e) env \<Rightarrow> ('v, 'a, 'e) executor \<Rightarrow> bytes \<Rightarrow> ('v, 'a, 'e) State \<Rightarrow> ('v, 'a, 'e) outcome" where
  "callDynamic_Execute env st c s = do {
     let inner = State_New env s;
     args \<leftarrow> callDynamic_values s c;
     p \<leftarrow> callDynamic_path env s c;
     case p of
       Inl e \<Rightarrow> raise (OpError e) s
     | Inr path \<Rightarrow> do {
         found \<leftarrow> State_FindByPath env path;
         case found of
           None \<Rightarrow> (case externalCall env s path args of
               Inl e \<Rightarrow> raise e s
             | Inr (value, ok, mapping) \<Rightarrow>
                 if \<not> mapping then leave 0 s
                 else if \<not> ok then leave 3 s
                 else do { target \<leftarrow> callDynamic_Result c; continue (State_SetValue target value s) })
         | Some (f, _) \<Rightarrow> do {
             (err, inner) \<leftarrow> function_Execute env st f inner args;
             let s = with_globals_of s inner;
             case err of
               Some e \<Rightarrow> raise e s
             | None \<Rightarrow> do {
                 let (result, ok) = State_Return inner;
                 if \<not> ok then leave 3 s
                 else do {
                   target \<leftarrow> callDynamic_Result c;
                   continue (State_SetValue target (State_Local inner result) s) } } } } }"

section \<open>With\<close>

text \<open>The closure chain \<open>insertToParent\<close> of \<open>upsert\<close>: the parents passed so far with the key under which the
  child goes, innermost first.\<close>

fun insertToParent :: "('v, 'a, 'e) ops \<Rightarrow> ('v option \<times> 'v) list \<Rightarrow> 'v option \<Rightarrow> ('e + 'v option) option" where
  "insertToParent ops [] obj = Some (Inr obj)"
| "insertToParent ops ((parent, key) # parents) child = do {
     r \<leftarrow> op_ObjectInsert ops parent (Some key) child;
     case r of
       Inl e \<Rightarrow> Some (Inl e)
     | Inr (parent, _) \<Rightarrow> insertToParent ops parents parent }"

text \<open>One step down the path; the captured variables are \<open>result\<close>, \<open>obj\<close> and the chain.\<close>

definition upsert_step :: "('v, 'a, 'e) env \<Rightarrow> ('v, 'a, 'e) State \<Rightarrow> nat \<Rightarrow> LocalOrConst \<Rightarrow> nat \<Rightarrow> int \<Rightarrow>
    'v option \<times> 'v option \<times> ('v option \<times> 'v) list \<Rightarrow> ('e + 'v option \<times> 'v option \<times> ('v option \<times> 'v) list) option" where
  "upsert_step env s lastIndex value i arg = (\<lambda>(result, obj, parents). do {
     let ops = env_ops env;
     key \<leftarrow> State_String env arg;
     if i = lastIndex then do {
       v \<leftarrow> State_Value env s value;
       r \<leftarrow> op_ObjectInsert ops obj (Some key) v;
       case r of
         Inl e \<Rightarrow> Some (Inl e)
       | Inr (obj', _) \<Rightarrow> do {
           r \<leftarrow> insertToParent ops parents obj';
           case r of Inl e \<Rightarrow> Some (Inl e) | Inr result \<Rightarrow> Some (Inr (result, obj, parents)) } }
     else case op_Get ops obj (Some key) of
         Inl e \<Rightarrow> Some (Inl e)
       | Inr child \<Rightarrow> do {
           c \<leftarrow> (case child of
               None \<Rightarrow> Some (Inr (op_MakeObject ops))
             | Some ch \<Rightarrow> (case op_IsObject ops (Some ch) of
                 Inl e \<Rightarrow> Some (Inl e)
               | Inr isObject \<Rightarrow> if \<not> isObject then Some (Inr (op_MakeObject ops)) else op_CopyShallow ops (Some ch)));
           case c of
             Inl e \<Rightarrow> Some (Inl e)
           | Inr ch \<Rightarrow> Some (Inr (result, Some ch, (obj, key) # parents)) } })"

definition with_upsert :: "('v, 'a, 'e) env \<Rightarrow> bytes \<Rightarrow> ('v, 'a, 'e) State \<Rightarrow> Local \<Rightarrow> nat \<Rightarrow> LocalOrConst \<Rightarrow> ('e + 'v option) option" where
  "with_upsert env w s original pathLen value = do {
     let ops = env_ops env;
     let originalValue = State_Local s original;
     case (if \<not> isUndefinedType originalValue then op_IsObject ops originalValue else Inr False) of
       Inl e \<Rightarrow> Some (Inl e)
     | Inr ok \<Rightarrow> do {
         r \<leftarrow> (if ok then op_CopyShallow ops originalValue else Some (Inr (op_MakeObject ops)));
         case r of
           Inl e \<Rightarrow> Some (Inl e)
         | Inr result \<Rightarrow> do {
             r \<leftarrow> with_PathIter w (upsert_step env s (pathLen - 1) value) (Some result, Some result, []);
             case r of Inl e \<Rightarrow> Some (Inl e) | Inr (result, _, _) \<Rightarrow> Some (Inr result) } } }"

fun with_loop :: "('v, 'a, 'e) executor \<Rightarrow> nat \<Rightarrow> bytes \<Rightarrow> ('v, 'a, 'e) State \<Rightarrow> ('v, 'a, 'e) outcome" where
  "with_loop st 0 d s = continue s"
| "with_loop st (Suc k) d s = do {
     ((stop, _, size, err), s) \<leftarrow> st d s;
     case err of
       Some e \<Rightarrow> raise e s
     | None \<Rightarrow> if stop then leave 0 s else do { d \<leftarrow> slice_from d (nat size); with_loop st k d s } }"

definition with_body :: "('v, 'a, 'e) env \<Rightarrow> ('v, 'a, 'e) executor \<Rightarrow> bytes \<Rightarrow> Local \<Rightarrow> LocalOrConst \<Rightarrow> ('v, 'a, 'e) State \<Rightarrow>
    ('v, 'a, 'e) outcome" where
  "with_body env st w local wvalue s = do {
     pathLen \<leftarrow> with_PathLen w;
     r \<leftarrow> (if pathLen = 0 then map_option Inr (State_Set env local wvalue s)
           else do {
             r \<leftarrow> with_upsert env w s local (unat pathLen) wvalue;
             case r of Inl e \<Rightarrow> Some (Inl e) | Inr value \<Rightarrow> Some (Inr (State_SetValue local value s)) });
     case r of
       Inl e \<Rightarrow> raise (OpError e) s
     | Inr s \<Rightarrow> do {
         b \<leftarrow> with_Block w;
         let statements = block_Statements b;
         statement \<leftarrow> statements_Statement statements;
         n \<leftarrow> statements_Len statements;
         with_loop st (nat n) statement s } }"

text \<open>The two deferred calls run on every way out: the local gets its value back, then the table of
  memoized results of the block is dropped.\<close>

definition with_Execute :: "('v, 'a, 'e) env \<Rightarrow> ('v, 'a, 'e) executor \<Rightarrow> bytes \<Rightarrow> ('v, 'a, 'e) State \<Rightarrow> ('v, 'a, 'e) outcome" where
  "with_Execute env st w s = do {
     let s = State_MemoizePush s;
     local \<leftarrow> with_Local w;
     wvalue \<leftarrow> with_Value w;
     let value = State_Local s local;
     (r, s) \<leftarrow> with_body env st w local wvalue s;
     Some (r, State_MemoizePop (State_SetValue local value s)) }"

section \<open>Dispatch\<close>

text \<open>The table \<open>exs\<close>: an entry that is not set is a call of a nil function.\<close>

definition exs :: "('v, 'a, 'e) env \<Rightarrow> ('v, 'a, 'e) executor \<Rightarrow> u32 \<Rightarrow> bytes \<Rightarrow> ('v, 'a, 'e) State \<Rightarrow> ('v, 'a, 'e) outcome" where
  "exs env st t d s =
     (if t = typeStatementArrayAppend then arrayAppend_Execute env d s
      else if t = typeStatementAssignInt then assignInt_Execute env d s
      else if t = typeStatementAssignVar then assignVar_Execute env d s
      else if t = typeStatementAssignVarOnce then assignVarOnce_Execute env d s
      else if t = typeStatementBlockStmt then blockStmt_Execute env st d s
      else if t = typeStatementBreakStmt then breakStmt_Execute d s
      else if t = typeStatementCall then call_Execute env st d s
      else if t = typeStatementCallDynamic then callDynamic_Execute env st d s
      else if t = typeStatementDot then dot_Execute env d s
      else if t = typeStatementEqual then equal_Execute env d s
      else if t = typeStatementIsArray then isArray_Execute env d s
      else if t = typeStatementIsDefined then isDefined_Execute d s
      else if t = typeStatementIsSet then isSet_Execute env d s
      else if t = typeStatementIsObject then isObject_Execute env d s
      else if t = typeStatementIsUndefined then isUndefined_Execute d s
      else if t = typeStatementLen then lenStmt_Execute env d s
      else if t = typeStatementMakeArray then makeArray_Execute env d s
      else if t = typeStatementMakeNull then makeNull_Execute env d s
      else if t = typeStatementMakeNumberInt then makeNumberInt_Execute env d s
      else if t = typeStatementMakeNumberRef then makeNumberRef_Execute env d s
      else if t = typeStatementMakeObject then makeObject_Execute env d s
      else if t = typeStatementMakeSet then makeSet_Execute env d s
      else if t = typeStatementNop then nop_Execute d s
      else if t = typeStatementNot then not_Execute env st d s
      else if t = typeStatementNotEqual then notEqual_Execute env d s
      else if t = typeStatementObjectInsert then objectInsert_Execute env d s
      else if t = typeStatementObjectInsertOnce then objectInsertOnce_Execute env d s
      else if t = typeStatementObjectMerge then objectMerge_Execute env d s
      else if t = typeStatementResetLocal then resetLocal_Execute d s
      else if t = typeStatementResultSetAdd then resultSetAdd_Execute env d s
      else if t = typeStatementReturnLocal then returnLocal_Execute d s
      else if t = typeStatementScan then scan_Execute env st d s
      else if t = typeStatementSetAdd then setAdd_Execute env d s
      else if t = typeStatementWith then with_Execute env st d s
      else None)"

primrec statement_Execute :: "('v, 'a, 'e) env \<Rightarrow> nat \<Rightarrow> ('v, 'a, 'e) executor" where
  "statement_Execute env 0 = (\<lambda>d s. None)"
| "statement_Execute env (Suc fuel) = (\<lambda>d s. do {
     (t, size) \<leftarrow> statement_Type d;
     let t = t AND 63;
     ((stop, index, err), s) \<leftarrow> exs env (statement_Execute env fuel) t d s;
     Some ((stop, index, size, err), s) })"

section \<open>Plans\<close>

fun plan_blocks :: "('v, 'a, 'e) env \<Rightarrow> ('v, 'a, 'e) executor \<Rightarrow> bytes \<Rightarrow> nat \<Rightarrow> nat \<Rightarrow> ('v, 'a, 'e) State \<Rightarrow> ('v, 'a, 'e) fun_outcome" where
  "plan_blocks env st blocks i 0 s = Some (None, s)"
| "plan_blocks env st blocks i (Suc k) s =
     (let (err, s) = State_Instr env 1 s in
      case err of
        Some e \<Rightarrow> Some (Some e, s)
      | None \<Rightarrow> do {
          b \<leftarrow> blocks_Block blocks (int i);
          ((_, _, err), s) \<leftarrow> block_Execute env st b s;
          if err \<noteq> None then Some (err, s) else plan_blocks env st blocks (Suc i) k s })"

definition plan_Execute :: "('v, 'a, 'e) env \<Rightarrow> ('v, 'a, 'e) executor \<Rightarrow> bytes \<Rightarrow> ('v, 'a, 'e) State \<Rightarrow> ('v, 'a, 'e) fun_outcome" where
  "plan_Execute env st p s = do {
     blocks \<leftarrow> plan_Blocks p;
     n \<leftarrow> blocks_Len blocks;
     plan_blocks env st blocks 0 (nat n) s }"

end
