(* ===== verification/IR_Semantics.thy ===== *)
theory IR_Semantics
  imports VM_Exec
begin

text \<open>
  What a policy means, read off its IR and without any byte code: the specification the compiler and the
  machine are measured against.  A statement acts on the state of \<open>VM_State\<close>; operands are looked up in the
  policy, calls go to the function of that name, a nested update by \<open>with\<close> is a recursion over the path.
  Accounting of instructions is part of the meaning, so that limits and cancellation are covered.
\<close>

type_synonym ('v, 'a, 'e) ir_executor = "stmt \<Rightarrow> ('v, 'a, 'e) State \<Rightarrow> ('v, 'a, 'e) outcome"

section \<open>Operands\<close>

definition ir_string :: "policy \<Rightarrow> int \<Rightarrow> gostring option" where
  "ir_string p i = (if 0 \<le> i \<and> i < int (length (po_Strings p)) then Some (po_Strings p ! nat i) else None)"

definition ir_string_value :: "('v, 'a, 'e) env \<Rightarrow> policy \<Rightarrow> int \<Rightarrow> 'v option" where
  "ir_string_value env p i = map_option (op_MakeString (env_ops env)) (ir_string p i)"

definition ir_value :: "('v, 'a, 'e) env \<Rightarrow> policy \<Rightarrow> ('v, 'a, 'e) State \<Rightarrow> operand \<Rightarrow> 'v option option" where
  "ir_value env p s x = (case x of
     OpLocal v \<Rightarrow> Some (State_Local s v)
   | OpBool b \<Rightarrow> Some (Some (op_MakeBoolean (env_ops env) b))
   | OpStringIndex i \<Rightarrow> map_option Some (ir_string_value env p i)
   | OpOther \<Rightarrow> None)"

definition ir_assign :: "('v, 'a, 'e) env \<Rightarrow> policy \<Rightarrow> int \<Rightarrow> operand \<Rightarrow> ('v, 'a, 'e) State \<Rightarrow> ('v, 'a, 'e) State option" where
  "ir_assign env p target x s = (case x of
     OpLocal v \<Rightarrow> Some (State_SetLocal target v s)
   | _ \<Rightarrow> map_option (\<lambda>v. State_SetValue target v s) (ir_value env p s x))"

text \<open>A test that may fail with an error: it stops unless the answer is the wanted one.\<close>

definition ir_test :: "'e + bool \<Rightarrow> ('v, 'a, 'e) State \<Rightarrow> ('v, 'a, 'e) outcome" where
  "ir_test r s = (case r of Inl e \<Rightarrow> raise (OpError e) s | Inr b \<Rightarrow> if b then continue s else leave 0 s)"

definition ir_equal :: "('v, 'a, 'e) env \<Rightarrow> policy \<Rightarrow> operand \<Rightarrow> operand \<Rightarrow> ('v, 'a, 'e) State \<Rightarrow> ('e + bool) option" where
  "ir_equal env p a b s = do {
     x \<leftarrow> ir_value env p s a;
     y \<leftarrow> ir_value env p s b;
     Some (case (x, y) of
         (None, None) \<Rightarrow> Inr True
       | (Some _, Some _) \<Rightarrow> op_Equal (env_ops env) x y
       | _ \<Rightarrow> Inr False) }"

definition ir_type_check :: "('v option \<Rightarrow> 'e + bool) \<Rightarrow> ('v, 'a, 'e) env \<Rightarrow> policy \<Rightarrow> operand \<Rightarrow> ('v, 'a, 'e) State \<Rightarrow> ('v, 'a, 'e) outcome" where
  "ir_type_check check env p source s = do {
     v \<leftarrow> ir_value env p s source;
     case v of None \<Rightarrow> leave 0 s | Some _ \<Rightarrow> ir_test (check v) s }"

section \<open>Statements without nested code\<close>

definition ir_dot :: "('v, 'a, 'e) env \<Rightarrow> policy \<Rightarrow> operand \<Rightarrow> operand \<Rightarrow> int \<Rightarrow> ('v, 'a, 'e) State \<Rightarrow> ('v, 'a, 'e) outcome" where
  "ir_dot env p source key target s = (case source of
     OpLocal src \<Rightarrow>
       (case State_Local s src of
          None \<Rightarrow> leave 0 (State_Unset target s)
        | Some x \<Rightarrow> do {
            k \<leftarrow> ir_value env p s key;
            case k of
              None \<Rightarrow> leave 0 (State_Unset target s)
            | Some _ \<Rightarrow> do {
                r \<leftarrow> (if State_IsData s src then State_DataGet env (Some x) k else Some (op_Get (env_ops env) (Some x) k));
                case r of
                  Inl e \<Rightarrow> raise (OpError e) s
                | Inr None \<Rightarrow> leave 0 (State_Unset target s)
                | Inr (Some v) \<Rightarrow>
                    let s' = State_SetValue target (Some v) s
                    in continue (if State_IsData s src then State_SetData target s' else s') } })
   | OpOther \<Rightarrow> None
   | _ \<Rightarrow> leave 0 s)"

definition ir_simple :: "('v, 'a, 'e) env \<Rightarrow> policy \<Rightarrow> stmt \<Rightarrow> ('v, 'a, 'e) State \<Rightarrow> ('v, 'a, 'e) outcome" where
  "ir_simple env p stmt s = (let ops = env_ops env; store = (\<lambda>t v. continue (State_SetValue t (Some v) s)) in
   case stmt of
     NopStmt \<Rightarrow> continue s
   | AssignIntStmt value target \<Rightarrow> store target (op_MakeNumberInt ops value)
   | AssignVarStmt source target \<Rightarrow> do { s \<leftarrow> ir_assign env p target source s; continue s }
   | AssignVarOnceStmt source target \<Rightarrow>
       (case State_Local s target of
          None \<Rightarrow> do { s \<leftarrow> ir_assign env p target source s; continue s }
        | Some t \<Rightarrow> do {
            v \<leftarrow> ir_value env p s source;
            case v of
              None \<Rightarrow> raise ErrVarAssignConflict s
            | Some _ \<Rightarrow> (case op_Equal ops v (Some t) of
                Inl e \<Rightarrow> raise (OpError e) s
              | Inr eq \<Rightarrow> if eq then continue s else raise ErrVarAssignConflict s) })
   | BreakStmt index \<Rightarrow> leave index s
   | ReturnLocalStmt source \<Rightarrow> continue (State_SetReturn source s)
   | DotStmt source key target \<Rightarrow> ir_dot env p source key target s
   | EqualStmt a b \<Rightarrow> do { r \<leftarrow> ir_equal env p a b s; ir_test r s }
   | NotEqualStmt a b \<Rightarrow> do {
       r \<leftarrow> ir_equal env p a b s;
       case r of Inl e \<Rightarrow> Some ((True, 0, Some (OpError e)), s) | Inr eq \<Rightarrow> ir_test (Inr (\<not> eq)) s }
   | IsArrayStmt source \<Rightarrow> ir_type_check (op_IsArray ops) env p source s
   | IsSetStmt source \<Rightarrow> ir_type_check (op_IsSet ops) env p source s
   | IsObjectStmt source \<Rightarrow> ir_type_check (op_IsObject ops) env p source s
   | IsDefinedStmt source \<Rightarrow> ir_test (Inr (State_Local s source \<noteq> None)) s
   | IsUndefinedStmt source \<Rightarrow> ir_test (Inr (State_Local s source = None)) s
   | MakeNullStmt target \<Rightarrow> store target (op_MakeNull ops)
   | MakeNumberIntStmt value target \<Rightarrow> store target (op_MakeNumberInt ops value)
   | MakeNumberRefStmt index target \<Rightarrow> do { n \<leftarrow> ir_string p index; store target (op_MakeNumberRef ops n) }
   | MakeArrayStmt capacity target \<Rightarrow> store target (op_MakeArray ops capacity)
   | MakeSetStmt target \<Rightarrow> store target (op_MakeSet ops)
   | MakeObjectStmt target \<Rightarrow> store target (op_MakeObject ops)
   | LenStmt source target \<Rightarrow> do {
       v \<leftarrow> ir_value env p s source;
       case op_Len ops v of Inl e \<Rightarrow> raise (OpError e) s | Inr n \<Rightarrow> store target n }
   | ArrayAppendStmt value array \<Rightarrow> do {
       v \<leftarrow> ir_value env p s value;
       case op_ArrayAppend ops (State_Local s array) v of
         Inl e \<Rightarrow> raise (OpError e) s
       | Inr (a, changed) \<Rightarrow> continue (if changed then State_SetValue array a s else s) }
   | SetAddStmt value set' \<Rightarrow> do {
       v \<leftarrow> ir_value env p s value;
       case op_SetAdd ops (State_Local s set') v of Inl e \<Rightarrow> raise (OpError e) s | Inr n \<Rightarrow> store set' n }
   | ObjectInsertStmt key value obj \<Rightarrow> do {
       k \<leftarrow> ir_value env p s key;
       v \<leftarrow> ir_value env p s value;
       insert_object env obj (State_Local s obj) k v s }
   | ObjectInsertOnceStmt key value obj \<Rightarrow> do {
       k \<leftarrow> ir_value env p s key;
       v \<leftarrow> ir_value env p s value;
       case op_ObjectGet ops (State_Local s obj) k of
         Inl e \<Rightarrow> raise (OpError e) s
       | Inr None \<Rightarrow> insert_object env obj (State_Local s obj) k v s
       | Inr (Some old) \<Rightarrow> (case op_Equal ops v (Some old) of
           Inl e \<Rightarrow> raise (OpError e) s
         | Inr eq \<Rightarrow> if eq then insert_object env obj (State_Local s obj) k v s else raise ErrObjectInsertConflict s) }
   | ObjectMergeStmt a b target \<Rightarrow>
       (case (State_Local s a, State_Local s b) of
          (None, _) \<Rightarrow> continue (State_SetLocal target b s)
        | (Some _, None) \<Rightarrow> continue (State_SetLocal target a s)
        | (Some x, Some y) \<Rightarrow> (case op_IsObject ops (Some x) of
            Inl e \<Rightarrow> raise (OpError e) s
          | Inr False \<Rightarrow> raise ErrObjectInsertConflict s
          | Inr True \<Rightarrow> (case op_IsObject ops (Some y) of
              Inl e \<Rightarrow> raise (OpError e) s
            | Inr False \<Rightarrow> raise ErrObjectInsertConflict s
            | Inr True \<Rightarrow> (case op_ObjectMerge ops x y of Inl e \<Rightarrow> raise (OpError e) s | Inr m \<Rightarrow> store target m))))
   | ResetLocalStmt target \<Rightarrow> continue (State_Unset target s)
   | ResultSetAddStmt value \<Rightarrow>
       (case State_Local s value of
          None \<Rightarrow> continue s
        | Some v \<Rightarrow> (case op_SetAdd ops (Some (g_ResultSet (s_Globals s))) (Some v) of
            Inl e \<Rightarrow> raise (OpError e) s
          | Inr n \<Rightarrow> continue (map_globals (\<lambda>g. g\<lparr>g_ResultSet := n\<rparr>) s)))
   | _ \<Rightarrow> None)"

section \<open>Blocks\<close>

fun ir_loop :: "('v, 'a, 'e) env \<Rightarrow> ('v, 'a, 'e) ir_executor \<Rightarrow> nat \<Rightarrow> int \<Rightarrow> stmt list \<Rightarrow> ('v, 'a, 'e) State \<Rightarrow>
    ((bool \<times> u32 \<times> 'e vm_error option \<times> int) \<times> ('v, 'a, 'e) State) option" where
  "ir_loop env ex i instr [] s = Some ((False, 0, None, instr), s)"
| "ir_loop env ex i instr (x # xs) s =
     (let (err, instr, s) = (if i mod 32 = 0 then let (err, s) = State_Instr env instr s in (err, 0, s)
                             else (None, instr, s))
      in case err of
        Some e \<Rightarrow> Some ((False, 0, Some e, instr), s)
      | None \<Rightarrow> do {
          ((stop, index, err), s) \<leftarrow> ex x s;
          if stop \<or> err \<noteq> None then Some ((stop, index, err, instr + 1), s)
          else ir_loop env ex (Suc i) (instr + 1) xs s })"

definition ir_block :: "('v, 'a, 'e) env \<Rightarrow> ('v, 'a, 'e) ir_executor \<Rightarrow> block \<Rightarrow> ('v, 'a, 'e) State \<Rightarrow> ('v, 'a, 'e) outcome" where
  "ir_block env ex b s = do {
     ((stop, index, err, instr), s) \<leftarrow> ir_loop env ex 0 0 b s;
     let (err2, s) = State_Instr env instr s;
     case err of
       Some e \<Rightarrow> raise e s
     | None \<Rightarrow> (case err2 of
         Some e \<Rightarrow> raise e s
       | None \<Rightarrow> if stop \<and> index \<noteq> 0 then leave (index - 1) s else continue s) }"

text \<open>The blocks of a block statement run until one breaks out of it.\<close>

fun ir_blocks :: "('v, 'a, 'e) env \<Rightarrow> ('v, 'a, 'e) ir_executor \<Rightarrow> block list \<Rightarrow> bool \<times> u32 \<Rightarrow> ('v, 'a, 'e) State \<Rightarrow> ('v, 'a, 'e) outcome" where
  "ir_blocks env ex [] r s = Some ((fst r, snd r, None), s)"
| "ir_blocks env ex (b # bs) r s = do {
     ((stop, n, err), s) \<leftarrow> ir_block env ex b s;
     if err \<noteq> None \<or> stop then Some ((stop, n, err), s) else ir_blocks env ex bs (stop, n) s }"

text \<open>The blocks of a function run until one fails.\<close>

fun ir_function_blocks :: "('v, 'a, 'e) env \<Rightarrow> ('v, 'a, 'e) ir_executor \<Rightarrow> block list \<Rightarrow> ('v, 'a, 'e) State \<Rightarrow> ('v, 'a, 'e) fun_outcome" where
  "ir_function_blocks env ex [] s = Some (None, s)"
| "ir_function_blocks env ex (b # bs) s = do {
     ((_, _, err), s) \<leftarrow> ir_block env ex b s;
     if err \<noteq> None then Some (err, s) else ir_function_blocks env ex bs s }"

fun ir_plan_blocks :: "('v, 'a, 'e) env \<Rightarrow> ('v, 'a, 'e) ir_executor \<Rightarrow> block list \<Rightarrow> ('v, 'a, 'e) State \<Rightarrow> ('v, 'a, 'e) fun_outcome" where
  "ir_plan_blocks env ex [] s = Some (None, s)"
| "ir_plan_blocks env ex (b # bs) s =
     (let (err, s) = State_Instr env 1 s in
      case err of
        Some e \<Rightarrow> Some (Some e, s)
      | None \<Rightarrow> do {
          ((_, _, err), s) \<leftarrow> ir_block env ex b s;
          if err \<noteq> None then Some (err, s) else ir_plan_blocks env ex bs s })"

fun ir_seq :: "('v, 'a, 'e) ir_executor \<Rightarrow> stmt list \<Rightarrow> ('v, 'a, 'e) State \<Rightarrow> ('v, 'a, 'e) outcome" where
  "ir_seq ex [] s = continue s"
| "ir_seq ex (x # xs) s = do {
     ((stop, index, err), s) \<leftarrow> ex x s;
     if stop \<or> err \<noteq> None then Some ((stop, index, err), s) else ir_seq ex xs s }"

definition ir_not :: "('v, 'a, 'e) ir_executor \<Rightarrow> block \<Rightarrow> ('v, 'a, 'e) State \<Rightarrow> ('v, 'a, 'e) outcome" where
  "ir_not ex b s = do {
     ((stop, index, err), s) \<leftarrow> ir_seq ex b s;
     case err of
       Some e \<Rightarrow> raise e s
     | None \<Rightarrow> if \<not> stop then leave 0 s else if index = 0 then continue s else leave (index - 1) s }"

fun ir_scan_loop :: "('v, 'a, 'e) env \<Rightarrow> ('v, 'a, 'e) ir_executor \<Rightarrow> int \<Rightarrow> int \<Rightarrow> block \<Rightarrow> ('v \<times> 'v) list \<Rightarrow> 'e option \<Rightarrow>
    ('v, 'a, 'e) State \<Rightarrow> ('v, 'a, 'e) outcome" where
  "ir_scan_loop env ex key value b [] ierr s = Some ((False, 0, map_option OpError ierr), s)"
| "ir_scan_loop env ex key value b ((k, v) # kvs) ierr s = do {
     ((stop, n, err), s) \<leftarrow> ir_block env ex b (State_SetValue value (Some v) (State_SetValue key (Some k) s));
     if stop \<or> err \<noteq> None then Some ((stop, n, err), s) else ir_scan_loop env ex key value b kvs ierr s }"

definition ir_scan :: "('v, 'a, 'e) env \<Rightarrow> ('v, 'a, 'e) ir_executor \<Rightarrow> int \<Rightarrow> int \<Rightarrow> int \<Rightarrow> block \<Rightarrow> ('v, 'a, 'e) State \<Rightarrow> ('v, 'a, 'e) outcome" where
  "ir_scan env ex source key value b s = do {
     let (kvs, ierr) = op_Iter (env_ops env) (State_Local s source);
     ((stop, n, err), s) \<leftarrow> ir_scan_loop env ex key value b kvs ierr s;
     case err of
       Some e \<Rightarrow> raise e s
     | None \<Rightarrow> if stop \<and> n \<noteq> 0 then leave (n - 1) s else continue s }"

section \<open>Calls\<close>

primrec ir_values :: "('v, 'a, 'e) env \<Rightarrow> policy \<Rightarrow> ('v, 'a, 'e) State \<Rightarrow> operand list \<Rightarrow> 'v option list option" where
  "ir_values env p s [] = Some []"
| "ir_values env p s (x # xs) = do { v \<leftarrow> ir_value env p s x; vs \<leftarrow> ir_values env p s xs; Some (v # vs) }"

fun ir_bind_params :: "int list \<Rightarrow> 'v option list \<Rightarrow> ('v, 'a, 'e) State \<Rightarrow> ('v, 'a, 'e) State option" where
  "ir_bind_params [] vs s = Some s"
| "ir_bind_params (x # xs) [] s = None"
| "ir_bind_params (x # xs) (v # vs) s = ir_bind_params xs vs (State_SetValue x v s)"

text \<open>A function: its result is taken from the table of memoized results or computed and then remembered.\<close>

definition ir_function :: "('v, 'a, 'e) env \<Rightarrow> ('v, 'a, 'e) ir_executor \<Rightarrow> int \<Rightarrow> func \<Rightarrow> ('v, 'a, 'e) State \<Rightarrow> 'v option list \<Rightarrow>
    ('v, 'a, 'e) fun_outcome" where
  "ir_function env ex index fn s args = do {
     funArgs \<leftarrow> args_slice args 2 (length (fn_Params fn));
     hit \<leftarrow> (if isHashable env funArgs then State_MemoizeGet env s index funArgs else Some None);
     case hit of
       Some (Some v) \<Rightarrow> Some (None, State_SetReturnValue (fn_Return fn) (Some v) (count_hit s))
     | Some None \<Rightarrow> Some (None, count_hit s)
     | None \<Rightarrow> do {
         s \<leftarrow> ir_bind_params (fn_Params fn) args (count_miss s);
         (err, s) \<leftarrow> ir_function_blocks env ex (fn_Blocks fn) s;
         s \<leftarrow> (if isHashable env funArgs then memoize_result env index funArgs s else Some s);
         Some (err, s) } }"

definition ir_builtin :: "builtin_env \<Rightarrow> ('v, 'a, 'e) env \<Rightarrow> gostring \<Rightarrow> ('v, 'a, 'e) State \<Rightarrow> ('v, 'a, 'e) State \<Rightarrow> 'v option list \<Rightarrow>
    ('v, 'a, 'e) fun_outcome" where
  "ir_builtin be env name outer inner args = (case specializedBuiltins be name of
     Some num \<Rightarrow> env_specialized env num args inner
   | None \<Rightarrow>
       if name = str ''rego.compile'' then env_regoCompile env outer args inner
       else do {
         r \<leftarrow> builtin_args env args;
         case r of
           Inl e \<Rightarrow> Some (Some (OpError e), inner)
         | Inr None \<Rightarrow> Some (None, inner)
         | Inr (Some a) \<Rightarrow>
             let relation = snd (lookup_builtin be name);
                 inner = (if relation then State_SetReturnValue Unused (Some (op_MakeArray (env_ops env) 0)) inner else inner)
             in case find_builtin env name of
               None \<Rightarrow> Some (Some (ErrBuiltinNotFound name), inner)
             | Some (impl, bi) \<Rightarrow> builtin_run env relation impl bi a inner })"

text \<open>The functions of a policy are numbered: the builtins first.  A call by name goes to the number of the
  name.\<close>

definition ir_names :: "policy \<Rightarrow> gostring list" where
  "ir_names p = po_BuiltinFuncs p @ map fn_Name (po_Funcs p)"

fun position :: "'x \<Rightarrow> 'x list \<Rightarrow> nat option" where
  "position x [] = None"
| "position x (y # ys) = (if x = y then Some 0 else map_option Suc (position x ys))"

definition ir_apply :: "builtin_env \<Rightarrow> ('v, 'a, 'e) env \<Rightarrow> policy \<Rightarrow> ('v, 'a, 'e) ir_executor \<Rightarrow> nat \<Rightarrow> ('v, 'a, 'e) State \<Rightarrow>
    ('v, 'a, 'e) State \<Rightarrow> 'v option list \<Rightarrow> ('v, 'a, 'e) fun_outcome" where
  "ir_apply be env p ex i outer inner args =
     (let nb = length (po_BuiltinFuncs p) in
      if i < nb then ir_builtin be env (po_BuiltinFuncs p ! i) outer inner args
      else ir_function env ex (int i) (po_Funcs p ! (i - nb)) inner args)"

definition ir_call :: "builtin_env \<Rightarrow> ('v, 'a, 'e) env \<Rightarrow> policy \<Rightarrow> ('v, 'a, 'e) ir_executor \<Rightarrow> gostring \<Rightarrow> operand list \<Rightarrow> int \<Rightarrow>
    ('v, 'a, 'e) State \<Rightarrow> ('v, 'a, 'e) outcome" where
  "ir_call be env p ex name args target s = do {
     vs \<leftarrow> ir_values env p s args;
     i \<leftarrow> position name (ir_names p);
     (err, inner) \<leftarrow> ir_apply be env p ex i s (State_New env s) vs;
     let s = with_globals_of s inner;
     case err of
       Some e \<Rightarrow> raise e s
     | None \<Rightarrow> do {
         let (ret, defined) = State_Return inner;
         let result = (if defined then State_Local inner ret else None);
         (err, s) \<leftarrow> record_call env (int i) result s;
         case err of
           Some e \<Rightarrow> raise e s
         | None \<Rightarrow> if defined then continue (State_SetValue target result s) else leave 0 s } }"

primrec ir_path :: "('v, 'a, 'e) env \<Rightarrow> policy \<Rightarrow> ('v, 'a, 'e) State \<Rightarrow> operand list \<Rightarrow> ('e + gostring list) option" where
  "ir_path env p s [] = Some (Inr [])"
| "ir_path env p s (x # xs) = do {
     v \<leftarrow> ir_value env p s x;
     a \<leftarrow> op_ToAST (env_ops env) v;
     case a of
       Inl e \<Rightarrow> Some (Inl e)
     | Inr a \<Rightarrow> do {
         y \<leftarrow> ast_String (env_ops env) a;
         r \<leftarrow> ir_path env p s xs;
         case r of Inl e \<Rightarrow> Some (Inl e) | Inr ys \<Rightarrow> Some (Inr (y # ys)) } }"

definition ir_call_dynamic :: "('v, 'a, 'e) env \<Rightarrow> policy \<Rightarrow> ('v, 'a, 'e) ir_executor \<Rightarrow> int list \<Rightarrow> int \<Rightarrow> operand list \<Rightarrow>
    ('v, 'a, 'e) State \<Rightarrow> ('v, 'a, 'e) outcome" where
  "ir_call_dynamic env p ex args target path s = do {
     let vs = map (State_Local s) args;
     r \<leftarrow> ir_path env p s path;
     case r of
       Inl e \<Rightarrow> raise (OpError e) s
     | Inr segs \<Rightarrow> (case position segs (map fn_Path (po_Funcs p)) of
         None \<Rightarrow> (case externalCall env s segs vs of
             Inl e \<Rightarrow> raise e s
           | Inr (v, defined, mapping) \<Rightarrow>
               if \<not> mapping then leave 0 s
               else if \<not> defined then leave 3 s
               else continue (State_SetValue target v s))
       | Some j \<Rightarrow> do {
           (err, inner) \<leftarrow> ir_function env ex (int (length (po_BuiltinFuncs p) + j)) (po_Funcs p ! j) (State_New env s) vs;
           let s = with_globals_of s inner;
           case err of
             Some e \<Rightarrow> raise e s
           | None \<Rightarrow>
               let (ret, defined) = State_Return inner
               in if defined then continue (State_SetValue target (State_Local inner ret) s) else leave 3 s }) }"

section \<open>With\<close>

text \<open>\<open>ir_upsert\<close> replaces the value at a path of an object, creating objects where there are none.\<close>

definition ir_child :: "('v, 'a, 'e) ops \<Rightarrow> 'v option \<Rightarrow> ('e + 'v) option" where
  "ir_child ops child = (case child of
     None \<Rightarrow> Some (Inr (op_MakeObject ops))
   | Some c \<Rightarrow> (case op_IsObject ops (Some c) of
       Inl e \<Rightarrow> Some (Inl e)
     | Inr True \<Rightarrow> op_CopyShallow ops (Some c)
     | Inr False \<Rightarrow> Some (Inr (op_MakeObject ops))))"

definition ir_insert :: "('v, 'a, 'e) ops \<Rightarrow> 'v option \<Rightarrow> 'v \<Rightarrow> 'v option \<Rightarrow> ('e + 'v option) option" where
  "ir_insert ops obj key v = map_option (map_sum id fst) (op_ObjectInsert ops obj (Some key) v)"

fun ir_upsert :: "('v, 'a, 'e) env \<Rightarrow> policy \<Rightarrow> int list \<Rightarrow> 'v option option \<Rightarrow> 'v option \<Rightarrow> ('e + 'v option) option" where
  "ir_upsert env p [] v obj = Some (Inr obj)"
| "ir_upsert env p (k # ks) v obj = do {
     key \<leftarrow> ir_string_value env p k;
     if ks = [] then do { v \<leftarrow> v; ir_insert (env_ops env) obj key v }
     else (case op_Get (env_ops env) obj (Some key) of
         Inl e \<Rightarrow> Some (Inl e)
       | Inr child \<Rightarrow>
           and_then (ir_child (env_ops env) child) (\<lambda>c.
           and_then (ir_upsert env p ks v (Some c)) (\<lambda>c.
             ir_insert (env_ops env) obj key c))) }"

definition ir_with_value :: "('v, 'a, 'e) env \<Rightarrow> policy \<Rightarrow> int \<Rightarrow> int list \<Rightarrow> operand \<Rightarrow> ('v, 'a, 'e) State \<Rightarrow>
    ('e + ('v, 'a, 'e) State) option" where
  "ir_with_value env p local path value s =
     (if path = [] then map_option Inr (ir_assign env p local value s)
      else
        and_then (case State_Local s local of
            None \<Rightarrow> Some (Inr (op_MakeObject (env_ops env)))
          | Some v \<Rightarrow> ir_child (env_ops env) (Some v)) (\<lambda>root.
        and_then (ir_upsert env p path (ir_value env p s value) (Some root)) (\<lambda>v.
          Some (Inr (State_SetValue local v s)))))"

text \<open>The local is replaced for the time of the block, and results memoized in the block are forgotten.  A
  break inside the block leaves only the block.\<close>

definition ir_with :: "('v, 'a, 'e) env \<Rightarrow> policy \<Rightarrow> ('v, 'a, 'e) ir_executor \<Rightarrow> int \<Rightarrow> int list \<Rightarrow> operand \<Rightarrow> block \<Rightarrow>
    ('v, 'a, 'e) State \<Rightarrow> ('v, 'a, 'e) outcome" where
  "ir_with env p ex local path value b s = do {
     let s1 = State_MemoizePush s;
     r \<leftarrow> ir_with_value env p local path value s1;
     (res, s2) \<leftarrow> (case r of
         Inl e \<Rightarrow> raise (OpError e) s1
       | Inr s \<Rightarrow> do {
           ((stop, index, err), s) \<leftarrow> ir_seq ex b s;
           case err of Some e \<Rightarrow> raise e s | None \<Rightarrow> if stop then leave 0 s else continue s });
     Some (res, State_MemoizePop (State_SetValue local (State_Local s local) s2)) }"

section \<open>Programs\<close>

definition ir_step :: "builtin_env \<Rightarrow> ('v, 'a, 'e) env \<Rightarrow> policy \<Rightarrow> ('v, 'a, 'e) ir_executor \<Rightarrow> ('v, 'a, 'e) ir_executor" where
  "ir_step be env p ex stmt s = (case stmt of
     ScanStmt source key value b \<Rightarrow> ir_scan env ex source key value b s
   | BlockStmt bs \<Rightarrow> ir_blocks env ex bs (False, 0) s
   | NotStmt b \<Rightarrow> ir_not ex b s
   | CallDynamicStmt args result path \<Rightarrow> ir_call_dynamic env p ex args result path s
   | CallStmt name args result \<Rightarrow> ir_call be env p ex name args result s
   | WithStmt local path value b \<Rightarrow> ir_with env p ex local path value b s
   | _ \<Rightarrow> ir_simple env p stmt s)"

primrec ir_exec :: "builtin_env \<Rightarrow> ('v, 'a, 'e) env \<Rightarrow> policy \<Rightarrow> nat \<Rightarrow> ('v, 'a, 'e) ir_executor" where
  "ir_exec be env p 0 = (\<lambda>stmt s. None)"
| "ir_exec be env p (Suc fuel) = ir_step be env p (ir_exec be env p fuel)"

definition ir_plan :: "builtin_env \<Rightarrow> ('v, 'a, 'e) env \<Rightarrow> policy \<Rightarrow> nat \<Rightarrow> plan \<Rightarrow> ('v, 'a, 'e) State \<Rightarrow> ('v, 'a, 'e) fun_outcome" where
  "ir_plan be env p fuel pl s = ir_plan_blocks env (ir_exec be env p fuel) (pl_Blocks pl) s"

end
