(* ===== verification/Program_Layout.thy ===== *)
theory Program_Layout
  imports IR_Semantics
begin

text \<open>
  Where the parts of a policy end up in the executable the compiler makes of it: the string table, the
  table of functions (builtins first, then the functions in order) and the plans.  The hypotheses are that
  compilation succeeds and that the executable stays below $2^{24}$ bytes, the range of the length field of
  a statement.
\<close>

section \<open>Filling the table of functions\<close>

definition partial_table :: "nat \<Rightarrow> bytes list \<Rightarrow> bytes" where
  "partial_table n es = be32 (word_of_nat n) @ words (map word_of_nat (offsets_from (4 + 4 * n) (map length es))) @
     replicate (4 * (n - length es)) 0 @ concat es"

lemma length_partial_table: "length es \<le> n \<Longrightarrow> length (partial_table n es) = 4 + 4 * n + length (concat es)"
  by (simp add: partial_table_def)

lemma offsets_from_snoc: "offsets_from s (ls @ [l]) = offsets_from s ls @ [s + sum_list ls]"
  by (induction ls arbitrary: s) (simp_all add: add.assoc)

lemma partial_table_step:
  assumes "length es < n" and "4 + 4 * n < 2 ^ 32"
  obtains d where "putOffsetIndex (partial_table n es) 4 (int (length es)) (word_of_nat (length (partial_table n es))) = Some d"
    and "\<And>e. d @ e = partial_table n (es @ [e])"
    and "length d = length (partial_table n es)"
proof
  let ?p = "be32 (word_of_nat n) @ words (map word_of_nat (offsets_from (4 + 4 * n) (map length es)))"
  let ?z = "replicate (4 * (n - Suc (length es))) (0 :: u8)"
  let ?pos = "length (partial_table n es)"
  let ?d = "?p @ be32 (word_of_nat ?pos) @ ?z @ concat es"
  have "4 * (n - length es) = 4 + 4 * (n - Suc (length es))" using assms(1) by simp
  then have z: "replicate (4 * (n - length es)) (0 :: u8) = replicate 4 0 @ ?z" by (simp only: replicate_add)
  have off: "unat (4 + word_of_int (int (length es) * 4) :: u32) = 4 + 4 * length es"
    using assms by (subst table_offset) simp_all
  show "putOffsetIndex (partial_table n es) 4 (int (length es)) (word_of_nat ?pos) = Some ?d"
    unfolding putOffsetIndex_def off unfolding partial_table_def z
    using put_at_append [of ?p "4 + 4 * length es" "replicate 4 0" "?z @ concat es" "word_of_nat ?pos"]
    by (simp add: partial_table_def z)
  have pos: "?pos = 4 + 4 * n + length (concat es)"
    using assms(1) by (simp add: length_partial_table)
  show "?d @ e = partial_table n (es @ [e])" for e
    unfolding pos by (simp add: partial_table_def offsets_from_snoc length_concat [symmetric])
  have "4 * Suc (length es) + 4 * (n - Suc (length es)) = 4 * n" using assms(1) by simp
  then show "length ?d = ?pos"
    unfolding pos by simp
qed

lemma partial_table_full: "length es = n \<Longrightarrow> partial_table n es = be32 (word_of_nat n) @ table 4 es"
  by (simp add: partial_table_def table_def)

lemma partial_table_empty: "appendOffsetIndex (appendUint32 [] (word_of_nat n)) n = partial_table n []"
  by (simp add: partial_table_def append_defs)

section \<open>Builtins\<close>

definition builtin_code :: "builtin_env \<Rightarrow> gostring \<Rightarrow> bytes" where
  "builtin_code be name =
     (case specializedBuiltins be name of Some num \<Rightarrow> specializedBuiltin_Write num | None \<Rightarrow> []) @
     (if name = str ''rego.compile'' then specializedBuiltinRegoCompile_Write else []) @
     the (builtin_Write name (snd (lookup_builtin be name)))"

lemma encode_builtin_eq:
  "encode_builtin be name (snd (lookup_builtin be name)) d = Some (d @ builtin_code be name)"
  by (simp add: encode_builtin_def builtin_code_def builtin_Write_eq Let_def split: option.split)

text \<open>The function index after the builtins and functions before number \<open>k\<close>.\<close>

definition index_of :: "gostring list \<Rightarrow> gostring \<rightharpoonup> int" where
  "index_of names = (\<lambda>name. map_option int (position name names))"

lemma position_snoc: "position x (ys @ [y]) = (case position x ys of Some i \<Rightarrow> Some i | None \<Rightarrow> if x = y then Some (length ys) else None)"
  by (induction ys) (auto split: option.split)

lemma position_None: "position x ys = None \<longleftrightarrow> x \<notin> set ys"
  by (induction ys) auto

lemma position_Some: "position x ys = Some i \<Longrightarrow> i < length ys \<and> ys ! i = x"
  by (induction ys arbitrary: i) (auto split: if_splits)

lemma position_nth: "distinct ys \<Longrightarrow> i < length ys \<Longrightarrow> position (ys ! i) ys = Some i"
proof (induction ys arbitrary: i)
  case (Cons y ys)
  then show ?case by (cases i) (auto simp: nth_mem)
qed simp

lemma position_append: "position x ys = Some i \<Longrightarrow> position x (ys @ zs) = Some i"
  by (induction ys arbitrary: i) (auto split: if_splits)

lemma index_of_Nil: "Map.empty = index_of []"
  by (simp add: index_of_def)

lemma index_of_snoc: "name \<notin> set names \<Longrightarrow> (index_of names)(name \<mapsto> int (length names)) = index_of (names @ [name])"
  by (auto simp: index_of_def position_snoc fun_eq_iff position_None [symmetric] split: option.split)

lemma compile_builtins_layout:
  assumes "compile_builtins be 4 (length es) decls (index_of names) (partial_table n es) = Some (Inr (d, fi))"
    and "length es + length decls \<le> n" and "4 + 4 * n < 2 ^ 32"
    and "length names = length es" and "distinct (names @ decls)"
  shows "d = partial_table n (es @ map (builtin_code be) decls) \<and> fi = index_of (names @ decls)"
  using assms
proof (induction decls arbitrary: es names)
  case (Cons name decls)
  obtain d1 where d1: "putOffsetIndex (partial_table n es) 4 (int (length es)) (word_of_nat (length (partial_table n es))) = Some d1"
    "\<And>e. d1 @ e = partial_table n (es @ [e])"
    by (rule partial_table_step [of es n]) (use Cons.prems in auto)
  have "name \<notin> set names" using Cons.prems(5) by simp
  then have fi: "(index_of names)(name \<mapsto> int (length es)) = index_of (names @ [name])"
    using index_of_snoc [of name names] Cons.prems(4) by simp
  have "fst (lookup_builtin be name)" and
    rec: "compile_builtins be 4 (length (es @ [builtin_code be name])) decls (index_of (names @ [name]))
       (partial_table n (es @ [builtin_code be name])) = Some (Inr (d, fi))"
    using Cons.prems(1) d1 encode_builtin_eq [of be name d1] fi
    by (auto simp: Let_def split: prod.splits if_splits)
  have "d = partial_table n ((es @ [builtin_code be name]) @ map (builtin_code be) decls) \<and> fi = index_of ((names @ [name]) @ decls)"
    using Cons.prems rec by (intro Cons.IH) auto
  then show ?case by simp
qed simp

section \<open>Functions\<close>

text \<open>The code of function number \<open>i\<close> was compiled with an index that knows only what comes before it.\<close>

definition index_ok :: "policy \<Rightarrow> (gostring \<rightharpoonup> int) \<Rightarrow> bool" where
  "index_ok p fi \<longleftrightarrow> (\<forall>name i. fi name = Some i \<longrightarrow> (\<exists>k. position name (ir_names p) = Some k \<and> i = int k))"

lemma index_ok_prefix: "ir_names p = names @ rest \<Longrightarrow> index_ok p (index_of names)"
  by (auto simp: index_ok_def index_of_def dest: position_append)

definition func_code :: "policy \<Rightarrow> func \<Rightarrow> int \<Rightarrow> bytes \<Rightarrow> bool" where
  "func_code p fn i d \<longleftrightarrow> compileFunc (index_of (take (nat i) (ir_names p))) fn i = Some (Inr d)"

lemma compile_functions_layout:
  assumes "compile_functions 4 nb (length es - nb) fns (index_of names) (partial_table n es) = Some (Inr (d, fi))"
    and "nb \<le> length es" and "length es + length fns \<le> n" and "4 + 4 * n < 2 ^ 32"
    and "length names = length es" and "distinct (names @ map fn_Name fns)" and "ir_names p = names @ map fn_Name fns"
  shows "\<exists>ds. d = partial_table n (es @ ds) \<and> fi = index_of (names @ map fn_Name fns) \<and> length ds = length fns \<and>
    (\<forall>j < length fns. func_code p (fns ! j) (int (length es + j)) (ds ! j))"
  using assms
proof (induction fns arbitrary: es names)
  case (Cons fn fns)
  obtain d1 where d1: "putOffsetIndex (partial_table n es) 4 (int (length es)) (word_of_nat (length (partial_table n es))) = Some d1"
    "\<And>e. d1 @ e = partial_table n (es @ [e])"
    by (rule partial_table_step [of es n]) (use Cons.prems in auto)
  have i: "length es - nb + nb = length es" using Cons.prems(2) by simp
  obtain data where data: "compileFunc (index_of names) fn (int (length es)) = Some (Inr data)" and
    rec: "compile_functions 4 nb (Suc (length es - nb)) fns ((index_of names)(fn_Name fn \<mapsto> int (length es))) (d1 @ data) = Some (Inr (d, fi))"
    using Cons.prems(1) d1(1) unfolding compile_functions.simps i
    by (auto simp del: of_nat_add split: option.splits sum.splits)
  have "fn_Name fn \<notin> set names" using Cons.prems(6) by simp
  then have fi: "(index_of names)(fn_Name fn \<mapsto> int (length es)) = index_of (names @ [fn_Name fn])"
    using index_of_snoc [of "fn_Name fn" names] Cons.prems(5) by simp
  have "\<exists>ds. d = partial_table n ((es @ [data]) @ ds) \<and> fi = index_of ((names @ [fn_Name fn]) @ map fn_Name fns) \<and> length ds = length fns \<and>
    (\<forall>j < length fns. func_code p (fns ! j) (int (length (es @ [data]) + j)) (ds ! j))"
  proof (rule Cons.IH)
    show "compile_functions 4 nb (length (es @ [data]) - nb) fns (index_of (names @ [fn_Name fn])) (partial_table n (es @ [data])) = Some (Inr (d, fi))"
      using rec Cons.prems(2) unfolding fi d1(2) by (simp add: Suc_diff_le)
  qed (use Cons.prems in auto)
  then obtain ds where ds: "d = partial_table n (es @ data # ds)" "fi = index_of (names @ map fn_Name (fn # fns))"
    "length ds = length fns" "\<forall>j < length fns. func_code p (fns ! j) (int (length es + Suc j)) (ds ! j)"
    by auto
  have "func_code p fn (int (length es)) data"
    using data Cons.prems(5,7) by (simp add: func_code_def)
  then have "\<forall>j < length (fn # fns). func_code p ((fn # fns) ! j) (int (length es + j)) ((data # ds) ! j)"
    using ds(4) by (auto simp: less_Suc_eq_0_disj algebra_simps)
  then show ?case using ds by (intro exI [of _ "data # ds"]) simp
qed auto

lemma compileFuncs_layout:
  assumes "compileFuncs be p Map.empty = Some (Inr (d, fi))" and "4 + 4 * length (ir_names p) < 2 ^ 32"
    and "distinct (ir_names p)"
  obtains ds where "d = be32 (word_of_nat (length (ir_names p))) @ table 4 (map (builtin_code be) (po_BuiltinFuncs p) @ ds)"
    and "fi = index_of (ir_names p)" and "length ds = length (po_Funcs p)"
    and "\<And>j. j < length (po_Funcs p) \<Longrightarrow>
      func_code p (po_Funcs p ! j) (int (length (po_BuiltinFuncs p) + j)) (ds ! j)"
proof -
  let ?n = "length (po_BuiltinFuncs p) + length (po_Funcs p)"
  have n: "length (ir_names p) = ?n" by (simp add: ir_names_def)
  let ?bs = "map (builtin_code be) (po_BuiltinFuncs p)"
  obtain d1 fi1 where b: "compile_builtins be 4 (length ([] :: bytes list)) (po_BuiltinFuncs p) (index_of []) (partial_table ?n []) = Some (Inr (d1, fi1))"
    and f: "compile_functions 4 (length (po_BuiltinFuncs p)) 0 (po_Funcs p) fi1 d1 = Some (Inr (d, fi))"
    using assms(1) unfolding compileFuncs_def Let_def partial_table_empty index_of_Nil
    by (auto simp: and_then_Inr append_defs)
  have d1: "d1 = partial_table ?n ?bs" "fi1 = index_of (po_BuiltinFuncs p)"
    using compile_builtins_layout [OF b] assms n by (auto simp: ir_names_def)
  have "\<exists>ds. d = partial_table ?n (?bs @ ds) \<and> fi = index_of (po_BuiltinFuncs p @ map fn_Name (po_Funcs p)) \<and>
     length ds = length (po_Funcs p) \<and>
    (\<forall>j < length (po_Funcs p). func_code p (po_Funcs p ! j) (int (length ?bs + j)) (ds ! j))"
    using f assms n unfolding d1
    by (intro compile_functions_layout [where nb = "length (po_BuiltinFuncs p)"]) (auto simp: ir_names_def)
  then obtain ds where "d = partial_table ?n (?bs @ ds)" "fi = index_of (ir_names p)" "length ds = length (po_Funcs p)"
    "\<forall>j < length (po_Funcs p). func_code p (po_Funcs p ! j) (int (length (po_BuiltinFuncs p) + j)) (ds ! j)"
    by (auto simp: ir_names_def)
  then show thesis
    using partial_table_full [of "?bs @ ds" ?n] n by (intro that [of ds]) auto
qed

section \<open>Sizes of what was written\<close>

text \<open>The encoders check the size they computed, so a successful encoding has that size whatever was in it.\<close>

lemma put_at_length: "put_at d n v = Some d' \<Longrightarrow> length d' = length d"
  by (auto simp: put_at_def split: if_splits)

lemma putOffsetIndex_length: "putOffsetIndex d off i v = Some d' \<Longrightarrow> length d' = length d"
  by (simp add: putOffsetIndex_def put_at_length)

lemma putUint32_length: "putUint32 d off v = Some d' \<Longrightarrow> length d' = length d"
  by (auto simp: putUint32_def put_at_length split: if_splits)

lemma strings_Write_length: "strings_Write ss = Some d \<Longrightarrow> 4 + 4 * length ss \<le> length d"
  using foldl_sum_length [of "\<lambda>s. 4 + length s" "4 + appendOffsetSize (int (length ss))" ss]
  by (auto simp: strings_Write_def Let_def appendStringSize_def appendOffsetSize_def bind_eq_Some_conv split: if_splits)

lemma plans_Write_length: "plans_Write ps = Some d \<Longrightarrow> length d = 4 + 4 * length ps + length (concat ps)"
  by (auto simp: plans_Write_def Let_def foldl_sum_length appendOffsetSize_def bind_eq_Some_conv length_concat split: if_splits)

lemma blocks_Write_length: "blocks_Write bs = Some d \<Longrightarrow> length d = 8 + 4 * length bs + length (concat bs)"
  by (auto simp: blocks_Write_def Let_def foldl_sum_length appendOffsetSize_def bind_eq_Some_conv length_concat
      dest!: putUint32_length split: if_splits)

lemma function_Write_length:
  assumes "function_Write name index params ret blocks path = Some d"
  shows "length d = length (function_layout name index params ret blocks path)"
proof -
  have "int (length d) = 4 + 4 + appendOffsetSize 4 + appendStringSize name + 4 + appendLocalArraySize params + 4 +
         appendStringArraySize path + int (length blocks)"
    using assms by (auto simp: function_Write_def Let_def bind_eq_Some_conv dest!: putUint32_length split: if_splits)
  moreover have "appendStringArraySize path = int (length (enc_path path))"
    using foldl_sum_length [of "\<lambda>s. 4 + length s" "4 + 4 * int (length path)" path]
    by (simp add: appendStringArraySize_def appendStringSize_def appendOffsetSize_def length_concat comp_def mult.commute)
  ultimately show ?thesis
    by (simp add: function_layout_def Let_def appendStringSize_def appendOffsetSize_def appendLocalArraySize_def)
qed

lemma compile_builtins_length:
  "compile_builtins be off i decls fi d = Some (Inr (d', fi')) \<Longrightarrow> length d \<le> length d'"
proof (induction decls arbitrary: i fi d)
  case (Cons name decls)
  obtain impl relation where l: "lookup_builtin be name = (impl, relation)" by (cases "lookup_builtin be name")
  with Cons.prems obtain d1 d2 where "putOffsetIndex d off (int i) (word_of_nat (length d)) = Some d1"
    "encode_builtin be name relation d1 = Some d2"
    "compile_builtins be off (Suc i) decls (fi(name \<mapsto> int i)) d2 = Some (Inr (d', fi'))"
    by (auto simp: and_then_Inr bind_eq_Some_conv split: if_splits)
  moreover from this(2) have "length d1 \<le> length d2"
    by (auto simp: encode_builtin_def Let_def bind_eq_Some_conv split: option.splits if_splits)
  ultimately show ?case using Cons.IH by (fastforce dest: putOffsetIndex_length)
qed simp

lemma compile_functions_length:
  "compile_functions off nb i fns fi d = Some (Inr (d', fi')) \<Longrightarrow> length d \<le> length d'"
proof (induction fns arbitrary: i fi d)
  case (Cons fn fns)
  from Cons.prems obtain d1 where d1: "putOffsetIndex d off (int (i + nb)) (word_of_nat (length d)) = Some d1"
    by (auto simp: and_then_Inr)
  moreover from Cons.prems d1 obtain data where
    "compile_functions off nb (Suc i) fns (fi(fn_Name fn \<mapsto> int (i + nb))) (d1 @ data) = Some (Inr (d', fi'))"
    by (auto simp del: of_nat_add split: option.splits sum.splits)
  ultimately show ?case using Cons.IH by (fastforce dest: putOffsetIndex_length)
qed simp

lemma compileFuncs_length:
  assumes "compileFuncs be p fi = Some (Inr (d, fi'))"
  shows "4 + 4 * length (ir_names p) \<le> length d"
proof -
  let ?n = "length (po_BuiltinFuncs p) + length (po_Funcs p)"
  obtain d1 fi1 where "compile_builtins be 4 0 (po_BuiltinFuncs p) fi (partial_table ?n []) = Some (Inr (d1, fi1))"
    and "compile_functions 4 (length (po_BuiltinFuncs p)) 0 (po_Funcs p) fi1 d1 = Some (Inr (d, fi'))"
    using assms unfolding compileFuncs_def Let_def partial_table_empty by (auto simp: and_then_Inr append_defs)
  then have "length (partial_table ?n []) \<le> length d"
    using compile_builtins_length compile_functions_length by fastforce
  then show ?thesis by (simp add: partial_table_def ir_names_def)
qed

section \<open>The executable of a policy\<close>

lemma Compile_layout:
  assumes "Compile be p = Some (Inr e)" and "length e < 2 ^ 24" and "distinct (ir_names p)"
  obtains S F P pds ds where
    "strings_Write (po_Strings p) = Some S" "Executable_Strings e = Some (S @ F @ P)"
    "Executable_Functions e = Some (F @ P)"
    "F = be32 (word_of_nat (length (ir_names p))) @ table 4 (map (builtin_code be) (po_BuiltinFuncs p) @ ds)"
    "length ds = length (po_Funcs p)"
    "\<forall>j < length (po_Funcs p). func_code p (po_Funcs p ! j) (int (length (po_BuiltinFuncs p) + j)) (ds ! j)"
    "Executable_Plans e = Some P" "plans_Write pds = Some P"
    "compile_plan_list (index_of (ir_names p)) (po_Plans p) = Some (Inr pds)"
    "Executable_IsValid e = Some True"
    "length e = 24 + length S + length F + length P"
proof -
  obtain S F fi pds P where S: "strings_Write (po_Strings p) = Some S"
    and F: "compileFuncs be p Map.empty = Some (Inr (F, fi))"
    and P: "compile_plan_list fi (po_Plans p) = Some (Inr pds)" "plans_Write pds = Some P"
    and e: "Executable_Write S F P = Some e"
    using assms(1) by (auto simp: Compile_def compileStrings_def compilePlans_def and_then_Inr split: prod.splits)
  have len: "length e = 24 + length S + length F + length P"
    using e by (auto simp: Executable_Write_def Let_def bind_eq_Some_conv headerLength_def split: if_splits)
  then have small: "24 + length S + length F + length P < 2 ^ 32" using assms(2) by simp
  have "4 + 4 * length (ir_names p) < 2 ^ 32" using compileFuncs_length [OF F] small by simp
  from compileFuncs_layout [OF F this assms(3)] obtain ds where ds:
    "F = be32 (word_of_nat (length (ir_names p))) @ table 4 (map (builtin_code be) (po_BuiltinFuncs p) @ ds)"
    "fi = index_of (ir_names p)" "length ds = length (po_Funcs p)"
    "\<And>j. j < length (po_Funcs p) \<Longrightarrow> func_code p (po_Funcs p ! j) (int (length (po_BuiltinFuncs p) + j)) (ds ! j)"
    by blast
  show thesis
    using Executable_read [OF e small] S P ds len by (intro that [of S F P ds pds]) auto
qed

lemma plans_nonempty: "plans_Write pds = Some P \<Longrightarrow> P \<noteq> []"
  using plans_Write_length by fastforce

lemma VM_string_compiled:
  assumes "Compile be p = Some (Inr e)" and "length e < 2 ^ 24" and "distinct (ir_names p)"
  shows "VM_string e i = ir_string p i"
proof -
  obtain S F P pds where S: "strings_Write (po_Strings p) = Some S" "Executable_Strings e = Some (S @ F @ P)"
    "plans_Write pds = Some P" "length e = 24 + length S + length F + length P"
    by (rule Compile_layout [OF assms]) blast
  have small: "4 + 4 * length (po_Strings p) < 2 ^ 32" "length (S @ F @ P) < 2 ^ 32"
    using strings_Write_length [OF S(1)] S(4) assms(2) by auto
  note rd = strings_read [OF S(1) small(2,1)]
  have "strings_bytes (S @ F @ P) i = Some (po_Strings p ! nat i)" if "0 \<le> i" "i < int (length (po_Strings p))"
    using rd(2) [of "nat i"] that plans_nonempty [OF S(3)] by simp
  then show ?thesis
    by (simp add: VM_string_def S(2) rd(1) ir_string_def)
qed

end
