(* ===== verification/Simulation.thy ===== *)
theory Simulation
  imports Program_Layout
begin

text \<open>
  The byte code of a statement does what the statement means.  \<open>sim p st ex\<close> says that the machine step \<open>st\<close>
  executes every compiled statement as \<open>ex\<close> executes the statement itself, with any data after it; the lemmas
  carry this through blocks, loops, calls and \<open>with\<close>, and \<open>statement_sim\<close> closes the induction.
\<close>

section \<open>Ranges of the fields\<close>

definition wf_operand :: "operand \<Rightarrow> bool" where
  "wf_operand x = (case x of OpLocal v \<Rightarrow> 0 \<le> v \<and> v < 2 ^ 24 | OpStringIndex i \<Rightarrow> 0 \<le> i \<and> i < 2 ^ 24 | _ \<Rightarrow> True)"

fun wf_stmt :: "stmt \<Rightarrow> bool" where
  "wf_stmt NopStmt = True"
| "wf_stmt (AssignIntStmt v t) = (wf_int64 v \<and> wf_local t)"
| "wf_stmt (AssignVarOnceStmt x t) = (wf_operand x \<and> wf_local t)"
| "wf_stmt (AssignVarStmt x t) = (wf_operand x \<and> wf_local t)"
| "wf_stmt (ScanStmt a k v b) = (wf_local a \<and> wf_local k \<and> wf_local v \<and> list_all wf_stmt b)"
| "wf_stmt (BlockStmt bs) = list_all (list_all wf_stmt) bs"
| "wf_stmt (BreakStmt i) = True"
| "wf_stmt (NotStmt b) = list_all wf_stmt b"
| "wf_stmt (ReturnLocalStmt a) = wf_local a"
| "wf_stmt (CallDynamicStmt as t path) = (list_all wf_local as \<and> wf_local t \<and> list_all wf_operand path)"
| "wf_stmt (CallStmt f as t) = (list_all wf_operand as \<and> wf_local t)"
| "wf_stmt (DotStmt a k t) = (wf_operand a \<and> wf_operand k \<and> wf_local t)"
| "wf_stmt (EqualStmt a b) = (wf_operand a \<and> wf_operand b)"
| "wf_stmt (NotEqualStmt a b) = (wf_operand a \<and> wf_operand b)"
| "wf_stmt (IsArrayStmt a) = wf_operand a"
| "wf_stmt (IsSetStmt a) = wf_operand a"
| "wf_stmt (IsObjectStmt a) = wf_operand a"
| "wf_stmt (IsDefinedStmt a) = wf_local a"
| "wf_stmt (IsUndefinedStmt a) = wf_local a"
| "wf_stmt (MakeNullStmt t) = wf_local t"
| "wf_stmt (MakeNumberIntStmt v t) = (wf_int64 v \<and> wf_local t)"
| "wf_stmt (MakeNumberRefStmt i t) = (wf_local i \<and> wf_local t)"
| "wf_stmt (MakeArrayStmt c t) = (wf_int32 c \<and> wf_local t)"
| "wf_stmt (MakeSetStmt t) = wf_local t"
| "wf_stmt (MakeObjectStmt t) = wf_local t"
| "wf_stmt (LenStmt a t) = (wf_operand a \<and> wf_local t)"
| "wf_stmt (ArrayAppendStmt v a) = (wf_operand v \<and> wf_local a)"
| "wf_stmt (SetAddStmt v a) = (wf_operand v \<and> wf_local a)"
| "wf_stmt (ObjectInsertOnceStmt k v obj) = (wf_operand k \<and> wf_operand v \<and> wf_local obj)"
| "wf_stmt (ObjectInsertStmt k v obj) = (wf_operand k \<and> wf_operand v \<and> wf_local obj)"
| "wf_stmt (ObjectMergeStmt a b t) = (wf_local a \<and> wf_local b \<and> wf_local t)"
| "wf_stmt (WithStmt l path v b) = (wf_local l \<and> list_all wf_int32 path \<and> wf_operand v \<and> list_all wf_stmt b)"
| "wf_stmt (ResultSetAddStmt v) = wf_local v"
| "wf_stmt (ResetLocalStmt t) = wf_local t"
| "wf_stmt UnsupportedStmt = True"

definition wf_func :: "func \<Rightarrow> bool" where
  "wf_func fn \<longleftrightarrow> list_all wf_local (fn_Params fn) \<and> wf_local (fn_Return fn) \<and> list_all (list_all wf_stmt) (fn_Blocks fn)"

definition wf_policy :: "policy \<Rightarrow> bool" where
  "wf_policy p \<longleftrightarrow> distinct (ir_names p) \<and> list_all wf_func (po_Funcs p) \<and>
     list_all (\<lambda>pl. list_all (list_all wf_stmt) (pl_Blocks pl)) (po_Plans p)"

text \<open>The machine runs the executable compiled from the policy.\<close>

definition runs :: "builtin_env \<Rightarrow> policy \<Rightarrow> ('v, 'a, 'e) env \<Rightarrow> bool" where
  "runs be p env \<longleftrightarrow> Compile be p = Some (Inr (env_executable env)) \<and> length (env_executable env) < 2 ^ 24 \<and> wf_policy p"

section \<open>Operands\<close>

lemma operand_wf:
  "Compiler_localOrConst x = Some lc \<Longrightarrow> wf_operand x \<Longrightarrow> wf_lc lc"
  by (cases x) (auto simp: Compiler_localOrConst_def wf_operand_def wf_lc_def NewLocal_def NewBoolConst_def
      NewStringIndexConst_def localType_def boolConstType_def stringIndexConstType_def split: if_splits)

lemma VM_string_runs: "runs be p env \<Longrightarrow> VM_string (env_executable env) i = ir_string p i"
  using VM_string_compiled [of be p "env_executable env" i] by (simp add: runs_def wf_policy_def)

lemma State_String_compiled: "runs be p env \<Longrightarrow> State_String env i = ir_string_value env p i"
  by (simp add: State_String_def ir_string_value_def VM_string_runs)

lemma operand_value:
  "runs be p env \<Longrightarrow> Compiler_localOrConst x = Some lc \<Longrightarrow> State_Value env s lc = ir_value env p s x"
  by (cases x) (auto simp: Compiler_localOrConst_def State_Value_def ir_value_def NewLocal_def NewBoolConst_def
      NewStringIndexConst_def localType_def boolConstType_def stringIndexConstType_def State_Local_def
      LocalOrConst_BoolConst_def State_String_compiled split: if_splits)

lemma operand_assign:
  "runs be p env \<Longrightarrow> Compiler_localOrConst x = Some lc \<Longrightarrow> State_Set env target lc s = ir_assign env p target x s"
  by (cases x) (auto simp: Compiler_localOrConst_def State_Set_def ir_assign_def ir_value_def NewLocal_def NewBoolConst_def
      NewStringIndexConst_def localType_def boolConstType_def stringIndexConstType_def
      LocalOrConst_BoolConst_def State_String_compiled option.map_comp comp_def split: if_splits)

lemma operands_list:
  "localOrConst_list xs = Some lcs \<Longrightarrow> list_all wf_operand xs \<Longrightarrow> list_all wf_lc lcs \<and> length lcs = length xs"
  by (induction xs arbitrary: lcs) (auto simp: bind_eq_Some_conv operand_wf)

section \<open>Simple statements\<close>

lemmas outcome_defs = continue_def leave_def raise_def

lemmas simple_defs = ir_simple_def Let_def isUndefinedType_def ir_type_check_def ir_test_def State_IsLocalDefined_def
  State_Local_def [symmetric] outcome_defs

lemma bind_same: "(\<And>x. m = Some x \<Longrightarrow> f x = g x) \<Longrightarrow> Option.bind m f = Option.bind m g"
  by (cases m) auto

lemma nop_sim:
  assumes "runs be p env" and "nop_Write = Some d"
  shows "nop_Execute (d @ r) s = ir_simple env p (NopStmt) s"
  by (simp add: nop_Execute_def nop_read [OF assms(2)] ir_simple_def Let_def)

lemma assignInt_sim:
  assumes "runs be p env" and "assignInt_Write value target = Some d" and "wf_int64 value" and "wf_local target"
  shows "assignInt_Execute env (d @ r) s = ir_simple env p (AssignIntStmt value target) s"
  by (simp add: assignInt_Execute_def assignInt_read [OF assms(2) assms(3) assms(4)] ir_simple_def Let_def)

lemma assignVarOnce_sim:
  assumes "runs be p env" and "assignVarOnce_Write lx target = Some d" and "Compiler_localOrConst x = Some lx" and "wf_operand x" and "wf_local target"
  shows "assignVarOnce_Execute env (d @ r) s = ir_simple env p (AssignVarOnceStmt x target) s"
  by (auto simp: assignVarOnce_Execute_def assignVarOnce_read [OF assms(2) operand_wf [OF assms(3,4)] assms(5)] simple_defs operand_value [OF assms(1,3)] operand_assign [OF assms(1,3)] intro!: bind_same split: option.split sum.split bool.split)

lemma assignVar_sim:
  assumes "runs be p env" and "assignVar_Write lx target = Some d" and "Compiler_localOrConst x = Some lx" and "wf_operand x" and "wf_local target"
  shows "assignVar_Execute env (d @ r) s = ir_simple env p (AssignVarStmt x target) s"
  by (simp add: assignVar_Execute_def assignVar_read [OF assms(2) operand_wf [OF assms(3,4)] assms(5)] ir_simple_def Let_def operand_value [OF assms(1,3)] operand_assign [OF assms(1,3)])

lemma breakStmt_sim:
  assumes "runs be p env" and "breakStmt_Write index = Some d"
  shows "breakStmt_Execute (d @ r) s = ir_simple env p (BreakStmt index) s"
  by (simp add: breakStmt_Execute_def breakStmt_read [OF assms(2)] ir_simple_def Let_def)

lemma returnLocal_sim:
  assumes "runs be p env" and "returnLocal_Write source = Some d" and "wf_local source"
  shows "returnLocal_Execute (d @ r) s = ir_simple env p (ReturnLocalStmt source) s"
  by (simp add: returnLocal_Execute_def returnLocal_read [OF assms(2) assms(3)] ir_simple_def Let_def)

lemma isArray_sim:
  assumes "runs be p env" and "isArray_Write lx = Some d" and "Compiler_localOrConst x = Some lx" and "wf_operand x"
  shows "isArray_Execute env (d @ r) s = ir_simple env p (IsArrayStmt x) s"
  by (auto simp: isArray_Execute_def isArray_read [OF assms(2) operand_wf [OF assms(3,4)]] simple_defs operand_value [OF assms(1,3)] operand_assign [OF assms(1,3)] intro!: bind_same split: option.split sum.split bool.split)

lemma isSet_sim:
  assumes "runs be p env" and "isSet_Write lx = Some d" and "Compiler_localOrConst x = Some lx" and "wf_operand x"
  shows "isSet_Execute env (d @ r) s = ir_simple env p (IsSetStmt x) s"
  by (auto simp: isSet_Execute_def isSet_read [OF assms(2) operand_wf [OF assms(3,4)]] simple_defs operand_value [OF assms(1,3)] operand_assign [OF assms(1,3)] intro!: bind_same split: option.split sum.split bool.split)

lemma isObject_sim:
  assumes "runs be p env" and "isObject_Write lx = Some d" and "Compiler_localOrConst x = Some lx" and "wf_operand x"
  shows "isObject_Execute env (d @ r) s = ir_simple env p (IsObjectStmt x) s"
  by (auto simp: isObject_Execute_def isObject_read [OF assms(2) operand_wf [OF assms(3,4)]] simple_defs operand_value [OF assms(1,3)] operand_assign [OF assms(1,3)] intro!: bind_same split: option.split sum.split bool.split)

lemma isDefined_sim:
  assumes "runs be p env" and "isDefined_Write source = Some d" and "wf_local source"
  shows "isDefined_Execute (d @ r) s = ir_simple env p (IsDefinedStmt source) s"
  by (auto simp: isDefined_Execute_def isDefined_read [OF assms(2) assms(3)] simple_defs intro!: bind_same split: option.split sum.split bool.split)

lemma isUndefined_sim:
  assumes "runs be p env" and "isUndefined_Write source = Some d" and "wf_local source"
  shows "isUndefined_Execute (d @ r) s = ir_simple env p (IsUndefinedStmt source) s"
  by (auto simp: isUndefined_Execute_def isUndefined_read [OF assms(2) assms(3)] simple_defs intro!: bind_same split: option.split sum.split bool.split)

lemma makeNull_sim:
  assumes "runs be p env" and "makeNull_Write target = Some d" and "wf_local target"
  shows "makeNull_Execute env (d @ r) s = ir_simple env p (MakeNullStmt target) s"
  by (simp add: makeNull_Execute_def makeNull_read [OF assms(2) assms(3)] ir_simple_def Let_def)

lemma makeNumberInt_sim:
  assumes "runs be p env" and "makeNumberInt_Write value target = Some d" and "wf_int64 value" and "wf_local target"
  shows "makeNumberInt_Execute env (d @ r) s = ir_simple env p (MakeNumberIntStmt value target) s"
  by (simp add: makeNumberInt_Execute_def makeNumberInt_read [OF assms(2) assms(3) assms(4)] ir_simple_def Let_def)

lemma makeNumberRef_sim:
  assumes "runs be p env" and "makeNumberRef_Write index target = Some d" and "wf_local index" and "wf_local target"
  shows "makeNumberRef_Execute env (d @ r) s = ir_simple env p (MakeNumberRefStmt index target) s"
  by (auto simp: makeNumberRef_Execute_def makeNumberRef_read [OF assms(2) assms(3) assms(4)] VM_string_runs [OF assms(1)] simple_defs intro!: bind_same split: option.split sum.split bool.split)

lemma makeArray_sim:
  assumes "runs be p env" and "makeArray_Write capacity target = Some d" and "wf_int32 capacity" and "wf_local target"
  shows "makeArray_Execute env (d @ r) s = ir_simple env p (MakeArrayStmt capacity target) s"
  by (simp add: makeArray_Execute_def makeArray_read [OF assms(2) assms(3) assms(4)] ir_simple_def Let_def)

lemma makeSet_sim:
  assumes "runs be p env" and "makeSet_Write target = Some d" and "wf_local target"
  shows "makeSet_Execute env (d @ r) s = ir_simple env p (MakeSetStmt target) s"
  by (simp add: makeSet_Execute_def makeSet_read [OF assms(2) assms(3)] ir_simple_def Let_def)

lemma makeObject_sim:
  assumes "runs be p env" and "makeObject_Write target = Some d" and "wf_local target"
  shows "makeObject_Execute env (d @ r) s = ir_simple env p (MakeObjectStmt target) s"
  by (simp add: makeObject_Execute_def makeObject_read [OF assms(2) assms(3)] ir_simple_def Let_def)

lemma lenStmt_sim:
  assumes "runs be p env" and "lenStmt_Write lx target = Some d" and "Compiler_localOrConst x = Some lx" and "wf_operand x" and "wf_local target"
  shows "lenStmt_Execute env (d @ r) s = ir_simple env p (LenStmt x target) s"
  by (auto simp: lenStmt_Execute_def lenStmt_read [OF assms(2) operand_wf [OF assms(3,4)] assms(5)] simple_defs operand_value [OF assms(1,3)] operand_assign [OF assms(1,3)] intro!: bind_same split: option.split sum.split bool.split)

lemma arrayAppend_sim:
  assumes "runs be p env" and "arrayAppend_Write lx array = Some d" and "Compiler_localOrConst x = Some lx" and "wf_operand x" and "wf_local array"
  shows "arrayAppend_Execute env (d @ r) s = ir_simple env p (ArrayAppendStmt x array) s"
  by (auto simp: arrayAppend_Execute_def arrayAppend_read [OF assms(2) operand_wf [OF assms(3,4)] assms(5)] simple_defs operand_value [OF assms(1,3)] operand_assign [OF assms(1,3)] intro!: bind_same split: option.split sum.split bool.split)

lemma setAdd_sim:
  assumes "runs be p env" and "setAdd_Write lx target = Some d" and "Compiler_localOrConst x = Some lx" and "wf_operand x" and "wf_local target"
  shows "setAdd_Execute env (d @ r) s = ir_simple env p (SetAddStmt x target) s"
  by (auto simp: setAdd_Execute_def setAdd_read [OF assms(2) operand_wf [OF assms(3,4)] assms(5)] simple_defs operand_value [OF assms(1,3)] operand_assign [OF assms(1,3)] intro!: bind_same split: option.split sum.split bool.split)

lemma objectInsertOnce_sim:
  assumes "runs be p env" and "objectInsertOnce_Write lx ly obj = Some d" and "Compiler_localOrConst x = Some lx" and "wf_operand x" and "Compiler_localOrConst y = Some ly" and "wf_operand y" and "wf_local obj"
  shows "objectInsertOnce_Execute env (d @ r) s = ir_simple env p (ObjectInsertOnceStmt x y obj) s"
  by (auto simp: objectInsertOnce_Execute_def objectInsertOnce_read [OF assms(2) operand_wf [OF assms(3,4)] operand_wf [OF assms(5,6)] assms(7)] simple_defs operand_value [OF assms(1,3)] operand_assign [OF assms(1,3)] operand_value [OF assms(1,5)] operand_assign [OF assms(1,5)] intro!: bind_same split: option.split sum.split bool.split)

lemma objectInsert_sim:
  assumes "runs be p env" and "objectInsert_Write lx ly obj = Some d" and "Compiler_localOrConst x = Some lx" and "wf_operand x" and "Compiler_localOrConst y = Some ly" and "wf_operand y" and "wf_local obj"
  shows "objectInsert_Execute env (d @ r) s = ir_simple env p (ObjectInsertStmt x y obj) s"
  by (simp add: objectInsert_Execute_def objectInsert_read [OF assms(2) operand_wf [OF assms(3,4)] operand_wf [OF assms(5,6)] assms(7)] ir_simple_def Let_def operand_value [OF assms(1,3)] operand_assign [OF assms(1,3)] operand_value [OF assms(1,5)] operand_assign [OF assms(1,5)])

lemma objectMerge_sim:
  assumes "runs be p env" and "objectMerge_Write a b target = Some d" and "wf_local a" and "wf_local b" and "wf_local target"
  shows "objectMerge_Execute env (d @ r) s = ir_simple env p (ObjectMergeStmt a b target) s"
  by (auto simp: objectMerge_Execute_def objectMerge_read [OF assms(2) assms(3) assms(4) assms(5)] simple_defs intro!: bind_same split: option.split sum.split bool.split)

lemma resultSetAdd_sim:
  assumes "runs be p env" and "resultSetAdd_Write value = Some d" and "wf_local value"
  shows "resultSetAdd_Execute env (d @ r) s = ir_simple env p (ResultSetAddStmt value) s"
  by (auto simp: resultSetAdd_Execute_def resultSetAdd_read [OF assms(2) assms(3)] simple_defs intro!: bind_same split: option.split sum.split bool.split)

lemma resetLocal_sim:
  assumes "runs be p env" and "resetLocal_Write target = Some d" and "wf_local target"
  shows "resetLocal_Execute (d @ r) s = ir_simple env p (ResetLocalStmt target) s"
  by (simp add: resetLocal_Execute_def resetLocal_read [OF assms(2) assms(3)] ir_simple_def Let_def)


lemma equal_values:
  "equal_Execute env e s = do {
     a \<leftarrow> equal_A e;
     b \<leftarrow> equal_B e;
     x \<leftarrow> State_Value env s a;
     y \<leftarrow> State_Value env s b;
     ir_test (case (x, y) of
         (None, None) \<Rightarrow> Inr True
       | (Some _, Some _) \<Rightarrow> op_Equal (env_ops env) x y
       | _ \<Rightarrow> Inr False) s }"
  by (auto simp: equal_Execute_def simple_defs intro!: bind_same split: option.split sum.split)

lemma equal_sim:
  assumes "runs be p env" and "equal_Write lx ly = Some d" and "Compiler_localOrConst x = Some lx" and "wf_operand x"
    and "Compiler_localOrConst y = Some ly" and "wf_operand y"
  shows "equal_Execute env (d @ r) s = ir_simple env p (EqualStmt x y) s"
  by (auto simp: equal_values equal_read [OF assms(2) operand_wf [OF assms(3,4)] operand_wf [OF assms(5,6)]]
      ir_simple_def Let_def ir_equal_def operand_value [OF assms(1,3)] operand_value [OF assms(1,5)] intro!: bind_same)

lemma notEqual_sim:
  assumes "runs be p env" and "notEqual_Write lx ly = Some d" and "Compiler_localOrConst x = Some lx" and "wf_operand x"
    and "Compiler_localOrConst y = Some ly" and "wf_operand y"
  shows "notEqual_Execute env (d @ r) s = ir_simple env p (NotEqualStmt x y) s"
proof -
  note rd = notEqual_read [OF assms(2) operand_wf [OF assms(3,4)] operand_wf [OF assms(5,6)]]
  have "equal_A (d @ r) = Some lx" "equal_B (d @ r) = Some ly"
    using rd(3,4) [of r] by (simp_all add: equal_A_def equal_B_def notEqual_A_def notEqual_B_def)
  then show ?thesis
    by (auto simp: notEqual_Execute_def equal_values ir_simple_def Let_def ir_equal_def ir_test_def outcome_defs
        operand_value [OF assms(1,3)] operand_value [OF assms(1,5)] intro!: bind_same split: option.split sum.split)
qed

lemma dot_sim:
  assumes "runs be p env" and "dot_Write lx ly target = Some d" and "Compiler_localOrConst x = Some lx" and "wf_operand x"
    and "Compiler_localOrConst y = Some ly" and "wf_operand y" and "wf_local target"
  shows "dot_Execute env (d @ r) s = ir_simple env p (DotStmt x y target) s"
proof -
  note rd = dot_read [OF assms(2) operand_wf [OF assms(3,4)] operand_wf [OF assms(5,6)] assms(7)]
  show ?thesis
  proof (cases x)
    case (OpLocal v)
    then have lx: "lc_t lx = 0" "lc_v lx = v" using assms(3) by (auto simp: Compiler_localOrConst_def NewLocal_def localType_def)
    show ?thesis
      by (auto simp: dot_Execute_def rd lx OpLocal boolConstType_def stringIndexConstType_def ir_simple_def ir_dot_def Let_def
          isUndefinedType_def operand_value [OF assms(1,5)] intro!: bind_same split: option.split sum.split)
  qed (use assms(3) in \<open>auto simp: dot_Execute_def rd Compiler_localOrConst_def NewBoolConst_def NewStringIndexConst_def
      boolConstType_def stringIndexConstType_def ir_simple_def ir_dot_def\<close>)
qed

section \<open>Blocks\<close>

definition with_size :: "nat \<Rightarrow> ('v, 'a, 'e) outcome \<Rightarrow> ('v, 'a, 'e) stmt_outcome" where
  "with_size n m = map_option (\<lambda>((stop, index, err), s). ((stop, index, int n, err), s)) m"

lemma bind_with_size:
  "Option.bind (with_size n m) f = Option.bind m (\<lambda>((stop, index, err), s). f ((stop, index, int n, err), s))"
  by (cases m) (auto simp: with_size_def)

definition sim :: "policy \<Rightarrow> ('v, 'a, 'e) executor \<Rightarrow> ('v, 'a, 'e) ir_executor \<Rightarrow> bool" where
  "sim p st ex \<longleftrightarrow> (\<forall>fi stmt d r s. index_ok p fi \<longrightarrow> compileStmt fi stmt = Some (Inr d) \<longrightarrow> wf_stmt stmt \<longrightarrow>
     length d < 2 ^ 24 \<longrightarrow> st (d @ r) s = with_size (length d) (ex stmt s))"

lemma simD:
  "sim p st ex \<Longrightarrow> index_ok p fi \<Longrightarrow> compileStmt fi stmt = Some (Inr d) \<Longrightarrow> wf_stmt stmt \<Longrightarrow> length d < 2 ^ 24 \<Longrightarrow>
   st (d @ r) s = with_size (length d) (ex stmt s)"
  by (simp add: sim_def)

lemma compileStmts_Cons:
  "compileStmts fi (x # xs) = Some (Inr ds) \<longleftrightarrow>
   (\<exists>d ds'. ds = d # ds' \<and> compileStmt fi x = Some (Inr d) \<and> compileStmts fi xs = Some (Inr ds'))"
  by (auto simp: and_then_Inr)

lemma compileStmts_length: "compileStmts fi b = Some (Inr ds) \<Longrightarrow> length ds = length b"
  by (induction b arbitrary: ds) (auto simp: compileStmts_Cons simp del: compileStmts.simps(2))

lemma compileBlockList_Cons:
  "compileBlockList fi i (b # bs) = Some (Inr ds) \<longleftrightarrow>
   (\<exists>d ds'. ds = d # ds' \<and> compileBlock fi b = Some (Inr d) \<and> compileBlockList fi (Suc i) bs = Some (Inr ds'))"
  by (auto simp: and_then_Inr compileBlock_def split: option.splits sum.splits)

lemma compileBlockList_nth:
  "compileBlockList fi i bs = Some (Inr ds) \<Longrightarrow>
   length ds = length bs \<and> (\<forall>j < length bs. compileBlock fi (bs ! j) = Some (Inr (ds ! j)))"
proof (induction bs arbitrary: i ds)
  case (Cons b bs)
  then obtain d ds' where "ds = d # ds'" "compileBlock fi b = Some (Inr d)" "compileBlockList fi (Suc i) bs = Some (Inr ds')"
    unfolding compileBlockList_Cons by blast
  then show ?case using Cons.IH by (auto simp: less_Suc_eq_0_disj)
qed simp

lemma block_loop_sim:
  assumes "sim p st ex" and "index_ok p fi" and "compileStmts fi b = Some (Inr ds)" and "list_all wf_stmt b"
    and "length (concat ds) < 2 ^ 24"
  shows "block_loop env st i (length b) instr (concat ds @ r) s = ir_loop env ex i instr b s"
  using assms(3-)
proof (induction b arbitrary: ds i instr s)
  case (Cons x xs)
  obtain d ds' where ds: "ds = d # ds'" "compileStmt fi x = Some (Inr d)" "compileStmts fi xs = Some (Inr ds')"
    using Cons.prems(1) unfolding compileStmts_Cons by blast
  have st: "st (d @ concat ds' @ r) s' = with_size (length d) (ex x s')" for s'
    using assms(1,2) ds(2) Cons.prems ds(1) by (intro simD) auto
  have IH: "block_loop env st i' (length xs) instr' (concat ds' @ r) s' = ir_loop env ex i' instr' xs s'" for i' instr' s'
    using Cons.prems ds by (intro Cons.IH) auto
  have sl: "slice_from (d @ concat ds' @ r) (length d) = Some (concat ds' @ r)" by (simp add: slice_from_def)
  show ?case
    unfolding ds(1) concat.simps append_assoc list.size add_0_right add_Suc_right block_loop.simps ir_loop.simps
    by (auto simp: Let_def st bind_with_size sl IH intro!: bind_same split: option.split prod.split)
qed simp

lemma block_size:
  assumes "compileBlock fi b = Some (Inr d)"
  obtains ds where "compileStmts fi b = Some (Inr ds)" and "block_Write ds = Some d"
    and "length d = 8 + length (concat ds)" and "length ds = length b"
  using assms by (auto simp: compileBlock_def and_then_Inr block_Write_eq compileStmts_length)

text \<open>Every statement takes at least the four bytes of its type and length, which bounds the number of
  statements of a block.\<close>

lemma finish_stmt_size: "finish_stmt l t d = Some d' \<Longrightarrow> 4 \<le> length d'"
  by (auto simp: finish_stmt_def putTypeLength_def putUint32_def put_at_def split: if_splits)

lemmas write_defs = arrayAppend_Write_def assignInt_Write_def assignVar_Write_def assignVarOnce_Write_def blockStmt_Write_def breakStmt_Write_def call_Write_def callDynamic_Write_def dot_Write_def equal_Write_def isArray_Write_def isDefined_Write_def isObject_Write_def isSet_Write_def isUndefined_Write_def lenStmt_Write_def makeArray_Write_def makeNull_Write_def makeNumberInt_Write_def makeNumberRef_Write_def makeObject_Write_def makeSet_Write_def nop_Write_def not_Write_def notEqual_Write_def objectInsert_Write_def objectInsertOnce_Write_def objectMerge_Write_def resetLocal_Write_def resultSetAdd_Write_def returnLocal_Write_def scan_Write_def setAdd_Write_def with_Write_def

lemma stmt_size: "compileStmt fi x = Some (Inr d) \<Longrightarrow> 4 \<le> length d"
  by (cases x) (auto simp: and_then_Inr compile_simple_def write_defs Let_def bind_eq_Some_conv dest: finish_stmt_size split: option.splits)

lemma stmts_size: "compileStmts fi b = Some (Inr ds) \<Longrightarrow> 4 * length b \<le> length (concat ds)"
proof (induction b arbitrary: ds)
  case (Cons x xs)
  then obtain d ds' where "ds = d # ds'" "compileStmt fi x = Some (Inr d)" "compileStmts fi xs = Some (Inr ds')"
    unfolding compileStmts_Cons by blast
  then show ?case using Cons.IH [of ds'] stmt_size [of fi x d] by simp
qed simp

lemma block_open:
  assumes "compileBlock fi b = Some (Inr d)" and "length d < 2 ^ 24"
  obtains ds where "compileStmts fi b = Some (Inr ds)" and "length (concat ds) < 2 ^ 24"
    and "statements_Len (block_Statements (d @ r)) = Some (int (length b))"
    and "statements_Statement (block_Statements (d @ r)) = Some (concat ds @ r)"
proof -
  obtain ds where ds: "compileStmts fi b = Some (Inr ds)" "block_Write ds = Some d"
    "length d = 8 + length (concat ds)" "length ds = length b"
    using assms(1) by (rule block_size)
  moreover have "length ds < 2 ^ 32" using stmts_size [OF ds(1)] ds(3,4) assms(2) by simp
  ultimately show thesis using block_read [OF ds(2), where r = r] assms(2) by (intro that [of ds]) auto
qed

lemma block_sim:
  assumes "sim p st ex" and "index_ok p fi" and "compileBlock fi b = Some (Inr d)" and "list_all wf_stmt b"
    and "length d < 2 ^ 24"
  shows "block_Execute env st (d @ r) s = ir_block env ex b s"
proof -
  obtain ds where ds: "compileStmts fi b = Some (Inr ds)" "length (concat ds) < 2 ^ 24"
    and rd: "statements_Len (block_Statements (d @ r)) = Some (int (length b))"
    "statements_Statement (block_Statements (d @ r)) = Some (concat ds @ r)"
    by (rule block_open [OF assms(3,5)])
  show ?thesis
    by (auto simp: block_Execute_def ir_block_def Let_def rd block_loop_sim [OF assms(1,2) ds(1) assms(4) ds(2)]
        intro!: bind_same split: prod.split option.split)
qed

lemma not_loop_sim:
  assumes "sim p st ex" and "index_ok p fi" and "compileStmts fi b = Some (Inr ds)" and "list_all wf_stmt b"
    and "length (concat ds) < 2 ^ 24"
  shows "not_loop st (length b) (concat ds @ r) s = ir_seq ex b s"
  using assms(3-)
proof (induction b arbitrary: ds s)
  case (Cons x xs)
  obtain d ds' where ds: "ds = d # ds'" "compileStmt fi x = Some (Inr d)" "compileStmts fi xs = Some (Inr ds')"
    using Cons.prems(1) unfolding compileStmts_Cons by blast
  have st: "st (d @ concat ds' @ r) s' = with_size (length d) (ex x s')" for s'
    using assms(1,2) ds(2) Cons.prems ds(1) by (intro simD) auto
  have IH: "not_loop st (length xs) (concat ds' @ r) s' = ir_seq ex xs s'" for s'
    using Cons.prems ds by (intro Cons.IH) auto
  have "slice_from (d @ concat ds' @ r) (length d) = Some (concat ds' @ r)" by (simp add: slice_from_def)
  then show ?case
    using ds(1) by (auto simp: st bind_with_size IH intro!: bind_same split: prod.split)
qed simp

text \<open>The loop of \<open>with\<close> forgets the index of a break.\<close>

lemma with_loop_sim:
  assumes "sim p st ex" and "index_ok p fi" and "compileStmts fi b = Some (Inr ds)" and "list_all wf_stmt b"
    and "length (concat ds) < 2 ^ 24"
  shows "with_loop st (length b) (concat ds @ r) s = do {
     ((stop, index, err), s) \<leftarrow> ir_seq ex b s;
     case err of Some e \<Rightarrow> raise e s | None \<Rightarrow> if stop then leave 0 s else continue s }"
  using assms(3-)
proof (induction b arbitrary: ds s)
  case (Cons x xs)
  obtain d ds' where ds: "ds = d # ds'" "compileStmt fi x = Some (Inr d)" "compileStmts fi xs = Some (Inr ds')"
    using Cons.prems(1) unfolding compileStmts_Cons by blast
  have st: "st (d @ concat ds' @ r) s' = with_size (length d) (ex x s')" for s'
    using assms(1,2) ds(2) Cons.prems ds(1) by (intro simD) auto
  have IH: "with_loop st (length xs) (concat ds' @ r) s' = do {
     ((stop, index, err), s) \<leftarrow> ir_seq ex xs s';
     case err of Some e \<Rightarrow> raise e s | None \<Rightarrow> if stop then leave 0 s else continue s }" for s'
    using Cons.prems ds by (intro Cons.IH) auto
  have "slice_from (d @ concat ds' @ r) (length d) = Some (concat ds' @ r)" by (simp add: slice_from_def)
  then show ?case
    using ds(1) by (auto simp: st bind_with_size IH intro!: bind_same split: prod.split option.split)
qed (simp add: continue_def)

lemma blocks_open:
  assumes "compileBlocks fi bs = Some (Inr d)" and "length d < 2 ^ 24"
  obtains ds where "length ds = length bs" and "blocks_Len (d @ r) = Some (int (length bs))"
    and "\<And>j. j < length bs \<Longrightarrow> compileBlock fi (bs ! j) = Some (Inr (ds ! j)) \<and> length (ds ! j) < 2 ^ 24 \<and>
      blocks_Block (d @ r) (int j) = Some (ds ! j @ concat (drop (Suc j) ds) @ r)"
proof -
  obtain ds where ds: "compileBlockList fi 0 bs = Some (Inr ds)" "blocks_Write ds = Some d"
    using assms(1) by (auto simp: compileBlocks_def and_then_Inr)
  note nth = compileBlockList_nth [OF ds(1)]
  have len: "length d = 8 + 4 * length ds + length (concat ds)" using ds(2) by (rule blocks_Write_length)
  note rd = blocks_read [OF ds(2), where r = r]
  have "length (ds ! j) < 2 ^ 24" if "j < length ds" for j
  proof -
    have "length (ds ! j) \<le> length (concat ds)"
      using that by (simp add: length_concat member_le_sum_list nth_mem)
    then show ?thesis using len assms(2) by simp
  qed
  then show thesis using nth rd len assms(2) by (intro that [of ds]) auto
qed

lemma blocks_loop_sim:
  assumes "sim p st ex" and "index_ok p fi" and "list_all (list_all wf_stmt) bs"
    and "\<And>j. j < length bs \<Longrightarrow> compileBlock fi (bs ! j) = Some (Inr (ds ! j)) \<and> length (ds ! j) < 2 ^ 24 \<and>
      blocks_Block B (int (i + j)) = Some (ds ! j @ rs j)"
  shows "blocks_loop env st B i (length bs) q s = ir_blocks env ex bs q s"
    "function_blocks env st B i (length bs) s = ir_function_blocks env ex bs s"
    "plan_blocks env st B i (length bs) s = ir_plan_blocks env ex bs s"
proof -
  have blk: "blocks_Block B (int (i + j)) = Some (ds ! j @ rs j) \<and>
     (\<forall>s. block_Execute env st (ds ! j @ rs j) s = ir_block env ex (bs ! j) s)" if "j < length bs" for j
    using assms that by (auto intro!: block_sim simp: list_all_length)
  define k where "k = length bs"
  have "blocks_loop env st B (i + (k - m)) m q s = ir_blocks env ex (drop (k - m) bs) q s \<and>
     function_blocks env st B (i + (k - m)) m s = ir_function_blocks env ex (drop (k - m) bs) s \<and>
     plan_blocks env st B (i + (k - m)) m s = ir_plan_blocks env ex (drop (k - m) bs) s" if "m \<le> k" for m q s
    using that
  proof (induction m arbitrary: q s)
    case (Suc m)
    have j: "k - Suc m < length bs" using Suc.prems k_def by simp
    have d: "drop (k - Suc m) bs = bs ! (k - Suc m) # drop (k - m) bs"
      using j Suc.prems by (simp add: Cons_nth_drop_Suc [symmetric] Suc_diff_Suc)
    have i: "Suc (i + (k - Suc m)) = i + (k - m)" using Suc.prems by simp
    note b = blk [OF j]
    show ?case
      unfolding d using b Suc.IH Suc.prems i
      by (auto simp: Let_def intro!: bind_same split: prod.split option.split)
  qed (simp add: k_def)
  from this [of k] show "blocks_loop env st B i (length bs) q s = ir_blocks env ex bs q s"
    "function_blocks env st B i (length bs) s = ir_function_blocks env ex bs s"
    "plan_blocks env st B i (length bs) s = ir_plan_blocks env ex bs s"
    by (simp_all add: k_def)
qed

section \<open>Statements with a block\<close>

lemma compileStmt_block:
  "compileStmt fi (ScanStmt a k v b) = Some (Inr d) \<longleftrightarrow> (\<exists>bd. compileBlock fi b = Some (Inr bd) \<and> scan_Write a k v bd = Some d)"
  "compileStmt fi (NotStmt b) = Some (Inr d) \<longleftrightarrow> (\<exists>bd. compileBlock fi b = Some (Inr bd) \<and> not_Write bd = Some d)"
  "compileStmt fi (BlockStmt bs) = Some (Inr d) \<longleftrightarrow> (\<exists>bd. compileBlocks fi bs = Some (Inr bd) \<and> blockStmt_Write bd = Some d)"
  "compileStmt fi (WithStmt l path x b) = Some (Inr d) \<longleftrightarrow> (\<exists>bd lx. compileBlock fi b = Some (Inr bd) \<and>
     Compiler_localOrConst x = Some lx \<and> with_Write l path lx bd = Some d)"
  by (auto simp: and_then_Inr compileBlock_def compileBlocks_def Compiler_local_def bind_eq_Some_conv)

lemma scan_loop_sim:
  assumes "\<And>s. block_Execute env st b s = ir_block env ex b' s"
  shows "scan_loop env st k v b kvs ierr s = ir_scan_loop env ex k v b' kvs ierr s"
  by (induction kvs arbitrary: s) (auto simp: assms intro!: bind_same)

lemma scan_sim:
  assumes "sim p st ex" and "index_ok p fi" and "compileStmt fi (ScanStmt a k v b) = Some (Inr d)"
    and "wf_stmt (ScanStmt a k v b)" and "length d < 2 ^ 24"
  shows "scan_Execute env st (d @ r) s = ir_scan env ex a k v b s"
proof -
  obtain bd where bd: "compileBlock fi b = Some (Inr bd)" "scan_Write a k v bd = Some d"
    using assms(3) unfolding compileStmt_block by blast
  have "length bd < 2 ^ 24" using bd(2) assms(5) by (auto simp: scan_Write_eq)
  then have blk: "block_Execute env st (bd @ r) s = ir_block env ex b s" for s
    using assms bd(1) by (intro block_sim) auto
  have rd: "scan_Source (d @ r) = Some a" "scan_Key (d @ r) = Some k" "scan_Value (d @ r) = Some v"
    "scan_Block (d @ r) = Some (bd @ r)"
    using scan_read [OF bd(2) assms(5)] assms(4) by auto
  show ?thesis
    by (auto simp: scan_Execute_def ir_scan_def rd Let_def scan_loop_sim [OF blk] word_neq_0_conv
        intro!: bind_same split: prod.split option.split)
qed

lemma not_sim:
  assumes "sim p st ex" and "index_ok p fi" and "compileStmt fi (NotStmt b) = Some (Inr d)"
    and "wf_stmt (NotStmt b)" and "length d < 2 ^ 24"
  shows "not_Execute env st (d @ r) s = ir_not ex b s"
proof -
  obtain bd where bd: "compileBlock fi b = Some (Inr bd)" "not_Write bd = Some d"
    using assms(3) unfolding compileStmt_block by blast
  have "length bd < 2 ^ 24" using bd(2) assms(5) by (auto simp: not_Write_eq)
  then obtain ds where ds: "compileStmts fi b = Some (Inr ds)" "length (concat ds) < 2 ^ 24"
    and rd: "statements_Len (block_Statements (bd @ r)) = Some (int (length b))"
    "statements_Statement (block_Statements (bd @ r)) = Some (concat ds @ r)"
    by (rule block_open [OF bd(1)])
  have wf: "list_all wf_stmt b" using assms(4) by simp
  show ?thesis
    by (auto simp: not_Execute_def ir_not_def not_read [OF bd(2) assms(5)] rd Let_def
        not_loop_sim [OF assms(1,2) ds(1) wf ds(2)] intro!: bind_same split: option.split)
qed

lemma blockStmt_sim:
  assumes "sim p st ex" and "index_ok p fi" and "compileStmt fi (BlockStmt bs) = Some (Inr d)"
    and "wf_stmt (BlockStmt bs)" and "length d < 2 ^ 24"
  shows "blockStmt_Execute env st (d @ r) s = ir_blocks env ex bs (False, 0) s"
proof -
  obtain bd where bd: "compileBlocks fi bs = Some (Inr bd)" "blockStmt_Write bd = Some d"
    using assms(3) unfolding compileStmt_block by blast
  have "length bd < 2 ^ 24" using bd(2) assms(5) by (auto simp: blockStmt_Write_eq)
  then obtain ds where len: "blocks_Len (bd @ r) = Some (int (length bs))"
    and nth: "\<And>j. j < length bs \<Longrightarrow> compileBlock fi (bs ! j) = Some (Inr (ds ! j)) \<and> length (ds ! j) < 2 ^ 24 \<and>
      blocks_Block (bd @ r) (int j) = Some (ds ! j @ concat (drop (Suc j) ds) @ r)"
    by (rule blocks_open [OF bd(1)]) blast
  have "blocks_loop env st (bd @ r) 0 (length bs) (False, 0) s = ir_blocks env ex bs (False, 0) s"
    using assms(1,2,4) nth by (intro blocks_loop_sim(1) [where rs = "\<lambda>j. concat (drop (Suc j) ds) @ r"]) auto
  then show ?thesis
    by (simp add: blockStmt_Execute_def blockStmt_read [OF bd(2) assms(5)] len)
qed

subsection \<open>With\<close>

text \<open>Following the path with a chain of closures and inserting from the leaf up is the recursion of the
  specification.\<close>

lemma insertToParent_Nil: "insertToParent ops [] = (\<lambda>v. Some (Inr v))"
  by (simp add: fun_eq_iff)

lemma insertToParent_Cons:
  "insertToParent ops ((obj, key) # parents) = (\<lambda>v. and_then (ir_insert ops obj key v) (insertToParent ops parents))"
  by (auto simp: fun_eq_iff ir_insert_def and_then_def intro!: bind_same split: option.split sum.split prod.split)

lemma and_then_assoc: "and_then (and_then m f) g = and_then m (\<lambda>x. and_then (f x) g)"
  by (auto simp: and_then_def split: option.split sum.split)

lemma and_then_bind: "and_then (Option.bind m f) g = Option.bind m (\<lambda>x. and_then (f x) g)"
  by (cases m) auto

lemma and_then_return: "and_then m (\<lambda>x. Some (Inr x)) = m"
  by (auto simp: and_then_def split: option.split sum.split)

lemma bind_case_sum: "Option.bind m (case_sum (\<lambda>e. Some (Inl e)) g) = and_then m g"
  by (auto simp: and_then_def split: option.split)

lemma iter_list_Cons: "iter_list f i (x # xs) s = and_then (f i x s) (iter_list f (Suc i) xs)"
  by (auto simp: and_then_def split: option.split sum.split)

lemma upsert_step_eq:
  assumes "runs be p env" and "Compiler_localOrConst x = Some lx"
  shows "upsert_step env s l lx i arg (result, obj, parents) = do {
     key \<leftarrow> ir_string_value env p arg;
     if i = l then do {
       v \<leftarrow> ir_value env p s x;
       and_then (ir_insert (env_ops env) obj key v) (\<lambda>obj'.
       and_then (insertToParent (env_ops env) parents obj') (\<lambda>result. Some (Inr (result, obj, parents)))) }
     else (case op_Get (env_ops env) obj (Some key) of
         Inl e \<Rightarrow> Some (Inl e)
       | Inr child \<Rightarrow> and_then (ir_child (env_ops env) child) (\<lambda>c. Some (Inr (result, Some c, (obj, key) # parents)))) }"
  by (auto simp: upsert_step_def State_String_compiled [OF assms(1)] operand_value [OF assms(1,2)] Let_def ir_insert_def
      ir_child_def and_then_def bind_map_option intro!: bind_same split: option.split sum.split prod.split)

lemma upsert_iter:
  assumes "runs be p env" and "Compiler_localOrConst x = Some lx" and "ks \<noteq> []" and "Suc l = i + length ks"
  shows "and_then (iter_list (upsert_step env s l lx) i ks (res, obj, parents)) (\<lambda>(result, _, _). Some (Inr result)) =
    and_then (ir_upsert env p ks (ir_value env p s x) obj) (insertToParent (env_ops env) parents)"
  using assms(3,4)
proof (induction ks arbitrary: i res obj parents)
  case (Cons k ks)
  note step = iter_list_Cons upsert_step_eq [OF assms(1,2)] and_then_bind and_then_assoc
  show ?case
  proof (cases "ks = []")
    case True
    with Cons.prems show ?thesis
      unfolding step by (auto simp: and_then_bind and_then_assoc and_then_return intro!: bind_same)
  next
    case False
    then have i: "i \<noteq> l" "Suc l = Suc i + length ks" using Cons.prems by (auto simp: neq_Nil_conv)
    have IH: "and_then (iter_list (upsert_step env s l lx) (Suc i) ks (res, o', ps)) (\<lambda>(result, _, _). Some (Inr result)) =
      and_then (ir_upsert env p ks (ir_value env p s x) o') (insertToParent (env_ops env) ps)" for o' ps
      using False i by (intro Cons.IH)
    show ?thesis
      using False i(1) unfolding step
      by (auto simp: and_then_bind and_then_assoc IH insertToParent_Cons intro!: bind_same split: sum.split)
  qed
qed simp

lemma with_value_sim:
  assumes "runs be p env" and "Compiler_localOrConst x = Some lx" and "with_PathLen w = Some (word_of_nat (length path))"
    and "\<And>(f :: nat \<Rightarrow> int \<Rightarrow> _ \<Rightarrow> ('e + _) option) (q :: 'v option \<times> 'v option \<times> ('v option \<times> 'v) list). with_PathIter w f q = iter_list f 0 path q"
    and "length path < 2 ^ 24"
  shows "do { pathLen \<leftarrow> with_PathLen w;
     if pathLen = 0 then map_option Inr (State_Set env local lx s)
     else do {
       r \<leftarrow> with_upsert env w s local (unat pathLen) lx;
       case r of Inl e \<Rightarrow> Some (Inl e) | Inr value \<Rightarrow> Some (Inr (State_SetValue local value s)) } } =
    ir_with_value env p local path x (s :: ('v, 'a, 'e) State)"
proof (cases "path = []")
  case True
  then show ?thesis using assms(3) by (simp add: ir_with_value_def operand_assign [OF assms(1,2)])
next
  case False
  have n: "unat (word_of_nat (length path) :: u32) = length path" using assms(5) by (intro unat_u32_small) simp
  then have nz: "(word_of_nat (length path) :: u32) \<noteq> 0" using False by (auto simp: unat_eq_zero)
  have ups: "with_upsert env w s local (length path) lx =
     and_then (case State_Local s local of None \<Rightarrow> Some (Inr (op_MakeObject (env_ops env))) | Some v \<Rightarrow> ir_child (env_ops env) (Some v))
       (\<lambda>root. and_then (iter_list (upsert_step env s (length path - 1) lx) 0 path (Some root, Some root, []))
          (\<lambda>(result, _, _). Some (Inr result)))"
    by (auto simp: with_upsert_def Let_def isUndefinedType_def ir_child_def and_then_def assms(4) simp del: One_nat_def
        split: option.split sum.split bool.split)
  have it: "and_then (iter_list (upsert_step env s (length path - 1) lx) 0 path (Some root, Some root, []))
      (\<lambda>(result, _, _). Some (Inr result)) = ir_upsert env p path (ir_value env p s x) (Some root)" for root
    using upsert_iter [OF assms(1,2) False, of "length path - 1" 0 s "Some root" "Some root" "[]"] False
    by (simp add: and_then_return insertToParent_Nil)
  have fin: "(do { r \<leftarrow> m; case r of Inl e \<Rightarrow> Some (Inl e) | Inr value \<Rightarrow> Some (Inr (State_SetValue local value s)) }) =
     and_then m (\<lambda>v. Some (Inr (State_SetValue local v s)))" for m :: "('e + 'v option) option"
    by (auto simp: and_then_def split: option.split)
  show ?thesis
    using False nz
    by (simp add: assms(3) n ups it fin ir_with_value_def del: One_nat_def) (simp add: and_then_assoc)
qed

lemma with_sim:
  assumes "runs be p env" and "sim p st ex" and "index_ok p fi" and "compileStmt fi (WithStmt local path x b) = Some (Inr d)"
    and "wf_stmt (WithStmt local path x b)" and "length d < 2 ^ 24"
  shows "with_Execute env st (d @ r) s = ir_with env p ex local path x b s"
proof -
  obtain bd lx where bd: "compileBlock fi b = Some (Inr bd)" "with_Write local path lx bd = Some d"
    and lx: "Compiler_localOrConst x = Some lx"
    using assms(4) unfolding compileStmt_block by blast
  have wf: "wf_lc lx" "list_all wf_int32 path" "wf_local local" "list_all wf_stmt b"
    using assms(5) operand_wf [OF lx] by auto
  have len: "length bd < 2 ^ 24" "length path < 2 ^ 24"
    using bd(2) assms(6) by (auto simp: with_Write_eq [OF wf(1)])
  note rd = with_read [OF bd(2) assms(6) wf(1-3), where r = r]
  obtain ds where ds: "compileStmts fi b = Some (Inr ds)" "length (concat ds) < 2 ^ 24"
    and blk: "statements_Len (block_Statements (bd @ r)) = Some (int (length b))"
    "statements_Statement (block_Statements (bd @ r)) = Some (concat ds @ r)"
    by (rule block_open [OF bd(1) len(1)])
  define s1 where "s1 = State_MemoizePush s"
  have loc: "State_Local s1 local = State_Local s local"
    by (simp add: s1_def State_MemoizePush_def map_globals_def State_Local_def)
  have body: "with_body env st (d @ r) local lx s1 = do {
     q \<leftarrow> ir_with_value env p local path x s1;
     case q of
       Inl e \<Rightarrow> raise (OpError e) s1
     | Inr s \<Rightarrow> do {
         ((stop, index, err), s) \<leftarrow> ir_seq ex b s;
         case err of Some e \<Rightarrow> raise e s | None \<Rightarrow> if stop then leave 0 s else continue s } }"
    unfolding with_value_sim [OF assms(1) lx rd(6) rd(7) len(2), symmetric]
    by (auto simp: with_body_def rd blk Let_def with_loop_sim [OF assms(2,3) ds(1) wf(4) ds(2)]
        intro!: bind_same split: sum.split)
  show ?thesis
    by (auto simp: with_Execute_def ir_with_def Let_def rd s1_def [symmetric] body loc intro!: bind_same)
qed

section \<open>Calls\<close>

lemma call_values_iter:
  assumes "runs be p env" and "localOrConst_list xs = Some lcs"
  shows "iter_list (\<lambda>i arg args. do { v \<leftarrow> State_Value env s arg; Some (Inr (args[i := v]) :: unit + _) })
     (length pre) lcs (pre @ replicate (length lcs) undefined_value) = map_option (\<lambda>vs. Inr (pre @ vs)) (ir_values env p s xs)"
  using assms(2)
proof (induction xs arbitrary: lcs pre)
  case (Cons x xs)
  then obtain lx ls where lcs: "lcs = lx # ls" "Compiler_localOrConst x = Some lx" "localOrConst_list xs = Some ls"
    by (auto simp: bind_eq_Some_conv)
  have "iter_list (\<lambda>i arg args. do { v \<leftarrow> State_Value env s arg; Some (Inr (args[i := v]) :: unit + _) })
     (Suc (length pre)) ls (pre @ v # replicate (length ls) undefined_value) = map_option (\<lambda>vs. Inr (pre @ v # vs)) (ir_values env p s xs)" for v
    using Cons.IH [OF lcs(3), of "pre @ [v]"] by simp
  then show ?case
    by (cases "ir_value env p s x"; cases "ir_values env p s xs") (simp_all add: lcs(1) operand_value [OF assms(1) lcs(2)])
qed simp

lemma callDynamic_values_iter:
  "iter_list (\<lambda>i arg args. Some (Inr (args[i := State_Local s arg]) :: unit + _)) (length pre) xs (pre @ replicate (length xs) undefined_value) =
   Some (Inr (pre @ map (State_Local s) xs))"
proof (induction xs arbitrary: pre)
  case (Cons x xs)
  show ?case using Cons.IH [of "pre @ [State_Local s x]"] by simp
qed simp

lemma callDynamic_path_iter:
  assumes "runs be p env" and "localOrConst_list xs = Some lcs"
  shows "iter_list (\<lambda>i arg path. do {
         v \<leftarrow> State_Value env s arg;
         a \<leftarrow> op_ToAST (env_ops env) v;
         case a of
           Inl e \<Rightarrow> Some (Inl e)
         | Inr a \<Rightarrow> do { y \<leftarrow> ast_String (env_ops env) a; Some (Inr (path[i := y])) } })
     (length pre) lcs (pre @ replicate (length lcs) []) = and_then (ir_path env p s xs) (\<lambda>ys. Some (Inr (pre @ ys)))"
    (is "iter_list ?f _ _ _ = _")
  using assms(2)
proof (induction xs arbitrary: lcs pre)
  case (Cons x xs)
  then obtain lx ls where lcs: "lcs = lx # ls" "Compiler_localOrConst x = Some lx" "localOrConst_list xs = Some ls"
    by (auto simp: bind_eq_Some_conv)
  have IH: "iter_list ?f (Suc (length pre)) ls (pre @ y # replicate (length ls) []) = and_then (ir_path env p s xs) (\<lambda>ys. Some (Inr (pre @ y # ys)))" for y
    using Cons.IH [OF lcs(3), of "pre @ [y]"] by simp
  show ?case
    unfolding lcs(1) iter_list_Cons
    by (simp add: operand_value [OF assms(1) lcs(2)] bind_case_sum and_then_bind and_then_assoc IH [unfolded bind_case_sum])
qed simp

lemma set_params_iter:
  "iter_list (\<lambda>i arg s. if i < length args then Some (Inr (State_SetValue arg (args ! i) s) :: unit + _) else None) i params s =
   map_option Inr (ir_bind_params params (drop i args) s)"
proof (induction params arbitrary: i s)
  case (Cons x xs)
  show ?case
  proof (cases "i < length args")
    case True
    then have "drop i args = args ! i # drop (Suc i) args" by (simp add: Cons_nth_drop_Suc)
    then show ?thesis using True Cons.IH by simp
  qed simp
qed simp

lemma path_iter:
  "i + length segs = length path \<Longrightarrow>
   iter_list (\<lambda>i arg (_ :: unit). if i < length path then
      if path ! i \<noteq> arg then Some (Inl E) else Some (Inr ()) else None) i segs () =
   Some (if drop i path = segs then Inr () else Inl E)"
proof (induction segs arbitrary: i)
  case (Cons x xs)
  then have "drop i path = path ! i # drop (Suc i) path" by (simp add: Cons_nth_drop_Suc)
  then show ?case using Cons.IH [of "Suc i"] Cons.prems by auto
qed simp

subsection \<open>Functions\<close>

lemma func_open:
  assumes "func_code p fn (int i) fd" and "wf_func fn" and "length (fd @ r) < 2 ^ 24" and "i < 2 ^ 24"
  obtains fi bd where "index_ok p fi" and "compileBlocks fi (fn_Blocks fn) = Some (Inr bd)" and "length bd < 2 ^ 24"
    and "function_Index (fd @ r) = Some (int i)" and "function_Return (fd @ r) = Some (fn_Return fn)"
    and "function_ParamsLen (fd @ r) = Some (word_of_nat (length (fn_Params fn)))"
    and "length (fn_Params fn) < 2 ^ 24"
    and "\<And>f s. function_ParamsIter (fd @ r) f (s :: 's) = (iter_list f 0 (fn_Params fn) s :: ('x + 's) option)"
    and "function_Blocks (fd @ r) = Some (bd @ r)" and "function_Type (fd @ r) = Some typeFunction"
    and "function_IsBuiltin (fd @ r) = Some False"
    and "\<And>path. path_matches path (fd @ r) = Some (path = fn_Path fn)"
proof -
  have "index_ok p (index_of (take i (ir_names p)))"
    by (rule index_ok_prefix [where rest = "drop i (ir_names p)"]) simp
  then obtain fi bd where c: "index_ok p fi" "compileBlocks fi (fn_Blocks fn) = Some (Inr bd)"
    "function_Write (fn_Name fn) (int i) (fn_Params fn) (fn_Return fn) bd (fn_Path fn) = Some fd"
    using assms(1) by (auto simp: func_code_def compileFunc_def Let_def and_then_Inr Compiler_local_def [abs_def] split: if_splits)
  have len: "length fd = length (function_layout (fn_Name fn) (int i) (fn_Params fn) (fn_Return fn) bd (fn_Path fn))"
    using c(3) by (rule function_Write_length)
  have "bd \<noteq> []" using c(2) blocks_Write_length by (fastforce simp: compileBlocks_def and_then_Inr)
  moreover have small: "length (function_layout (fn_Name fn) (int i) (fn_Params fn) (fn_Return fn) bd (fn_Path fn) @ r) < 2 ^ 32"
    using len assms(3) by simp
  moreover have "wf_int32 (int i)" using assms(4) by (simp add: wf_int32_def)
  ultimately have rd: "function_Type (fd @ r) = Some typeFunction" "function_IsBuiltin (fd @ r) = Some False"
    "function_Index (fd @ r) = Some (int i)" "function_Return (fd @ r) = Some (fn_Return fn)"
    "function_ParamsLen (fd @ r) = Some (word_of_nat (length (fn_Params fn)))"
    "function_PathLen (fd @ r) = Some (word_of_nat (length (fn_Path fn)))"
    "function_Blocks (fd @ r) = Some (bd @ r)"
    "\<And>f s. function_ParamsIter (fd @ r) f (s :: 's) = (iter_list f 0 (fn_Params fn) s :: ('x + 's) option)"
    "\<And>f s. function_PathIter (fd @ r) f (s :: unit) = (iter_list f 0 (fn_Path fn) s :: (unit vm_error + unit) option)"
    using function_read [OF c(3)] assms(2) by (auto simp: wf_func_def)
  have parts: "length bd < 2 ^ 24" "length (fn_Params fn) < 2 ^ 24" "length (fn_Path fn) < 2 ^ 24"
    using len assms(3) by (auto simp: function_layout_def Let_def)
  have n: "unat (word_of_nat (length (fn_Path fn)) :: u32) = length (fn_Path fn)"
    using parts(3) by (intro unat_u32_small) simp
  have "path_matches path (fd @ r) = Some (path = fn_Path fn)" for path
    using path_iter [of 0 "fn_Path fn" path "ErrQueryNotFound :: unit vm_error"]
    by (auto simp: path_matches_def rd n)
  then show thesis using c parts rd by (intro that) auto
qed

lemma function_sim:
  assumes "sim p st ex" and "func_code p fn (int i) fd" and "wf_func fn" and "length (fd @ r) < 2 ^ 24" and "i < 2 ^ 24"
  shows "function_Execute env st (fd @ r) s args = ir_function env ex (int i) fn (s :: ('v, 'a, 'e) State) args"
proof -
  obtain fi bd where fi: "index_ok p fi" and bd: "compileBlocks fi (fn_Blocks fn) = Some (Inr bd)" "length bd < 2 ^ 24"
    and rd: "function_Index (fd @ r) = Some (int i)" "function_Return (fd @ r) = Some (fn_Return fn)"
    "function_ParamsLen (fd @ r) = Some (word_of_nat (length (fn_Params fn)))" "function_Blocks (fd @ r) = Some (bd @ r)"
    and np: "length (fn_Params fn) < 2 ^ 24"
    and it: "\<And>f s. function_ParamsIter (fd @ r) f (s :: ('v, 'a, 'e) State) = (iter_list f 0 (fn_Params fn) s :: (unit + _) option)"
    by (rule func_open [OF assms(2-5), where 'x = unit and 's = "('v, 'a, 'e) State"]) blast
  have n: "unat (word_of_nat (length (fn_Params fn)) :: u32) = length (fn_Params fn)"
    using np by (intro unat_u32_small) simp
  obtain ds where len: "blocks_Len (bd @ r) = Some (int (length (fn_Blocks fn)))"
    and nth: "\<And>j. j < length (fn_Blocks fn) \<Longrightarrow> compileBlock fi (fn_Blocks fn ! j) = Some (Inr (ds ! j)) \<and>
      length (ds ! j) < 2 ^ 24 \<and> blocks_Block (bd @ r) (int j) = Some (ds ! j @ concat (drop (Suc j) ds) @ r)"
    by (rule blocks_open [OF bd]) blast
  have blocks: "function_blocks env st (bd @ r) 0 (length (fn_Blocks fn)) s = ir_function_blocks env ex (fn_Blocks fn) s" for s
    using assms(1,3) fi nth
    by (intro blocks_loop_sim(2) [where rs = "\<lambda>j. concat (drop (Suc j) ds) @ r"]) (auto simp: wf_func_def)
  have params: "set_params (fd @ r) args s = ir_bind_params (fn_Params fn) args s" for s :: "('v, 'a, 'e) State"
    using set_params_iter [of args 0 "fn_Params fn" s]
    by (cases "ir_bind_params (fn_Params fn) args s") (simp_all add: set_params_def it)
  show ?thesis
    by (auto simp: function_Execute_def ir_function_def rd n len blocks params Let_def isUndefinedType_def
        intro!: bind_same split: option.split)
qed

lemma functions_at:
  assumes "runs be p env"
  obtains F P es where "Executable_Functions (env_executable env) = Some (F @ P)"
    "functions_Len (F @ P) = Some (int (length (ir_names p)))" "length es = length (ir_names p)"
    "\<And>i. i < length es \<Longrightarrow> functions_Function (F @ P) (int i) = Some (es ! i @ concat (drop (Suc i) es) @ P)"
    "\<And>i. i < length es \<Longrightarrow> length (es ! i @ concat (drop (Suc i) es) @ P) < 2 ^ 24" "P \<noteq> []"
    "\<And>i. i < length (po_BuiltinFuncs p) \<Longrightarrow> es ! i = builtin_code be (po_BuiltinFuncs p ! i)"
    "\<And>j. j < length (po_Funcs p) \<Longrightarrow>
      func_code p (po_Funcs p ! j) (int (length (po_BuiltinFuncs p) + j)) (es ! (length (po_BuiltinFuncs p) + j))"
    "length (ir_names p) < 2 ^ 24"
proof -
  have asm: "Compile be p = Some (Inr (env_executable env))" "length (env_executable env) < 2 ^ 24" "distinct (ir_names p)"
    using assms by (auto simp: runs_def wf_policy_def)
  obtain S F P pds ds where fs: "Executable_Functions (env_executable env) = Some (F @ P)"
    and F: "F = be32 (word_of_nat (length (ir_names p))) @ table 4 (map (builtin_code be) (po_BuiltinFuncs p) @ ds)"
    and ds: "length ds = length (po_Funcs p)"
    "\<forall>j < length (po_Funcs p). func_code p (po_Funcs p ! j) (int (length (po_BuiltinFuncs p) + j)) (ds ! j)"
    and P: "plans_Write pds = Some P" and len: "length (env_executable env) = 24 + length (S :: bytes) + length F + length P"
    by (rule Compile_layout [OF asm]) blast
  define es where "es = map (builtin_code be) (po_BuiltinFuncs p) @ ds"
  have F': "F = be32 (word_of_nat (length (ir_names p))) @ table 4 es" using F by (simp add: es_def)
  have n: "length es = length (ir_names p)" by (simp add: es_def ds ir_names_def)
  have small: "4 + 4 * length es + length (concat es) + length P < 2 ^ 24" using len asm(2) by (simp add: F')
  show thesis
  proof (rule that [of F P es])
    have "uint (word_of_nat (length (ir_names p)) :: u32) = int (length (ir_names p))"
      using small n by (intro uint_u32_small) simp
    then show "functions_Len (F @ P) = Some (int (length (ir_names p)))"
      by (simp add: F' functions_Len_def)
    show "functions_Function (F @ P) (int i) = Some (es ! i @ concat (drop (Suc i) es) @ P)" if "i < length es" for i
      using indexed_read [of 4 "be32 (word_of_nat (length (ir_names p)))" i es P] that small
      by (simp add: functions_Function_def F')
    show "length (es ! i @ concat (drop (Suc i) es) @ P) < 2 ^ 24" if "i < length es" for i
    proof -
      have "concat es = concat (take i es) @ es ! i @ concat (drop (Suc i) es)"
        using that by (metis append_take_drop_id concat_append Cons_nth_drop_Suc concat.simps(2))
      then have "length (es ! i @ concat (drop (Suc i) es)) \<le> length (concat es)" by simp
      then show ?thesis using small by simp
    qed
    show "length (ir_names p) < 2 ^ 24" using small n by simp
  qed (use fs n ds plans_nonempty [OF P] in \<open>auto simp: es_def nth_append\<close>)
qed

lemma specialized_num: "specializedBuiltins be name = Some num \<Longrightarrow> num AND 31 = num"
proof -
  assume "specializedBuiltins be name = Some num"
  then have "num \<in> set (map word_of_nat [0..<30])"
    unfolding specializedBuiltins_def by (auto dest!: map_of_SomeD set_zip_rightD)
  then obtain k where "num = word_of_nat k" "k < 30" by auto
  then have "unat num < 2 ^ 5" by (simp add: unat_of_nat)
  then have "take_bit 5 num = num" by (rule take_bit_of_small)
  then show ?thesis by (simp add: take_bit_eq_mask mask_eq_exp_minus_1)
qed

lemma builtin_sim:
  assumes "length (builtin_code be name @ r) < 2 ^ 24" and "r \<noteq> []"
  shows "function_dispatch env st (builtin_code be name @ r) outer inner args = ir_builtin be env name outer inner args"
    and "function_IsBuiltin (builtin_code be name @ r) = Some True"
proof -
  let ?rel = "snd (lookup_builtin be name)"
  obtain bd where bd: "builtin_Write name ?rel = Some bd" by (simp add: builtin_Write_eq)
  have len: "length bd = 13 + length name" using bd by (auto simp: builtin_Write_eq)
  consider (special) num where "specializedBuiltins be name = Some num"
    | (compile) "specializedBuiltins be name = None" "name = str ''rego.compile''"
    | (other) "specializedBuiltins be name = None" "name \<noteq> str ''rego.compile''"
    by (metis not_None_eq)
  then have "function_dispatch env st (builtin_code be name @ r) outer inner args = ir_builtin be env name outer inner args \<and>
     function_IsBuiltin (builtin_code be name @ r) = Some True"
  proof cases
    case special
    then show ?thesis
      using specializedBuiltin_read specialized_num [OF special]
      by (simp add: builtin_code_def function_dispatch_def specializedBuiltin_Execute_def ir_builtin_def typeSpecializedBuiltin_def)
  next
    case compile
    then show ?thesis
      using specializedBuiltinRegoCompile_read
      by (simp add: builtin_code_def function_dispatch_def ir_builtin_def typeSpecializedBuiltinRegoCompile_def)
  next
    case other
    then have code: "builtin_code be name = bd" by (simp add: builtin_code_def bd)
    have "13 + length name < 2 ^ 32" using assms(1) len code by simp
    from builtin_read [OF bd this, of r] assms(2) other show ?thesis
      by (auto simp: code function_dispatch_def builtin_Execute_def ir_builtin_def typeBuiltin_def Let_def
          intro!: bind_same split: sum.split option.split)
  qed
  then show "function_dispatch env st (builtin_code be name @ r) outer inner args = ir_builtin be env name outer inner args"
    "function_IsBuiltin (builtin_code be name @ r) = Some True" by simp_all
qed

lemma apply_sim:
  assumes "runs be p env" and "sim p st ex" and "i < length (ir_names p)"
  obtains f where "State_Func env (int i) = Some f"
    and "\<And>outer inner args. function_dispatch env st f outer inner args = ir_apply be env p ex i outer inner args"
proof -
  obtain F P es where F: "Executable_Functions (env_executable env) = Some (F @ P)" "length es = length (ir_names p)"
    and fn: "\<And>i. i < length es \<Longrightarrow> functions_Function (F @ P) (int i) = Some (es ! i @ concat (drop (Suc i) es) @ P)"
    and len: "\<And>i. i < length es \<Longrightarrow> length (es ! i @ concat (drop (Suc i) es) @ P) < 2 ^ 24" and "P \<noteq> []"
    and b: "\<And>i. i < length (po_BuiltinFuncs p) \<Longrightarrow> es ! i = builtin_code be (po_BuiltinFuncs p ! i)"
    and c: "\<And>j. j < length (po_Funcs p) \<Longrightarrow>
      func_code p (po_Funcs p ! j) (int (length (po_BuiltinFuncs p) + j)) (es ! (length (po_BuiltinFuncs p) + j))"
    and small: "length (ir_names p) < 2 ^ 24"
    by (rule functions_at [OF assms(1)]) blast
  let ?r = "concat (drop (Suc i) es) @ P"
  have i: "i < length es" using F assms(3) by simp
  have "function_dispatch env st (es ! i @ ?r) outer inner args = ir_apply be env p ex i outer inner args" for outer inner args
  proof (cases "i < length (po_BuiltinFuncs p)")
    case True
    then show ?thesis
      using len [OF i] \<open>P \<noteq> []\<close> by (simp add: b builtin_sim ir_apply_def)
  next
    case False
    define j where "j = i - length (po_BuiltinFuncs p)"
    have j: "length (po_BuiltinFuncs p) + j = i" "j < length (po_Funcs p)"
      using False assms(3) by (auto simp: j_def ir_names_def)
    have wf: "wf_func (po_Funcs p ! j)" using assms(1) j(2) by (simp add: runs_def wf_policy_def list_all_length)
    have "i < 2 ^ 24" using small assms(3) by simp
    note sim = function_sim [OF assms(2) c [OF j(2), unfolded j(1)] wf len [OF i] this]
    have "function_Type (es ! i @ ?r) = Some typeFunction"
      by (rule func_open [OF c [OF j(2), unfolded j(1)] wf len [OF i] \<open>i < 2 ^ 24\<close>]) blast
    then show ?thesis
      using False by (simp add: function_dispatch_def typeFunction_def sim ir_apply_def j_def)
  qed
  then show thesis using F fn [OF i] by (intro that [of "es ! i @ ?r"]) (auto simp: State_Func_def)
qed

lemma position_drop:
  "j < length xs \<Longrightarrow> position y (drop j xs) = (if y = xs ! j then Some 0 else map_option Suc (position y (drop (Suc j) xs)))"
  by (simp add: Cons_nth_drop_Suc [symmetric])

lemma find_path_sim:
  assumes "runs be p env" and "sim p st ex"
  obtains "position path (map fn_Path (po_Funcs p)) = None" and "State_FindByPath env path = Some None"
  | j f where "position path (map fn_Path (po_Funcs p)) = Some j" and "State_FindByPath env path = Some (Some (f, int (length (po_BuiltinFuncs p) + j)))"
    and "\<And>s args. function_Execute env st f s args = ir_function env ex (int (length (po_BuiltinFuncs p) + j)) (po_Funcs p ! j) (s :: ('v, 'a, 'e) State) args"
proof -
  obtain F P es where F: "Executable_Functions (env_executable env) = Some (F @ P)" "length es = length (ir_names p)"
    "functions_Len (F @ P) = Some (int (length (ir_names p)))"
    and fn: "\<And>i. i < length es \<Longrightarrow> functions_Function (F @ P) (int i) = Some (es ! i @ concat (drop (Suc i) es) @ P)"
    and len: "\<And>i. i < length es \<Longrightarrow> length (es ! i @ concat (drop (Suc i) es) @ P) < 2 ^ 24" and "P \<noteq> []"
    and b: "\<And>i. i < length (po_BuiltinFuncs p) \<Longrightarrow> es ! i = builtin_code be (po_BuiltinFuncs p ! i)"
    and c: "\<And>j. j < length (po_Funcs p) \<Longrightarrow>
      func_code p (po_Funcs p ! j) (int (length (po_BuiltinFuncs p) + j)) (es ! (length (po_BuiltinFuncs p) + j))"
    and small: "length (ir_names p) < 2 ^ 24"
    by (rule functions_at [OF assms(1)]) blast
  let ?nb = "length (po_BuiltinFuncs p)"
  let ?nf = "length (po_Funcs p)"
  let ?code = "\<lambda>i. es ! i @ concat (drop (Suc i) es) @ P"
  have n: "length es = ?nb + ?nf" using F(2) by (simp add: ir_names_def)
  have func: "function_IsBuiltin (?code (?nb + j)) = Some False \<and> path_matches path (?code (?nb + j)) = Some (path = fn_Path (po_Funcs p ! j))"
    if "j < ?nf" for j
  proof -
    have wf: "wf_func (po_Funcs p ! j)" using assms(1) that by (simp add: runs_def wf_policy_def list_all_length)
    have "?nb + j < length es" "?nb + j < 2 ^ 24" using that n small F(2) by simp_all
    then show ?thesis using func_open [OF c [OF that] wf len] by metis
  qed
  have funs: "FindByPath_loop (F @ P) path (?nb + j) (?nf - j) =
     Some (case position path (drop j (map fn_Path (po_Funcs p))) of None \<Rightarrow> None
       | Some k \<Rightarrow> Some (?code (?nb + j + k), int (?nb + j + k)))" if "j \<le> ?nf" for j
    using that
  proof (induction "?nf - j" arbitrary: j)
    case (Suc m)
    then have j: "j < ?nf" "?nf - j = Suc (?nf - Suc j)" by auto
    have "m = ?nf - Suc j" "Suc j \<le> ?nf" using Suc by auto
    note IH = Suc.hyps(1) [OF this]
    show ?case
      unfolding j(2) FindByPath_loop.simps using j(1) fn [of "?nb + j"] n func [OF j(1)] IH
      by (cases "position path (drop (Suc j) (map fn_Path (po_Funcs p)))") (simp_all add: position_drop del: of_nat_add)
  qed simp
  have builtins: "FindByPath_loop (F @ P) path (?nb - k) (k + ?nf) = FindByPath_loop (F @ P) path ?nb ?nf" if "k \<le> ?nb" for k
    using that
  proof (induction k)
    case (Suc k)
    let ?i = "?nb - Suc k"
    have i: "?i < ?nb" "Suc ?i = ?nb - k" "?i < length es" using Suc.prems n by auto
    have "function_IsBuiltin (?code ?i) = Some True"
      using builtin_sim(2) [of be "po_BuiltinFuncs p ! ?i" "concat (drop (Suc ?i) es) @ P"] len [OF i(3)] b [OF i(1)] \<open>P \<noteq> []\<close>
      by simp
    then show ?case using Suc fn [OF i(3)] i(2) by simp
  qed simp
  have find: "State_FindByPath env path = Some (case position path (map fn_Path (po_Funcs p)) of None \<Rightarrow> None
       | Some k \<Rightarrow> Some (?code (?nb + k), int (?nb + k)))"
    using builtins [of ?nb] funs [of 0]
    by (simp add: State_FindByPath_def F ir_names_def nat_add_distrib split: option.split)
  show thesis
  proof (cases "position path (map fn_Path (po_Funcs p))")
    case None
    then show thesis using find by (intro that(1)) simp_all
  next
    case (Some j)
    then have j: "j < ?nf" using position_Some by fastforce
    have wf: "wf_func (po_Funcs p ! j)" using assms(1) j by (simp add: runs_def wf_policy_def list_all_length)
    have "?nb + j < length es" "?nb + j < 2 ^ 24" using j n small F(2) by simp_all
    then show thesis using Some find function_sim [OF assms(2) c [OF j] wf len] by (intro that(2)) simp_all
  qed
qed

lemma call_sim:
  assumes "runs be p env" and "sim p st ex" and "index_ok p fi" and "compileStmt fi (CallStmt name xs target) = Some (Inr d)"
    and "wf_stmt (CallStmt name xs target)" and "length d < 2 ^ 24"
  shows "call_Execute env st (d @ r) s = ir_call be env p ex name xs target s"
proof -
  obtain idx lcs where lcs: "fi name = Some idx" "localOrConst_list xs = Some lcs" "call_Write idx lcs target = Some d"
    using assms(4) by (auto simp: compile_simple_def Compiler_local_def bind_eq_Some_conv split: option.splits)
  obtain i where i: "position name (ir_names p) = Some i" "idx = int i"
    using assms(3) lcs(1) by (auto simp: index_ok_def)
  have il: "i < length (ir_names p)" using position_Some [OF i(1)] by simp
  obtain f where f: "State_Func env (int i) = Some f"
    "\<And>outer inner args. function_dispatch env st f outer inner args = ir_apply be env p ex i outer inner args"
    by (rule apply_sim [OF assms(1,2) il]) blast
  have wf: "list_all wf_lc lcs" "length lcs = length xs" "wf_local target"
    using operands_list [OF lcs(2)] assms(5) by auto
  have "length (ir_names p) < 2 ^ 24" by (rule functions_at [OF assms(1)]) blast
  then have "wf_local idx" using il i(2) by (simp add: wf_local_def)
  note rd = call_read [OF lcs(3) assms(6) wf(1) this wf(3), where r = r]
  have "length lcs < 2 ^ 32" using lcs(3) assms(6) by (auto simp: call_Write_eq [OF wf(1)])
  then have n: "unat (word_of_nat (length lcs) :: u32) = length lcs" by (rule unat_u32_small)
  have vals: "call_values env s (d @ r) = ir_values env p s xs"
    using call_values_iter [OF assms(1) lcs(2), of s "[]"]
    by (cases "ir_values env p s xs") (simp_all add: call_values_def rd n)
  show ?thesis
    by (auto simp: call_Execute_def ir_call_def Let_def vals rd f i intro!: bind_same split: option.split prod.split)
qed

lemma callDynamic_sim:
  assumes "runs be p env" and "sim p st ex" and "compileStmt fi (CallDynamicStmt as target xs) = Some (Inr d)"
    and "wf_stmt (CallDynamicStmt as target xs)" and "length d < 2 ^ 24"
  shows "callDynamic_Execute env st (d @ r) s = ir_call_dynamic env p ex as target xs (s :: ('v, 'a, 'e) State)"
proof -
  obtain lcs where lcs: "localOrConst_list xs = Some lcs" "callDynamic_Write as target lcs = Some d"
    using assms(3) by (auto simp: compile_simple_def Compiler_local_def [abs_def] bind_eq_Some_conv split: option.splits)
  have wf: "list_all wf_lc lcs" "list_all wf_local as" "wf_local target"
    using operands_list [OF lcs(1)] assms(4) by auto
  note rd = callDynamic_read [OF lcs(2) assms(5) wf, where r = r]
  have "length as < 2 ^ 32" "length lcs < 2 ^ 32" using lcs(2) assms(5) by (auto simp: callDynamic_Write_eq [OF wf(1)])
  note n = this [THEN unat_u32_small]
  have vals: "callDynamic_values s (d @ r) = Some (map (State_Local s) as)"
    using callDynamic_values_iter [of s "[]" as] by (simp add: callDynamic_values_def rd n)
  have path: "callDynamic_path env s (d @ r) = ir_path env p s xs"
    using callDynamic_path_iter [OF assms(1) lcs(1), of s "[]"] by (simp add: callDynamic_path_def rd n and_then_return)
  have dyn: "(do { found \<leftarrow> State_FindByPath env segs;
         case found of None \<Rightarrow> A | Some (f, _) \<Rightarrow> Option.bind (function_Execute env st f inner args) B }) =
      (case position segs (map fn_Path (po_Funcs p)) of None \<Rightarrow> A
       | Some j \<Rightarrow> Option.bind (ir_function env ex (int (length (po_BuiltinFuncs p) + j)) (po_Funcs p ! j) inner args) B)"
    for segs inner args A and B :: "_ \<Rightarrow> ('v, 'a, 'e) outcome"
    by (rule find_path_sim [OF assms(1,2), of segs]) auto
  show ?thesis
    by (auto simp: callDynamic_Execute_def ir_call_dynamic_def Let_def vals path rd dyn
        intro!: bind_same split: option.split prod.split sum.split)
qed

section \<open>Statements, plans\<close>

lemma dispatch:
  assumes "getType (d @ r) = Some t" and "getLen (d @ r) = Some (word_of_nat (length d))" and "length d < 2 ^ 24"
    and "t AND 63 = t"
  shows "statement_Execute env (Suc fuel) (d @ r) s = with_size (length d) (exs env (statement_Execute env fuel) t (d @ r) s)"
proof -
  have "uint (word_of_nat (length d) :: u32) = int (length d)" using assms(3) by (intro uint_u32_small) simp
  then have ty: "statement_Type (d @ r) = Some (t, int (length d))" using assms by (simp add: statement_Type_def)
  show ?thesis
    by (cases "exs env (statement_Execute env fuel) t (d @ r) s")
      (auto simp: ty assms(4) with_size_def split: prod.split)
qed

primrec stmt_type :: "stmt \<Rightarrow> u32" where
  "stmt_type NopStmt = typeStatementNop"
| "stmt_type (AssignIntStmt a b) = typeStatementAssignInt"
| "stmt_type (AssignVarOnceStmt a b) = typeStatementAssignVarOnce"
| "stmt_type (AssignVarStmt a b) = typeStatementAssignVar"
| "stmt_type (ScanStmt a b c e) = typeStatementScan"
| "stmt_type (BlockStmt a) = typeStatementBlockStmt"
| "stmt_type (BreakStmt a) = typeStatementBreakStmt"
| "stmt_type (NotStmt a) = typeStatementNot"
| "stmt_type (ReturnLocalStmt a) = typeStatementReturnLocal"
| "stmt_type (CallDynamicStmt a b c) = typeStatementCallDynamic"
| "stmt_type (CallStmt a b c) = typeStatementCall"
| "stmt_type (DotStmt a b c) = typeStatementDot"
| "stmt_type (EqualStmt a b) = typeStatementEqual"
| "stmt_type (NotEqualStmt a b) = typeStatementNotEqual"
| "stmt_type (IsArrayStmt a) = typeStatementIsArray"
| "stmt_type (IsSetStmt a) = typeStatementIsSet"
| "stmt_type (IsObjectStmt a) = typeStatementIsObject"
| "stmt_type (IsDefinedStmt a) = typeStatementIsDefined"
| "stmt_type (IsUndefinedStmt a) = typeStatementIsUndefined"
| "stmt_type (MakeNullStmt a) = typeStatementMakeNull"
| "stmt_type (MakeNumberIntStmt a b) = typeStatementMakeNumberInt"
| "stmt_type (MakeNumberRefStmt a b) = typeStatementMakeNumberRef"
| "stmt_type (MakeArrayStmt a b) = typeStatementMakeArray"
| "stmt_type (MakeSetStmt a) = typeStatementMakeSet"
| "stmt_type (MakeObjectStmt a) = typeStatementMakeObject"
| "stmt_type (LenStmt a b) = typeStatementLen"
| "stmt_type (ArrayAppendStmt a b) = typeStatementArrayAppend"
| "stmt_type (SetAddStmt a b) = typeStatementSetAdd"
| "stmt_type (ObjectInsertOnceStmt a b c) = typeStatementObjectInsertOnce"
| "stmt_type (ObjectInsertStmt a b c) = typeStatementObjectInsert"
| "stmt_type (ObjectMergeStmt a b c) = typeStatementObjectMerge"
| "stmt_type (WithStmt a b c e) = typeStatementWith"
| "stmt_type (ResultSetAddStmt a) = typeStatementResultSetAdd"
| "stmt_type (ResetLocalStmt a) = typeStatementResetLocal"
| "stmt_type UnsupportedStmt = 0"

lemma finish_stmt_head:
  assumes "finish_stmt l t d0 = Some d" and "length d < 2 ^ 24" and "unat t < 2 ^ 8"
  shows "getType (d @ r) = Some t \<and> getLen (d @ r) = Some (word_of_nat (length d))"
proof -
  have "d = be32 (tl_word t (length d0)) @ drop 4 d0" "4 \<le> length d0"
    using assms(1) by (auto simp: finish_stmt_def putTypeLength_def putUint32_def put_at_def tl_word_def split: if_splits)
  moreover from this have "length d = length d0" by simp
  ultimately show ?thesis using assms(2,3) by (simp add: type_of_tl_word)
qed

lemma stmt_head:
  assumes "compileStmt fi x = Some (Inr d)" and "length d < 2 ^ 24"
  shows "getType (d @ r) = Some (stmt_type x) \<and> getLen (d @ r) = Some (word_of_nat (length d))"
  using assms
  by (cases x)
    (auto simp: and_then_Inr compile_simple_def write_defs Let_def bind_eq_Some_conv dest!: finish_stmt_head [where r = r] split: option.splits)

lemma stmt_type_range: "stmt_type x AND 63 = stmt_type x"
  by (cases x) simp_all

lemma exs_sim:
  assumes "runs be p env" and "sim p st ex" and "index_ok p fi" and "compileStmt fi x = Some (Inr d)" and "wf_stmt x"
    and "length d < 2 ^ 24"
  shows "exs env st (stmt_type x) (d @ r) s = ir_step be env p ex x s"
proof -
  note simple = exs_def ir_step_def compile_simple_def Compiler_local_def bind_eq_Some_conv
  show ?thesis
  proof (cases x)
    case NopStmt
    with assms show ?thesis by (auto simp: simple intro!: nop_sim [OF assms(1)])
  next
    case (AssignIntStmt a b)
    with assms show ?thesis by (auto simp: simple intro!: assignInt_sim [OF assms(1)])
  next
    case (AssignVarOnceStmt a b)
    with assms show ?thesis by (auto simp: simple intro!: assignVarOnce_sim [OF assms(1)])
  next
    case (AssignVarStmt a b)
    with assms show ?thesis by (auto simp: simple intro!: assignVar_sim [OF assms(1)])
  next
    case (ScanStmt a b c e)
    with assms scan_sim [OF assms(2,3)] show ?thesis by (simp add: exs_def ir_step_def)
  next
    case (BlockStmt a)
    with assms blockStmt_sim [OF assms(2,3)] show ?thesis by (simp add: exs_def ir_step_def)
  next
    case (BreakStmt a)
    with assms show ?thesis by (auto simp: simple intro!: breakStmt_sim [OF assms(1)])
  next
    case (NotStmt a)
    with assms not_sim [OF assms(2,3)] show ?thesis by (simp add: exs_def ir_step_def)
  next
    case (ReturnLocalStmt a)
    with assms show ?thesis by (auto simp: simple intro!: returnLocal_sim [OF assms(1)])
  next
    case (CallDynamicStmt a b c)
    with assms callDynamic_sim [OF assms(1,2)] show ?thesis by (simp add: exs_def ir_step_def)
  next
    case (CallStmt a b c)
    with assms call_sim [OF assms(1-3)] show ?thesis by (simp add: exs_def ir_step_def)
  next
    case (DotStmt a b c)
    with assms show ?thesis by (auto simp: simple intro!: dot_sim [OF assms(1)])
  next
    case (EqualStmt a b)
    with assms show ?thesis by (auto simp: simple intro!: equal_sim [OF assms(1)])
  next
    case (NotEqualStmt a b)
    with assms show ?thesis by (auto simp: simple intro!: notEqual_sim [OF assms(1)])
  next
    case (IsArrayStmt a)
    with assms show ?thesis by (auto simp: simple intro!: isArray_sim [OF assms(1)])
  next
    case (IsSetStmt a)
    with assms show ?thesis by (auto simp: simple intro!: isSet_sim [OF assms(1)])
  next
    case (IsObjectStmt a)
    with assms show ?thesis by (auto simp: simple intro!: isObject_sim [OF assms(1)])
  next
    case (IsDefinedStmt a)
    with assms show ?thesis by (auto simp: simple intro!: isDefined_sim [OF assms(1)])
  next
    case (IsUndefinedStmt a)
    with assms show ?thesis by (auto simp: simple intro!: isUndefined_sim [OF assms(1)])
  next
    case (MakeNullStmt a)
    with assms show ?thesis by (auto simp: simple intro!: makeNull_sim [OF assms(1)])
  next
    case (MakeNumberIntStmt a b)
    with assms show ?thesis by (auto simp: simple intro!: makeNumberInt_sim [OF assms(1)])
  next
    case (MakeNumberRefStmt a b)
    with assms show ?thesis by (auto simp: simple intro!: makeNumberRef_sim [OF assms(1)])
  next
    case (MakeArrayStmt a b)
    with assms show ?thesis by (auto simp: simple intro!: makeArray_sim [OF assms(1)])
  next
    case (MakeSetStmt a)
    with assms show ?thesis by (auto simp: simple intro!: makeSet_sim [OF assms(1)])
  next
    case (MakeObjectStmt a)
    with assms show ?thesis by (auto simp: simple intro!: makeObject_sim [OF assms(1)])
  next
    case (LenStmt a b)
    with assms show ?thesis by (auto simp: simple intro!: lenStmt_sim [OF assms(1)])
  next
    case (ArrayAppendStmt a b)
    with assms show ?thesis by (auto simp: simple intro!: arrayAppend_sim [OF assms(1)])
  next
    case (SetAddStmt a b)
    with assms show ?thesis by (auto simp: simple intro!: setAdd_sim [OF assms(1)])
  next
    case (ObjectInsertOnceStmt a b c)
    with assms show ?thesis by (auto simp: simple intro!: objectInsertOnce_sim [OF assms(1)])
  next
    case (ObjectInsertStmt a b c)
    with assms show ?thesis by (auto simp: simple intro!: objectInsert_sim [OF assms(1)])
  next
    case (ObjectMergeStmt a b c)
    with assms show ?thesis by (auto simp: simple intro!: objectMerge_sim [OF assms(1)])
  next
    case (WithStmt a b c e)
    with assms with_sim [OF assms(1-3)] show ?thesis by (simp add: exs_def ir_step_def)
  next
    case (ResultSetAddStmt a)
    with assms show ?thesis by (auto simp: simple intro!: resultSetAdd_sim [OF assms(1)])
  next
    case (ResetLocalStmt a)
    with assms show ?thesis by (auto simp: simple intro!: resetLocal_sim [OF assms(1)])
  next
    case UnsupportedStmt
    with assms show ?thesis by (simp add: compile_simple_def)
  qed
qed

lemma statement_sim:
  assumes "runs be p env"
  shows "sim p (statement_Execute env fuel) (ir_exec be env p fuel)"
proof (induction fuel)
  case 0
  then show ?case by (simp add: sim_def with_size_def)
next
  case (Suc fuel)
  show ?case
    unfolding sim_def
  proof (intro allI impI)
    fix fi x d r s
    assume x: "index_ok p fi" "compileStmt fi x = Some (Inr d)" "wf_stmt x" "length d < 2 ^ 24"
    have "statement_Execute env (Suc fuel) (d @ r) s = with_size (length d) (exs env (statement_Execute env fuel) (stmt_type x) (d @ r) s)"
      using stmt_head [OF x(2,4)] x(4) stmt_type_range by (intro dispatch) auto
    then show "statement_Execute env (Suc fuel) (d @ r) s = with_size (length d) (ir_exec be env p (Suc fuel) x s)"
      by (simp add: exs_sim [OF assms Suc x] del: statement_Execute.simps)
  qed
qed

end
