(* ===== verification/Compile_Checks.thy ===== *)
theory Compile_Checks
  imports Simulation
begin

text \<open>
  What the compiler accepts.  A statement compiles exactly when its operands and its type are supported and
  every call goes to a function already known; a policy that compiles has no dangling and no recursive static
  call, no function without parameters and no builtin without an implementation.
\<close>

section \<open>Statements\<close>

definition operand_ok :: "operand \<Rightarrow> bool" where
  "operand_ok x \<longleftrightarrow> x \<noteq> OpOther"

text \<open>\<open>stmt_ok known stmt\<close>: \<open>known\<close> says which functions may be called.\<close>

fun stmt_ok :: "(gostring \<Rightarrow> bool) \<Rightarrow> stmt \<Rightarrow> bool" where
  "stmt_ok known (AssignVarOnceStmt x t) = operand_ok x"
| "stmt_ok known (AssignVarStmt x t) = operand_ok x"
| "stmt_ok known (ScanStmt a k v b) = list_all (stmt_ok known) b"
| "stmt_ok known (BlockStmt bs) = list_all (list_all (stmt_ok known)) bs"
| "stmt_ok known (NotStmt b) = list_all (stmt_ok known) b"
| "stmt_ok known (CallDynamicStmt as t path) = list_all operand_ok path"
| "stmt_ok known (CallStmt f as t) = (known f \<and> list_all operand_ok as)"
| "stmt_ok known (DotStmt a k t) = (operand_ok a \<and> operand_ok k)"
| "stmt_ok known (EqualStmt a b) = (operand_ok a \<and> operand_ok b)"
| "stmt_ok known (NotEqualStmt a b) = (operand_ok a \<and> operand_ok b)"
| "stmt_ok known (IsArrayStmt a) = operand_ok a"
| "stmt_ok known (IsSetStmt a) = operand_ok a"
| "stmt_ok known (IsObjectStmt a) = operand_ok a"
| "stmt_ok known (LenStmt a t) = operand_ok a"
| "stmt_ok known (ArrayAppendStmt v a) = operand_ok v"
| "stmt_ok known (SetAddStmt v a) = operand_ok v"
| "stmt_ok known (ObjectInsertOnceStmt k v obj) = (operand_ok k \<and> operand_ok v)"
| "stmt_ok known (ObjectInsertStmt k v obj) = (operand_ok k \<and> operand_ok v)"
| "stmt_ok known (WithStmt l path v b) = (operand_ok v \<and> list_all (stmt_ok known) b)"
| "stmt_ok known UnsupportedStmt = False"
| "stmt_ok known stmt = True"

lemma localOrConst_ok: "Compiler_localOrConst x = None \<longleftrightarrow> \<not> operand_ok x"
  by (cases x) (simp_all add: Compiler_localOrConst_def operand_ok_def)

lemma localOrConst_list_ok: "localOrConst_list xs = None \<longleftrightarrow> \<not> list_all operand_ok xs"
  by (induction xs) (auto simp: localOrConst_ok [symmetric] bind_eq_None_conv split: option.splits)

lemma localOrConst_Some: "Compiler_localOrConst x = Some y \<Longrightarrow> operand_ok x"
  using localOrConst_ok [of x] by auto

lemma localOrConst_list_Some: "localOrConst_list xs = Some ys \<Longrightarrow> list_all operand_ok xs"
  using localOrConst_list_ok [of xs] by auto

lemma compileStmt_sound:
  "compileStmt fi st = Some (Inr d) \<Longrightarrow> stmt_ok (\<lambda>f. fi f \<noteq> None) st"
  "compileStmts fi b = Some (Inr ds) \<Longrightarrow> list_all (stmt_ok (\<lambda>f. fi f \<noteq> None)) b"
  "compileBlockList fi i bs = Some (Inr es) \<Longrightarrow> list_all (list_all (stmt_ok (\<lambda>f. fi f \<noteq> None))) bs"
proof (induction fi st and fi b and fi i bs arbitrary: d and ds and es rule: compileStmt_compileStmts_compileBlockList.induct)
qed (auto simp: and_then_Inr compile_simple_def bind_eq_Some_conv localOrConst_Some localOrConst_list_Some
    split: option.splits sum.splits)

text \<open>The other direction needs the ranges of the fields, and fewer than \<open>2 ^ 28\<close> blocks in a block statement:
  beyond that the offsets of the blocks leave the 32 bits they have.\<close>

fun stmt_small :: "stmt \<Rightarrow> bool" where
  "stmt_small (ScanStmt a k v b) = list_all stmt_small b"
| "stmt_small (BlockStmt bs) = (length bs < 2 ^ 28 \<and> list_all (list_all stmt_small) bs)"
| "stmt_small (NotStmt b) = list_all stmt_small b"
| "stmt_small (WithStmt l path v b) = list_all stmt_small b"
| "stmt_small stmt = True"

lemma localOrConst_obtain: "operand_ok x \<Longrightarrow> wf_operand x \<Longrightarrow> \<exists>y. Compiler_localOrConst x = Some y \<and> wf_lc y"
  using localOrConst_ok [of x] operand_wf [of x] by (cases "Compiler_localOrConst x") auto

lemma localOrConst_list_obtain:
  "list_all operand_ok xs \<Longrightarrow> list_all wf_operand xs \<Longrightarrow> \<exists>ys. localOrConst_list xs = Some ys \<and> list_all wf_lc ys"
  using localOrConst_list_ok [of xs] operands_list [of xs] by (cases "localOrConst_list xs") auto

lemma compile_simple_complete:
  assumes "stmt_ok (\<lambda>f. fi f \<noteq> None) st" and "wf_stmt st"
    and "case st of ScanStmt _ _ _ _ \<Rightarrow> False | BlockStmt _ \<Rightarrow> False | NotStmt _ \<Rightarrow> False | WithStmt _ _ _ _ \<Rightarrow> False | _ \<Rightarrow> True"
  shows "\<exists>d. compile_simple fi st = Some (Inr d)"
  using assms
  by (cases st)
     (auto simp: compile_simple_def writer_simps dest!: localOrConst_obtain localOrConst_list_obtain)

lemma compileBlockList_length: "compileBlockList fi i bs = Some (Inr es) \<Longrightarrow> length es = length bs"
  by (induction bs arbitrary: i es) (auto simp: and_then_Inr split: option.splits sum.splits)

lemma compileStmt_complete:
  "stmt_ok (\<lambda>f. fi f \<noteq> None) st \<Longrightarrow> wf_stmt st \<Longrightarrow> stmt_small st \<Longrightarrow> \<exists>d. compileStmt fi st = Some (Inr d)"
  "list_all (stmt_ok (\<lambda>f. fi f \<noteq> None)) b \<Longrightarrow> list_all wf_stmt b \<Longrightarrow> list_all stmt_small b \<Longrightarrow>
    \<exists>ds. compileStmts fi b = Some (Inr ds)"
  "list_all (list_all (stmt_ok (\<lambda>f. fi f \<noteq> None))) bs \<Longrightarrow> list_all (list_all wf_stmt) bs \<Longrightarrow>
    list_all (list_all stmt_small) bs \<Longrightarrow> \<exists>es. compileBlockList fi i bs = Some (Inr es)"
proof (induction fi st and fi b and fi i bs rule: compileStmt_compileStmts_compileBlockList.induct)
  case (2 fi blocks)
  then obtain es where es: "compileBlockList fi 0 blocks = Some (Inr es)" by auto
  then have "8 + 4 * length es < 2 ^ 32" using compileBlockList_length [OF es] "2.prems"(3) by simp
  then show ?case using es by (simp add: blocks_Write_eq blockStmt_Write_eq)
next
  case (4 fi l path x block)
  then obtain ds v where "compileStmts fi block = Some (Inr ds)" "Compiler_localOrConst x = Some v" "wf_lc v"
    using localOrConst_obtain [of x] by auto
  then show ?case by (simp add: block_Write_eq with_Write_eq)
qed (auto simp: block_Write_eq scan_Write_eq not_Write_eq intro!: compile_simple_complete)

section \<open>Policies\<close>

lemma compile_builtins_sound:
  "compile_builtins be off i decls fi d = Some (Inr (d', fi')) \<Longrightarrow>
   list_all (\<lambda>name. fst (lookup_builtin be name)) decls \<and> dom fi' = dom fi \<union> set decls"
proof (induction decls arbitrary: i fi d)
  case (Cons name decls)
  obtain impl relation where l: "lookup_builtin be name = (impl, relation)" by (cases "lookup_builtin be name")
  then obtain d1 where impl and rec: "compile_builtins be off (Suc i) decls (fi(name \<mapsto> int i)) d1 = Some (Inr (d', fi'))"
    using Cons.prems by (auto simp: Let_def and_then_Inr split: if_splits)
  then show ?case using Cons.IH [OF rec] l by auto
qed simp

lemma compileFunc_sound:
  assumes "compileFunc fi fn i = Some (Inr d)"
  shows "fn_Params fn \<noteq> [] \<and> list_all (list_all (stmt_ok (\<lambda>f. fi f \<noteq> None))) (fn_Blocks fn)"
  using assms compileStmt_sound(3) [of fi 0 "fn_Blocks fn"]
  by (auto simp: compileFunc_def compileBlocks_def Let_def and_then_Inr split: if_splits)

lemma wrapped_Inr:
  "(case m of None \<Rightarrow> None | Some (Inl e) \<Rightarrow> Some (Inl (g e)) | Some (Inr x) \<Rightarrow> f x) = Some (Inr y) \<longleftrightarrow>
   (\<exists>x. m = Some (Inr x) \<and> f x = Some (Inr y))"
  by (auto split: option.splits sum.splits)

lemma compile_functions_sound:
  "compile_functions off nb i fns fi d = Some (Inr (d', fi')) \<Longrightarrow>
   dom fi' = dom fi \<union> set (map fn_Name fns) \<and>
   (\<forall>j < length fns. fn_Params (fns ! j) \<noteq> [] \<and>
      list_all (list_all (stmt_ok (\<lambda>f. f \<in> dom fi \<union> set (map fn_Name (take j fns))))) (fn_Blocks (fns ! j)))"
proof (induction fns arbitrary: i fi d)
  case (Cons fn fns)
  then obtain data d1 where data: "compileFunc fi fn (int (i + nb)) = Some (Inr data)" and
    rec: "compile_functions off nb (Suc i) fns (fi(fn_Name fn \<mapsto> int (i + nb))) d1 = Some (Inr (d', fi'))"
    by (auto simp: and_then_Inr wrapped_Inr simp del: of_nat_add)
  note IH = Cons.IH [OF rec]
  have first: "fn_Params fn \<noteq> []" "list_all (list_all (stmt_ok (\<lambda>f. f \<in> dom fi))) (fn_Blocks fn)"
    using compileFunc_sound [OF data] by (simp_all add: domIff)
  show ?case
  proof (intro conjI allI impI)
    show "dom fi' = dom fi \<union> set (map fn_Name (fn # fns))" using IH by auto
    fix j assume j: "j < length (fn # fns)"
    then show "fn_Params ((fn # fns) ! j) \<noteq> []" using first IH by (cases j) auto
    have known: "(\<lambda>f. f \<in> dom (fi(fn_Name fn \<mapsto> int (i + nb))) \<union> set (map fn_Name (take k fns))) =
        (\<lambda>f. f \<in> dom fi \<union> set (map fn_Name (take (Suc k) (fn # fns))))" for k
      by auto
    show "list_all (list_all (stmt_ok (\<lambda>f. f \<in> dom fi \<union> set (map fn_Name (take j (fn # fns)))))) (fn_Blocks ((fn # fns) ! j))"
    proof (cases j)
      case 0
      then show ?thesis using first(2) by simp
    next
      case (Suc k)
      with IH j have "list_all (list_all (stmt_ok (\<lambda>f. f \<in> dom (fi(fn_Name fn \<mapsto> int (i + nb))) \<union>
          set (map fn_Name (take k fns))))) (fn_Blocks (fns ! k))"
        by (metis Suc_less_eq length_Cons)
      then show ?thesis unfolding known Suc by simp
    qed
  qed
qed simp

lemma compile_plans_sound:
  "compile_plan_list fi ps = Some (Inr ds) \<Longrightarrow>
   list_all (\<lambda>pl. list_all (list_all (stmt_ok (\<lambda>f. fi f \<noteq> None))) (pl_Blocks pl)) ps"
proof (induction ps arbitrary: ds)
  case (Cons q ps)
  then obtain d ds' where "compilePlan fi q = Some (Inr d)" and rec: "compile_plan_list fi ps = Some (Inr ds')"
    by (auto simp: and_then_Inr)
  then show ?case
    using Cons.IH [OF rec] compileStmt_sound(3) [of fi 0 "pl_Blocks q"]
    by (auto simp: compilePlan_def compileBlocks_def and_then_Inr)
qed simp

definition policy_ok :: "builtin_env \<Rightarrow> policy \<Rightarrow> bool" where
  "policy_ok be p \<longleftrightarrow>
     list_all (\<lambda>name. fst (lookup_builtin be name)) (po_BuiltinFuncs p) \<and>
     (\<forall>j < length (po_Funcs p). fn_Params (po_Funcs p ! j) \<noteq> [] \<and>
        list_all (list_all (stmt_ok (\<lambda>f. f \<in> set (take (length (po_BuiltinFuncs p) + j) (ir_names p))))) (fn_Blocks (po_Funcs p ! j))) \<and>
     list_all (\<lambda>pl. list_all (list_all (stmt_ok (\<lambda>f. f \<in> set (ir_names p)))) (pl_Blocks pl)) (po_Plans p)"

lemma Compile_sound:
  assumes "Compile be p = Some (Inr e)"
  shows "policy_ok be p"
proof -
  obtain F fi pds where F: "compileFuncs be p Map.empty = Some (Inr (F, fi))"
    and P: "compile_plan_list fi (po_Plans p) = Some (Inr pds)"
    using assms by (auto simp: Compile_def compilePlans_def and_then_Inr split: prod.splits)
  obtain d0 d1 fi1 where b: "compile_builtins be 4 0 (po_BuiltinFuncs p) Map.empty d0 = Some (Inr (d1, fi1))"
    and f: "compile_functions 4 (length (po_BuiltinFuncs p)) 0 (po_Funcs p) fi1 d1 = Some (Inr (F, fi))"
    using F by (auto simp: compileFuncs_def Let_def and_then_Inr append_defs)
  note b = compile_builtins_sound [OF b] and f = compile_functions_sound [OF f]
  have "f \<in> set (po_BuiltinFuncs p) \<union> set (map fn_Name (take j (po_Funcs p))) \<longleftrightarrow>
      f \<in> set (take (length (po_BuiltinFuncs p) + j) (ir_names p))" for f j
    by (simp add: ir_names_def take_map)
  moreover have "(\<lambda>f. fi f \<noteq> None) = (\<lambda>f. f \<in> set (ir_names p))"
    using b f by (auto simp: ir_names_def fun_eq_iff domIff [symmetric])
  then have "list_all (\<lambda>pl. list_all (list_all (stmt_ok (\<lambda>f. f \<in> set (ir_names p)))) (pl_Blocks pl)) (po_Plans p)"
    using compile_plans_sound [OF P] by simp
  ultimately show ?thesis using b f by (simp add: policy_ok_def)
qed

end
