(* ===== verification/VM_Eval.thy ===== *)
theory VM_Eval
  imports VM_Exec
begin

text \<open>
  Evaluation of a query: \<open>VM.Eval\<close> of src/pkg/vm/vm.go and the evaluation cache of src/pkg/vm/cache.go.  A
  query names a plan; the first plan of that name runs on a fresh state and its result set is the
  answer.  When the cache is configured, answers are kept under the values of the configured input paths.

  The OPA module provides the AST (the empty set used as a marker, printing and parsing of values) and the
  shared cache, here a map.  The record \<open>cache_env\<close> also holds the type switch of \<open>getEvalCacheKey\<close>: whether a
  value is an object or an array, with the lookup of a key or of an array index in it.
\<close>

section \<open>The evaluation cache\<close>

record ('v, 'a) cache_env =
  ce_object :: "'v \<Rightarrow> (gostring \<Rightarrow> 'v option) option"
  ce_array :: "'v \<Rightarrow> (gostring \<Rightarrow> 'v option) option"
  ce_NewSet :: 'a
  ce_String :: "'a \<Rightarrow> gostring"
  ce_MustParseTerm :: "gostring \<Rightarrow> 'a"
  ce_config :: "(gostring list list \<times> int) option"

text \<open>\<open>evalCacheResult\<close>, and the key: the number of the plan and the input fields (the machine itself, the
  third part of the key, is fixed here).\<close>

record evalCacheResult =
  ec_expires :: int
  ec_value :: gostring

type_synonym 'a eval_key = "int \<times> 'a list"
type_synonym 'a eval_cache = "'a eval_key \<rightharpoonup> evalCacheResult"

text \<open>The inner loop over a path. It returns the node it ends with and the markers it appended: a missing
  key or index, or a value that is no collection, appends a marker and breaks out of the loop.  The lookup
  in an object assigns its result to \<open>node\<close> before it is tested, so a missing key leaves the nil value there; a
  failed array index leaves \<open>node\<close> at the array.\<close>

fun cache_walk :: "('v, 'a) cache_env \<Rightarrow> gostring list \<Rightarrow> 'v option \<Rightarrow> 'v option \<times> 'a list" where
  "cache_walk ce [] node = (node, [])"
| "cache_walk ce (key # path) node = (case node of
     None \<Rightarrow> (node, [ce_NewSet ce])
   | Some coll \<Rightarrow> (case ce_object ce coll of
       Some get \<Rightarrow> (case get key of
           Some v \<Rightarrow> cache_walk ce path (Some v)
         | None \<Rightarrow> (None, [ce_NewSet ce]))
     | None \<Rightarrow> (case ce_array ce coll of
         Some get \<Rightarrow> (case get key of
             Some v \<Rightarrow> cache_walk ce path (Some v)
           | None \<Rightarrow> (node, [ce_NewSet ce]))
       | None \<Rightarrow> (node, [ce_NewSet ce]))))"

fun cache_values :: "('v, 'a, 'e) ops \<Rightarrow> ('v, 'a) cache_env \<Rightarrow> gostring list list \<Rightarrow> 'v \<Rightarrow> ('e + 'a list) option" where
  "cache_values ops ce [] input = Some (Inr [])"
| "cache_values ops ce (path # paths) input = do {
     let (node, markers) = cache_walk ce path (Some input);
     v \<leftarrow> op_ToAST ops node;
     case v of
       Inl e \<Rightarrow> Some (Inl e)
     | Inr v \<Rightarrow> do {
         r \<leftarrow> cache_values ops ce paths input;
         case r of Inl e \<Rightarrow> Some (Inl e) | Inr vs \<Rightarrow> Some (Inr (markers @ v # vs)) } }"

definition getEvalCacheKey :: "('v, 'a, 'e) ops \<Rightarrow> ('v, 'a) cache_env \<Rightarrow> int \<Rightarrow> 'v option \<Rightarrow> ('e + 'a eval_key option) option" where
  "getEvalCacheKey ops ce plan input = (case input of
     None \<Rightarrow> Some (Inr None)
   | Some i \<Rightarrow> (case ce_config ce of
       None \<Rightarrow> Some (Inr None)
     | Some (paths, _) \<Rightarrow> do {
         r \<leftarrow> cache_values ops ce paths i;
         case r of Inl e \<Rightarrow> Some (Inl e) | Inr values \<Rightarrow> Some (Inr (Some (plan, values))) }))"

definition newEvalCacheResult :: "('v, 'a) cache_env \<Rightarrow> 'a \<Rightarrow> int \<Rightarrow> evalCacheResult" where
  "newEvalCacheResult ce value expires = \<lparr>ec_expires = expires, ec_value = ce_String ce value\<rparr>"

definition evalCacheResult_Value :: "('v, 'a) cache_env \<Rightarrow> evalCacheResult \<Rightarrow> 'a" where
  "evalCacheResult_Value ce e = ce_MustParseTerm ce (ec_value e)"

definition checkEvalCache :: "('v, 'a) cache_env \<Rightarrow> 'a eval_cache option \<Rightarrow> 'a eval_key option \<Rightarrow> int \<Rightarrow> 'a option" where
  "checkEvalCache ce cache key time = (case (cache, key) of
     (Some c, Some k) \<Rightarrow> (case c k of
         None \<Rightarrow> None
       | Some result \<Rightarrow> if ec_expires result < time then None else Some (evalCacheResult_Value ce result))
   | _ \<Rightarrow> None)"

definition putEvalCache :: "('v, 'a) cache_env \<Rightarrow> 'a eval_cache option \<Rightarrow> 'a eval_key option \<Rightarrow> 'a \<Rightarrow> int \<Rightarrow> 'a eval_cache option" where
  "putEvalCache ce cache key value time = (case (cache, key) of
     (Some c, Some k) \<Rightarrow> (case ce_config ce of
         None \<Rightarrow> cache
       | Some (_, ttl) \<Rightarrow> Some (c(k \<mapsto> newEvalCacheResult ce value (time + ttl))))
   | _ \<Rightarrow> cache)"

section \<open>Eval\<close>

text \<open>\<open>Statistics\<close> of statistics.go. The caller puts one into the context of the query; it is the same object for all
  queries of that context, so the counters of a query go on from those of the one before.\<close>

record Statistics =
  st_EvalInstructions :: int
  st_VirtualCacheHits :: int
  st_VirtualCacheMisses :: int

text \<open>The options of a query, with the statistics its context holds (\<open>StatisticsGet\<close> panics in a context that
  holds none).  \<open>eo_FromInterface\<close> is the conversion of the input, Go's native data, to a value.\<close>

record ('v, 'a, 'e, 'i) EvalOpts =
  eo_Input :: "'i option"
  eo_FromInterface :: "'i \<Rightarrow> ('e + 'v) option"
  eo_Time :: int
  eo_Limits :: "int option"
  eo_StrictBuiltinErrors :: bool
  eo_NDBCache :: "(gostring \<times> 'a list \<rightharpoonup> 'a) option"
  eo_InterQueryBuiltinCache :: "'a eval_cache option"
  eo_Statistics :: Statistics

definition DefaultLimits :: int where "DefaultLimits = 100000000"

definition new_globals :: "('v, 'a, 'e) ops \<Rightarrow> ('v, 'a, 'e, 'i) EvalOpts \<Rightarrow> ('v, 'a, 'e) Globals" where
  "new_globals ops opts = \<lparr>g_memoize = [Map.empty], g_ResultSet = op_MakeSet ops, g_BuiltinErrors = [],
     g_IntermediateResults = Map.empty, g_NDBCache = eo_NDBCache opts, g_checks = 0,
     g_EvalInstructions = st_EvalInstructions (eo_Statistics opts),
     g_VirtualCacheHits = st_VirtualCacheHits (eo_Statistics opts),
     g_VirtualCacheMisses = st_VirtualCacheMisses (eo_Statistics opts)\<rparr>"

definition statistics :: "('v, 'a, 'e) Globals \<Rightarrow> Statistics" where
  "statistics g = \<lparr>st_EvalInstructions = g_EvalInstructions g, st_VirtualCacheHits = g_VirtualCacheHits g,
     st_VirtualCacheMisses = g_VirtualCacheMisses g\<rparr>"

text \<open>The input of the query as a value.\<close>

definition eval_input :: "('v, 'a, 'e, 'i) EvalOpts \<Rightarrow> ('e + 'v option) option" where
  "eval_input opts = (case eo_Input opts of
     None \<Rightarrow> Some (Inr None)
   | Some x \<Rightarrow> do { r \<leftarrow> eo_FromInterface opts x; case r of Inl e \<Rightarrow> Some (Inl e) | Inr v \<Rightarrow> Some (Inr (Some v)) })"

text \<open>The part of \<open>Eval\<close> for the plan found, given how to execute it: input, cache, execution, result.
  The result comes with the cache and the statistics after the query.\<close>

definition eval_found :: "('v, 'a, 'e) env \<Rightarrow> ('v, 'a) cache_env \<Rightarrow> ('v, 'a, 'e, 'i) EvalOpts \<Rightarrow> int \<Rightarrow>
    (('v, 'a, 'e) env \<Rightarrow> ('v, 'a, 'e) State \<Rightarrow> ('v, 'a, 'e) fun_outcome) \<Rightarrow>
    (('e vm_error + 'a) \<times> 'a eval_cache option \<times> Statistics) option" where
  "eval_found env ce opts i run = do {
     let ops = env_ops env;
     let cache = eo_InterQueryBuiltinCache opts;
     let stats = eo_Statistics opts;
     r \<leftarrow> eval_input opts;
     case r of
       Inl e \<Rightarrow> Some (Inl (OpError e), cache, stats)
     | Inr input \<Rightarrow> do {
         r \<leftarrow> getEvalCacheKey ops ce i input;
         case r of
           Inl e \<Rightarrow> Some (Inl (OpError e), cache, stats)
         | Inr cacheKey \<Rightarrow> (case checkEvalCache ce cache cacheKey (eo_Time opts) of
             Some result \<Rightarrow> Some (Inr result, cache, stats)
           | None \<Rightarrow> do {
               let env = env\<lparr>env_Input := input,
                   env_Instructions := (case eo_Limits opts of Some l \<Rightarrow> l | None \<Rightarrow> DefaultLimits)\<rparr>;
               (err, s) \<leftarrow> run env (newState env (new_globals ops opts));
               let stats = statistics (s_Globals s);
               case err of
                 Some e \<Rightarrow> Some (Inl e, cache, stats)
               | None \<Rightarrow>
                   if eo_StrictBuiltinErrors opts \<and> g_BuiltinErrors (s_Globals s) \<noteq> []
                   then Some (Inl (hd (g_BuiltinErrors (s_Globals s))), cache, stats)
                   else do {
                     r \<leftarrow> op_ToAST ops (Some (g_ResultSet (s_Globals s)));
                     case r of
                       Inl e \<Rightarrow> Some (Inl (OpError e), cache, stats)
                     | Inr v \<Rightarrow> Some (Inr v, putEvalCache ce cache cacheKey v (eo_Time opts), stats) } }) } }"

fun eval_plans :: "('v, 'a, 'e) env \<Rightarrow> ('v, 'a) cache_env \<Rightarrow> ('v, 'a, 'e, 'i) EvalOpts \<Rightarrow> nat \<Rightarrow> gostring \<Rightarrow> bytes \<Rightarrow> nat \<Rightarrow> nat \<Rightarrow>
    (('e vm_error + 'a) \<times> 'a eval_cache option \<times> Statistics) option" where
  "eval_plans env ce opts fuel name plans i 0 = Some (Inl ErrQueryNotFound, eo_InterQueryBuiltinCache opts, eo_Statistics opts)"
| "eval_plans env ce opts fuel name plans i (Suc k) = do {
     plan \<leftarrow> plans_Plan plans (int i);
     n \<leftarrow> plan_Name plan;
     if n \<noteq> name then eval_plans env ce opts fuel name plans (Suc i) k
     else eval_found env ce opts (int i) (\<lambda>env s. plan_Execute env (statement_Execute env fuel) plan s) }"

definition VM_Eval :: "('v, 'a, 'e) env \<Rightarrow> ('v, 'a) cache_env \<Rightarrow> nat \<Rightarrow> gostring \<Rightarrow> ('v, 'a, 'e, 'i) EvalOpts \<Rightarrow>
    (('e vm_error + 'a) \<times> 'a eval_cache option \<times> Statistics) option" where
  "VM_Eval env ce fuel name opts = do {
     valid \<leftarrow> Executable_IsValid (env_executable env);
     if \<not> valid then Some (Inl ErrInvalidExecutable, eo_InterQueryBuiltinCache opts, eo_Statistics opts)
     else do {
       plans \<leftarrow> Executable_Plans (env_executable env);
       n \<leftarrow> plans_Len plans;
       eval_plans env ce opts fuel name plans 0 (nat n) } }"

section \<open>Properties of the cache\<close>

lemma check_after_put:
  assumes "\<And>v. ce_MustParseTerm ce (ce_String ce v) = v" and "ce_config ce = Some (paths, ttl)"
  shows "checkEvalCache ce (putEvalCache ce (Some c) (Some k) v t) (Some k') t' =
    (if k' = k then if t + ttl < t' then None else Some v else checkEvalCache ce (Some c) (Some k') t')"
  using assms by (simp add: checkEvalCache_def putEvalCache_def newEvalCacheResult_def evalCacheResult_Value_def)

lemma cache_values_present:
  assumes "\<And>path. path \<in> set paths \<Longrightarrow> \<exists>v. cache_walk ce path (Some input) = (Some v, []) \<and> op_ToAST ops (Some v) = Some (Inr (ast v))"
  shows "cache_values ops ce paths input = Some (Inr (map (\<lambda>path. ast (the (fst (cache_walk ce path (Some input))))) paths))"
  using assms
proof (induction paths)
  case (Cons path paths)
  then obtain v where "cache_walk ce path (Some input) = (Some v, [])" "op_ToAST ops (Some v) = Some (Inr (ast v))"
    using Cons.prems [of path] by auto
  moreover have "cache_values ops ce paths input = Some (Inr (map (\<lambda>path. ast (the (fst (cache_walk ce path (Some input))))) paths))"
    using Cons.prems by (intro Cons.IH) simp
  ultimately show ?case by simp
qed simp

lemma cache_values_panic:
  assumes "fst (cache_walk ce path (Some input)) = None" and "op_ToAST ops None = None"
    and "\<And>q. q \<in> set before \<Longrightarrow> \<exists>a. op_ToAST ops (fst (cache_walk ce q (Some input))) = Some (Inr a)"
  shows "cache_values ops ce (before @ path # after) input = None"
  using assms(3)
proof (induction before)
  case Nil
  then show ?case using assms(1,2) by (auto split: prod.split)
next
  case (Cons q before)
  then obtain a where "op_ToAST ops (fst (cache_walk ce q (Some input))) = Some (Inr a)" by auto
  moreover have "cache_values ops ce (before @ path # after) input = None" using Cons by simp
  ultimately show ?case by (simp add: case_prod_beta)
qed

end
