(* ===== verification/Compile_Correct.thy ===== *)
theory Compile_Correct
  imports Simulation VM_Eval
begin

text \<open>
  The compiler and the machine together implement the meaning of a policy: a query evaluated on the
  compiled executable gives, step for step, what the plan of that name means.
\<close>

section \<open>Plans\<close>

lemma compile_plan_list_nth:
  "compile_plan_list fi ps = Some (Inr ds) \<Longrightarrow>
   length ds = length ps \<and> (\<forall>j < length ps. compilePlan fi (ps ! j) = Some (Inr (ds ! j)))"
proof (induction ps arbitrary: ds)
  case (Cons q ps)
  then obtain d ds' where "ds = d # ds'" "compilePlan fi q = Some (Inr d)" "compile_plan_list fi ps = Some (Inr ds')"
    by (auto simp: and_then_Inr)
  then show ?case using Cons.IH by (auto simp: less_Suc_eq_0_disj)
qed simp

lemma plan_open:
  assumes "compilePlan fi pl = Some (Inr d)" and "length d < 2 ^ 24"
  obtains bd where "compileBlocks fi (pl_Blocks pl) = Some (Inr bd)" and "length bd < 2 ^ 24"
    and "plan_Name (d @ r) = Some (pl_Name pl)" and "plan_Blocks (d @ r) = Some (bd @ r)"
proof -
  obtain bd where bd: "compileBlocks fi (pl_Blocks pl) = Some (Inr bd)" "plan_Write (pl_Name pl) bd = Some d"
    using assms(1) by (auto simp: compilePlan_def and_then_Inr)
  have "length bd < 2 ^ 24" using bd(2) assms(2) by (auto simp: plan_Write_eq)
  moreover have "bd \<noteq> []" using bd(1) blocks_Write_length by (fastforce simp: compileBlocks_def and_then_Inr)
  ultimately show thesis using that bd plan_read [OF bd(2)] assms(2) by simp
qed

lemma plan_sim:
  assumes "runs be p env" and "index_ok p fi" and "compilePlan fi pl = Some (Inr d)" and "length d < 2 ^ 24"
    and "list_all (list_all wf_stmt) (pl_Blocks pl)"
  shows "plan_Execute env (statement_Execute env fuel) (d @ r) s = ir_plan be env p fuel pl s"
proof -
  obtain bd where bd: "compileBlocks fi (pl_Blocks pl) = Some (Inr bd)" "length bd < 2 ^ 24"
    and rd: "plan_Blocks (d @ r) = Some (bd @ r)"
    by (rule plan_open [OF assms(3,4)]) blast
  obtain ds where len: "blocks_Len (bd @ r) = Some (int (length (pl_Blocks pl)))"
    and nth: "\<And>j. j < length (pl_Blocks pl) \<Longrightarrow> compileBlock fi (pl_Blocks pl ! j) = Some (Inr (ds ! j)) \<and>
      length (ds ! j) < 2 ^ 24 \<and> blocks_Block (bd @ r) (int j) = Some (ds ! j @ concat (drop (Suc j) ds) @ r)"
    by (rule blocks_open [OF bd]) blast
  have "plan_blocks env (statement_Execute env fuel) (bd @ r) 0 (length (pl_Blocks pl)) s =
     ir_plan_blocks env (ir_exec be env p fuel) (pl_Blocks pl) s"
    using statement_sim [OF assms(1)] assms(2,5) nth
    by (intro blocks_loop_sim(3) [where rs = "\<lambda>j. concat (drop (Suc j) ds) @ r"]) auto
  then show ?thesis by (simp add: plan_Execute_def ir_plan_def rd len)
qed

section \<open>Queries\<close>

definition ir_eval :: "builtin_env \<Rightarrow> ('v, 'a, 'e) env \<Rightarrow> ('v, 'a) cache_env \<Rightarrow> policy \<Rightarrow> nat \<Rightarrow> gostring \<Rightarrow> ('v, 'a, 'e, 'i) EvalOpts \<Rightarrow>
    (('e vm_error + 'a) \<times> 'a eval_cache option \<times> Statistics) option" where
  "ir_eval be env ce p fuel name opts = (case position name (map pl_Name (po_Plans p)) of
     None \<Rightarrow> Some (Inl ErrQueryNotFound, eo_InterQueryBuiltinCache opts, eo_Statistics opts)
   | Some i \<Rightarrow> eval_found env ce opts (int i) (\<lambda>env s. ir_plan be env p fuel (po_Plans p ! i) s))"

lemma eval_found_cong:
  assumes "\<And>env' s. env_executable env' = env_executable env \<Longrightarrow> run env' s = run' env' s"
  shows "eval_found env ce opts i run = eval_found env ce opts i run'"
proof -
  have run: "run (env\<lparr>env_Input := a, env_Instructions := b\<rparr>) s = run' (env\<lparr>env_Input := a, env_Instructions := b\<rparr>) s" for a b s
    by (rule assms) simp
  show ?thesis unfolding eval_found_def Let_def run ..
qed

lemma eval_plans_sim:
  assumes "runs be p env" and "compile_plan_list (index_of (ir_names p)) (po_Plans p) = Some (Inr ds)"
    and "\<And>j. j < length ds \<Longrightarrow> plans_Plan P (int j) = Some (ds ! j @ rs j) \<and> length (ds ! j) < 2 ^ 24"
    and "i \<le> length (po_Plans p)"
  shows "eval_plans env ce opts fuel name P i (length (po_Plans p) - i) =
    (case position name (drop i (map pl_Name (po_Plans p))) of
       None \<Rightarrow> Some (Inl ErrQueryNotFound, eo_InterQueryBuiltinCache opts, eo_Statistics opts)
     | Some k \<Rightarrow> eval_found env ce opts (int (i + k)) (\<lambda>env s. ir_plan be env p fuel (po_Plans p ! (i + k)) s))"
  using assms(4)
proof (induction "length (po_Plans p) - i" arbitrary: i)
  case (Suc m)
  note nth = compile_plan_list_nth [OF assms(2)]
  have i: "i < length (po_Plans p)" "length (po_Plans p) - i = Suc (length (po_Plans p) - Suc i)" using Suc by auto
  have IH: "eval_plans env ce opts fuel name P (Suc i) (length (po_Plans p) - Suc i) =
    (case position name (drop (Suc i) (map pl_Name (po_Plans p))) of
       None \<Rightarrow> Some (Inl ErrQueryNotFound, eo_InterQueryBuiltinCache opts, eo_Statistics opts)
     | Some k \<Rightarrow> eval_found env ce opts (int (Suc i + k)) (\<lambda>env s. ir_plan be env p fuel (po_Plans p ! (Suc i + k)) s))"
    using Suc i by (intro Suc.hyps(1)) auto
  have pl: "plans_Plan P (int i) = Some (ds ! i @ rs i)" "compilePlan (index_of (ir_names p)) (po_Plans p ! i) = Some (Inr (ds ! i))"
    "length (ds ! i) < 2 ^ 24"
    using assms(3) nth i(1) by auto
  have name: "plan_Name (ds ! i @ rs i) = Some (pl_Name (po_Plans p ! i))"
    by (rule plan_open [OF pl(2,3)]) blast
  have wf: "list_all (list_all wf_stmt) (pl_Blocks (po_Plans p ! i))"
    using assms(1) i(1) by (simp add: runs_def wf_policy_def list_all_length)
  have idx: "index_ok p (index_of (ir_names p))" using index_ok_prefix [of p "ir_names p" "[]"] by simp
  have run: "eval_found env ce opts (int i) (\<lambda>env s. plan_Execute env (statement_Execute env fuel) (ds ! i @ rs i) s) =
     eval_found env ce opts (int i) (\<lambda>env s. ir_plan be env p fuel (po_Plans p ! i) s)"
  proof (rule eval_found_cong)
    fix env' :: "('a, 'b, 'c) env" and s
    assume "env_executable env' = env_executable env"
    then have "runs be p env'" using assms(1) by (simp add: runs_def)
    then show "plan_Execute env' (statement_Execute env' fuel) (ds ! i @ rs i) s = ir_plan be env' p fuel (po_Plans p ! i) s"
      by (rule plan_sim [OF _ idx pl(2,3) wf])
  qed
  show ?case
    unfolding i(2) eval_plans.simps using i(1) IH
    by (cases "position name (drop (Suc i) (map pl_Name (po_Plans p)))") (simp_all add: pl(1) name run position_drop del: of_nat_add)
qed simp

lemma VM_Eval_sim:
  assumes "runs be p env"
  shows "VM_Eval env ce fuel name opts = ir_eval be env ce p fuel name opts"
proof -
  have asm: "Compile be p = Some (Inr (env_executable env))" "length (env_executable env) < 2 ^ 24" "distinct (ir_names p)"
    using assms by (auto simp: runs_def wf_policy_def)
  obtain S F P ds where P: "Executable_Plans (env_executable env) = Some P" "plans_Write ds = Some P"
    "compile_plan_list (index_of (ir_names p)) (po_Plans p) = Some (Inr ds)"
    "Executable_IsValid (env_executable env) = Some True"
    "length (env_executable env) = 24 + length (S :: bytes) + length (F :: bytes) + length P"
    by (rule Compile_layout [OF asm]) blast
  have len: "length P = 4 + 4 * length ds + length (concat ds)" using P(2) by (rule plans_Write_length)
  have small: "length P < 2 ^ 32" "4 + 4 * length ds < 2 ^ 32" using len P(5) asm(2) by auto
  note rd = plans_read [OF P(2) small, where r = "[]"]
  have n: "length ds = length (po_Plans p)" using compile_plan_list_nth [OF P(3)] by simp
  have "length (ds ! j) < 2 ^ 24" if "j < length ds" for j
  proof -
    have "length (ds ! j) \<le> length (concat ds)" using that by (simp add: length_concat member_le_sum_list nth_mem)
    then show ?thesis using len P(5) asm(2) by simp
  qed
  then have "eval_plans env ce opts fuel name P 0 (length (po_Plans p) - 0) =
    (case position name (drop 0 (map pl_Name (po_Plans p))) of
       None \<Rightarrow> Some (Inl ErrQueryNotFound, eo_InterQueryBuiltinCache opts, eo_Statistics opts)
     | Some k \<Rightarrow> eval_found env ce opts (int (0 + k)) (\<lambda>env s. ir_plan be env p fuel (po_Plans p ! (0 + k)) s))"
    using rd(2) by (intro eval_plans_sim [OF assms P(3), where rs = "\<lambda>j. concat (drop (Suc j) ds)"]) auto
  then show ?thesis using rd(1) by (simp add: VM_Eval_def P(1,4) n ir_eval_def split: option.split)
qed

end
