(* ===== verification/Termination.thy ===== *)
theory Termination
  imports Compile_Checks Compile_Correct
begin

text \<open>
  The bound on the depth of execution.  More fuel never changes a result.  When a policy makes no dynamic
  calls, execution of its compiled form ends within a depth computed from the policy, because a function can
  only call functions before it: with that much fuel the bottom of the recursion is not reached, whatever is
  put there.
\<close>

section \<open>What a statement depends on\<close>

definition max_list :: "nat list \<Rightarrow> nat" where
  "max_list ns = foldr max ns 0"

lemma max_list_ge: "n \<in> set ns \<Longrightarrow> n \<le> max_list ns"
  by (induction ns) (auto simp: max_list_def)

lemma max_list_map_cong [fundef_cong]:
  "xs = ys \<Longrightarrow> (\<And>x. x \<in> set ys \<Longrightarrow> f x = g x) \<Longrightarrow> max_list (map f xs) = max_list (map g ys)"
  by (metis map_cong)

fun stmt_depth :: "stmt \<Rightarrow> nat" where
  "stmt_depth (ScanStmt a k v b) = Suc (max_list (map stmt_depth b))"
| "stmt_depth (BlockStmt bs) = Suc (max_list (map (\<lambda>b. max_list (map stmt_depth b)) bs))"
| "stmt_depth (NotStmt b) = Suc (max_list (map stmt_depth b))"
| "stmt_depth (WithStmt l path v b) = Suc (max_list (map stmt_depth b))"
| "stmt_depth stmt = 1"

fun stmt_static :: "stmt \<Rightarrow> bool" where
  "stmt_static (ScanStmt a k v b) = list_all stmt_static b"
| "stmt_static (BlockStmt bs) = list_all (list_all stmt_static) bs"
| "stmt_static (NotStmt b) = list_all stmt_static b"
| "stmt_static (WithStmt l path v b) = list_all stmt_static b"
| "stmt_static (CallDynamicStmt as t path) = False"
| "stmt_static stmt = True"

definition static_policy :: "policy \<Rightarrow> bool" where
  "static_policy p \<longleftrightarrow> list_all (\<lambda>fn. list_all (list_all stmt_static) (fn_Blocks fn)) (po_Funcs p) \<and>
     list_all (\<lambda>pl. list_all (list_all stmt_static) (pl_Blocks pl)) (po_Plans p)"

definition blocks_depth :: "block list \<Rightarrow> nat" where
  "blocks_depth bs = max_list (map stmt_depth (concat bs))"

definition policy_depth :: "policy \<Rightarrow> nat" where
  "policy_depth p = max (max_list (map (\<lambda>fn. blocks_depth (fn_Blocks fn)) (po_Funcs p)))
     (max_list (map (\<lambda>pl. blocks_depth (pl_Blocks pl)) (po_Plans p)))"

text \<open>Every function can be on the stack once, and the plan below them.\<close>

definition fuel_bound :: "policy \<Rightarrow> nat" where
  "fuel_bound p = Suc (length (ir_names p)) * policy_depth p"

fun subs :: "policy \<Rightarrow> stmt \<Rightarrow> stmt set" where
  "subs p (ScanStmt a k v b) = set b"
| "subs p (BlockStmt bs) = set (concat bs)"
| "subs p (NotStmt b) = set b"
| "subs p (WithStmt l path v b) = set b"
| "subs p (CallDynamicStmt as t path) = (\<Union>fn \<in> set (po_Funcs p). set (concat (fn_Blocks fn)))"
| "subs p (CallStmt f as t) = (case position f (ir_names p) of
     None \<Rightarrow> {}
   | Some i \<Rightarrow> if i < length (po_BuiltinFuncs p) then {}
       else set (concat (fn_Blocks (po_Funcs p ! (i - length (po_BuiltinFuncs p))))))"
| "subs p stmt = {}"

section \<open>Execution depends on nothing else\<close>

lemma ir_loop_cong:
  "(\<And>t s. t \<in> set b \<Longrightarrow> ex t s = ex' t s) \<Longrightarrow> ir_loop env ex i instr b s = ir_loop env ex' i instr b s"
proof (induction b arbitrary: i instr s)
  case (Cons x xs)
  then have "ex x = ex' x" and "\<And>i instr s. ir_loop env ex i instr xs s = ir_loop env ex' i instr xs s" by auto
  then show ?case by (simp only: ir_loop.simps)
qed simp

lemma ir_block_cong:
  "(\<And>t s. t \<in> set b \<Longrightarrow> ex t s = ex' t s) \<Longrightarrow> ir_block env ex b s = ir_block env ex' b s"
  using ir_loop_cong [of b ex ex'] unfolding ir_block_def by presburger

lemma ir_blocks_cong:
  assumes "\<And>t s. t \<in> set (concat bs) \<Longrightarrow> ex t s = ex' t s"
  shows "ir_blocks env ex bs r s = ir_blocks env ex' bs r s"
    and "ir_function_blocks env ex bs s = ir_function_blocks env ex' bs s"
    and "ir_plan_blocks env ex bs s = ir_plan_blocks env ex' bs s"
proof -
  have b: "ir_block env ex b s = ir_block env ex' b s" if "b \<in> set bs" for b s
    using assms that by (intro ir_block_cong) auto
  show "ir_blocks env ex bs r s = ir_blocks env ex' bs r s"
    using b by (induction bs arbitrary: r s) (auto intro!: bind_same)
  show "ir_function_blocks env ex bs s = ir_function_blocks env ex' bs s"
    using b by (induction bs arbitrary: s) (auto intro!: bind_same)
  show "ir_plan_blocks env ex bs s = ir_plan_blocks env ex' bs s"
    using b by (induction bs arbitrary: s) (auto simp: Let_def intro!: bind_same split: option.split prod.split)
qed

lemma ir_seq_cong:
  "(\<And>t s. t \<in> set b \<Longrightarrow> ex t s = ex' t s) \<Longrightarrow> ir_seq ex b s = ir_seq ex' b s"
proof (induction b arbitrary: s)
  case (Cons x xs)
  then have "ex x = ex' x" and "\<And>s. ir_seq ex xs s = ir_seq ex' xs s" by auto
  then show ?case by (simp only: ir_seq.simps)
qed simp

lemma ir_scan_loop_cong:
  "(\<And>t s. t \<in> set b \<Longrightarrow> ex t s = ex' t s) \<Longrightarrow>
   ir_scan_loop env ex key v b kvs ierr s = ir_scan_loop env ex' key v b kvs ierr s"
proof (induction kvs arbitrary: s)
  case (Cons kv kvs)
  have "ir_block env ex b = ir_block env ex' b" using Cons.prems by (intro ext ir_block_cong) auto
  moreover have "ir_scan_loop env ex key v b kvs ierr = ir_scan_loop env ex' key v b kvs ierr"
    using Cons by (intro ext) auto
  ultimately show ?case by (cases kv) (simp only: ir_scan_loop.simps)
qed simp

lemma ir_function_cong:
  assumes "\<And>t s. t \<in> set (concat (fn_Blocks fn)) \<Longrightarrow> ex t s = ex' t s"
  shows "ir_function env ex i fn s args = ir_function env ex' i fn s args"
proof -
  have "ir_function_blocks env ex (fn_Blocks fn) = ir_function_blocks env ex' (fn_Blocks fn)"
    using assms by (intro ext ir_blocks_cong(2))
  then show ?thesis by (simp only: ir_function_def)
qed

lemma ir_step_cong:
  assumes "\<And>t s. t \<in> subs p stmt \<Longrightarrow> ex t s = ex' t s"
  shows "ir_step be env p ex stmt s = ir_step be env p ex' stmt s"
proof (cases stmt)
  case (ScanStmt a k v b)
  with assms have "ir_scan_loop env ex k v b = ir_scan_loop env ex' k v b" by (intro ext ir_scan_loop_cong) auto
  with ScanStmt show ?thesis by (simp add: ir_step_def ir_scan_def)
next
  case (BlockStmt bs)
  with assms have "ir_blocks env ex bs = ir_blocks env ex' bs" by (intro ext ir_blocks_cong(1)) auto
  with BlockStmt show ?thesis by (simp add: ir_step_def)
next
  case (NotStmt b)
  with assms have "ir_seq ex b = ir_seq ex' b" by (intro ext ir_seq_cong) auto
  with NotStmt show ?thesis by (simp add: ir_step_def ir_not_def)
next
  case (WithStmt l path v b)
  with assms have "ir_seq ex b = ir_seq ex' b" by (intro ext ir_seq_cong) auto
  then have "ir_with env p ex l path v b s = ir_with env p ex' l path v b s" by (simp only: ir_with_def)
  with WithStmt show ?thesis by (simp add: ir_step_def)
next
  case (CallDynamicStmt as t path)
  have fn: "ir_function env ex i (po_Funcs p ! j) = ir_function env ex' i (po_Funcs p ! j)" if "j < length (po_Funcs p)" for i j
    using that by (intro ext ir_function_cong assms) (auto simp: CallDynamicStmt intro!: bexI [of _ "po_Funcs p ! j"])
  have "position segs (map fn_Path (po_Funcs p)) = Some j \<Longrightarrow> j < length (po_Funcs p)" for segs j
    using position_Some [of segs "map fn_Path (po_Funcs p)" j] by simp
  with CallDynamicStmt fn show ?thesis
    by (auto simp: ir_step_def ir_call_dynamic_def Let_def intro!: bind_same split: sum.split option.split)
next
  case (CallStmt f as t)
  have "ir_apply be env p ex i = ir_apply be env p ex' i" if "position f (ir_names p) = Some i" for i
    using assms that CallStmt
    by (intro ext) (auto simp: ir_apply_def Let_def intro!: ir_function_cong split: if_splits)
  with CallStmt show ?thesis by (auto simp: ir_step_def ir_call_def intro!: bind_same)
qed (simp_all add: ir_step_def)

section \<open>Policies without dynamic calls\<close>

lemma depth_pos: "0 < stmt_depth stmt"
  by (cases stmt) simp_all

lemma nested_depth:
  assumes "t \<in> subs p stmt" and "\<And>f as r. stmt \<noteq> CallStmt f as r" and "stmt_static stmt" and "stmt_ok known stmt"
  shows "stmt_depth t < stmt_depth stmt \<and> stmt_static t \<and> stmt_ok known t"
  using assms
proof (cases stmt)
  case (BlockStmt bs)
  with assms(1) obtain b where b: "b \<in> set bs" "t \<in> set b" by auto
  then have "stmt_depth t \<le> max_list (map stmt_depth b)" by (intro max_list_ge) simp
  also have "\<dots> \<le> max_list (map (\<lambda>b. max_list (map stmt_depth b)) bs)" using b by (intro max_list_ge) simp
  finally show ?thesis using assms b BlockStmt by (auto simp: list_all_iff)
qed (auto simp: list_all_iff less_Suc_eq_le intro!: max_list_ge)

lemma function_depth:
  assumes "fn \<in> set (po_Funcs p)" and "t \<in> set (concat (fn_Blocks fn))"
  shows "stmt_depth t \<le> policy_depth p"
proof -
  have "stmt_depth t \<le> blocks_depth (fn_Blocks fn)"
    unfolding blocks_depth_def using assms(2) by (intro max_list_ge) auto
  also have "\<dots> \<le> max_list (map (\<lambda>fn. blocks_depth (fn_Blocks fn)) (po_Funcs p))"
    using assms(1) by (intro max_list_ge) simp
  finally show ?thesis by (simp add: policy_depth_def)
qed

lemma plan_depth:
  assumes "pl \<in> set (po_Plans p)" and "t \<in> set (concat (pl_Blocks pl))"
  shows "stmt_depth t \<le> policy_depth p"
proof -
  have "stmt_depth t \<le> blocks_depth (pl_Blocks pl)"
    unfolding blocks_depth_def using assms(2) by (intro max_list_ge) auto
  also have "\<dots> \<le> max_list (map (\<lambda>pl. blocks_depth (pl_Blocks pl)) (po_Plans p))"
    using assms(1) by (intro max_list_ge) simp
  finally show ?thesis by (simp add: policy_depth_def)
qed

text \<open>A call goes to one of the \<open>k\<close> functions known, whose statements know only those before it.\<close>

lemma called_stmts:
  assumes "policy_ok be p" and "static_policy p" and "distinct (ir_names p)" and "k \<le> length (ir_names p)"
    and "stmt_ok (\<lambda>f. f \<in> set (take k (ir_names p))) (CallStmt f as r)" and "t \<in> subs p (CallStmt f as r)"
  obtains i where "i < k" "stmt_depth t \<le> policy_depth p" "stmt_static t" "stmt_ok (\<lambda>f. f \<in> set (take i (ir_names p))) t"
proof -
  let ?nb = "length (po_BuiltinFuncs p)"
  obtain i where i: "i < k" "ir_names p ! i = f" using assms(4,5) by (auto simp: in_set_conv_nth)
  then have pos: "position f (ir_names p) = Some i" using position_nth [OF assms(3), of i] assms(4) by simp
  then have nb: "?nb \<le> i" and t: "t \<in> set (concat (fn_Blocks (po_Funcs p ! (i - ?nb))))"
    using assms(6) by (auto split: if_splits)
  have j: "i - ?nb < length (po_Funcs p)" using nb i(1) assms(4) by (simp add: ir_names_def)
  have "stmt_static t" using assms(2) t nth_mem [OF j] by (auto simp: static_policy_def list_all_iff)
  moreover have "stmt_ok (\<lambda>f. f \<in> set (take i (ir_names p))) t"
    using assms(1) j t nb by (auto simp: policy_ok_def list_all_iff)
  ultimately show thesis using that [OF i(1)] function_depth [OF nth_mem [OF j] t] by blast
qed

lemma enough_fuel:
  assumes "policy_ok be p" and "static_policy p" and "distinct (ir_names p)"
  shows "stmt_static stmt \<Longrightarrow> stmt_ok (\<lambda>f. f \<in> set (take k (ir_names p))) stmt \<Longrightarrow> k \<le> length (ir_names p) \<Longrightarrow>
    stmt_depth stmt + k * policy_depth p \<le> fuel \<Longrightarrow>
    (ir_step be env p ^^ fuel) ex0 stmt s = (ir_step be env p ^^ fuel) ex1 stmt s"
proof (induction fuel arbitrary: stmt k s)
  case 0
  then show ?case using depth_pos [of stmt] by simp
next
  case (Suc fuel)
  have "(ir_step be env p ^^ fuel) ex0 t s' = (ir_step be env p ^^ fuel) ex1 t s'" if t: "t \<in> subs p stmt" for t s'
  proof (cases "\<exists>f as r. stmt = CallStmt f as r")
    case True
    then obtain f as r where stmt: "stmt = CallStmt f as r" by blast
    obtain i where i: "i < k" "stmt_depth t \<le> policy_depth p" "stmt_static t" "stmt_ok (\<lambda>f. f \<in> set (take i (ir_names p))) t"
      by (rule called_stmts [OF assms Suc.prems(3,2) [unfolded stmt] t [unfolded stmt]])
    have "Suc i * policy_depth p \<le> k * policy_depth p" using i(1) by (intro mult_le_mono1) simp
    then have "stmt_depth t + i * policy_depth p \<le> fuel" using i(2) Suc.prems(4) stmt by simp
    then show ?thesis using Suc.IH [OF i(3,4)] i(1) Suc.prems(3) by simp
  next
    case False
    then have "stmt_depth t < stmt_depth stmt \<and> stmt_static t \<and> stmt_ok (\<lambda>f. f \<in> set (take k (ir_names p))) t"
      using nested_depth [OF t _ Suc.prems(1,2)] by blast
    then show ?thesis using Suc.IH [of t k] Suc.prems(3,4) by simp
  qed
  then show ?case by (simp add: ir_step_cong [of p stmt "(ir_step be env p ^^ fuel) ex0" "(ir_step be env p ^^ fuel) ex1"])
qed

lemma ir_exec_funpow: "ir_exec be env p fuel = (ir_step be env p ^^ fuel) (\<lambda>stmt s. None)"
  by (induction fuel) simp_all

text \<open>The meaning of a query with another bottom of the recursion.\<close>

definition ir_eval_from :: "(('v, 'a, 'e) env \<Rightarrow> ('v, 'a, 'e) ir_executor) \<Rightarrow> builtin_env \<Rightarrow> ('v, 'a, 'e) env \<Rightarrow> ('v, 'a) cache_env \<Rightarrow>
    policy \<Rightarrow> nat \<Rightarrow> gostring \<Rightarrow> ('v, 'a, 'e, 'i) EvalOpts \<Rightarrow> (('e vm_error + 'a) \<times> 'a eval_cache option \<times> Statistics) option" where
  "ir_eval_from bottom be env ce p fuel name opts = (case position name (map pl_Name (po_Plans p)) of
     None \<Rightarrow> Some (Inl ErrQueryNotFound, eo_InterQueryBuiltinCache opts, eo_Statistics opts)
   | Some i \<Rightarrow> eval_found env ce opts (int i) (\<lambda>env s.
       ir_plan_blocks env ((ir_step be env p ^^ fuel) (bottom env)) (pl_Blocks (po_Plans p ! i)) s))"

lemma ir_eval_from_None: "ir_eval be env ce p fuel name opts = ir_eval_from (\<lambda>env stmt s. None) be env ce p fuel name opts"
  unfolding ir_eval_def ir_eval_from_def ir_plan_def ir_exec_funpow ..

lemma ir_eval_from_bottom:
  assumes "policy_ok be p" and "static_policy p" and "distinct (ir_names p)" and "fuel_bound p \<le> fuel"
  shows "ir_eval_from b0 be env ce p fuel name opts = ir_eval_from b1 be env ce p fuel name opts"
proof (cases "position name (map pl_Name (po_Plans p))")
  case (Some i)
  then have i: "i < length (po_Plans p)" using position_Some by fastforce
  let ?pl = "po_Plans p ! i"
  have "(ir_step be env' p ^^ fuel) (b0 env') t s = (ir_step be env' p ^^ fuel) (b1 env') t s"
    if "t \<in> set (concat (pl_Blocks ?pl))" for env' t s
  proof (rule enough_fuel [OF assms(1-3), of t "length (ir_names p)"])
    show "stmt_static t" "stmt_ok (\<lambda>f. f \<in> set (take (length (ir_names p)) (ir_names p))) t"
      using assms(1,2) nth_mem [OF i] that by (auto simp: static_policy_def policy_ok_def list_all_iff)
    show "stmt_depth t + length (ir_names p) * policy_depth p \<le> fuel"
      using plan_depth [OF nth_mem [OF i] that] assms(4) by (simp add: fuel_bound_def)
  qed simp
  then have "ir_plan_blocks env' ((ir_step be env' p ^^ fuel) (b0 env')) (pl_Blocks ?pl) s =
      ir_plan_blocks env' ((ir_step be env' p ^^ fuel) (b1 env')) (pl_Blocks ?pl) s" for env' s
    by (intro ir_blocks_cong(3))
  then show ?thesis unfolding ir_eval_from_def Some option.case by (intro eval_found_cong)
qed (simp add: ir_eval_from_def)

lemma ir_eval_from_more:
  "ir_eval_from b be env ce p (m + n) name opts = ir_eval_from (\<lambda>env. (ir_step be env p ^^ n) (b env)) be env ce p m name opts"
  unfolding ir_eval_from_def funpow_add comp_apply ..

lemma VM_Eval_bottom:
  assumes "runs be p env" and "static_policy p" and "fuel_bound p \<le> fuel"
  shows "VM_Eval env ce fuel name opts = ir_eval_from bottom be env ce p (fuel_bound p) name opts"
proof -
  have ok: "policy_ok be p" "distinct (ir_names p)"
    using assms(1) Compile_sound by (auto simp: runs_def wf_policy_def)
  obtain n where n: "fuel = fuel_bound p + n" using assms(3) le_Suc_ex by blast
  show ?thesis
    unfolding VM_Eval_sim [OF assms(1)] ir_eval_from_None n ir_eval_from_more
    by (rule ir_eval_from_bottom [OF ok(1) assms(2) ok(2) order.refl])
qed

section \<open>More fuel does not change a result\<close>

definition approx :: "'x option \<Rightarrow> 'x option \<Rightarrow> bool" where
  "approx m m' \<longleftrightarrow> (\<forall>r. m = Some r \<longrightarrow> m' = Some r)"

lemma approx_refl [simp, intro!]: "approx m m"
  by (simp add: approx_def)

lemma approx_bind: "approx m m' \<Longrightarrow> (\<And>x. approx (f x) (f' x)) \<Longrightarrow> approx (Option.bind m f) (Option.bind m' f')"
  by (cases m) (auto simp: approx_def)

lemma approx_read: "(\<And>x. approx (f x) (f' x)) \<Longrightarrow> approx (Option.bind m f) (Option.bind m f')"
  by (rule approx_bind) simp_all

definition st_approx :: "('v, 'a, 'e) executor \<Rightarrow> ('v, 'a, 'e) executor \<Rightarrow> bool" where
  "st_approx st st' \<longleftrightarrow> (\<forall>d s. approx (st d s) (st' d s))"

lemma st_approxD: "st_approx st st' \<Longrightarrow> approx (st d s) (st' d s)"
  by (simp add: st_approx_def)

lemma block_loop_approx: "st_approx st st' \<Longrightarrow> approx (block_loop env st i k instr d s) (block_loop env st' i k instr d s)"
  by (induction k arbitrary: i instr d s)
     (auto simp: Let_def intro!: approx_bind st_approxD split: option.split prod.split)

lemma block_approx: "st_approx st st' \<Longrightarrow> approx (block_Execute env st b s) (block_Execute env st' b s)"
  unfolding block_Execute_def Let_def by (intro approx_read approx_bind block_loop_approx) auto

lemma blocks_loop_approx: "st_approx st st' \<Longrightarrow> approx (blocks_loop env st bs i k r s) (blocks_loop env st' bs i k r s)"
  by (induction k arbitrary: i r s) (auto intro!: approx_bind block_approx)

lemma not_loop_approx: "st_approx st st' \<Longrightarrow> approx (not_loop st k d s) (not_loop st' k d s)"
  by (induction k arbitrary: d s) (auto intro!: approx_bind st_approxD)

lemma with_loop_approx: "st_approx st st' \<Longrightarrow> approx (with_loop st k d s) (with_loop st' k d s)"
  by (induction k arbitrary: d s) (auto intro!: approx_bind st_approxD split: option.split)

lemma scan_loop_approx:
  "st_approx st st' \<Longrightarrow> approx (scan_loop env st ky v b kvs ierr s) (scan_loop env st' ky v b kvs ierr s)"
  by (induction kvs arbitrary: s) (auto simp: Let_def intro!: approx_bind block_approx)

lemma function_blocks_approx:
  "st_approx st st' \<Longrightarrow> approx (function_blocks env st bs i k s) (function_blocks env st' bs i k s)"
  by (induction k arbitrary: i s) (auto intro!: approx_bind block_approx)

lemma plan_blocks_approx:
  "st_approx st st' \<Longrightarrow> approx (plan_blocks env st bs i k s) (plan_blocks env st' bs i k s)"
  by (induction k arbitrary: i s) (auto simp: Let_def intro!: approx_bind block_approx split: option.split prod.split)

lemma function_approx:
  "st_approx st st' \<Longrightarrow> approx (function_Execute env st f s args) (function_Execute env st' f s args)"
  unfolding function_Execute_def Let_def
  by (auto intro!: approx_bind function_blocks_approx split: option.split)

lemma dispatch_approx:
  "st_approx st st' \<Longrightarrow> approx (function_dispatch env st f outer inner args) (function_dispatch env st' f outer inner args)"
  unfolding function_dispatch_def by (auto intro!: approx_read function_approx)

lemma call_approx: "st_approx st st' \<Longrightarrow> approx (call_Execute env st c s) (call_Execute env st' c s)"
  unfolding call_Execute_def Let_def by (auto intro!: approx_read approx_bind dispatch_approx)

lemma callDynamic_approx:
  "st_approx st st' \<Longrightarrow> approx (callDynamic_Execute env st c s) (callDynamic_Execute env st' c s)"
  unfolding callDynamic_Execute_def Let_def
  by (auto intro!: approx_read approx_bind function_approx split: sum.split option.split)

lemma with_approx: "st_approx st st' \<Longrightarrow> approx (with_Execute env st w s) (with_Execute env st' w s)"
  unfolding with_Execute_def with_body_def Let_def
  by (auto intro!: approx_bind with_loop_approx split: sum.split)

lemma exs_approx: "st_approx st st' \<Longrightarrow> approx (exs env st t d s) (exs env st' t d s)"
  unfolding exs_def blockStmt_Execute_def not_Execute_def scan_Execute_def Let_def
  by (auto intro!: approx_bind blocks_loop_approx not_loop_approx scan_loop_approx call_approx callDynamic_approx with_approx
      split: prod.split)

lemma statement_approx: "n \<le> m \<Longrightarrow> st_approx (statement_Execute env n) (statement_Execute env m)"
proof (induction n arbitrary: m)
  case (Suc n)
  then obtain m' where "m = Suc m'" "n \<le> m'" by (cases m) auto
  with Suc.IH [of m'] show ?case
    by (auto simp: st_approx_def Let_def intro!: approx_bind exs_approx)
qed (simp add: st_approx_def approx_def)

lemma eval_found_approx:
  assumes "\<And>env s. approx (run env s) (run' env s)"
  shows "approx (eval_found env ce opts i run) (eval_found env ce opts i run')"
  unfolding eval_found_def Let_def
  by (auto intro!: approx_bind assms split: sum.split option.split)

lemma VM_Eval_approx:
  assumes "n \<le> m"
  shows "approx (VM_Eval env ce n name opts) (VM_Eval env ce m name opts)"
proof -
  have "approx (eval_plans env ce opts n name ps i k) (eval_plans env ce opts m name ps i k)" for ps i k
    by (induction k arbitrary: i)
       (auto intro!: approx_bind eval_found_approx simp: plan_Execute_def intro!: plan_blocks_approx statement_approx [OF assms])
  then show ?thesis unfolding VM_Eval_def by (auto intro!: approx_bind)
qed

end
