(* ===== verification/VM_Invariant.thy ===== *)
theory VM_Invariant
  imports VM_Exec
begin

text \<open>
  What execution keeps, whatever bytes it runs on: registers stay well formed, the tables of memoized
  results below the top one are not touched and their number does not change, the instruction counter never
  goes down.  \<open>with\<close> puts the local and the whole stack of tables back, and a call changes one register of the
  caller.
\<close>

definition state_ok :: "('v, 'a, 'e) State \<Rightarrow> bool" where
  "state_ok s \<longleftrightarrow> regs_ok (l_registers (s_locals s)) \<and> g_memoize (s_Globals s) \<noteq> []"

definition keeps :: "('v, 'a, 'e) State \<Rightarrow> ('v, 'a, 'e) State \<Rightarrow> bool" where
  "keeps s s' \<longleftrightarrow> (state_ok s \<longrightarrow> state_ok s' \<and> butlast (g_memoize (s_Globals s')) = butlast (g_memoize (s_Globals s)) \<and>
     g_EvalInstructions (s_Globals s) \<le> g_EvalInstructions (s_Globals s'))"

text \<open>The specialised builtins and \<open>rego.compile\<close> write their result to the state they are given.\<close>

definition builtins_keep :: "('v, 'a, 'e) env \<Rightarrow> bool" where
  "builtins_keep env \<longleftrightarrow>
     (\<forall>n args s r s'. env_specialized env n args s = Some (r, s') \<longrightarrow> keeps s s') \<and>
     (\<forall>outer args s r s'. env_regoCompile env outer args s = Some (r, s') \<longrightarrow> keeps s s')"

section \<open>Operations of the state\<close>

lemma keeps_refl [simp]: "keeps s s"
  by (simp add: keeps_def)

lemma keeps_trans [trans]: "keeps a b \<Longrightarrow> keeps b c \<Longrightarrow> keeps a c"
  by (auto simp: keeps_def)

lemmas op_defs = map_locals_def map_globals_def Let_def

lemma keeps_SetValue: "keeps s a \<Longrightarrow> keeps s (State_SetValue t v a)"
  by (auto simp: keeps_def state_ok_def State_SetValue_def op_defs regs_write_abs)

lemma keeps_SetLocal: "keeps s a \<Longrightarrow> keeps s (State_SetLocal t v a)"
  by (auto simp: keeps_def state_ok_def State_SetLocal_def op_defs regs_copy_abs)

lemma keeps_SetData: "keeps s a \<Longrightarrow> keeps s (State_SetData t a)"
  by (auto simp: keeps_def state_ok_def State_SetData_def op_defs)

lemma keeps_Unset: "keeps s a \<Longrightarrow> keeps s (State_Unset t a)"
  by (auto simp: keeps_def state_ok_def State_Unset_def State_SetValue_def op_defs regs_write_abs)

lemma keeps_SetReturn: "keeps s a \<Longrightarrow> keeps s (State_SetReturn t a)"
  by (auto simp: keeps_def state_ok_def State_SetReturn_def Locals_SetReturn_def op_defs)

lemma keeps_SetReturnValue: "keeps s a \<Longrightarrow> keeps s (State_SetReturnValue t v a)"
  by (auto simp: keeps_def state_ok_def State_SetReturnValue_def State_SetValue_def Locals_SetReturn_def op_defs regs_write_abs)

lemma keeps_Set: "State_Set env t x s = Some b \<Longrightarrow> keeps s b"
  by (auto simp: State_Set_def intro: keeps_SetValue keeps_SetLocal split: if_splits)

lemma keeps_globals:
  "keeps s a \<Longrightarrow> (\<And>g. g_memoize (f g) = g_memoize g) \<Longrightarrow> (\<And>g. g_EvalInstructions (f g) = g_EvalInstructions g) \<Longrightarrow>
   keeps s (map_globals f a)"
  by (auto simp: keeps_def state_ok_def map_globals_def)

lemma keeps_Instr: "State_Instr env i s = (e, s') \<Longrightarrow> 0 \<le> i \<Longrightarrow> keeps s s'"
  by (auto simp: keeps_def state_ok_def State_Instr_def op_defs split: if_splits)

lemma keeps_MemoizeInsert: "State_MemoizeInsert env i as v a = Some b \<Longrightarrow> keeps s a \<Longrightarrow> keeps s b"
  by (auto simp: keeps_def state_ok_def State_MemoizeInsert_def op_defs split: if_splits)

lemma keeps_with_globals: "keeps (State_New env s) inner \<Longrightarrow> keeps s (with_globals_of s inner)"
proof -
  have "s_Globals (State_New env s) = s_Globals s" and "state_ok s \<Longrightarrow> state_ok (State_New env s)"
    by (auto simp: State_New_def newState_def State_SetData_def State_SetValue_def state_ok_def op_defs regs_new regs_write_abs
        split: option.split)
  then show "keeps (State_New env s) inner \<Longrightarrow> keeps s (with_globals_of s inner)"
    by (auto simp: keeps_def with_globals_of_def state_ok_def)
qed

text \<open>A computation keeps the state it starts from.  The first rule is for steps that only read, the second for
  steps that change the state.\<close>

definition keepsM :: "('v, 'a, 'e) State \<Rightarrow> ('r \<times> ('v, 'a, 'e) State) option \<Rightarrow> bool" where
  "keepsM s m \<longleftrightarrow> (\<forall>r s'. m = Some (r, s') \<longrightarrow> keeps s s')"

lemma keepsMD: "keepsM s m \<Longrightarrow> m = Some (r, s') \<Longrightarrow> keeps s s'"
  by (simp add: keepsM_def)

lemma keepsM_read: "(\<And>x. m = Some x \<Longrightarrow> keepsM s (f x)) \<Longrightarrow> keepsM s (Option.bind m f)"
  by (cases m) (simp_all add: keepsM_def)

lemma keepsM_step:
  "keepsM a m \<Longrightarrow> keeps s a \<Longrightarrow> (\<And>r b. m = Some (r, b) \<Longrightarrow> keeps s b \<Longrightarrow> keepsM s (f (r, b))) \<Longrightarrow> keepsM s (Option.bind m f)"
  by (cases m) (auto simp: keepsM_def dest: keeps_trans)

lemma keepsM_None [simp]: "keepsM s None"
  by (simp add: keepsM_def)

lemma keepsM_Some [simp]: "keepsM s (Some (r, a)) = keeps s a"
  by (auto simp: keepsM_def)

lemma keepsM_outcomes [simp]:
  "keepsM s (continue a) = keeps s a" "keepsM s (leave n a) = keeps s a" "keepsM s (raise e a) = keeps s a"
  by (simp_all add: continue_def leave_def raise_def)

lemma keepsM_weaken: "keepsM a m \<Longrightarrow> keeps s a \<Longrightarrow> keepsM s m"
  by (auto simp: keepsM_def intro: keeps_trans)

section \<open>Simple statements\<close>

lemmas keep_intros = keepsM_read keeps_SetValue keeps_SetLocal keeps_SetData keeps_Unset keeps_SetReturn
  keeps_SetReturnValue keeps_globals

lemma keeps_insert_object: "keepsM s (insert_object env obj o' k v s)"
  by (auto simp: insert_object_def intro!: keep_intros split: sum.split)

lemma keeps_equal: "keepsM s (equal_Execute env d s)"
  by (auto simp: equal_Execute_def Let_def intro!: keep_intros split: sum.split)

lemma keeps_simple:
  "keepsM s (nop_Execute d s)" "keepsM s (assignInt_Execute env d s)" "keepsM s (assignVar_Execute env d s)"
  "keepsM s (breakStmt_Execute d s)" "keepsM s (returnLocal_Execute d s)" "keepsM s (isDefined_Execute d s)"
  "keepsM s (isUndefined_Execute d s)" "keepsM s (makeNull_Execute env d s)" "keepsM s (makeNumberInt_Execute env d s)"
  "keepsM s (makeNumberRef_Execute env d s)" "keepsM s (makeArray_Execute env d s)" "keepsM s (makeSet_Execute env d s)"
  "keepsM s (makeObject_Execute env d s)" "keepsM s (resetLocal_Execute d s)"
  by (auto simp: nop_Execute_def assignInt_Execute_def assignVar_Execute_def breakStmt_Execute_def returnLocal_Execute_def
      isDefined_Execute_def isUndefined_Execute_def makeNull_Execute_def makeNumberInt_Execute_def makeNumberRef_Execute_def
      makeArray_Execute_def makeSet_Execute_def makeObject_Execute_def resetLocal_Execute_def intro!: keep_intros
      dest!: keeps_Set)

lemma keeps_assignVarOnce: "keepsM s (assignVarOnce_Execute env d s)"
  by (auto simp: assignVarOnce_Execute_def Let_def intro!: keep_intros dest!: keeps_Set split: sum.split)

lemma keeps_dot: "keepsM s (dot_Execute env d s)"
  by (auto simp: dot_Execute_def Let_def intro!: keep_intros split: sum.split option.split)

lemma keeps_notEqual: "keepsM s (notEqual_Execute env d s)"
  unfolding notEqual_Execute_def by (rule keepsM_step [OF keeps_equal keeps_refl]) (auto split: prod.split)

lemma keeps_checks:
  "keepsM s (isArray_Execute env d s)" "keepsM s (isSet_Execute env d s)" "keepsM s (isObject_Execute env d s)"
  by (auto simp: isArray_Execute_def isSet_Execute_def isObject_Execute_def intro!: keepsM_read split: sum.split)

lemma keeps_collections:
  "keepsM s (lenStmt_Execute env d s)" "keepsM s (arrayAppend_Execute env d s)" "keepsM s (setAdd_Execute env d s)"
  "keepsM s (objectInsert_Execute env d s)" "keepsM s (objectInsertOnce_Execute env d s)"
  "keepsM s (objectMerge_Execute env d s)" "keepsM s (resultSetAdd_Execute env d s)"
  by (auto simp: lenStmt_Execute_def arrayAppend_Execute_def setAdd_Execute_def objectInsert_Execute_def
      objectInsertOnce_Execute_def objectMerge_Execute_def resultSetAdd_Execute_def Let_def keeps_insert_object
      intro!: keep_intros split: sum.split option.split)

section \<open>Blocks\<close>

definition st_keeps :: "('v, 'a, 'e) executor \<Rightarrow> bool" where
  "st_keeps st \<longleftrightarrow> (\<forall>d s. keepsM s (st d s))"

lemma keeps_block_loop:
  assumes "st_keeps st" and "0 \<le> instr" and "block_loop env st i k instr d s = Some ((stop, index, err, instr'), s')"
  shows "keeps s s' \<and> 0 \<le> instr'"
  using assms(2,3)
proof (induction k arbitrary: i instr d s)
  case 0
  then show ?case by simp
next
  case (Suc k)
  obtain e0 i0 s0 where step: "(if i mod 32 = 0 then let (err, s) = State_Instr env instr s in (err, 0, s)
                             else (None, instr, s)) = (e0, i0, s0)"
    by (metis prod_cases3)
  have s0: "keeps s s0" "0 \<le> i0"
    using step Suc.prems(1) by (auto split: if_splits prod.splits dest: keeps_Instr)
  show ?case
  proof (cases e0)
    case (Some e)
    then show ?thesis using Suc.prems(2) step s0 by auto
  next
    case None
    then obtain stop1 index1 size1 err1 s1 d1 where
      run: "st d s0 = Some ((stop1, index1, size1, err1), s1)" "slice_from d (nat size1) = Some d1" and
      rest: "(if stop1 \<or> err1 \<noteq> None then Some ((stop1, index1, err1, i0 + 1), s1)
              else block_loop env st (Suc i) k (i0 + 1) d1 s1) = Some ((stop, index, err, instr'), s')"
      using Suc.prems(2) step by (auto simp: bind_eq_Some_conv Let_def)
    have "keeps s s1"
      using assms(1) run(1) s0(1) by (auto simp: st_keeps_def keepsM_def intro: keeps_trans)
    then show ?thesis
      using rest s0(2) Suc.IH [of "i0 + 1" "Suc i" d1 s1] by (auto split: if_splits intro: keeps_trans)
  qed
qed

lemma keeps_block:
  assumes "st_keeps st"
  shows "keepsM s (block_Execute env st b s)"
proof -
  have "keepsM s (let (err2, s2) = State_Instr env instr s1 in
     case err of Some e \<Rightarrow> raise e s2 | None \<Rightarrow> (case err2 of Some e \<Rightarrow> raise e s2
       | None \<Rightarrow> if stop then if index = 0 then continue s2 else leave (index - 1) s2 else continue s2))"
    if "keeps s s1" "0 \<le> instr" for err instr stop index s1
    using that keeps_Instr [of env instr s1] by (auto split: option.split prod.split intro: keeps_trans)
  then show ?thesis
    unfolding block_Execute_def Let_def
    by (auto intro!: keepsM_read dest!: keeps_block_loop [OF assms, rotated])
qed

lemma keeps_blocks_loop:
  assumes "st_keeps st"
  shows "keepsM s (blocks_loop env st blocks i k r s)"
proof (induction k arbitrary: i r s)
  case (Suc k)
  show ?case
    by (auto intro!: keepsM_read dest!: keepsMD [OF keeps_block [OF assms]] intro: keepsM_weaken [OF Suc.IH])
qed simp

lemma keeps_blockStmt: "st_keeps st \<Longrightarrow> keepsM s (blockStmt_Execute env st b s)"
  unfolding blockStmt_Execute_def by (intro keepsM_read keeps_blocks_loop)

lemma keeps_st: "st_keeps st \<Longrightarrow> st d s = Some (r, s') \<Longrightarrow> keeps s s'"
  unfolding st_keeps_def by (blast dest: keepsMD)

lemma keeps_not_loop:
  assumes "st_keeps st"
  shows "keepsM s (not_loop st k d s)"
proof (induction k arbitrary: d s)
  case (Suc k)
  show ?case
    by (auto intro!: keepsM_read dest!: keeps_st [OF assms] intro: keepsM_weaken [OF Suc.IH])
qed simp

lemma keeps_not:
  assumes "st_keeps st"
  shows "keepsM s (not_Execute env st n s)"
  unfolding not_Execute_def Let_def
  by (auto intro!: keepsM_read dest!: keepsMD [OF keeps_not_loop [OF assms]] split: option.split)

lemma keeps_scan_loop:
  assumes "st_keeps st"
  shows "keepsM s (scan_loop env st skey svalue b kvs ierr s)"
proof (induction kvs arbitrary: s)
  case (Cons kv kvs)
  obtain key val where kv: "kv = (key, val)" by (cases kv)
  define s1 where "s1 = State_SetValue svalue (Some val) (State_SetValue skey (Some key) s)"
  have s1: "keeps s s1"
    unfolding s1_def by (intro keeps_SetValue keeps_refl)
  show ?case
    unfolding kv scan_loop.simps Let_def s1_def [symmetric]
    by (auto intro!: keepsM_read dest!: keepsMD [OF keeps_block [OF assms]]
        dest!: keeps_trans [OF s1] intro: keepsM_weaken [OF Cons.IH])
qed simp

lemma keeps_scan:
  assumes "st_keeps st"
  shows "keepsM s (scan_Execute env st x s)"
  unfolding scan_Execute_def Let_def
  by (auto intro!: keepsM_read dest!: keepsMD [OF keeps_scan_loop [OF assms]] split: option.split prod.split)

section \<open>With\<close>

lemma keeps_with_loop:
  assumes "st_keeps st"
  shows "keepsM s (with_loop st k d s)"
proof (induction k arbitrary: d s)
  case (Suc k)
  show ?case
    by (auto intro!: keepsM_read dest!: keeps_st [OF assms] intro: keepsM_weaken [OF Suc.IH] split: option.split)
qed simp

lemma case_sum_Inr:
  "(case r of Inl e \<Rightarrow> Some (Inl e) | Inr v \<Rightarrow> Some (Inr (f v))) = Some (Inr x) \<longleftrightarrow> (\<exists>v. r = Inr v \<and> x = f v)"
  by (cases r) auto

lemma keeps_with_target:
  assumes "(if (pathLen :: u32) = 0 then map_option Inr (State_Set env local v s)
           else do {
             r \<leftarrow> with_upsert env w s local (unat pathLen) v;
             case r of Inl e \<Rightarrow> Some (Inl e) | Inr value \<Rightarrow> Some (Inr (State_SetValue local value s)) }) = Some (Inr s')"
  shows "keeps s s'"
  using assms by (auto simp: bind_eq_Some_conv case_sum_Inr intro!: keeps_SetValue dest!: keeps_Set split: if_splits)

lemma keeps_with_body:
  assumes "st_keeps st"
  shows "keepsM s (with_body env st w local v s)"
  unfolding with_body_def
  by (auto simp: Let_def intro!: keepsM_read dest!: keeps_with_target split: sum.split
      intro: keepsM_weaken [OF keeps_with_loop [OF assms]])

text \<open>The table pushed by \<open>with\<close> goes on top: everything the block memoizes goes away with it.\<close>

lemma with_Execute_state:
  fixes s :: "('v, 'a, 'e) State"
  assumes "st_keeps st" and "state_ok s" and "with_Execute env st w s = Some (r, s')"
  obtains local :: Local and a :: "('v, 'a, 'e) State" where "with_Local w = Some local" and "state_ok a"
    and "s_locals s' = s_locals (State_SetValue local (State_Local s local) a)"
    and "g_memoize (s_Globals s') = g_memoize (s_Globals s)"
    and "g_EvalInstructions (s_Globals s) \<le> g_EvalInstructions (s_Globals s')"
proof -
  obtain local v a where w: "with_Local w = Some local" "with_body env st w local v (State_MemoizePush s) = Some (r, a)"
    and s': "s' = State_MemoizePop (State_SetValue local (State_Local (State_MemoizePush s) local) a)"
    using assms(3) by (auto simp: with_Execute_def bind_eq_Some_conv Let_def)
  have "keeps (State_MemoizePush s) a" and push: "state_ok (State_MemoizePush s)"
    "g_memoize (s_Globals (State_MemoizePush s)) = g_memoize (s_Globals s) @ [Map.empty]"
    "g_EvalInstructions (s_Globals (State_MemoizePush s)) = g_EvalInstructions (s_Globals s)"
    using keepsMD [OF keeps_with_body [OF assms(1)] w(2)] assms(2)
    by (auto simp: State_MemoizePush_def map_globals_def state_ok_def)
  then show thesis
    using that [OF w(1), of a] s'
    by (simp add: keeps_def State_MemoizePop_def State_MemoizePush_def State_SetValue_def State_Local_def
        map_globals_def map_locals_def)
qed

lemma keeps_with:
  fixes s :: "('v, 'a, 'e) State"
  assumes "st_keeps st"
  shows "keepsM s (with_Execute env st w s)"
  unfolding keepsM_def keeps_def
proof (intro allI impI)
  fix r s' assume "with_Execute env st w s = Some (r, s')" "state_ok s"
  from with_Execute_state [OF assms this(2,1)] obtain local and a :: "('v, 'a, 'e) State" where "state_ok a"
    "s_locals s' = s_locals (State_SetValue local (State_Local s local) a)"
    "g_memoize (s_Globals s') = g_memoize (s_Globals s)"
    "g_EvalInstructions (s_Globals s) \<le> g_EvalInstructions (s_Globals s')" by blast
  with \<open>state_ok s\<close> show "state_ok s' \<and> butlast (g_memoize (s_Globals s')) = butlast (g_memoize (s_Globals s)) \<and>
      g_EvalInstructions (s_Globals s) \<le> g_EvalInstructions (s_Globals s')"
    by (simp add: state_ok_def State_SetValue_def map_locals_def regs_write_abs)
qed

section \<open>Functions and builtins\<close>

lemma keeps_counts: "keeps s (count_hit s)" "keeps s (count_miss s)"
  by (auto simp: count_hit_def count_miss_def intro!: keeps_globals)

text \<open>The same for computations that return an error or a new state.\<close>

definition yields :: "('s \<Rightarrow> bool) \<Rightarrow> ('x + 's) option \<Rightarrow> bool" where
  "yields P m \<longleftrightarrow> (\<forall>s. m = Some (Inr s) \<longrightarrow> P s)"

lemma yields_bind: "(\<And>x. m = Some x \<Longrightarrow> yields P (f x)) \<Longrightarrow> yields P (Option.bind m f)"
  by (cases m) (simp_all add: yields_def)

lemma yields_simps [simp]: "yields P None" "yields P (Some (Inl e))" "yields P (Some (Inr s)) = P s"
  by (auto simp: yields_def)

lemma yields_iter_range:
  assumes "\<And>i x s. P s \<Longrightarrow> yields P (f i x s)"
  shows "P s \<Longrightarrow> yields P (iter_range rd f i k s)"
proof (induction k arbitrary: i s)
  case (Suc k)
  show ?case
  proof (unfold iter_range.simps, intro yields_bind)
    fix x y assume "f i x s = Some y"
    then show "yields P (case y of Inl e \<Rightarrow> Some (Inl e) | Inr s' \<Rightarrow> iter_range rd f (Suc i) k s')"
      using assms [OF Suc.prems, of i x] Suc.IH by (auto split: sum.split)
  qed
qed simp

lemma case_sum_None: "(case r of Inl e \<Rightarrow> None | Inr v \<Rightarrow> Some v) = Some x \<longleftrightarrow> r = Inr x"
  by (cases r) auto

lemma keeps_set_params: "set_params f args s = Some s' \<Longrightarrow> keeps s s'"
proof -
  have "yields (keeps s) (function_ParamsIter f (\<lambda>i arg s. if i < length args
      then Some (Inr (State_SetValue arg (args ! i) s) :: unit + _) else None) s)"
    unfolding function_ParamsIter_def Let_def
    by (intro yields_bind yields_iter_range) (auto intro: keeps_SetValue)
  then show "set_params f args s = Some s' \<Longrightarrow> keeps s s'"
    by (auto simp: set_params_def yields_def bind_eq_Some_conv case_sum_None)
qed

lemma keeps_memoize_result: "memoize_result env index as s = Some s' \<Longrightarrow> keeps s s'"
  by (auto simp: memoize_result_def Let_def split: prod.splits intro: keeps_MemoizeInsert)

lemma keeps_function_blocks:
  assumes "st_keeps st"
  shows "keepsM s (function_blocks env st blocks i k s)"
proof (induction k arbitrary: i s)
  case (Suc k)
  show ?case
    by (auto intro!: keepsM_read dest!: keepsMD [OF keeps_block [OF assms]] intro: keepsM_weaken [OF Suc.IH])
qed simp

lemma keeps_function:
  assumes "st_keeps st"
  shows "keepsM s (function_Execute env st f s args)"
proof -
  have hit: "keeps s (State_SetReturnValue ret v (count_hit s))" for v ret
    by (intro keeps_SetReturnValue keeps_counts)
  have miss: "keeps s c" if "set_params f args (count_miss s) = Some a" "keeps a b"
    "(if m then memoize_result env index as b else Some b) = Some c" for a b c m index as
  proof -
    have "keeps b c" using that(3) by (auto dest!: keeps_memoize_result split: if_splits)
    then show ?thesis
      using keeps_counts(2) keeps_set_params [OF that(1)] that(2) by (blast intro: keeps_trans)
  qed
  show ?thesis
    unfolding function_Execute_def Let_def
    by (auto intro!: keepsM_read hit keeps_counts split: option.split
        dest!: keepsMD [OF keeps_function_blocks [OF assms]] elim!: miss)
qed

lemma keeps_builtin_yield: "builtin_yield env relation bi a v s = Some (Inr s') \<Longrightarrow> keeps s s'"
proof -
  have "yields (keeps s) (builtin_yield env relation bi a v s)"
    unfolding builtin_yield_def Let_def
    by (auto intro!: yields_bind keep_intros split: option.split sum.split)
  then show "builtin_yield env relation bi a v s = Some (Inr s') \<Longrightarrow> keeps s s'"
    by (simp add: yields_def)
qed

lemma keeps_builtin_yields: "keepsM s (builtin_yields env relation bi a vs err s)"
proof (induction vs arbitrary: s)
  case (Cons v vs)
  show ?case
    by (auto intro!: keepsM_read dest!: keeps_builtin_yield intro: keepsM_weaken [OF Cons.IH] split: sum.split)
qed simp

lemma keeps_builtin_run: "keepsM s (builtin_run env relation impl bi a s)"
  unfolding builtin_run_def
  by (auto intro!: keepsM_read keeps_SetReturnValue keeps_globals dest!: keepsMD [OF keeps_builtin_yields]
      split: option.split sum.split prod.split)

lemma keeps_builtin: "keepsM s (builtin_Execute env b s args)"
  unfolding builtin_Execute_def Let_def
  by (auto intro!: keepsM_read keeps_SetReturnValue keepsM_weaken [OF keeps_builtin_run]
      split: option.split sum.split prod.split)

section \<open>Calls\<close>

lemma keeps_dispatch:
  assumes "st_keeps st" and "builtins_keep env"
  shows "keepsM s (function_dispatch env st f outer s args)"
  using assms(2) unfolding function_dispatch_def specializedBuiltin_Execute_def builtins_keep_def Let_def
  by (auto intro!: keepsM_read keeps_builtin keeps_function [OF assms(1)]) (auto simp: keepsM_def)

lemma keeps_record_call: "keepsM s (record_call env fid v s)"
  unfolding record_call_def Let_def
  by (auto intro!: keepsM_read keeps_globals split: record_mode.split sum.split option.split)

lemma keeps_call_end: "keeps (State_New env s) b \<Longrightarrow> keeps (with_globals_of s b) c \<Longrightarrow> keeps s c"
  by (rule keeps_trans [OF keeps_with_globals])

lemma keeps_call:
  assumes "st_keeps st" and "builtins_keep env"
  shows "keepsM s (call_Execute env st c s)"
  unfolding call_Execute_def Let_def
  by (auto intro!: keepsM_read keeps_SetValue keeps_with_globals split: option.split prod.split
      dest!: keepsMD [OF keeps_dispatch [OF assms]] keepsMD [OF keeps_record_call]
      elim!: keeps_call_end)

lemma keeps_callDynamic:
  assumes "st_keeps st"
  shows "keepsM s (callDynamic_Execute env st c s)"
  unfolding callDynamic_Execute_def Let_def
  by (auto intro!: keepsM_read keeps_SetValue keeps_with_globals split: option.split prod.split sum.split
      dest!: keepsMD [OF keeps_function [OF assms]])

section \<open>Statements\<close>

lemma keeps_exs:
  assumes "st_keeps st" and "builtins_keep env"
  shows "keepsM s (exs env st t d s)"
  unfolding exs_def
  by (simp add: keeps_simple keeps_assignVarOnce keeps_dot keeps_equal keeps_notEqual keeps_checks keeps_collections
      keeps_blockStmt [OF assms(1)] keeps_not [OF assms(1)] keeps_scan [OF assms(1)] keeps_with [OF assms(1)]
      keeps_call [OF assms] keeps_callDynamic [OF assms(1)])

lemma keeps_statement:
  assumes "builtins_keep env"
  shows "st_keeps (statement_Execute env fuel)"
proof (induction fuel)
  case (Suc fuel)
  show ?case
    unfolding st_keeps_def statement_Execute.simps Let_def
    by (auto intro!: keepsM_read dest!: keepsMD [OF keeps_exs [OF Suc assms]])
qed (simp add: st_keeps_def)

lemma keeps_plan_blocks:
  assumes "st_keeps st"
  shows "keepsM s (plan_blocks env st blocks i k s)"
proof (induction k arbitrary: i s)
  case (Suc k)
  obtain e s1 where step: "State_Instr env 1 s = (e, s1)" by (cases "State_Instr env 1 s")
  then have s1: "keeps s s1" by (rule keeps_Instr) simp
  show ?case
    by (auto simp: step s1 intro!: keepsM_read dest!: keepsMD [OF keeps_block [OF assms]] keeps_trans [OF s1]
        intro: keepsM_weaken [OF Suc.IH] split: option.split)
qed simp

lemma keeps_plan: "st_keeps st \<Longrightarrow> keepsM s (plan_Execute env st p s)"
  unfolding plan_Execute_def by (intro keepsM_read keeps_plan_blocks)

section \<open>What a call leaves alone\<close>

text \<open>\<open>only t s s'\<close>: the two states differ in the globals and in register \<open>t\<close> at most.\<close>

definition only :: "Local option \<Rightarrow> ('v, 'a, 'e) State \<Rightarrow> ('v, 'a, 'e) State \<Rightarrow> bool" where
  "only t s s' \<longleftrightarrow> l_ret (s_locals s') = l_ret (s_locals s) \<and> l_data (s_locals s') = l_data (s_locals s) \<and>
     (\<forall>w \<ge> 0. t \<noteq> Some w \<longrightarrow> State_Local s' w = State_Local s w)"

definition onlyM :: "Local option \<Rightarrow> ('v, 'a, 'e) State \<Rightarrow> ('r \<times> ('v, 'a, 'e) State) option \<Rightarrow> bool" where
  "onlyM t s m \<longleftrightarrow> (\<forall>r s'. m = Some (r, s') \<longrightarrow> only t s s')"

lemma onlyM_read: "(\<And>x. m = Some x \<Longrightarrow> onlyM t s (f x)) \<Longrightarrow> onlyM t s (Option.bind m f)"
  by (cases m) (simp_all add: onlyM_def)

lemma onlyM_outcomes [simp]:
  "onlyM t s (continue a) = only t s a" "onlyM t s (leave n a) = only t s a" "onlyM t s (raise e a) = only t s a"
  by (auto simp: continue_def leave_def raise_def onlyM_def)

lemma only_locals: "s_locals s' = s_locals s \<Longrightarrow> only t s s'"
  by (simp add: only_def State_Local_def)

lemma only_refl [simp]: "only t s s"
  by (simp add: only_locals)

lemma only_SetValue:
  assumes "regs_ok (l_registers (s_locals s))" and "s_locals a = s_locals s" and "0 \<le> t"
  shows "only (Some t) s (State_SetValue t v a)"
  using assms by (auto simp: only_def State_SetValue_def State_Local_def map_locals_def regs.read_write eq_nat_nat_iff)

lemma record_call_locals: "record_call env fid v s = Some (e, s') \<Longrightarrow> s_locals s' = s_locals s"
proof -
  have "\<forall>e s'. record_call env fid v s = Some (e, s') \<longrightarrow> s_locals s' = s_locals s"
    by (auto simp: record_call_def Let_def map_globals_def bind_eq_Some_conv split: record_mode.split option.split sum.split_asm)
  then show "record_call env fid v s = Some (e, s') \<Longrightarrow> s_locals s' = s_locals s" by blast
qed

lemma globals_locals [simp]: "s_locals (with_globals_of s inner) = s_locals s"
  by (simp add: with_globals_of_def)

lemma call_Result_nonneg: "call_Result c = Some t \<Longrightarrow> 0 \<le> t"
  by (auto simp: call_Result_def getLocal_def)

lemma callDynamic_Result_nonneg: "callDynamic_Result c = Some t \<Longrightarrow> 0 \<le> t"
  by (auto simp: callDynamic_Result_def getLocal_def)

lemma call_only:
  assumes "regs_ok (l_registers (s_locals s))"
  shows "onlyM (call_Result c) s (call_Execute env st c s)"
  unfolding call_Execute_def Let_def
  by (auto simp: only_locals call_Result_nonneg intro!: onlyM_read only_SetValue [OF assms] dest!: record_call_locals
      split: option.split prod.split)

lemma callDynamic_only:
  assumes "regs_ok (l_registers (s_locals s))"
  shows "onlyM (callDynamic_Result c) s (callDynamic_Execute env st c s)"
  unfolding callDynamic_Execute_def Let_def
  by (auto simp: only_locals callDynamic_Result_nonneg intro!: onlyM_read only_SetValue [OF assms]
      split: option.split prod.split sum.split)

end
