(* ===== verification/VM_Caches.thy ===== *)
theory VM_Caches
  imports VM_Invariant VM_Eval
begin

text \<open>
  The caches of the machine: converted strings, memoized results of functions, answers of queries.  The
  contract of a table is stated once, with the key under which an argument is filed; a table filled with
  values of a function returns values of that function as long as arguments filed under one key have one
  value.
\<close>

section \<open>The contract of a table\<close>

locale table_contract =
  fixes ok :: "'t \<Rightarrow> bool"
    and get :: "'t \<Rightarrow> 'a \<Rightarrow> 'v option"
    and put :: "'a \<Rightarrow> 'v \<Rightarrow> 't \<Rightarrow> 't"
    and key :: "'a \<Rightarrow> 'k"
    and arg :: "'a \<Rightarrow> bool"
  assumes ok_put: "ok t \<Longrightarrow> arg a \<Longrightarrow> ok (put a v t)"
    and get_put: "ok t \<Longrightarrow> arg a \<Longrightarrow> arg b \<Longrightarrow> get (put a v t) b = (if key b = key a then Some v else get t b)"
begin

definition sound :: "('a \<Rightarrow> 'v) \<Rightarrow> 't \<Rightarrow> bool" where
  "sound f t \<longleftrightarrow> (\<forall>a v. arg a \<longrightarrow> get t a = Some v \<longrightarrow> v = f a)"

lemma sound_put:
  assumes "\<And>a b. arg a \<Longrightarrow> arg b \<Longrightarrow> key a = key b \<Longrightarrow> f a = f b" and "ok t" and "sound f t" and "arg a"
  shows "sound f (put a (f a) t)"
  unfolding sound_def
proof (intro allI impI)
  fix b v assume b: "arg b" and v: "get (put a (f a) t) b = Some v"
  show "v = f b"
  proof (cases "key b = key a")
    case True
    then show ?thesis using v assms(1) [OF assms(4) b] get_put [OF assms(2,4) b] by simp
  next
    case False
    then have "get t b = Some v" using v get_put [OF assms(2,4) b] by simp
    then show ?thesis using assms(3) b by (simp add: sound_def)
  qed
qed

lemma sound_puts:
  assumes "\<And>a b. arg a \<Longrightarrow> arg b \<Longrightarrow> key a = key b \<Longrightarrow> f a = f b" and "ok t" and "sound f t" and "list_all arg as"
  shows "ok (foldl (\<lambda>t a. put a (f a) t) t as) \<and> sound f (foldl (\<lambda>t a. put a (f a) t) t as)"
  using assms(2-4)
proof (induction as arbitrary: t)
  case (Cons a as)
  have "sound f (put a (f a) t)" using Cons.prems by (intro sound_put assms(1)) simp_all
  then show ?case using Cons by (simp add: ok_put)
qed simp

lemma get_put_same: "ok t \<Longrightarrow> arg a \<Longrightarrow> get (put a v t) a = Some v"
  by (simp add: get_put)

end

section \<open>Memoized results\<close>

text \<open>An argument of the table is the number of a function with its arguments, at most nine.\<close>

definition memo_arg :: "int \<times> 'v option list \<Rightarrow> bool" where
  "memo_arg a \<longleftrightarrow> length (snd a) \<le> 9"

definition memo_key :: "('v, 'a, 'e) env \<Rightarrow> int \<times> 'v option list \<Rightarrow> int \<times> 'v arg list" where
  "memo_key env a = (fst a, map (memo_h (env_ops env)) (snd a))"

definition memo_get :: "('v, 'a, 'e) env \<Rightarrow> ('v, 'a, 'e) State \<Rightarrow> int \<times> 'v option list \<Rightarrow> 'v option option" where
  "memo_get env s a = Option.bind (State_MemoizeGet env s (fst a) (snd a)) id"

definition memo_put :: "('v, 'a, 'e) env \<Rightarrow> int \<times> 'v option list \<Rightarrow> 'v option \<Rightarrow> ('v, 'a, 'e) State \<Rightarrow> ('v, 'a, 'e) State" where
  "memo_put env a v s = (case State_MemoizeInsert env (fst a) (snd a) v s of Some s' \<Rightarrow> s' | None \<Rightarrow> s)"

lemma memo_get_put:
  assumes "memo_arg a" and "memo_arg b"
  shows "memo_get env (memo_put env a v s) b = (if memo_key env b = memo_key env a then Some v else memo_get env s b)"
  using assms
  by (auto simp: memo_get_def memo_put_def memo_key_def memo_arg_def State_MemoizeGet_def State_MemoizeInsert_def
      map_globals_def)

interpretation memo: table_contract "\<lambda>_. True" "memo_get env" "memo_put env" "memo_key env" memo_arg
  by unfold_locales (simp_all add: memo_get_put)

text \<open>An undefined argument and the empty string are filed under one key.\<close>

lemma memo_h_collision: "op_String ops x = Some [] \<Longrightarrow> memo_h ops (Some x) = memo_h ops None"
  by (simp add: memo_h_def)

section \<open>Calls of memoized functions\<close>

text \<open>What a call returns: the value of the local returned, when one is.\<close>

definition call_result :: "('v, 'a, 'e) State \<Rightarrow> 'v option" where
  "call_result s = (let (l, defined) = State_Return s in if defined then State_Local s l else None)"

lemma MemoizeInsert_get:
  "State_MemoizeInsert env i as v s = Some s' \<Longrightarrow> State_MemoizeGet env s' i as = Some (Some v)"
  by (auto simp: State_MemoizeInsert_def State_MemoizeGet_def map_globals_def split: if_splits)

lemma MemoizeInsert_result: "State_MemoizeInsert env i as v s = Some s' \<Longrightarrow> call_result s' = call_result s"
  by (auto simp: State_MemoizeInsert_def call_result_def State_Return_def State_Local_def map_globals_def Let_def
      split: if_splits)

lemma MemoizeGet_last:
  "last (g_memoize (s_Globals s)) = last (g_memoize (s_Globals t)) \<Longrightarrow> State_MemoizeGet env s i as = State_MemoizeGet env t i as"
  by (simp add: State_MemoizeGet_def)

lemma call_result_hit:
  assumes "regs_ok (l_registers (s_locals s))" and "l_ret (s_locals s) = - 1" and "0 \<le> ret"
  shows "call_result (if \<not> isUndefinedType v then State_SetReturnValue ret v (count_hit s) else count_hit s) = v"
proof (cases v)
  case None
  then show ?thesis
    using assms(2) by (simp add: isUndefinedType_def call_result_def State_Return_def count_hit_def map_globals_def)
next
  case (Some x)
  then show ?thesis
    using assms(1,3) regs.read_write [OF assms(1), of "nat ret" v "nat ret"]
    by (simp add: isUndefinedType_def call_result_def State_Return_def State_SetReturnValue_def State_SetValue_def
        Locals_SetReturn_def State_Local_def count_hit_def map_globals_def map_locals_def Let_def)
qed

lemma function_memoized:
  assumes "function_Execute env st f s args = Some (None, s1)"
    and "function_ParamsLen f = Some np" and "args_slice args 2 (unat np) = Some funArgs" and "isHashable env funArgs"
    and "regs_ok (l_registers (s_locals s))" and "l_ret (s_locals s) = - 1"
    and "last (g_memoize (s_Globals t)) = last (g_memoize (s_Globals s1))"
    and "regs_ok (l_registers (s_locals t))" and "l_ret (s_locals t) = - 1"
  obtains t1 where "\<And>st'. function_Execute env st' f t args = Some (None, t1)" and "call_result t1 = call_result s1"
proof -
  obtain index ret where f: "function_Index f = Some index" "function_Return f = Some ret"
    using assms(1) by (auto simp: function_Execute_def bind_eq_Some_conv)
  have ret: "0 \<le> ret" using f(2) by (auto simp: function_Return_def getLocal_def)
  have "State_MemoizeGet env s1 index funArgs = Some (Some (call_result s1))"
  proof (cases "State_MemoizeGet env s index funArgs")
    case None
    then show ?thesis using assms(1-4) f by (simp add: function_Execute_def Let_def)
  next
    case (Some hit)
    show ?thesis
    proof (cases hit)
      case None
      then obtain s3 where "memoize_result env index funArgs s3 = Some s1"
        using Some assms(1-4) f by (auto simp: function_Execute_def Let_def bind_eq_Some_conv)
      then have "State_MemoizeInsert env index funArgs (call_result s3) s3 = Some s1"
        by (simp add: memoize_result_def call_result_def undefined_value_def Let_def case_prod_beta
            split: if_splits)
      then show ?thesis using MemoizeInsert_get MemoizeInsert_result by metis
    next
      case (Some v)
      then have s1: "s1 = (if \<not> isUndefinedType v then State_SetReturnValue ret v (count_hit s) else count_hit s)"
        using \<open>State_MemoizeGet env s index funArgs = Some hit\<close> assms(1-4) f by (simp add: function_Execute_def Let_def)
      then have "g_memoize (s_Globals s1) = g_memoize (s_Globals s)"
        by (simp add: State_SetReturnValue_def State_SetValue_def count_hit_def map_globals_def map_locals_def)
      then show ?thesis
        using s1 call_result_hit [OF assms(5,6) ret] MemoizeGet_last [of s1 s] Some
          \<open>State_MemoizeGet env s index funArgs = Some hit\<close> by simp
    qed
  qed
  then obtain v where v: "State_MemoizeGet env t index funArgs = Some (Some v)" "call_result s1 = v"
    using MemoizeGet_last [OF assms(7)] by simp
  have "function_Execute env st' f t args =
      Some (None, if \<not> isUndefinedType v then State_SetReturnValue ret v (count_hit t) else count_hit t)" for st'
    using v(1) assms(2-4) f by (simp add: function_Execute_def Let_def)
  then show thesis using that call_result_hit [OF assms(8,9) ret] v(2) by metis
qed

section \<open>Strings\<close>

text \<open>An entry of the cache is empty or the converted string.\<close>

definition string_cache_ok :: "(gostring \<Rightarrow> 'v) \<Rightarrow> bytes \<Rightarrow> 'v option list \<Rightarrow> bool" where
  "string_cache_ok mk ss cache \<longleftrightarrow>
     (\<forall>i < length cache. cache ! i = None \<or> cache ! i = map_option mk (strings_bytes ss (int i)))"

lemma string_cache_new: "string_cache_ok mk ss (replicate n None)"
  by (simp add: string_cache_ok_def)

lemma strings_String_ok:
  assumes "string_cache_ok mk ss cache" and "i < length cache" and "strings_bytes ss (int i) = Some b"
  obtains cache' where "strings_String mk ss cache (int i) = Some (mk b, cache')" and "string_cache_ok mk ss cache'"
    and "length cache' = length cache"
proof (cases "cache ! i")
  case None
  have "string_cache_ok mk ss (cache[i := Some (mk b)])"
    using assms by (auto simp: string_cache_ok_def nth_list_update)
  then show thesis
    using that [of "cache[i := Some (mk b)]"] None assms(2,3)
    by (simp add: strings_String_def VM_getCachedString_def VM_setCachedString_def Let_def)
next
  case (Some v)
  then have "v = mk b" using assms by (auto simp: string_cache_ok_def)
  then show thesis
    using that [of cache] Some assms by (simp add: strings_String_def VM_getCachedString_def)
qed

text \<open>A sequence of lookups.\<close>

fun string_lookups :: "(gostring \<Rightarrow> 'v) \<Rightarrow> bytes \<Rightarrow> 'v option list \<Rightarrow> int list \<Rightarrow> 'v list option" where
  "string_lookups mk ss cache [] = Some []"
| "string_lookups mk ss cache (i # is) = do {
     (v, cache) \<leftarrow> strings_String mk ss cache i;
     vs \<leftarrow> string_lookups mk ss cache is;
     Some (v # vs) }"

lemma string_lookups_ok:
  assumes "\<And>i. i < n \<Longrightarrow> strings_bytes ss (int i) = Some (strs ! i)"
    and "list_all (\<lambda>i. 0 \<le> i \<and> i < int n) is" and "string_cache_ok mk ss cache" and "length cache = n"
  shows "string_lookups mk ss cache is = Some (map (\<lambda>i. mk (strs ! nat i)) is)"
  using assms(2-4)
proof (induction "is" arbitrary: cache)
  case (Cons i "is")
  then have "nat i < length cache" "strings_bytes ss (int (nat i)) = Some (strs ! nat i)"
    using assms(1) [of "nat i"] by auto
  then obtain cache' where c: "strings_String mk ss cache i = Some (mk (strs ! nat i), cache')" "string_cache_ok mk ss cache'"
    "length cache' = length cache"
    using strings_String_ok [OF Cons.prems(2), of "nat i"] Cons.prems(1) by auto
  then show ?case using Cons by simp
qed simp

section \<open>The instruction limit\<close>

lemma Instr_limit:
  assumes "env_Instructions env < g_EvalInstructions (s_Globals s)" and "\<not> env_cancelled env (g_checks (s_Globals s))"
  shows "State_Instr env i s = (Some ErrInstructionsLimitExceeded, map_globals (\<lambda>g. g\<lparr>g_checks := Suc (g_checks g)\<rparr>) s)"
  using assms by (simp add: State_Instr_def Let_def)

lemma block_limit:
  assumes "env_Instructions env < g_EvalInstructions (s_Globals s)" and "\<And>n. \<not> env_cancelled env n"
    and "statements_Statement (block_Statements b) = Some d" and "statements_Len (block_Statements b) = Some n" and "0 < n"
  shows "block_Execute env st b s =
    raise ErrInstructionsLimitExceeded (map_globals (\<lambda>g. g\<lparr>g_checks := Suc (Suc (g_checks g))\<rparr>) s)"
proof -
  obtain k where "nat n = Suc k" using assms(5) gr0_implies_Suc by fastforce
  then show ?thesis
    using assms(1-4) by (simp add: block_Execute_def Instr_limit map_globals_def)
qed

section \<open>Cached answers\<close>

lemma bind_case_sum_Inr:
  "Option.bind m (case_sum (\<lambda>e. Some (Inl (f e), c)) g) = Some (Inr v, c') \<longleftrightarrow> (\<exists>x. m = Some (Inr x) \<and> g x = Some (Inr v, c'))"
proof (cases m)
  case (Some y)
  then show ?thesis by (cases y) auto
qed simp

definition eval_run :: "('v, 'a, 'e) env \<Rightarrow> ('v, 'a) cache_env \<Rightarrow> ('v, 'a, 'e, 'i) EvalOpts \<Rightarrow> 'a eval_key option \<Rightarrow>
    (('v, 'a, 'e) env \<Rightarrow> ('v, 'a, 'e) State \<Rightarrow> ('v, 'a, 'e) fun_outcome) \<Rightarrow> ('v, 'a, 'e) env \<Rightarrow>
    (('e vm_error + 'a) \<times> 'a eval_cache option \<times> Statistics) option" where
  "eval_run env ce opts key run env' = do {
     (err, s) \<leftarrow> run env' (newState env' (new_globals (env_ops env) opts));
     let stats = statistics (s_Globals s);
     case err of
       Some e \<Rightarrow> Some (Inl e, eo_InterQueryBuiltinCache opts, stats)
     | None \<Rightarrow>
         if eo_StrictBuiltinErrors opts \<and> g_BuiltinErrors (s_Globals s) \<noteq> []
         then Some (Inl (hd (g_BuiltinErrors (s_Globals s))), eo_InterQueryBuiltinCache opts, stats)
         else do {
           r \<leftarrow> op_ToAST (env_ops env) (Some (g_ResultSet (s_Globals s)));
           case r of
             Inl e \<Rightarrow> Some (Inl (OpError e), eo_InterQueryBuiltinCache opts, stats)
           | Inr v \<Rightarrow> Some (Inr v, putEvalCache ce (eo_InterQueryBuiltinCache opts) key v (eo_Time opts), stats) } }"

lemma eval_run_Inr:
  assumes "eval_run env ce opts key run env' = Some (Inr v, c', st)"
  shows "c' = putEvalCache ce (eo_InterQueryBuiltinCache opts) key v (eo_Time opts)"
proof (cases "run env' (newState env' (new_globals (env_ops env) opts))")
  case (Some r)
  then show ?thesis
    using assms by (cases r) (auto simp: eval_run_def Let_def bind_case_sum_Inr split: option.split_asm if_splits)
qed (use assms in \<open>simp add: eval_run_def\<close>)

lemma eval_found_Inr:
  assumes "eval_found env ce opts i run = Some (Inr v, c', st)"
  obtains input key where "eval_input opts = Some (Inr input)" and "getEvalCacheKey (env_ops env) ce i input = Some (Inr key)"
    and "checkEvalCache ce (eo_InterQueryBuiltinCache opts) key (eo_Time opts) = Some v \<and> c' = eo_InterQueryBuiltinCache opts \<or>
      checkEvalCache ce (eo_InterQueryBuiltinCache opts) key (eo_Time opts) = None \<and>
      c' = putEvalCache ce (eo_InterQueryBuiltinCache opts) key v (eo_Time opts)"
proof -
  define cache where "cache = eo_InterQueryBuiltinCache opts"
  obtain input key where found: "eval_input opts = Some (Inr input)" "getEvalCacheKey (env_ops env) ce i input = Some (Inr key)"
    and rest: "(case checkEvalCache ce cache key (eo_Time opts) of
       Some result \<Rightarrow> Some (Inr result, cache, eo_Statistics opts)
     | None \<Rightarrow> eval_run env ce opts key run (env\<lparr>env_Input := input,
         env_Instructions := (case eo_Limits opts of Some l \<Rightarrow> l | None \<Rightarrow> DefaultLimits)\<rparr>)) = Some (Inr v, c', st)"
    using assms unfolding eval_found_def Let_def bind_case_sum_Inr eval_run_def cache_def by blast
  show thesis
    using that [OF found] rest unfolding cache_def by (auto split: option.split_asm dest!: eval_run_Inr)
qed

lemma getEvalCacheKey_Some:
  assumes "ce_config ce = Some c" and "getEvalCacheKey ops ce i (Some input) = Some (Inr key)"
  obtains k where "key = Some k"
  using assms
  by (cases c; cases "cache_values ops ce (fst c) input") (auto simp: getEvalCacheKey_def split: sum.split_asm)

lemma eval_input_Some:
  assumes "eo_Input opts = Some x" and "eval_input opts = Some (Inr y)"
  obtains input where "y = Some input"
  using assms by (cases "eo_FromInterface opts x") (auto simp: eval_input_def split: sum.split_asm)

lemma eval_found_cached:
  assumes "eval_found env ce opts i run = Some (Inr v, Some c', st)" and "eo_InterQueryBuiltinCache opts = Some Map.empty"
    and "eo_Input opts = Some x" and "ce_config ce = Some (paths, ttl)" and "\<And>v. ce_MustParseTerm ce (ce_String ce v) = v"
    and "t' \<le> eo_Time opts + ttl"
  shows "eval_found env ce (opts\<lparr>eo_InterQueryBuiltinCache := Some c', eo_Time := t'\<rparr>) i run' = Some (Inr v, Some c', eo_Statistics opts)"
proof -
  obtain input key where found: "eval_input opts = Some (Inr input)" "getEvalCacheKey (env_ops env) ce i input = Some (Inr key)"
    "checkEvalCache ce (Some Map.empty) key (eo_Time opts) = Some v \<or>
     Some c' = putEvalCache ce (Some Map.empty) key v (eo_Time opts)"
    using eval_found_Inr [OF assms(1)] assms(2) by metis
  obtain i' where "input = Some i'" by (rule eval_input_Some [OF assms(3) found(1)])
  then obtain k where k: "key = Some k" using getEvalCacheKey_Some [OF assms(4)] found(2) by blast
  have "c' = Map.empty(k \<mapsto> newEvalCacheResult ce v (eo_Time opts + ttl))"
    using found(3) assms(4) by (simp add: k checkEvalCache_def putEvalCache_def)
  then have "checkEvalCache ce (Some c') key t' = Some v"
    using assms(5,6) by (simp add: k checkEvalCache_def newEvalCacheResult_def evalCacheResult_Value_def)
  moreover have "eval_input (opts\<lparr>eo_InterQueryBuiltinCache := Some c', eo_Time := t'\<rparr>) = Some (Inr input)"
    using found(1) by (cases "eo_Input opts") (simp_all add: eval_input_def)
  ultimately show ?thesis using found(2) by (simp add: eval_found_def)
qed

lemma VM_Eval_cached:
  assumes "VM_Eval env ce fuel name opts = Some (Inr v, Some c', st)" and "eo_InterQueryBuiltinCache opts = Some Map.empty"
    and "eo_Input opts = Some x" and "ce_config ce = Some (paths, ttl)" and "\<And>v. ce_MustParseTerm ce (ce_String ce v) = v"
    and "t' \<le> eo_Time opts + ttl"
  shows "VM_Eval env ce fuel' name (opts\<lparr>eo_InterQueryBuiltinCache := Some c', eo_Time := t'\<rparr>) = Some (Inr v, Some c', eo_Statistics opts)"
proof -
  have "eval_plans env ce opts fuel name ps i k = Some (Inr v, Some c', st) \<Longrightarrow>
    eval_plans env ce (opts\<lparr>eo_InterQueryBuiltinCache := Some c', eo_Time := t'\<rparr>) fuel' name ps i k = Some (Inr v, Some c', eo_Statistics opts)" for ps i k
    by (induction k arbitrary: i) (auto simp: bind_eq_Some_conv eval_found_cached [OF _ assms(2-6)] split: if_splits)
  then show ?thesis
    using assms(1) by (auto simp: VM_Eval_def bind_eq_Some_conv split: if_splits)
qed

end
