(* ===== verification/Example.thy ===== *)
theory Example
  imports Termination VM_Caches
begin

text \<open>
  A small policy, an environment and the values they work on: a concrete instance of the parameters of the
  model, on which the general theorems are applied.
\<close>

datatype val = VNull | VBool bool | VNum int | VStr gostring | VList "val list" | VObj "(val \<times> val) list"

text \<open>Printed values stand for the AST.\<close>

fun show_val :: "val \<Rightarrow> gostring" where
  "show_val VNull = str ''null''"
| "show_val (VBool b) = (if b then str ''true'' else str ''false'')"
| "show_val (VNum n) = str ''number''"
| "show_val (VStr s) = s"
| "show_val (VList xs) = str ''['' @ concat (map show_val xs) @ str '']''"
| "show_val (VObj kvs) = str ''{}''"

definition val_ops :: "(val, gostring, unit) ops" where
  "val_ops = \<lparr>
     op_Get = (\<lambda>v k. case (v, k) of (Some (VObj kvs), Some key) \<Rightarrow> Inr (map_of kvs key) | _ \<Rightarrow> Inr None),
     op_GetCall = (\<lambda>v k. Inr None),
     op_IsCall = (\<lambda>v. Inr False),
     op_Call = (\<lambda>v args. Inr (None, False, False)),
     op_ArrayAppend = (\<lambda>a x. case (a, x) of (Some (VList xs), Some y) \<Rightarrow> Inr (Some (VList (xs @ [y])), True) | _ \<Rightarrow> Inl ()),
     op_CopyShallow = (\<lambda>v. case v of Some x \<Rightarrow> Some (Inr x) | None \<Rightarrow> None),
     op_Equal = (\<lambda>a b. Inr (a = b)),
     op_Iter = (\<lambda>v. case v of Some (VObj kvs) \<Rightarrow> (kvs, None) | Some (VList xs) \<Rightarrow> (zip xs xs, None) | _ \<Rightarrow> ([], None)),
     op_IsArray = (\<lambda>v. Inr (case v of Some (VList _) \<Rightarrow> True | _ \<Rightarrow> False)),
     op_IsSet = (\<lambda>v. Inr (case v of Some (VList _) \<Rightarrow> True | _ \<Rightarrow> False)),
     op_IsObject = (\<lambda>v. Inr (case v of Some (VObj _) \<Rightarrow> True | _ \<Rightarrow> False)),
     op_MakeArray = (\<lambda>_. VList []),
     op_MakeBoolean = VBool,
     op_MakeObject = VObj [],
     op_MakeNull = VNull,
     op_MakeNumberInt = VNum,
     op_MakeNumberRef = VStr,
     op_MakeSet = VList [],
     op_MakeString = VStr,
     op_Len = (\<lambda>v. case v of Some (VList xs) \<Rightarrow> Inr (VNum (int (length xs))) | _ \<Rightarrow> Inl ()),
     op_ObjectGet = (\<lambda>v k. case (v, k) of (Some (VObj kvs), Some key) \<Rightarrow> Inr (map_of kvs key) | _ \<Rightarrow> Inl ()),
     op_ObjectInsert = (\<lambda>v k x. case (v, k, x) of (Some (VObj kvs), Some key, Some y) \<Rightarrow> Some (Inr (Some (VObj ((key, y) # kvs)), True)) | _ \<Rightarrow> None),
     op_ObjectMerge = (\<lambda>a b. case (a, b) of (VObj xs, VObj ys) \<Rightarrow> Inr (VObj (xs @ ys)) | _ \<Rightarrow> Inl ()),
     op_SetAdd = (\<lambda>a x. case (a, x) of (Some (VList xs), Some y) \<Rightarrow> Inr (VList (if y \<in> set xs then xs else xs @ [y])) | _ \<Rightarrow> Inl ()),
     op_ToAST = (\<lambda>v. case v of Some x \<Rightarrow> Some (Inr (show_val x)) | None \<Rightarrow> None),
     op_FromInterface = (\<lambda>a. Some (Inr (VStr a))),
     op_ToInterface_number = (\<lambda>v. Some (Inr None)),
     op_ToInterface = (\<lambda>v. Some (Inr v)),
     op_String = (\<lambda>v. case v of VStr x \<Rightarrow> Some x | _ \<Rightarrow> None),
     op_IsCollection = (\<lambda>v. case v of VList _ \<Rightarrow> True | VObj _ \<Rightarrow> True | _ \<Rightarrow> False),
     op_Hash = (\<lambda>v. Some (Inr [])),
     ast_String = Some\<rparr>"

definition ex_builtins :: builtin_env where
  "ex_builtins = \<lparr>be_Funcs = Map.empty, be_GetBuiltin = (\<lambda>_. False), be_Builtins = [], be_specialized_names = []\<rparr>"

text \<open>\<open>f(input, data, x) = x\<close>, and a plan that puts \<open>f("hi")\<close> in the result set.\<close>

definition ex_policy :: policy where
  "ex_policy = \<lparr>
     po_Strings = [str ''hi''],
     po_BuiltinFuncs = [],
     po_Funcs = [\<lparr>fn_Name = str ''f'', fn_Params = [0, 1, 3], fn_Return = 4,
        fn_Blocks = [[AssignVarOnceStmt (OpLocal 3) 4, ReturnLocalStmt 4]], fn_Path = [str ''f'']\<rparr>],
     po_Plans = [\<lparr>pl_Name = str ''main'',
        pl_Blocks = [[CallStmt (str ''f'') [OpLocal 0, OpLocal 1, OpStringIndex 0] 5, ResultSetAddStmt 5]]\<rparr>]\<rparr>"

definition ex_executable :: bytes where
  "ex_executable = [114, 101, 103, 111, 0, 0, 0, 0, 0, 0, 0, 236, 0, 0, 0, 0, 0, 0, 0,
        14, 0, 0, 0, 128, 0, 0, 0, 1, 0, 0, 0, 8, 0, 0, 0, 2, 104, 105, 0,
        0, 0, 1, 0, 0, 0, 8, 0, 0, 0, 106, 0, 0, 0, 2, 0, 0, 0, 0, 0, 0, 0,
        4, 0, 0, 0, 32, 0, 0, 0, 48, 0, 0, 0, 53, 0, 0, 0, 66, 0, 0, 0, 3,
        0, 0, 0, 0, 0, 0, 0, 1, 0, 0, 0, 3, 0, 0, 0, 1, 102, 0, 0, 0, 1, 0,
        0, 0, 8, 0, 0, 0, 1, 102, 0, 0, 0, 40, 0, 0, 0, 1, 0, 0, 0, 12, 0,
        0, 0, 28, 0, 0, 0, 2, 4, 0, 0, 12, 0, 0, 0, 4, 0, 0, 0, 3, 31, 0, 0,
        8, 0, 0, 0, 4, 0, 0, 0, 1, 0, 0, 0, 8, 0, 0, 0, 76, 0, 0, 0, 12, 0,
        0, 0, 20, 0, 0, 0, 4, 109, 97, 105, 110, 0, 0, 0, 56, 0, 0, 0, 1, 0,
        0, 0, 12, 0, 0, 0, 44, 0, 0, 0, 2, 7, 0, 0, 28, 0, 0, 0, 5, 0, 0, 0,
        0, 0, 0, 0, 3, 0, 0, 0, 0, 0, 0, 0, 1, 2, 0, 0, 0, 30, 0, 0, 8, 0,
        0, 0, 5]"

definition ex_env :: "(val, gostring, unit) env" where
  "ex_env = \<lparr>env_executable = ex_executable, env_ops = val_ops, env_data = Some (VObj []), env_Input = None,
     env_Instructions = 100, env_cancelled = (\<lambda>_. False), env_mode = intermediateResultsDisabled,
     env_BuiltinFuncs = Map.empty, env_GetBuiltin = Map.empty, env_BuiltinMap = Map.empty, env_Halt = (\<lambda>_. False),
     env_specialized = (\<lambda>_ _ s. Some (None, s)), env_regoCompile = (\<lambda>_ _ s. Some (None, s))\<rparr>"

definition ex_cache :: "(val, gostring) cache_env" where
  "ex_cache = \<lparr>ce_object = (\<lambda>v. case v of VObj kvs \<Rightarrow> Some (\<lambda>k. map_of kvs (VStr k)) | _ \<Rightarrow> None),
     ce_array = (\<lambda>_. None), ce_NewSet = str ''set()'', ce_String = (\<lambda>a. a), ce_MustParseTerm = (\<lambda>a. a), ce_config = Some ([[str ''user'']], 10)\<rparr>"

definition ex_opts :: "(val, gostring, unit, val) EvalOpts" where
  "ex_opts = \<lparr>eo_Input = Some (VObj [(VStr (str ''user''), VStr (str ''bob''))]), eo_FromInterface = (\<lambda>v. Some (Inr v)),
     eo_Time = 0, eo_Limits = None, eo_StrictBuiltinErrors = False, eo_NDBCache = None, eo_InterQueryBuiltinCache = Some Map.empty,
     eo_Statistics = \<lparr>st_EvalInstructions = 0, st_VirtualCacheHits = 0, st_VirtualCacheMisses = 0\<rparr>\<rparr>"

lemma ex_compile: "Compile ex_builtins ex_policy = Some (Inr ex_executable)"
  by code_simp

lemma ex_runs: "runs ex_builtins ex_policy ex_env"
proof -
  have "wf_policy ex_policy" by code_simp
  moreover have "length ex_executable < 2 ^ 24" by (simp add: ex_executable_def)
  ultimately show ?thesis using ex_compile by (simp add: runs_def ex_env_def)
qed

lemma ex_result:
  "map_option fst (ir_eval ex_builtins ex_env ex_cache ex_policy 3 (str ''main'') ex_opts) = Some (Inr (str ''[hi]''))"
  by code_simp

definition ex_state :: "(val, gostring, unit) State" where
  "ex_state = newState ex_env (new_globals val_ops ex_opts)"

lemma ex_state_regs: "regs_ok (l_registers (s_locals ex_state))"
  by (simp add: ex_state_def newState_def State_SetData_def State_SetValue_def op_defs regs_new regs_write_abs
      split: option.split)

lemma ex_state_ok: "state_ok ex_state"
  using ex_state_regs
  by (simp add: state_ok_def ex_state_def newState_def State_SetData_def State_SetValue_def op_defs new_globals_def
      split: option.split)

lemma ex_builtins_keep: "builtins_keep ex_env"
  by (simp add: builtins_keep_def ex_env_def)

text \<open>\<open>with\<close> replacing the data by \<open>true\<close> around a break.\<close>

definition ex_with :: bytes where
  "ex_with = the (with_Write 1 [] (NewBoolConst True) (the (block_Write [the (breakStmt_Write 0)])))"

text \<open>The function of the policy in the executable, and arguments for it.\<close>

definition ex_function :: bytes where
  "ex_function = the (State_Func ex_env 0)"

definition ex_args :: "val option list" where
  "ex_args = [None, None, Some (VNum 7)]"

definition ex_call :: bytes where
  "ex_call = the (call_Write 0 [NewLocal 0, NewLocal 1, NewBoolConst True] 5)"

end
