(* ===== verification/Json_Table.thy ===== *)
theory Json_Table
  imports Bytes "HOL-Library.AList" "HOL-Library.Multiset"
begin

text \<open>
  The hash tables under sets and objects of src/pkg/json (set.go and object2.go).  A compact table is an array
  of capacity 0, 2, 4, 8 or 16 with the hash of each entry; a full one is rebuilt with the next capacity and,
  past 16 entries, as a large table: a Go map from hashes to chains of entries.

  Both files have the same two structures, with values as entries in one and pairs in the other, so there is
  one type of tables over entries.  The list that stands for a Go map has an order, one of those in which Go may
  iterate over the map; nothing below depends on which one.

  Comparing entries may panic (\<open>equalOp\<close>), so tests return an \<open>option\<close>.
\<close>

section \<open>Tables\<close>

datatype 'e table = tableCompact nat "(u64 \<times> 'e) list" | tableLarge "(u64 \<times> 'e list) list" nat

fun foldM :: "('a \<Rightarrow> 's \<Rightarrow> 's option) \<Rightarrow> 'a list \<Rightarrow> 's \<Rightarrow> 's option" where
  "foldM f [] s = Some s"
| "foldM f (x # xs) s = do { s \<leftarrow> f x s; foldM f xs s }"

definition new_table :: "nat \<Rightarrow> 'e table" where
  "new_table n = (if n = 0 then tableCompact 0 [] else if n \<le> 2 then tableCompact 2 [] else if n \<le> 4 then tableCompact 4 []
     else if n \<le> 8 then tableCompact 8 [] else if n \<le> 16 then tableCompact 16 [] else tableLarge [] 0)"

definition chain :: "(u64 \<times> 'e list) list \<Rightarrow> u64 \<Rightarrow> 'e list" where
  "chain tb h = (case map_of tb h of None \<Rightarrow> [] | Some c \<Rightarrow> c)"

text \<open>The entries with their hashes, in the order of the iteration.\<close>

definition table_hashed :: "'e table \<Rightarrow> (u64 \<times> 'e) list" where
  "table_hashed t = (case t of tableCompact _ es \<Rightarrow> es | tableLarge tb _ \<Rightarrow> concat (map (\<lambda>(h, c). map (Pair h) c) tb))"

definition table_elems :: "'e table \<Rightarrow> 'e list" where
  "table_elems t = (case t of tableCompact _ es \<Rightarrow> map snd es | tableLarge tb _ \<Rightarrow> concat (map snd tb))"

definition table_len :: "'e table \<Rightarrow> nat" where
  "table_len t = (case t of tableCompact _ es \<Rightarrow> length es | tableLarge _ n \<Rightarrow> n)"

text \<open>The search loops: the first entry that passes the test.\<close>

fun entries_find :: "('e \<Rightarrow> bool option) \<Rightarrow> 'e list \<Rightarrow> 'e option option" where
  "entries_find p [] = Some None"
| "entries_find p (e # es) = do { b \<leftarrow> p e; if b then Some (Some e) else entries_find p es }"

text \<open>The first entry that passes the test is updated in place; \<open>Some None\<close> when there is none.\<close>

fun entries_update :: "('e \<Rightarrow> bool option) \<Rightarrow> ('e \<Rightarrow> 'e) \<Rightarrow> 'e list \<Rightarrow> 'e list option option" where
  "entries_update p f [] = Some None"
| "entries_update p f (e # es) = do {
     b \<leftarrow> p e;
     if b then Some (Some (f e # es)) else do { r \<leftarrow> entries_update p f es; Some (map_option ((#) e) r) } }"

text \<open>A compact entry is only compared when its hash is the wanted one.\<close>

definition hash_test :: "u64 \<Rightarrow> ('e \<Rightarrow> bool option) \<Rightarrow> u64 \<times> 'e \<Rightarrow> bool option" where
  "hash_test h p e = (if fst e = h then p (snd e) else Some False)"

definition table_get :: "('e \<Rightarrow> bool option) \<Rightarrow> u64 \<Rightarrow> 'e table \<Rightarrow> 'e option option" where
  "table_get p h t = (case t of
     tableCompact _ es \<Rightarrow> map_option (map_option snd) (entries_find (hash_test h p) es)
   | tableLarge tb _ \<Rightarrow> entries_find p (chain tb h))"

text \<open>A new entry: at the end of a compact table, where a full array is an index out of range, or at the head of
  its chain.\<close>

definition table_add :: "u64 \<Rightarrow> 'e \<Rightarrow> 'e table \<Rightarrow> 'e table option" where
  "table_add h e t = (case t of
     tableCompact cap es \<Rightarrow> if length es < cap then Some (tableCompact cap (es @ [(h, e)])) else None
   | tableLarge tb n \<Rightarrow> Some (tableLarge (AList.update h (e # chain tb h) tb) (Suc n)))"

text \<open>Update of the entry that passes the test, or a new entry.\<close>

definition table_put :: "('e \<Rightarrow> bool option) \<Rightarrow> ('e \<Rightarrow> 'e) \<Rightarrow> u64 \<Rightarrow> 'e \<Rightarrow> 'e table \<Rightarrow> 'e table option" where
  "table_put p f h new t = (case t of
     tableCompact cap es \<Rightarrow> do {
       r \<leftarrow> entries_update (hash_test h p) (\<lambda>(h, e). (h, f e)) es;
       case r of Some es' \<Rightarrow> Some (tableCompact cap es') | None \<Rightarrow> table_add h new t }
   | tableLarge tb n \<Rightarrow> do {
       r \<leftarrow> entries_update p f (chain tb h);
       case r of Some c \<Rightarrow> Some (tableLarge (AList.update h c tb) n) | None \<Rightarrow> table_add h new t })"

definition table_full :: "'e table \<Rightarrow> bool" where
  "table_full t = (case t of tableCompact cap es \<Rightarrow> length es = cap | tableLarge _ _ \<Rightarrow> False)"

section \<open>Sets\<close>

text \<open>\<open>eq\<close> is \<open>equalOp\<close>, \<open>hash\<close> is \<open>hash\<close>.\<close>

definition NewSet :: "nat \<Rightarrow> 'v table" where
  "NewSet n = new_table n"

definition setLarge_add :: "('v \<Rightarrow> 'v \<Rightarrow> bool option) \<Rightarrow> u64 \<Rightarrow> 'v \<Rightarrow> 'v table \<Rightarrow> 'v table option" where
  "setLarge_add eq h v t = table_put (\<lambda>w. eq w v) (\<lambda>_. v) h v t"

text \<open>The loop of \<open>add\<close> of a compact set with room: an entry that is found stays as it is.\<close>

definition setCompact_put :: "('v \<Rightarrow> 'v \<Rightarrow> bool option) \<Rightarrow> u64 \<Rightarrow> 'v \<Rightarrow> 'v table \<Rightarrow> 'v table option" where
  "setCompact_put eq h v t = table_put (\<lambda>w. eq w v) (\<lambda>w. w) h v t"

definition set_put :: "('v \<Rightarrow> 'v \<Rightarrow> bool option) \<Rightarrow> u64 \<Rightarrow> 'v \<Rightarrow> 'v table \<Rightarrow> 'v table option" where
  "set_put eq h v t = (case t of tableCompact _ _ \<Rightarrow> setCompact_put eq h v t | tableLarge _ _ \<Rightarrow> setLarge_add eq h v t)"

text \<open>\<open>add\<close>: a full compact set moves its entries to a larger one first.  The calls of \<open>add\<close> on the new set find
  room (\<open>set_add_grow\<close>), so they are those of \<open>set_put\<close>.\<close>

definition set_add :: "('v \<Rightarrow> 'v \<Rightarrow> bool option) \<Rightarrow> u64 \<Rightarrow> 'v \<Rightarrow> 'v table \<Rightarrow> 'v table option" where
  "set_add eq h v t =
     (if table_full t then do {
        s \<leftarrow> foldM (\<lambda>(h, w). set_put eq h w) (table_hashed t) (NewSet (table_len t + 1));
        set_put eq h v s }
      else set_put eq h v t)"

definition Set_Add :: "('v \<Rightarrow> 'v \<Rightarrow> bool option) \<Rightarrow> ('v \<Rightarrow> u64) \<Rightarrow> 'v \<Rightarrow> 'v table \<Rightarrow> 'v table option" where
  "Set_Add eq hash v t = set_add eq (hash v) v t"

definition Set_Get :: "('v \<Rightarrow> 'v \<Rightarrow> bool option) \<Rightarrow> ('v \<Rightarrow> u64) \<Rightarrow> 'v \<Rightarrow> 'v table \<Rightarrow> 'v option option" where
  "Set_Get eq hash v t = table_get (\<lambda>w. eq w v) (hash v) t"

definition Set_mergeTo :: "('v \<Rightarrow> 'v \<Rightarrow> bool option) \<Rightarrow> 'v table \<Rightarrow> 'v table \<Rightarrow> 'v table option" where
  "Set_mergeTo eq t other = foldM (\<lambda>(h, v). set_add eq h v) (table_hashed t) other"

definition Set_MergeWith :: "('v \<Rightarrow> 'v \<Rightarrow> bool option) \<Rightarrow> 'v table \<Rightarrow> 'v table \<Rightarrow> 'v table option" where
  "Set_MergeWith eq t other = Set_mergeTo eq other t"

section \<open>Objects\<close>

definition NewObject2 :: "nat \<Rightarrow> ('v \<times> 'v) table" where
  "NewObject2 n = new_table n"

definition object_put :: "('v \<Rightarrow> 'v \<Rightarrow> bool option) \<Rightarrow> u64 \<Rightarrow> 'v \<Rightarrow> 'v \<Rightarrow> ('v \<times> 'v) table \<Rightarrow> ('v \<times> 'v) table option" where
  "object_put eq h k v t = table_put (\<lambda>e. eq (fst e) k) (\<lambda>e. (fst e, v)) h (k, v) t"

text \<open>The entries of a full object in a new one of the next capacity; \<open>add\<close> does not look for the key.  After that
  \<open>insert\<close> of the compact object computes the hash of the key again, which gives the hash it was called with.\<close>

definition object_grow :: "('v \<times> 'v) table \<Rightarrow> ('v \<times> 'v) table option" where
  "object_grow t = foldM (\<lambda>(h, e). table_add h e) (table_hashed t) (NewObject2 (table_len t + 1))"

definition object_add :: "u64 \<Rightarrow> 'v \<Rightarrow> 'v \<Rightarrow> ('v \<times> 'v) table \<Rightarrow> ('v \<times> 'v) table option" where
  "object_add h k v t = (if table_full t then do { obj \<leftarrow> object_grow t; table_add h (k, v) obj } else table_add h (k, v) t)"

definition object_insert :: "('v \<Rightarrow> 'v \<Rightarrow> bool option) \<Rightarrow> u64 \<Rightarrow> 'v \<Rightarrow> 'v \<Rightarrow> ('v \<times> 'v) table \<Rightarrow> ('v \<times> 'v) table option" where
  "object_insert eq h k v t =
     (if table_full t then do { obj \<leftarrow> object_grow t; object_put eq h k v obj } else object_put eq h k v t)"

definition Object2_Insert :: "('v \<Rightarrow> 'v \<Rightarrow> bool option) \<Rightarrow> ('v \<Rightarrow> u64) \<Rightarrow> 'v \<Rightarrow> 'v \<Rightarrow> ('v \<times> 'v) table \<Rightarrow> ('v \<times> 'v) table option" where
  "Object2_Insert eq hash k v t = object_insert eq (hash k) k v t"

definition object_get :: "('v \<Rightarrow> 'v \<Rightarrow> bool option) \<Rightarrow> u64 \<Rightarrow> 'v \<Rightarrow> ('v \<times> 'v) table \<Rightarrow> 'v option option" where
  "object_get eq h k t = map_option (map_option snd) (table_get (\<lambda>e. eq (fst e) k) h t)"

definition Object2_Get :: "('v \<Rightarrow> 'v \<Rightarrow> bool option) \<Rightarrow> ('v \<Rightarrow> u64) \<Rightarrow> 'v \<Rightarrow> ('v \<times> 'v) table \<Rightarrow> 'v option option" where
  "Object2_Get eq hash k t = object_get eq (hash k) k t"

definition Object2_Diff :: "('v \<Rightarrow> 'v \<Rightarrow> bool option) \<Rightarrow> ('v \<times> 'v) table \<Rightarrow> ('v \<times> 'v) table \<Rightarrow> ('v \<times> 'v) table option" where
  "Object2_Diff eq t other = foldM (\<lambda>(h, k, v) result. do {
       r \<leftarrow> object_get eq h k other;
       if r = None then object_add h k v result else Some result })
     (table_hashed t) (NewObject2 (max (table_len t) (table_len other)))"

section \<open>What a table holds\<close>

text \<open>The invariant of tables: the array is not longer than its capacity, the stored hashes are those of the
  entries, a chain is found under one hash, and the counter of a large table is right.\<close>

definition table_ok :: "('e \<Rightarrow> u64) \<Rightarrow> 'e table \<Rightarrow> bool" where
  "table_ok hash t \<longleftrightarrow> (\<forall>(h, e) \<in> set (table_hashed t). h = hash e) \<and> (case t of
     tableCompact cap es \<Rightarrow> length es \<le> cap \<and> cap \<in> {0, 2, 4, 8, 16}
   | tableLarge tb n \<Rightarrow> distinct (map fst tb) \<and> n = length (table_elems t))"

lemma table_elems_hashed: "table_elems t = map snd (table_hashed t)"
  by (auto simp: table_elems_def table_hashed_def map_concat o_def case_prod_unfold split: table.split)

lemma table_hashed_ok: "table_ok hash t \<Longrightarrow> table_hashed t = map (\<lambda>e. (hash e, e)) (table_elems t)"
  unfolding table_elems_hashed map_map
  by (rule map_idI [symmetric]) (auto simp: table_ok_def)

lemma new_table_ok [simp]: "table_ok hash (new_table n)" "table_elems (new_table n) = []" "table_len (new_table n) = 0"
  by (simp_all add: new_table_def table_ok_def table_elems_def table_hashed_def table_len_def)

lemma table_len_ok: "table_ok hash t \<Longrightarrow> table_len t = length (table_elems t)"
  by (auto simp: table_ok_def table_len_def table_elems_def split: table.splits)

lemma entries_find_total:
  assumes "\<And>e. e \<in> set es \<Longrightarrow> p e = Some (q e)"
  shows "entries_find p es = Some (find q es)"
  using assms by (induction es) auto

lemma entries_update_total:
  assumes "\<And>e. e \<in> set es \<Longrightarrow> p e = Some (q e)"
  shows "\<exists>r. entries_update p f es = Some r \<and> (case r of
      None \<Rightarrow> find q es = None
    | Some es' \<Rightarrow> \<exists>us e vs. es = us @ e # vs \<and> es' = us @ f e # vs \<and> q e \<and> find q es = Some e)"
  using assms
proof (induction es)
  case (Cons e es)
  show ?case
  proof (cases "q e")
    case True
    then have "entries_update p f (e # es) = Some (Some (f e # es))" using Cons.prems by simp
    moreover have "\<exists>us d vs. e # es = us @ d # vs \<and> f e # es = us @ f d # vs \<and> q d \<and> find q (e # es) = Some d"
      by (rule exI [of _ "[]"], rule exI [of _ e], rule exI [of _ es]) (simp add: True)
    ultimately show ?thesis by (intro exI [of _ "Some (f e # es)"]) simp
  next
    case False
    then obtain r where r: "entries_update p f es = Some r" and split: "case r of None \<Rightarrow> find q es = None
        | Some es' \<Rightarrow> \<exists>us e vs. es = us @ e # vs \<and> es' = us @ f e # vs \<and> q e \<and> find q es = Some e"
      using Cons.IH Cons.prems by auto
    have upd: "entries_update p f (e # es) = Some (map_option ((#) e) r)" using False r Cons.prems by simp
    show ?thesis
    proof (cases r)
      case (Some es')
      then obtain us d vs where "es = us @ d # vs" "es' = us @ f d # vs" "q d" "find q es = Some d" using split by auto
      then have "\<exists>us d vs. e # es = us @ d # vs \<and> e # es' = us @ f d # vs \<and> q d \<and> find q (e # es) = Some d"
        by (intro exI [of _ "e # us"] exI [of _ d] exI [of _ vs]) (simp add: False)
      then show ?thesis using upd Some by (intro exI [of _ "Some (e # es')"]) simp
    qed (use split upd False in simp)
  qed
qed simp

subsection \<open>Large tables\<close>

lemma chain_mem: "e \<in> set (chain tb h) \<Longrightarrow> e \<in> set (concat (map snd tb))"
  by (cases "map_of tb h") (auto simp: chain_def dest!: map_of_SomeD intro: bexI [of _ "(h, _)"])

lemma concat_chain:
  assumes "distinct (map fst tb)"
  shows "mset (concat (map snd (AList.update h c tb))) + mset (chain tb h) = mset (concat (map snd tb)) + mset c"
  using assms
proof (induction tb)
  case (Cons a tb)
  obtain k d where a: "a = (k, d)" by fastforce
  show ?case
  proof (cases "k = h")
    case True
    then show ?thesis by (simp add: a chain_def)
  next
    case False
    then have "chain (a # tb) h = chain tb h" by (simp add: a chain_def)
    then show ?thesis using Cons False by (simp add: a)
  qed
qed (simp add: chain_def)

lemma find_concat_chain:
  assumes "distinct (map fst tb)" and "\<And>k d e. (k, d) \<in> set tb \<Longrightarrow> e \<in> set d \<Longrightarrow> q e \<Longrightarrow> k = h"
  shows "find q (concat (map snd tb)) = find q (chain tb h)"
  using assms
proof (induction tb)
  case (Cons a tb)
  obtain k d where a: "a = (k, d)" by fastforce
  have app: "find q (xs @ ys) = (case find q xs of None \<Rightarrow> find q ys | Some x \<Rightarrow> Some x)" for xs ys
    by (induction xs) auto
  show ?case
  proof (cases "k = h")
    case True
    have "\<not> q e" if "(k', d') \<in> set tb" "e \<in> set d'" for k' d' e
    proof
      assume "q e"
      then have "k' = h" using Cons.prems(2) that by auto
      then show False using Cons.prems(1) True that(1) by (force simp: a)
    qed
    then have "find q (concat (map snd tb)) = None" by (auto simp: find_None_iff)
    then show ?thesis using True by (simp add: a app chain_def split: option.split)
  next
    case False
    then have none: "find q d = None" using Cons.prems(2) [of k d] by (auto simp: a find_None_iff)
    have "find q (concat (map snd tb)) = find q (chain tb h)" by (rule Cons.IH) (use Cons.prems in auto)
    then show ?thesis using False none by (simp add: a app chain_def)
  qed
qed (simp add: chain_def)

lemma update_mem: "(k, d) \<in> set (AList.update h c tb) \<Longrightarrow> k = h \<and> d = c \<or> (k, d) \<in> set tb"
  by (induction tb) (auto split: if_splits)

subsection \<open>Lookup, addition and update\<close>

lemma table_ok_hashed: "table_ok hash t \<Longrightarrow> (h, e) \<in> set (table_hashed t) \<Longrightarrow> hash e = h \<and> e \<in> set (table_elems t)"
  by (force simp: table_ok_def table_elems_hashed)

lemma large_mem:
  assumes "(k, d) \<in> set tb" and "e \<in> set d"
  shows "(k, e) \<in> set (table_hashed (tableLarge tb n))"
  using assms by (force simp: table_hashed_def)

lemma table_get_spec:
  assumes "table_ok hash t" and "\<And>e. e \<in> set (table_elems t) \<Longrightarrow> p e = Some (q e)"
    and "\<And>e. e \<in> set (table_elems t) \<Longrightarrow> q e \<Longrightarrow> hash e = h"
  shows "table_get p h t = Some (find q (table_elems t))"
proof (cases t)
  case (tableCompact cap es)
  have "entries_find (hash_test h p) es = Some (find (\<lambda>e. q (snd e)) es)"
  proof (rule entries_find_total)
    fix e assume e: "e \<in> set es"
    then have "hash (snd e) = fst e" "snd e \<in> set (table_elems t)"
      using table_ok_hashed [OF assms(1), of "fst e" "snd e"] by (simp_all add: tableCompact table_hashed_def)
    then show "hash_test h p e = Some (q (snd e))" using assms(2,3) [of "snd e"] by (auto simp: hash_test_def)
  qed
  moreover have "map_option snd (find (\<lambda>e. q (snd e)) es) = find q (map snd es)" by (induction es) auto
  ultimately show ?thesis by (simp add: tableCompact table_get_def table_elems_def)
next
  case (tableLarge tb n)
  have "entries_find p (chain tb h) = Some (find q (chain tb h))"
    by (rule entries_find_total) (use assms(2) in \<open>auto simp: tableLarge table_elems_def dest: chain_mem\<close>)
  moreover have "find q (concat (map snd tb)) = find q (chain tb h)"
  proof (rule find_concat_chain)
    fix k d e assume "(k, d) \<in> set tb" "e \<in> set d" "q e"
    then show "k = h"
      using table_ok_hashed [OF assms(1)] assms(3) large_mem [of k d tb e n] by (metis tableLarge)
  qed (use assms(1) in \<open>simp add: table_ok_def tableLarge\<close>)
  ultimately show ?thesis by (simp add: tableLarge table_get_def table_elems_def)
qed

text \<open>The capacity of a compact table; it only changes when a table is rebuilt.\<close>

definition table_cap :: "'e table \<Rightarrow> nat option" where
  "table_cap t = (case t of tableCompact cap _ \<Rightarrow> Some cap | tableLarge _ _ \<Rightarrow> None)"

definition room :: "nat \<Rightarrow> 'e table \<Rightarrow> bool" where
  "room n t = (case table_cap t of Some cap \<Rightarrow> length (table_elems t) + n \<le> cap | None \<Rightarrow> True)"

lemma room_new_table: "room n (new_table n)"
  by (simp add: room_def new_table_def table_cap_def table_elems_def)

lemma room_full: "table_ok hash t \<Longrightarrow> \<not> table_full t \<longleftrightarrow> room 1 t"
  by (auto simp: room_def table_full_def table_cap_def table_ok_def table_elems_def split: table.splits)

text \<open>Growing: the calls of \<open>add\<close> on the new set always find room, so \<open>set_add\<close> is the recursion of the code.\<close>

lemma entries_update_length: "entries_update p f es = Some (Some es') \<Longrightarrow> length es' = length es"
  by (induction es arbitrary: es') (auto simp: bind_eq_Some_conv split: if_splits)

lemma set_put_room:
  assumes "set_put eq h v t = Some t'" and "room (Suc n) t"
  shows "room n t'"
proof (cases t)
  case (tableCompact cap es)
  have "table_add h v t = Some t' \<Longrightarrow> ?thesis"
    using assms(2) by (auto simp: tableCompact table_add_def room_def table_cap_def table_elems_def split: if_splits)
  moreover have "length es' = length es \<Longrightarrow> t' = tableCompact cap es' \<Longrightarrow> ?thesis" for es'
    using assms(2) by (auto simp: tableCompact room_def table_cap_def table_elems_def)
  ultimately show ?thesis
    using assms(1)
    by (auto simp: tableCompact set_put_def setCompact_put_def table_put_def bind_eq_Some_conv dest!: entries_update_length split: option.splits)
next
  case (tableLarge tb n)
  then have "table_cap t' = None"
    using assms(1) by (auto simp: set_put_def setLarge_add_def table_put_def table_add_def table_cap_def bind_eq_Some_conv split: option.splits)
  then show ?thesis by (simp add: room_def)
qed

lemma set_add_grow:
  "room (length xs) t \<Longrightarrow> foldM (\<lambda>(h, w). set_add eq h w) xs t = foldM (\<lambda>(h, w). set_put eq h w) xs t"
proof (induction xs arbitrary: t)
  case (Cons x xs)
  obtain h w where x: "x = (h, w)" by fastforce
  have "\<not> table_full t" using Cons.prems by (auto simp: room_def table_full_def table_cap_def table_elems_def split: table.splits)
  then have "set_add eq h w t = set_put eq h w t" by (simp add: set_add_def)
  moreover have "foldM (\<lambda>(h, w). set_add eq h w) xs t' = foldM (\<lambda>(h, w). set_put eq h w) xs t'" if "set_put eq h w t = Some t'" for t'
    using Cons set_put_room [OF that] by simp
  ultimately show ?case by (cases "set_put eq h w t") (simp_all add: x)
qed simp

text \<open>What an operation gives: a table with the right hashes and the wanted entries.\<close>

definition holds :: "('e \<Rightarrow> u64) \<Rightarrow> nat option \<Rightarrow> 'e multiset \<Rightarrow> 'e table option \<Rightarrow> bool" where
  "holds hash cap es r \<longleftrightarrow> (\<exists>t. r = Some t \<and> table_ok hash t \<and> table_cap t = cap \<and> mset (table_elems t) = es)"

lemma holds_Some [simp]:
  "holds hash cap es (Some t) \<longleftrightarrow> table_ok hash t \<and> table_cap t = cap \<and> mset (table_elems t) = es"
  by (simp add: holds_def)

text \<open>Chains of a large table.\<close>

lemma chain_hash:
  assumes "table_ok hash (tableLarge tb n)" and "e \<in> set (chain tb h)"
  shows "hash e = h"
proof -
  obtain c where "(h, c) \<in> set tb" "e \<in> set c"
    using assms(2) by (cases "map_of tb h") (auto simp: chain_def dest!: map_of_SomeD)
  then show ?thesis using table_ok_hashed [OF assms(1) large_mem] by blast
qed

lemma chain_sub:
  assumes "distinct (map fst tb)"
  shows "mset (chain tb h) \<subseteq># mset (concat (map snd tb))"
proof -
  have "mset (concat (map snd tb)) = mset (concat (map snd (AList.update h [] tb))) + mset (chain tb h)"
    using concat_chain [OF assms, of h "[]"] by simp
  then show ?thesis by simp
qed

text \<open>Replacing a chain.\<close>

lemma large_update_ok:
  assumes "table_ok hash (tableLarge tb n)" and "\<And>e. e \<in> set c \<Longrightarrow> hash e = h"
    and "length c + n = n' + length (chain tb h)"
  shows "table_ok hash (tableLarge (AList.update h c tb) n')"
    and "mset (concat (map snd (AList.update h c tb))) = mset (concat (map snd tb)) - mset (chain tb h) + mset c"
proof -
  have dist: "distinct (map fst tb)" and n: "n = length (concat (map snd tb))"
    using assms(1) by (simp_all add: table_ok_def table_elems_def)
  show upd: "mset (concat (map snd (AList.update h c tb))) = mset (concat (map snd tb)) - mset (chain tb h) + mset c"
  proof (rule multiset_eqI)
    fix x
    have "count (mset (concat (map snd (AList.update h c tb)))) x + count (mset (chain tb h)) x =
        count (mset (concat (map snd tb))) x + count (mset c) x"
      using arg_cong [OF concat_chain [OF dist, of h c], where f = "\<lambda>M. count M x"] by simp
    moreover have "count (mset (chain tb h)) x \<le> count (mset (concat (map snd tb))) x"
      using chain_sub [OF dist] by (simp add: subseteq_mset_def)
    ultimately show "count (mset (concat (map snd (AList.update h c tb)))) x =
        count (mset (concat (map snd tb)) - mset (chain tb h) + mset c) x" by simp
  qed
  have "length (concat (map snd (AList.update h c tb))) + length (chain tb h) = length (concat (map snd tb)) + length c"
    using arg_cong [OF concat_chain [OF dist, of h c], where f = size] by (simp only: size_union size_mset)
  then have "n' = length (concat (map snd (AList.update h c tb)))" using assms(3) n by linarith
  moreover have "hash e = k" if pair: "(k, e) \<in> set (table_hashed (tableLarge (AList.update h c tb) n'))" for k e
  proof -
    obtain d where d: "(k, d) \<in> set (AList.update h c tb)" "e \<in> set d" using pair by (auto simp: table_hashed_def)
    then show ?thesis
      using update_mem [OF d(1)] assms(2) table_ok_hashed [OF assms(1) large_mem] by blast
  qed
  ultimately show "table_ok hash (tableLarge (AList.update h c tb) n')" using distinct_update [OF dist]
    by (fastforce simp: table_ok_def table_elems_def)
qed

lemma table_add_spec:
  assumes "table_ok hash t" and "room 1 t" and "hash e = h"
  shows "holds hash (table_cap t) (add_mset e (mset (table_elems t))) (table_add h e t)"
proof (cases t)
  case (tableLarge tb n)
  have "distinct (map fst tb)" using assms(1) by (simp add: table_ok_def tableLarge)
  moreover have "table_ok hash (tableLarge (AList.update h (e # chain tb h) tb) (Suc n))"
    "mset (concat (map snd (AList.update h (e # chain tb h) tb))) = mset (concat (map snd tb)) - mset (chain tb h) + mset (e # chain tb h)"
    using large_update_ok [OF assms(1) [unfolded tableLarge], of "e # chain tb h" h "Suc n"]
      chain_hash [OF assms(1) [unfolded tableLarge], of _ h] assms(3) by auto
  ultimately show ?thesis
    by (simp add: tableLarge table_add_def table_cap_def table_elems_def chain_sub)
qed (use assms in \<open>auto simp: table_add_def table_ok_def table_elems_def table_hashed_def table_cap_def room_def\<close>)

lemma mset_replace: "mset (us @ e # vs) - {#e#} + {#x#} = mset (us @ x # vs)"
  by simp

lemma table_put_spec:
  assumes "table_ok hash t" and "room 1 t" and "hash new = h"
    and "\<And>e. e \<in> set (table_elems t) \<Longrightarrow> p e = Some (q e)"
    and "\<And>e. e \<in> set (table_elems t) \<Longrightarrow> q e \<Longrightarrow> hash e = h \<and> hash (f e) = h"
  shows "holds hash (table_cap t)
    (case find q (table_elems t) of Some e \<Rightarrow> mset (table_elems t) - {#e#} + {#f e#} | None \<Rightarrow> add_mset new (mset (table_elems t)))
    (table_put p f h new t)"
proof (cases t)
  case (tableCompact cap es)
  have test: "hash_test h p e = Some (q (snd e))" if e: "e \<in> set es" for e
  proof -
    have "hash (snd e) = fst e" "snd e \<in> set (table_elems t)"
      using table_ok_hashed [OF assms(1), of "fst e" "snd e"] e by (simp_all add: tableCompact table_hashed_def)
    then show ?thesis using assms(4,5) [of "snd e"] by (auto simp: hash_test_def)
  qed
  have find: "find q (table_elems t) = map_option snd (find (\<lambda>e. q (snd e)) es)"
    by (simp add: tableCompact table_elems_def) (induction es, auto)
  obtain r where r: "entries_update (hash_test h p) (\<lambda>(h, e). (h, f e)) es = Some r" "case r of
      None \<Rightarrow> find (\<lambda>e. q (snd e)) es = None
    | Some es' \<Rightarrow> \<exists>us e vs. es = us @ e # vs \<and> es' = us @ (\<lambda>(h, e). (h, f e)) e # vs \<and> q (snd e) \<and> find (\<lambda>e. q (snd e)) es = Some e"
    using entries_update_total [of es "hash_test h p" "\<lambda>e. q (snd e)" "\<lambda>(h, e). (h, f e)", OF test] by blast
  show ?thesis
  proof (cases r)
    case None
    then show ?thesis using table_add_spec [OF assms(1-3)] r find by (simp add: tableCompact table_put_def)
  next
    case (Some es')
    then obtain us k e vs where es: "es = us @ (k, e) # vs" "es' = us @ (k, f e) # vs" "q e"
      and e: "find (\<lambda>e. q (snd e)) es = Some (k, e)"
      using r(2) by auto
    have put: "table_put p f h new t = Some (tableCompact cap es')" using r Some by (simp add: tableCompact table_put_def)
    have "hash e = k" "e \<in> set (table_elems t)" "hash e = h" "hash (f e) = h"
      using table_ok_hashed [OF assms(1), of k e] assms(5) [of e] es by (auto simp: tableCompact table_hashed_def)
    then have "table_ok hash (tableCompact cap es')"
      using assms(1) es by (auto simp: tableCompact table_ok_def table_hashed_def)
    then show ?thesis unfolding put find e using es by (simp add: tableCompact table_cap_def table_elems_def)
  qed
next
  case (tableLarge tb n)
  have dist: "distinct (map fst tb)" using assms(1) by (simp add: table_ok_def tableLarge)
  have mem: "e \<in> set (table_elems t)" if "e \<in> set (chain tb h)" for e
    using chain_mem [OF that] by (simp add: tableLarge table_elems_def)
  have find: "find q (table_elems t) = find q (chain tb h)"
    unfolding tableLarge table_elems_def table.case
  proof (rule find_concat_chain [OF dist])
    fix k d e assume "(k, d) \<in> set tb" "e \<in> set d" "q e"
    then show "k = h" using table_ok_hashed [OF assms(1)] assms(5) large_mem [of k d tb e n] by (metis tableLarge)
  qed
  obtain r where r: "entries_update p f (chain tb h) = Some r" "case r of
      None \<Rightarrow> find q (chain tb h) = None
    | Some c \<Rightarrow> \<exists>us e vs. chain tb h = us @ e # vs \<and> c = us @ f e # vs \<and> q e \<and> find q (chain tb h) = Some e"
    using entries_update_total [of "chain tb h" p q f] assms(4) mem by blast
  show ?thesis
  proof (cases r)
    case None
    then show ?thesis using table_add_spec [OF assms(1-3)] r find by (simp add: tableLarge table_put_def)
  next
    case (Some c)
    then obtain us e vs where c: "chain tb h = us @ e # vs" "c = us @ f e # vs" "q e" and e: "find q (chain tb h) = Some e"
      using r(2) by auto
    have put: "table_put p f h new t = Some (tableLarge (AList.update h c tb) n)"
      using r Some by (simp add: tableLarge table_put_def)
    have hashes: "\<And>x. x \<in> set c \<Longrightarrow> hash x = h"
      using c mem assms(5) [of e] chain_hash [OF assms(1) [unfolded tableLarge], of _ h] by auto
    have len: "length c + n = n + length (chain tb h)" using c by simp
    note upd = large_update_ok [OF assms(1) [unfolded tableLarge] hashes len]
    have "mset (concat (map snd tb)) - mset (chain tb h) + mset c = mset (concat (map snd tb)) - {#e#} + {#f e#}"
      using chain_sub [OF dist, of h] unfolding c
      by (auto simp: mset_subset_eq_exists_conv)
    then show ?thesis unfolding put find e using upd by (simp add: tableLarge table_cap_def table_elems_def)
  qed
qed

section \<open>Sets and objects of meanings\<close>

text \<open>
  Values have meanings, and two values are equal for the code when their meanings are.  A set stands for the set
  of the meanings of its entries, an object for a map of meanings; the invariants say that no meaning is
  entered twice.
\<close>

definition set_inv :: "('v \<Rightarrow> u64) \<Rightarrow> ('v \<Rightarrow> 'm) \<Rightarrow> 'v set \<Rightarrow> 'v table \<Rightarrow> bool" where
  "set_inv hash m D t \<longleftrightarrow> table_ok hash t \<and> set (table_elems t) \<subseteq> D \<and> distinct (map m (table_elems t))"

definition set_abs :: "('v \<Rightarrow> 'm) \<Rightarrow> 'v table \<Rightarrow> 'm set" where
  "set_abs m t = m ` set (table_elems t)"

definition obj_inv :: "('v \<Rightarrow> u64) \<Rightarrow> ('v \<Rightarrow> 'm) \<Rightarrow> 'v set \<Rightarrow> ('v \<times> 'v) table \<Rightarrow> bool" where
  "obj_inv hash m D t \<longleftrightarrow> table_ok (hash \<circ> fst) t \<and> set (table_elems t) \<subseteq> D \<times> D \<and> distinct (map (m \<circ> fst) (table_elems t))"

definition obj_abs :: "('v \<Rightarrow> 'm) \<Rightarrow> ('v \<times> 'v) table \<Rightarrow> 'm \<rightharpoonup> 'm" where
  "obj_abs m t = map_of (map (map_prod m m) (table_elems t))"

lemma new_inv [simp]:
  "set_inv hash m D (new_table n)" "set_abs m (new_table n) = {}"
  "obj_inv hash m D (new_table n)" "obj_abs m (new_table n) = Map.empty"
  by (simp_all add: set_inv_def set_abs_def obj_inv_def obj_abs_def)

lemma set_inv_len: "set_inv hash m D t \<Longrightarrow> table_len t = card (set_abs m t)"
  using distinct_card [of "map m (table_elems t)"] by (auto simp: set_inv_def set_abs_def table_len_ok)

lemma obj_inv_len: "obj_inv hash m D t \<Longrightarrow> table_len t = card (dom (obj_abs m t))"
  using distinct_card [of "map (m \<circ> fst) (table_elems t)"]
  by (auto simp: obj_inv_def obj_abs_def table_len_ok dom_map_of_conv_image_fst image_image)

text \<open>The invariants and abstractions only depend on the entries up to their order.\<close>

lemma set_perm:
  assumes "table_ok hash t" and "mset (table_elems t) = mset l" and "set l \<subseteq> D" and "distinct (map m l)"
  shows "set_inv hash m D t" and "set_abs m t = m ` set l"
  using assms mset_eq_setD [OF assms(2)]
    mset_eq_imp_distinct_iff [of "map m (table_elems t)" "map m l"] by (auto simp: set_inv_def set_abs_def)

lemma obj_perm:
  assumes "table_ok (hash \<circ> fst) t" and "mset (table_elems t) = mset l" and "set l \<subseteq> D \<times> D" and "distinct (map (m \<circ> fst) l)"
  shows "obj_inv hash m D t" and "obj_abs m t = map_of (map (map_prod m m) l)"
proof -
  have dist: "distinct (map (m \<circ> fst) (table_elems t))"
    using assms(2,4) mset_eq_imp_distinct_iff [of "map (m \<circ> fst) (table_elems t)" "map (m \<circ> fst) l"] by simp
  then show "obj_inv hash m D t"
    using assms(1,3) mset_eq_setD [OF assms(2)] by (auto simp: obj_inv_def)
  show "obj_abs m t = map_of (map (map_prod m m) l)"
    unfolding obj_abs_def
    using dist assms(4) mset_eq_setD [OF assms(2)] by (subst map_of_inject_set) (simp_all add: o_def)
qed

text \<open>The contract of \<open>equalOp\<close> and \<open>hash\<close> on the values \<open>D\<close>: equality of meanings, respected by the hash.\<close>

locale hashed_values =
  fixes eq :: "'v \<Rightarrow> 'v \<Rightarrow> bool option" and hash :: "'v \<Rightarrow> u64" and m :: "'v \<Rightarrow> 'm" and D :: "'v set"
  assumes eq_meaning: "\<And>a b. a \<in> D \<Longrightarrow> b \<in> D \<Longrightarrow> eq a b = Some (m a = m b)"
    and hash_meaning: "\<And>a b. a \<in> D \<Longrightarrow> b \<in> D \<Longrightarrow> m a = m b \<Longrightarrow> hash a = hash b"
begin

subsection \<open>Sets\<close>

lemma set_put_spec:
  assumes "set_inv hash m D t" and "room 1 t" and "v \<in> D"
  shows "\<exists>t'. set_put eq (hash v) v t = Some t' \<and> set_inv hash m D t' \<and> table_cap t' = table_cap t \<and>
    set_abs m t' = insert (m v) (set_abs m t)"
proof -
  define f where "f = (case t of tableCompact _ _ \<Rightarrow> (\<lambda>w. w) | tableLarge _ _ \<Rightarrow> (\<lambda>_. v))"
  have t: "table_ok hash t" "set (table_elems t) \<subseteq> D" "distinct (map m (table_elems t))" using assms(1) by (auto simp: set_inv_def)
  have put: "set_put eq (hash v) v t = table_put (\<lambda>w. eq w v) f (hash v) v t"
    by (simp add: set_put_def setCompact_put_def setLarge_add_def f_def split: table.split)
  have f: "f e \<in> D \<and> m (f e) = m e" if "e \<in> D" "m e = m v" for e
    using that assms(3) by (auto simp: f_def split: table.split)
  have "holds hash (table_cap t) (case find (\<lambda>w. m w = m v) (table_elems t) of
      Some e \<Rightarrow> mset (table_elems t) - {#e#} + {#f e#} | None \<Rightarrow> add_mset v (mset (table_elems t)))
      (set_put eq (hash v) v t)"
    unfolding put
  proof (rule table_put_spec [OF t(1) assms(2) refl])
    fix e assume "e \<in> set (table_elems t)"
    then have e: "e \<in> D" using t(2) by blast
    then show "eq e v = Some (m e = m v)" using assms(3) by (rule eq_meaning)
    show "hash e = hash v \<and> hash (f e) = hash v" if "m e = m v"
      using hash_meaning [OF e assms(3) that] hash_meaning [OF _ assms(3), of "f e"] f [OF e that] that by simp
  qed
  then obtain t' where t': "set_put eq (hash v) v t = Some t'" "table_ok hash t'" "table_cap t' = table_cap t"
    and elems: "mset (table_elems t') = (case find (\<lambda>w. m w = m v) (table_elems t) of
      Some e \<Rightarrow> mset (table_elems t) - {#e#} + {#f e#} | None \<Rightarrow> add_mset v (mset (table_elems t)))"
    by (auto simp: holds_def)
  show ?thesis
  proof (cases "find (\<lambda>w. m w = m v) (table_elems t)")
    case None
    then have new: "m v \<notin> m ` set (table_elems t)" by (auto simp: find_None_iff)
    have "mset (table_elems t') = mset (v # table_elems t)" using elems None by simp
    from set_perm [OF t'(2) this, of D m] show ?thesis using t t' new assms(3) by (auto simp: set_abs_def)
  next
    case (Some e)
    then have e: "e \<in> set (table_elems t)" "m e = m v" by (auto simp: find_Some_iff)
    then obtain us vs where es: "table_elems t = us @ e # vs" by (auto dest: split_list)
    have "mset (table_elems t') = mset (us @ f e # vs)" using elems Some es by simp
    from set_perm [OF t'(2) this, of D m] show ?thesis using t t' es e f [of e] by (auto simp: set_abs_def)
  qed
qed

lemma set_puts_spec:
  assumes "set_inv hash m D t" and "room (length vs) t" and "set vs \<subseteq> D"
  shows "\<exists>t'. foldM (\<lambda>(h, w). set_put eq h w) (map (\<lambda>v. (hash v, v)) vs) t = Some t' \<and> set_inv hash m D t' \<and>
    table_cap t' = table_cap t \<and> set_abs m t' = m ` set vs \<union> set_abs m t"
  using assms
proof (induction vs arbitrary: t)
  case (Cons v vs)
  then have "room 1 t" by (auto simp: room_def split: option.splits)
  then obtain t1 where t1: "set_put eq (hash v) v t = Some t1" "set_inv hash m D t1" "table_cap t1 = table_cap t"
    "set_abs m t1 = insert (m v) (set_abs m t)" using set_put_spec Cons.prems by fastforce
  have "table_len t1 \<le> Suc (table_len t)"
    using set_inv_len [OF t1(2)] set_inv_len [OF Cons.prems(1)] t1(4) by (simp add: card_insert_if set_abs_def)
  then have "room (length vs) t1"
    using Cons.prems(1,2) t1 by (auto simp: room_def set_inv_def table_len_ok split: option.splits)
  with Cons t1 show ?case by fastforce
qed auto

text \<open>\<open>Add\<close> inserts the meaning of the value, whatever the representation, and never panics.\<close>

lemma Set_Add_spec:
  assumes "set_inv hash m D t" and "v \<in> D"
  shows "\<exists>t'. Set_Add eq hash v t = Some t' \<and> set_inv hash m D t' \<and> set_abs m t' = insert (m v) (set_abs m t)"
proof (cases "table_full t")
  case False
  then have "room 1 t" using assms(1) room_full by (auto simp: set_inv_def)
  then show ?thesis using set_put_spec [OF assms(1) _ assms(2)] False by (auto simp: Set_Add_def set_add_def)
next
  case True
  have t: "table_ok hash t" "set (table_elems t) \<subseteq> D" using assms(1) by (auto simp: set_inv_def)
  have n: "table_len t = length (table_elems t)" using table_len_ok [OF t(1)] .
  have roomy: "room (length (table_elems t) + 1) (new_table (table_len t + 1) :: 'v table)"
    using room_new_table [of "table_len t + 1"] n by simp
  then have "room (length (table_elems t)) (new_table (table_len t + 1) :: 'v table)"
    by (auto simp: room_def split: option.splits)
  from set_puts_spec [OF _ this t(2)] obtain s where s: "foldM (\<lambda>(h, w). set_put eq h w) (table_hashed t) (NewSet (table_len t + 1)) = Some s"
    "set_inv hash m D s" "table_cap s = table_cap (new_table (table_len t + 1) :: 'v table)" "set_abs m s = set_abs m t"
    by (auto simp: table_hashed_ok [OF t(1)] NewSet_def set_abs_def)
  have "length (table_elems s) = length (table_elems t)"
    using set_inv_len [OF s(2)] set_inv_len [OF assms(1)] s(2,4) n by (auto simp: set_inv_def table_len_ok)
  then have "room 1 s" using roomy s(3) by (auto simp: room_def split: option.splits)
  from set_put_spec [OF s(2) this assms(2)] show ?thesis using True s by (auto simp: Set_Add_def set_add_def)
qed

lemma Set_Get_spec:
  assumes "set_inv hash m D t" and "v \<in> D"
  shows "Set_Get eq hash v t = Some (find (\<lambda>w. m w = m v) (table_elems t))"
  unfolding Set_Get_def
proof (rule table_get_spec)
  show "table_ok hash t" using assms(1) by (simp add: set_inv_def)
  fix e assume "e \<in> set (table_elems t)"
  then have e: "e \<in> D" using assms(1) by (auto simp: set_inv_def)
  then show "eq e v = Some (m e = m v)" using assms(2) by (rule eq_meaning)
  show "hash e = hash v" if "m e = m v" using e assms(2) that by (rule hash_meaning)
qed

lemma Set_Get_found:
  assumes "set_inv hash m D t" and "v \<in> D"
  shows "\<exists>r. Set_Get eq hash v t = Some r \<and> (r \<noteq> None \<longleftrightarrow> m v \<in> set_abs m t)"
proof -
  have "find (\<lambda>w. m w = m v) (table_elems t) \<noteq> None \<longleftrightarrow> m v \<in> set_abs m t"
    unfolding find_None_iff set_abs_def image_iff by metis
  then show ?thesis using Set_Get_spec [OF assms] by blast
qed

lemma set_adds_spec:
  assumes "set_inv hash m D t" and "set vs \<subseteq> D"
  shows "\<exists>t'. foldM (\<lambda>(h, v). set_add eq h v) (map (\<lambda>v. (hash v, v)) vs) t = Some t' \<and> set_inv hash m D t' \<and>
    set_abs m t' = m ` set vs \<union> set_abs m t"
  using assms
proof (induction vs arbitrary: t)
  case (Cons v vs)
  then obtain t1 where "set_add eq (hash v) v t = Some t1" "set_inv hash m D t1" "set_abs m t1 = insert (m v) (set_abs m t)"
    using Set_Add_spec by (fastforce simp: Set_Add_def)
  with Cons show ?case by fastforce
qed auto

text \<open>\<open>MergeWith\<close> is the union.\<close>

lemma Set_MergeWith_spec:
  assumes "set_inv hash m D t" and "set_inv hash m D other"
  shows "\<exists>t'. Set_MergeWith eq t other = Some t' \<and> set_inv hash m D t' \<and> set_abs m t' = set_abs m t \<union> set_abs m other"
proof -
  have o: "table_ok hash other" "set (table_elems other) \<subseteq> D" using assms(2) by (auto simp: set_inv_def)
  show ?thesis using set_adds_spec [OF assms(1) o(2)]
    by (auto simp: Set_MergeWith_def Set_mergeTo_def table_hashed_ok [OF o(1)] set_abs_def)
qed

subsection \<open>Objects\<close>

lemma object_entry_tests:
  assumes "obj_inv hash m D t" and "k \<in> D" and "e \<in> set (table_elems t)"
  shows "eq (fst e) k = Some (m (fst e) = m k)" and "m (fst e) = m k \<Longrightarrow> (hash \<circ> fst) e = hash k"
proof -
  have e: "fst e \<in> D" using assms(1,3) by (auto simp: obj_inv_def)
  show "eq (fst e) k = Some (m (fst e) = m k)" using e assms(2) by (rule eq_meaning)
  show "m (fst e) = m k \<Longrightarrow> (hash \<circ> fst) e = hash k" using hash_meaning [OF e assms(2)] by simp
qed

lemma find_meaning:
  "map_option (m \<circ> snd) (find (\<lambda>e. m (fst e) = x) es) = map_of (map (map_prod m m) es) x"
  by (induction es) auto

lemma object_get_spec:
  assumes "obj_inv hash m D t" and "k \<in> D"
  shows "\<exists>r. object_get eq (hash k) k t = Some r \<and> map_option m r = obj_abs m t (m k) \<and> (\<forall>v. r = Some v \<longrightarrow> v \<in> D)"
proof -
  have "table_get (\<lambda>e. eq (fst e) k) (hash k) t = Some (find (\<lambda>e. m (fst e) = m k) (table_elems t))"
    by (rule table_get_spec [where hash = "hash \<circ> fst"])
      (use object_entry_tests [OF assms] assms(1) in \<open>auto simp: obj_inv_def\<close>)
  moreover have "snd e \<in> D" if "find (\<lambda>e. m (fst e) = m k) (table_elems t) = Some e" for e
  proof -
    have "e \<in> set (table_elems t)" using that by (auto simp: find_Some_iff)
    then show ?thesis using assms(1) by (auto simp: obj_inv_def)
  qed
  moreover have "map_option m (map_option snd (find (\<lambda>e. m (fst e) = m k) (table_elems t))) = obj_abs m t (m k)"
    using find_meaning [of "m k" "table_elems t"] by (simp add: obj_abs_def option.map_comp)
  ultimately show ?thesis by (auto simp: object_get_def)
qed

lemma Object2_Get_spec:
  assumes "obj_inv hash m D t" and "k \<in> D"
  shows "\<exists>r. Object2_Get eq hash k t = Some r \<and> map_option m r = obj_abs m t (m k) \<and> (\<forall>v. r = Some v \<longrightarrow> v \<in> D)"
  using object_get_spec [OF assms] by (simp add: Object2_Get_def)

lemma table_adds_spec:
  fixes t :: "('v \<times> 'v) table"
  assumes "table_ok (hash \<circ> fst) t" and "room (length es) t"
  shows "holds (hash \<circ> fst) (table_cap t) (mset es + mset (table_elems t))
    (foldM (\<lambda>(h, e). table_add h e) (map (\<lambda>e. ((hash \<circ> fst) e, e)) es) t)"
  using assms
proof (induction es arbitrary: t)
  case (Cons e es)
  have "room 1 t" using Cons.prems(2) by (auto simp: room_def split: option.splits)
  from table_add_spec [OF Cons.prems(1) this refl, of e] obtain t1 where t1: "table_add ((hash \<circ> fst) e) e t = Some t1"
    "table_ok (hash \<circ> fst) t1" "table_cap t1 = table_cap t" "mset (table_elems t1) = add_mset e (mset (table_elems t))"
    unfolding holds_def by blast
  have "room (length es) t1"
    using Cons.prems(2) t1(3) arg_cong [OF t1(4), where f = size] by (auto simp: room_def split: option.splits)
  from Cons.IH [OF t1(2) this] show ?case using t1 by simp
qed simp

lemma object_grow_spec:
  assumes "obj_inv hash m D t" 
  shows "\<exists>t'. object_grow t = Some t' \<and> obj_inv hash m D t' \<and> obj_abs m t' = obj_abs m t \<and> room 1 t'"
proof -
  have t: "table_ok (hash \<circ> fst) t" "set (table_elems t) \<subseteq> D \<times> D" "distinct (map (m \<circ> fst) (table_elems t))"
    using assms by (auto simp: obj_inv_def)
  have n: "table_len t = length (table_elems t)" using table_len_ok [OF t(1)] .
  let ?new = "new_table (table_len t + 1) :: ('v \<times> 'v) table"
  have roomy: "room (length (table_elems t) + 1) ?new" using room_new_table [of "table_len t + 1"] n by simp
  then have "room (length (table_elems t)) ?new" by (auto simp: room_def split: option.splits)
  from table_adds_spec [OF new_table_ok(1) this] obtain t' where t': "object_grow t = Some t'" "table_ok (hash \<circ> fst) t'"
    "table_cap t' = table_cap ?new" "mset (table_elems t') = mset (table_elems t)"
    by (auto simp: holds_def object_grow_def NewObject2_def table_hashed_ok [OF t(1)] simp del: o_apply)
  have "room 1 t'" using roomy t'(3) mset_eq_length [OF t'(4)] by (auto simp: room_def split: option.splits)
  with t' show ?thesis using obj_perm [OF t'(2,4) t(2,3)] by (auto simp: obj_abs_def)
qed

lemma object_put_spec:
  assumes "obj_inv hash m D t" and "room 1 t" and "k \<in> D" and "v \<in> D"
  shows "\<exists>t'. object_put eq (hash k) k v t = Some t' \<and> obj_inv hash m D t' \<and> obj_abs m t' = (obj_abs m t)(m k \<mapsto> m v)"
proof -
  have t: "table_ok (hash \<circ> fst) t" "set (table_elems t) \<subseteq> D \<times> D" "distinct (map (m \<circ> fst) (table_elems t))"
    using assms(1) by (auto simp: obj_inv_def)
  have "holds (hash \<circ> fst) (table_cap t) (case find (\<lambda>e. m (fst e) = m k) (table_elems t) of
      Some e \<Rightarrow> mset (table_elems t) - {#e#} + {#(fst e, v)#} | None \<Rightarrow> add_mset (k, v) (mset (table_elems t)))
      (object_put eq (hash k) k v t)"
    unfolding object_put_def
    by (rule table_put_spec [OF t(1) assms(2)])
      (use object_entry_tests [OF assms(1,3)] in auto)
  then obtain t' where t': "object_put eq (hash k) k v t = Some t'" "table_ok (hash \<circ> fst) t'"
    and elems: "mset (table_elems t') = (case find (\<lambda>e. m (fst e) = m k) (table_elems t) of
      Some e \<Rightarrow> mset (table_elems t) - {#e#} + {#(fst e, v)#} | None \<Rightarrow> add_mset (k, v) (mset (table_elems t)))"
    by (auto simp: holds_def)
  show ?thesis
  proof (cases "find (\<lambda>e. m (fst e) = m k) (table_elems t)")
    case None
    then have new: "m k \<notin> (m \<circ> fst) ` set (table_elems t)" by (auto simp: find_None_iff)
    have "mset (table_elems t') = mset ((k, v) # table_elems t)" using elems None by simp
    from obj_perm [OF t'(2) this, of D m] show ?thesis using t t' new assms by (auto simp: obj_abs_def)
  next
    case (Some e)
    then have e: "e \<in> set (table_elems t)" "m (fst e) = m k" by (auto simp: find_Some_iff)
    then obtain us vs where es: "table_elems t = us @ e # vs" by (auto dest: split_list)
    have "mset (table_elems t') = mset (us @ (fst e, v) # vs)" using elems Some es by simp
    from obj_perm [OF t'(2) this, of D m] have "obj_inv hash m D t'"
      "obj_abs m t' = map_of (map (map_prod m m) (us @ (fst e, v) # vs))" using t es assms by auto
    moreover have "m k \<notin> fst ` set (map (map_prod m m) us)"
      using t(3) e(2) by (auto simp: es image_image)
    ultimately show ?thesis using t' es e(2) by (auto simp: obj_abs_def map_add_upd_left dom_map_of_conv_image_fst)
  qed
qed

text \<open>\<open>Insert\<close> updates the map of meanings, whatever the representation, and never panics.\<close>

lemma object_insert_spec:
  assumes "obj_inv hash m D t" and "k \<in> D" and "v \<in> D"
  shows "\<exists>t'. object_insert eq (hash k) k v t = Some t' \<and> obj_inv hash m D t' \<and> obj_abs m t' = (obj_abs m t)(m k \<mapsto> m v)"
proof (cases "table_full t")
  case False
  then have "room 1 t" using assms(1) room_full by (auto simp: obj_inv_def)
  then show ?thesis using object_put_spec assms False by (simp add: object_insert_def)
next
  case True
  from object_grow_spec [OF assms(1)] obtain s where s: "object_grow t = Some s" "obj_inv hash m D s" "obj_abs m s = obj_abs m t" "room 1 s"
    by blast
  then show ?thesis using object_put_spec [OF s(2,4) assms(2,3)] True by (simp add: object_insert_def)
qed

lemma Object2_Insert_spec:
  assumes "obj_inv hash m D t" and "k \<in> D" and "v \<in> D"
  shows "\<exists>t'. Object2_Insert eq hash k v t = Some t' \<and> obj_inv hash m D t' \<and> obj_abs m t' = (obj_abs m t)(m k \<mapsto> m v)"
  using object_insert_spec [OF assms] by (simp add: Object2_Insert_def)

text \<open>\<open>add\<close> does the same for a key that is not there.\<close>

lemma object_add_spec:
  assumes "obj_inv hash m D t" and "k \<in> D" and "v \<in> D" and "obj_abs m t (m k) = None"
  shows "\<exists>t'. object_add (hash k) k v t = Some t' \<and> obj_inv hash m D t' \<and> obj_abs m t' = (obj_abs m t)(m k \<mapsto> m v)"
proof -
  have add: "\<exists>t'. table_add (hash k) (k, v) t = Some t' \<and> obj_inv hash m D t' \<and> obj_abs m t' = (obj_abs m t)(m k \<mapsto> m v)"
    if t: "obj_inv hash m D t" "obj_abs m t (m k) = None" "room 1 t" for t
  proof -
    have "table_ok (hash \<circ> fst) t" using t(1) by (simp add: obj_inv_def)
    from table_add_spec [OF this t(3), of "(k, v)"] obtain t' where t': "table_add (hash k) (k, v) t = Some t'"
      "table_ok (hash \<circ> fst) t'" "mset (table_elems t') = mset ((k, v) # table_elems t)" by (auto simp: holds_def)
    have "m k \<notin> (m \<circ> fst) ` set (table_elems t)" using t(2) by (auto simp: obj_abs_def map_of_eq_None_iff image_image)
    then show ?thesis using obj_perm [OF t'(2,3), of D m] t(1) t'(1) assms by (auto simp: obj_inv_def obj_abs_def)
  qed
  show ?thesis
  proof (cases "table_full t")
    case False
    then have "room 1 t" using assms(1) room_full by (auto simp: obj_inv_def)
    then show ?thesis using add [OF assms(1,4)] False by (simp add: object_add_def)
  next
    case True
    from object_grow_spec [OF assms(1)] obtain s where s: "object_grow t = Some s" "obj_inv hash m D s" "obj_abs m s = obj_abs m t" "room 1 s"
      by blast
    then show ?thesis using add [OF s(2) _ s(4)] True assms(4) by (simp add: object_add_def)
  qed
qed

end

end
