(* ===== verification/Json_Number.thy ===== *)
theory Json_Number
  imports Bytes Complex_Main
begin

text \<open>
  JSON numbers are kept as their text (\<open>Float\<close> of src/pkg/json/json.go, a \<open>json.Number\<close>).  This theory has what
  the code uses of Go's standard library on that text: \<open>Number.Int64\<close> (\<open>strconv.ParseInt\<close>), \<open>Number.Float64\<close>
  (\<open>strconv.ParseFloat\<close>, rounding to the nearest double, ties to even), what \<open>big.Float.SetString\<close> accepts and reads
  as zero, the exact value read by \<open>big.Rat.SetString\<close> with its limit on exponents, and on top of them
  \<open>compareFloat\<close> of src/pkg/json/compare.go, which panics on numbers that one of the two does not accept.

  The text is a decimal number, as the JSON decoder and Go's formatting produce it; spellings that only
  \<open>big.Float\<close> and \<open>big.Rat\<close> read (hexadecimal, underscores, fractions) are outside the model.  \<open>big.Float\<close> reads a
  number as zero when its binary exponent is below the least one; the model decides that on the exact number, the
  library on the number rounded to 64 bits.
\<close>

section \<open>Reading decimal numbers\<close>

definition is_digit :: "u8 \<Rightarrow> bool" where
  "is_digit b = (48 \<le> b \<and> b \<le> 57)"

definition digits_value :: "bytes \<Rightarrow> int" where
  "digits_value ds = foldl (\<lambda>n b. 10 * n + uint (b - 48)) 0 ds"

definition read_sign :: "bytes \<Rightarrow> bool \<times> bytes" where
  "read_sign s = (case s of [] \<Rightarrow> (False, s) | b # t \<Rightarrow> if b = 45 then (True, t) else if b = 43 then (False, t) else (False, s))"

text \<open>\<open>strconv.ParseInt(s, 10, 64)\<close>; \<open>None\<close> is a syntax or range error.\<close>

definition Number_Int64 :: "gostring \<Rightarrow> int option" where
  "Number_Int64 s =
     (let (neg, ds) = read_sign s; n = digits_value ds; i = (if neg then - n else n)
      in if ds \<noteq> [] \<and> list_all is_digit ds \<and> - (2 ^ 63) \<le> i \<and> i < 2 ^ 63 then Some i else None)"

text \<open>The exponent at the end of a number.\<close>

definition read_exponent :: "bytes \<Rightarrow> int option" where
  "read_exponent s = (case s of
     [] \<Rightarrow> Some 0
   | b # t \<Rightarrow>
       (let (neg, ds) = read_sign t; n = digits_value ds
        in if (b = 101 \<or> b = 69) \<and> ds \<noteq> [] \<and> list_all is_digit ds then Some (if neg then - n else n) else None))"

text \<open>Sign, digits, number of digits after the point and written exponent.\<close>

definition read_decimal :: "gostring \<Rightarrow> (bool \<times> int \<times> nat \<times> int) option" where
  "read_decimal s =
     (let (neg, r) = read_sign s;
          whole = takeWhile is_digit r; r = dropWhile is_digit r;
          point = (case r of b # _ \<Rightarrow> b = 46 | [] \<Rightarrow> False);
          frac = (if point then takeWhile is_digit (tl r) else []);
          r = (if point then dropWhile is_digit (tl r) else r)
      in if whole = [] \<or> point \<and> frac = [] then None
         else map_option (\<lambda>x. (neg, digits_value (whole @ frac), length frac, x)) (read_exponent r))"

text \<open>Sign, digits and decimal exponent: the number is \<open>\<plusminus> digits \<cdot> 10 ^ exponent\<close>.\<close>

definition read_number :: "gostring \<Rightarrow> (bool \<times> int \<times> int) option" where
  "read_number s = map_option (\<lambda>(neg, m, f, x). (neg, m, x - int f)) (read_decimal s)"

definition scale10 :: "int \<Rightarrow> int \<Rightarrow> rat" where
  "scale10 m x = (if 0 \<le> x then of_int m * 10 ^ nat x else of_int m / 10 ^ nat (- x))"

definition Number_value :: "gostring \<Rightarrow> rat option" where
  "Number_value s = map_option (\<lambda>(neg, m, x). if neg then - scale10 m x else scale10 m x) (read_number s)"

section \<open>Doubles\<close>

definition round_half_even :: "rat \<Rightarrow> int" where
  "round_half_even q = (let f = \<lfloor>q\<rfloor>; d = q - of_int f
     in if d < 1 / 2 \<or> d = 1 / 2 \<and> even f then f else f + 1)"

definition scale2 :: "rat \<Rightarrow> int \<Rightarrow> rat" where
  "scale2 q e = (if 0 \<le> e then q / 2 ^ nat e else q * 2 ^ nat (- e))"

function int_log2 :: "int \<Rightarrow> int" where
  "int_log2 n = (if n < 2 then 0 else 1 + int_log2 (n div 2))"
  by pat_completeness auto
termination by (relation "measure nat") auto

declare int_log2.simps [simp del]

definition log2_floor :: "rat \<Rightarrow> int" where
  "log2_floor q = (let (n, d) = quotient_of q; k = int_log2 n - int_log2 d
     in if 1 \<le> scale2 q k then k else k - 1)"

text \<open>The bits of the double next to \<open>\<plusminus>q\<close>.  With the exponent \<open>e\<close> of the last bit, the mantissa \<open>m\<close> has at most 53
  bits and the biased exponent and the mantissa together are \<open>(e + 1074) \<cdot> 2\<^sup>5\<^sup>2 + m\<close>, for normal and subnormal
  numbers alike.  A result from \<open>0x7FF0000000000000\<close> on is infinite: a range error.\<close>

definition float64_bits :: "bool \<Rightarrow> rat \<Rightarrow> u64 option" where
  "float64_bits neg q =
     (let e = max (- 1074) (log2_floor q - 52);
          b = (if q = 0 then 0 else (e + 1074) * 2 ^ 52 + round_half_even (scale2 q e))
      in if b < 0x7FF0000000000000 then Some (word_of_int (if neg then 2 ^ 63 + b else b)) else None)"

definition Number_Float64 :: "gostring \<Rightarrow> u64 option" where
  "Number_Float64 s = (case read_number s of None \<Rightarrow> None | Some (neg, m, x) \<Rightarrow> float64_bits neg (scale10 m x))"

section \<open>Comparison\<close>

definition cmp :: "'a::linorder \<Rightarrow> 'a \<Rightarrow> int" where
  "cmp a b = (if a = b then 0 else if a < b then - 1 else 1)"

text \<open>\<open>big.Float.SetString\<close>: the written exponent has to fit into an \<open>int64\<close>, and the binary exponent of digits and
  power of two into an \<open>int32\<close> (the power of five is multiplied afterwards).\<close>

definition Float_SetString :: "gostring \<Rightarrow> bool" where
  "Float_SetString s = (case read_decimal s of None \<Rightarrow> False
     | Some (neg, m, f, x) \<Rightarrow> - (2 ^ 63) \<le> x \<and> x < 2 ^ 63 \<and>
         (m = 0 \<or> (let e = int_log2 m + 1 + (x - int f) in - (2 ^ 31) \<le> e \<and> e < 2 ^ 31)))"

text \<open>What \<open>big.Float\<close> holds is zero: no digits, or a binary exponent below \<open>MinExp\<close>.\<close>

definition Float_zero :: "int \<Rightarrow> int \<Rightarrow> bool" where
  "Float_zero m x = (m = 0 \<or> log2_floor (scale10 m x) + 1 < - (2 ^ 31))"

text \<open>\<open>big.Rat.SetString\<close> refuses a power of five above a million.\<close>

definition Rat_SetString :: "gostring \<Rightarrow> rat option" where
  "Rat_SetString s = (case read_number s of None \<Rightarrow> None
     | Some (neg, m, x) \<Rightarrow> if m = 0 \<or> \<bar>x\<bar> \<le> 1000000 then Number_value s else None)"

text \<open>The rational that \<open>compareFloat\<close> compares; \<open>None\<close> is the panic "illegal value".\<close>

definition bigRat :: "gostring \<Rightarrow> rat option" where
  "bigRat s = (if \<not> Float_SetString s then None
     else case read_number s of None \<Rightarrow> None
       | Some (neg, m, x) \<Rightarrow> if Float_zero m x then Some 0 else Rat_SetString s)"

definition compareFloat :: "gostring \<Rightarrow> gostring \<Rightarrow> int option" where
  "compareFloat a b = (case (Number_Int64 a, Number_Int64 b) of
     (Some ai, Some bi) \<Rightarrow> Some (cmp ai bi)
   | _ \<Rightarrow> do { bigA \<leftarrow> bigRat a; bigB \<leftarrow> bigRat b; Some (cmp bigA bigB) })"

section \<open>Properties\<close>

lemma cmp_simps [simp]:
  "cmp a b = 0 \<longleftrightarrow> a = b" "0 = cmp a b \<longleftrightarrow> a = b" "cmp a b = - 1 \<longleftrightarrow> a < b" "cmp a b = 1 \<longleftrightarrow> b < a" "cmp a a = 0"
  by (auto simp: cmp_def)

lemma cmp_of_int [simp]: "cmp (of_int a :: rat) (of_int b) = cmp a b"
  by (simp add: cmp_def)

text \<open>An integer literal has the same value read either way.\<close>

lemma Number_Int64_value:
  assumes "Number_Int64 s = Some i"
  shows "Number_value s = Some (of_int i)"
proof -
  obtain neg ds where s: "read_sign s = (neg, ds)" by fastforce
  with assms have ds: "ds \<noteq> []" "list_all is_digit ds" and i: "i = (if neg then - digits_value ds else digits_value ds)"
    by (auto simp: Number_Int64_def Let_def split: if_splits)
  have digits: "takeWhile is_digit ds = ds" "dropWhile is_digit ds = []"
    using ds(2) by (auto simp: takeWhile_eq_all_conv list_all_iff)
  have "read_number s = Some (neg, digits_value ds, 0)"
    by (simp add: read_number_def read_decimal_def s digits ds(1) read_exponent_def Let_def)
  then show ?thesis using i by (simp add: Number_value_def scale10_def)
qed

text \<open>Numbers that \<open>compareFloat\<close> reads exactly (a decimal exponent of at most a million) and whose equality the hash
  respects (in the range of doubles and not a negative zero).\<close>

definition number_ok :: "gostring \<Rightarrow> bool" where
  "number_ok s = (case read_number s of None \<Rightarrow> False
     | Some (neg, m, x) \<Rightarrow> Number_Float64 s \<noteq> None \<and> (neg \<longrightarrow> m \<noteq> 0) \<and>
         Float_SetString s \<and> (m \<noteq> 0 \<longrightarrow> \<bar>x\<bar> \<le> 1000000))"

lemma scale10_pos: "0 \<le> m \<Longrightarrow> 0 \<le> scale10 m x" "scale10 m x = 0 \<longleftrightarrow> m = 0"
  by (auto simp: scale10_def)

lemma digits_value_nonneg: "0 \<le> digits_value ds"
proof -
  have "0 \<le> n \<Longrightarrow> 0 \<le> foldl (\<lambda>n b. 10 * n + uint (b - 48)) n ds" for n by (induction ds arbitrary: n) auto
  then show ?thesis by (simp add: digits_value_def)
qed

lemma read_number_nonneg: "read_number s = Some (neg, m, x) \<Longrightarrow> 0 \<le> m"
  using digits_value_nonneg by (auto simp: read_number_def read_decimal_def Let_def split: prod.splits if_splits)

lemma number_okE:
  assumes "number_ok s"
  obtains neg m x where "read_number s = Some (neg, m, x)"
  using assms by (cases "read_number s") (auto simp: number_ok_def)

lemma number_ok_value:
  assumes "number_ok s"
  obtains x where "Number_value s = Some x"
  using assms by (auto simp: number_ok_def Number_value_def split: option.splits)

text \<open>Equal numbers have one double.\<close>

lemma Number_Float64_value:
  assumes "number_ok a" and "number_ok b" and "Number_value a = Number_value b"
  shows "Number_Float64 a = Number_Float64 b \<and> Number_Float64 a \<noteq> None"
proof -
  obtain na m x where a: "read_number a = Some (na, m, x)" using assms(1) by (rule number_okE)
  obtain nb n y where b: "read_number b = Some (nb, n, y)" using assms(2) by (rule number_okE)
  have eq: "(if na then - scale10 m x else scale10 m x) = (if nb then - scale10 n y else scale10 n y)"
    using assms(3) a b by (simp add: Number_value_def)
  have pos: "0 \<le> scale10 m x" "0 \<le> scale10 n y"
    using read_number_nonneg [OF a] read_number_nonneg [OF b] by (simp_all add: scale10_pos)
  have "na \<longrightarrow> 0 < scale10 m x" "nb \<longrightarrow> 0 < scale10 n y"
    using assms(1,2) a b pos scale10_pos(2) [of m x] scale10_pos(2) [of n y] by (auto simp: number_ok_def order_less_le)
  with eq pos have "na = nb" "scale10 m x = scale10 n y"
    by (auto split: if_splits)
  then show ?thesis using a b assms(1) by (auto simp: number_ok_def Number_Float64_def)
qed

section \<open>Range of doubles\<close>

lemma int_log2_bounds: "0 < n \<Longrightarrow> 0 \<le> int_log2 n \<and> n < 2 ^ nat (int_log2 n + 1)"
proof (induction n rule: int_log2.induct)
  case (1 n)
  show ?case
  proof (cases "n < 2")
    case False
    then have IH: "0 \<le> int_log2 (n div 2)" "n div 2 < 2 ^ nat (int_log2 (n div 2) + 1)" using 1 by auto
    have log: "int_log2 n = 1 + int_log2 (n div 2)" using False by (simp add: int_log2.simps [of n])
    have "nat (int_log2 n + 1) = Suc (nat (int_log2 (n div 2) + 1))" using IH(1) by (simp add: log nat_add_distrib)
    moreover have "n < 2 * x" if "n div 2 < x" for x using that by linarith
    ultimately show ?thesis using IH by (simp add: log)
  qed (use 1 in \<open>auto simp: int_log2.simps [of n]\<close>)
qed

lemma int_log2_upper: "n < 2 ^ Suc k \<Longrightarrow> int_log2 n \<le> int k"
proof (induction k arbitrary: n)
  case (Suc k)
  show ?case
  proof (cases "n < 2")
    case False
    then have "n div 2 < 2 ^ Suc k" using Suc.prems by simp
    from Suc.IH [OF this] show ?thesis using False by (simp add: int_log2.simps [of n])
  qed (simp add: int_log2.simps [of n])
qed (simp add: int_log2.simps)

lemma scale2_upper:
  assumes "0 \<le> q" and "q < 2 ^ nat k" and "0 \<le> k" and "k - e \<le> int n"
  shows "scale2 q e < 2 ^ n"
proof -
  have up: "(2::rat) ^ nat (k - e) \<le> 2 ^ n" using assms(4) by (intro power_increasing) auto
  show ?thesis
  proof (cases "0 \<le> e")
    case True
    show ?thesis
    proof (cases "e \<le> k")
      case le: True
      have "nat k = nat e + nat (k - e)" using True le by (simp add: nat_diff_distrib)
      then have "q / 2 ^ nat e < 2 ^ nat (k - e)" using assms(2) by (simp add: power_add divide_less_eq mult.commute)
      then have "q / 2 ^ nat e < 2 ^ n" using up by (rule order_less_le_trans)
      then show ?thesis using True by (simp add: scale2_def)
    next
      case False
      have "(2::rat) ^ nat k \<le> 2 ^ nat e" using False by (intro power_increasing) auto
      with assms(2) have "q < 2 ^ nat e" by (rule order_less_le_trans)
      then have "q / 2 ^ nat e < 1" by (simp add: divide_less_eq)
      then show ?thesis using True by (simp add: scale2_def order_less_le_trans [OF _ one_le_power])
    qed
  next
    case False
    have "nat (k - e) = nat k + nat (- e)" using False assms(3) by (simp flip: nat_add_distrib)
    then have "q * 2 ^ nat (- e) < 2 ^ nat (k - e)" using assms(2) by (simp add: power_add)
    then have "q * 2 ^ nat (- e) < 2 ^ n" using up by (rule order_less_le_trans)
    then show ?thesis using False by (simp add: scale2_def)
  qed
qed

lemma round_half_even_upper: "q < of_int n \<Longrightarrow> round_half_even q \<le> n"
  by (simp add: round_half_even_def Let_def floor_less_iff) linarith

text \<open>A number with a decimal exponent of at most a million is far from the underflow of \<open>big.Float\<close>.\<close>

lemma quotient_of_scale10:
  assumes "0 < m" and "quotient_of (scale10 m x) = (n, d)"
  shows "0 < n \<and> 0 < d \<and> d \<le> 10 ^ nat (- x)"
proof -
  have d: "0 < d" using assms(2) quotient_of_denom_pos' [of "scale10 m x"] by simp
  have frac: "scale10 m x = Fract n d" using assms(2) quotient_of_div d by (simp add: Fract_of_int_quotient)
  have "scale10 m x = Fract (m * 10 ^ nat x) (10 ^ nat (- x))"
    by (simp add: scale10_def Fract_of_int_quotient)
  then have "quotient_of (scale10 m x) = Rat.normalize (m * 10 ^ nat x, 10 ^ nat (- x))"
    by (simp add: quotient_of_Fract)
  then have "d = 10 ^ nat (- x) div gcd (m * 10 ^ nat x) (10 ^ nat (- x))"
    using assms(2) by (simp add: normalize_def Let_def)
  moreover have "(10::int) ^ nat (- x) div g \<le> 10 ^ nat (- x)" if "0 \<le> g" for g
    using that zdiv_mono2 [of "10 ^ nat (- x)" 1 g] by (cases "g = 0") simp_all
  ultimately have "d \<le> 10 ^ nat (- x)" by simp
  moreover have "0 < scale10 m x" using assms(1) by (simp add: scale10_def)
  then have "0 < n" using frac d by (simp add: zero_less_Fract_iff)
  ultimately show ?thesis using d by blast
qed

lemma not_Float_zero:
  assumes "0 < m" and "\<bar>x\<bar> \<le> 1000000"
  shows "\<not> Float_zero m x"
proof -
  obtain n d where q: "quotient_of (scale10 m x) = (n, d)" by fastforce
  from quotient_of_scale10 [OF assms(1) q] have nd: "0 < n" "d \<le> 10 ^ nat (- x)" by auto
  have "(10::int) ^ nat (- x) \<le> 16 ^ nat (- x)" by (intro power_mono) auto
  also have "(16::int) ^ nat (- x) = 2 ^ (4 * nat (- x))" by (simp add: power_mult)
  also have "(2::int) ^ (4 * nat (- x)) < 2 ^ Suc (4 * nat (- x))" by simp
  finally have "d < 2 ^ Suc (4 * nat (- x))" using nd(2) by simp
  from int_log2_upper [OF this] have "int_log2 d \<le> 4000000" using assms(2) by (simp split: if_splits)
  moreover have "0 \<le> int_log2 n" using int_log2_bounds [OF nd(1)] by simp
  ultimately have "- 4000001 \<le> log2_floor (scale10 m x)" by (simp add: log2_floor_def q Let_def)
  then show ?thesis using assms(1) by (simp add: Float_zero_def)
qed

lemma bigRat_value:
  assumes "number_ok s"
  shows "bigRat s = Number_value s"
proof -
  obtain neg m x where s: "read_number s = Some (neg, m, x)" and ok: "Float_SetString s" "m \<noteq> 0 \<longrightarrow> \<bar>x\<bar> \<le> 1000000"
    using assms by (auto simp: number_ok_def split: option.splits)
  show ?thesis
  proof (cases "m = 0")
    case True
    then show ?thesis using s ok(1) by (simp add: bigRat_def Float_zero_def Number_value_def scale10_def)
  next
    case False
    then have "\<not> Float_zero m x" using ok(2) read_number_nonneg [OF s] by (intro not_Float_zero) auto
    then show ?thesis using s ok False by (simp add: bigRat_def Rat_SetString_def)
  qed
qed

text \<open>\<open>compareFloat\<close> is the order of the exact values.\<close>

lemma compareFloat_value:
  assumes "number_ok a" and "number_ok b" and "Number_value a = Some x" and "Number_value b = Some y"
  shows "compareFloat a b = Some (cmp x y)"
  using assms Number_Int64_value [of a] Number_Int64_value [of b]
  by (auto simp: compareFloat_def bigRat_value split: option.split)

text \<open>A number that \<open>big.Float\<close> or \<open>big.Rat\<close> does not accept makes the comparison panic.\<close>

lemma compareFloat_panics:
  assumes "bigRat a = None" and "Number_Int64 a = None"
  shows "compareFloat a b = None"
  using assms by (simp add: compareFloat_def split: option.split)

text \<open>Integers of 64 bits have a double.\<close>

lemma float64_bits_int:
  assumes "0 \<le> m" and "m < 2 ^ 64"
  shows "float64_bits neg (of_int m) \<noteq> None"
proof (cases "m = 0")
  case False
  let ?q = "of_int m :: rat" and ?k = "int_log2 m"
  have k: "0 \<le> ?k" "m < 2 ^ nat (?k + 1)" "?k \<le> 63"
    using int_log2_bounds [of m] int_log2_upper [of m 63] assms False by auto
  have "log2_floor ?q = (if 1 \<le> scale2 ?q ?k then ?k else ?k - 1)"
    by (simp add: log2_floor_def int_log2.simps [of 1])
  then have l: "?k - 1 \<le> log2_floor ?q" "log2_floor ?q \<le> ?k" by auto
  define e where "e = max (- 1074) (log2_floor ?q - 52)"
  have e: "e \<le> 11" "?k + 1 - e \<le> int 54" using l k by (auto simp: e_def)
  have "?q < 2 ^ nat (?k + 1)" using k(2) by (metis of_int_less_iff of_int_numeral of_int_power)
  then have "scale2 ?q e < 2 ^ 54" using k(1) e(2) assms(1) by (intro scale2_upper [of _ "?k + 1"]) auto
  then have "round_half_even (scale2 ?q e) \<le> 2 ^ 54" by (intro round_half_even_upper) simp
  then have "(e + 1074) * 2 ^ 52 + round_half_even (scale2 ?q e) < 0x7FF0000000000000" using e(1) by simp
  then show ?thesis using False by (simp add: float64_bits_def Let_def e_def)
qed (simp add: float64_bits_def)

end
