(* ===== verification/Json.thy ===== *)
theory Json
  imports Json_Table Json_Number "HOL-Library.List_Lexorder"
begin

text \<open>
  JSON values of src/pkg/json: the values themselves, their order (\<open>compare\<close> of json.go), equality (compare.go) and
  hash (hash.go).  There are two kinds of objects: \<open>Object\<close>, read from documents, with its names sorted, and
  \<open>Object2\<close>, built during evaluation, a hash table whose keys are values.  Arrays and objects have several
  representations in memory (binary, slices, small arrays of a fixed capacity, of strings only); they hold the
  same elements and behave alike, so here an array is the list of its elements and an object the list of its
  names and values.  Strings compare byte by byte, which is the order of lists of bytes.
\<close>

datatype json =
    JNull
  | JBool bool
  | JFloat gostring
  | JString gostring
  | JArray "json list"
  | JObject "(gostring \<times> json) list"
  | JSet "json table"
  | JObject2 "(json \<times> json) table"

section \<open>Sizes\<close>

lemma size_table_elems:
  assumes "e \<in> set (table_elems t)"
  shows "f e < size_table f t"
proof (cases t)
  case (tableCompact cap es)
  then obtain h where "(h, e) \<in> set es" using assms by (auto simp: table_elems_def)
  then have "size_prod (\<lambda>_. 0) f (h, e) \<le> size_list (size_prod (\<lambda>_. 0) f) es" by (rule size_list_estimation') simp
  then show ?thesis by (simp add: tableCompact)
next
  case (tableLarge tb n)
  then obtain h c where c: "(h, c) \<in> set tb" "e \<in> set c" using assms by (auto simp: table_elems_def)
  have "f e \<le> size_list f c" using c(2) by (rule size_list_estimation') simp
  moreover have "size_prod (\<lambda>_. 0) (size_list f) (h, c) \<le> size_list (size_prod (\<lambda>_. 0) (size_list f)) tb"
    using c(1) by (rule size_list_estimation') simp
  ultimately show ?thesis by (simp add: tableLarge)
qed

lemma json_sizes [termination_simp]:
  "x \<in> set xs \<Longrightarrow> size x < Suc (size_list size xs)"
  "(s, x) \<in> set kvs \<Longrightarrow> size x < Suc (size_list (size_prod (\<lambda>x. 0) size) kvs)"
  "x \<in> set (table_elems t) \<Longrightarrow> size x < Suc (size_table size t)"
  "(k, v) \<in> set (table_elems t2) \<Longrightarrow> size k < Suc (size_table (\<lambda>x. Suc (size (fst x) + size (snd x))) t2)"
  "(k, v) \<in> set (table_elems t2) \<Longrightarrow> size v < Suc (size_table (\<lambda>x. Suc (size (fst x) + size (snd x))) t2)"
  for x k v :: json
proof -
  show "(s, x) \<in> set kvs \<Longrightarrow> size x < Suc (size_list (size_prod (\<lambda>x. 0) size) kvs)"
    using size_list_estimation' [of "(s, x)" kvs "size_prod (\<lambda>x. 0) size (s, x)" "size_prod (\<lambda>x. 0) size"] by force
  show "(k, v) \<in> set (table_elems t2) \<Longrightarrow> size k < Suc (size_table (\<lambda>x. Suc (size (fst x) + size (snd x))) t2)"
    "(k, v) \<in> set (table_elems t2) \<Longrightarrow> size v < Suc (size_table (\<lambda>x. Suc (size (fst x) + size (snd x))) t2)"
    using size_table_elems [of "(k, v)" t2 "\<lambda>x. Suc (size (fst x) + size (snd x))"] by auto
qed (use size_list_estimation' [of x xs "size x" size] size_table_elems [of x t size] in auto)

section \<open>Names of objects\<close>

text \<open>\<open>objectMapBase.find\<close>: binary search for the first name that is not smaller.\<close>

function find_loop :: "gostring list \<Rightarrow> gostring \<Rightarrow> nat \<Rightarrow> nat \<Rightarrow> nat" where
  "find_loop keys name i j =
     (if i < j then
        let h = (i + j) div 2
        in if \<not> name \<le> keys ! h then find_loop keys name (h + 1) j else find_loop keys name i h
      else i)"
  by pat_completeness auto
termination by (relation "measure (\<lambda>(_, _, i, j). j - i)") auto

declare find_loop.simps [simp del]

definition Object_find :: "gostring list \<Rightarrow> gostring \<Rightarrow> nat \<times> bool" where
  "Object_find keys name = (let i = find_loop keys name 0 (length keys) in (i, i < length keys \<and> keys ! i = name))"

definition Object_valueImpl :: "(gostring \<times> 'v) list \<Rightarrow> gostring \<Rightarrow> 'v option" where
  "Object_valueImpl kvs name = (let (i, ok) = Object_find (map fst kvs) name in if ok then Some (snd (kvs ! i)) else None)"

lemma Object_valueImpl_mem: "Object_valueImpl kvs name = Some v \<Longrightarrow> (name, v) \<in> set kvs"
proof -
  assume "Object_valueImpl kvs name = Some v"
  then obtain i where "i < length kvs" "fst (kvs ! i) = name" "v = snd (kvs ! i)"
    by (auto simp: Object_valueImpl_def Object_find_def Let_def split: if_splits)
  then have "(name, v) = kvs ! i" by (metis prod.collapse)
  then show ?thesis using \<open>i < length kvs\<close> by simp
qed

section \<open>Order\<close>

text \<open>\<open>jsonType\<close> panics for sets and hash-table objects, so documents that contain them cannot be ordered.\<close>

definition jsonType :: "json \<Rightarrow> int option" where
  "jsonType j = (case j of
     JNull \<Rightarrow> Some 1 | JBool _ \<Rightarrow> Some 2 | JString _ \<Rightarrow> Some 4 | JFloat _ \<Rightarrow> Some 6 | JArray _ \<Rightarrow> Some 7 | JObject _ \<Rightarrow> Some 8
   | JSet _ \<Rightarrow> None | JObject2 _ \<Rightarrow> None)"

text \<open>A loop that ends with the first result other than 0.\<close>

fun cmp_loop :: "('a \<Rightarrow> int option) \<Rightarrow> 'a list \<Rightarrow> int option" where
  "cmp_loop f [] = Some 0"
| "cmp_loop f (x # xs) = do { c \<leftarrow> f x; if c \<noteq> 0 then Some c else cmp_loop f xs }"

lemma cmp_loop_cong [fundef_cong]:
  "xs = ys \<Longrightarrow> (\<And>x. x \<in> set ys \<Longrightarrow> f x = g x) \<Longrightarrow> cmp_loop f xs = cmp_loop g ys"
  by (induction ys arbitrary: xs) (auto intro!: Option.bind_cong)

function compare :: "json \<Rightarrow> json \<Rightarrow> int option" where
  "compare x y = do {
     ka \<leftarrow> jsonType x;
     kb \<leftarrow> jsonType y;
     if ka \<noteq> kb then Some (cmp ka kb)
     else case (x, y) of
       (JArray a, JArray b) \<Rightarrow>
         if length a \<noteq> length b then Some (cmp (length a) (length b))
         else cmp_loop (\<lambda>(aa, bb). compare aa bb) (zip a b)
     | (JObject a, JObject b) \<Rightarrow>
         if length a \<noteq> length b then Some (cmp (length a) (length b))
         else cmp_loop (\<lambda>(ea, eb).
           if fst ea \<noteq> fst eb then Some (cmp (fst ea) (fst eb))
           else do {
             aa \<leftarrow> Object_valueImpl a (fst ea);
             bb \<leftarrow> Object_valueImpl b (fst ea);
             compare aa bb }) (zip a b)
     | (JBool a, JBool b) \<Rightarrow> Some (cmp a b)
     | (JFloat a, JFloat b) \<Rightarrow> compareFloat a b
     | (JString a, JString b) \<Rightarrow> Some (cmp a b)
     | _ \<Rightarrow> Some 0 }"
  by pat_completeness auto
termination
  by (relation "measure (\<lambda>(x, y). size x)") (auto dest!: Object_valueImpl_mem set_zip_leftD intro: json_sizes)

declare compare.simps [simp del]

section \<open>Hash\<close>

text \<open>\<open>hashImpl\<close> as the bytes it writes; \<open>Sum64\<close> is the digest (xxhash) of the bytes written to a hasher.  The hash of
  an object or set is a sum over its entries, so that their order does not matter; its first byte is
  overwritten by the type.\<close>

fun hashImpl :: "(bytes \<Rightarrow> u64) \<Rightarrow> json \<Rightarrow> bytes" where
  "hashImpl Sum64 JNull = [0]"
| "hashImpl Sum64 (JBool b) = [1, if b then 1 else 0]"
| "hashImpl Sum64 (JFloat s) = (case Number_Float64 s of Some f \<Rightarrow> 2 # be64 f | None \<Rightarrow> 2 # s)"
| "hashImpl Sum64 (JString s) = 3 # s"
| "hashImpl Sum64 (JArray xs) = concat (map (hashImpl Sum64) xs) @ [4]"
| "hashImpl Sum64 (JObject2 t) = 5 # tl (be64 (sum_list (map (\<lambda>(k, v). Sum64 (hashImpl Sum64 k @ hashImpl Sum64 v)) (table_elems t))))"
| "hashImpl Sum64 (JObject kvs) = 5 # tl (be64 (sum_list (map (\<lambda>(k, v). Sum64 ((3 # k) @ hashImpl Sum64 v)) kvs)))"
| "hashImpl Sum64 (JSet t) = 6 # tl (be64 (sum_list (map (\<lambda>v. Sum64 (hashImpl Sum64 v)) (table_elems t))))"

definition hash :: "(bytes \<Rightarrow> u64) \<Rightarrow> json \<Rightarrow> u64" where
  "hash Sum64 v = Sum64 (hashImpl Sum64 v)"

definition Set_Hash :: "(bytes \<Rightarrow> u64) \<Rightarrow> json table \<Rightarrow> u64" where
  "Set_Hash Sum64 t = sum_list (map (hash Sum64) (table_elems t))"

definition objectHashEntry :: "(bytes \<Rightarrow> u64) \<Rightarrow> u64 \<Rightarrow> json \<Rightarrow> json \<Rightarrow> u64" where
  "objectHashEntry Sum64 h k v = h + Sum64 (hashImpl Sum64 k @ hashImpl Sum64 v)"

definition Object2_Hash :: "(bytes \<Rightarrow> u64) \<Rightarrow> (json \<times> json) table \<Rightarrow> u64" where
  "Object2_Hash Sum64 t = foldl (\<lambda>h (k, v). objectHashEntry Sum64 h k v) 0 (table_elems t)"

section \<open>Equality\<close>

text \<open>A loop that ends with the first test that fails.\<close>

fun all_loop :: "('a \<Rightarrow> bool option) \<Rightarrow> 'a list \<Rightarrow> bool option" where
  "all_loop f [] = Some True"
| "all_loop f (x # xs) = do { b \<leftarrow> f x; if b then all_loop f xs else Some False }"

lemma all_loop_cong [fundef_cong]:
  "xs = ys \<Longrightarrow> (\<And>x. x \<in> set ys \<Longrightarrow> f x = g x) \<Longrightarrow> all_loop f xs = all_loop g ys"
  by (induction ys arbitrary: xs) (auto intro!: Option.bind_cong)

lemma entries_find_cong: "(\<And>e. e \<in> set es \<Longrightarrow> p e = q e) \<Longrightarrow> entries_find p es = entries_find q es"
  by (induction es) (auto intro!: Option.bind_cong)

lemma table_get_cong [fundef_cong]:
  assumes "t = t'" and "h = h'" and "\<And>e. e \<in> set (table_elems t') \<Longrightarrow> p e = p' e"
  shows "table_get p h t = table_get p' h' t'"
proof (cases t')
  case (tableCompact cap es)
  then have "entries_find (hash_test h p) es = entries_find (hash_test h p') es"
    by (intro entries_find_cong) (use assms(3) in \<open>auto simp: hash_test_def table_elems_def\<close>)
  then show ?thesis using assms(1,2) tableCompact by (simp add: table_get_def)
next
  case (tableLarge tb n)
  then have "entries_find p (chain tb h) = entries_find p' (chain tb h)"
    by (intro entries_find_cong) (use assms(3) chain_mem in \<open>fastforce simp: table_elems_def\<close>)
  then show ?thesis using assms(1,2) tableLarge by (simp add: table_get_def)
qed

lemma entries_find_mem: "entries_find p es = Some (Some e) \<Longrightarrow> e \<in> set es"
  by (induction es) (auto simp: bind_eq_Some_conv split: if_splits)

lemma table_get_mem: "table_get p h t = Some (Some e) \<Longrightarrow> e \<in> set (table_elems t)"
  by (force simp: table_get_def table_elems_def dest!: entries_find_mem chain_mem split: table.splits)

lemma table_hashed_mem: "(h, e) \<in> set (table_hashed t) \<Longrightarrow> e \<in> set (table_elems t)"
  by (force simp: table_elems_hashed)

text \<open>\<open>Equal\<close> of sets and of hash-table objects: as many entries, each of them found in the other.  The test of
  \<open>Equal\<close> of sets for the same set in memory only saves work: a well-formed set equals itself.\<close>

definition Set_Equal :: "('v \<Rightarrow> 'v \<Rightarrow> bool option) \<Rightarrow> ('v \<Rightarrow> u64) \<Rightarrow> 'v table \<Rightarrow> 'v table \<Rightarrow> bool option" where
  "Set_Equal eq hash_of x y =
     (if table_len x \<noteq> table_len y then Some False
      else all_loop (\<lambda>v. map_option (\<lambda>r. r \<noteq> None) (Set_Get eq hash_of v y)) (table_elems x))"

definition Object2_Equal :: "('v \<Rightarrow> 'v \<Rightarrow> bool option) \<Rightarrow> ('v \<times> 'v) table \<Rightarrow> ('v \<times> 'v) table \<Rightarrow> bool option" where
  "Object2_Equal eq a b =
     (if table_len a \<noteq> table_len b then Some False
      else all_loop (\<lambda>(h, k, v). do {
          r \<leftarrow> object_get eq h k b;
          case r of None \<Rightarrow> Some False | Some w \<Rightarrow> eq v w }) (table_hashed a))"

lemma Set_Equal_cong [fundef_cong]:
  assumes "x = x'" and "y = y'" and "\<And>v w. v \<in> set (table_elems x') \<Longrightarrow> w \<in> set (table_elems y') \<Longrightarrow> eq w v = eq' w v"
  shows "Set_Equal eq hash_of x y = Set_Equal eq' hash_of x' y'"
  unfolding Set_Equal_def Set_Get_def assms(1,2)
  by (rule if_cong all_loop_cong refl arg_cong [of _ _ "map_option _"] table_get_cong assms(3) | assumption)+

lemma Object2_Equal_cong [fundef_cong]:
  assumes "a = a'" and "b = b'"
    and "\<And>d e. d \<in> set (table_elems a') \<Longrightarrow> e \<in> set (table_elems b') \<Longrightarrow> eq (fst e) (fst d) = eq' (fst e) (fst d)"
    and "\<And>d e. d \<in> set (table_elems a') \<Longrightarrow> e \<in> set (table_elems b') \<Longrightarrow> eq (snd d) (snd e) = eq' (snd d) (snd e)"
  shows "Object2_Equal eq a b = Object2_Equal eq' a' b'"
proof -
  have "(case z of (h, k, v) \<Rightarrow> do { r \<leftarrow> object_get eq h k b'; case r of None \<Rightarrow> Some False | Some w \<Rightarrow> eq v w }) =
        (case z of (h, k, v) \<Rightarrow> do { r \<leftarrow> object_get eq' h k b'; case r of None \<Rightarrow> Some False | Some w \<Rightarrow> eq' v w })"
    if z: "z \<in> set (table_hashed a')" for z
  proof -
    obtain h d where zd: "z = (h, d)" by (cases z)
    then have d: "d \<in> set (table_elems a')" using z by (auto dest: table_hashed_mem)
    have get: "table_get (\<lambda>e. eq (fst e) (fst d)) h b' = table_get (\<lambda>e. eq' (fst e) (fst d)) h b'"
      by (rule table_get_cong [OF refl refl]) (rule assms(3) [OF d])
    show ?thesis
      unfolding zd object_get_def case_prod_unfold fst_conv snd_conv get
      by (rule Option.bind_cong [OF refl])
        (use assms(4) [OF d] in \<open>auto dest!: table_get_mem split: option.split\<close>)
  qed
  then show ?thesis unfolding Object2_Equal_def assms(1,2) by (simp cong: all_loop_cong)
qed

lemma json_less:
  "x \<in> set xs \<Longrightarrow> size x < size (JArray xs)"
  "(s, x) \<in> set kvs \<Longrightarrow> size x < size (JObject kvs)"
  "x \<in> set (table_elems t) \<Longrightarrow> size x < size (JSet t)"
  "e \<in> set (table_elems t2) \<Longrightarrow> size (fst e) < size (JObject2 t2)"
  "e \<in> set (table_elems t2) \<Longrightarrow> size (snd e) < size (JObject2 t2)"
  using json_sizes(1) [of x xs] json_sizes(2) [of s x kvs] json_sizes(3) [of x t] size_table_elems [of e t2 "size_prod size size"]
  by (cases e; simp)+

definition equal_rank :: "json \<Rightarrow> json \<Rightarrow> nat" where
  "equal_rank a b = 2 * (size a + size b) + (case a of JObject2 _ \<Rightarrow> 1 | _ \<Rightarrow> 0)"

lemma equal_rank_less:
  assumes "size a < n" and "size b < k" and "n + k \<le> size x + size y"
  shows "equal_rank a b < equal_rank x y"
proof -
  have "equal_rank a b \<le> 2 * (size a + size b) + 1" by (simp add: equal_rank_def split: json.split)
  then show ?thesis using assms by (simp add: equal_rank_def)
qed

text \<open>\<open>equalOp\<close>, with \<open>equalObject\<close> in its branches.\<close>

function (sequential) equalOp :: "(bytes \<Rightarrow> u64) \<Rightarrow> json \<Rightarrow> json \<Rightarrow> bool option" where
  "equalOp H JNull JNull = Some True"
| "equalOp H (JBool x) (JBool y) = Some (x = y)"
| "equalOp H (JFloat x) (JFloat y) = map_option (\<lambda>c. c = 0) (compareFloat x y)"
| "equalOp H (JString x) (JString y) = Some (x = y)"
| "equalOp H (JArray x) (JArray y) =
     (if length x \<noteq> length y then Some False else all_loop (\<lambda>(a, b). equalOp H a b) (zip x y))"
| "equalOp H (JObject a) (JObject b) = map_option (\<lambda>c. c = 0) (compare (JObject a) (JObject b))"
| "equalOp H (JObject a) (JObject2 b) =
     (if length a \<noteq> table_len b then Some False
      else all_loop (\<lambda>(k, vb). case k of
          JString s \<Rightarrow> (case Object_valueImpl a s of None \<Rightarrow> Some False | Some va \<Rightarrow> equalOp H va vb)
        | _ \<Rightarrow> Some False) (table_elems b))"
| "equalOp H (JObject2 a) (JObject b) = equalOp H (JObject b) (JObject2 a)"
| "equalOp H (JObject2 a) (JObject2 b) = Object2_Equal (equalOp H) a b"
| "equalOp H (JSet x) (JSet y) = Set_Equal (equalOp H) (hash H) x y"
| "equalOp H _ _ = Some False"
  by pat_completeness auto

termination
proof (relation "measure (\<lambda>(_, a, b). equal_rank a b)", goal_cases)
  case (2 H x y z a b)
  then show ?case by (auto intro!: equal_rank_less [OF json_less(1) json_less(1)] dest: set_zip_leftD set_zip_rightD)
next
  case (3 H a b z k vb s va)
  then show ?case
    by (auto intro!: equal_rank_less [OF json_less(2) json_less(5) [of "(k, vb)", simplified]] dest!: Object_valueImpl_mem)
next
  case (4 H a b)
  then show ?case by (simp add: equal_rank_def)
next
  case (5 H a b d e)
  then show ?case by (auto intro!: equal_rank_less [OF json_less(4) json_less(4)])
next
  case (6 H a b d e)
  then show ?case by (auto intro!: equal_rank_less [OF json_less(5) json_less(5)])
next
  case (7 H x y v w)
  then show ?case by (auto intro!: equal_rank_less [OF json_less(3) json_less(3)])
qed auto

end
