(* ===== verification/Json_Meaning.thy ===== *)
theory Json_Meaning
  imports Json "HOL-Library.FSet"
begin

text \<open>
  What JSON values stand for: numbers are rationals, a set is a finite set and an object a finite map, whatever
  their representation.  On well-formed values \<open>equalOp\<close> decides equality of the meaning, and the hash only depends
  on the meaning.
\<close>

datatype mvalue =
    MNull
  | MBool bool
  | MNumber rat
  | MString gostring
  | MArray "mvalue list"
  | MSet "mvalue fset"
  | MObject "(mvalue \<times> mvalue) fset"

fun meaning :: "json \<Rightarrow> mvalue" where
  "meaning JNull = MNull"
| "meaning (JBool b) = MBool b"
| "meaning (JFloat s) = MNumber (case Number_value s of Some q \<Rightarrow> q | None \<Rightarrow> 0)"
| "meaning (JString s) = MString s"
| "meaning (JArray xs) = MArray (map meaning xs)"
| "meaning (JObject kvs) = MObject (fset_of_list (map (\<lambda>(k, v). (MString k, meaning v)) kvs))"
| "meaning (JSet t) = MSet (fset_of_list (map meaning (table_elems t)))"
| "meaning (JObject2 t) = MObject (fset_of_list (map (\<lambda>(k, v). (meaning k, meaning v)) (table_elems t)))"

section \<open>Well-formed values\<close>

text \<open>Documents: no sets and no hash-table objects inside.\<close>

fun plain :: "json \<Rightarrow> bool" where
  "plain (JArray xs) = list_all plain xs"
| "plain (JObject kvs) = list_all (\<lambda>(_, v). plain v) kvs"
| "plain (JSet t) = False"
| "plain (JObject2 t) = False"
| "plain _ = True"

text \<open>Numbers that the hash respects, sorted names in objects, documents below them, tables with the right hashes
  and without duplicates.\<close>

fun json_ok :: "(bytes \<Rightarrow> u64) \<Rightarrow> json \<Rightarrow> bool" where
  "json_ok H (JFloat s) = number_ok s"
| "json_ok H (JArray xs) = list_all (json_ok H) xs"
| "json_ok H (JObject kvs) = (sorted_wrt (<) (map fst kvs) \<and> list_all (\<lambda>(_, v). json_ok H v \<and> plain v) kvs)"
| "json_ok H (JSet t) = (table_ok (hash H) t \<and> list_all (json_ok H) (table_elems t) \<and> distinct (map meaning (table_elems t)))"
| "json_ok H (JObject2 t) = (table_ok (\<lambda>e. hash H (fst e)) t \<and> list_all (\<lambda>(k, v). json_ok H k \<and> json_ok H v) (table_elems t) \<and>
     distinct (map (\<lambda>e. meaning (fst e)) (table_elems t)))"
| "json_ok H _ = True"

text \<open>The entries of either kind of object.\<close>

definition entries :: "json \<Rightarrow> (json \<times> json) list" where
  "entries j = (case j of JObject kvs \<Rightarrow> map (\<lambda>(k, v). (JString k, v)) kvs | JObject2 t \<Rightarrow> table_elems t | _ \<Rightarrow> [])"

definition is_object :: "json \<Rightarrow> bool" where
  "is_object j = (case j of JObject _ \<Rightarrow> True | JObject2 _ \<Rightarrow> True | _ \<Rightarrow> False)"

section \<open>Objects\<close>

lemma entries_simps [simp]:
  "entries (JObject kvs) = map (\<lambda>(k, v). (JString k, v)) kvs" "entries (JObject2 t) = table_elems t"
  "is_object (JObject kvs)" "is_object (JObject2 t)"
  by (simp_all add: entries_def is_object_def)

lemma is_object_cases:
  assumes "is_object j"
  obtains kvs where "j = JObject kvs" | t where "j = JObject2 t"
  using assms by (auto simp: is_object_def split: json.splits)

text \<open>One equation for the meaning and for the hash of both kinds.\<close>

lemma meaning_object: "is_object j \<Longrightarrow> meaning j = MObject (fset_of_list (map (map_prod meaning meaning) (entries j)))"
  by (elim is_object_cases) (simp_all add: map_prod_def case_prod_unfold o_def)

lemma hash_object: "is_object j \<Longrightarrow>
  hashImpl H j = 5 # tl (be64 (sum_list (map (\<lambda>(k, v). H (hashImpl H k @ hashImpl H v)) (entries j))))"
  by (elim is_object_cases) (simp_all add: case_prod_unfold o_def)

lemma sorted_names_distinct: "sorted_wrt (<) (names :: gostring list) \<Longrightarrow> distinct names"
  by (simp add: strict_sorted_iff)

lemma distinct_map_finer: "distinct (map f xs) \<Longrightarrow> (\<And>x y. g x = g y \<Longrightarrow> f x = f y) \<Longrightarrow> distinct (map g xs)"
  unfolding distinct_map inj_on_def by blast

lemma entries_ok:
  assumes "is_object j" and "json_ok H j"
  shows "distinct (map (\<lambda>e. meaning (fst e)) (entries j))"
    and "\<And>k v. (k, v) \<in> set (entries j) \<Longrightarrow> json_ok H k \<and> json_ok H v"
proof -
  show "distinct (map (\<lambda>e. meaning (fst e)) (entries j))"
    using assms(1)
  proof (cases rule: is_object_cases)
    case (1 kvs)
    then have "distinct (map fst kvs)" using assms(2) by (auto dest: sorted_names_distinct)
    then show ?thesis using distinct_map_finer [of fst kvs "\<lambda>e. MString (fst e)"] 1 by (simp add: case_prod_unfold o_def)
  qed (use assms(2) in simp)
  show "\<And>k v. (k, v) \<in> set (entries j) \<Longrightarrow> json_ok H k \<and> json_ok H v"
    using assms by (elim is_object_cases) (auto simp: list_all_iff)
qed

lemma entries_size: "is_object j \<Longrightarrow> (k, v) \<in> set (entries j) \<Longrightarrow> size k < size j \<and> size v < size j"
proof (elim is_object_cases)
  fix kvs assume "(k, v) \<in> set (entries j)" "j = JObject kvs"
  then obtain s where s: "(s, v) \<in> set kvs" "k = JString s" by auto
  then have "kvs \<noteq> []" by auto
  then have "0 < size_list (size_prod (\<lambda>x. 0) size) kvs" by (cases kvs) auto
  then show ?thesis using json_less(2) [OF s(1)] s(2) \<open>j = JObject kvs\<close> by simp
next
  fix t assume "(k, v) \<in> set (entries j)" "j = JObject2 t"
  then show ?thesis using json_less(4,5) [of "(k, v)" t] by simp
qed

section \<open>The hash depends on the meaning\<close>

text \<open>A sum over a list without duplicates only depends on the set of what is summed.\<close>

lemma sum_list_meanings:
  fixes h :: "'a \<Rightarrow> 'b::comm_monoid_add"
  assumes "distinct (map m xs)" and "distinct (map m ys)" and "m ` set xs = m ` set ys"
    and "\<And>x y. x \<in> set xs \<Longrightarrow> y \<in> set ys \<Longrightarrow> m x = m y \<Longrightarrow> h x = h y"
  shows "sum_list (map h xs) = sum_list (map h ys)"
  using assms
proof (induction xs arbitrary: ys)
  case (Cons x xs)
  have "m x \<in> m ` set ys" using Cons.prems(3) by auto
  then obtain y where y: "y \<in> set ys" "m x = m y" by auto
  then obtain us vs where ys: "ys = us @ y # vs" by (auto dest: split_list)
  have "sum_list (map h xs) = sum_list (map h (us @ vs))"
  proof (rule Cons.IH)
    show "m ` set xs = m ` set (us @ vs)"
    proof -
      have "m x \<notin> m ` set xs" "m y \<notin> m ` set (us @ vs)" using Cons.prems(1,2) by (auto simp: ys)
      moreover have "insert (m x) (m ` set xs) = insert (m x) (m ` set (us @ vs))"
        using Cons.prems(3) y(2) by (auto simp: ys)
      ultimately show ?thesis using y(2) by (metis insert_ident)
    qed
  qed (use Cons.prems in \<open>auto simp: ys\<close>)
  moreover have "h x = h y" using Cons.prems(4) y by simp
  ultimately show ?case by (simp add: ys add.left_commute)
qed simp

lemma fset_of_list_eq:
  "f |`| fset_of_list xs = g |`| fset_of_list ys \<longleftrightarrow> f ` set xs = g ` set ys"
  "fset_of_list us = fset_of_list vs \<longleftrightarrow> set us = set vs"
  by (simp_all add: fset_inject [symmetric] fimage.rep_eq fset_of_list.rep_eq)

lemma hashImpl_meaning:
  assumes "json_ok H a" and "json_ok H b" and "meaning a = meaning b"
  shows "hashImpl H a = hashImpl H b"
  using assms
proof (induction a arbitrary: b rule: measure_induct_rule [of size])
  case (less a)
  consider "is_object a" | t where "a = JSet t" | xs where "a = JArray xs" | s where "a = JFloat s"
    | "a = JNull \<or> (\<exists>x. a = JBool x) \<or> (\<exists>x. a = JString x)"
    by (cases a) (auto simp: is_object_def)
  then show ?case
  proof cases
    case 1
    then have b: "is_object b" using less.prems(3) by (cases b) (simp_all add: meaning_object is_object_def)
    have "sum_list (map (\<lambda>(k, v). H (hashImpl H k @ hashImpl H v)) (entries a)) =
        sum_list (map (\<lambda>(k, v). H (hashImpl H k @ hashImpl H v)) (entries b))"
    proof (rule sum_list_meanings [where m = "map_prod meaning meaning"])
      show "distinct (map (map_prod meaning meaning) (entries a))" "distinct (map (map_prod meaning meaning) (entries b))"
        using entries_ok(1) [OF 1 less.prems(1)] entries_ok(1) [OF b less.prems(2)]
        by (auto elim!: distinct_map_finer)
      show "map_prod meaning meaning ` set (entries a) = map_prod meaning meaning ` set (entries b)"
        using less.prems(3) by (simp add: meaning_object 1 b fset_of_list_eq)
      fix x y assume xy: "x \<in> set (entries a)" "y \<in> set (entries b)" "map_prod meaning meaning x = map_prod meaning meaning y"
      obtain k v k' v' where kv: "x = (k, v)" "y = (k', v')" by fastforce
      have "hashImpl H k = hashImpl H k'" "hashImpl H v = hashImpl H v'"
        using less.IH [of k k'] less.IH [of v v'] entries_size [OF 1, of k v] xy kv
          entries_ok(2) [OF 1 less.prems(1), of k v] entries_ok(2) [OF b less.prems(2), of k' v'] by auto
      then show "(case x of (k, v) \<Rightarrow> H (hashImpl H k @ hashImpl H v)) = (case y of (k, v) \<Rightarrow> H (hashImpl H k @ hashImpl H v))"
        by (simp add: kv)
    qed
    then show ?thesis by (simp add: hash_object 1 b)
  next
    case 2
    then obtain u where b: "b = JSet u" using less.prems(3) by (cases b) auto
    have "sum_list (map (\<lambda>v. H (hashImpl H v)) (table_elems t)) = sum_list (map (\<lambda>v. H (hashImpl H v)) (table_elems u))"
    proof (rule sum_list_meanings [where m = meaning])
      fix x y assume "x \<in> set (table_elems t)" "y \<in> set (table_elems u)" "meaning x = meaning y"
      then show "H (hashImpl H x) = H (hashImpl H y)"
        using less.IH [of x y] less.prems 2 b json_less(3) [of x t] by (auto simp: list_all_iff)
    qed (use less.prems 2 b in \<open>auto simp: fset_of_list_eq\<close>)
    then show ?thesis using 2 b by simp
  next
    case 3
    then obtain ys where b: "b = JArray ys" using less.prems(3) by (cases b) auto
    have ms: "map meaning xs = map meaning ys" using less.prems(3) 3 b by simp
    then have len: "length xs = length ys" by (rule map_eq_imp_length_eq)
    have "map (hashImpl H) xs = map (hashImpl H) ys"
    proof (rule nth_equalityI)
      fix i assume "i < length (map (hashImpl H) xs)"
      then have i: "i < length xs" by simp
      have "meaning (xs ! i) = meaning (ys ! i)" using arg_cong [OF ms, where f = "\<lambda>zs. zs ! i"] i len by simp
      then have "hashImpl H (xs ! i) = hashImpl H (ys ! i)"
        using less.IH [of "xs ! i" "ys ! i"] less.prems(1,2) 3 b i len json_less(1) [of "xs ! i" xs] by (simp add: list_all_length)
      then show "map (hashImpl H) xs ! i = map (hashImpl H) ys ! i" using i len by simp
    qed (simp add: len)
    then show ?thesis using 3 b by simp
  next
    case 4
    then obtain u where b: "b = JFloat u" using less.prems(3) by (cases b) auto
    have ok: "number_ok s" "number_ok u" using less.prems(1,2) 4 b by simp_all
    then obtain x y where "Number_value s = Some x" "Number_value u = Some y" by (metis number_ok_value)
    then have "Number_value s = Number_value u" using less.prems(3) 4 b by simp
    then have "Number_Float64 s = Number_Float64 u \<and> Number_Float64 s \<noteq> None" by (rule Number_Float64_value [OF ok])
    then show ?thesis using 4 b by (auto split: option.split)
  next
    case 5
    then show ?thesis using less.prems(3) by (cases b) auto
  qed
qed

section \<open>Lookup by binary search\<close>

lemma find_loop_bounds:
  assumes "sorted keys" and "i \<le> j" and "j \<le> length keys"
    and "\<And>k. k < i \<Longrightarrow> keys ! k < name" and "\<And>k. j \<le> k \<Longrightarrow> k < length keys \<Longrightarrow> name \<le> keys ! k"
  shows "find_loop keys name i j \<le> length keys \<and> (\<forall>k < find_loop keys name i j. keys ! k < name) \<and>
    (\<forall>k. find_loop keys name i j \<le> k \<and> k < length keys \<longrightarrow> name \<le> keys ! k)"
  using assms(2-)
proof (induction "j - i" arbitrary: i j rule: less_induct)
  case less
  let ?h = "(i + j) div 2"
  show ?case
  proof (cases "i < j")
    case False
    then have "find_loop keys name i j = i" by (simp add: find_loop.simps [of keys name i j])
    then show ?thesis using False less.prems by auto
  next
    case True
    then have h: "i \<le> ?h" "?h < j" by auto
    show ?thesis
    proof (cases "name \<le> keys ! ?h")
      case ge: True
      have "name \<le> keys ! k" if "?h \<le> k" "k < length keys" for k
        using ge sorted_nth_mono [OF assms(1) that] by (rule order_trans)
      then have "find_loop keys name i ?h \<le> length keys \<and> (\<forall>k < find_loop keys name i ?h. keys ! k < name) \<and>
          (\<forall>k. find_loop keys name i ?h \<le> k \<and> k < length keys \<longrightarrow> name \<le> keys ! k)"
        using less.prems h by (intro less.hyps) auto
      then show ?thesis using True ge by (simp add: find_loop.simps [of keys name i j] Let_def)
    next
      case lt: False
      have "keys ! k < name" if "k < ?h + 1" for k
      proof -
        have "keys ! k \<le> keys ! ?h" using that h less.prems(2) by (intro sorted_nth_mono [OF assms(1)]) auto
        then show ?thesis using lt by simp
      qed
      then have "find_loop keys name (?h + 1) j \<le> length keys \<and> (\<forall>k < find_loop keys name (?h + 1) j. keys ! k < name) \<and>
          (\<forall>k. find_loop keys name (?h + 1) j \<le> k \<and> k < length keys \<longrightarrow> name \<le> keys ! k)"
        using less.prems h by (intro less.hyps) auto
      then show ?thesis using True lt by (simp add: find_loop.simps [of keys name i j] Let_def)
    qed
  qed
qed

text \<open>On sorted names, binary search is lookup.\<close>

lemma Object_valueImpl_eq:
  assumes "sorted_wrt (<) (map fst kvs)"
  shows "Object_valueImpl kvs name = map_of kvs name"
proof -
  let ?keys = "map fst kvs" and ?i = "find_loop (map fst kvs) name 0 (length (map fst kvs))"
  have sorted: "sorted ?keys" and dist: "distinct ?keys" using assms by (simp_all add: strict_sorted_iff)
  have i: "\<forall>k < ?i. ?keys ! k < name" "\<forall>k. ?i \<le> k \<and> k < length ?keys \<longrightarrow> name \<le> ?keys ! k"
    using find_loop_bounds [OF sorted, of 0 "length ?keys" name] by auto
  show ?thesis
  proof (cases "?i < length kvs \<and> fst (kvs ! ?i) = name")
    case True
    then have "kvs ! ?i = (name, snd (kvs ! ?i))" by (metis prod.collapse)
    then have "(name, snd (kvs ! ?i)) \<in> set kvs" using True by (metis nth_mem)
    then show ?thesis using True dist by (simp add: Object_valueImpl_def Object_find_def Let_def)
  next
    case False
    have "name \<notin> set ?keys"
    proof
      assume "name \<in> set ?keys"
      then obtain k where k: "k < length kvs" "fst (kvs ! k) = name" by (auto simp: in_set_conv_nth)
      then have "?i \<le> k" using i(1) by (metis length_map linorder_not_less nth_map order_less_irrefl)
      then have "name \<le> ?keys ! ?i" using i(2) k(1) by simp
      moreover have "?keys ! ?i \<le> ?keys ! k" using \<open>?i \<le> k\<close> k(1) by (intro sorted_nth_mono [OF sorted]) auto
      ultimately have "?keys ! ?i = name" using k by simp
      then show False using False \<open>?i \<le> k\<close> k(1) by simp
    qed
    then show ?thesis using False by (auto simp: Object_valueImpl_def Object_find_def Let_def map_of_eq_None_iff [symmetric])
  qed
qed

section \<open>Order of documents\<close>

lemma cmp_loop_zero:
  assumes "\<And>x. x \<in> set xs \<Longrightarrow> \<exists>c. f x = Some c \<and> (c = 0 \<longleftrightarrow> q x)"
  shows "\<exists>c. cmp_loop f xs = Some c \<and> (c = 0 \<longleftrightarrow> list_all q xs)"
  using assms
proof (induction xs)
  case (Cons x xs)
  then obtain c where "f x = Some c" "c = 0 \<longleftrightarrow> q x" by auto
  with Cons show ?case by auto
qed simp

lemma zip_all_map:
  "length xs = length ys \<Longrightarrow> list_all (\<lambda>(x, y). f x = g y) (zip xs ys) \<longleftrightarrow> map f xs = map g ys"
  by (induction xs ys rule: list_induct2) auto

text \<open>Objects with the same entries in the order of their names are the same lists.\<close>

lemma sorted_entries_unique:
  fixes a b :: "(gostring \<times> json) list"
  assumes "sorted_wrt (<) (map fst a)" and "sorted_wrt (<) (map fst b)"
    and "(\<lambda>(k, v). (MString k, meaning v)) ` set a = (\<lambda>(k, v). (MString k, meaning v)) ` set b"
  shows "map (\<lambda>(k, v). (k, meaning v)) a = map (\<lambda>(k, v). (k, meaning v)) b"
proof (rule map_sorted_distinct_set_unique [where f = fst])
  let ?a = "map (\<lambda>(k, v). (k, meaning v)) a" and ?b = "map (\<lambda>(k, v). (k, meaning v)) b"
  have fst: "map fst ?a = map fst a" "map fst ?b = map fst b" by (simp_all add: case_prod_unfold o_def)
  have inj: "inj (\<lambda>(k, v :: mvalue). (MString k, v))" by (auto simp: inj_def)
  have "(\<lambda>(k, v). (MString k, v)) ` set ?a = (\<lambda>(k, v). (MString k, v)) ` set ?b"
    using assms(3) by (simp add: image_image case_prod_unfold)
  then show set: "set ?a = set ?b" by (simp only: inj_image_eq_iff [OF inj])
  have "distinct (map fst ?a)" using assms(1) unfolding fst by (rule sorted_names_distinct)
  then have "inj_on fst (set ?a)" unfolding distinct_map by blast
  then show "inj_on fst (set ?a \<union> set ?b)" unfolding set by simp
qed (use assms(1,2) in \<open>simp_all add: case_prod_unfold o_def strict_sorted_iff\<close>)

lemma compare_meaning:
  assumes "json_ok H a" and "plain a" and "json_ok H b" and "plain b"
  shows "\<exists>c. compare a b = Some c \<and> (c = 0 \<longleftrightarrow> meaning a = meaning b)"
  using assms
proof (induction a arbitrary: b rule: measure_induct_rule [of size])
  case (less a)
  note unfold = compare.simps [of a b]
  show ?case
  proof (cases "\<exists>xs ys. a = JArray xs \<and> b = JArray ys")
    case True
    then obtain xs ys where ab: "a = JArray xs" "b = JArray ys" by blast
    show ?thesis
    proof (cases "length xs = length ys")
      case len: True
      have "\<exists>c. cmp_loop (\<lambda>(aa, bb). compare aa bb) (zip xs ys) = Some c \<and>
          (c = 0 \<longleftrightarrow> list_all (\<lambda>(x, y). meaning x = meaning y) (zip xs ys))"
      proof (rule cmp_loop_zero)
        fix z assume "z \<in> set (zip xs ys)"
        then obtain x y where z: "z = (x, y)" "x \<in> set xs" "y \<in> set ys" by (metis in_set_zipE prod.exhaust)
        then have "\<exists>c. compare x y = Some c \<and> (c = 0 \<longleftrightarrow> meaning x = meaning y)"
          using less.prems ab json_less(1) [of x xs] by (intro less.IH) (auto simp: list_all_iff)
        then show "\<exists>c. (case z of (aa, bb) \<Rightarrow> compare aa bb) = Some c \<and> (c = 0 \<longleftrightarrow> (case z of (x, y) \<Rightarrow> meaning x = meaning y))"
          by (simp add: z)
      qed
      then show ?thesis unfolding unfold using len by (simp add: ab jsonType_def zip_all_map)
    next
      case False
      then show ?thesis unfolding unfold using map_eq_imp_length_eq [of meaning xs meaning ys] by (auto simp: ab jsonType_def)
    qed
  next
    case no_array: False
    show ?thesis
    proof (cases "\<exists>xs ys. a = JObject xs \<and> b = JObject ys")
      case True
      then obtain xs ys where ab: "a = JObject xs" "b = JObject ys" by blast
      have sorted: "sorted_wrt (<) (map fst xs)" "sorted_wrt (<) (map fst ys)" using less.prems ab by auto
      let ?e = "\<lambda>(k, v). (k, meaning v)"
      have eq: "meaning a = meaning b \<longleftrightarrow> map ?e xs = map ?e ys"
      proof
        assume "map ?e xs = map ?e ys"
        then have "(\<lambda>(k, m). (MString k, m)) ` set (map ?e xs) = (\<lambda>(k, m). (MString k, m)) ` set (map ?e ys)" by simp
        then show "meaning a = meaning b" by (simp add: ab fset_of_list_eq image_image case_prod_unfold)
      qed (use sorted_entries_unique [OF sorted] in \<open>simp add: ab fset_of_list_eq\<close>)
      show ?thesis
      proof (cases "length xs = length ys")
        case len: True
        let ?f = "\<lambda>(ea, eb). if fst ea \<noteq> fst eb then Some (cmp (fst ea) (fst eb)) else do {
          aa \<leftarrow> Object_valueImpl xs (fst ea); bb \<leftarrow> Object_valueImpl ys (fst ea); compare aa bb }"
        have "\<exists>c. cmp_loop ?f (zip xs ys) = Some c \<and> (c = 0 \<longleftrightarrow> list_all (\<lambda>(x, y). ?e x = ?e y) (zip xs ys))"
        proof (rule cmp_loop_zero)
          fix z assume "z \<in> set (zip xs ys)"
          then obtain k v k' v' where z: "z = ((k, v), (k', v'))" "(k, v) \<in> set xs" "(k', v') \<in> set ys"
            by (metis in_set_zipE prod.exhaust)
          have "Object_valueImpl xs k = Some v" "Object_valueImpl ys k' = Some v'"
            using z sorted_names_distinct [OF sorted(1)] sorted_names_distinct [OF sorted(2)]
            by (simp_all add: Object_valueImpl_eq sorted)
          moreover have "\<exists>c. compare v v' = Some c \<and> (c = 0 \<longleftrightarrow> meaning v = meaning v')"
            using z less.prems ab json_less(2) [of k v xs] by (intro less.IH) (auto simp: list_all_iff)
          ultimately show "\<exists>c. ?f z = Some c \<and> (c = 0 \<longleftrightarrow> (case z of (x, y) \<Rightarrow> ?e x = ?e y))"
            by (auto simp: z)
        qed
        then show ?thesis using len unfolding eq unfold by (simp add: ab jsonType_def zip_all_map)
      next
        case False
        then have "map ?e xs \<noteq> map ?e ys" using map_eq_imp_length_eq by blast
        then show ?thesis using False unfolding eq unfold by (auto simp: ab jsonType_def)
      qed
    next
      case False
      show ?thesis
      proof (cases "\<exists>s u. a = JFloat s \<and> b = JFloat u")
        case True
        then obtain s u where ab: "a = JFloat s" "b = JFloat u" by blast
        then have "number_ok s" "number_ok u" using less.prems by simp_all
        then obtain x y where "Number_value s = Some x" "Number_value u = Some y" by (metis number_ok_value)
        then show ?thesis using \<open>number_ok s\<close> \<open>number_ok u\<close> unfolding unfold by (simp add: ab jsonType_def compareFloat_value)
      next
        case no_number: False
        show ?thesis using no_array False no_number less.prems unfolding unfold
          by (cases a; cases b) (auto simp: jsonType_def)
      qed
    qed
  qed
qed

section \<open>Equality\<close>

lemma all_loop_total:
  assumes "\<And>x. x \<in> set xs \<Longrightarrow> f x = Some (q x)"
  shows "all_loop f xs = Some (list_all q xs)"
  using assms by (induction xs) auto

lemma same_images:
  assumes "distinct (map m xs)" and "distinct (map m' ys)"
  shows "length xs = length ys \<and> m ` set xs \<subseteq> m' ` set ys \<longleftrightarrow> m ` set xs = m' ` set ys"
proof -
  have "card (m ` set xs) = length xs" "card (m' ` set ys) = length ys"
    using distinct_card [OF assms(1)] distinct_card [OF assms(2)] by simp_all
  then show ?thesis by (metis List.finite_set card_subset_eq finite_imageI order_refl)
qed

lemma find_meaning_pair:
  assumes "distinct (map (\<lambda>e. meaning (fst e)) es)"
  shows "(case find (\<lambda>e. meaning (fst e) = meaning k) es of None \<Rightarrow> False | Some e \<Rightarrow> meaning v = meaning (snd e)) \<longleftrightarrow>
    (meaning k, meaning v) \<in> map_prod meaning meaning ` set es"
  using assms
proof (induction es)
  case (Cons e es)
  show ?case
  proof (cases "meaning (fst e) = meaning k")
    case True
    then have "meaning k \<notin> (\<lambda>e. meaning (fst e)) ` set es" using Cons.prems by simp
    then have "(meaning k, meaning v) \<notin> map_prod meaning meaning ` set es" by (auto simp: image_iff)
    then show ?thesis using True by (cases e) auto
  next
    case False
    then show ?thesis using Cons by (cases e) auto
  qed
qed simp

lemma MString_meaning [simp]: "meaning k = MString s \<longleftrightarrow> k = JString s" "MString s = meaning k \<longleftrightarrow> k = JString s"
  by (cases k; auto)+

text \<open>The tests of both kinds of objects.\<close>

lemma object_test_2:
  assumes "json_ok H (JObject2 b)" and "\<And>e. e \<in> set (table_elems b) \<Longrightarrow> equalOp H (fst e) k = Some (meaning (fst e) = meaning k)"
    and "\<And>e. e \<in> set (table_elems b) \<Longrightarrow> equalOp H v (snd e) = Some (meaning v = meaning (snd e))" and "json_ok H k"
  shows "do { r \<leftarrow> object_get (equalOp H) (hash H k) k b; case r of None \<Rightarrow> Some False | Some w \<Rightarrow> equalOp H v w } =
    Some ((meaning k, meaning v) \<in> map_prod meaning meaning ` set (table_elems b))"
proof -
  have ok: "table_ok (\<lambda>e. hash H (fst e)) b" "distinct (map (\<lambda>e. meaning (fst e)) (table_elems b))"
    "\<And>e. e \<in> set (table_elems b) \<Longrightarrow> json_ok H (fst e)" using assms(1) by (auto simp: list_all_iff)
  have get: "table_get (\<lambda>e. equalOp H (fst e) k) (hash H k) b = Some (find (\<lambda>e. meaning (fst e) = meaning k) (table_elems b))"
  proof (rule table_get_spec [OF ok(1)])
    fix e assume e: "e \<in> set (table_elems b)"
    show "equalOp H (fst e) k = Some (meaning (fst e) = meaning k)" using e by (rule assms(2))
    show "hash H (fst e) = hash H k" if "meaning (fst e) = meaning k"
      using hashImpl_meaning [OF ok(3) [OF e] assms(4) that] by (simp add: hash_def)
  qed
  show ?thesis
  proof (cases "find (\<lambda>e. meaning (fst e) = meaning k) (table_elems b)")
    case None
    then show ?thesis using get find_meaning_pair [OF ok(2), where k = k and v = v] by (simp add: object_get_def)
  next
    case (Some e)
    then have "e \<in> set (table_elems b)" by (auto simp: find_Some_iff)
    then show ?thesis using get find_meaning_pair [OF ok(2), where k = k and v = v] assms(3) Some by (simp add: object_get_def)
  qed
qed

lemma object_test_1:
  assumes "json_ok H (JObject a)" and "\<And>s va. (s, va) \<in> set a \<Longrightarrow> equalOp H va vb = Some (meaning va = meaning vb)"
  shows "(case k of JString s \<Rightarrow> (case Object_valueImpl a s of None \<Rightarrow> Some False | Some va \<Rightarrow> equalOp H va vb) | _ \<Rightarrow> Some False) =
    Some ((meaning k, meaning vb) \<in> (\<lambda>(s, v). (MString s, meaning v)) ` set a)"
proof (cases "\<exists>s. k = JString s")
  case True
  then obtain s where k: "k = JString s" by blast
  have sorted: "sorted_wrt (<) (map fst a)" using assms(1) by simp
  then have look: "Object_valueImpl a s = map_of a s" and dist: "distinct (map fst a)"
    by (simp_all add: Object_valueImpl_eq sorted_names_distinct)
  show ?thesis
  proof (cases "map_of a s")
    case None
    then have "(s, v) \<notin> set a" for v using map_of_eq_None_iff [of a s] by force
    then have "(MString s, meaning vb) \<notin> (\<lambda>(s, v). (MString s, meaning v)) ` set a" by auto
    then show ?thesis using look None by (simp add: k)
  next
    case (Some va)
    have "(s, v) \<in> set a \<longleftrightarrow> v = va" for v using map_of_SomeD [OF Some] eq_key_imp_eq_value [OF dist] by blast
    then have "(MString s, meaning vb) \<in> (\<lambda>(s, v). (MString s, meaning v)) ` set a \<longleftrightarrow> meaning va = meaning vb"
      by (auto simp: image_iff intro!: bexI [of _ "(s, va)"])
    then show ?thesis using look Some assms(2) [of s va] map_of_SomeD [OF Some] by (simp add: k)
  qed
qed (auto split: json.split)

text \<open>The three kinds of tables, given that their elements are compared rightly.\<close>

lemma distinct_pairs: "distinct (map (\<lambda>e. meaning (fst e)) es) \<Longrightarrow> distinct (map (map_prod meaning meaning) es)"
  by (erule distinct_map_finer) auto

lemma equal_JSet:
  assumes "json_ok H (JSet t)" and "json_ok H (JSet u)"
    and "\<And>v w. v \<in> set (table_elems t) \<Longrightarrow> w \<in> set (table_elems u) \<Longrightarrow> equalOp H w v = Some (meaning w = meaning v)"
  shows "equalOp H (JSet t) (JSet u) = Some (meaning (JSet t) = meaning (JSet u))"
proof -
  have ok: "table_ok (hash H) t" "table_ok (hash H) u" "distinct (map meaning (table_elems t))" "distinct (map meaning (table_elems u))"
    "\<And>v. v \<in> set (table_elems t) \<Longrightarrow> json_ok H v" "\<And>v. v \<in> set (table_elems u) \<Longrightarrow> json_ok H v"
    using assms(1,2) by (auto simp: list_all_iff)
  have "all_loop (\<lambda>v. map_option (\<lambda>r. r \<noteq> None) (table_get (\<lambda>w. equalOp H w v) (hash H v) u)) (table_elems t) =
      Some (list_all (\<lambda>v. meaning v \<in> meaning ` set (table_elems u)) (table_elems t))"
  proof (rule all_loop_total)
    fix v assume v: "v \<in> set (table_elems t)"
    have "table_get (\<lambda>w. equalOp H w v) (hash H v) u = Some (find (\<lambda>w. meaning w = meaning v) (table_elems u))"
    proof (rule table_get_spec [OF ok(2)])
      fix w assume w: "w \<in> set (table_elems u)"
      show "equalOp H w v = Some (meaning w = meaning v)" using v w by (rule assms(3))
      show "hash H w = hash H v" if "meaning w = meaning v"
        using hashImpl_meaning [OF ok(6) [OF w] ok(5) [OF v] that] by (simp add: hash_def)
    qed
    moreover have "find (\<lambda>w. meaning w = meaning v) (table_elems u) \<noteq> None \<longleftrightarrow> meaning v \<in> meaning ` set (table_elems u)"
      unfolding find_None_iff image_iff by metis
    ultimately show "map_option (\<lambda>r. r \<noteq> None) (table_get (\<lambda>w. equalOp H w v) (hash H v) u) =
        Some (meaning v \<in> meaning ` set (table_elems u))" by simp
  qed
  moreover have "meaning (JSet t) = meaning (JSet u) \<longleftrightarrow> meaning ` set (table_elems t) = meaning ` set (table_elems u)"
    by (simp add: fset_of_list_eq)
  ultimately show ?thesis
    unfolding same_images [OF ok(3,4), symmetric]
    by (simp add: Set_Equal_def Set_Get_def table_len_ok [OF ok(1)] table_len_ok [OF ok(2)] list_all_iff image_subset_iff)
qed

lemma equal_JObject2:
  assumes "json_ok H (JObject2 t)" and "json_ok H (JObject2 u)"
    and "\<And>d e. d \<in> set (table_elems t) \<Longrightarrow> e \<in> set (table_elems u) \<Longrightarrow> equalOp H (fst e) (fst d) = Some (meaning (fst e) = meaning (fst d))"
    and "\<And>d e. d \<in> set (table_elems t) \<Longrightarrow> e \<in> set (table_elems u) \<Longrightarrow> equalOp H (snd d) (snd e) = Some (meaning (snd d) = meaning (snd e))"
  shows "equalOp H (JObject2 t) (JObject2 u) = Some (meaning (JObject2 t) = meaning (JObject2 u))"
proof -
  have ok: "table_ok (\<lambda>e. hash H (fst e)) t" "table_ok (\<lambda>e. hash H (fst e)) u"
    "distinct (map (\<lambda>e. meaning (fst e)) (table_elems t))" "distinct (map (\<lambda>e. meaning (fst e)) (table_elems u))"
    "\<And>k v. (k, v) \<in> set (table_elems t) \<Longrightarrow> json_ok H k"
    using assms(1,2) by (auto simp: list_all_iff)
  let ?test = "\<lambda>(h, k, v). do {
      r \<leftarrow> object_get (equalOp H) h k u; case r of None \<Rightarrow> Some False | Some w \<Rightarrow> equalOp H v w }"
  have "all_loop ?test (table_hashed t) =
      Some (list_all (\<lambda>(h, k, v). (meaning k, meaning v) \<in> map_prod meaning meaning ` set (table_elems u)) (table_hashed t))"
  proof (rule all_loop_total)
    fix z assume "z \<in> set (table_hashed t)"
    then obtain k v where z: "z = (hash H k, k, v)" and kv: "(k, v) \<in> set (table_elems t)"
      by (auto simp: table_hashed_ok [OF ok(1)])
    have "?test (hash H k, k, v) = Some ((meaning k, meaning v) \<in> map_prod meaning meaning ` set (table_elems u))"
      unfolding prod.case by (rule object_test_2 [OF assms(2)]) (use assms(3,4) [OF kv] ok(5) [OF kv] in auto)
    then show "?test z = Some (case z of (h, k, v) \<Rightarrow> (meaning k, meaning v) \<in> map_prod meaning meaning ` set (table_elems u))"
      by (simp add: z)
  qed
  moreover have "list_all (\<lambda>(h, k, v). (meaning k, meaning v) \<in> map_prod meaning meaning ` set (table_elems u)) (table_hashed t) \<longleftrightarrow>
      map_prod meaning meaning ` set (table_elems t) \<subseteq> map_prod meaning meaning ` set (table_elems u)"
    by (auto simp: table_hashed_ok [OF ok(1)] list_all_iff)
  moreover have "meaning (JObject2 t) = meaning (JObject2 u) \<longleftrightarrow>
      map_prod meaning meaning ` set (table_elems t) = map_prod meaning meaning ` set (table_elems u)"
    by (simp add: meaning_object fset_of_list_eq del: meaning.simps)
  ultimately show ?thesis
    unfolding same_images [OF distinct_pairs [OF ok(3)] distinct_pairs [OF ok(4)], symmetric]
    by (simp add: Object2_Equal_def table_len_ok [OF ok(1)] table_len_ok [OF ok(2)] del: meaning.simps)
qed

lemma equal_mixed:
  assumes "json_ok H (JObject kvs)" and "json_ok H (JObject2 t)"
    and "\<And>s va e. (s, va) \<in> set kvs \<Longrightarrow> e \<in> set (table_elems t) \<Longrightarrow> equalOp H va (snd e) = Some (meaning va = meaning (snd e))"
  shows "equalOp H (JObject kvs) (JObject2 t) = Some (meaning (JObject kvs) = meaning (JObject2 t))"
proof -
  let ?e = "\<lambda>(s, v). (MString s, meaning v)"
  have ok: "table_ok (\<lambda>e. hash H (fst e)) t" "distinct (map (\<lambda>e. meaning (fst e)) (table_elems t))" "distinct (map fst kvs)"
    using assms(1,2) by (auto dest: sorted_names_distinct)
  have dist: "distinct (map ?e kvs)" using ok(3) by (rule distinct_map_finer [of fst]) auto
  let ?test = "\<lambda>(k, vb). case k of JString s \<Rightarrow> (case Object_valueImpl kvs s of None \<Rightarrow> Some False | Some va \<Rightarrow> equalOp H va vb) | _ \<Rightarrow> Some False"
  have "all_loop ?test (table_elems t) = Some (list_all (\<lambda>(k, vb). (meaning k, meaning vb) \<in> ?e ` set kvs) (table_elems t))"
  proof (rule all_loop_total)
    fix z assume z: "z \<in> set (table_elems t)"
    obtain k vb where kv: "z = (k, vb)" by fastforce
    show "?test z = Some (case z of (k, vb) \<Rightarrow> (meaning k, meaning vb) \<in> ?e ` set kvs)"
      unfolding kv prod.case by (rule object_test_1 [OF assms(1)]) (use assms(3) z kv in auto)
  qed
  moreover have "list_all (\<lambda>(k, vb). (meaning k, meaning vb) \<in> ?e ` set kvs) (table_elems t) \<longleftrightarrow>
      map_prod meaning meaning ` set (table_elems t) \<subseteq> ?e ` set kvs"
    by (auto simp: list_all_iff)
  moreover have "meaning (JObject kvs) = meaning (JObject2 t) \<longleftrightarrow> map_prod meaning meaning ` set (table_elems t) = ?e ` set kvs"
    by (simp add: map_prod_def fset_of_list_eq) (rule eq_commute)
  ultimately show ?thesis
    unfolding same_images [OF distinct_pairs [OF ok(2)] dist, symmetric]
    by (simp add: table_len_ok [OF ok(1)] eq_commute [of "length kvs"] del: meaning.simps)
qed

theorem equalOp_meaning:
  assumes "json_ok H a" and "json_ok H b"
  shows "equalOp H a b = Some (meaning a = meaning b)"
  using assms
proof (induction "equal_rank a b" arbitrary: a b rule: less_induct)
  case less
  have IH: "equalOp H x y = Some (meaning x = meaning y)"
    if "json_ok H x" "json_ok H y" "size x < n" "size y < k" "n + k \<le> size a + size b" for x y n k
    using less.hyps [OF equal_rank_less [OF that(3-5)] that(1,2)] .
  show ?case
  proof (cases a; cases b)
    fix x y assume ab: "a = JFloat x" "b = JFloat y"
    then have "number_ok x" "number_ok y" using less.prems by simp_all
    then obtain p q where "Number_value x = Some p" "Number_value y = Some q" by (metis number_ok_value)
    then show ?thesis using \<open>number_ok x\<close> \<open>number_ok y\<close> by (simp add: ab compareFloat_value)
  next
    fix xs ys assume ab: "a = JArray xs" "b = JArray ys"
    have "all_loop (\<lambda>(x, y). equalOp H x y) (zip xs ys) = Some (list_all (\<lambda>(x, y). meaning x = meaning y) (zip xs ys))"
    proof (rule all_loop_total)
      fix z assume "z \<in> set (zip xs ys)"
      then obtain x y where z: "z = (x, y)" "x \<in> set xs" "y \<in> set ys" by (metis in_set_zipE prod.exhaust)
      then have "equalOp H x y = Some (meaning x = meaning y)"
        using less.prems ab json_less(1) [of x xs] json_less(1) [of y ys]
        by (intro IH [of x y "size a" "size b"]) (auto simp: list_all_iff)
      then show "(case z of (x, y) \<Rightarrow> equalOp H x y) = Some (case z of (x, y) \<Rightarrow> meaning x = meaning y)" by (simp add: z)
    qed
    then show ?thesis using map_eq_imp_length_eq [of meaning xs meaning ys] by (auto simp: ab zip_all_map)
  next
    fix kvs kvs' assume ab: "a = JObject kvs" "b = JObject kvs'"
    have "plain a" "plain b" using less.prems ab by (auto simp: list_all_iff)
    from compare_meaning [OF less.prems(1) this(1) less.prems(2) this(2)] show ?thesis by (auto simp: ab)
  next
    fix kvs t assume ab: "a = JObject kvs" "b = JObject2 t"
    show ?thesis
      unfolding ab
    proof (rule equal_mixed)
      fix s va e assume "(s, va) \<in> set kvs" "e \<in> set (table_elems t)"
      then show "equalOp H va (snd e) = Some (meaning va = meaning (snd e))"
        using less.prems by (intro IH [OF _ _ json_less(2) json_less(5)]) (auto simp: ab list_all_iff)
    qed (use less.prems ab in simp_all)
  next
    fix kvs t assume ab: "a = JObject2 t" "b = JObject kvs"
    have "equalOp H b a = Some (meaning b = meaning a)"
      using less.prems by (intro less.hyps) (simp_all add: ab equal_rank_def)
    moreover have "equalOp H a b = equalOp H b a" unfolding ab by (rule equalOp.simps)
    moreover have "(meaning b = meaning a) = (meaning a = meaning b)" by (rule eq_commute)
    ultimately show ?thesis by (simp only:)
  next
    fix t u assume ab: "a = JObject2 t" "b = JObject2 u"
    show ?thesis
      unfolding ab
    proof (rule equal_JObject2)
      fix d e assume de: "d \<in> set (table_elems t)" "e \<in> set (table_elems u)"
      then have "json_ok H (fst d) \<and> json_ok H (snd d)" "json_ok H (fst e) \<and> json_ok H (snd e)"
        using less.prems by (auto simp: ab list_all_iff)
      then show "equalOp H (fst e) (fst d) = Some (meaning (fst e) = meaning (fst d))"
        "equalOp H (snd d) (snd e) = Some (meaning (snd d) = meaning (snd e))"
        using IH [OF _ _ json_less(4) [OF de(2)] json_less(4) [OF de(1)]] IH [OF _ _ json_less(5) [OF de(1)] json_less(5) [OF de(2)]]
        by (simp_all add: ab)
    qed (use less.prems ab in simp_all)
  next
    fix t u assume ab: "a = JSet t" "b = JSet u"
    show ?thesis
      unfolding ab
    proof (rule equal_JSet)
      fix v w assume "v \<in> set (table_elems t)" "w \<in> set (table_elems u)"
      then show "equalOp H w v = Some (meaning w = meaning v)"
        using less.prems by (intro IH [OF _ _ json_less(3) json_less(3)]) (auto simp: ab list_all_iff)
    qed (use less.prems ab in simp_all)
  qed auto
qed

end
