(* ===== verification/Json_Values.thy ===== *)
theory Json_Values
  imports Json_Meaning
begin

text \<open>
  Sets and objects of JSON values: the hash tables of \<open>Json_Table\<close> on the equality and the hash of \<open>Json\<close>.
  On well-formed values a set is a finite set and an object a finite map of meanings, whatever the digest and its
  collisions; two spellings of numbers that the hash does not respect are the exception.
\<close>

interpretation jv: hashed_values "equalOp H" "hash H" meaning "{v. json_ok H v}" for H
proof unfold_locales
  fix a b assume "a \<in> {v. json_ok H v}" "b \<in> {v. json_ok H v}"
  then have ok: "json_ok H a" "json_ok H b" by simp_all
  then show "equalOp H a b = Some (meaning a = meaning b)" by (rule equalOp_meaning)
  show "hash H a = hash H b" if "meaning a = meaning b"
    using hashImpl_meaning [OF ok that] by (simp add: hash_def)
qed

lemma json_ok_set: "json_ok H (JSet t) \<longleftrightarrow> set_inv (hash H) meaning {v. json_ok H v} t"
  by (auto simp: set_inv_def list_all_iff)

lemma json_ok_object2: "json_ok H (JObject2 t) \<longleftrightarrow> obj_inv (hash H) meaning {v. json_ok H v} t"
  by (auto simp: obj_inv_def list_all_iff o_def)

text \<open>The meaning of a set and of an object through the abstractions of tables.\<close>

lemma meaning_set: "meaning (JSet t) = MSet S \<longleftrightarrow> fset S = set_abs meaning t"
  by (auto simp: set_abs_def fset_of_list.rep_eq simp flip: fset_inject)

lemma meaning_object2:
  assumes "json_ok H (JObject2 t)"
  shows "meaning (JObject2 t) = MObject F \<longleftrightarrow> (\<forall>k v. (k, v) |\<in>| F \<longleftrightarrow> obj_abs meaning t k = Some v)"
proof -
  have "distinct (map fst (map (map_prod meaning meaning) (table_elems t)))" using assms by (simp add: o_def)
  then have "obj_abs meaning t k = Some v \<longleftrightarrow> (k, v) \<in> map_prod meaning meaning ` set (table_elems t)" for k v
    by (simp add: obj_abs_def map_of_eq_Some_iff [symmetric])
  moreover have "meaning (JObject2 t) = MObject (fset_of_list (map (map_prod meaning meaning) (table_elems t)))"
    by (simp add: meaning_object del: meaning.simps)
  ultimately show ?thesis by (auto simp: fset_of_list.rep_eq simp del: meaning.simps simp flip: fset_inject)
qed

section \<open>Properties\<close>

text \<open>C20. \<open>equalOp\<close> does not panic on well-formed values and decides whether they mean the same: numbers by value,
  objects of either kind and sets up to the order of their entries.  Numbers of well-formed values are within the
  range of doubles and have a decimal exponent of at most 1000000, above which the comparison panics
  (\<open>compareFloat_panics\<close>).\<close>

theorem equalOp_correct:
  assumes "json_ok H a" and "json_ok H b"
  shows "equalOp H a b = Some (meaning a = meaning b)"
  using assms by (rule equalOp_meaning)

theorem equalOp_correct_witness:
  "equalOp (\<lambda>_. 0) (JObject [([97], JFloat [49])]) (JObject2 (tableCompact 2 [(0, JString [97], JFloat [49, 46, 48])])) =
   Some (meaning (JObject [([97], JFloat [49])]) = meaning (JObject2 (tableCompact 2 [(0, JString [97], JFloat [49, 46, 48])])))"
  by (rule equalOp_correct) code_simp+

text \<open>\<open>hash\<close> respects equality: values that \<open>equalOp\<close> finds equal have the same hash.\<close>

theorem hash_respects_equalOp:
  assumes "json_ok H a" and "json_ok H b" and "equalOp H a b = Some True"
  shows "hash H a = hash H b"
  using assms jv.hash_meaning [of a H b] equalOp_meaning [OF assms(1,2)] by simp

theorem hash_respects_equalOp_witness:
  "hash (\<lambda>bs. word_of_nat (length bs)) (JArray [JFloat [49]]) = hash (\<lambda>bs. word_of_nat (length bs)) (JArray [JFloat [49, 101, 48]])"
  by (rule hash_respects_equalOp) code_simp+

text \<open>C21. \<open>Add\<close> to a set adds the meaning of the value, whatever the capacity of the set, and a lookup in the
  result finds exactly the values that mean what was added or what was there before.\<close>

theorem Set_Add_correct:
  assumes "json_ok H (JSet t)" and "json_ok H v"
  shows "\<exists>t'. Set_Add (equalOp H) (hash H) v t = Some t' \<and> json_ok H (JSet t') \<and>
    (\<forall>S. meaning (JSet t) = MSet S \<longrightarrow> meaning (JSet t') = MSet (finsert (meaning v) S)) \<and>
    (\<forall>w. json_ok H w \<longrightarrow> (\<exists>r. Set_Get (equalOp H) (hash H) w t' = Some r \<and>
       (r \<noteq> None \<longleftrightarrow> meaning w = meaning v \<or> meaning w \<in> set_abs meaning t)))"
proof -
  from jv.Set_Add_spec [of H t v] assms obtain t' where t': "Set_Add (equalOp H) (hash H) v t = Some t'"
    "set_inv (hash H) meaning {v. json_ok H v} t'" "set_abs meaning t' = insert (meaning v) (set_abs meaning t)"
    unfolding json_ok_set by auto
  have "\<forall>w. json_ok H w \<longrightarrow> (\<exists>r. Set_Get (equalOp H) (hash H) w t' = Some r \<and>
       (r \<noteq> None \<longleftrightarrow> meaning w = meaning v \<or> meaning w \<in> set_abs meaning t))"
    using jv.Set_Get_found [OF t'(2)] unfolding t'(3) by simp
  with t' show ?thesis by (auto simp: json_ok_set meaning_set simp del: meaning.simps json_ok.simps)
qed

theorem Set_Add_correct_witness:
  "\<exists>t'. Set_Add (equalOp (\<lambda>_. 0)) (hash (\<lambda>_. 0)) (JFloat [49, 46, 48]) (tableCompact 2 [(0, JFloat [49]), (0, JNull)]) = Some t' \<and>
     (\<exists>r. Set_Get (equalOp (\<lambda>_. 0)) (hash (\<lambda>_. 0)) JNull t' = Some r \<and> r \<noteq> None)"
proof -
  have "json_ok (\<lambda>_. 0) (JSet (tableCompact 2 [(0, JFloat [49]), (0, JNull)]))" "json_ok (\<lambda>_. 0) (JFloat [49, 46, 48])"
    by code_simp+
  from Set_Add_correct [OF this] obtain t' where t': "Set_Add (equalOp (\<lambda>_. 0)) (hash (\<lambda>_. 0)) (JFloat [49, 46, 48])
      (tableCompact 2 [(0, JFloat [49]), (0, JNull)]) = Some t'"
    and get: "json_ok (\<lambda>_. 0) w \<Longrightarrow> \<exists>r. Set_Get (equalOp (\<lambda>_. 0)) (hash (\<lambda>_. 0)) w t' = Some r \<and>
      (r \<noteq> None \<longleftrightarrow> meaning w = meaning (JFloat [49, 46, 48]) \<or> meaning w \<in> set_abs meaning (tableCompact 2 [(0, JFloat [49]), (0, JNull)]))" for w
    by blast
  from get [of JNull] t' show ?thesis by (simp add: set_abs_def table_elems_def)
qed

text \<open>C22. \<open>Insert\<close> into a hash-table object updates the map it stands for, whatever the capacity of the object,
  and a lookup in the result finds the inserted value under every key that means the same and under any other key
  what was there before.\<close>

theorem Object2_Insert_correct:
  assumes "json_ok H (JObject2 t)" and "json_ok H k" and "json_ok H v"
  shows "\<exists>t'. Object2_Insert (equalOp H) (hash H) k v t = Some t' \<and> json_ok H (JObject2 t') \<and>
    (\<forall>k'. json_ok H k' \<longrightarrow> (\<exists>r. Object2_Get (equalOp H) (hash H) k' t' = Some r \<and>
       map_option meaning r = (if meaning k' = meaning k then Some (meaning v) else obj_abs meaning t (meaning k'))))"
proof -
  from jv.Object2_Insert_spec [of H t k v] assms obtain t' where t': "Object2_Insert (equalOp H) (hash H) k v t = Some t'"
    "obj_inv (hash H) meaning {v. json_ok H v} t'" "obj_abs meaning t' = (obj_abs meaning t)(meaning k \<mapsto> meaning v)"
    unfolding json_ok_object2 by auto
  have "\<forall>k'. json_ok H k' \<longrightarrow> (\<exists>r. Object2_Get (equalOp H) (hash H) k' t' = Some r \<and>
       map_option meaning r = (if meaning k' = meaning k then Some (meaning v) else obj_abs meaning t (meaning k')))"
    using jv.Object2_Get_spec [OF t'(2)] unfolding t'(3) by fastforce
  with t' show ?thesis by (auto simp: json_ok_object2 simp del: meaning.simps json_ok.simps)
qed

theorem Object2_Insert_correct_witness:
  "\<exists>t'. Object2_Insert (equalOp (\<lambda>_. 0)) (hash (\<lambda>_. 0)) (JFloat [49, 46, 48]) JNull (tableCompact 2 [(0, JFloat [49], JBool True)]) = Some t' \<and>
     (\<exists>r. Object2_Get (equalOp (\<lambda>_. 0)) (hash (\<lambda>_. 0)) (JFloat [49, 46, 48]) t' = Some r \<and> map_option meaning r = Some MNull)"
proof -
  have "json_ok (\<lambda>_. 0) (JObject2 (tableCompact 2 [(0, JFloat [49], JBool True)]))" "json_ok (\<lambda>_. 0) (JFloat [49, 46, 48])"
    "json_ok (\<lambda>_. 0) JNull"
    by code_simp+
  note ok = this
  from Object2_Insert_correct [OF ok] obtain t' where t': "Object2_Insert (equalOp (\<lambda>_. 0)) (hash (\<lambda>_. 0)) (JFloat [49, 46, 48]) JNull
      (tableCompact 2 [(0, JFloat [49], JBool True)]) = Some t'"
    and get: "json_ok (\<lambda>_. 0) k \<Longrightarrow> \<exists>r. Object2_Get (equalOp (\<lambda>_. 0)) (hash (\<lambda>_. 0)) k t' = Some r \<and>
      map_option meaning r = (if meaning k = meaning (JFloat [49, 46, 48]) then Some (meaning JNull)
        else obj_abs meaning (tableCompact 2 [(0, JFloat [49], JBool True)]) (meaning k))" for k
    by blast
  from get [OF ok(2)] t' show ?thesis by simp
qed

text \<open>The binary search for a name in a sorted object returns the value of that name, or nothing when no
  entry has it.\<close>

theorem Object_valueImpl_correct:
  assumes "sorted_wrt (<) (map fst kvs)"
  shows "Object_valueImpl kvs name = map_of kvs name"
  using assms by (rule Object_valueImpl_eq)

theorem Object_valueImpl_correct_witness:
  "Object_valueImpl [([97], JNull), ([97, 98], JBool True), ([99], JNull)] [97, 98] = Some (JBool True)"
  by (subst Object_valueImpl_correct) simp_all

text \<open>The two spellings of zero are equal for \<open>equalOp\<close> but written differently by \<open>hashImpl\<close>: whenever the
  digest separates the two strings of bytes, a set that has \<open>0\<close> takes \<open>-0\<close> as another element.\<close>

theorem negative_zero_twice:
  assumes "H (2 # be64 0) \<noteq> H (2 # be64 (push_bit 63 1))"
  shows "equalOp H (JFloat [48]) (JFloat [45, 48]) = Some True \<and>
    Set_Add (equalOp H) (hash H) (JFloat [45, 48]) (tableCompact 2 [(hash H (JFloat [48]), JFloat [48])]) =
      Some (tableCompact 2 [(hash H (JFloat [48]), JFloat [48]), (hash H (JFloat [45, 48]), JFloat [45, 48])])"
proof (rule conjI)
  show "equalOp H (JFloat [48]) (JFloat [45, 48]) = Some True"
    by (simp add: compareFloat_def Number_Int64_def read_sign_def is_digit_def digits_value_def)
  have "Number_Float64 [48] = Some 0" "Number_Float64 [45, 48] = Some (push_bit 63 1)" by code_simp+
  then have "hash H (JFloat [48]) \<noteq> hash H (JFloat [45, 48])" using assms by (simp add: hash_def)
  then show "Set_Add (equalOp H) (hash H) (JFloat [45, 48]) (tableCompact 2 [(hash H (JFloat [48]), JFloat [48])]) =
      Some (tableCompact 2 [(hash H (JFloat [48]), JFloat [48]), (hash H (JFloat [45, 48]), JFloat [45, 48])])"
    by (simp add: Set_Add_def set_add_def table_full_def set_put_def setCompact_put_def table_put_def hash_test_def
        table_add_def del: equalOp.simps)
qed

theorem negative_zero_twice_witness:
  "equalOp (\<lambda>bs. if bs ! 1 = 0 then 0 else 1) (JFloat [48]) (JFloat [45, 48]) = Some True"
  by (rule conjunct1 [OF negative_zero_twice]) code_simp

text \<open>Objects that hold a set or an object built during evaluation cannot be compared: \<open>equalOp\<close> orders
  two \<open>Object\<close>s with \<open>compare\<close>, and \<open>jsonType\<close> panics on such values.\<close>

theorem equalOp_panics:
  "equalOp H (JObject [(s, JSet t)]) (JObject [(s, JSet u)]) = None \<and>
   equalOp H (JObject [(s, JObject2 t2)]) (JObject [(s, JObject2 u2)]) = None"
  by (simp add: compare.simps jsonType_def Object_valueImpl_eq)

end
