(* ===== verification/Json_Union.thy ===== *)
theory Json_Union
  imports Json_Values
begin

text \<open>
  The union of objects (src/pkg/json/union.go, \<open>Union\<close> and \<open>Diff\<close> of object.go and object2.go): entries of both
  objects, with the union of the two values under a common key, where the right value wins unless both are
  objects.
\<close>

section \<open>Operations\<close>

text \<open>\<open>getValue\<close> of \<open>Union\<close> of an \<open>Object\<close>: the value of a name in the other object, of either kind.\<close>

definition getValue :: "(bytes \<Rightarrow> u64) \<Rightarrow> json \<Rightarrow> gostring \<Rightarrow> json option option" where
  "getValue H other key = (case other of
     JObject kvs \<Rightarrow> Some (Object_valueImpl kvs key)
   | JObject2 t \<Rightarrow> Object2_Get (equalOp H) (hash H) (JString key) t
   | _ \<Rightarrow> Some None)"

text \<open>The first loop: the entries of the other object whose name is not in this one.  A key that is not a string
  panics: the name \<open>key\<close> in the condition hides the key and is a nil pointer then, which \<open>Insert\<close> hashes.\<close>

definition Union_others :: "(bytes \<Rightarrow> u64) \<Rightarrow> (gostring \<times> json) list \<Rightarrow> json \<Rightarrow> (json \<times> json) table \<Rightarrow> (json \<times> json) table option" where
  "Union_others H kvs other result = (case other of
     JObject kvs' \<Rightarrow> foldM (\<lambda>key result. if Object_valueImpl kvs key = None then do {
         v \<leftarrow> Object_valueImpl kvs' key;
         Object2_Insert (equalOp H) (hash H) (JString key) v result }
       else Some result) (map fst kvs') result
   | JObject2 t \<Rightarrow> foldM (\<lambda>(key, v) result. case key of
         JString s \<Rightarrow> if Object_valueImpl kvs s = None then Object2_Insert (equalOp H) (hash H) key v result else Some result
       | _ \<Rightarrow> None) (table_elems t) result
   | _ \<Rightarrow> Some result)"

text \<open>\<open>un\<close> is the recursive call of \<open>UnionObjects\<close>.\<close>

definition Object_Union ::
    "(bytes \<Rightarrow> u64) \<Rightarrow> (json \<Rightarrow> json \<Rightarrow> json option) \<Rightarrow> (gostring \<times> json) list \<Rightarrow> json \<Rightarrow> json option" where
  "Object_Union H un kvs other =
     (if is_object other then do {
        result \<leftarrow> Union_others H kvs other (NewObject2 (length kvs));
        result \<leftarrow> foldM (\<lambda>key result. do {
            v \<leftarrow> Object_valueImpl kvs key;
            v2 \<leftarrow> getValue H other key;
            m \<leftarrow> (case v2 of None \<Rightarrow> Some v | Some v2 \<Rightarrow> un v v2);
            Object2_Insert (equalOp H) (hash H) (JString key) m result }) (map fst kvs) result;
        Some (JObject2 result) }
      else Some other)"

definition Object2_Union ::
    "(bytes \<Rightarrow> u64) \<Rightarrow> (json \<Rightarrow> json \<Rightarrow> json option) \<Rightarrow> (json \<times> json) table \<Rightarrow> (json \<times> json) table \<Rightarrow> (json \<times> json) table option" where
  "Object2_Union H un t other = do {
     result \<leftarrow> Object2_Diff (equalOp H) other t;
     foldM (\<lambda>(h, key, v) result. do {
         v2 \<leftarrow> object_get (equalOp H) h key other;
         case v2 of
           None \<Rightarrow> object_add h key v result
         | Some v2 \<Rightarrow> do { m \<leftarrow> un v v2; object_insert (equalOp H) h key m result } })
       (table_hashed t) result }"

subsection \<open>Recursion\<close>

lemma foldM_cong [fundef_cong]:
  "xs = ys \<Longrightarrow> s = s' \<Longrightarrow> (\<And>x s. x \<in> set ys \<Longrightarrow> f x s = g x s) \<Longrightarrow> foldM f xs s = foldM g ys s'"
  by (induction ys arbitrary: xs s s') (auto intro!: Option.bind_cong)

lemma object_get_mem: "object_get eq h k t = Some (Some v) \<Longrightarrow> \<exists>k'. (k', v) \<in> set (table_elems t)"
  by (force simp: object_get_def dest!: table_get_mem)

lemma getValue_mem: "getValue H other key = Some (Some v) \<Longrightarrow> \<exists>k. (k, v) \<in> set (entries other)"
  by (cases other) (force simp: getValue_def Object2_Get_def dest!: Object_valueImpl_mem object_get_mem)+

lemma Object_Union_cong [fundef_cong]:
  assumes "kvs = kvs'" and "other = other'"
    and "\<And>s v k w. (s, v) \<in> set kvs' \<Longrightarrow> (k, w) \<in> set (entries other') \<Longrightarrow> un v w = un' v w"
  shows "Object_Union H un kvs other = Object_Union H un' kvs' other'"
proof -
  have same: "(case r of None \<Rightarrow> Some v | Some w \<Rightarrow> un v w) = (case r of None \<Rightarrow> Some v | Some w \<Rightarrow> un' v w)"
    if "Object_valueImpl kvs' key = Some v" "getValue H other' key = Some r" for key v r
    using assms(3) that by (auto dest!: Object_valueImpl_mem getValue_mem split: option.split)
  have "do { v \<leftarrow> Object_valueImpl kvs' key; w \<leftarrow> getValue H other' key; m \<leftarrow> (case w of None \<Rightarrow> Some v | Some w \<Rightarrow> un v w); ins m } =
      do { v \<leftarrow> Object_valueImpl kvs' key; w \<leftarrow> getValue H other' key; m \<leftarrow> (case w of None \<Rightarrow> Some v | Some w \<Rightarrow> un' v w); ins m }"
    for key and ins :: "json \<Rightarrow> (json \<times> json) table option"
    by (intro Option.bind_cong refl) (simp_all add: same)
  then show ?thesis unfolding Object_Union_def assms(1,2) by simp
qed

lemma Object2_Union_cong [fundef_cong]:
  assumes "t = t'" and "other = other'"
    and "\<And>k v k2 w. (k, v) \<in> set (table_elems t') \<Longrightarrow> (k2, w) \<in> set (table_elems other') \<Longrightarrow> un v w = un' v w"
  shows "Object2_Union H un t other = Object2_Union H un' t' other'"
  unfolding Object2_Union_def assms(1,2)
  by (rule Option.bind_cong [OF refl], rule foldM_cong [OF refl refl])
    (auto intro!: Option.bind_cong simp: assms(3) dest!: table_hashed_mem object_get_mem split: option.split)

lemma entries_less: "(k, v) \<in> set (entries j) \<Longrightarrow> size v < size j"
  by (cases j) (auto simp: entries_def simp del: json.size dest: json_less(2) json_less(5) [of "(k, v)"])

function UnionObjects :: "(bytes \<Rightarrow> u64) \<Rightarrow> json \<Rightarrow> json \<Rightarrow> json option" where
  "UnionObjects H a b = (case a of
     JObject x \<Rightarrow> Object_Union H (UnionObjects H) x b
   | JObject2 t \<Rightarrow> (case b of
         JObject y \<Rightarrow> Object_Union H (UnionObjects H) y a
       | JObject2 u \<Rightarrow> map_option JObject2 (Object2_Union H (UnionObjects H) t u)
       | _ \<Rightarrow> Some b)
   | _ \<Rightarrow> Some b)"
  by pat_completeness auto

termination
proof (relation "measure (\<lambda>(_, a, b). size a + size b)", goal_cases)
  case (2 H a b x s v k w)
  then have "size v < size a" "size w < size b" by (auto dest: json_less(2) entries_less)
  then show ?case by simp
next
  case (3 H a b t y s v k w)
  then have "size v < size b" "size w < size a" by (auto dest: json_less(2) entries_less [of _ _ "JObject2 _", simplified])
  then show ?case by simp
next
  case (4 H a b t u k v k2 w)
  then have "size v < size a" "size w < size b" by (auto dest: entries_less [of _ _ "JObject2 _", simplified])
  then show ?case by simp
qed simp

declare UnionObjects.simps [simp del]

section \<open>Building an object\<close>

text \<open>A loop that enters new keys: \<open>act\<close> says which entry a step adds, if any.\<close>

lemma map_filter_Cons [simp]:
  "List.map_filter f (x # xs) = (case f x of None \<Rightarrow> List.map_filter f xs | Some y \<Rightarrow> y # List.map_filter f xs)"
  by (simp add: List.map_filter_def split: option.split)

lemma map_filter_Nil [simp]: "List.map_filter f [] = []"
  by (simp add: List.map_filter_def)

definition enters :: "('v \<Rightarrow> u64) \<Rightarrow> ('v \<Rightarrow> 'm) \<Rightarrow> 'v set \<Rightarrow> ('v \<times> 'v) option \<Rightarrow>
    (('v \<times> 'v) table \<Rightarrow> ('v \<times> 'v) table option) \<Rightarrow> bool" where
  "enters hs m D e step \<longleftrightarrow> (\<forall>r. obj_inv hs m D r \<longrightarrow> (case e of
     None \<Rightarrow> step r = Some r
   | Some (k, v) \<Rightarrow> obj_abs m r (m k) = None \<longrightarrow>
       (\<exists>r'. step r = Some r' \<and> obj_inv hs m D r' \<and> obj_abs m r' = (obj_abs m r)(m k \<mapsto> m v))))"

context hashed_values
begin

lemma enters_loop:
  assumes "obj_inv hash m D t" and "\<And>x. x \<in> set xs \<Longrightarrow> enters hash m D (act x) (step x)"
    and "distinct (map (m \<circ> fst) (List.map_filter act xs))"
    and "\<And>x k v. x \<in> set xs \<Longrightarrow> act x = Some (k, v) \<Longrightarrow> obj_abs m t (m k) = None"
  shows "\<exists>t'. foldM step xs t = Some t' \<and> obj_inv hash m D t' \<and>
    obj_abs m t' = obj_abs m t ++ map_of (map (map_prod m m) (List.map_filter act xs))"
  using assms
proof (induction xs arbitrary: t)
  case (Cons x xs)
  have x: "enters hash m D (act x) (step x)" using Cons.prems(2) by simp
  show ?case
  proof (cases "act x")
    case None
    then have "step x t = Some t" using x Cons.prems(1) by (simp add: enters_def)
    moreover have "obj_abs m t (m k) = None" if "y \<in> set xs" "act y = Some (k, v)" for y k v
      by (rule Cons.prems(4) [of y]) (use that in simp_all)
    ultimately show ?thesis using Cons.IH [OF Cons.prems(1)] Cons.prems(2,3) None by simp
  next
    case (Some e)
    obtain k v where e: "e = (k, v)" by fastforce
    have "obj_abs m t (m k) = None" using Cons.prems(4) [of x] Some e by simp
    then obtain r where r: "step x t = Some r" "obj_inv hash m D r" "obj_abs m r = (obj_abs m t)(m k \<mapsto> m v)"
      using x Cons.prems(1) Some e by (auto simp: enters_def)
    have new: "m k \<notin> (m \<circ> fst) ` set (List.map_filter act xs)" using Cons.prems(3) Some e by simp
    have "obj_abs m r (m k') = None" if "y \<in> set xs" "act y = Some (k', v')" for y k' v'
    proof -
      have "(k', v') \<in> set (List.map_filter act xs)" using that by (force simp: List.map_filter_def)
      then have "m k' \<noteq> m k" using new by force
      then show ?thesis using Cons.prems(4) [of y] that by (simp add: r)
    qed
    then obtain t' where t': "foldM step xs r = Some t'" "obj_inv hash m D t'"
      "obj_abs m t' = obj_abs m r ++ map_of (map (map_prod m m) (List.map_filter act xs))"
      using Cons.IH [OF r(2)] Cons.prems(2,3) Some by auto
    have "m k \<notin> dom (map_of (map (map_prod m m) (List.map_filter act xs)))"
      using new by (auto simp: dom_map_of_conv_image_fst image_image)
    then have "obj_abs m t' = obj_abs m t ++ map_of (map (map_prod m m) (List.map_filter act (x # xs)))"
      by (auto simp: t'(3) r(3) Some e fun_eq_iff map_add_def split: option.split)
    then show ?thesis using t' r by auto
  qed
qed simp

lemma enters_Insert:
  assumes "\<And>r. step r = Object2_Insert eq hash k v r" and "k \<in> D" and "v \<in> D"
  shows "enters hash m D (Some (k, v)) step"
  using Object2_Insert_spec assms by (simp add: enters_def)

lemma enters_add:
  assumes "\<And>r. step r = object_add (hash k) k v r" and "k \<in> D" and "v \<in> D"
  shows "enters hash m D (Some (k, v)) step"
  using object_add_spec assms by (simp add: enters_def)

lemma enters_skip: "(\<And>r. step r = Some r) \<Longrightarrow> enters hash m D None step"
  by (simp add: enters_def)

end

section \<open>What a union is\<close>

text \<open>The map an object stands for.\<close>

definition obj_map :: "json \<Rightarrow> mvalue \<rightharpoonup> mvalue" where
  "obj_map j = map_of (map (map_prod meaning meaning) (entries j))"

lemma obj_map_JObject2 [simp]: "obj_map (JObject2 t) = obj_abs meaning t"
  by (simp add: obj_map_def obj_abs_def)

lemma obj_map_JObject [simp]: "obj_map (JObject kvs) (MString s) = map_option meaning (map_of kvs s)"
  by (induction kvs) (auto simp: obj_map_def)

lemma entries_wf:
  assumes "json_ok H j"
  shows "distinct (map (\<lambda>e. meaning (fst e)) (entries j))" and "(k, v) \<in> set (entries j) \<Longrightarrow> json_ok H k \<and> json_ok H v"
proof -
  show "distinct (map (\<lambda>e. meaning (fst e)) (entries j))"
  proof (cases j)
    case (JObject kvs)
    then have "distinct (map fst kvs)" using assms by (simp add: sorted_names_distinct)
    then have "distinct (map MString (map fst kvs))" by (simp add: distinct_map inj_on_def)
    then show ?thesis by (simp add: JObject case_prod_unfold o_def)
  qed (use assms in \<open>auto simp: entries_def\<close>)
  show "(k, v) \<in> set (entries j) \<Longrightarrow> json_ok H k \<and> json_ok H v"
    using assms by (cases j) (auto simp: entries_def list_all_iff)
qed

lemma obj_map_Some:
  assumes "json_ok H j"
  shows "obj_map j \<kappa> = Some x \<longleftrightarrow> (\<exists>k v. (k, v) \<in> set (entries j) \<and> meaning k = \<kappa> \<and> meaning v = x)"
proof -
  have "distinct (map fst (map (map_prod meaning meaning) (entries j)))"
    using entries_wf(1) [OF assms] by (simp add: o_def)
  then show ?thesis by (auto simp: obj_map_def map_of_eq_Some_iff)
qed

lemma obj_map_meaning:
  assumes "json_ok H j" and "is_object j"
  shows "\<exists>F. meaning j = MObject F \<and> (\<forall>k v. (k, v) |\<in>| F \<longleftrightarrow> obj_map j k = Some v)"
proof -
  have "\<forall>k v. (k, v) |\<in>| fset_of_list (map (map_prod meaning meaning) (entries j)) \<longleftrightarrow> obj_map j k = Some v"
    unfolding obj_map_Some [OF assms(1)] fset_of_list_elem by force
  then show ?thesis using meaning_object [OF assms(2)] by blast
qed

text \<open>\<open>C\<close> joins \<open>A\<close> and \<open>B\<close>: the keys of both, with a value related by \<open>P\<close> to the two values under a common key.\<close>

definition joined :: "('v \<Rightarrow> 'v \<Rightarrow> 'v \<Rightarrow> bool) \<Rightarrow> ('k \<rightharpoonup> 'v) \<Rightarrow> ('k \<rightharpoonup> 'v) \<Rightarrow> ('k \<rightharpoonup> 'v) \<Rightarrow> bool" where
  "joined P A B C \<longleftrightarrow> (\<forall>\<kappa>. case (A \<kappa>, B \<kappa>) of
     (Some x, Some y) \<Rightarrow> (\<exists>v. C \<kappa> = Some v \<and> P x y v) | (Some x, None) \<Rightarrow> C \<kappa> = Some x | (None, r) \<Rightarrow> C \<kappa> = r)"

text \<open>The union on meanings: the right value, or an object that joins the two objects with their unions.\<close>

inductive merged :: "mvalue \<Rightarrow> mvalue \<Rightarrow> mvalue \<Rightarrow> bool" where
  right: "(\<nexists>f g. a = MObject f \<and> b = MObject g) \<Longrightarrow> merged a b b"
| objects: "fst |`| h = fst |`| f |\<union>| fst |`| g \<Longrightarrow>
    (\<And>k v. (k, v) |\<in>| h \<Longrightarrow>
      (k, v) |\<in>| f \<and> k |\<notin>| fst |`| g \<or> (k, v) |\<in>| g \<and> k |\<notin>| fst |`| f \<or>
      (\<exists>x y. (k, x) |\<in>| f \<and> (k, y) |\<in>| g \<and> merged x y v)) \<Longrightarrow>
    merged (MObject f) (MObject g) (MObject h)"

lemma keys_dom: "(\<And>k v. (k, v) |\<in>| F \<longleftrightarrow> A k = Some v) \<Longrightarrow> k |\<in>| fst |`| F \<longleftrightarrow> A k \<noteq> None"
  by force

lemma merged_joined:
  assumes "json_ok H a" "is_object a" and "json_ok H b" "is_object b" and "json_ok H c" "is_object c"
    and "joined merged (obj_map a) (obj_map b) (obj_map c)"
  shows "merged (meaning a) (meaning b) (meaning c)"
proof -
  from obj_map_meaning [OF assms(1,2)] obj_map_meaning [OF assms(3,4)] obj_map_meaning [OF assms(5,6)]
  obtain f g h where m: "meaning a = MObject f" "meaning b = MObject g" "meaning c = MObject h"
    and mem: "\<And>k v. (k, v) |\<in>| f \<longleftrightarrow> obj_map a k = Some v" "\<And>k v. (k, v) |\<in>| g \<longleftrightarrow> obj_map b k = Some v"
      "\<And>k v. (k, v) |\<in>| h \<longleftrightarrow> obj_map c k = Some v" by metis
  have join: "case (obj_map a k, obj_map b k) of
     (Some x, Some y) \<Rightarrow> (\<exists>v. obj_map c k = Some v \<and> merged x y v) | (Some x, None) \<Rightarrow> obj_map c k = Some x
     | (None, r) \<Rightarrow> obj_map c k = r" for k using assms(7) by (simp add: joined_def)
  show ?thesis
    unfolding m
  proof (rule merged.objects)
    show "fst |`| h = fst |`| f |\<union>| fst |`| g"
    proof (rule fset_eqI)
      fix k show "k |\<in>| fst |`| h \<longleftrightarrow> k |\<in>| fst |`| f |\<union>| fst |`| g"
        using join [of k] keys_dom [OF mem(1), of k] keys_dom [OF mem(2), of k] keys_dom [OF mem(3), of k]
        by (auto split: option.splits)
    qed
    fix k v assume "(k, v) |\<in>| h"
    then show "(k, v) |\<in>| f \<and> k |\<notin>| fst |`| g \<or> (k, v) |\<in>| g \<and> k |\<notin>| fst |`| f \<or>
      (\<exists>x y. (k, x) |\<in>| f \<and> (k, y) |\<in>| g \<and> merged x y v)"
      unfolding keys_dom [OF mem(1)] keys_dom [OF mem(2)] unfolding mem
      using join [of k] by (auto split: option.splits)
  qed
qed

section \<open>Correctness\<close>

lemma foldM_map: "foldM f (map g xs) s = foldM (\<lambda>x. f (g x)) xs s"
  by (induction xs arbitrary: s) (auto intro!: Option.bind_cong)

lemma map_filter_if: "List.map_filter (\<lambda>x. if p x then Some x else None) xs = filter p xs"
  by (induction xs) auto

lemma map_of_filter_keys:
  "map_of (map (map_prod m m) (filter (\<lambda>e. q (m (fst e))) es)) \<kappa> = (if q \<kappa> then map_of (map (map_prod m m) es) \<kappa> else None)"
  by (induction es) auto

text \<open>The loop over the entries that are only in the other object.\<close>

lemma others_loop:
  assumes "json_ok H other"
    and "\<And>k v. (k, v) \<in> set (entries other) \<Longrightarrow>
      enters (hash H) meaning {v. json_ok H v} (if q (meaning k) then Some (k, v) else None) (step (k, v))"
  shows "\<exists>t. foldM step (entries other) (new_table n) = Some t \<and> json_ok H (JObject2 t) \<and>
    obj_abs meaning t = (\<lambda>\<kappa>. if q \<kappa> then obj_map other \<kappa> else None)"
proof -
  let ?act = "\<lambda>e. if q (meaning (fst e)) then Some e else None"
  have "\<exists>t. foldM step (entries other) (new_table n) = Some t \<and> obj_inv (hash H) meaning {v. json_ok H v} t \<and>
    obj_abs meaning t = obj_abs meaning (new_table n) ++ map_of (map (map_prod meaning meaning) (List.map_filter ?act (entries other)))"
  proof (rule jv.enters_loop)
    show "distinct (map (meaning \<circ> fst) (List.map_filter ?act (entries other)))"
      unfolding map_filter_if using entries_wf(1) [OF assms(1)] by (simp add: distinct_map_filter o_def)
    show "enters (hash H) meaning {v. json_ok H v} (?act e) (step e)" if "e \<in> set (entries other)" for e
      using assms(2) [of "fst e" "snd e"] that by (simp split: if_splits)
  qed simp_all
  then show ?thesis
    unfolding map_filter_if json_ok_object2 obj_map_def by (simp add: fun_eq_iff map_of_filter_keys)
qed

text \<open>The loop over the entries of this object, given the result of the other loop.\<close>

lemma own_loop:
  assumes "json_ok H a" and "json_ok H (JObject2 r)" and "obj_abs meaning r = (\<lambda>\<kappa>. if obj_map a \<kappa> = None then B \<kappa> else None)"
    and "\<And>k v. (k, v) \<in> set (entries a) \<Longrightarrow> \<exists>c. enters (hash H) meaning {v. json_ok H v} (Some (k, c)) (step (k, v)) \<and>
      (case B (meaning k) of None \<Rightarrow> meaning c = meaning v | Some y \<Rightarrow> P (meaning v) y (meaning c))"
  shows "\<exists>t. foldM step (entries a) r = Some t \<and> json_ok H (JObject2 t) \<and> joined P (obj_map a) B (obj_abs meaning t)"
proof -
  have "\<forall>e \<in> set (entries a). \<exists>c. enters (hash H) meaning {v. json_ok H v} (Some (fst e, c)) (step e) \<and>
      (case B (meaning (fst e)) of None \<Rightarrow> meaning c = meaning (snd e) | Some y \<Rightarrow> P (meaning (snd e)) y (meaning c))"
  proof
    fix e assume "e \<in> set (entries a)"
    then show "\<exists>c. enters (hash H) meaning {v. json_ok H v} (Some (fst e, c)) (step e) \<and>
      (case B (meaning (fst e)) of None \<Rightarrow> meaning c = meaning (snd e) | Some y \<Rightarrow> P (meaning (snd e)) y (meaning c))"
      using assms(4) [of "fst e" "snd e"] by simp
  qed
  then obtain c where c: "\<And>e. e \<in> set (entries a) \<Longrightarrow> enters (hash H) meaning {v. json_ok H v} (Some (fst e, c e)) (step e)"
    "\<And>e. e \<in> set (entries a) \<Longrightarrow>
      (case B (meaning (fst e)) of None \<Rightarrow> meaning (c e) = meaning (snd e) | Some y \<Rightarrow> P (meaning (snd e)) y (meaning (c e)))"
    by (metis bchoice)
  let ?es = "map (\<lambda>e. (fst e, c e)) (entries a)"
  have all: "List.map_filter (\<lambda>e. Some (fst e, c e)) xs = map (\<lambda>e. (fst e, c e)) xs" for xs
    by (induction xs) auto
  have dist: "distinct (map (\<lambda>e. meaning (fst e)) (entries a))" using assms(1) by (rule entries_wf)
  have "\<exists>t. foldM step (entries a) r = Some t \<and> obj_inv (hash H) meaning {v. json_ok H v} t \<and>
    obj_abs meaning t = obj_abs meaning r ++ map_of (map (map_prod meaning meaning) (List.map_filter (\<lambda>e. Some (fst e, c e)) (entries a)))"
  proof (rule jv.enters_loop)
    show "obj_inv (hash H) meaning {v. json_ok H v} r" using assms(2) unfolding json_ok_object2 .
    fix e k v assume "e \<in> set (entries a)" "Some (fst e, c e) = Some (k, v)"
    then have "obj_map a (meaning k) = Some (meaning (snd e))"
      unfolding obj_map_Some [OF assms(1)] by (intro exI [of _ "fst e"] exI [of _ "snd e"]) auto
    then show "obj_abs meaning r (meaning k) = None" using assms(3) by simp
  qed (use c(1) dist in \<open>simp_all add: all o_def\<close>)
  then obtain t where t: "foldM step (entries a) r = Some t" "json_ok H (JObject2 t)"
    "obj_abs meaning t = obj_abs meaning r ++ map_of (map (map_prod meaning meaning) ?es)"
    unfolding all json_ok_object2 by blast
  have own: "map_of (map (map_prod meaning meaning) ?es) \<kappa> = Some x \<longleftrightarrow> (\<exists>e \<in> set (entries a). meaning (fst e) = \<kappa> \<and> meaning (c e) = x)" for \<kappa> x
    using dist by (subst map_of_eq_Some_iff) (auto simp: o_def)
  have none: "map_of (map (map_prod meaning meaning) ?es) \<kappa> = None \<longleftrightarrow> obj_map a \<kappa> = None" for \<kappa>
    by (simp add: obj_map_def map_of_eq_None_iff image_image)
  have "joined P (obj_map a) B (obj_abs meaning t)"
    unfolding joined_def
  proof
    fix \<kappa>
    show "case (obj_map a \<kappa>, B \<kappa>) of (Some x, Some y) \<Rightarrow> \<exists>v. obj_abs meaning t \<kappa> = Some v \<and> P x y v
        | (Some x, None) \<Rightarrow> obj_abs meaning t \<kappa> = Some x | (None, r) \<Rightarrow> obj_abs meaning t \<kappa> = r"
    proof (cases "obj_map a \<kappa>")
      case None
      then show ?thesis using none [of \<kappa>] by (simp add: t(3) assms(3) map_add_def)
    next
      case (Some x)
      then obtain e where e: "e \<in> set (entries a)" "meaning (fst e) = \<kappa>" "meaning (snd e) = x"
        using obj_map_Some [OF assms(1)] by force
      then have "obj_abs meaning t \<kappa> = Some (meaning (c e))" using own [of \<kappa> "meaning (c e)"] by (auto simp: t(3))
      then show ?thesis using c(2) [OF e(1)] e Some by (auto split: option.splits)
    qed
  qed
  with t show ?thesis by blast
qed

lemma getValue_spec:
  assumes "json_ok H other"
  shows "\<exists>r. getValue H other key = Some r \<and> map_option meaning r = obj_map other (MString key) \<and>
    (\<forall>w. r = Some w \<longrightarrow> (\<exists>k. (k, w) \<in> set (entries other)))"
proof (cases other)
  case (JObject kvs)
  then have "getValue H other key = Some (map_of kvs key)"
    using assms by (simp add: getValue_def Object_valueImpl_eq)
  then show ?thesis using getValue_mem [of H other key] by (auto simp: JObject)
next
  case (JObject2 t)
  then obtain r where r: "getValue H other key = Some r" "map_option meaning r = obj_map other (MString key)"
    using jv.Object2_Get_spec [of H t "JString key"] assms unfolding JObject2 json_ok_object2 by (auto simp: getValue_def)
  then show ?thesis using getValue_mem [of H other key] by auto
qed (simp_all add: getValue_def obj_map_def entries_def)

text \<open>Whether a name is missing, as the loops test it.\<close>

lemma Object_missing:
  assumes "json_ok H (JObject kvs)"
  shows "Object_valueImpl kvs s = None \<longleftrightarrow> obj_map (JObject kvs) (MString s) = None"
  using assms by (simp add: Object_valueImpl_eq)

lemma Union_others_spec:
  assumes "json_ok H (JObject kvs)" and "json_ok H other" and "is_object other"
    and "\<forall>e \<in> set (entries other). \<exists>s. fst e = JString s"
  shows "\<exists>t. Union_others H kvs other (NewObject2 n) = Some t \<and> json_ok H (JObject2 t) \<and>
    obj_abs meaning t = (\<lambda>\<kappa>. if obj_map (JObject kvs) \<kappa> = None then obj_map other \<kappa> else None)"
proof -
  let ?step = "\<lambda>(k, v) r. if obj_map (JObject kvs) (meaning k) = None then Object2_Insert (equalOp H) (hash H) k v r else Some r"
  have "Union_others H kvs other (NewObject2 n) = foldM ?step (entries other) (NewObject2 n)"
    using assms(3)
  proof (cases rule: is_object_cases)
    fix kvs' assume other: "other = JObject kvs'"
    have "Object_valueImpl kvs' s = Some v" if "(s, v) \<in> set kvs'" for s v
      using assms(2) that by (simp add: other Object_valueImpl_eq sorted_names_distinct)
    then show ?thesis
      by (auto simp: other Union_others_def foldM_map Object_missing [OF assms(1)] case_prod_unfold simp del: obj_map_JObject intro!: foldM_cong)
  next
    fix t assume other: "other = JObject2 t"
    then show ?thesis using assms(4)
      by (fastforce simp: Union_others_def Object_missing [OF assms(1)] simp del: obj_map_JObject intro!: foldM_cong)
  qed
  moreover have "enters (hash H) meaning {v. json_ok H v} (if obj_map (JObject kvs) (meaning k) = None then Some (k, v) else None) (?step (k, v))"
    if "(k, v) \<in> set (entries other)" for k v
  proof (cases "obj_map (JObject kvs) (meaning k)")
    case None
    then show ?thesis using entries_wf(2) [OF assms(2) that] by (simp add: jv.enters_Insert)
  next
    case (Some x)
    then show ?thesis using jv.enters_skip by simp
  qed
  ultimately show ?thesis
    using others_loop [OF assms(2), of "\<lambda>\<kappa>. obj_map (JObject kvs) \<kappa> = None" ?step n] by (simp add: NewObject2_def)
qed

lemma Object_Union_spec:
  assumes "json_ok H (JObject kvs)" and "json_ok H other" and "is_object other"
    and "\<forall>e \<in> set (entries other). \<exists>s. fst e = JString s"
    and un: "\<And>s v k w. (s, v) \<in> set kvs \<Longrightarrow> (k, w) \<in> set (entries other) \<Longrightarrow>
      \<exists>c. un v w = Some c \<and> json_ok H c \<and> P (meaning v) (meaning w) (meaning c)"
  shows "\<exists>t. Object_Union H un kvs other = Some (JObject2 t) \<and> json_ok H (JObject2 t) \<and>
    joined P (obj_map (JObject kvs)) (obj_map other) (obj_abs meaning t)"
proof -
  from Union_others_spec [OF assms(1-4)] obtain r where r: "Union_others H kvs other (NewObject2 (length kvs)) = Some r" "json_ok H (JObject2 r)"
    "obj_abs meaning r = (\<lambda>\<kappa>. if obj_map (JObject kvs) \<kappa> = None then obj_map other \<kappa> else None)" by blast
  let ?step = "\<lambda>key result. do { v \<leftarrow> Object_valueImpl kvs key; v2 \<leftarrow> getValue H other key;
    m \<leftarrow> (case v2 of None \<Rightarrow> Some v | Some v2 \<Rightarrow> un v v2); Object2_Insert (equalOp H) (hash H) (JString key) m result }"
  let ?estep = "\<lambda>e. ?step (case fst e of JString s \<Rightarrow> s | _ \<Rightarrow> [])"
  have "\<exists>t. foldM ?estep (entries (JObject kvs)) r = Some t \<and> json_ok H (JObject2 t) \<and> joined P (obj_map (JObject kvs)) (obj_map other) (obj_abs meaning t)"
  proof (rule own_loop [OF assms(1) r(2,3)])
    fix k v assume "(k, v) \<in> set (entries (JObject kvs))"
    then obtain s where s: "k = JString s" "(s, v) \<in> set kvs" by auto
    then have v: "Object_valueImpl kvs s = Some v" "json_ok H v"
      using assms(1) by (auto simp: Object_valueImpl_eq sorted_names_distinct list_all_iff)
    obtain v2 where v2: "getValue H other s = Some v2" "map_option meaning v2 = obj_map other (MString s)"
      "\<And>w. v2 = Some w \<Longrightarrow> \<exists>k. (k, w) \<in> set (entries other)" using getValue_spec [OF assms(2)] by blast
    obtain c where c: "(case v2 of None \<Rightarrow> Some v | Some v2 \<Rightarrow> un v v2) = Some c" "json_ok H c"
      "case v2 of None \<Rightarrow> c = v | Some w \<Rightarrow> P (meaning v) (meaning w) (meaning c)"
    proof (cases v2)
      case None
      then show ?thesis using that v(2) by simp
    next
      case (Some w)
      then obtain k' where "(k', w) \<in> set (entries other)" using v2(3) by blast
      from un [OF s(2) this] show ?thesis using that Some by auto
    qed
    have "enters (hash H) meaning {v. json_ok H v} (Some (JString s, c)) (?step s)"
      by (rule jv.enters_Insert) (simp_all add: v v2 c)
    moreover have "case obj_map other (MString s) of None \<Rightarrow> meaning c = meaning v | Some y \<Rightarrow> P (meaning v) y (meaning c)"
      using v2(2) [symmetric] c(3) by (cases v2) simp_all
    ultimately show "\<exists>c. enters (hash H) meaning {v. json_ok H v} (Some (k, c)) (?estep (k, v)) \<and>
        (case obj_map other (meaning k) of None \<Rightarrow> meaning c = meaning v | Some y \<Rightarrow> P (meaning v) y (meaning c))"
      by (auto simp: s)
  qed
  moreover have "foldM ?step (map fst kvs) r = foldM ?estep (entries (JObject kvs)) r"
    by (simp add: foldM_map case_prod_unfold)
  ultimately show ?thesis by (auto simp: Object_Union_def assms(3) r(1))
qed

lemma object_get_ok:
  assumes "json_ok H (JObject2 t)" and "json_ok H k"
  shows "\<exists>r. object_get (equalOp H) (hash H k) k t = Some r \<and> map_option meaning r = obj_abs meaning t (meaning k)"
  using jv.object_get_spec [of H t k] assms unfolding json_ok_object2 by auto

lemma hashed_entries:
  assumes "json_ok H (JObject2 t)"
  shows "table_hashed t = map (\<lambda>e. (hash H (fst e), e)) (table_elems t)"
  by (rule table_hashed_ok) (use assms in simp)

text \<open>\<open>Diff\<close> keeps the entries whose key the other object does not have.\<close>

lemma Object2_Diff_spec:
  assumes "json_ok H (JObject2 t)" and "json_ok H (JObject2 other)"
  shows "\<exists>t'. Object2_Diff (equalOp H) t other = Some t' \<and> json_ok H (JObject2 t') \<and>
    obj_abs meaning t' = (\<lambda>\<kappa>. if obj_abs meaning other \<kappa> = None then obj_abs meaning t \<kappa> else None)"
proof -
  let ?step = "\<lambda>(h, k, v) result. do { r \<leftarrow> object_get (equalOp H) h k other; if r = None then object_add h k v result else Some result }"
  have "\<exists>t'. foldM (\<lambda>e. ?step (hash H (fst e), e)) (entries (JObject2 t)) (new_table (max (table_len t) (table_len other))) = Some t' \<and>
    json_ok H (JObject2 t') \<and> obj_abs meaning t' = (\<lambda>\<kappa>. if obj_abs meaning other \<kappa> = None then obj_map (JObject2 t) \<kappa> else None)"
  proof (rule others_loop [OF assms(1)])
    fix k v assume kv: "(k, v) \<in> set (entries (JObject2 t))"
    then have ok: "json_ok H k" "json_ok H v" using entries_wf(2) [OF assms(1)] by blast+
    obtain r where r: "object_get (equalOp H) (hash H k) k other = Some r" "map_option meaning r = obj_abs meaning other (meaning k)"
      using object_get_ok [OF assms(2) ok(1)] by blast
    show "enters (hash H) meaning {v. json_ok H v} (if obj_abs meaning other (meaning k) = None then Some (k, v) else None)
        (?step (hash H (fst (k, v)), k, v))"
    proof (cases r)
      case None
      then show ?thesis using r ok by (simp add: jv.enters_add)
    next
      case (Some w)
      then show ?thesis using r by (auto simp: jv.enters_skip)
    qed
  qed
  then show ?thesis unfolding obj_map_JObject2 by (simp add: Object2_Diff_def NewObject2_def hashed_entries [OF assms(1)] foldM_map case_prod_unfold)
qed

lemma Object2_Union_spec:
  assumes "json_ok H (JObject2 t)" and "json_ok H (JObject2 other)"
    and un: "\<And>k v k' w. (k, v) \<in> set (table_elems t) \<Longrightarrow> (k', w) \<in> set (table_elems other) \<Longrightarrow>
      \<exists>c. un v w = Some c \<and> json_ok H c \<and> P (meaning v) (meaning w) (meaning c)"
  shows "\<exists>t'. Object2_Union H un t other = Some t' \<and> json_ok H (JObject2 t') \<and>
    joined P (obj_abs meaning t) (obj_abs meaning other) (obj_abs meaning t')"
proof -
  let ?step = "\<lambda>(h, key, v) result. do { v2 \<leftarrow> object_get (equalOp H) h key other;
    case v2 of None \<Rightarrow> object_add h key v result | Some v2 \<Rightarrow> do { m \<leftarrow> un v v2; object_insert (equalOp H) h key m result } }"
  from Object2_Diff_spec [OF assms(2,1)] obtain r where r: "Object2_Diff (equalOp H) other t = Some r" "json_ok H (JObject2 r)"
    "obj_abs meaning r = (\<lambda>\<kappa>. if obj_map (JObject2 t) \<kappa> = None then obj_abs meaning other \<kappa> else None)" by auto
  have "\<exists>t'. foldM (\<lambda>e. ?step (hash H (fst e), e)) (entries (JObject2 t)) r = Some t' \<and> json_ok H (JObject2 t') \<and>
    joined P (obj_map (JObject2 t)) (obj_abs meaning other) (obj_abs meaning t')"
  proof (rule own_loop [OF assms(1) r(2,3)])
    fix k v assume kv: "(k, v) \<in> set (entries (JObject2 t))"
    then have ok: "json_ok H k" "json_ok H v" using entries_wf(2) [OF assms(1)] by blast+
    obtain v2 where v2: "object_get (equalOp H) (hash H k) k other = Some v2" "map_option meaning v2 = obj_abs meaning other (meaning k)"
      using object_get_ok [OF assms(2) ok(1)] by blast
    show "\<exists>c. enters (hash H) meaning {v. json_ok H v} (Some (k, c)) (?step (hash H (fst (k, v)), k, v)) \<and>
        (case obj_abs meaning other (meaning k) of None \<Rightarrow> meaning c = meaning v | Some y \<Rightarrow> P (meaning v) y (meaning c))"
    proof (cases v2)
      case None
      have "enters (hash H) meaning {v. json_ok H v} (Some (k, v)) (?step (hash H (fst (k, v)), k, v))"
        by (rule jv.enters_add) (simp_all add: v2 None ok)
      then show ?thesis using v2(2) [symmetric] None by auto
    next
      case (Some w)
      then obtain k' where "(k', w) \<in> set (table_elems other)" using v2(1) object_get_mem [of _ _ _ other w] by blast
      with un [of k v k' w] kv obtain c where c: "un v w = Some c" "json_ok H c" "P (meaning v) (meaning w) (meaning c)" by auto
      have "enters (hash H) meaning {v. json_ok H v} (Some (k, c)) (?step (hash H (fst (k, v)), k, v))"
        by (rule jv.enters_Insert) (simp_all add: v2 Some ok c Object2_Insert_def)
      then show ?thesis using v2(2) [symmetric] Some c(3) by auto
    qed
  qed
  then show ?thesis by (simp add: Object2_Union_def r(1) hashed_entries [OF assms(1)] foldM_map)
qed

text \<open>Objects whose keys are strings, down to the values under them.\<close>

fun string_keys :: "json \<Rightarrow> bool" where
  "string_keys (JObject kvs) = list_all (\<lambda>(_, v). string_keys v) kvs"
| "string_keys (JObject2 t) = list_all (\<lambda>(k, v). (case k of JString _ \<Rightarrow> True | _ \<Rightarrow> False) \<and> string_keys v) (table_elems t)"
| "string_keys _ = True"

text \<open>No object of a document, down to the values under them.\<close>

fun no_documents :: "json \<Rightarrow> bool" where
  "no_documents (JObject kvs) = False"
| "no_documents (JObject2 t) = list_all (\<lambda>(_, v). no_documents v) (table_elems t)"
| "no_documents _ = True"

lemma string_keys_entries:
  assumes "string_keys j"
  shows "\<forall>e \<in> set (entries j). \<exists>s. fst e = JString s" and "(k, v) \<in> set (entries j) \<Longrightarrow> string_keys v"
  using assms by (cases j; auto simp: entries_def list_all_iff split: json.splits)+

lemma UnionObjects_merged:
  assumes "json_ok H a" and "json_ok H b" and "plain a \<and> string_keys b \<or> no_documents a \<and> no_documents b"
  shows "\<exists>c. UnionObjects H a b = Some c \<and> json_ok H c \<and> merged (meaning a) (meaning b) (meaning c)"
  using assms
proof (induction "size a + size b" arbitrary: a b rule: less_induct)
  case less
  show ?case
  proof (cases "is_object a \<and> is_object b")
    case False
    then have "UnionObjects H a b = Some b"
      by (auto simp: UnionObjects.simps [of H a b] Object_Union_def is_object_def split: json.splits)
    moreover have "merged (meaning a) (meaning b) (meaning b)"
      using False by (intro merged.right) (cases a; cases b; simp add: is_object_def)
    ultimately show ?thesis using less.prems(2) by blast
  next
    case True
    have IH: "\<exists>c. UnionObjects H v w = Some c \<and> json_ok H c \<and> merged (meaning v) (meaning w) (meaning c)"
      if "(k, v) \<in> set (entries a)" "(k', w) \<in> set (entries b)" "plain v \<and> string_keys w \<or> no_documents v \<and> no_documents w" for k v k' w
      using entries_less [OF that(1)] entries_less [OF that(2)] entries_wf(2) [OF less.prems(1) that(1)]
        entries_wf(2) [OF less.prems(2) that(2)] that(3) by (intro less.hyps) auto
    have "\<exists>t. UnionObjects H a b = Some (JObject2 t) \<and> json_ok H (JObject2 t) \<and> joined merged (obj_map a) (obj_map b) (obj_abs meaning t)"
    proof (cases a)
      case (JObject kvs)
      then have plain: "plain a" and keys: "string_keys b" using less.prems(3) by auto
      have "\<exists>t. Object_Union H (UnionObjects H) kvs b = Some (JObject2 t) \<and> json_ok H (JObject2 t) \<and>
        joined merged (obj_map (JObject kvs)) (obj_map b) (obj_abs meaning t)"
      proof (rule Object_Union_spec)
        fix s v k w assume sv: "(s, v) \<in> set kvs" and kw: "(k, w) \<in> set (entries b)"
        have "plain v" "string_keys w"
          using plain sv string_keys_entries(2) [OF keys kw] by (auto simp: JObject list_all_iff)
        then show "\<exists>c. UnionObjects H v w = Some c \<and> json_ok H c \<and> merged (meaning v) (meaning w) (meaning c)"
          using IH [of "JString s" v k w] sv kw by (force simp: JObject)
      qed (use less.prems(1,2) True JObject string_keys_entries(1) [OF keys] in simp_all)
      then show ?thesis by (simp add: JObject UnionObjects.simps [of H "JObject kvs"])
    next
      case (JObject2 t)
      then have docs: "no_documents a" "no_documents b" using less.prems(3) by auto
      then obtain u where u: "b = JObject2 u" using True by (auto elim!: is_object_cases)
      have "\<exists>t'. Object2_Union H (UnionObjects H) t u = Some t' \<and> json_ok H (JObject2 t') \<and>
        joined merged (obj_abs meaning t) (obj_abs meaning u) (obj_abs meaning t')"
      proof (rule Object2_Union_spec)
        fix k v k' w assume "(k, v) \<in> set (table_elems t)" "(k', w) \<in> set (table_elems u)"
        then show "\<exists>c. UnionObjects H v w = Some c \<and> json_ok H c \<and> merged (meaning v) (meaning w) (meaning c)"
          using docs by (intro IH) (auto simp: JObject2 u list_all_iff)
      qed (use less.prems(1,2) JObject2 u in simp_all)
      then show ?thesis by (auto simp: JObject2 u UnionObjects.simps [of H "JObject2 t"])
    qed (use True in \<open>simp_all add: is_object_def\<close>)
    then obtain t where t: "UnionObjects H a b = Some (JObject2 t)" "json_ok H (JObject2 t)"
      "joined merged (obj_map a) (obj_map b) (obj_map (JObject2 t))" by auto
    from merged_joined [OF less.prems(1) _ less.prems(2) _ t(2) _ t(3)] True show ?thesis using t(1,2) by auto
  qed
qed

section \<open>Properties\<close>

text \<open>C23. \<open>UnionObjects\<close> returns the deep union in which the right operand wins, for documents on the left and
  values whose objects have string keys only on the right, and for objects built during evaluation on both sides.\<close>

theorem UnionObjects_correct:
  assumes "json_ok H a" and "json_ok H b" and "plain a \<and> string_keys b \<or> no_documents a \<and> no_documents b"
  shows "\<exists>c. UnionObjects H a b = Some c \<and> json_ok H c \<and> merged (meaning a) (meaning b) (meaning c)"
  using assms by (rule UnionObjects_merged)

theorem UnionObjects_correct_witness:
  "\<exists>c. UnionObjects (\<lambda>_. 0) (JObject [([97], JNull), ([98], JObject [([99], JNull)])])
      (JObject2 (tableCompact 2 [(0, JString [97], JBool True), (0, JString [98], JObject [([100], JNull)])])) = Some c \<and>
    merged (meaning (JObject [([97], JNull), ([98], JObject [([99], JNull)])]))
      (meaning (JObject2 (tableCompact 2 [(0, JString [97], JBool True), (0, JString [98], JObject [([100], JNull)])]))) (meaning c)"
proof -
  let ?a = "JObject [([97], JNull), ([98], JObject [([99], JNull)])]"
  let ?b = "JObject2 (tableCompact 2 [(0, JString [97], JBool True), (0, JString [98], JObject [([100], JNull)])])"
  have "json_ok (\<lambda>_. 0) ?a" "json_ok (\<lambda>_. 0) ?b" "plain ?a \<and> string_keys ?b \<or> no_documents ?a \<and> no_documents ?b"
    by code_simp+
  from UnionObjects_correct [OF this] show ?thesis by blast
qed

text \<open>When the left operand was built during evaluation and the right one comes from a document, the union is
  computed the other way round: the left value wins, although the same right object built during evaluation
  would win.\<close>

theorem UnionObjects_left_wins:
  assumes "\<not> is_object x" and "\<not> is_object y"
  shows "UnionObjects H (JObject2 (tableCompact 2 [(hash H (JString s), JString s, x)])) (JObject [(s, y)]) =
      Some (JObject2 (tableCompact 2 [(hash H (JString s), JString s, x)])) \<and>
    UnionObjects H (JObject2 (tableCompact 2 [(hash H (JString s), JString s, x)]))
        (JObject2 (tableCompact 2 [(hash H (JString s), JString s, y)])) =
      Some (JObject2 (tableCompact 2 [(hash H (JString s), JString s, y)]))"
proof -
  have leaf: "UnionObjects H u v = Some v" if "\<not> is_object u" for u v
    using that by (simp add: UnionObjects.simps [of H u] is_object_def split: json.splits)
  have hashed: "table_hashed (tableCompact n es) = es" "table_elems (tableCompact n es) = map snd es" for n es
    by (simp_all add: table_hashed_def table_elems_def)
  show ?thesis
    unfolding UnionObjects.simps [of H "JObject2 _"]
    by (simp add: leaf assms hashed Object_Union_def Union_others_def Object_valueImpl_eq getValue_def Object2_Get_def object_get_def
        table_get_def hash_test_def Object2_Insert_def object_insert_def table_full_def NewObject2_def new_table_def object_put_def
        table_put_def table_add_def Object2_Union_def Object2_Diff_def table_len_def)
qed

theorem UnionObjects_left_wins_witness:
  "UnionObjects (\<lambda>_. 0) (JObject2 (tableCompact 2 [(hash (\<lambda>_. 0) (JString [97]), JString [97], JNull)])) (JObject [([97], JBool True)]) =
    Some (JObject2 (tableCompact 2 [(hash (\<lambda>_. 0) (JString [97]), JString [97], JNull)]))"
  by (rule conjunct1 [OF UnionObjects_left_wins]) (simp_all add: is_object_def)

text \<open>The union of a document with an object that has a key other than a string panics.\<close>

theorem UnionObjects_panics:
  assumes "\<nexists>s. k = JString s"
  shows "UnionObjects H (JObject kvs) (JObject2 (tableCompact 2 [(hash H k, k, v)])) = None"
  using assms
  by (cases k) (simp_all add: UnionObjects.simps [of H "JObject kvs"] Object_Union_def Union_others_def table_elems_def)

theorem UnionObjects_panics_witness:
  "UnionObjects (\<lambda>_. 0) (JObject []) (JObject2 (tableCompact 2 [(hash (\<lambda>_. 0) (JBool True), JBool True, JNull)])) = None"
  by (rule UnionObjects_panics) simp

end
