(* ===== verification/Data_Ops.thy ===== *)
theory Data_Ops
  imports Json_Union
begin

text \<open>
  The operations on values that the statements use (src/pkg/vm/data.go), on the JSON values of \<open>Json\<close>.  A value
  is a JSON value or an \<open>IterableObject\<close>, an object outside of memory that is read through \<open>Get\<close> and \<open>Iter\<close>.
  Registers hold \<open>None\<close> for the undefined value.

  Sets, arrays and objects that are changed in place are values here: the operation returns the changed value.
  The compiler only changes collections it has just made.  The flag of \<open>ArrayAppend\<close> and \<open>ObjectInsert\<close> tells the
  caller to store the result in the register; the source leaves it out when it changed the object of the register
  in place, and a changed value is always stored here.
\<close>

datatype data_error = ErrInvalidData | ErrIter gostring

text \<open>An iterable object is what its two methods return: the entries in the order of the iteration, with the error
  that ends it, and the value of a key.\<close>

datatype data_value =
    VJson json
  | VIterable "json \<Rightarrow> data_error + data_value option" "(data_value \<times> data_value) list" "data_error option"

text \<open>\<open>Some (Inr x)\<close> is the result, \<open>Some (Inl e)\<close> an error, \<open>None\<close> a panic.\<close>

definition ebind :: "('e + 'a) option \<Rightarrow> ('a \<Rightarrow> ('e + 'b) option) \<Rightarrow> ('e + 'b) option" where
  "ebind m f = (case m of None \<Rightarrow> None | Some (Inl e) \<Rightarrow> Some (Inl e) | Some (Inr x) \<Rightarrow> f x)"

definition ereturn :: "'a \<Rightarrow> ('e + 'a) option" where
  "ereturn x = Some (Inr x)"

definition elift :: "'a option \<Rightarrow> ('e + 'a) option" where
  "elift m = map_option Inr m"

lemma ebind_simps [simp]:
  "ebind None f = None" "ebind (Some (Inl e)) f = Some (Inl e)" "ebind (Some (Inr x)) f = f x" "ebind (ereturn x) f = f x"
  "ebind (elift m) f = Option.bind m f"
  by (simp_all add: ebind_def ereturn_def elift_def split: option.split)

lemma ebind_cong [fundef_cong]:
  "m = m' \<Longrightarrow> (\<And>x. m' = Some (Inr x) \<Longrightarrow> f x = g x) \<Longrightarrow> ebind m f = ebind m' g"
  by (auto simp: ebind_def split: option.split sum.split)

fun efold :: "('x \<Rightarrow> 's \<Rightarrow> ('e + 's) option) \<Rightarrow> 'x list \<Rightarrow> 's \<Rightarrow> ('e + 's) option" where
  "efold f [] s = ereturn s"
| "efold f (x # xs) s = ebind (f x s) (efold f xs)"

lemma efold_cong [fundef_cong]:
  "xs = ys \<Longrightarrow> s = s' \<Longrightarrow> (\<And>x s. x \<in> set ys \<Longrightarrow> f x s = g x s) \<Longrightarrow> efold f xs s = efold g ys s'"
  by (induction ys arbitrary: xs s s') (auto intro!: ebind_cong)

text \<open>The error with which an iteration ends.\<close>

definition end_iter :: "data_error option \<Rightarrow> 'a \<Rightarrow> (data_error + 'a) option" where
  "end_iter e x = (case e of Some e \<Rightarrow> Some (Inl e) | None \<Rightarrow> ereturn x)"

section \<open>Conversion to JSON\<close>

definition Insert :: "(bytes \<Rightarrow> u64) \<Rightarrow> json \<Rightarrow> json \<Rightarrow> (json \<times> json) table \<Rightarrow> (json \<times> json) table option" where
  "Insert H k v t = Object2_Insert (equalOp H) (hash H) k v t"

fun castJSON :: "(bytes \<Rightarrow> u64) \<Rightarrow> data_value \<Rightarrow> (data_error + json) option" where
  "castJSON H (VJson j) = ereturn j"
| "castJSON H (VIterable get kvs err) =
     ebind (efold (\<lambda>(k, v) obj.
         ebind (castJSON H k) (\<lambda>jk.
         ebind (castJSON H v) (\<lambda>jv.
           elift (Insert H jk jv obj)))) kvs (NewObject2 0))
       (\<lambda>obj. end_iter err (JObject2 obj))"

definition cast :: "(bytes \<Rightarrow> u64) \<Rightarrow> data_value option \<Rightarrow> (data_error + json) option" where
  "cast H v = (case v of None \<Rightarrow> Some (Inl ErrInvalidData) | Some v \<Rightarrow> castJSON H v)"

section \<open>Making values\<close>

text \<open>\<open>strconv.FormatInt(i, 10)\<close>.\<close>

fun digits_of :: "nat \<Rightarrow> bytes" where
  "digits_of n = (if n < 10 then [48 + word_of_nat n] else digits_of (n div 10) @ [48 + word_of_nat (n mod 10)])"

declare digits_of.simps [simp del]

definition FormatInt :: "int \<Rightarrow> gostring" where
  "FormatInt i = (if i < 0 then 45 # digits_of (nat (- i)) else digits_of (nat i))"

definition MakeNumberInt :: "int \<Rightarrow> json" where
  "MakeNumberInt i = JFloat (FormatInt i)"

definition MakeNumberZero :: json where
  "MakeNumberZero = JFloat (FormatInt 0)"

definition MakeBoolean :: "bool \<Rightarrow> json" where
  "MakeBoolean v = JBool v"

definition MakeNull :: json where
  "MakeNull = JNull"

definition MakeArray :: "int \<Rightarrow> json" where
  "MakeArray capacity = JArray []"

definition MakeObject :: json where
  "MakeObject = JObject2 (NewObject2 0)"

definition MakeSet :: json where
  "MakeSet = JSet (NewSet 0)"

definition MakeString :: "gostring \<Rightarrow> json" where
  "MakeString v = JString v"

definition MakeNumberRef :: "gostring \<Rightarrow> json" where
  "MakeNumberRef n = JFloat n"

section \<open>Reading\<close>

definition array_at :: "json list \<Rightarrow> json \<Rightarrow> json option" where
  "array_at xs jkey = (case jkey of
     JFloat n \<Rightarrow> (case Number_Int64 n of
         None \<Rightarrow> None
       | Some i \<Rightarrow> if i < 0 \<or> i \<ge> int (length xs) then None else Some (xs ! nat i))
   | _ \<Rightarrow> None)"

definition object_at :: "(gostring \<times> json) list \<Rightarrow> json \<Rightarrow> json option" where
  "object_at kvs jkey = (case jkey of JString s \<Rightarrow> Object_valueImpl kvs s | _ \<Rightarrow> None)"

text \<open>A value of memory as a value of a register.\<close>

definition found :: "json option option \<Rightarrow> (data_error + data_value option) option" where
  "found r = map_option (\<lambda>r. Inr (map_option VJson r)) r"

definition DataOperations_Get :: "(bytes \<Rightarrow> u64) \<Rightarrow> data_value option \<Rightarrow> data_value option \<Rightarrow> (data_error + data_value option) option" where
  "DataOperations_Get H v key = ebind (cast H key) (\<lambda>jkey. case v of
     Some (VJson (JArray xs)) \<Rightarrow> found (Some (array_at xs jkey))
   | Some (VJson (JObject kvs)) \<Rightarrow> found (Some (object_at kvs jkey))
   | Some (VJson (JSet t)) \<Rightarrow> found (Set_Get (equalOp H) (hash H) jkey t)
   | Some (VJson (JObject2 t)) \<Rightarrow> found (Object2_Get (equalOp H) (hash H) jkey t)
   | Some (VIterable get _ _) \<Rightarrow> Some (get jkey)
   | _ \<Rightarrow> ebind (cast H v) (\<lambda>_. ereturn None))"

definition DataOperations_ObjectGet :: "(bytes \<Rightarrow> u64) \<Rightarrow> data_value option \<Rightarrow> data_value option \<Rightarrow> (data_error + data_value option) option" where
  "DataOperations_ObjectGet H obj key = ebind (cast H key) (\<lambda>jkey. case obj of
     Some (VIterable get _ _) \<Rightarrow> Some (get jkey)
   | Some (VJson (JObject2 t)) \<Rightarrow> found (Object2_Get (equalOp H) (hash H) jkey t)
   | Some (VJson (JObject kvs)) \<Rightarrow> found (Some (object_at kvs jkey))
   | _ \<Rightarrow> ereturn None)"

definition DataOperations_Equal :: "(bytes \<Rightarrow> u64) \<Rightarrow> data_value option \<Rightarrow> data_value option \<Rightarrow> (data_error + bool) option" where
  "DataOperations_Equal H a b = ebind (cast H a) (\<lambda>ja. ebind (cast H b) (\<lambda>jb. elift (equalOp H ja jb)))"

definition DataOperations_Iter :: "data_value option \<Rightarrow> (data_value \<times> data_value) list \<times> data_error option" where
  "DataOperations_Iter v = (case v of
     Some (VJson (JArray xs)) \<Rightarrow> (map (\<lambda>(i, x). (VJson (MakeNumberInt (int i)), VJson x)) (zip [0..<length xs] xs), None)
   | Some (VJson (JObject kvs)) \<Rightarrow> (map (\<lambda>(k, x). (VJson (JString k), VJson x)) kvs, None)
   | Some (VJson (JSet t)) \<Rightarrow> (map (\<lambda>x. (VJson x, VJson x)) (table_elems t), None)
   | Some (VJson (JObject2 t)) \<Rightarrow> (map (map_prod VJson VJson) (table_elems t), None)
   | Some (VIterable _ kvs err) \<Rightarrow> (kvs, err)
   | _ \<Rightarrow> ([], None))"

definition DataOperations_IsArray :: "(bytes \<Rightarrow> u64) \<Rightarrow> data_value option \<Rightarrow> (data_error + bool) option" where
  "DataOperations_IsArray H v = (case v of
     Some (VJson (JArray _)) \<Rightarrow> ereturn True
   | Some (VIterable _ _ _) \<Rightarrow> ereturn False
   | _ \<Rightarrow> ebind (cast H v) (\<lambda>_. ereturn False))"

definition DataOperations_IsSet :: "(bytes \<Rightarrow> u64) \<Rightarrow> data_value option \<Rightarrow> (data_error + bool) option" where
  "DataOperations_IsSet H v = (case v of
     Some (VJson (JSet _)) \<Rightarrow> ereturn True
   | _ \<Rightarrow> ebind (cast H v) (\<lambda>_. ereturn False))"

definition DataOperations_IsObject :: "(bytes \<Rightarrow> u64) \<Rightarrow> data_value option \<Rightarrow> (data_error + bool) option" where
  "DataOperations_IsObject H v = (case v of
     Some (VJson (JObject _)) \<Rightarrow> ereturn True
   | Some (VJson (JObject2 _)) \<Rightarrow> ereturn True
   | Some (VIterable _ _ _) \<Rightarrow> ereturn True
   | _ \<Rightarrow> ebind (cast H v) (\<lambda>_. ereturn False))"

definition DataOperations_Len :: "(bytes \<Rightarrow> u64) \<Rightarrow> data_value option \<Rightarrow> (data_error + json) option" where
  "DataOperations_Len H v = (case v of
     Some (VJson (JArray xs)) \<Rightarrow> ereturn (MakeNumberInt (int (length xs)))
   | Some (VJson (JObject kvs)) \<Rightarrow> ereturn (MakeNumberInt (int (length kvs)))
   | Some (VJson (JSet t)) \<Rightarrow> ereturn (MakeNumberInt (int (table_len t)))
   | Some (VJson (JString s)) \<Rightarrow> ereturn (MakeNumberInt (int (length s)))
   | Some (VJson (JObject2 t)) \<Rightarrow> ereturn (MakeNumberInt (int (table_len t)))
   | Some (VIterable _ kvs err) \<Rightarrow> end_iter err (MakeNumberInt (int (length kvs)))
   | _ \<Rightarrow> ebind (cast H v) (\<lambda>_. ereturn MakeNumberZero))"

section \<open>Changing\<close>

text \<open>\<open>setImpl\<close> of \<open>ObjectMap\<close>: the value of a name is replaced, or the name goes where the search ended.\<close>

definition Object_setImpl :: "(gostring \<times> 'v) list \<Rightarrow> gostring \<Rightarrow> 'v \<Rightarrow> (gostring \<times> 'v) list" where
  "Object_setImpl kvs name v = (let (i, ok) = Object_find (map fst kvs) name
     in if ok then kvs[i := (name, v)] else take i kvs @ (name, v) # drop i kvs)"

definition DataOperations_ArrayAppend :: "(bytes \<Rightarrow> u64) \<Rightarrow> data_value option \<Rightarrow> data_value option \<Rightarrow> (data_error + data_value option \<times> bool) option" where
  "DataOperations_ArrayAppend H array v = ebind (cast H v) (\<lambda>jvalue. case array of
     Some (VJson (JArray xs)) \<Rightarrow> ereturn (Some (VJson (JArray (xs @ [jvalue]))), True)
   | _ \<Rightarrow> ebind (cast H array) (\<lambda>_. ereturn (array, False)))"

definition DataOperations_SetAdd :: "(bytes \<Rightarrow> u64) \<Rightarrow> data_value option \<Rightarrow> data_value option \<Rightarrow> (data_error + data_value option) option" where
  "DataOperations_SetAdd H set' v = ebind (cast H v) (\<lambda>jvalue. case set' of
     Some (VJson (JSet t)) \<Rightarrow> found (map_option (\<lambda>t. Some (JSet t)) (Set_Add (equalOp H) (hash H) jvalue t))
   | _ \<Rightarrow> ebind (cast H set') (\<lambda>_. ereturn set'))"

definition DataOperations_ObjectInsert ::
    "(bytes \<Rightarrow> u64) \<Rightarrow> data_value option \<Rightarrow> data_value option \<Rightarrow> data_value option \<Rightarrow> (data_error + data_value option \<times> bool) option" where
  "DataOperations_ObjectInsert H obj key v = ebind (cast H key) (\<lambda>jkey. case obj of
     Some (VJson (JObject2 t)) \<Rightarrow> ebind (cast H v) (\<lambda>jvalue.
       elift (map_option (\<lambda>t. (Some (VJson (JObject2 t)), True)) (Insert H jkey jvalue t)))
   | Some (VJson (JObject kvs)) \<Rightarrow> ebind (cast H v) (\<lambda>jvalue.
       case jkey of JString s \<Rightarrow> ereturn (Some (VJson (JObject (Object_setImpl kvs s jvalue))), True) | _ \<Rightarrow> None)
   | _ \<Rightarrow> ebind (cast H obj) (\<lambda>_. ereturn (obj, False)))"

definition DataOperations_CopyShallow :: "(bytes \<Rightarrow> u64) \<Rightarrow> data_value option \<Rightarrow> (data_error + data_value) option" where
  "DataOperations_CopyShallow H v = (case v of
     None \<Rightarrow> None
   | Some (VJson (JSet t)) \<Rightarrow>
       elift (map_option (\<lambda>t. VJson (JSet t)) (foldM (Set_Add (equalOp H) (hash H)) (table_elems t) (NewSet (table_len t))))
   | Some (VJson (JObject2 t)) \<Rightarrow>
       elift (map_option (\<lambda>t. VJson (JObject2 t)) (foldM (\<lambda>(k, v). Insert H k v) (table_elems t) (NewObject2 (table_len t))))
   | Some (VJson j) \<Rightarrow> ereturn (VJson j)
   | Some (VIterable get kvs err) \<Rightarrow> ebind (castJSON H (VIterable get kvs err)) (\<lambda>j. ereturn (VJson j)))"

subsection \<open>Merging objects\<close>

definition is_obj :: "data_value \<Rightarrow> bool" where
  "is_obj v = (case v of VJson j \<Rightarrow> is_object j | VIterable _ _ _ \<Rightarrow> True)"

text \<open>\<open>objectIterate\<close>: the entries as JSON values, and the error that ends the iteration.\<close>

definition objectIterate :: "(bytes \<Rightarrow> u64) \<Rightarrow> data_value \<Rightarrow> (json \<Rightarrow> json \<Rightarrow> 's \<Rightarrow> (data_error + 's) option) \<Rightarrow> 's \<Rightarrow> (data_error + 's) option" where
  "objectIterate H obj f s = (case obj of
     VJson j \<Rightarrow> efold (\<lambda>(k, v). f k v) (entries j) s
   | VIterable _ kvs err \<Rightarrow>
       ebind (efold (\<lambda>(k, v) s. ebind (castJSON H k) (\<lambda>jk. ebind (castJSON H v) (\<lambda>jv. f jk jv s))) kvs s) (end_iter err))"

definition objectGet :: "(bytes \<Rightarrow> u64) \<Rightarrow> data_value \<Rightarrow> json \<Rightarrow> (data_error + data_value option) option" where
  "objectGet H obj key = (case obj of
     VJson (JObject kvs) \<Rightarrow> found (Some (object_at kvs key))
   | VJson (JObject2 t) \<Rightarrow> found (Object2_Get (equalOp H) (hash H) key t)
   | VJson _ \<Rightarrow> None
   | VIterable get _ _ \<Rightarrow> Some (get key))"

lemma objectIterate_cong [fundef_cong]:
  assumes "obj = obj'" and "s = s'"
    and "\<And>k v s. (\<And>j. obj' = VJson j \<Longrightarrow> (k, v) \<in> set (entries j)) \<Longrightarrow> f k v s = g k v s"
  shows "objectIterate H obj f s = objectIterate H obj' g s'"
proof (cases obj')
  case (VJson j)
  then show ?thesis using assms by (auto simp: objectIterate_def intro!: efold_cong)
next
  case (VIterable get kvs err)
  then have "f k v s = g k v s" for k v s using assms(3) by simp
  then show ?thesis using assms(1,2) VIterable by (simp add: objectIterate_def)
qed

definition merge_rank :: "data_value \<Rightarrow> nat \<times> nat" where
  "merge_rank v = (case v of VJson j \<Rightarrow> (0, size j) | VIterable _ _ _ \<Rightarrow> (1, 0))"

function DataOperations_ObjectMerge :: "(bytes \<Rightarrow> u64) \<Rightarrow> data_value \<Rightarrow> data_value \<Rightarrow> (data_error + data_value) option" where
  "DataOperations_ObjectMerge H a b =
     (if \<not> is_obj a \<or> \<not> is_obj b then ereturn a
      else
        ebind (objectIterate H a (\<lambda>key v merged.
            ebind (objectGet H b key) (\<lambda>other. case other of
              None \<Rightarrow> elift (Insert H key v merged)
            | Some other \<Rightarrow>
                ebind (DataOperations_ObjectMerge H (VJson v) other) (\<lambda>m.
                ebind (castJSON H m) (\<lambda>mj.
                  elift (Insert H key mj merged))))) (NewObject2 0)) (\<lambda>merged.
        ebind (objectIterate H b (\<lambda>key v merged.
            ebind (objectGet H a key) (\<lambda>r. if r = None then elift (Insert H key v merged) else ereturn merged)) merged) (\<lambda>merged.
          ereturn (VJson (JObject2 merged)))))"
  by pat_completeness auto
termination
  by (relation "inv_image (less_than <*lex*> less_than) (\<lambda>(_, a, _). merge_rank a)")
    (auto simp: merge_rank_def dest: entries_less split: data_value.split)

declare DataOperations_ObjectMerge.simps [simp del]

section \<open>What values stand for\<close>

text \<open>A value of memory stands for its meaning.  An iterable object stands for an object when its iteration ends
  without an error, enters no key twice, and \<open>Get\<close> agrees with it.\<close>

inductive vrep :: "(bytes \<Rightarrow> u64) \<Rightarrow> data_value \<Rightarrow> mvalue \<Rightarrow> bool" for H where
  vrep_json: "json_ok H j \<Longrightarrow> vrep H (VJson j) (meaning j)"
| vrep_iter: "list_all2 (vrep H) (map fst kvs) (map fst xys) \<Longrightarrow> list_all2 (vrep H) (map snd kvs) (map snd xys) \<Longrightarrow> distinct (map fst xys) \<Longrightarrow>
    (\<And>key. json_ok H key \<Longrightarrow> get key = Inr None \<and> map_of xys (meaning key) = None \<or>
      (\<exists>w y. get key = Inr (Some w) \<and> map_of xys (meaning key) = Some y \<and> vrep H w y)) \<Longrightarrow>
    vrep H (VIterable get kvs None) (MObject (fset_of_list xys))"


inductive_simps vrep_VJson [simp]: "vrep H (VJson j) m"

definition JRep :: "(bytes \<Rightarrow> u64) \<Rightarrow> json \<Rightarrow> mvalue \<Rightarrow> bool" where
  "JRep H j m \<longleftrightarrow> json_ok H j \<and> meaning j = m"

section \<open>Numbers\<close>

lemma digits_value_append: "digits_value (ds @ [d]) = 10 * digits_value ds + uint (d - 48)"
  by (simp add: digits_value_def)

lemma digit_word: "n < 10 \<Longrightarrow> is_digit (48 + word_of_nat n) \<and> uint ((48 + word_of_nat n :: u8) - 48) = int n"
proof -
  assume "n < 10"
  then have "n = 0 \<or> n = 1 \<or> n = 2 \<or> n = 3 \<or> n = 4 \<or> n = 5 \<or> n = 6 \<or> n = 7 \<or> n = 8 \<or> n = 9" by presburger
  then show ?thesis by (elim disjE) (simp_all add: is_digit_def)
qed

lemma digits_of_value: "list_all is_digit (digits_of n) \<and> digits_value (digits_of n) = int n \<and> digits_of n \<noteq> []"
proof (induction n rule: digits_of.induct)
  case (1 n)
  show ?case
  proof (cases "n < 10")
    case True
    then show ?thesis using digit_word [OF True] by (simp add: digits_of.simps [of n] digits_value_def)
  next
    case False
    then have "digits_of n = digits_of (n div 10) @ [48 + word_of_nat (n mod 10)]" by (simp add: digits_of.simps [of n])
    moreover have "int n = 10 * int (n div 10) + int (n mod 10)" by (simp add: zdiv_int zmod_int)
    ultimately show ?thesis
      using 1 [OF False] digit_word [of "n mod 10"] by (simp add: digits_value_append del: add_diff_cancel_left')
  qed
qed

lemma FormatInt_Int64:
  assumes "- (2 ^ 63) \<le> i" and "i < 2 ^ 63"
  shows "Number_Int64 (FormatInt i) = Some i"
proof (cases "i < 0")
  case True
  then show ?thesis
    using assms digits_of_value [of "nat (- i)"] by (simp add: FormatInt_def Number_Int64_def read_sign_def)
next
  case False
  obtain d ds where d: "digits_of (nat i) = d # ds" using digits_of_value [of "nat i"] by (cases "digits_of (nat i)") auto
  then have "is_digit d" using digits_of_value [of "nat i"] by simp
  then have "d \<noteq> 45" "d \<noteq> 43" by (auto simp: is_digit_def)
  then have "read_sign (digits_of (nat i)) = (False, digits_of (nat i))" by (simp add: d read_sign_def)
  then show ?thesis
    using False assms digits_of_value [of "nat i"] by (simp add: FormatInt_def Number_Int64_def)
qed

section \<open>Conversion is faithful\<close>

text \<open>Inserting entries with different keys builds the object of these entries.\<close>

lemma inserts_new:
  assumes "list_all (\<lambda>(k, v). json_ok H k \<and> json_ok H v) es" and "distinct (map (\<lambda>e. meaning (fst e)) es)"
  shows "\<exists>t. foldM (\<lambda>(k, v). Insert H k v) es (NewObject2 n) = Some t \<and> json_ok H (JObject2 t) \<and>
    obj_abs meaning t = map_of (map (map_prod meaning meaning) es)"
proof -
  have all: "List.map_filter Some xs = xs" for xs :: "(json \<times> json) list" by (induction xs) auto
  have "\<exists>t. foldM (\<lambda>(k, v). Insert H k v) es (new_table n) = Some t \<and> obj_inv (hash H) meaning {v. json_ok H v} t \<and>
    obj_abs meaning t = obj_abs meaning (new_table n) ++ map_of (map (map_prod meaning meaning) (List.map_filter Some es))"
  proof (rule jv.enters_loop)
    fix e assume "e \<in> set es"
    then have "json_ok H (fst e)" "json_ok H (snd e)" using assms(1) by (auto simp: list_all_iff)
    then have "enters (hash H) meaning {v. json_ok H v} (Some (fst e, snd e)) ((\<lambda>(k, v). Insert H k v) e)"
      by (intro jv.enters_Insert) (auto simp: Insert_def case_prod_unfold)
    then show "enters (hash H) meaning {v. json_ok H v} (Some e) ((\<lambda>(k, v). Insert H k v) e)" by simp
  qed (use assms(2) in \<open>simp_all add: all o_def\<close>)
  then show ?thesis unfolding all json_ok_object2 NewObject2_def by simp
qed

lemma efold_inserts:
  assumes "list_all2 (\<lambda>kv e. castJSON H (fst kv) = ereturn (fst e) \<and> castJSON H (snd kv) = ereturn (snd e)) kvs es"
  shows "efold (\<lambda>(k, v) obj. ebind (castJSON H k) (\<lambda>jk. ebind (castJSON H v) (\<lambda>jv. elift (Insert H jk jv obj)))) kvs t =
    elift (foldM (\<lambda>(k, v). Insert H k v) es t)"
  using assms
proof (induction kvs es arbitrary: t rule: list_all2_induct)
  case (Cons kv kvs e es)
  then show ?case by (cases "Insert H (fst e) (snd e) t") (simp_all add: case_prod_unfold elift_def)
qed (simp add: ereturn_def elift_def)

lemma JRep_list:
  assumes "list_all2 (\<lambda>v m. \<exists>j. castJSON H v = ereturn j \<and> JRep H j m) vs ms"
  shows "\<exists>js. list_all2 (\<lambda>v j. castJSON H v = ereturn j) vs js \<and> list_all (json_ok H) js \<and> map meaning js = ms"
  using assms
proof (induction vs ms rule: list_all2_induct)
  case (Cons v vs m ms)
  then obtain j js where "castJSON H v = ereturn j" "JRep H j m" "list_all2 (\<lambda>v j. castJSON H v = ereturn j) vs js"
    "list_all (json_ok H) js" "map meaning js = ms" by blast
  then show ?case by (intro exI [of _ "j # js"]) (simp add: JRep_def)
qed simp

lemma cast_entries:
  assumes "list_all2 (\<lambda>v m. \<exists>j. castJSON H v = ereturn j \<and> JRep H j m) (map fst kvs) (map fst xys)"
    and "list_all2 (\<lambda>v m. \<exists>j. castJSON H v = ereturn j \<and> JRep H j m) (map snd kvs) (map snd xys)"
  shows "\<exists>es. list_all2 (\<lambda>kv e. castJSON H (fst kv) = ereturn (fst e) \<and> castJSON H (snd kv) = ereturn (snd e)) kvs es \<and>
    list_all (\<lambda>(k, v). json_ok H k \<and> json_ok H v) es \<and> map (map_prod meaning meaning) es = xys"
proof -
  from JRep_list [OF assms(1)] JRep_list [OF assms(2)] obtain ks vs where
    ks: "list_all2 (\<lambda>v j. castJSON H v = ereturn j) (map fst kvs) ks" "list_all (json_ok H) ks" "map meaning ks = map fst xys" and
    vs: "list_all2 (\<lambda>v j. castJSON H v = ereturn j) (map snd kvs) vs" "list_all (json_ok H) vs" "map meaning vs = map snd xys" by blast
  have len: "length ks = length kvs" "length vs = length kvs" "length xys = length kvs"
    using list_all2_lengthD [OF ks(1)] list_all2_lengthD [OF vs(1)] arg_cong [OF ks(3), of length] by simp_all
  have "list_all2 (\<lambda>kv e. castJSON H (fst kv) = ereturn (fst e) \<and> castJSON H (snd kv) = ereturn (snd e)) kvs (zip ks vs)"
    using ks(1) vs(1) len by (auto simp: list_all2_conv_all_nth)
  moreover have "list_all (\<lambda>(k, v). json_ok H k \<and> json_ok H v) (zip ks vs)"
    using ks(2) vs(2) by (auto simp: list_all_iff dest: set_zip_leftD set_zip_rightD)
  moreover have "map (map_prod meaning meaning) (zip ks vs) = zip (map meaning ks) (map meaning vs)"
    by (simp add: zip_map_map map_prod_def)
  then have "map (map_prod meaning meaning) (zip ks vs) = xys" by (simp add: ks(3) vs(3) zip_map_fst_snd)
  ultimately show ?thesis by blast
qed

lemma castJSON_rep: "vrep H v m \<Longrightarrow> \<exists>j. castJSON H v = ereturn j \<and> JRep H j m"
proof (induction rule: vrep.induct)
  case (vrep_json j)
  then show ?case by (auto simp: JRep_def)
next
  case (vrep_iter kvs xys get)
  from vrep_iter(1,2) have "list_all2 (\<lambda>v m. \<exists>j. castJSON H v = ereturn j \<and> JRep H j m) (map fst kvs) (map fst xys)"
    "list_all2 (\<lambda>v m. \<exists>j. castJSON H v = ereturn j \<and> JRep H j m) (map snd kvs) (map snd xys)"
    by (auto elim!: list_all2_mono)
  from cast_entries [OF this] obtain es where es: "list_all2 (\<lambda>kv e. castJSON H (fst kv) = ereturn (fst e) \<and> castJSON H (snd kv) = ereturn (snd e)) kvs es"
    "list_all (\<lambda>(k, v). json_ok H k \<and> json_ok H v) es" "map (map_prod meaning meaning) es = xys" by blast
  have dist: "distinct (map (\<lambda>e. meaning (fst e)) es)" using vrep_iter(4) by (simp add: es(3) [symmetric] o_def)
  from inserts_new [OF es(2) dist] obtain t where t: "foldM (\<lambda>(k, v). Insert H k v) es (NewObject2 0) = Some t" "json_ok H (JObject2 t)"
    "obj_abs meaning t = map_of xys" unfolding es(3) by blast
  have "castJSON H (VIterable get kvs None) = ereturn (JObject2 t)"
    using efold_inserts [OF es(1), of "NewObject2 0"] t(1) by (simp add: end_iter_def elift_def)
  moreover have "meaning (JObject2 t) = MObject (fset_of_list xys)"
    unfolding meaning_object2 [OF t(2)] using vrep_iter(4) by (simp add: t(3) fset_of_list_elem map_of_eq_Some_iff)
  ultimately show ?case using t(2) by (auto simp: JRep_def)
qed

section \<open>Lookups\<close>

text \<open>\<open>r\<close> is what the map \<open>F\<close> holds under the key.\<close>

definition lookup_rep :: "(bytes \<Rightarrow> u64) \<Rightarrow> (mvalue \<times> mvalue) fset \<Rightarrow> mvalue \<Rightarrow> data_value option \<Rightarrow> bool" where
  "lookup_rep H F \<kappa> r = (case r of None \<Rightarrow> \<forall>y. (\<kappa>, y) |\<notin>| F | Some w \<Rightarrow> \<exists>y. (\<kappa>, y) |\<in>| F \<and> vrep H w y)"

lemma cast_rep: "vrep H v m \<Longrightarrow> \<exists>j. cast H (Some v) = ereturn j \<and> JRep H j m"
  by (simp add: cast_def castJSON_rep)

lemma meaning_JString: "meaning k = MString s \<longleftrightarrow> k = JString s"
  by (cases k) auto

lemma meaning_MObject: "meaning j = MObject F \<Longrightarrow> is_object j"
  by (cases j) (simp_all add: is_object_def)

lemma object_mem:
  assumes "json_ok H j" and "meaning j = MObject F"
  shows "(\<kappa>, y) |\<in>| F \<longleftrightarrow> obj_map j \<kappa> = Some y"
  using obj_map_meaning [OF assms(1) meaning_MObject [OF assms(2)]] assms(2) by auto

lemma found_rep:
  assumes "json_ok H j" and "meaning j = MObject F" and "map_option meaning r = obj_map j \<kappa>" and "\<And>w. r = Some w \<Longrightarrow> json_ok H w"
  shows "lookup_rep H F \<kappa> (map_option VJson r)"
  using assms(3,4) object_mem [OF assms(1,2)] by (cases r) (auto simp: lookup_rep_def)

lemma object_at_rep:
  assumes "json_ok H (JObject kvs)" and "json_ok H key"
  shows "map_option meaning (object_at kvs key) = obj_map (JObject kvs) (meaning key)"
    and "object_at kvs key = Some w \<Longrightarrow> json_ok H w"
proof -
  have sorted: "sorted_wrt (<) (map fst kvs)" using assms(1) by simp
  show "map_option meaning (object_at kvs key) = obj_map (JObject kvs) (meaning key)"
  proof (cases "\<exists>s. key = JString s")
    case True
    then show ?thesis using sorted by (auto simp: object_at_def Object_valueImpl_eq)
  next
    case False
    have "obj_map (JObject kvs) (meaning key) = None"
    proof (rule ccontr)
      assume "obj_map (JObject kvs) (meaning key) \<noteq> None"
      then obtain s where "MString s = meaning key" using obj_map_Some [OF assms(1), of "meaning key"] by auto
      then show False using False meaning_JString [of key s] by simp
    qed
    then show ?thesis using False by (simp add: object_at_def split: json.split)
  qed
  show "object_at kvs key = Some w \<Longrightarrow> json_ok H w"
    using assms(1) by (auto simp: object_at_def list_all_iff dest!: Object_valueImpl_mem split: json.splits)
qed

lemma Object2_Get_rep:
  assumes "json_ok H (JObject2 t)" and "json_ok H key"
  shows "\<exists>r. Object2_Get (equalOp H) (hash H) key t = Some r \<and> map_option meaning r = obj_map (JObject2 t) (meaning key) \<and>
    (\<forall>w. r = Some w \<longrightarrow> json_ok H w)"
  using jv.Object2_Get_spec [of H t key] assms unfolding json_ok_object2 by auto

lemma objectGet_rep:
  assumes "vrep H v (MObject F)" and "json_ok H key"
  shows "\<exists>r. objectGet H v key = Some (Inr r) \<and> lookup_rep H F (meaning key) r"
  using assms(1)
proof (cases rule: vrep.cases)
  case (vrep_json j)
  then have j: "json_ok H j" "meaning j = MObject F" by simp_all
  then have "is_object j" by (simp add: meaning_MObject)
  then show ?thesis
  proof (cases rule: is_object_cases)
    fix kvs assume jo: "j = JObject kvs"
    have "lookup_rep H F (meaning key) (map_option VJson (object_at kvs key))"
      using found_rep [OF j] object_at_rep [OF j(1) [unfolded jo] assms(2)] jo by blast
    then show ?thesis by (simp add: vrep_json jo objectGet_def found_def)
  next
    fix t assume jo: "j = JObject2 t"
    from Object2_Get_rep [OF j(1) [unfolded jo] assms(2)] obtain r where r: "Object2_Get (equalOp H) (hash H) key t = Some r"
      "map_option meaning r = obj_map j (meaning key)" "\<And>w. r = Some w \<Longrightarrow> json_ok H w" by (auto simp: jo)
    then show ?thesis using found_rep [OF j r(2,3)] by (simp add: vrep_json jo objectGet_def found_def)
  qed
next
  case (vrep_iter kvs xys get)
  then have F: "(\<kappa>, y) |\<in>| F \<longleftrightarrow> map_of xys \<kappa> = Some y" for \<kappa> y by (simp add: fset_of_list_elem map_of_eq_Some_iff)
  from vrep_iter(6) [OF assms(2)] show ?thesis unfolding vrep_iter(1) by (auto simp: objectGet_def lookup_rep_def F)
qed

lemma DataOperations_Get_object:
  assumes "vrep H v (MObject F)" and "vrep H key \<kappa>"
  shows "\<exists>r. DataOperations_Get H (Some v) (Some key) = Some (Inr r) \<and> lookup_rep H F \<kappa> r"
    and "\<exists>r. DataOperations_ObjectGet H (Some v) (Some key) = Some (Inr r) \<and> lookup_rep H F \<kappa> r"
proof -
  from cast_rep [OF assms(2)] obtain jkey where k: "cast H (Some key) = ereturn jkey" "json_ok H jkey" "meaning jkey = \<kappa>"
    by (auto simp: JRep_def)
  have "DataOperations_Get H (Some v) (Some key) = objectGet H v jkey \<and> DataOperations_ObjectGet H (Some v) (Some key) = objectGet H v jkey"
  proof (cases v)
    case (VJson j)
    then have "is_object j" using assms(1) by (auto dest: sym [THEN meaning_MObject])
    then show ?thesis
      by (cases rule: is_object_cases) (simp_all add: VJson DataOperations_Get_def DataOperations_ObjectGet_def objectGet_def k(1))
  qed (simp add: DataOperations_Get_def DataOperations_ObjectGet_def objectGet_def k(1))
  then show "\<exists>r. DataOperations_Get H (Some v) (Some key) = Some (Inr r) \<and> lookup_rep H F \<kappa> r"
    "\<exists>r. DataOperations_ObjectGet H (Some v) (Some key) = Some (Inr r) \<and> lookup_rep H F \<kappa> r"
    using objectGet_rep [OF assms(1) k(2)] k(3) by auto
qed

lemma DataOperations_Get_set:
  assumes "vrep H v (MSet S)" and "vrep H key \<kappa>"
  shows "\<exists>r. DataOperations_Get H (Some v) (Some key) = Some (Inr r) \<and>
    (case r of None \<Rightarrow> \<kappa> |\<notin>| S | Some w \<Rightarrow> \<kappa> |\<in>| S \<and> vrep H w \<kappa>)"
proof -
  from cast_rep [OF assms(2)] obtain jkey where k: "cast H (Some key) = ereturn jkey" "json_ok H jkey" "meaning jkey = \<kappa>"
    by (auto simp: JRep_def)
  from assms(1) obtain j where j: "v = VJson j" "json_ok H j" "meaning j = MSet S" by (cases rule: vrep.cases) auto
  then obtain t where t: "j = JSet t" by (cases j) auto
  then have inv: "set_inv (hash H) meaning {v. json_ok H v} t" and S: "fset S = meaning ` set (table_elems t)"
    using j(2,3) meaning_set [of t S] unfolding t json_ok_set by (simp_all add: set_abs_def del: meaning.simps)
  have get: "Set_Get (equalOp H) (hash H) jkey t = Some (find (\<lambda>w. meaning w = meaning jkey) (table_elems t))"
    using jv.Set_Get_spec [OF inv, of jkey] k(2) by simp
  have ok: "json_ok H w" if "w \<in> set (table_elems t)" for w using inv that by (auto simp: set_inv_def)
  show ?thesis
  proof (cases "find (\<lambda>w. meaning w = meaning jkey) (table_elems t)")
    case None
    then have "\<kappa> |\<notin>| S" using S k(3) by (auto simp: find_None_iff)
    then show ?thesis using None by (simp add: j(1) t DataOperations_Get_def k(1) get found_def)
  next
    case (Some w)
    then have w: "w \<in> set (table_elems t)" "meaning w = \<kappa>" using k(3) by (auto simp: find_Some_iff)
    then have "\<kappa> |\<in>| S" using S by auto
    then show ?thesis using Some w ok [OF w(1)] by (auto simp: j(1) t DataOperations_Get_def k(1) get found_def)
  qed
qed

section \<open>Made values\<close>

lemma FormatInt_number:
  assumes "- (2 ^ 63) \<le> i" and "i < 2 ^ 63"
  shows "number_ok (FormatInt i) \<and> Number_value (FormatInt i) = Some (of_int i)"
proof -
  have digits: "takeWhile is_digit (digits_of n) = digits_of n" "dropWhile is_digit (digits_of n) = []" for n
    using digits_of_value [of n] by (auto simp: takeWhile_eq_all_conv list_all_iff)
  have read: "read_decimal (FormatInt i) = Some (i < 0, \<bar>i\<bar>, 0, 0)"
  proof (cases "i < 0")
    case True
    then show ?thesis
      using digits_of_value [of "nat (- i)"]
      by (simp add: FormatInt_def read_decimal_def read_sign_def digits read_exponent_def)
  next
    case False
    obtain d ds where d: "digits_of (nat i) = d # ds" using digits_of_value [of "nat i"] by (cases "digits_of (nat i)") auto
    then have "is_digit d" using digits_of_value [of "nat i"] by simp
    then have "d \<noteq> 45" "d \<noteq> 43" by (auto simp: is_digit_def)
    then have "read_sign (digits_of (nat i)) = (False, digits_of (nat i))" by (simp add: d read_sign_def)
    then show ?thesis
      using False digits_of_value [of "nat i"] by (simp add: FormatInt_def read_decimal_def digits read_exponent_def)
  qed
  have "float64_bits (i < 0) (of_int \<bar>i\<bar>) \<noteq> None" using assms by (intro float64_bits_int) auto
  moreover have "0 \<le> int_log2 \<bar>i\<bar> \<and> int_log2 \<bar>i\<bar> \<le> 63" if "i \<noteq> 0"
    using int_log2_bounds [of "\<bar>i\<bar>"] int_log2_upper [of "\<bar>i\<bar>" 63] assms that by simp
  then have "Float_SetString (FormatInt i)" by (auto simp: Float_SetString_def read)
  ultimately have "number_ok (FormatInt i)"
    using read by (simp add: number_ok_def read_number_def Number_Float64_def scale10_def)
  moreover have "Number_value (FormatInt i) = Some (of_int i)" by (rule Number_Int64_value [OF FormatInt_Int64 [OF assms]])
  ultimately show ?thesis ..
qed

lemma MakeNumberInt_rep:
  assumes "- (2 ^ 63) \<le> i" and "i < 2 ^ 63"
  shows "JRep H (MakeNumberInt i) (MNumber (of_int i))"
  using FormatInt_number [OF assms] by (simp add: JRep_def MakeNumberInt_def)

section \<open>Sizes\<close>

fun msize :: "mvalue \<Rightarrow> nat" where
  "msize (MString s) = length s"
| "msize (MArray xs) = length xs"
| "msize (MSet S) = fcard S"
| "msize (MObject F) = fcard F"
| "msize _ = 0"

lemma fcard_distinct: "distinct xs \<Longrightarrow> fcard (fset_of_list xs) = length xs"
  by (simp add: fcard.rep_eq fset_of_list.rep_eq distinct_card)

lemma json_size:
  assumes "json_ok H j"
  shows "(case j of JArray xs \<Rightarrow> length xs | JObject kvs \<Rightarrow> length kvs | JSet t \<Rightarrow> table_len t | JObject2 t \<Rightarrow> table_len t
    | JString s \<Rightarrow> length s | _ \<Rightarrow> 0) = msize (meaning j)"
proof (cases j)
  case (JSet t)
  then have "distinct (map meaning (table_elems t))" "table_len t = length (table_elems t)" using assms by (auto simp: table_len_ok)
  then show ?thesis using fcard_distinct [of "map meaning (table_elems t)"] by (simp add: JSet)
next
  case (JObject kvs)
  have "distinct (map (map_prod meaning meaning) (entries j))" using entries_wf(1) [OF assms] by (rule distinct_map_finer) auto
  then show ?thesis
    using fcard_distinct [of "map (map_prod meaning meaning) (entries j)"] meaning_object [of j] by (simp add: JObject del: meaning.simps(6))
next
  case (JObject2 t)
  have "distinct (map (map_prod meaning meaning) (entries j))" using entries_wf(1) [OF assms] by (rule distinct_map_finer) auto
  moreover have "table_len t = length (table_elems t)" using assms by (auto simp: JObject2 table_len_ok)
  ultimately show ?thesis
    using fcard_distinct [of "map (map_prod meaning meaning) (entries j)"] meaning_object [of j] by (simp add: JObject2 del: meaning.simps(8))
qed simp_all

lemma Len_json: "DataOperations_Len H (Some (VJson j)) =
  ereturn (case j of JArray xs \<Rightarrow> MakeNumberInt (int (length xs)) | JObject kvs \<Rightarrow> MakeNumberInt (int (length kvs))
    | JSet t \<Rightarrow> MakeNumberInt (int (table_len t)) | JObject2 t \<Rightarrow> MakeNumberInt (int (table_len t))
    | JString s \<Rightarrow> MakeNumberInt (int (length s)) | _ \<Rightarrow> MakeNumberInt 0)"
  by (cases j) (simp_all add: DataOperations_Len_def MakeNumberInt_def MakeNumberZero_def cast_def)

lemma Len_rep:
  assumes "vrep H v m" and "int (msize m) < 2 ^ 63"
  shows "DataOperations_Len H (Some v) = ereturn (MakeNumberInt (int (msize m)))"
  using assms(1)
proof (cases rule: vrep.cases)
  case (vrep_json j)
  then show ?thesis using json_size [of H j] by (cases j) (auto simp: Len_json)
next
  case (vrep_iter kvs xys get)
  have "distinct xys" using vrep_iter(5) by (simp add: distinct_map)
  moreover have "length kvs = length xys" using list_all2_lengthD [OF vrep_iter(3)] by simp
  ultimately show ?thesis using fcard_distinct [of xys] by (simp add: vrep_iter(1,2) DataOperations_Len_def end_iter_def)
qed

section \<open>Changed values\<close>

lemma Equal_rep:
  assumes "vrep H a x" and "vrep H b y"
  shows "DataOperations_Equal H (Some a) (Some b) = ereturn (x = y)"
proof -
  from cast_rep [OF assms(1)] cast_rep [OF assms(2)] obtain j k where "cast H (Some a) = ereturn j" "json_ok H j" "meaning j = x"
    "cast H (Some b) = ereturn k" "json_ok H k" "meaning k = y" by (auto simp: JRep_def)
  then show ?thesis using equalOp_meaning [of H j k] by (simp add: DataOperations_Equal_def elift_def ereturn_def)
qed

lemma SetAdd_rep:
  assumes "vrep H s (MSet S)" and "vrep H v x"
  shows "\<exists>w. DataOperations_SetAdd H (Some s) (Some v) = Some (Inr (Some w)) \<and> vrep H w (MSet (finsert x S))"
proof -
  from cast_rep [OF assms(2)] obtain k where k: "cast H (Some v) = ereturn k" "json_ok H k" "meaning k = x" by (auto simp: JRep_def)
  from assms(1) obtain j where j: "s = VJson j" "json_ok H j" "meaning j = MSet S" by (cases rule: vrep.cases) auto
  then obtain t where t: "j = JSet t" by (cases j) auto
  from jv.Set_Add_spec [of H t k] j(2) k(2) obtain t' where t': "Set_Add (equalOp H) (hash H) k t = Some t'"
    "set_inv (hash H) meaning {v. json_ok H v} t'" "set_abs meaning t' = insert (meaning k) (set_abs meaning t)"
    unfolding t json_ok_set by auto
  have "fset (finsert x S) = set_abs meaning t'" using j(3) k(3) meaning_set [of t S] by (simp add: t t'(3) del: meaning.simps)
  then have "meaning (JSet t') = MSet (finsert x S)" by (simp only: meaning_set)
  moreover have "json_ok H (JSet t')" using t'(2) unfolding json_ok_set .
  ultimately have "vrep H (VJson (JSet t')) (MSet (finsert x S))" by (metis vrep_json)
  then show ?thesis by (auto simp: DataOperations_SetAdd_def k(1) j(1) t t'(1) found_def)
qed

lemma ArrayAppend_rep:
  assumes "vrep H a (MArray xs)" and "vrep H v x"
  shows "\<exists>w. DataOperations_ArrayAppend H (Some a) (Some v) = Some (Inr (Some w, True)) \<and> vrep H w (MArray (xs @ [x]))"
proof -
  from cast_rep [OF assms(2)] obtain k where k: "cast H (Some v) = ereturn k" "json_ok H k" "meaning k = x" by (auto simp: JRep_def)
  from assms(1) obtain j where j: "a = VJson j" "json_ok H j" "meaning j = MArray xs" by (cases rule: vrep.cases) auto
  then obtain ys where y: "j = JArray ys" by (cases j) auto
  have "vrep H (VJson (JArray (ys @ [k]))) (MArray (xs @ [x]))" using j(2,3) k(2,3) by (auto simp: y)
  then show ?thesis by (auto simp: DataOperations_ArrayAppend_def k(1) j(1) y ereturn_def)
qed

subsection \<open>Insertion into objects\<close>

lemma Object_find_sorted:
  assumes "sorted_wrt (<) (map fst kvs)" and "Object_find (map fst kvs) name = (i, ok)"
  shows "i \<le> length kvs" and "\<forall>k < i. fst (kvs ! k) < name" and "ok \<longleftrightarrow> i < length kvs \<and> fst (kvs ! i) = name"
    and "\<not> ok \<Longrightarrow> \<forall>k. i \<le> k \<and> k < length kvs \<longrightarrow> name < fst (kvs ! k)"
proof -
  have sorted: "sorted (map fst kvs)" using assms(1) by (simp add: strict_sorted_iff)
  have i: "i = find_loop (map fst kvs) name 0 (length kvs)" "ok \<longleftrightarrow> i < length kvs \<and> map fst kvs ! i = name"
    using assms(2) by (auto simp: Object_find_def Let_def)
  have bounds: "i \<le> length kvs \<and> (\<forall>k < i. map fst kvs ! k < name) \<and> (\<forall>k. i \<le> k \<and> k < length kvs \<longrightarrow> name \<le> map fst kvs ! k)"
    unfolding i(1) by (rule find_loop_bounds [OF sorted, of 0 "length kvs" name, unfolded length_map]) simp_all
  then show "i \<le> length kvs" by simp
  show "\<forall>k < i. fst (kvs ! k) < name"
  proof (intro allI impI)
    fix k assume "k < i"
    with bounds show "fst (kvs ! k) < name" using nth_map [of k kvs fst] by fastforce
  qed
  show "ok \<longleftrightarrow> i < length kvs \<and> fst (kvs ! i) = name" using i(2) by auto
  assume "\<not> ok"
  show "\<forall>k. i \<le> k \<and> k < length kvs \<longrightarrow> name < fst (kvs ! k)"
  proof (intro allI impI)
    fix k assume k: "i \<le> k \<and> k < length kvs"
    then have "name \<le> fst (kvs ! i)" "fst (kvs ! i) \<noteq> name" using bounds i(2) \<open>\<not> ok\<close> by auto
    moreover have "fst (kvs ! i) \<le> fst (kvs ! k)" using k sorted_nth_mono [OF sorted, of i k] by simp
    ultimately show "name < fst (kvs ! k)" by simp
  qed
qed

lemma Object_setImpl_sorted:
  assumes "sorted_wrt (<) (map fst kvs)"
  shows "sorted_wrt (<) (map fst (Object_setImpl kvs name v))" and "map_of (Object_setImpl kvs name v) = (map_of kvs)(name \<mapsto> v)"
    and "set (Object_setImpl kvs name v) \<subseteq> insert (name, v) (set kvs)"
proof -
  obtain i ok where find: "Object_find (map fst kvs) name = (i, ok)" by fastforce
  note bounds = Object_find_sorted [OF assms find]
  have dist: "distinct (map fst kvs)" using assms by (simp add: strict_sorted_iff)
  have "sorted_wrt (<) (map fst (Object_setImpl kvs name v)) \<and> map_of (Object_setImpl kvs name v) = (map_of kvs)(name \<mapsto> v) \<and>
    set (Object_setImpl kvs name v) \<subseteq> insert (name, v) (set kvs)"
  proof (cases ok)
    case True
    then have i: "i < length kvs" "fst (kvs ! i) = name" using bounds(3) by auto
    have keys: "map fst (kvs[i := (name, v)]) = map fst kvs" by (metis i fst_conv list_update_id map_update nth_map)
    have "map_of (kvs[i := (name, v)]) = (map_of kvs)(name \<mapsto> v)"
    proof
      fix x
      have d': "distinct (map fst (kvs[i := (name, v)]))" using dist keys by simp
      show "map_of (kvs[i := (name, v)]) x = ((map_of kvs)(name \<mapsto> v)) x"
      proof (cases "x = name")
        case True
        then show ?thesis using i d' set_update_memI [of i kvs "(name, v)"] by simp
      next
        case False
        then have "(x, y) \<in> set (kvs[i := (name, v)]) \<longleftrightarrow> (x, y) \<in> set kvs" for y
          using i by (auto simp: in_set_conv_nth nth_list_update) (metis fst_conv nth_list_update_neq)+
        then have "map_of (kvs[i := (name, v)]) x = Some y \<longleftrightarrow> map_of kvs x = Some y" for y using dist d' by simp
        then show ?thesis using False by (metis fun_upd_other option.exhaust)
      qed
    qed
    then show ?thesis using True assms keys by (simp add: Object_setImpl_def find set_update_subset_insert)
  next
    case False
    have split: "kvs = take i kvs @ drop i kvs" by simp
    have less: "fst a < name" if "a \<in> set (take i kvs)" for a
      using that bounds(2) by (auto simp: in_set_conv_nth)
    have more: "name < fst a" if "a \<in> set (drop i kvs)" for a
      using that bounds(4) [OF False] by (auto simp: in_set_conv_nth)
    have "sorted_wrt (<) (map fst (take i kvs) @ map fst (drop i kvs))" using assms by (simp flip: map_append)
    then have "sorted_wrt (<) (map fst (take i kvs @ (name, v) # drop i kvs))"
      using less more by (auto simp: sorted_wrt_append)
    moreover have "map_of (take i kvs @ (name, v) # drop i kvs) = (map_of kvs)(name \<mapsto> v)"
    proof -
      have "map_of (take i kvs) name = None" using less by (force simp: map_of_eq_None_iff)
      then have "map_of (take i kvs @ (name, v) # drop i kvs) x = ((map_of (take i kvs @ drop i kvs))(name \<mapsto> v)) x" for x
        by (simp only: map_of_append) (auto simp: map_add_def split: option.split)
      then show ?thesis by (simp add: fun_eq_iff)
    qed
    ultimately show ?thesis using False by (auto simp: Object_setImpl_def find dest: in_set_takeD in_set_dropD)
  qed
  then show "sorted_wrt (<) (map fst (Object_setImpl kvs name v))" "map_of (Object_setImpl kvs name v) = (map_of kvs)(name \<mapsto> v)"
    "set (Object_setImpl kvs name v) \<subseteq> insert (name, v) (set kvs)" by blast+
qed

text \<open>An object with the value of one key changed.\<close>

definition fupd :: "(mvalue \<times> mvalue) fset \<Rightarrow> mvalue \<Rightarrow> mvalue \<Rightarrow> (mvalue \<times> mvalue) fset" where
  "fupd F \<kappa> y = finsert (\<kappa>, y) (ffilter (\<lambda>e. fst e \<noteq> \<kappa>) F)"

lemma obj_map_names: "obj_map (JObject kvs) \<kappa> = (case \<kappa> of MString s \<Rightarrow> map_option meaning (map_of kvs s) | _ \<Rightarrow> None)"
proof (cases "\<exists>s. \<kappa> = MString s")
  case False
  then have "obj_map (JObject kvs) \<kappa> = None" by (induction kvs) (auto simp: obj_map_def)
  then show ?thesis using False by (simp split: mvalue.split)
qed auto

lemma update_meaning:
  assumes "json_ok H j" and "meaning j = MObject F" and "json_ok H j'" and "is_object j'" and "obj_map j' = (obj_map j)(\<kappa> \<mapsto> y)"
  shows "meaning j' = MObject (fupd F \<kappa> y)"
proof -
  from obj_map_meaning [OF assms(3,4)] obtain F' where F': "meaning j' = MObject F'" "\<And>k v. (k, v) |\<in>| F' \<longleftrightarrow> obj_map j' k = Some v" by blast
  have "e |\<in>| F' \<longleftrightarrow> e |\<in>| fupd F \<kappa> y" for e
  proof (cases e)
    case (Pair k v)
    then show ?thesis using object_mem [OF assms(1,2), of k v] by (auto simp: F'(2) assms(5) fupd_def)
  qed
  then show ?thesis using F'(1) by (auto intro: fset_eqI)
qed

lemma ObjectInsert_rep:
  assumes "json_ok H j" and "meaning j = MObject F" and "vrep H key \<kappa>" and "vrep H v y"
    and "\<And>kvs k x. j = JObject kvs \<Longrightarrow> cast H (Some key) = ereturn k \<Longrightarrow> cast H (Some v) = ereturn x \<Longrightarrow> (\<exists>s. k = JString s) \<and> plain x"
  shows "\<exists>w. DataOperations_ObjectInsert H (Some (VJson j)) (Some key) (Some v) = Some (Inr (Some w, True)) \<and> vrep H w (MObject (fupd F \<kappa> y))"
proof -
  from cast_rep [OF assms(3)] cast_rep [OF assms(4)] obtain k x where
    k: "cast H (Some key) = ereturn k" "json_ok H k" "meaning k = \<kappa>" and x: "cast H (Some v) = ereturn x" "json_ok H x" "meaning x = y"
    by (auto simp: JRep_def)
  have fin: ?thesis if "DataOperations_ObjectInsert H (Some (VJson j)) (Some key) (Some v) = ereturn (Some (VJson j'), True)"
    "json_ok H j'" "is_object j'" "obj_map j' = (obj_map j)(\<kappa> \<mapsto> y)" for j'
    using that update_meaning [OF assms(1,2) that(2-4)] by (auto simp: ereturn_def)
  have "is_object j" using assms(2) by (rule meaning_MObject)
  then show ?thesis
  proof (cases rule: is_object_cases)
    fix kvs assume j: "j = JObject kvs"
    obtain s where s: "k = JString s" and px: "plain x" using assms(5) [OF j k(1) x(1)] by blast
    have sorted: "sorted_wrt (<) (map fst kvs)" and vals: "list_all (\<lambda>(_, v). json_ok H v \<and> plain v) kvs" using assms(1) j by simp_all
    note impl = Object_setImpl_sorted [OF sorted, of s x]
    have "list_all (\<lambda>(_, v). json_ok H v \<and> plain v) (Object_setImpl kvs s x)"
      using vals impl(3) x(2) px unfolding list_all_iff by fastforce
    then have ok: "json_ok H (JObject (Object_setImpl kvs s x))" using impl(1) by simp
    have map: "obj_map (JObject (Object_setImpl kvs s x)) = (obj_map j)(\<kappa> \<mapsto> y)"
      using k(3) x(3) by (auto simp: j s fun_eq_iff obj_map_names impl(2) split: mvalue.split)
    show ?thesis
      by (rule fin [of "JObject (Object_setImpl kvs s x)"])
        (use ok map in \<open>simp_all add: DataOperations_ObjectInsert_def k(1) x(1) j s is_object_def\<close>)
  next
    fix t assume j: "j = JObject2 t"
    from jv.Object2_Insert_spec [of H t k x] assms(1) k(2) x(2) obtain t' where t': "Insert H k x t = Some t'"
      "json_ok H (JObject2 t')" "obj_abs meaning t' = (obj_abs meaning t)(meaning k \<mapsto> meaning x)"
      unfolding j json_ok_object2 Insert_def by auto
    show ?thesis
      by (rule fin [of "JObject2 t'"])
        (use t' k(3) x(3) in \<open>simp_all add: DataOperations_ObjectInsert_def k(1) x(1) j is_object_def elift_def ereturn_def del: json_ok.simps\<close>)
  qed
qed

subsection \<open>Copies\<close>

lemma adds_set:
  assumes "set_inv (hash H) meaning {v. json_ok H v} t" and "list_all (json_ok H) xs"
  shows "\<exists>t'. foldM (Set_Add (equalOp H) (hash H)) xs t = Some t' \<and> set_inv (hash H) meaning {v. json_ok H v} t' \<and>
    set_abs meaning t' = meaning ` set xs \<union> set_abs meaning t"
  using assms
proof (induction xs arbitrary: t)
  case (Cons x xs)
  from Cons.prems jv.Set_Add_spec [of H t x] obtain t1 where "Set_Add (equalOp H) (hash H) x t = Some t1"
    "set_inv (hash H) meaning {v. json_ok H v} t1" "set_abs meaning t1 = insert (meaning x) (set_abs meaning t)" by auto
  then show ?case using Cons.IH [of t1] Cons.prems(2) by auto
qed simp

lemma CopyShallow_rep:
  assumes "vrep H v m"
  shows "\<exists>w. DataOperations_CopyShallow H (Some v) = ereturn w \<and> vrep H w m"
  using assms
proof (cases rule: vrep.cases)
  case (vrep_json j)
  show ?thesis
  proof (cases j)
    case (JSet t)
    have inv: "set_inv (hash H) meaning {v. json_ok H v} t" using vrep_json(3) unfolding JSet json_ok_set .
    have elems: "list_all (json_ok H) (table_elems t)" using vrep_json(3) by (simp add: JSet)
    have "set_inv (hash H) meaning {v. json_ok H v} (NewSet n)" "set_abs meaning (NewSet n) = {}" for n by (simp_all add: NewSet_def)
    with adds_set [OF _ elems, of "NewSet (table_len t)"] obtain t' where
      t': "foldM (Set_Add (equalOp H) (hash H)) (table_elems t) (NewSet (table_len t)) = Some t'"
      "set_inv (hash H) meaning {v. json_ok H v} t'" "set_abs meaning t' = set_abs meaning t" by (auto simp: set_abs_def)
    have "meaning (JSet t) = MSet (fset_of_list (map meaning (table_elems t)))" by simp
    moreover from this have "meaning (JSet t') = MSet (fset_of_list (map meaning (table_elems t)))"
      unfolding meaning_set t'(3) .
    ultimately have "meaning (JSet t') = meaning (JSet t)" by simp
    then show ?thesis using t'(1,2) unfolding vrep_json JSet
      by (intro exI [of _ "VJson (JSet t')"]) (simp add: DataOperations_CopyShallow_def elift_def ereturn_def json_ok_set del: json_ok.simps meaning.simps)
  next
    case (JObject2 t)
    have es: "list_all (\<lambda>(k, v). json_ok H k \<and> json_ok H v) (table_elems t)" "distinct (map (\<lambda>e. meaning (fst e)) (table_elems t))"
      using vrep_json(3) by (auto simp: JObject2)
    from inserts_new [OF es, of "table_len t"] obtain t' where t': "foldM (\<lambda>(k, v). Insert H k v) (table_elems t) (NewObject2 (table_len t)) = Some t'"
      "json_ok H (JObject2 t')" "obj_abs meaning t' = obj_abs meaning t" by (auto simp: obj_abs_def)
    obtain F where F: "meaning (JObject2 t) = MObject F" by simp
    then have "meaning (JObject2 t') = MObject F"
      unfolding meaning_object2 [OF t'(2)] meaning_object2 [OF vrep_json(3) [unfolded JObject2]] t'(3) .
    with F have "meaning (JObject2 t') = meaning (JObject2 t)" by simp
    then show ?thesis using t'(1,2) unfolding vrep_json JObject2
      by (intro exI [of _ "VJson (JObject2 t')"]) (simp add: DataOperations_CopyShallow_def elift_def ereturn_def del: json_ok.simps meaning.simps)
  qed (use vrep_json in \<open>auto simp: DataOperations_CopyShallow_def\<close>)
next
  case (vrep_iter kvs xys get)
  then show ?thesis using castJSON_rep [OF assms] by (auto simp: DataOperations_CopyShallow_def JRep_def)
qed

section \<open>Iteration\<close>

text \<open>The entries an iteration over a value visits.\<close>

definition mentries :: "mvalue \<Rightarrow> (mvalue \<times> mvalue) list \<Rightarrow> bool" where
  "mentries m xys = (case m of
     MArray xs \<Rightarrow> xys = zip (map (\<lambda>i. MNumber (of_nat i)) [0..<length xs]) xs
   | MSet S \<Rightarrow> distinct xys \<and> set xys = (\<lambda>x. (x, x)) ` fset S
   | MObject F \<Rightarrow> distinct (map fst xys) \<and> fset_of_list xys = F
   | _ \<Rightarrow> xys = [])"

lemma list_all2_pairs:
  "list_all2 P (map fst xs) (map fst ys) \<Longrightarrow> list_all2 Q (map snd xs) (map snd ys) \<Longrightarrow>
    list_all2 (\<lambda>x y. P (fst x) (fst y) \<and> Q (snd x) (snd y)) xs ys"
  by (auto simp: list_all2_map1 list_all2_map2 list_all2_conv_all_nth)

lemma Iter_array:
  assumes "json_ok H (JArray xs)" and "int (length xs) < 2 ^ 63"
  shows "list_all2 (\<lambda>kv xy. vrep H (fst kv) (fst xy) \<and> vrep H (snd kv) (snd xy))
    (map (\<lambda>(i, x). (VJson (MakeNumberInt (int i)), VJson x)) (zip [0..<length xs] xs))
    (zip (map (\<lambda>i. MNumber (of_nat i)) [0..<length xs]) (map meaning xs))"
proof (rule list_all2_all_nthI)
  fix n assume "n < length (map (\<lambda>(i, x). (VJson (MakeNumberInt (int i)), VJson x)) (zip [0..<length xs] xs))"
  then have n: "n < length xs" by simp
  then have "JRep H (MakeNumberInt (int n)) (MNumber (of_int (int n)))" using assms(2) by (intro MakeNumberInt_rep) auto
  moreover have "json_ok H (xs ! n)" using assms(1) n by (simp add: list_all_length)
  ultimately show "vrep H (fst (map (\<lambda>(i, x). (VJson (MakeNumberInt (int i)), VJson x)) (zip [0..<length xs] xs) ! n))
        (fst (zip (map (\<lambda>i. MNumber (of_nat i)) [0..<length xs]) (map meaning xs) ! n)) \<and>
      vrep H (snd (map (\<lambda>(i, x). (VJson (MakeNumberInt (int i)), VJson x)) (zip [0..<length xs] xs) ! n))
        (snd (zip (map (\<lambda>i. MNumber (of_nat i)) [0..<length xs]) (map meaning xs) ! n))"
    using n by (simp add: JRep_def)
qed simp

lemma entries_rep:
  assumes "json_ok H j" and "is_object j"
  shows "list_all2 (\<lambda>kv xy. vrep H (fst kv) (fst xy) \<and> vrep H (snd kv) (snd xy))
      (map (map_prod VJson VJson) (entries j)) (map (map_prod meaning meaning) (entries j)) \<and>
    mentries (meaning j) (map (map_prod meaning meaning) (entries j))"
  using entries_wf [OF assms(1)]
  by (auto simp: list_all2_map1 list_all2_map2 mentries_def meaning_object [OF assms(2)] o_def intro!: list.rel_refl_strong)

lemma Iter_rep:
  assumes "vrep H v m" and "int (msize m) < 2 ^ 63"
  shows "\<exists>kvs xys. DataOperations_Iter (Some v) = (kvs, None) \<and> mentries m xys \<and>
    list_all2 (\<lambda>kv xy. vrep H (fst kv) (fst xy) \<and> vrep H (snd kv) (snd xy)) kvs xys"
  using assms(1)
proof (cases rule: vrep.cases)
  case (vrep_json j)
  show ?thesis
  proof (cases j)
    case (JArray xs)
    then show ?thesis using Iter_array [of H xs] vrep_json assms(2)
      by (intro exI conjI) (auto simp: DataOperations_Iter_def mentries_def)
  next
    case (JSet t)
    have "list_all2 (\<lambda>kv xy. vrep H (fst kv) (fst xy) \<and> vrep H (snd kv) (snd xy))
        (map (\<lambda>x. (VJson x, VJson x)) (table_elems t)) (map (\<lambda>x. (meaning x, meaning x)) (table_elems t))"
      using vrep_json(3) by (auto simp: JSet list_all2_map1 list_all2_map2 list_all_iff intro!: list.rel_refl_strong)
    moreover have "mentries m (map (\<lambda>x. (meaning x, meaning x)) (table_elems t))"
      using vrep_json by (auto simp: JSet mentries_def fset_of_list.rep_eq distinct_map inj_on_def)
    ultimately show ?thesis using vrep_json(1) JSet by (auto simp: DataOperations_Iter_def)
  next
    case (JObject kvs)
    have "DataOperations_Iter (Some v) = (map (map_prod VJson VJson) (entries j), None)"
      by (simp add: vrep_json JObject DataOperations_Iter_def case_prod_unfold)
    then show ?thesis using entries_rep [OF vrep_json(3)] vrep_json(2) JObject by (auto simp: is_object_def)
  next
    case (JObject2 t)
    have "DataOperations_Iter (Some v) = (map (map_prod VJson VJson) (entries j), None)"
      by (simp add: vrep_json JObject2 DataOperations_Iter_def)
    then show ?thesis using entries_rep [OF vrep_json(3)] vrep_json(2) JObject2 by (auto simp: is_object_def)
  qed (use vrep_json in \<open>auto simp: DataOperations_Iter_def mentries_def\<close>)
next
  case (vrep_iter kvs xys get)
  then show ?thesis using list_all2_pairs [OF vrep_iter(3,4)]
    by (auto simp: DataOperations_Iter_def mentries_def)
qed

section \<open>Merging\<close>

text \<open>The loop of \<open>objectIterate\<close> as a loop over JSON entries.\<close>

lemma objectIterate_rep:
  assumes "vrep H v (MObject F)"
  shows "\<exists>es. (\<forall>f (s :: (json \<times> json) table). objectIterate H v f s = efold (\<lambda>(k, v). f k v) es s) \<and> list_all (\<lambda>(k, v). json_ok H k \<and> json_ok H v) es \<and>
    distinct (map (\<lambda>e. meaning (fst e)) es) \<and> (\<forall>\<kappa> y. map_of (map (map_prod meaning meaning) es) \<kappa> = Some y \<longleftrightarrow> (\<kappa>, y) |\<in>| F) \<and>
    (\<forall>j. v = VJson j \<longrightarrow> es = entries j)"
  using assms
proof (cases rule: vrep.cases)
  case (vrep_json j)
  then have "list_all (\<lambda>(k, v). json_ok H k \<and> json_ok H v) (entries j)" using entries_wf(2) [OF vrep_json(3)] by (auto simp: list_all_iff)
  moreover have "map_of (map (map_prod meaning meaning) (entries j)) \<kappa> = Some y \<longleftrightarrow> (\<kappa>, y) |\<in>| F" for \<kappa> y
    using object_mem [OF vrep_json(3) vrep_json(2) [symmetric], of \<kappa> y] by (simp add: obj_map_def)
  ultimately show ?thesis using entries_wf(1) [OF vrep_json(3)] vrep_json(1) by (auto simp: objectIterate_def)
next
  case (vrep_iter kvs xys get)
  have "list_all2 (\<lambda>v m. \<exists>j. castJSON H v = ereturn j \<and> JRep H j m) (map fst kvs) (map fst xys)"
    "list_all2 (\<lambda>v m. \<exists>j. castJSON H v = ereturn j \<and> JRep H j m) (map snd kvs) (map snd xys)"
    using vrep_iter(3,4) by (auto elim!: list_all2_mono intro: castJSON_rep)
  from cast_entries [OF this] obtain es where es: "list_all2 (\<lambda>kv e. castJSON H (fst kv) = ereturn (fst e) \<and> castJSON H (snd kv) = ereturn (snd e)) kvs es"
    "list_all (\<lambda>(k, v). json_ok H k \<and> json_ok H v) es" "map (map_prod meaning meaning) es = xys" by blast
  have fold: "efold (\<lambda>(k, v) s. ebind (castJSON H k) (\<lambda>jk. ebind (castJSON H v) (\<lambda>jv. f jk jv s))) kvs s = efold (\<lambda>(k, v). f k v) es s"
    for f and s :: "(json \<times> json) table"
    using es(1) by (induction kvs es arbitrary: s rule: list_all2_induct) (auto simp: case_prod_unfold intro!: ebind_cong)
  have "ebind m (end_iter None) = m" for m :: "(data_error + (json \<times> json) table) option"
    by (auto simp: ebind_def end_iter_def ereturn_def split: option.split sum.split)
  then have "objectIterate H v f s = efold (\<lambda>(k, v). f k v) es s" for f and s :: "(json \<times> json) table"
    by (simp add: vrep_iter(1) objectIterate_def fold)
  moreover have "distinct (map (\<lambda>e. meaning (fst e)) es)" using vrep_iter(5) by (simp add: es(3) [symmetric] o_def)
  moreover have "map_of xys \<kappa> = Some y \<longleftrightarrow> (\<kappa>, y) |\<in>| F" for \<kappa> y
    using vrep_iter(2,5) by (simp add: fset_of_list_elem map_of_eq_Some_iff)
  ultimately show ?thesis using es(2,3) vrep_iter(1) by auto
qed

lemma efold_foldM:
  assumes "\<And>e s. e \<in> set es \<Longrightarrow> f e s = elift (g e s)"
  shows "efold f es s = elift (foldM g es s)"
  using assms
proof (induction es arbitrary: s)
  case (Cons e es)
  then show ?case by (cases "g e s") (simp_all add: elift_def)
qed (simp add: ereturn_def elift_def)

text \<open>The loop over the left object enters \<open>c e\<close> under the key of each entry \<open>e\<close>.\<close>

lemma merge_left:
  assumes "list_all (\<lambda>(k, v). json_ok H k \<and> json_ok H v) es" and "distinct (map (\<lambda>e. meaning (fst e)) es)"
    and "\<And>e. e \<in> set es \<Longrightarrow> json_ok H (c e)" and "\<And>e s. e \<in> set es \<Longrightarrow> f e s = elift (Insert H (fst e) (c e) s)"
  shows "\<exists>t. efold f es (NewObject2 0) = ereturn t \<and> json_ok H (JObject2 t) \<and>
    obj_abs meaning t = map_of (map (\<lambda>e. (meaning (fst e), meaning (c e))) es)"
proof -
  let ?es = "map (\<lambda>e. (fst e, c e)) es"
  have "list_all (\<lambda>(k, v). json_ok H k \<and> json_ok H v) ?es" "distinct (map (\<lambda>e. meaning (fst e)) ?es)"
    using assms(1,2,3) by (auto simp: list_all_iff o_def)
  from inserts_new [OF this, of 0] obtain t where t: "foldM (\<lambda>(k, v). Insert H k v) ?es (NewObject2 0) = Some t" "json_ok H (JObject2 t)"
    "obj_abs meaning t = map_of (map (\<lambda>e. (meaning (fst e), meaning (c e))) es)" by (auto simp: o_def simp del: json_ok.simps)
  moreover have "efold f es (NewObject2 0) = elift (foldM (\<lambda>e. Insert H (fst e) (c e)) es (NewObject2 0))"
    by (rule efold_foldM) (rule assms(4))
  ultimately show ?thesis by (auto simp: foldM_map elift_def ereturn_def simp del: json_ok.simps)
qed

text \<open>The loop over the right object enters the entries whose key is not in the left object.\<close>

lemma merge_right:
  assumes "list_all (\<lambda>(k, v). json_ok H k \<and> json_ok H v) es" and "distinct (map (\<lambda>e. meaning (fst e)) es)"
    and "json_ok H (JObject2 t)"
    and "\<And>e s. e \<in> set es \<Longrightarrow> f e s = (if obj_abs meaning t (meaning (fst e)) = None then elift (Insert H (fst e) (snd e) s) else ereturn s)"
  shows "\<exists>t'. efold f es t = ereturn t' \<and> json_ok H (JObject2 t') \<and>
    (\<forall>\<kappa>. obj_abs meaning t' \<kappa> = (case obj_abs meaning t \<kappa> of None \<Rightarrow> map_of (map (map_prod meaning meaning) es) \<kappa> | r \<Rightarrow> r))"
proof -
  let ?q = "\<lambda>\<kappa>. obj_abs meaning t \<kappa> = None"
  let ?act = "\<lambda>e. if ?q (meaning (fst e)) then Some e else None"
  let ?g = "\<lambda>e s. if ?q (meaning (fst e)) then Insert H (fst e) (snd e) s else Some s"
  have "\<exists>t'. foldM ?g es t = Some t' \<and> obj_inv (hash H) meaning {v. json_ok H v} t' \<and>
    obj_abs meaning t' = obj_abs meaning t ++ map_of (map (map_prod meaning meaning) (List.map_filter ?act es))"
  proof (rule jv.enters_loop)
    show "obj_inv (hash H) meaning {v. json_ok H v} t" using assms(3) unfolding json_ok_object2 .
    show "distinct (map (meaning \<circ> fst) (List.map_filter ?act es))"
      unfolding map_filter_if using assms(2) by (simp add: distinct_map_filter o_def)
    fix e assume "e \<in> set es"
    then have ok: "json_ok H (fst e)" "json_ok H (snd e)" using assms(1) by (auto simp: list_all_iff)
    show "enters (hash H) meaning {v. json_ok H v} (?act e) (?g e)"
    proof (cases "?q (meaning (fst e))")
      case True
      then show ?thesis using jv.enters_Insert [of "?g e" H "fst e" "snd e"] ok by (simp add: Insert_def)
    next
      case False
      then have "?g e = Some" by auto
      then show ?thesis using False jv.enters_skip [of "?g e" H] by auto
    qed
  qed (auto split: if_splits)
  then obtain t' where t': "foldM ?g es t = Some t'" "json_ok H (JObject2 t')"
    "obj_abs meaning t' = obj_abs meaning t ++ map_of (map (map_prod meaning meaning) (filter (\<lambda>e. ?q (meaning (fst e))) es))"
    unfolding map_filter_if json_ok_object2 by blast
  have "efold f es t = elift (foldM ?g es t)" by (rule efold_foldM) (simp add: assms(4) elift_def ereturn_def)
  then have "efold f es t = ereturn t'" by (simp add: t'(1) elift_def ereturn_def)
  moreover have "obj_abs meaning t' \<kappa> = (case obj_abs meaning t \<kappa> of None \<Rightarrow> map_of (map (map_prod meaning meaning) es) \<kappa> | r \<Rightarrow> r)" for \<kappa>
    using map_of_filter_keys [of meaning ?q es \<kappa>] by (auto simp: t'(3) map_add_def split: option.split)
  ultimately show ?thesis using t'(2) by blast
qed

lemma vrep_obj:
  assumes "vrep H v m"
  shows "is_obj v \<longleftrightarrow> (\<exists>F. m = MObject F)"
  using assms
proof (cases rule: vrep.cases)
  case (vrep_json j)
  then show ?thesis by (cases j) (auto simp: is_obj_def is_object_def)
qed (auto simp: is_obj_def)

lemma merged_objects:
  assumes "\<And>k v. (k, v) |\<in>| F \<longleftrightarrow> A k = Some v" "\<And>k v. (k, v) |\<in>| G \<longleftrightarrow> B k = Some v" "\<And>k v. (k, v) |\<in>| K \<longleftrightarrow> C k = Some v"
    and "joined merged A B C"
  shows "merged (MObject F) (MObject G) (MObject K)"
proof (rule merged.objects)
  have join: "case (A k, B k) of (Some x, Some y) \<Rightarrow> (\<exists>v. C k = Some v \<and> merged x y v) | (Some x, None) \<Rightarrow> C k = Some x
     | (None, r) \<Rightarrow> C k = r" for k using assms(4) by (simp add: joined_def)
  show "fst |`| K = fst |`| F |\<union>| fst |`| G"
  proof (rule fset_eqI)
    fix k show "k |\<in>| fst |`| K \<longleftrightarrow> k |\<in>| fst |`| F |\<union>| fst |`| G"
      using join [of k] keys_dom [OF assms(1), of k] keys_dom [OF assms(2), of k] keys_dom [OF assms(3), of k]
      by (auto split: option.splits)
  qed
  fix k v assume "(k, v) |\<in>| K"
  then show "(k, v) |\<in>| F \<and> k |\<notin>| fst |`| G \<or> (k, v) |\<in>| G \<and> k |\<notin>| fst |`| F \<or>
    (\<exists>x y. (k, x) |\<in>| F \<and> (k, y) |\<in>| G \<and> merged x y v)"
    unfolding keys_dom [OF assms(1)] keys_dom [OF assms(2)] unfolding assms(1-3)
    using join [of k] by (auto split: option.splits)
qed

text \<open>What a merge of two values returns.\<close>

definition merges :: "(bytes \<Rightarrow> u64) \<Rightarrow> data_value \<Rightarrow> mvalue \<Rightarrow> data_value \<Rightarrow> mvalue \<Rightarrow> bool" where
  "merges H a x b y \<longleftrightarrow> (\<exists>w z. DataOperations_ObjectMerge H a b = ereturn w \<and> vrep H w z \<and> merged y x z)"

text \<open>One step of the left loop: the value that is entered, given that nested merges are right.\<close>

lemma merge_entry:
  assumes "json_ok H k" and "json_ok H v" and "vrep H b (MObject G)"
    and "\<And>other y. vrep H other y \<Longrightarrow> merges H (VJson v) (meaning v) other y"
  shows "\<exists>c. json_ok H c \<and> (\<forall>s. ebind (objectGet H b k) (\<lambda>other. case other of
        None \<Rightarrow> elift (Insert H k v s)
      | Some other \<Rightarrow> ebind (DataOperations_ObjectMerge H (VJson v) other) (\<lambda>m. ebind (castJSON H m) (\<lambda>mj. elift (Insert H k mj s)))) =
      elift (Insert H k c s)) \<and>
    ((\<forall>y. (meaning k, y) |\<notin>| G) \<and> meaning c = meaning v \<or> (\<exists>y. (meaning k, y) |\<in>| G \<and> merged y (meaning v) (meaning c)))"
proof -
  from objectGet_rep [OF assms(3,1)] obtain r where r: "objectGet H b k = Some (Inr r)" "lookup_rep H G (meaning k) r" by blast
  show ?thesis
  proof (cases r)
    case None
    then show ?thesis using r assms(2) by (intro exI [of _ v]) (simp add: lookup_rep_def)
  next
    case (Some other)
    then obtain y where y: "(meaning k, y) |\<in>| G" "vrep H other y" using r(2) by (auto simp: lookup_rep_def)
    from assms(4) [OF y(2)] obtain w z where w: "DataOperations_ObjectMerge H (VJson v) other = ereturn w" "vrep H w z" "merged y (meaning v) z"
      by (auto simp: merges_def)
    from castJSON_rep [OF w(2)] obtain c where "castJSON H w = ereturn c" "json_ok H c" "meaning c = z" by (auto simp: JRep_def)
    then show ?thesis using r(1) Some w y(1) by (intro exI [of _ c]) auto
  qed
qed

lemma merge_objects:
  assumes "vrep H a (MObject F)" and "vrep H b (MObject G)"
    and "\<And>v other y. json_ok H v \<Longrightarrow> (\<And>j. a = VJson j \<Longrightarrow> size v < size j) \<Longrightarrow> vrep H other y \<Longrightarrow> merges H (VJson v) (meaning v) other y"
  shows "merges H a (MObject F) b (MObject G)"
proof -
  from objectIterate_rep [OF assms(1)] obtain es where es: "\<And>f s. objectIterate H a f (s :: (json \<times> json) table) = efold (\<lambda>(k, v). f k v) es s"
    "list_all (\<lambda>(k, v). json_ok H k \<and> json_ok H v) es" "distinct (map (\<lambda>e. meaning (fst e)) es)"
    "\<And>\<kappa> y. (\<kappa>, y) |\<in>| F \<longleftrightarrow> map_of (map (map_prod meaning meaning) es) \<kappa> = Some y" "\<And>j. a = VJson j \<Longrightarrow> es = entries j" by auto
  from objectIterate_rep [OF assms(2)] obtain es' where es': "\<And>f s. objectIterate H b f (s :: (json \<times> json) table) = efold (\<lambda>(k, v). f k v) es' s"
    "list_all (\<lambda>(k, v). json_ok H k \<and> json_ok H v) es'" "distinct (map (\<lambda>e. meaning (fst e)) es')"
    "\<And>\<kappa> y. (\<kappa>, y) |\<in>| G \<longleftrightarrow> map_of (map (map_prod meaning meaning) es') \<kappa> = Some y" by auto
  let ?step = "\<lambda>k v s. ebind (objectGet H b k) (\<lambda>other. case other of
        None \<Rightarrow> elift (Insert H k v s)
      | Some other \<Rightarrow> ebind (DataOperations_ObjectMerge H (VJson v) other) (\<lambda>m. ebind (castJSON H m) (\<lambda>mj. elift (Insert H k mj s))))"
  have "\<forall>e \<in> set es. \<exists>c. json_ok H c \<and> (\<forall>s. ?step (fst e) (snd e) s = elift (Insert H (fst e) c s)) \<and>
    ((\<forall>y. (meaning (fst e), y) |\<notin>| G) \<and> meaning c = meaning (snd e) \<or> (\<exists>y. (meaning (fst e), y) |\<in>| G \<and> merged y (meaning (snd e)) (meaning c)))"
  proof
    fix e assume e: "e \<in> set es"
    then have ok: "json_ok H (fst e)" "json_ok H (snd e)" using es(2) by (auto simp: list_all_iff)
    have "size (snd e) < size j" if "a = VJson j" for j
      using entries_less [of "fst e" "snd e" j] e es(5) [OF that] by simp
    from merge_entry [OF ok assms(2) assms(3) [OF ok(2) this]]
    show "\<exists>c. json_ok H c \<and> (\<forall>s. ?step (fst e) (snd e) s = elift (Insert H (fst e) c s)) \<and>
      ((\<forall>y. (meaning (fst e), y) |\<notin>| G) \<and> meaning c = meaning (snd e) \<or> (\<exists>y. (meaning (fst e), y) |\<in>| G \<and> merged y (meaning (snd e)) (meaning c)))" .
  qed
  from bchoice [OF this] obtain c where c: "\<And>e. e \<in> set es \<Longrightarrow> json_ok H (c e)"
    "\<And>e s. e \<in> set es \<Longrightarrow> ?step (fst e) (snd e) s = elift (Insert H (fst e) (c e) s)"
    "\<And>e. e \<in> set es \<Longrightarrow> (\<forall>y. (meaning (fst e), y) |\<notin>| G) \<and> meaning (c e) = meaning (snd e) \<or>
      (\<exists>y. (meaning (fst e), y) |\<in>| G \<and> merged y (meaning (snd e)) (meaning (c e)))" by auto
  have "\<exists>t. efold (\<lambda>(k, v). ?step k v) es (NewObject2 0) = ereturn t \<and> json_ok H (JObject2 t) \<and>
      obj_abs meaning t = map_of (map (\<lambda>e. (meaning (fst e), meaning (c e))) es)"
    by (rule merge_left [OF es(2,3)]) (use c(1,2) in \<open>simp_all add: case_prod_unfold\<close>)
  then obtain t where t: "efold (\<lambda>(k, v). ?step k v) es (NewObject2 0) = ereturn t" "json_ok H (JObject2 t)"
      "obj_abs meaning t = map_of (map (\<lambda>e. (meaning (fst e), meaning (c e))) es)" by blast
  have dom: "obj_abs meaning t \<kappa> = None \<longleftrightarrow> map_of (map (map_prod meaning meaning) es) \<kappa> = None" for \<kappa>
    by (simp add: t(3) map_of_eq_None_iff image_image)
  let ?step2 = "\<lambda>k v s. ebind (objectGet H a k) (\<lambda>r. if r = None then elift (Insert H k v s) else ereturn s)"
  have step2: "?step2 (fst e) (snd e) s = (if obj_abs meaning t (meaning (fst e)) = None then elift (Insert H (fst e) (snd e) s) else ereturn s)"
    if "e \<in> set es'" for e s
  proof -
    have "json_ok H (fst e)" using that es'(2) by (auto simp: list_all_iff)
    from objectGet_rep [OF assms(1) this] obtain r where "objectGet H a (fst e) = Some (Inr r)" "lookup_rep H F (meaning (fst e)) r" by blast
    then show ?thesis by (cases r) (auto simp: lookup_rep_def dom es(4))
  qed
  have "\<exists>t'. efold (\<lambda>(k, v). ?step2 k v) es' t = ereturn t' \<and> json_ok H (JObject2 t') \<and>
      (\<forall>\<kappa>. obj_abs meaning t' \<kappa> = (case obj_abs meaning t \<kappa> of None \<Rightarrow> map_of (map (map_prod meaning meaning) es') \<kappa> | r \<Rightarrow> r))"
    by (rule merge_right [OF es'(2,3) t(2)]) (use step2 in \<open>simp add: case_prod_unfold\<close>)
  then obtain t' where t': "efold (\<lambda>(k, v). ?step2 k v) es' t = ereturn t'" "json_ok H (JObject2 t')"
      "\<And>\<kappa>. obj_abs meaning t' \<kappa> = (case obj_abs meaning t \<kappa> of None \<Rightarrow> map_of (map (map_prod meaning meaning) es') \<kappa> | r \<Rightarrow> r)" by blast
  have run: "DataOperations_ObjectMerge H a b = ereturn (VJson (JObject2 t'))"
    using vrep_obj [OF assms(1)] vrep_obj [OF assms(2)] by (subst DataOperations_ObjectMerge.simps) (simp add: es(1) es'(1) t(1) t'(1))
  obtain K where K: "meaning (JObject2 t') = MObject K" by simp
  have "merged (MObject G) (MObject F) (MObject K)"
  proof (rule merged_objects)
    show "(k, v) |\<in>| G \<longleftrightarrow> map_of (map (map_prod meaning meaning) es') k = Some v" for k v by (rule es'(4))
    show "(k, v) |\<in>| F \<longleftrightarrow> map_of (map (map_prod meaning meaning) es) k = Some v" for k v by (rule es(4))
    show "(k, v) |\<in>| K \<longleftrightarrow> obj_abs meaning t' k = Some v" for k v using K unfolding meaning_object2 [OF t'(2)] by simp
    show "joined merged (map_of (map (map_prod meaning meaning) es')) (map_of (map (map_prod meaning meaning) es)) (obj_abs meaning t')"
      unfolding joined_def
    proof
      fix \<kappa>
      let ?A = "map_of (map (map_prod meaning meaning) es')" and ?B = "map_of (map (map_prod meaning meaning) es)"
      show "case (?A \<kappa>, ?B \<kappa>) of (Some x, Some y) \<Rightarrow> \<exists>v. obj_abs meaning t' \<kappa> = Some v \<and> merged x y v
        | (Some x, None) \<Rightarrow> obj_abs meaning t' \<kappa> = Some x | (None, r) \<Rightarrow> obj_abs meaning t' \<kappa> = r"
      proof (cases "?B \<kappa>")
        case None
        then show ?thesis using t'(3) [of \<kappa>] dom [of \<kappa>] by (simp split: option.split)
      next
        case (Some y)
        then obtain e where e: "e \<in> set es" "meaning (fst e) = \<kappa>" "meaning (snd e) = y" by (force dest!: map_of_SomeD)
        have "map_of (map (\<lambda>e. (meaning (fst e), meaning (c e))) es) \<kappa> = Some (meaning (c e))"
          using e es(3) by (subst map_of_eq_Some_iff) (auto simp: o_def)
        then have "obj_abs meaning t' \<kappa> = Some (meaning (c e))" using t'(3) [of \<kappa>] t(3) by simp
        then show ?thesis using c(3) [OF e(1)] e(2,3) Some es'(4) [of \<kappa>] by (auto split: option.split)
      qed
    qed
  qed
  moreover have "vrep H (VJson (JObject2 t')) (MObject K)" using vrep_json [OF t'(2)] by (simp only: K)
  ultimately show ?thesis using run by (auto simp: merges_def)
qed

lemma merge_others:
  assumes "vrep H a x" and "vrep H b y" and "\<nexists>f g. y = MObject f \<and> x = MObject g"
  shows "merges H a x b y"
proof -
  have "\<not> is_obj a \<or> \<not> is_obj b" using assms(3) vrep_obj [OF assms(1)] vrep_obj [OF assms(2)] by auto
  then have "DataOperations_ObjectMerge H a b = ereturn a" by (subst DataOperations_ObjectMerge.simps) simp
  then show ?thesis using assms merged.right [OF assms(3)] by (auto simp: merges_def)
qed

lemma merges_json:
  "json_ok H j \<Longrightarrow> vrep H b y \<Longrightarrow> merges H (VJson j) (meaning j) b y"
proof (induction "size j" arbitrary: j b y rule: less_induct)
  case less
  have a: "vrep H (VJson j) (meaning j)" using less.prems(1) by (rule vrep_json)
  show ?case
  proof (cases "\<exists>f g. y = MObject f \<and> meaning j = MObject g")
    case True
    then obtain f g where m: "y = MObject f" "meaning j = MObject g" by blast
    show ?thesis
      unfolding m
    proof (rule merge_objects)
      show "vrep H (VJson j) (MObject g)" "vrep H b (MObject f)" using a less.prems(2) m by simp_all
      fix v other y' assume "json_ok H v" "\<And>i. VJson j = VJson i \<Longrightarrow> size v < size i" "vrep H other y'"
      then show "merges H (VJson v) (meaning v) other y'" using less.hyps [of v other y'] by simp
    qed
  next
    case False
    then show ?thesis by (rule merge_others [OF a less.prems(2)])
  qed
qed

lemma merges_rep:
  assumes "vrep H a x" and "vrep H b y"
  shows "merges H a x b y"
proof (cases "\<exists>f g. y = MObject f \<and> x = MObject g")
  case True
  then show ?thesis using merge_objects [of H a _ b] assms merges_json by auto
next
  case False
  then show ?thesis by (rule merge_others [OF assms])
qed

section \<open>The operations refine operations on meanings\<close>

text \<open>Conversion: an object outside of memory that stands for an object is copied into a well-formed JSON object
  with the same meaning, and values of memory keep theirs, at any depth of nesting.\<close>

theorem castJSON_correct:
  assumes "vrep H v m"
  shows "\<exists>j. castJSON H v = ereturn j \<and> json_ok H j \<and> meaning j = m"
  using castJSON_rep [OF assms] by (simp add: JRep_def)

text \<open>An iterable object with one entry, whose value is an iterable object without entries.\<close>

definition ex_iter :: data_value where
  "ex_iter = VIterable (\<lambda>k. if k = JString [97] then Inr (Some (VIterable (\<lambda>_. Inr None) [] None)) else Inr None)
     [(VJson (JString [97]), VIterable (\<lambda>_. Inr None) [] None)] None"

lemma ex_iter_rep: "vrep H ex_iter (MObject {|(MString [97], MObject {||})|})"
proof -
  have nil: "vrep H (VIterable (\<lambda>_. Inr None) [] None) (MObject {||})"
    using vrep_iter [of H "[]" "[]" "\<lambda>_. Inr None"] by simp
  have "vrep H ex_iter (MObject (fset_of_list [(MString [97], MObject {||})]))"
    unfolding ex_iter_def
  proof (rule vrep_iter)
    fix key
    show "(if key = JString [97] then Inr (Some (VIterable (\<lambda>_. Inr None) [] None)) else Inr None) = Inr None \<and>
        map_of [(MString [97], MObject {||})] (meaning key) = None \<or>
      (\<exists>w y. (if key = JString [97] then Inr (Some (VIterable (\<lambda>_. Inr None) [] None)) else Inr None) = Inr (Some w) \<and>
        map_of [(MString [97], MObject {||})] (meaning key) = Some y \<and> vrep H w y)"
      using nil meaning_JString [of key "[97]"] by (cases "key = JString [97]") auto
  qed (use nil in \<open>simp_all\<close>)
  then show ?thesis by simp
qed

theorem castJSON_correct_witness:
  "\<exists>j. castJSON (\<lambda>_. 0) ex_iter = ereturn j \<and> json_ok (\<lambda>_. 0) j \<and> meaning j = MObject {|(MString [97], MObject {||})|}"
  by (rule castJSON_correct [OF ex_iter_rep])

text \<open>What a lookup in a value returns.  An array is indexed by a number written as a 64-bit integer.\<close>

definition key_index :: "data_value \<Rightarrow> int option" where
  "key_index key = (case key of VJson (JFloat n) \<Rightarrow> Number_Int64 n | _ \<Rightarrow> None)"

definition index_rep :: "(bytes \<Rightarrow> u64) \<Rightarrow> mvalue list \<Rightarrow> int option \<Rightarrow> data_value option \<Rightarrow> bool" where
  "index_rep H xs i r = (case i of
     Some i \<Rightarrow> if 0 \<le> i \<and> i < int (length xs) then \<exists>w. r = Some w \<and> vrep H w (xs ! nat i) else r = None
   | None \<Rightarrow> r = None)"

definition get_rep :: "(bytes \<Rightarrow> u64) \<Rightarrow> mvalue \<Rightarrow> data_value \<Rightarrow> mvalue \<Rightarrow> data_value option \<Rightarrow> bool" where
  "get_rep H m key \<kappa> r = (case m of
     MObject F \<Rightarrow> lookup_rep H F \<kappa> r
   | MSet S \<Rightarrow> (case r of None \<Rightarrow> \<kappa> |\<notin>| S | Some w \<Rightarrow> \<kappa> |\<in>| S \<and> vrep H w \<kappa>)
   | MArray xs \<Rightarrow> index_rep H xs (key_index key) r
   | _ \<Rightarrow> r = None)"

lemma Get_array:
  assumes "json_ok H (JArray xs)" and "json_ok H jkey"
  shows "index_rep H (map meaning xs) (key_index (VJson jkey)) (map_option VJson (array_at xs jkey))"
proof (cases jkey)
  case (JFloat n)
  have "json_ok H (xs ! nat i)" if "0 \<le> i" "i < int (length xs)" for i
    using assms(1) that by (simp add: list_all_length)
  then show ?thesis
    by (auto simp: JFloat index_rep_def key_index_def array_at_def split: option.split)
qed (simp_all add: index_rep_def key_index_def array_at_def)

lemma array_at_meaning:
  assumes "json_ok H (JArray xs)" and "array_at xs jkey = Some x"
  shows "\<exists>i < length xs. meaning jkey = MNumber (of_nat i) \<and> vrep H (VJson x) (meaning (xs ! i))"
proof -
  obtain n i where i: "jkey = JFloat n" "Number_Int64 n = Some i" "0 \<le> i" "i < int (length xs)" "x = xs ! nat i"
    using assms(2) by (auto simp: array_at_def split: json.splits option.splits if_splits)
  have "Number_value n = Some (of_int i)" by (rule Number_Int64_value [OF i(2)])
  then have "meaning jkey = MNumber (of_nat (nat i))" using i(1,3) by simp
  moreover have "json_ok H x" using assms(1) i by (simp add: list_all_length)
  moreover have "nat i < length xs" using i(3,4) by simp
  ultimately show ?thesis using i(5) by (auto intro!: exI [of _ "nat i"])
qed

text \<open>A key that is cast to a number is one.\<close>

lemma key_index_cast:
  assumes "vrep H key \<kappa>" and "cast H (Some key) = ereturn jkey"
  shows "key_index key = key_index (VJson jkey)"
  using assms(1)
proof (cases rule: vrep.cases)
  case (vrep_json j)
  then show ?thesis using assms(2) by (simp add: cast_def ereturn_def)
next
  case (vrep_iter kvs xys get)
  from cast_rep [OF assms(1)] assms(2) have "meaning jkey = \<kappa>" by (auto simp: JRep_def ereturn_def)
  then show ?thesis using vrep_iter by (cases jkey) (simp_all add: key_index_def)
qed

lemma Get_json_other:
  assumes "json_ok H j" and "cast H (Some key) = ereturn jkey" and "\<And>F. meaning j \<noteq> MObject F" and "\<And>S. meaning j \<noteq> MSet S"
    and "\<And>xs. j \<noteq> JArray xs"
  shows "DataOperations_Get H (Some (VJson j)) (Some key) = Some (Inr None) \<and> get_rep H (meaning j) key \<kappa> None"
  using assms by (cases j) (auto simp: DataOperations_Get_def get_rep_def cast_def ereturn_def)

lemma Get_rep:
  assumes "vrep H v m" and "vrep H key \<kappa>"
  shows "\<exists>r. DataOperations_Get H (Some v) (Some key) = Some (Inr r) \<and> get_rep H m key \<kappa> r"
proof -
  from cast_rep [OF assms(2)] obtain jkey where k: "cast H (Some key) = ereturn jkey" "json_ok H jkey" "meaning jkey = \<kappa>"
    by (auto simp: JRep_def)
  consider F where "m = MObject F" | S where "m = MSet S" | xs where "v = VJson (JArray xs)" |
    j where "v = VJson j" "json_ok H j" "meaning j = m" "\<And>F. m \<noteq> MObject F" "\<And>S. m \<noteq> MSet S" "\<And>xs. j \<noteq> JArray xs"
    using assms(1) by (cases rule: vrep.cases) (metis, blast)
  then show ?thesis
  proof cases
    case (1 F)
    then show ?thesis using DataOperations_Get_object(1) [of H v F key \<kappa>] assms by (simp add: get_rep_def)
  next
    case (2 S)
    then show ?thesis using DataOperations_Get_set [of H v S key \<kappa>] assms by (simp add: get_rep_def)
  next
    case (3 xs)
    then have "json_ok H (JArray xs)" "m = MArray (map meaning xs)" using assms(1) by simp_all
    then show ?thesis using Get_array [of H xs jkey] key_index_cast [OF assms(2) k(1)] k 3
      by (simp add: DataOperations_Get_def found_def get_rep_def)
  next
    case (4 j)
    then show ?thesis using Get_json_other [of H j key jkey \<kappa>] k(1) by auto
  qed
qed

text \<open>C25. \<open>Get\<close> on any value neither panics nor fails: on an object or a set, in memory or outside, it returns the value
  of the key or the element, or the undefined value when there is none; on an array exactly the element at the index
  that the key is, when the key is a number written as a 64-bit integer in the range, and the undefined value otherwise;
  on other values the undefined value.\<close>

theorem DataOperations_Get_correct:
  assumes "vrep H v m" and "vrep H key \<kappa>"
  shows "\<exists>r. DataOperations_Get H (Some v) (Some key) = Some (Inr r) \<and> get_rep H m key \<kappa> r"
  using assms by (rule Get_rep)

theorem DataOperations_Get_correct_witness:
  "\<exists>r. DataOperations_Get (\<lambda>_. 0) (Some ex_iter) (Some (VJson (JString [97]))) = Some (Inr r) \<and>
    get_rep (\<lambda>_. 0) (MObject {|(MString [97], MObject {||})|}) (VJson (JString [97])) (meaning (JString [97])) r"
  by (rule DataOperations_Get_correct [OF ex_iter_rep vrep_json]) simp

text \<open>Integers made by the machine are read back: as numbers, and as array indexes, where the element is returned
  exactly when the index is in range.\<close>

theorem MakeNumberInt_index:
  assumes "- (2 ^ 63) \<le> i" and "i < 2 ^ 63"
  shows "Number_Int64 (FormatInt i) = Some i \<and> meaning (MakeNumberInt i) = MNumber (of_int i) \<and>
    DataOperations_Get H (Some (VJson (JArray xs))) (Some (VJson (MakeNumberInt i))) =
      Some (Inr (if 0 \<le> i \<and> i < int (length xs) then Some (VJson (xs ! nat i)) else None))"
  using FormatInt_Int64 [OF assms] MakeNumberInt_rep [OF assms, of H]
  by (auto simp: JRep_def DataOperations_Get_def cast_def array_at_def MakeNumberInt_def found_def)

theorem MakeNumberInt_index_witness:
  "Number_Int64 (FormatInt (- 12)) = Some (- 12) \<and> meaning (MakeNumberInt (- 12)) = MNumber (of_int (- 12)) \<and>
    DataOperations_Get (\<lambda>_. 0) (Some (VJson (JArray [JNull]))) (Some (VJson (MakeNumberInt (- 12)))) = Some (Inr None)"
  using MakeNumberInt_index [of "- 12" "\<lambda>_. 0" "[JNull]"] by simp

text \<open>An iteration over a value of any kind visits each of its entries once, with index, element or key, and ends
  without an error; \<open>Len\<close> is the number of entries.\<close>

theorem DataOperations_Iter_Len:
  assumes "vrep H v m" and "int (msize m) < 2 ^ 63"
  shows "(\<exists>kvs xys. DataOperations_Iter (Some v) = (kvs, None) \<and> mentries m xys \<and>
      list_all2 (\<lambda>kv xy. vrep H (fst kv) (fst xy) \<and> vrep H (snd kv) (snd xy)) kvs xys) \<and>
    DataOperations_Len H (Some v) = ereturn (MakeNumberInt (int (msize m)))"
  using Iter_rep [OF assms] Len_rep [OF assms] by blast

theorem DataOperations_Iter_Len_witness:
  "DataOperations_Len (\<lambda>_. 0) (Some ex_iter) = ereturn (MakeNumberInt 1) \<and>
    (\<exists>kvs xys. DataOperations_Iter (Some ex_iter) = (kvs, None) \<and> mentries (MObject {|(MString [97], MObject {||})|}) xys \<and>
      list_all2 (\<lambda>kv xy. vrep (\<lambda>_. 0) (fst kv) (fst xy) \<and> vrep (\<lambda>_. 0) (snd kv) (snd xy)) kvs xys)"
  using DataOperations_Iter_Len [OF ex_iter_rep, of "\<lambda>_. 0"] by (simp add: fcard.rep_eq)

text \<open>The machine's operations that change collections refine the mathematical ones: \<open>ObjectInsert\<close> on a hash-table
  object is the update of a finite map, \<open>SetAdd\<close> insertion into a finite set, \<open>ArrayAppend\<close> appending, and
  \<open>CopyShallow\<close> keeps the meaning.\<close>

theorem changes_correct:
  assumes "vrep H v x" and "vrep H k y"
  shows "(\<forall>t F. json_ok H (JObject2 t) \<longrightarrow> meaning (JObject2 t) = MObject F \<longrightarrow>
      (\<exists>w. DataOperations_ObjectInsert H (Some (VJson (JObject2 t))) (Some k) (Some v) = Some (Inr (Some w, True)) \<and>
        vrep H w (MObject (finsert (y, x) (ffilter (\<lambda>e. fst e \<noteq> y) F))))) \<and>
    (\<forall>s S. vrep H s (MSet S) \<longrightarrow> (\<exists>w. DataOperations_SetAdd H (Some s) (Some v) = Some (Inr (Some w)) \<and> vrep H w (MSet (finsert x S)))) \<and>
    (\<forall>a xs. vrep H a (MArray xs) \<longrightarrow>
      (\<exists>w. DataOperations_ArrayAppend H (Some a) (Some v) = Some (Inr (Some w, True)) \<and> vrep H w (MArray (xs @ [x])))) \<and>
    (\<exists>w. DataOperations_CopyShallow H (Some v) = ereturn w \<and> vrep H w x)"
  using ObjectInsert_rep [of H "JObject2 _", OF _ _ assms(2,1)] SetAdd_rep [OF _ assms(1)] ArrayAppend_rep [OF _ assms(1)]
    CopyShallow_rep [OF assms(1)] unfolding fupd_def by blast

theorem changes_correct_witness:
  "\<exists>w. DataOperations_SetAdd (\<lambda>_. 0) (Some (VJson MakeSet)) (Some ex_iter) = Some (Inr (Some w)) \<and>
    vrep (\<lambda>_. 0) w (MSet {|MObject {|(MString [97], MObject {||})|}|})"
proof -
  have "vrep (\<lambda>_. 0) (VJson MakeSet) (MSet {||})" by (simp add: MakeSet_def NewSet_def)
  then show ?thesis using changes_correct [OF ex_iter_rep ex_iter_rep, of "\<lambda>_. 0"] by blast
qed

text \<open>C24. \<open>ObjectMerge\<close> of two values, in memory or outside, is the deep merge in which the left value wins: the
  union of \<open>UnionObjects\<close> with the operands exchanged.\<close>

theorem ObjectMerge_correct:
  assumes "vrep H a x" and "vrep H b y"
  shows "\<exists>w z. DataOperations_ObjectMerge H a b = ereturn w \<and> vrep H w z \<and> merged y x z"
  using merges_rep [OF assms] by (simp add: merges_def)

theorem ObjectMerge_correct_witness:
  "\<exists>w z. DataOperations_ObjectMerge (\<lambda>_. 0) (VJson (JObject [([97], JNull)])) ex_iter = ereturn w \<and> vrep (\<lambda>_. 0) w z \<and>
    merged (MObject {|(MString [97], MObject {||})|}) (meaning (JObject [([97], JNull)])) z"
  by (rule ObjectMerge_correct [OF vrep_json ex_iter_rep]) simp

end
