(* ===== verification/Builtins.thy ===== *)
theory Builtins
  imports Data_Ops VM_Invariant
begin

text \<open>
  The builtin functions that the machine implements itself (src/pkg/vm/builtins.go) and their table
  (\<open>specializedBuiltinsByNum\<close> of compiler.go), on the values of \<open>Data_Ops\<close> and the state of the machine.

  A builtin sets the return value of the state, appends to the builtin errors, returns an error, or leaves the
  state alone: its result is undefined then.  \<open>None\<close> is a panic.  The messages of operand errors are made by OPA
  from an AST value; here the error keeps the position, the value and the expected types.
  \<open>sprintf\<close>, \<open>json.unmarshal\<close> and, because of its cache outside of the state, the call of \<open>glob.match\<close> in
  the table are parameters.
\<close>

section \<open>Outcomes\<close>

datatype builtin_error =
    DataErr data_error
  | OperandTypeErr nat data_value "gostring list"
  | OperandErr nat gostring
  | CancelErr gostring

type_synonym 'a bstate = "(data_value, 'a, builtin_error) State"
type_synonym 'a boutcome = "(builtin_error vm_error option \<times> 'a bstate) option"

definition returns :: "data_value option \<Rightarrow> 'a bstate \<Rightarrow> 'a boutcome" where
  "returns v s = Some (None, State_SetReturnValue Unused v s)"

definition undefined_result :: "'a bstate \<Rightarrow> 'a boutcome" where
  "undefined_result s = Some (None, s)"

definition fails :: "data_error \<Rightarrow> 'a bstate \<Rightarrow> 'a boutcome" where
  "fails e s = Some (Some (OpError (DataErr e)), s)"

definition add_builtin_error :: "builtin_error \<Rightarrow> 'a bstate \<Rightarrow> 'a boutcome" where
  "add_builtin_error e s = Some (None, map_globals (\<lambda>g. g\<lparr>g_BuiltinErrors := g_BuiltinErrors g @ [OpError e]\<rparr>) s)"

text \<open>The continuation after an operation on values.\<close>

definition continue_with :: "(data_error + 'x) option \<Rightarrow> 'a bstate \<Rightarrow> ('x \<Rightarrow> 'a boutcome) \<Rightarrow> 'a boutcome" where
  "continue_with m s f = (case m of None \<Rightarrow> None | Some (Inl e) \<Rightarrow> fails e s | Some (Inr x) \<Rightarrow> f x)"

lemma continue_with_simps [simp]:
  "continue_with None s f = None" "continue_with (Some (Inl e)) s f = fails e s" "continue_with (Some (Inr x)) s f = f x"
  "continue_with (ereturn x) s f = f x"
  by (simp_all add: continue_with_def ereturn_def)

text \<open>\<open>ToAST\<close>: the conversion to an AST value fails when the iteration over an object outside of memory does.\<close>

fun ToAST_error :: "data_value \<Rightarrow> data_error option" where
  "ToAST_error (VJson _) = None"
| "ToAST_error (VIterable get kvs err) =
     (case List.find (\<lambda>r. r \<noteq> None) (concat (map (\<lambda>(k, v). [ToAST_error k, ToAST_error v]) kvs)) of
        Some e \<Rightarrow> e
      | None \<Rightarrow> err)"

definition operand_error :: "nat \<Rightarrow> data_value \<Rightarrow> gostring list \<Rightarrow> 'a bstate \<Rightarrow> 'a boutcome" where
  "operand_error pos v expected s = (case ToAST_error v of
     Some e \<Rightarrow> fails e s
   | None \<Rightarrow> add_builtin_error (OperandTypeErr pos v expected) s)"

section \<open>Operands\<close>

text \<open>\<open>Inr\<close> is the operand, \<open>Inl\<close> what the builtin ends with.\<close>

definition builtinStringOperand :: "'a bstate \<Rightarrow> data_value \<Rightarrow> nat \<Rightarrow> 'a boutcome + gostring" where
  "builtinStringOperand s v pos = (case v of
     VJson (JString x) \<Rightarrow> Inr x
   | _ \<Rightarrow> Inl (operand_error pos v [str ''string''] s))"

definition builtinObjectOperand :: "'a bstate \<Rightarrow> data_value \<Rightarrow> nat \<Rightarrow> 'a boutcome option" where
  "builtinObjectOperand s v pos = (if is_obj v then None else Some (operand_error pos v [str ''object''] s))"

definition builtinArrayOperand :: "'a bstate \<Rightarrow> data_value \<Rightarrow> nat \<Rightarrow> 'a boutcome + json list" where
  "builtinArrayOperand s v pos = (case v of
     VJson (JArray xs) \<Rightarrow> Inr xs
   | _ \<Rightarrow> Inl (operand_error pos v [str ''array''] s))"

definition builtinNumberOperand :: "'a bstate \<Rightarrow> data_value \<Rightarrow> nat \<Rightarrow> 'a boutcome + gostring" where
  "builtinNumberOperand s v pos = (case v of
     VJson (JFloat x) \<Rightarrow> Inr x
   | _ \<Rightarrow> Inl (operand_error pos v [str ''number''] s))"

definition builtinIntegerOperand :: "'a bstate \<Rightarrow> data_value \<Rightarrow> nat \<Rightarrow> 'a boutcome + int" where
  "builtinIntegerOperand s v pos = (case builtinNumberOperand s v pos of
     Inl r \<Rightarrow> Inl r
   | Inr f \<Rightarrow> (case Number_Int64 f of
       None \<Rightarrow> Inl (add_builtin_error (OperandErr pos (str ''must be integer number but got floating-point number'')) s)
     | Some i \<Rightarrow> Inr i))"

text \<open>\<open>builtinSetOperand\<close> returns an empty set together with the error when the conversion of the operand for
  the message fails, and nil without an error when the operand is not a set.\<close>

definition builtinSetOperand :: "'a bstate \<Rightarrow> data_value \<Rightarrow> nat \<Rightarrow> json table option \<times> data_error option \<times> 'a bstate" where
  "builtinSetOperand s v pos = (case v of
     VJson (JSet t) \<Rightarrow> (Some t, None, s)
   | _ \<Rightarrow> (case ToAST_error v of
       Some e \<Rightarrow> (Some (NewSet 0), Some e, s)
     | None \<Rightarrow> (None, None, map_globals (\<lambda>g. g\<lparr>g_BuiltinErrors := g_BuiltinErrors g @ [OpError (OperandTypeErr pos v [str ''set''])]\<rparr>) s)))"

text \<open>The value of a double, and \<open>int\<close> of it; Go leaves the conversion open outside of the range of \<open>int\<close>,
  where it is the parameter \<open>conv\<close>.\<close>

definition float64_value :: "u64 \<Rightarrow> rat" where
  "float64_value w = (let b = uint w mod 2 ^ 63; e = b div 2 ^ 52; m = b mod 2 ^ 52;
       q = (if e = 0 then of_int m / 2 ^ 1074 else scale2 (of_int (2 ^ 52 + m)) (1075 - e))
     in if bit w 63 then - q else q)"

definition int_of_float :: "(rat \<Rightarrow> int) \<Rightarrow> rat \<Rightarrow> int" where
  "int_of_float conv q = (let i = (if q < 0 then - \<lfloor>- q\<rfloor> else \<lfloor>q\<rfloor>) in if - (2 ^ 63) \<le> i \<and> i < 2 ^ 63 then i else conv q)"

definition builtinIntegerOperandNonStrict :: "(rat \<Rightarrow> int) \<Rightarrow> 'a bstate \<Rightarrow> data_value \<Rightarrow> nat \<Rightarrow> 'a boutcome + int" where
  "builtinIntegerOperandNonStrict conv s v pos = (case builtinNumberOperand s v pos of
     Inl r \<Rightarrow> Inl r
   | Inr f \<Rightarrow> (case Number_Float64 f of
       None \<Rightarrow> Inl (add_builtin_error (OperandErr pos (str ''must be integer number'')) s)
     | Some w \<Rightarrow> let i = float64_value w in
         if of_int \<lfloor>i\<rfloor> \<noteq> i
         then Inl (add_builtin_error (OperandErr pos (str ''must be integer number but got floating-point number'')) s)
         else Inr (int_of_float conv i)))"

section \<open>Membership\<close>

text \<open>Errors of the comparison are dropped, and the iteration stops at the first match.\<close>

fun member_loop :: "(bytes \<Rightarrow> u64) \<Rightarrow> data_value \<Rightarrow> (data_value \<times> data_value) list \<Rightarrow> bool option" where
  "member_loop H x [] = Some False"
| "member_loop H x ((_, v) # kvs) = (case DataOperations_Equal H (Some x) (Some v) of
     None \<Rightarrow> None
   | Some (Inl _) \<Rightarrow> member_loop H x kvs
   | Some (Inr eq) \<Rightarrow> if eq then Some True else member_loop H x kvs)"

definition memberBuiltin :: "(bytes \<Rightarrow> u64) \<Rightarrow> data_value option list \<Rightarrow> 'a bstate \<Rightarrow> 'a boutcome" where
  "memberBuiltin H args s = (case args of
     Some x # Some coll # _ \<Rightarrow>
       (let (kvs, err) = DataOperations_Iter (Some coll) in
        case member_loop H x kvs of
          None \<Rightarrow> None
        | Some hit \<Rightarrow> (case (hit, err) of
            (False, Some e) \<Rightarrow> fails e s
          | _ \<Rightarrow> returns (Some (VJson (MakeBoolean hit))) s))
   | _ # _ # _ \<Rightarrow> undefined_result s
   | _ \<Rightarrow> None)"

definition memberWithKeyBuiltin :: "(bytes \<Rightarrow> u64) \<Rightarrow> data_value option list \<Rightarrow> 'a bstate \<Rightarrow> 'a boutcome" where
  "memberWithKeyBuiltin H args s = (case args of
     Some key # Some x # Some coll # _ \<Rightarrow>
       continue_with (DataOperations_Get H (Some coll) (Some key)) s (\<lambda>v. case v of
         None \<Rightarrow> returns (Some (VJson (MakeBoolean False))) s
       | Some v \<Rightarrow> continue_with (DataOperations_Equal H (Some x) (Some v)) s (\<lambda>eq. returns (Some (VJson (MakeBoolean eq))) s))
   | _ # _ # _ # _ \<Rightarrow> undefined_result s
   | _ \<Rightarrow> None)"

section \<open>Objects\<close>

definition objectGetBuiltinKey :: "(bytes \<Rightarrow> u64) \<Rightarrow> data_value \<Rightarrow> data_value \<Rightarrow> data_value \<Rightarrow> 'a bstate \<Rightarrow> 'a boutcome" where
  "objectGetBuiltinKey H obj key def s =
     continue_with (DataOperations_ObjectGet H (Some obj) (Some key)) s (\<lambda>v. case v of
       Some v \<Rightarrow> returns (Some v) s
     | None \<Rightarrow> returns (Some def) s)"

text \<open>The loop over the path: errors count as not found.\<close>

fun path_loop :: "(bytes \<Rightarrow> u64) \<Rightarrow> data_value \<Rightarrow> (data_value \<times> data_value) list \<Rightarrow> data_value option option" where
  "path_loop H obj [] = Some (Some obj)"
| "path_loop H obj ((_, key) # kvs) = (case DataOperations_Get H (Some obj) (Some key) of
     None \<Rightarrow> None
   | Some (Inr (Some v)) \<Rightarrow> path_loop H v kvs
   | _ \<Rightarrow> Some None)"

definition objectGetBuiltin :: "(bytes \<Rightarrow> u64) \<Rightarrow> data_value option list \<Rightarrow> 'a bstate \<Rightarrow> 'a boutcome" where
  "objectGetBuiltin H args s = (case args of
     Some obj # Some path # Some def # _ \<Rightarrow>
       continue_with (DataOperations_IsObject H (Some obj)) s (\<lambda>isObj.
         if \<not> isObj then operand_error 1 obj [str ''object''] s else
         continue_with (DataOperations_IsArray H (Some path)) s (\<lambda>isPath.
           if \<not> isPath then objectGetBuiltinKey H obj path def s else
           continue_with (DataOperations_Len H (Some path)) s (\<lambda>len.
           continue_with (DataOperations_Equal H (Some (VJson len)) (Some (VJson MakeNumberZero))) s (\<lambda>eq.
             if eq then returns (Some obj) s else
             let (kvs, err) = DataOperations_Iter (Some path) in
             case path_loop H obj kvs of
               None \<Rightarrow> None
             | Some (Some v) \<Rightarrow> (case err of Some e \<Rightarrow> fails e s | None \<Rightarrow> returns (Some v) s)
             | Some None \<Rightarrow> returns (Some def) s))))
   | _ # _ # _ # _ \<Rightarrow> undefined_result s
   | _ \<Rightarrow> None)"

definition objectKeysBuiltin :: "(bytes \<Rightarrow> u64) \<Rightarrow> data_value option list \<Rightarrow> 'a bstate \<Rightarrow> 'a boutcome" where
  "objectKeysBuiltin H args s = (case args of
     Some obj # _ \<Rightarrow> (case builtinObjectOperand s obj 1 of
         Some r \<Rightarrow> r
       | None \<Rightarrow>
           let (kvs, err) = DataOperations_Iter (Some obj) in
           continue_with (ebind (efold (\<lambda>(key, _) set. DataOperations_SetAdd H set (Some key)) kvs (Some (VJson MakeSet))) (end_iter err)) s
             (\<lambda>set. returns set s))
   | None # _ \<Rightarrow> undefined_result s
   | _ \<Rightarrow> None)"

text \<open>The test of \<open>objectSelect\<close>: \<open>Inl\<close> when the collection is of no kind it supports.\<close>

definition selected :: "(bytes \<Rightarrow> u64) \<Rightarrow> data_value \<Rightarrow> (unit + (json \<Rightarrow> (data_error + bool) option)) option" where
  "selected H coll = (case coll of
     VIterable get _ _ \<Rightarrow> Some (Inr (\<lambda>key. Some (map_sum id (\<lambda>r. r \<noteq> None) (get key))))
   | VJson (JObject2 t) \<Rightarrow> Some (Inr (\<lambda>key. elift (map_option (\<lambda>r. r \<noteq> None) (Object2_Get (equalOp H) (hash H) key t))))
   | VJson (JObject kvs) \<Rightarrow> Some (Inr (\<lambda>key. ereturn (object_at kvs key \<noteq> None)))
   | VJson (JSet t) \<Rightarrow> Some (Inr (\<lambda>key. elift (map_option (\<lambda>r. r \<noteq> None) (Set_Get (equalOp H) (hash H) key t))))
   | VJson (JArray xs) \<Rightarrow> map_option (\<lambda>t. Inr (\<lambda>key. elift (map_option (\<lambda>r. r \<noteq> None) (Set_Get (equalOp H) (hash H) key t))))
       (foldM (Set_Add (equalOp H) (hash H)) xs (NewSet 0))
   | _ \<Rightarrow> Some (Inl ()))"

definition objectSelect :: "(bytes \<Rightarrow> u64) \<Rightarrow> data_value option list \<Rightarrow> bool \<Rightarrow> 'a bstate \<Rightarrow> 'a boutcome" where
  "objectSelect H args keep s = (case args of
     Some obj # Some coll # _ \<Rightarrow> (case builtinObjectOperand s obj 1 of
         Some r \<Rightarrow> r
       | None \<Rightarrow> (case selected H coll of
           None \<Rightarrow> None
         | Some (Inl _) \<Rightarrow> operand_error 2 coll [str ''object'', str ''set'', str ''array''] s
         | Some (Inr sel) \<Rightarrow>
             let (kvs, err) = DataOperations_Iter (Some obj) in
             continue_with (ebind (efold (\<lambda>(k, v) result.
                 ebind (castJSON H k) (\<lambda>key.
                 ebind (castJSON H v) (\<lambda>value.
                 ebind (sel key) (\<lambda>ok.
                   if ok = keep then elift (Insert H key value result) else ereturn result)))) kvs (NewObject2 0)) (end_iter err)) s
               (\<lambda>result. returns (Some (VJson (JObject2 result))) s)))
   | _ # _ # _ \<Rightarrow> undefined_result s
   | _ \<Rightarrow> None)"

definition objectRemoveBuiltin :: "(bytes \<Rightarrow> u64) \<Rightarrow> data_value option list \<Rightarrow> 'a bstate \<Rightarrow> 'a boutcome" where
  "objectRemoveBuiltin H args s = objectSelect H args False s"

definition objectFilterBuiltin :: "(bytes \<Rightarrow> u64) \<Rightarrow> data_value option list \<Rightarrow> 'a bstate \<Rightarrow> 'a boutcome" where
  "objectFilterBuiltin H args s = objectSelect H args True s"

definition objectUnionBuiltin :: "(bytes \<Rightarrow> u64) \<Rightarrow> data_value option list \<Rightarrow> 'a bstate \<Rightarrow> 'a boutcome" where
  "objectUnionBuiltin H args s = (case args of
     Some a # Some b # _ \<Rightarrow> (case builtinObjectOperand s a 1 of
         Some r \<Rightarrow> r
       | None \<Rightarrow> (case builtinObjectOperand s b 2 of
           Some r \<Rightarrow> r
         | None \<Rightarrow>
             continue_with (castJSON H a) s (\<lambda>arg0.
             continue_with (castJSON H b) s (\<lambda>arg1.
               (case UnionObjects H arg0 arg1 of None \<Rightarrow> None | Some result \<Rightarrow> returns (Some (VJson result)) s)))))
   | _ # _ # _ \<Rightarrow> undefined_result s
   | _ \<Rightarrow> None)"

section \<open>Strings\<close>

text \<open>\<open>strings.Join\<close>.\<close>

fun Join :: "gostring list \<Rightarrow> gostring \<Rightarrow> gostring" where
  "Join [] sep = []"
| "Join [x] sep = x"
| "Join (x # xs) sep = x @ sep @ Join xs sep"

definition string_of :: "json \<Rightarrow> gostring option" where
  "string_of j = (case j of JString x \<Rightarrow> Some x | _ \<Rightarrow> None)"

text \<open>The strings of the elements, or the first element that is not a string.\<close>

fun strings_of :: "json list \<Rightarrow> json + gostring list" where
  "strings_of [] = Inr []"
| "strings_of (j # js) = (case string_of j of
     None \<Rightarrow> Inl j
   | Some x \<Rightarrow> map_sum id ((#) x) (strings_of js))"

definition stringsConcatBuiltin :: "data_value option list \<Rightarrow> 'a bstate \<Rightarrow> 'a boutcome" where
  "stringsConcatBuiltin args s = (case args of
     Some sep # Some coll # _ \<Rightarrow> (case builtinStringOperand s sep 1 of
         Inl r \<Rightarrow> r
       | Inr join \<Rightarrow> (case coll of
           VJson (JArray xs) \<Rightarrow> (case strings_of xs of
               Inl j \<Rightarrow> operand_error 2 (VJson j) [str ''string''] s
             | Inr strs \<Rightarrow> returns (Some (VJson (MakeString (Join strs join)))) s)
         | VJson (JSet t) \<Rightarrow> (case strings_of (table_elems t) of
               Inl j \<Rightarrow> operand_error 2 (VJson j) [str ''string''] s
             | Inr strs \<Rightarrow> returns (Some (VJson (MakeString (Join (sort strs) join)))) s)
         | _ \<Rightarrow> operand_error 2 coll [str ''set'', str ''array''] s))
   | _ # _ # _ \<Rightarrow> undefined_result s
   | _ \<Rightarrow> None)"

definition HasPrefix :: "gostring \<Rightarrow> gostring \<Rightarrow> bool" where
  "HasPrefix x pre \<longleftrightarrow> length pre \<le> length x \<and> take (length pre) x = pre"

definition HasSuffix :: "gostring \<Rightarrow> gostring \<Rightarrow> bool" where
  "HasSuffix x suf \<longleftrightarrow> length suf \<le> length x \<and> drop (length x - length suf) x = suf"

definition stringsEndsWithBuiltin :: "data_value option list \<Rightarrow> 'a bstate \<Rightarrow> 'a boutcome" where
  "stringsEndsWithBuiltin args s = (case args of
     Some a # Some b # _ \<Rightarrow> (case builtinStringOperand s a 1 of
         Inl r \<Rightarrow> r
       | Inr x \<Rightarrow> (case builtinStringOperand s b 2 of
           Inl r \<Rightarrow> r
         | Inr suf \<Rightarrow> returns (Some (VJson (MakeBoolean (HasSuffix x suf)))) s))
   | _ # _ # _ \<Rightarrow> undefined_result s
   | _ \<Rightarrow> None)"

definition stringsStartsWithBuiltin :: "data_value option list \<Rightarrow> 'a bstate \<Rightarrow> 'a boutcome" where
  "stringsStartsWithBuiltin args s = (case args of
     Some a # Some b # _ \<Rightarrow> (case builtinStringOperand s a 1 of
         Inl r \<Rightarrow> r
       | Inr x \<Rightarrow> (case builtinStringOperand s b 2 of
           Inl r \<Rightarrow> r
         | Inr pre \<Rightarrow> returns (Some (VJson (MakeBoolean (HasPrefix x pre)))) s))
   | _ # _ # _ \<Rightarrow> undefined_result s
   | _ \<Rightarrow> None)"

text \<open>The length of the rune at the start of a string, as \<open>utf8.DecodeRune\<close> finds it: a byte that starts no valid
  encoding is a rune of its own.\<close>

definition continuation :: "u8 \<Rightarrow> bool" where
  "continuation b \<longleftrightarrow> 128 \<le> b \<and> b \<le> 191"

definition second_ok :: "u8 \<Rightarrow> u8 \<Rightarrow> bool" where
  "second_ok b c \<longleftrightarrow> (if b = 224 then 160 \<le> c \<and> c \<le> 191 else if b = 237 then 128 \<le> c \<and> c \<le> 159
     else if b = 240 then 144 \<le> c \<and> c \<le> 191 else if b = 244 then 128 \<le> c \<and> c \<le> 143 else continuation c)"

definition rune_len :: "bytes \<Rightarrow> nat" where
  "rune_len x = (case x of
     b # c # d # e # _ \<Rightarrow>
       if 194 \<le> b \<and> b \<le> 223 \<and> continuation c then 2
       else if 224 \<le> b \<and> b \<le> 239 \<and> second_ok b c \<and> continuation d then 3
       else if 240 \<le> b \<and> b \<le> 244 \<and> second_ok b c \<and> continuation d \<and> continuation e then 4 else 1
   | [b, c, d] \<Rightarrow>
       if 194 \<le> b \<and> b \<le> 223 \<and> continuation c then 2
       else if 224 \<le> b \<and> b \<le> 239 \<and> second_ok b c \<and> continuation d then 3 else 1
   | [b, c] \<Rightarrow> if 194 \<le> b \<and> b \<le> 223 \<and> continuation c then 2 else 1
   | _ \<Rightarrow> 1)"

lemma rune_len_pos: "0 < rune_len x"
  by (simp add: rune_len_def split: list.split)

text \<open>\<open>len([]rune(s))\<close>.\<close>

function rune_count :: "bytes \<Rightarrow> nat" where
  "rune_count x = (if x = [] then 0 else Suc (rune_count (drop (rune_len x) x)))"
  by pat_completeness auto
termination by (relation "measure length") (auto simp: rune_len_pos)

declare rune_count.simps [simp del]

definition countBuiltin :: "data_value option list \<Rightarrow> 'a bstate \<Rightarrow> 'a boutcome" where
  "countBuiltin args s = (case args of
     Some a # _ \<Rightarrow> (case a of
         VJson (JArray xs) \<Rightarrow> returns (Some (VJson (MakeNumberInt (int (length xs))))) s
       | VJson (JObject kvs) \<Rightarrow> returns (Some (VJson (MakeNumberInt (int (length kvs))))) s
       | VJson (JObject2 t) \<Rightarrow> returns (Some (VJson (MakeNumberInt (int (table_len t))))) s
       | VIterable _ kvs err \<Rightarrow> (case err of
             None \<Rightarrow> returns (Some (VJson (MakeNumberInt (int (length kvs))))) s
           | Some e \<Rightarrow> fails e s)
       | VJson (JSet t) \<Rightarrow> returns (Some (VJson (MakeNumberInt (int (table_len t))))) s
       | VJson (JString x) \<Rightarrow> returns (Some (VJson (MakeNumberInt (int (rune_count x))))) s
       | _ \<Rightarrow> operand_error 1 a [str ''array'', str ''object'', str ''set'', str ''string''] s)
   | None # _ \<Rightarrow> undefined_result s
   | _ \<Rightarrow> None)"

section \<open>Arrays\<close>

definition concat_step :: "(bytes \<Rightarrow> u64) \<Rightarrow> data_value \<times> data_value \<Rightarrow> data_value option \<Rightarrow> (data_error + data_value option) option" where
  "concat_step H = (\<lambda>(_, v) ret.
     ebind (DataOperations_CopyShallow H (Some v)) (\<lambda>v.
     ebind (DataOperations_ArrayAppend H ret (Some v)) (\<lambda>(ret, _). ereturn ret)))"

definition arrayConcatBuiltin :: "(bytes \<Rightarrow> u64) \<Rightarrow> data_value option list \<Rightarrow> 'a bstate \<Rightarrow> 'a boutcome" where
  "arrayConcatBuiltin H args s = (case args of
     Some x # Some y # _ \<Rightarrow> (case builtinArrayOperand s x 1 of
         Inl r \<Rightarrow> r
       | Inr a \<Rightarrow> (case builtinArrayOperand s y 2 of
           Inl r \<Rightarrow> r
         | Inr b \<Rightarrow>
             continue_with (efold (\<lambda>arr ret.
                 let (kvs, err) = DataOperations_Iter (Some (VJson (JArray arr)))
                 in ebind (efold (concat_step H) kvs ret) (end_iter err)) [a, b] (Some (VJson (MakeArray 0)))) s
               (\<lambda>ret. returns ret s)))
   | _ # _ # _ \<Rightarrow> undefined_result s
   | _ \<Rightarrow> None)"

definition arraySliceBuiltin :: "data_value option list \<Rightarrow> 'a bstate \<Rightarrow> 'a boutcome" where
  "arraySliceBuiltin args s = (case args of
     Some x # Some y # Some z # _ \<Rightarrow> (case builtinIntegerOperand s y 2 of
         Inl r \<Rightarrow> r
       | Inr start \<Rightarrow> (case builtinIntegerOperand s z 3 of
           Inl r \<Rightarrow> r
         | Inr stop \<Rightarrow> (case builtinArrayOperand s x 1 of
             Inl r \<Rightarrow> r
           | Inr arr \<Rightarrow>
               let start = (if start < 0 then 0 else start);
                   stop = (if stop > int (length arr) then int (length arr) else stop)
               in if stop < start then returns (Some (VJson (MakeArray 0))) s
                  else returns (Some (VJson (JArray (take (nat (stop - start)) (drop (nat start) arr))))) s)))
   | _ # _ # _ # _ \<Rightarrow> undefined_result s
   | _ \<Rightarrow> None)"

section \<open>Walk\<close>

text \<open>The walk appends to the array \<open>arr\<close>; its result is that array, nil when an append to it failed, and the
  error.\<close>

type_synonym walk_result = "(data_value option \<times> data_error option) option"

definition walk_record :: "(bytes \<Rightarrow> u64) \<Rightarrow> data_value option \<Rightarrow> data_value \<Rightarrow> data_value option \<Rightarrow> walk_result" where
  "walk_record H path val arr = (case DataOperations_ArrayAppend H (Some (VJson (MakeArray 2))) path of
     None \<Rightarrow> None
   | Some (Inl e) \<Rightarrow> Some (arr, Some e)
   | Some (Inr (tuple, _)) \<Rightarrow> (case DataOperations_ArrayAppend H tuple (Some val) of
       None \<Rightarrow> None
     | Some (Inl e) \<Rightarrow> Some (arr, Some e)
     | Some (Inr (tuple, _)) \<Rightarrow> (case DataOperations_ArrayAppend H arr tuple of
         None \<Rightarrow> None
       | Some (Inl e) \<Rightarrow> Some (None, Some e)
       | Some (Inr (arr, _)) \<Rightarrow> Some (arr, None))))"

fun walk_fold :: "('x \<Rightarrow> data_value option \<Rightarrow> walk_result) \<Rightarrow> 'x list \<Rightarrow> data_value option \<Rightarrow> walk_result" where
  "walk_fold f [] arr = Some (arr, None)"
| "walk_fold f (x # xs) arr = (case f x arr of
     None \<Rightarrow> None
   | Some (arr, Some e) \<Rightarrow> Some (arr, Some e)
   | Some (arr, None) \<Rightarrow> walk_fold f xs arr)"

lemma walk_fold_cong [fundef_cong]:
  "xs = ys \<Longrightarrow> a = b \<Longrightarrow> (\<And>x a. x \<in> set ys \<Longrightarrow> f x a = g x a) \<Longrightarrow> walk_fold f xs a = walk_fold g ys b"
  by (induction ys arbitrary: xs a b) (auto split: option.split prod.split)

text \<open>Values below a value are smaller.\<close>

fun vsize :: "data_value \<Rightarrow> nat" where
  "vsize (VJson j) = Suc (size j)"
| "vsize (VIterable get kvs err) = Suc (sum_list (map (\<lambda>(k, v). vsize k + vsize v) kvs))"

lemma Iter_less:
  assumes "(k, v) \<in> set (fst (DataOperations_Iter (Some w)))"
  shows "vsize v < vsize w"
proof (cases w)
  case (VJson j)
  show ?thesis
  proof (cases j)
    case (JArray xs)
    then have "\<exists>x \<in> set xs. v = VJson x" using assms by (auto simp: VJson DataOperations_Iter_def dest: set_zip_rightD)
    then show ?thesis using json_less(1) by (auto simp: VJson JArray simp del: json.size)
  next
    case (JSet t)
    then show ?thesis using assms json_less(3) by (auto simp: VJson DataOperations_Iter_def simp del: json.size)
  next
    case (JObject kvs)
    then show ?thesis using assms json_less(2) by (auto simp: VJson DataOperations_Iter_def simp del: json.size)
  next
    case (JObject2 t)
    then show ?thesis using assms json_less(5) by (force simp: VJson DataOperations_Iter_def simp del: json.size)
  qed (use assms in \<open>auto simp: VJson DataOperations_Iter_def\<close>)
next
  case (VIterable get kvs err)
  then have "(k, v) \<in> set kvs" using assms by (simp add: DataOperations_Iter_def)
  then have "vsize k + vsize v \<le> sum_list (map (\<lambda>(k, v). vsize k + vsize v) kvs)"
    by (intro member_le_sum_list) (force, simp)
  then show ?thesis by (simp add: VIterable)
qed

function walk_do :: "(bytes \<Rightarrow> u64) \<Rightarrow> data_value option \<Rightarrow> data_value \<Rightarrow> data_value option \<Rightarrow> walk_result" where
  "walk_do H path val arr = (case walk_record H path val arr of
     None \<Rightarrow> None
   | Some (arr, Some e) \<Rightarrow> Some (arr, Some e)
   | Some (arr, None) \<Rightarrow>
       (case walk_fold (\<lambda>(k, v) arr. case DataOperations_CopyShallow H path of
            None \<Rightarrow> None
          | Some (Inl e) \<Rightarrow> Some (arr, Some e)
          | Some (Inr p) \<Rightarrow> (case DataOperations_ArrayAppend H (Some p) (Some k) of
              None \<Rightarrow> None
            | Some (Inl e) \<Rightarrow> Some (arr, Some e)
            | Some (Inr (p, _)) \<Rightarrow> walk_do H p v arr)) (fst (DataOperations_Iter (Some val))) arr of
          None \<Rightarrow> None
        | Some (arr, Some e) \<Rightarrow> Some (arr, Some e)
        | Some (arr, None) \<Rightarrow> Some (arr, snd (DataOperations_Iter (Some val)))))"
  by pat_completeness auto
termination by (relation "measure (\<lambda>(_, _, v, _). vsize v)") (auto dest: Iter_less)

declare walk_do.simps [simp del]

definition walkBuiltin :: "(bytes \<Rightarrow> u64) \<Rightarrow> data_value option list \<Rightarrow> 'a bstate \<Rightarrow> 'a boutcome" where
  "walkBuiltin H args s = (case args of
     Some x # _ \<Rightarrow> (case walk_do H (Some (VJson (MakeArray 0))) x (Some (VJson (MakeArray 0))) of
         None \<Rightarrow> None
       | Some (arr, err) \<Rightarrow> Some (map_option (\<lambda>e. OpError (DataErr e)) err, State_SetReturnValue Unused arr s))
   | None # _ \<Rightarrow> undefined_result s
   | _ \<Rightarrow> None)"

section \<open>Comparison, union of sets, types\<close>

definition equalBuiltin :: "(bytes \<Rightarrow> u64) \<Rightarrow> data_value option list \<Rightarrow> 'a bstate \<Rightarrow> 'a boutcome" where
  "equalBuiltin H args s = (case args of
     Some x # Some y # _ \<Rightarrow>
       continue_with (castJSON H x) s (\<lambda>a.
       continue_with (castJSON H y) s (\<lambda>b.
         (case equalOp H a b of None \<Rightarrow> None | Some eq \<Rightarrow> returns (Some (VJson (MakeBoolean eq))) s)))
   | _ # _ # _ \<Rightarrow> undefined_result s
   | _ \<Rightarrow> None)"

definition notEqualBuiltin :: "(bytes \<Rightarrow> u64) \<Rightarrow> data_value option list \<Rightarrow> 'a bstate \<Rightarrow> 'a boutcome" where
  "notEqualBuiltin H args s = (case args of
     Some x # Some y # _ \<Rightarrow>
       continue_with (castJSON H x) s (\<lambda>a.
       continue_with (castJSON H y) s (\<lambda>b.
         (case equalOp H a b of None \<Rightarrow> None | Some eq \<Rightarrow> returns (Some (VJson (MakeBoolean (\<not> eq)))) s)))
   | _ # _ # _ \<Rightarrow> undefined_result s
   | _ \<Rightarrow> None)"

text \<open>The error of an operand is returned only together with a nil set.\<close>

definition binaryOrBuiltin :: "(bytes \<Rightarrow> u64) \<Rightarrow> data_value option list \<Rightarrow> 'a bstate \<Rightarrow> 'a boutcome" where
  "binaryOrBuiltin H args s = (case args of
     Some x # Some y # _ \<Rightarrow> (case builtinSetOperand s x 1 of
         (None, err, s) \<Rightarrow> Some (map_option (\<lambda>e. OpError (DataErr e)) err, s)
       | (Some a, _, s) \<Rightarrow> (case builtinSetOperand s y 2 of
           (None, err, s) \<Rightarrow> Some (map_option (\<lambda>e. OpError (DataErr e)) err, s)
         | (Some b, _, s) \<Rightarrow>
             let n = max (table_len a) (table_len b) in
             (case Set_MergeWith (equalOp H) (NewSet n) a of
                None \<Rightarrow> None
              | Some result \<Rightarrow> (case Set_MergeWith (equalOp H) result b of
                  None \<Rightarrow> None
                | Some result \<Rightarrow> returns (Some (VJson (JSet result))) s))))
   | _ # _ # _ \<Rightarrow> undefined_result s
   | _ \<Rightarrow> None)"

definition typeArray :: "data_value \<Rightarrow> bool" where
  "typeArray v = (case v of VJson (JArray _) \<Rightarrow> True | _ \<Rightarrow> False)"

definition typeString :: "data_value \<Rightarrow> bool" where
  "typeString v = (case v of VJson (JString _) \<Rightarrow> True | _ \<Rightarrow> False)"

definition typeBoolean :: "data_value \<Rightarrow> bool" where
  "typeBoolean v = (case v of VJson (JBool _) \<Rightarrow> True | _ \<Rightarrow> False)"

definition typeObject :: "data_value \<Rightarrow> bool" where
  "typeObject v = (case v of VJson (JObject _) \<Rightarrow> True | VIterable _ _ _ \<Rightarrow> True | VJson (JObject2 _) \<Rightarrow> True | _ \<Rightarrow> False)"

definition typeSet :: "data_value \<Rightarrow> bool" where
  "typeSet v = (case v of VJson (JSet _) \<Rightarrow> True | _ \<Rightarrow> False)"

definition typeNumber :: "data_value \<Rightarrow> bool" where
  "typeNumber v = (case v of VJson (JFloat _) \<Rightarrow> True | _ \<Rightarrow> False)"

definition typeNull :: "data_value \<Rightarrow> bool" where
  "typeNull v = (case v of VJson JNull \<Rightarrow> True | _ \<Rightarrow> False)"

definition isTypeBuiltin :: "data_value option list \<Rightarrow> (data_value \<Rightarrow> bool) \<Rightarrow> 'a bstate \<Rightarrow> 'a boutcome" where
  "isTypeBuiltin args chk s = (case args of
     Some v # _ \<Rightarrow> returns (Some (VJson (MakeBoolean (chk v)))) s
   | None # _ \<Rightarrow> undefined_result s
   | [] \<Rightarrow> None)"

definition typename :: "data_value \<Rightarrow> gostring" where
  "typename v = (case v of
     VJson (JArray _) \<Rightarrow> str ''array''
   | VJson (JString _) \<Rightarrow> str ''string''
   | VJson (JBool _) \<Rightarrow> str ''boolean''
   | VJson JNull \<Rightarrow> str ''null''
   | VJson (JFloat _) \<Rightarrow> str ''number''
   | VJson (JObject _) \<Rightarrow> str ''object''
   | VIterable _ _ _ \<Rightarrow> str ''object''
   | VJson (JObject2 _) \<Rightarrow> str ''object''
   | VJson (JSet _) \<Rightarrow> str ''set'')"

definition typenameBuiltin :: "data_value option list \<Rightarrow> 'a bstate \<Rightarrow> 'a boutcome" where
  "typenameBuiltin args s = (case args of
     Some v # _ \<Rightarrow> returns (Some (VJson (MakeString (typename v)))) s
   | None # _ \<Rightarrow> undefined_result s
   | [] \<Rightarrow> None)"

section \<open>Ranges of numbers\<close>

text \<open>Go's \<open>int\<close> has 64 bits here: sums and products wrap, the quotient is truncated.\<close>

definition wrap :: "int \<Rightarrow> int" where
  "wrap i = (i + 2 ^ 63) mod 2 ^ 64 - 2 ^ 63"

definition quotient :: "int \<Rightarrow> int \<Rightarrow> int" where
  "quotient a b = sgn a * sgn b * (\<bar>a\<bar> div \<bar>b\<bar>)"

definition Cancelled :: "(nat \<Rightarrow> bool) \<Rightarrow> 'a bstate \<Rightarrow> bool \<times> 'a bstate" where
  "Cancelled cancelled s = (cancelled (g_checks (s_Globals s)), map_globals (\<lambda>g. g\<lparr>g_checks := Suc (g_checks g)\<rparr>) s)"

fun range_loop :: "(nat \<Rightarrow> bool) \<Rightarrow> (int \<Rightarrow> int) \<Rightarrow> int \<Rightarrow> nat \<Rightarrow> json list \<Rightarrow> 'a bstate \<Rightarrow> json list \<times> 'a bstate" where
  "range_loop cancelled nxt i 0 elems s = (elems, s)"
| "range_loop cancelled nxt i (Suc n) elems s =
     (case Cancelled cancelled s of
        (True, s) \<Rightarrow> (elems, s)
      | (False, s) \<Rightarrow> range_loop cancelled nxt (i + 1) n (elems @ [MakeNumberInt (nxt i)]) s)"

definition range_length :: "int \<Rightarrow> int \<Rightarrow> int \<Rightarrow> int" where
  "range_length start stop step =
     wrap (quotient (if start \<le> stop then wrap (stop - start) else wrap (start - stop)) step + 1)"

definition range_next :: "int \<Rightarrow> int \<Rightarrow> int \<Rightarrow> int \<Rightarrow> int" where
  "range_next start stop step i = (if start \<le> stop then wrap (start + wrap (i * step)) else wrap (start - wrap (i * step)))"

definition numbersRange :: "(nat \<Rightarrow> bool) \<Rightarrow> 'a bstate \<Rightarrow> int \<Rightarrow> int \<Rightarrow> int \<Rightarrow> 'a boutcome" where
  "numbersRange cancelled s start stop step =
     (let (elems, s) = range_loop cancelled (range_next start stop step) 0 (nat (range_length start stop step)) [] s;
          (stopped, s) = Cancelled cancelled s
      in if stopped
         then Some (Some (OpError (CancelErr (str ''numbers.range: timed out before generating all numbers in range''))), s)
         else returns (Some (VJson (JArray elems))) s)"

definition numbersRangeBuiltin :: "(rat \<Rightarrow> int) \<Rightarrow> (nat \<Rightarrow> bool) \<Rightarrow> data_value option list \<Rightarrow> 'a bstate \<Rightarrow> 'a boutcome" where
  "numbersRangeBuiltin conv cancelled args s = (case args of
     Some x # Some y # _ \<Rightarrow> (case builtinIntegerOperandNonStrict conv s x 1 of
         Inl r \<Rightarrow> r
       | Inr start \<Rightarrow> (case builtinIntegerOperandNonStrict conv s y 2 of
           Inl r \<Rightarrow> r
         | Inr stop \<Rightarrow> numbersRange cancelled s start stop 1))
   | _ # _ # _ \<Rightarrow> undefined_result s
   | _ \<Rightarrow> None)"

definition numbersRangeStepBuiltin :: "(rat \<Rightarrow> int) \<Rightarrow> (nat \<Rightarrow> bool) \<Rightarrow> data_value option list \<Rightarrow> 'a bstate \<Rightarrow> 'a boutcome" where
  "numbersRangeStepBuiltin conv cancelled args s = (case args of
     Some x # Some y # Some z # _ \<Rightarrow> (case builtinIntegerOperandNonStrict conv s x 1 of
         Inl r \<Rightarrow> r
       | Inr start \<Rightarrow> (case builtinIntegerOperandNonStrict conv s y 2 of
           Inl r \<Rightarrow> r
         | Inr stop \<Rightarrow> (case builtinIntegerOperandNonStrict conv s z 3 of
             Inl r \<Rightarrow> r
           | Inr step \<Rightarrow>
               if step \<le> 0 then add_builtin_error (OperandErr 3 (str ''step must be a positive integer'')) s
               else numbersRange cancelled s start stop step)))
   | _ # _ # _ # _ \<Rightarrow> undefined_result s
   | _ \<Rightarrow> None)"

section \<open>Glob patterns\<close>

text \<open>\<open>strings.Builder.WriteRune\<close> of a byte.\<close>

definition WriteRune :: "u8 \<Rightarrow> bytes" where
  "WriteRune b = (if b < 128 then [b] else [192 OR drop_bit 6 b, 128 OR (b AND 63)])"

definition glob_id :: "gostring \<Rightarrow> u8 list \<Rightarrow> gostring" where
  "glob_id pattern delimiters = pattern @ [45] @ concat (map WriteRune delimiters)"

text \<open>The delimiters: one byte each.\<close>

fun glob_delimiters :: "json list \<Rightarrow> json + u8 list" where
  "glob_delimiters [] = Inr []"
| "glob_delimiters (j # js) = (case j of
     JString [b] \<Rightarrow> map_sum id ((#) b) (glob_delimiters js)
   | _ \<Rightarrow> Inl j)"

text \<open>The cache of compiled patterns is shared with other builtins, whose entries are \<open>OtherEntry\<close>.  \<open>compile\<close> is
  \<open>glob.Compile\<close> of the glob package.  There is no cache outside of the server.\<close>

datatype 'g cache_entry = GlobEntry 'g | OtherEntry

type_synonym 'g glob_cache = "(gostring \<rightharpoonup> 'g cache_entry) option"

definition globCompile :: "(gostring \<Rightarrow> u8 list \<Rightarrow> 'x + 'g) \<Rightarrow> 'g glob_cache \<Rightarrow> gostring \<Rightarrow> gostring \<Rightarrow> u8 list \<Rightarrow> ('x + 'g) \<times> 'g glob_cache" where
  "globCompile compile c i pattern delimiters = (case c of
     None \<Rightarrow> (compile pattern delimiters, c)
   | Some m \<Rightarrow> (case m i of
       Some (GlobEntry g) \<Rightarrow> (Inr g, c)
     | Some OtherEntry \<Rightarrow> (compile pattern delimiters, c)
     | None \<Rightarrow> (case compile pattern delimiters of
         Inl e \<Rightarrow> (Inl e, c)
       | Inr g \<Rightarrow> (Inr g, Some (m(i \<mapsto> GlobEntry g))))))"

definition globMatchBuiltin :: "(gostring \<Rightarrow> u8 list \<Rightarrow> data_error + (gostring \<Rightarrow> bool)) \<Rightarrow> data_value option list \<Rightarrow>
    'a bstate \<Rightarrow> (gostring \<Rightarrow> bool) glob_cache \<Rightarrow> 'a boutcome \<times> (gostring \<Rightarrow> bool) glob_cache" where
  "globMatchBuiltin compile args s c = (case args of
     Some x # Some y # Some z # _ \<Rightarrow> (case builtinStringOperand s x 1 of
         Inl r \<Rightarrow> (r, c)
       | Inr pattern \<Rightarrow> (case builtinStringOperand s z 1 of
           Inl r \<Rightarrow> (r, c)
         | Inr match \<Rightarrow>
             let run = (\<lambda>delimiters.
               let (g, c) = globCompile compile c (glob_id pattern delimiters) pattern delimiters
               in (case g of Inl e \<Rightarrow> fails e s | Inr g \<Rightarrow> returns (Some (VJson (MakeBoolean (g match)))) s, c))
             in (case y of
               VJson JNull \<Rightarrow> run []
             | VJson (JArray xs) \<Rightarrow> (case glob_delimiters xs of
                 Inl j \<Rightarrow> (operand_error 2 (VJson j) [str ''rune''] s, c)
               | Inr ds \<Rightarrow> run (if ds = [] then [46] else ds))
             | _ \<Rightarrow> (operand_error 2 y [str ''array'', str ''null''] s, c))))
   | _ # _ # _ # _ \<Rightarrow> (undefined_result s, c)
   | _ \<Rightarrow> (None, c))"

section \<open>The table\<close>

text \<open>\<open>specializedBuiltinsByNum\<close>; the last entries are nil, calling them panics.  \<open>other\<close> stands for \<open>sprintf\<close> (10),
  \<open>json.unmarshal\<close> (25) and the call of \<open>glob.match\<close> (29).\<close>

definition specializedBuiltinsByNum :: "(bytes \<Rightarrow> u64) \<Rightarrow> (rat \<Rightarrow> int) \<Rightarrow> (nat \<Rightarrow> data_value option list \<Rightarrow> 'a bstate \<Rightarrow> 'a boutcome) \<Rightarrow>
    (nat \<Rightarrow> bool) \<Rightarrow> (data_value option list \<Rightarrow> 'a bstate \<Rightarrow> 'a boutcome) list" where
  "specializedBuiltinsByNum H conv other cancelled =
     [memberBuiltin H, memberWithKeyBuiltin H, objectGetBuiltin H, objectKeysBuiltin H, objectRemoveBuiltin H,
      objectFilterBuiltin H, objectUnionBuiltin H, stringsConcatBuiltin, stringsEndsWithBuiltin, stringsStartsWithBuiltin,
      other 10, arrayConcatBuiltin H, arraySliceBuiltin, countBuiltin, walkBuiltin H, equalBuiltin H, notEqualBuiltin H,
      binaryOrBuiltin H,
      (\<lambda>args. isTypeBuiltin args typeArray), (\<lambda>args. isTypeBuiltin args typeString), (\<lambda>args. isTypeBuiltin args typeBoolean),
      (\<lambda>args. isTypeBuiltin args typeObject), (\<lambda>args. isTypeBuiltin args typeSet), (\<lambda>args. isTypeBuiltin args typeNumber),
      (\<lambda>args. isTypeBuiltin args typeNull),
      other 25, typenameBuiltin, numbersRangeBuiltin conv cancelled, numbersRangeStepBuiltin conv cancelled, other 29,
      (\<lambda>_ _. None), (\<lambda>_ _. None)]"

end
