(* ===== verification/Builtins_Correct.thy ===== *)
theory Builtins_Correct
  imports Builtins
begin

text \<open>
  What the builtins of \<open>Builtins\<close> compute: each is the mathematical operation on the meanings of its arguments,
  they keep the invariants of the machine, and the cases in which they do not do what they should.
\<close>

section \<open>The machine with its builtins\<close>

lemma keeps_returns [simp]: "keepsM s (returns v s)" "keepsM s (undefined_result s)" "keepsM s (fails e s)"
  by (simp_all add: returns_def undefined_result_def fails_def keeps_SetReturnValue)

lemma keeps_builtin_error [simp]: "keepsM s (add_builtin_error e s)"
  by (simp add: add_builtin_error_def keeps_globals)

lemma keeps_operand_error [simp]: "keepsM s (operand_error pos v ts s)"
  by (simp add: operand_error_def split: option.split)

lemma keeps_continue_with [intro!]: "(\<And>x. keepsM s (f x)) \<Longrightarrow> keepsM s (continue_with m s f)"
  by (auto simp: continue_with_def split: option.split sum.split)

lemma keeps_operands [dest!]:
  "builtinStringOperand s v pos = Inl r \<Longrightarrow> keepsM s r"
  "builtinObjectOperand s v pos = Some r \<Longrightarrow> keepsM s r"
  "builtinArrayOperand s v pos = Inl r \<Longrightarrow> keepsM s r"
  "builtinNumberOperand s v pos = Inl r \<Longrightarrow> keepsM s r"
  by (auto simp: builtinStringOperand_def builtinObjectOperand_def builtinArrayOperand_def builtinNumberOperand_def
      split: data_value.splits json.splits if_splits)

lemma keeps_integer_operands [dest!]:
  "builtinIntegerOperand s v pos = Inl r \<Longrightarrow> keepsM s r"
  "builtinIntegerOperandNonStrict conv s v pos = Inl r \<Longrightarrow> keepsM s r"
  by (auto simp: builtinIntegerOperand_def builtinIntegerOperandNonStrict_def Let_def split: sum.splits option.splits if_splits)

lemma keeps_set_operand: "builtinSetOperand s v pos = (t, e, a) \<Longrightarrow> keeps s a"
  by (auto simp: builtinSetOperand_def keeps_globals split: data_value.splits json.splits option.splits)

lemmas builtin_splits = list.split option.split sum.split prod.split data_value.split json.split

lemma keeps_bi_collections:
  "keepsM s (memberBuiltin H args s)" "keepsM s (memberWithKeyBuiltin H args s)" "keepsM s (objectKeysBuiltin H args s)"
  "keepsM s (objectSelect H args keep s)" "keepsM s (objectUnionBuiltin H args s)"
  by (auto simp: memberBuiltin_def memberWithKeyBuiltin_def objectKeysBuiltin_def objectSelect_def objectUnionBuiltin_def
      split: list.split option.split sum.split prod.split bool.split)

lemma keeps_bi_objectGet: "keepsM s (objectGetBuiltin H args s)"
  by (auto simp: objectGetBuiltin_def objectGetBuiltinKey_def split: list.split option.split prod.split)

lemma keeps_bi_strings:
  "keepsM s (stringsConcatBuiltin args s)" "keepsM s (stringsEndsWithBuiltin args s)" "keepsM s (stringsStartsWithBuiltin args s)"
  "keepsM s (countBuiltin args s)" "keepsM s (typenameBuiltin args s)" "keepsM s (isTypeBuiltin args chk s)"
  by (auto simp: stringsConcatBuiltin_def stringsEndsWithBuiltin_def stringsStartsWithBuiltin_def countBuiltin_def typenameBuiltin_def
      isTypeBuiltin_def split: builtin_splits)

lemma keeps_bi_arrays:
  "keepsM s (arrayConcatBuiltin H args s)" "keepsM s (arraySliceBuiltin args s)" "keepsM s (walkBuiltin H args s)"
  "keepsM s (equalBuiltin H args s)" "keepsM s (notEqualBuiltin H args s)"
  by (auto simp: arrayConcatBuiltin_def arraySliceBuiltin_def walkBuiltin_def equalBuiltin_def notEqualBuiltin_def Let_def
      keeps_SetReturnValue split: list.split option.split sum.split prod.split)

lemma keeps_binaryOr: "keepsM s (binaryOrBuiltin H args s)"
  by (auto simp: binaryOrBuiltin_def Let_def returns_def undefined_result_def dest!: keeps_set_operand intro: keeps_trans keeps_SetReturnValue
      split: list.split option.split prod.split)

lemma keeps_Cancelled: "Cancelled cancelled s = (b, a) \<Longrightarrow> keeps s a"
  by (auto simp: Cancelled_def keeps_globals)

lemma keeps_range_loop: "range_loop cancelled nxt i n elems s = (es, a) \<Longrightarrow> keeps s a"
  by (induction cancelled nxt i n elems s rule: range_loop.induct)
    (auto dest: keeps_Cancelled intro: keeps_trans split: prod.splits bool.splits)

lemma keeps_numbersRange: "keepsM s (numbersRange cancelled s start stop step)"
proof -
  obtain es a where loop: "range_loop cancelled (range_next start stop step) 0 (nat (range_length start stop step)) [] s = (es, a)" by fastforce
  obtain c b where cancel: "Cancelled cancelled a = (c, b)" by fastforce
  have "keeps s b" using keeps_range_loop [OF loop] keeps_Cancelled [OF cancel] by (rule keeps_trans)
  then show ?thesis by (simp add: numbersRange_def loop cancel returns_def keeps_SetReturnValue)
qed

lemma keeps_ranges:
  "keepsM s (numbersRangeBuiltin conv cancelled args s)" "keepsM s (numbersRangeStepBuiltin conv cancelled args s)"
  by (auto simp: numbersRangeBuiltin_def numbersRangeStepBuiltin_def keeps_numbersRange split: list.split option.split sum.split)

text \<open>The call of a builtin by its number, which the machine masks to five bits.\<close>

definition specialized_call :: "(bytes \<Rightarrow> u64) \<Rightarrow> (rat \<Rightarrow> int) \<Rightarrow> (nat \<Rightarrow> data_value option list \<Rightarrow> 'a bstate \<Rightarrow> 'a boutcome) \<Rightarrow>
    (nat \<Rightarrow> bool) \<Rightarrow> u32 \<Rightarrow> data_value option list \<Rightarrow> 'a bstate \<Rightarrow> 'a boutcome" where
  "specialized_call H conv other cancelled n args s =
     (if unat n < 32 then (specializedBuiltinsByNum H conv other cancelled ! unat n) args s else None)"

lemma keeps_specialized:
  assumes "\<And>k args s. keepsM s (other k args s)"
  shows "keepsM s (specialized_call H conv other cancelled n args s)"
proof -
  have "\<forall>f \<in> set (specializedBuiltinsByNum H conv other cancelled). keepsM s (f args s)"
    by (simp add: specializedBuiltinsByNum_def objectRemoveBuiltin_def objectFilterBuiltin_def assms keeps_bi_collections keeps_bi_objectGet
        keeps_bi_strings keeps_bi_arrays keeps_binaryOr keeps_ranges)
  moreover have "length (specializedBuiltinsByNum H conv other cancelled) = 32" by (simp add: specializedBuiltinsByNum_def)
  ultimately show ?thesis by (simp add: specialized_call_def)
qed

section \<open>Entries and paths of values\<close>

definition mentry :: "mvalue \<Rightarrow> mvalue \<Rightarrow> mvalue \<Rightarrow> bool" where
  "mentry m \<kappa> y = (case m of
     MArray xs \<Rightarrow> \<exists>i < length xs. \<kappa> = MNumber (of_nat i) \<and> y = xs ! i
   | MSet S \<Rightarrow> \<kappa> |\<in>| S \<and> y = \<kappa>
   | MObject F \<Rightarrow> (\<kappa>, y) |\<in>| F
   | _ \<Rightarrow> False)"

text \<open>A path leads to a value.\<close>

fun leads :: "mvalue \<Rightarrow> mvalue list \<Rightarrow> mvalue \<Rightarrow> bool" where
  "leads m [] y \<longleftrightarrow> y = m"
| "leads m (\<kappa> # \<kappa>s) y \<longleftrightarrow> (\<exists>x. mentry m \<kappa> x \<and> leads x \<kappa>s y)"

lemma set_zip_upt: "set (zip (map f [0..<length xs]) xs) = (\<lambda>i. (f i, xs ! i)) ` {..<length xs}"
  by (force simp: set_zip image_iff Bex_def)

lemma mentries_mentry: "mentries m xys \<Longrightarrow> (\<kappa>, y) \<in> set xys \<longleftrightarrow> mentry m \<kappa> y"
  by (auto simp: mentries_def mentry_def set_zip_upt fset_of_list_elem split: mvalue.splits)

lemma vrep_functional: "vrep H v (MObject F) \<Longrightarrow> (\<kappa>, y) |\<in>| F \<Longrightarrow> (\<kappa>, z) |\<in>| F \<Longrightarrow> y = z"
proof (cases rule: vrep.cases)
  show "vrep H v (MObject F) \<Longrightarrow> vrep H v (MObject F)" .
next
  fix j assume "(\<kappa>, y) |\<in>| F" "(\<kappa>, z) |\<in>| F" "v = VJson j" "MObject F = meaning j" "json_ok H j"
  then show "y = z" using object_mem [of H j F \<kappa> y] object_mem [of H j F \<kappa> z] by simp
next
  fix kvs xys get
  assume "(\<kappa>, y) |\<in>| F" "(\<kappa>, z) |\<in>| F" "MObject F = MObject (fset_of_list xys)" "distinct (map fst xys)"
  then show "y = z" using eq_key_imp_eq_value [of xys \<kappa> y z] by (simp add: fset_of_list_elem)
qed

lemma mentry_unique: "vrep H v m \<Longrightarrow> mentry m \<kappa> y \<Longrightarrow> mentry m \<kappa> z \<Longrightarrow> y = z"
  using vrep_functional [of H v _ \<kappa> y z] by (auto simp: mentry_def split: mvalue.splits)

text \<open>A number that is the index of an element is written as an integer.\<close>

definition index_spelled :: "json \<Rightarrow> bool" where
  "index_spelled j \<longleftrightarrow> (\<forall>n i. j = JFloat n \<longrightarrow> Number_value n = Some (of_nat i) \<longrightarrow> Number_Int64 n = Some (int i))"

lemma Get_exact:
  assumes "vrep H v m" and "json_ok H k" and "index_spelled k"
  shows "\<exists>r. DataOperations_Get H (Some v) (Some (VJson k)) = Some (Inr r) \<and>
    (case r of None \<Rightarrow> \<forall>y. \<not> mentry m (meaning k) y | Some w \<Rightarrow> \<exists>y. mentry m (meaning k) y \<and> vrep H w y)"
proof -
  have key: "vrep H (VJson k) (meaning k)" using assms(2) by (rule vrep_json)
  show ?thesis
  proof (cases "\<exists>xs. v = VJson (JArray xs)")
    case True
    then obtain xs where v: "v = VJson (JArray xs)" and m: "m = MArray (map meaning xs)" using assms(1) by auto
    have get: "DataOperations_Get H (Some v) (Some (VJson k)) = Some (Inr (map_option VJson (array_at xs k)))"
      by (simp add: v DataOperations_Get_def cast_def found_def)
    show ?thesis
    proof (cases "array_at xs k")
      case None
      have "\<not> mentry m (meaning k) y" for y
      proof
        assume "mentry m (meaning k) y"
        then obtain i where i: "i < length xs" "meaning k = MNumber (of_nat i)" by (auto simp: m mentry_def)
        then obtain n where n: "k = JFloat n" "Number_value n = Some (of_nat i)"
          using assms(2) number_ok_value by (cases k) fastforce+
        then have "Number_Int64 n = Some (int i)" using assms(3) by (simp add: index_spelled_def)
        then show False using None i(1) n(1) by (simp add: array_at_def)
      qed
      then show ?thesis using get None by simp
    next
      case (Some x)
      then show ?thesis
        using array_at_meaning [of H xs k x] assms(1) get by (auto simp: v m mentry_def)
    qed
  next
    case False
    from Get_rep [OF assms(1) key] obtain r where
      r: "DataOperations_Get H (Some v) (Some (VJson k)) = Some (Inr r)" "get_rep H m (VJson k) (meaning k) r" by blast
    have "m \<noteq> MArray xs" for xs
      using assms(1)
    proof (cases rule: vrep.cases)
      case (vrep_json j)
      then show ?thesis using False by (cases j) auto
    qed simp
    then show ?thesis using r by (auto simp: get_rep_def lookup_rep_def mentry_def split: mvalue.splits option.splits)
  qed
qed

section \<open>Membership and lookup\<close>

text \<open>The builtin returns a value that stands for \<open>m\<close>.\<close>

definition gives :: "(bytes \<Rightarrow> u64) \<Rightarrow> 'a bstate \<Rightarrow> mvalue \<Rightarrow> 'a boutcome \<Rightarrow> bool" where
  "gives H s m r \<longleftrightarrow> (\<exists>w. r = returns (Some w) s \<and> vrep H w m)"

lemma gives_json: "json_ok H j \<Longrightarrow> meaning j = m \<Longrightarrow> gives H s m (returns (Some (VJson j)) s)"
  by (auto simp: gives_def)

lemma gives_value: "vrep H w m \<Longrightarrow> gives H s m (returns (Some w) s)"
  by (auto simp: gives_def)

lemma member_loop_rep:
  assumes "vrep H x \<kappa>" and "list_all2 (\<lambda>kv xy. vrep H (fst kv) (fst xy) \<and> vrep H (snd kv) (snd xy)) kvs xys"
  shows "member_loop H x kvs = Some (\<kappa> \<in> snd ` set xys)"
  using assms(2)
proof (induction kvs xys rule: list_all2_induct)
  case (Cons kv kvs xy xys)
  then have "DataOperations_Equal H (Some x) (Some (snd kv)) = ereturn (\<kappa> = snd xy)" using Equal_rep [OF assms(1)] by blast
  then show ?case using Cons.IH by (cases kv) (auto simp: ereturn_def)
qed simp

lemma member_rep:
  assumes "vrep H x \<kappa>" and "vrep H coll m" and "int (msize m) < 2 ^ 63"
  shows "memberBuiltin H [Some x, Some coll] s = returns (Some (VJson (MakeBoolean (\<exists>\<iota>. mentry m \<iota> \<kappa>)))) s"
proof -
  from Iter_rep [OF assms(2,3)] obtain kvs xys where it: "DataOperations_Iter (Some coll) = (kvs, None)" "mentries m xys"
    "list_all2 (\<lambda>kv xy. vrep H (fst kv) (fst xy) \<and> vrep H (snd kv) (snd xy)) kvs xys" by blast
  have "\<kappa> \<in> snd ` set xys \<longleftrightarrow> (\<exists>\<iota>. mentry m \<iota> \<kappa>)" using mentries_mentry [OF it(2)] by force
  then show ?thesis using member_loop_rep [OF assms(1) it(3)]
    by (cases "\<exists>\<iota>. mentry m \<iota> \<kappa>") (auto simp: memberBuiltin_def it(1))
qed

lemma path_loop_rep:
  assumes "list_all (\<lambda>k. json_ok H k \<and> index_spelled k) ks" and "vrep H v m" and "map snd kvs = map VJson ks"
  shows "\<exists>r. path_loop H v kvs = Some r \<and>
    (case r of None \<Rightarrow> \<forall>y. \<not> leads m (map meaning ks) y | Some w \<Rightarrow> \<exists>y. leads m (map meaning ks) y \<and> vrep H w y)"
  using assms
proof (induction ks arbitrary: v m kvs)
  case (Cons k ks)
  then obtain i kvs' where kvs: "kvs = (i, VJson k) # kvs'" "map snd kvs' = map VJson ks" by (cases kvs) auto
  from Cons.prems(1) Get_exact [OF Cons.prems(2), of k] obtain r where
    r: "DataOperations_Get H (Some v) (Some (VJson k)) = Some (Inr r)"
      "case r of None \<Rightarrow> \<forall>y. \<not> mentry m (meaning k) y | Some w \<Rightarrow> \<exists>y. mentry m (meaning k) y \<and> vrep H w y" by auto
  show ?case
  proof (cases r)
    case None
    then show ?thesis using r by (simp add: kvs)
  next
    case (Some w)
    then obtain x where x: "mentry m (meaning k) x" "vrep H w x" using r(2) by auto
    from Cons.IH [OF _ x(2) kvs(2)] Cons.prems(1) obtain r' where r': "path_loop H w kvs' = Some r'"
      "case r' of None \<Rightarrow> \<forall>y. \<not> leads x (map meaning ks) y | Some w \<Rightarrow> \<exists>y. leads x (map meaning ks) y \<and> vrep H w y" by auto
    have "leads m (map meaning (k # ks)) y \<longleftrightarrow> leads x (map meaning ks) y" for y
    proof
      assume "leads m (map meaning (k # ks)) y"
      then obtain z where z: "mentry m (meaning k) z" "leads z (map meaning ks) y" by auto
      then have "z = x" using mentry_unique [OF Cons.prems(2) z(1) x(1)] by simp
      then show "leads x (map meaning ks) y" using z(2) by simp
    next
      assume "leads x (map meaning ks) y"
      then show "leads m (map meaning (k # ks)) y" using x(1) by auto
    qed
    then show ?thesis using r(1) r' Some by (simp add: kvs split: option.splits)
  qed
qed auto

lemma Iter_JArray: "DataOperations_Iter (Some (VJson (JArray xs))) =
    (map (\<lambda>(i, x). (VJson (MakeNumberInt (int i)), VJson x)) (zip [0..<length xs] xs), None)"
  by (simp add: DataOperations_Iter_def)

lemma objectGet_path_rep:
  assumes "vrep H obj (MObject F)" and "json_ok H (JArray ks)" and "list_all index_spelled ks" and "int (length ks) < 2 ^ 63"
    and "vrep H def d"
  shows "\<exists>w. objectGetBuiltin H [Some obj, Some (VJson (JArray ks)), Some def] s = returns (Some w) s \<and>
    (if \<exists>y. leads (MObject F) (map meaning ks) y then \<exists>y. leads (MObject F) (map meaning ks) y \<and> vrep H w y else w = def)"
proof -
  have obj: "DataOperations_IsObject H (Some obj) = ereturn True"
    using vrep_obj [OF assms(1)] by (auto simp: DataOperations_IsObject_def is_obj_def is_object_def split: data_value.splits json.splits)
  have len: "DataOperations_Len H (Some (VJson (JArray ks))) = ereturn (MakeNumberInt (int (length ks)))" by (simp add: DataOperations_Len_def)
  have "JRep H (MakeNumberInt (int (length ks))) (MNumber (of_int (int (length ks))))" using assms(4) by (intro MakeNumberInt_rep) auto
  moreover have "JRep H (MakeNumberInt 0) (MNumber (of_int 0))" by (intro MakeNumberInt_rep) auto
  moreover have "MakeNumberZero = MakeNumberInt 0" by (simp add: MakeNumberZero_def MakeNumberInt_def)
  ultimately have eq: "DataOperations_Equal H (Some (VJson (MakeNumberInt (int (length ks))))) (Some (VJson MakeNumberZero)) = ereturn (ks = [])"
    using Equal_rep [of H "VJson (MakeNumberInt (int (length ks)))" "MNumber (of_int (int (length ks)))" "VJson MakeNumberZero" "MNumber (of_int 0)"]
    by (simp add: JRep_def)
  let ?kvs = "fst (DataOperations_Iter (Some (VJson (JArray ks))))"
  have snd: "map snd ?kvs = map VJson ks" unfolding Iter_JArray fst_conv by (rule nth_equalityI) simp_all
  have "list_all (\<lambda>k. json_ok H k \<and> index_spelled k) ks" using assms(2,3) by (auto simp: list_all_iff)
  from path_loop_rep [OF this assms(1) snd] obtain r where r: "path_loop H obj ?kvs = Some r"
    "case r of None \<Rightarrow> \<forall>y. \<not> leads (MObject F) (map meaning ks) y | Some w \<Rightarrow> \<exists>y. leads (MObject F) (map meaning ks) y \<and> vrep H w y" by blast
  have isPath: "DataOperations_IsArray H (Some (VJson (JArray ks))) = ereturn True" by (simp add: DataOperations_IsArray_def)
  have "objectGetBuiltin H [Some obj, Some (VJson (JArray ks)), Some def] s =
      (if ks = [] then returns (Some obj) s else case r of Some v \<Rightarrow> returns (Some v) s | None \<Rightarrow> returns (Some def) s)"
    using r(1) by (simp add: objectGetBuiltin_def obj isPath len eq Iter_JArray split: option.split)
  then show ?thesis using r(2) assms(1) by (cases r) auto
qed

section \<open>Keys and selections of objects\<close>

lemma SetAdd_all_rep:
  assumes "list_all2 (vrep H) vs ms" and "vrep H w (MSet S)"
  shows "\<exists>w'. efold (\<lambda>v set. DataOperations_SetAdd H set (Some v)) vs (Some w) = ereturn (Some w') \<and> vrep H w' (MSet (S |\<union>| fset_of_list ms))"
  using assms
proof (induction vs ms arbitrary: w S rule: list_all2_induct)
  case (Cons v vs m ms)
  from SetAdd_rep [OF Cons.prems Cons.hyps(1)] obtain w1 where "DataOperations_SetAdd H (Some w) (Some v) = Some (Inr (Some w1))"
    "vrep H w1 (MSet (finsert m S))" by blast
  then show ?case using Cons.IH [of w1 "finsert m S"] by auto
qed (simp add: ereturn_def)

lemma efold_map: "efold f (map g xs) s = efold (\<lambda>x. f (g x)) xs s"
  by (induction xs arbitrary: s) (auto intro!: ebind_cong)

lemma MakeSet_rep [simp]: "vrep H (VJson MakeSet) (MSet {||})"
  by (simp add: MakeSet_def NewSet_def)

text \<open>The iteration of an object, as JSON entries.\<close>

lemma Iter_object_rep:
  assumes "vrep H v (MObject F)"
  shows "\<exists>kvs xys. DataOperations_Iter (Some v) = (kvs, None) \<and> mentries (MObject F) xys \<and>
    list_all2 (vrep H) (map fst kvs) (map fst xys) \<and> list_all2 (vrep H) (map snd kvs) (map snd xys)"
  using assms
proof (cases rule: vrep.cases)
  case (vrep_json j)
  then have obj: "is_object j" by (metis meaning_MObject)
  then have it: "DataOperations_Iter (Some v) = (map (map_prod VJson VJson) (entries j), None)"
    by (cases rule: is_object_cases) (simp_all add: vrep_json DataOperations_Iter_def case_prod_unfold)
  have "list_all2 (\<lambda>kv xy. vrep H (fst kv) (fst xy) \<and> vrep H (snd kv) (snd xy))
      (map (map_prod VJson VJson) (entries j)) (map (map_prod meaning meaning) (entries j))"
    and "mentries (MObject F) (map (map_prod meaning meaning) (entries j))"
    using entries_rep [OF vrep_json(3) obj] by (simp_all add: vrep_json(2))
  then show ?thesis using it by (intro exI conjI) (auto simp: list_all2_map1 list_all2_map2 elim!: list_all2_mono)
next
  case (vrep_iter kvs xys get)
  then show ?thesis by (auto simp: DataOperations_Iter_def mentries_def)
qed

lemma objectKeys_rep:
  assumes "vrep H obj (MObject F)"
  shows "gives H s (MSet (fst |`| F)) (objectKeysBuiltin H [Some obj] s)"
proof -
  from Iter_object_rep [OF assms] obtain kvs xys where it: "DataOperations_Iter (Some obj) = (kvs, None)" "mentries (MObject F) xys"
    "list_all2 (vrep H) (map fst kvs) (map fst xys)" by blast
  from SetAdd_all_rep [OF it(3) MakeSet_rep] obtain w where w:
    "efold (\<lambda>v set. DataOperations_SetAdd H set (Some v)) (map fst kvs) (Some (VJson MakeSet)) = ereturn (Some w)"
    "vrep H w (MSet (fset_of_list (map fst xys)))" by auto
  have "fset_of_list (map fst xys) = fst |`| F" using it(2) by (auto simp: mentries_def)
  moreover have "is_obj obj" using vrep_obj [OF assms] by simp
  ultimately show ?thesis
    using w by (auto simp: objectKeysBuiltin_def builtinObjectOperand_def it(1) efold_map case_prod_unfold end_iter_def gives_def)
qed

lemma filter_loop:
  assumes "list_all (\<lambda>(k, v). json_ok H k \<and> json_ok H v) es" and "distinct (map (\<lambda>e. meaning (fst e)) es)"
    and "\<And>e s. e \<in> set es \<Longrightarrow> f e s = (if q (meaning (fst e)) then elift (Insert H (fst e) (snd e) s) else ereturn s)"
  shows "\<exists>t. efold f es (NewObject2 0) = ereturn t \<and> json_ok H (JObject2 t) \<and>
    (\<forall>\<kappa>. obj_abs meaning t \<kappa> = (if q \<kappa> then map_of (map (map_prod meaning meaning) es) \<kappa> else None))"
proof -
  let ?act = "\<lambda>e. if q (meaning (fst e)) then Some e else None"
  let ?g = "\<lambda>e s. if q (meaning (fst e)) then Insert H (fst e) (snd e) s else Some s"
  have "\<exists>t. foldM ?g es (new_table 0) = Some t \<and> obj_inv (hash H) meaning {v. json_ok H v} t \<and>
    obj_abs meaning t = obj_abs meaning (new_table 0) ++ map_of (map (map_prod meaning meaning) (List.map_filter ?act es))"
  proof (rule jv.enters_loop)
    show "distinct (map (meaning \<circ> fst) (List.map_filter ?act es))"
      unfolding map_filter_if using assms(2) by (simp add: distinct_map_filter o_def)
    fix e assume "e \<in> set es"
    then have ok: "json_ok H (fst e)" "json_ok H (snd e)" using assms(1) by (auto simp: list_all_iff)
    show "enters (hash H) meaning {v. json_ok H v} (?act e) (?g e)"
    proof (cases "q (meaning (fst e))")
      case True
      then show ?thesis using jv.enters_Insert [of "?g e" H "fst e" "snd e"] ok by (simp add: Insert_def)
    next
      case False
      then have "?g e = Some" by auto
      then show ?thesis using False jv.enters_skip [of "?g e" H] by auto
    qed
  qed simp_all
  then obtain t where t: "foldM ?g es (NewObject2 0) = Some t" "json_ok H (JObject2 t)"
    "obj_abs meaning t = map_of (map (map_prod meaning meaning) (filter (\<lambda>e. q (meaning (fst e))) es))"
    unfolding map_filter_if json_ok_object2 NewObject2_def by auto
  have "efold f es (NewObject2 0) = elift (foldM ?g es (NewObject2 0))" by (rule efold_foldM) (simp add: assms(3) elift_def ereturn_def)
  then show ?thesis using t map_of_filter_keys [of meaning q es] by (auto simp: elift_def ereturn_def simp del: json_ok.simps)
qed

text \<open>The keys a collection selects.\<close>

definition mselects :: "mvalue \<Rightarrow> mvalue \<Rightarrow> bool" where
  "mselects m \<kappa> = (case m of MObject F \<Rightarrow> \<kappa> |\<in>| fst |`| F | MSet S \<Rightarrow> \<kappa> |\<in>| S | MArray xs \<Rightarrow> \<kappa> \<in> set xs | _ \<Rightarrow> False)"

definition mcollection :: "mvalue \<Rightarrow> bool" where
  "mcollection m = (case m of MObject F \<Rightarrow> True | MSet S \<Rightarrow> True | MArray xs \<Rightarrow> True | _ \<Rightarrow> False)"

lemma Set_Get_member:
  assumes "set_inv (hash H) meaning {v. json_ok H v} t" and "json_ok H key"
  shows "elift (map_option (\<lambda>r. r \<noteq> None) (Set_Get (equalOp H) (hash H) key t)) = ereturn (meaning key \<in> set_abs meaning t)"
proof -
  have "(find (\<lambda>w. meaning w = meaning key) (table_elems t) \<noteq> None) = (meaning key \<in> meaning ` set (table_elems t))"
    unfolding find_None_iff by (metis image_iff)
  then show ?thesis using jv.Set_Get_spec [OF assms(1), of key] assms(2) by (simp add: elift_def ereturn_def set_abs_def)
qed

lemma mselects_obj:
  assumes "json_ok H j" and "is_object j"
  shows "mselects (meaning j) \<kappa> \<longleftrightarrow> obj_map j \<kappa> \<noteq> None"
proof -
  from obj_map_meaning [OF assms] obtain F where F: "meaning j = MObject F" "\<And>k v. (k, v) |\<in>| F \<longleftrightarrow> obj_map j k = Some v" by blast
  show ?thesis using keys_dom [OF F(2), of \<kappa>] by (simp add: mselects_def F(1))
qed

lemma selected_rep:
  assumes "vrep H coll m" and "mcollection m"
  shows "\<exists>sel. selected H coll = Some (Inr sel) \<and> (\<forall>key. json_ok H key \<longrightarrow> sel key = ereturn (mselects m (meaning key)))"
  using assms(1)
proof (cases rule: vrep.cases)
  case (vrep_json j)
  show ?thesis
  proof (cases j)
    case (JArray xs)
    have "list_all (json_ok H) xs" "set_inv (hash H) meaning {v. json_ok H v} (NewSet 0)" "set_abs meaning (NewSet 0) = {}"
      using vrep_json(3) by (simp_all add: JArray NewSet_def)
    with adds_set [of H "NewSet 0" xs] obtain t where t: "foldM (Set_Add (equalOp H) (hash H)) xs (NewSet 0) = Some t"
      "set_inv (hash H) meaning {v. json_ok H v} t" "set_abs meaning t = meaning ` set xs" by auto
    then show ?thesis using Set_Get_member [OF t(2)] by (auto simp: selected_def vrep_json JArray mselects_def)
  next
    case (JSet t)
    have "set_inv (hash H) meaning {v. json_ok H v} t" using vrep_json(3) unfolding JSet json_ok_set .
    from Set_Get_member [OF this] show ?thesis
      by (auto simp: selected_def vrep_json JSet mselects_def set_abs_def fset_of_list.rep_eq)
  next
    case (JObject kvs)
    have "(object_at kvs key \<noteq> None) = mselects m (meaning key)" if "json_ok H key" for key
    proof -
      have "(object_at kvs key \<noteq> None) = (obj_map j (meaning key) \<noteq> None)"
        using object_at_rep(1) [OF vrep_json(3) [unfolded JObject] that] unfolding JObject by (metis option.map_disc_iff)
      then show ?thesis using mselects_obj [OF vrep_json(3)] by (simp add: vrep_json(2) JObject is_object_def del: json_ok.simps meaning.simps)
    qed
    then show ?thesis by (simp add: selected_def vrep_json(1) JObject)
  next
    case (JObject2 t)
    have sel: "mselects m (meaning key) \<longleftrightarrow> obj_map j (meaning key) \<noteq> None" for key
      using mselects_obj [OF vrep_json(3)] by (simp add: vrep_json(2) JObject2 is_object_def del: json_ok.simps meaning.simps)
    have "elift (map_option (\<lambda>r. r \<noteq> None) (Object2_Get (equalOp H) (hash H) key t)) = ereturn (mselects m (meaning key))"
      if key: "json_ok H key" for key
    proof -
      from Object2_Get_rep [OF vrep_json(3) [unfolded JObject2] key] obtain r where
        "Object2_Get (equalOp H) (hash H) key t = Some r" "map_option meaning r = obj_map j (meaning key)" by (auto simp: JObject2)
      then show ?thesis by (cases r) (auto simp: elift_def ereturn_def sel dest: sym)
    qed
    then show ?thesis by (auto simp: selected_def vrep_json(1) JObject2)
  qed (use assms(2) vrep_json in \<open>simp_all add: mcollection_def\<close>)
next
  case (vrep_iter kvs xys get)
  have "Some (map_sum id (\<lambda>r. r \<noteq> None) (get key)) = ereturn (mselects m (meaning key))" if "json_ok H key" for key
    using vrep_iter(6) [OF that] by (auto simp: vrep_iter(2) mselects_def ereturn_def fset_of_list.rep_eq map_of_eq_None_iff) (force dest: map_of_SomeD)
  then show ?thesis by (auto simp: selected_def vrep_iter(1))
qed

lemma objectSelect_rep:
  assumes "vrep H obj (MObject F)" and "vrep H coll m" and "mcollection m"
  shows "gives H s (MObject (ffilter (\<lambda>e. mselects m (fst e) = keep) F)) (objectSelect H [Some obj, Some coll] keep s)"
proof -
  from selected_rep [OF assms(2,3)] obtain sel where sel: "selected H coll = Some (Inr sel)"
    "\<And>key. json_ok H key \<Longrightarrow> sel key = ereturn (mselects m (meaning key))" by blast
  from Iter_object_rep [OF assms(1)] obtain kvs xys where it: "DataOperations_Iter (Some obj) = (kvs, None)" "mentries (MObject F) xys"
    "list_all2 (vrep H) (map fst kvs) (map fst xys)" "list_all2 (vrep H) (map snd kvs) (map snd xys)" by blast
  have "list_all2 (\<lambda>v m. \<exists>j. castJSON H v = ereturn j \<and> JRep H j m) (map fst kvs) (map fst xys)"
    "list_all2 (\<lambda>v m. \<exists>j. castJSON H v = ereturn j \<and> JRep H j m) (map snd kvs) (map snd xys)"
    using it(3,4) by (auto elim!: list_all2_mono intro: castJSON_rep)
  from cast_entries [OF this] obtain es where es: "list_all2 (\<lambda>kv e. castJSON H (fst kv) = ereturn (fst e) \<and> castJSON H (snd kv) = ereturn (snd e)) kvs es"
    "list_all (\<lambda>(k, v). json_ok H k \<and> json_ok H v) es" "map (map_prod meaning meaning) es = xys" by blast
  let ?f = "\<lambda>key v result. ebind (sel key) (\<lambda>ok. if ok = keep then elift (Insert H key v result) else ereturn result)"
  have fold: "efold (\<lambda>(k, v) s. ebind (castJSON H k) (\<lambda>jk. ebind (castJSON H v) (\<lambda>jv. ?f jk jv s))) kvs t = efold (\<lambda>(k, v). ?f k v) es t" for t
    using es(1) by (induction kvs es arbitrary: t rule: list_all2_induct) (auto simp: case_prod_unfold intro!: ebind_cong)
  have dist: "distinct (map (\<lambda>e. meaning (fst e)) es)" using it(2) by (simp add: es(3) [symmetric] mentries_def o_def)
  have "\<exists>t. efold (\<lambda>(k, v). ?f k v) es (NewObject2 0) = ereturn t \<and> json_ok H (JObject2 t) \<and>
    (\<forall>\<kappa>. obj_abs meaning t \<kappa> = (if mselects m \<kappa> = keep then map_of (map (map_prod meaning meaning) es) \<kappa> else None))"
    by (rule filter_loop [OF es(2) dist]) (use es(2) sel(2) in \<open>auto simp: list_all_iff\<close>)
  then obtain t where t: "efold (\<lambda>(k, v). ?f k v) es (NewObject2 0) = ereturn t" "json_ok H (JObject2 t)"
    "\<And>\<kappa>. obj_abs meaning t \<kappa> = (if mselects m \<kappa> = keep then map_of xys \<kappa> else None)" unfolding es(3) by blast
  have "distinct (map fst xys)" "fset_of_list xys = F" using it(2) by (simp_all add: mentries_def)
  then have mem: "map_of xys \<kappa> = Some y \<longleftrightarrow> (\<kappa>, y) |\<in>| F" for \<kappa> y by (auto simp: map_of_eq_Some_iff fset_of_list_elem)
  have "meaning (JObject2 t) = MObject (ffilter (\<lambda>e. mselects m (fst e) = keep) F)"
    unfolding meaning_object2 [OF t(2)] by (simp add: t(3) mem conj_commute)
  moreover have "is_obj obj" using vrep_obj [OF assms(1)] by simp
  ultimately show ?thesis using t(1,2)
    by (auto simp: objectSelect_def builtinObjectOperand_def sel(1) it(1) fold [unfolded case_prod_unfold] case_prod_unfold end_iter_def
        intro!: gives_json simp del: json_ok.simps meaning.simps)
qed

lemma objectUnion_rep:
  assumes "vrep H a (MObject F)" and "vrep H b (MObject G)" and "castJSON H a = ereturn x" and "castJSON H b = ereturn y"
    and "no_documents x" and "no_documents y"
  shows "\<exists>z. gives H s z (objectUnionBuiltin H [Some a, Some b] s) \<and> merged (MObject F) (MObject G) z"
proof -
  have x: "json_ok H x" "meaning x = MObject F" and y: "json_ok H y" "meaning y = MObject G"
    using castJSON_rep [OF assms(1)] castJSON_rep [OF assms(2)] assms(3,4) by (auto simp: JRep_def ereturn_def)
  from UnionObjects_merged [OF x(1) y(1)] assms(5,6) obtain j where j: "UnionObjects H x y = Some j" "json_ok H j"
    "merged (meaning x) (meaning y) (meaning j)" by blast
  have "is_obj a" "is_obj b" using vrep_obj [OF assms(1)] vrep_obj [OF assms(2)] by simp_all
  then have "objectUnionBuiltin H [Some a, Some b] s = returns (Some (VJson j)) s"
    by (simp add: objectUnionBuiltin_def builtinObjectOperand_def assms(3,4) j(1))
  then show ?thesis using j x(2) y(2) gives_json [OF j(2) refl, of s] by auto
qed

section \<open>Arrays, strings and sets\<close>

lemma concat_steps:
  assumes "list_all (json_ok H) xs" and "json_ok H (JArray ys)" and "map snd kvs = map VJson xs"
  shows "\<exists>zs. efold (concat_step H) kvs (Some (VJson (JArray ys))) = ereturn (Some (VJson (JArray zs))) \<and> json_ok H (JArray zs) \<and>
    map meaning zs = map meaning ys @ map meaning xs"
  using assms
proof (induction xs arbitrary: ys kvs)
  case (Cons x xs)
  then obtain i kvs' where kvs: "kvs = (i, VJson x) # kvs'" "map snd kvs' = map VJson xs" by (cases kvs) auto
  have "vrep H (VJson x) (meaning x)" using Cons.prems(1) by simp
  from CopyShallow_rep [OF this] obtain w where w: "DataOperations_CopyShallow H (Some (VJson x)) = ereturn w" "vrep H w (meaning x)" by blast
  from castJSON_rep [OF w(2)] obtain j where j: "castJSON H w = ereturn j" "json_ok H j" "meaning j = meaning x" by (auto simp: JRep_def)
  have "concat_step H (i, VJson x) (Some (VJson (JArray ys))) = ereturn (Some (VJson (JArray (ys @ [j]))))"
    by (simp add: concat_step_def w(1) DataOperations_ArrayAppend_def cast_def j(1))
  moreover have "json_ok H (JArray (ys @ [j]))" using Cons.prems(2) j(2) by simp
  ultimately show ?case using Cons.IH [of "ys @ [j]" kvs'] Cons.prems(1) kvs j(3) by auto
qed auto

lemma Iter_JArray_snd: "map snd (fst (DataOperations_Iter (Some (VJson (JArray xs))))) = map VJson xs"
  unfolding Iter_JArray fst_conv by (rule nth_equalityI) simp_all

lemma arrayConcat_rep:
  assumes "json_ok H (JArray xs)" and "json_ok H (JArray ys)"
  shows "gives H s (MArray (map meaning xs @ map meaning ys)) (arrayConcatBuiltin H [Some (VJson (JArray xs)), Some (VJson (JArray ys))] s)"
proof -
  have "list_all (json_ok H) xs" "list_all (json_ok H) ys" using assms by simp_all
  from concat_steps [OF this(1) _ Iter_JArray_snd, of "[]"] obtain as where as:
    "efold (concat_step H) (fst (DataOperations_Iter (Some (VJson (JArray xs))))) (Some (VJson (JArray []))) = ereturn (Some (VJson (JArray as)))"
    "json_ok H (JArray as)" "map meaning as = map meaning xs" by auto
  from concat_steps [OF \<open>list_all (json_ok H) ys\<close> as(2) Iter_JArray_snd] obtain bs where bs:
    "efold (concat_step H) (fst (DataOperations_Iter (Some (VJson (JArray ys))))) (Some (VJson (JArray as))) = ereturn (Some (VJson (JArray bs)))"
    "json_ok H (JArray bs)" "map meaning bs = map meaning xs @ map meaning ys" by (auto simp: as(3))
  have "arrayConcatBuiltin H [Some (VJson (JArray xs)), Some (VJson (JArray ys))] s = returns (Some (VJson (JArray bs))) s"
    using as(1) bs(1) by (simp add: arrayConcatBuiltin_def builtinArrayOperand_def MakeArray_def Iter_JArray end_iter_def)
  moreover have "meaning (JArray bs) = MArray (map meaning xs @ map meaning ys)" using bs(3) by simp
  ultimately show ?thesis using gives_json [OF bs(2), of _ s] by simp
qed

text \<open>The elements with an index from \<open>start\<close> on and below \<open>stop\<close>.\<close>

lemma arraySlice_rep:
  assumes "Number_Int64 m = Some start" and "Number_Int64 n = Some stop"
  shows "arraySliceBuiltin [Some (VJson (JArray xs)), Some (VJson (JFloat m)), Some (VJson (JFloat n))] s =
    returns (Some (VJson (JArray (map snd (filter (\<lambda>(i, x). start \<le> int i \<and> int i < stop) (zip [0..<length xs] xs)))))) s"
proof -
  have filt: "map snd (filter (\<lambda>(i, x). a \<le> i \<and> i < b) (zip [k..<k + length ys] ys)) = take (b - max a k) (drop (a - k) ys)"
    for a b k and ys :: "json list"
  proof (induction ys arbitrary: k)
    case (Cons y ys)
    have "zip [k..<k + length (y # ys)] (y # ys) = (k, y) # zip [Suc k..<Suc k + length ys] ys"
      using upt_rec [of k "k + length (y # ys)"] by (simp del: upt_Suc)
    then have eq: "map snd (filter (\<lambda>(i, x). a \<le> i \<and> i < b) (zip [k..<k + length (y # ys)] (y # ys))) =
        (if a \<le> k \<and> k < b then [y] else []) @ take (b - max a (Suc k)) (drop (a - Suc k) ys)"
      using Cons.IH [of "Suc k"] by simp
    show ?case
    proof (cases "a \<le> k")
      case True
      moreover have "b - Suc k = n" "k < b" if "b - k = Suc n" for n using that by simp_all
      ultimately show ?thesis unfolding eq by (cases "b - k") (auto simp: max_def)
    next
      case False
      then have "a - k = Suc (a - Suc k)" "max a (Suc k) = max a k" by auto
      then show ?thesis unfolding eq using False by simp
    qed
  qed simp
  let ?a = "nat (max 0 start)" and ?b = "nat (min stop (int (length xs)))"
  have "filter (\<lambda>(i, x). start \<le> int i \<and> int i < stop) (zip [0..<length xs] xs) = filter (\<lambda>(i, x). ?a \<le> i \<and> i < ?b) (zip [0..<length xs] xs)"
    by (rule filter_cong [OF refl]) (auto dest!: set_zip_leftD)
  then have sel: "map snd (filter (\<lambda>(i, x). start \<le> int i \<and> int i < stop) (zip [0..<length xs] xs)) = take (?b - ?a) (drop ?a xs)"
    using filt [of ?a ?b 0 xs] by simp
  show ?thesis
    unfolding sel
    by (auto simp: arraySliceBuiltin_def builtinIntegerOperand_def builtinNumberOperand_def builtinArrayOperand_def assms Let_def MakeArray_def
        nat_diff_distrib max_def min_def)
qed

lemma binaryOr_rep:
  assumes "json_ok H (JSet t)" and "json_ok H (JSet u)"
  shows "\<exists>S T. meaning (JSet t) = MSet S \<and> meaning (JSet u) = MSet T \<and>
    gives H s (MSet (S |\<union>| T)) (binaryOrBuiltin H [Some (VJson (JSet t)), Some (VJson (JSet u))] s)"
proof -
  let ?n = "max (table_len t) (table_len u)"
  have t: "set_inv (hash H) meaning {v. json_ok H v} t" and u: "set_inv (hash H) meaning {v. json_ok H v} u"
    using assms unfolding json_ok_set by simp_all
  have "set_inv (hash H) meaning {v. json_ok H v} (NewSet ?n)" "set_abs meaning (NewSet ?n) = {}" by (simp_all add: NewSet_def)
  with jv.Set_MergeWith_spec [of H "NewSet ?n" t] t obtain r where r: "Set_MergeWith (equalOp H) (NewSet ?n) t = Some r"
    "set_inv (hash H) meaning {v. json_ok H v} r" "set_abs meaning r = set_abs meaning t" by auto
  from jv.Set_MergeWith_spec [OF r(2) u] obtain r' where r': "Set_MergeWith (equalOp H) r u = Some r'"
    "set_inv (hash H) meaning {v. json_ok H v} r'" "set_abs meaning r' = set_abs meaning t \<union> set_abs meaning u" by (auto simp: r(3))
  obtain S T where ST: "meaning (JSet t) = MSet S" "meaning (JSet u) = MSet T" by simp
  have "fset (S |\<union>| T) = set_abs meaning r'" using ST unfolding meaning_set by (simp add: r'(3))
  then have "meaning (JSet r') = MSet (S |\<union>| T)" unfolding meaning_set .
  moreover have "json_ok H (JSet r')" using r'(2) unfolding json_ok_set .
  moreover have "binaryOrBuiltin H [Some (VJson (JSet t)), Some (VJson (JSet u))] s = returns (Some (VJson (JSet r'))) s"
    using r(1) r'(1) by (simp add: binaryOrBuiltin_def builtinSetOperand_def Let_def)
  ultimately show ?thesis using ST gives_json [of H "JSet r'"] by metis
qed

end
