(* ===== verification/Builtins_Text.thy ===== *)
theory Builtins_Text
  imports Builtins_Correct "HOL-Library.Sublist"
begin

text \<open>
  The builtins on strings and numbers: joining and comparing strings, the number of runes of a string, ranges of
  numbers with the overflow of their arithmetic, and the cache of compiled glob patterns.
\<close>

section \<open>Prefixes, suffixes and joining\<close>

lemma HasPrefix_prefix: "HasPrefix x p \<longleftrightarrow> prefix p x"
proof
  assume "HasPrefix x p"
  then show "prefix p x" using take_is_prefix [of "length p" x] by (simp add: HasPrefix_def)
qed (auto simp: HasPrefix_def prefix_def)

lemma HasSuffix_suffix: "HasSuffix x p \<longleftrightarrow> suffix p x"
proof
  assume "HasSuffix x p"
  then show "suffix p x" using suffix_drop [of "length x - length p" x] by (simp add: HasSuffix_def)
qed (auto simp: HasSuffix_def suffix_def)

lemma strings_of_map [simp]: "strings_of (map JString xs) = Inr xs"
  by (induction xs) (simp_all add: string_of_def)

lemma strings_of_Inr: "strings_of js = Inr xs \<Longrightarrow> js = map JString xs"
proof (induction js arbitrary: xs)
  case (Cons j js)
  then obtain x where x: "string_of j = Some x" by (cases "string_of j") auto
  then have "j = JString x" by (simp add: string_of_def split: json.splits)
  then show ?case using Cons.IH Cons.prems x by (cases "strings_of js") auto
qed simp

section \<open>Runes\<close>

text \<open>The UTF-8 encoding of a Unicode scalar value.\<close>

definition scalar :: "nat \<Rightarrow> bool" where
  "scalar c \<longleftrightarrow> c < 55296 \<or> 57344 \<le> c \<and> c < 1114112"

definition utf8 :: "nat \<Rightarrow> bytes" where
  "utf8 c = map word_of_nat
     (if c < 128 then [c]
      else if c < 2048 then [192 + c div 64, 128 + c mod 64]
      else if c < 65536 then [224 + c div 4096, 128 + c div 64 mod 64, 128 + c mod 64]
      else [240 + c div 262144, 128 + c div 4096 mod 64, 128 + c div 64 mod 64, 128 + c mod 64])"

lemma byte_unat: "n < 256 \<Longrightarrow> unat (word_of_nat n :: u8) = n"
  by (simp add: unsigned_of_nat take_bit_eq_mod)

lemma continuation_byte: "continuation (word_of_nat (128 + n mod 64))"
proof -
  have "n mod 64 < 64" by simp
  then have "128 + n mod 64 < 256" by linarith
  from byte_unat [OF this] show ?thesis by (simp add: continuation_def word_le_nat_alt)
qed

lemma rune_len_1: "unat b < 128 \<Longrightarrow> rune_len (b # r) = 1"
  by (auto simp: rune_len_def word_le_nat_alt split: list.split)

lemma rune_len_2: "194 \<le> b \<Longrightarrow> b \<le> 223 \<Longrightarrow> continuation c \<Longrightarrow> rune_len (b # c # r) = 2"
  by (auto simp: rune_len_def split: list.split)

lemma rune_len_3: "224 \<le> b \<Longrightarrow> b \<le> 239 \<Longrightarrow> second_ok b c \<Longrightarrow> continuation d \<Longrightarrow> rune_len (b # c # d # r) = 3"
  by (auto simp: rune_len_def word_le_nat_alt split: list.split)

lemma rune_len_4:
  "240 \<le> b \<Longrightarrow> b \<le> 244 \<Longrightarrow> second_ok b c \<Longrightarrow> continuation d \<Longrightarrow> continuation e \<Longrightarrow> rune_len (b # c # d # e # r) = 4"
  by (auto simp: rune_len_def word_le_nat_alt)

lemma second_ok_3:
  assumes "2048 \<le> c" and "c < 65536" and "scalar c"
  shows "second_ok (word_of_nat (224 + c div 4096)) (word_of_nat (128 + c div 64 mod 64))"
proof -
  define x where "x = c div 64"
  have x: "c div 4096 = x div 64" "32 \<le> x" "x < 1024" using assms(1,2) div_le_mono [of 2048 c 64] by (simp_all add: x_def flip: div_mult2_eq)
  have "c < 64 * 864 \<or> 57344 \<le> c" using assms(3) by (auto simp: scalar_def)
  then have surr: "x < 864 \<or> 896 \<le> x" using div_le_mono [of 57344 c 64] by (auto simp: x_def)
  have split: "x = 64 * (x div 64) + x mod 64" "x mod 64 < 64" by simp_all
  have b: "224 + x div 64 < 256" and d: "128 + x mod 64 < 256" using x(3) split by linarith+
  have low: "160 \<le> 128 + x mod 64" if "x div 64 = 0" using that x(2) split by linarith
  have high: "128 + x mod 64 \<le> 159" if "x div 64 = 13" using that surr split by linarith
  have "x div 64 < 16" using x(3) split by linarith
  then show ?thesis
    using low high byte_unat [OF b] byte_unat [OF d] continuation_byte [of x]
    by (auto simp: second_ok_def word_le_nat_alt word_unat_eq_iff continuation_def x(1) simp flip: x_def)
qed

lemma second_ok_4:
  assumes "65536 \<le> c" and "c < 1114112"
  shows "second_ok (word_of_nat (240 + c div 262144)) (word_of_nat (128 + c div 4096 mod 64))"
proof -
  define x where "x = c div 4096"
  have x: "c div 262144 = x div 64" "16 \<le> x" "x < 272" using assms div_le_mono [of 65536 c 4096] by (simp_all add: x_def flip: div_mult2_eq)
  have split: "x = 64 * (x div 64) + x mod 64" "x mod 64 < 64" by simp_all
  have b: "240 + x div 64 < 256" and d: "128 + x mod 64 < 256" using x(3) split by linarith+
  have low: "144 \<le> 128 + x mod 64" if "x div 64 = 0" using that x(2) split by linarith
  have high: "128 + x mod 64 \<le> 143" if "x div 64 = 4" using that x(3) split by linarith
  have "x div 64 < 5" using x(3) split by linarith
  then show ?thesis
    using low high byte_unat [OF b] byte_unat [OF d] continuation_byte [of x]
    by (auto simp: second_ok_def word_le_nat_alt word_unat_eq_iff continuation_def x(1) simp flip: x_def)
qed

lemma rune_len_utf8:
  assumes "scalar c"
  shows "rune_len (utf8 c @ r) = length (utf8 c)"
proof -
  consider "c < 128" | "128 \<le> c" "c < 2048" | "2048 \<le> c" "c < 65536" | "65536 \<le> c" "c < 1114112"
    using assms unfolding scalar_def by linarith
  then show ?thesis
  proof cases
    case 1
    then show ?thesis using rune_len_1 [of "word_of_nat c" r] byte_unat [of c] by (simp add: utf8_def)
  next
    case 2
    then have "c div 64 < 32" "2 \<le> c div 64" using div_le_mono [of 128 c 64] by (simp_all add: less_mult_imp_div_less)
    then have "192 + c div 64 < 256" "194 \<le> 192 + c div 64" "192 + c div 64 \<le> 223" by simp_all
    then show ?thesis using 2 rune_len_2 [OF _ _ continuation_byte, of "word_of_nat (192 + c div 64)" c r] byte_unat [of "192 + c div 64"]
      by (simp add: utf8_def word_le_nat_alt)
  next
    case 3
    then have "c div 4096 < 16" by (intro less_mult_imp_div_less) simp
    then have "224 + c div 4096 < 256" "224 + c div 4096 \<le> 239" by simp_all
    then show ?thesis
      using 3 rune_len_3 [OF _ _ second_ok_3 [OF 3 assms] continuation_byte, of c r] byte_unat [of "224 + c div 4096"]
      by (simp add: utf8_def word_le_nat_alt)
  next
    case 4
    then have "c div 262144 < 5" by (intro less_mult_imp_div_less) simp
    then have "240 + c div 262144 < 256" "240 + c div 262144 \<le> 244" by simp_all
    then show ?thesis
      using 4 rune_len_4 [OF _ _ second_ok_4 [OF 4] continuation_byte continuation_byte, of "c div 64" c r] byte_unat [of "240 + c div 262144"]
      by (simp add: utf8_def word_le_nat_alt)
  qed
qed

lemma rune_count_utf8:
  assumes "list_all scalar cs"
  shows "rune_count (concat (map utf8 cs)) = length cs"
  using assms
proof (induction cs)
  case (Cons c cs)
  have "utf8 c \<noteq> []" by (simp add: utf8_def)
  then have "rune_count (utf8 c @ concat (map utf8 cs)) = Suc (rune_count (drop (length (utf8 c)) (utf8 c @ concat (map utf8 cs))))"
    using rune_len_utf8 [of c "concat (map utf8 cs)"] Cons.prems by (subst rune_count.simps) simp
  then show ?case using Cons by simp
qed (simp add: rune_count.simps)

section \<open>Ranges\<close>

lemma wrap_id: "- (2 ^ 63) \<le> i \<Longrightarrow> i < 2 ^ 63 \<Longrightarrow> wrap i = i"
  by (simp add: wrap_def)

lemma quotient_div: "0 \<le> a \<Longrightarrow> 0 < b \<Longrightarrow> quotient a b = a div b"
  by (cases "a = 0") (simp_all add: quotient_def)

definition checked :: "nat \<Rightarrow> 'a bstate \<Rightarrow> 'a bstate" where
  "checked n = map_globals (\<lambda>g. g\<lparr>g_checks := g_checks g + n\<rparr>)"

lemma Cancelled_checked: "Cancelled cancelled s = (cancelled (g_checks (s_Globals s)), checked 1 s)"
  by (simp add: Cancelled_def checked_def)

lemma checked_checked: "checked n (checked k s) = checked (k + n) s"
  by (simp add: checked_def map_globals_def add.assoc)

lemma range_loop_all:
  assumes "\<And>n. \<not> cancelled n"
  shows "range_loop cancelled nxt i n elems s = (elems @ map (\<lambda>k. MakeNumberInt (nxt (i + int k))) [0..<n], checked n s)"
proof (induction n arbitrary: i elems s)
  case 0
  then show ?case by (simp add: checked_def map_globals_def)
next
  case (Suc n)
  have "map (\<lambda>k. MakeNumberInt (nxt (i + int k))) [0..<Suc n] = MakeNumberInt (nxt i) # map (\<lambda>k. MakeNumberInt (nxt (i + 1 + int k))) [0..<n]"
    by (rule nth_equalityI) (auto simp: nth_Cons add.assoc simp del: upt_Suc split: nat.split)
  then show ?case using Suc.IH [of "i + 1"] by (simp add: Cancelled_checked assms checked_checked del: upt_Suc)
qed

text \<open>The numbers from \<open>start\<close> to \<open>stop\<close>, up or down by \<open>step\<close>.\<close>

definition range_numbers :: "int \<Rightarrow> int \<Rightarrow> int \<Rightarrow> int list" where
  "range_numbers start stop step =
     map (\<lambda>k. if start \<le> stop then start + int k * step else start - int k * step) [0..<nat (\<bar>stop - start\<bar> div step + 1)]"

lemma numbersRange_rep:
  assumes "- (2 ^ 63) \<le> start" "start < 2 ^ 63" "- (2 ^ 63) \<le> stop" "stop < 2 ^ 63" "0 < step" and "\<bar>stop - start\<bar> < 2 ^ 63 - 1"
    and "\<And>n. \<not> cancelled n"
  shows "\<exists>n. numbersRange cancelled s start stop step = returns (Some (VJson (JArray (map MakeNumberInt (range_numbers start stop step))))) (checked n s)"
proof -
  let ?d = "\<bar>stop - start\<bar>" and ?n = "nat (\<bar>stop - start\<bar> div step + 1)"
  have quot: "0 \<le> ?d div step" using assms(5) by (simp add: pos_imp_zdiv_nonneg_iff)
  have "?d div step * step \<le> ?d" using div_mult_mod_eq [of ?d step] pos_mod_sign [of step ?d] assms(5) by linarith
  moreover have "?d div step * 1 \<le> ?d div step * step" using quot assms(5) by (intro mult_left_mono) auto
  ultimately have le: "?d div step * step \<le> ?d" "?d div step \<le> ?d" by simp_all
  have "(if start \<le> stop then wrap (stop - start) else wrap (start - stop)) = ?d" using assms(6) wrap_id [of ?d] by (auto simp: abs_if)
  then have len: "range_length start stop step = ?d div step + 1"
    using quot le assms(5,6) wrap_id [of "?d div step + 1"] by (simp add: range_length_def quotient_div)
  have nxt: "range_next start stop step (int k) = (if start \<le> stop then start + int k * step else start - int k * step)" if "k < ?n" for k
  proof -
    have "int k \<le> ?d div step" using that quot by linarith
    then have "int k * step \<le> ?d div step * step" using assms(5) by (intro mult_right_mono) simp_all
    then have k: "int k * step \<le> ?d" "0 \<le> int k * step" using le(1) assms(5) by (linarith, simp)
    then have "wrap (int k * step) = int k * step" using assms(6) by (intro wrap_id) auto
    moreover have "start \<le> stop \<Longrightarrow> wrap (start + int k * step) = start + int k * step" using k assms(1-4) by (intro wrap_id) auto
    moreover have "\<not> start \<le> stop \<Longrightarrow> wrap (start - int k * step) = start - int k * step" using k assms(1-4) by (intro wrap_id) auto
    ultimately show ?thesis by (simp add: range_next_def)
  qed
  have "map (\<lambda>k. MakeNumberInt (range_next start stop step (0 + int k))) [0..<?n] = map MakeNumberInt (range_numbers start stop step)"
    using nxt by (auto simp: range_numbers_def simp del: upt_Suc)
  then show ?thesis
    by (auto simp: numbersRange_def len range_loop_all [OF assms(7)] Cancelled_checked assms(7) checked_checked)
qed

lemma NonStrict_int:
  assumes "map_option float64_value (Number_Float64 n) = Some (of_int i)" and "- (2 ^ 63) \<le> i" and "i < 2 ^ 63"
  shows "builtinIntegerOperandNonStrict conv s (VJson (JFloat n)) pos = Inr i"
  using assms by (auto simp: builtinIntegerOperandNonStrict_def builtinNumberOperand_def int_of_float_def Let_def ceiling_def [symmetric])

end
