(* ===== verification/Builtins_Walk.thy ===== *)
theory Builtins_Walk
  imports Builtins_Correct
begin

text \<open>
  The builtin \<open>walk\<close>: it lists every path of a value together with the value the path leads to.
\<close>

section \<open>The walk without errors\<close>

definition cast_or_null :: "(bytes \<Rightarrow> u64) \<Rightarrow> data_value \<Rightarrow> json" where
  "cast_or_null H v = (case castJSON H v of Some (Inr j) \<Rightarrow> j | _ \<Rightarrow> JNull)"

function walk_list :: "(bytes \<Rightarrow> u64) \<Rightarrow> json list \<Rightarrow> data_value \<Rightarrow> (json list \<times> json) list" where
  "walk_list H p v = (p, cast_or_null H v) #
     concat (map (\<lambda>(k, v). walk_list H (p @ [cast_or_null H k]) v) (fst (DataOperations_Iter (Some v))))"
  by pat_completeness auto
termination by (relation "measure (\<lambda>(_, _, v). vsize v)") (auto dest: Iter_less)

declare walk_list.simps [simp del]

definition tuple :: "json list \<times> json \<Rightarrow> json" where
  "tuple = (\<lambda>(p, j). JArray [JArray p, j])"

text \<open>Every collection inside of the value has fewer than 2^63 entries.\<close>

definition small :: "mvalue \<Rightarrow> bool" where
  "small m \<longleftrightarrow> (\<forall>p y. leads m p y \<longrightarrow> int (msize y) < 2 ^ 63)"

lemma small_size: "small m \<Longrightarrow> int (msize m) < 2 ^ 63"
  unfolding small_def by (drule spec [of _ "[]"]) simp

lemma small_entry: "small m \<Longrightarrow> mentry m \<kappa> y \<Longrightarrow> small y"
  unfolding small_def by (metis leads.simps(2))

lemma cast_or_null_rep: "vrep H v m \<Longrightarrow> castJSON H v = ereturn (cast_or_null H v) \<and> json_ok H (cast_or_null H v) \<and> meaning (cast_or_null H v) = m"
  using castJSON_rep [of H v m] by (auto simp: JRep_def cast_or_null_def ereturn_def)

lemma entries_forth:
  assumes "list_all2 (\<lambda>kv xy. P (fst kv) (fst xy) \<and> P (snd kv) (snd xy)) kvs xys" and "(k, w) \<in> set kvs"
  shows "\<exists>x y. (x, y) \<in> set xys \<and> P k x \<and> P w y"
proof -
  from assms(2) obtain i where "i < length kvs" "kvs ! i = (k, w)" by (auto simp: in_set_conv_nth)
  then show ?thesis using assms(1) by (intro exI [of _ "fst (xys ! i)"] exI [of _ "snd (xys ! i)"]) (auto simp: list_all2_conv_all_nth)
qed

lemma entries_back:
  assumes "list_all2 (\<lambda>kv xy. P (fst kv) (fst xy) \<and> P (snd kv) (snd xy)) kvs xys" and "(x, y) \<in> set xys"
  shows "\<exists>k w. (k, w) \<in> set kvs \<and> P k x \<and> P w y"
proof -
  from assms(2) obtain i where "i < length xys" "xys ! i = (x, y)" by (auto simp: in_set_conv_nth)
  then show ?thesis using assms(1) by (intro exI [of _ "fst (kvs ! i)"] exI [of _ "snd (kvs ! i)"]) (auto simp: list_all2_conv_all_nth)
qed

lemma walk_record_ok:
  assumes "castJSON H v = ereturn j"
  shows "walk_record H (Some (VJson (JArray p))) v (Some (VJson (JArray a))) = Some (Some (VJson (JArray (a @ [tuple (p, j)]))), None)"
  using assms
  by (simp add: walk_record_def DataOperations_ArrayAppend_def cast_def MakeArray_def ereturn_def tuple_def)

text \<open>The loop over the entries, given that the walks below are right.\<close>

lemma walk_fold_ok:
  assumes "\<And>k v a. (k, v) \<in> set kvs \<Longrightarrow> f (k, v) (Some (VJson (JArray a))) = Some (Some (VJson (JArray (a @ map tuple (g k v)))), None)"
  shows "walk_fold f kvs (Some (VJson (JArray a))) = Some (Some (VJson (JArray (a @ map tuple (concat (map (\<lambda>(k, v). g k v) kvs))))), None)"
  using assms
proof (induction kvs arbitrary: a)
  case (Cons kv kvs)
  then show ?case by (cases kv) auto
qed simp

lemma walk_do_list:
  assumes "vrep H v m" and "small m"
  shows "walk_do H (Some (VJson (JArray p))) v (Some (VJson (JArray a))) = Some (Some (VJson (JArray (a @ map tuple (walk_list H p v)))), None)"
  using assms
proof (induction "vsize v" arbitrary: v m p a rule: less_induct)
  case less
  from Iter_rep [OF less.prems(1) small_size [OF less.prems(2)]] obtain kvs xys where it: "DataOperations_Iter (Some v) = (kvs, None)"
    "mentries m xys" "list_all2 (\<lambda>kv xy. vrep H (fst kv) (fst xy) \<and> vrep H (snd kv) (snd xy)) kvs xys" by blast
  let ?f = "\<lambda>(k, v) arr. case DataOperations_CopyShallow H (Some (VJson (JArray p))) of
            None \<Rightarrow> None
          | Some (Inl e) \<Rightarrow> Some (arr, Some e)
          | Some (Inr p) \<Rightarrow> (case DataOperations_ArrayAppend H (Some p) (Some k) of
              None \<Rightarrow> None
            | Some (Inl e) \<Rightarrow> Some (arr, Some e)
            | Some (Inr (p, _)) \<Rightarrow> walk_do H p v arr)"
  have step: "?f (k, w) (Some (VJson (JArray a))) = Some (Some (VJson (JArray (a @ map tuple (walk_list H (p @ [cast_or_null H k]) w)))), None)"
    if kw: "(k, w) \<in> set kvs" for k w a
  proof -
    from entries_forth [OF it(3) kw] obtain x y where xy: "(x, y) \<in> set xys" "vrep H k x" "vrep H w y" by blast
    then have "mentry m x y" using mentries_mentry [OF it(2)] by blast
    then have "small y" by (rule small_entry [OF less.prems(2)])
    moreover have "vsize w < vsize v" using Iter_less [of k w v] kw it(1) by simp
    ultimately have "walk_do H (Some (VJson (JArray (p @ [cast_or_null H k])))) w (Some (VJson (JArray a))) =
        Some (Some (VJson (JArray (a @ map tuple (walk_list H (p @ [cast_or_null H k]) w)))), None)"
      using less.hyps [of w y] xy(3) by blast
    moreover have "castJSON H k = ereturn (cast_or_null H k)" using cast_or_null_rep [OF xy(2)] by simp
    ultimately show ?thesis by (simp add: DataOperations_CopyShallow_def DataOperations_ArrayAppend_def cast_def ereturn_def)
  qed
  have "castJSON H v = ereturn (cast_or_null H v)" using cast_or_null_rep [OF less.prems(1)] by simp
  from walk_record_ok [OF this, of p a] show ?case
    using walk_fold_ok [of kvs ?f "\<lambda>k w. walk_list H (p @ [cast_or_null H k]) w" "a @ [tuple (p, cast_or_null H v)]", OF step]
    by (subst walk_do.simps) (simp add: it(1) walk_list.simps [of H p v])
qed

section \<open>What the walk lists\<close>

lemma walk_list_leads:
  assumes "vrep H v m" and "small m" and "list_all (json_ok H) p"
  shows "(\<lambda>(p, j). (map meaning p, meaning j)) ` set (walk_list H p v) = {(map meaning p @ q, y) | q y. leads m q y} \<and>
    (\<forall>(p, j) \<in> set (walk_list H p v). list_all (json_ok H) p \<and> json_ok H j)"
  using assms
proof (induction "vsize v" arbitrary: v m p rule: less_induct)
  case less
  from Iter_rep [OF less.prems(1) small_size [OF less.prems(2)]] obtain kvs xys where it: "DataOperations_Iter (Some v) = (kvs, None)"
    "mentries m xys" "list_all2 (\<lambda>kv xy. vrep H (fst kv) (fst xy) \<and> vrep H (snd kv) (snd xy)) kvs xys" by blast
  note self = cast_or_null_rep [OF less.prems(1)]
  let ?img = "\<lambda>(p, j). (map meaning p, meaning j)"
  have below: "?img ` set (walk_list H (p @ [cast_or_null H k]) w) = {(map meaning p @ x # q, z) | q z. leads y q z} \<and>
      (\<forall>(p, j) \<in> set (walk_list H (p @ [cast_or_null H k]) w). list_all (json_ok H) p \<and> json_ok H j)"
    if "(k, w) \<in> set kvs" "(x, y) \<in> set xys" "vrep H k x" "vrep H w y" for k w x y
  proof -
    have "mentry m x y" using that(2) mentries_mentry [OF it(2)] by blast
    then have "small y" by (rule small_entry [OF less.prems(2)])
    moreover have "vsize w < vsize v" using Iter_less [of k w v] that(1) it(1) by simp
    ultimately show ?thesis
      using less.hyps [of w y "p @ [cast_or_null H k]"] that(4) less.prems(3) cast_or_null_rep [OF that(3)] by simp
  qed
  have pairs: "\<exists>x y. (x, y) \<in> set xys \<and> vrep H k x \<and> vrep H w y" if "(k, w) \<in> set kvs" for k w
    using entries_forth [OF it(3) that] .
  have backw: "\<exists>k w. (k, w) \<in> set kvs \<and> vrep H k x \<and> vrep H w y" if "(x, y) \<in> set xys" for x y
    using entries_back [OF it(3) that] .
  have elems: "set (walk_list H p v) = insert (p, cast_or_null H v) (\<Union>(k, w) \<in> set kvs. set (walk_list H (p @ [cast_or_null H k]) w))"
    by (auto simp: walk_list.simps [of H p v] it(1))
  have "z \<in> ?img ` set (walk_list H p v) \<longleftrightarrow> z \<in> {(map meaning p @ q, y) | q y. leads m q y}" for z
  proof
    assume "z \<in> ?img ` set (walk_list H p v)"
    then consider "z = (map meaning p, m)" | k w where "(k, w) \<in> set kvs" "z \<in> ?img ` set (walk_list H (p @ [cast_or_null H k]) w)"
      using self unfolding elems by force
    then show "z \<in> {(map meaning p @ q, y) | q y. leads m q y}"
    proof cases
      case (2 k w)
      from pairs [OF 2(1)] obtain x y where xy: "(x, y) \<in> set xys" "vrep H k x" "vrep H w y" by blast
      with 2 below [OF 2(1) xy] obtain q u where "z = (map meaning p @ x # q, u)" "leads y q u" by auto
      moreover have "mentry m x y" using xy(1) mentries_mentry [OF it(2)] by blast
      ultimately show ?thesis by fastforce
    qed auto
  next
    assume "z \<in> {(map meaning p @ q, y) | q y. leads m q y}"
    then obtain q y where z: "z = (map meaning p @ q, y)" "leads m q y" by blast
    show "z \<in> ?img ` set (walk_list H p v)"
    proof (cases q)
      case Nil
      then show ?thesis using z self unfolding elems by auto
    next
      case (Cons x q')
      then obtain u where u: "mentry m x u" "leads u q' y" using z(2) by auto
      then have "(x, u) \<in> set xys" using mentries_mentry [OF it(2)] by blast
      from backw [OF this] obtain k w where kw: "(k, w) \<in> set kvs" "vrep H k x" "vrep H w u" by blast
      have "z \<in> ?img ` set (walk_list H (p @ [cast_or_null H k]) w)"
        unfolding below [OF kw(1) \<open>(x, u) \<in> set xys\<close> kw(2,3), THEN conjunct1] using z(1) u(2) Cons by auto
      then show ?thesis using kw(1) unfolding elems by blast
    qed
  qed
  moreover have "\<forall>(p, j) \<in> set (walk_list H p v). list_all (json_ok H) p \<and> json_ok H j"
    using self less.prems(3) below pairs unfolding elems by fastforce
  ultimately show ?case by blast
qed

lemma walk_rep:
  assumes "vrep H v m" and "small m"
  shows "\<exists>ps. walkBuiltin H [Some v] s = returns (Some (VJson (JArray (map (\<lambda>(p, j). JArray [JArray p, j]) ps)))) s \<and>
    list_all (\<lambda>(p, j). list_all (json_ok H) p \<and> json_ok H j) ps \<and>
    (\<lambda>(p, j). (map meaning p, meaning j)) ` set ps = {(q, y). leads m q y}"
proof (intro exI conjI)
  show "walkBuiltin H [Some v] s = returns (Some (VJson (JArray (map (\<lambda>(p, j). JArray [JArray p, j]) (walk_list H [] v))))) s"
    using walk_do_list [OF assms, of "[]" "[]"] by (simp add: walkBuiltin_def MakeArray_def returns_def tuple_def)
qed (use walk_list_leads [OF assms, of "[]"] in \<open>auto simp: list_all_iff\<close>)

end
