(* ===== verification/Builtins_Machine.thy ===== *)
theory Builtins_Machine
  imports Builtins_Text Builtins_Walk
begin

text \<open>
  The properties of the builtins of the machine, and the machine that runs with the data operations of \<open>Data_Ops\<close>
  and these builtins.
\<close>

section \<open>The machine\<close>

text \<open>The operations of the machine on values of \<open>Data_Ops\<close>.  A panic is an error here; operations on values that
  stand for something do not panic.  \<open>ast\<close>, \<open>unast\<close> and \<open>aststr\<close> are OPA's AST values, \<open>digest\<close> the hash of intermediate
  results; there are no namespaces of functions.\<close>

definition no_panic :: "(data_error + 'x) option \<Rightarrow> builtin_error + 'x" where
  "no_panic m = (case m of None \<Rightarrow> Inl (DataErr ErrInvalidData) | Some (Inl e) \<Rightarrow> Inl (DataErr e) | Some (Inr x) \<Rightarrow> Inr x)"

definition data_ops :: "(bytes \<Rightarrow> u64) \<Rightarrow> (data_value \<Rightarrow> 'a) \<Rightarrow> ('a \<Rightarrow> data_value) \<Rightarrow> ('a \<Rightarrow> gostring option) \<Rightarrow>
    (data_value \<Rightarrow> gostring) \<Rightarrow> (data_value, 'a, builtin_error) ops" where
  "data_ops H ast unast aststr digest = \<lparr>
     op_Get = (\<lambda>v k. no_panic (DataOperations_Get H v k)),
     op_GetCall = (\<lambda>v k. Inr None),
     op_IsCall = (\<lambda>v. Inr False),
     op_Call = (\<lambda>v args. Inr (None, False, False)),
     op_ArrayAppend = (\<lambda>a v. no_panic (DataOperations_ArrayAppend H a v)),
     op_CopyShallow = (\<lambda>v. map_option (map_sum DataErr id) (DataOperations_CopyShallow H v)),
     op_Equal = (\<lambda>a b. no_panic (DataOperations_Equal H a b)),
     op_Iter = (\<lambda>v. map_prod id (map_option DataErr) (DataOperations_Iter v)),
     op_IsArray = (\<lambda>v. no_panic (DataOperations_IsArray H v)),
     op_IsSet = (\<lambda>v. no_panic (DataOperations_IsSet H v)),
     op_IsObject = (\<lambda>v. no_panic (DataOperations_IsObject H v)),
     op_MakeArray = (\<lambda>n. VJson (MakeArray n)),
     op_MakeBoolean = (\<lambda>b. VJson (MakeBoolean b)),
     op_MakeObject = VJson MakeObject,
     op_MakeNull = VJson MakeNull,
     op_MakeNumberInt = (\<lambda>i. VJson (MakeNumberInt i)),
     op_MakeNumberRef = (\<lambda>n. VJson (MakeNumberRef n)),
     op_MakeSet = VJson MakeSet,
     op_MakeString = (\<lambda>x. VJson (MakeString x)),
     op_Len = (\<lambda>v. map_sum id VJson (no_panic (DataOperations_Len H v))),
     op_ObjectGet = (\<lambda>v k. no_panic (DataOperations_ObjectGet H v k)),
     op_ObjectInsert = (\<lambda>obj k v. map_option (map_sum DataErr id) (DataOperations_ObjectInsert H obj k v)),
     op_ObjectMerge = (\<lambda>a b. no_panic (DataOperations_ObjectMerge H a b)),
     op_SetAdd = (\<lambda>s v. case no_panic (DataOperations_SetAdd H s v) of
        Inl e \<Rightarrow> Inl e | Inr None \<Rightarrow> Inl (DataErr ErrInvalidData) | Inr (Some w) \<Rightarrow> Inr w),
     op_ToAST = (\<lambda>v. case v of
        None \<Rightarrow> None
      | Some v \<Rightarrow> Some (case ToAST_error v of Some e \<Rightarrow> Inl (DataErr e) | None \<Rightarrow> Inr (ast v))),
     op_FromInterface = (\<lambda>a. Some (Inr (unast a))),
     op_ToInterface_number = (\<lambda>v. case v of
        None \<Rightarrow> None
      | Some v \<Rightarrow> Some (case ToAST_error v of Some e \<Rightarrow> Inl (DataErr e) | None \<Rightarrow> Inr (case v of VJson (JFloat n) \<Rightarrow> Some n | _ \<Rightarrow> None))),
     op_ToInterface = (\<lambda>v. Some (case ToAST_error v of Some e \<Rightarrow> Inl (DataErr e) | None \<Rightarrow> Inr v)),
     op_String = (\<lambda>v. case v of VJson (JString x) \<Rightarrow> Some x | _ \<Rightarrow> None),
     op_IsCollection = (\<lambda>v. case v of VIterable _ _ _ \<Rightarrow> True | VJson (JArray _) \<Rightarrow> True | VJson (JSet _) \<Rightarrow> True
        | VJson (JObject _) \<Rightarrow> True | VJson (JObject2 _) \<Rightarrow> True | _ \<Rightarrow> False),
     op_Hash = (\<lambda>v. Some (Inr (digest v))),
     ast_String = aststr\<rparr>"

text \<open>The machine running with its own builtins, whatever their arguments, keeps its invariants: registers stay
  well formed, memoization tables below the current one are not touched, the instruction counter never falls.\<close>

theorem machine_with_builtins:
  fixes env :: "(data_value, 'a, builtin_error) env"
  assumes "env_specialized env = specialized_call H conv other (env_cancelled env)" and "\<And>k args s. keepsM s (other k args s)"
    and "\<And>outer args s. keepsM s (env_regoCompile env outer args s)" and "state_ok s"
  shows "case statement_Execute env fuel d s of
      None \<Rightarrow> True
    | Some (r, s') \<Rightarrow> state_ok s' \<and> butlast (g_memoize (s_Globals s')) = butlast (g_memoize (s_Globals s)) \<and>
        g_EvalInstructions (s_Globals s) \<le> g_EvalInstructions (s_Globals s')"
proof -
  have "builtins_keep env" using assms(3) keeps_specialized [of other, OF assms(2)] unfolding builtins_keep_def assms(1) keepsM_def by blast
  from keeps_statement [OF this, of fuel] have "keepsM s (statement_Execute env fuel d s)" by (simp add: st_keeps_def)
  then show ?thesis using assms(4) by (cases "statement_Execute env fuel d s") (auto simp: keeps_def)
qed

text \<open>A machine with these operations and builtins, and its first state.\<close>

definition bi_env :: "(data_value, data_value, builtin_error) env" where
  "bi_env = \<lparr>env_executable = [], env_ops = data_ops (\<lambda>_. 0) id id (\<lambda>_. None) (\<lambda>_. []), env_data = None, env_Input = None,
     env_Instructions = 100, env_cancelled = (\<lambda>_. False), env_mode = intermediateResultsDisabled,
     env_BuiltinFuncs = Map.empty, env_GetBuiltin = Map.empty, env_BuiltinMap = Map.empty, env_Halt = (\<lambda>_. False),
     env_specialized = specialized_call (\<lambda>_. 0) floor (\<lambda>_ _ s. undefined_result s) (\<lambda>_. False),
     env_regoCompile = (\<lambda>_ _ s. Some (None, s))\<rparr>"

definition bi_globals :: "(data_value, data_value, builtin_error) Globals" where
  "bi_globals = \<lparr>g_memoize = [Map.empty], g_ResultSet = VJson MakeSet, g_BuiltinErrors = [], g_IntermediateResults = Map.empty,
     g_NDBCache = None, g_checks = 0, g_EvalInstructions = 0, g_VirtualCacheHits = 0, g_VirtualCacheMisses = 0\<rparr>"

definition bi_state :: "(data_value, data_value, builtin_error) State" where
  "bi_state = newState bi_env bi_globals"

lemma bi_state_ok: "state_ok bi_state"
  by (simp add: state_ok_def bi_state_def bi_globals_def bi_env_def newState_def State_SetData_def op_defs regs_new)

theorem machine_with_builtins_witness:
  "case statement_Execute bi_env 2 [31, 0, 0, 8, 0, 0, 0, 4] bi_state of
      None \<Rightarrow> True
    | Some (r, s') \<Rightarrow> state_ok s' \<and> butlast (g_memoize (s_Globals s')) = butlast (g_memoize (s_Globals bi_state)) \<and>
        g_EvalInstructions (s_Globals bi_state) \<le> g_EvalInstructions (s_Globals s')"
proof (rule machine_with_builtins [OF _ _ _ bi_state_ok])
  show "env_specialized bi_env = specialized_call (\<lambda>_. 0) floor (\<lambda>_ _ s. undefined_result s) (env_cancelled bi_env)" by (simp add: bi_env_def)
qed (simp_all add: bi_env_def)

section \<open>Collections\<close>

text \<open>\<open>in\<close>: the builtin decides whether the collection, of any kind and in memory or not, holds a value equal to
  the given one.\<close>

theorem memberBuiltin_correct:
  assumes "vrep H x \<kappa>" and "vrep H coll m" and "int (msize m) < 2 ^ 63"
  shows "memberBuiltin H [Some x, Some coll] s = returns (Some (VJson (JBool (\<exists>\<iota>. mentry m \<iota> \<kappa>)))) s"
  using member_rep [OF assms] by (simp add: MakeBoolean_def)

theorem memberBuiltin_correct_witness:
  "memberBuiltin (\<lambda>_. 0) [Some (VJson (JFloat [49, 46, 48])), Some (VJson (JArray [JNull, JFloat [49]]))] bi_state =
    returns (Some (VJson (JBool True))) bi_state"
proof -
  have x: "vrep (\<lambda>_. 0) (VJson (JFloat [49, 46, 48])) (meaning (JFloat [49, 46, 48]))" by (rule vrep_json) code_simp
  have c: "vrep (\<lambda>_. 0) (VJson (JArray [JNull, JFloat [49]])) (meaning (JArray [JNull, JFloat [49]]))" by (rule vrep_json) code_simp
  have eq: "meaning (JFloat [49, 46, 48]) = meaning (JFloat [49])" by code_simp
  have "mentry (meaning (JArray [JNull, JFloat [49]])) (MNumber (of_nat 1)) (meaning (JFloat [49, 46, 48]))"
    unfolding eq mentry_def by (simp add: exI [of _ 1])
  then have "(\<exists>\<iota>. mentry (meaning (JArray [JNull, JFloat [49]])) \<iota> (meaning (JFloat [49, 46, 48]))) = True" by blast
  then show ?thesis using memberBuiltin_correct [OF x c, of bi_state] by simp
qed

text \<open>\<open>object.get\<close> with a path follows the path through objects, arrays and sets: it returns the value the path
  leads to, and the default exactly when there is none.\<close>

theorem objectGetBuiltin_correct:
  assumes "vrep H obj (MObject F)" and "json_ok H (JArray ks)" and "list_all index_spelled ks" and "int (length ks) < 2 ^ 63"
    and "vrep H def d"
  shows "\<exists>w. objectGetBuiltin H [Some obj, Some (VJson (JArray ks)), Some def] s = returns (Some w) s \<and>
    (if \<exists>y. leads (MObject F) (map meaning ks) y then \<exists>y. leads (MObject F) (map meaning ks) y \<and> vrep H w y else w = def)"
  using assms by (rule objectGet_path_rep)

theorem objectGetBuiltin_correct_witness:
  "\<exists>w. objectGetBuiltin (\<lambda>_. 0) [Some ex_iter, Some (VJson (JArray [JString [97]])), Some (VJson JNull)] bi_state = returns (Some w) bi_state \<and>
    vrep (\<lambda>_. 0) w (MObject {||})"
proof -
  have d: "vrep (\<lambda>_. 0) (VJson JNull) (meaning JNull)" by (rule vrep_json) simp
  have ks: "json_ok (\<lambda>_. 0) (JArray [JString [97]])" "list_all index_spelled [JString [97]]" "int (length [JString [97]]) < 2 ^ 63"
    by (simp_all add: index_spelled_def)
  have leads: "leads (MObject {|(MString [97], MObject {||})|}) (map meaning [JString [97]]) y \<longleftrightarrow> y = MObject {||}" for y
    by (auto simp: mentry_def)
  from objectGetBuiltin_correct [OF ex_iter_rep ks d, of bi_state] show ?thesis unfolding leads by auto
qed

text \<open>\<open>object.filter\<close> and \<open>object.remove\<close> keep exactly the entries whose key is, or is not, among the keys of an
  object, the elements of a set or of an array; \<open>object.keys\<close> is the set of the keys.\<close>

theorem objectSelect_correct:
  assumes "vrep H obj (MObject F)" and "vrep H coll m" and "mcollection m"
  shows "gives H s (MObject (ffilter (\<lambda>e. mselects m (fst e)) F)) (objectFilterBuiltin H [Some obj, Some coll] s) \<and>
    gives H s (MObject (ffilter (\<lambda>e. \<not> mselects m (fst e)) F)) (objectRemoveBuiltin H [Some obj, Some coll] s) \<and>
    gives H s (MSet (fst |`| F)) (objectKeysBuiltin H [Some obj] s)"
  using objectSelect_rep [OF assms, of s True] objectSelect_rep [OF assms, of s False] objectKeys_rep [OF assms(1), of s]
  by (simp add: objectFilterBuiltin_def objectRemoveBuiltin_def)

theorem objectSelect_correct_witness:
  "gives (\<lambda>_. 0) bi_state (MObject {||}) (objectRemoveBuiltin (\<lambda>_. 0) [Some ex_iter, Some (VJson (JArray [JString [97]]))] bi_state)"
proof -
  have c: "vrep (\<lambda>_. 0) (VJson (JArray [JString [97]])) (meaning (JArray [JString [97]]))" by (rule vrep_json) simp
  have "ffilter (\<lambda>e. \<not> mselects (meaning (JArray [JString [97]])) (fst e)) {|(MString [97], MObject {||})|} = {||}"
    by (auto simp: mselects_def)
  then show ?thesis using objectSelect_correct [OF ex_iter_rep c, of bi_state] by (simp add: mcollection_def)
qed

text \<open>\<open>array.concat\<close> appends, and \<open>array.slice\<close> returns the elements with an index from start on and below stop, for
  any integers, negative and too large ones included.\<close>

theorem arrays_correct:
  assumes "json_ok H (JArray xs)" and "json_ok H (JArray ys)" and "Number_Int64 m = Some start" and "Number_Int64 n = Some stop"
  shows "gives H s (MArray (map meaning xs @ map meaning ys)) (arrayConcatBuiltin H [Some (VJson (JArray xs)), Some (VJson (JArray ys))] s) \<and>
    arraySliceBuiltin [Some (VJson (JArray xs)), Some (VJson (JFloat m)), Some (VJson (JFloat n))] s =
      returns (Some (VJson (JArray (map snd (filter (\<lambda>(i, x). start \<le> int i \<and> int i < stop) (zip [0..<length xs] xs)))))) s"
  using arrayConcat_rep [OF assms(1,2), of s] arraySlice_rep [OF assms(3,4), of xs s] by blast

theorem arrays_correct_witness:
  "gives (\<lambda>_. 0) bi_state (MArray [MNull, MBool True]) (arrayConcatBuiltin (\<lambda>_. 0) [Some (VJson (JArray [JNull])), Some (VJson (JArray [JBool True]))] bi_state) \<and>
    arraySliceBuiltin [Some (VJson (JArray [JNull])), Some (VJson (JFloat [45, 51])), Some (VJson (JFloat [57]))] bi_state =
      returns (Some (VJson (JArray [JNull]))) bi_state"
proof -
  have "Number_Int64 [45, 51] = Some (- 3)" "Number_Int64 [57] = Some 9" by code_simp+
  from arrays_correct [of "\<lambda>_. 0" "[JNull]" "[JBool True]", OF _ _ this, of bi_state] show ?thesis by simp
qed

text \<open>C26. \<open>walk\<close> lists every path of a value, through arrays, sets and objects to any depth, together with the value
  that the path leads to, and nothing else.\<close>

theorem walkBuiltin_correct:
  assumes "vrep H v m" and "small m"
  shows "\<exists>ps. walkBuiltin H [Some v] s = returns (Some (VJson (JArray (map (\<lambda>(p, j). JArray [JArray p, j]) ps)))) s \<and>
    list_all (\<lambda>(p, j). list_all (json_ok H) p \<and> json_ok H j) ps \<and>
    (\<lambda>(p, j). (map meaning p, meaning j)) ` set ps = {(q, y). leads m q y}"
  using assms by (rule walk_rep)

theorem walkBuiltin_correct_witness:
  "\<exists>ps. walkBuiltin (\<lambda>_. 0) [Some (VJson (JString [97]))] bi_state =
      returns (Some (VJson (JArray (map (\<lambda>(p, j). JArray [JArray p, j]) ps)))) bi_state \<and>
    (\<lambda>(p, j). (map meaning p, meaning j)) ` set ps = {([], MString [97])}"
proof -
  have v: "vrep (\<lambda>_. 0) (VJson (JString [97])) (meaning (JString [97]))" by (rule vrep_json) simp
  have leads: "leads (meaning (JString [97])) q y \<longleftrightarrow> q = [] \<and> y = MString [97]" for q y by (cases q) (auto simp: mentry_def)
  then have "small (meaning (JString [97]))" by (auto simp: small_def)
  from walkBuiltin_correct [OF v this, of bi_state] have "\<exists>ps. walkBuiltin (\<lambda>_. 0) [Some (VJson (JString [97]))] bi_state =
      returns (Some (VJson (JArray (map (\<lambda>(p, j). JArray [JArray p, j]) ps)))) bi_state \<and>
    (\<lambda>(p, j). (map meaning p, meaning j)) ` set ps = {(q, y). q = [] \<and> y = MString [97]}" unfolding leads by blast
  then show ?thesis by auto
qed

text \<open>The union of two sets is the builtin \<open>|\<close>.  When an operand is an object outside of memory whose iteration
  fails, however, the error is lost and the operand counts as an empty set.\<close>

theorem binaryOrBuiltin_correct:
  assumes "json_ok H (JSet t)" and "json_ok H (JSet u)"
  shows "(\<exists>S T. meaning (JSet t) = MSet S \<and> meaning (JSet u) = MSet T \<and>
      gives H s (MSet (S |\<union>| T)) (binaryOrBuiltin H [Some (VJson (JSet t)), Some (VJson (JSet u))] s)) \<and>
    binaryOrBuiltin H [Some (VIterable get [] (Some e)), Some (VJson (JSet u))] s =
      binaryOrBuiltin H [Some (VJson (JSet (NewSet 0))), Some (VJson (JSet u))] s"
  using binaryOr_rep [OF assms, of s] by (simp add: binaryOrBuiltin_def builtinSetOperand_def)

theorem binaryOrBuiltin_correct_witness:
  "binaryOrBuiltin (\<lambda>_. 0) [Some (VIterable (\<lambda>_. Inr None) [] (Some (ErrIter []))), Some (VJson (JSet (NewSet 0)))] bi_state =
    binaryOrBuiltin (\<lambda>_. 0) [Some (VJson (JSet (NewSet 0))), Some (VJson (JSet (NewSet 0)))] bi_state"
proof -
  have "json_ok (\<lambda>_. 0) (JSet (NewSet 0))" by (simp add: NewSet_def)
  from binaryOrBuiltin_correct [OF this this, of bi_state "\<lambda>_. Inr None" "ErrIter []"] show ?thesis by blast
qed

section \<open>Strings and numbers\<close>

text \<open>\<open>count\<close> of a string is the number of its Unicode characters, for any text in UTF-8.\<close>

theorem count_characters:
  assumes "list_all scalar cs"
  shows "countBuiltin [Some (VJson (JString (concat (map utf8 cs))))] s = returns (Some (VJson (MakeNumberInt (int (length cs))))) s"
  using rune_count_utf8 [OF assms] by (simp add: countBuiltin_def)

theorem count_characters_witness:
  "countBuiltin [Some (VJson (JString (concat (map utf8 [228, 8364, 128512]))))] bi_state = returns (Some (VJson (MakeNumberInt 3))) bi_state"
  using count_characters [of "[228, 8364, 128512]" bi_state] by (simp add: scalar_def)

text \<open>\<open>concat\<close> of a set of strings joins them in ascending order, independent of the order in the table, and of an
  array in its order; \<open>startswith\<close> and \<open>endswith\<close> are the prefix and suffix relations.\<close>

theorem strings_correct:
  assumes "json_ok H (JSet t)" and "meaning (JSet t) = MSet (MString |`| S)"
  shows "stringsConcatBuiltin [Some (VJson (JString sep)), Some (VJson (JSet t))] s =
      returns (Some (VJson (JString (Join (sorted_list_of_fset S) sep)))) s \<and>
    stringsConcatBuiltin [Some (VJson (JString sep)), Some (VJson (JArray (map JString xs)))] s = returns (Some (VJson (JString (Join xs sep)))) s \<and>
    stringsStartsWithBuiltin [Some (VJson (JString x)), Some (VJson (JString y))] s = returns (Some (VJson (JBool (prefix y x)))) s \<and>
    stringsEndsWithBuiltin [Some (VJson (JString x)), Some (VJson (JString y))] s = returns (Some (VJson (JBool (suffix y x)))) s"
proof -
  have img: "meaning ` set (table_elems t) = MString ` fset S"
    using assms(2) meaning_set [of t "MString |`| S"] by (simp add: set_abs_def del: meaning.simps)
  have "\<exists>x. j = JString x" if "j \<in> set (table_elems t)" for j
    using img that meaning_JString [of j] by (metis (no_types, lifting) image_iff)
  then have "set (table_elems t) \<subseteq> range JString" by blast
  then obtain ys where ys: "table_elems t = map JString ys" by (metis ex_map_conv subsetD rangeE)
  have "distinct (map MString ys)" using assms(1) by (simp add: ys o_def)
  then have "distinct ys" by (simp add: distinct_map)
  moreover have "MString ` set ys = MString ` fset S" using img by (simp add: ys image_image)
  then have "set ys = fset S" by (auto simp: inj_image_eq_iff inj_def)
  ultimately have "sort ys = sorted_list_of_fset S"
    using sorted_list_of_set_sort_remdups [of ys] by (simp add: sorted_list_of_fset.rep_eq distinct_remdups_id)
  then show ?thesis
    by (simp add: stringsConcatBuiltin_def stringsStartsWithBuiltin_def stringsEndsWithBuiltin_def builtinStringOperand_def ys
        MakeString_def MakeBoolean_def HasPrefix_prefix HasSuffix_suffix)
qed

theorem strings_correct_witness:
  "stringsConcatBuiltin [Some (VJson (JString [44])), Some (VJson (JSet (tableCompact 2 [(0, JString [98]), (0, JString [97])])))] bi_state =
    returns (Some (VJson (JString [97, 44, 98]))) bi_state"
proof -
  have ok: "json_ok (\<lambda>_. 0) (JSet (tableCompact 2 [(0, JString [98]), (0, JString [97])]))" by code_simp
  have m: "meaning (JSet (tableCompact 2 [(0, JString [98]), (0, JString [97])])) = MSet (MString |`| {|[98], [97]|})" by (simp add: table_elems_def)
  have "sorted_list_of_fset {|[98], [97 :: u8]|} = [[97], [98]]" by (simp add: sorted_list_of_fset.rep_eq)
  then show ?thesis using strings_correct [OF ok m, of "[44]" bi_state] by simp
qed

text \<open>C27. \<open>numbers.range\<close>, once its operands are integers, lists the numbers from start to stop, up or down by step, as
  long as their distance is less than 2 ^ 63 - 1 and the evaluation is not cancelled.\<close>

theorem numbersRange_correct:
  assumes "- (2 ^ 63) \<le> start" "start < 2 ^ 63" "- (2 ^ 63) \<le> stop" "stop < 2 ^ 63" "0 < step" and "\<bar>stop - start\<bar> < 2 ^ 63 - 1"
    and "\<And>n. \<not> cancelled n"
  shows "\<exists>n. numbersRange cancelled s start stop step =
    returns (Some (VJson (JArray (map MakeNumberInt
      (map (\<lambda>k. if start \<le> stop then start + int k * step else start - int k * step) [0..<nat (\<bar>stop - start\<bar> div step + 1)])))))
      (checked n s)"
  using numbersRange_rep [OF assms(1-6), of cancelled s] assms(7) by (simp add: range_numbers_def)

theorem numbersRange_correct_witness:
  "\<exists>n. numbersRange (\<lambda>_. False) bi_state 7 1 3 =
    returns (Some (VJson (JArray [MakeNumberInt 7, MakeNumberInt 4, MakeNumberInt 1]))) (checked n bi_state)"
  using numbersRange_correct [of 7 1 3 "\<lambda>_. False" bi_state] by (simp add: upt_rec numeral_3_eq_3)

text \<open>When the distance does not fit into 64 bits the length of the range wraps to a negative number and the
  result is empty: the eleven numbers from -5*10^18 to 5*10^18 in steps of 10^18 are lost.\<close>

theorem numbersRange_overflow:
  "\<exists>n. numbersRangeStepBuiltin conv (\<lambda>_. False)
      [Some (VJson (JFloat (str ''-5000000000000000000''))), Some (VJson (JFloat (str ''5000000000000000000''))),
       Some (VJson (JFloat (str ''1000000000000000000'')))] s =
    returns (Some (VJson (JArray []))) (checked n s)"
proof -
  have "map_option float64_value (Number_Float64 (str ''-5000000000000000000'')) = Some (of_int (- 5000000000000000000))"
    "map_option float64_value (Number_Float64 (str ''5000000000000000000'')) = Some (of_int 5000000000000000000)"
    "map_option float64_value (Number_Float64 (str ''1000000000000000000'')) = Some (of_int 1000000000000000000)" by code_simp+
  note operands = this [THEN NonStrict_int, simplified]
  have "nat (range_length (- 5000000000000000000) 5000000000000000000 1000000000000000000) = 0" by code_simp
  then have "numbersRange (\<lambda>_. False) s (- 5000000000000000000) 5000000000000000000 1000000000000000000 =
    returns (Some (VJson (JArray []))) (checked 1 s)" by (simp add: numbersRange_def Cancelled_checked)
  then show ?thesis by (auto simp: numbersRangeStepBuiltin_def operands)
qed

text \<open>The operands are read as doubles, so an integer that needs more than 53 bits is changed: the range from
  9007199254740993 to itself is the list of 9007199254740992.\<close>

theorem numbersRange_rounds:
  "\<exists>n. numbersRangeBuiltin conv (\<lambda>_. False)
      [Some (VJson (JFloat (str ''9007199254740993''))), Some (VJson (JFloat (str ''9007199254740993'')))] s =
    returns (Some (VJson (JArray [MakeNumberInt 9007199254740992]))) (checked n s)"
proof -
  have "map_option float64_value (Number_Float64 (str ''9007199254740993'')) = Some (of_int 9007199254740992)" by code_simp
  note operand = this [THEN NonStrict_int, simplified]
  have "nat (range_length 9007199254740992 9007199254740992 1) = 1" "range_next 9007199254740992 9007199254740992 1 0 = 9007199254740992"
    by code_simp+
  then have "numbersRange (\<lambda>_. False) s 9007199254740992 9007199254740992 1 =
      returns (Some (VJson (JArray [MakeNumberInt 9007199254740992]))) (checked 2 s)"
    by (simp add: numbersRange_def Cancelled_checked range_loop_all [of "\<lambda>_. False"] checked_checked numeral_2_eq_2)
  then show ?thesis by (auto simp: numbersRangeBuiltin_def operand)
qed

text \<open>The key of the cache of glob patterns is ambiguous: after \<open>glob.match("a-", ["b"], _)\<close> a call of
  \<open>glob.match("a", ["-", "b"], x)\<close> is answered with the pattern of the first call.\<close>

theorem glob_cache_collision:
  assumes "compile [97, 45] [98] = Inr g" and "m [97, 45, 45, 98] = None"
  shows "let (_, c) = globMatchBuiltin compile [Some (VJson (JString [97, 45])), Some (VJson (JArray [JString [98]])), Some (VJson (JString y))] s (Some m)
    in fst (globMatchBuiltin compile [Some (VJson (JString [97])), Some (VJson (JArray [JString [45], JString [98]])), Some (VJson (JString x))] s' c) =
      returns (Some (VJson (JBool (g x)))) s'"
  using assms by (simp add: globMatchBuiltin_def builtinStringOperand_def globCompile_def glob_id_def WriteRune_def MakeBoolean_def)

theorem glob_cache_collision_witness:
  "let (_, c) = globMatchBuiltin (\<lambda>p ds. Inr (\<lambda>x. x = p)) [Some (VJson (JString [97, 45])), Some (VJson (JArray [JString [98]])),
      Some (VJson (JString []))] bi_state (Some Map.empty)
    in fst (globMatchBuiltin (\<lambda>p ds. Inr (\<lambda>x. x = p)) [Some (VJson (JString [97])), Some (VJson (JArray [JString [45], JString [98]])),
      Some (VJson (JString [97]))] bi_state c) = returns (Some (VJson (JBool ([97 :: u8] = [97, 45])))) bi_state"
  by (rule glob_cache_collision) simp_all

end
