(* ===== verification/Iropt.thy ===== *)
theory Iropt
  imports Example "HOL-Library.Multiset"
begin

text \<open>
  The optimiser of the IR (src/pkg/iropt), which runs between OPA's planner and the compiler: the traversals of
  blocks and loops, the pass that replaces empty loops (cleanups.go), loop-invariant code motion (licm.go) with
  its analysis of registers (register_dfg.go) and the rewriting of breaks (code_motion.go), and the schedule of
  passes (framework.go).  What the passes do to the meaning of a policy is stated on \<open>IR_Semantics\<close>.
\<close>

section \<open>Traversals\<close>

text \<open>block_transform_pass_type.go: a transformation of blocks, innermost blocks first.  A transformation returns
  the new block and whether it changed anything.\<close>

fun BlockTransformPassBlock :: "(block \<Rightarrow> block \<times> bool) \<Rightarrow> block \<Rightarrow> block \<times> bool"
  and BlockTransformPassBlocks :: "(block \<Rightarrow> block \<times> bool) \<Rightarrow> block list \<Rightarrow> block list \<times> bool"
  and transform_stmt :: "(block \<Rightarrow> block \<times> bool) \<Rightarrow> stmt \<Rightarrow> stmt \<times> bool" where
  "BlockTransformPassBlocks f [] = ([], False)"
| "BlockTransformPassBlocks f (b # bs) =
     (let (b', modified) = BlockTransformPassBlock f b; (bs', modifiedBL) = BlockTransformPassBlocks f bs
      in ((if modified then b' else b) # bs', modified \<or> modifiedBL))"
| "transform_stmt f (BlockStmt bs) =
     (let (bs', modified) = BlockTransformPassBlocks f bs in if modified then (BlockStmt bs', True) else (BlockStmt bs, False))"
| "transform_stmt f (NotStmt b) =
     (let (b', modified) = BlockTransformPassBlock f b in if modified then (NotStmt b', True) else (NotStmt b, False))"
| "transform_stmt f (WithStmt l path v b) =
     (let (b', modified) = BlockTransformPassBlock f b in if modified then (WithStmt l path v b', True) else (WithStmt l path v b, False))"
| "transform_stmt f (ScanStmt src k v b) =
     (let (b', modified) = BlockTransformPassBlock f b in if modified then (ScanStmt src k v b', True) else (ScanStmt src k v b, False))"
| "transform_stmt f stmt = (stmt, False)"
| "BlockTransformPassBlock f b =
     (let rs = map (transform_stmt f) b; out = map fst rs; (result, modified) = f out
      in if modified then (result, True) else (out, list_ex snd rs))"

text \<open>loop_pass_type.go: a transformation of loops, innermost loops first.  The state is the loop with the
  statements to put before and after it.\<close>

record LoopTransformState =
  Before :: "stmt list"
  After :: "stmt list"
  Loop :: stmt

fun LoopPassBlock :: "(LoopTransformState \<Rightarrow> LoopTransformState \<times> bool) \<Rightarrow> block \<Rightarrow> block \<times> bool"
  and LoopPassBlocks :: "(LoopTransformState \<Rightarrow> LoopTransformState \<times> bool) \<Rightarrow> block list \<Rightarrow> block list \<times> bool"
  and loop_stmt :: "(LoopTransformState \<Rightarrow> LoopTransformState \<times> bool) \<Rightarrow> stmt \<Rightarrow> stmt list \<times> bool" where
  "LoopPassBlocks f [] = ([], False)"
| "LoopPassBlocks f (b # bs) =
     (let (b', modified) = LoopPassBlock f b; (bs', modifiedBL) = LoopPassBlocks f bs
      in ((if modified then b' else b) # bs', modified \<or> modifiedBL))"
| "loop_stmt f (BlockStmt bs) =
     (let (bs', modified) = LoopPassBlocks f bs in if modified then ([BlockStmt bs'], True) else ([BlockStmt bs], False))"
| "loop_stmt f (NotStmt b) =
     (let (b', modified) = LoopPassBlock f b in if modified then ([NotStmt b'], True) else ([NotStmt b], False))"
| "loop_stmt f (WithStmt l path v b) =
     (let (b', modified) = LoopPassBlock f b in if modified then ([WithStmt l path v b'], True) else ([WithStmt l path v b], False))"
| "loop_stmt f (ScanStmt src k v b) =
     (let (b', modified) = LoopPassBlock f b;
          (lts, _) = f \<lparr>Before = [], After = [], Loop = ScanStmt src k v (if modified then b' else b)\<rparr>
      in (Before lts @ [Loop lts] @ After lts, True))"
| "loop_stmt f stmt = ([stmt], False)"
| "LoopPassBlock f b = (let rs = map (loop_stmt f) b in (concat (map fst rs), list_ex snd rs))"

section \<open>Registers of a statement\<close>

definition localFromOperand :: "operand \<Rightarrow> int list" where
  "localFromOperand x = (case x of OpLocal l \<Rightarrow> [l] | _ \<Rightarrow> [])"

text \<open>Registers written and read, nested statements included.  \<open>IsSetStmt\<close> has no case in the code and falls
  into the default.\<close>

fun extractLocalRefs :: "stmt \<Rightarrow> int list \<times> int list" where
  "extractLocalRefs (ReturnLocalStmt source) = ([], [source])"
| "extractLocalRefs (CallStmt _ args result) = ([result], concat (map localFromOperand args))"
| "extractLocalRefs (CallDynamicStmt args result path) = ([result], args @ concat (map localFromOperand path))"
| "extractLocalRefs (BlockStmt bs) =
     (let rs = map extractLocalRefs (concat bs) in (concat (map fst rs), concat (map snd rs)))"
| "extractLocalRefs (DotStmt source key target) = ([target], localFromOperand source @ localFromOperand key)"
| "extractLocalRefs (LenStmt source target) = ([target], localFromOperand source)"
| "extractLocalRefs (ScanStmt source key value b) =
     (let rs = map extractLocalRefs b in ([key, value] @ concat (map fst rs), [source] @ concat (map snd rs)))"
| "extractLocalRefs (NotStmt b) = (let rs = map extractLocalRefs b in (concat (map fst rs), concat (map snd rs)))"
| "extractLocalRefs (AssignIntStmt _ target) = ([target], [])"
| "extractLocalRefs (AssignVarStmt source target) = ([target], localFromOperand source)"
| "extractLocalRefs (AssignVarOnceStmt source target) = ([target], localFromOperand source)"
| "extractLocalRefs (ResetLocalStmt target) = ([target], [])"
| "extractLocalRefs (MakeNullStmt target) = ([target], [])"
| "extractLocalRefs (MakeNumberIntStmt _ target) = ([target], [])"
| "extractLocalRefs (MakeNumberRefStmt _ target) = ([target], [])"
| "extractLocalRefs (MakeArrayStmt _ target) = ([target], [])"
| "extractLocalRefs (MakeObjectStmt target) = ([target], [])"
| "extractLocalRefs (MakeSetStmt target) = ([target], [])"
| "extractLocalRefs (EqualStmt a b) = ([], localFromOperand a @ localFromOperand b)"
| "extractLocalRefs (NotEqualStmt a b) = ([], localFromOperand a @ localFromOperand b)"
| "extractLocalRefs (IsArrayStmt source) = ([], localFromOperand source)"
| "extractLocalRefs (IsObjectStmt source) = ([], localFromOperand source)"
| "extractLocalRefs (IsDefinedStmt source) = ([], [source])"
| "extractLocalRefs (IsUndefinedStmt source) = ([], [source])"
| "extractLocalRefs (ArrayAppendStmt value array) = ([array], array # localFromOperand value)"
| "extractLocalRefs (ObjectInsertStmt key value obj) = ([obj], obj # localFromOperand key @ localFromOperand value)"
| "extractLocalRefs (ObjectInsertOnceStmt key value obj) = ([obj], obj # localFromOperand key @ localFromOperand value)"
| "extractLocalRefs (ObjectMergeStmt a b target) = ([target], [a, b])"
| "extractLocalRefs (SetAddStmt value set') = ([set'], set' # localFromOperand value)"
| "extractLocalRefs (WithStmt l path value b) =
     (let rs = map extractLocalRefs b
      in (l # concat (map fst rs), l # localFromOperand value @ concat (map snd rs)))"
| "extractLocalRefs (ResultSetAddStmt value) = ([], [value])"
| "extractLocalRefs _ = ([], [])"

definition outRegs :: "stmt \<Rightarrow> int list" where
  "outRegs stmt = fst (extractLocalRefs stmt)"

definition inRegs :: "stmt \<Rightarrow> int list" where
  "inRegs stmt = snd (extractLocalRefs stmt)"

section \<open>Breaks\<close>

text \<open>code_motion.go.  A statement that moves out of its loop is one block less deep, so a break that leaves the
  loop counts one less; a break of the loop itself disappears, \<open>None\<close>.  Below the moved statement breaks
  never disappear; the code would put a nil statement into the block, which no part of the program supports.\<close>

fun RewriteBreakStmtsForLifting :: "stmt \<Rightarrow> u32 \<Rightarrow> stmt option \<times> bool"
  and rewrite_nested :: "block \<Rightarrow> u32 \<Rightarrow> block \<times> bool"
  and rewrite_blocks :: "block list \<Rightarrow> u32 \<Rightarrow> block list \<times> bool" where
  "RewriteBreakStmtsForLifting (BreakStmt index) depth =
     (if depth > 0 then if index \<ge> depth then (Some (BreakStmt (index - 1)), True) else (Some (BreakStmt index), False)
      else if index = 0 then (None, True) else (Some (BreakStmt (index - 1)), True))"
| "RewriteBreakStmtsForLifting (BlockStmt bs) depth =
     (let (bs', modified) = rewrite_blocks bs (depth + 1) in if modified then (Some (BlockStmt bs'), True) else (Some (BlockStmt bs), False))"
| "RewriteBreakStmtsForLifting (NotStmt b) depth =
     (let (b', modified) = rewrite_nested b (depth + 1) in if modified then (Some (NotStmt b'), True) else (Some (NotStmt b), False))"
| "RewriteBreakStmtsForLifting (WithStmt l path v b) depth =
     (let (b', modified) = rewrite_nested b (depth + 1)
      in if modified then (Some (WithStmt l path v b'), True) else (Some (WithStmt l path v b), False))"
| "RewriteBreakStmtsForLifting (ScanStmt src k v b) depth =
     (let (b', modified) = rewrite_nested b (depth + 1)
      in if modified then (Some (ScanStmt src k v b'), True) else (Some (ScanStmt src k v b), False))"
| "RewriteBreakStmtsForLifting stmt depth = (Some stmt, False)"
| "rewrite_nested [] depth = ([], False)"
| "rewrite_nested (stmt # b) depth =
     (let (s', modified) = RewriteBreakStmtsForLifting stmt depth; (b', modifiedB) = rewrite_nested b depth
      in ((case s' of Some s \<Rightarrow> s | None \<Rightarrow> UnsupportedStmt) # b', modified \<or> modifiedB))"
| "rewrite_blocks [] depth = ([], False)"
| "rewrite_blocks (b # bs) depth =
     (let (b', modified) = rewrite_nested b depth; (bs', modifiedBs) = rewrite_blocks bs depth in (b' # bs', modified \<or> modifiedBs))"

section \<open>Loop-invariant code motion\<close>

text \<open>The marking step.  \<open>satByLoop\<close> maps a register to the last statement of the loop that writes it, -1 for the
  registers of the loop itself.\<close>

definition mark_out :: "nat \<Rightarrow> int \<Rightarrow> (int \<rightharpoonup> int) \<times> bool list \<Rightarrow> (int \<rightharpoonup> int) \<times> bool list" where
  "mark_out idx l = (\<lambda>(sat, marks).
     (sat(l \<mapsto> int idx), case sat l of Some prevIdx \<Rightarrow> if prevIdx \<noteq> -1 then marks[nat prevIdx := False] else marks | None \<Rightarrow> marks))"

definition liftable :: "nat \<Rightarrow> stmt \<Rightarrow> bool" where
  "liftable n stmt = (case stmt of
     BreakStmt _ \<Rightarrow> n = 1
   | AssignVarOnceStmt _ _ \<Rightarrow> False
   | ObjectInsertOnceStmt _ _ _ \<Rightarrow> False
   | CallDynamicStmt _ _ _ \<Rightarrow> False
   | CallStmt _ _ _ \<Rightarrow> False
   | _ \<Rightarrow> True)"

fun mark_loop :: "nat \<Rightarrow> nat \<Rightarrow> stmt list \<Rightarrow> (int \<rightharpoonup> int) \<Rightarrow> bool list \<Rightarrow> bool list" where
  "mark_loop n idx [] sat marks = marks"
| "mark_loop n idx (stmt # stmts) sat marks =
     (let hasLoopDep = list_ex (\<lambda>l. sat l \<noteq> None) (inRegs stmt);
          (sat, marks) = fold (mark_out idx) (outRegs stmt) (sat, marks)
      in mark_loop n (Suc idx) stmts sat (marks[idx := \<not> hasLoopDep \<and> liftable n stmt]))"

definition licm_marks :: "int \<Rightarrow> int \<Rightarrow> int \<Rightarrow> stmt list \<Rightarrow> bool list" where
  "licm_marks source key value stmts =
     mark_loop (length stmts) 0 stmts [source \<mapsto> -1, key \<mapsto> -1, value \<mapsto> -1] (replicate (length stmts) False)"

text \<open>The lifting step, repeated until nothing moves.\<close>

definition lifted :: "bool list \<Rightarrow> stmt list \<Rightarrow> stmt list" where
  "lifted marks stmts = map fst (filter snd (zip stmts marks))"

definition kept :: "bool list \<Rightarrow> stmt list \<Rightarrow> stmt list" where
  "kept marks stmts = map fst (filter (\<lambda>(_, m). \<not> m) (zip stmts marks))"

lemma length_mark_loop [simp]: "length (mark_loop n idx stmts sat marks) = length marks"
proof (induction stmts arbitrary: idx sat marks)
  case (Cons stmt stmts)
  have "length (snd (fold (mark_out idx) ls (sat, marks))) = length marks" for ls sat marks
    by (induction ls arbitrary: sat marks) (auto simp: mark_out_def split: option.split)
  then show ?case using Cons by (auto simp: split_beta Let_def)
qed simp

lemma length_licm_marks [simp]: "length (licm_marks source key value stmts) = length stmts"
  by (simp add: licm_marks_def)

lemma kept_shorter:
  assumes "True \<in> set marks" and "length marks = length stmts"
  shows "length (kept marks stmts) < length stmts"
proof -
  have "\<exists>z \<in> set (zip stmts marks). \<not> (case z of (_, m) \<Rightarrow> \<not> m)"
    using assms by (fastforce simp: list_ex_iff in_set_conv_nth in_set_zip)
  then have "length (filter (\<lambda>(_, m). \<not> m) (zip stmts marks)) < length (zip stmts marks)" 
    by (blast intro: length_filter_less)
  then show ?thesis using assms(2) by (simp add: kept_def)
qed

function licm_loop :: "int \<Rightarrow> int \<Rightarrow> int \<Rightarrow> stmt list \<Rightarrow> stmt list \<Rightarrow> stmt list \<times> stmt list" where
  "licm_loop source key value stmts pre =
     (let marks = licm_marks source key value stmts
      in if True \<in> set marks
         then licm_loop source key value (kept marks stmts)
                (pre @ List.map_filter (\<lambda>stmt. fst (RewriteBreakStmtsForLifting stmt 0)) (lifted marks stmts))
         else (stmts, pre))"
  by pat_completeness auto
termination by (relation "measure (\<lambda>(_, _, _, stmts, _). length stmts)") (auto intro: kept_shorter)

declare licm_loop.simps [simp del]

text \<open>The traversal only calls it on scans; on another statement the type assertion of the code fails.\<close>

definition LoopInvariantCodeMotion :: "LoopTransformState \<Rightarrow> LoopTransformState \<times> bool" where
  "LoopInvariantCodeMotion state = (case Loop state of
     ScanStmt source key value b \<Rightarrow>
       (let (stmts, pre) = licm_loop source key value b []
        in (state\<lparr>Before := Before state @ pre, Loop := ScanStmt source key value stmts\<rparr>, pre \<noteq> []))
   | _ \<Rightarrow> (state, False))"

section \<open>Empty loops\<close>

definition empty_loop :: "stmt \<Rightarrow> bool" where
  "empty_loop stmt = (case stmt of ScanStmt _ _ _ b \<Rightarrow> b = [] | _ \<Rightarrow> False)"

definition replace_empty_loop :: "stmt \<Rightarrow> stmt list" where
  "replace_empty_loop stmt = (case stmt of
     ScanStmt source key value b \<Rightarrow>
       if b = [] then
         [IsDefinedStmt source,
          MakeNumberIntStmt 0 key,
          LenStmt (OpLocal source) value,
          NotEqualStmt (OpLocal key) (OpLocal value)]
       else [stmt]
   | _ \<Rightarrow> [stmt])"

definition EmptyLoopReplacement :: "block \<Rightarrow> block \<times> bool" where
  "EmptyLoopReplacement b =
     (if list_ex empty_loop b then (concat (map replace_empty_loop b), True) else (b, False))"

section \<open>Passes\<close>

definition pass_policy :: "(block list \<Rightarrow> block list \<times> bool) \<Rightarrow> policy \<Rightarrow> policy" where
  "pass_policy f p = p\<lparr>
     po_Plans := map (\<lambda>pl. let (bs, modified) = f (pl_Blocks pl) in if modified then pl\<lparr>pl_Blocks := bs\<rparr> else pl) (po_Plans p),
     po_Funcs := map (\<lambda>fn. let (bs, modified) = f (fn_Blocks fn) in if modified then fn\<lparr>fn_Blocks := bs\<rparr> else fn) (po_Funcs p)\<rparr>"

definition EmptyLoopReplacementPass :: "policy \<Rightarrow> policy" where
  "EmptyLoopReplacementPass = pass_policy (BlockTransformPassBlocks EmptyLoopReplacement)"

definition LoopInvariantCodeMotionPass :: "policy \<Rightarrow> policy" where
  "LoopInvariantCodeMotionPass = pass_policy (LoopPassBlocks LoopInvariantCodeMotion)"

record OptimizationPassFlags =
  f_LoopInvariantCodeMotion :: bool

definition NewIROptLevel0Schedule :: "OptimizationPassFlags \<Rightarrow> OptimizationPassFlags \<Rightarrow> (policy \<Rightarrow> policy) list" where
  "NewIROptLevel0Schedule cliEnableFlags _ =
     (if f_LoopInvariantCodeMotion cliEnableFlags then [LoopInvariantCodeMotionPass] else []) @ [EmptyLoopReplacementPass]"

definition RunPasses :: "policy \<Rightarrow> (policy \<Rightarrow> policy) list \<Rightarrow> policy" where
  "RunPasses p schedule = foldl (\<lambda>out pass. pass out) p schedule"

definition MergeDisables :: "OptimizationPassFlags \<Rightarrow> OptimizationPassFlags \<Rightarrow> OptimizationPassFlags" where
  "MergeDisables opf other = (if f_LoopInvariantCodeMotion other then opf\<lparr>f_LoopInvariantCodeMotion := False\<rparr> else opf)"

definition MergeEnables :: "OptimizationPassFlags \<Rightarrow> OptimizationPassFlags \<Rightarrow> OptimizationPassFlags" where
  "MergeEnables opf other = (if f_LoopInvariantCodeMotion other then opf\<lparr>f_LoopInvariantCodeMotion := True\<rparr> else opf)"

section \<open>Registers that a statement writes\<close>

text \<open>\<open>frame W s s'\<close>: only registers of \<open>W\<close> differ.  Registers are numbered by \<open>nat\<close>.\<close>

definition frame :: "int set \<Rightarrow> ('v, 'a, 'e) State \<Rightarrow> ('v, 'a, 'e) State \<Rightarrow> bool" where
  "frame W s s' \<longleftrightarrow> (regs_ok (l_registers (s_locals s)) \<longrightarrow> regs_ok (l_registers (s_locals s')) \<and>
     (\<forall>w. nat w \<notin> nat ` W \<longrightarrow> State_Local s' w = State_Local s w))"

definition frameM :: "int set \<Rightarrow> ('v, 'a, 'e) State \<Rightarrow> ('r \<times> ('v, 'a, 'e) State) option \<Rightarrow> bool" where
  "frameM W s m \<longleftrightarrow> (\<forall>r s'. m = Some (r, s') \<longrightarrow> frame W s s')"

lemma frame_refl [simp]: "frame W s s"
  by (simp add: frame_def)

lemma frame_trans: "frame W a b \<Longrightarrow> frame W b c \<Longrightarrow> frame W a c"
  by (auto simp: frame_def)

lemma frame_mono: "frame V a b \<Longrightarrow> V \<subseteq> W \<Longrightarrow> frame W a b"
  by (auto simp: frame_def)

lemma frame_locals: "frame W s a \<Longrightarrow> s_locals b = s_locals a \<Longrightarrow> frame W s b"
  by (simp add: frame_def State_Local_def)

lemma frame_SetValue: "frame W s a \<Longrightarrow> t \<in> W \<Longrightarrow> frame W s (State_SetValue t v a)"
  by (auto simp: frame_def State_SetValue_def State_Local_def map_locals_def regs.read_write regs_write_abs)

lemma frame_SetLocal: "frame W s a \<Longrightarrow> t \<in> W \<Longrightarrow> frame W s (State_SetLocal t v a)"
  for s a :: "('v, 'a, 'e) State"
proof -
  have "regs_read (regs_copy rs (nat t) (nat v)) w = (if w = nat t then regs_read rs (nat v) else regs_read rs w)"
    if "regs_ok rs" for rs :: "'v option list list" and w
    using regs_copy_abs [OF that, of "nat t" "nat v"] that by (simp add: regs_ok_def regs_read_abs)
  then show "frame W s a \<Longrightarrow> t \<in> W \<Longrightarrow> frame W s (State_SetLocal t v a)"
    by (auto simp: frame_def State_SetLocal_def State_Local_def map_locals_def regs_copy_abs)
qed

lemma frame_registers:
  "frame W s a \<Longrightarrow> l_registers (s_locals b) = l_registers (s_locals a) \<Longrightarrow> frame W s b"
  by (simp add: frame_def State_Local_def)

lemma frame_Unset: "frame W s a \<Longrightarrow> t \<in> W \<Longrightarrow> frame W s (State_Unset t a)"
  by (rule frame_registers [OF frame_SetValue [of W s a t undefined_value]]) (simp_all add: State_Unset_def map_locals_def)

lemma frame_marks: "frame W s a \<Longrightarrow> frame W s (State_SetData t a)" "frame W s a \<Longrightarrow> frame W s (State_SetReturn t a)"
  by (erule frame_registers, simp add: State_SetData_def State_SetReturn_def Locals_SetReturn_def map_locals_def)+

lemma frame_Instr: "State_Instr env i a = (e, b) \<Longrightarrow> frame W s a \<Longrightarrow> frame W s b"
  by (erule frame_locals) (auto simp: State_Instr_def op_defs split: if_splits)

lemma frame_globals: "frame W s a \<Longrightarrow> frame W s (map_globals f a)"
  by (erule frame_locals) (simp add: map_globals_def)

lemma frameM_read: "(\<And>x. m = Some x \<Longrightarrow> frameM W s (f x)) \<Longrightarrow> frameM W s (Option.bind m f)"
  by (cases m) (simp_all add: frameM_def)

lemma frameM_step:
  "frameM V a m \<Longrightarrow> V \<subseteq> W \<Longrightarrow> frame W s a \<Longrightarrow> (\<And>r b. m = Some (r, b) \<Longrightarrow> frame W s b \<Longrightarrow> frameM W s (f (r, b))) \<Longrightarrow>
   frameM W s (Option.bind m f)"
  by (cases m) (auto simp: frameM_def dest!: frame_mono [of V a _ W] dest: frame_trans)

lemma frameM_outcomes [simp]:
  "frameM W s None" "frameM W s (Some (r, a)) = frame W s a"
  "frameM W s (continue a) = frame W s a" "frameM W s (leave n a) = frame W s a" "frameM W s (raise e a) = frame W s a"
  by (auto simp: frameM_def continue_def leave_def raise_def)

lemmas frame_intros = frameM_read frame_SetValue frame_SetLocal frame_Unset frame_marks frame_globals

subsection \<open>Statements without nested code\<close>

lemma frame_assign: "ir_assign env p t x s = Some b \<Longrightarrow> frame {t} s b"
  by (auto simp: ir_assign_def intro!: frame_intros split: operand.splits)

lemma frame_insert_object: "obj \<in> W \<Longrightarrow> frameM W s (insert_object env obj o' k v s)"
  by (auto simp: insert_object_def intro!: frame_intros split: sum.split prod.split)

lemma frame_dot: "target \<in> W \<Longrightarrow> frameM W s (ir_dot env p source key target s)"
  by (auto simp: ir_dot_def Let_def intro!: frame_intros split: operand.split option.split sum.split)

lemma frame_simple: "frameM (set (outRegs stmt)) s (ir_simple env p stmt s)"
  by (cases stmt)
    (auto simp: ir_simple_def outRegs_def ir_type_check_def ir_test_def Let_def
      intro!: frame_intros frame_insert_object frame_dot dest!: frame_assign split: option.split sum.split bool.split prod.split)

subsection \<open>Nested code\<close>

definition ex_frame :: "('v, 'a, 'e) ir_executor \<Rightarrow> bool" where
  "ex_frame ex \<longleftrightarrow> (\<forall>stmt s. frameM (set (outRegs stmt)) s (ex stmt s))"

definition writes :: "block \<Rightarrow> int set" where
  "writes b = (\<Union>stmt \<in> set b. set (outRegs stmt))"

lemma writes_Cons [simp]: "writes [] = {}" "writes (x # xs) = set (outRegs x) \<union> writes xs"
  by (simp_all add: writes_def)

lemma outRegs_nested:
  "set (outRegs (BlockStmt bs)) = (\<Union>b \<in> set bs. writes b)"
  "set (outRegs (ScanStmt source key value b)) = {key, value} \<union> writes b"
  "set (outRegs (NotStmt b)) = writes b"
  "set (outRegs (WithStmt l path v b)) = {l} \<union> writes b"
  "set (outRegs (CallStmt n args result)) = {result}"
  "set (outRegs (CallDynamicStmt largs result opath)) = {result}"
  by (auto simp: outRegs_def writes_def Let_def)

lemma frame_stmt:
  assumes "ex_frame ex" and "set (outRegs stmt) \<subseteq> W" and "frame W s a"
    and "\<And>r b. ex stmt a = Some (r, b) \<Longrightarrow> frame W s b \<Longrightarrow> frameM W s (f (r, b))"
  shows "frameM W s (Option.bind (ex stmt a) f)"
proof (rule frameM_step)
  show "frameM (set (outRegs stmt)) a (ex stmt a)" using assms(1) by (simp add: ex_frame_def)
qed (use assms(2-4) in auto)

lemma frame_loop:
  assumes "ex_frame ex"
  shows "writes b \<subseteq> W \<Longrightarrow> frame W s a \<Longrightarrow> frameM W s (ir_loop env ex i instr b a)"
proof (induction b arbitrary: i instr a)
  case (Cons x xs)
  let ?pre = "if i mod 32 = 0 then let (err, s) = State_Instr env instr a in (err, 0, s) else (None, instr, a)"
  obtain err k a' where pre: "?pre = (err, k, a')" by (cases ?pre)
  have a': "frame W s a'" using pre Cons.prems(2) by (auto intro: frame_Instr split: if_splits prod.splits)
  have "frameM W s (do { ((stop, index, err), b) \<leftarrow> ex x a';
      if stop \<or> err \<noteq> None then Some ((stop, index, err, k + 1), b) else ir_loop env ex (Suc i) (k + 1) xs b })"
    using Cons by (intro frame_stmt [OF assms _ a']) (auto split: prod.split)
  then show ?case using a' by (simp only: ir_loop.simps pre) (auto simp: Let_def split: option.split)
qed simp

lemma frame_block:
  assumes "ex_frame ex" and "writes b \<subseteq> W"
  shows "frameM W s (ir_block env ex b s)"
  unfolding ir_block_def
  by (rule frameM_step [OF frame_loop [OF assms frame_refl]])
    (auto simp: Let_def intro: frame_Instr split: option.split prod.split)

lemma frame_blocks:
  assumes "ex_frame ex"
  shows "(\<And>b. b \<in> set bs \<Longrightarrow> writes b \<subseteq> W) \<Longrightarrow> frame W s a \<Longrightarrow> frameM W s (ir_blocks env ex bs r a)"
proof (induction bs arbitrary: r a)
  case (Cons b bs)
  have b: "writes b \<subseteq> W" by (rule Cons.prems) simp
  show ?case
    using Cons by (auto intro!: frameM_step [OF frame_block [OF assms b] subset_refl] split: prod.split)
qed simp

lemma frame_seq:
  assumes "ex_frame ex"
  shows "writes b \<subseteq> W \<Longrightarrow> frame W s a \<Longrightarrow> frameM W s (ir_seq ex b a)"
proof (induction b arbitrary: a)
  case (Cons x xs)
  then show ?case by (auto intro!: frame_stmt [OF assms] split: prod.split)
qed simp

lemma frame_scan_loop:
  assumes "ex_frame ex" and "writes b \<subseteq> W" and "{key, value} \<subseteq> W"
  shows "frame W s a \<Longrightarrow> frameM W s (ir_scan_loop env ex key value b kvs ierr a)"
proof (induction kvs arbitrary: a)
  case (Cons kv kvs)
  then show ?case
    using assms(3) by (cases kv) (auto intro!: frameM_step [OF frame_block [OF assms(1,2)] subset_refl] frame_SetValue split: prod.split)
qed simp

lemma frame_scan: "ex_frame ex \<Longrightarrow> frameM ({key, value} \<union> writes b) s (ir_scan env ex source key value b s)"
  unfolding ir_scan_def
  by (auto simp: Let_def intro!: frameM_step [OF frame_scan_loop subset_refl frame_refl] split: prod.split option.split)

lemma frame_call: "frameM {target} s (ir_call be env p ex name args target s)"
  unfolding ir_call_def Let_def
  by (auto intro!: frameM_read frame_SetValue intro: frame_locals dest!: record_call_locals
      simp: frame_locals [OF frame_refl] split: option.split prod.split)

lemma frame_call_dynamic: "frameM {target} s (ir_call_dynamic env p ex args target path s)"
  unfolding ir_call_dynamic_def Let_def
  by (auto intro!: frameM_read frame_SetValue simp: frame_locals [OF frame_refl] split: option.split prod.split sum.split)

lemma frame_with_value: "ir_with_value env p l path v s = Some (Inr b) \<Longrightarrow> frame {l} s b"
  by (auto simp: ir_with_value_def and_then_def bind_eq_Some_conv dest!: frame_assign intro!: frame_SetValue
      split: if_splits sum.splits option.splits)

lemma frame_with:
  assumes "ex_frame ex"
  shows "frameM ({l} \<union> writes b) s (ir_with env p ex l path v b s)"
proof -
  let ?W = "{l} \<union> writes b"
  have s1: "frame ?W s (State_MemoizePush s)" by (simp add: State_MemoizePush_def frame_globals)
  have body: "frameM ?W s (case r of Inl e \<Rightarrow> raise (OpError e) (State_MemoizePush s)
      | Inr a \<Rightarrow> do { ((stop, index, err), a) \<leftarrow> ir_seq ex b a; case err of Some e \<Rightarrow> raise e a | None \<Rightarrow> if stop then leave 0 a else continue a })"
    if r: "ir_with_value env p l path v (State_MemoizePush s) = Some r" for r
  proof (cases r)
    case (Inr a)
    then have "frame ?W (State_MemoizePush s) a" using frame_with_value r by (blast intro: frame_mono)
    then have "frame ?W s a" using s1 by (rule frame_trans [rotated])
    then show ?thesis
      unfolding Inr sum.case by (intro frameM_step [OF frame_seq [OF assms _ frame_refl]]) (auto split: prod.split option.split)
  qed (use s1 in simp)
  show ?thesis
    unfolding ir_with_def Let_def
    by (rule frameM_read, rule frameM_step [OF body subset_refl frame_refl])
      (auto simp: State_MemoizePop_def intro!: frame_globals frame_SetValue)
qed

lemma ex_frame_step: "ex_frame ex \<Longrightarrow> ex_frame (ir_step be env p ex)"
proof (unfold ex_frame_def [of "ir_step be env p ex"], intro allI)
  fix stmt s assume ex: "ex_frame ex"
  show "frameM (set (outRegs stmt)) s (ir_step be env p ex stmt s)"
    by (cases stmt)
      (simp_all only: ir_step_def stmt.case outRegs_nested frame_simple,
       auto intro: frame_scan [OF ex, simplified] frame_seq [OF ex] frame_with [OF ex, simplified] frame_call frame_call_dynamic frame_blocks [OF ex]
         simp: ir_not_def Un_commute intro!: frameM_step [OF frame_seq [OF ex subset_refl frame_refl] subset_refl frame_refl]
         split: prod.split option.split)
qed

lemma ex_frame_exec: "ex_frame (ir_exec be env p fuel)"
  by (induction fuel) (simp_all add: ex_frame_def [of "\<lambda>stmt s. None"] ex_frame_step)

section \<open>What code motion moves\<close>

lemma mark_out_mono:
  assumes "(sat', marks') = fold (mark_out idx) ls (sat, marks)"
  shows "sat l \<noteq> None \<Longrightarrow> sat' l \<noteq> None" and "i < length marks' \<Longrightarrow> marks' ! i \<Longrightarrow> marks ! i" and "length marks' = length marks"
proof -
  have "(sat l \<noteq> None \<longrightarrow> sat' l \<noteq> None) \<and> (i < length marks' \<and> marks' ! i \<longrightarrow> marks ! i) \<and> length marks' = length marks"
    using assms
  proof (induction ls arbitrary: sat marks)
    case (Cons a ls)
    obtain sat1 marks1 where one: "mark_out idx a (sat, marks) = (sat1, marks1)" by fastforce
    have "(sat1 l \<noteq> None \<longrightarrow> sat' l \<noteq> None) \<and> (i < length marks' \<and> marks' ! i \<longrightarrow> marks1 ! i) \<and> length marks' = length marks1"
      using Cons.prems one by (intro Cons.IH) simp
    moreover have "marks[k := False] ! i \<Longrightarrow> i < length marks \<Longrightarrow> marks ! i" for k by (cases "k = i") simp_all
    then have "sat l \<noteq> None \<longrightarrow> sat1 l \<noteq> None" "length marks1 = length marks" "i < length marks1 \<and> marks1 ! i \<longrightarrow> marks ! i"
      using one by (auto simp: mark_out_def split: option.splits if_splits)
    ultimately show ?case by auto
  qed simp
  then show "sat l \<noteq> None \<Longrightarrow> sat' l \<noteq> None" "i < length marks' \<Longrightarrow> marks' ! i \<Longrightarrow> marks ! i" "length marks' = length marks"
    by blast+
qed

lemma mark_loop_true:
  assumes "mark_loop n idx stmts sat marks ! i" and "i < length marks" and "idx + length stmts = length marks"
    and "\<And>j. idx \<le> j \<Longrightarrow> j < length marks \<Longrightarrow> \<not> marks ! j"
  shows "i < idx \<and> marks ! i \<or> idx \<le> i \<and> (\<forall>l \<in> set (inRegs (stmts ! (i - idx))). sat l = None) \<and> liftable n (stmts ! (i - idx))"
  using assms
proof (induction stmts arbitrary: idx sat marks)
  case (Cons stmt stmts)
  obtain sat' marks' where f: "(sat', marks') = fold (mark_out idx) (outRegs stmt) (sat, marks)" by (metis prod.exhaust)
  note mono = mark_out_mono [OF f]
  let ?m = "marks'[idx := \<not> list_ex (\<lambda>l. sat l \<noteq> None) (inRegs stmt) \<and> liftable n stmt]"
  have "i < Suc idx \<and> ?m ! i \<or> Suc idx \<le> i \<and> (\<forall>l \<in> set (inRegs (stmts ! (i - Suc idx))). sat' l = None) \<and> liftable n (stmts ! (i - Suc idx))"
  proof (rule Cons.IH)
    show "mark_loop n (Suc idx) stmts sat' ?m ! i" using Cons.prems(1) f [symmetric] by (simp add: Let_def)
    show "\<not> ?m ! j" if "Suc idx \<le> j" "j < length ?m" for j
      using that mono(2) [of j] mono(3) Cons.prems(4) [of j] by auto
  qed (use Cons.prems mono(3) in auto)
  then show ?case
  proof
    assume "i < Suc idx \<and> ?m ! i"
    then show ?thesis
      using mono(2) [of i] mono(3) Cons.prems(2) by (cases "i = idx") (auto simp: list_ex_iff)
  next
    assume right: "Suc idx \<le> i \<and> (\<forall>l \<in> set (inRegs (stmts ! (i - Suc idx))). sat' l = None) \<and> liftable n (stmts ! (i - Suc idx))"
    then have "(stmt # stmts) ! (i - idx) = stmts ! (i - Suc idx)" by (simp add: Suc_diff_le nth_Cons')
    then show ?thesis using right mono(1) by fastforce
  qed
qed simp

lemma licm_marks_true:
  assumes "licm_marks source key value stmts ! i" and "i < length stmts"
  shows "set (inRegs (stmts ! i)) \<inter> {source, key, value} = {}" and "liftable (length stmts) (stmts ! i)"
  using mark_loop_true [OF assms(1) [unfolded licm_marks_def]] assms(2) by (auto split: if_splits)

lemma lifted_kept:
  assumes "length marks = length stmts"
  shows "mset stmts = mset (kept marks stmts) + mset (lifted marks stmts)"
proof -
  have "mset (zip stmts marks) = mset (filter (\<lambda>(_, m). \<not> m) (zip stmts marks)) + mset (filter snd (zip stmts marks))"
    using multiset_partition [of "mset (zip stmts marks)" "\<lambda>(_, m). \<not> m"] by (simp add: case_prod_unfold)
  from arg_cong [OF this, of "image_mset fst"] have "mset (map fst (zip stmts marks)) = mset (kept marks stmts) + mset (lifted marks stmts)"
    by (simp only: kept_def lifted_def mset_map image_mset_union)
  then show ?thesis using assms by simp
qed

lemma licm_loop_moves:
  assumes "licm_loop source key value stmts pre = (stmts', pre')"
  shows "\<exists>moved. mset stmts = mset stmts' + mset moved \<and>
    pre' = pre @ List.map_filter (\<lambda>stmt. fst (RewriteBreakStmtsForLifting stmt 0)) moved \<and>
    (\<forall>stmt \<in> set moved. set (inRegs stmt) \<inter> {source, key, value} = {} \<and> liftable 1 stmt) \<and>
    True \<notin> set (licm_marks source key value stmts')"
  using assms
proof (induction source key "value" stmts pre rule: licm_loop.induct)
  case (1 source key v stmts pre)
  let ?marks = "licm_marks source key v stmts"
  let ?rw = "List.map_filter (\<lambda>stmt. fst (RewriteBreakStmtsForLifting stmt 0))"
  show ?case
  proof (cases "True \<in> set ?marks")
    case False
    then have "stmts' = stmts" "pre' = pre" using 1 by (simp_all add: licm_loop.simps [of _ _ _ stmts] Let_def)
    then show ?thesis using False by (intro exI [of _ "[]"]) (simp add: List.map_filter_def)
  next
    case True
    then have "licm_loop source key v (kept ?marks stmts) (pre @ ?rw (lifted ?marks stmts)) = (stmts', pre')"
      using 1 by (simp add: licm_loop.simps [of _ _ _ stmts] Let_def)
    from "1.IH" [OF refl True this] obtain moved where moved: "mset (kept ?marks stmts) = mset stmts' + mset moved"
      "pre' = (pre @ ?rw (lifted ?marks stmts)) @ ?rw moved"
      "\<forall>stmt \<in> set moved. set (inRegs stmt) \<inter> {source, key, v} = {} \<and> liftable 1 stmt"
      "True \<notin> set (licm_marks source key v stmts')" by blast
    have "set (inRegs stmt) \<inter> {source, key, v} = {} \<and> liftable 1 stmt" if stmt: "stmt \<in> set (lifted ?marks stmts)" for stmt
    proof -
      obtain i where i: "i < length stmts" "stmts ! i = stmt" "?marks ! i"
        using stmt by (auto simp: lifted_def set_zip)
      have "liftable (length stmts) stmt \<Longrightarrow> liftable 1 stmt" by (simp add: liftable_def split: stmt.splits)
      then show ?thesis using licm_marks_true [OF i(3,1)] i(2) by simp
    qed
    moreover have "mset stmts = mset (kept ?marks stmts) + mset (lifted ?marks stmts)" by (rule lifted_kept) simp
    ultimately show ?thesis
      using moved by (intro exI [of _ "lifted ?marks stmts @ moved"]) (auto simp: List.map_filter_def)
  qed
qed

section \<open>Empty loops after the pass\<close>

fun loops_full :: "stmt \<Rightarrow> bool" where
  "loops_full (ScanStmt _ _ _ b) = (b \<noteq> [] \<and> list_all loops_full b)"
| "loops_full (BlockStmt bs) = list_all (list_all loops_full) bs"
| "loops_full (NotStmt b) = list_all loops_full b"
| "loops_full (WithStmt _ _ _ b) = list_all loops_full b"
| "loops_full _ = True"

text \<open>Statements that a transformation of the blocks below them may leave behind.\<close>

definition below_full :: "stmt \<Rightarrow> bool" where
  "below_full stmt = (case stmt of ScanStmt _ _ _ b \<Rightarrow> list_all loops_full b | _ \<Rightarrow> loops_full stmt)"

lemma replace_empty_loop_full: "below_full stmt \<Longrightarrow> list_all loops_full (replace_empty_loop stmt)"
  by (cases stmt) (auto simp: below_full_def replace_empty_loop_def)

lemma EmptyLoopReplacement_full: "list_all below_full b \<Longrightarrow> list_all loops_full (fst (EmptyLoopReplacement b))"
proof (cases "list_ex empty_loop b")
  case True
  moreover assume "list_all below_full b"
  then have "list_all loops_full (concat (map replace_empty_loop b))"
    using replace_empty_loop_full by (induction b) auto
  ultimately show ?thesis by (simp add: EmptyLoopReplacement_def)
next
  case False
  moreover have "loops_full stmt" if "below_full stmt" "\<not> empty_loop stmt" for stmt
    using that by (cases stmt) (auto simp: below_full_def empty_loop_def)
  moreover assume "list_all below_full b"
  ultimately show ?thesis by (auto simp: EmptyLoopReplacement_def list_all_iff list_ex_iff)
qed

lemma EmptyLoopReplacement_modified:
  "snd (EmptyLoopReplacement b) \<Longrightarrow> fst (EmptyLoopReplacement b) \<noteq> []"
proof -
  have "replace_empty_loop stmt \<noteq> []" for stmt by (cases stmt) (simp_all add: replace_empty_loop_def)
  then show "snd (EmptyLoopReplacement b) \<Longrightarrow> fst (EmptyLoopReplacement b) \<noteq> []"
    by (cases b) (auto simp: EmptyLoopReplacement_def)
qed

text \<open>An unmodified block is the block that was given.\<close>

declare BlockTransformPassBlock.simps [simp del]

lemma BlockTransformPassBlock_eq:
  "BlockTransformPassBlock f b = (let out = map (\<lambda>x. fst (transform_stmt f x)) b
     in if snd (f out) then (fst (f out), True) else (out, list_ex (\<lambda>x. snd (transform_stmt f x)) b))"
proof -
  have "list_ex snd (map (transform_stmt f) b) = list_ex (\<lambda>x. snd (transform_stmt f x)) b" by (induction b) simp_all
  then show ?thesis by (simp add: BlockTransformPassBlock.simps [of f b] Let_def o_def split_beta)
qed

lemma transform_same:
  "\<not> snd (BlockTransformPassBlock f b) \<Longrightarrow> fst (BlockTransformPassBlock f b) = b"
  "\<not> snd (BlockTransformPassBlocks f bs) \<Longrightarrow> fst (BlockTransformPassBlocks f bs) = bs"
  "\<not> snd (transform_stmt f stmt) \<Longrightarrow> fst (transform_stmt f stmt) = stmt"
proof (induction f b and f bs and f stmt rule: BlockTransformPassBlock_BlockTransformPassBlocks_transform_stmt.induct)
  case (2 f b bs)
  from 2(1) 2(2) [OF refl prod.collapse] 2(3) show ?case by (simp add: Let_def split_beta)
next
  case (8 f b)
  then show ?case by (auto simp: BlockTransformPassBlock_eq Let_def list_ex_iff split: if_splits intro!: map_idI)
qed (auto simp: Let_def split_beta)

lemma transform_eqs:
  "fst (BlockTransformPassBlocks f bs) = map (\<lambda>b. fst (BlockTransformPassBlock f b)) bs"
  "fst (transform_stmt f (BlockStmt bs)) = BlockStmt (fst (BlockTransformPassBlocks f bs))"
  "fst (transform_stmt f (NotStmt b)) = NotStmt (fst (BlockTransformPassBlock f b))"
  "fst (transform_stmt f (WithStmt l path x b)) = WithStmt l path x (fst (BlockTransformPassBlock f b))"
  "fst (transform_stmt f (ScanStmt src k v b)) = ScanStmt src k v (fst (BlockTransformPassBlock f b))"
proof -
  show "fst (BlockTransformPassBlocks f bs) = map (\<lambda>b. fst (BlockTransformPassBlock f b)) bs"
    by (induction bs) (auto simp: Let_def split_beta transform_same)
qed (auto simp: Let_def split_beta transform_same)

lemma transform_full:
  "f = EmptyLoopReplacement \<Longrightarrow> list_all loops_full (fst (BlockTransformPassBlock f b))"
  "f = EmptyLoopReplacement \<Longrightarrow> list_all (list_all loops_full) (fst (BlockTransformPassBlocks f bs))"
  "f = EmptyLoopReplacement \<Longrightarrow> below_full (fst (transform_stmt f stmt))"
proof (induction f b and f bs and f stmt rule: BlockTransformPassBlock_BlockTransformPassBlocks_transform_stmt.induct)
  case (8 f b)
  let ?out = "map (\<lambda>x. fst (transform_stmt f x)) b"
  have "list_all below_full ?out" using 8 by (auto simp: list_all_iff)
  then have "list_all loops_full (fst (EmptyLoopReplacement ?out))" by (rule EmptyLoopReplacement_full)
  then show ?case
    using 8(2) by (auto simp: BlockTransformPassBlock_eq Let_def EmptyLoopReplacement_def)
next
  case (2 f b bs)
  from 2(1,3) 2(2) [OF refl prod.collapse] show ?case by (simp add: transform_eqs(1) del: BlockTransformPassBlocks.simps)
qed (simp_all add: below_full_def transform_eqs del: transform_stmt.simps(1-4))

lemma transform_none:
  "f = EmptyLoopReplacement \<Longrightarrow> list_all loops_full b \<Longrightarrow> \<not> snd (BlockTransformPassBlock f b)"
  "f = EmptyLoopReplacement \<Longrightarrow> list_all (list_all loops_full) bs \<Longrightarrow> \<not> snd (BlockTransformPassBlocks f bs)"
  "f = EmptyLoopReplacement \<Longrightarrow> list_all loops_full (case stmt of ScanStmt _ _ _ b \<Rightarrow> b | _ \<Rightarrow> [stmt]) \<Longrightarrow> \<not> snd (transform_stmt f stmt)"
proof (induction f b and f bs and f stmt rule: BlockTransformPassBlock_BlockTransformPassBlocks_transform_stmt.induct)
  case (2 f b bs)
  from 2(1) 2(2) [OF refl prod.collapse] 2(3,4) show ?case by (simp add: Let_def split_beta)
next
  case (8 f b)
  have stmts: "\<not> snd (transform_stmt f x)" if "x \<in> set b" for x
  proof -
    have "loops_full x" using 8(3) that by (auto simp: list_all_iff)
    then have "list_all loops_full (case x of ScanStmt _ _ _ b \<Rightarrow> b | _ \<Rightarrow> [x])" by (cases x) simp_all
    then show ?thesis by (rule 8(1) [OF that 8(2)])
  qed
  then have "map (\<lambda>x. fst (transform_stmt f x)) b = b" by (auto intro!: map_idI transform_same)
  moreover have "\<not> empty_loop x" if "x \<in> set b" for x
    using 8(3) that by (auto simp: list_all_iff empty_loop_def split: stmt.split)
  then have "\<not> snd (EmptyLoopReplacement b)" by (auto simp: EmptyLoopReplacement_def list_ex_iff)
  ultimately show ?case using stmts 8(2) by (auto simp: BlockTransformPassBlock_eq list_ex_iff)
qed (auto simp: Let_def split_beta)

definition policy_loops_full :: "policy \<Rightarrow> bool" where
  "policy_loops_full p \<longleftrightarrow> list_all (\<lambda>pl. list_all (list_all loops_full) (pl_Blocks pl)) (po_Plans p) \<and>
     list_all (\<lambda>fn. list_all (list_all loops_full) (fn_Blocks fn)) (po_Funcs p)"

section \<open>Properties\<close>

text \<open>C36. The analysis of registers is sound for writes: executing a statement changes no register but those
  \<open>extractLocalRefs\<close> lists as written, through nested blocks, loops, \<open>with\<close> and calls.\<close>

theorem extractLocalRefs_writes:
  assumes "ir_exec be env p fuel stmt s = Some (r, s')" and "regs_ok (l_registers (s_locals s))"
    and "nat w \<notin> nat ` set (fst (extractLocalRefs stmt))"
  shows "State_Local s' w = State_Local s w"
proof -
  have "frameM (set (outRegs stmt)) s (ir_exec be env p fuel stmt s)" using ex_frame_exec [of be env p fuel] by (simp add: ex_frame_def)
  then show ?thesis using assms by (simp add: frame_def outRegs_def)
qed

theorem extractLocalRefs_writes_witness:
  "State_Local (State_SetValue 7 (Some (VNum 3)) ex_state) 5 = State_Local ex_state 5"
proof (rule extractLocalRefs_writes)
  show "ir_exec ex_builtins ex_env ex_policy 1 (AssignIntStmt 3 7) ex_state =
      Some ((False, 0, None), State_SetValue 7 (Some (VNum 3)) ex_state)"
    by (simp add: ir_step_def ir_simple_def continue_def ex_env_def val_ops_def)
qed (simp_all add: ex_state_regs)

text \<open>Code motion ends, loses no statement and moves only statements that, as far as the analysis sees, read
  none of the registers of the loop; it moves breaks only when nothing else is left, and neither calls nor
  assignments that may conflict.  What stays cannot be moved.\<close>

theorem LoopInvariantCodeMotion_moves:
  "\<exists>stmts moved. fst (LoopInvariantCodeMotion \<lparr>Before = [], After = [], Loop = ScanStmt source key v b\<rparr>) =
      \<lparr>Before = List.map_filter (\<lambda>stmt. fst (RewriteBreakStmtsForLifting stmt 0)) moved, After = [], Loop = ScanStmt source key v stmts\<rparr> \<and>
    mset b = mset stmts + mset moved \<and>
    list_all (\<lambda>stmt. set (snd (extractLocalRefs stmt)) \<inter> {source, key, v} = {} \<and> liftable 1 stmt) moved \<and>
    True \<notin> set (licm_marks source key v stmts)"
proof -
  obtain stmts pre where l: "licm_loop source key v b [] = (stmts, pre)" by fastforce
  from licm_loop_moves [OF l] obtain moved where "mset b = mset stmts + mset moved"
    "pre = List.map_filter (\<lambda>stmt. fst (RewriteBreakStmtsForLifting stmt 0)) moved"
    "\<forall>stmt \<in> set moved. set (inRegs stmt) \<inter> {source, key, v} = {} \<and> liftable 1 stmt" "True \<notin> set (licm_marks source key v stmts)"
    by auto
  then show ?thesis
    by (intro exI [of _ stmts] exI [of _ moved]) (simp add: LoopInvariantCodeMotion_def l list_all_iff inRegs_def)
qed

text \<open>The analysis has no case for \<open>IsSetStmt\<close>: a test whether the element of the loop is a set is moved in
  front of the loop, before the element exists.\<close>

theorem licm_moves_isSet:
  "LoopPassBlock LoopInvariantCodeMotion [ScanStmt source key v [IsSetStmt (OpLocal v), ResultSetAddStmt v]] =
    ([IsSetStmt (OpLocal v), ScanStmt source key v [ResultSetAddStmt v]], True)"
proof -
  have refs: "outRegs (IsSetStmt (OpLocal v)) = []" "inRegs (IsSetStmt (OpLocal v)) = []" "outRegs (ResultSetAddStmt v) = []"
    "inRegs (ResultSetAddStmt v) = [v]"
    by (simp_all add: outRegs_def inRegs_def)
  have one: "licm_marks source key v [IsSetStmt (OpLocal v), ResultSetAddStmt v] = [True, False]"
    and two: "licm_marks source key v [ResultSetAddStmt v] = [False]"
    by (simp_all add: licm_marks_def refs liftable_def numeral_2_eq_2)
  have "licm_loop source key v [IsSetStmt (OpLocal v), ResultSetAddStmt v] [] = ([ResultSetAddStmt v], [IsSetStmt (OpLocal v)])"
    by (simp add: licm_loop.simps [of _ _ _ "[IsSetStmt (OpLocal v), ResultSetAddStmt v]"] licm_loop.simps [of _ _ _ "[ResultSetAddStmt v]"]
        one two kept_def lifted_def List.map_filter_def)
  then show ?thesis by (simp add: LoopInvariantCodeMotion_def)
qed

text \<open>C37. Code motion changes what a policy means: a test that does not depend on the loop runs even when the
  loop has nothing to iterate over, and its failure skips what comes after the loop.\<close>

theorem licm_changes_meaning:
  assumes "x \<notin> {source, key, v}" and "op_Iter (env_ops env) (State_Local s source) = ([], None)" and "State_Local s x = None"
  shows "LoopPassBlock LoopInvariantCodeMotion [ScanStmt source key v [IsDefinedStmt x]] =
      ([IsDefinedStmt x, ScanStmt source key v []], True) \<and>
    ir_seq (ir_exec be env p (Suc fuel)) [ScanStmt source key v [IsDefinedStmt x]] s = continue s \<and>
    ir_seq (ir_exec be env p (Suc fuel)) [IsDefinedStmt x, ScanStmt source key v []] s = leave 0 s"
proof -
  have "licm_marks source key v [IsDefinedStmt x] = [True]" "licm_marks source key v [] = []"
    using assms(1) by (simp_all add: licm_marks_def outRegs_def inRegs_def liftable_def)
  then have "licm_loop source key v [IsDefinedStmt x] [] = ([], [IsDefinedStmt x])"
    by (simp add: licm_loop.simps [of _ _ _ "[IsDefinedStmt x]"] licm_loop.simps [of _ _ _ "[]"] kept_def lifted_def List.map_filter_def)
  then show ?thesis
    using assms(2,3) by (simp add: LoopInvariantCodeMotion_def ir_step_def ir_scan_def ir_simple_def ir_test_def continue_def leave_def)
qed

theorem licm_changes_meaning_witness:
  "ir_seq (ir_exec ex_builtins ex_env ex_policy (Suc 0)) [ScanStmt 9 10 11 [IsDefinedStmt 12]] ex_state = continue ex_state \<and>
   ir_seq (ir_exec ex_builtins ex_env ex_policy (Suc 0)) [IsDefinedStmt 12, ScanStmt 9 10 11 []] ex_state = leave 0 ex_state"
proof (rule licm_changes_meaning [THEN conjunct2])
  show "op_Iter (env_ops ex_env) (State_Local ex_state 9) = ([], None)" "State_Local ex_state 12 = None" by code_simp+
qed simp

text \<open>After the pass no loop is empty, and a policy without empty loops is not changed.\<close>

theorem EmptyLoopReplacementPass_removes:
  "policy_loops_full (EmptyLoopReplacementPass p) \<and> (policy_loops_full p \<longrightarrow> EmptyLoopReplacementPass p = p)"
proof -
  let ?f = "BlockTransformPassBlocks EmptyLoopReplacement"
  have "list_all (list_all loops_full) (fst (?f bs))" "\<not> snd (?f bs) \<Longrightarrow> fst (?f bs) = bs"
    "list_all (list_all loops_full) bs \<Longrightarrow> \<not> snd (?f bs)" for bs
    using transform_full(2) transform_same(2) transform_none(2) by blast+
  moreover from this(1,2) have "\<not> snd (?f bs) \<Longrightarrow> list_all (list_all loops_full) bs" for bs by metis
  ultimately show ?thesis
    by (auto simp: EmptyLoopReplacementPass_def pass_policy_def policy_loops_full_def list_all_iff split_beta Let_def
        intro!: map_idI policy.equality)
qed

theorem EmptyLoopReplacementPass_removes_witness: "EmptyLoopReplacementPass ex_policy = ex_policy"
proof (rule EmptyLoopReplacementPass_removes [THEN conjunct2, THEN mp])
  show "policy_loops_full ex_policy" by code_simp
qed

text \<open>On a collection with elements the replacement of an empty loop does what the loop does: both go on with
  the next statement, with the same registers except the key and value of the loop.\<close>

theorem EmptyLoopReplacement_nonempty:
  fixes env :: "('v, 'a, 'e) env"
  assumes "ir_scan env (ir_exec be env p (Suc fuel)) source key v [] s = Some ((stop, n, None), s1)"
    and "regs_ok (l_registers (s_locals s))" and "nat key \<noteq> nat source" and "nat key \<noteq> nat v"
    and "State_Local s source = Some c" and "op_Len (env_ops env) (Some c) = Inr m"
    and "op_Equal (env_ops env) (Some (op_MakeNumberInt (env_ops env) 0)) (Some m) = Inr False"
  shows "\<not> stop \<and> (\<exists>s2. ir_seq (ir_exec be env p (Suc fuel)) (replace_empty_loop (ScanStmt source key v [])) s = continue s2 \<and>
    (\<forall>w. nat w \<notin> {nat key, nat v} \<longrightarrow> State_Local s2 w = State_Local s1 w))"
proof -
  let ?ex = "ir_exec be env p (Suc fuel)"
  let ?s2 = "State_SetValue v (Some m) (State_SetValue key (Some (op_MakeNumberInt (env_ops env) 0)) s)"
  have block: "ir_block env ex [] a = Some ((st, k, None), b) \<Longrightarrow> \<not> st" for ex st k and a b :: "('v, 'a, 'e) State"
    by (auto simp: ir_block_def Let_def raise_def continue_def split: prod.splits option.splits)
  have loop: "ir_scan_loop env ex key v [] kvs ierr a = Some ((st, k, None), b) \<Longrightarrow> \<not> st" for ex kvs ierr st k and a b :: "('v, 'a, 'e) State"
  proof (induction kvs arbitrary: a)
    case (Cons kv kvs)
    obtain x y where kv: "kv = (x, y)" by fastforce
    from Cons.prems obtain st' k' e a' where one: "ir_block env ex [] (State_SetValue v (Some y) (State_SetValue key (Some x) a)) = Some ((st', k', e), a')"
      and rest: "(if st' \<or> e \<noteq> None then Some ((st', k', e), a') else ir_scan_loop env ex key v [] kvs ierr a') = Some ((st, k, None), b)"
      by (auto simp: kv bind_eq_Some_conv)
    show ?case using rest Cons.IH block [of ex _ st' k' a'] one by (auto split: if_splits)
  qed simp
  obtain kvs ierr where it: "op_Iter (env_ops env) (State_Local s source) = (kvs, ierr)" by fastforce
  with assms(1) obtain st k e a where one: "ir_scan_loop env ?ex key v [] kvs ierr s = Some ((st, k, e), a)"
    and end_loop: "(case e of Some e \<Rightarrow> raise e a | None \<Rightarrow> if st \<and> k \<noteq> 0 then leave (k - 1) a else continue a) = Some ((stop, n, None), s1)"
    by (auto simp: ir_scan_def bind_eq_Some_conv simp del: ir_exec.simps)
  then have "\<not> stop" using loop [of ?ex kvs ierr s st k a] by (auto simp: continue_def raise_def split: option.splits)
  moreover have get: "State_Local (State_SetValue t x a) w = (if nat w = nat t then x else State_Local a w)"
    if "regs_ok (l_registers (s_locals a))" for t w x and a :: "('v, 'a, 'e) State"
    using that by (auto simp: State_Local_def State_SetValue_def map_locals_def regs.read_write)
  have ok: "regs_ok (l_registers (s_locals (State_SetValue t x s)))" for t x
    using assms(2) by (simp add: State_SetValue_def map_locals_def regs_write_abs)
  have "ir_seq ?ex (replace_empty_loop (ScanStmt source key v [])) s = continue ?s2"
    using assms(2-7) get ok
    by (simp add: replace_empty_loop_def ir_step_def ir_simple_def ir_test_def ir_value_def ir_equal_def Let_def continue_def leave_def)
  moreover have "frame {key, v} s s1"
    using frame_scan [OF ex_frame_exec, of key v "[]" s env be env p "Suc fuel" source] assms(1) by (simp add: frameM_def)
  then have "\<forall>w. nat w \<notin> {nat key, nat v} \<longrightarrow> State_Local ?s2 w = State_Local s1 w"
    using assms(2) get ok by (auto simp: frame_def)
  ultimately show ?thesis by blast
qed

theorem EmptyLoopReplacement_nonempty_witness:
  "\<exists>s2. ir_seq (ir_exec ex_builtins ex_env ex_policy (Suc 0)) (replace_empty_loop (ScanStmt 9 10 11 []))
      (State_SetValue 9 (Some (VList [VNull])) ex_state) = continue s2"
proof -
  let ?s = "State_SetValue 9 (Some (VList [VNull])) ex_state"
  have "map_option fst (ir_scan ex_env (ir_exec ex_builtins ex_env ex_policy (Suc 0)) 9 10 11 [] ?s) = Some (False, 0, None)" by code_simp
  then obtain s1 where s1: "ir_scan ex_env (ir_exec ex_builtins ex_env ex_policy (Suc 0)) 9 10 11 [] ?s = Some ((False, 0, None), s1)" by auto
  have ok: "regs_ok (l_registers (s_locals ?s))" using ex_state_regs by (simp add: State_SetValue_def map_locals_def regs_write_abs)
  have c: "State_Local ?s 9 = Some (VList [VNull])" by code_simp
  have len: "op_Len (env_ops ex_env) (Some (VList [VNull])) = Inr (VNum 1)"
    "op_Equal (env_ops ex_env) (Some (op_MakeNumberInt (env_ops ex_env) 0)) (Some (VNum 1)) = Inr False" by code_simp+
  from EmptyLoopReplacement_nonempty [OF s1 ok _ _ c len] show ?thesis by fastforce
qed

text \<open>On a collection that is undefined the loop goes on with the next statement, but its replacement leaves
  the block.\<close>

theorem EmptyLoopReplacement_undefined:
  assumes "State_Local s source = None" and "op_Iter (env_ops env) None = ([], None)"
  shows "ir_seq (ir_exec be env p (Suc fuel)) [ScanStmt source key v []] s = continue s \<and>
    ir_seq (ir_exec be env p (Suc fuel)) (replace_empty_loop (ScanStmt source key v [])) s = leave 0 s"
  using assms by (simp add: replace_empty_loop_def ir_step_def ir_scan_def ir_simple_def ir_test_def continue_def leave_def)

theorem EmptyLoopReplacement_undefined_witness:
  "ir_seq (ir_exec ex_builtins ex_env ex_policy (Suc 0)) (replace_empty_loop (ScanStmt 9 10 11 [])) ex_state = leave 0 ex_state"
proof (rule EmptyLoopReplacement_undefined [THEN conjunct2])
  show "State_Local ex_state 9 = None" "op_Iter (env_ops ex_env) None = ([], None)" by code_simp+
qed

end
