(* ===== verification/Json_Patch.thy ===== *)
theory Json_Patch
  imports Data_Ops
begin

text \<open>
  JSON pointers and patches (src/pkg/json/ptr.go, src/pkg/json/patch.go, \<open>Extract\<close> of the values).  A pointer is a
  text, \<open>/\<close> and an escaped segment for every step; a patch is a list of operations at pointers.  This theory has the
  pointers, the reading of operations, and what an operation means on documents as values (\<open>json_patch\<close>, the
  specification).  The code that applies operations works on values in memory that may share parts; it is translated in
  the theory \<open>Patch_Heap\<close> and shown to refine the specification there.  Documents hold no binary files here, so
  \<open>Value\<close> and \<open>valueImpl\<close> of an object agree and the errors for binary files do not occur.
\<close>

section \<open>Pointers\<close>

text \<open>\<open>strings.ReplaceAll\<close> for a text to replace that is not empty, and \<open>strings.Split\<close> at a byte.\<close>

function ReplaceAll :: "gostring \<Rightarrow> gostring \<Rightarrow> gostring \<Rightarrow> gostring" where
  "ReplaceAll s old new =
     (if s = [] \<or> old = [] then s
      else if take (length old) s = old then new @ ReplaceAll (drop (length old) s) old new
      else hd s # ReplaceAll (tl s) old new)"
  by pat_completeness auto
termination by (relation "measure (\<lambda>(s, _, _). length s)") auto

declare ReplaceAll.simps [simp del]

fun Split_byte :: "gostring \<Rightarrow> u8 \<Rightarrow> gostring list" where
  "Split_byte [] b = [[]]"
| "Split_byte (c # s) b = (if c = b then [] # Split_byte s b else (c # hd (Split_byte s b)) # tl (Split_byte s b))"

definition EscapePointerSeg :: "gostring \<Rightarrow> gostring" where
  "EscapePointerSeg ptr = ReplaceAll (ReplaceAll ptr (str ''~'') (str ''~0'')) (str ''/'') (str ''~1'')"

definition UnescapePointerSeg :: "gostring \<Rightarrow> gostring" where
  "UnescapePointerSeg ptr = ReplaceAll (ReplaceAll ptr (str ''~1'') (str ''/'')) (str ''~0'') (str ''~'')"

definition NewPointer :: "gostring list \<Rightarrow> gostring" where
  "NewPointer segs = foldl (\<lambda>buffer seg. buffer @ str ''/'' @ EscapePointerSeg seg) [] segs"

datatype patch_error =
    InvalidPointer
  | PathNotFound
  | PatchMissing gostring
  | PatchNotString gostring
  | PatchInvalidValue gostring
  | PatchInvalidOp gostring
  | PatchNotFound
  | PatchKeyNotFound gostring
  | PatchMemberNotFound gostring
  | PatchTestFailed gostring
  | PatchBinary
  | PatchBinaryResult
  | PatchInvalidArrayIndex gostring
  | PatchLeadingZeroes gostring
  | PatchIndexOutOfRange gostring
  | PatchUnsupportedType

definition preparePointer :: "gostring \<Rightarrow> patch_error + gostring list" where
  "preparePointer ptr =
     (if ptr = [] then Inr []
      else if hd ptr \<noteq> hd (str ''/'') then Inl InvalidPointer
      else Inr (tl (map UnescapePointerSeg (Split_byte ptr (hd (str ''/''))))))"

definition ParsePointer :: "gostring \<Rightarrow> patch_error + gostring list" where
  "ParsePointer ptr = preparePointer ptr"

text \<open>\<open>parseInt\<close> of json.go: \<open>strconv.ParseInt(s, 10, 32)\<close>.\<close>

definition parseInt :: "gostring \<Rightarrow> int option" where
  "parseInt s = (case Number_Int64 s of Some i \<Rightarrow> if - (2 ^ 31) \<le> i \<and> i < 2 ^ 31 then Some i else None | None \<Rightarrow> None)"

text \<open>\<open>extractImpl\<close> of all kinds of values.  Sets and hash-table objects embed a \<open>Json\<close> that is \<open>nil\<close>, so that the
  method panics.\<close>

fun extractImpl :: "json \<Rightarrow> gostring list \<Rightarrow> (patch_error + json) option" where
  "extractImpl (JArray a) ptr = (case ptr of
     [] \<Rightarrow> ereturn (JArray a)
   | seg # rest \<Rightarrow> (case parseInt seg of
       None \<Rightarrow> Some (Inl PathNotFound)
     | Some i \<Rightarrow> if i < 0 \<or> int (length a) \<le> i then Some (Inl PathNotFound) else extractImpl (a ! nat i) rest))"
| "extractImpl (JObject kvs) ptr = (case ptr of
     [] \<Rightarrow> ereturn (JObject kvs)
   | seg # rest \<Rightarrow> (case Object_valueImpl kvs seg of
       None \<Rightarrow> Some (Inl PathNotFound)
     | Some v \<Rightarrow> extractImpl v rest))"
| "extractImpl (JSet t) ptr = None"
| "extractImpl (JObject2 t) ptr = None"
| "extractImpl n ptr = (if ptr = [] then ereturn n else Some (Inl PathNotFound))"

definition Extract :: "json \<Rightarrow> gostring \<Rightarrow> (patch_error + json) option" where
  "Extract j ptr = ebind (Some (preparePointer ptr)) (extractImpl j)"

section \<open>Operations\<close>

datatype PatchOp =
    PatchOpAdd
  | PatchOpReplace
  | PatchOpRemove
  | PatchOpTest
  | PatchOpCopy
  | PatchOpMove
  | PatchOpCreate

text \<open>The names of the operations; other names are rejected when the operation is read.\<close>

definition patch_op_of :: "gostring \<Rightarrow> PatchOp option" where
  "patch_op_of s = map_of
     [(str ''add'', PatchOpAdd), (str ''replace'', PatchOpReplace), (str ''remove'', PatchOpRemove), (str ''test'', PatchOpTest),
      (str ''copy'', PatchOpCopy), (str ''move'', PatchOpMove), (str ''create'', PatchOpCreate)] s"

record 'v Op =
  opValue :: "'v option"
  opOp :: PatchOp
  opPath :: gostring
  opFrom :: gostring

text \<open>A member of the map an operation is read from: a text, a JSON value, or some other Go value, which \<open>New\<close> turns
  into JSON.\<close>

datatype 'a any = AnyString gostring | AnyJson json | AnyOther 'a

definition any_string :: "(gostring \<rightharpoonup> 'a any) \<Rightarrow> gostring \<Rightarrow> patch_error + gostring" where
  "any_string spec name = (case spec name of
     None \<Rightarrow> Inl (PatchMissing name)
   | Some (AnyString s) \<Rightarrow> Inr s
   | Some _ \<Rightarrow> Inl (PatchNotString name))"

definition any_json :: "('a \<Rightarrow> gostring + json) \<Rightarrow> 'a any \<Rightarrow> gostring + json" where
  "any_json New v = (case v of AnyJson j \<Rightarrow> Inr j | AnyString s \<Rightarrow> Inr (JString s) | AnyOther x \<Rightarrow> New x)"

definition newOpFromMap :: "('a \<Rightarrow> gostring + json) \<Rightarrow> (gostring \<rightharpoonup> 'a any) \<Rightarrow> patch_error + json Op" where
  "newOpFromMap New spec = (case any_string spec (str ''op'') of
     Inl e \<Rightarrow> Inl e
   | Inr opStr \<Rightarrow> (case any_string spec (str ''path'') of
       Inl e \<Rightarrow> Inl e
     | Inr pathStr \<Rightarrow> (case patch_op_of opStr of
         None \<Rightarrow> Inl (PatchInvalidOp opStr)
       | Some op \<Rightarrow>
           if op \<in> {PatchOpAdd, PatchOpReplace, PatchOpTest, PatchOpCreate} then
             (case spec (str ''value'') of
                None \<Rightarrow> Inl (PatchMissing (str ''value''))
              | Some value \<Rightarrow> (case any_json New value of
                  Inl e \<Rightarrow> Inl (PatchInvalidValue e)
                | Inr jvalue \<Rightarrow> Inr \<lparr>opValue = Some jvalue, opOp = op, opPath = pathStr, opFrom = []\<rparr>))
           else if op = PatchOpRemove then Inr \<lparr>opValue = None, opOp = op, opPath = pathStr, opFrom = []\<rparr>
           else
             (case any_string spec (str ''from'') of
                Inl e \<Rightarrow> Inl e
              | Inr fromStr \<Rightarrow> Inr \<lparr>opValue = None, opOp = op, opPath = pathStr, opFrom = fromStr\<rparr>))))"

fun NewPatch :: "('a \<Rightarrow> gostring + json) \<Rightarrow> (gostring \<rightharpoonup> 'a any) list \<Rightarrow> patch_error + json Op list" where
  "NewPatch New [] = Inr []"
| "NewPatch New (m # spec) = (case newOpFromMap New m of
     Inl e \<Rightarrow> Inl e
   | Inr op \<Rightarrow> (case NewPatch New spec of Inl e \<Rightarrow> Inl e | Inr patch \<Rightarrow> Inr (op # patch)))"

section \<open>What operations mean\<close>

type_synonym 'a patch_result = "(patch_error + 'a) option"

text \<open>Operations on documents as values.  An operation that stores a value has one (\<open>newOpFromMap\<close>).\<close>

definition Object_Remove :: "(gostring \<times> 'v) list \<Rightarrow> gostring \<Rightarrow> (gostring \<times> 'v) list" where
  "Object_Remove kvs name = (let (i, ok) = Object_find (map fst kvs) name in if ok then take i kvs @ drop (i + 1) kvs else kvs)"

definition json_test :: "json \<Rightarrow> json option \<Rightarrow> json \<Rightarrow> json patch_result" where
  "json_test m value result = (case value of
     None \<Rightarrow> Some (Inl PatchBinary)
   | Some b \<Rightarrow> do { c \<leftarrow> compare m b; if c \<noteq> 0 then Some (Inl (PatchTestFailed [])) else ereturn result })"

definition json_member :: "(gostring \<times> json) list \<Rightarrow> gostring \<Rightarrow> json option \<Rightarrow> PatchOp \<Rightarrow> json patch_result" where
  "json_member v field value op = (case op of
     PatchOpRemove \<Rightarrow> (case Object_valueImpl v field of
       None \<Rightarrow> Some (Inl (PatchKeyNotFound field))
     | Some _ \<Rightarrow> ereturn (JObject (Object_Remove v field)))
   | PatchOpAdd \<Rightarrow> elift (map_option (\<lambda>x. JObject (Object_setImpl v field x)) value)
   | PatchOpCreate \<Rightarrow> elift (map_option (\<lambda>x. JObject (Object_setImpl v field x)) value)
   | PatchOpReplace \<Rightarrow> (case Object_valueImpl v field of
       None \<Rightarrow> Some (Inl (PatchMemberNotFound field))
     | Some _ \<Rightarrow> elift (map_option (\<lambda>x. JObject (Object_setImpl v field x)) value))
   | PatchOpTest \<Rightarrow> (case Object_valueImpl v field of
       None \<Rightarrow> Some (Inl (PatchMemberNotFound field))
     | Some m \<Rightarrow> json_test m value (JObject v))
   | _ \<Rightarrow> Some (Inl (PatchInvalidOp [])))"

definition adds :: "PatchOp \<Rightarrow> bool" where
  "adds op \<longleftrightarrow> op = PatchOpAdd \<or> op = PatchOpCreate"

text \<open>The index of an array element; \<open>-\<close> is the position after the last one.\<close>

definition array_index :: "'v list \<Rightarrow> gostring \<Rightarrow> PatchOp \<Rightarrow> patch_error + nat" where
  "array_index v field op =
     (let index = (if field = str ''-'' then Inr (int (length v))
        else case parseInt field of
          None \<Rightarrow> Inl (PatchInvalidArrayIndex field)
        | Some i \<Rightarrow> if 1 < length field \<and> hd field = hd (str ''0'') then Inl (PatchLeadingZeroes field) else Inr i)
      in case index of
        Inl e \<Rightarrow> Inl e
      | Inr i \<Rightarrow>
          if i < 0 \<or> adds op \<and> int (length v) < i \<or> \<not> adds op \<and> int (length v) \<le> i then Inl (PatchIndexOutOfRange field)
          else Inr (nat i))"

definition insert_at :: "'v list \<Rightarrow> nat \<Rightarrow> 'v \<Rightarrow> 'v list" where
  "insert_at v index x = map (\<lambda>i. if i = index then x else if i < index then v ! i else v ! (i - 1)) [0..<length v + 1]"

definition json_element :: "json list \<Rightarrow> nat \<Rightarrow> json option \<Rightarrow> PatchOp \<Rightarrow> json patch_result" where
  "json_element v index value op = (case op of
     PatchOpRemove \<Rightarrow> ereturn (JArray (take index v @ drop (index + 1) v))
   | PatchOpReplace \<Rightarrow> elift (map_option (\<lambda>x. JArray (v[index := x])) value)
   | PatchOpTest \<Rightarrow> json_test (v ! index) value (JArray v)
   | _ \<Rightarrow>
       if adds op then elift (map_option (\<lambda>x. JArray (if index = length v then v @ [x] else insert_at v index x)) value)
       else Some (Inl (PatchInvalidOp [])))"

text \<open>\<open>nil\<close> is the result of removing the root.\<close>

fun json_patch :: "json option \<Rightarrow> gostring list \<Rightarrow> json option \<Rightarrow> PatchOp \<Rightarrow> json option patch_result" where
  "json_patch None ptr value op = Some (Inl PatchNotFound)"
| "json_patch (Some json) [] value op = (case op of
     PatchOpRemove \<Rightarrow> ereturn None
   | PatchOpTest \<Rightarrow> ebind (json_test json value json) (\<lambda>j. ereturn (Some j))
   | PatchOpCopy \<Rightarrow> Some (Inl (PatchInvalidOp []))
   | PatchOpMove \<Rightarrow> Some (Inl (PatchInvalidOp []))
   | _ \<Rightarrow> ereturn value)"
| "json_patch (Some json) (field # ptr) value op = (case json of
     JObject v \<Rightarrow>
       if ptr = [] then ebind (json_member v field value op) (\<lambda>j. ereturn (Some j))
       else (case Object_valueImpl v field of
           None \<Rightarrow>
             if op = PatchOpCreate then
               let v = Object_setImpl v field (JObject []) in
               ebind (json_patch (Some (JObject [])) ptr value op) (\<lambda>sv. elift (map_option (\<lambda>s. Some (JObject (Object_setImpl v field s))) sv))
             else Some (Inl (PatchKeyNotFound field))
         | Some child \<Rightarrow>
             ebind (json_patch (Some child) ptr value op) (\<lambda>sv. elift (map_option (\<lambda>s. Some (JObject (Object_setImpl v field s))) sv)))
   | JArray v \<Rightarrow> (case array_index v field op of
       Inl e \<Rightarrow> Some (Inl e)
     | Inr index \<Rightarrow>
         if ptr = [] then ebind (json_element v index value op) (\<lambda>j. ereturn (Some j))
         else if index < length v then
           ebind (json_patch (Some (v ! index)) ptr value op) (\<lambda>sv. elift (map_option (\<lambda>s. Some (JArray (v[index := s]))) sv))
         else None)
   | _ \<Rightarrow> Some (Inl PatchUnsupportedType))"

section \<open>Pointers round trip\<close>

lemma ReplaceAll_Nil [simp]: "ReplaceAll [] old new = []"
  by (simp add: ReplaceAll.simps [of "[]"])

lemma ReplaceAll_byte: "ReplaceAll s [a] new = concat (map (\<lambda>c. if c = a then new else [c]) s)"
proof (induction s)
  case (Cons c s)
  then show ?case by (simp add: ReplaceAll.simps [of "c # s"])
qed simp

lemma ReplaceAll_two:
  "ReplaceAll (a # b # s) [a, b] new = new @ ReplaceAll s [a, b] new"
  "c \<noteq> a \<Longrightarrow> ReplaceAll (c # s) [a, b] new = c # ReplaceAll s [a, b] new"
  "d \<noteq> b \<Longrightarrow> d \<noteq> a \<Longrightarrow> ReplaceAll (a # d # s) [a, b] new = a # d # ReplaceAll s [a, b] new"
  by (simp_all add: ReplaceAll.simps [of "a # b # s"] ReplaceAll.simps [of "c # s"] ReplaceAll.simps [of "a # d # s"]
      ReplaceAll.simps [of "d # s"])

lemma pointer_bytes:
  "str ''~'' = [126]" "str ''/'' = [47]" "str ''~0'' = [126, 48]" "str ''~1'' = [126, 49]" "str ''-'' = [45]" "str ''0'' = [48]"
  by code_simp+

definition escaped :: "u8 \<Rightarrow> bytes" where
  "escaped c = (if c = 126 then [126, 48] else if c = 47 then [126, 49] else [c])"

lemma EscapePointerSeg_eq: "EscapePointerSeg s = concat (map escaped s)"
  unfolding EscapePointerSeg_def pointer_bytes ReplaceAll_byte by (induction s) (auto simp: escaped_def)

lemma UnescapePointerSeg_Escape: "UnescapePointerSeg (EscapePointerSeg s) = s"
proof -
  let ?tilde = "\<lambda>c :: u8. if c = 126 then [126, 48] else [c]"
  have "ReplaceAll (concat (map escaped s)) [126, 49] [47] = concat (map ?tilde s)"
    by (induction s) (auto simp: escaped_def ReplaceAll_two)
  moreover have "ReplaceAll (concat (map ?tilde s)) [126, 48] [126] = s"
    by (induction s) (auto simp: ReplaceAll_two)
  ultimately show ?thesis by (simp add: UnescapePointerSeg_def EscapePointerSeg_eq pointer_bytes)
qed

lemma Split_byte_none: "b \<notin> set s \<Longrightarrow> Split_byte s b = [s]"
  by (induction s) auto

lemma Split_byte_append: "b \<notin> set s \<Longrightarrow> Split_byte (s @ b # t) b = s # Split_byte t b"
  by (induction s) auto

lemma escaped_no_slash: "47 \<notin> set (EscapePointerSeg s)"
  by (auto simp: EscapePointerSeg_eq escaped_def split: if_splits)

lemma Split_pointer:
  "Split_byte (EscapePointerSeg s @ concat (map (\<lambda>seg. 47 # EscapePointerSeg seg) segs)) 47 = map EscapePointerSeg (s # segs)"
proof (induction segs arbitrary: s)
  case Nil
  then show ?case by (simp add: Split_byte_none escaped_no_slash)
next
  case (Cons a segs)
  then show ?case by (simp add: Split_byte_append escaped_no_slash)
qed

lemma NewPointer_eq: "NewPointer segs = concat (map (\<lambda>seg. 47 # EscapePointerSeg seg) segs)"
proof -
  have "foldl (\<lambda>buffer seg. buffer @ 47 # EscapePointerSeg seg) b segs = b @ concat (map (\<lambda>seg. 47 # EscapePointerSeg seg) segs)" for b
    by (induction segs arbitrary: b) auto
  then show ?thesis by (simp add: NewPointer_def pointer_bytes)
qed

lemma preparePointer_NewPointer: "preparePointer (NewPointer segs) = Inr segs"
proof (cases segs)
  case Nil
  then show ?thesis by (simp add: NewPointer_def preparePointer_def)
next
  case (Cons s rest)
  have "map (UnescapePointerSeg \<circ> EscapePointerSeg) ss = ss" for ss by (simp add: UnescapePointerSeg_Escape comp_def)
  then show ?thesis
    using Split_pointer [of s rest] Cons
    by (simp add: NewPointer_eq preparePointer_def pointer_bytes UnescapePointerSeg_Escape comp_def)
qed

text \<open>C29. A pointer built from segments is parsed to these segments, whatever bytes they hold.\<close>

theorem pointer_roundtrip: "ParsePointer (NewPointer segs) = Inr segs"
  by (simp add: ParsePointer_def preparePointer_NewPointer)

section \<open>What an operation does\<close>

lemma json_patch_cases:
  assumes "json_patch (Some j) (field # ptr) value op = Some (Inr r)"
  obtains
    (member) v j' where "j = JObject v" "ptr = []" "json_member v field value op = Some (Inr j')" "r = Some j'"
  | (child) v c s where "j = JObject v" "ptr \<noteq> []" "Object_valueImpl v field = Some c" "json_patch (Some c) ptr value op = Some (Inr (Some s))"
      "r = Some (JObject (Object_setImpl v field s))"
  | (create) v s where "j = JObject v" "ptr \<noteq> []" "Object_valueImpl v field = None" "op = PatchOpCreate"
      "json_patch (Some (JObject [])) ptr value op = Some (Inr (Some s))"
      "r = Some (JObject (Object_setImpl (Object_setImpl v field (JObject [])) field s))"
  | (element) v i j' where "j = JArray v" "ptr = []" "array_index v field op = Inr i" "json_element v i value op = Some (Inr j')" "r = Some j'"
  | (inner) v i s where "j = JArray v" "ptr \<noteq> []" "array_index v field op = Inr i" "i < length v"
      "json_patch (Some (v ! i)) ptr value op = Some (Inr (Some s))" "r = Some (JArray (v[i := s]))"
proof (cases j)
  case (JArray v)
  then show thesis using assms that
    by (auto simp: ebind_def ereturn_def elift_def split: sum.splits option.splits if_splits)
next
  case (JObject v)
  then show thesis using assms that
    by (auto simp: ebind_def ereturn_def elift_def Let_def split: sum.splits option.splits if_splits)
qed (use assms in auto)

lemma json_member_cases:
  assumes "json_member v field value op = Some (Inr j')"
  obtains (stored) x where "adds op \<or> op = PatchOpReplace" "value = Some x" "j' = JObject (Object_setImpl v field x)"
  | (removed) m where "op = PatchOpRemove" "Object_valueImpl v field = Some m" "j' = JObject (Object_Remove v field)"
  | (tested) "op = PatchOpTest" "j' = JObject v"
  using assms that
  by (auto simp: json_member_def json_test_def adds_def elift_def ereturn_def bind_eq_Some_conv
      split: PatchOp.splits option.splits if_splits)

lemma json_element_cases:
  assumes "json_element v i value op = Some (Inr j')"
  obtains (added) x where "adds op" "value = Some x" "j' = JArray (if i = length v then v @ [x] else insert_at v i x)"
  | (replaced) x where "op = PatchOpReplace" "value = Some x" "j' = JArray (v[i := x])"
  | (removed) "op = PatchOpRemove" "j' = JArray (take i v @ drop (i + 1) v)"
  | (tested) "op = PatchOpTest" "j' = JArray v"
  using assms that
  by (auto simp: json_element_def json_test_def adds_def elift_def ereturn_def bind_eq_Some_conv
      split: PatchOp.splits option.splits if_splits)

definition document :: "json \<Rightarrow> bool" where
  "document j \<longleftrightarrow> plain j \<and> json_ok (\<lambda>_. 0) j"

lemma document_simps [simp]:
  "document (JArray xs) \<longleftrightarrow> (\<forall>x \<in> set xs. document x)"
  "document (JObject kvs) \<longleftrightarrow> sorted_wrt (<) (map fst kvs) \<and> (\<forall>(k, v) \<in> set kvs. document v)"
  "document (JFloat s) \<longleftrightarrow> number_ok s" "document (JString t) \<longleftrightarrow> True" "document JNull \<longleftrightarrow> True" "document (JBool b) \<longleftrightarrow> True"
  "document (JSet st) \<longleftrightarrow> False" "document (JObject2 ot) \<longleftrightarrow> False"
  by (auto simp: document_def list_all_iff)

lemma extractImpl_root [simp]: "document j \<Longrightarrow> extractImpl j [] = ereturn j"
  by (cases j) auto

lemma insert_at_eq: "i \<le> length v \<Longrightarrow> insert_at v i x = take i v @ x # drop i v"
  by (intro nth_equalityI) (auto simp: insert_at_def nth_append nth_Cons' min_def simp del: upt_Suc)

lemma array_index_Inr:
  assumes "array_index v field op = Inr i"
  shows "i \<le> length v" and "\<not> adds op \<Longrightarrow> i < length v" and "field \<noteq> str ''-'' \<Longrightarrow> parseInt field = Some (int i)"
    and "field = str ''-'' \<Longrightarrow> adds op \<and> i = length v"
  using assms by (auto simp: array_index_def Let_def split: if_splits option.splits sum.splits)

lemma Object_Remove_sorted:
  assumes "sorted_wrt (<) (map fst kvs)"
  shows "sorted_wrt (<) (map fst (Object_Remove kvs name))" and "map_of (Object_Remove kvs name) = (map_of kvs)(name := None)"
    and "set (Object_Remove kvs name) \<subseteq> set kvs"
proof -
  obtain i ok where find: "Object_find (map fst kvs) name = (i, ok)" by fastforce
  have lookup: "Object_valueImpl kvs name = (if ok then Some (snd (kvs ! i)) else None)"
    using find by (simp add: Object_valueImpl_def)
  have "sorted_wrt (<) (map fst (Object_Remove kvs name)) \<and> map_of (Object_Remove kvs name) = (map_of kvs)(name := None) \<and>
    set (Object_Remove kvs name) \<subseteq> set kvs"
  proof (cases ok)
    case False
    then have "map_of kvs name = None" using lookup by (simp add: Object_valueImpl_eq [OF assms])
    then have "map_of kvs = (map_of kvs)(name := None)" by (simp add: fun_eq_iff)
    then show ?thesis using False assms by (simp add: Object_Remove_def find)
  next
    case True
    then have i: "i < length kvs" "fst (kvs ! i) = name"
      using find by (auto simp: Object_find_def Let_def)
    define a b where "a = take i kvs" and "b = drop (Suc i) kvs"
    have kvs: "kvs = a @ kvs ! i # b" using i by (simp add: a_def b_def id_take_nth_drop)
    have dist: "distinct (map fst a @ name # map fst b)"
      using assms i(2) kvs by (metis list.simps(9) map_append sorted_names_distinct)
    have "map_of (a @ b) x = ((map_of (a @ kvs ! i # b))(name := None)) x" for x
    proof -
      have "map_of a name = None" "map_of b name = None" using dist by (auto simp: map_of_eq_None_iff)
      then show ?thesis using i(2) by (cases "kvs ! i") (auto simp: map_add_def split: option.split)
    qed
    then have "map_of (a @ b) = (map_of kvs)(name := None)" using kvs by auto
    moreover have "sorted_wrt (<) (map fst (a @ b))" using assms by (subst (asm) kvs) (auto simp: sorted_wrt_append)
    moreover have "set (a @ b) \<subseteq> set kvs" by (auto simp: a_def b_def dest: in_set_takeD in_set_dropD)
    moreover have "Object_Remove kvs name = a @ b" using True by (simp add: Object_Remove_def find a_def b_def)
    ultimately show ?thesis by simp
  qed
  then show "sorted_wrt (<) (map fst (Object_Remove kvs name))" "map_of (Object_Remove kvs name) = (map_of kvs)(name := None)"
    "set (Object_Remove kvs name) \<subseteq> set kvs" by blast+
qed

lemma document_setImpl:
  assumes "document (JObject kvs)" and "document x"
  shows "document (JObject (Object_setImpl kvs name x))"
  using assms Object_setImpl_sorted(1,3) [of kvs name x] by fastforce

lemma document_child: "document (JObject kvs) \<Longrightarrow> Object_valueImpl kvs name = Some c \<Longrightarrow> document c"
  by (auto dest!: Object_valueImpl_mem)

text \<open>Operations keep documents well formed.\<close>

lemma json_member_document:
  assumes "json_member v field value op = Some (Inr j')" and "document (JObject v)" and "\<And>x. value = Some x \<Longrightarrow> document x"
  shows "document j'"
  using assms(1)
proof (cases rule: json_member_cases)
  case (removed m)
  then show ?thesis using assms(2) Object_Remove_sorted(1,3) [of v field] by fastforce
qed (use assms document_setImpl in auto)

lemma json_element_document:
  assumes "json_element v i value op = Some (Inr j')" and "document (JArray v)" and "\<And>x. value = Some x \<Longrightarrow> document x"
    and "i \<le> length v"
  shows "document j'"
  using assms(1)
proof (cases rule: json_element_cases)
  case (replaced x)
  then show ?thesis using assms set_update_subset_insert [of v i x] by auto
qed (use assms in \<open>auto simp: insert_at_eq dest!: in_set_takeD in_set_dropD\<close>)

lemma json_patch_document:
  assumes "json_patch (Some j) ptr value op = Some (Inr (Some j'))" and "document j" and "\<And>x. value = Some x \<Longrightarrow> document x"
  shows "document j'"
  using assms(1,2)
proof (induction ptr arbitrary: j j')
  case Nil
  then show ?case using assms(3) by (auto simp: json_test_def ereturn_def ebind_def bind_eq_Some_conv split: PatchOp.splits option.splits if_splits)
next
  case (Cons field ptr)
  from Cons.prems(1) show ?case
  proof (cases rule: json_patch_cases)
    case (member v j'')
    then show ?thesis using json_member_document assms(3) Cons.prems(2) by blast
  next
    case (child v c s)
    have "document s" using child Cons.prems(2) document_child by (intro Cons.IH [OF child(4)]) blast
    then show ?thesis using child Cons.prems(2) document_setImpl by blast
  next
    case (create v s)
    have "document (JObject (Object_setImpl v field (JObject [])))" using Cons.prems(2) create(1) by (intro document_setImpl) auto
    moreover have "document s" by (rule Cons.IH [OF create(5)]) simp
    ultimately show ?thesis using create(6) document_setImpl by blast
  next
    case (element v i j'')
    then show ?thesis using json_element_document assms(3) Cons.prems(2) array_index_Inr(1) by blast
  next
    case (inner v i s)
    have "document s" using inner Cons.prems(2) by (intro Cons.IH [OF inner(5)]) simp
    then show ?thesis using inner Cons.prems(2) set_update_subset_insert [of v i s] by auto
  qed
qed

lemma Object_setImpl_value:
  assumes "sorted_wrt (<) (map fst v)"
  shows "Object_valueImpl (Object_setImpl v a s) b = (if a = b then Some s else Object_valueImpl v b)"
  using Object_setImpl_sorted [OF assms, of a s] by (auto simp: Object_valueImpl_eq assms)

lemma extractImpl_setImpl:
  assumes "sorted_wrt (<) (map fst v)"
  shows "extractImpl (JObject (Object_setImpl v a s)) (b # q) = (if a = b then extractImpl s q else extractImpl (JObject v) (b # q))"
  by (simp add: Object_setImpl_value [OF assms])

lemma Object_setImpl_id:
  assumes "Object_valueImpl v a = Some c"
  shows "Object_setImpl v a c = v"
proof -
  have "Object_find (map fst v) a = (i, True) \<Longrightarrow> i < length v \<and> fst (v ! i) = a" for i
    by (auto simp: Object_find_def Let_def)
  then show ?thesis using assms
    by (auto simp: Object_setImpl_def Object_valueImpl_def split: prod.splits if_splits)
qed

lemma parseInt_dash: "parseInt (str ''-'') = None"
  by code_simp

text \<open>Pointers that an operation leaves alone: they leave its pointer at another name, or at another index unless
  elements before that index are added or removed.\<close>

fun apart :: "PatchOp \<Rightarrow> json \<Rightarrow> gostring list \<Rightarrow> gostring list \<Rightarrow> bool" where
  "apart op (JObject kvs) (a # p) (b # q) \<longleftrightarrow> a \<noteq> b \<or> (case Object_valueImpl kvs a of Some c \<Rightarrow> apart op c p q | None \<Rightarrow> False)"
| "apart op (JArray xs) (a # p) (b # q) \<longleftrightarrow> (case (parseInt a, parseInt b) of
     (Some i, Some k) \<Rightarrow>
       if i = k then 0 \<le> i \<and> i < int (length xs) \<and> apart op (xs ! nat i) p q
       else p \<noteq> [] \<or> op = PatchOpReplace \<or> k < i
   | _ \<Rightarrow> False)"
| "apart op j p q \<longleftrightarrow> False"

lemma extractImpl_array:
  "parseInt b = Some k \<Longrightarrow> (0 \<le> k \<Longrightarrow> (nat k < length v \<longleftrightarrow> nat k < length w) \<and> (nat k < length v \<longrightarrow> w ! nat k = v ! nat k)) \<Longrightarrow>
   extractImpl (JArray w) (b # q) = extractImpl (JArray v) (b # q)"
  by auto

lemma json_patch_apart:
  assumes "json_patch (Some j) ptr value op = Some (Inr (Some j'))" and "document j" and "apart op j ptr q"
  shows "extractImpl j' q = extractImpl j q"
  using assms
proof (induction ptr arbitrary: j j' q)
  case (Cons a p)
  obtain b r where q: "q = b # r" using Cons.prems(3) by (cases q) (auto elim: apart.elims)
  from Cons.prems(1) show ?case
  proof (cases rule: json_patch_cases)
    case (member v j'')
    then have "a \<noteq> b" and sorted: "sorted_wrt (<) (map fst v)" using Cons.prems(2,3) q by (auto split: option.splits)
    from member(3) show ?thesis
    proof (cases rule: json_member_cases)
      case (stored x)
      then show ?thesis using member q \<open>a \<noteq> b\<close> extractImpl_setImpl [OF sorted] by simp
    next
      case (removed m)
      have "Object_valueImpl (Object_Remove v a) b = Object_valueImpl v b"
        using Object_Remove_sorted [OF sorted, of a] \<open>a \<noteq> b\<close> by (simp add: Object_valueImpl_eq sorted)
      then show ?thesis using member removed q by simp
    qed (use member in simp)
  next
    case (child v c s)
    then have sorted: "sorted_wrt (<) (map fst v)" using Cons.prems(2) by auto
    have "document c" using child Cons.prems(2) document_child by blast
    then show ?thesis
      using child Cons.prems(3) q Cons.IH [OF child(4)] extractImpl_setImpl [OF sorted] by auto
  next
    case (create v s)
    then have sorted: "sorted_wrt (<) (map fst v)" and "a \<noteq> b" using Cons.prems(2,3) q by auto
    then show ?thesis
      using create q extractImpl_setImpl [OF sorted] extractImpl_setImpl [OF Object_setImpl_sorted(1) [OF sorted]] by simp
  next
    case (element v i j'')
    obtain i' k where ik: "parseInt a = Some i'" "parseInt b = Some k" using Cons.prems(3) q element(1) by (auto split: option.splits)
    then have "a \<noteq> str ''-''" by (auto simp: parseInt_dash)
    then have i': "i' = int i" using array_index_Inr(3) [OF element(3)] ik(1) by simp
    have k: "parseInt a = Some (int i)" "parseInt b = Some k" "op = PatchOpReplace \<and> k \<noteq> int i \<or> k < int i"
      using Cons.prems(3) q element(1,2) ik i' by (auto split: if_splits)
    have len: "i \<le> length v" "\<not> adds op \<Longrightarrow> i < length v" using array_index_Inr [OF element(3)] by auto
    from element(4) show ?thesis
    proof (cases rule: json_element_cases)
      case (added x)
      then have "k < int i" using k(3) by (auto simp: adds_def)
      moreover have "j' = JArray (if i = length v then v @ [x] else insert_at v i x)" using element(5) added by simp
      ultimately show ?thesis unfolding q element(1) using len k(2)
        by (simp only:) (rule extractImpl_array [of b k]; auto simp: insert_at_eq nth_append)
    next
      case (replaced x)
      then have "j' = JArray (v[i := x])" using element(5) by simp
      then show ?thesis unfolding q element(1) using k
        by (simp only:) (rule extractImpl_array [of b k]; auto simp: nth_list_update)
    next
      case removed
      then have "k < int i" "i < length v" using k(3) len by (auto simp: adds_def)
      moreover have "j' = JArray (take i v @ drop (i + 1) v)" using element(5) removed by simp
      ultimately show ?thesis unfolding q element(1) using k(2)
        by (simp only:) (rule extractImpl_array [of b k]; auto simp: nth_append)
    qed (use element in simp)
  next
    case (inner v i s)
    obtain i' k where ik: "parseInt a = Some i'" "parseInt b = Some k" using Cons.prems(3) q inner(1) by (auto split: option.splits)
    have "a \<noteq> str ''-''" using array_index_Inr(4) [OF inner(3)] inner(4) by auto
    then have i': "i' = int i" using array_index_Inr(3) [OF inner(3)] ik(1) by simp
    have "document (v ! i)" using Cons.prems(2) inner by simp
    then have "extractImpl s r = extractImpl (v ! i) r" if "k = int i"
      using Cons.IH [OF inner(5)] Cons.prems(3) that q inner(1) ik i' by auto
    then show ?thesis using inner q ik i' by (auto simp: nth_list_update)
  qed
qed auto

lemma json_patch_stores:
  assumes "json_patch (Some j) ptr (Some x) op = Some (Inr (Some j'))" and "document j" and "document x"
    and "adds op \<or> op = PatchOpReplace" and "str ''-'' \<notin> set ptr"
  shows "extractImpl j' ptr = ereturn x"
  using assms(1,2,5)
proof (induction ptr arbitrary: j j')
  case Nil
  then show ?case using assms(3,4) by (auto simp: adds_def ereturn_def)
next
  case (Cons a p)
  have in_object: "sorted_wrt (<) (map fst v)" if "j = JObject v" for v using that Cons.prems(2) by simp
  from Cons.prems(1) show ?case
  proof (cases rule: json_patch_cases)
    case (member v j'')
    from member(3) show ?thesis
      by (cases rule: json_member_cases) (use member assms(3,4) extractImpl_setImpl [OF in_object] in \<open>auto simp: adds_def\<close>)
  next
    case (child v c s)
    then have "document c" using Cons.prems(2) document_child by blast
    then show ?thesis using child Cons.IH [OF child(4)] Cons.prems(3) extractImpl_setImpl [OF in_object] by auto
  next
    case (create v s)
    then show ?thesis
      using Cons.IH [OF create(5)] Cons.prems(3) extractImpl_setImpl [OF Object_setImpl_sorted(1) [OF in_object]] by auto
  next
    case (element v i j'')
    then have a: "parseInt a = Some (int i)" "i \<le> length v" "\<not> adds op \<Longrightarrow> i < length v"
      using array_index_Inr [OF element(3)] Cons.prems(3) by auto
    from element(4) show ?thesis
      by (cases rule: json_element_cases) (use element a assms(3,4) in \<open>auto simp: adds_def insert_at_eq nth_append\<close>)
  next
    case (inner v i s)
    have "document (v ! i)" using Cons.prems(2) inner by simp
    moreover have "parseInt a = Some (int i)" using array_index_Inr [OF inner(3)] Cons.prems(3) by auto
    ultimately show ?thesis using inner Cons.IH [OF inner(5)] Cons.prems(3) by simp
  qed
qed

lemma json_patch_test:
  assumes "json_patch (Some j) ptr value PatchOpTest = Some (Inr (Some j'))"
  shows "j' = j"
  using assms
proof (induction ptr arbitrary: j j')
  case Nil
  then show ?case by (auto simp: json_test_def ereturn_def ebind_def bind_eq_Some_conv split: option.splits if_splits)
next
  case (Cons a p)
  from Cons.prems show ?case
    by (cases rule: json_patch_cases)
      (auto elim!: json_member_cases json_element_cases simp: adds_def Object_setImpl_id dest!: Cons.IH)
qed

text \<open>An operation changes the object or array that holds its target as it would change it alone.\<close>

lemma json_patch_local:
  assumes "json_patch (Some j) (p @ [a]) value op = Some (Inr (Some j'))" and "document j" and "extractImpl j p = ereturn c"
    and "str ''-'' \<notin> set p" and "\<And>x. value = Some x \<Longrightarrow> document x"
  shows "\<exists>c'. json_patch (Some c) [a] value op = Some (Inr (Some c')) \<and> extractImpl j' p = ereturn c'"
  using assms(1-4)
proof (induction p arbitrary: j j')
  case Nil
  then have "document j'" using json_patch_document [OF Nil.prems(1,2)] assms(5) by blast
  then show ?case using Nil by (simp add: ereturn_def)
next
  case (Cons b p)
  have rest: "p @ [a] \<noteq> []" by simp
  from Cons.prems(1)[unfolded append_Cons] show ?case
  proof (cases rule: json_patch_cases)
    case (child v d s)
    have sorted: "sorted_wrt (<) (map fst v)" using child Cons.prems(2) by simp
    have "document d" using child Cons.prems(2) document_child by blast
    then have "\<exists>c'. json_patch (Some c) [a] value op = Some (Inr (Some c')) \<and> extractImpl s p = ereturn c'"
      using child Cons.prems(3,4) by (intro Cons.IH [OF child(4)]) auto
    then show ?thesis using child extractImpl_setImpl [OF sorted] by auto
  next
    case (create v s)
    then show ?thesis using Cons.prems(3) by (simp add: ereturn_def)
  next
    case (inner v i s)
    have b: "parseInt b = Some (int i)" using array_index_Inr [OF inner(3)] Cons.prems(4) by auto
    then have "\<exists>c'. json_patch (Some c) [a] value op = Some (Inr (Some c')) \<and> extractImpl s p = ereturn c'"
      using inner Cons.prems(2-4) by (intro Cons.IH [OF inner(5)]) auto
    then show ?thesis using inner b by auto
  qed auto
qed

text \<open>Only additions can panic.\<close>

lemma compare_document: "document a \<Longrightarrow> document b \<Longrightarrow> \<exists>c. compare a b = Some c"
  using compare_meaning [of "\<lambda>_. 0" a b] by (auto simp: document_def)

lemma json_test_total:
  assumes "document m" and "\<And>x. value = Some x \<Longrightarrow> document x"
  shows "json_test m value r \<noteq> None"
proof (cases "value")
  case (Some b)
  then obtain c where "compare m b = Some c" using assms compare_document by blast
  then show ?thesis using Some by (simp add: json_test_def ereturn_def)
qed (simp add: json_test_def)

lemma json_patch_nil: "json_patch (Some j) (a # p) value op \<noteq> Some (Inr None)"
  using json_patch_cases [of j a p "value" op None] by blast

declare json_patch.simps(3) [simp del]

lemma ebind_ereturn_total: "m \<noteq> None \<Longrightarrow> ebind m (\<lambda>x. ereturn (f x)) \<noteq> None"
  by (auto simp: ebind_def ereturn_def split: sum.split)

lemma json_patch_total:
  assumes "document j" and "\<And>x. value = Some x \<Longrightarrow> document x" and "op = PatchOpReplace \<Longrightarrow> value \<noteq> None" and "\<not> adds op"
  shows "json_patch (Some j) ptr value op \<noteq> None"
  using assms(1)
proof (induction ptr arbitrary: j)
  case Nil
  then have "json_test j value j \<noteq> None" by (rule json_test_total) (rule assms(2))
  then show ?case by (auto simp: ereturn_def ebind_def split: PatchOp.split option.splits sum.splits)
next
  case (Cons a p)
  have total: "document m \<Longrightarrow> json_test m value r \<noteq> None" for m r by (rule json_test_total) (auto intro: assms(2))
  have deep: "ebind (json_patch (Some d) p value op) (\<lambda>sv. elift (map_option f sv)) \<noteq> None" if "p \<noteq> []" "document d" for d f
  proof -
    have "json_patch (Some d) p value op \<noteq> Some (Inr None)" using that(1) json_patch_nil by (metis neq_Nil_conv)
    then show ?thesis using Cons.IH [OF that(2)] by (auto simp: ebind_def elift_def split: sum.split option.splits)
  qed
  show ?case
  proof (cases j)
    case (JArray v)
    have "json_element v i value op \<noteq> None" if "i < length v" for i
      using that assms(3,4) total [of "v ! i" "JArray v"] Cons.prems JArray
      by (auto simp: json_element_def elift_def ereturn_def adds_def split: PatchOp.split)
    then have "ebind (json_element v i value op) (\<lambda>j. ereturn (Some j)) \<noteq> None" if "i < length v" for i
      using that by (intro ebind_ereturn_total)
    moreover have "ebind (json_patch (Some (v ! i)) p value op) (\<lambda>sv. elift (map_option (\<lambda>s. Some (JArray (v[i := s]))) sv)) \<noteq> None"
      if "p \<noteq> []" "i < length v" for i using that JArray Cons.prems by (intro deep) auto
    moreover have "i < length v" if "array_index v a op = Inr i" for i using that array_index_Inr(2) assms(4) by blast
    ultimately show ?thesis
      using JArray by (cases "array_index v a op") (simp_all add: json_patch.simps(3) del: not_None_eq)
  next
    case (JObject v)
    have "json_member v a value op \<noteq> None"
      using assms(3,4) total [of _ "JObject v"] document_child [OF Cons.prems [unfolded JObject]]
      by (auto simp: json_member_def elift_def ereturn_def adds_def split: PatchOp.split option.split)
    then have "ebind (json_member v a value op) (\<lambda>j. ereturn (Some j)) \<noteq> None" by (rule ebind_ereturn_total)
    moreover have "ebind (json_patch (Some c) p value op) (\<lambda>sv. elift (map_option (\<lambda>s. Some (JObject (Object_setImpl v a s))) sv)) \<noteq> None"
      if "p \<noteq> []" "Object_valueImpl v a = Some c" for c
      using that document_child [OF Cons.prems [unfolded JObject]] by (intro deep) auto
    moreover have "op \<noteq> PatchOpCreate" using assms(4) by (simp add: adds_def)
    ultimately show ?thesis
      using JObject by (cases "Object_valueImpl v a") (simp_all add: json_patch.simps(3) del: not_None_eq)
  qed (auto simp: json_patch.simps(3))
qed

lemma extractImpl_document:
  assumes "document j" and "extractImpl j p = Some (Inr c)"
  shows "document c"
  using assms
proof (induction p arbitrary: j)
  case Nil
  then show ?case by (simp add: ereturn_def)
next
  case (Cons a p)
  have "\<exists>d. document d \<and> extractImpl d p = Some (Inr c)"
  proof (cases j)
    case (JArray v)
    then show ?thesis using Cons.prems by (auto simp: split: option.splits if_splits intro!: exI [of _ "v ! nat _"])
  next
    case (JObject v)
    then show ?thesis using Cons.prems document_child [of v a] by (auto split: option.splits)
  qed (use Cons.prems in auto)
  then show ?case using Cons.IH by blast
qed

section \<open>Properties\<close>

text \<open>An operation that succeeds on a document gives a document.  An added or replaced value is what the pointer then
  leads to, an operation changes the object or array around its target as it would change it alone, and every pointer
  apart from the target leads to the same value as before; a test changes nothing.\<close>

lemma json_patch_effect:
  assumes "json_patch (Some j) ptr value op = Some (Inr (Some j'))" and "document j" and "\<forall>x. value = Some x \<longrightarrow> document x"
  shows "document j' \<and>
    (str ''-'' \<notin> set ptr \<and> (adds op \<or> op = PatchOpReplace) \<longrightarrow> (\<forall>x. value = Some x \<longrightarrow> extractImpl j' ptr = ereturn x)) \<and>
    (\<forall>p a c. ptr = p @ [a] \<and> str ''-'' \<notin> set p \<and> extractImpl j p = ereturn c \<longrightarrow>
      (\<exists>c'. json_patch (Some c) [a] value op = Some (Inr (Some c')) \<and> extractImpl j' p = ereturn c')) \<and>
    (\<forall>q. apart op j ptr q \<longrightarrow> extractImpl j' q = extractImpl j q) \<and>
    (op = PatchOpTest \<longrightarrow> j' = j)"
proof (intro conjI allI impI; (elim conjE)?)
  show "document j'" using assms(3) by (intro json_patch_document [OF assms(1,2)]) blast
next
  fix x assume "str ''-'' \<notin> set ptr" "adds op \<or> op = PatchOpReplace" "value = Some x"
  then show "extractImpl j' ptr = ereturn x" using json_patch_stores assms by blast
next
  fix p a c assume "ptr = p @ [a]" "str ''-'' \<notin> set p" "extractImpl j p = ereturn c"
  then show "\<exists>c'. json_patch (Some c) [a] value op = Some (Inr (Some c')) \<and> extractImpl j' p = ereturn c'"
    using json_patch_local assms by blast
next
  fix q assume "apart op j ptr q"
  then show "extractImpl j' q = extractImpl j q" using json_patch_apart assms by blast
next
  assume "op = PatchOpTest"
  then show "j' = j" using json_patch_test assms(1) by blast
qed

text \<open>An array below a member of an object.\<close>

definition ex_doc :: json where
  "ex_doc = JObject [(str ''a'', JArray [JNull, JBool True]), (str ''b'', JNull)]"

definition ex_path :: "gostring list" where
  "ex_path = [str ''a'', str ''1'']"

lemma ex_doc_facts:
  "json_patch (Some ex_doc) ex_path (Some (JBool False)) PatchOpAdd =
     Some (Inr (Some (JObject [(str ''a'', JArray [JNull, JBool False, JBool True]), (str ''b'', JNull)])))"
  "str ''-'' \<notin> set ex_path" "apart PatchOpAdd ex_doc ex_path [str ''a'', str ''0'']"
  by code_simp+

lemma ex_doc_document: "document ex_doc"
proof -
  have "sorted_wrt (<) [str ''a'', str ''b'']" by code_simp
  then show ?thesis by (simp add: ex_doc_def)
qed

text \<open>Replacing, removing and testing never panic on a document: they return a document or an error.\<close>

theorem json_patch_no_panic:
  assumes "document j" and "\<forall>x. value = Some x \<longrightarrow> document x" and "op = PatchOpReplace \<longrightarrow> value \<noteq> None" and "\<not> adds op"
  shows "json_patch (Some j) ptr value op \<noteq> None"
  using assms by (intro json_patch_total) auto

theorem json_patch_no_panic_witness: "json_patch (Some ex_doc) [str ''a'', str ''-'', str ''b''] None PatchOpRemove \<noteq> None"
  using json_patch_no_panic [of ex_doc None PatchOpRemove] ex_doc_document by (simp add: adds_def)

text \<open>Every operation of a patch that was read has the operands its kind needs: a value to add, replace, create or
  test, and no value to remove, copy and move.\<close>

theorem NewPatch_operands:
  assumes "NewPatch New spec = Inr patch" and "u \<in> set patch"
  shows "opValue u \<noteq> None \<longleftrightarrow> opOp u \<in> {PatchOpAdd, PatchOpReplace, PatchOpTest, PatchOpCreate}"
  using assms
proof (induction spec arbitrary: patch)
  case (Cons m spec)
  then obtain v patch' where v: "newOpFromMap New m = Inr v" "NewPatch New spec = Inr patch'" "patch = v # patch'"
    by (auto split: sum.splits)
  have "opValue v \<noteq> None \<longleftrightarrow> opOp v \<in> {PatchOpAdd, PatchOpReplace, PatchOpTest, PatchOpCreate}"
    using v(1) by (auto simp: newOpFromMap_def split: sum.splits option.splits if_splits)
  then show ?case using Cons v by auto
qed simp

theorem NewPatch_operands_witness:
  "\<exists>u. NewPatch (\<lambda>_ :: unit. Inl []) [[str ''op'' \<mapsto> AnyString (str ''add''), str ''path'' \<mapsto> AnyString [], str ''value'' \<mapsto> AnyJson JNull]] = Inr [u] \<and>
     opValue u \<noteq> None \<and> opOp u = PatchOpAdd"
proof -
  let ?u = "\<lparr>opValue = Some JNull, opOp = PatchOpAdd, opPath = [], opFrom = []\<rparr>"
    and ?spec = "[[str ''op'' \<mapsto> AnyString (str ''add''), str ''path'' \<mapsto> AnyString [], str ''value'' \<mapsto> AnyJson JNull]]"
  have "NewPatch (\<lambda>_ :: unit. Inl []) ?spec = Inr [?u]" by code_simp
  then show ?thesis using NewPatch_operands [of "\<lambda>_ :: unit. Inl []" ?spec "[?u]" ?u] by auto
qed

end
