(* ===== verification/Json_Heap.thy ===== *)
theory Json_Heap
  imports Json_Patch
begin

text \<open>
  Arrays and objects in memory (src/pkg/json: array.go, array_strings.go, object.go, object_strings.go, and
  \<open>ArraySlice\<close>, \<open>ObjectMap\<close> and the binary values of json.go).  They are changed in place, several values may share
  one of them, and the names of an object may share the array behind them with the names of another object, so
  they are cells of an explicit heap, and Go slices are a position and a length in an array of the heap.

  Binary arrays and objects read their elements from a buffer and never change: they are plain JSON values, like
  scalars.  The empty array that all constructors share is a new cell every time: it has no room for an element, so
  it never changes.
\<close>

section \<open>Go slices\<close>

text \<open>A slice: the array behind it, its first position and its length.  Its capacity is what remains of the array.\<close>

datatype slice = Slice (base: nat) (off: nat) (len: nat)

definition slice_get :: "'a list list \<Rightarrow> slice \<Rightarrow> 'a list" where
  "slice_get arrs s = take (len s) (drop (off s) (arrs ! base s))"

definition slice_cap :: "'a list list \<Rightarrow> slice \<Rightarrow> nat" where
  "slice_cap arrs s = length (arrs ! base s) - off s"

definition make_slice :: "'a list \<Rightarrow> 'a list list \<Rightarrow> slice \<times> 'a list list" where
  "make_slice xs arrs = (Slice (length arrs) 0 (length xs), arrs @ [xs])"

text \<open>\<open>append\<close> writes into the array if its capacity allows it, otherwise it copies to a new array, with the capacity
  that \<open>grow\<close> chooses from the old capacity and the new length.\<close>

definition append_slice :: "(nat \<Rightarrow> nat \<Rightarrow> nat) \<Rightarrow> 'a \<Rightarrow> slice \<Rightarrow> 'a list \<Rightarrow> 'a list list \<Rightarrow> slice \<times> 'a list list" where
  "append_slice grow zero s xs arrs =
     (let arr = arrs ! base s; n = len s + length xs; e = off s + len s
      in if n \<le> slice_cap arrs s then
           (Slice (base s) (off s) n, arrs[base s := take e arr @ xs @ drop (e + length xs) arr])
         else
           (Slice (length arrs) 0 n, arrs @ [slice_get arrs s @ xs @ replicate (grow (slice_cap arrs s) n - n) zero]))"

text \<open>Changing the elements of a slice, in the array behind it.\<close>

definition slice_put :: "slice \<Rightarrow> 'a list \<Rightarrow> 'a list list \<Rightarrow> 'a list list" where
  "slice_put s xs arrs =
     (let arr = arrs ! base s in arrs[base s := take (off s) arr @ xs @ drop (off s + length xs) arr])"

section \<open>The heap\<close>

text \<open>A value: \<open>nil\<close>, one that never changes, or a pointer to a cell.\<close>

datatype fval = FNil | FVal json | FRef nat

datatype cell =
    ArraySlice slice
  | ArrayCompact nat "fval list"
  | ArrayStrings nat "gostring list"
  | ObjectMap slice "fval list"
  | ObjectCompact slice "fval list"
  | ObjectStrings slice "gostring list"

record heap =
  cells :: "cell list"
  names :: "gostring list list"
  files :: "fval list list"

definition alloc :: "cell \<Rightarrow> heap \<Rightarrow> fval \<times> heap" where
  "alloc c h = (FRef (length (cells h)), h\<lparr>cells := cells h @ [c]\<rparr>)"

definition put :: "nat \<Rightarrow> cell \<Rightarrow> heap \<Rightarrow> heap" where
  "put r c h = h\<lparr>cells := (cells h)[r := c]\<rparr>"

definition string_value :: "fval \<Rightarrow> gostring option" where
  "string_value v = (case v of FVal (JString s) \<Rightarrow> Some s | _ \<Rightarrow> None)"

definition all_strings :: "fval list \<Rightarrow> gostring list option" where
  "all_strings vs = those (map string_value vs)"

definition FString :: "gostring \<Rightarrow> fval" where
  "FString s = FVal (JString s)"

text \<open>The kinds of values that the code distinguishes.\<close>

definition is_array :: "heap \<Rightarrow> fval \<Rightarrow> bool" where
  "is_array h v = (case v of
     FNil \<Rightarrow> False
   | FVal j \<Rightarrow> (case j of JArray _ \<Rightarrow> True | _ \<Rightarrow> False)
   | FRef r \<Rightarrow> (case cells h ! r of ArraySlice _ \<Rightarrow> True | ArrayCompact _ _ \<Rightarrow> True | ArrayStrings _ _ \<Rightarrow> True | _ \<Rightarrow> False))"

definition is_obj_val :: "heap \<Rightarrow> fval \<Rightarrow> bool" where
  "is_obj_val h v = (case v of
     FNil \<Rightarrow> False
   | FVal j \<Rightarrow> (case j of JObject _ \<Rightarrow> True | _ \<Rightarrow> False)
   | FRef r \<Rightarrow> (case cells h ! r of ObjectMap _ _ \<Rightarrow> True | ObjectCompact _ _ \<Rightarrow> True | ObjectStrings _ _ \<Rightarrow> True | _ \<Rightarrow> False))"

text \<open>The elements of an array, the names and values of an object.\<close>

definition cell_elements :: "heap \<Rightarrow> cell \<Rightarrow> fval list" where
  "cell_elements h c = (case c of
     ArraySlice s \<Rightarrow> slice_get (files h) s
   | ArrayCompact _ es \<Rightarrow> es
   | ArrayStrings _ ss \<Rightarrow> map FString ss
   | _ \<Rightarrow> [])"

definition elements :: "heap \<Rightarrow> fval \<Rightarrow> fval list" where
  "elements h a = (case a of FRef r \<Rightarrow> cell_elements h (cells h ! r) | FVal (JArray js) \<Rightarrow> map FVal js | _ \<Rightarrow> [])"

definition cell_names :: "heap \<Rightarrow> cell \<Rightarrow> gostring list" where
  "cell_names h c = (case c of
     ObjectMap s _ \<Rightarrow> slice_get (names h) s
   | ObjectCompact s _ \<Rightarrow> slice_get (names h) s
   | ObjectStrings s _ \<Rightarrow> slice_get (names h) s
   | _ \<Rightarrow> [])"

definition cell_values :: "cell \<Rightarrow> fval list" where
  "cell_values c = (case c of ObjectMap _ vs \<Rightarrow> vs | ObjectCompact _ vs \<Rightarrow> vs | ObjectStrings _ ss \<Rightarrow> map FString ss | _ \<Rightarrow> [])"

definition Names :: "heap \<Rightarrow> fval \<Rightarrow> gostring list" where
  "Names h o' = (case o' of FRef r \<Rightarrow> cell_names h (cells h ! r) | FVal (JObject kvs) \<Rightarrow> map fst kvs | _ \<Rightarrow> [])"

definition members :: "heap \<Rightarrow> fval \<Rightarrow> (gostring \<times> fval) list" where
  "members h ob = (case ob of
     FRef r \<Rightarrow> zip (cell_names h (cells h ! r)) (cell_values (cells h ! r))
   | FVal (JObject kvs) \<Rightarrow> map (\<lambda>(k, v). (k, FVal v)) kvs
   | _ \<Rightarrow> [])"

section \<open>Arrays\<close>

text \<open>\<open>NewArray\<close> takes the slice over if it does not copy it.\<close>

definition NewArray :: "slice \<Rightarrow> nat \<Rightarrow> heap \<Rightarrow> (fval \<times> heap) option" where
  "NewArray s cap h =
     (let es = slice_get (files h) s; n = length es
      in case (if n = 0 \<or> 32 < n then None else all_strings es) of
        Some ss \<Rightarrow>
          if 0 < cap \<and> cap \<le> 32 then (if n \<le> cap then Some (alloc (ArrayStrings cap ss) h) else None)
          else Some (alloc (ArraySlice s) h)
      | None \<Rightarrow>
          if cap \<le> 32 then (if n \<le> cap then Some (alloc (ArrayCompact cap es) h) else if cap = 0 then Some (alloc (ArrayCompact 0 []) h) else None)
          else Some (alloc (ArraySlice s) h))"

definition new_array :: "fval list \<Rightarrow> nat \<Rightarrow> heap \<Rightarrow> (fval \<times> heap) option" where
  "new_array es cap h = (let (s, fs) = make_slice es (files h) in NewArray s cap (h\<lparr>files := fs\<rparr>))"

text \<open>The smallest power of two that is not below \<open>m\<close>, by doubling.\<close>

function doubled :: "nat \<Rightarrow> nat \<Rightarrow> nat" where
  "doubled p m = (if 0 < p \<and> p < m then doubled (p * 2) m else p)"
  by pat_completeness auto
termination by (relation "measure (\<lambda>(p, m). m - p)") auto

declare doubled.simps [simp del]

definition compact_append :: "fval list \<Rightarrow> fval list \<Rightarrow> heap \<Rightarrow> (fval \<times> heap) option" where
  "compact_append es xs h = new_array (es @ xs) (doubled 1 (length es + length xs)) h"

definition ArraySlice_Append :: "(nat \<Rightarrow> nat \<Rightarrow> nat) \<Rightarrow> nat \<Rightarrow> slice \<Rightarrow> fval list \<Rightarrow> heap \<Rightarrow> (fval \<times> heap) option" where
  "ArraySlice_Append grow r s xs h =
     (let (s', fs) = append_slice grow FNil s xs (files h) in Some (FRef r, put r (ArraySlice s') (h\<lparr>files := fs\<rparr>)))"

definition ArraySliceCompact_Append :: "nat \<Rightarrow> nat \<Rightarrow> fval list \<Rightarrow> fval list \<Rightarrow> heap \<Rightarrow> (fval \<times> heap) option" where
  "ArraySliceCompact_Append r cap es xs h =
     (if length es + length xs \<le> cap then Some (FRef r, put r (ArrayCompact cap (es @ xs)) h) else compact_append es xs h)"

definition ArraySliceCompactStrings_Append :: "nat \<Rightarrow> nat \<Rightarrow> gostring list \<Rightarrow> fval list \<Rightarrow> heap \<Rightarrow> (fval \<times> heap) option" where
  "ArraySliceCompactStrings_Append r cap ss xs h =
     (case (if length ss + length xs \<le> cap then all_strings xs else None) of
        Some ts \<Rightarrow> Some (FRef r, put r (ArrayStrings cap (ss @ ts)) h)
      | None \<Rightarrow> compact_append (map FString ss) xs h)"

definition ArrayBinary_clone :: "json list \<Rightarrow> heap \<Rightarrow> (fval \<times> heap) option" where
  "ArrayBinary_clone js h = new_array (map FVal js) (length js) h"

definition Append_cell :: "(nat \<Rightarrow> nat \<Rightarrow> nat) \<Rightarrow> nat \<Rightarrow> fval list \<Rightarrow> heap \<Rightarrow> (fval \<times> heap) option" where
  "Append_cell grow r xs h = (case cells h ! r of
     ArraySlice s \<Rightarrow> ArraySlice_Append grow r s xs h
   | ArrayCompact cap es \<Rightarrow> ArraySliceCompact_Append r cap es xs h
   | ArrayStrings cap ss \<Rightarrow> ArraySliceCompactStrings_Append r cap ss xs h
   | _ \<Rightarrow> None)"

definition Array_Append :: "(nat \<Rightarrow> nat \<Rightarrow> nat) \<Rightarrow> fval \<Rightarrow> fval list \<Rightarrow> heap \<Rightarrow> (fval \<times> heap) option" where
  "Array_Append grow a xs h = (case a of
     FRef r \<Rightarrow> Append_cell grow r xs h
   | FVal (JArray js) \<Rightarrow> do {
       (b, h) \<leftarrow> ArrayBinary_clone js h;
       case b of FRef r \<Rightarrow> Append_cell grow r xs h | _ \<Rightarrow> None }
   | _ \<Rightarrow> None)"

definition Array_Len :: "heap \<Rightarrow> fval \<Rightarrow> nat" where
  "Array_Len h a = length (elements h a)"

definition Array_Value :: "heap \<Rightarrow> fval \<Rightarrow> int \<Rightarrow> fval option" where
  "Array_Value h a i = (if i < 0 \<or> int (Array_Len h a) \<le> i then None else Some (elements h a ! nat i))"

text \<open>\<open>Slice\<close> of a slice is a part of the same array; of the others, a copy.\<close>

definition ArraySlice_Slice :: "slice \<Rightarrow> nat \<Rightarrow> nat \<Rightarrow> heap \<Rightarrow> (fval \<times> heap) option" where
  "ArraySlice_Slice s i j h = NewArray (Slice (base s) (off s + i) (j - i)) (j - i) h"

definition ArraySliceCompact_Slice :: "fval list \<Rightarrow> nat \<Rightarrow> nat \<Rightarrow> heap \<Rightarrow> (fval \<times> heap) option" where
  "ArraySliceCompact_Slice es i j h = new_array (take (j - i) (drop i es)) (j - i) h"

definition ArraySliceCompactStrings_Slice :: "gostring list \<Rightarrow> nat \<Rightarrow> nat \<Rightarrow> heap \<Rightarrow> (fval \<times> heap) option" where
  "ArraySliceCompactStrings_Slice ss i j h = new_array (map FString (take (j - i) (drop i ss))) (j - i) h"

definition Slice_cell :: "nat \<Rightarrow> nat \<Rightarrow> nat \<Rightarrow> heap \<Rightarrow> (fval \<times> heap) option" where
  "Slice_cell r i j h = (case cells h ! r of
     ArraySlice s \<Rightarrow> ArraySlice_Slice s i j h
   | ArrayCompact _ es \<Rightarrow> ArraySliceCompact_Slice es i j h
   | ArrayStrings _ ss \<Rightarrow> ArraySliceCompactStrings_Slice ss i j h
   | _ \<Rightarrow> None)"

definition Array_Slice :: "fval \<Rightarrow> nat \<Rightarrow> nat \<Rightarrow> heap \<Rightarrow> (fval \<times> heap) option" where
  "Array_Slice a i j h =
     (if i \<le> j \<and> j \<le> Array_Len h a then
        (case a of
           FRef r \<Rightarrow> Slice_cell r i j h
         | FVal (JArray js) \<Rightarrow> do {
             (b, h) \<leftarrow> ArrayBinary_clone js h;
             case b of FRef r \<Rightarrow> Slice_cell r i j h | _ \<Rightarrow> None }
         | _ \<Rightarrow> None)
      else None)"

definition ArraySlice_RemoveIdx :: "nat \<Rightarrow> slice \<Rightarrow> nat \<Rightarrow> heap \<Rightarrow> (fval \<times> heap) option" where
  "ArraySlice_RemoveIdx r s i h =
     (if i < len s then
        let es = slice_get (files h) s
        in Some (FRef r, put r (ArraySlice (Slice (base s) (off s) (len s - 1)))
             (h\<lparr>files := slice_put s (take i es @ drop (i + 1) es @ [FNil]) (files h)\<rparr>))
      else None)"

text \<open>The compact arrays do not check the index: an array of one element becomes empty, an index past the end
  drops the last element.\<close>

definition removed_at :: "'a list \<Rightarrow> nat \<Rightarrow> 'a list" where
  "removed_at es i = (if i < length es then take i es @ drop (i + 1) es else butlast es)"

definition ArraySliceCompact_RemoveIdx :: "nat \<Rightarrow> nat \<Rightarrow> fval list \<Rightarrow> nat \<Rightarrow> heap \<Rightarrow> (fval \<times> heap) option" where
  "ArraySliceCompact_RemoveIdx r cap es i h =
     (if length es = 1 then Some (alloc (ArrayCompact 0 []) h)
      else if es = [] then None else Some (FRef r, put r (ArrayCompact cap (removed_at es i)) h))"

definition ArraySliceCompactStrings_RemoveIdx :: "nat \<Rightarrow> nat \<Rightarrow> gostring list \<Rightarrow> nat \<Rightarrow> heap \<Rightarrow> (fval \<times> heap) option" where
  "ArraySliceCompactStrings_RemoveIdx r cap ss i h =
     (if length ss = 1 then Some (alloc (ArrayCompact 0 []) h)
      else if ss = [] then None else Some (FRef r, put r (ArrayStrings cap (removed_at ss i)) h))"

definition RemoveIdx_cell :: "nat \<Rightarrow> nat \<Rightarrow> heap \<Rightarrow> (fval \<times> heap) option" where
  "RemoveIdx_cell r i h = (case cells h ! r of
     ArraySlice s \<Rightarrow> ArraySlice_RemoveIdx r s i h
   | ArrayCompact cap es \<Rightarrow> ArraySliceCompact_RemoveIdx r cap es i h
   | ArrayStrings cap ss \<Rightarrow> ArraySliceCompactStrings_RemoveIdx r cap ss i h
   | _ \<Rightarrow> None)"

definition Array_RemoveIdx :: "fval \<Rightarrow> nat \<Rightarrow> heap \<Rightarrow> (fval \<times> heap) option" where
  "Array_RemoveIdx a i h = (case a of
     FRef r \<Rightarrow> RemoveIdx_cell r i h
   | FVal (JArray js) \<Rightarrow> do {
       (b, h) \<leftarrow> ArrayBinary_clone js h;
       case b of FRef r \<Rightarrow> RemoveIdx_cell r i h | _ \<Rightarrow> None }
   | _ \<Rightarrow> None)"

definition ArraySlice_SetIdx :: "nat \<Rightarrow> slice \<Rightarrow> nat \<Rightarrow> fval \<Rightarrow> heap \<Rightarrow> (fval \<times> heap) option" where
  "ArraySlice_SetIdx r s i v h =
     (if length (slice_get (files h) s) \<le> i then None
      else Some (FRef r, h\<lparr>files := slice_put s ((slice_get (files h) s)[i := v]) (files h)\<rparr>))"

definition ArraySliceCompact_SetIdx :: "nat \<Rightarrow> nat \<Rightarrow> fval list \<Rightarrow> nat \<Rightarrow> fval \<Rightarrow> heap \<Rightarrow> (fval \<times> heap) option" where
  "ArraySliceCompact_SetIdx r cap es i v h =
     (if length es \<le> i then None else Some (FRef r, put r (ArrayCompact cap (es[i := v])) h))"

definition ArraySliceCompactStrings_SetIdx :: "nat \<Rightarrow> nat \<Rightarrow> gostring list \<Rightarrow> nat \<Rightarrow> fval \<Rightarrow> heap \<Rightarrow> (fval \<times> heap) option" where
  "ArraySliceCompactStrings_SetIdx r cap ss i v h =
     (if length ss \<le> i then None
      else case string_value v of
        Some s \<Rightarrow> Some (FRef r, put r (ArrayStrings cap (ss[i := s])) h)
      | None \<Rightarrow> new_array ((map FString ss)[i := v]) (length ss) h)"

definition SetIdx_cell :: "nat \<Rightarrow> nat \<Rightarrow> fval \<Rightarrow> heap \<Rightarrow> (fval \<times> heap) option" where
  "SetIdx_cell r i v h = (case cells h ! r of
     ArraySlice s \<Rightarrow> ArraySlice_SetIdx r s i v h
   | ArrayCompact cap es \<Rightarrow> ArraySliceCompact_SetIdx r cap es i v h
   | ArrayStrings cap ss \<Rightarrow> ArraySliceCompactStrings_SetIdx r cap ss i v h
   | _ \<Rightarrow> None)"

definition Array_SetIdx :: "fval \<Rightarrow> nat \<Rightarrow> fval \<Rightarrow> heap \<Rightarrow> (fval \<times> heap) option" where
  "Array_SetIdx a i v h = (case a of
     FRef r \<Rightarrow> SetIdx_cell r i v h
   | FVal (JArray js) \<Rightarrow> do {
       (b, h) \<leftarrow> ArrayBinary_clone js h;
       case b of FRef r \<Rightarrow> SetIdx_cell r i v h | _ \<Rightarrow> None }
   | _ \<Rightarrow> None)"

section \<open>Objects\<close>

text \<open>\<open>intern\<close>: with a table of names, an object gets the names of an earlier object with the same names.\<close>

definition new_names :: "gostring list \<Rightarrow> heap \<Rightarrow> slice \<times> heap" where
  "new_names ks h = (let (s, ns) = make_slice ks (names h) in (s, h\<lparr>names := ns\<rparr>))"

definition intern :: "gostring list \<Rightarrow> (gostring list \<rightharpoonup> slice) option \<Rightarrow> heap \<Rightarrow> slice \<times> (gostring list \<rightharpoonup> slice) option \<times> heap" where
  "intern ks keys h = (case keys of
     None \<Rightarrow> (let (s, h) = new_names ks h in (s, None, h))
   | Some t \<Rightarrow> (case t ks of
       Some s \<Rightarrow> (s, keys, h)
     | None \<Rightarrow> (let (s, h) = new_names ks h in (s, Some (t(ks \<mapsto> s)), h))))"

text \<open>New objects, from their members in the order of the names.\<close>

definition newObjectImpl :: "(gostring \<times> fval) list \<Rightarrow> (gostring list \<rightharpoonup> slice) option \<Rightarrow> heap \<Rightarrow> fval \<times> (gostring list \<rightharpoonup> slice) option \<times> heap" where
  "newObjectImpl kvs interning h =
     (let (s, interning, h) = intern (map fst kvs) interning h; (ob, h) = alloc (ObjectMap s (map snd kvs)) h in (ob, interning, h))"

definition NewObject :: "(gostring \<times> fval) list \<Rightarrow> heap \<Rightarrow> fval \<times> heap" where
  "NewObject kvs h = (let (ob, _, h) = newObjectImpl kvs None h in (ob, h))"

definition NewObjectMapCompact :: "(gostring \<times> fval) list \<Rightarrow> (gostring list \<rightharpoonup> slice) option \<Rightarrow> heap \<Rightarrow> fval \<times> (gostring list \<rightharpoonup> slice) option \<times> heap" where
  "NewObjectMapCompact kvs interning h =
     (let n = length kvs; (s, interning', h') = intern (map fst kvs) interning h
      in case (if n = 0 \<or> 32 < n then None else all_strings (map snd kvs)) of
        Some ss \<Rightarrow> (let (ob, h) = alloc (ObjectStrings s ss) h' in (ob, interning', h))
      | None \<Rightarrow>
          if n = 0 then (let (s, h) = new_names [] h; (ob, h) = alloc (ObjectCompact s []) h in (ob, interning, h))
          else if n \<le> 32 then (let (ob, h) = alloc (ObjectCompact s (map snd kvs)) h' in (ob, interning', h))
          else newObjectImpl kvs interning h)"

definition Object_value :: "heap \<Rightarrow> fval \<Rightarrow> gostring \<Rightarrow> fval" where
  "Object_value h ob name = (case Object_valueImpl (members h ob) name of Some v \<Rightarrow> v | None \<Rightarrow> FNil)"

text \<open>\<open>setImpl\<close> of \<open>ObjectMap\<close>: the name is appended to the names and moved to its place, which changes the array
  behind the names if there is room in it.\<close>

definition insert_name :: "(nat \<Rightarrow> nat \<Rightarrow> nat) \<Rightarrow> slice \<Rightarrow> nat \<Rightarrow> gostring \<Rightarrow> heap \<Rightarrow> slice \<times> heap" where
  "insert_name grow s i name h =
     (let (curr, ns) = append_slice grow [] s [name] (names h);
          ks = slice_get ns curr;
          ns = slice_put curr (take (i + 1) ks @ take (length ks - (i + 1)) (drop i ks)) ns;
          ns = slice_put curr ((slice_get ns curr)[i := name]) ns
      in (curr, h\<lparr>names := ns\<rparr>))"

definition ObjectMap_setImpl :: "(nat \<Rightarrow> nat \<Rightarrow> nat) \<Rightarrow> nat \<Rightarrow> slice \<Rightarrow> fval list \<Rightarrow> gostring \<Rightarrow> fval \<Rightarrow> heap \<Rightarrow> fval \<times> heap" where
  "ObjectMap_setImpl grow r s vs name v h =
     (let (i, ok) = Object_find (slice_get (names h) s) name
      in if ok then (FRef r, put r (ObjectMap s (vs[i := v])) h)
         else let (s', h) = insert_name grow s i name h in (FRef r, put r (ObjectMap s' (take i vs @ v # drop i vs)) h))"

text \<open>\<open>clone\<close> of the objects in memory shares the names.\<close>

definition clone_cell :: "slice \<Rightarrow> fval list \<Rightarrow> heap \<Rightarrow> fval \<times> heap" where
  "clone_cell s vs h = alloc (ObjectMap s vs) h"

definition clone_set :: "(nat \<Rightarrow> nat \<Rightarrow> nat) \<Rightarrow> slice \<Rightarrow> fval list \<Rightarrow> gostring \<Rightarrow> fval \<Rightarrow> heap \<Rightarrow> fval \<times> heap" where
  "clone_set grow s vs name v h = (let h' = snd (clone_cell s vs h) in ObjectMap_setImpl grow (length (cells h)) s vs name v h')"

definition ObjectMapCompact_setImpl :: "(nat \<Rightarrow> nat \<Rightarrow> nat) \<Rightarrow> nat \<Rightarrow> slice \<Rightarrow> fval list \<Rightarrow> gostring \<Rightarrow> fval \<Rightarrow> heap \<Rightarrow> fval \<times> heap" where
  "ObjectMapCompact_setImpl grow r s vs name v h =
     (let (i, ok) = Object_find (slice_get (names h) s) name
      in if ok then (FRef r, put r (ObjectCompact s (vs[i := v])) h) else clone_set grow s vs name v h)"

definition ObjectMapCompactStrings_setImpl :: "(nat \<Rightarrow> nat \<Rightarrow> nat) \<Rightarrow> nat \<Rightarrow> slice \<Rightarrow> gostring list \<Rightarrow> gostring \<Rightarrow> fval \<Rightarrow> heap \<Rightarrow> fval \<times> heap" where
  "ObjectMapCompactStrings_setImpl grow r s ss name v h =
     (let (i, ok) = Object_find (slice_get (names h) s) name
      in case (if ok then string_value v else None) of
        Some t \<Rightarrow> (FRef r, put r (ObjectStrings s (ss[i := t])) h)
      | None \<Rightarrow> clone_set grow s (map FString ss) name v h)"

definition ObjectBinary_clone :: "(gostring \<times> json) list \<Rightarrow> heap \<Rightarrow> fval \<times> heap" where
  "ObjectBinary_clone kvs h = NewObject (map (\<lambda>(k, v). (k, FVal v)) kvs) h"

definition setImpl_cell :: "(nat \<Rightarrow> nat \<Rightarrow> nat) \<Rightarrow> nat \<Rightarrow> gostring \<Rightarrow> fval \<Rightarrow> heap \<Rightarrow> (fval \<times> heap) option" where
  "setImpl_cell grow r name v h = (case cells h ! r of
     ObjectMap s vs \<Rightarrow> Some (ObjectMap_setImpl grow r s vs name v h)
   | ObjectCompact s vs \<Rightarrow> Some (ObjectMapCompact_setImpl grow r s vs name v h)
   | ObjectStrings s ss \<Rightarrow> Some (ObjectMapCompactStrings_setImpl grow r s ss name v h)
   | _ \<Rightarrow> None)"

definition Object_Set :: "(nat \<Rightarrow> nat \<Rightarrow> nat) \<Rightarrow> fval \<Rightarrow> gostring \<Rightarrow> fval \<Rightarrow> heap \<Rightarrow> (fval \<times> heap) option" where
  "Object_Set grow ob name v h = (case ob of
     FRef r \<Rightarrow> setImpl_cell grow r name v h
   | FVal (JObject kvs) \<Rightarrow> (let (c, h) = ObjectBinary_clone kvs h in case c of FRef r \<Rightarrow> setImpl_cell grow r name v h | _ \<Rightarrow> None)
   | _ \<Rightarrow> None)"

text \<open>\<open>Remove\<close> gives a new object with names of its own; an \<open>ObjectMap\<close> without the name is returned as it is.\<close>

definition ObjectMap_RemoveIdx :: "slice \<Rightarrow> fval list \<Rightarrow> nat \<Rightarrow> heap \<Rightarrow> fval \<times> heap" where
  "ObjectMap_RemoveIdx s vs i h =
     (let ks = slice_get (names h) s; (s', h) = new_names (take i ks @ drop (i + 1) ks) h
      in alloc (ObjectMap s' (take i vs @ drop (i + 1) vs)) h)"

definition ObjectMap_Remove :: "nat \<Rightarrow> slice \<Rightarrow> fval list \<Rightarrow> gostring \<Rightarrow> heap \<Rightarrow> fval \<times> heap" where
  "ObjectMap_Remove r s vs name h =
     (let (i, ok) = Object_find (slice_get (names h) s) name in if ok then ObjectMap_RemoveIdx s vs i h else (FRef r, h))"

definition clone_remove :: "slice \<Rightarrow> fval list \<Rightarrow> gostring \<Rightarrow> heap \<Rightarrow> fval \<times> heap" where
  "clone_remove s vs name h = (let h' = snd (clone_cell s vs h) in ObjectMap_Remove (length (cells h)) s vs name h')"

definition Object_Remove_cell :: "nat \<Rightarrow> gostring \<Rightarrow> heap \<Rightarrow> (fval \<times> heap) option" where
  "Object_Remove_cell r name h = (case cells h ! r of
     ObjectMap s vs \<Rightarrow> Some (ObjectMap_Remove r s vs name h)
   | ObjectCompact s vs \<Rightarrow> Some (clone_remove s vs name h)
   | ObjectStrings s ss \<Rightarrow> Some (clone_remove s (map FString ss) name h)
   | _ \<Rightarrow> None)"

definition Object_Remove_val :: "fval \<Rightarrow> gostring \<Rightarrow> heap \<Rightarrow> (fval \<times> heap) option" where
  "Object_Remove_val ob name h = (case ob of
     FRef r \<Rightarrow> Object_Remove_cell r name h
   | FVal (JObject kvs) \<Rightarrow> (let (c, h) = ObjectBinary_clone kvs h in case c of FRef r \<Rightarrow> Object_Remove_cell r name h | _ \<Rightarrow> None)
   | _ \<Rightarrow> None)"

section \<open>Copies\<close>

text \<open>A copy of an array has the smallest representation, a copy of an object is an \<open>ObjectMap\<close>; binary values are not
  copied.\<close>

definition clone_array :: "cell \<Rightarrow> heap \<Rightarrow> (fval \<times> heap) option" where
  "clone_array c h = new_array (cell_elements h c) (length (cell_elements h c)) h"

definition Clone :: "fval \<Rightarrow> heap \<Rightarrow> (fval \<times> heap) option" where
  "Clone v h = (case v of
     FRef r \<Rightarrow> (case cells h ! r of
       ObjectMap s vs \<Rightarrow> Some (clone_cell s vs h)
     | ObjectCompact s vs \<Rightarrow> Some (clone_cell s vs h)
     | ObjectStrings s ss \<Rightarrow> Some (clone_cell s (map FString ss) h)
     | c \<Rightarrow> clone_array c h)
   | _ \<Rightarrow> Some (v, h))"

fun map_heap :: "('a \<Rightarrow> heap \<Rightarrow> ('b \<times> heap) option) \<Rightarrow> 'a list \<Rightarrow> heap \<Rightarrow> ('b list \<times> heap) option" where
  "map_heap f [] h = Some ([], h)"
| "map_heap f (x # xs) h = do { (y, h) \<leftarrow> f x h; (ys, h) \<leftarrow> map_heap f xs h; Some (y # ys, h) }"

text \<open>The deep copy; the fuel bounds the depth of the value.\<close>

fun Clone_deep :: "nat \<Rightarrow> fval \<Rightarrow> heap \<Rightarrow> (fval \<times> heap) option" where
  "Clone_deep 0 v h = None"
| "Clone_deep (Suc n) v h = (case v of
     FRef r \<Rightarrow> (case cells h ! r of
       ObjectMap s vs \<Rightarrow> do { (vs, h) \<leftarrow> map_heap (Clone_deep n) vs h; Some (clone_cell s vs h) }
     | ObjectCompact s vs \<Rightarrow> do { (vs, h) \<leftarrow> map_heap (Clone_deep n) vs h; Some (clone_cell s vs h) }
     | ObjectStrings s ss \<Rightarrow> Some (clone_cell s (map FString ss) h)
     | c \<Rightarrow> do { (es, h) \<leftarrow> map_heap (Clone_deep n) (cell_elements h c) h; new_array es (length es) h })
   | _ \<Rightarrow> Some (v, h))"

text \<open>What a value stands for; the fuel bounds the depth.\<close>

fun read_val :: "nat \<Rightarrow> heap \<Rightarrow> fval \<Rightarrow> json option" where
  "read_val 0 h v = None"
| "read_val (Suc n) h v = (case v of
     FNil \<Rightarrow> None
   | FVal j \<Rightarrow> Some j
   | FRef r \<Rightarrow>
       if is_array h v then map_option JArray (those (map (read_val n h) (elements h v)))
       else map_option (\<lambda>js. JObject (zip (Names h v) js)) (those (map (\<lambda>(k, w). read_val n h w) (members h v))))"

end
