(* ===== verification/Json_Heap_Correct.thy ===== *)
theory Json_Heap_Correct
  imports Json_Heap
begin

text \<open>
  The arrays and objects of \<open>Json_Heap\<close> do what the list of their elements or members says, whatever their
  representation, and which other arrays and objects may change with them.
\<close>

section \<open>Slices\<close>

definition slice_ok :: "'a list list \<Rightarrow> slice \<Rightarrow> bool" where
  "slice_ok arrs s \<longleftrightarrow> base s < length arrs \<and> off s + len s \<le> length (arrs ! base s)"

lemma slice_get_length [simp]: "slice_ok arrs s \<Longrightarrow> length (slice_get arrs s) = len s"
  by (auto simp: slice_ok_def slice_get_def min_def)

lemma slice_get_append [simp]: "slice_ok arrs s \<Longrightarrow> slice_get (arrs @ bs) s = slice_get arrs s"
  by (simp add: slice_ok_def slice_get_def nth_append)

lemma slice_ok_append [simp]: "slice_ok arrs s \<Longrightarrow> slice_ok (arrs @ bs) s"
  by (simp add: slice_ok_def nth_append)

lemma slice_get_update_other [simp]: "base s \<noteq> b \<Longrightarrow> slice_get (arrs[b := x]) s = slice_get arrs s"
  by (simp add: slice_get_def)

lemma slice_ok_update: "slice_ok arrs s \<Longrightarrow> length x = length (arrs ! b) \<Longrightarrow> slice_ok (arrs[b := x]) s"
  by (cases "b = base s") (auto simp: slice_ok_def)

lemma make_slice_facts:
  assumes "make_slice xs arrs = (s, arrs')"
  shows "slice_ok arrs' s" "slice_get arrs' s = xs" "len s = length xs" "off s = 0" "slice_cap arrs' s = length xs"
    "base s = length arrs"
    "slice_ok arrs t \<Longrightarrow> slice_get arrs' t = slice_get arrs t" "slice_ok arrs t \<Longrightarrow> slice_ok arrs' t"
  using assms by (auto simp: make_slice_def slice_ok_def slice_get_def slice_cap_def nth_append)

lemma slice_put_length: "slice_ok arrs s \<Longrightarrow> length xs = len s \<Longrightarrow>
  length (take (off s) (arrs ! base s) @ xs @ drop (off s + length xs) (arrs ! base s)) = length (arrs ! base s)"
  by (simp add: slice_ok_def)

lemma slice_put_facts:
  assumes "slice_ok arrs s" and "length xs = len s"
  shows "slice_get (slice_put s xs arrs) s = xs" "slice_ok arrs t \<Longrightarrow> slice_ok (slice_put s xs arrs) t"
    "base t \<noteq> base s \<Longrightarrow> slice_get (slice_put s xs arrs) t = slice_get arrs t" "length (slice_put s xs arrs) = length arrs"
    "length (slice_put s xs arrs ! b) = length (arrs ! b)"
proof -
  show "slice_get (slice_put s xs arrs) s = xs" using assms by (simp add: slice_put_def slice_get_def slice_ok_def Let_def)
  show "slice_ok arrs t \<Longrightarrow> slice_ok (slice_put s xs arrs) t"
    unfolding slice_put_def Let_def by (rule slice_ok_update) (use slice_put_length [OF assms] in simp_all)
  show "length (slice_put s xs arrs ! b) = length (arrs ! b)"
    unfolding slice_put_def Let_def using slice_put_length [OF assms] assms(1) by (cases "b = base s") (auto simp: slice_ok_def)
qed (simp_all add: slice_put_def Let_def)

lemma append_slice_facts:
  assumes "append_slice grow zero s xs arrs = (s', arrs')" and "slice_ok arrs s"
  shows "slice_ok arrs' s'" "slice_get arrs' s' = slice_get arrs s @ xs" "len s' = len s + length xs"
    "slice_ok arrs t \<Longrightarrow> slice_ok arrs' t" "off s = 0 \<Longrightarrow> off s' = 0"
    "slice_ok arrs t \<Longrightarrow> base t \<noteq> base s \<or> slice_cap arrs s < len s + length xs \<Longrightarrow> slice_get arrs' t = slice_get arrs t \<and> base t \<noteq> base s'"
proof -
  let ?arr = "arrs ! base s" and ?e = "off s + len s"
  have ok: "base s < length arrs" "?e \<le> length ?arr" using assms(2) by (auto simp: slice_ok_def)
  have "slice_ok arrs' s' \<and> slice_get arrs' s' = slice_get arrs s @ xs \<and> len s' = len s + length xs \<and>
    (slice_ok arrs t \<longrightarrow> slice_ok arrs' t) \<and> (off s = 0 \<longrightarrow> off s' = 0) \<and>
    (slice_ok arrs t \<and> (base t \<noteq> base s \<or> slice_cap arrs s < len s + length xs) \<longrightarrow> slice_get arrs' t = slice_get arrs t \<and> base t \<noteq> base s')"
  proof (cases "len s + length xs \<le> slice_cap arrs s")
    case True
    then have fits: "off s + (len s + length xs) \<le> length ?arr" using ok by (auto simp: slice_cap_def)
    have res: "s' = Slice (base s) (off s) (len s + length xs)" "arrs' = arrs[base s := take ?e ?arr @ xs @ drop (?e + length xs) ?arr]"
      using assms(1) True by (auto simp: append_slice_def Let_def)
    have len: "length (take ?e ?arr @ xs @ drop (?e + length xs) ?arr) = length ?arr" using fits by simp
    have "slice_get arrs' s' = slice_get arrs s @ xs"
      using ok fits unfolding res by (simp add: slice_get_def drop_take)
    moreover have "slice_ok arrs t \<Longrightarrow> slice_ok arrs' t" unfolding res by (rule slice_ok_update) (use len in simp_all)
    ultimately show ?thesis using True fits ok by (auto simp: res slice_ok_def)
  next
    case False
    have res: "s' = Slice (length arrs) 0 (len s + length xs)"
      "arrs' = arrs @ [slice_get arrs s @ xs @ replicate (grow (slice_cap arrs s) (len s + length xs) - (len s + length xs)) zero]"
      using assms(1) False by (auto simp: append_slice_def Let_def)
    have "slice_get arrs' s' = slice_get arrs s @ xs"
      using assms(2) unfolding res by (simp add: slice_get_def [of "_ @ _"] nth_append)
    then show ?thesis using assms(2) unfolding res by (auto simp: slice_ok_def [of "_ @ _"] nth_append) (auto simp: slice_ok_def)
  qed
  then show "slice_ok arrs' s'" "slice_get arrs' s' = slice_get arrs s @ xs" "len s' = len s + length xs"
    "slice_ok arrs t \<Longrightarrow> slice_ok arrs' t" "off s = 0 \<Longrightarrow> off s' = 0"
    "slice_ok arrs t \<Longrightarrow> base t \<noteq> base s \<or> slice_cap arrs s < len s + length xs \<Longrightarrow> slice_get arrs' t = slice_get arrs t \<and> base t \<noteq> base s'"
    by blast+
qed

lemma append_slice_lengths:
  assumes "append_slice grow zero s xs arrs = (s', arrs')" and "slice_ok arrs s"
  shows "length arrs \<le> length arrs'" "b < length arrs \<Longrightarrow> length (arrs' ! b) = length (arrs ! b)"
  using assms by (cases "b = base s"; force simp: append_slice_def Let_def slice_cap_def slice_ok_def nth_append split: if_splits)+

section \<open>Well-formed cells\<close>

definition object_cell_ok :: "heap \<Rightarrow> slice \<Rightarrow> nat \<Rightarrow> bool" where
  "object_cell_ok h s n \<longleftrightarrow> slice_ok (names h) s \<and> off s = 0 \<and> n = len s \<and> sorted_wrt (<) (slice_get (names h) s)"

definition cell_ok :: "heap \<Rightarrow> cell \<Rightarrow> bool" where
  "cell_ok h c = (case c of
     ArraySlice s \<Rightarrow> slice_ok (files h) s
   | ArrayCompact cap es \<Rightarrow> length es \<le> cap
   | ArrayStrings cap ss \<Rightarrow> length ss \<le> cap
   | ObjectMap s vs \<Rightarrow> object_cell_ok h s (length vs)
   | ObjectCompact s vs \<Rightarrow> object_cell_ok h s (length vs)
   | ObjectStrings s ss \<Rightarrow> object_cell_ok h s (length ss))"

definition val_ok :: "heap \<Rightarrow> fval \<Rightarrow> bool" where
  "val_ok h v = (case v of
     FNil \<Rightarrow> False
   | FVal j \<Rightarrow> document j
   | FRef r \<Rightarrow> r < length (cells h) \<and> cell_ok h (cells h ! r))"

text \<open>The slice of the names of an object in memory.\<close>

definition obj_slice :: "heap \<Rightarrow> fval \<Rightarrow> slice option" where
  "obj_slice h v = (case v of
     FRef r \<Rightarrow> (case cells h ! r of ObjectMap s _ \<Rightarrow> Some s | ObjectCompact s _ \<Rightarrow> Some s | ObjectStrings s _ \<Rightarrow> Some s | _ \<Rightarrow> None)
   | _ \<Rightarrow> None)"

text \<open>Setting a name of one object leaves the names of the other alone: they are in different arrays, or the array has
  no room.\<close>

definition names_apart :: "heap \<Rightarrow> fval \<Rightarrow> fval \<Rightarrow> bool" where
  "names_apart h ob other \<longleftrightarrow> (\<forall>s t. obj_slice h ob = Some s \<and> obj_slice h other = Some t \<longrightarrow>
     base s \<noteq> base t \<or> slice_cap (names h) s = len s)"

section \<open>What a change may touch\<close>

text \<open>From one heap to a later one, only the cells \<open>R\<close>, the arrays of names \<open>N\<close> and the arrays of elements \<open>F\<close> have
  changed.\<close>

definition changes_only :: "nat set \<Rightarrow> nat set \<Rightarrow> nat set \<Rightarrow> heap \<Rightarrow> heap \<Rightarrow> bool" where
  "changes_only R N F h h' \<longleftrightarrow>
     length (cells h) \<le> length (cells h') \<and> (\<forall>r < length (cells h). r \<notin> R \<longrightarrow> cells h' ! r = cells h ! r) \<and>
     length (names h) \<le> length (names h') \<and> (\<forall>b < length (names h). length (names h' ! b) = length (names h ! b)) \<and>
     (\<forall>t. slice_ok (names h) t \<longrightarrow> slice_ok (names h') t \<and> (base t \<notin> N \<longrightarrow> slice_get (names h') t = slice_get (names h) t)) \<and>
     (\<forall>t. slice_ok (files h) t \<longrightarrow> slice_ok (files h') t \<and> (base t \<notin> F \<longrightarrow> slice_get (files h') t = slice_get (files h) t))"

lemma changes_only_refl [simp]: "changes_only R N F h h"
  by (simp add: changes_only_def)

lemma changes_only_trans:
  assumes "changes_only R N F h h'" and "changes_only R N F h' h''"
  shows "changes_only R N F h h''"
  unfolding changes_only_def
proof (intro conjI allI impI)
  fix t
  have names: "slice_ok (names h) t \<Longrightarrow> slice_ok (names h') t \<and> (base t \<notin> N \<longrightarrow> slice_get (names h') t = slice_get (names h) t)"
    "slice_ok (names h') t \<Longrightarrow> slice_ok (names h'') t \<and> (base t \<notin> N \<longrightarrow> slice_get (names h'') t = slice_get (names h') t)"
    using assms unfolding changes_only_def by blast+
  have files: "slice_ok (files h) t \<Longrightarrow> slice_ok (files h') t \<and> (base t \<notin> F \<longrightarrow> slice_get (files h') t = slice_get (files h) t)"
    "slice_ok (files h') t \<Longrightarrow> slice_ok (files h'') t \<and> (base t \<notin> F \<longrightarrow> slice_get (files h'') t = slice_get (files h') t)"
    using assms unfolding changes_only_def by blast+
  show "slice_ok (names h) t \<Longrightarrow> slice_ok (names h'') t" "slice_ok (files h) t \<Longrightarrow> slice_ok (files h'') t"
    "slice_ok (names h) t \<Longrightarrow> base t \<notin> N \<Longrightarrow> slice_get (names h'') t = slice_get (names h) t"
    "slice_ok (files h) t \<Longrightarrow> base t \<notin> F \<Longrightarrow> slice_get (files h'') t = slice_get (files h) t"
    using names files by auto
next
  fix r assume "r < length (cells h)" "r \<notin> R"
  then show "cells h'' ! r = cells h ! r" using assms unfolding changes_only_def by (metis order_less_le_trans)
next
  fix b assume "b < length (names h)"
  then show "length (names h'' ! b) = length (names h ! b)" using assms unfolding changes_only_def by (metis order_less_le_trans)
qed (use assms in \<open>auto simp: changes_only_def\<close>)

lemma changes_only_mono:
  "changes_only R N F h h' \<Longrightarrow> R \<subseteq> R' \<Longrightarrow> N \<subseteq> N' \<Longrightarrow> F \<subseteq> F' \<Longrightarrow> changes_only R' N' F' h h'"
  unfolding changes_only_def by blast

lemma changes_only_new: "changes_only (insert (length (cells h)) R) N F h h' \<Longrightarrow> changes_only R N F h h'"
  unfolding changes_only_def by auto

lemma changes_only_alloc: "alloc c h = (v, h') \<Longrightarrow> changes_only {} {} {} h h'"
  by (auto simp: alloc_def changes_only_def nth_append)

lemma changes_only_put: "changes_only {r} {} {} h (put r c h)"
  by (auto simp: put_def changes_only_def)

lemma changes_only_names:
  assumes "length (names h) \<le> length ns" and "\<And>b. b < length (names h) \<Longrightarrow> length (ns ! b) = length (names h ! b)"
    and "\<And>t. slice_ok (names h) t \<Longrightarrow> slice_ok ns t \<and> (base t \<notin> N \<longrightarrow> slice_get ns t = slice_get (names h) t)"
  shows "changes_only {} N {} h (h\<lparr>names := ns\<rparr>)"
  using assms by (auto simp: changes_only_def)

lemma changes_only_files:
  assumes "\<And>t. slice_ok (files h) t \<Longrightarrow> slice_ok fs t \<and> (base t \<notin> F \<longrightarrow> slice_get fs t = slice_get (files h) t)"
  shows "changes_only {} {} F h (h\<lparr>files := fs\<rparr>)"
  using assms by (auto simp: changes_only_def)

text \<open>A value is apart from a change if its cell and the arrays behind its slices are.\<close>

definition cell_names_base :: "cell \<Rightarrow> nat set" where
  "cell_names_base c = (case c of ObjectMap s _ \<Rightarrow> {base s} | ObjectCompact s _ \<Rightarrow> {base s} | ObjectStrings s _ \<Rightarrow> {base s} | _ \<Rightarrow> {})"

definition cell_files_base :: "cell \<Rightarrow> nat set" where
  "cell_files_base c = (case c of ArraySlice s \<Rightarrow> {base s} | _ \<Rightarrow> {})"

definition untouched :: "nat set \<Rightarrow> nat set \<Rightarrow> nat set \<Rightarrow> heap \<Rightarrow> fval \<Rightarrow> bool" where
  "untouched R N F h v = (case v of
     FRef r \<Rightarrow> r \<notin> R \<and> cell_names_base (cells h ! r) \<inter> N = {} \<and> cell_files_base (cells h ! r) \<inter> F = {}
   | _ \<Rightarrow> True)"

lemma changes_only_untouched:
  assumes "changes_only R N F h h'" and "val_ok h v" and "untouched R N F h v"
  shows "members h' v = members h v" "elements h' v = elements h v" "val_ok h' v" "Names h' v = Names h v"
    "is_array h' v = is_array h v" "is_obj_val h' v = is_obj_val h v" "obj_slice h' v = obj_slice h v"
    "untouched R' N' F' h' v = untouched R' N' F' h v"
proof -
  have "members h' v = members h v \<and> elements h' v = elements h v \<and> val_ok h' v \<and> Names h' v = Names h v \<and>
    is_array h' v = is_array h v \<and> is_obj_val h' v = is_obj_val h v \<and> obj_slice h' v = obj_slice h v \<and>
    untouched R' N' F' h' v = untouched R' N' F' h v"
  proof (cases v)
    case (FRef r)
    then have r: "r < length (cells h)" "cell_ok h (cells h ! r)" "cells h' ! r = cells h ! r" "r < length (cells h')"
      using assms by (auto simp: val_ok_def untouched_def changes_only_def)
    have names: "slice_get (names h') s = slice_get (names h) s" "slice_ok (names h') s"
      if "s \<in> {s. cell_names_base (cells h ! r) = {base s} \<and> slice_ok (names h) s}" for s
      using assms(1,3) FRef that by (auto simp: untouched_def changes_only_def)
    have files: "slice_get (files h') s = slice_get (files h) s" "slice_ok (files h') s"
      if "s \<in> {s. cell_files_base (cells h ! r) = {base s} \<and> slice_ok (files h) s}" for s
      using assms(1,3) FRef that by (auto simp: untouched_def changes_only_def)
    show ?thesis
      using r names files FRef
      by (cases "cells h ! r")
        (auto simp: members_def elements_def val_ok_def Names_def is_array_def is_obj_val_def obj_slice_def untouched_def
          cell_ok_def object_cell_ok_def cell_names_base_def cell_files_base_def cell_elements_def cell_names_def)
  qed (use assms(2) in \<open>auto simp: members_def elements_def val_ok_def Names_def is_array_def is_obj_val_def obj_slice_def untouched_def split: json.splits\<close>)
  then show "members h' v = members h v" "elements h' v = elements h v" "val_ok h' v" "Names h' v = Names h v"
    "is_array h' v = is_array h v" "is_obj_val h' v = is_obj_val h v" "obj_slice h' v = obj_slice h v"
    "untouched R' N' F' h' v = untouched R' N' F' h v" by blast+
qed

section \<open>Objects\<close>

lemma insert_name_facts:
  assumes "insert_name grow s i name h = (s', h')" and "slice_ok (names h) s" and "off s = 0" and "i \<le> len s"
  defines "ks \<equiv> slice_get (names h) s"
  shows "slice_ok (names h') s'" "off s' = 0" "len s' = Suc (len s)" "slice_get (names h') s' = take i ks @ name # drop i ks"
    "changes_only {} (if slice_cap (names h) s = len s then {} else {base s}) {} h h'" "cells h' = cells h" "files h' = files h"
    "base s' = base s \<and> slice_cap (names h) s \<noteq> len s \<or> base s' = length (names h)"
proof -
  obtain ns where app: "append_slice grow [] s [name] (names h) = (s', ns)" and
    h': "h' = h\<lparr>names := (let ks = slice_get ns s'; ns = slice_put s' (take (i + 1) ks @ take (length ks - (i + 1)) (drop i ks)) ns
      in slice_put s' ((slice_get ns s')[i := name]) ns)\<rparr>"
    using assms(1) by (auto simp: insert_name_def Let_def split: prod.splits)
  note facts = append_slice_facts [OF app assms(2)]
  show "base s' = base s \<and> slice_cap (names h) s \<noteq> len s \<or> base s' = length (names h)"
    using app by (auto simp: append_slice_def Let_def split: if_splits)
  have n: "length ks = len s" using assms(2) by (simp add: ks_def)
  define l1 where "l1 = take (i + 1) (ks @ [name]) @ take (length (ks @ [name]) - (i + 1)) (drop i (ks @ [name]))"
  define ns1 where "ns1 = slice_put s' l1 ns"
  have l1: "length l1 = len s'" using facts(3) assms(4) n by (simp add: l1_def)
  have l2: "l1[i := name] = take i ks @ name # drop i ks"
  proof -
    obtain a b where ab: "ks = a @ b" "length a = i" using assms(4) n by (metis append_take_drop_id length_take min_absorb2)
    obtain x xs where "b @ [name] = x # xs" by (cases b) auto
    moreover from this have "take (length xs) (x # xs) = b" by (metis append_eq_conv_conj length_append_singleton length_Cons nat.inject)
    ultimately have "l1 = a @ x # b" using ab by (simp add: l1_def)
    then show ?thesis using ab by (simp add: list_update_append)
  qed
  have get: "slice_get ns s' = ks @ [name]" using facts(2) by (simp add: ks_def)
  have get1: "slice_get ns1 s' = l1" using slice_put_facts(1) [OF facts(1) l1] by (simp add: ns1_def)
  have ok1: "slice_ok ns1 s'" using slice_put_facts(2) [OF facts(1) l1 facts(1)] by (simp add: ns1_def)
  have names: "names h' = slice_put s' (l1[i := name]) ns1" 
    unfolding h' Let_def get l1_def [symmetric] ns1_def [symmetric] get1 by simp
  have l2': "length (l1[i := name]) = len s'" using l1 by simp
  show "slice_ok (names h') s'" unfolding names by (rule slice_put_facts(2) [OF ok1 l2' ok1])
  show "off s' = 0" "len s' = Suc (len s)" using facts assms(3) by auto
  show "slice_get (names h') s' = take i ks @ name # drop i ks" unfolding names slice_put_facts(1) [OF ok1 l2'] by (rule l2)
  show "cells h' = cells h" "files h' = files h" by (simp_all add: h')
  let ?N = "if slice_cap (names h) s = len s then {} else {base s}"
  have "slice_ok (names h') t \<and> (base t \<notin> ?N \<longrightarrow> slice_get (names h') t = slice_get (names h) t)" if t: "slice_ok (names h) t" for t
  proof -
    have "slice_ok ns1 t" unfolding ns1_def by (rule slice_put_facts(2) [OF facts(1) l1 facts(4) [OF t]])
    then have "slice_ok (names h') t" unfolding names by (rule slice_put_facts(2) [OF ok1 l2'])
    moreover have "slice_get (names h') t = slice_get (names h) t" if "base t \<notin> ?N"
    proof -
      have "slice_get ns t = slice_get (names h) t \<and> base t \<noteq> base s'"
        by (rule facts(6) [OF t]) (use that in \<open>auto split: if_splits\<close>)
      then show ?thesis using slice_put_facts(3) [OF facts(1) l1, of t] slice_put_facts(3) [OF ok1 l2', of t] by (simp add: names ns1_def)
    qed
    ultimately show ?thesis by blast
  qed
  moreover have "length (names h) \<le> length (names h')" "b < length (names h) \<Longrightarrow> length (names h' ! b) = length (names h ! b)" for b
    using append_slice_lengths [OF app assms(2)] slice_put_facts(4,5) [OF facts(1) l1] slice_put_facts(4,5) [OF ok1 l2']
    by (simp_all add: names ns1_def)
  ultimately show "changes_only {} ?N {} h h'" using changes_only_names [of h "names h'" ?N] h' by simp
qed

lemma zip_setImpl:
  assumes "length ns = length vs" and "sorted_wrt (<) ns" and "Object_find ns name = (i, ok)"
  shows "Object_setImpl (zip ns vs) name v =
      (if ok then zip ns (vs[i := v]) else zip (take i ns @ name # drop i ns) (take i vs @ v # drop i vs))" and "i \<le> length ns"
    and "ok \<Longrightarrow> i < length ns"
proof -
  have ns: "map fst (zip ns vs) = ns" using assms(1) by simp
  have find: "Object_find (map fst (zip ns vs)) name = (i, ok)" using assms(3) ns by simp
  note facts = Object_find_sorted [of "zip ns vs" name i ok, unfolded ns, OF assms(2,3)]
  then show i: "i \<le> length ns" "ok \<Longrightarrow> i < length ns" using assms(1) by auto
  have "ok \<Longrightarrow> ns ! i = name" using facts(3) assms(1) by auto
  then have "ok \<Longrightarrow> (zip ns vs)[i := (name, v)] = zip ns (vs[i := v])" by (metis list_update_id update_zip fst_conv snd_conv)
  then show "Object_setImpl (zip ns vs) name v =
      (if ok then zip ns (vs[i := v]) else zip (take i ns @ name # drop i ns) (take i vs @ v # drop i vs))"
    using i(1) assms(1) by (auto simp: Object_setImpl_def assms(3) take_zip drop_zip)
qed

text \<open>The arrays of names that a new name of the object may change.\<close>

definition spare :: "heap \<Rightarrow> slice \<Rightarrow> nat set" where
  "spare h s = (if slice_cap (names h) s = len s then {} else {base s})"

lemma sorted_insert:
  assumes "sorted_wrt (<) ns" and "Object_find ns name = (i, False)"
  shows "sorted_wrt (<) (take i ns @ name # drop i ns)"
proof -
  let ?kvs = "map (\<lambda>n. (n, ())) ns"
  have ns: "map fst ?kvs = ns" by (simp add: comp_def)
  have "sorted_wrt (<) (map fst (Object_setImpl ?kvs name ()))" using Object_setImpl_sorted(1) [of ?kvs name "()"] assms(1) ns by simp
  then show ?thesis using assms(2) unfolding Object_setImpl_def ns by (simp add: take_map drop_map comp_def)
qed

definition names_within :: "heap \<Rightarrow> slice \<Rightarrow> heap \<Rightarrow> fval \<Rightarrow> bool" where
  "names_within h s h' ob \<longleftrightarrow> (\<forall>s'. obj_slice h' ob = Some s' \<longrightarrow>
     base s' = base s \<and> spare h' s' \<subseteq> spare h s \<or> length (names h) \<le> base s')"

lemma ObjectMap_setImpl_facts:
  assumes "ObjectMap_setImpl grow r s vs name v h = (ob, h')" and "cells h ! r = ObjectMap s vs" and "r < length (cells h)"
    and "object_cell_ok h s (length vs)"
  shows "ob = FRef r" "val_ok h' ob" "is_obj_val h' ob" "members h' ob = Object_setImpl (zip (slice_get (names h) s) vs) name v"
    "changes_only {r} (spare h s) {} h h'" "files h' = files h" "names_within h s h' ob"
proof -
  let ?ns = "slice_get (names h) s"
  have ok: "slice_ok (names h) s" "off s = 0" "length vs = len s" "sorted_wrt (<) ?ns"
    using assms(4) by (auto simp: object_cell_ok_def)
  obtain i found where find: "Object_find ?ns name = (i, found)" by fastforce
  note z = zip_setImpl [of ?ns vs, OF _ ok(4) find]
  have i: "i \<le> len s" using z(2) ok by simp
  have "ob = FRef r \<and> val_ok h' ob \<and> is_obj_val h' ob \<and> members h' ob = Object_setImpl (zip ?ns vs) name v \<and>
    changes_only {r} (spare h s) {} h h' \<and> files h' = files h \<and> names_within h s h' ob"
  proof (cases found)
    case True
    then have "ob = FRef r" "h' = put r (ObjectMap s (vs[i := v])) h" using assms(1) find by (auto simp: ObjectMap_setImpl_def)
    then show ?thesis
      using assms(3) ok z(1) [of v] True changes_only_put [THEN changes_only_mono [of "{r}" "{}" "{}" h _ "{r}" "spare h s" "{}"]]
      by (auto simp: val_ok_def put_def cell_ok_def object_cell_ok_def is_obj_val_def members_def cell_names_def cell_values_def
          names_within_def obj_slice_def spare_def)
  next
    case False
    then obtain s' h1 where ins: "insert_name grow s i name h = (s', h1)" and res: "ob = FRef r" "h' = put r (ObjectMap s' (take i vs @ v # drop i vs)) h1"
      using assms(1) find by (auto simp: ObjectMap_setImpl_def split: prod.splits)
    note facts = insert_name_facts [OF ins ok(1,2) i]
    have "changes_only {r} (spare h s) {} h h1" by (rule changes_only_mono [OF facts(5)]) (auto simp: spare_def)
    moreover have "changes_only {r} (spare h s) {} h1 h'" unfolding res by (rule changes_only_mono [OF changes_only_put]) auto
    ultimately have "changes_only {r} (spare h s) {} h h'" by (rule changes_only_trans)
    moreover have "sorted_wrt (<) (take i ?ns @ name # drop i ?ns)" using sorted_insert ok(4) find False by simp
    ultimately show ?thesis
      using assms(3) ok z(1) [of v] False facts(1-4,6-8) i res
      by (auto simp: names_within_def obj_slice_def spare_def val_ok_def put_def cell_ok_def object_cell_ok_def is_obj_val_def members_def cell_names_def cell_values_def)
  qed
  then show "ob = FRef r" "val_ok h' ob" "is_obj_val h' ob" "members h' ob = Object_setImpl (zip ?ns vs) name v"
    "changes_only {r} (spare h s) {} h h'" "files h' = files h" "names_within h s h' ob" by blast+
qed

lemma clone_cell_facts:
  assumes "object_cell_ok h s (length vs)" and "clone_cell s vs h = (ob, h')"
  shows "ob = FRef (length (cells h))" "val_ok h' ob" "is_obj_val h' ob" "members h' ob = zip (slice_get (names h) s) vs"
    "changes_only {} {} {} h h'" "cells h' ! length (cells h) = ObjectMap s vs" "length (cells h') = Suc (length (cells h))"
    "names h' = names h" "files h' = files h"
  using assms changes_only_alloc [of "ObjectMap s vs" h]
  by (auto simp: clone_cell_def alloc_def val_ok_def cell_ok_def object_cell_ok_def is_obj_val_def members_def cell_names_def cell_values_def)

lemma clone_set_facts:
  assumes "clone_set grow s vs name v h = (ob, h')" and "object_cell_ok h s (length vs)"
  shows "ob = FRef (length (cells h))" "val_ok h' ob" "is_obj_val h' ob" "members h' ob = Object_setImpl (zip (slice_get (names h) s) vs) name v"
    "changes_only {} (spare h s) {} h h'" "files h' = files h" "names_within h s h' ob"
proof -
  let ?r = "length (cells h)"
  obtain c h1 where c: "clone_cell s vs h = (c, h1)" by fastforce
  note facts = clone_cell_facts [OF assms(2) c]
  have set: "ObjectMap_setImpl grow ?r s vs name v h1 = (ob, h')" using assms(1) c by (simp add: clone_set_def Let_def)
  have ok: "object_cell_ok h1 s (length vs)" using assms(2) facts(8) by (simp add: object_cell_ok_def)
  have spare: "spare h1 s = spare h s" using facts(8) by (simp add: spare_def)
  note facts' = ObjectMap_setImpl_facts [OF set facts(6) _ ok, unfolded spare facts(7-9)]
  show "ob = FRef ?r" "val_ok h' ob" "is_obj_val h' ob" "members h' ob = Object_setImpl (zip (slice_get (names h) s) vs) name v" "files h' = files h"
    using facts' by simp_all
  show "names_within h s h' ob" using facts'(7) spare facts(8) by (simp add: names_within_def)
  have "changes_only {?r} (spare h s) {} h h1" by (rule changes_only_mono [OF facts(5)]) auto
  then have "changes_only {?r} (spare h s) {} h h'" by (rule changes_only_trans) (use facts'(5) in simp)
  then show "changes_only {} (spare h s) {} h h'" by (rule changes_only_new)
qed

lemma NewObject_facts:
  assumes "NewObject kvs h = (ob, h')" and "sorted_wrt (<) (map fst kvs)"
  shows "ob = FRef (length (cells h))" "val_ok h' ob" "is_obj_val h' ob" "members h' ob = kvs" "changes_only {} {} {} h h'"
    "\<exists>s. cells h' ! length (cells h) = ObjectMap s (map snd kvs) \<and> slice_get (names h') s = map fst kvs \<and> spare h' s = {} \<and> base s = length (names h)"
    "length (cells h') = Suc (length (cells h))" "files h' = files h" "names h' = names h @ [map fst kvs]"
proof -
  obtain s ns where s: "make_slice (map fst kvs) (names h) = (s, ns)" by fastforce
  note facts = make_slice_facts [OF s]
  have res: "ob = FRef (length (cells h))" "h' = h\<lparr>names := ns, cells := cells h @ [ObjectMap s (map snd kvs)]\<rparr>"
    using assms(1) s by (auto simp: NewObject_def newObjectImpl_def intern_def new_names_def alloc_def Let_def)
  have ns: "ns = names h @ [map fst kvs]" using s by (simp add: make_slice_def)
  have "changes_only {} {} {} h h'"
    using facts(7,8) ns unfolding res by (auto simp: changes_only_def nth_append)
  then show "changes_only {} {} {} h h'" .
  show "ob = FRef (length (cells h))" "val_ok h' ob" "is_obj_val h' ob" "members h' ob = kvs" "length (cells h') = Suc (length (cells h))"
    "files h' = files h" "names h' = names h @ [map fst kvs]"
    "\<exists>s. cells h' ! length (cells h) = ObjectMap s (map snd kvs) \<and> slice_get (names h') s = map fst kvs \<and> spare h' s = {} \<and> base s = length (names h)"
    using facts(1-6) assms(2) ns unfolding res
    by (simp_all add: val_ok_def cell_ok_def object_cell_ok_def is_obj_val_def members_def cell_names_def cell_values_def spare_def zip_map_fst_snd)
qed

definition own_cell :: "fval \<Rightarrow> nat set" where
  "own_cell v = (case v of FRef r \<Rightarrow> {r} | _ \<Rightarrow> {})"

definition own_names :: "heap \<Rightarrow> fval \<Rightarrow> nat set" where
  "own_names h v = (case obj_slice h v of Some s \<Rightarrow> {base s} | None \<Rightarrow> {})"

definition own_spare :: "heap \<Rightarrow> fval \<Rightarrow> nat set" where
  "own_spare h v = (case obj_slice h v of Some s \<Rightarrow> spare h s | None \<Rightarrow> {})"

text \<open>The result of an operation: the value itself, changed in place, or a new one.\<close>

definition same_or_new :: "heap \<Rightarrow> fval \<Rightarrow> fval \<Rightarrow> bool" where
  "same_or_new h v v' \<longleftrightarrow> (\<exists>r. v' = FRef r \<and> (v = FRef r \<or> length (cells h) \<le> r))"

definition keeps_names :: "heap \<Rightarrow> fval \<Rightarrow> heap \<Rightarrow> fval \<Rightarrow> bool" where
  "keeps_names h ob h' ob' \<longleftrightarrow> own_names h' ob' \<subseteq> own_names h ob \<union> {length (names h)..} \<and>
     own_spare h' ob' \<subseteq> own_spare h ob \<union> {length (names h)..}"

lemma names_within_keeps: "names_within h s h' ob' \<Longrightarrow> obj_slice h ob = Some s \<Longrightarrow> keeps_names h ob h' ob'"
  by (cases "obj_slice h' ob'") (auto simp: names_within_def keeps_names_def own_names_def own_spare_def spare_def split: if_splits)

lemma setImpl_cell_facts:
  assumes "val_ok h (FRef r)" and "is_obj_val h (FRef r)"
  obtains ob' h' where "setImpl_cell grow r name v h = Some (ob', h')" "val_ok h' ob'" "is_obj_val h' ob'"
    "members h' ob' = Object_setImpl (members h (FRef r)) name v" "changes_only {r} (own_spare h (FRef r)) {} h h'" "same_or_new h (FRef r) ob'" "keeps_names h (FRef r) h' ob'"
proof (cases "cells h ! r")
  case (ObjectMap s vs)
  obtain ob' h' where set: "ObjectMap_setImpl grow r s vs name v h = (ob', h')" by fastforce
  have r: "r < length (cells h)" "object_cell_ok h s (length vs)" using assms ObjectMap by (auto simp: val_ok_def cell_ok_def)
  show thesis
    by (rule that [of ob' h']) (use ObjectMap_setImpl_facts [OF set ObjectMap r] set ObjectMap names_within_keeps [of h s h' ob' "FRef r"] in
      \<open>simp_all add: setImpl_cell_def members_def cell_names_def cell_values_def own_spare_def obj_slice_def same_or_new_def\<close>)
next
  case (ObjectCompact s vs)
  have r: "r < length (cells h)" "object_cell_ok h s (length vs)" using assms ObjectCompact by (auto simp: val_ok_def cell_ok_def)
  then have ok: "length (slice_get (names h) s) = length vs" "sorted_wrt (<) (slice_get (names h) s)" by (auto simp: object_cell_ok_def)
  obtain i found where find: "Object_find (slice_get (names h) s) name = (i, found)" by fastforce
  show thesis
  proof (cases found)
    case True
    let ?h = "put r (ObjectCompact s (vs[i := v])) h"
    have "changes_only {r} (own_spare h (FRef r)) {} h ?h" by (rule changes_only_mono [OF changes_only_put]) auto
    then show thesis
      using r ok ObjectCompact find True zip_setImpl(1) [OF ok find, of v]
      by (intro that [of "FRef r" ?h])
        (auto simp: setImpl_cell_def ObjectMapCompact_setImpl_def val_ok_def put_def cell_ok_def object_cell_ok_def is_obj_val_def members_def
          cell_names_def cell_values_def same_or_new_def keeps_names_def own_names_def own_spare_def obj_slice_def spare_def)
  next
    case False
    obtain ob' h' where set: "clone_set grow s vs name v h = (ob', h')" by fastforce
    note facts = clone_set_facts [OF set r(2)]
    have "changes_only {r} (own_spare h (FRef r)) {} h h'"
      by (rule changes_only_mono [OF facts(5)]) (auto simp: own_spare_def obj_slice_def ObjectCompact)
    then show thesis
      using facts ObjectCompact find False set names_within_keeps [OF facts(7), of "FRef r"]
      by (intro that [of ob' h']) (simp_all add: setImpl_cell_def ObjectMapCompact_setImpl_def members_def cell_names_def cell_values_def same_or_new_def obj_slice_def)
  qed
next
  case (ObjectStrings s ss)
  have r: "r < length (cells h)" "object_cell_ok h s (length (map FString ss))" using assms ObjectStrings by (auto simp: val_ok_def cell_ok_def)
  then have ok: "length (slice_get (names h) s) = length (map FString ss)" "sorted_wrt (<) (slice_get (names h) s)" by (auto simp: object_cell_ok_def)
  obtain i found where find: "Object_find (slice_get (names h) s) name = (i, found)" by fastforce
  show thesis
  proof (cases "found \<and> string_value v \<noteq> None")
    case True
    then obtain t where t: "string_value v = Some t" "v = FString t"
      by (auto simp: string_value_def FString_def split: fval.splits json.splits)
    let ?h = "put r (ObjectStrings s (ss[i := t])) h"
    have "changes_only {r} (own_spare h (FRef r)) {} h ?h" by (rule changes_only_mono [OF changes_only_put]) auto
    then show thesis
      using r ok ObjectStrings find True t zip_setImpl(1) [OF ok find, of v]
      by (intro that [of "FRef r" ?h])
        (auto simp: setImpl_cell_def ObjectMapCompactStrings_setImpl_def val_ok_def put_def cell_ok_def object_cell_ok_def is_obj_val_def members_def
          cell_names_def cell_values_def same_or_new_def map_update keeps_names_def own_names_def own_spare_def obj_slice_def spare_def)
  next
    case False
    obtain ob' h' where set: "clone_set grow s (map FString ss) name v h = (ob', h')" by fastforce
    note facts = clone_set_facts [OF set r(2)]
    have "changes_only {r} (own_spare h (FRef r)) {} h h'"
      by (rule changes_only_mono [OF facts(5)]) (auto simp: own_spare_def obj_slice_def ObjectStrings)
    then show thesis
      using facts ObjectStrings find False set names_within_keeps [OF facts(7), of "FRef r"]
      by (intro that [of ob' h']) (auto simp: setImpl_cell_def ObjectMapCompactStrings_setImpl_def members_def cell_names_def cell_values_def same_or_new_def obj_slice_def)
  qed
qed (use assms in \<open>auto simp: is_obj_val_def\<close>)

lemma changes_only_fresh_trans:
  assumes "changes_only {} {} {} h h1" and "changes_only {length (cells h)} {} {} h1 h'"
  shows "changes_only {} {} {} h h'"
proof (rule changes_only_new)
  show "changes_only {length (cells h)} {} {} h h'"
    by (rule changes_only_trans [OF changes_only_mono [OF assms(1)] assms(2)]) auto
qed

lemma Object_Set_facts:
  assumes "val_ok h ob" and "is_obj_val h ob"
  obtains ob' h' where "Object_Set grow ob name v h = Some (ob', h')" "val_ok h' ob'" "is_obj_val h' ob'"
    "members h' ob' = Object_setImpl (members h ob) name v" "changes_only (own_cell ob) (own_spare h ob) {} h h'" "same_or_new h ob ob'"
    "keeps_names h ob h' ob'"
proof (cases ob)
  case (FRef r)
  obtain ob' h' where "setImpl_cell grow r name v h = Some (ob', h')" "val_ok h' ob'" "is_obj_val h' ob'"
    "members h' ob' = Object_setImpl (members h (FRef r)) name v" "changes_only {r} (own_spare h (FRef r)) {} h h'" "same_or_new h (FRef r) ob'" "keeps_names h (FRef r) h' ob'"
    using setImpl_cell_facts assms FRef by blast
  then show thesis by (intro that [of ob' h']) (simp_all add: Object_Set_def FRef own_cell_def)
next
  case (FVal j)
  then obtain kvs where j: "j = JObject kvs" using assms(2) by (auto simp: is_obj_val_def split: json.splits)
  let ?kvs = "map (\<lambda>(k, v). (k, FVal v)) kvs" and ?r = "length (cells h)"
  have names: "map fst ?kvs = map fst kvs" by (induction kvs) auto
  obtain c h1 where new: "NewObject ?kvs h = (c, h1)" by fastforce
  have "sorted_wrt (<) (map fst ?kvs)" unfolding names using assms(1) FVal j by (simp add: val_ok_def)
  note facts = NewObject_facts [OF new this]
  have own: "own_spare h1 (FRef ?r) = {}" using facts(6) by (auto simp: own_spare_def obj_slice_def)
  obtain ob' h' where set: "setImpl_cell grow ?r name v h1 = Some (ob', h')" "val_ok h' ob'" "is_obj_val h' ob'"
    "members h' ob' = Object_setImpl ?kvs name v" "changes_only {?r} {} {} h1 h'" "same_or_new h1 (FRef ?r) ob'" "keeps_names h1 (FRef ?r) h' ob'"
    using setImpl_cell_facts [of h1 ?r grow name v] facts(1-4) own by metis
  have "changes_only {} {} {} h h'" by (rule changes_only_fresh_trans [OF facts(5) set(5)])
  moreover have "same_or_new h ob ob'" using set(6) facts(7) by (auto simp: same_or_new_def)
  moreover have "own_names h1 (FRef ?r) \<subseteq> {length (names h)..}" using facts(6) by (auto simp: own_names_def obj_slice_def)
  then have "keeps_names h ob h' ob'" using set(7) own facts(9) by (auto simp: keeps_names_def)
  ultimately show thesis
    using set FVal j new facts(1) by (intro that [of ob' h']) (simp_all add: Object_Set_def ObjectBinary_clone_def own_cell_def own_spare_def obj_slice_def members_def)
qed (use assms in \<open>auto simp: is_obj_val_def\<close>)

lemma zip_Remove:
  assumes "length ns = length vs" and "sorted_wrt (<) ns" and "Object_find ns name = (i, ok)"
  shows "Object_Remove (zip ns vs) name =
      (if ok then zip (take i ns @ drop (i + 1) ns) (take i vs @ drop (i + 1) vs) else zip ns vs)"
    and "ok \<Longrightarrow> sorted_wrt (<) (take i ns @ drop (i + 1) ns)"
proof -
  have ns: "map fst (zip ns vs) = ns" using assms(1) by simp
  show eq: "Object_Remove (zip ns vs) name =
      (if ok then zip (take i ns @ drop (i + 1) ns) (take i vs @ drop (i + 1) vs) else zip ns vs)"
    using assms(1) unfolding Object_Remove_def ns assms(3) by (simp add: take_zip drop_zip)
  assume ok: "ok"
  then have "map fst (Object_Remove (zip ns vs) name) = take i ns @ drop (i + 1) ns"
    unfolding eq using assms(1) by (simp flip: drop_zip take_zip add: take_map [symmetric] drop_map [symmetric])
  then show "sorted_wrt (<) (take i ns @ drop (i + 1) ns)"
    using Object_Remove_sorted(1) [of "zip ns vs" name] ns assms(2) by simp
qed

lemma ObjectMap_Remove_facts:
  assumes "ObjectMap_Remove r s vs name h = (ob, h')" and "cells h ! r = ObjectMap s vs" and "r < length (cells h)"
    and "object_cell_ok h s (length vs)"
  shows "val_ok h' ob" "is_obj_val h' ob" "members h' ob = Object_Remove (zip (slice_get (names h) s) vs) name"
    "changes_only {} {} {} h h'" "same_or_new h (FRef r) ob" "names_within h s h' ob"
proof -
  let ?ns = "slice_get (names h) s"
  have ok: "length ?ns = length vs" "sorted_wrt (<) ?ns" using assms(4) by (auto simp: object_cell_ok_def)
  obtain i found where find: "Object_find ?ns name = (i, found)" by fastforce
  have "val_ok h' ob \<and> is_obj_val h' ob \<and> members h' ob = Object_Remove (zip ?ns vs) name \<and> changes_only {} {} {} h h' \<and>
    same_or_new h (FRef r) ob \<and> names_within h s h' ob"
  proof (cases found)
    case False
    then have "ob = FRef r" "h' = h" using assms(1) find by (auto simp: ObjectMap_Remove_def)
    then show ?thesis using assms(2-4) zip_Remove(1) [OF ok find] False
      by (simp add: val_ok_def cell_ok_def is_obj_val_def members_def cell_names_def cell_values_def same_or_new_def names_within_def obj_slice_def)
  next
    case True
    let ?ks = "take i ?ns @ drop (i + 1) ?ns"
    obtain s' ns' where s': "make_slice ?ks (names h) = (s', ns')" by fastforce
    note facts = make_slice_facts [OF s']
    have res: "ob = FRef (length (cells h))" "h' = h\<lparr>names := ns', cells := cells h @ [ObjectMap s' (take i vs @ drop (i + 1) vs)]\<rparr>"
      using assms(1) find True s' by (auto simp: ObjectMap_Remove_def ObjectMap_RemoveIdx_def new_names_def alloc_def Let_def)
    have "ns' = names h @ [?ks]" using s' by (simp add: make_slice_def)
    then have "changes_only {} {} {} h h'" using facts(7,8) unfolding res by (auto simp: changes_only_def nth_append)
    moreover have "length ?ks = length (take i vs @ drop (i + 1) vs)" using ok by simp
    ultimately show ?thesis
      using facts(1-4,6) zip_Remove [OF ok find] True unfolding res
      by (simp add: names_within_def obj_slice_def val_ok_def cell_ok_def object_cell_ok_def is_obj_val_def members_def cell_names_def cell_values_def same_or_new_def)
  qed
  then show "val_ok h' ob" "is_obj_val h' ob" "members h' ob = Object_Remove (zip ?ns vs) name"
    "changes_only {} {} {} h h'" "same_or_new h (FRef r) ob" "names_within h s h' ob" by blast+
qed

lemma clone_remove_facts:
  assumes "clone_remove s vs name h = (ob, h')" and "object_cell_ok h s (length vs)"
  shows "val_ok h' ob" "is_obj_val h' ob" "members h' ob = Object_Remove (zip (slice_get (names h) s) vs) name"
    "changes_only {} {} {} h h'" "\<exists>r. ob = FRef r \<and> length (cells h) \<le> r" "names_within h s h' ob"
proof -
  let ?r = "length (cells h)"
  obtain c h1 where c: "clone_cell s vs h = (c, h1)" by fastforce
  note facts = clone_cell_facts [OF assms(2) c]
  have rem: "ObjectMap_Remove ?r s vs name h1 = (ob, h')" using assms(1) c by (simp add: clone_remove_def Let_def)
  have ok: "object_cell_ok h1 s (length vs)" using assms(2) facts(8) by (simp add: object_cell_ok_def)
  note facts' = ObjectMap_Remove_facts [OF rem facts(6) _ ok, unfolded facts(7,8)]
  show "val_ok h' ob" "is_obj_val h' ob" "members h' ob = Object_Remove (zip (slice_get (names h) s) vs) name" using facts' by simp_all
  show "changes_only {} {} {} h h'" using changes_only_trans [OF facts(5)] facts'(4) by simp
  show "names_within h s h' ob" using facts'(6) facts(8) by (simp add: names_within_def spare_def)
  show "\<exists>r. ob = FRef r \<and> length (cells h) \<le> r" using facts'(5) facts(7) by (auto simp: same_or_new_def)
qed

lemma Object_Remove_cell_facts:
  assumes "val_ok h (FRef r)" and "is_obj_val h (FRef r)"
  obtains ob' h' where "Object_Remove_cell r name h = Some (ob', h')" "val_ok h' ob'" "is_obj_val h' ob'"
    "members h' ob' = Object_Remove (members h (FRef r)) name" "changes_only {} {} {} h h'" "same_or_new h (FRef r) ob'" "keeps_names h (FRef r) h' ob'"
proof (cases "cells h ! r")
  case (ObjectMap s vs)
  obtain ob' h' where rem: "ObjectMap_Remove r s vs name h = (ob', h')" by fastforce
  have r: "r < length (cells h)" "object_cell_ok h s (length vs)" using assms ObjectMap by (auto simp: val_ok_def cell_ok_def)
  show thesis
    by (rule that [of ob' h']) (use ObjectMap_Remove_facts [OF rem ObjectMap r] rem ObjectMap names_within_keeps [of h s h' ob' "FRef r"] in
      \<open>simp_all add: Object_Remove_cell_def obj_slice_def members_def cell_names_def cell_values_def\<close>)
next
  case (ObjectCompact s vs)
  obtain ob' h' where rem: "clone_remove s vs name h = (ob', h')" by fastforce
  have r: "object_cell_ok h s (length vs)" using assms ObjectCompact by (auto simp: val_ok_def cell_ok_def)
  show thesis
    by (rule that [of ob' h']) (use clone_remove_facts [OF rem r] rem ObjectCompact names_within_keeps [of h s h' ob' "FRef r"] in
      \<open>auto simp: Object_Remove_cell_def obj_slice_def members_def cell_names_def cell_values_def same_or_new_def\<close>)
next
  case (ObjectStrings s ss)
  obtain ob' h' where rem: "clone_remove s (map FString ss) name h = (ob', h')" by fastforce
  have r: "object_cell_ok h s (length (map FString ss))" using assms ObjectStrings by (auto simp: val_ok_def cell_ok_def)
  show thesis
    by (rule that [of ob' h']) (use clone_remove_facts [OF rem r] rem ObjectStrings names_within_keeps [of h s h' ob' "FRef r"] in
      \<open>auto simp: Object_Remove_cell_def obj_slice_def members_def cell_names_def cell_values_def same_or_new_def\<close>)
qed (use assms in \<open>auto simp: is_obj_val_def\<close>)

lemma Object_Remove_val_facts:
  assumes "val_ok h ob" and "is_obj_val h ob"
  obtains ob' h' where "Object_Remove_val ob name h = Some (ob', h')" "val_ok h' ob'" "is_obj_val h' ob'"
    "members h' ob' = Object_Remove (members h ob) name" "changes_only {} {} {} h h'" "same_or_new h ob ob'" "keeps_names h ob h' ob'"
proof (cases ob)
  case (FRef r)
  obtain ob' h' where "Object_Remove_cell r name h = Some (ob', h')" "val_ok h' ob'" "is_obj_val h' ob'"
    "members h' ob' = Object_Remove (members h (FRef r)) name" "changes_only {} {} {} h h'" "same_or_new h (FRef r) ob'" "keeps_names h (FRef r) h' ob'"
    using Object_Remove_cell_facts assms FRef by blast
  then show thesis by (intro that [of ob' h']) (simp_all add: Object_Remove_val_def FRef)
next
  case (FVal j)
  then obtain kvs where j: "j = JObject kvs" using assms(2) by (auto simp: is_obj_val_def split: json.splits)
  let ?kvs = "map (\<lambda>(k, v). (k, FVal v)) kvs" and ?r = "length (cells h)"
  have names: "map fst ?kvs = map fst kvs" by (induction kvs) auto
  obtain c h1 where new: "NewObject ?kvs h = (c, h1)" by fastforce
  have "sorted_wrt (<) (map fst ?kvs)" unfolding names using assms(1) FVal j by (simp add: val_ok_def)
  note facts = NewObject_facts [OF new this]
  obtain ob' h' where rem: "Object_Remove_cell ?r name h1 = Some (ob', h')" "val_ok h' ob'" "is_obj_val h' ob'"
    "members h' ob' = Object_Remove ?kvs name" "changes_only {} {} {} h1 h'" "same_or_new h1 (FRef ?r) ob'" "keeps_names h1 (FRef ?r) h' ob'"
    using Object_Remove_cell_facts [of h1 ?r name] facts(1-4) by metis
  have "changes_only {} {} {} h h'" by (rule changes_only_trans [OF facts(5) rem(5)])
  moreover have "same_or_new h ob ob'" using rem(6) facts(7) by (auto simp: same_or_new_def)
  moreover have "own_names h1 (FRef ?r) \<subseteq> {length (names h)..}" "own_spare h1 (FRef ?r) = {}"
    using facts(6) by (auto simp: own_names_def own_spare_def obj_slice_def)
  then have "keeps_names h ob h' ob'" using rem(7) facts(9) by (auto simp: keeps_names_def)
  ultimately show thesis
    using rem FVal j new facts(1) by (intro that [of ob' h']) (simp_all add: Object_Remove_val_def ObjectBinary_clone_def members_def)
qed (use assms in \<open>auto simp: is_obj_val_def\<close>)

section \<open>Arrays\<close>

lemmas SetIdx_cell_defs = SetIdx_cell_def ArraySlice_SetIdx_def ArraySliceCompact_SetIdx_def ArraySliceCompactStrings_SetIdx_def
  Array_Len_def elements_def cell_elements_def

lemmas RemoveIdx_cell_defs = RemoveIdx_cell_def ArraySliceCompact_RemoveIdx_def ArraySliceCompactStrings_RemoveIdx_def

lemmas Slice_cell_defs = Slice_cell_def ArraySlice_Slice_def ArraySliceCompact_Slice_def ArraySliceCompactStrings_Slice_def

lemma all_strings_FString: "all_strings es = Some ss \<Longrightarrow> map FString ss = es"
proof (induction es arbitrary: ss)
  case (Cons e es)
  then obtain s ss' where "string_value e = Some s" "all_strings es = Some ss'" "ss = s # ss'"
    by (auto simp: all_strings_def split: option.splits)
  then show ?case using Cons.IH by (auto simp: string_value_def FString_def split: fval.splits json.splits)
qed (simp add: all_strings_def)

lemma all_strings_length: "all_strings es = Some ss \<Longrightarrow> length ss = length es"
  by (auto dest!: all_strings_FString)

definition own_files :: "heap \<Rightarrow> fval \<Rightarrow> nat set" where
  "own_files h v = (case v of FRef r \<Rightarrow> cell_files_base (cells h ! r) | _ \<Rightarrow> {})"

lemma NewArray_facts:
  assumes "slice_ok (files h) s" and "len s \<le> cap"
  obtains v h' where "NewArray s cap h = Some (v, h')" "v = FRef (length (cells h))" "val_ok h' v" "is_array h' v"
    "elements h' v = slice_get (files h) s" "changes_only {} {} {} h h'" "own_files h' v \<subseteq> {base s}"
proof -
  let ?es = "slice_get (files h) s"
  note result = that
  have new: "NewArray s cap h = Some (v, h') \<Longrightarrow> thesis" if "alloc c h = (v, h')" "cell_ok h c" "cell_elements h c = ?es"
      "c \<in> {ArraySlice s, ArrayCompact cap ?es} \<union> range (ArrayStrings cap)" for v h' c
    using that(1) changes_only_alloc [OF that(1)] that(2-4) assms(1)
    by (intro result [of v h'])
      (auto simp: alloc_def val_ok_def cell_ok_def is_array_def elements_def cell_elements_def own_files_def cell_files_base_def)
  show thesis
  proof (cases "if length ?es = 0 \<or> 32 < length ?es then None else all_strings ?es")
    case None
    let ?c = "if cap \<le> 32 then ArrayCompact cap ?es else ArraySlice s"
    have "NewArray s cap h = Some (alloc ?c h)" unfolding NewArray_def Let_def None using assms by simp
    then show thesis
      by (intro new [of ?c "FRef (length (cells h))" "h\<lparr>cells := cells h @ [?c]\<rparr>"])
        (use assms in \<open>auto simp: alloc_def cell_ok_def cell_elements_def\<close>)
  next
    case (Some ss)
    then have ss: "map FString ss = ?es" "0 < length ?es" "length ss = len s" using all_strings_FString all_strings_length assms(1) by (fastforce split: if_splits)+
    let ?c = "if cap \<le> 32 then ArrayStrings cap ss else ArraySlice s"
    have "NewArray s cap h = Some (alloc ?c h)" unfolding NewArray_def Let_def Some using assms ss by simp
    then show thesis
      by (intro new [of ?c "FRef (length (cells h))" "h\<lparr>cells := cells h @ [?c]\<rparr>"])
        (use ss assms in \<open>auto simp: alloc_def cell_ok_def cell_elements_def\<close>)
  qed
qed

lemma new_array_facts:
  assumes "length es \<le> cap"
  obtains v h' where "new_array es cap h = Some (v, h')" "v = FRef (length (cells h))" "val_ok h' v" "is_array h' v"
    "elements h' v = es" "changes_only {} {} {} h h'" "own_files h' v \<subseteq> {length (files h)}"
proof -
  obtain s fs where s: "make_slice es (files h) = (s, fs)" by fastforce
  note facts = make_slice_facts [OF s]
  let ?h = "h\<lparr>files := fs\<rparr>"
  have "changes_only {} {} {} h ?h" by (rule changes_only_files) (use facts(7,8) in auto)
  moreover obtain v h' where "NewArray s cap ?h = Some (v, h')" "v = FRef (length (cells ?h))" "val_ok h' v" "is_array h' v"
    "elements h' v = slice_get (files ?h) s" "changes_only {} {} {} ?h h'" "own_files h' v \<subseteq> {base s}"
    using NewArray_facts [of ?h s cap] facts assms by auto
  ultimately show thesis
    using facts s by (intro that [of v h']) (auto simp: new_array_def intro: changes_only_trans)
qed

lemma doubled_ge: "0 < p \<Longrightarrow> m \<le> doubled p m"
proof (induction p m rule: doubled.induct)
  case (1 p m)
  then show ?case by (cases "p < m") (simp_all add: doubled.simps [of p m])
qed

lemma compact_append_facts:
  obtains v h' where "compact_append es xs h = Some (v, h')" "v = FRef (length (cells h))" "val_ok h' v" "is_array h' v"
    "elements h' v = es @ xs" "changes_only {} {} {} h h'"
proof -
  have "length (es @ xs) \<le> doubled 1 (length es + length xs)" using doubled_ge [of 1 "length es + length xs"] by simp
  then show thesis using new_array_facts [of "es @ xs" _ h] that unfolding compact_append_def by blast
qed

lemma put_array_facts:
  assumes "r < length (cells h)" and "cell_ok h c" and "cell_elements h c = es" and "is_array (h\<lparr>cells := [c]\<rparr>) (FRef 0)"
  shows "val_ok (put r c h) (FRef r)" "is_array (put r c h) (FRef r)" "elements (put r c h) (FRef r) = es"
  using assms by (auto simp: put_def val_ok_def is_array_def elements_def cell_ok_def object_cell_ok_def cell_elements_def split: cell.splits)

lemma Append_cell_facts:
  assumes "val_ok h (FRef r)" and "is_array h (FRef r)"
  obtains a' h' where "Append_cell grow r xs h = Some (a', h')" "val_ok h' a'" "is_array h' a'"
    "elements h' a' = elements h (FRef r) @ xs" "changes_only {r} {} (own_files h (FRef r)) h h'" "same_or_new h (FRef r) a'"
proof (cases "cells h ! r")
  case (ArraySlice s)
  have r: "r < length (cells h)" "slice_ok (files h) s" using assms ArraySlice by (auto simp: val_ok_def cell_ok_def)
  obtain s' fs where s': "append_slice grow FNil s xs (files h) = (s', fs)" by fastforce
  note facts = append_slice_facts [OF s' r(2)]
  let ?h1 = "h\<lparr>files := fs\<rparr>"
  have "changes_only {} {} {base s} h ?h1" by (rule changes_only_files) (use facts(4,6) in auto)
  then have "changes_only {r} {} {base s} h ?h1" by (rule changes_only_mono) auto
  then have "changes_only {r} {} {base s} h (put r (ArraySlice s') ?h1)"
    by (rule changes_only_trans) (rule changes_only_mono [OF changes_only_put], auto)
  then show thesis
    using put_array_facts [of r ?h1 "ArraySlice s'"] facts(1,2) r s' ArraySlice
    by (intro that [of "FRef r" "put r (ArraySlice s') ?h1"])
      (auto simp: Append_cell_def ArraySlice_Append_def cell_ok_def cell_elements_def is_array_def elements_def own_files_def cell_files_base_def same_or_new_def)
next
  case (ArrayCompact cap es)
  have r: "r < length (cells h)" using assms by (simp add: val_ok_def)
  show thesis
  proof (cases "length es + length xs \<le> cap")
    case True
    have "changes_only {r} {} (own_files h (FRef r)) h (put r (ArrayCompact cap (es @ xs)) h)"
      by (rule changes_only_mono [OF changes_only_put]) auto
    then show thesis
      using put_array_facts [of r h "ArrayCompact cap (es @ xs)"] r ArrayCompact True
      by (intro that [of "FRef r" "put r (ArrayCompact cap (es @ xs)) h"])
        (auto simp: Append_cell_def ArraySliceCompact_Append_def cell_ok_def cell_elements_def is_array_def elements_def same_or_new_def)
  next
    case False
    obtain v h' where facts: "compact_append es xs h = Some (v, h')" "v = FRef (length (cells h))" "val_ok h' v" "is_array h' v"
      "elements h' v = es @ xs" "changes_only {} {} {} h h'" using compact_append_facts .
    have "changes_only {r} {} (own_files h (FRef r)) h h'" by (rule changes_only_mono [OF facts(6)]) auto
    then show thesis using facts ArrayCompact False
      by (intro that [of v h']) (auto simp: Append_cell_def ArraySliceCompact_Append_def elements_def [of h] cell_elements_def same_or_new_def)
  qed
next
  case (ArrayStrings cap ss)
  have r: "r < length (cells h)" using assms by (simp add: val_ok_def)
  show thesis
  proof (cases "if length ss + length xs \<le> cap then all_strings xs else None")
    case (Some ts)
    then have ts: "map FString ts = xs" "length ss + length xs \<le> cap" "length ts = length xs"
      using all_strings_FString all_strings_length by (auto split: if_splits)
    have "changes_only {r} {} (own_files h (FRef r)) h (put r (ArrayStrings cap (ss @ ts)) h)"
      by (rule changes_only_mono [OF changes_only_put]) auto
    then show thesis
      using put_array_facts [of r h "ArrayStrings cap (ss @ ts)"] r ArrayStrings Some ts
      by (intro that [of "FRef r" "put r (ArrayStrings cap (ss @ ts)) h"])
        (auto simp: Append_cell_def ArraySliceCompactStrings_Append_def cell_ok_def cell_elements_def is_array_def elements_def same_or_new_def)
  next
    case None
    obtain v h' where facts: "compact_append (map FString ss) xs h = Some (v, h')" "v = FRef (length (cells h))" "val_ok h' v" "is_array h' v"
      "elements h' v = map FString ss @ xs" "changes_only {} {} {} h h'" using compact_append_facts .
    have "changes_only {r} {} (own_files h (FRef r)) h h'" by (rule changes_only_mono [OF facts(6)]) auto
    then show thesis using facts ArrayStrings None
      by (intro that [of v h']) (auto simp: Append_cell_def ArraySliceCompactStrings_Append_def elements_def [of h] cell_elements_def same_or_new_def)
  qed
qed (use assms in \<open>auto simp: is_array_def\<close>)

lemma put_slice_facts:
  assumes "val_ok h (FRef r)" and "cells h ! r = ArraySlice s" and "length es = len s" and "n \<le> len s"
  defines "h' \<equiv> put r (ArraySlice (Slice (base s) (off s) n)) (h\<lparr>files := slice_put s es (files h)\<rparr>)"
  shows "val_ok h' (FRef r)" "is_array h' (FRef r)" "elements h' (FRef r) = take n es" "changes_only {r} {} (own_files h (FRef r)) h h'"
proof -
  have r: "r < length (cells h)" "slice_ok (files h) s" using assms(1,2) by (auto simp: val_ok_def cell_ok_def)
  note facts = slice_put_facts [OF r(2) assms(3)]
  let ?s = "Slice (base s) (off s) n" and ?h1 = "h\<lparr>files := slice_put s es (files h)\<rparr>"
  have ok: "slice_ok (slice_put s es (files h)) ?s" using facts(2) [OF r(2)] assms(4) by (auto simp: slice_ok_def)
  have "slice_get (slice_put s es (files h)) ?s = take n es"
    using facts(1) assms(4) by (auto simp: slice_get_def min_def) (metis min.absorb1 take_take)
  then show "val_ok h' (FRef r)" "is_array h' (FRef r)" "elements h' (FRef r) = take n es"
    using r ok unfolding h'_def by (simp_all add: put_def val_ok_def cell_ok_def is_array_def elements_def cell_elements_def)
  have "changes_only {} {} {base s} h ?h1" by (rule changes_only_files) (use facts(2,3) in auto)
  then have "changes_only {r} {} {base s} h ?h1" by (rule changes_only_mono) auto
  then have "changes_only {r} {} {base s} h h'" unfolding h'_def
    by (rule changes_only_trans) (rule changes_only_mono [OF changes_only_put], auto)
  then show "changes_only {r} {} (own_files h (FRef r)) h h'" by (simp add: own_files_def assms(2) cell_files_base_def)
qed

lemma put_same: "cells h ! r = c \<Longrightarrow> put r c (h\<lparr>files := fs\<rparr>) = h\<lparr>files := fs\<rparr>"
  by (cases h) (auto simp: put_def)

lemma SetIdx_cell_facts:
  assumes "val_ok h (FRef r)" and "is_array h (FRef r)" and "i < length (elements h (FRef r))"
  obtains a' h' where "SetIdx_cell r i v h = Some (a', h')" "val_ok h' a'" "is_array h' a'"
    "elements h' a' = (elements h (FRef r))[i := v]" "changes_only {r} {} (own_files h (FRef r)) h h'" "same_or_new h (FRef r) a'"
proof -
  have r: "r < length (cells h)" and i: "\<not> Array_Len h (FRef r) \<le> i" using assms by (simp_all add: val_ok_def Array_Len_def)
  show thesis
  proof (cases "cells h ! r")
    case (ArraySlice s)
    let ?es = "slice_get (files h) s"
    have es: "elements h (FRef r) = ?es" "length (?es[i := v]) = len s"
      using ArraySlice assms(1) by (simp_all add: elements_def cell_elements_def val_ok_def cell_ok_def)
    have "Slice (base s) (off s) (len s) = s" by (cases s) simp
    then show thesis
      using put_slice_facts [OF assms(1) ArraySlice es(2), of "len s"] put_same [OF ArraySlice] es ArraySlice i
      by (intro that [of "FRef r" "h\<lparr>files := slice_put s (?es[i := v]) (files h)\<rparr>"]) (simp_all add: SetIdx_cell_defs same_or_new_def)
  next
    case (ArrayCompact cap es)
    have "changes_only {r} {} (own_files h (FRef r)) h (put r (ArrayCompact cap (es[i := v])) h)"
      by (rule changes_only_mono [OF changes_only_put]) auto
    then show thesis
      using put_array_facts [of r h "ArrayCompact cap (es[i := v])"] r i ArrayCompact assms(1)
      by (intro that [of "FRef r" "put r (ArrayCompact cap (es[i := v])) h"])
        (auto simp: SetIdx_cell_defs val_ok_def cell_ok_def cell_elements_def is_array_def elements_def same_or_new_def)
  next
    case (ArrayStrings cap ss)
    show thesis
    proof (cases "string_value v")
      case (Some t)
      then have t: "v = FString t" by (auto simp: string_value_def FString_def split: fval.splits json.splits)
      have "changes_only {r} {} (own_files h (FRef r)) h (put r (ArrayStrings cap (ss[i := t])) h)"
        by (rule changes_only_mono [OF changes_only_put]) auto
      then show thesis
        using put_array_facts [of r h "ArrayStrings cap (ss[i := t])"] r i ArrayStrings assms(1) Some t
        by (intro that [of "FRef r" "put r (ArrayStrings cap (ss[i := t])) h"])
          (auto simp: SetIdx_cell_defs val_ok_def cell_ok_def cell_elements_def is_array_def elements_def same_or_new_def map_update)
    next
      case None
      have "length ((map FString ss)[i := v]) \<le> length ss" by simp
      then obtain a' h' where facts: "new_array ((map FString ss)[i := v]) (length ss) h = Some (a', h')" "a' = FRef (length (cells h))"
        "val_ok h' a'" "is_array h' a'" "elements h' a' = (map FString ss)[i := v]" "changes_only {} {} {} h h'"
        using new_array_facts by blast
      have "changes_only {r} {} (own_files h (FRef r)) h h'" by (rule changes_only_mono [OF facts(6)]) auto
      then show thesis
        using facts None ArrayStrings i by (intro that [of a' h']) (auto simp: SetIdx_cell_defs elements_def [of h] cell_elements_def same_or_new_def)
    qed
  qed (use assms in \<open>auto simp: is_array_def\<close>)
qed

lemma alloc_empty_facts:
  assumes "alloc (ArrayCompact 0 []) h = (v, h')"
  shows "val_ok h' v" "is_array h' v" "elements h' v = []" "changes_only R N F h h'" "same_or_new h w v"
  using assms changes_only_mono [OF changes_only_alloc [OF assms], of R N F]
  by (auto simp: alloc_def val_ok_def cell_ok_def is_array_def elements_def cell_elements_def same_or_new_def)

lemma RemoveIdx_cell_facts:
  assumes "val_ok h (FRef r)" and "is_array h (FRef r)" and "i < length (elements h (FRef r))"
  obtains a' h' where "RemoveIdx_cell r i h = Some (a', h')" "val_ok h' a'" "is_array h' a'"
    "elements h' a' = take i (elements h (FRef r)) @ drop (i + 1) (elements h (FRef r))"
    "changes_only {r} {} (own_files h (FRef r)) h h'" "same_or_new h (FRef r) a'"
proof -
  have r: "r < length (cells h)" using assms by (simp add: val_ok_def)
  obtain e eh where empty: "alloc (ArrayCompact 0 []) h = (e, eh)" by fastforce
  note empty_facts = alloc_empty_facts [OF empty]
  have one: "take i xs @ drop (i + 1) xs = []" if "length xs = 1" "i < length xs" for xs :: "'x list" using that by (cases xs) auto
  show thesis
  proof (cases "cells h ! r")
    case (ArraySlice s)
    let ?es = "slice_get (files h) s"
    have es: "elements h (FRef r) = ?es" "length ?es = len s"
      using ArraySlice assms(1) by (simp_all add: elements_def cell_elements_def val_ok_def cell_ok_def)
    let ?new = "take i ?es @ drop (i + 1) ?es @ [FNil]"
    have i: "i < len s" using assms(3) es by simp
    have new: "length ?new = len s" "len s - 1 \<le> len s" "take (len s - 1) ?new = take i ?es @ drop (i + 1) ?es" using es i by auto
    show thesis
      using put_slice_facts [OF assms(1) ArraySlice new(1,2)] new(3) es ArraySlice i
      by (intro that [of "FRef r" "put r (ArraySlice (Slice (base s) (off s) (len s - 1))) (h\<lparr>files := slice_put s ?new (files h)\<rparr>)"])
        (simp_all add: RemoveIdx_cell_defs ArraySlice_RemoveIdx_def Let_def same_or_new_def)
  next
    case (ArrayCompact cap es)
    then have es: "elements h (FRef r) = es" "i < length es" "length es \<le> cap"
      using assms by (auto simp: elements_def cell_elements_def val_ok_def cell_ok_def)
    show thesis
    proof (cases "length es = 1")
      case True
      then show thesis using empty empty_facts es one [of es] ArrayCompact
        by (intro that [of e eh]) (auto simp: RemoveIdx_cell_defs)
    next
      case False
      let ?h = "put r (ArrayCompact cap (removed_at es i)) h"
      have "changes_only {r} {} (own_files h (FRef r)) h ?h" by (rule changes_only_mono [OF changes_only_put]) auto
      then show thesis
        using put_array_facts [of r h "ArrayCompact cap (removed_at es i)"] r False ArrayCompact es
        by (intro that [of "FRef r" ?h]) (auto simp: RemoveIdx_cell_defs removed_at_def cell_ok_def cell_elements_def is_array_def same_or_new_def)
    qed
  next
    case (ArrayStrings cap ss)
    then have es: "elements h (FRef r) = map FString ss" "i < length ss" "length ss \<le> cap"
      using assms by (auto simp: elements_def cell_elements_def val_ok_def cell_ok_def)
    show thesis
    proof (cases "length ss = 1")
      case True
      then show thesis using empty empty_facts es one [of "map FString ss"] ArrayStrings
        by (intro that [of e eh]) (auto simp: RemoveIdx_cell_defs)
    next
      case False
      let ?h = "put r (ArrayStrings cap (removed_at ss i)) h"
      have "changes_only {r} {} (own_files h (FRef r)) h ?h" by (rule changes_only_mono [OF changes_only_put]) auto
      then show thesis
        using put_array_facts [of r h "ArrayStrings cap (removed_at ss i)"] r False ArrayStrings es
        by (intro that [of "FRef r" ?h]) (auto simp: RemoveIdx_cell_defs removed_at_def cell_ok_def cell_elements_def is_array_def same_or_new_def take_map drop_map)
    qed
  qed (use assms in \<open>auto simp: is_array_def\<close>)
qed

lemma changes_only_new_files: "changes_only R N (insert (length (files h)) F) h h' \<Longrightarrow> changes_only R N F h h'"
  unfolding changes_only_def by (auto simp: slice_ok_def)

text \<open>A binary array is copied first, and the change is made to the copy.\<close>

lemma binary_array_facts:
  assumes "val_ok h (FVal (JArray js))"
  obtains r h1 where "ArrayBinary_clone js h = Some (FRef r, h1)" "r = length (cells h)" "val_ok h1 (FRef r)" "is_array h1 (FRef r)"
    "elements h1 (FRef r) = elements h (FVal (JArray js))"
    "\<And>h'. changes_only {r} {} (own_files h1 (FRef r)) h1 h' \<Longrightarrow> changes_only {} {} {} h h'"
    "\<And>v. same_or_new h1 (FRef r) v \<Longrightarrow> same_or_new h (FVal (JArray js)) v"
proof -
  have "length (map FVal js) \<le> length js" by simp
  then obtain v h1 where new: "new_array (map FVal js) (length js) h = Some (v, h1)" "v = FRef (length (cells h))" "val_ok h1 v" "is_array h1 v"
    "elements h1 v = map FVal js" "changes_only {} {} {} h h1" "own_files h1 v \<subseteq> {length (files h)}"
    using new_array_facts by blast
  have only: "changes_only {} {} {} h h'" if "changes_only {length (cells h)} {} (own_files h1 v) h1 h'" for h'
  proof (rule changes_only_new, rule changes_only_new_files)
    have "changes_only {length (cells h)} {} {length (files h)} h h1" by (rule changes_only_mono [OF new(6)]) auto
    then show "changes_only {length (cells h)} {} {length (files h)} h h'"
      by (rule changes_only_trans) (rule changes_only_mono [OF that], use new(7) in auto)
  qed
  have "length (cells h) \<le> length (cells h1)" using new(6) by (simp add: changes_only_def)
  then have sn: "same_or_new h (FVal (JArray js)) w" if "same_or_new h1 v w" for w using that new(2) by (auto simp: same_or_new_def)
  show thesis
    by (rule that [of "length (cells h)" h1]) (use new only sn in \<open>simp_all add: ArrayBinary_clone_def elements_def [of h]\<close>)
qed

definition array_changed :: "heap \<Rightarrow> fval \<Rightarrow> fval list \<Rightarrow> (fval \<times> heap) option \<Rightarrow> bool" where
  "array_changed h a es res \<longleftrightarrow> (\<exists>a' h'. res = Some (a', h') \<and> val_ok h' a' \<and> is_array h' a' \<and> elements h' a' = es \<and>
     changes_only (own_cell a) {} (own_files h a) h h' \<and> same_or_new h a a')"

lemma array_cases:
  assumes "is_array h a"
  obtains (cell) r where "a = FRef r" | (binary) js where "a = FVal (JArray js)"
  using assms by (cases a) (auto simp: is_array_def split: json.splits)

lemma Array_Append_facts:
  assumes "val_ok h a" and "is_array h a"
  shows "array_changed h a (elements h a @ xs) (Array_Append grow a xs h)"
  using assms(2)
proof (cases rule: array_cases)
  case (cell r)
  then show ?thesis using Append_cell_facts [of h r grow xs] assms unfolding array_changed_def
    by (simp add: Array_Append_def own_cell_def) metis
next
  case (binary js)
  obtain r h1 where facts: "ArrayBinary_clone js h = Some (FRef r, h1)" "r = length (cells h)" "val_ok h1 (FRef r)" "is_array h1 (FRef r)"
    "elements h1 (FRef r) = elements h (FVal (JArray js))"
    "\<And>h'. changes_only {r} {} (own_files h1 (FRef r)) h1 h' \<Longrightarrow> changes_only {} {} {} h h'"
    "\<And>v. same_or_new h1 (FRef r) v \<Longrightarrow> same_or_new h (FVal (JArray js)) v"
    using binary_array_facts assms(1) binary by metis
  then show ?thesis using Append_cell_facts [OF facts(3,4), of grow xs] binary facts(6,7) unfolding array_changed_def
    by (simp add: Array_Append_def own_cell_def own_files_def) metis
qed

lemma Array_SetIdx_facts:
  assumes "val_ok h a" and "is_array h a" and "i < length (elements h a)"
  shows "array_changed h a ((elements h a)[i := v]) (Array_SetIdx a i v h)"
  using assms(2)
proof (cases rule: array_cases)
  case (cell r)
  then show ?thesis using SetIdx_cell_facts [of h r i v] assms unfolding array_changed_def
    by (simp add: Array_SetIdx_def own_cell_def) metis
next
  case (binary js)
  obtain r h1 where facts: "ArrayBinary_clone js h = Some (FRef r, h1)" "r = length (cells h)" "val_ok h1 (FRef r)" "is_array h1 (FRef r)"
    "elements h1 (FRef r) = elements h (FVal (JArray js))"
    "\<And>h'. changes_only {r} {} (own_files h1 (FRef r)) h1 h' \<Longrightarrow> changes_only {} {} {} h h'"
    "\<And>v. same_or_new h1 (FRef r) v \<Longrightarrow> same_or_new h (FVal (JArray js)) v"
    using binary_array_facts assms(1) binary by metis
  then show ?thesis using SetIdx_cell_facts [OF facts(3,4), of i v] binary assms(3) unfolding array_changed_def
    by (simp add: Array_SetIdx_def own_cell_def own_files_def) metis
qed

lemma Array_RemoveIdx_facts:
  assumes "val_ok h a" and "is_array h a" and "i < length (elements h a)"
  shows "array_changed h a (take i (elements h a) @ drop (i + 1) (elements h a)) (Array_RemoveIdx a i h)"
  using assms(2)
proof (cases rule: array_cases)
  case (cell r)
  then show ?thesis using RemoveIdx_cell_facts [of h r i] assms unfolding array_changed_def
    by (simp add: Array_RemoveIdx_def own_cell_def) metis
next
  case (binary js)
  obtain r h1 where facts: "ArrayBinary_clone js h = Some (FRef r, h1)" "r = length (cells h)" "val_ok h1 (FRef r)" "is_array h1 (FRef r)"
    "elements h1 (FRef r) = elements h (FVal (JArray js))"
    "\<And>h'. changes_only {r} {} (own_files h1 (FRef r)) h1 h' \<Longrightarrow> changes_only {} {} {} h h'"
    "\<And>v. same_or_new h1 (FRef r) v \<Longrightarrow> same_or_new h (FVal (JArray js)) v"
    using binary_array_facts assms(1) binary by metis
  then show ?thesis using RemoveIdx_cell_facts [OF facts(3,4), of i] binary assms(3) unfolding array_changed_def
    by (simp add: Array_RemoveIdx_def own_cell_def own_files_def) metis
qed

text \<open>Slices and copies change nothing.\<close>

lemma Slice_cell_facts:
  assumes "val_ok h (FRef r)" and "is_array h (FRef r)" and "i \<le> j" and "j \<le> length (elements h (FRef r))"
  obtains a' h' where "Slice_cell r i j h = Some (a', h')" "a' = FRef (length (cells h))" "val_ok h' a'" "is_array h' a'"
    "elements h' a' = take (j - i) (drop i (elements h (FRef r)))" "changes_only {} {} {} h h'"
proof (cases "\<exists>s. cells h ! r = ArraySlice s")
  case True
  then obtain s where r: "cells h ! r = ArraySlice s" by blast
  have s: "slice_ok (files h) s" using assms(1) r by (simp add: val_ok_def cell_ok_def)
  have es: "elements h (FRef r) = slice_get (files h) s" using r by (simp add: elements_def cell_elements_def)
  let ?s = "Slice (base s) (off s + i) (j - i)"
  have j: "j \<le> len s" using assms(4) es s by simp
  have ok: "slice_ok (files h) ?s" "len ?s \<le> j - i" using s j assms(3) by (auto simp: slice_ok_def)
  have get: "slice_get (files h) ?s = take (j - i) (drop i (slice_get (files h) s))"
    using j assms(3) by (simp add: slice_get_def drop_take min_def add.commute)
  show thesis
    by (rule NewArray_facts [OF ok]) (rule that; use r get es assms(3,4) in \<open>simp add: Slice_cell_defs\<close>)
next
  case False
  have "length (take (j - i) (drop i (elements h (FRef r)))) \<le> j - i" by simp
  then obtain v h' where new: "new_array (take (j - i) (drop i (elements h (FRef r)))) (j - i) h = Some (v, h')" "v = FRef (length (cells h))" "val_ok h' v"
    "is_array h' v" "elements h' v = take (j - i) (drop i (elements h (FRef r)))" "changes_only {} {} {} h h'"
    using new_array_facts by blast
  have "Slice_cell r i j h = new_array (take (j - i) (drop i (elements h (FRef r)))) (j - i) h"
    using False assms(2) by (cases "cells h ! r") (auto simp: Slice_cell_defs is_array_def elements_def cell_elements_def take_map drop_map)
  then show thesis using new by (intro that [of v h']) simp_all
qed

lemma Array_Slice_facts:
  assumes "val_ok h a" and "is_array h a" and "i \<le> j" and "j \<le> length (elements h a)"
  obtains a' h' where "Array_Slice a i j h = Some (a', h')" "\<exists>r. a' = FRef r \<and> length (cells h) \<le> r" "val_ok h' a'" "is_array h' a'"
    "elements h' a' = take (j - i) (drop i (elements h a))" "changes_only {} {} {} h h'"
  using assms(2)
proof (cases rule: array_cases)
  case (cell r)
  obtain a' h' where "Slice_cell r i j h = Some (a', h')" "a' = FRef (length (cells h))" "val_ok h' a'" "is_array h' a'"
    "elements h' a' = take (j - i) (drop i (elements h (FRef r)))" "changes_only {} {} {} h h'"
    using Slice_cell_facts assms cell by metis
  then show thesis using cell assms(3,4) by (intro that [of a' h']) (simp_all add: Array_Slice_def Array_Len_def)
next
  case (binary js)
  obtain r h1 where facts: "ArrayBinary_clone js h = Some (FRef r, h1)" "r = length (cells h)" "val_ok h1 (FRef r)" "is_array h1 (FRef r)"
    "elements h1 (FRef r) = elements h (FVal (JArray js))"
    "\<And>h'. changes_only {r} {} (own_files h1 (FRef r)) h1 h' \<Longrightarrow> changes_only {} {} {} h h'"
    using binary_array_facts assms(1) binary by metis
  have "j \<le> length (elements h1 (FRef r))" using facts(5) assms(4) binary by simp
  then obtain a' h' where sl: "Slice_cell r i j h1 = Some (a', h')" "a' = FRef (length (cells h1))" "val_ok h' a'" "is_array h' a'"
    "elements h' a' = take (j - i) (drop i (elements h1 (FRef r)))" "changes_only {} {} {} h1 h'"
    using Slice_cell_facts [OF facts(3,4) assms(3)] by metis
  have "changes_only {} {} {} h h'" by (rule facts(6)) (rule changes_only_mono [OF sl(6)], auto)
  moreover have "length (cells h) \<le> length (cells h1)" using facts(2,3) by (simp add: val_ok_def)
  ultimately show thesis using sl facts(1,5) binary assms(3,4) by (intro that [of a' h']) (simp_all add: Array_Slice_def Array_Len_def)
qed

lemma Clone_facts:
  assumes "val_ok h v"
  obtains v' h' where "Clone v h = Some (v', h')" "val_ok h' v'" "members h' v' = members h v" "elements h' v' = elements h v"
    "is_array h' v' = is_array h v" "is_obj_val h' v' = is_obj_val h v" "changes_only {} {} {} h h'"
proof (cases "is_array h v \<and> (\<exists>r. v = FRef r)")
  case True
  then obtain r where r: "v = FRef r" "is_array h (FRef r)" by blast
  let ?es = "elements h v"
  obtain v' h' where new: "new_array ?es (length ?es) h = Some (v', h')" "val_ok h' v'" "is_array h' v'" "elements h' v' = ?es" "changes_only {} {} {} h h'"
    using new_array_facts [OF order_refl, of ?es h] by blast
  have "members h' v' = []" "\<not> is_obj_val h' v'" "members h v = []" "\<not> is_obj_val h v"
    using new(3) r(2) unfolding r(1)
    by (auto simp: is_array_def is_obj_val_def members_def cell_names_def split: fval.splits cell.splits json.splits)
  then show thesis
    using new r by (intro that [of v' h']) (auto simp: Clone_def clone_array_def is_array_def elements_def split: cell.splits)
next
  case False
  show thesis
  proof (cases v)
    case (FRef r)
    define vs where "vs = cell_values (cells h ! r)"
    obtain s where c: "object_cell_ok h s (length vs)" "members h v = zip (slice_get (names h) s) vs" "Clone v h = Some (clone_cell s vs h)"
      using False assms FRef unfolding vs_def by (cases "cells h ! r")
        (auto simp: Clone_def clone_array_def val_ok_def cell_ok_def is_array_def members_def cell_names_def cell_values_def)
    obtain v' h' where clone: "clone_cell s vs h = (v', h')" by fastforce
    note facts = clone_cell_facts [OF c(1) clone]
    have "\<not> is_array h' v'" "elements h' v' = []" using facts(1,6) by (simp_all add: is_array_def elements_def cell_elements_def)
    moreover have "is_obj_val h v" "elements h v = []" using False FRef
      by (cases "cells h ! r"; simp add: is_array_def is_obj_val_def elements_def cell_elements_def)+
    ultimately show thesis using facts(2-5) c clone False FRef by (intro that [of v' h']) simp_all
  qed (use assms that [of v h] in \<open>auto simp: Clone_def clone_array_def\<close>)
qed

section \<open>Properties\<close>

lemma names_apart_untouched:
  assumes "names_apart h ob other" and "other \<noteq> ob"
  shows "untouched (own_cell ob) (own_spare h ob) {} h other"
  using assms
  by (cases other; cases ob)
    (auto simp: names_apart_def untouched_def own_cell_def own_spare_def spare_def obj_slice_def cell_names_base_def split: option.split cell.splits)

text \<open>C31. Setting a name of an object, whatever its representation: the result has the members of the sorted list with
  the name set, and every other object and array is as before, unless its names are in the array behind the names
  of the object and that array has room for another name.\<close>

theorem Object_Set_correct:
  assumes "val_ok h ob" and "is_obj_val h ob"
  shows "\<exists>ob' h'. Object_Set grow ob name v h = Some (ob', h') \<and> val_ok h' ob' \<and> members h' ob' = Object_setImpl (members h ob) name v \<and>
    (\<forall>other. val_ok h other \<and> other \<noteq> ob \<and> names_apart h ob other \<longrightarrow>
      val_ok h' other \<and> members h' other = members h other \<and> elements h' other = elements h other)"
proof -
  obtain ob' h' where facts: "Object_Set grow ob name v h = Some (ob', h')" "val_ok h' ob'" "is_obj_val h' ob'"
    "members h' ob' = Object_setImpl (members h ob) name v" "changes_only (own_cell ob) (own_spare h ob) {} h h'" "same_or_new h ob ob'" "keeps_names h ob h' ob'"
    using Object_Set_facts [OF assms] .
  then show ?thesis using changes_only_untouched [OF facts(5)] names_apart_untouched by blast
qed

text \<open>Two objects that do not share their names.\<close>

definition ex_heap :: heap where
  "ex_heap = \<lparr>cells = [ObjectMap (Slice 0 0 1) [FVal JNull], ObjectCompact (Slice 1 0 1) [FVal (JBool True)]],
     names = [[str ''b'', []], [str ''b'']], files = []\<rparr>"

lemma ex_heap_ok: "val_ok ex_heap (FRef 0)" "val_ok ex_heap (FRef 1)" "is_obj_val ex_heap (FRef 0)" "names_apart ex_heap (FRef 0) (FRef 1)"
  "members ex_heap (FRef 0) = [(str ''b'', FVal JNull)]" "members ex_heap (FRef 1) = [(str ''b'', FVal (JBool True))]"
  by (simp_all add: ex_heap_def val_ok_def cell_ok_def object_cell_ok_def slice_ok_def slice_get_def is_obj_val_def names_apart_def obj_slice_def
      members_def cell_names_def cell_values_def)

theorem Object_Set_correct_witness:
  "\<exists>ob' h'. Object_Set (\<lambda>c n. 2 * c) (FRef 0) (str ''a'') (FVal JNull) ex_heap = Some (ob', h') \<and>
     members h' ob' = [(str ''a'', FVal JNull), (str ''b'', FVal JNull)] \<and> members h' (FRef 1) = [(str ''b'', FVal (JBool True))]"
proof -
  have "Object_setImpl [(str ''b'', JNull)] (str ''a'') JNull = [(str ''a'', JNull), (str ''b'', JNull)]" by code_simp
  then have "Object_find [str ''b''] (str ''a'') = (0, False)" by code_simp
  then show ?thesis
    using Object_Set_correct [OF ex_heap_ok(1,3), of "\<lambda>c n. 2 * c" "str ''a''" "FVal JNull"] ex_heap_ok
    by (auto simp: Object_setImpl_def)
qed

text \<open>Appending to an array, setting and removing an element, whatever the representation: the result has the
  elements of the list, and every other object and array is as before, unless its elements are in the same array
  behind a slice.\<close>

theorem Array_changes_correct:
  assumes "val_ok h a" and "is_array h a"
    and "(es, res) \<in> {(elements h a @ xs, Array_Append grow a xs h)} \<union>
      (if i < length (elements h a) then {((elements h a)[i := v], Array_SetIdx a i v h),
        (take i (elements h a) @ drop (i + 1) (elements h a), Array_RemoveIdx a i h)} else {})"
  shows "\<exists>a' h'. res = Some (a', h') \<and> val_ok h' a' \<and> elements h' a' = es \<and>
    (\<forall>other. val_ok h other \<and> other \<noteq> a \<and> own_files h other \<inter> own_files h a = {} \<longrightarrow>
      val_ok h' other \<and> members h' other = members h other \<and> elements h' other = elements h other)"
proof -
  have "array_changed h a es res"
    using assms(3) Array_Append_facts [OF assms(1,2)] Array_SetIdx_facts [OF assms(1,2)] Array_RemoveIdx_facts [OF assms(1,2)]
    by (auto split: if_splits)
  then obtain a' h' where facts: "res = Some (a', h')" "val_ok h' a'" "elements h' a' = es" "changes_only (own_cell a) {} (own_files h a) h h'"
    by (auto simp: array_changed_def)
  have "untouched (own_cell a) {} (own_files h a) h other" if "other \<noteq> a" "own_files h other \<inter> own_files h a = {}" for other
    using that by (cases other; cases a) (auto simp: untouched_def own_cell_def own_files_def)
  then show ?thesis using facts changes_only_untouched [OF facts(4)] by blast
qed

theorem Array_changes_correct_witness:
  "\<exists>a' h'. Array_Append (\<lambda>c n. 2 * c) (FVal (JArray [JNull])) [FVal (JBool True)] ex_heap = Some (a', h') \<and>
     elements h' a' = [FVal JNull, FVal (JBool True)]"
proof -
  have ok: "val_ok ex_heap (FVal (JArray [JNull]))" "is_array ex_heap (FVal (JArray [JNull]))" by (simp_all add: val_ok_def is_array_def)
  show ?thesis
    using Array_changes_correct [OF ok, of "[FVal JNull, FVal (JBool True)]" _ "[FVal (JBool True)]" "\<lambda>c n. 2 * c" 0 FNil]
    by (auto simp: elements_def)
qed

text \<open>A copy of an object shares the names.  If the array behind them has room, setting a new name of the copy that
  sorts before another one gives that name to the original as well.\<close>

theorem shared_names_overwritten:
  assumes "val_ok h (FRef r)" and "cells h ! r = ObjectMap s vs" and "len s < slice_cap (names h) s"
    and "name \<notin> set (Names h (FRef r))" and "k \<in> set (Names h (FRef r))" and "name < k"
  shows "\<exists>c h1 c' h2. Clone (FRef r) h = Some (c, h1) \<and> Object_Set grow c name v h1 = Some (c', h2) \<and> name \<in> set (Names h2 (FRef r))"
proof -
  let ?ks = "slice_get (names h) s" and ?r = "length (cells h)"
  have ok: "r < ?r" "object_cell_ok h s (length vs)" "slice_ok (names h) s" "off s = 0" "length ?ks = length vs" "sorted_wrt (<) ?ks"
    using assms(1,2) by (auto simp: val_ok_def cell_ok_def object_cell_ok_def)
  have ks: "Names h (FRef r) = ?ks" using assms(2) by (simp add: Names_def cell_names_def)
  obtain i found where find: "Object_find ?ks name = (i, found)" by fastforce
  note sorted = Object_find_sorted [of "zip ?ks vs" name i found, unfolded map_fst_zip [OF ok(5)], OF ok(6) find]
  have "\<not> found" using sorted(3) assms(4) ks ok(5) by (auto simp: in_set_conv_nth)
  have i: "i < len s"
  proof (rule ccontr)
    assume "\<not> i < len s"
    then have "?ks ! x < name" if "x < length ?ks" for x using sorted(2) [rule_format, of x] that ok(3,5) by simp
    then have "\<forall>x \<in> set ?ks. x < name" by (auto simp: in_set_conv_nth)
    then show False using assms(5,6) ks by (metis less_asym)
  qed
  obtain c h1 where clone: "clone_cell s vs h = (c, h1)" by fastforce
  note cl = clone_cell_facts [OF ok(2) clone]
  obtain s' h2 where ins: "insert_name grow s i name h1 = (s', h2)" by fastforce
  note facts = insert_name_facts [OF ins, unfolded cl(8), OF ok(3,4) less_imp_le [OF i]]
  have s': "s' = Slice (base s) 0 (Suc (len s))"
    using ins assms(3) ok(4) cl(8) by (auto simp: insert_name_def append_slice_def Let_def)
  let ?h = "put ?r (ObjectMap s' (take i vs @ v # drop i vs)) h2"
  have set: "Object_Set grow c name v h1 = Some (FRef ?r, ?h)"
    using cl(1,6,8) find \<open>\<not> found\<close> ins by (simp add: Object_Set_def setImpl_cell_def ObjectMap_setImpl_def)
  have "slice_get (names h2) s = take (len s) (slice_get (names h2) s')"
    using s' ok(4) by (simp add: slice_get_def min_def)
  then have "name \<in> set (slice_get (names h2) s)" using facts(4) i ok(3,5) by (auto simp: take_Cons' not_less)
  moreover have "cells ?h ! r = ObjectMap s vs"
    using facts(6) cl(5) ok(1) assms(2) by (simp add: put_def changes_only_def)
  ultimately have "name \<in> set (Names ?h (FRef r))" by (simp add: Names_def cell_names_def put_def)
  moreover have "Clone (FRef r) h = Some (c, h1)" using assms(2) clone by (simp add: Clone_def clone_array_def)
  ultimately show ?thesis using set by blast
qed

text \<open>Three names set one after the other leave room for a fourth if an array of two grows to four, as Go's does.\<close>

definition three_names :: "(fval \<times> heap) option" where
  "three_names =
     (let (ob, h) = NewObject [] \<lparr>cells = [], names = [], files = []\<rparr>; grow = (\<lambda>c n. max (2 * c) n) in do {
        (ob, h) \<leftarrow> Object_Set grow ob (str ''b'') (FVal (JBool True)) h;
        (ob, h) \<leftarrow> Object_Set grow ob (str ''c'') (FVal (JBool False)) h;
        Object_Set grow ob (str ''d'') (FVal JNull) h })"

theorem shared_names_overwritten_witness:
  "\<exists>h c h1 c' h2. three_names = Some (FRef 0, h) \<and> Names h (FRef 0) = [str ''b'', str ''c'', str ''d''] \<and> Clone (FRef 0) h = Some (c, h1) \<and>
     Object_Set (\<lambda>c n. max (2 * c) n) c (str ''a'') (FVal JNull) h1 = Some (c', h2) \<and> str ''a'' \<in> set (Names h2 (FRef 0))"
proof -
  let ?s = "Slice 3 0 3" and ?vs = "[FVal (JBool True), FVal (JBool False), FVal JNull]"
    and ?names = "[[], [str ''b''], [str ''b'', str ''c''], [str ''b'', str ''c'', str ''d'', []]]"
  let ?h = "\<lparr>cells = [ObjectMap ?s ?vs], names = ?names, files = []\<rparr>"
  have "three_names = Some (FRef 0, ?h)" by code_simp
  moreover have "sorted_wrt (<) [str ''b'', str ''c'', str ''d'']" "str ''a'' \<notin> set [str ''b'', str ''c'', str ''d'']" "str ''a'' < str ''b''" by code_simp+
  moreover from this have "val_ok ?h (FRef 0)"
    by (simp add: val_ok_def cell_ok_def object_cell_ok_def slice_ok_def slice_get_def)
  moreover have names: "Names ?h (FRef 0) = [str ''b'', str ''c'', str ''d'']" by (simp add: Names_def cell_names_def slice_get_def)
  ultimately have "three_names = Some (FRef 0, ?h)" and
    "\<exists>c h1 c' h2. Clone (FRef 0) ?h = Some (c, h1) \<and> Object_Set (\<lambda>c n. max (2 * c) n) c (str ''a'') (FVal JNull) h1 = Some (c', h2) \<and>
      str ''a'' \<in> set (Names h2 (FRef 0))"
    using shared_names_overwritten [of ?h 0 ?s ?vs "str ''a''" "str ''b''" "\<lambda>c n. max (2 * c) n" "FVal JNull"]
    by (simp_all add: slice_cap_def names)
  then show ?thesis using names by blast
qed

end
