(* ===== verification/Store.thy ===== *)
theory Store
  imports Json_Heap_Correct "HOL-Library.AList" "HOL-Library.Sublist"
begin

text \<open>
  The in-memory store (src/pkg/storage/inmem: txn.go, inmem.go; src/pkg/storage/ptr).  A write transaction keeps a
  list of updates that \<open>Commit\<close> applies to the data, in place.  Data are values of the heap of \<open>Json_Heap\<close>, so that
  what the code changes in place is seen by everyone who shares it.

  The paths of the storage interface are lists of segments; \<open>Equal\<close> and \<open>HasPrefix\<close> on them come with the interface
  and are the argument \<open>P\<close>.  \<open>grow\<close> is the growth of slices.  Maps of the code are association lists here, in the
  order the code happens to go through them.
\<close>

type_synonym path = "gostring list"

record path_ops =
  Equal :: "path \<Rightarrow> path \<Rightarrow> bool"
  HasPrefix :: "path \<Rightarrow> path \<Rightarrow> bool"

definition path_laws :: "path_ops \<Rightarrow> bool" where
  "path_laws P \<longleftrightarrow> (\<forall>p q. Equal P p q \<longleftrightarrow> p = q) \<and> (\<forall>p q. HasPrefix P p q \<longleftrightarrow> prefix q p)"

datatype store_op = AddOp | RemoveOp | ReplaceOp

datatype store_error =
    InvalidTransaction
  | StoreNotFound
  | InvalidPatch
  | WriteConflict path
  | InternalErr

section \<open>Pointers\<close>

definition isInt :: "gostring \<Rightarrow> int option" where
  "isInt s = Number_Int64 s"

definition inRange :: "int \<Rightarrow> nat \<Rightarrow> store_error + nat" where
  "inRange i n = (if i < 0 \<or> int n \<le> i then Inl StoreNotFound else Inr (nat i))"

definition ValidateArrayIndex :: "heap \<Rightarrow> fval \<Rightarrow> gostring \<Rightarrow> store_error + nat" where
  "ValidateArrayIndex h arr s = (case isInt s of None \<Rightarrow> Inl StoreNotFound | Some i \<Rightarrow> inRange i (Array_Len h arr))"

fun Ptr :: "heap \<Rightarrow> fval \<Rightarrow> path \<Rightarrow> store_error + fval" where
  "Ptr h node [] = Inr node"
| "Ptr h node (key # path) =
     (if is_obj_val h node then
        let v = Object_value h node key in if v = FNil then Inl StoreNotFound else Ptr h v path
      else if is_array h node then
        (case ValidateArrayIndex h node key of Inl e \<Rightarrow> Inl e | Inr pos \<Rightarrow> Ptr h (elements h node ! pos) path)
      else Inl StoreNotFound)"

section \<open>Updates\<close>

record update =
  upath :: path
  uremove :: bool
  uvalue :: fval

type_synonym 'a outcome = "((store_error + 'a) \<times> heap) option"

definition is_scalar :: "fval \<Rightarrow> bool" where
  "is_scalar v = (case v of FVal j \<Rightarrow> (case j of JNull \<Rightarrow> True | JBool _ \<Rightarrow> True | JFloat _ \<Rightarrow> True | JString _ \<Rightarrow> True | _ \<Rightarrow> False) | _ \<Rightarrow> False)"

text \<open>\<open>data.Slice(0, n).Clone(false)\<close>: a copy of the first elements.\<close>

definition copy_prefix :: "fval \<Rightarrow> nat \<Rightarrow> heap \<Rightarrow> (fval \<times> heap) option" where
  "copy_prefix data n h = do { (s, h) \<leftarrow> Array_Slice data 0 n h; Clone s h }"

fun append_all :: "(nat \<Rightarrow> nat \<Rightarrow> nat) \<Rightarrow> fval \<Rightarrow> fval list \<Rightarrow> heap \<Rightarrow> (fval \<times> heap) option" where
  "append_all grow cpy [] h = Some (cpy, h)"
| "append_all grow cpy (x # xs) h = do { (cpy, h) \<leftarrow> Array_Append grow cpy [x] h; append_all grow cpy xs h }"

text \<open>An update of an element is an update of the whole array, at the path of the array.\<close>

definition newUpdateArray :: "(nat \<Rightarrow> nat \<Rightarrow> nat) \<Rightarrow> fval \<Rightarrow> store_op \<Rightarrow> path \<Rightarrow> gostring \<Rightarrow> fval \<Rightarrow> heap \<Rightarrow> update outcome" where
  "newUpdateArray grow data op path seg value h =
     (let n = Array_Len h data; whole = (\<lambda>(cpy, h). (Inr \<lparr>upath = butlast path, uremove = False, uvalue = cpy\<rparr>, h))
      in if seg = str ''-'' \<or> seg = FormatInt (int n) then
           if op \<noteq> AddOp then Some (Inl InvalidPatch, h)
           else map_option whole (do { (cpy, h) \<leftarrow> copy_prefix data n h; Array_Append grow cpy [value] h })
         else case ValidateArrayIndex h data seg of
           Inl e \<Rightarrow> Some (Inl e, h)
         | Inr pos \<Rightarrow> map_option whole (case op of
             AddOp \<Rightarrow> do {
               (cpy, h) \<leftarrow> copy_prefix data pos h;
               (cpy, h) \<leftarrow> Array_Append grow cpy [value] h;
               append_all grow cpy (drop pos (elements h data)) h }
           | RemoveOp \<Rightarrow> do { (cpy, h) \<leftarrow> copy_prefix data n h; Array_RemoveIdx cpy pos h }
           | ReplaceOp \<Rightarrow> do { (cpy, h) \<leftarrow> copy_prefix data n h; Array_SetIdx cpy pos value h }))"

definition newUpdateObject :: "fval \<Rightarrow> store_op \<Rightarrow> path \<Rightarrow> gostring \<Rightarrow> fval \<Rightarrow> heap \<Rightarrow> store_error + update" where
  "newUpdateObject data op path seg value h =
     (if op \<in> {ReplaceOp, RemoveOp} \<and> Object_value h data seg = FNil then Inl StoreNotFound
      else Inr \<lparr>upath = path, uremove = (op = RemoveOp), uvalue = value\<rparr>)"

text \<open>\<open>newUpdate\<close>; the second path is the part of the first from the current index on.\<close>

fun newUpdate :: "(nat \<Rightarrow> nat \<Rightarrow> nat) \<Rightarrow> fval \<Rightarrow> store_op \<Rightarrow> path \<Rightarrow> path \<Rightarrow> fval \<Rightarrow> heap \<Rightarrow> update outcome" where
  "newUpdate grow data op path [] value h =
     (if is_obj_val h data \<or> is_array h data then None
      else Some (Inl (if is_scalar data then StoreNotFound else InternalErr), h))"
| "newUpdate grow data op path (seg # rest) value h =
     (if is_obj_val h data then
        if rest = [] then Some (newUpdateObject data op path seg value h, h)
        else let v = Object_value h data seg in
          if v \<noteq> FNil then newUpdate grow v op path rest value h else Some (Inl StoreNotFound, h)
      else if is_array h data then
        if rest = [] then newUpdateArray grow data op path seg value h
        else (case ValidateArrayIndex h data seg of
            Inl e \<Rightarrow> Some (Inl e, h)
          | Inr pos \<Rightarrow> newUpdate grow (elements h data ! pos) op path rest value h)
      else Some (Inl (if is_scalar data then StoreNotFound else InternalErr), h))"

text \<open>\<open>set\<close>: objects are changed in place where their representation allows it, and stored again in the object above;
  an array is changed in place or copied, and never stored in the object above.\<close>

fun update_set :: "(nat \<Rightarrow> nat \<Rightarrow> nat) \<Rightarrow> fval \<Rightarrow> path \<Rightarrow> fval \<Rightarrow> heap \<Rightarrow> ((fval \<times> bool) \<times> heap) option" where
  "update_set grow data [] value h = Some ((value, True), h)"
| "update_set grow parent (seg # rest) value h =
     (if is_obj_val h parent then do {
        ((updated, ok), h) \<leftarrow> update_set grow (Object_value h parent seg) rest value h;
        if updated = FNil then do { (parent, h) \<leftarrow> Object_Remove_val parent seg h; Some ((parent, True), h) }
        else if ok then do { (parent, h) \<leftarrow> Object_Set grow parent seg updated h; Some ((parent, True), h) }
        else Some ((parent, False), h) }
      else if is_array h parent then do {
        idx \<leftarrow> Number_Int64 seg;
        existing \<leftarrow> Array_Value h parent idx;
        ((updated, ok), h) \<leftarrow> update_set grow existing rest value h;
        if updated = FNil then None
        else if ok then do { (parent, h) \<leftarrow> Array_SetIdx parent (nat idx) updated h; Some ((parent, False), h) }
        else Some ((parent, False), h) }
      else None)"

definition update_Apply :: "(nat \<Rightarrow> nat \<Rightarrow> nat) \<Rightarrow> update \<Rightarrow> fval \<Rightarrow> heap \<Rightarrow> (fval \<times> heap) option" where
  "update_Apply grow u data h =
     (if upath u = [] then Some (uvalue u, h)
      else do { ((data, _), h) \<leftarrow> update_set grow data (upath u) (if uremove u then FNil else uvalue u) h; Some (data, h) })"

definition update_Relative :: "update \<Rightarrow> path \<Rightarrow> update" where
  "update_Relative u p = u\<lparr>upath := drop (length p) (upath u)\<rparr>"

section \<open>Transactions\<close>

record policyUpdate =
  pvalue :: bytes
  premove :: bool

record store =
  sdata :: fval
  spolicies :: "(gostring \<times> bytes) list"
  sheap :: heap

record transaction =
  twrite :: bool
  tstale :: bool
  tupdates :: "update list"
  tpolicies :: "(gostring \<times> policyUpdate) list"

definition newTransaction :: "bool \<Rightarrow> transaction" where
  "newTransaction w = \<lparr>twrite = w, tstale = False, tupdates = [], tpolicies = []\<rparr>"

text \<open>The loop of \<open>Write\<close> over the updates: it ends with an error, with an update changed (\<open>Inr True\<close>), or with the updates
  that the new one does not replace (\<open>Inr False\<close>).  The updates it has removed stay removed.\<close>

fun Write_loop :: "path_ops \<Rightarrow> (nat \<Rightarrow> nat \<Rightarrow> nat) \<Rightarrow> store_op \<Rightarrow> path \<Rightarrow> fval \<Rightarrow> update list \<Rightarrow> heap \<Rightarrow> ((store_error + bool) \<times> update list \<times> heap) option" where
  "Write_loop P grow op path value [] h = Some (Inr False, [], h)"
| "Write_loop P grow op path value (u # us) h =
     (if Equal P (upath u) path then
        if uremove u \<and> op \<noteq> AddOp then Some (Inl StoreNotFound, u # us, h) else Some (Inr False, us, h)
      else if HasPrefix P (upath u) path then Write_loop P grow op path value us h
      else if HasPrefix P path (upath u) then
        if uremove u then Some (Inl StoreNotFound, u # us, h)
        else (let suffix = drop (length (upath u)) path in do {
          (r, h) \<leftarrow> newUpdate grow (uvalue u) op suffix suffix value h;
          case r of
            Inl e \<Rightarrow> Some (Inl e, u # us, h)
          | Inr new \<Rightarrow> do { (v, h) \<leftarrow> update_Apply grow new (uvalue u) h; Some (Inr True, u\<lparr>uvalue := v\<rparr> # us, h) } })
      else map_option (\<lambda>(r, us', h). (r, u # us', h)) (Write_loop P grow op path value us h))"

definition updateRoot :: "store_op \<Rightarrow> fval \<Rightarrow> heap \<Rightarrow> transaction \<Rightarrow> (store_error + unit) \<times> transaction" where
  "updateRoot op value h txn =
     (if op = RemoveOp then (Inl InvalidPatch, txn)
      else if \<not> is_obj_val h value then (Inl InvalidPatch, txn)
      else (Inr (), txn\<lparr>tupdates := [\<lparr>upath = [], uremove = False, uvalue = value\<rparr>]\<rparr>))"

definition transaction_Write ::
  "path_ops \<Rightarrow> (nat \<Rightarrow> nat \<Rightarrow> nat) \<Rightarrow> store_op \<Rightarrow> path \<Rightarrow> fval \<Rightarrow> transaction \<Rightarrow> store \<Rightarrow> ((store_error + unit) \<times> transaction \<times> store) option" where
  "transaction_Write P grow op path value txn db =
     (if \<not> twrite txn then Some (Inl InvalidTransaction, txn, db)
      else if path = [] then (let (r, txn) = updateRoot op value (sheap db) txn in Some (r, txn, db))
      else do {
        (r, us, h) \<leftarrow> Write_loop P grow op path value (tupdates txn) (sheap db);
        case r of
          Inl e \<Rightarrow> Some (Inl e, txn\<lparr>tupdates := us\<rparr>, db\<lparr>sheap := h\<rparr>)
        | Inr True \<Rightarrow> Some (Inr (), txn\<lparr>tupdates := us\<rparr>, db\<lparr>sheap := h\<rparr>)
        | Inr False \<Rightarrow> do {
            (n, h) \<leftarrow> newUpdate grow (sdata db) op path path value h;
            case n of
              Inl e \<Rightarrow> Some (Inl e, txn\<lparr>tupdates := us\<rparr>, db\<lparr>sheap := h\<rparr>)
            | Inr u \<Rightarrow> Some (Inr (), txn\<lparr>tupdates := u # us\<rparr>, db\<lparr>sheap := h\<rparr>) } })"

text \<open>The events for the triggers are those of the data and of the policies.\<close>

record event =
  dataEvents :: "(path \<times> fval \<times> bool) list"
  policyEvents :: "(gostring \<times> bytes \<times> bool) list"

fun Commit_data :: "(nat \<Rightarrow> nat \<Rightarrow> nat) \<Rightarrow> update list \<Rightarrow> fval \<Rightarrow> heap \<Rightarrow> (fval \<times> heap) option" where
  "Commit_data grow [] data h = Some (data, h)"
| "Commit_data grow (u # us) data h = do { (data, h) \<leftarrow> update_Apply grow u data h; Commit_data grow us data h }"

definition Commit_policies :: "(gostring \<times> policyUpdate) list \<Rightarrow> (gostring \<times> bytes) list \<Rightarrow> (gostring \<times> bytes) list" where
  "Commit_policies us ps = foldl (\<lambda>ps (pid, u). if premove u then AList.delete pid ps else AList.update pid (pvalue u) ps) ps us"

definition transaction_Commit :: "(nat \<Rightarrow> nat \<Rightarrow> nat) \<Rightarrow> transaction \<Rightarrow> store \<Rightarrow> (event \<times> store) option" where
  "transaction_Commit grow txn db = do {
     (data, h) \<leftarrow> Commit_data grow (tupdates txn) (sdata db) (sheap db);
     Some (\<lparr>dataEvents = map (\<lambda>u. (upath u, uvalue u, uremove u)) (tupdates txn),
            policyEvents = map (\<lambda>(pid, u). (pid, pvalue u, premove u)) (tpolicies txn)\<rparr>,
       db\<lparr>sdata := data, spolicies := Commit_policies (tpolicies txn) (spolicies db), sheap := h\<rparr>) }"

text \<open>The loop of \<open>Read\<close>: the answer of an update at or above the path, or the updates below it.\<close>

fun Read_loop :: "path_ops \<Rightarrow> path \<Rightarrow> update list \<Rightarrow> heap \<Rightarrow> (store_error + fval) + update list" where
  "Read_loop P path [] h = Inr []"
| "Read_loop P path (u # us) h =
     (if HasPrefix P path (upath u) then
        Inl (if uremove u then Inl StoreNotFound else Ptr h (uvalue u) (drop (length (upath u)) path))
      else if HasPrefix P (upath u) path then (case Read_loop P path us h of Inl r \<Rightarrow> Inl r | Inr ms \<Rightarrow> Inr (u # ms))
      else Read_loop P path us h)"

fun apply_all :: "(nat \<Rightarrow> nat \<Rightarrow> nat) \<Rightarrow> path \<Rightarrow> update list \<Rightarrow> fval \<Rightarrow> heap \<Rightarrow> (fval \<times> heap) option" where
  "apply_all grow path [] cpy h = Some (cpy, h)"
| "apply_all grow path (u # us) cpy h = do { (cpy, h) \<leftarrow> update_Apply grow (update_Relative u path) cpy h; apply_all grow path us cpy h }"

text \<open>\<open>fuel\<close> bounds the depth of the data for the deep copy.\<close>

definition transaction_Read :: "path_ops \<Rightarrow> (nat \<Rightarrow> nat \<Rightarrow> nat) \<Rightarrow> nat \<Rightarrow> path \<Rightarrow> transaction \<Rightarrow> store \<Rightarrow> ((store_error + fval) \<times> store) option" where
  "transaction_Read P grow fuel path txn db =
     (if \<not> twrite txn then Some (Ptr (sheap db) (sdata db) path, db)
      else case Read_loop P path (tupdates txn) (sheap db) of
        Inl r \<Rightarrow> Some (r, db)
      | Inr merge \<Rightarrow> (case Ptr (sheap db) (sdata db) path of
          Inl e \<Rightarrow> Some (Inl e, db)
        | Inr data \<Rightarrow>
            if merge = [] then Some (Inr data, db)
            else do {
              (cpy, h) \<leftarrow> Clone_deep fuel data (sheap db);
              (cpy, h) \<leftarrow> apply_all grow path merge cpy h;
              Some (Inr cpy, db\<lparr>sheap := h\<rparr>) }))"

section \<open>Policies\<close>

definition ListPolicies :: "transaction \<Rightarrow> store \<Rightarrow> gostring list" where
  "ListPolicies txn db =
     filter (\<lambda>pid. map_of (tpolicies txn) pid = None) (map fst (spolicies db)) @
     map fst (filter (\<lambda>(_, u). \<not> premove u) (tpolicies txn))"

definition GetPolicy :: "gostring \<Rightarrow> transaction \<Rightarrow> store \<Rightarrow> store_error + bytes" where
  "GetPolicy pid txn db = (case map_of (tpolicies txn) pid of
     Some u \<Rightarrow> if premove u then Inl StoreNotFound else Inr (pvalue u)
   | None \<Rightarrow> (case map_of (spolicies db) pid of Some bs \<Rightarrow> Inr bs | None \<Rightarrow> Inl StoreNotFound))"

definition UpsertPolicy :: "gostring \<Rightarrow> bytes \<Rightarrow> transaction \<Rightarrow> (store_error + unit) \<times> transaction" where
  "UpsertPolicy pid bs txn =
     (if \<not> twrite txn then (Inl InvalidTransaction, txn)
      else (Inr (), txn\<lparr>tpolicies := AList.update pid \<lparr>pvalue = bs, premove = False\<rparr> (tpolicies txn)\<rparr>))"

definition DeletePolicy :: "gostring \<Rightarrow> transaction \<Rightarrow> (store_error + unit) \<times> transaction" where
  "DeletePolicy pid txn =
     (if \<not> twrite txn then (Inl InvalidTransaction, txn)
      else (Inr (), txn\<lparr>tpolicies := AList.update pid \<lparr>pvalue = [], premove = True\<rparr> (tpolicies txn)\<rparr>))"

text \<open>\<open>DeletePolicy\<close> of the store checks first that the policy is there.\<close>

definition store_DeletePolicy :: "gostring \<Rightarrow> transaction \<Rightarrow> store \<Rightarrow> (store_error + unit) \<times> transaction" where
  "store_DeletePolicy pid txn db =
     (if tstale txn then (Inl InvalidTransaction, txn)
      else case GetPolicy pid txn db of Inl e \<Rightarrow> (Inl e, txn) | Inr _ \<Rightarrow> DeletePolicy pid txn)"

end
