(* ===== verification/Store_Correct.thy ===== *)
theory Store_Correct
  imports Store
begin

text \<open>
  The updates of the store do to the data in memory what they say, as long as what they write is not shared: the
  document that the data stand for changes at the path of the update and nowhere else.
\<close>

section \<open>Footprints\<close>

text \<open>What a value occupies: its cells, the arrays behind its names, those of them with room for another name, and
  the arrays behind its slices of elements.\<close>

record footprint =
  fcells :: "nat set"
  fnames :: "nat set"
  fspare :: "nat set"
  ffiles :: "nat set"

definition fp_empty :: footprint where
  "fp_empty = \<lparr>fcells = {}, fnames = {}, fspare = {}, ffiles = {}\<rparr>"

definition fp_join :: "footprint \<Rightarrow> footprint \<Rightarrow> footprint" where
  "fp_join f g = \<lparr>fcells = fcells f \<union> fcells g, fnames = fnames f \<union> fnames g, fspare = fspare f \<union> fspare g, ffiles = ffiles f \<union> ffiles g\<rparr>"

text \<open>Names may be shared if the array behind them is full.\<close>

definition fp_apart :: "footprint \<Rightarrow> footprint \<Rightarrow> bool" where
  "fp_apart f g \<longleftrightarrow> fcells f \<inter> fcells g = {} \<and> fnames f \<inter> fspare g = {} \<and> fspare f \<inter> fnames g = {} \<and> ffiles f \<inter> ffiles g = {}"

definition fp_own :: "heap \<Rightarrow> fval \<Rightarrow> footprint" where
  "fp_own h v = \<lparr>fcells = own_cell v, fnames = own_names h v, fspare = own_spare h v, ffiles = own_files h v\<rparr>"

lemma fp_join_simps [simp]:
  "fcells (fp_join f g) = fcells f \<union> fcells g" "fnames (fp_join f g) = fnames f \<union> fnames g"
  "fspare (fp_join f g) = fspare f \<union> fspare g" "ffiles (fp_join f g) = ffiles f \<union> ffiles g"
  "fcells fp_empty = {}" "fnames fp_empty = {}" "fspare fp_empty = {}" "ffiles fp_empty = {}"
  "fp_join fp_empty f = f" "fp_join f fp_empty = f"
  by (simp_all add: fp_join_def fp_empty_def)

lemma fp_join_ac: "fp_join f g = fp_join g f" "fp_join (fp_join f g) k = fp_join f (fp_join g k)" "fp_join f (fp_join g k) = fp_join g (fp_join f k)"
  by (auto simp: fp_join_def)

lemma fp_apart_simps [simp]:
  "fp_apart (fp_join f g) k \<longleftrightarrow> fp_apart f k \<and> fp_apart g k" "fp_apart k (fp_join f g) \<longleftrightarrow> fp_apart k f \<and> fp_apart k g"
  "fp_apart fp_empty k" "fp_apart k fp_empty"
  by (auto simp: fp_apart_def)

lemma fp_apart_sym: "fp_apart f g \<Longrightarrow> fp_apart g f"
  by (auto simp: fp_apart_def)

lemma fp_own_FVal [simp]: "fp_own h (FVal j) = fp_empty" "fp_own h FNil = fp_empty"
  by (simp_all add: fp_own_def fp_empty_def own_cell_def own_names_def own_spare_def obj_slice_def own_files_def)

section \<open>Values that stand for documents\<close>

text \<open>A value stands for a document with a footprint; its parts do not share what could be changed in place.\<close>

inductive rep :: "heap \<Rightarrow> fval \<Rightarrow> json \<Rightarrow> footprint \<Rightarrow> bool"
  and reps :: "heap \<Rightarrow> fval list \<Rightarrow> json list \<Rightarrow> footprint \<Rightarrow> bool" for h where
  rep_val: "document j \<Longrightarrow> rep h (FVal j) j fp_empty"
| rep_array: "val_ok h (FRef r) \<Longrightarrow> is_array h (FRef r) \<Longrightarrow> reps h (elements h (FRef r)) js f \<Longrightarrow> fp_apart (fp_own h (FRef r)) f \<Longrightarrow>
    rep h (FRef r) (JArray js) (fp_join (fp_own h (FRef r)) f)"
| rep_object: "val_ok h (FRef r) \<Longrightarrow> is_obj_val h (FRef r) \<Longrightarrow> reps h (map snd (members h (FRef r))) (map snd kvs) f \<Longrightarrow>
    map fst (members h (FRef r)) = map fst kvs \<Longrightarrow> fp_apart (fp_own h (FRef r)) f \<Longrightarrow>
    rep h (FRef r) (JObject kvs) (fp_join (fp_own h (FRef r)) f)"
| reps_Nil: "reps h [] [] fp_empty"
| reps_Cons: "rep h v j f \<Longrightarrow> reps h vs js g \<Longrightarrow> fp_apart f g \<Longrightarrow> reps h (v # vs) (j # js) (fp_join f g)"

inductive_cases reps_NilE: "reps h [] js f"
inductive_cases reps_ConsE: "reps h (v # vs) js f"
inductive_cases rep_FNilE: "rep h FNil j f"
inductive_cases rep_FValE: "rep h (FVal i) j f"
inductive_cases rep_objectE: "rep h v (JObject kvs) f"

lemma rep_not_nil: "rep h v j f \<Longrightarrow> v \<noteq> FNil"
  by (auto elim: rep.cases)

lemma rep_val_ok: "rep h v j f \<Longrightarrow> val_ok h v"
  by (auto elim: rep.cases simp: val_ok_def)

lemma own_names_base: "own_names h (FRef r) = cell_names_base (cells h ! r)"
  by (simp add: own_names_def obj_slice_def cell_names_base_def split: cell.split)

lemma own_spare_names: "own_spare h v \<subseteq> own_names h v"
  by (auto simp: own_spare_def own_names_def spare_def split: option.split)

text \<open>Changes elsewhere leave what a value stands for.\<close>

lemma fp_own_frame:
  assumes "changes_only R N F h h'" and "val_ok h v" and "fcells (fp_own h v) \<inter> R = {}" and "fnames (fp_own h v) \<inter> N = {}" and "ffiles (fp_own h v) \<inter> F = {}"
  shows "untouched R N F h v" and "fp_own h' v = fp_own h v"
proof -
  show u: "untouched R N F h v"
    using assms(3-5) by (cases v) (auto simp: untouched_def fp_own_def own_cell_def own_names_base own_files_def)
  note facts = changes_only_untouched [OF assms(1,2) u]
  show "fp_own h' v = fp_own h v"
  proof (cases v)
    case (FRef r)
    then have cell: "cells h' ! r = cells h ! r" using assms(1-3) by (auto simp: changes_only_def val_ok_def fp_own_def own_cell_def)
    have "spare h' s = spare h s" if "obj_slice h v = Some s" for s
    proof -
      have "base s < length (names h)" using assms(2) FRef that
        by (auto simp: val_ok_def cell_ok_def object_cell_ok_def slice_ok_def obj_slice_def split: cell.splits)
      then show ?thesis using assms(1) by (simp add: spare_def slice_cap_def changes_only_def)
    qed
    then show ?thesis using facts(7) cell FRef by (auto simp: fp_own_def own_names_def own_spare_def own_files_def split: option.split)
  qed simp_all
qed

lemma rep_frame:
  "rep h v j f \<Longrightarrow> changes_only R N F h h' \<Longrightarrow> fcells f \<inter> R = {} \<Longrightarrow> fnames f \<inter> N = {} \<Longrightarrow> ffiles f \<inter> F = {} \<Longrightarrow> rep h' v j f"
  "reps h vs js f \<Longrightarrow> changes_only R N F h h' \<Longrightarrow> fcells f \<inter> R = {} \<Longrightarrow> fnames f \<inter> N = {} \<Longrightarrow> ffiles f \<inter> F = {} \<Longrightarrow> reps h' vs js f"
proof (induction v j f and vs js f rule: rep_reps.inducts)
  case (rep_array r js f)
  note own = fp_own_frame [OF rep_array(6) rep_array(1)]
  have u: "untouched R N F h (FRef r)" "fp_own h' (FRef r) = fp_own h (FRef r)" using rep_array(6-9) by (auto intro!: own simp: Int_Un_distrib2)
  note facts = changes_only_untouched [OF rep_array(6) rep_array(1) u(1)]
  have "reps h' (elements h (FRef r)) js f" using rep_array(6-9) by (intro rep_array(4)) (auto simp: Int_Un_distrib2)
  then show ?case using rep_reps.rep_array [of h' r js f] rep_array(1,2,5) facts u(2) by simp
next
  case (rep_object r kvs f)
  note own = fp_own_frame [OF rep_object(7) rep_object(1)]
  have u: "untouched R N F h (FRef r)" "fp_own h' (FRef r) = fp_own h (FRef r)" using rep_object(7-10) by (auto intro!: own simp: Int_Un_distrib2)
  note facts = changes_only_untouched [OF rep_object(7) rep_object(1) u(1)]
  have "reps h' (map snd (members h (FRef r))) (map snd kvs) f" using rep_object(7-10) by (intro rep_object(4)) (auto simp: Int_Un_distrib2)
  then show ?case using rep_reps.rep_object [of h' r kvs f] rep_object(1,2,5,6) facts u(2) by simp
next
  case (reps_Cons v j f vs js g)
  then show ?case by (intro rep_reps.reps_Cons) (auto simp: Int_Un_distrib2)
qed (auto intro: rep_reps.intros)

text \<open>Footprints are inside the heap.\<close>

definition fp_inside :: "heap \<Rightarrow> footprint \<Rightarrow> bool" where
  "fp_inside h f \<longleftrightarrow> fcells f \<subseteq> {..<length (cells h)} \<and> fnames f \<subseteq> {..<length (names h)} \<and> fspare f \<subseteq> fnames f \<and> ffiles f \<subseteq> {..<length (files h)}"

lemma fp_inside_own: "val_ok h v \<Longrightarrow> fp_inside h (fp_own h v)"
  using own_spare_names [of h v]
  by (cases v) (auto simp: fp_inside_def fp_own_def fp_empty_def own_cell_def val_ok_def own_names_base cell_names_base_def own_files_def
      cell_files_base_def cell_ok_def object_cell_ok_def slice_ok_def own_names_def obj_slice_def own_spare_def split: cell.splits)

lemma rep_inside: "rep h v j f \<Longrightarrow> fp_inside h f" "reps h vs js f \<Longrightarrow> fp_inside h f"
proof (induction v j f and vs js f rule: rep_reps.inducts)
  case (rep_array r js f)
  then show ?case using fp_inside_own [of h "FRef r"] by (auto simp: fp_inside_def)
next
  case (rep_object r kvs f)
  then show ?case using fp_inside_own [of h "FRef r"] by (auto simp: fp_inside_def)
qed (auto simp: fp_inside_def)

lemma rep_document: "rep h v j f \<Longrightarrow> document j" "reps h vs js f \<Longrightarrow> \<forall>j \<in> set js. document j"
proof (induction v j f and vs js f rule: rep_reps.inducts)
  case (rep_object r kvs f)
  have "sorted_wrt (<) (map fst (members h (FRef r)))"
    using rep_object(1,2) by (auto simp: val_ok_def cell_ok_def object_cell_ok_def is_obj_val_def members_def cell_names_def cell_values_def split: cell.splits)
  then show ?case using rep_object by auto
qed auto

section \<open>Parts of a value\<close>

lemma reps_append:
  "reps h (xs @ ys) js f \<longleftrightarrow> (\<exists>js1 js2 f1 f2. js = js1 @ js2 \<and> reps h xs js1 f1 \<and> reps h ys js2 f2 \<and> f = fp_join f1 f2 \<and> fp_apart f1 f2)"
proof (induction xs arbitrary: js f)
  case Nil
  have "reps h ys js f \<Longrightarrow> \<exists>js1 js2 f1 f2. js = js1 @ js2 \<and> reps h [] js1 f1 \<and> reps h ys js2 f2 \<and> f = fp_join f1 f2 \<and> fp_apart f1 f2"
    by (rule exI [of _ "[]"], rule exI [of _ js], rule exI [of _ fp_empty], rule exI [of _ f]) (auto intro: rep_reps.reps_Nil)
  then show ?case by (auto elim!: reps_NilE)
next
  case (Cons x xs)
  show ?case
  proof
    assume "reps h ((x # xs) @ ys) js f"
    then obtain j js' f0 g where x: "js = j # js'" "rep h x j f0" "reps h (xs @ ys) js' g" "f = fp_join f0 g" "fp_apart f0 g"
      by (auto elim: reps_ConsE)
    then obtain js1 js2 f1 f2 where "js' = js1 @ js2" "reps h xs js1 f1" "reps h ys js2 f2" "g = fp_join f1 f2" "fp_apart f1 f2"
      using Cons.IH by blast
    then show "\<exists>js1 js2 f1 f2. js = js1 @ js2 \<and> reps h (x # xs) js1 f1 \<and> reps h ys js2 f2 \<and> f = fp_join f1 f2 \<and> fp_apart f1 f2"
      using x rep_reps.reps_Cons [of h x j f0 xs js1 f1]
      by (intro exI [of _ "j # js1"] exI [of _ js2] exI [of _ "fp_join f0 f1"] exI [of _ f2]) (auto simp: fp_join_ac)
  next
    assume "\<exists>js1 js2 f1 f2. js = js1 @ js2 \<and> reps h (x # xs) js1 f1 \<and> reps h ys js2 f2 \<and> f = fp_join f1 f2 \<and> fp_apart f1 f2"
    then obtain j js1 js2 f0 f1 f2 where x: "js = j # js1 @ js2" "rep h x j f0" "reps h xs js1 f1" "reps h ys js2 f2"
      "f = fp_join (fp_join f0 f1) f2" "fp_apart f0 f1" "fp_apart (fp_join f0 f1) f2"
      by (auto elim!: reps_ConsE)
    then have "reps h (xs @ ys) (js1 @ js2) (fp_join f1 f2)" using Cons.IH by auto
    then show "reps h ((x # xs) @ ys) js f" using x rep_reps.reps_Cons [of h x j f0 "xs @ ys" "js1 @ js2" "fp_join f1 f2"] by (auto simp: fp_join_ac(2))
  qed
qed

lemma reps_length: "reps h vs js f \<Longrightarrow> length vs = length js"
  by (induction vs arbitrary: js f) (auto elim: reps_NilE reps_ConsE)

lemma reps_insert:
  assumes "reps h vs js f" and "i \<le> length vs" and "rep h w k g" and "fp_apart f g"
  shows "reps h (take i vs @ w # drop i vs) (take i js @ k # drop i js) (fp_join f g)"
proof -
  obtain js1 js2 f1 f2 where p: "js = js1 @ js2" "reps h (take i vs) js1 f1" "reps h (drop i vs) js2 f2" "f = fp_join f1 f2" "fp_apart f1 f2"
    using assms(1) reps_append [of h "take i vs" "drop i vs"] by auto
  have "length js1 = i" using reps_length [OF p(2)] assms(2) by simp
  moreover have "reps h (w # drop i vs) (k # js2) (fp_join g f2)"
    using rep_reps.reps_Cons [OF assms(3) p(3)] assms(4) p(4) fp_apart_sym by auto
  ultimately show ?thesis
    unfolding reps_append using p assms(4) by (intro exI [of _ js1] exI [of _ "k # js2"] exI [of _ f1] exI [of _ "fp_join g f2"]) (auto simp: fp_join_ac)
qed

lemma reps_split:
  assumes "reps h vs js f" and "i < length vs"
  obtains c g where "rep h (vs ! i) (js ! i) c" "reps h (take i vs @ drop (Suc i) vs) (take i js @ drop (Suc i) js) g" "f = fp_join c g" "fp_apart c g"
proof -
  have vs: "vs = take i vs @ vs ! i # drop (Suc i) vs" using assms(2) by (rule id_take_nth_drop)
  obtain js1 js2 f1 f2 where p: "js = js1 @ js2" "reps h (take i vs) js1 f1" "reps h (vs ! i # drop (Suc i) vs) js2 f2" "f = fp_join f1 f2" "fp_apart f1 f2"
    using assms(1) reps_append [of h "take i vs" "vs ! i # drop (Suc i) vs"] vs by auto
  obtain j js3 c g where q: "js2 = j # js3" "rep h (vs ! i) j c" "reps h (drop (Suc i) vs) js3 g" "f2 = fp_join c g" "fp_apart c g"
    using p(3) by (auto elim: reps_ConsE)
  have "length js1 = i" using reps_length [OF p(2)] assms(2) by simp
  then have js: "js ! i = j" "take i js = js1" "drop (Suc i) js = js3" using p(1) q(1) by (auto simp: nth_append)
  have "reps h (take i vs @ drop (Suc i) vs) (js1 @ js3) (fp_join f1 g)"
    unfolding reps_append using p q by (intro exI [of _ js1] exI [of _ js3] exI [of _ f1] exI [of _ g]) auto
  then show thesis using q p js fp_apart_sym by (intro that [of c "fp_join f1 g"]) (auto simp: fp_join_ac)
qed

lemma reps_vals: "\<forall>j \<in> set js. document j \<Longrightarrow> reps h (map FVal js) js fp_empty"
proof (induction js)
  case (Cons j js)
  then show ?case using rep_reps.reps_Cons [of h "FVal j" j fp_empty "map FVal js" js fp_empty] by (auto intro: rep_reps.rep_val)
qed (simp add: rep_reps.reps_Nil)

lemma rep_object_parts:
  assumes "rep h ob (JObject kvs) f"
  obtains g where "val_ok h ob" "is_obj_val h ob" "map fst (members h ob) = map fst kvs" "reps h (map snd (members h ob)) (map snd kvs) g"
    "f = fp_join (fp_own h ob) g" "fp_apart (fp_own h ob) g"
proof (cases ob)
  case FNil
  then show thesis using assms by (auto elim: rep_FNilE)
next
  case (FVal i)
  then have i: "i = JObject kvs" "f = fp_empty" using assms by (auto elim: rep_FValE)
  have docs: "document (JObject kvs)" using rep_document(1) [OF assms] .
  have "map snd (members h ob) = map FVal (map snd kvs)" "map fst (members h ob) = map fst kvs"
    using FVal i by (auto simp: members_def)
  moreover have "reps h (map FVal (map snd kvs)) (map snd kvs) fp_empty" using docs by (intro reps_vals) auto
  ultimately show thesis using FVal i rep_val_ok [OF assms] by (intro that [of fp_empty]) (auto simp: is_obj_val_def)
next
  case (FRef r)
  then show thesis using assms that by (auto elim!: rep_objectE)
qed

lemma rep_object_back:
  assumes "val_ok h (FRef r)" and "is_obj_val h (FRef r)" and "members h (FRef r) = m" and "map fst m = map fst kvs"
    and "reps h (map snd m) (map snd kvs) g" and "fp_apart (fp_own h (FRef r)) g"
  shows "rep h (FRef r) (JObject kvs) (fp_join (fp_own h (FRef r)) g)"
  using assms by (auto intro: rep_reps.rep_object)

section \<open>What grows\<close>

text \<open>A footprint within another one and the new parts of the heap.\<close>

definition fp_within :: "heap \<Rightarrow> footprint \<Rightarrow> footprint \<Rightarrow> bool" where
  "fp_within h f f' \<longleftrightarrow> fcells f' \<subseteq> fcells f \<union> {length (cells h)..} \<and> fnames f' \<subseteq> fnames f \<union> {length (names h)..} \<and>
     fspare f' \<subseteq> fspare f \<union> {length (names h)..} \<and> ffiles f' \<subseteq> ffiles f \<union> {length (files h)..}"

lemma fp_within_apart: "fp_apart f g \<Longrightarrow> fp_inside h g \<Longrightarrow> fp_within h f f' \<Longrightarrow> fp_apart f' g"
  unfolding fp_apart_def fp_inside_def fp_within_def by fastforce

lemma fp_within_refl [simp]: "fp_within h f f"
  by (auto simp: fp_within_def)

lemma changes_only_files_grow: "changes_only R N F h h' \<Longrightarrow> length (files h) \<le> length (files h')"
proof (rule ccontr)
  assume ch: "changes_only R N F h h'" and "\<not> length (files h) \<le> length (files h')"
  then have "slice_ok (files h) (Slice (length (files h')) 0 0)" by (simp add: slice_ok_def)
  then have "slice_ok (files h') (Slice (length (files h')) 0 0)" using ch unfolding changes_only_def by blast
  then show False by (simp add: slice_ok_def)
qed

lemma fp_within_trans:
  assumes "fp_within h1 f f'" and "changes_only R N F h h1" and "fp_within h e f"
  shows "fp_within h e f'"
proof -
  have "{length (cells h1)..} \<subseteq> {length (cells h)..}" "{length (names h1)..} \<subseteq> {length (names h)..}" "{length (files h1)..} \<subseteq> {length (files h)..}"
    using assms(2) changes_only_files_grow [OF assms(2)] by (auto simp: changes_only_def)
  moreover have "A \<subseteq> B \<union> X \<Longrightarrow> B \<subseteq> C \<union> Y \<Longrightarrow> X \<subseteq> Y \<Longrightarrow> A \<subseteq> C \<union> Y" for A B C X Y :: "nat set" by blast
  ultimately show ?thesis using assms(1,3) unfolding fp_within_def by (elim conjE) (intro conjI; assumption?; metis)
qed

lemma fp_within_join: "fp_within h f f' \<Longrightarrow> fp_within h (fp_join f g) (fp_join f' g)" "fp_within h f f' \<Longrightarrow> fp_within h (fp_join g f) (fp_join g f')"
  by (auto simp: fp_within_def)

section \<open>An object with one member changed\<close>

lemma setImpl_split:
  assumes "sorted_wrt (<) (map fst kvs)" and "Object_find (map fst kvs) name = (i, ok)"
  shows "Object_setImpl kvs name v = take i kvs @ (name, v) # drop (if ok then Suc i else i) kvs"
    and "Object_Remove kvs name = take i kvs @ drop (if ok then Suc i else i) kvs"
  using Object_find_sorted(1,3) [OF assms] by (auto simp: Object_setImpl_def Object_Remove_def assms(2) upd_conv_take_nth_drop)

lemma own_files_object: "is_obj_val h v \<Longrightarrow> own_files h v = {}"
  by (auto simp: is_obj_val_def own_files_def cell_files_base_def split: fval.splits cell.splits)

lemma fp_own_changed:
  assumes "same_or_new h ob ob'" and "keeps_names h ob h' ob'" and "is_obj_val h' ob'"
  shows "fp_within h (fp_own h ob) (fp_own h' ob')"
  using assms own_files_object [OF assms(3)] by (auto simp: fp_within_def fp_own_def same_or_new_def keeps_names_def own_cell_def)

text \<open>The members but the one of that name, as values and as documents.\<close>

definition others :: "gostring list \<Rightarrow> gostring \<Rightarrow> 'a list \<Rightarrow> 'a list" where
  "others ns name xs = (let (i, ok) = Object_find ns name in take i xs @ drop (if ok then Suc i else i) xs)"

lemma sorted_members: "val_ok h v \<Longrightarrow> is_obj_val h v \<Longrightarrow> sorted_wrt (<) (map fst (members h v))"
proof (cases v)
  case (FVal j)
  assume "val_ok h v" "is_obj_val h v"
  then show ?thesis using FVal by (auto simp: val_ok_def is_obj_val_def members_def comp_def case_prod_unfold split: json.splits)
qed (auto simp: val_ok_def cell_ok_def object_cell_ok_def is_obj_val_def members_def cell_names_def cell_values_def split: cell.splits)

lemma rep_object_changed:
  assumes "val_ok h' ob'" and "is_obj_val h' ob'" and "same_or_new h ob ob'" and "keeps_names h ob h' ob'"
    and "map fst (members h' ob') = map fst kvs" and "reps h' (map snd (members h' ob')) (map snd kvs) g"
    and "fp_inside h g" and "fp_apart (fp_own h ob) g"
  shows "\<exists>f'. rep h' ob' (JObject kvs) f' \<and> fp_within h (fp_join (fp_own h ob) g) f'"
proof -
  have within: "fp_within h (fp_own h ob) (fp_own h' ob')" using fp_own_changed assms(2-4) by blast
  obtain q where "ob' = FRef q" using assms(3) by (auto simp: same_or_new_def)
  then have "rep h' ob' (JObject kvs) (fp_join (fp_own h' ob') g)"
    using rep_object_back [of h' q] fp_within_apart [OF assms(8,7) within] assms by blast
  moreover have "fp_within h (fp_join (fp_own h ob) g) (fp_join (fp_own h' ob') g)" using within by (auto simp: fp_within_def)
  ultimately show ?thesis by blast
qed

lemma Object_Set_rep:
  assumes ob: "val_ok h ob" "is_obj_val h ob" "map fst (members h ob) = map fst kvs"
    and rest: "reps h (others (map fst kvs) name (map snd (members h ob))) (others (map fst kvs) name (map snd kvs)) r"
    and new: "rep h w k f" and apart: "fp_apart r f" "fp_apart (fp_own h ob) r" "fp_apart (fp_own h ob) f"
  obtains ob' h' f' where "Object_Set grow ob name w h = Some (ob', h')" "rep h' ob' (JObject (Object_setImpl kvs name k)) f'"
    "fp_within h (fp_join (fp_own h ob) (fp_join r f)) f'" "changes_only (own_cell ob) (own_spare h ob) {} h h'"
proof -
  obtain ob' h' where set: "Object_Set grow ob name w h = Some (ob', h')" "val_ok h' ob'" "is_obj_val h' ob'"
    "members h' ob' = Object_setImpl (members h ob) name w" "changes_only (own_cell ob) (own_spare h ob) {} h h'" "same_or_new h ob ob'"
    "keeps_names h ob h' ob'"
    using Object_Set_facts [OF ob(1,2)] by blast
  have sorted: "sorted_wrt (<) (map fst kvs)" using sorted_members [OF ob(1,2)] ob(3) by simp
  obtain i ok where find: "Object_find (map fst kvs) name = (i, ok)" by fastforce
  define n where "n = (if ok then Suc i else i)"
  have len: "length (members h ob) = length kvs" using ob(3) by (metis length_map)
  have le: "i \<le> length kvs" using Object_find_sorted(1) [OF sorted find] .
  have split: "Object_setImpl kvs name k = take i kvs @ (name, k) # drop n kvs"
    "Object_setImpl (members h ob) name w = take i (members h ob) @ (name, w) # drop n (members h ob)"
    using setImpl_split(1) [OF sorted find] setImpl_split(1) [of "members h ob" name i ok] sorted find ob(3) by (simp_all add: n_def)
  have frame: "rep h' w k f" "reps h' (others (map fst kvs) name (map snd (members h ob))) (others (map fst kvs) name (map snd kvs)) r"
    using apart by (auto intro!: rep_frame(1) [OF new set(5)] rep_frame(2) [OF rest set(5)] simp: fp_apart_def fp_own_def)
  then have "reps h' (take i (map snd (members h ob)) @ drop n (map snd (members h ob))) (take i (map snd kvs) @ drop n (map snd kvs)) r"
    by (simp add: others_def find n_def)
  then have "reps h' (map snd (members h' ob')) (map snd (Object_setImpl kvs name k)) (fp_join r f)"
    using reps_insert [where i = i, OF _ _ frame(1) apart(1)] le len by (fastforce simp: set(4) split take_map drop_map)
  moreover have "map fst (members h' ob') = map fst (Object_setImpl kvs name k)"
    using ob(3) by (simp add: set(4) split take_map [symmetric] drop_map [symmetric])
  moreover have "fp_inside h (fp_join r f)" using rep_inside(2) [OF rest] rep_inside(1) [OF new] by (auto simp: fp_inside_def)
  ultimately show thesis using that set(1,5) rep_object_changed [OF set(2,3,6,7)] apart(2,3) by (metis fp_apart_simps(2))
qed

lemma Object_Remove_rep:
  assumes ob: "val_ok h ob" "is_obj_val h ob" "map fst (members h ob) = map fst kvs"
    and rest: "reps h (others (map fst kvs) name (map snd (members h ob))) (others (map fst kvs) name (map snd kvs)) r"
    and apart: "fp_apart (fp_own h ob) r"
  obtains ob' h' f' where "Object_Remove_val ob name h = Some (ob', h')" "rep h' ob' (JObject (Object_Remove kvs name)) f'"
    "fp_within h (fp_join (fp_own h ob) r) f'" "changes_only {} {} {} h h'"
proof -
  obtain ob' h' where rem: "Object_Remove_val ob name h = Some (ob', h')" "val_ok h' ob'" "is_obj_val h' ob'"
    "members h' ob' = Object_Remove (members h ob) name" "changes_only {} {} {} h h'" "same_or_new h ob ob'" "keeps_names h ob h' ob'"
    using Object_Remove_val_facts [OF ob(1,2)] by blast
  have sorted: "sorted_wrt (<) (map fst kvs)" using sorted_members [OF ob(1,2)] ob(3) by simp
  obtain i ok where find: "Object_find (map fst kvs) name = (i, ok)" by fastforce
  have split: "map g (Object_Remove kvs name) = others (map fst kvs) name (map g kvs)"
    "map g' (Object_Remove (members h ob) name) = others (map fst kvs) name (map g' (members h ob))"
    for g :: "gostring \<times> json \<Rightarrow> 'c" and g' :: "gostring \<times> fval \<Rightarrow> 'd"
    using setImpl_split(2) [OF sorted find] setImpl_split(2) [of "members h ob" name i ok] sorted find ob(3)
    by (simp_all add: others_def find take_map drop_map)
  have "reps h' (map snd (members h' ob')) (map snd (Object_Remove kvs name)) r"
    unfolding rem(4) split by (rule rep_frame(2) [OF rest rem(5)]) auto
  moreover have "map fst (members h' ob') = map fst (Object_Remove kvs name)" unfolding rem(4) split ob(3) by (rule refl)
  ultimately show thesis using that rem(1,5) rep_object_changed [OF rem(2,3,6,7)] rep_inside(2) [OF rest] apart by metis
qed

text \<open>A member and the others.\<close>

lemma reps_others:
  assumes "reps h (map snd m) (map snd kvs) g" and "map fst m = map fst kvs" and "sorted_wrt (<) (map fst kvs)"
  obtains c r where "reps h (others (map fst kvs) name (map snd m)) (others (map fst kvs) name (map snd kvs)) r" "g = fp_join c r" "fp_apart c r"
    "\<And>j. Object_valueImpl kvs name = Some j \<Longrightarrow> \<exists>v. Object_valueImpl m name = Some v \<and> rep h v j c"
proof -
  obtain i ok where find: "Object_find (map fst kvs) name = (i, ok)" by fastforce
  have len: "length m = length kvs" using assms(2) by (metis length_map)
  show thesis
  proof (cases ok)
    case True
    then have i: "i < length kvs" using Object_find_sorted(3) [OF assms(3) find] by simp
    then obtain c r where "rep h (map snd m ! i) (map snd kvs ! i) c" "g = fp_join c r" "fp_apart c r"
      "reps h (take i (map snd m) @ drop (Suc i) (map snd m)) (take i (map snd kvs) @ drop (Suc i) (map snd kvs)) r"
      using reps_split [OF assms(1), of i] len by (metis length_map)
    then show thesis using True i len assms(2) by (intro that [of r c]) (auto simp: others_def find Object_valueImpl_def)
  next
    case False
    then show thesis using assms by (intro that [of g fp_empty]) (auto simp: others_def find Object_valueImpl_def)
  qed
qed

section \<open>Updates on documents\<close>

text \<open>What an update means: the value at the path is replaced or removed.\<close>

definition member_set :: "(gostring \<times> json) list \<Rightarrow> gostring \<Rightarrow> json option \<Rightarrow> (gostring \<times> json) list" where
  "member_set kvs seg c = (case c of Some c \<Rightarrow> Object_setImpl kvs seg c | None \<Rightarrow> Object_Remove kvs seg)"

fun json_set :: "path \<Rightarrow> json option \<Rightarrow> json option \<Rightarrow> json option" where
  "json_set [] v j = v"
| "json_set (seg # path) v (Some (JObject kvs)) =
     Some (JObject (member_set kvs seg (json_set path v (Object_valueImpl kvs seg))))"
| "json_set (seg # path) v j = j"

text \<open>All but the last segment lead through objects that are there.\<close>

fun obj_path :: "path \<Rightarrow> json option \<Rightarrow> bool" where
  "obj_path [] j = True"
| "obj_path (seg # path) (Some (JObject kvs)) = obj_path path (Object_valueImpl kvs seg)"
| "obj_path (seg # path) j = False"

lemma update_set_rep:
  assumes "rep h data j f" and "obj_path path (Some j)" and "path \<noteq> []"
    and "case v of None \<Rightarrow> w = FNil \<and> g = fp_empty | Some k \<Rightarrow> rep h w k g \<and> fp_apart f g"
  shows "\<exists>data' h' j' f'. update_set grow data path w h = Some ((data', True), h') \<and> json_set path v (Some j) = Some j' \<and> rep h' data' j' f' \<and>
    fp_within h (fp_join f g) f' \<and> changes_only (fcells f) (fspare f) {} h h'"
  using assms
proof (induction path arbitrary: data j f)
  case (Cons seg rest)
  obtain kvs where j: "j = JObject kvs" and path: "obj_path rest (Object_valueImpl kvs seg)" using Cons.prems(2) by (cases j) auto
  obtain fc where ob: "val_ok h data" "is_obj_val h data" "map fst (members h data) = map fst kvs" "reps h (map snd (members h data)) (map snd kvs) fc"
    and f: "f = fp_join (fp_own h data) fc" "fp_apart (fp_own h data) fc"
    using rep_object_parts Cons.prems(1) unfolding j by blast
  have sorted: "sorted_wrt (<) (map fst kvs)" using sorted_members [OF ob(1,2)] ob(3) by simp
  obtain c r where others: "reps h (others (map fst kvs) seg (map snd (members h data))) (others (map fst kvs) seg (map snd kvs)) r"
      "fc = fp_join c r" "fp_apart c r"
    and child: "\<And>j. Object_valueImpl kvs seg = Some j \<Longrightarrow> \<exists>v. Object_valueImpl (members h data) seg = Some v \<and> rep h v j c"
    using reps_others [OF ob(4,3) sorted] by metis
  have own: "fcells (fp_own h data) = own_cell data" "fspare (fp_own h data) = own_spare h data" by (simp_all add: fp_own_def)
  show ?case
  proof (cases "rest = []")
    case True
    show ?thesis
    proof (cases v)
      case None
      obtain ob' h' f' where rem: "Object_Remove_val data seg h = Some (ob', h')" "rep h' ob' (JObject (Object_Remove kvs seg)) f'"
        "fp_within h (fp_join (fp_own h data) r) f'" "changes_only {} {} {} h h'"
        using Object_Remove_rep [OF ob(1-3) others(1)] f(2) unfolding others(2) by (metis fp_apart_simps(2))
      have "fp_within h (fp_join f g) f'" using rem(3) by (auto simp: fp_within_def f(1) others(2))
      moreover have "changes_only (fcells f) (fspare f) {} h h'" by (rule changes_only_mono [OF rem(4)]) auto
      ultimately show ?thesis using rem(1,2) None Cons.prems(4) True ob(2) by (auto simp: j member_set_def)
    next
      case (Some k)
      then have w: "rep h w k g" "fp_apart f g" using Cons.prems(4) by auto
      obtain ob' h' f' where set: "Object_Set grow data seg w h = Some (ob', h')" "rep h' ob' (JObject (Object_setImpl kvs seg k)) f'"
        "fp_within h (fp_join (fp_own h data) (fp_join r g)) f'" "changes_only (own_cell data) (own_spare h data) {} h h'"
        using Object_Set_rep [OF ob(1-3) others(1) w(1)] f w(2) unfolding others(2) f(1) by (metis fp_apart_simps(1,2))
      have "fp_within h (fp_join f g) f'" using set(3) by (auto simp: fp_within_def f(1) others(2))
      moreover have "changes_only (fcells f) (fspare f) {} h h'" by (rule changes_only_mono [OF set(4)]) (auto simp: f(1) own)
      ultimately show ?thesis using set(1,2) Some rep_not_nil [OF w(1)] True ob(2) by (auto simp: j member_set_def)
    qed
  next
    case False
    then obtain c0 where c0: "Object_valueImpl kvs seg = Some c0" using path by (cases "Object_valueImpl kvs seg") (auto elim: obj_path.elims)
    then obtain v0 where v0: "Object_valueImpl (members h data) seg = Some v0" "rep h v0 c0 c" using child by blast
    have g: "fp_apart f g" using Cons.prems(4) by (cases v) auto
    then have "case v of None \<Rightarrow> w = FNil \<and> g = fp_empty | Some k \<Rightarrow> rep h w k g \<and> fp_apart c g"
      using Cons.prems(4) by (auto simp: f(1) others(2) split: option.splits)
    then obtain data' h1 j' f1 where inner: "update_set grow v0 rest w h = Some ((data', True), h1)" "json_set rest v (Some c0) = Some j'"
      "rep h1 data' j' f1" "fp_within h (fp_join c g) f1" "changes_only (fcells c) (fspare c) {} h h1"
      using Cons.IH [OF v0(2)] path False c0 by auto
    have in_h: "fp_inside h (fp_own h data)" "fp_inside h r" using fp_inside_own [OF ob(1)] rep_inside(2) [OF others(1)] by auto
    have untouched: "fcells (fp_own h data) \<inter> fcells c = {}" "fnames (fp_own h data) \<inter> fspare c = {}" "ffiles (fp_own h data) \<inter> {} = {}"
      "fcells r \<inter> fcells c = {}" "fnames r \<inter> fspare c = {}" "ffiles r \<inter> {} = {}"
      using f(2) others(2,3) by (auto simp: fp_apart_def)
    note frame = fp_own_frame [OF inner(5) ob(1) untouched(1-3)]
    note same = changes_only_untouched [OF inner(5) ob(1) frame(1)]
    have rest1: "reps h1 (others (map fst kvs) seg (map snd (members h1 data))) (others (map fst kvs) seg (map snd kvs)) r"
      using rep_frame(2) [OF others(1) inner(5) untouched(4-6)] by (simp add: same)
    have apart1: "fp_apart r f1" "fp_apart (fp_own h1 data) r" "fp_apart (fp_own h1 data) f1"
      using fp_within_apart [OF _ in_h(2) inner(4)] fp_within_apart [OF _ in_h(1) inner(4)] f g others(2,3)
      by (auto simp: frame(2) intro: fp_apart_sym)
    obtain ob' h' f' where set: "Object_Set grow data seg data' h1 = Some (ob', h')" "rep h' ob' (JObject (Object_setImpl kvs seg j')) f'"
      "fp_within h1 (fp_join (fp_own h1 data) (fp_join r f1)) f'" "changes_only (own_cell data) (own_spare h1 data) {} h1 h'"
      using Object_Set_rep [OF _ _ _ rest1 inner(3) apart1] same ob(1-3) by metis
    have spare: "own_spare h1 data = own_spare h data" using frame(2) by (simp add: fp_own_def)
    have "fp_within h (fp_join f g) (fp_join (fp_own h1 data) (fp_join r f1))"
      using inner(4) by (auto simp: frame(2) f(1) others(2) fp_within_def)
    then have "fp_within h (fp_join f g) f'" using fp_within_trans [OF set(3) inner(5)] by blast
    moreover have "changes_only (fcells f) (fspare f) {} h h'"
      by (rule changes_only_trans [of _ _ _ _ h1], rule changes_only_mono [OF inner(5)], simp_all add: f(1) others(2), blast, blast,
          rule changes_only_mono [OF set(4)], auto simp: own [symmetric] spare)
    ultimately show ?thesis using set(1,2) inner(1,2) rep_not_nil [OF inner(3)] ob(2) v0 c0 by (auto simp: j Object_value_def member_set_def)
  qed
qed simp

end
