(* ===== verification/Store_Txn.thy ===== *)
theory Store_Txn
  imports Store_Correct
begin

text \<open>
  What transactions of the in-memory store do to documents.  An update sets or removes the value at a path
  (\<open>json_set\<close>); a transaction shows the document with all its updates; updates that do not overlap are independent
  of each other.  Reading, adding and committing on the heap refine this, as long as the paths lead through objects
  and nothing that is written is shared.  The end of the theory shows what happens otherwise.
\<close>

section \<open>Documents\<close>

fun json_get :: "path \<Rightarrow> json option \<Rightarrow> json option" where
  "json_get [] j = j"
| "json_get (seg # path) (Some (JObject kvs)) = json_get path (Object_valueImpl kvs seg)"
| "json_get (seg # path) (Some (JArray xs)) =
     (case isInt seg of Some i \<Rightarrow> if 0 \<le> i \<and> i < int (length xs) then json_get path (Some (xs ! nat i)) else None | None \<Rightarrow> None)"
| "json_get (seg # path) j = None"

definition doc :: "json option \<Rightarrow> bool" where
  "doc j = (case j of None \<Rightarrow> True | Some j \<Rightarrow> document j)"

lemma doc_simps [simp]: "doc None" "doc (Some j) = document j"
  by (simp_all add: doc_def)

lemma doc_child [simp]: "document (JObject kvs) \<Longrightarrow> doc (Object_valueImpl kvs seg)"
  by (cases "Object_valueImpl kvs seg") (auto simp del: document_simps dest: document_child)

lemma member_set_facts:
  assumes "document (JObject kvs)" and "doc c"
  shows "document (JObject (member_set kvs seg c))" and "Object_valueImpl (member_set kvs seg c) name = (if name = seg then c else Object_valueImpl kvs name)"
proof -
  have sorted: "sorted_wrt (<) (map fst kvs)" using assms(1) by simp
  show "document (JObject (member_set kvs seg c))"
  proof (cases c)
    case None
    then show ?thesis using assms(1) Object_Remove_sorted [OF sorted, of seg] by (auto simp: member_set_def)
  next
    case (Some x)
    then show ?thesis using assms Object_setImpl_sorted [OF sorted, of seg x] by (auto simp: member_set_def)
  qed
  then have "sorted_wrt (<) (map fst (member_set kvs seg c))" by simp
  then show "Object_valueImpl (member_set kvs seg c) name = (if name = seg then c else Object_valueImpl kvs name)"
    using Object_Remove_sorted(2) [OF sorted] Object_setImpl_sorted(2) [OF sorted] sorted
    by (simp add: Object_valueImpl_eq) (simp add: member_set_def split: option.split)
qed

lemma json_set_doc: "doc j \<Longrightarrow> doc v \<Longrightarrow> doc (json_set path v j)"
proof (induction path v j rule: json_set.induct)
  case (2 seg path v kvs)
  then have "document (JObject (member_set kvs seg (json_set path v (Object_valueImpl kvs seg))))"
    by (intro member_set_facts(1)) auto
  then show ?case by simp
qed auto

section \<open>Updates that do not overlap\<close>

definition paths_apart :: "path \<Rightarrow> path \<Rightarrow> bool" where
  "paths_apart p q \<longleftrightarrow> \<not> prefix p q \<and> \<not> prefix q p"

lemma paths_apart_sym: "paths_apart p q \<Longrightarrow> paths_apart q p"
  by (auto simp: paths_apart_def)

lemma paths_apart_simps [simp]:
  "\<not> paths_apart [] q" "\<not> paths_apart p []" "paths_apart (a # p) (b # q) \<longleftrightarrow> a \<noteq> b \<or> paths_apart p q"
  by (auto simp: paths_apart_def)

lemma paths_apart_append: "paths_apart p p' \<Longrightarrow> paths_apart p' (p @ q)"
  by (auto simp: paths_apart_def prefix_def append_eq_append_conv2)

lemma obj_path_Cons: "obj_path (seg # path) j \<longleftrightarrow> (\<exists>kvs. j = Some (JObject kvs) \<and> obj_path path (Object_valueImpl kvs seg))"
  by (cases "(seg # path, j)" rule: obj_path.cases) auto

lemma get_set_same: "obj_path p j \<Longrightarrow> doc j \<Longrightarrow> doc v \<Longrightarrow> json_get (p @ q) (json_set p v j) = json_get q v"
proof (induction p arbitrary: j)
  case (Cons seg p)
  then obtain kvs where kvs: "j = Some (JObject kvs)" "obj_path p (Object_valueImpl kvs seg)" by (auto simp: obj_path_Cons)
  then have "doc (json_set p v (Object_valueImpl kvs seg))" using Cons.prems by (intro json_set_doc) auto
  then show ?case using Cons.IH kvs Cons.prems by (simp add: member_set_facts(2) del: document_simps)
qed simp

lemma get_set_apart: "paths_apart p q \<Longrightarrow> obj_path p j \<Longrightarrow> doc j \<Longrightarrow> doc v \<Longrightarrow> json_get q (json_set p v j) = json_get q j"
proof (induction p arbitrary: q j)
  case (Cons seg p)
  then obtain kvs where kvs: "j = Some (JObject kvs)" "obj_path p (Object_valueImpl kvs seg)" by (auto simp: obj_path_Cons)
  have d: "doc (json_set p v (Object_valueImpl kvs seg))" using Cons.prems kvs(1) by (intro json_set_doc) auto
  then show ?case using Cons.IH [of _ "Object_valueImpl kvs seg"] kvs Cons.prems by (cases q) (auto simp: member_set_facts(2) simp del: document_simps)
qed simp

lemma obj_path_prefix: "prefix p q \<Longrightarrow> obj_path q j \<Longrightarrow> obj_path p j"
proof (induction p arbitrary: q j)
  case (Cons seg p)
  then show ?case by (cases q) (auto simp: obj_path_Cons)
qed simp

lemma obj_path_append: "obj_path (p @ q) j \<longleftrightarrow> obj_path p j \<and> obj_path q (json_get p j)"
  by (induction p arbitrary: j) (auto simp: obj_path_Cons)

text \<open>An update changes no object above its path into something else, and nothing apart from it.\<close>

lemma obj_path_set: "\<not> prefix p q \<or> p = q \<Longrightarrow> obj_path p j \<Longrightarrow> doc j \<Longrightarrow> doc v \<Longrightarrow> obj_path q (json_set p v j) \<longleftrightarrow> obj_path q j"
proof (induction p arbitrary: q j)
  case (Cons seg p)
  then obtain kvs where kvs: "j = Some (JObject kvs)" "obj_path p (Object_valueImpl kvs seg)" by (auto simp: obj_path_Cons)
  have "doc (json_set p v (Object_valueImpl kvs seg))" using Cons.prems kvs(1) by (intro json_set_doc) auto
  then show ?case using Cons.IH [of _ "Object_valueImpl kvs seg"] kvs Cons.prems by (cases q) (auto simp: member_set_facts(2) simp del: document_simps)
qed auto

text \<open>Updates apart commute; an update hides the ones below it, and one below it is part of it.\<close>

lemma sorted_map_of_unique:
  fixes a b :: "('k::linorder \<times> 'v) list"
  assumes "sorted_wrt (<) (map fst a)" and "sorted_wrt (<) (map fst b)" and "map_of a = map_of b"
  shows "a = b"
proof -
  have d: "distinct (map fst a)" "distinct (map fst b)" "sorted (map fst a)" "sorted (map fst b)" using assms(1,2) by (simp_all add: strict_sorted_iff)
  then have "set a = set b" using map_of_inject_set assms(3) by metis
  then show ?thesis using map_sorted_distinct_set_unique [of fst a b] d by (simp add: distinct_map)
qed

lemma member_set_unique:
  assumes "document (JObject a)" and "document (JObject b)" and "\<And>name. Object_valueImpl a name = Object_valueImpl b name"
  shows "a = b"
  using assms by (intro sorted_map_of_unique ext) (auto simp: Object_valueImpl_eq)

lemma member_set_twice: "document (JObject kvs) \<Longrightarrow> doc x \<Longrightarrow> doc y \<Longrightarrow> member_set (member_set kvs a y) a x = member_set kvs a x"
  by (rule member_set_unique) (simp_all add: member_set_facts del: document_simps)

lemma member_set_comm:
  "document (JObject kvs) \<Longrightarrow> doc x \<Longrightarrow> doc y \<Longrightarrow> a \<noteq> b \<Longrightarrow> member_set (member_set kvs b y) a x = member_set (member_set kvs a x) b y"
  by (rule member_set_unique) (simp_all add: member_set_facts del: document_simps)

lemmas member_rules = member_set_facts member_set_twice member_set_comm json_set_doc

lemma json_set_comm:
  "paths_apart p q \<Longrightarrow> obj_path p j \<Longrightarrow> obj_path q j \<Longrightarrow> doc j \<Longrightarrow> doc v \<Longrightarrow> doc w \<Longrightarrow> json_set p v (json_set q w j) = json_set q w (json_set p v j)"
proof (induction p arbitrary: q j)
  case (Cons a p)
  then obtain kvs b q' where kvs: "j = Some (JObject kvs)" "obj_path p (Object_valueImpl kvs a)" "q = b # q'" "obj_path q' (Object_valueImpl kvs b)"
    by (cases q) (auto simp: obj_path_Cons)
  have d: "document (JObject kvs)" "doc (Object_valueImpl kvs a)" "doc (Object_valueImpl kvs b)" using Cons.prems kvs(1) by (auto simp del: document_simps)
  show ?case
  proof (cases "a = b")
    case True
    then have "json_set p v (json_set q' w (Object_valueImpl kvs a)) = json_set q' w (json_set p v (Object_valueImpl kvs a))"
      using Cons kvs d by (intro Cons.IH) auto
    then show ?thesis using True kvs d Cons.prems by (simp add: member_rules del: document_simps)
  next
    case False
    then show ?thesis using kvs d Cons.prems by (simp add: member_rules del: document_simps)
  qed
qed simp

lemma json_set_above: "obj_path p j \<Longrightarrow> doc j \<Longrightarrow> doc v \<Longrightarrow> doc w \<Longrightarrow> json_set p v (json_set (p @ s) w j) = json_set p v j"
proof (induction p arbitrary: j)
  case (Cons a p)
  then obtain kvs where kvs: "j = Some (JObject kvs)" "obj_path p (Object_valueImpl kvs a)" by (auto simp: obj_path_Cons)
  have "document (JObject kvs)" "doc (Object_valueImpl kvs a)" using Cons.prems kvs(1) by (auto simp del: document_simps)
  then show ?case using kvs Cons by (simp add: member_rules del: document_simps)
qed simp

lemma json_set_below: "obj_path p j \<Longrightarrow> doc j \<Longrightarrow> doc v \<Longrightarrow> doc w \<Longrightarrow> json_set (p @ s) v (json_set p w j) = json_set p (json_set s v w) j"
proof (induction p arbitrary: j)
  case (Cons a p)
  then obtain kvs where kvs: "j = Some (JObject kvs)" "obj_path p (Object_valueImpl kvs a)" by (auto simp: obj_path_Cons)
  have "document (JObject kvs)" "doc (Object_valueImpl kvs a)" using Cons.prems kvs(1) by (auto simp del: document_simps)
  then show ?case using kvs Cons by (simp add: member_rules del: document_simps)
qed simp

section \<open>The updates of a transaction\<close>

text \<open>The document a transaction shows.  The first update is applied first, as in \<open>Commit\<close>.\<close>

type_synonym change = "path \<times> json option"

fun view :: "change list \<Rightarrow> json option \<Rightarrow> json option" where
  "view [] j = j"
| "view ((p, v) # ms) j = view ms (json_set p v j)"

definition no_overlap :: "path list \<Rightarrow> bool" where
  "no_overlap ps \<longleftrightarrow> sorted_wrt paths_apart ps"

lemma no_overlap_simps [simp]: "no_overlap []" "no_overlap (p # ps) \<longleftrightarrow> (\<forall>q \<in> set ps. paths_apart p q) \<and> no_overlap ps"
  by (simp_all add: no_overlap_def)


text \<open>Changes that can be made to a document: at most one at any place, through objects that are there.\<close>

definition changes_ok :: "json option \<Rightarrow> change list \<Rightarrow> bool" where
  "changes_ok j ms \<longleftrightarrow> doc j \<and> no_overlap (map fst ms) \<and> (\<forall>(p, v) \<in> set ms. obj_path p j \<and> doc v \<and> (p = [] \<longrightarrow> v \<noteq> None))"

lemma changes_ok_Cons: "changes_ok j ((p, v) # ms) \<Longrightarrow> changes_ok (json_set p v j) ms"
  by (auto simp: changes_ok_def json_set_doc paths_apart_def image_iff intro!: obj_path_set [THEN iffD2])

lemma view_doc: "changes_ok j ms \<Longrightarrow> doc (view ms j)"
proof (induction ms arbitrary: j)
  case (Cons m ms)
  then show ?case using changes_ok_Cons by (cases m) auto
qed (simp add: changes_ok_def)

lemma view_apart: "changes_ok j ms \<Longrightarrow> \<forall>(p, v) \<in> set ms. paths_apart p q \<Longrightarrow> json_get q (view ms j) = json_get q j"
proof (induction ms arbitrary: j)
  case (Cons m ms)
  obtain p v where m: "m = (p, v)" by fastforce
  have "json_get q (view ms (json_set p v j)) = json_get q (json_set p v j)" using Cons m changes_ok_Cons by (intro Cons.IH) auto
  then show ?case using Cons.prems m get_set_apart [of p q j v] by (auto simp: changes_ok_def)
qed simp

lemma view_at: "changes_ok j ms \<Longrightarrow> (p, v) \<in> set ms \<Longrightarrow> json_get (p @ q) (view ms j) = json_get q v"
proof (induction ms arbitrary: j)
  case (Cons m ms)
  obtain p' v' where m: "m = (p', v')" by fastforce
  note ok = changes_ok_Cons [OF Cons.prems(1) [unfolded m]]
  show ?case
  proof (cases "(p, v) = m")
    case True
    have "paths_apart p'' (p @ q)" if "(p'', v'') \<in> set ms" for p'' v''
    proof -
      have "p'' \<in> set (map fst ms)" using that by (metis fst_conv image_eqI list.set_map)
      then have "paths_apart p p''" using Cons.prems(1) m True by (auto simp: changes_ok_def)
      then show ?thesis by (rule paths_apart_append)
    qed
    then have "json_get (p @ q) (view ms (json_set p v j)) = json_get (p @ q) (json_set p v j)"
      using ok m True by (intro view_apart) auto
    then show ?thesis using Cons.prems(1) m True get_set_same [of p j v q] by (auto simp: changes_ok_def)
  next
    case False
    then show ?thesis using Cons m ok by auto
  qed
qed simp

lemma view_obj_path: "changes_ok j ms \<Longrightarrow> \<forall>(p, v) \<in> set ms. \<not> prefix p q \<or> p = q \<Longrightarrow> obj_path q (view ms j) \<longleftrightarrow> obj_path q j"
proof (induction ms arbitrary: j)
  case (Cons m ms)
  obtain p v where m: "m = (p, v)" by fastforce
  have "obj_path q (view ms (json_set p v j)) \<longleftrightarrow> obj_path q (json_set p v j)" using Cons m changes_ok_Cons by (intro Cons.IH) auto
  moreover have "obj_path q (json_set p v j) \<longleftrightarrow> obj_path q j"
    using Cons.prems m by (intro obj_path_set) (auto simp: changes_ok_def)
  ultimately show ?case by (simp add: m)
qed simp

text \<open>A new update, with the updates below it dropped, or a change of the update above it.\<close>

lemma changes_ok_ConsD: "changes_ok j ((p, v) # ms) \<Longrightarrow> obj_path p j \<and> doc v \<and> doc j \<and> (\<forall>(q, w) \<in> set ms. paths_apart p q)"
  by (auto simp: changes_ok_def)

lemma changes_ok_filter: "changes_ok j ms \<Longrightarrow> changes_ok j (filter Q ms)"
  by (auto simp: changes_ok_def no_overlap_def sorted_wrt_map sorted_wrt_filter)

lemma view_new:
  assumes "changes_ok j ms" and "obj_path q j" and "doc w" and "\<forall>(p, v) \<in> set ms. \<not> prefix p q \<or> p = q"
  shows "view (filter (\<lambda>(p, v). \<not> prefix q p) ms) (json_set q w j) = json_set q w (view ms j)"
  using assms
proof (induction ms arbitrary: j)
  case (Cons m ms)
  obtain p v where m: "m = (p, v)" by fastforce
  note ok = changes_ok_ConsD [OF Cons.prems(1) [unfolded m]]
  have "obj_path q (json_set p v j)" using Cons.prems m ok by (subst obj_path_set) auto
  then have IH: "view (filter (\<lambda>(p, v). \<not> prefix q p) ms) (json_set q w (json_set p v j)) = json_set q w (view ms (json_set p v j))"
    using Cons changes_ok_Cons m by auto
  show ?case
  proof (cases "prefix q p")
    case True
    then obtain s where "p = q @ s" by (auto simp: prefix_def)
    then show ?thesis using IH m True Cons.prems ok by (simp add: json_set_above)
  next
    case False
    then have "paths_apart p q" using Cons.prems(4) m by (auto simp: paths_apart_def)
    then show ?thesis using IH m False Cons.prems ok json_set_comm [of p q j v w] by simp
  qed
qed simp

lemma view_set_apart:
  assumes "changes_ok j ms" and "obj_path q j" and "doc w" and "\<forall>(p, v) \<in> set ms. paths_apart q p"
  shows "view ms (json_set q w j) = json_set q w (view ms j)"
proof -
  have "filter (\<lambda>(p, v). \<not> prefix q p) ms = ms" using assms(4) by (auto simp: filter_id_conv paths_apart_def)
  then show ?thesis using view_new [OF assms(1-3)] assms(4) by (auto simp: paths_apart_def)
qed

lemma view_below:
  assumes "changes_ok j (ms1 @ (p, Some k) # ms2)" and "doc w" and "obj_path s (Some k)"
  shows "view (ms1 @ (p, json_set s w (Some k)) # ms2) j = json_set (p @ s) w (view (ms1 @ (p, Some k) # ms2) j)"
  using assms(1)
proof (induction ms1 arbitrary: j)
  case Nil
  note ok = changes_ok_ConsD [OF Nil [unfolded append_Nil]]
  let ?j = "json_set p (Some k) j"
  have "obj_path p ?j" "json_get p ?j = Some k" using ok obj_path_set [of p p j "Some k"] get_set_same [of p j "Some k" "[]"] by auto
  then have "obj_path (p @ s) ?j" using assms(3) by (simp add: obj_path_append)
  moreover have "\<forall>(q, v) \<in> set ms2. paths_apart (p @ s) q" using ok paths_apart_append paths_apart_sym by fastforce
  ultimately have "view ms2 (json_set (p @ s) w ?j) = json_set (p @ s) w (view ms2 ?j)"
    using changes_ok_Cons Nil assms(2) by (intro view_set_apart) auto
  then show ?case using ok assms(2) by (simp add: json_set_below)
next
  case (Cons m ms1)
  then show ?case using changes_ok_Cons by (cases m) auto
qed

section \<open>Updates in memory\<close>

inductive updates_rep :: "heap \<Rightarrow> update list \<Rightarrow> change list \<Rightarrow> footprint \<Rightarrow> bool" for h where
  updates_Nil: "updates_rep h [] [] fp_empty"
| updates_remove: "updates_rep h us ms f \<Longrightarrow> uremove u \<Longrightarrow> updates_rep h (u # us) ((upath u, None) # ms) f"
| updates_put: "updates_rep h us ms f \<Longrightarrow> \<not> uremove u \<Longrightarrow> rep h (uvalue u) k g \<Longrightarrow> fp_apart g f \<Longrightarrow>
    updates_rep h (u # us) ((upath u, Some k) # ms) (fp_join g f)"

inductive_cases updates_NilE: "updates_rep h [] ms f"
inductive_cases updates_ConsE: "updates_rep h (u # us) ms f"

lemma updates_frame:
  "updates_rep h us ms f \<Longrightarrow> changes_only R N F h h' \<Longrightarrow> fcells f \<inter> R = {} \<Longrightarrow> fnames f \<inter> N = {} \<Longrightarrow> ffiles f \<inter> F = {} \<Longrightarrow> updates_rep h' us ms f"
proof (induction rule: updates_rep.induct)
  case (updates_put us ms f u k g)
  then have "rep h' (uvalue u) k g" by (intro rep_frame(1) [OF updates_put.hyps(3) updates_put.prems(1)]) (auto simp: Int_Un_distrib2)
  then show ?case using updates_put by (intro updates_rep.updates_put) (auto simp: Int_Un_distrib2)
qed (auto intro: updates_rep.intros)

lemma updates_inside: "updates_rep h us ms f \<Longrightarrow> fp_inside h f"
  by (induction rule: updates_rep.induct) (auto simp: fp_inside_def dest!: rep_inside(1))

lemma updates_paths: "updates_rep h us ms f \<Longrightarrow> map fst ms = map upath us"
  by (induction rule: updates_rep.induct) auto

lemma updates_removed: "updates_rep h us ms f \<Longrightarrow> u \<in> set us \<Longrightarrow> uremove u \<Longrightarrow> (upath u, None) \<in> set ms"
  by (induction rule: updates_rep.induct) auto

lemma updates_first:
  assumes "updates_rep h (u # us) ms f"
  obtains v ms' g f' where "ms = (upath u, v) # ms'" "updates_rep h us ms' f'" "f = fp_join g f'" "fp_apart g f'"
    "case v of None \<Rightarrow> uremove u \<and> g = fp_empty | Some k \<Rightarrow> \<not> uremove u \<and> rep h (uvalue u) k g"
  using assms
proof (cases rule: updates_ConsE [consumes 1, case_names remove put])
  case (remove ms')
  then show thesis by (intro that [of None ms' f fp_empty]) auto
next
  case (put ms' f' k g)
  then show thesis by (intro that [of "Some k" ms' f' g]) auto
qed

lemma update_Apply_rep:
  assumes "rep h data j f" and "obj_path p (Some j)" and "p = [] \<longrightarrow> v \<noteq> None" and "upath u = p"
    and "case v of None \<Rightarrow> uremove u \<and> g = fp_empty | Some k \<Rightarrow> \<not> uremove u \<and> rep h (uvalue u) k g \<and> fp_apart f g"
  obtains data' h' j' f' where "update_Apply grow u data h = Some (data', h')" "json_set p v (Some j) = Some j'" "rep h' data' j' f'"
    "fp_within h (fp_join f g) f'" "changes_only (fcells f) (fspare f) {} h h'"
proof (cases "p = []")
  case True
  then obtain k where v: "v = Some k" using assms(3) by auto
  then show thesis using assms True by (intro that [of "uvalue u" h k g]) (auto simp: update_Apply_def fp_within_def)
next
  case False
  have "case v of None \<Rightarrow> (if uremove u then FNil else uvalue u) = FNil \<and> g = fp_empty
    | Some k \<Rightarrow> rep h (if uremove u then FNil else uvalue u) k g \<and> fp_apart f g"
    using assms(5) by (auto split: option.splits)
  then obtain data' h' j' f' where "update_set grow data p (if uremove u then FNil else uvalue u) h = Some ((data', True), h')"
      "json_set p v (Some j) = Some j'" "rep h' data' j' f'" "fp_within h (fp_join f g) f'" "changes_only (fcells f) (fspare f) {} h h'"
    using update_set_rep [OF assms(1,2) False] by blast
  then show thesis using that False by (simp add: update_Apply_def assms(4))
qed

text \<open>\<open>Commit\<close> on the data.\<close>

lemma Commit_data_rep:
  assumes "rep h data j f" and "updates_rep h us ms g" and "fp_apart f g" and "changes_ok (Some j) ms"
  shows "\<exists>data' h' j' f'. Commit_data grow us data h = Some (data', h') \<and> view ms (Some j) = Some j' \<and> rep h' data' j' f'"
  using assms(2,1,3,4)
proof (induction us arbitrary: data j f h ms g)
  case Nil
  then show ?case by (auto elim!: updates_NilE)
next
  case (Cons u us)
  obtain v ms' g0 g' where u: "ms = (upath u, v) # ms'" "updates_rep h us ms' g'" "g = fp_join g0 g'" "fp_apart g0 g'"
    "case v of None \<Rightarrow> uremove u \<and> g0 = fp_empty | Some k \<Rightarrow> \<not> uremove u \<and> rep h (uvalue u) k g0"
    using updates_first [OF Cons.prems(1)] by metis
  have v: "case v of None \<Rightarrow> uremove u \<and> g0 = fp_empty | Some k \<Rightarrow> \<not> uremove u \<and> rep h (uvalue u) k g0 \<and> fp_apart f g0"
    using u(3,5) Cons.prems(3) by (auto split: option.splits)
  have ok: "obj_path (upath u) (Some j)" "upath u = [] \<longrightarrow> v \<noteq> None" using Cons.prems(4) u(1) by (auto simp: changes_ok_def)
  obtain data' h' j' f' where app: "update_Apply grow u data h = Some (data', h')" "json_set (upath u) v (Some j) = Some j'" "rep h' data' j' f'"
    "fp_within h (fp_join f g0) f'" "changes_only (fcells f) (fspare f) {} h h'"
    using update_Apply_rep [OF Cons.prems(2) ok refl v] by blast
  have "updates_rep h' us ms' g'" using updates_frame [OF u(2) app(5)] Cons.prems(3) by (auto simp: u(3) fp_apart_def)
  moreover have "fp_apart f' g'" using fp_within_apart [OF _ updates_inside [OF u(2)] app(4)] Cons.prems(3) u(3,4) by simp
  moreover have "changes_ok (Some j') ms'" using changes_ok_Cons Cons.prems(4) app(2) u(1) by metis
  ultimately show ?case using Cons.IH [OF _ app(3)] app(1,2) u(1) by auto
qed

section \<open>Reading\<close>


lemma Object_value_rep:
  assumes "rep h v (JObject kvs) f"
  shows "is_obj_val h v" and "case Object_valueImpl kvs seg of None \<Rightarrow> Object_value h v seg = FNil | Some k \<Rightarrow> \<exists>g. rep h (Object_value h v seg) k g"
proof -
  obtain g where ob: "val_ok h v" "is_obj_val h v" "map fst (members h v) = map fst kvs" "reps h (map snd (members h v)) (map snd kvs) g"
    using rep_object_parts [OF assms] by blast
  have sorted: "sorted_wrt (<) (map fst kvs)" using sorted_members [OF ob(1,2)] ob(3) by simp
  have none: "Object_valueImpl kvs seg = None \<longleftrightarrow> Object_valueImpl (members h v) seg = None" by (simp add: Object_valueImpl_def ob(3) split: prod.split)
  show "case Object_valueImpl kvs seg of None \<Rightarrow> Object_value h v seg = FNil | Some k \<Rightarrow> \<exists>g. rep h (Object_value h v seg) k g"
  proof (cases "Object_valueImpl kvs seg")
    case None
    then show ?thesis using none by (simp add: Object_value_def)
  next
    case (Some k)
    then show ?thesis using reps_others [OF ob(4,3) sorted, of seg] by (fastforce simp: Object_value_def)
  qed
  show "is_obj_val h v" by (rule ob)
qed



section \<open>Writing\<close>

lemma newUpdate_object:
  assumes "rep h data j f" and "obj_path p (Some j)" and "p \<noteq> []"
  shows "newUpdate grow data op path p value h =
    Some (if op \<noteq> AddOp \<and> json_get p (Some j) = None then Inl StoreNotFound else Inr \<lparr>upath = path, uremove = (op = RemoveOp), uvalue = value\<rparr>, h)"
  using assms
proof (induction p arbitrary: data j f)
  case (Cons seg p)
  then obtain kvs where j: "j = JObject kvs" "obj_path p (Object_valueImpl kvs seg)" by (auto simp: obj_path_Cons)
  note ob = Object_value_rep [OF Cons.prems(1) [unfolded j(1)]]
  show ?case
  proof (cases "Object_valueImpl kvs seg")
    case None
    then have "p = []" using j(2) by (cases p) auto
    then show ?thesis using ob(1) ob(2) [of seg] j None by (cases op) (auto simp: newUpdateObject_def)
  next
    case (Some k)
    then obtain g where g: "rep h (Object_value h data seg) k g" using ob(2) [of seg] by auto
    then show ?thesis using ob(1) j Some Cons.IH [OF g] rep_not_nil [OF g] by (cases p) (auto simp: newUpdateObject_def Let_def)
  qed
qed simp

text \<open>The loop of \<open>Write\<close> when no update is above the path: the updates at or below it are dropped.\<close>

lemma Write_loop_new:
  assumes "path_laws P" and "no_overlap (map upath us)" and "\<forall>u \<in> set us. \<not> prefix (upath u) path \<or> upath u = path"
    and "op = AddOp \<or> (\<forall>u \<in> set us. uremove u \<longrightarrow> upath u \<noteq> path)"
  shows "Write_loop P grow op path value us h = Some (Inr False, filter (\<lambda>u. \<not> prefix path (upath u)) us, h)"
  using assms(2-4)
proof (induction us)
  case (Cons u us)
  have laws: "Equal P p q \<longleftrightarrow> p = q" "HasPrefix P p q \<longleftrightarrow> prefix q p" for p q using assms(1) by (auto simp: path_laws_def)
  show ?case
  proof (cases "upath u = path")
    case True
    have "filter (\<lambda>u. \<not> prefix path (upath u)) us = us" using Cons.prems(1) True by (auto simp: filter_id_conv paths_apart_def)
    then show ?thesis using True Cons.prems(3) by (auto simp: laws)
  next
    case False
    then show ?thesis using Cons by (auto simp: laws)
  qed
qed simp

text \<open>When one is above it, only that one is looked at.\<close>

lemma Write_loop_above:
  assumes "path_laws P" and "no_overlap (map upath (us1 @ u # us2))" and "path = upath u @ s" and "s \<noteq> []"
  shows "Write_loop P grow op path value (us1 @ u # us2) h = (if uremove u then Some (Inl StoreNotFound, us1 @ u # us2, h)
    else do { (r, h) \<leftarrow> newUpdate grow (uvalue u) op s s value h;
      case r of
        Inl e \<Rightarrow> Some (Inl e, us1 @ u # us2, h)
      | Inr new \<Rightarrow> do { (v, h) \<leftarrow> update_Apply grow new (uvalue u) h; Some (Inr True, us1 @ u\<lparr>uvalue := v\<rparr> # us2, h) } })"
  using assms(2)
proof (induction us1)
  case Nil
  have laws: "Equal P p q \<longleftrightarrow> p = q" "HasPrefix P p q \<longleftrightarrow> prefix q p" for p q using assms(1) by (auto simp: path_laws_def)
  show ?case unfolding append_Nil using assms(3,4) by (auto simp: laws Let_def)
next
  case (Cons w us1)
  have laws: "Equal P p q \<longleftrightarrow> p = q" "HasPrefix P p q \<longleftrightarrow> prefix q p" for p q using assms(1) by (auto simp: path_laws_def)
  have "paths_apart (upath u) (upath w)" using Cons.prems paths_apart_sym by auto
  then have "paths_apart (upath w) path" using paths_apart_append assms(3) by simp
  then have "Write_loop P grow op path value ((w # us1) @ u # us2) h =
      map_option (\<lambda>(r, us', h). (r, w # us', h)) (Write_loop P grow op path value (us1 @ u # us2) h)"
    by (auto simp: laws paths_apart_def)
  then show ?case using Cons by (auto simp: split: option.split sum.split bind_splits)
qed

lemma updates_append:
  "updates_rep h (us1 @ us2) ms f \<Longrightarrow> \<exists>ms1 ms2 f1 f2. ms = ms1 @ ms2 \<and> updates_rep h us1 ms1 f1 \<and> updates_rep h us2 ms2 f2 \<and> f = fp_join f1 f2 \<and> fp_apart f1 f2"
proof (induction us1 arbitrary: ms f)
  case Nil
  show ?case
    by (rule exI [of _ "[]"], rule exI [of _ ms], rule exI [of _ fp_empty], rule exI [of _ f]) (use Nil in \<open>auto intro: updates_rep.updates_Nil\<close>)
next
  case (Cons u us1)
  from Cons.prems [unfolded append_Cons] show ?case
  proof (cases rule: updates_ConsE [consumes 1, case_names remove put])
    case (remove ms')
    then show ?thesis using Cons.IH [of ms' f] updates_rep.updates_remove by (metis append_Cons)
  next
    case (put ms' f' k g)
    then obtain ms1 ms2 f1 f2 where p: "ms' = ms1 @ ms2" "updates_rep h us1 ms1 f1" "updates_rep h us2 ms2 f2" "f' = fp_join f1 f2" "fp_apart f1 f2"
      using Cons.IH by blast
    then have "updates_rep h (u # us1) ((upath u, Some k) # ms1) (fp_join g f1)" using put by (intro updates_rep.updates_put) auto
    then show ?thesis using put p
      by (intro exI [of _ "(upath u, Some k) # ms1"] exI [of _ ms2] exI [of _ "fp_join g f1"] exI [of _ f2]) (auto simp: fp_join_ac)
  qed
qed

lemma updates_joined:
  "updates_rep h us1 ms1 f1 \<Longrightarrow> updates_rep h us2 ms2 f2 \<Longrightarrow> fp_apart f1 f2 \<Longrightarrow> updates_rep h (us1 @ us2) (ms1 @ ms2) (fp_join f1 f2)"
proof (induction rule: updates_rep.induct)
  case (updates_put us ms f u k g)
  then have "updates_rep h (u # us @ us2) ((upath u, Some k) # ms @ ms2) (fp_join g (fp_join f f2))" by (intro updates_rep.updates_put) auto
  then show ?case by (simp add: fp_join_ac(2))
qed (auto intro: updates_rep.updates_remove)

definition fp_sub :: "footprint \<Rightarrow> footprint \<Rightarrow> bool" where
  "fp_sub f g \<longleftrightarrow> fcells f \<subseteq> fcells g \<and> fnames f \<subseteq> fnames g \<and> fspare f \<subseteq> fspare g \<and> ffiles f \<subseteq> ffiles g"

lemma fp_sub_apart: "fp_sub f g \<Longrightarrow> fp_apart g k \<Longrightarrow> fp_apart f k" "fp_sub f g \<Longrightarrow> fp_apart k g \<Longrightarrow> fp_apart k f"
  unfolding fp_sub_def fp_apart_def by blast+

lemma updates_filter:
  "updates_rep h us ms f \<Longrightarrow> \<exists>g. updates_rep h (filter (\<lambda>u. Q (upath u)) us) (filter (\<lambda>(p, v). Q p) ms) g \<and> fp_sub g f"
proof (induction rule: updates_rep.induct)
  case (updates_put us ms f u k g)
  then obtain g' where g': "updates_rep h (filter (\<lambda>u. Q (upath u)) us) (filter (\<lambda>(p, v). Q p) ms) g'" "fp_sub g' f" by blast
  then show ?case
  proof (cases "Q (upath u)")
    case True
    then show ?thesis using g' updates_put fp_sub_apart(2)
      by (intro exI [of _ "fp_join g g'"]) (auto intro!: updates_rep.updates_put simp: fp_sub_def)
  next
    case False
    then show ?thesis using g' by (intro exI [of _ g']) (auto simp: fp_sub_def)
  qed
qed (auto intro: updates_rep.intros simp: fp_sub_def)

section \<open>Transactions\<close>

text \<open>The store holds a document and a transaction changes to it; they share nothing.\<close>

definition txn_rep :: "transaction \<Rightarrow> store \<Rightarrow> json \<Rightarrow> change list \<Rightarrow> footprint \<Rightarrow> footprint \<Rightarrow> bool" where
  "txn_rep txn db j ms f g \<longleftrightarrow> rep (sheap db) (sdata db) j f \<and> updates_rep (sheap db) (tupdates txn) ms g \<and> fp_apart f g \<and> changes_ok (Some j) ms"

text \<open>What an operation puts at its path.\<close>

definition written :: "store_op \<Rightarrow> json \<Rightarrow> json option" where
  "written op k = (if op = RemoveOp then None else Some k)"

definition value_rep :: "store_op \<Rightarrow> heap \<Rightarrow> fval \<Rightarrow> json \<Rightarrow> footprint \<Rightarrow> bool" where
  "value_rep op h value k e \<longleftrightarrow> (if op = RemoveOp then e = fp_empty else rep h value k e)"

lemma value_rep_doc: "value_rep op h value k e \<Longrightarrow> doc (written op k)"
  by (auto simp: value_rep_def written_def dest: rep_document(1) split: if_splits)

lemma changes_ok_replace: "changes_ok j (ms1 @ (p, Some k) # ms2) \<Longrightarrow> document k' \<Longrightarrow> changes_ok j (ms1 @ (p, Some k') # ms2)"
  by (auto simp: changes_ok_def)

lemma changes_ok_new:
  assumes "changes_ok j ms" and "obj_path q j" and "doc w" and "q \<noteq> []" and "\<forall>(p, v) \<in> set ms. \<not> prefix p q \<or> p = q"
  shows "changes_ok j ((q, w) # filter (\<lambda>(p, v). \<not> prefix q p) ms)"
proof -
  have "\<forall>(p, v) \<in> set (filter (\<lambda>(p, v). \<not> prefix q p) ms). paths_apart q p" using assms(5) by (auto simp: paths_apart_def)
  then show ?thesis using assms(2-4) changes_ok_filter [OF assms(1), of "\<lambda>(p, v). \<not> prefix q p"] by (auto simp: changes_ok_def)
qed

lemma Write_new:
  assumes "path_laws P" and "twrite txn" and "path \<noteq> []" and txn: "txn_rep txn db j ms f g"
    and val: "value_rep op (sheap db) value k e" "fp_apart e (fp_join f g)" and path: "obj_path path (view ms (Some j))"
    and none: "\<forall>(p, v) \<in> set ms. \<not> prefix p path \<or> p = path"
    and there: "op = AddOp \<or> json_get path (view ms (Some j)) \<noteq> None \<and> json_get path (Some j) \<noteq> None"
  shows "\<exists>txn' ms' g'. transaction_Write P grow op path value txn db = Some (Inr (), txn', db) \<and> txn_rep txn' db j ms' f g' \<and>
    view ms' (Some j) = json_set path (written op k) (view ms (Some j))"
proof -
  have rep: "rep (sheap db) (sdata db) j f" "updates_rep (sheap db) (tupdates txn) ms g" "fp_apart f g" "changes_ok (Some j) ms"
    using txn by (auto simp: txn_rep_def)
  have paths: "map fst ms = map upath (tupdates txn)" using updates_paths [OF rep(2)] .
  have obj: "obj_path path (Some j)" using view_obj_path [OF rep(4) none] path by simp
  let ?us = "filter (\<lambda>u. \<not> prefix path (upath u)) (tupdates txn)" and ?ms = "filter (\<lambda>(p, v). \<not> prefix path p) ms"
  let ?u = "\<lparr>upath = path, uremove = (op = RemoveOp), uvalue = value\<rparr>"
  have up: "\<forall>u \<in> set (tupdates txn). \<not> prefix (upath u) path \<or> upath u = path"
  proof -
    have "\<forall>p \<in> set (map fst ms). \<not> prefix p path \<or> p = path" using none by auto
    then show ?thesis unfolding paths by simp
  qed
  moreover have "op = AddOp \<or> (\<forall>u \<in> set (tupdates txn). uremove u \<longrightarrow> upath u \<noteq> path)"
  proof (rule ccontr)
    assume "\<not> ?thesis"
    then obtain u where u: "op \<noteq> AddOp" "u \<in> set (tupdates txn)" "uremove u" "upath u = path" by blast
    then have "(path, None) \<in> set ms" using updates_removed rep(2) by metis
    then show False using view_at [OF rep(4), of path None "[]"] there u(1) by simp
  qed
  moreover have "no_overlap (map upath (tupdates txn))" using rep(4) paths by (simp add: changes_ok_def)
  ultimately have loop: "Write_loop P grow op path value (tupdates txn) (sheap db) = Some (Inr False, ?us, sheap db)"
    using Write_loop_new [OF assms(1)] by blast
  have "newUpdate grow (sdata db) op path path value (sheap db) = Some (Inr ?u, sheap db)"
    using newUpdate_object [OF rep(1) obj assms(3)] there by auto
  then have "transaction_Write P grow op path value txn db = Some (Inr (), txn\<lparr>tupdates := ?u # ?us\<rparr>, db)"
    using loop assms(2,3) by (simp add: transaction_Write_def)
  moreover obtain g' where g': "updates_rep (sheap db) ?us ?ms g'" "fp_sub g' g" using updates_filter [OF rep(2), of "\<lambda>p. \<not> prefix path p"] by blast
  have "updates_rep (sheap db) (?u # ?us) ((path, written op k) # ?ms) (fp_join e g')"
    using val g' fp_sub_apart(2) [OF g'(2)] updates_rep.updates_put [OF g'(1), of ?u k e] updates_rep.updates_remove [OF g'(1), of ?u]
    by (auto simp: value_rep_def written_def split: if_splits)
  moreover have "fp_apart f (fp_join e g')" using val(2) rep(3) fp_sub_apart(2) [OF g'(2)] fp_apart_sym by auto
  moreover have "changes_ok (Some j) ((path, written op k) # ?ms)" using changes_ok_new [OF rep(4) obj value_rep_doc [OF val(1)] assms(3) none] .
  moreover have "view ((path, written op k) # ?ms) (Some j) = json_set path (written op k) (view ms (Some j))"
    using view_new [OF rep(4) obj value_rep_doc [OF val(1)] none] by simp
  ultimately show ?thesis using rep(1) by (auto simp: txn_rep_def intro!: exI)
qed

lemma Write_above:
  assumes "path_laws P" and "twrite txn" and txn: "txn_rep txn db j ms f g"
    and val: "value_rep op (sheap db) value k e" "fp_apart e (fp_join f g)" and path: "obj_path path (view ms (Some j))"
    and above: "(p, v) \<in> set ms" "path = p @ s" "s \<noteq> []"
    and there: "op = AddOp \<or> json_get path (view ms (Some j)) \<noteq> None"
  shows "\<exists>txn' db' ms' g'. transaction_Write P grow op path value txn db = Some (Inr (), txn', db') \<and> txn_rep txn' db' j ms' f g' \<and>
    view ms' (Some j) = json_set path (written op k) (view ms (Some j))"
proof -
  let ?h = "sheap db"
  have rep: "rep ?h (sdata db) j f" "updates_rep ?h (tupdates txn) ms g" "fp_apart f g" "changes_ok (Some j) ms"
    using txn by (auto simp: txn_rep_def)
  have paths: "map fst ms = map upath (tupdates txn)" using updates_paths [OF rep(2)] .
  then have "p \<in> set (map upath (tupdates txn))" using above(1) by (metis fst_conv image_eqI list.set_map)
  then obtain u us1 us2 where us: "tupdates txn = us1 @ u # us2" "upath u = p" by (auto dest!: split_list)
  obtain ms1 msr g1 gr where ms: "ms = ms1 @ msr" "updates_rep ?h us1 ms1 g1" "updates_rep ?h (u # us2) msr gr" "g = fp_join g1 gr" "fp_apart g1 gr"
    using updates_append rep(2) us(1) by metis
  obtain v0 ms2 g0 g2 where u: "msr = (p, v0) # ms2" "updates_rep ?h us2 ms2 g2" "gr = fp_join g0 g2" "fp_apart g0 g2"
    "case v0 of None \<Rightarrow> uremove u \<and> g0 = fp_empty | Some k0 \<Rightarrow> \<not> uremove u \<and> rep ?h (uvalue u) k0 g0"
    using updates_first [OF ms(3)] us(2) by metis
  have val_at: "json_get (p @ q) (view ms (Some j)) = json_get q v0" for q using view_at [OF rep(4)] ms(1) u(1) by simp
  then have s: "obj_path s v0" using path above(2) val_at [of "[]"] by (simp add: obj_path_append)
  then obtain k0 where k0: "v0 = Some k0" "\<not> uremove u" "rep ?h (uvalue u) k0 g0" using above(3) u(5) by (cases v0) (auto simp: neq_Nil_conv)
  let ?new = "\<lparr>upath = s, uremove = (op = RemoveOp), uvalue = value\<rparr>"
  have new: "newUpdate grow (uvalue u) op s s value ?h = Some (Inr ?new, ?h)"
    using newUpdate_object [OF k0(3) s [unfolded k0(1)] above(3)] there val_at [of s] above(2) k0(1) by auto
  have "case written op k of None \<Rightarrow> uremove ?new \<and> e = fp_empty | Some k \<Rightarrow> \<not> uremove ?new \<and> rep ?h (uvalue ?new) k e \<and> fp_apart g0 e"
    using val ms(4) u(3) fp_apart_sym by (auto simp: value_rep_def written_def)
  then obtain v' h' k' g' where app: "update_Apply grow ?new (uvalue u) ?h = Some (v', h')" "json_set s (written op k) (Some k0) = Some k'"
    "rep h' v' k' g'" "fp_within ?h (fp_join g0 e) g'" "changes_only (fcells g0) (fspare g0) {} ?h h'"
    using update_Apply_rep [OF k0(3) s [unfolded k0(1)]] above(3) by (metis update.select_convs(1))
  have "Write_loop P grow op path value (tupdates txn) ?h = Some (Inr True, us1 @ u\<lparr>uvalue := v'\<rparr> # us2, h')"
    using Write_loop_above [OF assms(1), of us1 u us2 path s grow op "value" ?h] rep(4) paths us above(2,3) k0(2) new app(1) by (simp add: changes_ok_def)
  then have wr: "transaction_Write P grow op path value txn db = Some (Inr (), txn\<lparr>tupdates := us1 @ u\<lparr>uvalue := v'\<rparr> # us2\<rparr>, db\<lparr>sheap := h'\<rparr>)"
    using assms(2) above(2,3) by (simp add: transaction_Write_def)
  have others: "fp_apart g0 f" "fp_apart g0 g1" "fp_apart g0 g2" "fp_apart e f" "fp_apart e g1" "fp_apart e g2"
    using rep(3) ms(4,5) u(3,4) val(2) fp_apart_sym by auto
  have inside: "fp_inside ?h f" "fp_inside ?h g1" "fp_inside ?h g2" using rep_inside(1) [OF rep(1)] updates_inside ms(2) u(2) by auto
  have g': "fp_apart g' f" "fp_apart g' g1" "fp_apart g' g2"
    using fp_within_apart [OF _ inside(1) app(4)] fp_within_apart [OF _ inside(2) app(4)] fp_within_apart [OF _ inside(3) app(4)] others by auto
  have frame: "rep h' (sdata db) j f" "updates_rep h' us1 ms1 g1" "updates_rep h' us2 ms2 g2"
    using others by (auto intro!: rep_frame(1) [OF rep(1) app(5)] updates_frame [OF ms(2) app(5)] updates_frame [OF u(2) app(5)] simp: fp_apart_def)
  have "updates_rep h' (u\<lparr>uvalue := v'\<rparr> # us2) ((p, Some k') # ms2) (fp_join g' g2)"
    using updates_rep.updates_put [OF frame(3), of "u\<lparr>uvalue := v'\<rparr>" k' g'] us(2) k0(2) app(3) g'(3) by simp
  then have "updates_rep h' (us1 @ u\<lparr>uvalue := v'\<rparr> # us2) (ms1 @ (p, Some k') # ms2) (fp_join g1 (fp_join g' g2))"
    using updates_joined [OF frame(2)] g'(2) ms(5) u(3) fp_apart_sym by auto
  moreover have "fp_apart f (fp_join g1 (fp_join g' g2))" using rep(3) ms(4) u(3) g'(1) fp_apart_sym by auto
  moreover have "changes_ok (Some j) (ms1 @ (p, Some k') # ms2)" using changes_ok_replace rep(4) ms(1) u(1) k0(1) rep_document(1) [OF app(3)] by metis
  moreover have "view (ms1 @ (p, Some k') # ms2) (Some j) = json_set path (written op k) (view ms (Some j))"
    using view_below [of "Some j" ms1 p k0 ms2 "written op k" s] rep(4) ms(1) u(1) k0(1) value_rep_doc [OF val(1)] s above(2) app(2) by simp
  ultimately show ?thesis using wr frame(1) by (auto simp: txn_rep_def intro!: exI)
qed

lemma Write_plain:
  assumes "path_laws P" and "twrite txn" and "path \<noteq> []" and "txn_rep txn db j ms f g"
    and "value_rep op (sheap db) value k e" and "fp_apart e (fp_join f g)" and "obj_path path (view ms (Some j))"
    and "op = AddOp \<or> json_get path (view ms (Some j)) \<noteq> None \<and> (json_get path (Some j) \<noteq> None \<or> (\<exists>(p, v) \<in> set ms. strict_prefix p path))"
  shows "\<exists>txn' db' ms' g'. transaction_Write P grow op path value txn db = Some (Inr (), txn', db') \<and> txn_rep txn' db' j ms' f g' \<and>
    view ms' (Some j) = json_set path (written op k) (view ms (Some j))"
proof (cases "\<exists>(p, v) \<in> set ms. strict_prefix p path")
  case True
  then obtain p v s where "(p, v) \<in> set ms" "path = p @ s" "s \<noteq> []" by (auto simp: strict_prefix_def prefix_def)
  then show ?thesis using Write_above [OF assms(1,2,4-7)] assms(8) by blast
next
  case False
  then have none: "\<forall>(p, v) \<in> set ms. \<not> prefix p path \<or> p = path" by (auto simp: strict_prefix_def)
  have "op = AddOp \<or> json_get path (view ms (Some j)) \<noteq> None \<and> json_get path (Some j) \<noteq> None" using assms(8) False by blast
  then show ?thesis using Write_new [OF assms(1-7) none] by blast
qed

text \<open>C9. Writing in a transaction at a path through objects, when the updates so far do not overlap and nothing is shared
  (\<open>txn_rep\<close>): adding, and replacing or removing what is in the committed document or below an earlier update, change
  the document that the transaction shows at the path and nowhere else, leave the committed document alone and keep
  the updates apart from each other.  What was itself added by an update at the same path can neither be replaced nor
  removed: \<open>Write_after_Add_lost\<close>.\<close>

theorem transaction_Write_correct:
  assumes "path_laws P" and "twrite txn" and "path \<noteq> []" and "txn_rep txn db j ms f g"
    and "value_rep op (sheap db) value k e" and "fp_apart e (fp_join f g)" and "obj_path path (view ms (Some j))"
    and "op = AddOp \<or> json_get path (view ms (Some j)) \<noteq> None \<and> (json_get path (Some j) \<noteq> None \<or> (\<exists>(p, v) \<in> set ms. strict_prefix p path))"
  shows "\<exists>txn' db' ms' g'. transaction_Write P grow op path value txn db = Some (Inr (), txn', db') \<and> txn_rep txn' db' j ms' f g' \<and>
    view ms' (Some j) = json_set path (written op k) (view ms (Some j))"
  using Write_plain [OF assms] .

definition ex_paths :: path_ops where
  "ex_paths = \<lparr>Equal = (=), HasPrefix = (\<lambda>p q. prefix q p)\<rparr>"

definition ex_store :: store where
  "ex_store = \<lparr>sdata = FRef 0, spolicies = [], sheap = ex_heap\<rparr>"

abbreviation store_doc :: json where
  "store_doc \<equiv> JObject [(str ''b'', JNull)]"

lemma ex_paths_laws: "path_laws ex_paths"
  by (simp add: path_laws_def ex_paths_def)

lemma ex_store_rep: "rep ex_heap (FRef 0) store_doc (fp_own ex_heap (FRef 0))"
proof -
  have "reps ex_heap [FVal JNull] [JNull] fp_empty" using reps_vals [of "[JNull]" ex_heap] by simp
  then have "rep ex_heap (FRef 0) store_doc (fp_join (fp_own ex_heap (FRef 0)) fp_empty)"
    using rep_object_back [of ex_heap 0 "[(str ''b'', FVal JNull)]" "[(str ''b'', JNull)]" fp_empty] ex_heap_ok by simp
  then show ?thesis by simp
qed

lemma ex_txn_rep: "txn_rep (newTransaction True) ex_store store_doc [] (fp_own ex_heap (FRef 0)) fp_empty"
  using ex_store_rep rep_document(1) [OF ex_store_rep]
  by (auto simp: txn_rep_def ex_store_def newTransaction_def changes_ok_def intro: updates_rep.updates_Nil simp del: document_simps)

theorem transaction_Write_correct_witness:
  "\<exists>txn' db' ms'. transaction_Write ex_paths (\<lambda>c n. 2 * c) AddOp [str ''a''] (FVal (JBool True)) (newTransaction True) ex_store = Some (Inr (), txn', db') \<and>
     view ms' (Some store_doc) = Some (JObject [(str ''a'', JBool True), (str ''b'', JNull)])"
proof -
  have "json_set [str ''a''] (Some (JBool True)) (Some store_doc) = Some (JObject [(str ''a'', JBool True), (str ''b'', JNull)])" by code_simp
  moreover have "value_rep AddOp (sheap ex_store) (FVal (JBool True)) (JBool True) fp_empty" by (auto simp: value_rep_def intro: rep_reps.rep_val)
  ultimately show ?thesis
    using transaction_Write_correct [OF ex_paths_laws _ _ ex_txn_rep, of "[str ''a'']" AddOp "FVal (JBool True)" "JBool True" fp_empty "\<lambda>c n. 2 * c"]
    by (fastforce simp: newTransaction_def written_def)
qed

text \<open>C10. Committing a transaction whose updates do not overlap, lead through objects and share nothing (\<open>txn_rep\<close>, which
  writing through objects keeps): the data in memory stand for a document in which every update of the transaction has
  been made and everything apart from their paths is as before.  \<open>updates_overlap\<close> shows what happens otherwise.\<close>

theorem transaction_Commit_correct:
  assumes "txn_rep txn db j ms f g"
  shows "\<exists>ev db' j' f'. transaction_Commit grow txn db = Some (ev, db') \<and> rep (sheap db') (sdata db') j' f' \<and> view ms (Some j) = Some j' \<and>
    (\<forall>(p, v) \<in> set ms. \<forall>q. json_get (p @ q) (Some j') = json_get q v) \<and>
    (\<forall>q. (\<forall>(p, v) \<in> set ms. paths_apart p q) \<longrightarrow> json_get q (Some j') = json_get q (Some j))"
proof -
  have rep: "rep (sheap db) (sdata db) j f" "updates_rep (sheap db) (tupdates txn) ms g" "fp_apart f g" "changes_ok (Some j) ms"
    using assms by (auto simp: txn_rep_def)
  obtain data' h' j' f' where res: "Commit_data grow (tupdates txn) (sdata db) (sheap db) = Some (data', h')" "view ms (Some j) = Some j'" "rep h' data' j' f'"
    using Commit_data_rep [OF rep] by blast
  have "\<forall>(p, v) \<in> set ms. \<forall>q. json_get (p @ q) (Some j') = json_get q v" using view_at [OF rep(4)] res(2) by auto
  moreover have "\<forall>q. (\<forall>(p, v) \<in> set ms. paths_apart p q) \<longrightarrow> json_get q (Some j') = json_get q (Some j)" using view_apart [OF rep(4)] res(2) by auto
  ultimately show ?thesis using res by (auto simp: transaction_Commit_def intro!: exI)
qed

text \<open>A transaction that has added a name.\<close>

definition ex_txn :: transaction where
  "ex_txn = (newTransaction True)\<lparr>tupdates := [\<lparr>upath = [str ''a''], uremove = False, uvalue = FVal (JBool True)\<rparr>]\<rparr>"

lemma ex_txn_added: "txn_rep ex_txn ex_store store_doc [([str ''a''], Some (JBool True))] (fp_own ex_heap (FRef 0)) fp_empty"
  using ex_store_rep rep_document(1) [OF ex_store_rep]
    updates_rep.updates_put [OF updates_rep.updates_Nil [of ex_heap], of "\<lparr>upath = [str ''a''], uremove = False, uvalue = FVal (JBool True)\<rparr>" "JBool True" fp_empty]
  by (auto simp: txn_rep_def ex_store_def ex_txn_def newTransaction_def changes_ok_def intro: rep_reps.rep_val simp del: document_simps)
     (simp_all add: rep_reps.rep_val)

theorem transaction_Commit_correct_witness:
  "\<exists>ev db' f'. transaction_Commit (\<lambda>c n. 2 * c) ex_txn ex_store = Some (ev, db') \<and>
     rep (sheap db') (sdata db') (JObject [(str ''a'', JBool True), (str ''b'', JNull)]) f'"
proof -
  have "view [([str ''a''], Some (JBool True))] (Some store_doc) = Some (JObject [(str ''a'', JBool True), (str ''b'', JNull)])" by code_simp
  then show ?thesis using transaction_Commit_correct [OF ex_txn_added, of "\<lambda>c n. 2 * c"] by force
qed



section \<open>Reading in a transaction\<close>



lemma json_get_None [simp]: "json_get p None = None"
  by (cases p) auto





section \<open>Policies\<close>

lemma Commit_policies_map_of:
  "distinct (map fst us) \<Longrightarrow> map_of (Commit_policies us ps) pid =
     (case map_of us pid of Some u \<Rightarrow> if premove u then None else Some (pvalue u) | None \<Rightarrow> map_of ps pid)"
proof (induction us arbitrary: ps)
  case (Cons u us)
  then show ?case
    by (cases u) (auto simp: Commit_policies_def AList.update_conv AList.delete_conv' map_of_eq_None_iff [symmetric] restrict_map_def split: option.split)
qed (simp add: Commit_policies_def)

text \<open>Policies: what a transaction reads and lists is what is in the store after it has committed.\<close>

theorem Commit_policies_correct:
  assumes "distinct (map fst (tpolicies txn))" and "transaction_Commit grow txn db = Some (ev, db')"
  shows "GetPolicy pid (newTransaction w) db' = GetPolicy pid txn db \<and> set (ListPolicies (newTransaction w) db') = set (ListPolicies txn db)"
proof -
  have ps: "spolicies db' = Commit_policies (tpolicies txn) (spolicies db)" using assms(2) by (auto simp: transaction_Commit_def split: bind_splits)
  note policies = Commit_policies_map_of [OF assms(1), of "spolicies db"]
  have "set (ListPolicies txn db) = dom (map_of (spolicies db'))"
  proof (intro set_eqI)
    fix p
    have "p \<in> set (ListPolicies txn db) \<longleftrightarrow> map_of (tpolicies txn) p = None \<and> map_of (spolicies db) p \<noteq> None \<or>
        (\<exists>u. map_of (tpolicies txn) p = Some u \<and> \<not> premove u)"
      using assms(1) by (force simp: ListPolicies_def map_of_eq_None_iff dom_map_of_conv_image_fst)
    then show "p \<in> set (ListPolicies txn db) \<longleftrightarrow> p \<in> dom (map_of (spolicies db'))" by (auto simp: ps policies dom_def split: option.splits)
  qed
  then show ?thesis by (auto simp: GetPolicy_def ListPolicies_def newTransaction_def ps policies dom_map_of_conv_image_fst split: option.split)
qed

theorem Commit_policies_correct_witness:
  "GetPolicy (str ''p'') (newTransaction False) (snd (the (transaction_Commit (\<lambda>c n. 2 * c)
     (ex_txn\<lparr>tpolicies := [(str ''p'', \<lparr>pvalue = str ''x'', premove = False\<rparr>)]\<rparr>) ex_store))) = Inr (str ''x'')"
proof -
  let ?txn = "ex_txn\<lparr>tpolicies := [(str ''p'', \<lparr>pvalue = str ''x'', premove = False\<rparr>)]\<rparr>"
  have "\<not> Option.is_none (transaction_Commit (\<lambda>c n. 2 * c) ?txn ex_store)" by code_simp
  then obtain ev db' where com: "transaction_Commit (\<lambda>c n. 2 * c) ?txn ex_store = Some (ev, db')" by (auto simp: Option.is_none_def)
  have "GetPolicy (str ''p'') (newTransaction False) db' = GetPolicy (str ''p'') ?txn ex_store"
    using Commit_policies_correct [OF _ com, of "str ''p''" False] by simp
  then show ?thesis by (simp add: com GetPolicy_def)
qed

section \<open>Writing below arrays\<close>

text \<open>A store with a list of two objects, made as the code makes it: \<open>{"l": [{"x": null}, {"x": null}]}\<close>.\<close>

definition list_store :: store where
  "list_store =
     (let (a, h) = NewObject [(str ''x'', FVal JNull)] \<lparr>cells = [], names = [], files = []\<rparr>;
          (b, h) = NewObject [(str ''x'', FVal JNull)] h;
          (l, h) = the (new_array [a, b] 2 h);
          (r, h) = NewObject [(str ''l'', l)] h
      in \<lparr>sdata = r, spolicies = [], sheap = h\<rparr>)"

fun write_all :: "(store_op \<times> path \<times> fval) list \<Rightarrow> transaction \<times> store \<Rightarrow> ((store_error + unit) list \<times> transaction \<times> store) option" where
  "write_all [] (txn, db) = Some ([], txn, db)"
| "write_all ((op, path, v) # ws) (txn, db) = do {
     (r, txn, db) \<leftarrow> transaction_Write ex_paths (\<lambda>c n. max (2 * c) n) op path v txn db;
     (rs, txn, db) \<leftarrow> write_all ws (txn, db);
     Some (r # rs, txn, db) }"

definition committed :: "store \<Rightarrow> json option" where
  "committed db = read_val 4 (sheap db) (sdata db)"

text \<open>A write can change the committed data before \<open>Commit\<close>: after a change of the list, whose copy shares the
  elements, a write below an element changes that element in place.  Readers see it, and \<open>Abort\<close> does not undo it.\<close>

theorem Write_changes_committed:
  "case write_all [(AddOp, [str ''l'', str ''-''], FVal JNull), (ReplaceOp, [str ''l'', str ''0'', str ''x''], FVal (JBool True))] (newTransaction True, list_store) of
     Some (rs, txn, db) \<Rightarrow> rs = [Inr (), Inr ()] \<and>
       committed list_store = Some (JObject [(str ''l'', JArray [JObject [(str ''x'', JNull)], JObject [(str ''x'', JNull)]])]) \<and>
       committed db = Some (JObject [(str ''l'', JArray [JObject [(str ''x'', JBool True)], JObject [(str ''x'', JNull)]])])
   | None \<Rightarrow> False"
  by code_simp

text \<open>Reading above an update changes a deep copy of the data, which shares the names of objects with them.  When these have
  room for another name, as after names were added one by one, the names of the committed data shift: with the
  members \<open>b\<close>, \<open>c\<close> and \<open>d\<close> committed, and \<open>a\<close> added but not committed, a read of the root renames the committed members.\<close>

definition read_above :: "(json option \<times> json option) option" where
  "read_above = do {
     (_, txn, db) \<leftarrow> write_all [(AddOp, [str ''c''], FVal (JBool True)), (AddOp, [str ''d''], FVal (JBool False))] (newTransaction True, ex_store);
     (_, db) \<leftarrow> transaction_Commit (\<lambda>c n. max (2 * c) n) txn db;
     (_, txn, db') \<leftarrow> write_all [(AddOp, [str ''a''], FVal JNull)] (newTransaction True, db);
     (_, db') \<leftarrow> transaction_Read ex_paths (\<lambda>c n. max (2 * c) n) 4 [] txn db';
     Some (committed db, committed db') }"

theorem Read_changes_committed:
  "read_above = Some (Some (JObject [(str ''b'', JNull), (str ''c'', JBool True), (str ''d'', JBool False)]),
     Some (JObject [(str ''a'', JNull), (str ''b'', JBool True), (str ''c'', JBool False)]))"
  by code_simp

text \<open>Updates can overlap: an update below an element, then one that inserts an element before it.  \<open>Commit\<close> then makes
  the first one at its old index, which is another element by now.\<close>

theorem updates_overlap:
  "case write_all [(ReplaceOp, [str ''l'', str ''1'', str ''x''], FVal (JBool True)), (AddOp, [str ''l'', str ''0''], FVal (JObject [(str ''x'', JNull)]))]
       (newTransaction True, list_store) of
     Some (rs, txn, db) \<Rightarrow> rs = [Inr (), Inr ()] \<and> map upath (tupdates txn) = [[str ''l''], [str ''l'', str ''1'', str ''x'']] \<and>
       map_option (committed \<circ> snd) (transaction_Commit (\<lambda>c n. max (2 * c) n) txn db) =
         Some (Some (JObject [(str ''l'', JArray [JObject [(str ''x'', JNull)], JObject [(str ''x'', JBool True)], JObject [(str ''x'', JNull)]])]))
   | None \<Rightarrow> False"
  by code_simp

end
