(* ===== verification/Store_Tree.thy ===== *)
theory Store_Tree
  imports Store_Txn
begin

text \<open>
  The virtual store (src/pkg/storage: tree.go, store.go, the partitions of store_fork.go): one store for reading and
  writing at the root and read-only stores attached to paths.  A tree finds the store of a path, and a transaction of
  the virtual store opens one transaction on each store that it uses.

  The stores themselves are behind OPA's interface and are the argument \<open>B\<close>, a record of their operations on a state
  of the world; \<open>keyString\<close>, an operation of that record, is the conversion of keys by OPA's AST.  Messages of errors are
  left out, and with them the paths of inner trees, which nothing else uses.
\<close>

section \<open>The tree of stores\<close>

text \<open>\<open>children\<close> is a map of the code; a store may be missing (nil).\<close>

datatype 's node =
    Tree (children: "(gostring \<times> 's node) list") (npath: path) (nstore: "'s option")
  | LazyTree (columns: nat) (npath: path) (lstore: 's)

datatype 'e verror =
    ReadsNotSupported
  | WritesNotSupported
  | ErrConflict
  | PathTooShort path
  | PathTooLong path
  | OwnedByPlugin gostring
  | BackendErr 'e

definition newTree :: "path \<Rightarrow> 's option \<Rightarrow> 's node" where
  "newTree p st = Tree [] p st"

definition newLazyTree :: "nat \<Rightarrow> path \<Rightarrow> 's \<Rightarrow> 's node" where
  "newLazyTree n p st = LazyTree n p st"

text \<open>\<open>Insert\<close> panics on an empty path.\<close>

fun node_Insert :: "path \<Rightarrow> 's node \<Rightarrow> 's node \<Rightarrow> ('e verror + 's node) option" where
  "node_Insert p child (LazyTree c q st) = Some (Inl ErrConflict)"
| "node_Insert [] child (Tree ch q st) = None"
| "node_Insert [k] child (Tree ch q st) = Some (Inr (Tree (AList.update k child ch) q st))"
| "node_Insert (k # p) child (Tree ch q st) =
     (let c = (case map_of ch k of Some c \<Rightarrow> c | None \<Rightarrow> newTree (q @ [k]) None) in
      map_option (\<lambda>r. case r of Inl e \<Rightarrow> Inl e | Inr c' \<Rightarrow> Inr (Tree (AList.update k c' ch) q st)) (node_Insert p child c))"

fun node_Find :: "path \<Rightarrow> 's node \<Rightarrow> 'e verror + 's option" where
  "node_Find p (LazyTree c q st) = Inr (Some st)"
| "node_Find [] (Tree ch q st) = (if ch = [] then Inr st else Inl ReadsNotSupported)"
| "node_Find (k # p) (Tree ch q st) = (case map_of ch k of
     Some c \<Rightarrow> node_Find p c
   | None \<Rightarrow> (case st of None \<Rightarrow> Inl ReadsNotSupported | Some _ \<Rightarrow> Inr st))"

section \<open>The virtual store\<close>

record ('s, 't, 'k, 'e, 'w) backend =
  NewTransaction :: "bool \<Rightarrow> 's \<Rightarrow> 'w \<Rightarrow> ('e + 't) \<times> 'w"
  Read :: "'s \<Rightarrow> 't \<Rightarrow> path \<Rightarrow> 'w \<Rightarrow> ('e + json) \<times> 'w"
  ReadBJSON :: "'s \<Rightarrow> 't \<Rightarrow> path \<Rightarrow> 'w \<Rightarrow> ('e + json) \<times> 'w"
  isBJSONReader :: "'s \<Rightarrow> bool"
  Write :: "'s \<Rightarrow> 't \<Rightarrow> store_op \<Rightarrow> path \<Rightarrow> json \<Rightarrow> 'w \<Rightarrow> ('e + unit) \<times> 'w"
  Commit :: "'s \<Rightarrow> 't \<Rightarrow> 'w \<Rightarrow> ('e + unit) \<times> 'w"
  Abort :: "'s \<Rightarrow> 't \<Rightarrow> 'w \<Rightarrow> 'w"
  MakeDir :: "'s \<Rightarrow> 't \<Rightarrow> path \<Rightarrow> 'w \<Rightarrow> ('e + unit) \<times> 'w"
  Policies :: "'s \<Rightarrow> 't \<Rightarrow> 'w \<Rightarrow> ('e + gostring list) \<times> 'w"
  Policy :: "'s \<Rightarrow> 't \<Rightarrow> gostring \<Rightarrow> 'w \<Rightarrow> ('e + bytes) \<times> 'w"
  Upsert :: "'s \<Rightarrow> 't \<Rightarrow> gostring \<Rightarrow> bytes \<Rightarrow> 'w \<Rightarrow> ('e + unit) \<times> 'w"
  Delete :: "'s \<Rightarrow> 't \<Rightarrow> gostring \<Rightarrow> 'w \<Rightarrow> ('e + unit) \<times> 'w"
  IsNotFound :: "'e \<Rightarrow> bool"
  keyString :: "'k \<Rightarrow> 'e + gostring option"

record 's vstore =
  rootStore :: 's
  vtree :: "'s node"
  dataPlugins :: "(gostring \<times> path) list"

record ('s, 't) vtransaction =
  vparams :: bool
  transactions :: "('s \<times> 't) list"

text \<open>The pairs of a base path and a complete path that a store handles.\<close>

fun insertPaths :: "('s \<times> path \<times> path) list \<Rightarrow> 's node \<Rightarrow> ('e verror + 's node) option" where
  "insertPaths [] t = Some (Inr t)"
| "insertPaths ((st, p, c) # opts) t =
     (if p = [] then Some (Inl (PathTooShort p))
      else if length c < length p then Some (Inl (PathTooLong p))
      else do {
        r \<leftarrow> node_Insert (if length p = length c then butlast p else p) (newLazyTree (length c) p st) t;
        case r of Inl e \<Rightarrow> Some (Inl e) | Inr t \<Rightarrow> insertPaths opts t })"

definition newInternal :: "'s \<Rightarrow> ('s \<times> path \<times> path) list \<Rightarrow> ('e verror + 's vstore) option" where
  "newInternal r opts = map_option (map_sum id (\<lambda>t. \<lparr>rootStore = r, vtree = t, dataPlugins = []\<rparr>)) (insertPaths opts (newTree [] (Some r)))"

text \<open>Partitions of the disk store: wildcards are allowed at the end only.\<close>

definition wildcard :: gostring where
  "wildcard = str ''*''"

definition partitionPaths :: "path \<Rightarrow> (path \<times> path) option" where
  "partitionPaths p =
     (let wildcards = length (takeWhile (\<lambda>s. s = wildcard) (rev p)); n = length (filter (\<lambda>s. s = wildcard) p)
      in if wildcards < n then None else Some (take (length p - wildcards) p, p))"

section \<open>Transactions\<close>

definition store_NewTransaction :: "bool \<Rightarrow> ('s, 't) vtransaction" where
  "store_NewTransaction w = \<lparr>vparams = w, transactions = []\<rparr>"

definition dispatch :: "('s, 't, 'k, 'e, 'w) backend \<Rightarrow> 's vstore \<Rightarrow> 's \<Rightarrow> bool \<Rightarrow> ('s, 't) vtransaction \<Rightarrow> 'w \<Rightarrow> ('e verror + 't) \<times> ('s, 't) vtransaction \<times> 'w" where
  "dispatch B vs s write txn w =
     (if write \<and> s \<noteq> rootStore vs then (Inl WritesNotSupported, txn, w)
      else case map_of (transactions txn) s of
        Some t \<Rightarrow> (Inr t, txn, w)
      | None \<Rightarrow> (case NewTransaction B (vparams txn) s w of
          (Inl e, w) \<Rightarrow> (Inl (BackendErr e), txn, w)
        | (Inr t, w) \<Rightarrow> (Inr t, txn\<lparr>transactions := transactions txn @ [(s, t)]\<rparr>, w)))"

text \<open>An operation on the transaction of a store.\<close>

definition on_store ::
  "('s, 't, 'k, 'e, 'w) backend \<Rightarrow> 's vstore \<Rightarrow> 's \<Rightarrow> bool \<Rightarrow> ('t \<Rightarrow> 'w \<Rightarrow> ('e + 'a) \<times> 'w) \<Rightarrow> ('s, 't) vtransaction \<Rightarrow> 'w \<Rightarrow> ('e verror + 'a) \<times> ('s, 't) vtransaction \<times> 'w" where
  "on_store B vs s write f txn w = (case dispatch B vs s write txn w of
     (Inl e, txn, w) \<Rightarrow> (Inl e, txn, w)
   | (Inr t, txn, w) \<Rightarrow> (let (r, w) = f t w in (map_sum BackendErr id r, txn, w)))"

text \<open>\<open>Find\<close> returns no store only for a tree without one and without children, which is never the root of a virtual
  store; then the call of its method panics.\<close>

definition vtransaction_Read where
  "vtransaction_Read B vs p txn w = (case node_Find p (vtree vs) of
     Inl e \<Rightarrow> Some (Inl e, txn, w)
   | Inr None \<Rightarrow> None
   | Inr (Some s) \<Rightarrow> Some (on_store B vs s False (\<lambda>t. Read B s t p) txn w))"

definition vtransaction_ReadBJSON where
  "vtransaction_ReadBJSON B vs p txn w = (case node_Find p (vtree vs) of
     Inl e \<Rightarrow> Some (Inl e, txn, w)
   | Inr None \<Rightarrow> None
   | Inr (Some s) \<Rightarrow>
       (case dispatch B vs s False txn w of
          (Inl e, txn, w) \<Rightarrow> Some (Inl e, txn, w)
        | (Inr t, txn, w) \<Rightarrow>
            if isBJSONReader B s then (let (r, w) = ReadBJSON B s t p w in Some (map_sum BackendErr id r, txn, w)) else None))"

definition vtransaction_Write where
  "vtransaction_Write B vs op p d txn w = (case node_Find p (vtree vs) of
     Inl e \<Rightarrow> Some (Inl (if e = ReadsNotSupported then WritesNotSupported else e), txn, w)
   | Inr None \<Rightarrow> None
   | Inr (Some s) \<Rightarrow> Some (on_store B vs s True (\<lambda>t. Write B s t op p d) txn w))"

definition vtransaction_MakeDir where
  "vtransaction_MakeDir B vs p txn w = (case node_Find p (vtree vs) of
     Inl e \<Rightarrow> Some (Inl e, txn, w)
   | Inr None \<Rightarrow> None
   | Inr (Some s) \<Rightarrow> Some (on_store B vs s True (\<lambda>t. MakeDir B s t p) txn w))"

fun commit_loop :: "('s, 't, 'k, 'e, 'w) backend \<Rightarrow> ('s \<times> 't) list \<Rightarrow> 'w \<Rightarrow> ('e verror + unit) \<times> 'w" where
  "commit_loop B [] w = (Inr (), w)"
| "commit_loop B ((s, t) # ts) w = (case Commit B s t w of
     (Inl e, w) \<Rightarrow> (Inl (BackendErr e), w)
   | (Inr _, w) \<Rightarrow> commit_loop B ts w)"

definition vtransaction_Commit where
  "vtransaction_Commit B txn w = commit_loop B (transactions txn) w"

definition vtransaction_Abort where
  "vtransaction_Abort B txn w = foldl (\<lambda>w (s, t). Abort B s t w) w (transactions txn)"

section \<open>The interface of the store\<close>

text \<open>Reads panic on every error but that a document is not found.\<close>

definition notFound :: "('s, 't, 'k, 'e, 'w) backend \<Rightarrow> 'e verror \<Rightarrow> bool" where
  "notFound B e = (case e of BackendErr e \<Rightarrow> IsNotFound B e | _ \<Rightarrow> False)"

definition panicking where
  "panicking B r = (case r of
     None \<Rightarrow> None
   | Some (Inl e, txn, w) \<Rightarrow> if notFound B e then Some (Inl e, txn, w) else None
   | Some (Inr d, txn, w) \<Rightarrow> Some (Inr d, txn, w))"

definition store_Read where
  "store_Read B vs p txn w = panicking B (vtransaction_Read B vs p txn w)"

definition store_ReadBJSON where
  "store_ReadBJSON B vs p txn w = panicking B (vtransaction_ReadBJSON B vs p txn w)"

definition RegisterDataPlugin :: "gostring \<Rightarrow> path option \<Rightarrow> 's vstore \<Rightarrow> 's vstore" where
  "RegisterDataPlugin name p vs = (case p of
     None \<Rightarrow> vs\<lparr>dataPlugins := AList.delete name (dataPlugins vs)\<rparr>
   | Some p \<Rightarrow> vs\<lparr>dataPlugins := AList.update name p (dataPlugins vs)\<rparr>)"

definition checkDataPlugins :: "path_ops \<Rightarrow> 's vstore \<Rightarrow> path \<Rightarrow> gostring option" where
  "checkDataPlugins P vs p = map_option fst (find (\<lambda>(name, plugin). HasPrefix P p plugin) (dataPlugins vs))"

definition store_Write where
  "store_Write P B vs op p d txn w =
     (case (if p = [] then None else checkDataPlugins P vs p) of
        Some name \<Rightarrow> Some (Inl (OwnedByPlugin name), txn, w)
      | None \<Rightarrow> vtransaction_Write B vs op p d txn w)"

definition store_WriteUnchecked where
  "store_WriteUnchecked B vs op p d txn w = vtransaction_Write B vs op p d txn w"

definition store_ListPolicies where
  "store_ListPolicies B vs txn w = on_store B vs (rootStore vs) False (\<lambda>t. Policies B (rootStore vs) t) txn w"

definition store_GetPolicy where
  "store_GetPolicy B vs pid txn w = on_store B vs (rootStore vs) False (\<lambda>t. Policy B (rootStore vs) t pid) txn w"

definition store_UpsertPolicy where
  "store_UpsertPolicy B vs pid bs txn w = on_store B vs (rootStore vs) True (\<lambda>t. Upsert B (rootStore vs) t pid bs) txn w"

definition vstore_DeletePolicy where
  "vstore_DeletePolicy B vs pid txn w = on_store B vs (rootStore vs) True (\<lambda>t. Delete B (rootStore vs) t pid) txn w"

section \<open>Traversal by the machine\<close>

text \<open>\<open>read\<close>: a document that is not found is no error; all of the data come without \<open>system\<close>.\<close>

definition without_system :: "json \<Rightarrow> json" where
  "without_system j = (case j of JObject kvs \<Rightarrow> JObject (Object_Remove kvs (str ''system'')) | _ \<Rightarrow> j)"

definition vtransaction_read where
  "vtransaction_read B vs s p txn w = (case on_store B vs s False
       (\<lambda>t w. if isBJSONReader B s then (let (r, w) = ReadBJSON B s t p w in (if p = [] then map_sum id without_system r else r, w)) else Read B s t p w) txn w of
     (Inl e, txn, w) \<Rightarrow> if notFound B e then (Inr None, txn, w) else (Inl e, txn, w)
   | (Inr d, txn, w) \<Rightarrow> (Inr (Some d), txn, w))"

datatype 's got = GotNode "'s node" | GotDoc json

definition node_Get where
  "node_Get B vs n k txn w = (case keyString B k of
     Inl e \<Rightarrow> (Inl (BackendErr e), txn, w)
   | Inr None \<Rightarrow> (Inr None, txn, w)
   | Inr (Some skey) \<Rightarrow> (case n of
       Tree ch q st \<Rightarrow> (case map_of ch skey of
         Some child \<Rightarrow> (Inr (Some (GotNode child)), txn, w)
       | None \<Rightarrow> (case (ch, st) of
           ([], Some s) \<Rightarrow> apfst (map_sum id (map_option GotDoc)) (vtransaction_read B vs s (q @ [skey]) txn w)
         | _ \<Rightarrow> (Inr None, txn, w)))
     | LazyTree c q s \<Rightarrow>
         if length (q @ [skey]) = c then apfst (map_sum id (map_option GotDoc)) (vtransaction_read B vs s (q @ [skey]) txn w)
         else (Inr (Some (GotNode (LazyTree c (q @ [skey]) s))), txn, w)))"

text \<open>The document that \<open>Iter\<close> goes through.\<close>

definition node_Iter where
  "node_Iter B vs n txn w = (case n of
     Tree ch q st \<Rightarrow> (case (ch, st) of
       ([], Some s) \<Rightarrow> vtransaction_read B vs s q txn w
     | _ \<Rightarrow> (Inl ReadsNotSupported, txn, w))
   | LazyTree c q s \<Rightarrow> vtransaction_read B vs s q txn w)"

section \<open>The store of a path\<close>

text \<open>The stores attached below a segment, and a tree that has exactly the given ones.\<close>

definition tails :: "gostring \<Rightarrow> (path \<times> 's) set \<Rightarrow> (path \<times> 's) set" where
  "tails k S = {(p, st). (k # p, st) \<in> S}"

inductive attached :: "'s node \<Rightarrow> (path \<times> 's) set \<Rightarrow> bool" where
  attached_lazy: "attached (LazyTree c q st) {([], st)}"
| attached_tree: "(\<forall>st. ([], st) \<notin> S) \<Longrightarrow> (\<And>k. map_of ch k = None \<Longrightarrow> tails k S = {}) \<Longrightarrow>
    (\<And>k n. map_of ch k = Some n \<Longrightarrow> tails k S \<noteq> {}) \<Longrightarrow> (\<And>k n. map_of ch k = Some n \<Longrightarrow> attached n (tails k S)) \<Longrightarrow>
    (\<And>k n. map_of ch k = Some n \<Longrightarrow> case n of Tree _ _ st \<Rightarrow> st = None | LazyTree _ _ _ \<Rightarrow> True) \<Longrightarrow> attached (Tree ch q so) S"

inductive_cases attached_LazyE: "attached (LazyTree c q st) S"
inductive_cases attached_TreeE: "attached (Tree ch q so) S"

lemma tails_insert: "tails k (insert (a # p, st) S) = (if a = k then insert (p, st) (tails k S) else tails k S)"
  by (auto simp: tails_def)

lemma attached_empty: "attached (newTree q so) {}"
  unfolding newTree_def by (rule attached_tree) (auto simp: tails_def)

text \<open>Inserting attaches one more store, if no other store is attached above or below.\<close>

lemma Insert_attached:
  fixes ch :: "(gostring \<times> 's node) list"
  assumes "attached (Tree ch q so) S" and "p \<noteq> []" and "\<forall>(p', st') \<in> S. paths_apart p p'"
  shows "\<exists>ch'. node_Insert p (newLazyTree c b st) (Tree ch q so) = (Some (Inr (Tree ch' q so)) :: ('e verror + 's node) option) \<and> attached (Tree ch' q so) (insert (p, st) S)"
  using assms
proof (induction p arbitrary: ch q so S)
  case (Cons k p)
  have S: "\<forall>st. ([], st) \<notin> S" "\<And>k. map_of ch k = None \<Longrightarrow> tails k S = {}" "\<And>k n. map_of ch k = Some n \<Longrightarrow> tails k S \<noteq> {}"
    "\<And>k n. map_of ch k = Some n \<Longrightarrow> attached n (tails k S)"
    "\<And>k n. map_of ch k = Some n \<Longrightarrow> case n of Tree _ _ st \<Rightarrow> st = None | LazyTree _ _ _ \<Rightarrow> True"
    using Cons.prems(1) by (auto elim: attached_TreeE)
  have apart: "\<forall>(p', st') \<in> tails k S. paths_apart p p'" using Cons.prems(3) by (auto simp: tails_def)
  have put: "attached (Tree (AList.update k n ch) q so) (insert (k # p, st) S)"
    if "attached n (insert (p, st) (tails k S))" "case n of Tree _ _ st \<Rightarrow> st = None | LazyTree _ _ _ \<Rightarrow> True" for n
    by (rule attached_tree) (use S that in \<open>auto simp: tails_insert AList.update_conv' split: if_splits\<close>)
  show ?case
  proof (cases p)
    case Nil
    then have "tails k S = {}" using apart by fastforce
    then have "attached (newLazyTree c b st) (insert (p, st) (tails k S))" using Nil attached_lazy by (simp add: newLazyTree_def)
    then show ?thesis using put [of "newLazyTree c b st"] Nil by (simp add: newLazyTree_def)
  next
    case (Cons a p')
    define n where "n = (case map_of ch k of Some c \<Rightarrow> c | None \<Rightarrow> newTree (q @ [k]) None)"
    have n: "attached n (tails k S)" "case n of Tree _ _ st \<Rightarrow> st = None | LazyTree _ _ _ \<Rightarrow> True"
      using S(2,4,5) [of k] attached_empty [of "q @ [k]" None] by (auto simp: n_def newTree_def split: option.split)
    obtain ch0 q0 where tree: "n = Tree ch0 q0 None"
    proof (cases n)
      case (LazyTree c q st)
      then have "([], st) \<in> tails k S" using n(1) by (auto elim: attached_LazyE)
      then show thesis using apart by fastforce
    qed (use n(2) in auto)
    obtain ch' where "node_Insert p (newLazyTree c b st) n = (Some (Inr (Tree ch' q0 None)) :: ('e verror + 's node) option)" "attached (Tree ch' q0 None) (insert (p, st) (tails k S))"
      using Cons.IH [of ch0 q0 None "tails k S"] n(1) apart Cons tree by auto
    then show ?thesis using put [of "Tree ch' q0 None"] Cons by (simp add: n_def [symmetric])
  qed
qed simp

text \<open>What \<open>Find\<close> is to return: the store attached at or above the path; the store of the root where no store is attached
  below the first segment; an error otherwise.\<close>

definition store_of :: "(path \<times> 's) set \<Rightarrow> 's option \<Rightarrow> path \<Rightarrow> 'e verror + 's option \<Rightarrow> bool" where
  "store_of S so q r \<longleftrightarrow>
     (if \<exists>(p, st) \<in> S. prefix p q then \<exists>(p, st) \<in> S. prefix p q \<and> r = Inr (Some st)
      else if S \<noteq> {} \<and> (q = [] \<or> tails (hd q) S \<noteq> {}) then r = Inl ReadsNotSupported
      else r = (if so = None \<and> q \<noteq> [] then Inl ReadsNotSupported else Inr so))"

lemma tails_prefix:
  assumes "\<forall>st. ([], st) \<notin> S"
  shows "(\<exists>(p, st) \<in> S. prefix p (k # q) \<and> R st) \<longleftrightarrow> (\<exists>(p, st) \<in> tails k S. prefix p q \<and> R st)"
proof
  assume "\<exists>(p, st) \<in> S. prefix p (k # q) \<and> R st"
  then obtain p st where p: "(p, st) \<in> S" "prefix p (k # q)" "R st" by blast
  then have "p \<noteq> []" using assms by blast
  then have "p = k # tl p" "prefix (tl p) q" using p(2) by (cases p; simp)+
  moreover from this(1) have "(tl p, st) \<in> tails k S" using p(1) by (simp add: tails_def)
  ultimately show "\<exists>(p, st) \<in> tails k S. prefix p q \<and> R st" using p(3) by blast
next
  assume "\<exists>(p, st) \<in> tails k S. prefix p q \<and> R st"
  then obtain p st where "(k # p, st) \<in> S" "prefix (k # p) (k # q)" "R st" by (auto simp: tails_def)
  then show "\<exists>(p, st) \<in> S. prefix p (k # q) \<and> R st" by blast
qed

lemma Find_attached:
  fixes n :: "'s node"
  shows "attached n S \<Longrightarrow> store_of S (case n of Tree _ _ so \<Rightarrow> so | LazyTree _ _ st \<Rightarrow> Some st) q (node_Find q n :: 'e verror + 's option)"
proof (induction q arbitrary: n S)
  case Nil
  show ?case
  proof (cases n)
    case (Tree ch b so)
    then have S: "\<forall>st. ([], st) \<notin> S" "\<And>k. map_of ch k = None \<Longrightarrow> tails k S = {}" "\<And>k n. map_of ch k = Some n \<Longrightarrow> tails k S \<noteq> {}"
      using Nil by (auto elim: attached_TreeE)
    have "S = {}" if "ch = []"
    proof (rule equals0I)
      fix x assume x: "x \<in> S"
      obtain p0 st where p0: "x = (p0, st)" by fastforce
      then have "p0 \<noteq> []" using S(1) x by blast
      then have "(tl p0, st) \<in> tails (hd p0) S" using x p0 by (simp add: tails_def)
      then show False using S(2) [of "hd p0"] that by simp
    qed
    moreover have "S \<noteq> {}" if "ch \<noteq> []"
    proof -
      have "map_of ch (fst (hd ch)) = Some (snd (hd ch))" using that by (cases ch) auto
      then show ?thesis using S(3) by (fastforce simp: tails_def)
    qed
    ultimately show ?thesis using Tree S(1) by (auto simp: store_of_def)
  next
    case (LazyTree c b st)
    then show ?thesis using Nil by (auto simp: store_of_def elim!: attached_LazyE)
  qed
next
  case (Cons k q)
  show ?case
  proof (cases n)
    case (LazyTree c b st)
    then show ?thesis using Cons.prems by (auto simp: store_of_def elim!: attached_LazyE)
  next
    case (Tree ch b so)
    have S: "\<forall>st. ([], st) \<notin> S" "\<And>k. map_of ch k = None \<Longrightarrow> tails k S = {}" "\<And>k n. map_of ch k = Some n \<Longrightarrow> tails k S \<noteq> {}"
      "\<And>k n. map_of ch k = Some n \<Longrightarrow> attached n (tails k S)"
      "\<And>k n. map_of ch k = Some n \<Longrightarrow> case n of Tree _ _ st \<Rightarrow> st = None | LazyTree _ _ _ \<Rightarrow> True"
      using Cons.prems Tree by (auto elim: attached_TreeE)
    have above: "(\<exists>(p, st) \<in> S. prefix p (k # q) \<and> R st) \<longleftrightarrow> (\<exists>(p, st) \<in> tails k S. prefix p q \<and> R st)" for R
      using tails_prefix [OF S(1)] .
    show ?thesis
    proof (cases "map_of ch k")
      case None
      then show ?thesis using S(2) [OF None] above [of "\<lambda>_. True"] Tree by (auto simp: store_of_def split: option.split)
    next
      case (Some m)
      have inner: "(case m of Tree _ _ so \<Rightarrow> so | LazyTree _ _ st \<Rightarrow> Some st) = None" if "\<not> (\<exists>(p, st) \<in> tails k S. prefix p q)"
        using S(4,5) [OF Some] that by (cases m) (auto elim!: attached_LazyE)
      have "S \<noteq> {}" using S(3) [OF Some] by (auto simp: tails_def)
      let ?r = "node_Find q m :: 'e verror + 's option"
      have find: "node_Find (k # q) n = ?r" using Tree Some by simp
      note IH = Cons.IH [OF S(4) [OF Some], unfolded store_of_def]
      show ?thesis
      proof (cases "\<exists>(p, st) \<in> tails k S. prefix p q")
        case True
        then have "\<exists>(p, st) \<in> tails k S. prefix p q \<and> ?r = Inr (Some st)" using IH by simp
        then have "\<exists>(p, st) \<in> S. prefix p (k # q) \<and> ?r = Inr (Some st)" using above [of "\<lambda>st. ?r = Inr (Some st)"] by simp
        moreover have "\<exists>(p, st) \<in> S. prefix p (k # q)" using above [of "\<lambda>_. True"] True by simp
        ultimately show ?thesis unfolding store_of_def find by simp
      next
        case False
        then have "?r = Inl ReadsNotSupported" using IH inner [OF False] S(3) [OF Some] by (auto split: if_splits)
        moreover have "\<not> (\<exists>(p, st) \<in> S. prefix p (k # q))" using False above [of "\<lambda>_. True"] by simp
        ultimately show ?thesis unfolding store_of_def find using \<open>S \<noteq> {}\<close> S(3) [OF Some] by simp
      qed
    qed
  qed
qed

lemma insertPaths_attached:
  fixes ch :: "(gostring \<times> 's node) list"
  assumes "attached (Tree ch q so) S" and "\<forall>(st, p, c) \<in> set opts. p \<noteq> [] \<and> length p < length c" and "no_overlap (map (fst \<circ> snd) opts)"
    and "\<forall>(st, p, c) \<in> set opts. \<forall>(p', st') \<in> S. paths_apart p p'"
  shows "\<exists>ch'. insertPaths opts (Tree ch q so) = (Some (Inr (Tree ch' q so)) :: ('e verror + 's node) option) \<and>
    attached (Tree ch' q so) (S \<union> {(p, st). \<exists>c. (st, p, c) \<in> set opts})"
  using assms
proof (induction opts arbitrary: ch S)
  case (Cons opt opts)
  obtain st p c where opt: "opt = (st, p, c)" by (cases opt)
  have p: "p \<noteq> []" "length p < length c" "\<forall>(p', st') \<in> S. paths_apart p p'" "\<forall>(st', p', c') \<in> set opts. paths_apart p p'"
    using Cons.prems opt by (auto simp: case_prod_unfold)
  obtain ch1 where ins: "node_Insert p (newLazyTree (length c) p st) (Tree ch q so) = (Some (Inr (Tree ch1 q so)) :: ('e verror + 's node) option)"
      "attached (Tree ch1 q so) (insert (p, st) S)"
    using Insert_attached [OF Cons.prems(1) p(1,3)] by metis
  have "\<exists>ch'. insertPaths opts (Tree ch1 q so) = (Some (Inr (Tree ch' q so)) :: ('e verror + 's node) option) \<and>
      attached (Tree ch' q so) (insert (p, st) S \<union> {(p, st). \<exists>c. (st, p, c) \<in> set opts})"
    by (rule Cons.IH [OF ins(2)]) (use Cons.prems(2-4) p(4) paths_apart_sym opt in \<open>auto simp: case_prod_unfold\<close>)
  moreover have "insert (p, st) S \<union> {(p, st). \<exists>c. (st, p, c) \<in> set opts} = S \<union> {(p, st). \<exists>c. (st, p, c) \<in> set (opt # opts)}"
    using opt by auto
  ultimately show ?case using ins(1) p(1,2) opt by auto
qed auto

lemma newInternal_attached:
  assumes "\<forall>(st, p, c) \<in> set opts. p \<noteq> [] \<and> length p < length c" and "no_overlap (map (fst \<circ> snd) opts)"
  shows "\<exists>ch. newInternal r opts = (Some (Inr \<lparr>rootStore = r, vtree = Tree ch [] (Some r), dataPlugins = []\<rparr>) :: ('e verror + 's vstore) option) \<and>
    attached (Tree ch [] (Some r)) {(p, st). \<exists>c. (st, p, c) \<in> set opts}"
  using insertPaths_attached [OF attached_empty [of "[]" "Some r", unfolded newTree_def] assms, where 'e = 'e]
  by (auto simp: newInternal_def newTree_def)

text \<open>C32. The virtual store routes a path to the store attached at or above it, to the root store if nothing is attached
  below its first segment, and answers with an error if the path leaves the stores open, for any set of stores whose
  base paths do not overlap and are not empty and strictly shorter than their complete paths, as those of data plugins
  and of disk partitions that end with a wildcard are.  Other partitions: \<open>exact_partition_never_read\<close>.\<close>

theorem newInternal_Find:
  fixes r :: 's
  assumes "\<forall>(st, p, c) \<in> set opts. p \<noteq> [] \<and> length p < length c" and "no_overlap (map (fst \<circ> snd) opts)"
  shows "\<exists>vs. newInternal r opts = (Some (Inr vs) :: ('e verror + 's vstore) option) \<and> rootStore vs = r \<and>
    (\<forall>q. store_of {(p, st). \<exists>c. (st, p, c) \<in> set opts} (Some r) q (node_Find q (vtree vs) :: 'e verror + 's option))"
  using newInternal_attached [OF assms, where 'e = 'e, of r] Find_attached [where 'e = 'e and 's = 's] by fastforce

text \<open>A store attached below \<open>/a\<close>.\<close>

abbreviation attach_opts :: "(nat \<times> path \<times> path) list" where
  "attach_opts \<equiv> [(1, [str ''a''], [str ''a'', wildcard])]"

theorem newInternal_Find_witness:
  "\<exists>vs. newInternal 0 attach_opts = (Some (Inr vs) :: (unit verror + nat vstore) option) \<and>
     store_of {([str ''a''], 1)} (Some 0) [str ''a'', str ''b''] (node_Find [str ''a'', str ''b''] (vtree vs) :: unit verror + nat option)"
proof -
  have "{(p, st). \<exists>c. (st, p, c) \<in> set attach_opts} = {([str ''a''], 1)}" by auto
  then show ?thesis using newInternal_Find [of attach_opts 0, where 'e = unit] by auto
qed

section \<open>What transactions of the virtual store do\<close>

text \<open>C33. Attached stores that are not the root store itself are never written: a write at or below the path of one, or the
  creation of a directory there, ends with an error and touches no store, whatever the stores do.  With disk storage the
  root store itself is what is attached at the partitions, and writes go through to it.\<close>

theorem attached_not_written:
  fixes B :: "('s, 't, 'k, 'e, 'w) backend"
  assumes "\<forall>(st, p, c) \<in> set opts. p \<noteq> [] \<and> length p < length c \<and> st \<noteq> r" and "no_overlap (map (fst \<circ> snd) opts)"
    and "newInternal r opts = (Some (Inr vs) :: ('e verror + 's vstore) option)" and "(st, p, c) \<in> set opts" and "prefix p q"
  shows "vtransaction_Write B vs op q d txn w = Some (Inl WritesNotSupported, txn, w) \<and>
    vtransaction_MakeDir B vs q txn w = Some (Inl WritesNotSupported, txn, w)"
proof -
  have ok: "\<forall>(st, p, c) \<in> set opts. p \<noteq> [] \<and> length p < length c" using assms(1) by auto
  obtain ch where vs: "rootStore vs = r" "vtree vs = Tree ch [] (Some r)" "attached (Tree ch [] (Some r)) {(p, st). \<exists>c. (st, p, c) \<in> set opts}"
    using newInternal_attached [OF ok assms(2), of r, where 'e = 'e] assms(3) by auto
  obtain s where "s \<noteq> r" "node_Find q (vtree vs) = (Inr (Some s) :: 'e verror + 's option)"
    using Find_attached [OF vs(3), of q, where 'e = 'e] assms(1,4,5) unfolding store_of_def vs(2) by (fastforce split: if_splits)
  then show ?thesis by (simp add: vtransaction_Write_def vtransaction_MakeDir_def on_store_def dispatch_def vs(1))
qed

text \<open>A disk partition of one segment without a wildcard makes the construction of the virtual store panic.\<close>

theorem partition_without_wildcard_panics:
  assumes "x \<noteq> wildcard"
  shows "\<exists>p c. partitionPaths [x] = Some (p, c) \<and> newInternal r ((st, p, c) # opts) = (None :: ('e verror + 's vstore) option)"
  using assms by (simp add: partitionPaths_def newInternal_def newTree_def)

theorem partition_without_wildcard_panics_witness:
  "\<exists>p c. partitionPaths [str ''users''] = Some (p, c) \<and> newInternal 0 [(1, p, c)] = (None :: (unit verror + nat vstore) option)"
proof -
  have "str ''users'' \<noteq> wildcard" by code_simp
  then show ?thesis by (rule partition_without_wildcard_panics)
qed

text \<open>A store that counts its transactions and has nothing to read.\<close>

definition ex_backend :: "(nat, nat, gostring, unit, nat) backend" where
  "ex_backend = \<lparr>NewTransaction = (\<lambda>_ _ w. (Inr w, Suc w)), Read = (\<lambda>_ _ _ w. (Inl (), w)), ReadBJSON = (\<lambda>_ _ _ w. (Inl (), w)), isBJSONReader = (\<lambda>_. True),
     Write = (\<lambda>_ _ _ _ _ w. (Inr (), w)), Commit = (\<lambda>_ _ w. (Inr (), w)), Abort = (\<lambda>_ _ w. w), MakeDir = (\<lambda>_ _ _ w. (Inr (), w)),
     Policies = (\<lambda>_ _ w. (Inr [], w)), Policy = (\<lambda>_ _ _ w. (Inl (), w)), Upsert = (\<lambda>_ _ _ _ w. (Inr (), w)), Delete = (\<lambda>_ _ _ w. (Inr (), w)),
     IsNotFound = (\<lambda>_. True), keyString = (\<lambda>k. Inr (Some k))\<rparr>"

theorem attached_not_written_witness:
  "\<exists>vs. newInternal 0 attach_opts = (Some (Inr vs) :: (unit verror + nat vstore) option) \<and>
     vtransaction_Write ex_backend vs AddOp [str ''a'', str ''b''] JNull (store_NewTransaction True) 0 = Some (Inl WritesNotSupported, store_NewTransaction True, 0)"
proof -
  obtain vs where vs: "newInternal 0 attach_opts = (Some (Inr vs) :: (unit verror + nat vstore) option)"
    by (simp add: newInternal_def newTree_def wildcard_def)
  then show ?thesis
    using attached_not_written [OF _ _ vs, of 1 "[str ''a'']" "[str ''a'', wildcard]" "[str ''a'', str ''b'']" ex_backend AddOp JNull "store_NewTransaction True" 0]
    by auto
qed

lemma dispatch_open: "map_of (transactions txn) s = Some t \<Longrightarrow> dispatch B vs s False txn w = (Inr t, txn, w)"
  by (simp add: dispatch_def)

text \<open>A transaction of the virtual store opens one transaction on each store: a second operation on the same store runs
  in the transaction that the first one opened, and none is forgotten.\<close>

theorem dispatch_once:
  assumes "distinct (map fst (transactions txn))" and "dispatch B vs s write txn w = (Inr t, txn', w')"
  shows "distinct (map fst (transactions txn')) \<and> (\<exists>new. transactions txn' = transactions txn @ new) \<and> (s, t) \<in> set (transactions txn') \<and>
    (\<forall>w''. dispatch B vs s False txn' w'' = (Inr t, txn', w''))"
proof (cases "map_of (transactions txn) s")
  case None
  obtain r w1 where new: "NewTransaction B (vparams txn) s w = (r, w1)" by fastforce
  then have "r = Inr t" "txn' = txn\<lparr>transactions := transactions txn @ [(s, t)]\<rparr>"
    using assms(2) None by (auto simp: dispatch_def split: if_splits sum.splits)
  moreover from this have "map_of (transactions txn') s = Some t" using None by (simp add: map_add_def)
  moreover have "s \<notin> fst ` set (transactions txn)" using None by (simp add: map_of_eq_None_iff)
  ultimately show ?thesis using assms(1) dispatch_open [of txn' s t B vs] by simp
next
  case (Some t0)
  then have "t0 = t" "txn' = txn" using assms(2) by (auto simp: dispatch_def split: if_splits)
  then show ?thesis using assms(1) Some by (auto simp: dispatch_def dest: map_of_SomeD)
qed

theorem dispatch_once_witness:
  "\<exists>t txn' w'. dispatch ex_backend \<lparr>rootStore = 0, vtree = newTree [] (Some 0), dataPlugins = []\<rparr> 0 True (store_NewTransaction True) 7 = (Inr t, txn', w') \<and>
     transactions txn' = [(0, 7)] \<and>
     dispatch ex_backend \<lparr>rootStore = 0, vtree = newTree [] (Some 0), dataPlugins = []\<rparr> 0 False txn' 9 = (Inr t, txn', 9)"
proof -
  let ?vs = "\<lparr>rootStore = 0, vtree = newTree [] (Some 0), dataPlugins = []\<rparr>" and ?txn = "\<lparr>vparams = True, transactions = [(0, 7)]\<rparr>"
  have d: "dispatch ex_backend ?vs 0 True (store_NewTransaction True) 7 = (Inr 7, ?txn, 8)"
    by (simp add: dispatch_def ex_backend_def store_NewTransaction_def)
  show ?thesis using dispatch_once [OF _ d] d by (auto simp: store_NewTransaction_def)
qed

section \<open>Lazy trees\<close>

fun node_Gets where
  "node_Gets B vs n [] txn w = (Inr (Some (GotNode n)), txn, w)"
| "node_Gets B vs n (k # ks) txn w = (case node_Get B vs n k txn w of
     (Inr (Some (GotNode m)), txn, w) \<Rightarrow> node_Gets B vs m ks txn w
   | r \<Rightarrow> r)"

lemma lazy_waits:
  assumes "\<forall>k. keyString B k = Inr (Some k)" and "length q + length ks < c \<or> c \<le> length q"
  shows "node_Gets B vs (LazyTree c q s) ks txn w = (Inr (Some (GotNode (LazyTree c (q @ ks) s))), txn, w)"
  using assms(2) by (induction ks arbitrary: q) (auto simp: node_Get_def assms(1))

text \<open>An attached store is read once, at the complete path: descending by keys reads nothing until the path has as many
  segments as the complete path of the store, and then the document at that path.\<close>

theorem lazyTree_reads_once:
  assumes "\<forall>k. keyString B k = Inr (Some k)" and "length q + length ks + 1 = c"
  shows "node_Gets B vs (LazyTree c q s) ks txn w = (Inr (Some (GotNode (LazyTree c (q @ ks) s))), txn, w) \<and>
    node_Get B vs (LazyTree c (q @ ks) s) k txn w = apfst (map_sum id (map_option GotDoc)) (vtransaction_read B vs s (q @ ks @ [k]) txn w)"
  using lazy_waits [OF assms(1), of q ks c] assms by (simp add: node_Get_def)

theorem lazyTree_reads_once_witness:
  "node_Get ex_backend \<lparr>rootStore = 0, vtree = newTree [] (Some 0), dataPlugins = []\<rparr> (LazyTree 3 [str ''a'', str ''b''] 1) (str ''c'') (store_NewTransaction False) 0 =
     apfst (map_sum id (map_option GotDoc)) (vtransaction_read ex_backend \<lparr>rootStore = 0, vtree = newTree [] (Some 0), dataPlugins = []\<rparr> 1
       [str ''a'', str ''b'', str ''c''] (store_NewTransaction False) 0)"
proof -
  have "\<forall>k. keyString ex_backend k = Inr (Some k)" by (simp add: ex_backend_def)
  from lazyTree_reads_once [OF this, of "[str ''a'', str ''b'']" "[]" 3 _ 1 _ 0 "str ''c''"] show ?thesis by simp
qed

text \<open>A partition without wildcards of two or more segments is never read by the machine: its tree stands one segment too
  high and descending from it, by whatever keys, gives trees and no documents.\<close>

theorem exact_partition_never_read:
  assumes "\<forall>k. keyString B k = Inr (Some k)" and "wildcard \<notin> {a, b}"
  shows "\<exists>p c vs. partitionPaths [a, b] = Some (p, c) \<and> newInternal r [(st, p, c)] = (Some (Inr vs) :: ('e verror + 's vstore) option) \<and>
    node_Gets B vs (vtree vs) (a # ks) txn w = (Inr (Some (GotNode (LazyTree 2 ([a, b] @ ks) st))), txn, w)"
proof -
  have "partitionPaths [a, b] = Some ([a, b], [a, b])" using assms(2) by (auto simp: partitionPaths_def)
  moreover have "newInternal r [(st, [a, b], [a, b])] =
      (Some (Inr \<lparr>rootStore = r, vtree = Tree [(a, LazyTree 2 [a, b] st)] [] (Some r), dataPlugins = []\<rparr>) :: ('e verror + 's vstore) option)"
    by (simp add: newInternal_def newTree_def newLazyTree_def)
  moreover have "node_Gets B vs (LazyTree 2 [a, b] st) ks txn w = (Inr (Some (GotNode (LazyTree 2 ([a, b] @ ks) st))), txn, w)" for vs
    using lazy_waits [OF assms(1), of "[a, b]" ks 2] by simp
  ultimately show ?thesis using assms(1) by (auto simp: node_Get_def)
qed

theorem exact_partition_never_read_witness:
  "\<exists>p c vs. partitionPaths [str ''a'', str ''b''] = Some (p, c) \<and> newInternal 0 [(1, p, c)] = (Some (Inr vs) :: (unit verror + nat vstore) option) \<and>
     node_Gets ex_backend vs (vtree vs) [str ''a'', str ''b''] (store_NewTransaction False) 0 =
       (Inr (Some (GotNode (LazyTree 2 ([str ''a'', str ''b''] @ [str ''b'']) 1))), store_NewTransaction False, 0)"
proof -
  have "\<forall>k. keyString ex_backend k = Inr (Some k)" by (simp add: ex_backend_def)
  moreover have "wildcard \<notin> {str ''a'', str ''b''}" by code_simp
  ultimately show ?thesis by (rule exact_partition_never_read)
qed

end
