(* ===== verification/Patch_Heap.thy ===== *)
theory Patch_Heap
  imports Store_Correct
begin

text \<open>
  Applying patches to values in memory (\<open>apply\<close>, \<open>Op.applyTo\<close> and \<open>Patch.ApplyTo\<close> of src/pkg/json/patch.go, \<open>Extract\<close>
  of the values in memory).  Every object and array on the way to the target is cloned before it is changed, but a clone
  is shallow: it shares the elements, and the clone of an object shares the slice of names, into which \<open>setImpl\<close> appends
  in place when there is room.  So the operations work on the heap of \<open>Json_Heap\<close>.

  An operation returns an error or a value, and the heap after it, in both cases; \<open>None\<close> is a panic.  \<open>nil\<close> is the
  result of removing the root.  For a document whose parts share nothing that is changed in place, the operations
  that store, remove and test refine \<open>json_patch\<close>, what they mean on documents as values; copying shares the copied
  value and is outside of this refinement.
\<close>

section \<open>Steps with errors\<close>

type_synonym 'a patch_step = "heap \<Rightarrow> ((patch_error + 'a) \<times> heap) option"

definition pthrow :: "patch_error \<Rightarrow> 'a patch_step" where
  "pthrow e = (\<lambda>h. Some (Inl e, h))"

definition preturn :: "'a \<Rightarrow> 'a patch_step" where
  "preturn x = (\<lambda>h. Some (Inr x, h))"

definition pbind :: "'a patch_step \<Rightarrow> ('a \<Rightarrow> 'b patch_step) \<Rightarrow> 'b patch_step" where
  "pbind m f = (\<lambda>h. case m h of None \<Rightarrow> None | Some (Inl e, h) \<Rightarrow> Some (Inl e, h) | Some (Inr x, h) \<Rightarrow> f x h)"

text \<open>An operation of the values in memory, which panics or returns.\<close>

definition plift :: "(heap \<Rightarrow> ('a \<times> heap) option) \<Rightarrow> 'a patch_step" where
  "plift m = (\<lambda>h. case m h of None \<Rightarrow> None | Some (x, h) \<Rightarrow> Some (Inr x, h))"

section \<open>Extracting\<close>

text \<open>\<open>Value\<close> of a member or element is \<open>nil\<close> when it is not there.  Sets and hash-table objects embed a \<open>Json\<close> that is
  \<open>nil\<close>, so that the method panics.\<close>

definition not_extracted :: "fval \<Rightarrow> bool" where
  "not_extracted v = (case v of FNil \<Rightarrow> True | FVal (JSet _) \<Rightarrow> True | FVal (JObject2 _) \<Rightarrow> True | _ \<Rightarrow> False)"

fun extract_file :: "heap \<Rightarrow> fval \<Rightarrow> gostring list \<Rightarrow> (patch_error + fval) option" where
  "extract_file h v [] = (if not_extracted v then None else Some (Inr v))"
| "extract_file h v (seg # ptr) =
     (if not_extracted v then None
      else if is_array h v then
        (case parseInt seg of
           None \<Rightarrow> Some (Inl PathNotFound)
         | Some i \<Rightarrow> (case Array_Value h v i of None \<Rightarrow> Some (Inl PathNotFound) | Some w \<Rightarrow> extract_file h w ptr))
      else if is_obj_val h v then
        (let w = Object_value h v seg in if w = FNil then Some (Inl PathNotFound) else extract_file h w ptr)
      else Some (Inl PathNotFound))"

definition Extract_file :: "fval \<Rightarrow> gostring \<Rightarrow> fval patch_step" where
  "Extract_file v ptr = (\<lambda>h. case preparePointer ptr of
     Inl e \<Rightarrow> Some (Inl e, h)
   | Inr p \<Rightarrow> map_option (\<lambda>res. (res, h)) (extract_file h v p))"

section \<open>Operations at a pointer\<close>

text \<open>\<open>Compare\<close> reads both values; no path through a value is longer than there are cells.\<close>

definition compare_files :: "heap \<Rightarrow> fval \<Rightarrow> fval \<Rightarrow> int option" where
  "compare_files h a b = do {
     x \<leftarrow> read_val (Suc (length (cells h))) h a;
     y \<leftarrow> read_val (Suc (length (cells h))) h b;
     compare x y }"

definition test_file :: "fval \<Rightarrow> fval \<Rightarrow> fval \<Rightarrow> fval patch_step" where
  "test_file m b result = (\<lambda>h.
     if b = FNil then pthrow PatchBinary h
     else case compare_files h m b of
       None \<Rightarrow> None
     | Some c \<Rightarrow> if c \<noteq> 0 then pthrow (PatchTestFailed []) h else preturn result h)"

text \<open>The target is cloned and then changed.\<close>

definition set_member :: "(nat \<Rightarrow> nat \<Rightarrow> nat) \<Rightarrow> fval \<Rightarrow> gostring \<Rightarrow> fval \<Rightarrow> fval patch_step" where
  "set_member grow v field x = pbind (plift (Clone v)) (\<lambda>v. plift (Object_Set grow v field x))"

definition set_element :: "fval \<Rightarrow> nat \<Rightarrow> fval \<Rightarrow> fval patch_step" where
  "set_element v index x = pbind (plift (Clone v)) (\<lambda>v. plift (Array_SetIdx v index x))"

definition apply_member :: "(nat \<Rightarrow> nat \<Rightarrow> nat) \<Rightarrow> fval \<Rightarrow> gostring \<Rightarrow> fval \<Rightarrow> PatchOp \<Rightarrow> fval patch_step" where
  "apply_member grow v field x op = (\<lambda>h. case op of
     PatchOpRemove \<Rightarrow>
       if Object_value h v field = FNil then pthrow (PatchKeyNotFound field) h
       else pbind (plift (Clone v)) (\<lambda>v. plift (Object_Remove_val v field)) h
   | PatchOpAdd \<Rightarrow> set_member grow v field x h
   | PatchOpCreate \<Rightarrow> set_member grow v field x h
   | PatchOpReplace \<Rightarrow>
       if Object_value h v field = FNil then pthrow (PatchMemberNotFound field) h else set_member grow v field x h
   | PatchOpTest \<Rightarrow>
       if Object_value h v field = FNil then pthrow (PatchMemberNotFound field) h
       else test_file (Object_value h v field) x v h
   | _ \<Rightarrow> pthrow (PatchInvalidOp []) h)"

text \<open>An element is appended at the end, and inserted elsewhere by copying to a new array.\<close>

definition apply_element :: "(nat \<Rightarrow> nat \<Rightarrow> nat) \<Rightarrow> fval \<Rightarrow> nat \<Rightarrow> fval \<Rightarrow> PatchOp \<Rightarrow> fval patch_step" where
  "apply_element grow v index x op = (\<lambda>h. case op of
     PatchOpRemove \<Rightarrow> pbind (plift (Clone v)) (\<lambda>v. plift (Array_RemoveIdx v index)) h
   | PatchOpReplace \<Rightarrow> set_element v index x h
   | PatchOpTest \<Rightarrow> (case Array_Value h v (int index) of None \<Rightarrow> None | Some m \<Rightarrow> test_file m x v h)
   | _ \<Rightarrow>
       if adds op then
         (if index = Array_Len h v then pbind (plift (Clone v)) (\<lambda>v. plift (Array_Append grow v [x])) h
          else plift (new_array (insert_at (elements h v) index x) (Array_Len h v + 1)) h)
       else pthrow (PatchInvalidOp []) h)"

fun apply_file :: "(nat \<Rightarrow> nat \<Rightarrow> nat) \<Rightarrow> fval \<Rightarrow> gostring list \<Rightarrow> fval \<Rightarrow> PatchOp \<Rightarrow> fval patch_step" where
  "apply_file grow json [] x op = (\<lambda>h.
     if json = FNil then pthrow PatchNotFound h
     else case op of
       PatchOpRemove \<Rightarrow> preturn FNil h
     | PatchOpTest \<Rightarrow> test_file json x json h
     | PatchOpCopy \<Rightarrow> pthrow (PatchInvalidOp []) h
     | PatchOpMove \<Rightarrow> pthrow (PatchInvalidOp []) h
     | _ \<Rightarrow> preturn x h)"
| "apply_file grow json (field # ptr) x op = (\<lambda>h.
     if json = FNil then pthrow PatchNotFound h
     else if is_obj_val h json then
       (if ptr = [] then apply_member grow json field x op h
        else if Object_value h json field = FNil then
          (if op = PatchOpCreate then
             (let (child, h) = NewObject [] h in
              pbind (set_member grow json field child) (\<lambda>v.
                pbind (apply_file grow child ptr x op) (\<lambda>sv. set_member grow v field sv)) h)
           else pthrow (PatchKeyNotFound field) h)
        else
          pbind (apply_file grow (Object_value h json field) ptr x op) (\<lambda>sv. set_member grow json field sv) h)
     else if is_array h json then
       (case array_index (elements h json) field op of
          Inl e \<Rightarrow> pthrow e h
        | Inr index \<Rightarrow>
            if ptr = [] then apply_element grow json index x op h
            else case Array_Value h json (int index) of
              None \<Rightarrow> None
            | Some child \<Rightarrow> pbind (apply_file grow child ptr x op) (\<lambda>sv. set_element json index sv) h)
     else pthrow PatchUnsupportedType h)"

section \<open>Patches\<close>

definition applyTo_at :: "(nat \<Rightarrow> nat \<Rightarrow> nat) \<Rightarrow> fval \<Rightarrow> fval \<Rightarrow> PatchOp \<Rightarrow> gostring \<Rightarrow> fval patch_step" where
  "applyTo_at grow file x op path = (\<lambda>h. case preparePointer path of
     Inl e \<Rightarrow> pthrow e h
   | Inr p \<Rightarrow> (case apply_file grow file p x op h of
       Some (Inl (PatchTestFailed _), h) \<Rightarrow> Some (Inl (PatchTestFailed path), h)
     | res \<Rightarrow> res))"

text \<open>\<open>copy\<close> adds what it extracts.\<close>

definition applyTo_copy :: "(nat \<Rightarrow> nat \<Rightarrow> nat) \<Rightarrow> fval \<Rightarrow> gostring \<Rightarrow> gostring \<Rightarrow> fval patch_step" where
  "applyTo_copy grow file src path =
     (if file = FNil then pthrow PatchBinary
      else pbind (Extract_file file src) (\<lambda>x. applyTo_at grow file x PatchOpAdd path))"

text \<open>\<open>move\<close> copies and then removes.\<close>

definition Op_applyTo :: "(nat \<Rightarrow> nat \<Rightarrow> nat) \<Rightarrow> fval Op \<Rightarrow> fval \<Rightarrow> fval patch_step" where
  "Op_applyTo grow u file = (case opOp u of
     PatchOpCopy \<Rightarrow> applyTo_copy grow file (opFrom u) (opPath u)
   | PatchOpMove \<Rightarrow>
       if file = FNil then pthrow PatchBinary
       else pbind (applyTo_copy grow file (opFrom u) (opPath u)) (\<lambda>v.
         if opFrom u \<noteq> opPath u then applyTo_at grow v FNil PatchOpRemove (opFrom u) else preturn v)
   | op \<Rightarrow> applyTo_at grow file (case opValue u of None \<Rightarrow> FNil | Some x \<Rightarrow> x) op (opPath u))"

definition Op_ApplyTo :: "(nat \<Rightarrow> nat \<Rightarrow> nat) \<Rightarrow> fval Op \<Rightarrow> fval \<Rightarrow> fval patch_step" where
  "Op_ApplyTo grow u file =
     pbind (Op_applyTo grow u file) (\<lambda>v. if v = FNil then pthrow PatchBinaryResult else preturn v)"

fun Patch_ApplyTo :: "(nat \<Rightarrow> nat \<Rightarrow> nat) \<Rightarrow> fval Op list \<Rightarrow> fval \<Rightarrow> fval patch_step" where
  "Patch_ApplyTo grow [] file = preturn file"
| "Patch_ApplyTo grow (u # p) file = pbind (Op_ApplyTo grow u file) (\<lambda>v. Patch_ApplyTo grow p v)"

section \<open>Reading values that stand for documents\<close>

lemma those_map: "(\<And>x. x \<in> set xs \<Longrightarrow> f x = Some (g x)) \<Longrightarrow> those (map f xs) = Some (map g xs)"
  by (induction xs) auto

lemma rep_finite: "rep h v j f \<Longrightarrow> finite (fcells f)" "reps h vs js f \<Longrightarrow> finite (fcells f)"
proof -
  have "fp_inside h f \<Longrightarrow> finite (fcells f)" unfolding fp_inside_def by (metis finite_lessThan finite_subset)
  then show "rep h v j f \<Longrightarrow> finite (fcells f)" "reps h vs js f \<Longrightarrow> finite (fcells f)" using rep_inside by blast+
qed

lemma Names_members: "val_ok h v \<Longrightarrow> is_obj_val h v \<Longrightarrow> Names h v = map fst (members h v)"
  by (cases v)
    (auto simp: val_ok_def cell_ok_def object_cell_ok_def is_obj_val_def Names_def members_def cell_names_def cell_values_def
      comp_def case_prod_unfold split: cell.splits json.splits)

lemma array_not_object: "is_obj_val h v \<Longrightarrow> \<not> is_array h v"
  by (auto simp: is_obj_val_def is_array_def split: fval.splits cell.splits json.splits)

text \<open>The fuel that \<open>compare_files\<close> gives is enough.\<close>

lemma rep_read:
  "rep h v j f \<Longrightarrow> card (fcells f) < n \<Longrightarrow> read_val n h v = Some j"
  "reps h vs js f \<Longrightarrow> card (fcells f) < n \<Longrightarrow> those (map (read_val n h) vs) = Some js"
proof (induction v j f and vs js f arbitrary: n and n rule: rep_reps.inducts)
  case (rep_val j)
  then show ?case by (cases n) auto
next
  case (rep_array r js f)
  obtain k where n: "n = Suc k" using rep_array.prems by (cases n) auto
  have "r \<notin> fcells f" using rep_array(5) by (auto simp: fp_apart_def fp_own_def own_cell_def)
  then have "card (fcells f) < k" using rep_array.prems n rep_finite(2) [OF rep_array(3)] by (simp add: fp_own_def own_cell_def)
  then show ?case using rep_array(2,4) by (simp add: n)
next
  case (rep_object r kvs f)
  obtain k where n: "n = Suc k" using rep_object.prems by (cases n) auto
  have "r \<notin> fcells f" using rep_object(6) by (auto simp: fp_apart_def fp_own_def own_cell_def)
  then have "card (fcells f) < k" using rep_object.prems n rep_finite(2) [OF rep_object(3)] by (simp add: fp_own_def own_cell_def)
  then have "those (map (\<lambda>(x, w). read_val k h w) (members h (FRef r))) = Some (map snd kvs)"
    using rep_object(4) by (simp add: comp_def case_prod_unfold)
  then show ?case
    using array_not_object [OF rep_object(2)] rep_object(5) Names_members [OF rep_object(1,2)] by (simp add: n zip_map_fst_snd)
next
  case (reps_Cons v j f vs js g)
  have fin: "finite (fcells f \<union> fcells g)" using rep_finite(1) [OF reps_Cons(1)] rep_finite(2) [OF reps_Cons(3)] by simp
  have "card (fcells f) \<le> card (fcells f \<union> fcells g)" "card (fcells g) \<le> card (fcells f \<union> fcells g)"
    by (rule card_mono [OF fin], simp)+
  then show ?case using reps_Cons by simp
qed simp

lemma rep_read_cells: "rep h v j f \<Longrightarrow> read_val (Suc (length (cells h))) h v = Some j"
  using rep_inside(1) [of h v j f] card_mono [of "{..<length (cells h)}" "fcells f"] by (intro rep_read(1)) (auto simp: fp_inside_def)

lemma compare_files_rep: "rep h a i f \<Longrightarrow> rep h b j g \<Longrightarrow> compare_files h a b = compare i j"
  by (simp add: compare_files_def rep_read_cells del: read_val.simps)

lemma rep_array_elements:
  assumes "rep h a (JArray js) f"
  obtains g where "val_ok h a" "is_array h a" "reps h (elements h a) js g" "f = fp_join (fp_own h a) g" "fp_apart (fp_own h a) g"
proof (cases a)
  case FNil
  then show thesis using assms by (auto elim: rep_FNilE)
next
  case (FVal i)
  then have i: "i = JArray js" "f = fp_empty" using assms by (auto elim: rep_FValE)
  have "reps h (map FVal js) js fp_empty" using rep_document(1) [OF assms] by (intro reps_vals) auto
  then show thesis using FVal i rep_val_ok [OF assms] by (intro that [of fp_empty]) (auto simp: is_array_def elements_def)
next
  case (FRef r)
  show thesis using assms unfolding FRef by (cases rule: rep.cases) (use that FRef in auto)
qed

text \<open>The kind of value that stands for a document.\<close>

lemma rep_kind:
  assumes "rep h v j f"
  shows "(is_obj_val h v \<longleftrightarrow> (\<exists>kvs. j = JObject kvs)) \<and> (is_array h v \<longleftrightarrow> (\<exists>js. j = JArray js))"
  using assms
proof (cases rule: rep.cases)
  case (rep_array r js g)
  then show ?thesis using array_not_object by auto
next
  case (rep_object r kvs g)
  then show ?thesis using array_not_object by auto
qed (auto simp: is_obj_val_def is_array_def split: json.splits)

section \<open>Clones\<close>

text \<open>What a value owns after a shallow copy: a new cell, a new slice of elements, and the old names.\<close>

lemma new_array_own: "new_array es cap h = Some (v, h') \<Longrightarrow> own_files h' v \<subseteq> {length (files h)..}"
  by (auto simp: new_array_def make_slice_def NewArray_def alloc_def own_files_def cell_files_base_def Let_def
      split: if_splits option.splits)

lemma Clone_own:
  assumes "Clone v h = Some (v', h')" and "val_ok h v"
  shows "own_cell v' \<subseteq> {length (cells h)..}" and "own_files h' v' \<subseteq> {length (files h)..}"
    and "own_names h' v' \<subseteq> own_names h v" and "own_spare h' v' \<subseteq> own_spare h v"
proof -
  have "own_cell v' \<subseteq> {length (cells h)..} \<and> own_files h' v' \<subseteq> {length (files h)..} \<and> own_names h' v' \<subseteq> own_names h v \<and>
    own_spare h' v' \<subseteq> own_spare h v"
  proof (cases v)
    case (FRef r)
    have array: ?thesis if "new_array es (length es) h = Some (v', h')" for es
    proof -
      obtain w k where "new_array es (length es) h = Some (w, k)" "w = FRef (length (cells h))" "is_array k w"
        using new_array_facts [OF order_refl, of es h] by metis
      then have "own_cell v' \<subseteq> {length (cells h)..}" "obj_slice h' v' = None"
        using that by (auto simp: own_cell_def is_array_def obj_slice_def split: cell.splits)
      then show ?thesis using new_array_own [OF that] by (simp add: own_names_def own_spare_def)
    qed
    show ?thesis
    proof (cases "is_array h v")
      case True
      then show ?thesis using assms(1) FRef array
        by (auto simp: Clone_def clone_array_def is_array_def split: cell.splits)
    next
      case False
      obtain s vs where c: "clone_cell s vs h = (v', h')" "obj_slice h v = Some s"
        using False assms(1) FRef by (cases "cells h ! r") (auto simp: Clone_def is_array_def obj_slice_def)
      then show ?thesis
        by (auto simp: clone_cell_def alloc_def own_cell_def own_files_def cell_files_base_def own_names_def own_spare_def
            obj_slice_def spare_def slice_cap_def)
    qed
  qed (use assms in \<open>auto simp: Clone_def own_cell_def own_files_def own_names_def own_spare_def\<close>)
  then show "own_cell v' \<subseteq> {length (cells h)..}" "own_files h' v' \<subseteq> {length (files h)..}"
    "own_names h' v' \<subseteq> own_names h v" "own_spare h' v' \<subseteq> own_spare h v" by blast+
qed

lemma Clone_within:
  assumes "Clone v h = Some (v', h')" and "val_ok h v"
  shows "fp_within h (fp_own h v) (fp_own h' v')"
  using Clone_own [OF assms] by (auto simp: fp_within_def fp_own_def)

section \<open>Arrays\<close>

text \<open>A changed array is in its old slice or in a new one.\<close>

lemma cell_files_base_simps [simp]:
  "cell_files_base (ArraySlice s) = {base s}" "cell_files_base (ArrayCompact n es) = {}" "cell_files_base (ArrayStrings n ss) = {}"
  by (simp_all add: cell_files_base_def)

lemma SetIdx_cell_own:
  assumes "SetIdx_cell r i v h = Some (a', h')" and "r < length (cells h)"
  shows "own_files h' a' \<subseteq> own_files h (FRef r) \<union> {length (files h)..}"
  using assms
  by (cases "cells h ! r")
    (auto simp: SetIdx_cell_def ArraySlice_SetIdx_def ArraySliceCompact_SetIdx_def ArraySliceCompactStrings_SetIdx_def put_def
      own_files_def [of _ "FRef r"] dest: new_array_own split: if_splits option.splits)

lemma RemoveIdx_cell_own:
  assumes "RemoveIdx_cell r i h = Some (a', h')" and "r < length (cells h)"
  shows "own_files h' a' \<subseteq> own_files h (FRef r) \<union> {length (files h)..}"
  using assms
  by (cases "cells h ! r")
    (auto simp: RemoveIdx_cell_defs ArraySlice_RemoveIdx_def put_def own_files_def alloc_def Let_def split: if_splits)

lemma append_slice_base: "append_slice grow z s xs fs = (s', fs') \<Longrightarrow> base s' = base s \<or> base s' = length fs"
  by (auto simp: append_slice_def Let_def split: if_splits)

lemma Append_cell_own:
  assumes "Append_cell grow r xs h = Some (a', h')" and "r < length (cells h)"
  shows "own_files h' a' \<subseteq> own_files h (FRef r) \<union> {length (files h)..}"
  using assms
  by (cases "cells h ! r")
    (auto simp: Append_cell_def ArraySlice_Append_def ArraySliceCompact_Append_def ArraySliceCompactStrings_Append_def put_def
      compact_append_def own_files_def [of _ "FRef r"] dest!: append_slice_base new_array_own split: if_splits option.splits prod.splits)

text \<open>Changes of what was not there are none.\<close>

lemma changes_only_fresh:
  assumes "changes_only R N F h h'" and "R \<subseteq> R' \<union> {length (cells h)..}" and "N \<subseteq> N' \<union> {length (names h)..}"
    and "F \<subseteq> F' \<union> {length (files h)..}"
  shows "changes_only R' N' F' h h'"
proof -
  have "r \<notin> R" if "r < length (cells h)" "r \<notin> R'" for r using assms(2) that by auto
  moreover have "base t \<notin> N" if "slice_ok (names h) t" "base t \<notin> N'" for t using assms(3) that by (auto simp: slice_ok_def)
  moreover have "base t \<notin> F" if "slice_ok (files h) t" "base t \<notin> F'" for t using assms(4) that by (auto simp: slice_ok_def)
  ultimately show ?thesis using assms(1) unfolding changes_only_def by blast
qed

text \<open>Operations on arrays, in memory and binary.\<close>

lemma array_op_own:
  assumes "(case a of FRef r \<Rightarrow> g r h
      | FVal (JArray js) \<Rightarrow> do { (b, h) \<leftarrow> ArrayBinary_clone js h; case b of FRef r \<Rightarrow> g r h | _ \<Rightarrow> None }
      | _ \<Rightarrow> None) = Some (a', h')"
    and "val_ok h a" and "is_array h a"
    and own: "\<And>r h a' h'. g r h = Some (a', h') \<Longrightarrow> r < length (cells h) \<Longrightarrow> own_files h' a' \<subseteq> own_files h (FRef r) \<union> {length (files h)..}"
  shows "own_files h' a' \<subseteq> own_files h a \<union> {length (files h)..}"
  using assms(3)
proof (cases rule: array_cases)
  case (cell r)
  then show ?thesis using assms(1,2) own [of r h] by (simp add: val_ok_def)
next
  case (binary js)
  obtain r h1 where c: "ArrayBinary_clone js h = Some (FRef r, h1)" "val_ok h1 (FRef r)"
    using binary_array_facts assms(2) binary by metis
  have "own_files h1 (FRef r) \<subseteq> {length (files h)..}" using new_array_own c(1) by (simp add: ArrayBinary_clone_def)
  moreover have "g r h1 = Some (a', h')" using assms(1) binary c(1) by simp
  then have "own_files h' a' \<subseteq> own_files h1 (FRef r) \<union> {length (files h1)..}" using own c(2) by (simp add: val_ok_def)
  moreover have "changes_only {} {} {} h h1"
    using c(1) new_array_facts [of "map FVal js" "length js" h] by (simp add: ArrayBinary_clone_def) (metis order_refl prod.inject option.inject)
  then have "length (files h) \<le> length (files h1)" by (rule changes_only_files_grow)
  ultimately show ?thesis by auto
qed

lemma Array_ops_own:
  assumes "val_ok h a" and "is_array h a"
  shows "Array_SetIdx a i v h = Some (a', h') \<Longrightarrow> own_files h' a' \<subseteq> own_files h a \<union> {length (files h)..}"
    and "Array_RemoveIdx a i h = Some (a', h') \<Longrightarrow> own_files h' a' \<subseteq> own_files h a \<union> {length (files h)..}"
    and "Array_Append grow a xs h = Some (a', h') \<Longrightarrow> own_files h' a' \<subseteq> own_files h a \<union> {length (files h)..}"
  using array_op_own [where a = a and g = "\<lambda>r. SetIdx_cell r i v", OF _ assms] SetIdx_cell_own [of _ i v]
    array_op_own [where a = a and g = "\<lambda>r. RemoveIdx_cell r i", OF _ assms] RemoveIdx_cell_own [of _ i]
    array_op_own [where a = a and g = "\<lambda>r. Append_cell grow r xs", OF _ assms] Append_cell_own [of grow _ xs]
  by (simp_all add: Array_SetIdx_def Array_RemoveIdx_def Array_Append_def)

text \<open>An array made of values that stand for documents, in new parts of the heap.\<close>

lemma new_array_rep:
  assumes "val_ok h' a'" and "is_array h' a'" and "a' = FRef q" and "length (cells h) \<le> q" and "own_files h' a' \<subseteq> {length (files h)..}"
    and "elements h' a' = es" and "reps h es js g" and "changes_only R {} F h h'" and "R \<subseteq> {length (cells h)..}" and "F \<subseteq> {length (files h)..}"
  shows "\<exists>f'. rep h' a' (JArray js) f' \<and> fp_within h g f' \<and> changes_only {} {} {} h h'"
proof -
  have only: "changes_only {} {} {} h h'" by (rule changes_only_fresh [OF assms(8)]) (use assms(9,10) in auto)
  have inside: "fp_inside h g" by (rule rep_inside(2) [OF assms(7)])
  have "obj_slice h' a' = None" using assms(2,3) by (auto simp: is_array_def obj_slice_def split: cell.splits)
  then have own: "fp_own h' a' = \<lparr>fcells = {q}, fnames = {}, fspare = {}, ffiles = own_files h' a'\<rparr>"
    by (simp add: fp_own_def own_cell_def own_names_def own_spare_def assms(3))
  have "reps h' (elements h' a') js g" using rep_frame(2) [OF assms(7) only] by (simp add: assms(6))
  moreover have "fp_apart (fp_own h' a') g" using inside assms(4,5) unfolding own fp_apart_def fp_inside_def by fastforce
  ultimately have "rep h' a' (JArray js) (fp_join (fp_own h' a') g)" using rep_reps.rep_array assms(1-3) by blast
  moreover have "fp_within h g (fp_join (fp_own h' a') g)" using assms(4,5) unfolding own by (auto simp: fp_within_def)
  ultimately show ?thesis using only by blast
qed

lemma clone_array_rep:
  assumes v: "val_ok h v" "is_array h v" and es: "reps h es js g"
    and op: "\<And>v h'. val_ok h' v \<Longrightarrow> is_array h' v \<Longrightarrow> elements h' v = elements h v0 \<Longrightarrow> array_changed h' v es (op v h') \<and>
      (\<forall>a k. op v h' = Some (a, k) \<longrightarrow> own_files k a \<subseteq> own_files h' v \<union> {length (files h')..})"
    and v0: "v0 = v"
  shows "\<exists>v' h' f'. pbind (plift (Clone v)) (\<lambda>v. plift (op v)) h = Some (Inr v', h') \<and> rep h' v' (JArray js) f' \<and> fp_within h g f' \<and>
    changes_only {} {} {} h h'"
proof -
  obtain w h1 where clone: "Clone v h = Some (w, h1)" "val_ok h1 w" "elements h1 w = elements h v" "is_array h1 w" "changes_only {} {} {} h h1"
    using Clone_facts [OF v(1)] v(2) by metis
  note own = Clone_own [OF clone(1) v(1)]
  obtain v' h' where res: "op w h1 = Some (v', h')" "val_ok h' v'" "is_array h' v'" "elements h' v' = es"
      "changes_only (own_cell w) {} (own_files h1 w) h1 h'" "same_or_new h1 w v'" "own_files h' v' \<subseteq> own_files h1 w \<union> {length (files h1)..}"
    using op [of h1 w] clone v0 by (auto simp: array_changed_def)
  have grow: "length (cells h) \<le> length (cells h1)" "length (files h) \<le> length (files h1)"
    using clone(5) changes_only_files_grow [OF clone(5)] by (simp_all add: changes_only_def)
  obtain q where q: "v' = FRef q" "length (cells h) \<le> q"
    using res(6) own(1) grow(1) by (auto simp: same_or_new_def own_cell_def)
  have files: "own_files h' v' \<subseteq> {length (files h)..}" using res(7) own(2) grow(2) by fastforce
  have "changes_only (own_cell w) {} (own_files h1 w) h h'"
    by (rule changes_only_trans [OF changes_only_mono [OF clone(5)] res(5)]) auto
  from new_array_rep [OF res(2,3) q files res(4) es this own(1,2)]
  show ?thesis using res(1) clone(1) by (auto simp: pbind_def plift_def)
qed

lemma insert_rep:
  assumes "reps h es js g"
  shows "\<exists>v' h' f'. plift (new_array es (length es)) h = Some (Inr v', h') \<and> rep h' v' (JArray js) f' \<and> fp_within h g f' \<and>
    changes_only {} {} {} h h'"
proof -
  obtain v' h' where new: "new_array es (length es) h = Some (v', h')" "v' = FRef (length (cells h))" "val_ok h' v'" "is_array h' v'"
    "elements h' v' = es" "changes_only {} {} {} h h'" using new_array_facts [OF order_refl] .
  from new_array_rep [OF new(3,4,2) order_refl new_array_own [OF new(1)] new(5) assms new(6)] show ?thesis
    using new(1) by (auto simp: plift_def)
qed

section \<open>Objects\<close>

text \<open>What a clone of an object has: the members, at footprints as before.\<close>

lemma Clone_object_parts:
  assumes v: "val_ok h v" "is_obj_val h v" "map fst (members h v) = map fst kvs"
    and rest: "reps h (others (map fst kvs) name (map snd (members h v))) (others (map fst kvs) name (map snd kvs)) r"
    and apart: "fp_apart (fp_own h v) r"
  obtains w h1 where "Clone v h = Some (w, h1)" "val_ok h1 w" "is_obj_val h1 w" "map fst (members h1 w) = map fst kvs"
    "reps h1 (others (map fst kvs) name (map snd (members h1 w))) (others (map fst kvs) name (map snd kvs)) r"
    "fp_apart (fp_own h1 w) r" "changes_only {} {} {} h h1" "fp_within h (fp_own h v) (fp_own h1 w)" "own_cell w \<subseteq> {length (cells h)..}"
    "own_spare h1 w \<subseteq> own_spare h v" "members h1 w = members h v"
proof -
  obtain w h1 where clone: "Clone v h = Some (w, h1)" "val_ok h1 w" "members h1 w = members h v" "is_obj_val h1 w" "changes_only {} {} {} h h1"
    using Clone_facts [OF v(1)] v(2) by metis
  have within: "fp_within h (fp_own h v) (fp_own h1 w)" by (rule Clone_within [OF clone(1) v(1)])
  have "reps h1 (others (map fst kvs) name (map snd (members h1 w))) (others (map fst kvs) name (map snd kvs)) r"
    using rep_frame(2) [OF rest clone(5)] by (simp add: clone(3))
  moreover have "fp_apart (fp_own h1 w) r" by (rule fp_within_apart [OF apart rep_inside(2) [OF rest] within])
  ultimately show thesis using that clone within Clone_own [OF clone(1) v(1)] v(3) by simp
qed

lemma Object_Set_value:
  assumes "Object_Set grow ob name w h = Some (ob', h')" and "val_ok h ob" and "is_obj_val h ob"
  shows "Object_value h' ob' name = w"
proof -
  have "members h' ob' = Object_setImpl (members h ob) name w" using Object_Set_facts [OF assms(2,3), of grow name w] assms(1) by auto
  then show ?thesis using Object_setImpl_sorted(1,2) [OF sorted_members [OF assms(2,3)]]
    by (simp add: Object_value_def Object_valueImpl_eq)
qed

lemma set_member_rep:
  assumes v: "val_ok h v" "is_obj_val h v" "map fst (members h v) = map fst kvs"
    and rest: "reps h (others (map fst kvs) name (map snd (members h v))) (others (map fst kvs) name (map snd kvs)) r"
    and new: "rep h x k g" and apart: "fp_apart r g" "fp_apart (fp_own h v) r" "fp_apart (fp_own h v) g"
  obtains v' h' f' where "set_member grow v name x h = Some (Inr v', h')" "rep h' v' (JObject (Object_setImpl kvs name k)) f'"
    "fp_within h (fp_join (fp_own h v) (fp_join r g)) f'" "changes_only {} (own_spare h v) {} h h'" "Object_value h' v' name = x"
proof -
  obtain w h1 where w: "Clone v h = Some (w, h1)" "val_ok h1 w" "is_obj_val h1 w" "map fst (members h1 w) = map fst kvs"
    "reps h1 (others (map fst kvs) name (map snd (members h1 w))) (others (map fst kvs) name (map snd kvs)) r"
    "fp_apart (fp_own h1 w) r" "changes_only {} {} {} h h1" "fp_within h (fp_own h v) (fp_own h1 w)" "own_cell w \<subseteq> {length (cells h)..}"
    "own_spare h1 w \<subseteq> own_spare h v"
    using Clone_object_parts [OF v rest apart(2)] by metis
  have x: "rep h1 x k g" by (rule rep_frame(1) [OF new w(7)]) auto
  have g: "fp_apart (fp_own h1 w) g" by (rule fp_within_apart [OF apart(3) rep_inside(1) [OF new] w(8)])
  obtain v' h' f' where set: "Object_Set grow w name x h1 = Some (v', h')" "rep h' v' (JObject (Object_setImpl kvs name k)) f'"
    "fp_within h1 (fp_join (fp_own h1 w) (fp_join r g)) f'" "changes_only (own_cell w) (own_spare h1 w) {} h1 h'"
    using Object_Set_rep [OF w(2-5) x apart(1) w(6) g] .
  have "changes_only (own_cell w) (own_spare h1 w) {} h h'"
    by (rule changes_only_trans [OF changes_only_mono [OF w(7)] set(4)]) auto
  then have "changes_only {} (own_spare h v) {} h h'" by (rule changes_only_fresh) (use w(9,10) in auto)
  moreover have "fp_within h (fp_join (fp_own h v) (fp_join r g)) f'"
    by (rule fp_within_trans [OF set(3) w(7)]) (rule fp_within_join(1) [OF w(8)])
  moreover have "set_member grow v name x h = Some (Inr v', h')" using w(1) set(1) by (simp add: set_member_def pbind_def plift_def)
  ultimately show thesis using that set(2) Object_Set_value [OF set(1) w(2,3)] by blast
qed

lemma remove_member_rep:
  assumes v: "val_ok h v" "is_obj_val h v" "map fst (members h v) = map fst kvs"
    and rest: "reps h (others (map fst kvs) name (map snd (members h v))) (others (map fst kvs) name (map snd kvs)) r"
    and apart: "fp_apart (fp_own h v) r"
  obtains v' h' f' where "pbind (plift (Clone v)) (\<lambda>v. plift (Object_Remove_val v name)) h = Some (Inr v', h')"
    "rep h' v' (JObject (Object_Remove kvs name)) f'" "fp_within h (fp_join (fp_own h v) r) f'" "changes_only {} {} {} h h'"
proof -
  obtain w h1 where w: "Clone v h = Some (w, h1)" "val_ok h1 w" "is_obj_val h1 w" "map fst (members h1 w) = map fst kvs"
    "reps h1 (others (map fst kvs) name (map snd (members h1 w))) (others (map fst kvs) name (map snd kvs)) r"
    "fp_apart (fp_own h1 w) r" "changes_only {} {} {} h h1" "fp_within h (fp_own h v) (fp_own h1 w)"
    using Clone_object_parts [OF v rest apart] by metis
  obtain v' h' f' where rem: "Object_Remove_val w name h1 = Some (v', h')" "rep h' v' (JObject (Object_Remove kvs name)) f'"
    "fp_within h1 (fp_join (fp_own h1 w) r) f'" "changes_only {} {} {} h1 h'"
    using Object_Remove_rep [OF w(2-6)] .
  have "changes_only {} {} {} h h'" by (rule changes_only_trans [OF w(7) rem(4)])
  moreover have "fp_within h (fp_join (fp_own h v) r) f'"
    by (rule fp_within_trans [OF rem(3) w(7)]) (rule fp_within_join(1) [OF w(8)])
  ultimately show thesis using that rem(1,2) w(1) by (simp add: pbind_def plift_def)
qed

section \<open>Refinement\<close>

text \<open>The value of an operation, if it has one.\<close>

definition op_value :: "heap \<Rightarrow> fval \<Rightarrow> json option \<Rightarrow> footprint \<Rightarrow> bool" where
  "op_value h x value g \<longleftrightarrow> (case value of None \<Rightarrow> x = FNil \<and> g = fp_empty | Some k \<Rightarrow> rep h x k g)"

text \<open>A result that is what the specification says: the same error or panic, or a value for the changed document.  No
  cell of the heap before has changed, and of the arrays of names only those with room that the value has.\<close>

definition patch_refines :: "heap \<Rightarrow> footprint \<Rightarrow> footprint \<Rightarrow> ((patch_error + fval) \<times> heap) option \<Rightarrow> json option patch_result \<Rightarrow> bool" where
  "patch_refines h f g res spec \<longleftrightarrow> (case spec of
     None \<Rightarrow> res = None
   | Some (Inl e) \<Rightarrow> \<exists>h'. res = Some (Inl e, h') \<and> changes_only {} (fspare f) {} h h'
   | Some (Inr None) \<Rightarrow> res = Some (Inr FNil, h)
   | Some (Inr (Some j')) \<Rightarrow> \<exists>v' h' f'. res = Some (Inr v', h') \<and> rep h' v' j' f' \<and> fp_within h (fp_join f g) f' \<and>
       changes_only {} (fspare f) {} h h')"

lemma patch_refines_error [simp]: "patch_refines h f g (pthrow e h) (Some (Inl e))"
  by (auto simp: patch_refines_def pthrow_def intro!: exI [of _ h])

lemma patch_refines_ok:
  assumes "res = Some (Inr v', h')" and "rep h' v' j' f'" and "fp_within h (fp_join f g) f'" and "changes_only {} (fspare f) {} h h'"
  shows "patch_refines h f g res (Some (Inr (Some j')))"
  using assms by (auto simp: patch_refines_def)

lemma patch_refines_same:
  assumes "rep h v j f"
  shows "patch_refines h f g (preturn v h) (Some (Inr (Some j)))"
  by (rule patch_refines_ok [OF _ assms]) (auto simp: preturn_def fp_within_def)

lemma fp_within_larger: "fp_within h e f' \<Longrightarrow> fcells e \<subseteq> fcells f \<Longrightarrow> fnames e \<subseteq> fnames f \<Longrightarrow> fspare e \<subseteq> fspare f \<Longrightarrow> ffiles e \<subseteq> ffiles f \<Longrightarrow>
   fp_within h f f'"
  by (auto simp: fp_within_def)

lemma test_refines:
  assumes "rep h m i fm" and "op_value h x value g" and "rep h v j f"
  shows "patch_refines h f g (test_file m x v h) (ebind (json_test i value j) (\<lambda>j. ereturn (Some j)))"
proof (cases "value")
  case None
  then have "x = FNil" using assms(2) by (simp add: op_value_def)
  then show ?thesis using None by (simp add: json_test_def test_file_def ebind_def)
next
  case (Some k)
  then have x: "rep h x k g" using assms(2) by (simp add: op_value_def)
  then have cmp: "compare_files h m x = compare i k" using compare_files_rep assms(1) by blast
  show ?thesis
  proof (cases "compare i k")
    case None
    then show ?thesis using Some rep_not_nil [OF x] cmp by (simp add: json_test_def test_file_def ebind_def patch_refines_def)
  next
    case (Some c)
    then show ?thesis using \<open>value = Some k\<close> rep_not_nil [OF x] cmp patch_refines_same [OF assms(3)]
      by (simp add: json_test_def test_file_def ebind_def ereturn_def)
  qed
qed

text \<open>The member of an object at a name.\<close>

lemma Object_value_missing:
  assumes "Object_valueImpl kvs name = None" and "map fst (members h v) = map fst kvs"
  shows "Object_value h v name = FNil"
proof -
  obtain i ok where find: "Object_find (map fst kvs) name = (i, ok)" by fastforce
  then show ?thesis using assms by (auto simp: Object_value_def Object_valueImpl_def)
qed

lemma member_refines:
  assumes rep: "rep h v (JObject kvs) f" and x: "op_value h x value g" and fg: "fp_apart f g"
    and has: "adds op \<or> op = PatchOpReplace \<longrightarrow> value \<noteq> None"
  shows "patch_refines h f g (apply_member grow v field x op h) (ebind (json_member kvs field value op) (\<lambda>j. ereturn (Some j)))"
proof -
  obtain fc where v: "val_ok h v" "is_obj_val h v" "map fst (members h v) = map fst kvs" "reps h (map snd (members h v)) (map snd kvs) fc"
    and f: "f = fp_join (fp_own h v) fc" "fp_apart (fp_own h v) fc"
    using rep_object_parts [OF rep] by metis
  have sorted: "sorted_wrt (<) (map fst kvs)" using sorted_members [OF v(1,2)] v(3) by simp
  obtain c r where others: "reps h (others (map fst kvs) field (map snd (members h v))) (others (map fst kvs) field (map snd kvs)) r"
      "fc = fp_join c r" "fp_apart c r"
    and child: "\<And>j. Object_valueImpl kvs field = Some j \<Longrightarrow> \<exists>w. Object_valueImpl (members h v) field = Some w \<and> rep h w j c"
    using reps_others [OF v(4,3) sorted] by metis
  have own: "fspare (fp_own h v) = own_spare h v" by (simp add: fp_own_def)
  have set: "patch_refines h f g (set_member grow v field x h) (Some (Inr (Some (JObject (Object_setImpl kvs field k)))))"
    if "value = Some k" for k
  proof -
    have xk: "rep h x k g" using x that by (simp add: op_value_def)
    have apart: "fp_apart r g" "fp_apart (fp_own h v) r" "fp_apart (fp_own h v) g" using fg f(2) unfolding f(1) others(2) by simp_all
    obtain v' h' f' where "set_member grow v field x h = Some (Inr v', h')" "rep h' v' (JObject (Object_setImpl kvs field k)) f'"
      "fp_within h (fp_join (fp_own h v) (fp_join r g)) f'" "changes_only {} (own_spare h v) {} h h'"
      using set_member_rep [OF v(1-3) others(1) xk apart] .
    then show ?thesis
      by (intro patch_refines_ok) (auto simp: f(1) others(2) own intro: fp_within_larger changes_only_mono)
  qed
  have remove: "patch_refines h f g (pbind (plift (Clone v)) (\<lambda>v. plift (Object_Remove_val v field)) h) (Some (Inr (Some (JObject (Object_Remove kvs field)))))"
  proof -
    have "fp_apart (fp_own h v) r" using f(2) unfolding others(2) by simp
    from remove_member_rep [OF v(1-3) others(1) this] obtain v' h' f' where
      "pbind (plift (Clone v)) (\<lambda>v. plift (Object_Remove_val v field)) h = Some (Inr v', h')"
      "rep h' v' (JObject (Object_Remove kvs field)) f'" "fp_within h (fp_join (fp_own h v) r) f'" "changes_only {} {} {} h h'" .
    then show ?thesis
      by (intro patch_refines_ok) (auto simp: f(1) others(2) intro: fp_within_larger changes_only_mono)
  qed
  show ?thesis
  proof (cases "Object_valueImpl kvs field")
    case None
    then have "Object_value h v field = FNil" using Object_value_missing v(3) by blast
    then show ?thesis using None set has
      by (cases op) (auto simp: apply_member_def json_member_def ebind_def elift_def ereturn_def adds_def)
  next
    case (Some j)
    then obtain w where w: "Object_valueImpl (members h v) field = Some w" "rep h w j c" using child by blast
    then have wv: "Object_value h v field = w" "w \<noteq> FNil" using rep_not_nil by (simp_all add: Object_value_def)
    show ?thesis using Some set has remove test_refines [OF w(2) x rep] wv
      by (cases op) (auto simp: apply_member_def json_member_def ebind_def elift_def ereturn_def adds_def)
  qed
qed

lemma reps_set_insert:
  assumes "reps h vs js f" and "i \<le> length vs" and "rep h w k g" and "fp_apart f g"
  shows "reps h (insert_at vs i w) (insert_at js i k) (fp_join f g)"
  using reps_insert [OF assms] assms(2) reps_length [OF assms(1)] by (simp add: insert_at_eq)

lemma reps_update:
  assumes "reps h (take i vs @ drop (Suc i) vs) (take i js @ drop (Suc i) js) g" and "i < length vs" and "length js = length vs"
    and "rep h w k c" and "fp_apart g c"
  shows "reps h (vs[i := w]) (js[i := k]) (fp_join g c)"
  using reps_insert [OF assms(1) _ assms(4,5), of i] assms(2,3) by (simp add: upd_conv_take_nth_drop min_def)

lemma element_refines:
  assumes rep: "rep h v (JArray js) f" and x: "op_value h x value g" and fg: "fp_apart f g"
    and has: "adds op \<or> op = PatchOpReplace \<longrightarrow> value \<noteq> None"
    and i: "i \<le> length js" "\<not> adds op \<Longrightarrow> i < length js"
  shows "patch_refines h f g (apply_element grow v i x op h) (ebind (json_element js i value op) (\<lambda>j. ereturn (Some j)))"
proof -
  obtain fc where v: "val_ok h v" "is_array h v" "reps h (elements h v) js fc" and f: "f = fp_join (fp_own h v) fc" "fp_apart (fp_own h v) fc"
    using rep_array_elements [OF rep] by metis
  have len: "length (elements h v) = length js" using reps_length [OF v(3)] .
  have fine: "patch_refines h f g res (Some (Inr (Some (JArray ks))))"
    if ex: "\<exists>v' h' f'. res = Some (Inr v', h') \<and> rep h' v' (JArray ks) f' \<and> fp_within h e f' \<and> changes_only {} {} {} h h'"
      and e: "fcells e \<subseteq> fcells (fp_join fc g)" "fnames e \<subseteq> fnames (fp_join fc g)" "fspare e \<subseteq> fspare (fp_join fc g)" "ffiles e \<subseteq> ffiles (fp_join fc g)"
    for res ks e
  proof -
    obtain v' h' f' where r: "res = Some (Inr v', h')" "rep h' v' (JArray ks) f'" "fp_within h e f'" "changes_only {} {} {} h h'"
      using ex by blast
    have "fp_within h (fp_join f g) f'" using e by (intro fp_within_larger [OF r(3)]) (auto simp: f(1))
    then show ?thesis by (intro patch_refines_ok [OF r(1,2)] changes_only_mono [OF r(4)]) auto
  qed
  have add: "patch_refines h f g (if i = Array_Len h v then pbind (plift (Clone v)) (\<lambda>v. plift (Array_Append grow v [x])) h
        else plift (new_array (insert_at (elements h v) i x) (Array_Len h v + 1)) h)
      (Some (Inr (Some (JArray (if i = length js then js @ [k] else insert_at js i k)))))"
    if "value = Some k" for k
  proof -
    have xk: "rep h x k g" using x that by (simp add: op_value_def)
    have apart: "fp_apart fc g" using fg unfolding f(1) by simp
    have es: "reps h (insert_at (elements h v) i x) (insert_at js i k) (fp_join fc g)"
      by (rule reps_set_insert [OF v(3) _ xk apart]) (simp add: len i(1))
    show ?thesis
    proof (cases "i = length js")
      case True
      then have eq: "insert_at (elements h v) i x = elements h v @ [x]" "insert_at js i k = js @ [k]" by (simp_all add: insert_at_eq len)
      have "\<exists>v' h' f'. pbind (plift (Clone v)) (\<lambda>v. plift (Array_Append grow v [x])) h = Some (Inr v', h') \<and> rep h' v' (JArray (js @ [k])) f' \<and>
        fp_within h (fp_join fc g) f' \<and> changes_only {} {} {} h h'"
      proof (rule clone_array_rep [OF v(1,2) _ _ refl])
        show "reps h (elements h v @ [x]) (js @ [k]) (fp_join fc g)" using es by (simp only: eq)
      qed (use Array_Append_facts Array_ops_own(3) in metis)
      then show ?thesis using True len by (simp add: Array_Len_def fine)
    next
      case False
      have "length (insert_at (elements h v) i x) = Array_Len h v + 1" by (simp add: insert_at_def Array_Len_def)
      then show ?thesis using insert_rep [OF es] False len by (simp add: Array_Len_def fine)
    qed
  qed
  have in_range: "op = PatchOpReplace \<or> op = PatchOpRemove \<or> op = PatchOpTest \<Longrightarrow> i < length js" using i(2) by (auto simp: adds_def)
  show ?thesis
  proof (cases "i < length js")
    case False
    then show ?thesis using add has in_range
      by (cases op) (auto simp: apply_element_def json_element_def ebind_def elift_def ereturn_def adds_def)
  next
    case True
    obtain c r where parts: "rep h (elements h v ! i) (js ! i) c"
        "reps h (take i (elements h v) @ drop (Suc i) (elements h v)) (take i js @ drop (Suc i) js) r" "fc = fp_join c r" "fp_apart c r"
      using reps_split [OF v(3), of i] True len by metis
    have set: "patch_refines h f g (set_element v i x h) (Some (Inr (Some (JArray (js[i := k])))))" if "value = Some k" for k
    proof -
      have xk: "rep h x k g" using x that by (simp add: op_value_def)
      have apart: "fp_apart r g" using fg unfolding f(1) parts(3) by simp
      have "reps h ((elements h v)[i := x]) (js[i := k]) (fp_join r g)"
        by (rule reps_update [OF parts(2) _ _ xk apart]) (simp_all add: len True)
      then have "\<exists>v' h' f'. set_element v i x h = Some (Inr v', h') \<and> rep h' v' (JArray (js[i := k])) f' \<and> fp_within h (fp_join r g) f' \<and>
        changes_only {} {} {} h h'"
        unfolding set_element_def
        by (rule clone_array_rep [OF v(1,2) _ _ refl]) (use Array_SetIdx_facts Array_ops_own(1) len True in metis)
      then show ?thesis by (rule fine) (auto simp: parts(3))
    qed
    have remove: "patch_refines h f g (pbind (plift (Clone v)) (\<lambda>v. plift (Array_RemoveIdx v i)) h) (Some (Inr (Some (JArray (take i js @ drop (i + 1) js)))))"
    proof -
      have "reps h (take i (elements h v) @ drop (i + 1) (elements h v)) (take i js @ drop (i + 1) js) r" using parts(2) by simp
      then have "\<exists>v' h' f'. pbind (plift (Clone v)) (\<lambda>v. plift (Array_RemoveIdx v i)) h = Some (Inr v', h') \<and>
        rep h' v' (JArray (take i js @ drop (i + 1) js)) f' \<and> fp_within h r f' \<and> changes_only {} {} {} h h'"
        by (rule clone_array_rep [OF v(1,2) _ _ refl]) (use Array_RemoveIdx_facts Array_ops_own(2) len True in metis)
      then show ?thesis by (rule fine) (auto simp: parts(3))
    qed
    have "Array_Value h v (int i) = Some (elements h v ! i)" using True len by (simp add: Array_Value_def Array_Len_def)
    then show ?thesis using add set remove has test_refines [OF parts(1) x rep]
      by (cases op) (auto simp: apply_element_def json_element_def ebind_def elift_def ereturn_def adds_def)
  qed
qed

text \<open>The operation was applied to a member or an element; then the object or array is changed.\<close>

lemma below_member:
  assumes v: "val_ok h v" "is_obj_val h v" "map fst (members h v) = map fst kvs"
    and rest: "reps h (others (map fst kvs) name (map snd (members h v))) (others (map fst kvs) name (map snd kvs)) r"
    and f: "f = fp_join (fp_own h v) (fp_join c r)" "fp_apart (fp_own h v) c" "fp_apart (fp_own h v) r" "fp_apart c r"
    and fg: "fp_apart f g" and inner: "patch_refines h c g (m h) spec" "spec \<noteq> Some (Inr None)"
  shows "patch_refines h f g (pbind m (\<lambda>sv. set_member grow v name sv) h)
    (ebind spec (\<lambda>sv. elift (map_option (\<lambda>s. Some (JObject (Object_setImpl kvs name s))) sv)))"
proof (cases spec)
  case None
  then show ?thesis using inner(1) by (simp add: patch_refines_def pbind_def ebind_def)
next
  case (Some res)
  show ?thesis
  proof (cases res)
    case (Inl e)
    then obtain h' where h': "m h = Some (Inl e, h')" "changes_only {} (fspare c) {} h h'" using inner(1) Some by (auto simp: patch_refines_def)
    have "changes_only {} (fspare f) {} h h'" by (rule changes_only_mono [OF h'(2)]) (auto simp: f(1))
    then show ?thesis using h'(1) Inl Some by (simp add: patch_refines_def pbind_def ebind_def)
  next
    case (Inr sv)
    then obtain s where s: "spec = Some (Inr (Some s))" using inner(2) Some by (cases sv) auto
    then obtain w h1 f1 where w: "m h = Some (Inr w, h1)" "rep h1 w s f1" "fp_within h (fp_join c g) f1" "changes_only {} (fspare c) {} h h1"
      using inner(1) by (auto simp: patch_refines_def)
    have inside: "fp_inside h (fp_own h v)" "fp_inside h r" using fp_inside_own [OF v(1)] rep_inside(2) [OF rest] by auto
    have untouched: "fcells (fp_own h v) \<inter> {} = {}" "fnames (fp_own h v) \<inter> fspare c = {}" "ffiles (fp_own h v) \<inter> {} = {}"
      "fcells r \<inter> {} = {}" "fnames r \<inter> fspare c = {}" "ffiles r \<inter> {} = {}"
      using f(2,4) by (auto simp: fp_apart_def)
    note frame = fp_own_frame [OF w(4) v(1) untouched(1-3)]
    note same = changes_only_untouched [OF w(4) v(1) frame(1)]
    have rest1: "reps h1 (others (map fst kvs) name (map snd (members h1 v))) (others (map fst kvs) name (map snd kvs)) r"
      using rep_frame(2) [OF rest w(4) untouched(4-6)] by (simp add: same)
    have apart: "fp_apart r f1" "fp_apart (fp_own h1 v) r" "fp_apart (fp_own h1 v) f1"
      using fp_within_apart [OF _ inside(2) w(3)] fp_within_apart [OF _ inside(1) w(3)] f(2-4) fg
      by (auto simp: frame(2) f(1) intro: fp_apart_sym)
    obtain v' h' f' where set: "set_member grow v name w h1 = Some (Inr v', h')" "rep h' v' (JObject (Object_setImpl kvs name s)) f'"
      "fp_within h1 (fp_join (fp_own h1 v) (fp_join r f1)) f'" "changes_only {} (own_spare h1 v) {} h1 h'"
      using set_member_rep [OF _ _ _ rest1 w(2) apart(1-3)] same v by metis
    have spare: "own_spare h1 v = fspare (fp_own h v)" using frame(2) by (simp add: fp_own_def)
    have "fp_within h (fp_join f g) (fp_join (fp_own h1 v) (fp_join r f1))"
      using w(3) by (auto simp: frame(2) f(1) fp_within_def)
    then have "fp_within h (fp_join f g) f'" using fp_within_trans [OF set(3) w(4)] by blast
    moreover have "changes_only {} (fspare f) {} h h'"
      by (rule changes_only_trans [OF changes_only_mono [OF w(4)] changes_only_mono [OF set(4)]]) (auto simp: f(1) spare)
    ultimately have "patch_refines h f g (Some (Inr v', h')) (Some (Inr (Some (JObject (Object_setImpl kvs name s)))))"
      using patch_refines_ok [OF refl set(2)] by blast
    then show ?thesis using set(1) w(1) by (simp add: s pbind_def ebind_def elift_def)
  qed
qed

lemma below_element:
  assumes rep: "rep h v (JArray js) f" and i: "i < length js"
    and fg: "fp_apart f g" and inner: "\<And>c. rep h (elements h v ! i) (js ! i) c \<Longrightarrow> fp_apart c g \<Longrightarrow> patch_refines h c g (m h) spec"
    and not_nil: "spec \<noteq> Some (Inr None)"
  shows "patch_refines h f g (pbind m (\<lambda>sv. set_element v i sv) h)
    (ebind spec (\<lambda>sv. elift (map_option (\<lambda>s. Some (JArray (js[i := s]))) sv)))"
proof -
  obtain fc where v: "val_ok h v" "is_array h v" "reps h (elements h v) js fc" and f: "f = fp_join (fp_own h v) fc" "fp_apart (fp_own h v) fc"
    using rep_array_elements [OF rep] by metis
  have len: "length (elements h v) = length js" using reps_length [OF v(3)] .
  obtain c r where parts: "rep h (elements h v ! i) (js ! i) c"
      "reps h (take i (elements h v) @ drop (Suc i) (elements h v)) (take i js @ drop (Suc i) js) r" "fc = fp_join c r" "fp_apart c r"
    using reps_split [OF v(3), of i] i len by metis
  have "fp_apart c g" "fp_apart r g" using fg unfolding f(1) parts(3) by simp_all
  note inner = inner [OF parts(1) this(1)]
  show ?thesis
  proof (cases spec)
    case None
    then show ?thesis using inner by (simp add: patch_refines_def pbind_def ebind_def)
  next
    case (Some res)
    show ?thesis
    proof (cases res)
      case (Inl e)
      then obtain h' where h': "m h = Some (Inl e, h')" "changes_only {} (fspare c) {} h h'" using inner Some by (auto simp: patch_refines_def)
      have "changes_only {} (fspare f) {} h h'" by (rule changes_only_mono [OF h'(2)]) (auto simp: f(1) parts(3))
      then show ?thesis using h'(1) Inl Some by (simp add: patch_refines_def pbind_def ebind_def)
    next
      case (Inr sv)
      then obtain s where s: "spec = Some (Inr (Some s))" using not_nil Some by (cases sv) auto
      then obtain w h1 f1 where w: "m h = Some (Inr w, h1)" "rep h1 w s f1" "fp_within h (fp_join c g) f1" "changes_only {} (fspare c) {} h h1"
        using inner by (auto simp: patch_refines_def)
      have inside: "fp_inside h r" by (rule rep_inside(2) [OF parts(2)])
      have untouched: "fcells (fp_own h v) \<inter> {} = {}" "fnames (fp_own h v) \<inter> fspare c = {}" "ffiles (fp_own h v) \<inter> {} = {}"
        "fcells r \<inter> {} = {}" "fnames r \<inter> fspare c = {}" "ffiles r \<inter> {} = {}"
        using f(2) parts(3,4) by (auto simp: fp_apart_def)
      note frame = fp_own_frame [OF w(4) v(1) untouched(1-3)]
      note same = changes_only_untouched [OF w(4) v(1) frame(1)]
      have "fp_apart (fp_join c g) r" using parts(4) \<open>fp_apart r g\<close> by (simp add: fp_apart_sym)
      then have apart: "fp_apart r f1" using fp_within_apart [OF _ inside w(3)] by (simp add: fp_apart_sym)
      have es: "reps h1 ((elements h1 v)[i := w]) (js[i := s]) (fp_join r f1)"
        unfolding same(2)
        by (rule reps_update [OF rep_frame(2) [OF parts(2) w(4) untouched(4-6)] _ _ w(2) apart]) (simp_all add: len i)
      have ok: "val_ok h1 v" "is_array h1 v" and i1: "i < length (elements h1 v)" using v(1,2) i len same(2,3,5) by simp_all
      have "\<exists>v' h' f'. set_element v i w h1 = Some (Inr v', h') \<and> rep h' v' (JArray (js[i := s])) f' \<and>
          fp_within h1 (fp_join r f1) f' \<and> changes_only {} {} {} h1 h'"
        unfolding set_element_def
        by (rule clone_array_rep [OF ok es _ refl]) (use Array_SetIdx_facts Array_ops_own(1) i1 in metis)
      then obtain v' h' f' where set: "set_element v i w h1 = Some (Inr v', h')" "rep h' v' (JArray (js[i := s])) f'"
          "fp_within h1 (fp_join r f1) f'" "changes_only {} {} {} h1 h'" by blast
      have "fp_within h (fp_join f g) (fp_join r f1)" using w(3) by (auto simp: f(1) parts(3) fp_within_def)
      then have "fp_within h (fp_join f g) f'" using fp_within_trans [OF set(3) w(4)] by blast
      moreover have "changes_only {} (fspare f) {} h h'"
        by (rule changes_only_trans [OF changes_only_mono [OF w(4)] changes_only_mono [OF set(4)]]) (auto simp: f(1) parts(3))
      ultimately have "patch_refines h f g (Some (Inr v', h')) (Some (Inr (Some (JArray (js[i := s])))))"
        using patch_refines_ok [OF refl set(2)] by blast
      then show ?thesis using set(1) w(1) by (simp add: s pbind_def ebind_def elift_def)
    qed
  qed
qed

text \<open>A later start.\<close>

lemma patch_refines_later:
  assumes "patch_refines h1 f1 g res spec" and "changes_only {} (fspare f) {} h h1" and "fp_within h f f1" and "spec \<noteq> Some (Inr None)"
  shows "patch_refines h f g res spec"
proof -
  have "fspare f1 \<subseteq> fspare f \<union> {length (names h)..}" using assms(3) by (simp add: fp_within_def)
  then have only: "changes_only {} (fspare f) {} h h'" if "changes_only {} (fspare f1) {} h1 h'" for h'
  proof -
    have "changes_only {} (fspare f \<union> {length (names h)..}) {} h h'"
      by (rule changes_only_trans [OF changes_only_mono [OF assms(2)] changes_only_mono [OF that]])
        (use \<open>fspare f1 \<subseteq> _\<close> in auto)
    then show ?thesis by (rule changes_only_fresh) auto
  qed
  have within: "fp_within h (fp_join f g) f'" if "fp_within h1 (fp_join f1 g) f'" for f'
    by (rule fp_within_trans [OF that assms(2)]) (rule fp_within_join(1) [OF assms(3)])
  show ?thesis
    using assms(1,4) only within unfolding patch_refines_def by (simp split: option.splits sum.splits) blast+
qed

lemma NewObject_rep:
  assumes "NewObject [] h = (child, h1)"
  obtains c where "rep h1 child (JObject []) c" "fp_within h fp_empty c" "changes_only {} {} {} h h1"
proof -
  have sorted: "sorted_wrt (<) (map fst ([] :: (gostring \<times> fval) list))" by simp
  note new = NewObject_facts [OF assms sorted]
  have "reps h1 (map snd (members h1 child)) (map snd []) fp_empty" by (simp add: new(4) rep_reps.reps_Nil)
  then have "rep h1 child (JObject []) (fp_join (fp_own h1 child) fp_empty)"
    unfolding new(1) using new(1-4) by (intro rep_object_back [of h1 "length (cells h)" "[]" "[]"]) (auto simp: rep_reps.reps_Nil)
  moreover have "own_names h1 child \<subseteq> {length (names h)..}" "own_spare h1 child = {}"
    using new(1,6) by (auto simp: own_names_def own_spare_def obj_slice_def)
  then have "fp_within h fp_empty (fp_join (fp_own h1 child) fp_empty)"
    using new(1,3) own_files_object [OF new(3)] by (auto simp: fp_within_def fp_own_def own_cell_def)
  ultimately show thesis using that new(5) by blast
qed

lemma op_value_frame:
  assumes "op_value h x value g" and "changes_only {} N {} h h'" and "fnames g \<inter> N = {}"
  shows "op_value h' x value g"
proof (cases "value")
  case (Some k)
  then show ?thesis using assms(1) rep_frame(1) [OF _ assms(2) _ assms(3)] by (simp add: op_value_def)
qed (use assms(1) in \<open>simp add: op_value_def\<close>)

lemma create_refines:
  assumes rep: "rep h v (JObject kvs) f" and x: "op_value h x value g" and fg: "fp_apart f g" and none: "Object_valueImpl kvs field = None"
    and inner: "\<And>h1 child c. rep h1 child (JObject []) c \<Longrightarrow> op_value h1 x value g \<Longrightarrow> fp_apart c g \<Longrightarrow> patch_refines h1 c g (m child h1) spec"
    and not_nil: "spec \<noteq> Some (Inr None)"
  shows "patch_refines h f g
    (let (child, h) = NewObject [] h in pbind (set_member grow v field child) (\<lambda>v. pbind (m child) (\<lambda>sv. set_member grow v field sv)) h)
    (ebind spec (\<lambda>sv. elift (map_option (\<lambda>s. Some (JObject (Object_setImpl (Object_setImpl kvs field (JObject [])) field s))) sv)))"
proof -
  obtain child h1 where new: "NewObject [] h = (child, h1)" by fastforce
  obtain c where c: "rep h1 child (JObject []) c" "fp_within h fp_empty c" "changes_only {} {} {} h h1" using NewObject_rep [OF new] .
  have v1: "rep h1 v (JObject kvs) f" by (rule rep_frame(1) [OF rep c(3)]) auto
  obtain fc where v: "val_ok h1 v" "is_obj_val h1 v" "map fst (members h1 v) = map fst kvs" "reps h1 (map snd (members h1 v)) (map snd kvs) fc"
    and f: "f = fp_join (fp_own h1 v) fc" "fp_apart (fp_own h1 v) fc"
    using rep_object_parts [OF v1] by metis
  have sorted: "sorted_wrt (<) (map fst kvs)" using sorted_members [OF v(1,2)] v(3) by simp
  obtain c0 r where others: "reps h1 (others (map fst kvs) field (map snd (members h1 v))) (others (map fst kvs) field (map snd kvs)) r"
      "fc = fp_join c0 r"
    using reps_others [OF v(4,3) sorted] by metis
  have "fp_inside h f" using rep_inside(1) [OF rep] .
  then have "fp_apart f c" using fp_within_apart [OF _ _ c(2)] by (simp add: fp_apart_sym)
  then have apart: "fp_apart r c" "fp_apart (fp_own h1 v) r" "fp_apart (fp_own h1 v) c" using f(2) unfolding f(1) others(2) by simp_all
  let ?kvs = "Object_setImpl kvs field (JObject [])"
  obtain v2 h2 f2 where set: "set_member grow v field child h1 = Some (Inr v2, h2)" "rep h2 v2 (JObject ?kvs) f2"
    "fp_within h1 (fp_join (fp_own h1 v) (fp_join r c)) f2" "changes_only {} (own_spare h1 v) {} h1 h2" "Object_value h2 v2 field = child"
    using set_member_rep [OF v(1-3) others(1) c(1) apart] .
  have "changes_only {} (own_spare h1 v) {} h h2" by (rule changes_only_trans [OF changes_only_mono [OF c(3)] set(4)]) auto
  then have only: "changes_only {} (fspare f) {} h h2" by (rule changes_only_mono) (auto simp: f(1) fp_own_def)
  have "fp_within h f (fp_join (fp_own h1 v) (fp_join r c))" using c(2) by (auto simp: f(1) others(2) fp_within_def)
  then have within: "fp_within h f f2" using fp_within_trans [OF set(3) c(3)] by blast
  have "fp_inside h g" using x 
    by (cases "value") (simp_all add: op_value_def rep_inside(1), simp add: fp_inside_def)
  then have f2g: "fp_apart f2 g" using fp_within_apart [OF fg _ within] by blast
  have x2: "op_value h2 x value g" by (rule op_value_frame [OF x only]) (use fg in \<open>auto simp: fp_apart_def\<close>)
  obtain gc where w: "val_ok h2 v2" "is_obj_val h2 v2" "map fst (members h2 v2) = map fst ?kvs" "reps h2 (map snd (members h2 v2)) (map snd ?kvs) gc"
    and f2: "f2 = fp_join (fp_own h2 v2) gc" "fp_apart (fp_own h2 v2) gc"
    using rep_object_parts [OF set(2)] by metis
  have sorted2: "sorted_wrt (<) (map fst ?kvs)" using sorted_members [OF w(1,2)] w(3) by simp
  obtain c2 r2 where others2: "reps h2 (others (map fst ?kvs) field (map snd (members h2 v2))) (others (map fst ?kvs) field (map snd ?kvs)) r2"
      "gc = fp_join c2 r2" "fp_apart c2 r2"
    and member: "\<And>j. Object_valueImpl ?kvs field = Some j \<Longrightarrow> \<exists>w. Object_valueImpl (members h2 v2) field = Some w \<and> rep h2 w j c2"
    using reps_others [OF w(4,3) sorted2] by metis
  have "Object_valueImpl ?kvs field = Some (JObject [])" using Object_setImpl_value [OF sorted] by simp
  then have child: "rep h2 child (JObject []) c2" using member set(5) by (auto simp: Object_value_def)
  have "fp_apart c2 g" using f2g unfolding f2(1) others2(2) by simp
  note inner2 = inner [OF child x2 this]
  have "patch_refines h2 f2 g (pbind (m child) (\<lambda>sv. set_member grow v2 field sv) h2)
      (ebind spec (\<lambda>sv. elift (map_option (\<lambda>s. Some (JObject (Object_setImpl ?kvs field s))) sv)))"
    by (rule below_member [where m = "m child" and h = h2, OF w(1-3) others2(1) _ _ _ others2(3) f2g inner2 not_nil])
      (use f2 others2(2) in simp_all)
  then have "patch_refines h f g (pbind (m child) (\<lambda>sv. set_member grow v2 field sv) h2)
      (ebind spec (\<lambda>sv. elift (map_option (\<lambda>s. Some (JObject (Object_setImpl ?kvs field s))) sv)))"
    by (rule patch_refines_later [OF _ only within]) (auto simp: ebind_def elift_def split: option.splits sum.splits)
  moreover have "(let (child, h) = NewObject [] h in
      pbind (set_member grow v field child) (\<lambda>v. pbind (m child) (\<lambda>sv. set_member grow v field sv)) h) =
    pbind (m child) (\<lambda>sv. set_member grow v2 field sv) h2"
    by (simp add: new pbind_def [of "set_member grow v field child"] set(1))
  ultimately show ?thesis by simp
qed

lemma array_index_length: "length xs = length ys \<Longrightarrow> array_index xs field op = array_index ys field op"
  unfolding array_index_def by (simp only:)

text \<open>The operations in memory refine the operations on documents.\<close>

lemma apply_refines:
  assumes "rep h v j f" and "op_value h x value g" and "fp_apart f g" and has: "adds op \<or> op = PatchOpReplace \<longrightarrow> value \<noteq> None"
  shows "patch_refines h f g (apply_file grow v ptr x op h) (json_patch (Some j) ptr value op)"
  using assms(1-3)
proof (induction ptr arbitrary: h v j f)
  case Nil
  have store: "patch_refines h f g (preturn x h) (ereturn value)" if "adds op \<or> op = PatchOpReplace"
  proof -
    have "value \<noteq> None" using has that by blast
    then obtain k where k: "value = Some k" by blast
    then have "rep h x k g" using Nil(2) by (simp add: op_value_def)
    then show ?thesis using k by (auto simp: ereturn_def preturn_def fp_within_def intro!: patch_refines_ok)
  qed
  show ?case
    using rep_not_nil [OF Nil(1)] store test_refines [OF Nil(1,2,1)]
    by (cases op) (auto simp: adds_def ereturn_def patch_refines_def [of h f g _ "Some (Inr None)"] preturn_def [of FNil])
next
  case (Cons field ptr)
  note nil = rep_not_nil [OF Cons.prems(1)] and kind = rep_kind [OF Cons.prems(1)]
  show ?case
  proof (cases j)
    case (JObject kvs)
    have rep: "rep h v (JObject kvs) f" using Cons.prems(1) JObject by simp
    obtain fc where v: "val_ok h v" "is_obj_val h v" "map fst (members h v) = map fst kvs" "reps h (map snd (members h v)) (map snd kvs) fc"
      and f: "f = fp_join (fp_own h v) fc" "fp_apart (fp_own h v) fc"
      using rep_object_parts [OF rep] by metis
    have sorted: "sorted_wrt (<) (map fst kvs)" using sorted_members [OF v(1,2)] v(3) by simp
    obtain c r where others: "reps h (others (map fst kvs) field (map snd (members h v))) (others (map fst kvs) field (map snd kvs)) r"
        "fc = fp_join c r" "fp_apart c r"
      and child: "\<And>j. Object_valueImpl kvs field = Some j \<Longrightarrow> \<exists>w. Object_valueImpl (members h v) field = Some w \<and> rep h w j c"
      using reps_others [OF v(4,3) sorted] by metis
    show ?thesis
    proof (cases "ptr = []")
      case True
      then show ?thesis using member_refines [OF rep Cons.prems(2,3) has] nil v(2) JObject by (simp add: json_patch.simps(3))
    next
      case False
      then have not_nil: "json_patch (Some d) ptr value op \<noteq> Some (Inr None)" for d using json_patch_nil by (metis neq_Nil_conv)
      show ?thesis
      proof (cases "Object_valueImpl kvs field")
        case None
        have "patch_refines h f g
            (let (child, h) = NewObject [] h in
              pbind (set_member grow v field child) (\<lambda>v. pbind (apply_file grow child ptr x op) (\<lambda>sv. set_member grow v field sv)) h)
            (ebind (json_patch (Some (JObject [])) ptr value op)
              (\<lambda>sv. elift (map_option (\<lambda>s. Some (JObject (Object_setImpl (Object_setImpl kvs field (JObject [])) field s))) sv)))"
          by (rule create_refines [OF rep Cons.prems(2,3) None Cons.IH not_nil])
        then show ?thesis
          using nil v(2) None False JObject Object_value_missing [OF None v(3)]
          by (cases "op = PatchOpCreate") (simp_all add: json_patch.simps(3) Let_def)
      next
        case (Some d)
        then obtain w where w: "Object_valueImpl (members h v) field = Some w" "rep h w d c" using child by blast
        then have wv: "Object_value h v field = w" "w \<noteq> FNil" using rep_not_nil by (simp_all add: Object_value_def)
        have apart: "fp_apart (fp_own h v) c" "fp_apart (fp_own h v) r" "fp_apart c g"
          using f(2) Cons.prems(3) unfolding f(1) others(2) by simp_all
        have "patch_refines h f g (pbind (apply_file grow w ptr x op) (\<lambda>sv. set_member grow v field sv) h)
            (ebind (json_patch (Some d) ptr value op) (\<lambda>sv. elift (map_option (\<lambda>s. Some (JObject (Object_setImpl kvs field s))) sv)))"
          by (rule below_member [where m = "apply_file grow w ptr x op" and h = h, OF v(1-3) others(1) _ apart(1,2) others(3) Cons.prems(3) Cons.IH [OF w(2) Cons.prems(2) apart(3)] not_nil])
            (simp add: f(1) others(2))
        then show ?thesis using nil v(2) Some False JObject wv by (simp add: json_patch.simps(3))
      qed
    qed
  next
    case (JArray js)
    have rep: "rep h v (JArray js) f" using Cons.prems(1) JArray by simp
    have v: "is_array h v" "\<not> is_obj_val h v" using kind JArray by auto
    have len: "length (elements h v) = length js"
      using rep_array_elements [OF rep] reps_length by metis
    show ?thesis
    proof (cases "array_index js field op")
      case (Inl e)
      then show ?thesis using nil v JArray array_index_length [OF len] by (simp add: json_patch.simps(3))
    next
      case (Inr i)
      note bounds = array_index_Inr(1,2) [OF Inr]
      show ?thesis
      proof (cases "ptr = []")
        case True
        then show ?thesis
          using element_refines [OF rep Cons.prems(2,3) has bounds] nil v JArray Inr array_index_length [OF len]
          by (simp add: json_patch.simps(3))
      next
        case False
        then have not_nil: "json_patch (Some d) ptr value op \<noteq> Some (Inr None)" for d using json_patch_nil by (metis neq_Nil_conv)
        show ?thesis
        proof (cases "i < length js")
          case True
          have "patch_refines h f g (pbind (apply_file grow (elements h v ! i) ptr x op) (\<lambda>sv. set_element v i sv) h)
              (ebind (json_patch (Some (js ! i)) ptr value op) (\<lambda>sv. elift (map_option (\<lambda>s. Some (JArray (js[i := s]))) sv)))"
            by (rule below_element [OF rep True Cons.prems(3) _ not_nil]) (rule Cons.IH [OF _ Cons.prems(2)])
          then show ?thesis
            using nil v JArray Inr array_index_length [OF len] False True len
            by (simp add: json_patch.simps(3) Array_Value_def Array_Len_def)
        next
          case out: False
          then show ?thesis
            using nil v JArray Inr array_index_length [OF len] False len
            by (simp add: json_patch.simps(3) Array_Value_def Array_Len_def patch_refines_def)
        qed
      qed
    qed
  qed (use nil kind in \<open>auto simp: json_patch.simps(3)\<close>)
qed

section \<open>Properties\<close>

text \<open>C28. A patch operation that succeeds on a document in memory whose parts share nothing, with a value that is
  apart from it, gives a value that stands for a document: an added or replaced value is what the pointer then leads to,
  the object or array around the target changes as it would alone, every pointer apart from the target leads to the
  same value as before, and a test changes nothing.  No object or array of the heap before is changed; of the arrays of
  names only those with room that the document has may be.\<close>

theorem apply_correct:
  assumes "rep h v j f" and "op_value h x value g" and "fp_apart f g" and "adds op \<or> op = PatchOpReplace \<longrightarrow> value \<noteq> None"
    and "apply_file grow v ptr x op h = Some (Inr v', h')" and "v' \<noteq> FNil"
  shows "\<exists>j' f'. rep h' v' j' f' \<and> fp_within h (fp_join f g) f' \<and> changes_only {} (fspare f) {} h h' \<and>
    (str ''-'' \<notin> set ptr \<and> (adds op \<or> op = PatchOpReplace) \<longrightarrow> (\<forall>k. value = Some k \<longrightarrow> extractImpl j' ptr = ereturn k)) \<and>
    (\<forall>p a c. ptr = p @ [a] \<and> str ''-'' \<notin> set p \<and> extractImpl j p = ereturn c \<longrightarrow>
      (\<exists>c'. json_patch (Some c) [a] value op = Some (Inr (Some c')) \<and> extractImpl j' p = ereturn c')) \<and>
    (\<forall>q. apart op j ptr q \<longrightarrow> extractImpl j' q = extractImpl j q) \<and>
    (op = PatchOpTest \<longrightarrow> j' = j)"
proof -
  have "patch_refines h f g (Some (Inr v', h')) (json_patch (Some j) ptr value op)"
    using apply_refines [OF assms(1-4), of grow ptr] assms(5) by simp
  then obtain j' f' where spec: "json_patch (Some j) ptr value op = Some (Inr (Some j'))"
    and res: "rep h' v' j' f'" "fp_within h (fp_join f g) f'" "changes_only {} (fspare f) {} h h'"
    using assms(6) by (auto simp: patch_refines_def split: option.splits sum.splits)
  have "\<forall>k. value = Some k \<longrightarrow> document k" using assms(2) rep_document(1) by (auto simp: op_value_def)
  from json_patch_effect [OF spec rep_document(1) [OF assms(1)] this] show ?thesis using res by blast
qed

text \<open>A member added to an empty object, in an array of names that grows as Go's does.\<close>

definition ex_grow :: "nat \<Rightarrow> nat \<Rightarrow> nat" where
  "ex_grow c n = max (2 * c) n"

definition ex_empty :: heap where
  "ex_empty = snd (NewObject [] \<lparr>cells = [], names = [], files = []\<rparr>)"

theorem apply_correct_witness:
  "\<exists>v' h' j' f'. apply_file ex_grow (FRef 0) [str ''a''] (FVal JNull) PatchOpAdd ex_empty = Some (Inr v', h') \<and> rep h' v' j' f' \<and>
    extractImpl j' [str ''a''] = ereturn JNull"
proof -
  have new: "NewObject [] \<lparr>cells = [], names = [], files = []\<rparr> = (FRef 0, ex_empty)" unfolding ex_empty_def by code_simp
  obtain f where f: "rep ex_empty (FRef 0) (JObject []) f" using NewObject_rep [OF new] .
  have x: "op_value ex_empty (FVal JNull) (Some JNull) fp_empty" by (simp add: op_value_def rep_reps.rep_val)
  have "case apply_file ex_grow (FRef 0) [str ''a''] (FVal JNull) PatchOpAdd ex_empty of Some (Inr v', _) \<Rightarrow> v' = FRef 1 | _ \<Rightarrow> False"
    by code_simp
  then obtain h' where h': "apply_file ex_grow (FRef 0) [str ''a''] (FVal JNull) PatchOpAdd ex_empty = Some (Inr (FRef 1), h')"
    by (auto split: option.splits sum.splits)
  have "str ''-'' \<noteq> str ''a''" by code_simp
  then have "\<exists>j' f'. rep h' (FRef 1) j' f' \<and> extractImpl j' [str ''a''] = ereturn JNull"
    using apply_correct [OF f x fp_apart_simps(4) _ h'] by (auto simp: adds_def)
  then show ?thesis using h' by blast
qed

text \<open>A patch without copies and moves keeps a value that stands for a document: the values of its operations stand for
  documents and share nothing with the document and each other.\<close>

fun patch_values :: "fval Op list \<Rightarrow> fval list" where
  "patch_values [] = []"
| "patch_values (u # patch) = (case opValue u of None \<Rightarrow> patch_values patch | Some x \<Rightarrow> x # patch_values patch)"

definition no_copies :: "fval Op list \<Rightarrow> bool" where
  "no_copies patch \<longleftrightarrow> (\<forall>u \<in> set patch. opOp u \<notin> {PatchOpCopy, PatchOpMove} \<and>
     (adds (opOp u) \<or> opOp u = PatchOpReplace \<longrightarrow> opValue u \<noteq> None))"

lemma Op_ApplyTo_rep:
  assumes "Op_ApplyTo grow u v h = Some (Inr v', h')" and "opOp u \<notin> {PatchOpCopy, PatchOpMove}" and "rep h v j f"
    and "op_value h (case opValue u of None \<Rightarrow> FNil | Some x \<Rightarrow> x) value g" and "fp_apart f g"
    and "adds (opOp u) \<or> opOp u = PatchOpReplace \<longrightarrow> value \<noteq> None"
  shows "\<exists>j' f'. rep h' v' j' f' \<and> fp_within h (fp_join f g) f' \<and> changes_only {} (fspare f) {} h h'"
proof -
  let ?x = "case opValue u of None \<Rightarrow> FNil | Some x \<Rightarrow> x"
  have op: "Op_applyTo grow u v h = Some (Inr v', h')" "v' \<noteq> FNil"
    using assms(1) by (auto simp: Op_ApplyTo_def pbind_def preturn_def pthrow_def split: option.splits sum.splits if_splits)
  have "Op_applyTo grow u v = applyTo_at grow v ?x (opOp u) (opPath u)" using assms(2) by (cases "opOp u") (auto simp: Op_applyTo_def)
  then obtain p where "apply_file grow v p ?x (opOp u) h = Some (Inr v', h')"
    using op(1) by (auto simp: applyTo_at_def pthrow_def split: option.splits sum.splits patch_error.splits)
  from apply_correct [OF assms(3-6) this op(2)] show ?thesis by blast
qed

theorem Patch_ApplyTo_document:
  assumes "Patch_ApplyTo grow patch v h = Some (Inr v', h')" and "no_copies patch" and "rep h v j f" and "reps h (patch_values patch) ks g"
    and "fp_apart f g"
  shows "\<exists>j' f'. rep h' v' j' f' \<and> fp_within h (fp_join f g) f' \<and> changes_only {} (fspare (fp_join f g)) {} h h'"
  using assms
proof (induction patch arbitrary: h v j f ks g)
  case Nil
  then show ?case by (auto simp: preturn_def fp_within_def intro!: exI [of _ j] exI [of _ f])
next
  case (Cons u patch)
  obtain v1 h1 where first: "Op_ApplyTo grow u v h = Some (Inr v1, h1)" and rest: "Patch_ApplyTo grow patch v1 h1 = Some (Inr v', h')"
    using Cons.prems(1) by (auto simp: pbind_def split: option.splits sum.splits)
  have u: "opOp u \<notin> {PatchOpCopy, PatchOpMove}" "adds (opOp u) \<or> opOp u = PatchOpReplace \<longrightarrow> opValue u \<noteq> None" "no_copies patch"
    using Cons.prems(2) by (auto simp: no_copies_def)
  obtain "value" g0 ks1 g1 where parts: "op_value h (case opValue u of None \<Rightarrow> FNil | Some x \<Rightarrow> x) value g0" "value = None \<longleftrightarrow> opValue u = None"
    "reps h (patch_values patch) ks1 g1" "g = fp_join g0 g1" "fp_apart g0 g1"
  proof (cases "opValue u")
    case None
    then show thesis using Cons.prems(4) that [of None fp_empty ks g] by (simp add: op_value_def)
  next
    case (Some x)
    then obtain k g0 ks1 g1 where "ks = k # ks1" "rep h x k g0" "reps h (patch_values patch) ks1 g1" "g = fp_join g0 g1" "fp_apart g0 g1"
      using Cons.prems(4) by (auto elim: reps_ConsE)
    then show thesis using Some that [of "Some k" g0 ks1 g1] by (simp add: op_value_def)
  qed
  have apart: "fp_apart f g0" "fp_apart f g1" using Cons.prems(5) unfolding parts(4) by simp_all
  obtain j1 f1 where one: "rep h1 v1 j1 f1" "fp_within h (fp_join f g0) f1" "changes_only {} (fspare f) {} h h1"
    using Op_ApplyTo_rep [OF first u(1) Cons.prems(3) parts(1) apart(1)] u(2) unfolding parts(2) by metis
  have vals: "reps h1 (patch_values patch) ks1 g1"
    by (rule rep_frame(2) [OF parts(3) one(3)]) (use apart(2) in \<open>auto simp: fp_apart_def\<close>)
  have "fp_apart (fp_join f g0) g1" using apart parts(5) by simp
  then have "fp_apart f1 g1" using fp_within_apart rep_inside(2) [OF parts(3)] one(2) by blast
  then obtain j' f' where res: "rep h' v' j' f'" "fp_within h1 (fp_join f1 g1) f'" "changes_only {} (fspare (fp_join f1 g1)) {} h1 h'"
    using Cons.IH [OF rest u(3) one(1) vals] by blast
  have within: "fp_within h (fp_join f g) (fp_join f1 g1)" using one(2) by (auto simp: parts(4) fp_within_def)
  then have "fp_within h (fp_join f g) f'" using fp_within_trans [OF res(2) one(3)] by blast
  moreover have "changes_only {} (fspare (fp_join f g)) {} h h'"
  proof (rule changes_only_fresh)
    show "changes_only {} (fspare f \<union> fspare (fp_join f1 g1)) {} h h'"
      by (rule changes_only_trans [OF changes_only_mono [OF one(3)] changes_only_mono [OF res(3)]]) auto
  qed (use within in \<open>auto simp: fp_within_def\<close>)
  ultimately show ?case using res(1) by blast
qed

text \<open>The two steps of a move within an array.\<close>

lemma moved_back:
  assumes "j < i" and "i \<le> length xs"
  shows "take i (take j xs @ x # drop j xs) @ drop (i + 1) (take j xs @ x # drop j xs) = take j xs @ x # take (i - 1 - j) (drop j xs) @ drop i xs"
proof -
  obtain k where "i = Suc (j + k)" using assms(1) less_imp_Suc_add by blast
  then show ?thesis using assms(2) by (simp add: min_def add.commute)
qed

lemma moved_on:
  assumes "i < j" and "j \<le> length xs"
  shows "take i (take j xs @ x # drop j xs) @ drop (i + 1) (take j xs @ x # drop j xs) =
    take i xs @ take (j - (i + 1)) (drop (i + 1) xs) @ x # drop j xs"
proof -
  obtain k where "j = Suc (i + k)" using assms(1) less_imp_Suc_add by blast
  then show ?thesis using assms(2) by (simp add: min_def drop_take)
qed

lemma array_index_more:
  "array_index xs field PatchOpRemove = Inr i \<Longrightarrow> length xs \<le> length ys \<Longrightarrow> array_index ys field PatchOpRemove = Inr i"
  by (auto simp: array_index_def adds_def Let_def split: if_splits option.splits sum.splits)

lemma apply_add_element:
  assumes "val_ok h a" and "is_array h a" and "array_index (elements h a) seg PatchOpAdd = Inr j"
  obtains a1 h1 where "apply_file grow a [seg] x PatchOpAdd h = Some (Inr a1, h1)" "val_ok h1 a1" "is_array h1 a1"
    "elements h1 a1 = insert_at (elements h a) j x"
proof -
  let ?xs = "elements h a"
  have j: "j \<le> length ?xs" using array_index_Inr(1) [OF assms(3)] .
  have "a \<noteq> FNil" "\<not> is_obj_val h a" using assms(2) array_not_object by (auto simp: is_array_def)
  then have step: "apply_file grow a [seg] x PatchOpAdd h = apply_element grow a j x PatchOpAdd h" using assms(2,3) by simp
  show thesis
  proof (cases "j = length ?xs")
    case True
    obtain w h2 where w: "Clone a h = Some (w, h2)" "val_ok h2 w" "elements h2 w = ?xs" "is_array h2 w"
      using Clone_facts [OF assms(1)] assms(2) by metis
    then obtain a1 h1 where "Array_Append grow w [x] h2 = Some (a1, h1)" "val_ok h1 a1" "is_array h1 a1" "elements h1 a1 = ?xs @ [x]"
      using Array_Append_facts [of h2 w "[x]" grow] by (auto simp: array_changed_def)
    then show thesis using that w(1) True step
      by (simp add: apply_element_def adds_def Array_Len_def pbind_def plift_def insert_at_eq)
  next
    case False
    have "length (insert_at ?xs j x) \<le> Array_Len h a + 1" by (simp add: insert_at_def Array_Len_def)
    then obtain a1 h1 where "new_array (insert_at ?xs j x) (Array_Len h a + 1) h = Some (a1, h1)" "val_ok h1 a1" "is_array h1 a1"
      "elements h1 a1 = insert_at ?xs j x" using new_array_facts by metis
    then show thesis using that False step by (simp add: apply_element_def adds_def Array_Len_def plift_def)
  qed
qed

lemma apply_remove_element:
  assumes "val_ok h a" and "is_array h a" and "array_index (elements h a) seg PatchOpRemove = Inr i"
  obtains a1 h1 where "apply_file grow a [seg] FNil PatchOpRemove h = Some (Inr a1, h1)" "a1 \<noteq> FNil"
    "elements h1 a1 = take i (elements h a) @ drop (i + 1) (elements h a)"
proof -
  have i: "i < length (elements h a)" using array_index_Inr(2) [OF assms(3)] by (simp add: adds_def)
  have "a \<noteq> FNil" "\<not> is_obj_val h a" using assms(2) array_not_object by (auto simp: is_array_def)
  then have step: "apply_file grow a [seg] FNil PatchOpRemove h = apply_element grow a i FNil PatchOpRemove h" using assms(2,3) by simp
  obtain w h2 where w: "Clone a h = Some (w, h2)" "val_ok h2 w" "elements h2 w = elements h a" "is_array h2 w"
    using Clone_facts [OF assms(1)] assms(2) by metis
  then obtain a1 h1 where r: "Array_RemoveIdx w i h2 = Some (a1, h1)" "is_array h1 a1"
    "elements h1 a1 = take i (elements h a) @ drop (i + 1) (elements h a)"
    using Array_RemoveIdx_facts [of h2 w i] i by (auto simp: array_changed_def)
  then have "a1 \<noteq> FNil" by (auto simp: is_array_def)
  then show thesis using that w(1) r step by (simp add: apply_element_def pbind_def plift_def)
qed

lemma extract_element:
  assumes "is_array h a" and "array_index (elements h a) seg PatchOpRemove = Inr i" and "\<not> not_extracted (elements h a ! i)"
  shows "Extract_file a (NewPointer [seg]) h = Some (Inr (elements h a ! i), h)"
proof -
  have i: "i < length (elements h a)" "parseInt seg = Some (int i)"
    using array_index_Inr [OF assms(2)] by (auto simp: adds_def)
  have "\<not> not_extracted a" using assms(1) by (auto simp: is_array_def not_extracted_def split: fval.splits json.splits)
  then show ?thesis using assms i by (simp add: Extract_file_def preparePointer_NewPointer Array_Value_def Array_Len_def)
qed

text \<open>C30. Moving an element within an array: the value is inserted first, which shifts the elements after it, and then
  the element at the old index is removed.  So a move to an earlier index duplicates the element and loses the one
  before it, a move to a later index ends one place before that index, and a move to its own place, where the second
  step is left out, duplicates the element.\<close>

theorem move_within_array:
  assumes "val_ok h a" and "is_array h a" and "xs = elements h a"
    and "array_index xs dst PatchOpAdd = Inr j" and "array_index xs src PatchOpRemove = Inr i" and "\<not> not_extracted (xs ! i)"
  shows "\<exists>a' h'. Op_ApplyTo grow \<lparr>opValue = None, opOp = PatchOpMove, opPath = NewPointer [dst], opFrom = NewPointer [src]\<rparr> a h =
      Some (Inr a', h') \<and>
    (j < i \<longrightarrow> elements h' a' = take j xs @ xs ! i # take (i - 1 - j) (drop j xs) @ drop i xs) \<and>
    (i < j \<longrightarrow> elements h' a' = take i xs @ take (j - (i + 1)) (drop (i + 1) xs) @ xs ! i # drop j xs) \<and>
    (src = dst \<longrightarrow> elements h' a' = take i xs @ xs ! i # drop i xs)"
proof -
  have bounds: "i < length xs" "j \<le> length xs" using array_index_Inr [OF assms(4)] array_index_Inr [OF assms(5)] by (auto simp: adds_def)
  have same: "src = dst \<Longrightarrow> i = j"
    using array_index_Inr(3,4) [OF assms(4)] array_index_Inr(3,4) [OF assms(5)] by (auto simp: adds_def)
  have nil: "a \<noteq> FNil" using assms(2) by (auto simp: is_array_def)
  obtain a1 h1 where add: "apply_file grow a [dst] (xs ! i) PatchOpAdd h = Some (Inr a1, h1)" "val_ok h1 a1" "is_array h1 a1"
    "elements h1 a1 = insert_at xs j (xs ! i)"
    using apply_add_element [OF assms(1,2)] assms(3,4) by metis
  have nil1: "a1 \<noteq> FNil" using add(3) by (auto simp: is_array_def)
  have copy: "applyTo_copy grow a (NewPointer [src]) (NewPointer [dst]) h = Some (Inr a1, h1)"
    using extract_element [OF assms(2)] assms(3,5,6) nil add(1)
    by (simp add: applyTo_copy_def pbind_def applyTo_at_def preparePointer_NewPointer)
  let ?ys = "insert_at xs j (xs ! i)"
  have ys: "?ys = take j xs @ xs ! i # drop j xs" by (rule insert_at_eq [OF bounds(2)])
  show ?thesis
  proof (cases "src = dst")
    case True
    then show ?thesis using copy nil nil1 same add(4) ys
      by (auto simp: Op_ApplyTo_def Op_applyTo_def pbind_def preturn_def)
  next
    case False
    then have paths: "NewPointer [src] \<noteq> NewPointer [dst]" using preparePointer_NewPointer by (metis list.inject sum.inject(2))
    have "array_index (elements h1 a1) src PatchOpRemove = Inr i"
      unfolding add(4) by (rule array_index_more [OF assms(5)]) (simp add: insert_at_def)
    then obtain a' h' where rem: "apply_file grow a1 [src] FNil PatchOpRemove h1 = Some (Inr a', h')" "a' \<noteq> FNil"
      "elements h' a' = take i ?ys @ drop (i + 1) ?ys"
      using apply_remove_element [OF add(2,3)] add(4) by metis
    have "take i ?ys @ drop (i + 1) ?ys = take j xs @ xs ! i # take (i - 1 - j) (drop j xs) @ drop i xs" if "j < i"
      unfolding ys by (rule moved_back [OF that]) (use bounds in simp)
    moreover have "take i ?ys @ drop (i + 1) ?ys = take i xs @ take (j - (i + 1)) (drop (i + 1) xs) @ xs ! i # drop j xs" if "i < j"
      unfolding ys by (rule moved_on [OF that bounds(2)])
    moreover have "Op_ApplyTo grow \<lparr>opValue = None, opOp = PatchOpMove, opPath = NewPointer [dst], opFrom = NewPointer [src]\<rparr> a h =
        Some (Inr a', h')"
      using copy nil paths rem(1,2)
      by (simp add: Op_ApplyTo_def Op_applyTo_def pbind_def preturn_def applyTo_at_def preparePointer_NewPointer)
    ultimately show ?thesis using rem(3) False by auto
  qed
qed

theorem move_within_array_witness:
  "\<exists>a' h'. Op_ApplyTo ex_grow \<lparr>opValue = None, opOp = PatchOpMove, opPath = NewPointer [str ''0''], opFrom = NewPointer [str ''2'']\<rparr>
      (FVal (JArray [JNull, JBool True, JBool False])) ex_empty = Some (Inr a', h') \<and>
    elements h' a' = [FVal (JBool False), FVal JNull, FVal (JBool False)]"
proof -
  let ?a = "FVal (JArray [JNull, JBool True, JBool False])" and ?xs = "[FVal JNull, FVal (JBool True), FVal (JBool False)]"
  have a: "val_ok ex_empty ?a" "is_array ex_empty ?a" "?xs = elements ex_empty ?a" by (simp_all add: val_ok_def is_array_def elements_def)
  have i: "array_index ?xs (str ''0'') PatchOpAdd = Inr 0" "array_index ?xs (str ''2'') PatchOpRemove = Inr 2" by code_simp+
  have x: "\<not> not_extracted (?xs ! 2)" by (simp add: not_extracted_def)
  show ?thesis using move_within_array [OF a i x, of ex_grow] by auto
qed

text \<open>Adding below the position after the last element of an array panics: the bounds of the index are those of an
  addition to the array, but the element at that index is read.\<close>

theorem add_below_end_panics:
  "is_array h a \<Longrightarrow> apply_file grow a (str ''-'' # seg # ptr) x PatchOpAdd h = None"
  using array_not_object
  by (auto simp: is_array_def array_index_def adds_def Array_Value_def Array_Len_def)

text \<open>A copied object shares its names with the original.  The document \<open>{"a": {"p": null, "q": true}}\<close>: a member
  \<open>r\<close> is added below \<open>a\<close>, so that the names of \<open>a\<close> get room for another; \<open>a\<close> is copied to \<open>b\<close>, and a member \<open>0\<close> added
  below \<open>b\<close> goes to the front of the names of both, so that the members below \<open>a\<close> have other names.\<close>

definition ex_shared :: "((patch_error + fval) \<times> heap) option" where
  "ex_shared =
     (let (a, h) = NewObject [(str ''p'', FVal JNull), (str ''q'', FVal (JBool True))] \<lparr>cells = [], names = [], files = []\<rparr>;
          (v, h) = NewObject [(str ''a'', a)] h
      in Patch_ApplyTo ex_grow
        [\<lparr>opValue = Some (FVal JNull), opOp = PatchOpAdd, opPath = str ''/a/r'', opFrom = []\<rparr>,
         \<lparr>opValue = None, opOp = PatchOpCopy, opPath = str ''/b'', opFrom = str ''/a''\<rparr>,
         \<lparr>opValue = Some (FVal JNull), opOp = PatchOpAdd, opPath = str ''/b/0'', opFrom = []\<rparr>] v h)"

theorem copy_shares_names:
  "(case ex_shared of
      Some (Inr v, h) \<Rightarrow> read_val 3 h v = Some (JObject [
        (str ''a'', JObject [(str ''0'', JNull), (str ''p'', JBool True), (str ''q'', JNull)]),
        (str ''b'', JObject [(str ''0'', JNull), (str ''p'', JNull), (str ''q'', JBool True), (str ''r'', JNull)])])
    | _ \<Rightarrow> False)"
  by code_simp

end
