(* ===== verification/Inmem.thy ===== *)
theory Inmem
  imports Store_Txn
begin

text \<open>
  The interface of the in-memory store (src/pkg/storage/inmem/inmem.go) and its locks.  A read transaction holds the
  read lock of \<open>rmu\<close> from its beginning to its end, a write transaction holds \<open>wmu\<close>, and committing it takes the write
  lock of \<open>rmu\<close>.  Operations that would block are not enabled.  A lock that is waited for keeps new readers out, as
  Go's \<open>sync.RWMutex\<close> does.  Transactions are pointers, here numbers.  Triggers are not modelled.
\<close>

section \<open>State\<close>

record inmem =
  idb :: store
  rmu :: "nat option"
  waiting :: "nat option"
  readers :: "nat list"
  wmu :: "nat option"
  txns :: "(nat \<times> transaction) list"

definition fresh_txn :: "inmem \<Rightarrow> nat" where
  "fresh_txn s = length (txns s)"

text \<open>A transaction of this store that has not ended.\<close>

definition underlying :: "nat \<Rightarrow> inmem \<Rightarrow> store_error + transaction" where
  "underlying t s = (case map_of (txns s) t of
     None \<Rightarrow> Inl InvalidTransaction
   | Some txn \<Rightarrow> if tstale txn then Inl InvalidTransaction else Inr txn)"

definition set_txn :: "nat \<Rightarrow> transaction \<Rightarrow> inmem \<Rightarrow> inmem" where
  "set_txn t txn s = s\<lparr>txns := AList.update t txn (txns s)\<rparr>"

section \<open>Operations\<close>

definition inmem_NewTransaction :: "bool \<Rightarrow> inmem \<Rightarrow> (nat \<times> inmem) option" where
  "inmem_NewTransaction write s =
     (let t = fresh_txn s; s' = set_txn t (newTransaction write) s in
      if write then if wmu s = None then Some (t, s'\<lparr>wmu := Some t\<rparr>) else None
      else if rmu s = None \<and> waiting s = None then Some (t, s'\<lparr>readers := t # readers s\<rparr>) else None)"

text \<open>\<open>Commit\<close> of a read transaction gives the read lock back; it does not mark the transaction as ended.\<close>

definition commit_read :: "nat \<Rightarrow> inmem \<Rightarrow> inmem option" where
  "commit_read t s = (if t \<in> set (readers s) then Some (s\<lparr>readers := remove1 t (readers s)\<rparr>) else None)"

text \<open>\<open>Commit\<close> of a write transaction asks for the write lock, gets it when the readers are gone, and commits.\<close>

definition commit_wait :: "nat \<Rightarrow> inmem \<Rightarrow> inmem" where
  "commit_wait t s = s\<lparr>waiting := Some t\<rparr>"

definition commit_lock :: "inmem \<Rightarrow> inmem option" where
  "commit_lock s = (case waiting s of
     Some t \<Rightarrow> if readers s = [] then Some (s\<lparr>waiting := None, rmu := Some t\<rparr>) else None
   | None \<Rightarrow> None)"

definition commit_done :: "(nat \<Rightarrow> nat \<Rightarrow> nat) \<Rightarrow> nat \<Rightarrow> transaction \<Rightarrow> inmem \<Rightarrow> inmem option" where
  "commit_done grow t txn s = map_option (\<lambda>(ev, db). (set_txn t (txn\<lparr>tstale := True\<rparr>) s)\<lparr>idb := db, rmu := None, wmu := None\<rparr>)
     (transaction_Commit grow txn (idb s))"

definition inmem_Abort :: "nat \<Rightarrow> transaction \<Rightarrow> inmem \<Rightarrow> inmem" where
  "inmem_Abort t txn s = (let s = set_txn t (txn\<lparr>tstale := True\<rparr>) s in
     if twrite txn then s\<lparr>wmu := None\<rparr> else s\<lparr>readers := remove1 t (readers s)\<rparr>)"

text \<open>\<open>Write\<close> copies the value first; \<open>fuel\<close> bounds its depth.\<close>

definition inmem_Write :: "path_ops \<Rightarrow> (nat \<Rightarrow> nat \<Rightarrow> nat) \<Rightarrow> nat \<Rightarrow> nat \<Rightarrow> store_op \<Rightarrow> path \<Rightarrow> fval \<Rightarrow> inmem \<Rightarrow> ((store_error + unit) \<times> inmem) option" where
  "inmem_Write P grow fuel t op path v s = (case underlying t s of
     Inl e \<Rightarrow> Some (Inl e, s)
   | Inr txn \<Rightarrow> do {
       (v, h) \<leftarrow> Clone_deep fuel v (sheap (idb s));
       (r, txn, db) \<leftarrow> transaction_Write P grow op path v txn ((idb s)\<lparr>sheap := h\<rparr>);
       Some (r, (set_txn t txn s)\<lparr>idb := db\<rparr>) })"

definition inmem_ReadBJSON :: "path_ops \<Rightarrow> (nat \<Rightarrow> nat \<Rightarrow> nat) \<Rightarrow> nat \<Rightarrow> nat \<Rightarrow> path \<Rightarrow> inmem \<Rightarrow> ((store_error + fval) \<times> inmem) option" where
  "inmem_ReadBJSON P grow fuel t path s = (case underlying t s of
     Inl e \<Rightarrow> Some (Inl e, s)
   | Inr txn \<Rightarrow> map_option (\<lambda>(r, db). (r, s\<lparr>idb := db\<rparr>)) (transaction_Read P grow fuel path txn (idb s)))"

definition inmem_UpsertPolicy :: "nat \<Rightarrow> gostring \<Rightarrow> bytes \<Rightarrow> inmem \<Rightarrow> (store_error + unit) \<times> inmem" where
  "inmem_UpsertPolicy t pid bs s = (case underlying t s of
     Inl e \<Rightarrow> (Inl e, s)
   | Inr txn \<Rightarrow> (let (r, txn) = UpsertPolicy pid bs txn in (r, set_txn t txn s)))"

definition inmem_DeletePolicy :: "nat \<Rightarrow> gostring \<Rightarrow> inmem \<Rightarrow> (store_error + unit) \<times> inmem" where
  "inmem_DeletePolicy t pid s = (case underlying t s of
     Inl e \<Rightarrow> (Inl e, s)
   | Inr txn \<Rightarrow> (let (r, txn) = store_DeletePolicy pid txn (idb s) in (r, set_txn t txn s)))"

definition inmem_GetPolicy :: "nat \<Rightarrow> gostring \<Rightarrow> inmem \<Rightarrow> store_error + bytes" where
  "inmem_GetPolicy t pid s = (case underlying t s of Inl e \<Rightarrow> Inl e | Inr txn \<Rightarrow> GetPolicy pid txn (idb s))"

definition inmem_ListPolicies :: "nat \<Rightarrow> inmem \<Rightarrow> store_error + gostring list" where
  "inmem_ListPolicies t s = (case underlying t s of Inl e \<Rightarrow> Inl e | Inr txn \<Rightarrow> Inr (ListPolicies txn (idb s)))"

section \<open>Directories\<close>

text \<open>\<open>MakeDir\<close> makes the missing objects above a path, the topmost first.\<close>

function MakeDir :: "path_ops \<Rightarrow> (nat \<Rightarrow> nat \<Rightarrow> nat) \<Rightarrow> nat \<Rightarrow> nat \<Rightarrow> path \<Rightarrow> inmem \<Rightarrow> ((store_error + unit) \<times> inmem) option" where
  "MakeDir P grow fuel t path s =
     (if path = [] then Some (Inr (), s)
      else do {
        (r, s) \<leftarrow> inmem_ReadBJSON P grow fuel t path s;
        case r of
          Inl StoreNotFound \<Rightarrow> do {
            (r, s) \<leftarrow> MakeDir P grow fuel t (butlast path) s;
            case r of
              Inl e \<Rightarrow> Some (Inl e, s)
            | Inr _ \<Rightarrow> (let (ob, h) = NewObject [] (sheap (idb s)) in inmem_Write P grow fuel t AddOp path ob (s\<lparr>idb := (idb s)\<lparr>sheap := h\<rparr>\<rparr>)) }
        | Inl e \<Rightarrow> Some (Inl e, s)
        | Inr node \<Rightarrow> Some (if is_obj_val (sheap (idb s)) node then Inr () else Inl (WriteConflict path), s) })"
  by pat_completeness auto
termination
  by (relation "measure (\<lambda>(_, _, _, _, path, _). length path)") auto

text \<open>\<open>NonEmpty\<close>: whether something is at the path, or a value that is no object is above it.\<close>

fun NonEmpty_above :: "path_ops \<Rightarrow> (nat \<Rightarrow> nat \<Rightarrow> nat) \<Rightarrow> nat \<Rightarrow> nat \<Rightarrow> path list \<Rightarrow> inmem \<Rightarrow> ((store_error + bool) \<times> inmem) option" where
  "NonEmpty_above P grow fuel t [] s = Some (Inr False, s)"
| "NonEmpty_above P grow fuel t (p # ps) s = do {
     (r, s) \<leftarrow> inmem_ReadBJSON P grow fuel t p s;
     case r of
       Inl StoreNotFound \<Rightarrow> NonEmpty_above P grow fuel t ps s
     | Inl e \<Rightarrow> Some (Inl e, s)
     | Inr v \<Rightarrow> Some (Inr (\<not> is_obj_val (sheap (idb s)) v), s) }"

definition NonEmpty :: "path_ops \<Rightarrow> (nat \<Rightarrow> nat \<Rightarrow> nat) \<Rightarrow> nat \<Rightarrow> nat \<Rightarrow> path \<Rightarrow> inmem \<Rightarrow> ((store_error + bool) \<times> inmem) option" where
  "NonEmpty P grow fuel t path s = do {
     (r, s) \<leftarrow> inmem_ReadBJSON P grow fuel t path s;
     case r of
       Inl StoreNotFound \<Rightarrow> NonEmpty_above P grow fuel t (map (\<lambda>i. take i path) (rev [1..<length path])) s
     | Inl e \<Rightarrow> Some (Inl e, s)
     | Inr _ \<Rightarrow> Some (Inr True, s) }"

text \<open>\<open>mktree\<close>: a value wrapped into objects, from the last segment to the first; \<open>lookup\<close> finds it again.\<close>

fun mktree_dirs :: "(nat \<Rightarrow> nat \<Rightarrow> nat) \<Rightarrow> path \<Rightarrow> fval \<Rightarrow> heap \<Rightarrow> (fval \<times> heap) option" where
  "mktree_dirs grow [] v h = Some (v, h)"
| "mktree_dirs grow (seg # path) v h = do {
     (v, h) \<leftarrow> mktree_dirs grow path v h;
     (dir, h) \<leftarrow> Some (NewObject [] h);
     Object_Set grow dir seg v h }"

definition mktree :: "(nat \<Rightarrow> nat \<Rightarrow> nat) \<Rightarrow> path \<Rightarrow> fval \<Rightarrow> heap \<Rightarrow> fval outcome" where
  "mktree grow path v h =
     (if path = [] then Some (if is_obj_val h v then Inr v else Inl InvalidPatch, h)
      else map_option (apfst Inr) (mktree_dirs grow path v h))"

fun lookup :: "heap \<Rightarrow> path \<Rightarrow> fval \<Rightarrow> fval option" where
  "lookup h [] data = Some data"
| "lookup h [seg] data = (let v = Object_value h data seg in if v = FNil then None else Some v)"
| "lookup h (seg # path) data = (let v = Object_value h data seg in if v \<noteq> FNil \<and> is_obj_val h v then lookup h path v else None)"

section \<open>Merging\<close>

text \<open>\<open>InterfaceMaps\<close> (src/pkg/storage/merge/merge.go) makes a new object and changes none, so that documents are enough
  here.  The loops go through the names of the second object; \<open>merge\<close> panics on values that are no objects.\<close>

function (sequential) hasConflicts :: "(gostring \<times> json) list \<Rightarrow> (gostring \<times> json) list \<Rightarrow> bool" where
  "hasConflicts a [] = False"
| "hasConflicts a ((k, add) # b) = (case Object_valueImpl a k of
     None \<Rightarrow> hasConflicts a b
   | Some exist \<Rightarrow> (case (exist, add) of
       (JObject existObj, JObject addObj) \<Rightarrow> hasConflicts existObj addObj \<or> hasConflicts a b
     | _ \<Rightarrow> True))"
  by pat_completeness auto
termination
  by (relation "measure (\<lambda>(a, b). size (JObject b))") auto

function (sequential) merge :: "(gostring \<times> json) list \<Rightarrow> (gostring \<times> json) list \<Rightarrow> (gostring \<times> json) list option" where
  "merge ac [] = Some ac"
| "merge ac ((k, add) # b) = (case Object_valueImpl ac k of
     None \<Rightarrow> merge (Object_setImpl ac k add) b
   | Some exist \<Rightarrow> (case (exist, add) of
       (JObject existObj, JObject addObj) \<Rightarrow>
         (case merge existObj addObj of Some m \<Rightarrow> merge (Object_setImpl ac k (JObject m)) b | None \<Rightarrow> None)
     | _ \<Rightarrow> None))"
  by pat_completeness auto
termination
  by (relation "measure (\<lambda>(a, b). size (JObject b))") auto

text \<open>The result, or that the objects cannot be merged.\<close>

definition InterfaceMaps :: "(gostring \<times> json) list option \<Rightarrow> (gostring \<times> json) list \<Rightarrow> (gostring \<times> json) list option option" where
  "InterfaceMaps a b = (case a of
     None \<Rightarrow> Some (Some b)
   | Some a \<Rightarrow> if hasConflicts a b then Some None else map_option Some (merge a b))"

section \<open>What is merged\<close>

lemma hasConflicts_cong: "\<forall>k \<in> fst ` set b. Object_valueImpl a k = Object_valueImpl a' k \<Longrightarrow> hasConflicts a b = hasConflicts a' b"
proof (induction b)
  case (Cons e b)
  obtain k add where e: "e = (k, add)" by fastforce
  have "hasConflicts a b = hasConflicts a' b" "Object_valueImpl a k = Object_valueImpl a' k" using Cons e by auto
  then show ?case by (simp add: e split: option.split json.split)
qed simp

text \<open>Names in both objects have objects in both, which are merged.\<close>

definition merged_member :: "json option \<Rightarrow> json option \<Rightarrow> json option \<Rightarrow> bool" where
  "merged_member x y z \<longleftrightarrow> x = None \<and> z = y \<or> y = None \<and> z = x \<or>
     (\<exists>e d m. x = Some (JObject e) \<and> y = Some (JObject d) \<and> \<not> hasConflicts e d \<and> merge e d = Some m \<and> z = Some (JObject m))"

lemma merge_members:
  assumes "document (JObject a)" and "document (JObject b)" and "\<not> hasConflicts a b"
  shows "\<exists>m. merge a b = Some m \<and> document (JObject m) \<and> (\<forall>k. merged_member (Object_valueImpl a k) (map_of b k) (Object_valueImpl m k))"
  using assms
proof (induction a b rule: merge.induct)
  case (1 ac)
  then show ?case by (auto simp: merged_member_def)
next
  case (2 ac k add b)
  have doc: "document add" "document (JObject b)" and new: "k \<notin> fst ` set b" using "2.prems"(2) by auto
  then have none: "map_of b k = None" by (simp add: map_of_eq_None_iff)
  have set: "document (JObject (Object_setImpl ac k z))" "\<And>k'. Object_valueImpl (Object_setImpl ac k z) k' = (if k' = k then Some z else Object_valueImpl ac k')"
    if "document z" for z
    using member_set_facts [OF "2.prems"(1), of "Some z" k] that by (auto simp: member_set_def simp del: document_simps)
  have other: "hasConflicts (Object_setImpl ac k z) b = hasConflicts ac b" if "document z" for z
    using set(2) [OF that] new by (intro hasConflicts_cong) auto
  have rest: "\<exists>m. merge (Object_setImpl ac k z) b = Some m \<and> document (JObject m) \<and> (\<forall>k'. merged_member (Object_valueImpl ac k') (map_of ((k, add) # b) k') (Object_valueImpl m k'))"
    if z: "document z" "merged_member (Object_valueImpl ac k) (Some add) (Some z)"
      "\<exists>m. merge (Object_setImpl ac k z) b = Some m \<and> document (JObject m) \<and> (\<forall>k'. merged_member (Object_valueImpl (Object_setImpl ac k z) k') (map_of b k') (Object_valueImpl m k'))" for z
  proof -
    obtain m where m: "merge (Object_setImpl ac k z) b = Some m" "document (JObject m)"
      "\<And>k'. merged_member (if k' = k then Some z else Object_valueImpl ac k') (map_of b k') (Object_valueImpl m k')"
      using z(3) set(2) [OF z(1)] by auto
    have "Object_valueImpl m k = Some z" using m(3) [of k] none by (auto simp: merged_member_def)
    then have "merged_member (Object_valueImpl ac k') (map_of ((k, add) # b) k') (Object_valueImpl m k')" for k'
      using z(2) m(3) [of k'] by (cases "k' = k") auto
    then show ?thesis using m(1,2) by blast
  qed
  show ?case
  proof (cases "Object_valueImpl ac k")
    case None
    then have "\<not> hasConflicts (Object_setImpl ac k add) b" using "2.prems"(3) other [OF doc(1)] by simp
    then have "\<exists>m. merge (Object_setImpl ac k add) b = Some m \<and> document (JObject m) \<and> (\<forall>k'. merged_member (Object_valueImpl (Object_setImpl ac k add) k') (map_of b k') (Object_valueImpl m k'))"
      using "2.IH"(1) [OF None set(1) [OF doc(1)] doc(2)] by blast
    from rest [OF doc(1) _ this] show ?thesis using None by (simp add: merged_member_def)
  next
    case (Some x)
    then obtain e d where x: "x = JObject e" "add = JObject d" "\<not> hasConflicts e d" "\<not> hasConflicts ac b"
      using "2.prems"(3) by (auto split: json.splits)
    have "document (JObject e)" using document_child [OF "2.prems"(1)] Some x(1) by blast
    then obtain m0 where m0: "merge e d = Some m0" "document (JObject m0)"
      using "2.IH"(2) [OF Some refl x(1,2)] doc(1) x(2,3) by blast
    have "\<exists>m. merge (Object_setImpl ac k (JObject m0)) b = Some m \<and> document (JObject m) \<and>
        (\<forall>k'. merged_member (Object_valueImpl (Object_setImpl ac k (JObject m0)) k') (map_of b k') (Object_valueImpl m k'))"
      using "2.IH"(3) [OF Some refl x(1,2) m0(1) set(1) [OF m0(2)] doc(2)] other [OF m0(2)] x(4) by blast
    from rest [OF m0(2) _ this] show ?thesis using Some x m0(1) by (simp add: merged_member_def)
  qed
qed

text \<open>A path at which both objects have a value, and not both an object.\<close>

definition conflict_at :: "path \<Rightarrow> json \<Rightarrow> json \<Rightarrow> bool" where
  "conflict_at p a b \<longleftrightarrow> (\<exists>x y. json_get p (Some a) = Some x \<and> json_get p (Some b) = Some y \<and> \<not> ((\<exists>e. x = JObject e) \<and> (\<exists>d. y = JObject d)))"

lemma hasConflicts_ex:
  "hasConflicts a b \<longleftrightarrow> (\<exists>(k, add) \<in> set b. \<exists>exist. Object_valueImpl a k = Some exist \<and> (\<forall>e d. exist = JObject e \<and> add = JObject d \<longrightarrow> hasConflicts e d))"
proof (induction b)
  case (Cons kv b)
  obtain k add where kv: "kv = (k, add)" by fastforce
  have "hasConflicts a ((k, add) # b) \<longleftrightarrow>
      (\<exists>exist. Object_valueImpl a k = Some exist \<and> (\<forall>e d. exist = JObject e \<and> add = JObject d \<longrightarrow> hasConflicts e d)) \<or> hasConflicts a b"
    by (auto split: option.split json.split)
  then show ?case using Cons.IH by (simp add: kv)
qed simp

lemma conflict_Cons:
  "document (JObject b) \<Longrightarrow> conflict_at (k # p) (JObject a) (JObject b) \<longleftrightarrow>
     (\<exists>x y. Object_valueImpl a k = Some x \<and> (k, y) \<in> set b \<and> conflict_at p x y)"
proof -
  assume "document (JObject b)"
  then have sorted: "sorted_wrt (<) (map fst b)" by simp
  then have "Object_valueImpl b k = Some y \<longleftrightarrow> (k, y) \<in> set b" for y
    using Object_valueImpl_eq [OF sorted] by (simp add: strict_sorted_iff)
  moreover have "conflict_at (k # p) (JObject a) (JObject b) \<longleftrightarrow> (\<exists>x y. Object_valueImpl a k = Some x \<and> Object_valueImpl b k = Some y \<and> conflict_at p x y)"
    by (cases "Object_valueImpl a k"; cases "Object_valueImpl b k") (auto simp: conflict_at_def)
  ultimately show ?thesis by blast
qed

lemma member_size: "(k, v) \<in> set b \<Longrightarrow> size v < size (JObject b)"
  by (induction b) auto

lemma hasConflicts_paths:
  "document (JObject a) \<Longrightarrow> document (JObject b) \<Longrightarrow> hasConflicts a b \<longleftrightarrow> (\<exists>p. p \<noteq> [] \<and> conflict_at p (JObject a) (JObject b))"
proof
  show "\<exists>p. p \<noteq> [] \<and> conflict_at p (JObject a) (JObject b)" if "document (JObject a)" "document (JObject b)" "hasConflicts a b"
    using that
  proof (induction "JObject b" arbitrary: a b rule: measure_induct_rule [of size])
    case less
    then obtain k add x where k: "(k, add) \<in> set b" "Object_valueImpl a k = Some x" "\<And>e d. x = JObject e \<Longrightarrow> add = JObject d \<Longrightarrow> hasConflicts e d"
      using hasConflicts_ex by blast
    have doc: "document x" "document add" using document_child [OF less.prems(1) k(2)] less.prems(2) k(1) by auto
    obtain p where "conflict_at p x add"
    proof (cases "\<exists>e d. x = JObject e \<and> add = JObject d")
      case True
      then obtain e d where ed: "x = JObject e" "add = JObject d" by blast
      have "size (JObject d) < size (JObject b)" using member_size [OF k(1)] ed(2) by simp
      then show thesis using less.hyps [of d e] doc ed k(3) that by blast
    next
      case False
      then have "conflict_at [] x add" by (auto simp: conflict_at_def)
      then show thesis by (rule that)
    qed
    then show ?case using conflict_Cons [OF less.prems(2)] k(1,2) by blast
  qed
  show "hasConflicts a b" if asm: "\<exists>p. p \<noteq> [] \<and> conflict_at p (JObject a) (JObject b)" "document (JObject a)" "document (JObject b)"
  proof -
    obtain p where "p \<noteq> []" "conflict_at p (JObject a) (JObject b)" using asm(1) by blast
    then show ?thesis using asm(2,3)
    proof (induction p arbitrary: a b)
      case (Cons k p)
      then obtain x y where x: "Object_valueImpl a k = Some x" "(k, y) \<in> set b" "conflict_at p x y" using conflict_Cons by blast
      have doc: "document x" "document y" using document_child [OF Cons.prems(3) x(1)] Cons.prems(4) x(2) by auto
      have "hasConflicts e d" if "x = JObject e" "y = JObject d" for e d
        using Cons.IH [of e d] x(3) that doc by (cases p) (auto simp: conflict_at_def)
      then show ?case using x(1,2) hasConflicts_ex by blast
    qed simp
  qed
qed

lemma merge_paths:
  "document (JObject a) \<Longrightarrow> document (JObject b) \<Longrightarrow> \<not> hasConflicts a b \<Longrightarrow> merge a b = Some m \<Longrightarrow> p \<noteq> [] \<Longrightarrow>
     (json_get p (Some (JObject b)) = None \<longrightarrow> json_get p (Some (JObject m)) = json_get p (Some (JObject a))) \<and>
     (json_get p (Some (JObject a)) = None \<longrightarrow> json_get p (Some (JObject m)) = json_get p (Some (JObject b)))"
proof (induction p arbitrary: a b m)
  case (Cons k p)
  have b: "Object_valueImpl b k = map_of b k" using Object_valueImpl_eq [of b k] Cons.prems(2) by simp
  have "merged_member (Object_valueImpl a k) (Object_valueImpl b k) (Object_valueImpl m k)"
    using merge_members [OF Cons.prems(1-3)] Cons.prems(4) b by auto
  then consider "Object_valueImpl a k = None" "Object_valueImpl m k = Object_valueImpl b k"
    | "Object_valueImpl b k = None" "Object_valueImpl m k = Object_valueImpl a k"
    | e d m0 where "Object_valueImpl a k = Some (JObject e)" "Object_valueImpl b k = Some (JObject d)" "Object_valueImpl m k = Some (JObject m0)"
      "\<not> hasConflicts e d" "merge e d = Some m0"
    unfolding merged_member_def by (elim disjE conjE exE) simp_all
  then show ?case
  proof cases
    case 3
    then have "document (JObject e)" "document (JObject d)" using document_child Cons.prems(1,2) by blast+
    then show ?thesis using 3 Cons.IH [of e d m0] by (cases p) auto
  qed auto
qed simp

text \<open>C34. Merging two objects fails exactly if there is a path at which both have a value and not both an object; otherwise
  every value of either object is in the result, at its path.\<close>

theorem InterfaceMaps_correct:
  assumes "document (JObject a)" and "document (JObject b)"
  shows "case InterfaceMaps (Some a) b of
      None \<Rightarrow> False
    | Some None \<Rightarrow> \<exists>p. p \<noteq> [] \<and> conflict_at p (JObject a) (JObject b)
    | Some (Some m) \<Rightarrow> document (JObject m) \<and> \<not> (\<exists>p. p \<noteq> [] \<and> conflict_at p (JObject a) (JObject b)) \<and>
        (\<forall>p. p \<noteq> [] \<longrightarrow> (json_get p (Some (JObject b)) = None \<longrightarrow> json_get p (Some (JObject m)) = json_get p (Some (JObject a))) \<and>
          (json_get p (Some (JObject a)) = None \<longrightarrow> json_get p (Some (JObject m)) = json_get p (Some (JObject b))))"
proof (cases "hasConflicts a b")
  case True
  then show ?thesis using hasConflicts_paths [OF assms] by (simp add: InterfaceMaps_def)
next
  case False
  then obtain m where m: "merge a b = Some m" "document (JObject m)" using merge_members [OF assms] by blast
  have "\<not> (\<exists>p. p \<noteq> [] \<and> conflict_at p (JObject a) (JObject b))" using hasConflicts_paths [OF assms] False by simp
  then show ?thesis using m False merge_paths [OF assms False m(1)] by (simp add: InterfaceMaps_def del: document_simps)
qed

theorem InterfaceMaps_correct_witness:
  "\<exists>m. InterfaceMaps (Some [(str ''x'', JObject [(str ''y'', JNull)])]) [(str ''x'', JObject [(str ''q'', JBool True)]), (str ''z'', JNull)] = Some (Some m) \<and>
     json_get [str ''x'', str ''y''] (Some (JObject m)) = Some JNull"
proof -
  let ?a = "[(str ''x'', JObject [(str ''y'', JNull)])]" and ?b = "[(str ''x'', JObject [(str ''q'', JBool True)]), (str ''z'', JNull)]"
  have lt: "str ''x'' < str ''z''" by code_simp
  have doc: "document (JObject ?a)" "document (JObject ?b)" using lt by simp_all
  have im: "InterfaceMaps (Some ?a) ?b = Some (Some [(str ''x'', JObject [(str ''q'', JBool True), (str ''y'', JNull)]), (str ''z'', JNull)])" by code_simp
  have "json_get [str ''x'', str ''y''] (Some (JObject ?a)) = Some JNull" "json_get [str ''x'', str ''y''] (Some (JObject ?b)) = None" by code_simp+
  then show ?thesis using InterfaceMaps_correct [OF doc] unfolding im option.case by (metis list.distinct(1))
qed

section \<open>Trees and lookups\<close>

fun tree_doc :: "path \<Rightarrow> json \<Rightarrow> json" where
  "tree_doc [] k = k"
| "tree_doc (seg # path) k = JObject [(seg, tree_doc path k)]"

lemma mktree_dirs_rep:
  assumes "rep h v k e"
  shows "\<exists>ob h' f. mktree_dirs grow path v h = Some (ob, h') \<and> rep h' ob (tree_doc path k) f"
proof (induction path)
  case Nil
  then show ?case using assms by auto
next
  case (Cons seg path)
  then obtain ob h1 f where inner: "mktree_dirs grow path v h = Some (ob, h1)" "rep h1 ob (tree_doc path k) f" by blast
  obtain dir h2 where new: "NewObject [] h1 = (dir, h2)" by fastforce
  note facts = NewObject_facts [OF new, simplified]
  have "rep h2 ob (tree_doc path k) f" by (rule rep_frame(1) [OF inner(2) facts(5)]) auto
  moreover have apart: "fp_apart (fp_own h2 dir) f"
    using facts(6) rep_inside(1) [OF inner(2)]
    by (auto simp: facts(1) fp_apart_def fp_inside_def fp_own_def own_cell_def own_names_def own_spare_def own_files_def obj_slice_def cell_files_base_def)
  moreover have "reps h2 (others (map fst ([] :: (gostring \<times> json) list)) seg (map snd (members h2 dir))) (others (map fst ([] :: (gostring \<times> json) list)) seg (map snd [])) fp_empty"
    using facts(4) rep_reps.reps_Nil [of h2] by (simp add: others_def Object_find_def)
  ultimately obtain ob' h' f' where "Object_Set grow dir seg ob h2 = Some (ob', h')" "rep h' ob' (JObject (Object_setImpl [] seg (tree_doc path k))) f'"
    using Object_Set_rep [of h2 dir "[]" seg fp_empty ob "tree_doc path k" f grow] facts(2-4) by (metis fp_apart_simps(3,4) list.map(1))
  moreover have "Object_setImpl [] seg (tree_doc path k) = [(seg, tree_doc path k)]" by (simp add: Object_setImpl_def Object_find_def)
  ultimately show ?case using inner(1) new by auto
qed

lemma lookup_path_rep:
  "rep h v j f \<Longrightarrow> is_obj_val h v \<Longrightarrow> path \<noteq> [] \<Longrightarrow> obj_path path (Some j) \<Longrightarrow>
     case json_get path (Some j) of None \<Rightarrow> lookup h path v = None | Some k \<Rightarrow> \<exists>w g. lookup h path v = Some w \<and> rep h w k g"
proof (induction h path v arbitrary: j f rule: lookup.induct)
  case (2 h seg data)
  then obtain kvs where j: "j = JObject kvs" by (auto simp: obj_path_Cons)
  show ?case using Object_value_rep(2) [OF "2.prems"(1) [unfolded j], of seg] rep_not_nil by (fastforce simp: j Let_def split: option.splits)
next
  case (3 h seg s path data)
  then obtain kvs k where j: "j = JObject kvs" "Object_valueImpl kvs seg = Some k" "obj_path (s # path) (Some k)" by (auto simp: obj_path_Cons)
  obtain g where g: "rep h (Object_value h data seg) k g" using Object_value_rep(2) [OF "3.prems"(1) [unfolded j(1)], of seg] j(2) by auto
  have "is_obj_val h (Object_value h data seg)" using Object_value_rep(1) g j(3) by (auto simp: obj_path_Cons)
  moreover have eq: "lookup h (seg # s # path) data = lookup h (s # path) (Object_value h data seg)" using calculation rep_not_nil [OF g] by (simp add: Let_def)
  ultimately show ?case unfolding eq using "3.IH" [OF refl _ g] j rep_not_nil [OF g] by simp
qed simp

text \<open>Round trip: the tree that \<open>mktree\<close> makes for a value stands for the value wrapped into objects, and \<open>lookup\<close> finds
  the value in it.\<close>

theorem mktree_lookup:
  assumes "rep h v k e" and "path \<noteq> []"
  shows "\<exists>ob h' f w g. mktree grow path v h = Some (Inr ob, h') \<and> rep h' ob (tree_doc path k) f \<and> lookup h' path ob = Some w \<and> rep h' w k g"
proof -
  obtain ob h' f where tree: "mktree_dirs grow path v h = Some (ob, h')" "rep h' ob (tree_doc path k) f" using mktree_dirs_rep [OF assms(1)] by blast
  have single: "Object_valueImpl [(seg, x)] seg = Some x" for seg and x :: json by (simp add: Object_valueImpl_eq)
  have get: "json_get path (Some (tree_doc path k)) = Some k" by (induction path) (simp_all add: single)
  have obj: "obj_path path (Some (tree_doc path k))" by (induction path) (simp_all add: single)
  obtain seg rest where "path = seg # rest" using assms(2) by (cases path) auto
  then have "is_obj_val h' ob" using Object_value_rep(1) tree(2) by auto
  then show ?thesis using lookup_path_rep [OF tree(2) _ assms(2) obj] get tree assms(2) by (auto simp: mktree_def)
qed

theorem mktree_lookup_witness:
  "\<exists>ob h' w g. mktree (\<lambda>c n. 2 * c) [str ''a'', str ''c''] (FRef 0) ex_heap = Some (Inr ob, h') \<and> lookup h' [str ''a'', str ''c''] ob = Some w \<and> rep h' w store_doc g"
  using mktree_lookup [OF ex_store_rep, of "[str ''a'', str ''c'']" "\<lambda>c n. 2 * c"] by blast

end
