(* ===== verification/Deep_Copy.thy ===== *)
theory Deep_Copy
  imports Patch_Heap
begin

text \<open>
  Deep copies of values in memory (\<open>Clone(true)\<close>): the copy of a value that stands for a document stands for the same
  document, in new parts of the heap but for the names, which a copy shares with the original.
\<close>

lemma deep_members:
  assumes step: "\<And>h v j f v' h'. rep h v j f \<Longrightarrow> Clone_deep n v h = Some (v', h') \<Longrightarrow>
      \<exists>f'. rep h' v' j f' \<and> fp_within h f f' \<and> changes_only {} {} {} h h'"
  shows "reps h vs js f \<Longrightarrow> map_heap (Clone_deep n) vs h = Some (vs', h') \<Longrightarrow>
    \<exists>f'. reps h' vs' js f' \<and> fp_within h f f' \<and> changes_only {} {} {} h h'"
proof (induction vs arbitrary: h js f vs')
  case Nil
  then show ?case by (auto elim!: reps_NilE intro: rep_reps.reps_Nil changes_only_refl)
next
  case (Cons v vs)
  obtain j js' f1 f2 where r: "js = j # js'" "f = fp_join f1 f2" "rep h v j f1" "reps h vs js' f2" "fp_apart f1 f2"
    using Cons.prems(1) by (auto elim: reps_ConsE)
  obtain w h1 ws where c: "Clone_deep n v h = Some (w, h1)" "map_heap (Clone_deep n) vs h1 = Some (ws, h')" "vs' = w # ws"
    using Cons.prems(2) by (auto simp: bind_eq_Some_conv)
  obtain g1 where g1: "rep h1 w j g1" "fp_within h f1 g1" "changes_only {} {} {} h h1" using step [OF r(3) c(1)] by blast
  have rest: "reps h1 vs js' f2" by (rule rep_frame(2) [OF r(4) g1(3)]) auto
  obtain g2 where g2: "reps h' ws js' g2" "fp_within h1 f2 g2" "changes_only {} {} {} h1 h'" using Cons.IH [OF rest c(2)] by blast
  have "rep h' w j g1" by (rule rep_frame(1) [OF g1(1) g2(3)]) auto
  moreover have "fp_apart g2 g1"
    by (rule fp_within_apart [OF fp_apart_sym [OF fp_within_apart [OF r(5) rep_inside(2) [OF r(4)] g1(2)]] rep_inside(1) [OF g1(1)] g2(2)])
  ultimately have "reps h' vs' js (fp_join g1 g2)" using g2(1) r(1) c(3) fp_apart_sym by (auto intro: rep_reps.reps_Cons)
  moreover have "fp_within h f (fp_join g1 g2)"
    unfolding r(2) by (rule fp_within_trans [OF fp_within_join(2) [OF g2(2)] g1(3) fp_within_join(1) [OF g1(2)]])
  moreover have "changes_only {} {} {} h h'" by (rule changes_only_trans [OF g1(3) g2(3)])
  ultimately show ?case by blast
qed

lemma deep_object:
  assumes v: "object_cell_ok h s (length vs)" "obj_slice h v = Some s" "map fst kvs = slice_get (names h) s"
    and vs: "reps h1 vs' (map snd kvs) g'" "fp_within h g g'" "changes_only {} {} {} h h1" "length vs' = length vs"
    and apart: "fp_apart (fp_own h v) g" and inside: "fp_inside h (fp_own h v)"
    and copy: "clone_cell s vs' h1 = (v', h')"
  shows "\<exists>f'. rep h' v' (JObject kvs) f' \<and> fp_within h (fp_join (fp_own h v) g) f' \<and> changes_only {} {} {} h h'"
proof -
  have ok: "slice_ok (names h) s" using v(1) by (simp add: object_cell_ok_def)
  have base: "base s < length (names h)" using ok by (simp add: slice_ok_def)
  have same: "slice_get (names h1) s = slice_get (names h) s" "slice_ok (names h1) s" "slice_cap (names h1) s = slice_cap (names h) s"
    using vs(3) ok base by (auto simp: changes_only_def slice_cap_def)
  have ok1: "object_cell_ok h1 s (length vs')" using v(1) same vs(4) by (simp add: object_cell_ok_def)
  note facts = clone_cell_facts [OF ok1 copy]
  have len: "length (slice_get (names h1) s) = length vs'" using ok1 same(2) by (simp add: object_cell_ok_def slice_get_length)
  have mem: "map fst (members h' v') = map fst kvs" "map snd (members h' v') = vs'" using facts(4) len same(1) v(3) by simp_all
  have own: "fp_own h' v' = \<lparr>fcells = {length (cells h1)}, fnames = {base s}, fspare = spare h s, ffiles = {}\<rparr>"
    using facts(1,6,8) same(3)
    by (simp add: fp_own_def own_cell_def own_names_def own_spare_def obj_slice_def own_files_def cell_files_base_def spare_def)
  have own0: "fnames (fp_own h v) = {base s}" "fspare (fp_own h v) = spare h s" using v(2) by (simp_all add: fp_own_def own_names_def own_spare_def)
  have grow: "length (cells h) \<le> length (cells h1)" using vs(3) by (simp add: changes_only_def)
  have "fp_apart g' (fp_own h v)" by (rule fp_within_apart [OF fp_apart_sym [OF apart] inside vs(2)])
  then have "fp_apart (fp_own h' v') g'"
    using rep_inside(2) [OF vs(1)] own0 unfolding own fp_apart_def fp_inside_def by auto
  moreover have "reps h' (map snd (members h' v')) (map snd kvs) g'"
    unfolding mem(2) by (rule rep_frame(2) [OF vs(1) facts(5)]) auto
  ultimately have "rep h' v' (JObject kvs) (fp_join (fp_own h' v') g')" using rep_reps.rep_object facts(1-3) mem(1) by metis
  moreover have "fp_within h (fp_join (fp_own h v) g) (fp_join (fp_own h' v') g')"
    using vs(2) grow own0 unfolding own by (auto simp: fp_within_def)
  moreover have "changes_only {} {} {} h h'" by (rule changes_only_trans [OF vs(3) facts(5)])
  ultimately show ?thesis by blast
qed

lemma Clone_deep_object:
  assumes "is_obj_val h (FRef r)" and "val_ok h (FRef r)" and "Clone_deep (Suc n) (FRef r) h = Some (v', h')"
  obtains s vs vs' h1 where "object_cell_ok h s (length vs)" "obj_slice h (FRef r) = Some s"
    "members h (FRef r) = zip (slice_get (names h) s) vs" "clone_cell s vs' h1 = (v', h')"
    "map_heap (Clone_deep n) vs h = Some (vs', h1) \<or> vs' = vs \<and> h1 = h"
proof (cases "cells h ! r")
  case (ObjectMap s vs)
  then obtain vs' h1 where c: "map_heap (Clone_deep n) vs h = Some (vs', h1)" "clone_cell s vs' h1 = (v', h')"
    using assms(3) by (auto simp: bind_eq_Some_conv)
  then show thesis
    using ObjectMap assms(2) by (intro that [of s vs vs' h1]) (simp_all add: val_ok_def cell_ok_def obj_slice_def members_def cell_names_def cell_values_def)
next
  case (ObjectCompact s vs)
  then obtain vs' h1 where c: "map_heap (Clone_deep n) vs h = Some (vs', h1)" "clone_cell s vs' h1 = (v', h')"
    using assms(3) by (auto simp: bind_eq_Some_conv)
  then show thesis
    using ObjectCompact assms(2) by (intro that [of s vs vs' h1]) (simp_all add: val_ok_def cell_ok_def obj_slice_def members_def cell_names_def cell_values_def)
next
  case (ObjectStrings s vs)
  then obtain vs' h1 where c: "vs' = map FString vs \<and> h1 = h" "clone_cell s vs' h1 = (v', h')"
    using assms(3) by (auto simp: bind_eq_Some_conv)
  then show thesis
    using ObjectStrings assms(2) by (intro that [of s "map FString vs" vs' h1]) (simp_all add: val_ok_def cell_ok_def obj_slice_def members_def cell_names_def cell_values_def)
qed (use assms(1) in \<open>simp_all add: is_obj_val_def\<close>)

lemma Clone_deep_array:
  assumes "is_array h (FRef r)" and "Clone_deep (Suc n) (FRef r) h = Some (v', h')"
  obtains es h1 where "map_heap (Clone_deep n) (elements h (FRef r)) h = Some (es, h1)" "new_array es (length es) h1 = Some (v', h')"
  using assms by (cases "cells h ! r") (auto simp: is_array_def elements_def bind_eq_Some_conv)

lemma map_heap_length: "map_heap f xs h = Some (ys, h') \<Longrightarrow> length ys = length xs"
  by (induction xs arbitrary: h ys) (auto simp: bind_eq_Some_conv)

lemma Clone_deep_rep:
  assumes "rep h v j f" and "Clone_deep n v h = Some (v', h')"
  shows "\<exists>f'. rep h' v' j f' \<and> fp_within h f f' \<and> changes_only {} {} {} h h'"
  using assms
proof (induction n arbitrary: h v j f v' h')
  case (Suc n)
  have deep: "\<exists>g'. reps k' ws ks g' \<and> fp_within k g g' \<and> changes_only {} {} {} k k'"
    if "reps k vs ks g" "map_heap (Clone_deep n) vs k = Some (ws, k')" for k k' vs ws ks g
    by (rule deep_members [OF _ that]) (rule Suc.IH)
  from Suc.prems(1) show ?case
  proof (cases rule: rep.cases)
    case rep_val
    then show ?thesis using Suc.prems by (auto intro: rep_reps.rep_val changes_only_refl)
  next
    case (rep_array r js g)
    obtain es h1 where c: "map_heap (Clone_deep n) (elements h (FRef r)) h = Some (es, h1)" "new_array es (length es) h1 = Some (v', h')"
      using Clone_deep_array [OF rep_array(5)] Suc.prems(2) rep_array(1) by metis
    obtain g' where g': "reps h1 es js g'" "fp_within h g g'" "changes_only {} {} {} h h1" using deep [OF rep_array(6) c(1)] by blast
    obtain f' where f': "rep h' v' (JArray js) f'" "fp_within h1 g' f'" "changes_only {} {} {} h1 h'"
      using insert_rep [OF g'(1)] c(2) by (auto simp: plift_def)
    have "fp_within h g f'" by (rule fp_within_trans [OF f'(2) g'(3,2)])
    then have "fp_within h f f'" unfolding rep_array(3) by (auto simp: fp_within_def)
    then show ?thesis using f'(1) rep_array(2) changes_only_trans [OF g'(3) f'(3)] by blast
  next
    case (rep_object r kvs g)
    obtain s vs vs' h1 where c: "object_cell_ok h s (length vs)" "obj_slice h v = Some s"
        "members h v = zip (slice_get (names h) s) vs" "clone_cell s vs' h1 = (v', h')"
        "map_heap (Clone_deep n) vs h = Some (vs', h1) \<or> vs' = vs \<and> h1 = h"
      using Clone_deep_object [OF rep_object(5,4)] Suc.prems(2) rep_object(1) by metis
    have "slice_ok (names h) s" "length vs = len s" using c(1) by (simp_all add: object_cell_ok_def)
    then have len: "length (slice_get (names h) s) = length vs" by (simp add: slice_get_length)
    have vs: "reps h vs (map snd kvs) g" "map fst kvs = slice_get (names h) s" using rep_object(1,6,7) c(3) len by auto
    have "\<exists>g'. reps h1 vs' (map snd kvs) g' \<and> fp_within h g g' \<and> changes_only {} {} {} h h1 \<and> length vs' = length vs"
    proof (rule disjE [OF c(5)])
      assume m: "map_heap (Clone_deep n) vs h = Some (vs', h1)"
      then show ?thesis using deep [OF vs(1) m] map_heap_length [OF m] by blast
    next
      assume "vs' = vs \<and> h1 = h"
      then show ?thesis using vs(1) by auto
    qed
    then obtain g' where g': "reps h1 vs' (map snd kvs) g'" "fp_within h g g'" "changes_only {} {} {} h h1" "length vs' = length vs" by blast
    have "fp_inside h f" by (rule rep_inside(1) [OF Suc.prems(1)])
    then have "fp_inside h (fp_own h v)" using rep_object(1,3) own_spare_names [of h v] by (simp add: fp_inside_def fp_own_def)
    from deep_object [OF c(1,2) vs(2) g' _ this c(4)] show ?thesis using rep_object by simp
  qed
qed simp

end
