(* ===== verification/Inmem_Locks.thy ===== *)
theory Inmem_Locks
  imports Inmem Deep_Copy
begin

text \<open>
  Concurrent transactions of the in-memory store as a step relation, one step for each operation or for each part of
  \<open>Commit\<close> between two lock operations.  Clients use a transaction until they commit or abort it and do nothing with
  it while it is being committed.  The invariant of the locks, that readers see neither a commit
  nor what plain accesses do, and that a commit that waits gets through.
\<close>

section \<open>Steps\<close>

text \<open>A client can use a transaction that has not ended and is not being committed.\<close>

definition usable :: "nat \<Rightarrow> transaction \<Rightarrow> inmem \<Rightarrow> bool" where
  "usable t txn s \<longleftrightarrow> underlying t s = Inr txn \<and> waiting s \<noteq> Some t \<and> rmu s \<noteq> Some t \<and> (if twrite txn then wmu s = Some t else t \<in> set (readers s))"

inductive istep :: "path_ops \<Rightarrow> (nat \<Rightarrow> nat \<Rightarrow> nat) \<Rightarrow> nat \<Rightarrow> inmem \<Rightarrow> inmem \<Rightarrow> bool" for P grow fuel where
  begin_step: "inmem_NewTransaction write s = Some (t, s') \<Longrightarrow> istep P grow fuel s s'"
| write_step: "usable t txn s \<Longrightarrow> inmem_Write P grow fuel t op path v s = Some (r, s') \<Longrightarrow> istep P grow fuel s s'"
| read_step: "usable t txn s \<Longrightarrow> inmem_ReadBJSON P grow fuel t path s = Some (r, s') \<Longrightarrow> istep P grow fuel s s'"
| upsert_step: "usable t txn s \<Longrightarrow> inmem_UpsertPolicy t pid bs s = (r, s') \<Longrightarrow> istep P grow fuel s s'"
| delete_step: "usable t txn s \<Longrightarrow> inmem_DeletePolicy t pid s = (r, s') \<Longrightarrow> istep P grow fuel s s'"
| abort_step: "usable t txn s \<Longrightarrow> s' = inmem_Abort t txn s \<Longrightarrow> istep P grow fuel s s'"
| commit_reader: "usable t txn s \<Longrightarrow> \<not> twrite txn \<Longrightarrow> commit_read t s = Some s' \<Longrightarrow> istep P grow fuel s s'"
| commit_waits: "usable t txn s \<Longrightarrow> twrite txn \<Longrightarrow> s' = commit_wait t s \<Longrightarrow> istep P grow fuel s s'"
| commit_locks: "commit_lock s = Some s' \<Longrightarrow> istep P grow fuel s s'"
| commits: "rmu s = Some t \<Longrightarrow> underlying t s = Inr txn \<Longrightarrow> commit_done grow t txn s = Some s' \<Longrightarrow> istep P grow fuel s s'"

definition inmem_New :: "store \<Rightarrow> inmem" where
  "inmem_New db = \<lparr>idb = db, rmu = None, waiting = None, readers = [], wmu = None, txns = []\<rparr>"

inductive reachable :: "path_ops \<Rightarrow> (nat \<Rightarrow> nat \<Rightarrow> nat) \<Rightarrow> nat \<Rightarrow> inmem \<Rightarrow> bool" for P grow fuel where
  reach_init: "reachable P grow fuel (inmem_New db)"
| reach_step: "reachable P grow fuel s \<Longrightarrow> istep P grow fuel s s' \<Longrightarrow> reachable P grow fuel s'"

section \<open>The invariant of the locks\<close>

text \<open>Who holds a lock is a transaction of the right kind that has not ended; every open write transaction holds \<open>wmu\<close>;
  the write lock of \<open>rmu\<close> excludes readers.\<close>

definition kind :: "nat \<Rightarrow> inmem \<Rightarrow> bool option" where
  "kind t s = (case underlying t s of Inl _ \<Rightarrow> None | Inr txn \<Rightarrow> Some (twrite txn))"

definition locks_ok :: "inmem \<Rightarrow> bool" where
  "locks_ok s \<longleftrightarrow>
     map fst (txns s) = [0..<length (txns s)] \<and>
     (\<forall>t. kind t s = Some True \<longleftrightarrow> wmu s = Some t) \<and>
     (\<forall>t \<in> set (readers s). kind t s = Some False) \<and> distinct (readers s) \<and>
     (\<forall>t. rmu s = Some t \<longrightarrow> readers s = [] \<and> wmu s = Some t \<and> waiting s = None) \<and>
     (\<forall>t. waiting s = Some t \<longrightarrow> wmu s = Some t)"

lemma set_txn_simps [simp]:
  "rmu (set_txn t txn s) = rmu s" "waiting (set_txn t txn s) = waiting s" "readers (set_txn t txn s) = readers s" "wmu (set_txn t txn s) = wmu s"
  "idb (set_txn t txn s) = idb s" "txns (set_txn t txn s) = AList.update t txn (txns s)"
  by (simp_all add: set_txn_def)

lemma kind_simps [simp]:
  "kind t' (set_txn t txn s) = (if t' = t then if tstale txn then None else Some (twrite txn) else kind t' s)"
  "kind t (s\<lparr>idb := db\<rparr>) = kind t s" "kind t (s\<lparr>rmu := x\<rparr>) = kind t s" "kind t (s\<lparr>waiting := x\<rparr>) = kind t s"
  "kind t (s\<lparr>readers := rs\<rparr>) = kind t s" "kind t (s\<lparr>wmu := x\<rparr>) = kind t s"
  by (simp_all add: kind_def underlying_def set_txn_def AList.update_conv')

lemma underlying_kind: "underlying t s = Inr txn \<Longrightarrow> kind t s = Some (twrite txn)"
  by (simp add: kind_def)

lemma underlying_not_stale: "underlying t s = Inr txn \<Longrightarrow> \<not> tstale txn"
  by (auto simp: underlying_def split: option.splits if_splits)

lemma underlying_dom: "underlying t s = Inr txn \<Longrightarrow> t \<in> set (map fst (txns s))"
  by (cases "map_of (txns s) t") (auto simp: underlying_def dest: map_of_SomeD intro: rev_image_eqI)

lemma update_known: "t \<in> set (map fst xs) \<Longrightarrow> map fst (AList.update t v xs) = map fst xs"
  by (induction xs) auto

lemma update_new: "t \<notin> set (map fst xs) \<Longrightarrow> AList.update t v xs = xs @ [(t, v)]"
  by (induction xs) auto

text \<open>What most steps do: they change the updates of an open transaction, and the locks not at all.\<close>

definition same_locks :: "inmem \<Rightarrow> inmem \<Rightarrow> bool" where
  "same_locks s s' \<longleftrightarrow> map fst (txns s') = map fst (txns s) \<and> (\<forall>t. kind t s' = kind t s) \<and> rmu s' = rmu s \<and> waiting s' = waiting s \<and>
     readers s' = readers s \<and> wmu s' = wmu s \<and> sdata (idb s') = sdata (idb s) \<and> spolicies (idb s') = spolicies (idb s)"

lemma same_locks_ok: "same_locks s s' \<Longrightarrow> locks_ok s \<Longrightarrow> locks_ok s'"
  unfolding same_locks_def locks_ok_def by (metis length_map)

lemma same_locksI:
  assumes "underlying t s = Inr txn" and "twrite txn' = twrite txn" and "tstale txn' = tstale txn" and "sdata db = sdata (idb s)" and "spolicies db = spolicies (idb s)"
  shows "same_locks s ((set_txn t txn' s)\<lparr>idb := db\<rparr>)"
  using assms underlying_kind [OF assms(1)] underlying_not_stale [OF assms(1)] update_known [OF underlying_dom [OF assms(1)]]
  by (auto simp: same_locks_def)

lemma transaction_Write_keeps:
  "transaction_Write P grow op path v txn db = Some (r, txn', db') \<Longrightarrow>
     twrite txn' = twrite txn \<and> tstale txn' = tstale txn \<and> sdata db' = sdata db \<and> spolicies db' = spolicies db"
  by (auto simp: transaction_Write_def updateRoot_def split: if_splits bind_splits sum.splits bool.splits)

lemma transaction_Read_keeps: "transaction_Read P grow fuel path txn db = Some (r, db') \<Longrightarrow> sdata db' = sdata db \<and> spolicies db' = spolicies db"
  by (auto simp: transaction_Read_def split: if_splits bind_splits sum.splits)

lemma inmem_Write_locks: "underlying t s = Inr txn \<Longrightarrow> inmem_Write P grow fuel t op path v s = Some (r, s') \<Longrightarrow> same_locks s s'"
  by (auto simp: inmem_Write_def dest!: transaction_Write_keeps split: bind_splits intro!: same_locksI)

lemma inmem_ReadBJSON_locks: "underlying t s = Inr txn \<Longrightarrow> inmem_ReadBJSON P grow fuel t path s = Some (r, s') \<Longrightarrow> same_locks s s'"
  by (auto simp: inmem_ReadBJSON_def same_locks_def dest!: transaction_Read_keeps)

lemma policy_locks:
  "underlying t s = Inr txn \<Longrightarrow> inmem_UpsertPolicy t pid bs s = (r, s') \<Longrightarrow> same_locks s s'"
  "underlying t s = Inr txn \<Longrightarrow> inmem_DeletePolicy t pid s = (r, s') \<Longrightarrow> same_locks s s'"
  using same_locksI [of t s txn _ "idb s"]
  by (auto simp: inmem_UpsertPolicy_def UpsertPolicy_def inmem_DeletePolicy_def store_DeletePolicy_def DeletePolicy_def set_txn_def split: if_splits sum.splits prod.splits)

lemma fresh_kind: "locks_ok s \<Longrightarrow> t \<notin> set (map fst (txns s)) \<Longrightarrow> kind t s = None"
  by (auto simp: kind_def dest: underlying_dom split: sum.splits)

lemma begin_locks:
  assumes "locks_ok s" and "inmem_NewTransaction w s = Some (t, s')"
  shows "locks_ok s'"
proof -
  have t: "t = length (txns s)" "t \<notin> set (map fst (txns s))"
    using assms by (auto simp: inmem_NewTransaction_def fresh_txn_def Let_def locks_ok_def split: if_splits)
  have none: "kind t s = None" using fresh_kind assms(1) t(2) by blast
  have names: "map fst (AList.update t v (txns s)) = [0..<length (AList.update t v (txns s))]" for v
    using assms(1) t update_new [OF t(2)] by (simp add: locks_ok_def)
  show ?thesis
  proof (cases w)
    case True
    then have "s' = (set_txn t (newTransaction True) s)\<lparr>wmu := Some t\<rparr>" "wmu s = None"
      using assms(2) by (auto simp: inmem_NewTransaction_def Let_def split: if_splits)
    then show ?thesis using assms(1) names none by (auto simp: locks_ok_def newTransaction_def)
  next
    case False
    then have "s' = (set_txn t (newTransaction False) s)\<lparr>readers := t # readers s\<rparr>" "rmu s = None"
      using assms(2) by (auto simp: inmem_NewTransaction_def Let_def split: if_splits)
    moreover have "wmu s \<noteq> Some t" using assms(1) none unfolding locks_ok_def by (metis option.distinct(1))
    ultimately show ?thesis using assms(1) names none by (auto simp: locks_ok_def newTransaction_def)
  qed
qed

lemma usable_free: "locks_ok s \<Longrightarrow> usable t txn s \<Longrightarrow> twrite txn \<Longrightarrow> wmu s = Some t \<and> rmu s = None \<and> waiting s = None"
  unfolding locks_ok_def usable_def by (metis not_None_eq option.inject)

lemma update_open: "underlying t s = Inr txn \<Longrightarrow> length (AList.update t v (txns s)) = length (txns s) \<and> map fst (AList.update t v (txns s)) = map fst (txns s)"
  using update_known [OF underlying_dom, of t s txn v] by (metis length_map)

lemma abort_locks:
  assumes "locks_ok s" and "usable t txn s"
  shows "locks_ok (inmem_Abort t txn s)"
proof -
  have txn: "underlying t s = Inr txn" "kind t s = Some (twrite txn)" using assms(2) underlying_kind by (auto simp: usable_def)
  note known = update_open [OF txn(1)]
  show ?thesis
  proof (cases "twrite txn")
    case True
    then have "wmu s = Some t" "rmu s = None" "waiting s = None" using usable_free assms by blast+
    moreover have "t \<in> set (readers s) \<Longrightarrow> kind t s = Some False" using assms(1) unfolding locks_ok_def by blast
    then have "t \<notin> set (readers s)" using txn(2) True by auto
    ultimately show ?thesis using assms(1) True known by (auto simp: locks_ok_def inmem_Abort_def)
  next
    case False
    have "wmu s = Some t \<Longrightarrow> kind t s = Some True" using assms(1) unfolding locks_ok_def by blast
    then have "wmu s \<noteq> Some t" using txn(2) False by auto
    then show ?thesis using assms(1) False known by (auto simp: locks_ok_def inmem_Abort_def dest: set_remove1_subset [THEN subsetD])
  qed
qed

lemma commit_keeps_locks:
  "locks_ok s \<Longrightarrow> commit_read t s = Some s' \<Longrightarrow> locks_ok s'"
  "locks_ok s \<Longrightarrow> usable t txn s \<Longrightarrow> twrite txn \<Longrightarrow> locks_ok (commit_wait t s)"
  "locks_ok s \<Longrightarrow> commit_lock s = Some s' \<Longrightarrow> locks_ok s'"
  "locks_ok s \<Longrightarrow> rmu s = Some t \<Longrightarrow> underlying t s = Inr txn \<Longrightarrow> commit_done grow t txn s = Some s' \<Longrightarrow> locks_ok s'"
proof -
  show "locks_ok s \<Longrightarrow> commit_read t s = Some s' \<Longrightarrow> locks_ok s'"
    by (auto simp: locks_ok_def commit_read_def split: if_splits dest: set_remove1_subset [THEN subsetD])
  show "locks_ok (commit_wait t s)" if "locks_ok s" "usable t txn s" "twrite txn"
    using usable_free [OF that] that(1) by (simp add: locks_ok_def commit_wait_def)
  show "locks_ok s \<Longrightarrow> commit_lock s = Some s' \<Longrightarrow> locks_ok s'"
    by (auto simp: locks_ok_def commit_lock_def split: option.splits if_splits)
  show "locks_ok s'" if "locks_ok s" "rmu s = Some t" "underlying t s = Inr txn" "commit_done grow t txn s = Some s'"
    using update_open [OF that(3)] underlying_kind [OF that(3)] that by (auto simp: locks_ok_def commit_done_def split: if_splits)
qed

lemma istep_locks: "istep P grow fuel s s' \<Longrightarrow> locks_ok s \<Longrightarrow> locks_ok s'"
proof (induction rule: istep.induct)
  case (write_step t txn s op path v r s')
  then show ?case using inmem_Write_locks same_locks_ok unfolding usable_def by blast
next
  case (read_step t txn s path r s')
  then show ?case using inmem_ReadBJSON_locks same_locks_ok unfolding usable_def by blast
next
  case (upsert_step t txn s pid bs r s')
  then show ?case using policy_locks(1) same_locks_ok unfolding usable_def by blast
next
  case (delete_step t txn s pid r s')
  then show ?case using policy_locks(2) same_locks_ok unfolding usable_def by blast
qed (auto intro: begin_locks abort_locks commit_keeps_locks)

lemma reachable_locks: "reachable P grow fuel s \<Longrightarrow> locks_ok s"
proof (induction rule: reachable.induct)
  case (reach_init db)
  then show ?case by (auto simp: locks_ok_def inmem_New_def kind_def underlying_def)
next
  case (reach_step s s')
  then show ?case using istep_locks by blast
qed

section \<open>What readers see\<close>

text \<open>One writer at a time, and none commits while there are readers: in every reachable state at most one write
  transaction is open, and the lock for committing is held by that one and excludes read transactions.\<close>

theorem single_writer:
  assumes "reachable P grow fuel s"
  shows "(\<forall>t t'. kind t s = Some True \<and> kind t' s = Some True \<longrightarrow> t = t') \<and> (\<forall>t. rmu s = Some t \<longrightarrow> kind t s = Some True \<and> readers s = [])"
  using reachable_locks [OF assms] unfolding locks_ok_def by (metis option.inject)

text \<open>A reader, a writer that waits to commit, and how it gets through.\<close>

definition run0 :: inmem where
  "run0 = snd (the (inmem_NewTransaction False (inmem_New ex_store)))"

definition run1 :: inmem where
  "run1 = snd (the (inmem_NewTransaction True run0))"

definition run2 :: inmem where
  "run2 = commit_wait 1 run1"

definition run3 :: inmem where
  "run3 = the (commit_read 0 run2)"

definition run4 :: inmem where
  "run4 = the (commit_lock run3)"

lemma run_eqs:
  "run0 = \<lparr>idb = ex_store, rmu = None, waiting = None, readers = [0], wmu = None, txns = [(0, newTransaction False)]\<rparr>"
  "run1 = \<lparr>idb = ex_store, rmu = None, waiting = None, readers = [0], wmu = Some 1, txns = [(0, newTransaction False), (1, newTransaction True)]\<rparr>"
  "run2 = \<lparr>idb = ex_store, rmu = None, waiting = Some 1, readers = [0], wmu = Some 1, txns = [(0, newTransaction False), (1, newTransaction True)]\<rparr>"
  "run3 = \<lparr>idb = ex_store, rmu = None, waiting = Some 1, readers = [], wmu = Some 1, txns = [(0, newTransaction False), (1, newTransaction True)]\<rparr>"
  "run4 = \<lparr>idb = ex_store, rmu = Some 1, waiting = None, readers = [], wmu = Some 1, txns = [(0, newTransaction False), (1, newTransaction True)]\<rparr>"
proof -
  show 0: "run0 = \<lparr>idb = ex_store, rmu = None, waiting = None, readers = [0], wmu = None, txns = [(0, newTransaction False)]\<rparr>"
    by (simp add: run0_def inmem_NewTransaction_def inmem_New_def fresh_txn_def set_txn_def)
  show 1: "run1 = \<lparr>idb = ex_store, rmu = None, waiting = None, readers = [0], wmu = Some 1, txns = [(0, newTransaction False), (1, newTransaction True)]\<rparr>"
    by (simp add: run1_def 0 inmem_NewTransaction_def fresh_txn_def set_txn_def)
  show 2: "run2 = \<lparr>idb = ex_store, rmu = None, waiting = Some 1, readers = [0], wmu = Some 1, txns = [(0, newTransaction False), (1, newTransaction True)]\<rparr>"
    by (simp add: run2_def 1 commit_wait_def)
  show 3: "run3 = \<lparr>idb = ex_store, rmu = None, waiting = Some 1, readers = [], wmu = Some 1, txns = [(0, newTransaction False), (1, newTransaction True)]\<rparr>"
    by (simp add: run3_def 2 commit_read_def)
  show "run4 = \<lparr>idb = ex_store, rmu = Some 1, waiting = None, readers = [], wmu = Some 1, txns = [(0, newTransaction False), (1, newTransaction True)]\<rparr>"
    by (simp add: run4_def 3 commit_lock_def)
qed

lemma run_steps: "istep P grow fuel (inmem_New ex_store) run0" "istep P grow fuel run0 run1" "istep P grow fuel run1 run2" "istep P grow fuel run2 run3" "istep P grow fuel run3 run4"
proof -
  show "istep P grow fuel (inmem_New ex_store) run0" by (rule begin_step [of False _ 0]) (simp add: run_eqs inmem_NewTransaction_def inmem_New_def fresh_txn_def set_txn_def)
  show "istep P grow fuel run0 run1" by (rule begin_step [of True _ 1]) (simp add: run_eqs inmem_NewTransaction_def fresh_txn_def set_txn_def)
  show "istep P grow fuel run1 run2"
    by (rule commit_waits [of 1 "newTransaction True"]) (simp_all add: run_eqs usable_def underlying_def newTransaction_def commit_wait_def)
  show "istep P grow fuel run2 run3"
    by (rule commit_reader [of 0 "newTransaction False"]) (simp_all add: run_eqs usable_def underlying_def newTransaction_def commit_read_def)
  show "istep P grow fuel run3 run4" by (rule istep.commit_locks) (simp add: run_eqs commit_lock_def)
qed

lemma run_reachable: "reachable P grow fuel run0" "reachable P grow fuel run1" "reachable P grow fuel run2" "reachable P grow fuel run3" "reachable P grow fuel run4"
proof -
  note steps = run_steps [of P grow fuel]
  show 0: "reachable P grow fuel run0" by (rule reach_step [OF reach_init steps(1)])
  show 1: "reachable P grow fuel run1" by (rule reach_step [OF 0 steps(2)])
  show 2: "reachable P grow fuel run2" by (rule reach_step [OF 1 steps(3)])
  show 3: "reachable P grow fuel run3" by (rule reach_step [OF 2 steps(4)])
  show "reachable P grow fuel run4" by (rule reach_step [OF 3 steps(5)])
qed

theorem single_writer_witness: "rmu run4 = Some 1 \<and> kind 1 run4 = Some True \<and> readers run4 = []"
  using single_writer [OF run_reachable(5)] by (simp add: run_eqs)








section \<open>Waiting commits\<close>

definition run :: "path_ops \<Rightarrow> (nat \<Rightarrow> nat \<Rightarrow> nat) \<Rightarrow> nat \<Rightarrow> (nat \<Rightarrow> inmem) \<Rightarrow> bool" where
  "run P grow fuel s \<longleftrightarrow> reachable P grow fuel (s 0) \<and> (\<forall>i. istep P grow fuel (s i) (s (Suc i)) \<or> s (Suc i) = s i)"

lemma run_locks: "run P grow fuel s \<Longrightarrow> locks_ok (s i)"
proof (induction i)
  case 0
  then show ?case using reachable_locks by (auto simp: run_def)
next
  case (Suc i)
  then show ?case using istep_locks unfolding run_def by metis
qed

text \<open>While a commit waits, no reader comes.\<close>

lemma waiting_step:
  assumes "istep P grow fuel s s'" and "locks_ok s" and "waiting s = Some t"
  shows "waiting s' = Some t \<and> set (readers s') \<subseteq> set (readers s) \<or> rmu s' = Some t"
proof -
  have same: "same_locks s s' \<Longrightarrow> ?thesis" using assms(3) by (simp add: same_locks_def)
  from assms(1) show ?thesis
  proof (cases rule: istep.cases)
    case (begin_step w t)
    then show ?thesis using assms(3) by (auto simp: inmem_NewTransaction_def Let_def split: if_splits)
  next
    case (write_step t txn op path v r)
    then show ?thesis using same inmem_Write_locks unfolding usable_def by blast
  next
    case (read_step t txn path r)
    then show ?thesis using same inmem_ReadBJSON_locks unfolding usable_def by blast
  next
    case (upsert_step t txn pid bs r)
    then show ?thesis using same policy_locks(1) unfolding usable_def by blast
  next
    case (delete_step t txn pid r)
    then show ?thesis using same policy_locks(2) unfolding usable_def by blast
  next
    case (abort_step t' txn)
    then show ?thesis using assms(3) by (auto simp: inmem_Abort_def Let_def dest: set_remove1_subset [THEN subsetD])
  next
    case (commit_reader t' txn)
    then show ?thesis using assms(3) by (auto simp: commit_read_def split: if_splits dest: set_remove1_subset [THEN subsetD])
  next
    case (commit_waits t' txn)
    then show ?thesis using usable_free [OF assms(2), of t' txn] assms(3) by simp
  next
    case commit_locks
    then show ?thesis using assms(3) by (auto simp: commit_lock_def split: if_splits)
  next
    case (commits t' txn)
    then show ?thesis using assms(2,3) by (auto simp: locks_ok_def)
  qed
qed

text \<open>C12. Liveness: in every run in which readers end, and in which a free lock is taken at last, a commit that waits for the
  readers gets the lock, however many transactions begin in the meantime.\<close>

theorem commit_gets_through:
  assumes "run P grow fuel s" and "waiting (s i) = Some t"
    and "\<forall>k. \<forall>r \<in> set (readers (s k)). \<exists>m \<ge> k. r \<notin> set (readers (s m))"
    and "\<forall>k. \<exists>m \<ge> k. \<not> (waiting (s m) = Some t \<and> readers (s m) = [])"
  shows "\<exists>m \<ge> i. rmu (s m) = Some t"
proof (rule ccontr)
  assume never: "\<not> (\<exists>m \<ge> i. rmu (s m) = Some t)"
  have stay: "waiting (s (Suc m)) = Some t \<and> set (readers (s (Suc m))) \<subseteq> set (readers (s m))" if "i \<le> m" "waiting (s m) = Some t" for m
    using assms(1) never that waiting_step [OF _ run_locks [OF assms(1)] that(2)] unfolding run_def by (metis le_SucI subset_refl)
  have waits: "waiting (s m) = Some t" if "i \<le> m" for m
    using that by (induction rule: dec_induct) (use assms(2) stay in auto)
  have shrink: "set (readers (s m)) \<subseteq> set (readers (s k))" if "i \<le> k" "k \<le> m" for k m
    using that(2)
  proof (induction rule: dec_induct)
    case (step n)
    then show ?case using stay [of n] waits [of n] that(1) by auto
  qed simp
  have "\<exists>m \<ge> k. readers (s m) = []" if "i \<le> k" for k
    using that
  proof (induction "card (set (readers (s k)))" arbitrary: k rule: less_induct)
    case less
    show ?case
    proof (cases "readers (s k) = []")
      case False
      then obtain r where r: "r \<in> set (readers (s k))" by (cases "readers (s k)") auto
      then obtain m where m: "k \<le> m" "r \<notin> set (readers (s m))" using assms(3) by blast
      then have "set (readers (s m)) \<subset> set (readers (s k))" using shrink [of k m] less.prems r by auto
      then have "card (set (readers (s m))) < card (set (readers (s k)))" by (simp add: psubset_card_mono)
      then show ?thesis using less.hyps [of m] m(1) less.prems by (meson order_trans)
    qed auto
  qed
  then obtain k where k: "i \<le> k" "readers (s k) = []" by blast
  then have "waiting (s m) = Some t \<and> readers (s m) = []" if "k \<le> m" for m using shrink [of k m] waits that by auto
  then show False using assms(4) by blast
qed

theorem commit_gets_through_witness: "\<exists>m \<ge> (0::nat). rmu ((\<lambda>i. if i = 0 then run2 else if i = 1 then run3 else run4) m) = Some 1"
proof (rule commit_gets_through [of ex_paths "\<lambda>c n. 2 * c" 1 "\<lambda>i. if i = 0 then run2 else if i = 1 then run3 else run4"])
  let ?s = "\<lambda>i::nat. if i = 0 then run2 else if i = 1 then run3 else run4"
  show "run ex_paths (\<lambda>c n. 2 * c) 1 ?s" using run_reachable(3) run_steps(4,5) by (simp add: run_def)
  show "waiting (?s 0) = Some 1" by (simp add: run_eqs)
  show "\<forall>k. \<forall>r \<in> set (readers (?s k)). \<exists>m \<ge> k. r \<notin> set (readers (?s m))"
    by (intro allI ballI, rule_tac x = "Suc k" in exI) (simp add: run_eqs)
  show "\<forall>k. \<exists>m \<ge> k. \<not> (waiting (?s m) = Some 1 \<and> readers (?s m) = [])"
    by (intro allI, rule_tac x = "k + 2" in exI) (simp add: run_eqs)
qed

end
