(* ===== verification/Edit_Tree.thy ===== *)
theory Edit_Tree
  imports Bit_Vector Json_Meaning "HOL-Library.AList"
begin

text \<open>
  The edit tree (src/pkg/internal/edittree/edittree.go): a term with recorded insertions and deletions.  Terms are JSON
  values of OPA, read up to OPA's comparison, with finite sets for objects and sets: a number is taken to be written in
  one way only (an integer without a fraction), so that the comparisons of \<open>EditTree_getKeyHash\<close> are equality.  Hashes, the
  integers of numbers and strings and the search of a path in a term come with OPA and are the argument \<open>A\<close>.

  Nodes are changed in place by the code and each node has one parent, so that operations return the changed tree, on
  errors too.  Going down a path and doing something at its end is one operation here (\<open>EditTree_Unfold\<close>), which puts the changed
  children back.  A scalar child is unfolded to a node of its own that the tree does not hold.  Maps of the code are
  association lists.  \<open>None\<close> is a panic.
\<close>

record ast_ops =
  Hash :: "mvalue \<Rightarrow> int"
  NumberInt :: "rat \<Rightarrow> int option"
  TextInt :: "gostring \<Rightarrow> int option"
  Find :: "mvalue \<Rightarrow> mvalue list \<Rightarrow> mvalue option"

datatype edit_error =
    DeletedNode
  | SetKeyMismatch
  | OutOfBounds
  | InvalidIndex
  | LeadingZeros
  | NotComposite
  | AlreadyDeleted
  | NoSuchKey
  | NoSuchPath

datatype EditTree = EditTree
  (etvalue: "mvalue option")
  (childKeys: "(int \<times> mvalue) list")
  (childScalarValues: "(int \<times> mvalue option) list")
  (childCompositeValues: "(int \<times> EditTree option) list")
  (eliminated: BitVector)
  (insertions: BitVector)

type_synonym 'r edit_result = "((edit_error + 'r) \<times> EditTree) option"

section \<open>Nodes\<close>

definition isComposite :: "mvalue \<Rightarrow> bool" where
  "isComposite t = (case t of MArray _ \<Rightarrow> True | MSet _ \<Rightarrow> True | MObject _ \<Rightarrow> True | _ \<Rightarrow> False)"

definition zeroes :: "nat \<Rightarrow> BitVector" where
  "zeroes n = NewBitVector (replicate ((n - 1) div 8 + 1) 0) (int n)"

definition nil_bits :: BitVector where
  "nil_bits = NewBitVector [] 0"

definition NewEditTree :: "mvalue \<Rightarrow> EditTree" where
  "NewEditTree t = (case t of
     MArray xs \<Rightarrow> EditTree (Some t) [] [] [] (zeroes (length xs)) (zeroes (length xs))
   | _ \<Rightarrow> EditTree (Some t) [] [] [] nil_bits nil_bits)"

text \<open>Linear probing from the hash of the key.\<close>

function getKeyHash_loop :: "(int \<times> mvalue) list \<Rightarrow> mvalue \<Rightarrow> int \<Rightarrow> int \<times> bool" where
  "getKeyHash_loop ks k h = (case map_of ks h of
     None \<Rightarrow> (h, False)
   | Some k' \<Rightarrow> if k' = k then (h, True) else getKeyHash_loop ks k (h + 1))"
  by pat_completeness auto
termination
proof (relation "measure (\<lambda>(ks, _, h). card {h' \<in> fst ` set ks. h \<le> h'})", goal_cases)
  case (2 ks k h k')
  then have "h \<in> fst ` set ks" by (metis map_of_eq_None_iff option.distinct(1))
  then have "h \<in> {h' \<in> fst ` set ks. h \<le> h'} - {h' \<in> fst ` set ks. h + 1 \<le> h'}" by simp
  moreover have "{h' \<in> fst ` set ks. h + 1 \<le> h'} \<subseteq> {h' \<in> fst ` set ks. h \<le> h'}" by auto
  ultimately have "{h' \<in> fst ` set ks. h + 1 \<le> h'} \<subset> {h' \<in> fst ` set ks. h \<le> h'}" by blast
  then show ?case by (simp add: psubset_card_mono)
qed simp

declare getKeyHash_loop.simps [simp del]

definition EditTree_getKeyHash :: "ast_ops \<Rightarrow> mvalue \<Rightarrow> EditTree \<Rightarrow> int \<times> bool" where
  "EditTree_getKeyHash A k e = getKeyHash_loop (childKeys e) k (Hash A k)"

fun EditTree_setChildKey :: "int \<Rightarrow> mvalue \<Rightarrow> EditTree \<Rightarrow> EditTree" where
  "EditTree_setChildKey h k (EditTree v ks ss cs el ins) = EditTree v (AList.update h k ks) ss cs el ins"

fun EditTree_setChildScalarValue :: "int \<Rightarrow> mvalue option \<Rightarrow> EditTree \<Rightarrow> EditTree" where
  "EditTree_setChildScalarValue h t (EditTree v ks ss cs el ins) = EditTree v ks (AList.update h t ss) cs el ins"

fun EditTree_setChildCompositeValue :: "int \<Rightarrow> EditTree option \<Rightarrow> EditTree \<Rightarrow> EditTree" where
  "EditTree_setChildCompositeValue h c (EditTree v ks ss cs el ins) = EditTree v ks ss (AList.update h c cs) el ins"

fun EditTree_deleteChildValue :: "int \<Rightarrow> EditTree \<Rightarrow> EditTree" where
  "EditTree_deleteChildValue h (EditTree v ks ss cs el ins) = EditTree v ks (AList.delete h ss) (AList.delete h cs) el ins"

fun setInsertions :: "BitVector \<Rightarrow> EditTree \<Rightarrow> EditTree" where
  "setInsertions b (EditTree v ks ss cs el ins) = EditTree v ks ss cs el b"

fun setEliminated :: "BitVector \<Rightarrow> EditTree \<Rightarrow> EditTree" where
  "setEliminated b (EditTree v ks ss cs el ins) = EditTree v ks ss cs b ins"

text \<open>The value and fresh maps of children; the bit vectors stay.\<close>

fun collapse_to :: "mvalue option \<Rightarrow> EditTree \<Rightarrow> EditTree" where
  "collapse_to t (EditTree v ks ss cs el ins) = EditTree t [] [] [] el ins"

definition toIndex :: "ast_ops \<Rightarrow> int \<Rightarrow> mvalue \<Rightarrow> edit_error + int" where
  "toIndex A arrayLength t = (case t of
     MNumber n \<Rightarrow> (case NumberInt A n of Some i \<Rightarrow> Inr i | None \<Rightarrow> Inl InvalidIndex)
   | MString v \<Rightarrow>
       if v = str ''-'' then Inr arrayLength
       else (case TextInt A v of
           None \<Rightarrow> Inl InvalidIndex
         | Some i \<Rightarrow> if v \<noteq> str ''0'' \<and> take 1 v = str ''0'' then Inl LeadingZeros else Inr i)
   | _ \<Rightarrow> Inl InvalidIndex)"

section \<open>Rendering\<close>

text \<open>The children come rendered: a term, nothing for a deleted node, or a panic.  A child without a key or a child
  that is itself a deleted node makes the code fail on a nil pointer.\<close>

type_synonym rendered = "mvalue option option"

text \<open>The keys to skip and the entries of the children.\<close>

fun child_entries :: "(int \<times> mvalue) list \<Rightarrow> (int \<times> rendered option) list \<Rightarrow> (mvalue list \<times> (mvalue \<times> mvalue) list) option" where
  "child_entries ks [] = Some ([], [])"
| "child_entries ks ((h, c) # cs) = do {
     k \<leftarrow> map_of ks h;
     (skip, out) \<leftarrow> child_entries ks cs;
     case c of
       None \<Rightarrow> Some (k # skip, out)
     | Some r \<Rightarrow> do { r \<leftarrow> r; t \<leftarrow> r; Some (k # skip, (k, t) # out) } }"

text \<open>A later entry replaces an earlier one with the same key.\<close>

definition ast_object :: "(mvalue \<times> mvalue) list \<Rightarrow> (mvalue \<times> mvalue) fset" where
  "ast_object out = fold (\<lambda>(k, v) x. finsert (k, v) (ffilter (\<lambda>(k', _). k' \<noteq> k) x)) out {||}"

fun next_zero :: "nat \<Rightarrow> nat \<Rightarrow> BitVector \<Rightarrow> nat option option" where
  "next_zero 0 j el = Some None"
| "next_zero (Suc n) j el = do {
     b \<leftarrow> BitVector_Element el (int j);
     if b = 0 then Some (Some j) else next_zero n (Suc j) el }"

fun render_array :: "mvalue list \<Rightarrow> (int \<times> mvalue option) list \<Rightarrow> (int \<times> rendered option) list \<Rightarrow>
   BitVector \<Rightarrow> BitVector \<Rightarrow> nat \<Rightarrow> nat list \<Rightarrow> mvalue list option" where
  "render_array xs ss cs el ins eIdx [] = Some []"
| "render_array xs ss cs el ins eIdx (i # is) = do {
     b \<leftarrow> BitVector_Element ins (int i);
     if b = 0 then do {
       found \<leftarrow> next_zero (nat (BitVector_Length el) - eIdx) eIdx el;
       j \<leftarrow> found;
       if j < length xs then do { out \<leftarrow> render_array xs ss cs el ins (Suc j) is; Some (xs ! j # out) } else None }
     else do {
       t \<leftarrow> (case map_of ss (int i) of
           Some t \<Rightarrow> t
         | None \<Rightarrow> (case map_of cs (int i) of Some (Some r) \<Rightarrow> (case r of Some t \<Rightarrow> t | None \<Rightarrow> None) | _ \<Rightarrow> None));
       out \<leftarrow> render_array xs ss cs el ins eIdx is;
       Some (t # out) } }"

definition render_node :: "mvalue option \<Rightarrow> (int \<times> mvalue) list \<Rightarrow> (int \<times> mvalue option) list \<Rightarrow>
   (int \<times> rendered option) list \<Rightarrow> BitVector \<Rightarrow> BitVector \<Rightarrow> rendered" where
  "render_node v ks ss cs el ins = (case v of
     None \<Rightarrow> Some None
   | Some (MObject x) \<Rightarrow>
       if ks = [] then Some (Some (MObject x))
       else do {
         (skip1, out1) \<leftarrow> child_entries ks (map (map_prod id (map_option (Some \<circ> Some))) ss);
         (skip2, out2) \<leftarrow> child_entries ks cs;
         Some (Some (MObject (ast_object (out1 @ out2) |\<union>| ffilter (\<lambda>(k, _). k \<notin> set (skip1 @ skip2)) x))) }
   | Some (MSet x) \<Rightarrow>
       if ks = [] then Some (Some (MSet x))
       else do {
         (skip1, out1) \<leftarrow> child_entries ks (map (map_prod id (map_option (Some \<circ> Some))) ss);
         (skip2, out2) \<leftarrow> child_entries ks cs;
         Some (Some (MSet (fset_of_list (map snd (out1 @ out2)) |\<union>| ffilter (\<lambda>k. k \<notin> set (skip1 @ skip2)) x))) }
   | Some (MArray xs) \<Rightarrow> do {
       out \<leftarrow> render_array xs ss cs el ins 0 [0..<nat (BitVector_Length ins)];
       Some (Some (MArray out)) }
   | Some t \<Rightarrow> Some (Some t))"

primrec EditTree_Render :: "EditTree \<Rightarrow> rendered" where
  "EditTree_Render (EditTree v ks ss cs el ins) = render_node v ks ss (map (map_prod id (map_option EditTree_Render)) cs) el ins"

section \<open>Insertion\<close>

definition EditTree_unsafeInsertObject :: "ast_ops \<Rightarrow> mvalue \<Rightarrow> mvalue \<Rightarrow> EditTree \<Rightarrow> EditTree" where
  "EditTree_unsafeInsertObject A k v e =
     (let (keyHash, found) = EditTree_getKeyHash A k e;
          e1 = (if found then EditTree_deleteChildValue keyHash e else e);
          e2 = EditTree_setChildKey keyHash k e1
      in if isComposite v then EditTree_setChildCompositeValue keyHash (Some (NewEditTree v)) e2
         else EditTree_setChildScalarValue keyHash (Some v) e2)"

text \<open>The code of sets is that of objects.\<close>

definition EditTree_unsafeInsertSet :: "ast_ops \<Rightarrow> mvalue \<Rightarrow> mvalue \<Rightarrow> EditTree \<Rightarrow> EditTree" where
  "EditTree_unsafeInsertSet A k v e =
     (let (keyHash, found) = EditTree_getKeyHash A k e;
          e1 = (if found then EditTree_deleteChildValue keyHash e else e);
          e2 = EditTree_setChildKey keyHash k e1
      in if isComposite v then EditTree_setChildCompositeValue keyHash (Some (NewEditTree v)) e2
         else EditTree_setChildScalarValue keyHash (Some v) e2)"

text \<open>The indexes to rewrite: those of scalars and those of composites.\<close>

fun collect :: "EditTree \<Rightarrow> int list \<Rightarrow> (int list \<times> int list) option" where
  "collect e [] = Some ([], [])"
| "collect e (i # is) = do {
     b \<leftarrow> BitVector_Element (insertions e) i;
     if b = 1 then
       if map_of (childScalarValues e) i \<noteq> None then do { (rs, rc) \<leftarrow> collect e is; Some (i # rs, rc) }
       else if map_of (childCompositeValues e) i \<noteq> None then do { (rs, rc) \<leftarrow> collect e is; Some (rs, i # rc) }
       else None
     else collect e is }"

definition nil_or :: "'a option option \<Rightarrow> 'a option" where
  "nil_or x = (case x of Some v \<Rightarrow> v | None \<Rightarrow> None)"

definition rewrite_scalar :: "int \<Rightarrow> int \<Rightarrow> EditTree \<Rightarrow> EditTree" where
  "rewrite_scalar d originalIdx e =
     (let v = nil_or (map_of (childScalarValues e) originalIdx)
      in EditTree_setChildScalarValue (originalIdx + d) v (EditTree_deleteChildValue originalIdx e))"

definition rewrite_composite :: "int \<Rightarrow> int \<Rightarrow> EditTree \<Rightarrow> EditTree" where
  "rewrite_composite d originalIdx e =
     (let v = nil_or (map_of (childCompositeValues e) originalIdx)
      in EditTree_setChildCompositeValue (originalIdx + d) v (EditTree_deleteChildValue originalIdx e))"

definition EditTree_unsafeInsertArray :: "int \<Rightarrow> mvalue \<Rightarrow> EditTree \<Rightarrow> EditTree option" where
  "EditTree_unsafeInsertArray idx v e = do {
     (rewritesScalars, rewritesComposites) \<leftarrow> collect e (map int [nat idx..<nat (BitVector_Length (insertions e))]);
     let e1 = fold (rewrite_scalar 1) (rev rewritesScalars) e;
     let e2 = fold (rewrite_composite 1) (rev rewritesComposites) e1;
     ins \<leftarrow> (if idx = BitVector_Length (insertions e2) then BitVector_Append 1 (insertions e2)
             else BitVector_Insert 1 idx (insertions e2));
     let e3 = setInsertions ins e2;
     Some (if isComposite v then EditTree_setChildCompositeValue idx (Some (NewEditTree v)) e3
           else EditTree_setChildScalarValue idx (Some v) e3) }"

text \<open>A set with a composite key is rendered and starts afresh.\<close>

definition collapse :: "EditTree \<Rightarrow> EditTree option" where
  "collapse e = map_option (\<lambda>t. collapse_to t e) (EditTree_Render e)"

definition EditTree_Insert :: "ast_ops \<Rightarrow> mvalue \<Rightarrow> mvalue \<Rightarrow> EditTree \<Rightarrow> EditTree edit_result" where
  "EditTree_Insert A k v e = (case etvalue e of
     None \<Rightarrow> Some (Inl DeletedNode, e)
   | Some (MObject _) \<Rightarrow> Some (Inr (NewEditTree v), EditTree_unsafeInsertObject A k v e)
   | Some (MSet _) \<Rightarrow>
       if k \<noteq> v then Some (Inl SetKeyMismatch, e)
       else do {
         e1 \<leftarrow> (if isComposite k then collapse e else Some e);
         Some (Inr (NewEditTree v), EditTree_unsafeInsertSet A k v e1) }
   | Some (MArray _) \<Rightarrow>
       (case toIndex A (BitVector_Length (insertions e)) k of
          Inl err \<Rightarrow> Some (Inl err, e)
        | Inr idx \<Rightarrow>
            if idx < 0 \<or> idx > BitVector_Length (insertions e) then Some (Inl OutOfBounds, e)
            else do { e1 \<leftarrow> EditTree_unsafeInsertArray idx v e; Some (Inr (NewEditTree v), e1) })
   | Some _ \<Rightarrow> Some (Inl NotComposite, e))"

section \<open>Deletion\<close>

fun sumZeroes_loop :: "BitVector \<Rightarrow> int list \<Rightarrow> int \<Rightarrow> int option" where
  "sumZeroes_loop bv [] zeroesSeen = Some zeroesSeen"
| "sumZeroes_loop bv (i # is) zeroesSeen = do {
     b \<leftarrow> BitVector_Element bv i;
     sumZeroes_loop bv is (if b = 0 then zeroesSeen + 1 else zeroesSeen) }"

definition sumZeroesBelowIndex :: "int \<Rightarrow> BitVector \<Rightarrow> int option" where
  "sumZeroesBelowIndex index bv = sumZeroes_loop bv (map int [0..<nat index]) 0"

fun findIndexOfNthZero_loop :: "int \<Rightarrow> BitVector \<Rightarrow> int list \<Rightarrow> int \<Rightarrow> int option option" where
  "findIndexOfNthZero_loop n bv [] zeroesSeen = Some None"
| "findIndexOfNthZero_loop n bv (i # is) zeroesSeen = do {
     b \<leftarrow> BitVector_Element bv i;
     let seen = (if b = 0 then zeroesSeen + 1 else zeroesSeen);
     if seen = n then Some (Some i) else findIndexOfNthZero_loop n bv is seen }"

definition findIndexOfNthZero :: "int \<Rightarrow> BitVector \<Rightarrow> int option option" where
  "findIndexOfNthZero n bv = findIndexOfNthZero_loop n bv (map int [0..<nat (BitVector_Length bv)]) 0"

definition EditTree_fallbackDelete :: "ast_ops \<Rightarrow> mvalue \<Rightarrow> EditTree \<Rightarrow> EditTree edit_result" where
  "EditTree_fallbackDelete A k e = do {
     t \<leftarrow> etvalue e;
     Some (case Find A t [k] of
       None \<Rightarrow> (Inl NoSuchKey, e)
     | Some v \<Rightarrow>
         (let (keyHash, _) = EditTree_getKeyHash A k e;
              e1 = EditTree_setChildKey keyHash k e
          in (Inr (NewEditTree v), if isComposite v then EditTree_setChildCompositeValue keyHash None e1
                                   else EditTree_setChildScalarValue keyHash None e1))) }"

definition deleteObject :: "ast_ops \<Rightarrow> mvalue \<Rightarrow> EditTree \<Rightarrow> EditTree edit_result" where
  "deleteObject A k e =
     (let (keyHash, found) = EditTree_getKeyHash A k e
      in if found then
           (case map_of (childScalarValues e) keyHash of
              Some None \<Rightarrow> Some (Inl AlreadyDeleted, e)
            | Some (Some t) \<Rightarrow> Some (Inr (NewEditTree t), EditTree_setChildScalarValue keyHash None (EditTree_setChildKey keyHash k e))
            | None \<Rightarrow>
                (case map_of (childCompositeValues e) keyHash of
                   Some None \<Rightarrow> Some (Inl AlreadyDeleted, e)
                 | Some (Some child) \<Rightarrow> Some (Inr child, EditTree_setChildCompositeValue keyHash None (EditTree_setChildKey keyHash k e))
                 | None \<Rightarrow> None))
         else EditTree_fallbackDelete A k e)"

definition deleteSet :: "ast_ops \<Rightarrow> mvalue \<Rightarrow> EditTree \<Rightarrow> EditTree edit_result" where
  "deleteSet A k e =
     (if isComposite k then do { e1 \<leftarrow> collapse e; EditTree_fallbackDelete A k e1 }
      else (let (keyHash, found) = EditTree_getKeyHash A k e
        in if found then
             (case map_of (childScalarValues e) keyHash of
                Some None \<Rightarrow> Some (Inl AlreadyDeleted, e)
              | Some (Some t) \<Rightarrow>
                  if k = t then Some (Inr (NewEditTree t), EditTree_setChildScalarValue keyHash None (EditTree_setChildKey keyHash k e))
                  else EditTree_fallbackDelete A k e
              | None \<Rightarrow> EditTree_fallbackDelete A k e)
           else EditTree_fallbackDelete A k e))"

definition deleteArray :: "ast_ops \<Rightarrow> mvalue \<Rightarrow> EditTree \<Rightarrow> EditTree edit_result" where
  "deleteArray A k e =
     (case toIndex A (BitVector_Length (insertions e)) k of
        Inl err \<Rightarrow> Some (Inl err, e)
      | Inr idx \<Rightarrow>
          if idx < 0 \<or> idx > BitVector_Length (insertions e) - 1 then Some (Inl OutOfBounds, e)
          else do {
            (rewritesScalars, rewritesComposites) \<leftarrow>
               collect e (map int [nat idx + 1..<nat (BitVector_Length (insertions e))]);
            let e1 = EditTree_deleteChildValue idx e;
            let e2 = fold (rewrite_scalar (- 1)) rewritesScalars e1;
            let e3 = fold (rewrite_composite (- 1)) rewritesComposites e2;
            b \<leftarrow> BitVector_Element (insertions e3) idx;
            e4 \<leftarrow> (if b = 0 then do {
                z \<leftarrow> sumZeroesBelowIndex idx (insertions e3);
                found \<leftarrow> findIndexOfNthZero (1 + z) (eliminated e3);
                elimIdx \<leftarrow> found;
                el \<leftarrow> BitVector_Set 1 elimIdx (eliminated e3);
                Some (setEliminated el e3) }
              else Some e3);
            ins \<leftarrow> BitVector_Delete idx (insertions e4);
            let e5 = setInsertions ins e4;
            Some (Inr e5, e5) })"

definition EditTree_Delete :: "ast_ops \<Rightarrow> mvalue \<Rightarrow> EditTree \<Rightarrow> EditTree edit_result" where
  "EditTree_Delete A k e = (case etvalue e of
     None \<Rightarrow> Some (Inl DeletedNode, e)
   | Some (MObject _) \<Rightarrow> deleteObject A k e
   | Some (MSet _) \<Rightarrow> deleteSet A k e
   | Some (MArray _) \<Rightarrow> deleteArray A k e
   | Some _ \<Rightarrow> Some (Inl NotComposite, e))"

section \<open>Paths\<close>

text \<open>The rest of the path at a scalar, at a composite child, and at a child just inserted.\<close>

definition at_scalar :: "mvalue option \<Rightarrow> (EditTree \<Rightarrow> 'r edit_result) \<Rightarrow> EditTree \<Rightarrow> 'r edit_result" where
  "at_scalar t g e = do { t \<leftarrow> t; (r, _) \<leftarrow> g (NewEditTree t); Some (r, e) }"

definition at_composite :: "int \<Rightarrow> EditTree option \<Rightarrow> (EditTree \<Rightarrow> 'r edit_result) \<Rightarrow> EditTree \<Rightarrow> 'r edit_result" where
  "at_composite h c g e = do { c \<leftarrow> c; (r, c') \<leftarrow> g c; Some (r, EditTree_setChildCompositeValue h (Some c') e) }"

definition at_inserted :: "int \<Rightarrow> mvalue \<Rightarrow> (EditTree \<Rightarrow> 'r edit_result) \<Rightarrow> (edit_error + EditTree) \<times> EditTree \<Rightarrow> 'r edit_result" where
  "at_inserted h v g = (\<lambda>(r, e). case r of
     Inl err \<Rightarrow> Some (Inl err, e)
   | Inr child \<Rightarrow> if isComposite v then at_composite h (Some child) g e else at_scalar (Some v) g e)"

definition unfold_object :: "ast_ops \<Rightarrow> mvalue \<Rightarrow> (EditTree \<Rightarrow> 'r edit_result) \<Rightarrow> mvalue \<Rightarrow> EditTree \<Rightarrow> 'r edit_result" where
  "unfold_object A k g t e =
     (let (keyHash, found) = EditTree_getKeyHash A k e
      in if found then
           (case map_of (childScalarValues e) keyHash of
              Some None \<Rightarrow> Some (Inl AlreadyDeleted, e)
            | Some v \<Rightarrow> at_scalar v g e
            | None \<Rightarrow>
                (case map_of (childCompositeValues e) keyHash of
                   Some None \<Rightarrow> Some (Inl AlreadyDeleted, e)
                 | Some c \<Rightarrow> at_composite keyHash c g e
                 | None \<Rightarrow> None))
         else (case Find A t [k] of
             Some v \<Rightarrow> do { re \<leftarrow> EditTree_Insert A k v e; at_inserted keyHash v g re }
           | None \<Rightarrow> Some (Inl NoSuchPath, e)))"

definition unfold_set_fallback :: "ast_ops \<Rightarrow> mvalue \<Rightarrow> (EditTree \<Rightarrow> 'r edit_result) \<Rightarrow> EditTree \<Rightarrow> 'r edit_result" where
  "unfold_set_fallback A k g e = do {
     t \<leftarrow> etvalue e;
     case Find A t [k] of
       Some v \<Rightarrow> do { re \<leftarrow> EditTree_Insert A k v e; at_inserted (fst (EditTree_getKeyHash A k (snd re))) v g re }
     | None \<Rightarrow> Some (Inl NoSuchPath, e) }"

definition unfold_set :: "ast_ops \<Rightarrow> mvalue \<Rightarrow> (EditTree \<Rightarrow> 'r edit_result) \<Rightarrow> EditTree \<Rightarrow> 'r edit_result" where
  "unfold_set A k g e =
     (if isComposite k then do { e1 \<leftarrow> collapse e; unfold_set_fallback A k g e1 }
      else (let (keyHash, found) = EditTree_getKeyHash A k e
        in if found \<and> map_of (childScalarValues e) keyHash \<noteq> None
           then at_scalar (nil_or (map_of (childScalarValues e) keyHash)) g e
           else unfold_set_fallback A k g e))"

definition unfold_array :: "ast_ops \<Rightarrow> mvalue \<Rightarrow> (EditTree \<Rightarrow> 'r edit_result) \<Rightarrow> mvalue \<Rightarrow> EditTree \<Rightarrow> 'r edit_result" where
  "unfold_array A k g t e =
     (case toIndex A (BitVector_Length (insertions e)) k of
        Inl err \<Rightarrow> Some (Inl err, e)
      | Inr idx \<Rightarrow>
          (case map_of (childScalarValues e) idx of
             Some v \<Rightarrow> at_scalar v g e
           | None \<Rightarrow>
               (case map_of (childCompositeValues e) idx of
                  Some c \<Rightarrow> at_composite idx c g e
                | None \<Rightarrow>
                    (case Find A t [MNumber (of_int idx)] of
                       Some v \<Rightarrow> do {
                         (r, e1) \<leftarrow> EditTree_Delete A (MNumber (of_int idx)) e;
                         case r of
                           Inl err \<Rightarrow> Some (Inl err, e1)
                         | Inr _ \<Rightarrow> do { re \<leftarrow> EditTree_Insert A (MNumber (of_int idx)) v e1; at_inserted idx v g re } }
                     | None \<Rightarrow> Some (Inl NoSuchPath, e)))))"

fun EditTree_Unfold :: "ast_ops \<Rightarrow> mvalue list \<Rightarrow> (EditTree \<Rightarrow> 'r edit_result) \<Rightarrow> EditTree \<Rightarrow> 'r edit_result" where
  "EditTree_Unfold A [] f e = f e"
| "EditTree_Unfold A (k # path) f e = (case etvalue e of
     None \<Rightarrow> Some (Inl DeletedNode, e)
   | Some (MObject x) \<Rightarrow> unfold_object A k (EditTree_Unfold A path f) (MObject x) e
   | Some (MSet _) \<Rightarrow> unfold_set A k (EditTree_Unfold A path f) e
   | Some (MArray xs) \<Rightarrow> unfold_array A k (EditTree_Unfold A path f) (MArray xs) e
   | Some _ \<Rightarrow> Some (Inl NotComposite, e))"

fun replace_root :: "mvalue \<Rightarrow> EditTree \<Rightarrow> EditTree" where
  "replace_root v (EditTree _ _ _ _ el ins) = (case v of
     MArray xs \<Rightarrow> EditTree (Some v) [] [] [] (zeroes (length xs)) (zeroes (length xs))
   | _ \<Rightarrow> EditTree (Some v) [] [] [] el ins)"

definition EditTree_InsertAtPath :: "ast_ops \<Rightarrow> mvalue list \<Rightarrow> mvalue \<Rightarrow> EditTree \<Rightarrow> EditTree edit_result" where
  "EditTree_InsertAtPath A path v e =
     (if path = [] then Some (Inr (replace_root v e), replace_root v e)
      else EditTree_Unfold A (butlast path) (EditTree_Insert A (last path) v) e)"

definition EditTree_DeleteAtPath :: "ast_ops \<Rightarrow> mvalue list \<Rightarrow> EditTree \<Rightarrow> EditTree edit_result" where
  "EditTree_DeleteAtPath A path e =
     (if path = [] then
        (if etvalue e = None then Some (Inl DeletedNode, e)
         else let e1 = EditTree None [] [] [] nil_bits nil_bits in Some (Inr e1, e1))
      else EditTree_Unfold A (butlast path) (EditTree_Delete A (last path)) e)"

definition EditTree_RenderAtPath :: "ast_ops \<Rightarrow> mvalue list \<Rightarrow> EditTree \<Rightarrow> mvalue option edit_result" where
  "EditTree_RenderAtPath A path e = EditTree_Unfold A path (\<lambda>dest. map_option (\<lambda>t. (Inr t, dest)) (EditTree_Render dest)) e"

definition exists_set_fallback :: "ast_ops \<Rightarrow> mvalue list \<Rightarrow> EditTree \<Rightarrow> (bool \<times> EditTree) option" where
  "exists_set_fallback A path e = do { t \<leftarrow> etvalue e; Some (Find A t path \<noteq> None, e) }"

fun EditTree_Exists :: "ast_ops \<Rightarrow> mvalue list \<Rightarrow> EditTree \<Rightarrow> (bool \<times> EditTree) option" where
  "EditTree_Exists A [] e = Some (etvalue e \<noteq> None, e)"
| "EditTree_Exists A (k # path) e = (case etvalue e of
     None \<Rightarrow> Some (False, e)
   | Some (MObject x) \<Rightarrow>
       (let (keyHash, found) = EditTree_getKeyHash A k e
        in if found then
             (case map_of (childScalarValues e) keyHash of
                Some None \<Rightarrow> Some (False, e)
              | Some (Some _) \<Rightarrow> Some (path = [], e)
              | None \<Rightarrow>
                  (case map_of (childCompositeValues e) keyHash of
                     Some None \<Rightarrow> Some (False, e)
                   | Some (Some c) \<Rightarrow>
                       do { (b, c') \<leftarrow> EditTree_Exists A path c; Some (b, EditTree_setChildCompositeValue keyHash (Some c') e) }
                   | None \<Rightarrow> None))
           else Some (Find A (MObject x) (k # path) \<noteq> None, e))
   | Some (MSet _) \<Rightarrow>
       if isComposite k then do { e1 \<leftarrow> collapse e; exists_set_fallback A (k # path) e1 }
       else (let (keyHash, found) = EditTree_getKeyHash A k e
         in if found \<and> map_of (childScalarValues e) keyHash \<noteq> None then Some (path = [], e)
            else exists_set_fallback A (k # path) e)
   | Some (MArray xs) \<Rightarrow>
       (case toIndex A (BitVector_Length (insertions e)) k of
          Inl _ \<Rightarrow> Some (False, e)
        | Inr idx \<Rightarrow>
            (case map_of (childScalarValues e) idx of
               Some _ \<Rightarrow> Some (path = [], e)
             | None \<Rightarrow>
                 (case map_of (childCompositeValues e) idx of
                    Some (Some c) \<Rightarrow>
                      do { (b, c') \<leftarrow> EditTree_Exists A path c; Some (b, EditTree_setChildCompositeValue idx (Some c') e) }
                  | Some None \<Rightarrow> None
                  | None \<Rightarrow> Some (Find A (MArray xs) (MNumber (of_int idx) # path) \<noteq> None, e))))
   | Some _ \<Rightarrow> Some (False, e))"

end
