(* ===== verification/Edit_Tree_Correct.thy ===== *)
theory Edit_Tree_Correct
  imports Edit_Tree
begin

text \<open>
  What the edit tree stands for: a tree over an array renders to the surviving elements of the array woven with the
  inserted children, and insertion and deletion at an index are insertion and deletion in that list, as long as no
  rewritten scalar lands on a composite that has not been moved yet.
\<close>

named_theorems tree_simps

section \<open>Fields\<close>

lemma setChildScalarValue_fields [tree_simps]:
  "etvalue (EditTree_setChildScalarValue h t e) = etvalue e"
  "childKeys (EditTree_setChildScalarValue h t e) = childKeys e"
  "map_of (childScalarValues (EditTree_setChildScalarValue h t e)) = (map_of (childScalarValues e))(h \<mapsto> t)"
  "childCompositeValues (EditTree_setChildScalarValue h t e) = childCompositeValues e"
  "eliminated (EditTree_setChildScalarValue h t e) = eliminated e"
  "insertions (EditTree_setChildScalarValue h t e) = insertions e"
  by (cases e; simp add: AList.update_conv')+

lemma setChildCompositeValue_fields [tree_simps]:
  "etvalue (EditTree_setChildCompositeValue h c e) = etvalue e"
  "childKeys (EditTree_setChildCompositeValue h c e) = childKeys e"
  "childScalarValues (EditTree_setChildCompositeValue h c e) = childScalarValues e"
  "map_of (childCompositeValues (EditTree_setChildCompositeValue h c e)) = (map_of (childCompositeValues e))(h \<mapsto> c)"
  "eliminated (EditTree_setChildCompositeValue h c e) = eliminated e"
  "insertions (EditTree_setChildCompositeValue h c e) = insertions e"
  by (cases e; simp add: AList.update_conv')+

lemma deleteChildValue_fields [tree_simps]:
  "etvalue (EditTree_deleteChildValue h e) = etvalue e"
  "childKeys (EditTree_deleteChildValue h e) = childKeys e"
  "map_of (childScalarValues (EditTree_deleteChildValue h e)) = (map_of (childScalarValues e))(h := None)"
  "map_of (childCompositeValues (EditTree_deleteChildValue h e)) = (map_of (childCompositeValues e))(h := None)"
  "eliminated (EditTree_deleteChildValue h e) = eliminated e"
  "insertions (EditTree_deleteChildValue h e) = insertions e"
  by (cases e; simp add: AList.delete_conv')+

lemma setChildKey_fields [tree_simps]:
  "etvalue (EditTree_setChildKey h k e) = etvalue e"
  "map_of (childKeys (EditTree_setChildKey h k e)) = (map_of (childKeys e))(h \<mapsto> k)"
  "childScalarValues (EditTree_setChildKey h k e) = childScalarValues e"
  "childCompositeValues (EditTree_setChildKey h k e) = childCompositeValues e"
  "eliminated (EditTree_setChildKey h k e) = eliminated e"
  "insertions (EditTree_setChildKey h k e) = insertions e"
  by (cases e; simp add: AList.update_conv')+

lemma set_bits_fields [tree_simps]:
  "etvalue (setInsertions b e) = etvalue e" "etvalue (setEliminated b e) = etvalue e"
  "childKeys (setInsertions b e) = childKeys e" "childKeys (setEliminated b e) = childKeys e"
  "childScalarValues (setInsertions b e) = childScalarValues e"
  "childScalarValues (setEliminated b e) = childScalarValues e"
  "childCompositeValues (setInsertions b e) = childCompositeValues e"
  "childCompositeValues (setEliminated b e) = childCompositeValues e"
  "eliminated (setInsertions b e) = eliminated e" "eliminated (setEliminated b e) = b"
  "insertions (setInsertions b e) = b" "insertions (setEliminated b e) = insertions e"
  by (cases e; simp)+

lemma rewrite_fields [tree_simps]:
  "etvalue (rewrite_scalar d i e) = etvalue e" "etvalue (rewrite_composite d i e) = etvalue e"
  "eliminated (rewrite_scalar d i e) = eliminated e" "eliminated (rewrite_composite d i e) = eliminated e"
  "insertions (rewrite_scalar d i e) = insertions e" "insertions (rewrite_composite d i e) = insertions e"
  by (simp_all add: rewrite_scalar_def rewrite_composite_def tree_simps)

lemma rewrites_fields [tree_simps]:
  "etvalue (fold (rewrite_scalar d) is e) = etvalue e" "etvalue (fold (rewrite_composite d) is e) = etvalue e"
  "eliminated (fold (rewrite_scalar d) is e) = eliminated e" "eliminated (fold (rewrite_composite d) is e) = eliminated e"
  "insertions (fold (rewrite_scalar d) is e) = insertions e" "insertions (fold (rewrite_composite d) is e) = insertions e"
  by (induction "is" arbitrary: e) (simp_all add: tree_simps)

section \<open>Rewriting the indexes of the children\<close>

abbreviation scalars :: "EditTree \<Rightarrow> int \<rightharpoonup> mvalue option" where
  "scalars e \<equiv> map_of (childScalarValues e)"

abbreviation composites :: "EditTree \<Rightarrow> int \<rightharpoonup> EditTree option" where
  "composites e \<equiv> map_of (childCompositeValues e)"

text \<open>The rewrites go from the far end in the direction of the move.\<close>

definition far_first :: "int \<Rightarrow> int list \<Rightarrow> bool" where
  "far_first d = sorted_wrt (\<lambda>a b. 0 < d * (a - b))"

lemma far_first_snoc:
  assumes "far_first d (is @ [r])" "d = 1 \<or> d = - 1"
  shows "far_first d is" "r \<notin> set is" "r - d \<notin> set is"
  using assms by (auto simp: far_first_def sorted_wrt_append)

lemma rewrite_scalars:
  assumes "far_first d is" "d = 1 \<or> d = - 1"
  shows "scalars (fold (rewrite_scalar d) is e) =
      (\<lambda>j. if j - d \<in> set is then Some (nil_or (scalars e (j - d))) else if j \<in> set is then None else scalars e j)
    \<and> composites (fold (rewrite_scalar d) is e) = (\<lambda>j. if j \<in> set is then None else composites e j)"
  using assms(1)
proof (induction "is" rule: rev_induct)
  case (snoc r "is")
  note far = far_first_snoc [OF snoc.prems assms(2)]
  show ?case using snoc.IH [OF far(1)] far(2,3)
    by (auto simp: rewrite_scalar_def Let_def tree_simps fun_eq_iff)
qed simp

lemma rewrite_composites:
  assumes "far_first d is" "d = 1 \<or> d = - 1"
  shows "composites (fold (rewrite_composite d) is e) =
      (\<lambda>j. if j - d \<in> set is then Some (nil_or (composites e (j - d))) else if j \<in> set is then None else composites e j)
    \<and> scalars (fold (rewrite_composite d) is e) = (\<lambda>j. if j \<in> set is then None else scalars e j)"
  using assms(1)
proof (induction "is" rule: rev_induct)
  case (snoc r "is")
  note far = far_first_snoc [OF snoc.prems assms(2)]
  show ?case using snoc.IH [OF far(1)] far(2,3)
    by (auto simp: rewrite_composite_def Let_def tree_simps fun_eq_iff)
qed simp

text \<open>The children of a node over an array.\<close>

definition child_value :: "EditTree \<Rightarrow> int \<Rightarrow> mvalue option" where
  "child_value e i = (case scalars e i of
     Some t \<Rightarrow> t
   | None \<Rightarrow> (case composites e i of Some (Some c) \<Rightarrow> nil_or (EditTree_Render c) | _ \<Rightarrow> None))"

definition has_child :: "EditTree \<Rightarrow> int \<Rightarrow> bool" where
  "has_child e i \<longleftrightarrow> scalars e i \<noteq> None \<or> composites e i \<noteq> None"

definition has_bit :: "bool list \<Rightarrow> int \<Rightarrow> bool" where
  "has_bit bs i \<longleftrightarrow> 0 \<le> i \<and> i < int (length bs) \<and> bs ! nat i"

definition kids_ok :: "EditTree \<Rightarrow> bool" where
  "kids_ok e \<longleftrightarrow>
     (\<forall>i. scalars e i = None \<or> composites e i = None)
   \<and> (\<forall>i. scalars e i \<noteq> Some None)
   \<and> (\<forall>i c. composites e i = Some c \<longrightarrow> c \<noteq> None \<and> nil_or (EditTree_Render (the c)) \<noteq> None)"

definition children_ok :: "EditTree \<Rightarrow> bool" where
  "children_ok e \<longleftrightarrow> has_child e = has_bit (bits (insertions e)) \<and> kids_ok e"

lemma children_at:
  assumes "children_ok e"
  shows "(scalars e i \<noteq> None \<or> composites e i \<noteq> None) \<longleftrightarrow>
    0 \<le> i \<and> i < int (length (bits (insertions e))) \<and> bits (insertions e) ! nat i"
proof -
  have "has_child e i = has_bit (bits (insertions e)) i" using assms by (simp add: children_ok_def)
  then show ?thesis by (simp only: has_child_def has_bit_def)
qed

text \<open>No scalar is rewritten to the index of a composite that is rewritten after it.\<close>

definition no_clash :: "int \<Rightarrow> int \<Rightarrow> EditTree \<Rightarrow> bool" where
  "no_clash d lo e \<longleftrightarrow> (\<forall>i. lo \<le> i \<and> lo \<le> i + d \<longrightarrow> \<not> (scalars e i \<noteq> None \<and> composites e (i + d) \<noteq> None))"

definition moved :: "int \<Rightarrow> int \<Rightarrow> (int \<rightharpoonup> 'v) \<Rightarrow> int \<rightharpoonup> 'v" where
  "moved d lo m = (\<lambda>j. if lo \<le> j - d \<and> m (j - d) \<noteq> None then m (j - d) else if lo \<le> j then None else m j)"

lemma rewrites_move:
  assumes "d = 1 \<or> d = - 1" "far_first d rs" "far_first d rc"
    and rs: "set rs = {i. lo \<le> i \<and> scalars e i \<noteq> None}"
    and rc: "set rc = {i. lo \<le> i \<and> composites e i \<noteq> None}"
    and disj: "\<forall>i. scalars e i = None \<or> composites e i = None"
    and clash: "no_clash d lo e"
  shows "scalars (fold (rewrite_composite d) rc (fold (rewrite_scalar d) rs e)) = moved d lo (scalars e)"
    and "composites (fold (rewrite_composite d) rc (fold (rewrite_scalar d) rs e)) = moved d lo (composites e)"
proof -
  let ?e1 = "fold (rewrite_scalar d) rs e"
  note s = rewrite_scalars [OF assms(2,1), of e] and c = rewrite_composites [OF assms(3,1), of ?e1]
  have nil: "\<And>m i. m i \<noteq> None \<Longrightarrow> Some (nil_or (m i)) = m i" by (auto simp: nil_or_def)
  have lands: "scalars e (j - d) = None" if "j \<in> set rc" "lo \<le> j - d" for j
    using clash that unfolding no_clash_def rc by (elim allE [of _ "j - d"]) simp
  show "scalars (fold (rewrite_composite d) rc ?e1) = moved d lo (scalars e)"
  proof
    fix j
    show "scalars (fold (rewrite_composite d) rc ?e1) j = moved d lo (scalars e) j"
      using c s lands [of j] disj nil [of "scalars e"] unfolding moved_def by (auto simp: rs rc)
  qed
  have kept: "composites ?e1 = composites e"
  proof
    fix x show "composites ?e1 x = composites e x"
      using s disj [rule_format, of x] by (cases "x \<in> set rs") (auto simp: rs)
  qed
  show "composites (fold (rewrite_composite d) rc ?e1) = moved d lo (composites e)"
    using c nil [of "composites e"] unfolding kept moved_def by (auto simp: rc fun_eq_iff)
qed

section \<open>Rendering an array\<close>

fun survivors :: "'a list \<Rightarrow> bool list \<Rightarrow> 'a list" where
  "survivors (x # xs) (b # bs) = (if b then survivors xs bs else x # survivors xs bs)"
| "survivors _ _ = []"

text \<open>\<open>None\<close> stands for the next surviving element.\<close>

fun weave :: "mvalue option list \<Rightarrow> mvalue list \<Rightarrow> mvalue list" where
  "weave [] ys = []"
| "weave (Some t # os) ys = t # weave os ys"
| "weave (None # os) ys = hd ys # weave os (tl ys)"

definition slots :: "EditTree \<Rightarrow> mvalue option list" where
  "slots e = map (\<lambda>i. if bits (insertions e) ! i then child_value e (int i) else None)
     [0..<length (bits (insertions e))]"

definition array_ok :: "mvalue list \<Rightarrow> EditTree \<Rightarrow> bool" where
  "array_ok xs e \<longleftrightarrow> etvalue e = Some (MArray xs) \<and> bv_inv (eliminated e) \<and> bv_inv (insertions e) \<and>
     length (bits (eliminated e)) = length xs \<and>
     length (filter Not (bits (insertions e))) = length (survivors xs (bits (eliminated e))) \<and> children_ok e"

definition array_of :: "mvalue list \<Rightarrow> EditTree \<Rightarrow> mvalue list" where
  "array_of xs e = weave (slots e) (survivors xs (bits (eliminated e)))"

lemma Element_bit: "bv_inv v \<Longrightarrow> i < length (bits v) \<Longrightarrow> BitVector_Element v (int i) = Some (of_bool (bits v ! i))"
  using bv.element_abs [of v "int i"] bv.len_abs [of v] by simp

lemma Length_bits: "bv_inv v \<Longrightarrow> BitVector_Length v = int (length (bits v))"
  by (rule bv.len_abs)

lemma survivors_Cons_drop:
  "j < length xs \<Longrightarrow> length bs = length xs \<Longrightarrow>
   survivors (drop j xs) (drop j bs) =
     (if bs ! j then survivors (drop (Suc j) xs) (drop (Suc j) bs)
      else xs ! j # survivors (drop (Suc j) xs) (drop (Suc j) bs))"
  by (simp add: Cons_nth_drop_Suc [symmetric])

lemma next_zero_survivor:
  assumes "bv_inv el" "length (bits el) = length xs" "survivors (drop j xs) (drop j (bits el)) = y # ys"
  shows "\<exists>j'. next_zero (length xs - j) j el = Some (Some j') \<and> j' < length xs \<and> xs ! j' = y \<and>
    survivors (drop (Suc j') xs) (drop (Suc j') (bits el)) = ys"
  using assms(3)
proof (induction "length xs - j" arbitrary: j)
  case 0 then show ?case by simp
next
  case (Suc n)
  then have j: "j < length xs" "length xs - j = Suc n" "n = length xs - Suc j" by simp_all
  have el: "BitVector_Element el (int j) = Some (of_bool (bits el ! j))"
    using Element_bit assms(1,2) j(1) by simp
  show ?case
    using Suc.prems Suc.hyps(1) [OF j(3)] el j survivors_Cons_drop [OF j(1) assms(2)]
    by (cases "bits el ! j") auto
qed

lemma length_slots [simp]: "length (slots e) = length (bits (insertions e))"
  by (simp add: slots_def)

lemma nth_slots: "i < length (bits (insertions e)) \<Longrightarrow> slots e ! i = (if bits (insertions e) ! i then child_value e (int i) else None)"
  by (simp add: slots_def)

lemma drop_slots:
  "i < length (bits (insertions e)) \<Longrightarrow>
   drop i (slots e) = (if bits (insertions e) ! i then child_value e (int i) else None) # drop (Suc i) (slots e)"
  by (simp add: Cons_nth_drop_Suc [symmetric] slots_def)

lemma child_value_Some:
  assumes "children_ok e" "i < length (bits (insertions e))" "bits (insertions e) ! i"
  shows "\<exists>t. child_value e (int i) = Some t"
proof -
  have "scalars e (int i) \<noteq> None \<or> composites e (int i) \<noteq> None"
    using children_at [OF assms(1), of "int i"] assms(2,3) by simp
  then show ?thesis
  proof
    assume "scalars e (int i) \<noteq> None"
    moreover have "scalars e (int i) \<noteq> Some None" using assms(1) by (simp add: children_ok_def kids_ok_def)
    ultimately show ?thesis by (auto simp: child_value_def)
  next
    assume c: "composites e (int i) \<noteq> None"
    then obtain c where c: "composites e (int i) = Some (Some c)" "nil_or (EditTree_Render c) \<noteq> None"
      using assms(1) unfolding children_ok_def kids_ok_def by (metis option.exhaust option.sel)
    moreover have "scalars e (int i) = None" using assms(1) c(1) unfolding children_ok_def kids_ok_def by (metis option.distinct(1))
    ultimately show ?thesis by (auto simp: child_value_def)
  qed
qed

lemma slot_bit:
  assumes "children_ok e"
  shows "map (\<lambda>s. s \<noteq> None) (slots e) = bits (insertions e)"
proof (rule nth_equalityI)
  fix i assume "i < length (map (\<lambda>s. s \<noteq> None) (slots e))"
  then show "map (\<lambda>s. s \<noteq> None) (slots e) ! i = bits (insertions e) ! i"
    using child_value_Some [OF assms, of i] by (auto simp: slots_def)
qed simp

lemma map_of_map_prod: "map_of (map (map_prod id f) xs) i = map_option f (map_of xs i)"
  by (induction xs) auto

lemma rendered_child:
  "(case scalars e i of Some t \<Rightarrow> t
    | None \<Rightarrow> (case map_of (map (map_prod id (map_option EditTree_Render)) (childCompositeValues e)) i of
        Some (Some r) \<Rightarrow> (case r of Some t \<Rightarrow> t | None \<Rightarrow> None) | _ \<Rightarrow> None)) = child_value e i"
  by (auto simp: child_value_def map_of_map_prod nil_or_def split: option.splits)

lemma render_array_weave:
  assumes "bv_inv (insertions e)" "bv_inv (eliminated e)" "length (bits (eliminated e)) = length xs" "children_ok e"
    and "length (filter (\<lambda>s. s = None) (drop i (slots e))) = length (survivors (drop j xs) (drop j (bits (eliminated e))))"
  shows "render_array xs (childScalarValues e) (map (map_prod id (map_option EditTree_Render)) (childCompositeValues e))
      (eliminated e) (insertions e) j [i..<length (bits (insertions e))]
    = Some (weave (drop i (slots e)) (survivors (drop j xs) (drop j (bits (eliminated e)))))"
  using assms(5)
proof (induction "length (bits (insertions e)) - i" arbitrary: i j)
  case 0 then show ?case by simp
next
  case (Suc n)
  let ?S = "\<lambda>j. survivors (drop j xs) (drop j (bits (eliminated e)))"
  have i: "i < length (bits (insertions e))" "n = length (bits (insertions e)) - Suc i" using Suc.hyps(2) by simp_all
  have el: "BitVector_Element (insertions e) (int i) = Some (of_bool (bits (insertions e) ! i))"
    by (rule Element_bit [OF assms(1) i(1)])
  have len: "nat (BitVector_Length (eliminated e)) = length xs" using Length_bits [OF assms(2)] assms(3) by simp
  show ?case
  proof (cases "bits (insertions e) ! i")
    case True
    then obtain t where t: "child_value e (int i) = Some t" using child_value_Some [OF assms(4) i(1)] by blast
    have cnt: "length (filter (\<lambda>s. s = None) (drop (Suc i) (slots e))) = length (?S j)"
      using Suc.prems t True by (simp add: drop_slots [OF i(1)])
    show ?thesis using Suc.hyps(1) [OF i(2) cnt] el t True i(1)
      by (simp add: upt_conv_Cons rendered_child drop_slots [OF i(1)])
  next
    case False
    then obtain y ys where y: "?S j = y # ys" using Suc.prems by (cases "?S j") (simp_all add: drop_slots [OF i(1)])
    obtain j' where j': "next_zero (length xs - j) j (eliminated e) = Some (Some j')" "j' < length xs" "xs ! j' = y" "?S (Suc j') = ys"
      using next_zero_survivor [OF assms(2,3) y] by blast
    have cnt: "length (filter (\<lambda>s. s = None) (drop (Suc i) (slots e))) = length (?S (Suc j'))"
      using Suc.prems False y j' by (simp add: drop_slots [OF i(1)])
    show ?thesis using Suc.hyps(1) [OF i(2) cnt] el False i(1) y j' len
      by (simp add: upt_conv_Cons drop_slots [OF i(1)])
  qed
qed

lemma filter_None_slots: "children_ok e \<Longrightarrow> length (filter (\<lambda>s. s = None) (slots e)) = length (filter Not (bits (insertions e)))"
  by (subst slot_bit [symmetric]) (simp_all add: filter_map comp_def)

theorem Render_array:
  assumes "array_ok xs e"
  shows "EditTree_Render e = Some (Some (MArray (array_of xs e)))"
proof -
  have "render_array xs (childScalarValues e) (map (map_prod id (map_option EditTree_Render)) (childCompositeValues e))
      (eliminated e) (insertions e) 0 [0..<length (bits (insertions e))] = Some (array_of xs e)"
    using render_array_weave [of e xs 0 0] assms filter_None_slots [of e] by (simp add: array_ok_def array_of_def)
  moreover have "nat (BitVector_Length (insertions e)) = length (bits (insertions e))"
    using Length_bits assms by (simp add: array_ok_def)
  ultimately show ?thesis using assms by (cases e) (simp add: render_node_def array_ok_def)
qed

section \<open>Inserting into an array\<close>

lemma collect_children:
  assumes "bv_inv (insertions e)" "children_ok e" "\<forall>i \<in> set is. 0 \<le> i \<and> i < int (length (bits (insertions e)))"
  shows "collect e is = Some (filter (\<lambda>i. scalars e i \<noteq> None) is, filter (\<lambda>i. composites e i \<noteq> None) is)"
  using assms(3)
proof (induction "is")
  case (Cons i "is")
  have i: "0 \<le> i" "i < int (length (bits (insertions e)))" using Cons.prems by simp_all
  have el: "BitVector_Element (insertions e) i = Some (of_bool (bits (insertions e) ! nat i))"
    using Element_bit [OF assms(1), of "nat i"] i by simp
  have dom: "(scalars e i \<noteq> None \<or> composites e i \<noteq> None) \<longleftrightarrow> bits (insertions e) ! nat i"
    using children_at [OF assms(2), of i] i by simp
  have disj: "scalars e i = None \<or> composites e i = None" using assms(2) by (simp add: children_ok_def kids_ok_def)
  show ?case using Cons el dom disj by auto
qed simp

lemma far_first_indexes:
  "far_first 1 (rev (filter P (map int [m..<n])))" "far_first (- 1) (filter P (map int [m..<n]))"
proof -
  have "sorted_wrt (<) (map int [m..<n])" by (simp add: sorted_wrt_map)
  then have "sorted_wrt (<) (filter P (map int [m..<n]))" by (rule sorted_wrt_filter)
  then show "far_first 1 (rev (filter P (map int [m..<n])))" "far_first (- 1) (filter P (map int [m..<n]))"
    by (simp_all add: far_first_def sorted_wrt_rev)
qed

lemma children_in_range:
  assumes "children_ok e"
  shows "scalars e i \<noteq> None \<Longrightarrow> 0 \<le> i \<and> i < int (length (bits (insertions e)))"
    and "composites e i \<noteq> None \<Longrightarrow> 0 \<le> i \<and> i < int (length (bits (insertions e)))"
  using children_at [OF assms, of i] by blast+

lemma collected_sets:
  assumes "children_ok e"
  shows "set (filter (\<lambda>i. scalars e i \<noteq> None) (map int [lo..<length (bits (insertions e))])) = {i. int lo \<le> i \<and> scalars e i \<noteq> None}"
    and "set (filter (\<lambda>i. composites e i \<noteq> None) (map int [lo..<length (bits (insertions e))])) = {i. int lo \<le> i \<and> composites e i \<noteq> None}"
proof -
  have range: "i \<in> int ` {lo..<length (bits (insertions e))} \<longleftrightarrow> int lo \<le> i \<and> i < int (length (bits (insertions e)))" for i
    by (cases i) auto
  then show "set (filter (\<lambda>i. scalars e i \<noteq> None) (map int [lo..<length (bits (insertions e))])) = {i. int lo \<le> i \<and> scalars e i \<noteq> None}"
    using children_in_range(1) [OF assms] by (simp only: set_filter set_map set_upt) blast
  show "set (filter (\<lambda>i. composites e i \<noteq> None) (map int [lo..<length (bits (insertions e))])) = {i. int lo \<le> i \<and> composites e i \<noteq> None}"
    using children_in_range(2) [OF assms] by (simp only: set_filter set_map set_upt range) blast
qed

lemma weave_insert:
  "i \<le> length os \<Longrightarrow> weave (take i os @ Some v # drop i os) ys = take i (weave os ys) @ v # drop i (weave os ys)"
proof (induction os ys arbitrary: i rule: weave.induct)
  case (2 t os ys) then show ?case by (cases i) simp_all
next
  case (3 os ys) then show ?case by (cases i) simp_all
qed simp

lemma length_weave [simp]: "length (weave os ys) = length os"
  by (induction os ys rule: weave.induct) simp_all

definition fits :: "mvalue \<Rightarrow> bool" where
  "fits t = (case t of MArray ys \<Rightarrow> length ys \<le> 2 ^ 32 | _ \<Rightarrow> True)"

lemma zeroes_bits: "n \<le> 2 ^ 32 \<Longrightarrow> bv_inv (zeroes n) \<and> bits (zeroes n) = replicate n False"
proof -
  assume "n \<le> 2 ^ 32"
  moreover have "int n \<le> 8 * int ((n - 1) div 8 + 1)" by simp
  moreover have "int n \<le> 2 ^ 32" using \<open>n \<le> 2 ^ 32\<close> by (simp add: numeral_power_eq_of_nat_cancel_iff)
  ultimately show ?thesis using new_bits [of "int n" "(n - 1) div 8 + 1"] by (simp add: zeroes_def)
qed

lemma survivors_all [simp]: "survivors xs (replicate (length xs) False) = xs"
  by (induction xs) simp_all

lemma weave_all: "weave (replicate (length xs) None) xs = xs"
  by (induction xs) simp_all

lemma NewEditTree_array:
  assumes "length xs \<le> 2 ^ 32"
  shows "array_ok xs (NewEditTree (MArray xs))" "array_of xs (NewEditTree (MArray xs)) = xs"
proof -
  note z = zeroes_bits [OF assms]
  show "array_ok xs (NewEditTree (MArray xs))"
    using z by (simp add: array_ok_def NewEditTree_def children_ok_def kids_ok_def fun_eq_iff has_child_def has_bit_def)
  have "slots (NewEditTree (MArray xs)) = replicate (length xs) None"
    using z by (intro nth_equalityI) (simp_all add: slots_def NewEditTree_def)
  then show "array_of xs (NewEditTree (MArray xs)) = xs"
    using z weave_all [of xs] by (simp add: array_of_def NewEditTree_def)
qed

lemma Render_NewEditTree:
  assumes "fits t"
  shows "EditTree_Render (NewEditTree t) = Some (Some t)"
proof (cases t)
  case (MArray xs)
  then show ?thesis using Render_array [OF NewEditTree_array(1)] NewEditTree_array(2) assms by (simp add: fits_def)
qed (simp_all add: NewEditTree_def render_node_def)

lemma child_value_moved:
  assumes "scalars e' = moved d lo (scalars e)" "composites e' = moved d lo (composites e)"
    and "d = 1 \<or> d = - 1" "\<And>i. lo + d \<le> i \<Longrightarrow> i < lo \<Longrightarrow> \<not> has_child e i"
  shows "child_value e' j = (if lo \<le> j - d then child_value e (j - d) else if lo \<le> j then None else child_value e j)"
proof (cases "lo \<le> j - d")
  case True
  then have "lo \<le> j \<or> (lo + d \<le> j \<and> j < lo)" by auto
  then have m: "moved d lo (scalars e) j = scalars e (j - d)" "moved d lo (composites e) j = composites e (j - d)"
    using True assms(4) [of j] by (auto simp: moved_def has_child_def)
  show ?thesis using True unfolding child_value_def assms(1,2) m by simp
next
  case False
  show ?thesis using False unfolding child_value_def assms(1,2) moved_def by (simp cong: option.case_cong)
qed

lemma kids_ok_moved:
  assumes "kids_ok e" "scalars e' = moved d lo (scalars e)" "composites e' = moved d lo (composites e)"
    and "d = 1 \<or> d = - 1" "\<And>i. lo + d \<le> i \<Longrightarrow> i < lo \<Longrightarrow> \<not> has_child e i"
  shows "kids_ok e'"
    and "has_child e' j = (if lo \<le> j - d then has_child e (j - d) else j < lo \<and> has_child e j)"
proof -
  have m: "scalars e' j = (if lo \<le> j - d then scalars e (j - d) else if lo \<le> j then None else scalars e j)"
    "composites e' j = (if lo \<le> j - d then composites e (j - d) else if lo \<le> j then None else composites e j)" for j
    using assms(4) assms(5) [of j] unfolding assms(2,3) by (auto simp: moved_def has_child_def)
  show "kids_ok e'" using assms(1) by (auto simp: kids_ok_def m)
  show "has_child e' j = (if lo \<le> j - d then has_child e (j - d) else j < lo \<and> has_child e j)"
    by (simp add: has_child_def m)
qed

lemma kids_ok_at:
  assumes "kids_ok e" "\<not> has_child e i"
  shows "t \<noteq> None \<Longrightarrow> kids_ok (EditTree_setChildScalarValue i t e)"
    and "nil_or (EditTree_Render c) \<noteq> None \<Longrightarrow> kids_ok (EditTree_setChildCompositeValue i (Some c) e)"
  using assms by (auto simp: kids_ok_def has_child_def tree_simps)

lemma has_bit_insert:
  assumes "i \<le> length bs"
  shows "has_bit (take i bs @ True # drop i bs) j =
    (j = int i \<or> (if int i \<le> j - 1 then has_bit bs (j - 1) else j < int i \<and> has_bit bs j))"
proof (cases "0 \<le> j")
  case True
  then obtain n where n: "j = int n" by (metis nonneg_int_cases)
  have k: "nat (1 + int k) = Suc k" for k by simp
  show ?thesis unfolding n using assms
    by (cases n) (auto simp: has_bit_def k nth_append min_def not_less nat_diff_distrib' less_Suc_eq_le nth_Cons')
qed (use assms in \<open>auto simp: has_bit_def\<close>)

lemma children_inserted:
  assumes ok: "children_ok e" and i: "idx \<le> length (bits (insertions e))" and v: "fits v"
    and e2: "scalars e2 = moved 1 (int idx) (scalars e)" "composites e2 = moved 1 (int idx) (composites e)"
    and ins: "bits (insertions e2) = take idx (bits (insertions e)) @ True # drop idx (bits (insertions e))"
  defines "e' \<equiv> (if isComposite v then EditTree_setChildCompositeValue (int idx) (Some (NewEditTree v)) e2
                 else EditTree_setChildScalarValue (int idx) (Some v) e2)"
  shows "children_ok e'" and "slots e' = take idx (slots e) @ Some v # drop idx (slots e)"
proof -
  have kids: "kids_ok e" using ok by (simp add: children_ok_def)
  have m: "kids_ok e2" "\<And>j. has_child e2 j = (if int idx \<le> j - 1 then has_child e (j - 1) else j < int idx \<and> has_child e j)"
    using kids_ok_moved [OF kids e2] by simp_all
  have free: "\<not> has_child e2 (int idx)" by (simp add: m(2))
  have cv: "child_value e2 j = (if int idx \<le> j - 1 then child_value e (j - 1) else if int idx \<le> j then None else child_value e j)" for j
    using child_value_moved [OF e2, of j] by simp
  have r: "EditTree_Render (NewEditTree v) = Some (Some v)" by (rule Render_NewEditTree [OF v])
  have cv': "child_value e' j = (if j = int idx then Some v else child_value e2 j)" for j
    using free r by (auto simp: e'_def child_value_def tree_simps has_child_def nil_or_def cong: option.case_cong)
  have hc: "has_child e' j = (j = int idx \<or> has_child e2 j)" for j
    by (auto simp: e'_def has_child_def tree_simps)
  have ins': "bits (insertions e') = take idx (bits (insertions e)) @ True # drop idx (bits (insertions e))"
    by (simp add: e'_def tree_simps ins)
  have "kids_ok e'" using kids_ok_at [OF m(1) free] r by (simp add: e'_def nil_or_def)
  moreover have "has_child e = has_bit (bits (insertions e))" using ok by (simp add: children_ok_def)
  ultimately show "children_ok e'"
    by (simp add: children_ok_def fun_eq_iff hc m(2) ins' has_bit_insert [OF i])
  show "slots e' = take idx (slots e) @ Some v # drop idx (slots e)"
  proof (rule nth_equalityI)
    fix n assume "n < length (slots e')"
    then have n: "n < Suc (length (bits (insertions e)))" using i by (simp add: ins')
    consider "n < idx" | "n = idx" | k where "n = Suc k" "idx \<le> k" by (metis less_Suc_eq_le not_less_eq less_imp_Suc_add linorder_neqE_nat le_add1 add_Suc_right)
    then show "slots e' ! n = (take idx (slots e) @ Some v # drop idx (slots e)) ! n"
      using n i by cases (simp_all add: nth_slots ins' cv' cv nth_append min_def)
  qed (use i in \<open>simp add: ins'\<close>)
qed

lemma length_filter_insert: "length (filter Not (take i bs @ True # drop i bs)) = length (filter Not bs)"
proof -
  have "filter Not (take i bs) @ filter Not (drop i bs) = filter Not bs" by (metis append_take_drop_id filter_append)
  then have "length (filter Not (take i bs)) + length (filter Not (drop i bs)) = length (filter Not bs)"
    by (metis length_append)
  then show ?thesis by simp
qed

lemma unsafeInsertArray_correct:
  assumes ok: "array_ok xs e" and i: "idx \<le> length (bits (insertions e))" and cap: "length (bits (insertions e)) < 2 ^ 32"
    and clash: "no_clash 1 (int idx) e" and v: "fits v"
  shows "\<exists>e'. EditTree_unsafeInsertArray (int idx) v e = Some e' \<and> array_ok xs e' \<and>
    array_of xs e' = take idx (array_of xs e) @ v # drop idx (array_of xs e)"
proof -
  let ?is = "map int [idx..<length (bits (insertions e))]"
  let ?rs = "filter (\<lambda>i. scalars e i \<noteq> None) ?is" and ?rc = "filter (\<lambda>i. composites e i \<noteq> None) ?is"
  let ?e2 = "fold (rewrite_composite 1) (rev ?rc) (fold (rewrite_scalar 1) (rev ?rs) e)"
  have inv: "bv_inv (insertions e)" "children_ok e" using ok by (simp_all add: array_ok_def)
  have len: "BitVector_Length (insertions e) = int (length (bits (insertions e)))" by (rule Length_bits [OF inv(1)])
  have coll: "collect e ?is = Some (?rs, ?rc)" by (rule collect_children [OF inv]) auto
  have disj: "\<forall>i. scalars e i = None \<or> composites e i = None" using inv(2) by (simp add: children_ok_def kids_ok_def)
  have sets: "set (rev ?rs) = {i. int idx \<le> i \<and> scalars e i \<noteq> None}" "set (rev ?rc) = {i. int idx \<le> i \<and> composites e i \<noteq> None}"
    using collected_sets [OF inv(2), of idx] by (simp_all only: set_rev)
  have e2: "scalars ?e2 = moved 1 (int idx) (scalars e)" "composites ?e2 = moved 1 (int idx) (composites e)"
    by (rule rewrites_move [OF _ far_first_indexes(1) far_first_indexes(1) sets disj clash], simp)+
  obtain ins where ins: "bv_inv ins" "bits ins = take idx (bits (insertions e)) @ True # drop idx (bits (insertions e))"
    "(if int idx = BitVector_Length (insertions e) then BitVector_Append 1 (insertions e)
      else BitVector_Insert 1 (int idx) (insertions e)) = Some ins"
    using bv.append_abs [OF inv(1), of 1] bv.insert_abs [OF inv(1), of "int idx" 1] len i cap by (cases "idx = length (bits (insertions e))") auto
  let ?e3 = "setInsertions ins ?e2"
  define e' where "e' = (if isComposite v then EditTree_setChildCompositeValue (int idx) (Some (NewEditTree v)) ?e3
                 else EditTree_setChildScalarValue (int idx) (Some v) ?e3)"
  have res: "EditTree_unsafeInsertArray (int idx) v e = Some e'"
    using ins(3) by (cases "idx = length (bits (insertions e))")
      (simp_all add: EditTree_unsafeInsertArray_def len coll tree_simps e'_def Let_def del: upt_Suc)
  have c: "children_ok e'" "slots e' = take idx (slots e) @ Some v # drop idx (slots e)"
    using children_inserted [OF inv(2) i v, of ?e3] e2 ins(2) by (simp_all add: tree_simps e'_def)
  have f: "etvalue e' = etvalue e" "eliminated e' = eliminated e" "insertions e' = ins"
    by (simp_all add: e'_def tree_simps)
  have "array_ok xs e'" using ok c(1) ins(1) by (simp add: array_ok_def f ins(2) length_filter_insert del: filter_append)
  moreover have "array_of xs e' = take idx (array_of xs e) @ v # drop idx (array_of xs e)"
    using i by (simp add: array_of_def c(2) f weave_insert)
  ultimately show ?thesis using res by blast
qed

section \<open>Deleting from an array\<close>

abbreviation without :: "nat \<Rightarrow> 'a list \<Rightarrow> 'a list" where
  "without i xs \<equiv> take i xs @ drop (Suc i) xs"

definition zeros_below :: "nat \<Rightarrow> bool list \<Rightarrow> nat" where
  "zeros_below i bs = length (filter Not (take i bs))"

lemma zeros_below_Suc: "i < length bs \<Longrightarrow> zeros_below (Suc i) bs = zeros_below i bs + of_bool (\<not> bs ! i)"
  by (simp add: zeros_below_def take_Suc_conv_app_nth)

lemma sumZeroes:
  assumes "bv_inv v" "i \<le> length (bits v)"
  shows "sumZeroesBelowIndex (int i) v = Some (int (zeros_below i (bits v)))"
proof -
  have "sumZeroes_loop v (map int [j..<i]) (int (zeros_below j (bits v))) = Some (int (zeros_below i (bits v)))" if "j \<le> i" for j
    using that
  proof (induction "i - j" arbitrary: j)
    case (Suc n)
    then have j: "j < i" "j < length (bits v)" "n = i - Suc j" "Suc j \<le> i" using assms(2) by simp_all
    then show ?case using Suc.hyps(1) [OF j(3,4)] Element_bit [OF assms(1) j(2)]
      by (cases "bits v ! j") (simp_all add: upt_conv_Cons zeros_below_Suc add.commute)
  qed simp
  from this [of 0] show ?thesis by (simp add: sumZeroesBelowIndex_def zeros_below_def)
qed

lemma findIndex:
  assumes "bv_inv v" "k < length (filter Not (bits v))"
  shows "\<exists>p < length (bits v). findIndexOfNthZero (1 + int k) v = Some (Some (int p)) \<and> \<not> bits v ! p \<and> zeros_below p (bits v) = k"
proof -
  let ?n = "length (bits v)"
  have "\<exists>p < ?n. findIndexOfNthZero_loop (1 + int k) v (map int [j..<?n]) (int (zeros_below j (bits v))) = Some (Some (int p))
      \<and> \<not> bits v ! p \<and> zeros_below p (bits v) = k" if "j \<le> ?n" "zeros_below j (bits v) \<le> k" for j
    using that
  proof (induction "?n - j" arbitrary: j)
    case 0 then show ?case using assms(2) by (simp add: zeros_below_def)
  next
    case (Suc n)
    then have j: "j < ?n" "n = ?n - Suc j" "Suc j \<le> ?n" by simp_all
    note el = Element_bit [OF assms(1) j(1)] and z = zeros_below_Suc [OF j(1)]
    show ?case
    proof (cases "\<not> bits v ! j \<and> zeros_below j (bits v) = k")
      case True
      then show ?thesis using el j(1) by (simp add: upt_conv_Cons)
    next
      case False
      then have "zeros_below (Suc j) (bits v) \<le> k" using Suc.prems z by auto
      from Suc.hyps(1) [OF j(2,3) this] show ?thesis
        using False el j(1) z Suc.prems by (cases "bits v ! j") (auto simp: upt_conv_Cons add.commute)
    qed
  qed
  from this [of 0] show ?thesis by (simp add: findIndexOfNthZero_def zeros_below_def Length_bits [OF assms(1)])
qed

lemma survivors_length: "length bs = length xs \<Longrightarrow> length (survivors xs bs) = length (filter Not bs)"
  by (induction xs bs rule: survivors.induct) simp_all

lemma survivors_eliminate:
  "p < length xs \<Longrightarrow> length bs = length xs \<Longrightarrow> \<not> bs ! p \<Longrightarrow>
   survivors xs (bs[p := True]) = without (zeros_below p bs) (survivors xs bs) \<and>
   zeros_below p bs < length (survivors xs bs)"
proof (induction xs bs arbitrary: p rule: survivors.induct)
  case (1 x xs b bs)
  then show ?case by (cases p) (auto simp: zeros_below_def)
qed simp_all

lemma weave_delete:
  assumes "i < length os" "length (filter (\<lambda>s. s = None) os) \<le> length ys"
  shows "weave (without i os) (if os ! i = None then without (length (filter (\<lambda>s. s = None) (take i os))) ys else ys)
    = without i (weave os ys)"
  using assms
proof (induction os ys arbitrary: i rule: weave.induct)
  case (2 t os ys)
  show ?case
  proof (cases i)
    case (Suc j)
    then show ?thesis using "2.IH" [of j] "2.prems" by (cases "os ! j") simp_all
  qed simp
next
  case (3 os ys)
  then obtain y ys' where ys: "ys = y # ys'" by (cases ys) simp_all
  show ?case
  proof (cases i)
    case (Suc j)
    then show ?thesis using "3.IH" [of j] "3.prems" ys by (cases "os ! j") simp_all
  qed (simp add: ys)
qed simp

lemma has_bit_delete:
  assumes "i < length bs"
  shows "has_bit (without i bs) j = (if int i \<le> j then has_bit bs (j + 1) else has_bit bs j)"
proof (cases "0 \<le> j")
  case True
  then obtain n where n: "j = int n" by (metis nonneg_int_cases)
  have k: "nat (1 + int k) = Suc k" "nat (int k + 1) = Suc k" for k by simp_all
  show ?thesis unfolding n using assms by (auto simp: has_bit_def k nth_append min_def)
qed (use assms in \<open>auto simp: has_bit_def\<close>)

lemma children_deleted:
  assumes ok: "children_ok e" and i: "idx < length (bits (insertions e))"
    and e': "scalars e' = moved (- 1) (int idx + 1) (scalars (EditTree_deleteChildValue (int idx) e))"
      "composites e' = moved (- 1) (int idx + 1) (composites (EditTree_deleteChildValue (int idx) e))"
    and ins: "bits (insertions e') = without idx (bits (insertions e))"
  shows "children_ok e'" and "slots e' = without idx (slots e)"
proof -
  let ?e1 = "EditTree_deleteChildValue (int idx) e"
  have kids: "kids_ok ?e1" using ok by (auto simp: children_ok_def kids_ok_def tree_simps)
  have gone: "\<not> has_child ?e1 i" if "int idx + 1 + (- 1) \<le> i" "i < int idx + 1" for i
  proof -
    have "i = int idx" using that by simp
    then show ?thesis by (simp add: has_child_def tree_simps)
  qed
  have m: "kids_ok e'" "\<And>j. has_child e' j = (if int idx + 1 \<le> j + 1 then has_child ?e1 (j + 1) else j < int idx + 1 \<and> has_child ?e1 j)"
    using kids_ok_moved [OF kids e' _ gone] by simp_all
  have hc1: "has_child ?e1 j = (j \<noteq> int idx \<and> has_child e j)" for j by (simp add: has_child_def tree_simps)
  have cv: "child_value e' j = (if int idx + 1 \<le> j + 1 then child_value ?e1 (j + 1) else if int idx + 1 \<le> j then None else child_value ?e1 j)" for j
    using child_value_moved [OF e' _ gone, of j] by simp
  have cv1: "j \<noteq> int idx \<Longrightarrow> child_value ?e1 j = child_value e j" for j
    by (simp add: child_value_def tree_simps cong: option.case_cong)
  have "has_child e = has_bit (bits (insertions e))" using ok by (simp add: children_ok_def)
  then have "has_child e' = has_bit (bits (insertions e'))"
    using has_bit_delete [OF i] by (auto simp: fun_eq_iff m(2) hc1 ins)
  then show "children_ok e'" using m(1) by (simp add: children_ok_def)
  show "slots e' = without idx (slots e)"
  proof (rule nth_equalityI)
    fix n assume "n < length (slots e')"
    then have n: "Suc n < length (bits (insertions e))" using i by (simp add: ins)
    then show "slots e' ! n = without idx (slots e) ! n"
      using i by (cases "n < idx") (simp_all add: nth_slots ins cv cv1 nth_append min_def add.commute)
  qed (use i in \<open>simp add: ins\<close>)
qed

lemma zeros_without:
  "i < length bs \<Longrightarrow> length (filter Not (without i bs)) = length (filter Not bs) - of_bool (\<not> bs ! i)"
  by (subst (3) id_take_nth_drop [of i bs]) simp_all

lemma None_slots_below: "children_ok e \<Longrightarrow> length (filter (\<lambda>s. s = None) (take i (slots e))) = zeros_below i (bits (insertions e))"
  unfolding zeros_below_def slot_bit [symmetric] by (simp add: take_map filter_map comp_def)

text \<open>The rewrites of a deletion: the children above move down, the deleted one is gone.\<close>

lemma delete_rewrites:
  assumes inv: "bv_inv (insertions e)" "children_ok e" and clash: "no_clash (- 1) (int idx + 1) e"
  shows "\<exists>rs rc. collect e (map int [idx + 1..<length (bits (insertions e))]) = Some (rs, rc) \<and>
    scalars (fold (rewrite_composite (- 1)) rc (fold (rewrite_scalar (- 1)) rs (EditTree_deleteChildValue (int idx) e)))
      = moved (- 1) (int idx + 1) (scalars (EditTree_deleteChildValue (int idx) e)) \<and>
    composites (fold (rewrite_composite (- 1)) rc (fold (rewrite_scalar (- 1)) rs (EditTree_deleteChildValue (int idx) e)))
      = moved (- 1) (int idx + 1) (composites (EditTree_deleteChildValue (int idx) e))"
proof -
  let ?e1 = "EditTree_deleteChildValue (int idx) e" and ?is = "map int [idx + 1..<length (bits (insertions e))]"
  let ?rs = "filter (\<lambda>i. scalars e i \<noteq> None) ?is" and ?rc = "filter (\<lambda>i. composites e i \<noteq> None) ?is"
  have coll: "collect e ?is = Some (?rs, ?rc)" by (rule collect_children [OF inv]) auto
  have disj: "\<forall>i. scalars ?e1 i = None \<or> composites ?e1 i = None"
    using inv(2) by (auto simp: children_ok_def kids_ok_def tree_simps)
  have sets: "set ?rs = {i. int idx + 1 \<le> i \<and> scalars ?e1 i \<noteq> None}" "set ?rc = {i. int idx + 1 \<le> i \<and> composites ?e1 i \<noteq> None}"
    unfolding collected_sets [OF inv(2)] by (auto simp: tree_simps)
  have clash1: "no_clash (- 1) (int idx + 1) ?e1" using clash by (auto simp: no_clash_def tree_simps)
  have "scalars (fold (rewrite_composite (- 1)) ?rc (fold (rewrite_scalar (- 1)) ?rs ?e1)) = moved (- 1) (int idx + 1) (scalars ?e1)"
    "composites (fold (rewrite_composite (- 1)) ?rc (fold (rewrite_scalar (- 1)) ?rs ?e1)) = moved (- 1) (int idx + 1) (composites ?e1)"
    by (rule rewrites_move [OF _ far_first_indexes(2) far_first_indexes(2) sets disj clash1], simp)+
  then show ?thesis using coll by blast
qed

text \<open>An original element is marked as eliminated.\<close>

lemma eliminate_step:
  assumes ins: "bv_inv (insertions e)" "i < length (bits (insertions e))"
    and el: "bv_inv (eliminated e)" "length (bits (eliminated e)) = length xs"
    and cnt: "length (filter Not (bits (insertions e))) = length (survivors xs (bits (eliminated e)))"
  shows "\<exists>v. (if (of_bool (bits (insertions e) ! i) :: u8) = 0 then do {
        z \<leftarrow> sumZeroesBelowIndex (int i) (insertions e);
        found \<leftarrow> findIndexOfNthZero (1 + z) (eliminated e);
        elimIdx \<leftarrow> found;
        el \<leftarrow> BitVector_Set 1 elimIdx (eliminated e);
        Some (setEliminated el e) } else Some e) = Some (setEliminated v e) \<and> bv_inv v \<and> length (bits v) = length xs \<and>
    survivors xs (bits v) = (if bits (insertions e) ! i then survivors xs (bits (eliminated e))
      else without (zeros_below i (bits (insertions e))) (survivors xs (bits (eliminated e)))) \<and>
    (\<not> bits (insertions e) ! i \<longrightarrow> zeros_below i (bits (insertions e)) < length (survivors xs (bits (eliminated e))))"
proof (cases "bits (insertions e) ! i")
  case True
  then show ?thesis using el by (intro exI [of _ "eliminated e"]) (cases e, simp)
next
  case False
  let ?k = "zeros_below i (bits (insertions e))" and ?S = "survivors xs (bits (eliminated e))"
  have "zeros_below (Suc i) (bits (insertions e)) \<le> length (filter Not (bits (insertions e)))"
    by (metis append_take_drop_id filter_append le_add1 length_append zeros_below_def)
  then have k: "?k < length ?S" using False zeros_below_Suc [OF ins(2)] cnt by simp
  obtain p where p: "p < length xs" "findIndexOfNthZero (1 + int ?k) (eliminated e) = Some (Some (int p))"
    "\<not> bits (eliminated e) ! p" "zeros_below p (bits (eliminated e)) = ?k"
    using findIndex [OF el(1), of ?k] k survivors_length [OF el(2)] el(2) by auto
  obtain v where v: "BitVector_Set 1 (int p) (eliminated e) = Some v" "bv_inv v" "bits v = (bits (eliminated e))[p := True]"
    using bv.set_abs [OF el(1), of "int p" 1] p(1) el(2) Length_bits [OF el(1)] by auto
  have s: "survivors xs (bits v) = without ?k ?S"
    using survivors_eliminate [OF p(1) el(2) p(3)] v(3) p(4) by simp
  show ?thesis using False s v p(2) k sumZeroes [OF ins(1), of i] ins(2) el(2) by (intro exI [of _ v]) simp
qed

lemma deleteArray_correct:
  assumes ok: "array_ok xs e" and i: "idx < length (bits (insertions e))"
    and key: "toIndex A (BitVector_Length (insertions e)) k = Inr (int idx)"
    and clash: "no_clash (- 1) (int idx + 1) e"
  shows "\<exists>e'. deleteArray A k e = Some (Inr e', e') \<and> array_ok xs e' \<and> array_of xs e' = without idx (array_of xs e)"
proof -
  let ?bs = "bits (insertions e)" and ?el = "bits (eliminated e)"
  have inv: "bv_inv (insertions e)" "bv_inv (eliminated e)" "children_ok e" "length ?el = length xs"
    "length (filter Not ?bs) = length (survivors xs ?el)" using ok by (simp_all add: array_ok_def)
  have len: "BitVector_Length (insertions e) = int (length ?bs)" by (rule Length_bits [OF inv(1)])
  obtain rs rc where r: "collect e (map int [idx + 1..<length ?bs]) = Some (rs, rc)"
    and e3: "scalars (fold (rewrite_composite (- 1)) rc (fold (rewrite_scalar (- 1)) rs (EditTree_deleteChildValue (int idx) e)))
      = moved (- 1) (int idx + 1) (scalars (EditTree_deleteChildValue (int idx) e))"
    "composites (fold (rewrite_composite (- 1)) rc (fold (rewrite_scalar (- 1)) rs (EditTree_deleteChildValue (int idx) e)))
      = moved (- 1) (int idx + 1) (composites (EditTree_deleteChildValue (int idx) e))"
    using delete_rewrites [OF inv(1,3) clash] by blast
  define e3 where "e3 = fold (rewrite_composite (- 1)) rc (fold (rewrite_scalar (- 1)) rs (EditTree_deleteChildValue (int idx) e))"
  have f3: "etvalue e3 = etvalue e" "eliminated e3 = eliminated e" "insertions e3 = insertions e"
    by (simp_all add: e3_def tree_simps)
  obtain ins where ins: "BitVector_Delete (int idx) (insertions e) = Some ins" "bv_inv ins" "bits ins = without idx ?bs"
    using bv.delete_abs [OF inv(1), of "int idx"] i len by auto
  obtain el where el: "(if (of_bool (?bs ! idx) :: u8) = 0 then do {
        z \<leftarrow> sumZeroesBelowIndex (int idx) (insertions e3);
        found \<leftarrow> findIndexOfNthZero (1 + z) (eliminated e3);
        elimIdx \<leftarrow> found;
        el \<leftarrow> BitVector_Set 1 elimIdx (eliminated e3);
        Some (setEliminated el e3) } else Some e3) = Some (setEliminated el e3)" "bv_inv el" "length (bits el) = length xs"
    "survivors xs (bits el) = (if ?bs ! idx then survivors xs ?el else without (zeros_below idx ?bs) (survivors xs ?el))"
    "\<not> ?bs ! idx \<Longrightarrow> zeros_below idx ?bs < length (survivors xs ?el)"
    using eliminate_step [of e3 idx xs] inv i unfolding f3 by blast
  define e' where "e' = setInsertions ins (setEliminated el e3)"
  have f: "etvalue e' = etvalue e" "eliminated e' = el" "insertions e' = ins" "scalars e' = scalars e3" "composites e' = composites e3"
    by (simp_all add: e'_def tree_simps f3)
  have "deleteArray A k e = Some (Inr e', e')"
    unfolding deleteArray_def key sum.case using el(1) i r ins(1) Element_bit [OF inv(1) i]
    by (cases "?bs ! idx") (auto simp: len f3 e3_def [symmetric] tree_simps e'_def Let_def bind_eq_Some_conv)
  moreover have c: "children_ok e'" "slots e' = without idx (slots e)"
    using children_deleted [OF inv(3) i, of e'] e3 ins(3) by (simp_all add: f e3_def)
  moreover have "length (filter Not (bits ins)) = length (survivors xs (bits el))"
    unfolding ins(3) zeros_without [OF i] inv(5) el(4) using el(5) by (cases "?bs ! idx") simp_all
  then have "array_ok xs e'" using ok c(1) ins(2) el(2,3) by (simp add: array_ok_def f)
  moreover have "array_of xs e' = without idx (array_of xs e)"
    using weave_delete [of idx "slots e" "survivors xs ?el"] i filter_None_slots [OF inv(3)] inv(5) child_value_Some [OF inv(3) i]
    by (cases "?bs ! idx") (auto simp: array_of_def c(2) f el(4) nth_slots None_slots_below [OF inv(3)])
  ultimately show ?thesis by blast
qed

end
