(* ===== verification/Edit_Tree_Object.thy ===== *)
theory Edit_Tree_Object
  imports Edit_Tree_Correct
begin

text \<open>
  Edit trees over objects and sets.  The keys of the children are in a table with linear probing that never loses a key;
  a node over an object renders to the object with the children put over it, a node over a set to the set with the
  children added and the keys taken out.  Insertion and deletion are insertion and deletion there, and \<open>EditTree_InsertAtPath\<close>
  and \<open>EditTree_DeleteAtPath\<close> below nested objects are the updates at the path.
\<close>

section \<open>The table of keys\<close>

abbreviation tree_keys :: "EditTree \<Rightarrow> int \<rightharpoonup> mvalue" where
  "tree_keys e \<equiv> map_of (childKeys e)"

definition probe_ok :: "ast_ops \<Rightarrow> (int \<rightharpoonup> mvalue) \<Rightarrow> bool" where
  "probe_ok A m \<longleftrightarrow> (\<forall>h h' k. m h = Some k \<and> m h' = Some k \<longrightarrow> h = h') \<and>
     (\<forall>h k. m h = Some k \<longrightarrow> Hash A k \<le> h \<and> (\<forall>g. Hash A k \<le> g \<and> g < h \<longrightarrow> m g \<noteq> None))"

lemma getKeyHash_probe:
  assumes "getKeyHash_loop ks k h0 = (h, b)"
  shows "h0 \<le> h" "\<And>g. h0 \<le> g \<Longrightarrow> g < h \<Longrightarrow> map_of ks g \<noteq> None \<and> map_of ks g \<noteq> Some k"
    and "map_of ks h = (if b then Some k else None)"
proof -
  have "h0 \<le> h \<and> (\<forall>g. h0 \<le> g \<and> g < h \<longrightarrow> map_of ks g \<noteq> None \<and> map_of ks g \<noteq> Some k) \<and>
      map_of ks h = (if b then Some k else None)"
    using assms
  proof (induction ks k h0 rule: getKeyHash_loop.induct)
    case (1 ks k h0)
    show ?case
    proof (cases "map_of ks h0")
      case None
      then show ?thesis using "1.prems" by (auto simp: getKeyHash_loop.simps [of ks k h0])
    next
      case (Some k')
      show ?thesis
      proof (cases "k' = k")
        case True
        then show ?thesis using "1.prems" Some by (auto simp: getKeyHash_loop.simps [of ks k h0])
      next
        case False
        then have "getKeyHash_loop ks k (h0 + 1) = (h, b)" using "1.prems" Some by (simp add: getKeyHash_loop.simps [of ks k h0])
        from "1.IH" [OF Some False this] have IH: "h0 + 1 \<le> h" "map_of ks h = (if b then Some k else None)"
          "\<And>g. h0 + 1 \<le> g \<Longrightarrow> g < h \<Longrightarrow> map_of ks g \<noteq> None \<and> map_of ks g \<noteq> Some k" by blast+
        have "map_of ks g \<noteq> None \<and> map_of ks g \<noteq> Some k" if "h0 \<le> g" "g < h" for g
          using IH(3) [of g] that Some False by (cases "g = h0") simp_all
        then show ?thesis using IH(1,2) by simp
      qed
    qed
  qed
  then show "h0 \<le> h" "\<And>g. h0 \<le> g \<Longrightarrow> g < h \<Longrightarrow> map_of ks g \<noteq> None \<and> map_of ks g \<noteq> Some k"
    "map_of ks h = (if b then Some k else None)" by blast+
qed

lemma getKeyHash_result:
  assumes "EditTree_getKeyHash A k e = (h, b)"
  shows "Hash A k \<le> h" "\<And>g. Hash A k \<le> g \<Longrightarrow> g < h \<Longrightarrow> tree_keys e g \<noteq> None \<and> tree_keys e g \<noteq> Some k"
    and "tree_keys e h = (if b then Some k else None)"
  using getKeyHash_probe [OF assms [unfolded EditTree_getKeyHash_def]] by blast+

lemma getKeyHash_at:
  assumes "probe_ok A (tree_keys e)" "tree_keys e h = Some k"
  shows "EditTree_getKeyHash A k e = (h, True)"
proof -
  obtain h' b where g: "EditTree_getKeyHash A k e = (h', b)" by fastforce
  note r = getKeyHash_result [OF g]
  have p: "Hash A k \<le> h" "\<And>g. Hash A k \<le> g \<Longrightarrow> g < h \<Longrightarrow> tree_keys e g \<noteq> None"
    using assms unfolding probe_ok_def by blast+
  have "h' = h"
  proof (rule antisym)
    show "h' \<le> h" using r(2) [OF p(1)] assms(2) by fastforce
    show "h \<le> h'"
    proof (rule ccontr)
      assume "\<not> h \<le> h'"
      then have "tree_keys e h' \<noteq> None" using p(2) r(1) by simp
      then have "tree_keys e h' = Some k" using r(3) by (simp split: if_splits)
      then have "h' = h" using assms unfolding probe_ok_def by blast
      then show False using \<open>\<not> h \<le> h'\<close> by simp
    qed
  qed
  then show ?thesis using g r(3) assms(2) by (simp split: if_splits)
qed

lemma found_iff:
  assumes "probe_ok A (tree_keys e)"
  shows "EditTree_getKeyHash A k e = (h, True) \<longleftrightarrow> tree_keys e h = Some k"
  using getKeyHash_at [OF assms] getKeyHash_result(3) [of A k e h True] by auto

lemma not_found_iff:
  assumes "probe_ok A (tree_keys e)"
  shows "snd (EditTree_getKeyHash A k e) \<longleftrightarrow> k \<in> ran (tree_keys e)"
proof
  assume "snd (EditTree_getKeyHash A k e)"
  then have "EditTree_getKeyHash A k e = (fst (EditTree_getKeyHash A k e), True)" by (simp add: prod_eq_iff)
  then show "k \<in> ran (tree_keys e)" unfolding found_iff [OF assms] by (rule ranI)
next
  assume "k \<in> ran (tree_keys e)"
  then obtain h where "EditTree_getKeyHash A k e = (h, True)" unfolding ran_def found_iff [OF assms] by blast
  then show "snd (EditTree_getKeyHash A k e)" by simp
qed

lemma probe_ok_update:
  assumes "probe_ok A (tree_keys e)" "EditTree_getKeyHash A k e = (h, b)"
  shows "probe_ok A ((tree_keys e)(h \<mapsto> k))"
proof -
  note r = getKeyHash_result [OF assms(2)]
  have other: "tree_keys e h' \<noteq> Some k" if "h' \<noteq> h" for h'
    using getKeyHash_at [OF assms(1), of h' k] assms(2) that by auto
  have "tree_keys e h = None \<or> tree_keys e h = Some k" using r(3) by simp
  moreover have "g < h \<Longrightarrow> Hash A k \<le> g \<Longrightarrow> tree_keys e g \<noteq> None" for g using r(2) by blast
  ultimately show ?thesis using assms(1) r(1) other unfolding probe_ok_def by (auto split: if_splits)
qed

section \<open>Nodes with keys\<close>

definition keyed_ok :: "ast_ops \<Rightarrow> EditTree \<Rightarrow> bool" where
  "keyed_ok A e \<longleftrightarrow> probe_ok A (tree_keys e) \<and> dom (tree_keys e) = dom (scalars e) \<union> dom (composites e) \<and>
     dom (scalars e) \<inter> dom (composites e) = {} \<and>
     distinct (map fst (childScalarValues e)) \<and> distinct (map fst (childCompositeValues e)) \<and>
     (\<forall>h c. composites e h = Some (Some c) \<longrightarrow> nil_or (EditTree_Render c) \<noteq> None)"

text \<open>The child of a key: none, a deleted one, or one with a value.\<close>

definition child_of :: "EditTree \<Rightarrow> mvalue \<Rightarrow> mvalue option \<Rightarrow> bool" where
  "child_of e k t \<longleftrightarrow> (\<exists>h. tree_keys e h = Some k \<and> t = child_value e h)"

lemma child_entries_correct:
  assumes "\<forall>(h, c) \<in> set cs. map_of ks h \<noteq> None \<and> (c = None \<or> (\<exists>t. c = Some (Some (Some t))))"
  shows "\<exists>skip out. child_entries ks cs = Some (skip, out) \<and> skip = map (\<lambda>(h, _). the (map_of ks h)) cs \<and>
    set out = {(k, t). \<exists>h. (h, Some (Some (Some t))) \<in> set cs \<and> map_of ks h = Some k} \<and>
    fst ` set out \<subseteq> set skip \<and> (distinct skip \<longrightarrow> distinct (map fst out))"
  using assms
proof (induction cs)
  case (Cons hc cs)
  obtain h c where hc: "hc = (h, c)" by fastforce
  obtain k where k: "map_of ks h = Some k" using Cons.prems hc by auto
  obtain skip out where IH: "child_entries ks cs = Some (skip, out)" "skip = map (\<lambda>(h, _). the (map_of ks h)) cs"
    "set out = {(k, t). \<exists>h. (h, Some (Some (Some t))) \<in> set cs \<and> map_of ks h = Some k}"
    "fst ` set out \<subseteq> set skip" "distinct skip \<longrightarrow> distinct (map fst out)"
    using Cons by auto
  have "c = None \<or> (\<exists>t. c = Some (Some (Some t)))" using Cons.prems hc by simp
  then show ?case
  proof
    assume c: "c = None"
    have "set out = {(k, t). \<exists>h. (h, Some (Some (Some t))) \<in> set (hc # cs) \<and> map_of ks h = Some k}"
      unfolding IH(3) hc c by simp
    moreover have "child_entries ks (hc # cs) = Some (k # skip, out)" using IH(1) hc c k by simp
    moreover have "distinct (k # skip) \<longrightarrow> distinct (map fst out)" using IH(5) by simp
    moreover have "fst ` set out \<subseteq> set (k # skip)" using IH(4) by (simp add: subset_insertI2)
    moreover have "k # skip = map (\<lambda>(h, _). the (map_of ks h)) (hc # cs)" using IH(2) hc k by simp
    ultimately show ?thesis by (intro exI [of _ "k # skip"] exI [of _ out]) (intro conjI)
  next
    assume "\<exists>t. c = Some (Some (Some t))"
    then obtain t where t: "c = Some (Some (Some t))" by blast
    have "set ((k, t) # out) = {(k, t). \<exists>h. (h, Some (Some (Some t))) \<in> set (hc # cs) \<and> map_of ks h = Some k}"
      using hc t k by (auto simp: IH(3))
    moreover have "child_entries ks (hc # cs) = Some (k # skip, (k, t) # out)" using IH(1) hc t k by simp
    moreover have "distinct (k # skip) \<longrightarrow> distinct (map fst ((k, t) # out))" using IH(4,5) by auto
    moreover have "fst ` set ((k, t) # out) \<subseteq> set (k # skip)" using IH(4) by auto
    moreover have "k # skip = map (\<lambda>(h, _). the (map_of ks h)) (hc # cs)" using IH(2) hc k by simp
    ultimately show ?thesis by (intro exI [of _ "k # skip"] exI [of _ "(k, t) # out"]) (intro conjI)
  qed
qed simp

lemma ast_object_distinct: "distinct (map fst out) \<Longrightarrow> ast_object out = fset_of_list out"
proof -
  have "fold (\<lambda>(k, v) x. finsert (k, v) (ffilter (\<lambda>(k', _). k' \<noteq> k) x)) out x = fset_of_list out |\<union>| x"
    if "distinct (map fst out)" "\<forall>k v. (k, v) |\<in>| x \<longrightarrow> k \<notin> fst ` set out" for x
    using that
  proof (induction out arbitrary: x)
    case (Cons p out)
    obtain k v where p: "p = (k, v)" by fastforce
    have "ffilter (\<lambda>(k', _). k' \<noteq> k) x = x" using Cons.prems p by (intro fset_eqI) auto
    moreover have "\<forall>k' v'. (k', v') |\<in>| finsert (k, v) x \<longrightarrow> k' \<notin> fst ` set out" using Cons.prems p by auto
    ultimately show ?case using Cons.IH [of "finsert (k, v) x"] Cons.prems p by simp
  qed simp
  then show "distinct (map fst out) \<Longrightarrow> ast_object out = fset_of_list out" by (simp add: ast_object_def)
qed

lemma keyed_hashes:
  assumes "keyed_ok A e"
  shows "distinct (map (\<lambda>h. the (tree_keys e h)) (map fst (childScalarValues e) @ map fst (childCompositeValues e)))"
    and "fst ` set (childScalarValues e) \<union> fst ` set (childCompositeValues e) = dom (tree_keys e)"
proof -
  have d: "dom (tree_keys e) = fst ` set (childScalarValues e) \<union> fst ` set (childCompositeValues e)"
    "fst ` set (childScalarValues e) \<inter> fst ` set (childCompositeValues e) = {}"
    using assms unfolding keyed_ok_def by (simp_all only: dom_map_of_conv_image_fst)
  have "inj_on (\<lambda>h. the (tree_keys e h)) (dom (tree_keys e))"
    using assms unfolding keyed_ok_def probe_ok_def inj_on_def by (metis domD option.sel)
  then have "inj_on (\<lambda>h. the (tree_keys e h)) (set (map fst (childScalarValues e) @ map fst (childCompositeValues e)))"
    unfolding d(1) by simp
  moreover have "distinct (map fst (childScalarValues e) @ map fst (childCompositeValues e))"
    using assms d(2) by (simp add: keyed_ok_def)
  ultimately show "distinct (map (\<lambda>h. the (tree_keys e h)) (map fst (childScalarValues e) @ map fst (childCompositeValues e)))"
    by (simp only: distinct_map)
  show "fst ` set (childScalarValues e) \<union> fst ` set (childCompositeValues e) = dom (tree_keys e)" by (rule d(1) [symmetric])
qed

lemma child_value_cases:
  assumes "keyed_ok A e"
  shows "scalars e h = Some t \<Longrightarrow> child_value e h = t"
    and "composites e h = Some None \<Longrightarrow> child_value e h = None"
    and "composites e h = Some (Some c) \<Longrightarrow> \<exists>t. EditTree_Render c = Some (Some t) \<and> child_value e h = Some t"
proof -
  have disj: "composites e h \<noteq> None \<Longrightarrow> scalars e h = None" using assms by (auto simp: keyed_ok_def)
  show "scalars e h = Some t \<Longrightarrow> child_value e h = t" by (simp add: child_value_def)
  show "composites e h = Some None \<Longrightarrow> child_value e h = None" using disj by (simp add: child_value_def)
  assume c: "composites e h = Some (Some c)"
  then have "nil_or (EditTree_Render c) \<noteq> None" using assms by (simp add: keyed_ok_def)
  then show "\<exists>t. EditTree_Render c = Some (Some t) \<and> child_value e h = Some t"
    using c disj by (auto simp: child_value_def nil_or_def split: option.splits)
qed

lemma keyed_entries:
  assumes ok: "keyed_ok A e"
  shows "\<exists>skip1 out1 skip2 out2.
    child_entries (childKeys e) (map (map_prod id (map_option (Some \<circ> Some))) (childScalarValues e)) = Some (skip1, out1) \<and>
    child_entries (childKeys e) (map (map_prod id (map_option EditTree_Render)) (childCompositeValues e)) = Some (skip2, out2) \<and>
    set (skip1 @ skip2) = ran (tree_keys e) \<and> set (out1 @ out2) = {(k, t). child_of e k (Some t)} \<and>
    distinct (map fst (out1 @ out2))"
proof -
  let ?ss = "map (map_prod id (map_option (Some \<circ> Some))) (childScalarValues e)"
  let ?cs = "map (map_prod id (map_option EditTree_Render)) (childCompositeValues e)"
  have at_s: "(h, t) \<in> set (childScalarValues e) \<longleftrightarrow> scalars e h = Some t" for h t
    using ok by (simp add: keyed_ok_def)
  have at_c: "(h, c) \<in> set (childCompositeValues e) \<longleftrightarrow> composites e h = Some c" for h c
    using ok by (simp add: keyed_ok_def)
  have dom: "tree_keys e h \<noteq> None \<longleftrightarrow> scalars e h \<noteq> None \<or> composites e h \<noteq> None" for h
    using ok unfolding keyed_ok_def by (metis UnE UnI1 UnI2 domIff)
  note cv = child_value_cases [OF ok]
  have s: "\<forall>(h, c) \<in> set ?ss. tree_keys e h \<noteq> None \<and> (c = None \<or> (\<exists>t. c = Some (Some (Some t))))"
    using dom at_s by (auto simp: map_option_case split: option.splits)
  have c: "\<forall>(h, c) \<in> set ?cs. tree_keys e h \<noteq> None \<and> (c = None \<or> (\<exists>t. c = Some (Some (Some t))))"
    using dom at_c cv(3) by (fastforce simp: map_option_case split: option.splits)
  obtain skip1 out1 where 1: "child_entries (childKeys e) ?ss = Some (skip1, out1)" "skip1 = map (\<lambda>(h, _). the (tree_keys e h)) ?ss"
    "set out1 = {(k, t). \<exists>h. (h, Some (Some (Some t))) \<in> set ?ss \<and> tree_keys e h = Some k}"
    "fst ` set out1 \<subseteq> set skip1" "distinct skip1 \<longrightarrow> distinct (map fst out1)"
    using child_entries_correct [OF s] by blast
  obtain skip2 out2 where 2: "child_entries (childKeys e) ?cs = Some (skip2, out2)" "skip2 = map (\<lambda>(h, _). the (tree_keys e h)) ?cs"
    "set out2 = {(k, t). \<exists>h. (h, Some (Some (Some t))) \<in> set ?cs \<and> tree_keys e h = Some k}"
    "fst ` set out2 \<subseteq> set skip2" "distinct skip2 \<longrightarrow> distinct (map fst out2)"
    using child_entries_correct [OF c] by blast
  have skips: "skip1 @ skip2 = map (\<lambda>h. the (tree_keys e h)) (map fst (childScalarValues e) @ map fst (childCompositeValues e))"
    unfolding 1(2) 2(2) by (simp add: split_beta)
  have dist: "distinct (skip1 @ skip2)" unfolding skips by (rule keyed_hashes(1) [OF ok])
  then have "distinct (map fst (out1 @ out2))" using 1(4,5) 2(4,5) by auto
  moreover have "set (skip1 @ skip2) = (\<lambda>h. the (tree_keys e h)) ` dom (tree_keys e)"
    unfolding skips set_map set_append keyed_hashes(2) [OF ok, symmetric] by simp
  then have "set (skip1 @ skip2) = ran (tree_keys e)" by (force simp: ran_def image_def)
  moreover have e1: "(h, Some (Some (Some t))) \<in> set ?ss \<longleftrightarrow> scalars e h = Some (Some t)" for h t
    unfolding at_s [symmetric] by (force simp: image_iff map_option_case split: option.splits)
  have e2: "(h, Some (Some (Some t))) \<in> set ?cs \<longleftrightarrow> (\<exists>c. composites e h = Some (Some c) \<and> EditTree_Render c = Some (Some t))" for h t
    unfolding at_c [symmetric] by (force simp: image_iff map_option_case split: option.splits)
  have "(\<exists>h. ((h, Some (Some (Some t))) \<in> set ?ss \<or> (h, Some (Some (Some t))) \<in> set ?cs) \<and> tree_keys e h = Some k) \<longleftrightarrow> child_of e k (Some t)" for k t
  proof -
    have "child_value e h = Some t \<longleftrightarrow> scalars e h = Some (Some t) \<or> (\<exists>c. composites e h = Some (Some c) \<and> EditTree_Render c = Some (Some t))"
      if "tree_keys e h = Some k" for h
    proof (cases "scalars e h")
      case (Some u)
      then have "composites e h = None" using ok unfolding keyed_ok_def by blast
      then show ?thesis using cv(1) [OF Some] Some by simp
    next
      case None
      have "tree_keys e h \<noteq> None" using that by simp
      then have "composites e h \<noteq> None" unfolding dom using None by simp
      then obtain c where "composites e h = Some c" by blast
      then show ?thesis using cv(2,3) None by (cases c) force+
    qed
    then show ?thesis unfolding e1 e2 child_of_def by metis
  qed
  then have "set (out1 @ out2) = {(k, t). child_of e k (Some t)}"
    unfolding set_append 1(3) 2(3) by (simp add: conj_disj_distribR ex_disj_distrib Un_def split_beta del: set_map) auto
  ultimately show ?thesis using 1(1) 2(1) by blast
qed

section \<open>Objects and sets\<close>

definition functional :: "(mvalue \<times> mvalue) fset \<Rightarrow> bool" where
  "functional x \<longleftrightarrow> (\<forall>k v v'. (k, v) |\<in>| x \<and> (k, v') |\<in>| x \<longrightarrow> v = v')"

definition obj_put :: "mvalue \<Rightarrow> mvalue \<Rightarrow> (mvalue \<times> mvalue) fset \<Rightarrow> (mvalue \<times> mvalue) fset" where
  "obj_put k v x = finsert (k, v) (ffilter (\<lambda>(k', _). k' \<noteq> k) x)"

definition obj_drop :: "mvalue \<Rightarrow> (mvalue \<times> mvalue) fset \<Rightarrow> (mvalue \<times> mvalue) fset" where
  "obj_drop k x = ffilter (\<lambda>(k', _). k' \<noteq> k) x"

definition object_ok :: "ast_ops \<Rightarrow> (mvalue \<times> mvalue) fset \<Rightarrow> EditTree \<Rightarrow> bool" where
  "object_ok A x e \<longleftrightarrow> etvalue e = Some (MObject x) \<and> functional x \<and> keyed_ok A e"

definition set_ok :: "ast_ops \<Rightarrow> mvalue fset \<Rightarrow> EditTree \<Rightarrow> bool" where
  "set_ok A x e \<longleftrightarrow> etvalue e = Some (MSet x) \<and> keyed_ok A e \<and>
     (\<forall>h t. scalars e h = Some (Some t) \<longrightarrow> tree_keys e h = Some t) \<and>
     (\<forall>h k. tree_keys e h = Some k \<longrightarrow> (composites e h \<noteq> None \<longleftrightarrow> isComposite k)) \<and>
     (\<forall>h c t. composites e h = Some (Some c) \<and> EditTree_Render c = Some (Some t) \<longrightarrow> isComposite t)"

text \<open>The object the tree stands for.\<close>

definition object_of :: "(mvalue \<times> mvalue) fset \<Rightarrow> EditTree \<Rightarrow> (mvalue \<times> mvalue) fset \<Rightarrow> bool" where
  "object_of x e y \<longleftrightarrow> (\<forall>k t. (k, t) |\<in>| y \<longleftrightarrow>
     (if k \<in> ran (tree_keys e) then child_of e k (Some t) else (k, t) |\<in>| x))"

lemma no_keys: "keyed_ok A e \<Longrightarrow> childKeys e = [] \<longleftrightarrow> tree_keys e = Map.empty"
  by (cases "childKeys e") (auto simp: fun_eq_iff)

lemma child_of_ran: "child_of e k t \<Longrightarrow> k \<in> ran (tree_keys e)"
  by (auto simp: child_of_def ran_def)

lemma Render_object:
  assumes "object_ok A x e"
  shows "\<exists>y. EditTree_Render e = Some (Some (MObject y)) \<and> object_of x e y"
proof (cases "childKeys e = []")
  case True
  have "EditTree_Render e = Some (Some (MObject x))" using assms True by (cases e) (simp add: object_ok_def render_node_def)
  moreover have "object_of x e x" using True by (simp add: object_of_def)
  ultimately show ?thesis by blast
next
  case False
  have ok: "keyed_ok A e" "etvalue e = Some (MObject x)" using assms by (simp_all add: object_ok_def)
  obtain skip1 out1 skip2 out2 where r:
    "child_entries (childKeys e) (map (map_prod id (map_option (Some \<circ> Some))) (childScalarValues e)) = Some (skip1, out1)"
    "child_entries (childKeys e) (map (map_prod id (map_option EditTree_Render)) (childCompositeValues e)) = Some (skip2, out2)"
    "set (skip1 @ skip2) = ran (tree_keys e)" "set (out1 @ out2) = {(k, t). child_of e k (Some t)}"
    "distinct (map fst (out1 @ out2))"
    using keyed_entries [OF ok(1)] by blast
  let ?y = "ast_object (out1 @ out2) |\<union>| ffilter (\<lambda>(k, _). k \<notin> set (skip1 @ skip2)) x"
  have "EditTree_Render e = Some (Some (MObject ?y))" using ok(2) False r(1,2) by (cases e) (simp add: render_node_def)
  moreover have "object_of x e ?y"
    unfolding object_of_def ast_object_distinct [OF r(5)] r(3) funion_iff fset_of_list_elem r(4)
    using child_of_ran by auto
  ultimately show ?thesis by blast
qed

lemma Render_set:
  assumes "set_ok A x e"
  shows "\<exists>y. EditTree_Render e = Some (Some (MSet y)) \<and>
    (\<forall>t. t |\<in>| y \<longleftrightarrow> (\<exists>k. child_of e k (Some t)) \<or> (t \<notin> ran (tree_keys e) \<and> t |\<in>| x))"
proof (cases "childKeys e = []")
  case True
  have "EditTree_Render e = Some (Some (MSet x))" using assms True by (cases e) (simp add: set_ok_def render_node_def)
  then show ?thesis using True by (simp add: child_of_def)
next
  case False
  have ok: "keyed_ok A e" "etvalue e = Some (MSet x)" using assms by (simp_all add: set_ok_def)
  obtain skip1 out1 skip2 out2 where r:
    "child_entries (childKeys e) (map (map_prod id (map_option (Some \<circ> Some))) (childScalarValues e)) = Some (skip1, out1)"
    "child_entries (childKeys e) (map (map_prod id (map_option EditTree_Render)) (childCompositeValues e)) = Some (skip2, out2)"
    "set (skip1 @ skip2) = ran (tree_keys e)" "set (out1 @ out2) = {(k, t). child_of e k (Some t)}"
    using keyed_entries [OF ok(1)] by blast
  let ?y = "fset_of_list (map snd (out1 @ out2)) |\<union>| ffilter (\<lambda>k. k \<notin> set (skip1 @ skip2)) x"
  have "EditTree_Render e = Some (Some (MSet ?y))" using ok(2) False r(1,2) by (cases e) (simp add: render_node_def)
  moreover have "t |\<in>| ?y \<longleftrightarrow> (\<exists>k. child_of e k (Some t)) \<or> (t \<notin> ran (tree_keys e) \<and> t |\<in>| x)" for t
    unfolding r(3) funion_iff fset_of_list_elem set_map r(4) by force
  ultimately show ?thesis by blast
qed

section \<open>Inserting and deleting a key\<close>

lemma child_lists_distinct:
  "distinct (map fst (childScalarValues e)) \<Longrightarrow> distinct (map fst (childScalarValues (EditTree_setChildScalarValue h t e)))"
  "distinct (map fst (childCompositeValues e)) \<Longrightarrow> distinct (map fst (childCompositeValues (EditTree_setChildScalarValue h t e)))"
  "distinct (map fst (childScalarValues e)) \<Longrightarrow> distinct (map fst (childScalarValues (EditTree_setChildCompositeValue h c e)))"
  "distinct (map fst (childCompositeValues e)) \<Longrightarrow> distinct (map fst (childCompositeValues (EditTree_setChildCompositeValue h c e)))"
  "distinct (map fst (childScalarValues e)) \<Longrightarrow> distinct (map fst (childScalarValues (EditTree_deleteChildValue h e)))"
  "distinct (map fst (childCompositeValues e)) \<Longrightarrow> distinct (map fst (childCompositeValues (EditTree_deleteChildValue h e)))"
  by (cases e; simp add: AList.distinct_update AList.distinct_delete)+

text \<open>\<open>e'\<close> is \<open>e\<close> with the child of a key replaced.\<close>

definition replaced :: "ast_ops \<Rightarrow> mvalue \<Rightarrow> int \<Rightarrow> EditTree \<Rightarrow> EditTree \<Rightarrow> bool" where
  "replaced A k h e e' \<longleftrightarrow> fst (EditTree_getKeyHash A k e) = h \<and> tree_keys e' = (tree_keys e)(h \<mapsto> k) \<and>
     (\<exists>a c. scalars e' = (scalars e)(h := a) \<and> composites e' = (composites e)(h := c) \<and> (a = None) \<noteq> (c = None) \<and>
        (\<forall>d. c = Some (Some d) \<longrightarrow> nil_or (EditTree_Render d) \<noteq> None)) \<and>
     etvalue e' = etvalue e \<and>
     distinct (map fst (childScalarValues e')) \<and> distinct (map fst (childCompositeValues e'))"

lemma replacedI:
  assumes "EditTree_getKeyHash A k e = (h, b)" "tree_keys e' = (tree_keys e)(h \<mapsto> k)"
    "scalars e' = (scalars e)(h := a)" "composites e' = (composites e)(h := c)" "(a = None) \<noteq> (c = None)"
    "\<And>d. c = Some (Some d) \<Longrightarrow> nil_or (EditTree_Render d) \<noteq> None" "etvalue e' = etvalue e"
    "distinct (map fst (childScalarValues e'))" "distinct (map fst (childCompositeValues e'))"
  shows "replaced A k h e e'"
  unfolding replaced_def using assms by (intro conjI exI [of _ a] exI [of _ c]) simp_all

lemma replaced_probe:
  assumes "keyed_ok A e" "replaced A k h e e'"
  shows "probe_ok A (tree_keys e')" "\<And>h'. tree_keys e h' = Some k \<Longrightarrow> h' = h" "tree_keys e h = None \<or> tree_keys e h = Some k"
proof -
  obtain b where g: "EditTree_getKeyHash A k e = (h, b)" using assms(2) prod.collapse [of "EditTree_getKeyHash A k e"] unfolding replaced_def by metis
  have p: "probe_ok A (tree_keys e)" using assms(1) by (simp add: keyed_ok_def)
  show "probe_ok A (tree_keys e')" using probe_ok_update [OF p g] assms(2) by (simp add: replaced_def)
  show "\<And>h'. tree_keys e h' = Some k \<Longrightarrow> h' = h" using getKeyHash_at [OF p] g by fastforce
  show "tree_keys e h = None \<or> tree_keys e h = Some k" using getKeyHash_result(3) [OF g] by simp
qed

lemma replaced_keyed:
  assumes "keyed_ok A e" "replaced A k h e e'"
  shows "keyed_ok A e'"
proof -
  obtain a c where r: "tree_keys e' = (tree_keys e)(h \<mapsto> k)" "scalars e' = (scalars e)(h := a)" "composites e' = (composites e)(h := c)"
    "(a = None) \<noteq> (c = None)" "\<forall>d. c = Some (Some d) \<longrightarrow> nil_or (EditTree_Render d) \<noteq> None"
    "distinct (map fst (childScalarValues e'))" "distinct (map fst (childCompositeValues e'))"
    using assms(2) unfolding replaced_def by blast
  have d: "dom (tree_keys e) = dom (scalars e) \<union> dom (composites e)" "dom (scalars e) \<inter> dom (composites e) = {}"
    "\<forall>h c. composites e h = Some (Some c) \<longrightarrow> nil_or (EditTree_Render c) \<noteq> None" using assms(1) by (simp_all add: keyed_ok_def)
  have "dom (tree_keys e') = dom (scalars e') \<union> dom (composites e')"
    unfolding r(1-3) using r(4) d(1) by (cases a; cases c) auto
  moreover have "dom (scalars e') \<inter> dom (composites e') = {}"
    unfolding r(2,3) using r(4) d(2) by (cases a; cases c) auto
  moreover have "\<forall>h' c'. composites e' h' = Some (Some c') \<longrightarrow> nil_or (EditTree_Render c') \<noteq> None"
    unfolding r(3) using r(5) d(3) by simp
  ultimately show ?thesis using replaced_probe(1) [OF assms] r(6,7) by (simp only: keyed_ok_def simp_thms)
qed

lemma replaced_child:
  assumes "keyed_ok A e" "replaced A k h e e'"
  shows "child_of e' k' t \<longleftrightarrow> (if k' = k then t = child_value e' h else child_of e k' t)"
    and "ran (tree_keys e') = insert k (ran (tree_keys e))"
proof -
  have r: "tree_keys e' = (tree_keys e)(h \<mapsto> k)" using assms(2) by (simp add: replaced_def)
  have cv: "h' \<noteq> h \<Longrightarrow> child_value e' h' = child_value e h'" for h'
    using assms(2) by (auto simp: replaced_def child_value_def cong: option.case_cong)
  note p = replaced_probe [OF assms]
  have keys: "tree_keys e' h' = Some k' \<longleftrightarrow> (if k' = k then h' = h else tree_keys e h' = Some k')" for h' k'
    using p(2) [of h'] p(3) unfolding r by (cases "h' = h") auto
  show "child_of e' k' t \<longleftrightarrow> (if k' = k then t = child_value e' h else child_of e k' t)"
  proof (cases "k' = k")
    case True then show ?thesis by (simp add: child_of_def keys)
  next
    case False
    have "tree_keys e h' = Some k' \<Longrightarrow> child_value e' h' = child_value e h'" for h'
      using cv [of h'] p(3) False by (cases "h' = h") auto
    then show ?thesis using False by (auto simp: child_of_def keys)
  qed
  have "k' \<in> ran (tree_keys e') \<longleftrightarrow> k' = k \<or> k' \<in> ran (tree_keys e)" for k'
  proof (cases "k' = k")
    case True then show ?thesis by (auto simp: ran_def keys)
  next
    case False then show ?thesis by (simp add: ran_def keys)
  qed
  then show "ran (tree_keys e') = insert k (ran (tree_keys e))" by blast
qed

lemma replaced_object:
  assumes "object_ok A x e" "replaced A k h e e'" "object_of x e y"
  shows "object_ok A x e'" and "child_value e' h = Some v \<Longrightarrow> object_of x e' (obj_put k v y)"
    and "child_value e' h = None \<Longrightarrow> object_of x e' (obj_drop k y)"
proof -
  have ok: "keyed_ok A e" using assms(1) by (simp add: object_ok_def)
  show "object_ok A x e'" using replaced_keyed [OF ok assms(2)] assms(1,2) by (simp add: object_ok_def replaced_def)
  note r = replaced_child [OF ok assms(2)]
  show "child_value e' h = Some v \<Longrightarrow> object_of x e' (obj_put k v y)"
    using assms(3) unfolding object_of_def r by (auto simp: obj_put_def)
  show "child_value e' h = None \<Longrightarrow> object_of x e' (obj_drop k y)"
    using assms(3) unfolding object_of_def r by (auto simp: obj_drop_def)
qed

lemma unsafeInsert_replaced:
  assumes "keyed_ok A e" "fits v"
  shows "\<exists>h. replaced A k h e (EditTree_unsafeInsertObject A k v e) \<and> child_value (EditTree_unsafeInsertObject A k v e) h = Some v"
proof -
  obtain h b where g: "EditTree_getKeyHash A k e = (h, b)" by fastforce
  let ?e' = "EditTree_unsafeInsertObject A k v e" and ?e1 = "if b then EditTree_deleteChildValue h e else e"
  have absent: "scalars e h = None \<and> composites e h = None" if "\<not> b"
  proof -
    have "tree_keys e h = None" using getKeyHash_result(3) [OF g] that by simp
    then have "h \<notin> dom (scalars e) \<union> dom (composites e)" using assms(1) unfolding keyed_ok_def by blast
    then show ?thesis by blast
  qed
  have e1: "tree_keys ?e1 = tree_keys e" "scalars ?e1 = (scalars e)(h := None)" "composites ?e1 = (composites e)(h := None)"
    "etvalue ?e1 = etvalue e" "distinct (map fst (childScalarValues ?e1))" "distinct (map fst (childCompositeValues ?e1))"
    using absent assms(1) child_lists_distinct(5,6) [of e h] by (auto simp: tree_simps keyed_ok_def fun_upd_idem)
  have e': "?e' = (if isComposite v then EditTree_setChildCompositeValue h (Some (NewEditTree v)) (EditTree_setChildKey h k ?e1)
      else EditTree_setChildScalarValue h (Some v) (EditTree_setChildKey h k ?e1))"
    by (simp add: EditTree_unsafeInsertObject_def g Let_def)
  have r: "EditTree_Render (NewEditTree v) = Some (Some v)" by (rule Render_NewEditTree [OF assms(2)])
  have f: "tree_keys ?e' = (tree_keys e)(h \<mapsto> k)"
    "scalars ?e' = (scalars e)(h := if isComposite v then None else Some (Some v))"
    "composites ?e' = (composites e)(h := if isComposite v then Some (Some (NewEditTree v)) else None)"
    "etvalue ?e' = etvalue e"
    unfolding e' using e1(1-4) by (simp_all add: tree_simps)
  have "distinct (map fst (childScalarValues ?e'))" "distinct (map fst (childCompositeValues ?e'))"
    unfolding e' using e1(5,6) child_lists_distinct [of "EditTree_setChildKey h k ?e1" h] by (simp_all add: tree_simps)
  then have "replaced A k h e ?e'" by (intro replacedI [OF g f(1-3) _ _ f(4)]) (use r in \<open>auto simp: nil_or_def split: if_splits\<close>)
  moreover have "child_value ?e' h = Some v" using f r by (simp add: child_value_def nil_or_def)
  ultimately show ?thesis by blast
qed

lemma object_of_unique: "object_of x e y \<Longrightarrow> object_of x e y' \<Longrightarrow> y = y'"
proof (rule fset_eqI)
  fix p assume "object_of x e y" "object_of x e y'"
  then show "p |\<in>| y \<longleftrightarrow> p |\<in>| y'" unfolding object_of_def by (cases p) (simp only:)
qed

lemma Render_replaced:
  assumes "object_ok A x e" "EditTree_Render e = Some (Some (MObject y))" "replaced A k h e e'"
  shows "object_ok A x e'" and "child_value e' h = Some v \<Longrightarrow> EditTree_Render e' = Some (Some (MObject (obj_put k v y)))"
    and "child_value e' h = None \<Longrightarrow> EditTree_Render e' = Some (Some (MObject (obj_drop k y)))"
proof -
  have y: "object_of x e y" using Render_object [OF assms(1)] assms(2) by auto
  note o = replaced_object [OF assms(1,3) y]
  obtain y' where y': "EditTree_Render e' = Some (Some (MObject y'))" "object_of x e' y'"
    using Render_object [OF o(1)] by blast
  show "object_ok A x e'" by (rule o(1))
  show "child_value e' h = Some v \<Longrightarrow> EditTree_Render e' = Some (Some (MObject (obj_put k v y)))"
    using object_of_unique [OF y'(2) o(2)] y'(1) by simp
  show "child_value e' h = None \<Longrightarrow> EditTree_Render e' = Some (Some (MObject (obj_drop k y)))"
    using object_of_unique [OF y'(2) o(3)] y'(1) by simp
qed

lemma Insert_object:
  assumes "object_ok A x e" "fits v" "EditTree_Render e = Some (Some (MObject y))"
  shows "\<exists>e'. EditTree_Insert A k v e = Some (Inr (NewEditTree v), e') \<and> object_ok A x e' \<and>
    EditTree_Render e' = Some (Some (MObject (obj_put k v y)))"
proof -
  have ok: "keyed_ok A e" "etvalue e = Some (MObject x)" using assms(1) by (simp_all add: object_ok_def)
  obtain h where r: "replaced A k h e (EditTree_unsafeInsertObject A k v e)" "child_value (EditTree_unsafeInsertObject A k v e) h = Some v"
    using unsafeInsert_replaced [OF ok(1) assms(2)] by blast
  note o = Render_replaced [OF assms(1,3) r(1)]
  show ?thesis using o(1) o(2) [OF r(2)] ok(2) by (simp add: EditTree_Insert_def)
qed

text \<open>What the code relies on of OPA's \<open>Find\<close>.\<close>

definition finds :: "ast_ops \<Rightarrow> bool" where
  "finds A \<longleftrightarrow> (\<forall>x k v. functional x \<longrightarrow> (Find A (MObject x) [k] = Some v \<longleftrightarrow> (k, v) |\<in>| x)) \<and>
     (\<forall>x k v. Find A (MSet x) [k] = Some v \<longleftrightarrow> v = k \<and> k |\<in>| x) \<and>
     (\<forall>xs i v. Find A (MArray xs) [MNumber (of_int i)] = Some v \<longleftrightarrow> 0 \<le> i \<and> i < int (length xs) \<and> v = xs ! nat i)"

lemma set_scalar_replaced:
  assumes "keyed_ok A e" "EditTree_getKeyHash A k e = (h, b)" "composites e h = None"
  shows "replaced A k h e (EditTree_setChildScalarValue h t (EditTree_setChildKey h k e))"
    and "child_value (EditTree_setChildScalarValue h t (EditTree_setChildKey h k e)) h = t"
proof -
  have d: "distinct (map fst (childScalarValues (EditTree_setChildKey h k e)))" "distinct (map fst (childCompositeValues (EditTree_setChildKey h k e)))"
    using assms(1) by (simp_all add: keyed_ok_def tree_simps)
  show "replaced A k h e (EditTree_setChildScalarValue h t (EditTree_setChildKey h k e))"
    by (rule replacedI [OF assms(2), of _ "Some t" None])
      (use assms(3) child_lists_distinct(1) [OF d(1)] child_lists_distinct(2) [OF d(2)] in
        \<open>simp_all add: tree_simps fun_upd_idem\<close>)
  show "child_value (EditTree_setChildScalarValue h t (EditTree_setChildKey h k e)) h = t" by (simp add: child_value_def tree_simps)
qed

lemma set_composite_replaced:
  assumes "keyed_ok A e" "EditTree_getKeyHash A k e = (h, b)" "scalars e h = None" "\<And>d. c = Some d \<Longrightarrow> nil_or (EditTree_Render d) \<noteq> None"
  shows "replaced A k h e (EditTree_setChildCompositeValue h c (EditTree_setChildKey h k e))"
    and "child_value (EditTree_setChildCompositeValue h c (EditTree_setChildKey h k e)) h = (case c of None \<Rightarrow> None | Some d \<Rightarrow> nil_or (EditTree_Render d))"
proof -
  have d: "distinct (map fst (childScalarValues (EditTree_setChildKey h k e)))" "distinct (map fst (childCompositeValues (EditTree_setChildKey h k e)))"
    using assms(1) by (simp_all add: keyed_ok_def tree_simps)
  show "replaced A k h e (EditTree_setChildCompositeValue h c (EditTree_setChildKey h k e))"
    by (rule replacedI [OF assms(2), of _ None "Some c"])
      (use assms(3,4) child_lists_distinct(3) [OF d(1)] child_lists_distinct(4) [OF d(2)] in
        \<open>simp_all add: tree_simps fun_upd_idem\<close>)
  show "child_value (EditTree_setChildCompositeValue h c (EditTree_setChildKey h k e)) h = (case c of None \<Rightarrow> None | Some d \<Rightarrow> nil_or (EditTree_Render d))"
    using assms(3) by (simp add: child_value_def tree_simps split: option.splits)
qed

lemma child_kind:
  assumes "keyed_ok A e" "EditTree_getKeyHash A k e = (h, b)"
  shows "\<not> b \<Longrightarrow> scalars e h = None \<and> composites e h = None \<and> k \<notin> ran (tree_keys e)"
    and "b \<Longrightarrow> (scalars e h \<noteq> None) \<noteq> (composites e h \<noteq> None) \<and> (child_of e k t \<longleftrightarrow> t = child_value e h) \<and> k \<in> ran (tree_keys e)"
proof -
  have p: "probe_ok A (tree_keys e)" using assms(1) by (simp add: keyed_ok_def)
  have k: "tree_keys e h = (if b then Some k else None)" by (rule getKeyHash_result(3) [OF assms(2)])
  have dom: "dom (tree_keys e) = dom (scalars e) \<union> dom (composites e)" "dom (scalars e) \<inter> dom (composites e) = {}"
    using assms(1) unfolding keyed_ok_def by blast+
  have d: "tree_keys e h \<noteq> None \<longleftrightarrow> scalars e h \<noteq> None \<or> composites e h \<noteq> None"
    using arg_cong [OF dom(1), of "\<lambda>S. h \<in> S"] by (simp only: Un_iff domIff)
  have disj: "\<not> (scalars e h \<noteq> None \<and> composites e h \<noteq> None)"
    using arg_cong [OF dom(2), of "\<lambda>S. h \<in> S"] by (simp only: Int_iff domIff empty_iff not_False_eq_True)
  have ran: "b \<longleftrightarrow> k \<in> ran (tree_keys e)" using not_found_iff [OF p, of k] unfolding assms(2) by simp
  show "\<not> b \<Longrightarrow> scalars e h = None \<and> composites e h = None \<and> k \<notin> ran (tree_keys e)"
    using k d ran by simp
  assume b: b
  have kb: "tree_keys e h = Some k" using k b by simp
  have "h' = h" if "tree_keys e h' = Some k" for h' using getKeyHash_at [OF p that] assms(2) by simp
  then have "child_of e k t \<longleftrightarrow> t = child_value e h" using kb unfolding child_of_def by blast
  moreover have "(scalars e h \<noteq> None) \<noteq> (composites e h \<noteq> None)" using kb d disj by (simp only: not_None_eq) blast
  moreover have "k \<in> ran (tree_keys e)" using ran b by simp
  ultimately show "(scalars e h \<noteq> None) \<noteq> (composites e h \<noteq> None) \<and> (child_of e k t \<longleftrightarrow> t = child_value e h) \<and> k \<in> ran (tree_keys e)"
    by (intro conjI)
qed

lemma object_lookup:
  assumes "object_ok A x e" "EditTree_Render e = Some (Some (MObject y))" "EditTree_getKeyHash A k e = (h, b)"
  shows "(k, t) |\<in>| y \<longleftrightarrow> (if b then child_value e h = Some t else (k, t) |\<in>| x)"
proof -
  have y: "object_of x e y" using Render_object [OF assms(1)] assms(2) by auto
  have ok: "keyed_ok A e" using assms(1) by (simp add: object_ok_def)
  show ?thesis using y child_kind [OF ok assms(3)] unfolding object_of_def by auto
qed

definition no_new_child :: "EditTree \<Rightarrow> EditTree \<Rightarrow> bool" where
  "no_new_child e e' \<longleftrightarrow> (\<forall>h t. scalars e' h = Some (Some t) \<longrightarrow> scalars e h = Some (Some t)) \<and>
     (\<forall>h c. composites e' h = Some (Some c) \<longrightarrow> composites e h = Some (Some c))"

lemma Delete_object:
  assumes "finds A" "object_ok A x e" "EditTree_Render e = Some (Some (MObject y))" "(k, v) |\<in>| y"
  shows "\<exists>c e'. EditTree_Delete A k e = Some (Inr c, e') \<and> (fits v \<longrightarrow> EditTree_Render c = Some (Some v)) \<and> object_ok A x e' \<and>
    EditTree_Render e' = Some (Some (MObject (obj_drop k y))) \<and> no_new_child e e'"
proof -
  obtain h b where g: "EditTree_getKeyHash A k e = (h, b)" by fastforce
  have ok: "keyed_ok A e" "etvalue e = Some (MObject x)" "functional x" using assms(2) by (simp_all add: object_ok_def)
  note look = object_lookup [OF assms(2,3) g] and kind = child_kind [OF ok(1) g] and cv = child_value_cases [OF ok(1)]
  note s = set_scalar_replaced [OF ok(1) g, of None] and c = set_composite_replaced [OF ok(1) g, of None]
  note rr = Render_replaced [OF assms(2,3)]
  note new = Render_NewEditTree [of v]
  have kept: "no_new_child e (EditTree_setChildScalarValue h None (EditTree_setChildKey h k e))" "no_new_child e (EditTree_setChildCompositeValue h None (EditTree_setChildKey h k e))"
    by (simp_all add: no_new_child_def tree_simps)
  show ?thesis
  proof (cases b)
    case True
    then have val: "child_value e h = Some v" using look assms(4) by simp
    show ?thesis
    proof (cases "scalars e h")
      case (Some t)
      then have "t = Some v" "composites e h = None" using val cv(1) kind(2) [OF True] by auto
      then show ?thesis using rr(1) [OF s(1)] rr(3) [OF s] g True Some new kept ok(2)
        by (auto simp: EditTree_Delete_def deleteObject_def)
    next
      case None
      then obtain c where "composites e h = Some c" using kind(2) [OF True] by auto
      then obtain d where "composites e h = Some (Some d)" "EditTree_Render d = Some (Some v)" using val cv(2,3) by (cases c) force+
      then show ?thesis using rr(1) [OF c(1)] rr(3) [OF c(1)] c(2) g True None kept ok(2)
        by (auto simp: EditTree_Delete_def deleteObject_def)
    qed
  next
    case False
    then have "Find A (MObject x) [k] = Some v" using look [of v] assms(1,4) ok(3) by (simp add: finds_def)
    then show ?thesis using rr(1) [OF s(1)] rr(3) [OF s] rr(1) [OF c(1)] rr(3) [OF c(1)] c(2) kind(1) [OF False] g False new kept ok(2)
      by (auto simp: EditTree_Delete_def deleteObject_def EditTree_fallbackDelete_def Let_def)
  qed
qed

lemma Delete_object_missing:
  assumes "finds A" "object_ok A x e" "EditTree_Render e = Some (Some (MObject y))" "\<forall>v. (k, v) |\<notin>| y"
  shows "EditTree_Delete A k e = Some (Inl AlreadyDeleted, e) \<or> EditTree_Delete A k e = Some (Inl NoSuchKey, e)"
proof -
  obtain h b where g: "EditTree_getKeyHash A k e = (h, b)" by fastforce
  have ok: "keyed_ok A e" "etvalue e = Some (MObject x)" "functional x" using assms(2) by (simp_all add: object_ok_def)
  note look = object_lookup [OF assms(2,3) g] and kind = child_kind [OF ok(1) g] and cv = child_value_cases [OF ok(1)]
  show ?thesis
  proof (cases b)
    case True
    then have val: "child_value e h = None" using look assms(4) by (cases "child_value e h") auto
    show ?thesis
    proof (cases "scalars e h")
      case (Some t)
      then show ?thesis using val cv(1) g True ok(2) by (auto simp: EditTree_Delete_def deleteObject_def)
    next
      case None
      then obtain c where c: "composites e h = Some c" using kind(2) [OF True] by auto
      then have "c = None" using val cv(3) by (cases c) force+
      then show ?thesis using c None g True ok(2) by (auto simp: EditTree_Delete_def deleteObject_def)
    qed
  next
    case False
    have "Find A (MObject x) [k] \<noteq> Some v" for v using False look [of v] assms(1,4) ok(3) by (simp add: finds_def)
    then have "Find A (MObject x) [k] = None" by (cases "Find A (MObject x) [k]") blast+
    then show ?thesis using g False ok(2) by (simp add: EditTree_Delete_def deleteObject_def EditTree_fallbackDelete_def)
  qed
qed

lemma keyed_ok_new: "keyed_ok A (EditTree t [] [] [] el ins)"
  by (simp add: keyed_ok_def probe_ok_def)

text \<open>A set: a composite key makes it start afresh from what it renders to.\<close>

definition set_of :: "mvalue fset \<Rightarrow> EditTree \<Rightarrow> mvalue fset \<Rightarrow> bool" where
  "set_of x e y \<longleftrightarrow> (\<forall>t. t |\<in>| y \<longleftrightarrow> (\<exists>k. child_of e k (Some t)) \<or> (t \<notin> ran (tree_keys e) \<and> t |\<in>| x))"

lemma set_children:
  assumes "set_ok A x e" "child_of e k (Some t)"
  shows "if isComposite k then isComposite t else t = k"
proof -
  obtain h where h: "tree_keys e h = Some k" "child_value e h = Some t" using assms(2) by (auto simp: child_of_def)
  have ok: "keyed_ok A e" using assms(1) by (simp add: set_ok_def)
  note cv = child_value_cases [OF ok]
  show ?thesis
  proof (cases "isComposite k")
    case True
    then have "composites e h \<noteq> None" using assms(1) h(1) unfolding set_ok_def by blast
    then obtain c where c: "composites e h = Some c" by blast
    then obtain d where d: "composites e h = Some (Some d)" using cv(2) h(2) by (cases c) auto
    have "EditTree_Render d = Some (Some t)" using cv(3) [OF d] h(2) by auto
    then show ?thesis using True assms(1) d unfolding set_ok_def by auto
  next
    case False
    have dom: "dom (tree_keys e) = dom (scalars e) \<union> dom (composites e)" using ok by (simp add: keyed_ok_def)
    have "composites e h = None" using False assms(1) h(1) unfolding set_ok_def by blast
    then have "scalars e h \<noteq> None" using arg_cong [OF dom, of "\<lambda>S. h \<in> S"] h(1) by (simp only: Un_iff domIff) simp
    then obtain u where u: "scalars e h = Some u" by blast
    then have "scalars e h = Some (Some t)" using cv(1) [OF u] h(2) by simp
    then have "tree_keys e h = Some t" using assms(1) unfolding set_ok_def by blast
    then show ?thesis using False h(1) by simp
  qed
qed

lemma Render_set_of: "set_ok A x e \<Longrightarrow> \<exists>y. EditTree_Render e = Some (Some (MSet y)) \<and> set_of x e y"
  using Render_set unfolding set_of_def by blast

lemma set_of_unique: "set_of x e y \<Longrightarrow> set_of x e y' \<Longrightarrow> y = y'"
  by (rule fset_eqI) (simp only: set_of_def)

text \<open>The child of a key is now the key itself, or a deleted one.\<close>

definition set_child :: "EditTree \<Rightarrow> mvalue \<Rightarrow> int \<Rightarrow> bool" where
  "set_child e k h \<longleftrightarrow> (composites e h \<noteq> None \<longleftrightarrow> isComposite k) \<and> (child_value e h = None \<or> child_value e h = Some k)"

lemma replaced_set:
  assumes "set_ok A x e" "replaced A k h e e'" "set_of x e y" "set_child e' k h"
    and fresh: "isComposite k \<Longrightarrow> tree_keys e = Map.empty"
  shows "set_ok A x e'" and "child_value e' h = Some k \<Longrightarrow> set_of x e' (finsert k y)"
    and "child_value e' h = None \<Longrightarrow> set_of x e' (y |-| {|k|})"
proof -
  have ok: "keyed_ok A e" using assms(1) by (simp add: set_ok_def)
  note ok' = replaced_keyed [OF ok assms(2)] and r = replaced_child [OF ok assms(2)]
  note cv = child_value_cases [OF ok']
  obtain a c where f: "tree_keys e' = (tree_keys e)(h \<mapsto> k)" "scalars e' = (scalars e)(h := a)"
    "composites e' = (composites e)(h := c)" "etvalue e' = etvalue e"
    using assms(2) unfolding replaced_def by blast
  have v: "child_value e' h = None \<or> child_value e' h = Some k" using assms(4) by (simp add: set_child_def)
  have "\<forall>h' t. scalars e' h' = Some (Some t) \<longrightarrow> tree_keys e' h' = Some t"
  proof (intro allI impI)
    fix h' t assume s: "scalars e' h' = Some (Some t)"
    show "tree_keys e' h' = Some t"
    proof (cases "h' = h")
      case True then show ?thesis using cv(1) [OF s] v f(1) by auto
    next
      case False then show ?thesis using s assms(1) f(1,2) by (simp add: set_ok_def)
    qed
  qed
  moreover have "\<forall>h' k'. tree_keys e' h' = Some k' \<longrightarrow> (composites e' h' \<noteq> None \<longleftrightarrow> isComposite k')"
    using assms(1,4) f(1,3) by (simp add: set_ok_def set_child_def)
  moreover have "\<forall>h' c t. composites e' h' = Some (Some c) \<and> EditTree_Render c = Some (Some t) \<longrightarrow> isComposite t"
  proof (intro allI impI, elim conjE)
    fix h' c t assume c: "composites e' h' = Some (Some c)" "EditTree_Render c = Some (Some t)"
    show "isComposite t"
    proof (cases "h' = h")
      case True
      then show ?thesis using cv(3) [OF c(1)] c v assms(4) by (auto simp: set_child_def)
    next
      case False then show ?thesis using c assms(1) f(3) by (simp add: set_ok_def)
    qed
  qed
  ultimately show "set_ok A x e'" using assms(1) ok' f(4) by (simp add: set_ok_def)
  have same: "child_of e k (Some t) \<Longrightarrow> t = k" for t
    using set_children [OF assms(1), of k t] fresh by (auto simp: child_of_def split: if_splits)
  have only: "child_of e k' (Some k) \<Longrightarrow> k' = k" for k'
    using set_children [OF assms(1), of k' k] fresh by (cases "isComposite k") (auto simp: child_of_def split: if_splits)
  have y: "t |\<in>| y \<longleftrightarrow> (\<exists>k. child_of e k (Some t)) \<or> (t \<notin> ran (tree_keys e) \<and> t |\<in>| x)" for t
    using assms(3) by (simp add: set_of_def)
  show "child_value e' h = Some k \<Longrightarrow> set_of x e' (finsert k y)"
  proof -
    assume v: "child_value e' h = Some k"
    have "t |\<in>| finsert k y \<longleftrightarrow> (\<exists>k'. child_of e' k' (Some t)) \<or> (t \<notin> ran (tree_keys e') \<and> t |\<in>| x)" for t
    proof (cases "t = k")
      case True then show ?thesis using v by (auto simp: r)
    next
      case False
      then have "\<not> child_of e k (Some t)" using same by blast
      then have "(\<exists>k'. child_of e' k' (Some t)) \<longleftrightarrow> (\<exists>k'. child_of e k' (Some t))" using False v unfolding r(1) by (metis option.inject)
      then show ?thesis using False by (simp add: y r(2))
    qed
    then show "set_of x e' (finsert k y)" by (simp add: set_of_def)
  qed
  show "child_value e' h = None \<Longrightarrow> set_of x e' (y |-| {|k|})"
  proof -
    assume v: "child_value e' h = None"
    have "t |\<in>| y |-| {|k|} \<longleftrightarrow> (\<exists>k'. child_of e' k' (Some t)) \<or> (t \<notin> ran (tree_keys e') \<and> t |\<in>| x)" for t
    proof (cases "t = k")
      case True then show ?thesis using v only by (simp add: r) blast
    next
      case False
      then have "\<not> child_of e k (Some t)" using same by blast
      then have "(\<exists>k'. child_of e' k' (Some t)) \<longleftrightarrow> (\<exists>k'. child_of e k' (Some t))" using v unfolding r(1) by (metis option.distinct(1))
      then show ?thesis using False by (simp add: y r(2))
    qed
    then show "set_of x e' (y |-| {|k|})" by (simp add: set_of_def)
  qed
qed

lemma Render_replaced_set:
  assumes "set_ok A x e" "EditTree_Render e = Some (Some (MSet y))" "replaced A k h e e'" "set_child e' k h"
    and "isComposite k \<Longrightarrow> tree_keys e = Map.empty"
  shows "set_ok A x e'" and "child_value e' h = Some k \<Longrightarrow> EditTree_Render e' = Some (Some (MSet (finsert k y)))"
    and "child_value e' h = None \<Longrightarrow> EditTree_Render e' = Some (Some (MSet (y |-| {|k|})))"
proof -
  have y: "set_of x e y" using Render_set_of [OF assms(1)] assms(2) by auto
  note o = replaced_set [OF assms(1,3) y assms(4,5)]
  obtain y' where y': "EditTree_Render e' = Some (Some (MSet y'))" "set_of x e' y'" using Render_set_of [OF o(1)] by blast
  show "set_ok A x e'" by (rule o(1))
  show "child_value e' h = Some k \<Longrightarrow> EditTree_Render e' = Some (Some (MSet (finsert k y)))"
    using set_of_unique [OF y'(2) o(2)] y'(1) by simp
  show "child_value e' h = None \<Longrightarrow> EditTree_Render e' = Some (Some (MSet (y |-| {|k|})))"
    using set_of_unique [OF y'(2) o(3)] y'(1) by simp
qed

lemma collapsed_set:
  assumes "EditTree_Render e = Some (Some (MSet y))"
  shows "collapse e = Some (collapse_to (Some (MSet y)) e)" "set_ok A y (collapse_to (Some (MSet y)) e)"
    "EditTree_Render (collapse_to (Some (MSet y)) e) = Some (Some (MSet y))" "tree_keys (collapse_to (Some (MSet y)) e) = Map.empty"
  using assms by (simp add: collapse_def, cases e, simp add: set_ok_def keyed_ok_new, (cases e, simp add: render_node_def)+)

lemma unsafeInsert_set:
  assumes "set_ok A x e" "fits k" "EditTree_Render e = Some (Some (MSet y))" "isComposite k \<Longrightarrow> tree_keys e = Map.empty"
  shows "set_ok A x (EditTree_unsafeInsertSet A k k e)"
    and "EditTree_Render (EditTree_unsafeInsertSet A k k e) = Some (Some (MSet (finsert k y)))"
proof -
  have same: "EditTree_unsafeInsertSet A k k e = EditTree_unsafeInsertObject A k k e"
    by (simp add: EditTree_unsafeInsertSet_def EditTree_unsafeInsertObject_def)
  have ok: "keyed_ok A e" using assms(1) by (simp add: set_ok_def)
  obtain h where r: "replaced A k h e (EditTree_unsafeInsertObject A k k e)"
    "child_value (EditTree_unsafeInsertObject A k k e) h = Some k"
    using unsafeInsert_replaced [OF ok assms(2)] by blast
  have h: "h = fst (EditTree_getKeyHash A k e)" using r(1) by (simp add: replaced_def)
  have "composites (EditTree_unsafeInsertObject A k k e) h \<noteq> None \<longleftrightarrow> isComposite k"
  proof (cases "isComposite k")
    case True
    then show ?thesis by (simp add: EditTree_unsafeInsertObject_def h Let_def split_beta tree_simps)
  next
    case False
    then have "scalars (EditTree_unsafeInsertObject A k k e) h \<noteq> None"
      by (simp add: EditTree_unsafeInsertObject_def h Let_def split_beta tree_simps)
    moreover have "dom (scalars (EditTree_unsafeInsertObject A k k e)) \<inter> dom (composites (EditTree_unsafeInsertObject A k k e)) = {}"
      using replaced_keyed [OF ok r(1)] by (simp add: keyed_ok_def)
    ultimately show ?thesis using False by blast
  qed
  then have c: "set_child (EditTree_unsafeInsertObject A k k e) k h" using r(2) by (simp add: set_child_def)
  note rr = Render_replaced_set [OF assms(1,3) r(1) c assms(4)]
  show "set_ok A x (EditTree_unsafeInsertSet A k k e)" unfolding same by (rule rr(1))
  show "EditTree_Render (EditTree_unsafeInsertSet A k k e) = Some (Some (MSet (finsert k y)))"
    unfolding same by (rule rr(2) [OF _ r(2)])
qed

theorem Insert_set:
  assumes "set_ok A x e" "fits k" "EditTree_Render e = Some (Some (MSet y))"
  shows "\<exists>x' e'. EditTree_Insert A k k e = Some (Inr (NewEditTree k), e') \<and> set_ok A x' e' \<and>
    EditTree_Render e' = Some (Some (MSet (finsert k y)))"
proof (cases "isComposite k")
  case True
  note c = collapsed_set [OF assms(3)]
  note u = unsafeInsert_set [OF c(2) assms(2) c(3) c(4)]
  show ?thesis using True assms(1) u c(1) by (simp add: EditTree_Insert_def set_ok_def [of A x e]) blast
next
  case False
  note u = unsafeInsert_set [OF assms]
  show ?thesis using False assms(1) u by (simp add: EditTree_Insert_def set_ok_def [of A x e]) blast
qed

lemma set_lookup:
  assumes "set_ok A x e" "EditTree_Render e = Some (Some (MSet y))" "EditTree_getKeyHash A k e = (h, b)"
    and fresh: "isComposite k \<Longrightarrow> tree_keys e = Map.empty"
  shows "k |\<in>| y \<longleftrightarrow> (if b then child_value e h = Some k else k |\<in>| x)"
proof -
  have ok: "keyed_ok A e" using assms(1) by (simp add: set_ok_def)
  have y: "set_of x e y" using Render_set_of [OF assms(1)] assms(2) by auto
  have only: "child_of e k' (Some k) \<Longrightarrow> k' = k" for k'
    using set_children [OF assms(1), of k' k] fresh by (cases "isComposite k") (auto simp: child_of_def split: if_splits)
  note kind = child_kind [OF ok assms(3)]
  have "k |\<in>| y \<longleftrightarrow> child_of e k (Some k) \<or> (k \<notin> ran (tree_keys e) \<and> k |\<in>| x)"
    using y only unfolding set_of_def by blast
  also have "\<dots> \<longleftrightarrow> (if b then child_value e h = Some k else k |\<in>| x)"
  proof (cases b)
    case True then show ?thesis using kind(2) [OF True, of "Some k"] by auto
  next
    case False then show ?thesis using kind(1) child_of_ran by simp blast
  qed
  finally show ?thesis .
qed

lemma fallbackDelete_set:
  assumes "finds A" "set_ok A x e" "EditTree_Render e = Some (Some (MSet y))" "EditTree_getKeyHash A k e = (h, False)"
    and fresh: "isComposite k \<Longrightarrow> tree_keys e = Map.empty"
  shows "if k |\<in>| y then \<exists>e'. EditTree_fallbackDelete A k e = Some (Inr (NewEditTree k), e') \<and> set_ok A x e' \<and>
      EditTree_Render e' = Some (Some (MSet (y |-| {|k|})))
    else EditTree_fallbackDelete A k e = Some (Inl NoSuchKey, e)"
proof -
  have ok: "keyed_ok A e" "etvalue e = Some (MSet x)" using assms(2) by (simp_all add: set_ok_def)
  have look: "k |\<in>| y \<longleftrightarrow> k |\<in>| x" using set_lookup [OF assms(2-4) fresh] by simp
  have none: "scalars e h = None" "composites e h = None" using child_kind(1) [OF ok(1) assms(4)] by simp_all
  note s = set_scalar_replaced [OF ok(1) assms(4) none(2), of None] and c = set_composite_replaced [OF ok(1) assms(4) none(1), of None]
  show ?thesis
  proof (cases "k |\<in>| y")
    case True
    then have f: "Find A (MSet x) [k] = Some k" using assms(1) look by (simp add: finds_def)
    show ?thesis
    proof (cases "isComposite k")
      case comp: True
      have "set_child (EditTree_setChildCompositeValue h None (EditTree_setChildKey h k e)) k h"
        using comp c(2) by (simp add: set_child_def tree_simps)
      note rr = Render_replaced_set [OF assms(2,3) c(1) this fresh]
      show ?thesis using True comp f rr(1) rr(3) c(2) ok(2) assms(4) by (simp add: EditTree_fallbackDelete_def Let_def)
    next
      case scal: False
      have "set_child (EditTree_setChildScalarValue h None (EditTree_setChildKey h k e)) k h"
        using scal s(2) none by (simp add: set_child_def tree_simps)
      note rr = Render_replaced_set [OF assms(2,3) s(1) this fresh]
      show ?thesis using True scal f rr(1) rr(3) s(2) ok(2) assms(4) by (simp add: EditTree_fallbackDelete_def Let_def)
    qed
  next
    case False
    have "Find A (MSet x) [k] \<noteq> Some v" for v using False look assms(1) by (simp add: finds_def)
    then have "Find A (MSet x) [k] = None" by (cases "Find A (MSet x) [k]") blast+
    then show ?thesis using False ok(2) by (simp add: EditTree_fallbackDelete_def)
  qed
qed

theorem Delete_set:
  assumes "finds A" "set_ok A x e" "EditTree_Render e = Some (Some (MSet y))"
  shows "if k |\<in>| y then \<exists>x' e'. EditTree_Delete A k e = Some (Inr (NewEditTree k), e') \<and> set_ok A x' e' \<and>
      EditTree_Render e' = Some (Some (MSet (y |-| {|k|})))
    else \<exists>err x' e'. EditTree_Delete A k e = Some (Inl err, e') \<and> set_ok A x' e' \<and> EditTree_Render e' = Some (Some (MSet y))"
proof (cases "isComposite k")
  case True
  note c = collapsed_set [OF assms(3)]
  let ?e1 = "collapse_to (Some (MSet y)) e"
  have del: "EditTree_Delete A k e = EditTree_fallbackDelete A k ?e1"
    using assms(2) True c(1) by (simp add: EditTree_Delete_def deleteSet_def set_ok_def)
  have g: "EditTree_getKeyHash A k ?e1 = (Hash A k, False)"
    using c(4) by (simp add: EditTree_getKeyHash_def getKeyHash_loop.simps)
  show ?thesis using fallbackDelete_set [OF assms(1) c(2,3) g c(4)] c(2,3) unfolding del by (cases "k |\<in>| y") (simp_all, blast+)
next
  case False
  obtain h b where g: "EditTree_getKeyHash A k e = (h, b)" by fastforce
  have ok: "keyed_ok A e" "etvalue e = Some (MSet x)" using assms(2) by (simp_all add: set_ok_def)
  have del: "EditTree_Delete A k e = deleteSet A k e" using ok(2) by (simp add: EditTree_Delete_def)
  show ?thesis
  proof (cases b)
    case True
    have key: "tree_keys e h = Some k" using getKeyHash_result(3) [OF g] True by simp
    have comp: "composites e h = None" using assms(2) key False unfolding set_ok_def by blast
    then obtain u where u: "scalars e h = Some u" using child_kind(2) [OF ok(1) g True, of None] by auto
    have val: "child_value e h = u" by (rule child_value_cases(1) [OF ok(1) u])
    have look: "k |\<in>| y \<longleftrightarrow> u = Some k" using set_lookup [OF assms(2,3) g] False True val by simp
    show ?thesis
    proof (cases u)
      case None
      then show ?thesis using look u g True False assms(2,3) unfolding del by (simp add: deleteSet_def) blast
    next
      case (Some t)
      then have t: "t = k" using assms(2) u key unfolding set_ok_def by fastforce
      note s = set_scalar_replaced [OF ok(1) g comp, of None]
      have "set_child (EditTree_setChildScalarValue h None (EditTree_setChildKey h k e)) k h"
        using False s(2) comp by (simp add: set_child_def tree_simps)
      note rr = Render_replaced_set [OF assms(2,3) s(1) this]
      have "deleteSet A k e = Some (Inr (NewEditTree k), EditTree_setChildScalarValue h None (EditTree_setChildKey h k e))"
        using u Some t g True False by (simp add: deleteSet_def)
      then show ?thesis using look Some t rr(1) rr(3) s(2) False unfolding del by auto
    qed
  next
    case nf: False
    then have g': "EditTree_getKeyHash A k e = (h, False)" using g by simp
    have "deleteSet A k e = EditTree_fallbackDelete A k e" using False g' by (simp add: deleteSet_def)
    then show ?thesis using fallbackDelete_set [OF assms g'] False assms(2,3) unfolding del by (cases "k |\<in>| y") (simp_all, blast+)
  qed
qed

section \<open>Paths through objects\<close>

inductive wf_term :: "mvalue \<Rightarrow> bool" where
  wf_scalar: "\<not> isComposite t \<Longrightarrow> wf_term t"
| wf_array: "length ts \<le> 2 ^ 32 \<Longrightarrow> wf_term (MArray ts)"
| wf_set: "wf_term (MSet x)"
| wf_object: "functional x \<Longrightarrow> (\<And>k v. (k, v) |\<in>| x \<Longrightarrow> wf_term v) \<Longrightarrow> wf_term (MObject x)"

inductive_cases wf_objectE: "wf_term (MObject x)"

lemma wf_fits: "wf_term t \<Longrightarrow> fits t"
  by (induction rule: wf_term.induct) (auto simp: fits_def isComposite_def split: mvalue.splits)

text \<open>Nodes over objects are well formed down to the nodes over other terms.\<close>

inductive tree_ok :: "ast_ops \<Rightarrow> EditTree \<Rightarrow> bool" for A where
  other: "(\<And>x. etvalue e \<noteq> Some (MObject x)) \<Longrightarrow> nil_or (EditTree_Render e) \<noteq> None \<Longrightarrow> tree_ok A e"
| object: "object_ok A x e \<Longrightarrow> wf_term (MObject x) \<Longrightarrow> (\<And>h t. scalars e h = Some (Some t) \<Longrightarrow> \<not> isComposite t) \<Longrightarrow>
    (\<And>h c. composites e h = Some (Some c) \<Longrightarrow> tree_ok A c) \<Longrightarrow> tree_ok A e"

text \<open>An update of the object at the end of a path.\<close>

inductive updates :: "((mvalue \<times> mvalue) fset \<Rightarrow> (mvalue \<times> mvalue) fset \<Rightarrow> bool) \<Rightarrow> mvalue list \<Rightarrow> mvalue \<Rightarrow> mvalue \<Rightarrow> bool" for R where
  updates_here: "R y y' \<Longrightarrow> updates R [] (MObject y) (MObject y')"
| updates_below: "(k, t) |\<in>| y \<Longrightarrow> updates R path t t' \<Longrightarrow> updates R (k # path) (MObject y) (MObject (obj_put k t' y))"

lemma updates_object: "updates R path t t' \<Longrightarrow> \<exists>y y'. t = MObject y \<and> t' = MObject y'"
  by (induction rule: updates.induct) auto

lemma Render_other:
  assumes "\<And>x. etvalue e \<noteq> Some (MObject x)"
  shows "EditTree_Render e \<noteq> Some (Some (MObject y))"
proof (cases e)
  case (EditTree v ks ss cs el ins)
  then show ?thesis using assms
    by (auto simp: render_node_def bind_eq_Some_conv split: option.splits mvalue.splits if_splits)
qed

lemma tree_ok_object:
  assumes "tree_ok A e" "EditTree_Render e = Some (Some (MObject y))"
  obtains x where "object_ok A x e" "wf_term (MObject x)" "\<And>h t. scalars e h = Some (Some t) \<Longrightarrow> \<not> isComposite t"
    "\<And>h c. composites e h = Some (Some c) \<Longrightarrow> tree_ok A c"
  using assms(1)
proof cases
  case other then show ?thesis using Render_other [of e y] assms(2) by blast
next
  case object then show ?thesis using that by blast
qed

lemma NewEditTree_ok:
  assumes "wf_term t"
  shows "tree_ok A (NewEditTree t)"
proof (cases "\<exists>x. t = MObject x")
  case True
  then obtain x where t: "t = MObject x" by blast
  have f: "functional x" using assms t by (auto simp: isComposite_def elim: wf_objectE)
  show ?thesis
    by (rule tree_ok.object [of A x]) (use f assms t keyed_ok_new in \<open>simp_all add: object_ok_def NewEditTree_def\<close>)
next
  case False
  show ?thesis
    by (rule tree_ok.other)
      (use False Render_NewEditTree [OF wf_fits [OF assms]] in \<open>auto simp: NewEditTree_def nil_or_def split: mvalue.splits\<close>)
qed

lemma tree_ok_replaced:
  assumes "object_ok A x e'" "wf_term (MObject x)" "\<And>h t. scalars e h = Some (Some t) \<Longrightarrow> \<not> isComposite t"
    "\<And>h c. composites e h = Some (Some c) \<Longrightarrow> tree_ok A c"
    "\<And>h t. scalars e' h = Some (Some t) \<Longrightarrow> scalars e h = Some (Some t) \<or> \<not> isComposite t"
    "\<And>h c. composites e' h = Some (Some c) \<Longrightarrow> composites e h = Some (Some c) \<or> tree_ok A c"
  shows "tree_ok A e'"
  by (rule tree_ok.object [OF assms(1,2)]) (use assms(3-6) in blast)+

text \<open>A changed composite child, put back under its key or put under a key that is new.\<close>

lemma put_back:
  assumes "keyed_ok A e" "EditTree_getKeyHash A k e = (h, True)" "composites e h \<noteq> None" "EditTree_Render d = Some (Some t)"
  shows "replaced A k h e (EditTree_setChildCompositeValue h (Some d) e)"
    and "child_value (EditTree_setChildCompositeValue h (Some d) e) h = Some t"
proof -
  have s: "scalars e h = None" using child_kind(2) [OF assms(1,2), of None] assms(3) by simp
  have k: "tree_keys e h = Some k" using getKeyHash_result(3) [OF assms(2)] by simp
  have d: "distinct (map fst (childScalarValues e))" "distinct (map fst (childCompositeValues e))"
    using assms(1) by (simp_all add: keyed_ok_def)
  show "replaced A k h e (EditTree_setChildCompositeValue h (Some d) e)"
    by (rule replacedI [OF assms(2), of _ None "Some (Some d)"])
      (use s k assms(4) child_lists_distinct(3) [OF d(1)] child_lists_distinct(4) [OF d(2)] in
        \<open>simp_all add: tree_simps fun_upd_idem nil_or_def\<close>)
  show "child_value (EditTree_setChildCompositeValue h (Some d) e) h = Some t"
    using s assms(4) by (simp add: child_value_def tree_simps nil_or_def)
qed

lemma put_new:
  assumes "keyed_ok A e" "EditTree_getKeyHash A k e = (h, False)" "isComposite t" "EditTree_Render d = Some (Some t')"
  defines "e' \<equiv> EditTree_setChildCompositeValue h (Some d) (EditTree_unsafeInsertObject A k t e)"
  shows "replaced A k h e e'" and "child_value e' h = Some t'"
    and "scalars e' = (scalars e)(h := None)" "composites e' = (composites e)(h \<mapsto> Some d)"
proof -
  have n: "scalars e h = None" "composites e h = None" using child_kind(1) [OF assms(1,2)] by simp_all
  have e': "e' = EditTree_setChildCompositeValue h (Some d) (EditTree_setChildCompositeValue h (Some (NewEditTree t)) (EditTree_setChildKey h k e))"
    using assms(2,3) by (simp add: e'_def EditTree_unsafeInsertObject_def)
  show f: "scalars e' = (scalars e)(h := None)" "composites e' = (composites e)(h \<mapsto> Some d)"
    unfolding e' using n by (simp_all add: tree_simps fun_upd_idem)
  have d: "distinct (map fst (childScalarValues (EditTree_setChildKey h k e)))" "distinct (map fst (childCompositeValues (EditTree_setChildKey h k e)))"
    using assms(1) by (simp_all add: keyed_ok_def tree_simps)
  show "replaced A k h e e'"
    by (rule replacedI [OF assms(2) _ f])
      (use assms(4) child_lists_distinct(3) [OF child_lists_distinct(3) [OF d(1)]] child_lists_distinct(4) [OF child_lists_distinct(4) [OF d(2)]] in
        \<open>simp_all add: e' tree_simps nil_or_def\<close>)
  show "child_value e' h = Some t'" using f assms(4) by (simp add: child_value_def nil_or_def)
qed

theorem Unfold_updates:
  assumes finds: "finds A"
    and f: "\<And>e y y'. tree_ok A e \<Longrightarrow> EditTree_Render e = Some (Some (MObject y)) \<Longrightarrow> R y y' \<Longrightarrow>
      \<exists>r e'. f e = Some (Inr r, e') \<and> tree_ok A e' \<and> EditTree_Render e' = Some (Some (MObject y'))"
    and "updates R path t t'" "tree_ok A e" "EditTree_Render e = Some (Some t)"
  shows "\<exists>r e'. EditTree_Unfold A path f e = Some (Inr r, e') \<and> tree_ok A e' \<and> EditTree_Render e' = Some (Some t')"
  using assms(3-5)
proof (induction arbitrary: e rule: updates.induct)
  case (updates_here y y')
  then show ?case using f by simp
next
  case (updates_below k t y path t')
  obtain x where x: "object_ok A x e" "wf_term (MObject x)" "\<And>h t. scalars e h = Some (Some t) \<Longrightarrow> \<not> isComposite t"
    "\<And>h c. composites e h = Some (Some c) \<Longrightarrow> tree_ok A c"
    using tree_ok_object [OF updates_below.prems] by blast
  obtain h b where g: "EditTree_getKeyHash A k e = (h, b)" by fastforce
  have ok: "keyed_ok A e" "etvalue e = Some (MObject x)" "functional x" using x(1) by (simp_all add: object_ok_def)
  have look: "if b then child_value e h = Some t else (k, t) |\<in>| x"
    using object_lookup [OF x(1) updates_below.prems(2) g, of t] updates_below.hyps(1) by simp
  have comp: "isComposite t" using updates_object [OF updates_below.hyps(2)] by (auto simp: isComposite_def)
  note rr = Render_replaced [OF x(1) updates_below.prems(2)] and cv = child_value_cases [OF ok(1)]
  show ?case
  proof (cases b)
    case True
    then have val: "child_value e h = Some t" using look by simp
    have s: "scalars e h = None"
    proof (rule ccontr)
      assume "scalars e h \<noteq> None"
      then obtain u where "scalars e h = Some u" by blast
      then show False using cv(1) val x(3) comp by fastforce
    qed
    then obtain c where c: "composites e h = Some c" using child_kind(2) [OF ok(1) g True, of None] by auto
    then obtain d where d: "composites e h = Some (Some d)" "EditTree_Render d = Some (Some t)" using val cv(2,3) by (cases c) force+
    obtain r d' where IH: "EditTree_Unfold A path f d = Some (Inr r, d')" "tree_ok A d'" "EditTree_Render d' = Some (Some t')"
      using updates_below.IH [OF x(4) [OF d(1)] d(2)] by blast
    let ?e' = "EditTree_setChildCompositeValue h (Some d') e"
    have p: "replaced A k h e ?e'" "child_value ?e' h = Some t'" using put_back [OF ok(1) _ _ IH(3), of k h] g True d(1) by simp_all
    have "tree_ok A ?e'"
      by (rule tree_ok_replaced [OF rr(1) [OF p(1)] x(2) x(3,4)])
        (use IH(2) in \<open>auto simp: tree_simps split: if_splits\<close>)
    moreover have "EditTree_Unfold A (k # path) f e = Some (Inr r, ?e')"
      using g True s d(1) IH(1) ok(2) by (simp add: unfold_object_def at_composite_def)
    ultimately show ?thesis using rr(2) [OF p] by blast
  next
    case False
    have kx: "(k, t) |\<in>| x" using look False by simp
    then have found: "Find A (MObject x) [k] = Some t" using finds ok(3) by (simp add: finds_def)
    have wf: "wf_term t" using x(2) kx by (auto simp: isComposite_def elim: wf_objectE)
    obtain r d' where IH: "EditTree_Unfold A path f (NewEditTree t) = Some (Inr r, d')" "tree_ok A d'" "EditTree_Render d' = Some (Some t')"
      using updates_below.IH [OF NewEditTree_ok [OF wf] Render_NewEditTree [OF wf_fits [OF wf]]] by blast
    let ?e' = "EditTree_setChildCompositeValue h (Some d') (EditTree_unsafeInsertObject A k t e)"
    have g': "EditTree_getKeyHash A k e = (h, False)" using g False by simp
    note p = put_new [OF ok(1) g' comp IH(3)]
    have "tree_ok A ?e'"
      by (rule tree_ok_replaced [OF rr(1) [OF p(1)] x(2) x(3,4)])
        (use IH(2) in \<open>auto simp: p(3,4) split: if_splits\<close>)
    moreover have "EditTree_Unfold A (k # path) f e = Some (Inr r, ?e')"
      using g' found IH(1) ok(2) comp by (simp add: unfold_object_def EditTree_Insert_def at_inserted_def at_composite_def)
    ultimately show ?thesis using rr(2) [OF p(1,2)] by blast
  qed
qed

end
