(* ===== verification/Edit_Tree_Edits.thy ===== *)
theory Edit_Tree_Edits
  imports Edit_Tree_Object
begin

text \<open>
  The operations of the edit tree as a whole: insertion and deletion at paths through objects and at indexes of arrays
  make the trees render to the updated terms; and what the index bookkeeping of arrays gets wrong.
\<close>

section \<open>A sample of OPA's operations\<close>

fun sample_find :: "mvalue \<Rightarrow> mvalue list \<Rightarrow> mvalue option" where
  "sample_find (MObject x) [k] =
     (let hits = ffilter (\<lambda>(k', _). k' = k) x in if hits = {||} then None else Some (snd (fthe_elem hits)))"
| "sample_find (MSet x) [k] = (if k |\<in>| x then Some k else None)"
| "sample_find (MArray xs) [MNumber r] =
     (if of_int \<lfloor>r\<rfloor> = r \<and> 0 \<le> r \<and> r < of_nat (length xs) then Some (xs ! nat \<lfloor>r\<rfloor>) else None)"
| "sample_find _ _ = None"

definition sample_ops :: ast_ops where
  "sample_ops = \<lparr>Hash = (\<lambda>_. 0), NumberInt = (\<lambda>r. if of_int \<lfloor>r\<rfloor> = r then Some \<lfloor>r\<rfloor> else None),
     TextInt = (\<lambda>_. None), Find = sample_find\<rparr>"

lemma sample_finds: "finds sample_ops"
proof -
  have "sample_find (MObject x) [k] = Some v \<longleftrightarrow> (k, v) |\<in>| x" if "functional x" for x k v
  proof
    assume "(k, v) |\<in>| x"
    then have "ffilter (\<lambda>(k', _). k' = k) x = {|(k, v)|}"
      using that unfolding functional_def by (intro fset_eqI) auto
    then show "sample_find (MObject x) [k] = Some v" by simp
  next
    assume a: "sample_find (MObject x) [k] = Some v"
    then have "ffilter (\<lambda>(k', _). k' = k) x \<noteq> {||}" by (auto simp: Let_def split: if_splits)
    then obtain w where w: "(k, w) |\<in>| x" by auto
    then have "ffilter (\<lambda>(k', _). k' = k) x = {|(k, w)|}"
      using that unfolding functional_def by (intro fset_eqI) auto
    then show "(k, v) |\<in>| x" using a w by simp
  qed
  moreover have "sample_find (MArray xs) [MNumber (of_int i)] = Some v \<longleftrightarrow> 0 \<le> i \<and> i < int (length xs) \<and> v = xs ! nat i" for xs i v
  proof -
    have "(of_int i :: rat) < of_nat (length xs) \<longleftrightarrow> i < int (length xs)"
      by (metis of_int_less_iff of_int_of_nat_eq)
    then show ?thesis by auto
  qed
  ultimately show ?thesis by (auto simp: finds_def sample_ops_def simp del: sample_find.simps(1,3))
qed

section \<open>Indexes of arrays\<close>

text \<open>C16.  Inserting at an index of an array renders to the list with the value inserted there, and an index outside of
  the array is an error that leaves the tree alone.  The node keeps its invariant.  The hypothesis \<open>no_clash\<close> excludes
  that above the index a scalar child is followed by a composite child; without it the
  statement is false.\<close>

theorem array_Insert_correct:
  assumes "NumberInt A (of_int i) = Some i" and "array_ok xs e" and "EditTree_Render e = Some (Some (MArray ys))"
    and "length ys < 2 ^ 32" and "fits v" and "no_clash 1 i e"
  shows "if 0 \<le> i \<and> i \<le> int (length ys)
    then \<exists>e'. EditTree_Insert A (MNumber (of_int i)) v e = Some (Inr (NewEditTree v), e') \<and> array_ok xs e' \<and>
      EditTree_Render e' = Some (Some (MArray (take (nat i) ys @ v # drop (nat i) ys)))
    else EditTree_Insert A (MNumber (of_int i)) v e = Some (Inl OutOfBounds, e)"
proof -
  have ys: "ys = array_of xs e" using Render_array [OF assms(2)] assms(3) by simp
  have len: "length (bits (insertions e)) = length ys" by (simp add: ys array_of_def)
  have ok: "etvalue e = Some (MArray xs)" "bv_inv (insertions e)" using assms(2) by (simp_all add: array_ok_def)
  have L: "BitVector_Length (insertions e) = int (length ys)" using Length_bits [OF ok(2)] len by simp
  have idx: "toIndex A n (MNumber (of_int i)) = Inr i" for n by (simp add: toIndex_def assms(1))
  show ?thesis
  proof (cases "0 \<le> i \<and> i \<le> int (length ys)")
    case True
    then have i: "nat i \<le> length (bits (insertions e))" "int (nat i) = i" using len by auto
    obtain e' where "EditTree_unsafeInsertArray i v e = Some e'" "array_ok xs e'"
      "array_of xs e' = take (nat i) (array_of xs e) @ v # drop (nat i) (array_of xs e)"
      using unsafeInsertArray_correct [OF assms(2) i(1), of v] assms(4-6) len i(2) by auto
    then show ?thesis using True Render_array [of xs e'] by (simp add: EditTree_Insert_def ok(1) L idx ys)
  next
    case False
    then show ?thesis by (auto simp: EditTree_Insert_def ok(1) L idx)
  qed
qed

theorem array_Insert_correct_witness:
  "\<exists>e'. EditTree_Insert sample_ops (MNumber (of_int 1)) MNull (NewEditTree (MArray [MBool True, MBool False])) = Some (Inr (NewEditTree MNull), e') \<and>
     EditTree_Render e' = Some (Some (MArray [MBool True, MNull, MBool False]))"
proof -
  have ok: "array_ok [MBool True, MBool False] (NewEditTree (MArray [MBool True, MBool False]))" by (rule NewEditTree_array(1)) simp
  have clash: "no_clash 1 1 (NewEditTree (MArray [MBool True, MBool False]))" by (simp add: no_clash_def NewEditTree_def)
  have r: "EditTree_Render (NewEditTree (MArray [MBool True, MBool False])) = Some (Some (MArray [MBool True, MBool False]))"
    by (rule Render_NewEditTree) (simp add: fits_def)
  show ?thesis using array_Insert_correct [OF _ ok r, of sample_ops 1 MNull] clash by (auto simp: sample_ops_def fits_def)
qed

text \<open>C17.  Deleting at an index of an array renders to the list without the element there, and an index outside of the
  array is an error that leaves the tree alone.  The node keeps its invariant.  The hypothesis \<open>no_clash\<close> excludes that
  above the index a composite child is followed by a scalar child.\<close>

theorem array_Delete_correct:
  assumes "NumberInt A (of_int i) = Some i" and "array_ok xs e" and "EditTree_Render e = Some (Some (MArray ys))"
    and "no_clash (- 1) (i + 1) e"
  shows "if 0 \<le> i \<and> i < int (length ys)
    then \<exists>e'. EditTree_Delete A (MNumber (of_int i)) e = Some (Inr e', e') \<and> array_ok xs e' \<and>
      EditTree_Render e' = Some (Some (MArray (take (nat i) ys @ drop (Suc (nat i)) ys)))
    else EditTree_Delete A (MNumber (of_int i)) e = Some (Inl OutOfBounds, e)"
proof -
  have ys: "ys = array_of xs e" using Render_array [OF assms(2)] assms(3) by simp
  have len: "length (bits (insertions e)) = length ys" by (simp add: ys array_of_def)
  have ok: "etvalue e = Some (MArray xs)" "bv_inv (insertions e)" using assms(2) by (simp_all add: array_ok_def)
  have L: "BitVector_Length (insertions e) = int (length ys)" using Length_bits [OF ok(2)] len by simp
  have idx: "toIndex A n (MNumber (of_int i)) = Inr i" for n by (simp add: toIndex_def assms(1))
  show ?thesis
  proof (cases "0 \<le> i \<and> i < int (length ys)")
    case True
    then have i: "nat i < length (bits (insertions e))" "int (nat i) = i" using len by auto
    obtain e' where "deleteArray A (MNumber (of_int i)) e = Some (Inr e', e')" "array_ok xs e'"
      "array_of xs e' = take (nat i) (array_of xs e) @ drop (Suc (nat i)) (array_of xs e)"
      using deleteArray_correct [OF assms(2) i(1), of A "MNumber (of_int i)"] idx assms(4) i(2) by auto
    then show ?thesis using True Render_array [of xs e'] by (simp add: EditTree_Delete_def ok(1) ys)
  next
    case False
    then show ?thesis by (auto simp: EditTree_Delete_def deleteArray_def ok(1) L idx)
  qed
qed

theorem array_Delete_correct_witness:
  "\<exists>e'. EditTree_Delete sample_ops (MNumber (of_int 0)) (NewEditTree (MArray [MBool True, MBool False])) = Some (Inr e', e') \<and>
     EditTree_Render e' = Some (Some (MArray [MBool False]))"
proof -
  have ok: "array_ok [MBool True, MBool False] (NewEditTree (MArray [MBool True, MBool False]))" by (rule NewEditTree_array(1)) simp
  have clash: "no_clash (- 1) 1 (NewEditTree (MArray [MBool True, MBool False]))" by (simp add: no_clash_def NewEditTree_def)
  have r: "EditTree_Render (NewEditTree (MArray [MBool True, MBool False])) = Some (Some (MArray [MBool True, MBool False]))"
    by (rule Render_NewEditTree) (simp add: fits_def)
  show ?thesis using array_Delete_correct [OF _ ok r, of sample_ops 0] clash by (auto simp: sample_ops_def)
qed

section \<open>Paths\<close>

text \<open>The object at the end of a path with a value under a key, or without the key.\<close>

abbreviation puts_at :: "mvalue list \<Rightarrow> mvalue \<Rightarrow> mvalue \<Rightarrow> mvalue \<Rightarrow> mvalue \<Rightarrow> bool" where
  "puts_at path k v \<equiv> updates (\<lambda>y y'. y' = obj_put k v y) path"

abbreviation drops_at :: "mvalue list \<Rightarrow> mvalue \<Rightarrow> mvalue \<Rightarrow> mvalue \<Rightarrow> bool" where
  "drops_at path k \<equiv> updates (\<lambda>y y'. (\<exists>v. (k, v) |\<in>| y) \<and> y' = obj_drop k y) path"

lemma Insert_tree_ok:
  assumes "tree_ok A e" "EditTree_Render e = Some (Some (MObject y))" "wf_term v"
  shows "\<exists>r e'. EditTree_Insert A k v e = Some (Inr r, e') \<and> tree_ok A e' \<and> EditTree_Render e' = Some (Some (MObject (obj_put k v y)))"
proof -
  obtain x where x: "object_ok A x e" "wf_term (MObject x)" "\<And>h t. scalars e h = Some (Some t) \<Longrightarrow> \<not> isComposite t"
    "\<And>h c. composites e h = Some (Some c) \<Longrightarrow> tree_ok A c"
    using tree_ok_object [OF assms(1,2)] by blast
  obtain e' where e': "EditTree_Insert A k v e = Some (Inr (NewEditTree v), e')" "object_ok A x e'"
    "EditTree_Render e' = Some (Some (MObject (obj_put k v y)))"
    using Insert_object [OF x(1) wf_fits [OF assms(3)] assms(2)] by blast
  have u: "e' = EditTree_unsafeInsertObject A k v e" using e'(1) x(1) by (simp add: EditTree_Insert_def object_ok_def)
  have "tree_ok A e'"
    by (rule tree_ok_replaced [OF e'(2) x(2) x(3,4)])
      (use NewEditTree_ok [OF assms(3)] in
        \<open>auto simp: u EditTree_unsafeInsertObject_def tree_simps split_beta Let_def split: if_splits\<close>)
  then show ?thesis using e' by blast
qed

lemma Delete_tree_ok:
  assumes "finds A" "tree_ok A e" "EditTree_Render e = Some (Some (MObject y))" "(k, v) |\<in>| y"
  shows "\<exists>r e'. EditTree_Delete A k e = Some (Inr r, e') \<and> tree_ok A e' \<and> EditTree_Render e' = Some (Some (MObject (obj_drop k y)))"
proof -
  obtain x where x: "object_ok A x e" "wf_term (MObject x)" "\<And>h t. scalars e h = Some (Some t) \<Longrightarrow> \<not> isComposite t"
    "\<And>h c. composites e h = Some (Some c) \<Longrightarrow> tree_ok A c"
    using tree_ok_object [OF assms(2,3)] by blast
  obtain c e' where e': "EditTree_Delete A k e = Some (Inr c, e')" "object_ok A x e'" "no_new_child e e'"
    "EditTree_Render e' = Some (Some (MObject (obj_drop k y)))"
    using Delete_object [OF assms(1) x(1) assms(3,4)] by blast
  have "tree_ok A e'"
    by (rule tree_ok_replaced [OF e'(2) x(2) x(3,4)]) (use e'(3) in \<open>auto simp: no_new_child_def\<close>)
  then show ?thesis using e' by blast
qed

text \<open>C14.  Inserting at a path through objects succeeds and makes the tree render to the term with the value put there,
  everything else as before; the tree stays well formed, so that any sequence of edits can follow.\<close>

theorem InsertAtPath_correct:
  assumes "finds A" and "tree_ok A e" and "EditTree_Render e = Some (Some t)" and "wf_term v" and "puts_at path k v t t'"
  shows "\<exists>r e'. EditTree_InsertAtPath A (path @ [k]) v e = Some (Inr r, e') \<and> tree_ok A e' \<and> EditTree_Render e' = Some (Some t')"
  using Unfold_updates [OF assms(1) _ assms(5,2,3), of "EditTree_Insert A k v"] Insert_tree_ok [OF _ _ assms(4)]
  by (simp add: EditTree_InsertAtPath_def)

text \<open>An object below an object.\<close>

abbreviation nested :: "mvalue \<Rightarrow> mvalue" where
  "nested v \<equiv> MObject {|(MString (str ''a''), MObject {|(MString (str ''b''), v)|})|}"

lemma nested_wf: "\<not> isComposite v \<Longrightarrow> wf_term (nested v)"
proof -
  assume "\<not> isComposite v"
  then have "wf_term (MObject {|(MString (str ''b''), v)|})" by (intro wf_object) (auto simp: functional_def intro: wf_scalar)
  then show ?thesis by (intro wf_term.wf_object) (auto simp: functional_def)
qed

lemma nested_tree: "\<not> isComposite v \<Longrightarrow> tree_ok A (NewEditTree (nested v)) \<and> EditTree_Render (NewEditTree (nested v)) = Some (Some (nested v))"
  using NewEditTree_ok Render_NewEditTree wf_fits nested_wf by blast

lemma nested_updates:
  assumes "R {|(MString (str ''b''), v)|} y"
  shows "updates R [MString (str ''a'')] (nested v) (MObject {|(MString (str ''a''), MObject y)|})"
proof -
  have "updates R [MString (str ''a'')] (nested v)
    (MObject (obj_put (MString (str ''a'')) (MObject y) {|(MString (str ''a''), MObject {|(MString (str ''b''), v)|})|}))"
    by (rule updates_below) (use updates_here [where R = R, OF assms] in simp_all)
  moreover have "obj_put k w {|(k, w')|} = {|(k, w)|}" for k w w' by (auto simp: obj_put_def)
  ultimately show ?thesis by simp
qed

theorem InsertAtPath_correct_witness:
  "\<exists>r e'. EditTree_InsertAtPath sample_ops [MString (str ''a''), MString (str ''b'')] (MBool True) (NewEditTree (nested MNull)) = Some (Inr r, e') \<and>
     EditTree_Render e' = Some (Some (nested (MBool True)))"
proof -
  have "obj_put (MString (str ''b'')) (MBool True) {|(MString (str ''b''), MNull)|} = {|(MString (str ''b''), MBool True)|}"
    by (auto simp: obj_put_def)
  then have "puts_at [MString (str ''a'')] (MString (str ''b'')) (MBool True) (nested MNull) (nested (MBool True))"
    by (intro nested_updates) simp
  from InsertAtPath_correct [OF sample_finds conjunct1 [OF nested_tree] conjunct2 [OF nested_tree] wf_scalar this]
  show ?thesis by (auto simp: isComposite_def)
qed

text \<open>C15.  Deleting at a path through objects that leads to a value succeeds and makes the tree render to the term
  without it, everything else as before; the tree stays well formed.\<close>

theorem DeleteAtPath_correct:
  assumes "finds A" and "tree_ok A e" and "EditTree_Render e = Some (Some t)" and "drops_at path k t t'"
  shows "\<exists>r e'. EditTree_DeleteAtPath A (path @ [k]) e = Some (Inr r, e') \<and> tree_ok A e' \<and> EditTree_Render e' = Some (Some t')"
proof -
  have "\<exists>r e'. EditTree_Delete A k e = Some (Inr r, e') \<and> tree_ok A e' \<and> EditTree_Render e' = Some (Some (MObject y'))"
    if "tree_ok A e" "EditTree_Render e = Some (Some (MObject y))" "(\<exists>v. (k, v) |\<in>| y) \<and> y' = obj_drop k y" for e y y'
    using Delete_tree_ok [OF assms(1) that(1,2)] that(3) by blast
  from Unfold_updates [OF assms(1) this assms(4,2,3)] show ?thesis by (simp add: EditTree_DeleteAtPath_def)
qed

theorem DeleteAtPath_correct_witness:
  "\<exists>r e'. EditTree_DeleteAtPath sample_ops [MString (str ''a''), MString (str ''b'')] (NewEditTree (nested MNull)) = Some (Inr r, e') \<and>
     EditTree_Render e' = Some (Some (MObject {|(MString (str ''a''), MObject {||})|}))"
proof -
  have "obj_drop (MString (str ''b'')) {|(MString (str ''b''), MNull)|} = {||}" by (auto simp: obj_drop_def)
  then have "drops_at [MString (str ''a'')] (MString (str ''b'')) (nested MNull) (MObject {|(MString (str ''a''), MObject {||})|})"
    by (intro nested_updates) auto
  from DeleteAtPath_correct [OF sample_finds conjunct1 [OF nested_tree] conjunct2 [OF nested_tree] this]
  show ?thesis by (auto simp: isComposite_def)
qed

section \<open>Sets\<close>

text \<open>C18. On a well-formed tree over a set, insertion makes it render to the set with the element, deletion to the set without
  it, and deleting what is not there is an error after which the tree renders as before; scalars and composite
  elements alike, and the tree stays well formed (over the set it renders to, when it starts afresh).\<close>

theorem set_edits_correct:
  assumes "finds A" and "set_ok A x e" and "EditTree_Render e = Some (Some (MSet y))" and "fits k"
  shows "(\<exists>x' e'. EditTree_Insert A k k e = Some (Inr (NewEditTree k), e') \<and> set_ok A x' e' \<and>
       EditTree_Render e' = Some (Some (MSet (finsert k y)))) \<and>
    (\<exists>r x' e'. EditTree_Delete A k e = Some (r, e') \<and> (if k |\<in>| y then r = Inr (NewEditTree k) else \<exists>err. r = Inl err) \<and>
       set_ok A x' e' \<and> EditTree_Render e' = Some (Some (MSet (y |-| {|k|}))))"
proof (rule conjI)
  show "\<exists>x' e'. EditTree_Insert A k k e = Some (Inr (NewEditTree k), e') \<and> set_ok A x' e' \<and>
       EditTree_Render e' = Some (Some (MSet (finsert k y)))"
    by (rule Insert_set [OF assms(2,4,3)])
  have "k |\<notin>| y \<Longrightarrow> y |-| {|k|} = y" by auto
  then show "\<exists>r x' e'. EditTree_Delete A k e = Some (r, e') \<and> (if k |\<in>| y then r = Inr (NewEditTree k) else \<exists>err. r = Inl err) \<and>
       set_ok A x' e' \<and> EditTree_Render e' = Some (Some (MSet (y |-| {|k|})))"
    using Delete_set [OF assms(1-3), of k] by (cases "k |\<in>| y") (simp_all, blast+)
qed

theorem set_edits_correct_witness:
  "\<exists>r e'. EditTree_Delete sample_ops MNull (NewEditTree (MSet {|MNull|})) = Some (Inr r, e') \<and>
     EditTree_Render e' = Some (Some (MSet {||}))"
proof -
  have "set_ok sample_ops {|MNull|} (NewEditTree (MSet {|MNull|}))"
    using keyed_ok_new by (simp add: set_ok_def NewEditTree_def)
  moreover have "EditTree_Render (NewEditTree (MSet {|MNull|})) = Some (Some (MSet {|MNull|}))"
    by (rule Render_NewEditTree) (simp add: fits_def)
  ultimately show ?thesis
    using set_edits_correct [OF sample_finds, of "{|MNull|}" "NewEditTree (MSet {|MNull|})" "{|MNull|}" MNull] by (auto simp: fits_def)
qed

section \<open>The bookkeeping of arrays\<close>

text \<open>Rendering panics at an index that is marked as inserted and has no child.\<close>

lemma render_array_missing:
  assumes "i \<in> set is" and "BitVector_Element ins (int i) = Some b" and "b \<noteq> 0" and "map_of ss (int i) = None" and "map_of cs (int i) = None"
  shows "render_array xs ss cs el ins eIdx is = None"
  using assms(1)
proof (induction "is" arbitrary: eIdx)
  case (Cons k "is")
  show ?case
  proof (cases "k = i")
    case True
    then show ?thesis using assms(2-5) by simp
  next
    case False
    then have "\<And>eIdx. render_array xs ss cs el ins eIdx is = None" using Cons by simp
    then show ?thesis by (simp add: bind_eq_None_conv split: option.splits)
  qed
qed simp

lemma Render_missing:
  assumes "etvalue e = Some (MArray xs)" and "bv_inv (insertions e)" and "i < length (bits (insertions e))" and "bits (insertions e) ! i"
    and "scalars e (int i) = None" and "composites e (int i) = None"
  shows "EditTree_Render e = None"
proof -
  have "BitVector_Element (insertions e) (int i) = Some 1" using Element_bit [OF assms(2,3)] assms(4) by simp
  moreover have "i \<in> set [0..<nat (BitVector_Length (insertions e))]" using Length_bits [OF assms(2)] assms(3) by simp
  ultimately have "render_array xs (childScalarValues e) (map (map_prod id (map_option EditTree_Render)) (childCompositeValues e))
      (eliminated e) (insertions e) 0 [0..<nat (BitVector_Length (insertions e))] = None"
    using assms(5,6) by (intro render_array_missing [where b = 1 and i = i]) (simp_all add: map_of_map_prod)
  then show ?thesis using assms(1) by (cases e) (simp add: render_node_def)
qed

text \<open>What the rewrites leave of a scalar child directly below a composite one.\<close>

lemma rewrites_lose:
  assumes "children_ok e" and "int idx \<le> k" and "scalars e k \<noteq> None" and "composites e (k + 1) \<noteq> None"
    and rs: "rs = rev (filter (\<lambda>i. scalars e i \<noteq> None) (map int [idx..<length (bits (insertions e))]))"
    and rc: "rc = rev (filter (\<lambda>i. composites e i \<noteq> None) (map int [idx..<length (bits (insertions e))]))"
  shows "scalars (fold (rewrite_composite 1) rc (fold (rewrite_scalar 1) rs e)) (k + 1) = None"
    and "composites (fold (rewrite_composite 1) rc (fold (rewrite_scalar 1) rs e)) (k + 1) = None"
proof -
  have far: "far_first 1 rs" "far_first 1 rc" unfolding rs rc by (rule far_first_indexes)+
  have "scalars e k = None \<or> composites e k = None" using assms(1) by (simp add: children_ok_def kids_ok_def)
  then have "k \<notin> set rc" "k + 1 \<in> set rc"
    unfolding rc set_rev collected_sets(2) [OF assms(1)] using assms(2-4) by auto
  then show "scalars (fold (rewrite_composite 1) rc (fold (rewrite_scalar 1) rs e)) (k + 1) = None"
    "composites (fold (rewrite_composite 1) rc (fold (rewrite_scalar 1) rs e)) (k + 1) = None"
    using rewrite_composites [OF far(2), of "fold (rewrite_scalar 1) rs e"] by simp_all
qed

text \<open>C19. A scalar child directly below a composite one is lost when something is inserted at or below it: scalars are
  moved first, to the index of the composite, and moving the composite clears that index in both maps.  The insertion
  succeeds, the moved index is marked as inserted and has no child, and rendering panics.\<close>

theorem insert_loses_scalar:
  assumes "NumberInt A (of_int i) = Some i" and "array_ok xs e" and "length (bits (insertions e)) < 2 ^ 32"
    and "0 \<le> i" and "i \<le> k" and "scalars e k \<noteq> None" and "composites e (k + 1) \<noteq> None"
  shows "\<exists>e'. EditTree_Insert A (MNumber (of_int i)) v e = Some (Inr (NewEditTree v), e') \<and>
    bits (insertions e') ! nat (k + 1) \<and> scalars e' (k + 1) = None \<and> composites e' (k + 1) = None \<and> EditTree_Render e' = None"
proof -
  define idx where "idx = nat i"
  have i: "i = int idx" using assms(4) by (simp add: idx_def)
  have inv: "etvalue e = Some (MArray xs)" "bv_inv (insertions e)" "children_ok e" using assms(2) by (simp_all add: array_ok_def)
  have k: "k + 1 < int (length (bits (insertions e)))" using children_in_range(2) [OF inv(3) assms(7)] by simp
  then have len: "BitVector_Length (insertions e) = int (length (bits (insertions e)))" "idx < length (bits (insertions e))"
    using Length_bits [OF inv(2)] assms(5) i by auto
  let ?is = "map int [idx..<length (bits (insertions e))]"
  let ?rs = "filter (\<lambda>i. scalars e i \<noteq> None) ?is" and ?rc = "filter (\<lambda>i. composites e i \<noteq> None) ?is"
  let ?e2 = "fold (rewrite_composite 1) (rev ?rc) (fold (rewrite_scalar 1) (rev ?rs) e)"
  have coll: "collect e ?is = Some (?rs, ?rc)" by (rule collect_children [OF inv(2,3)]) auto
  have lost: "scalars ?e2 (k + 1) = None" "composites ?e2 (k + 1) = None"
    using rewrites_lose [OF inv(3) _ assms(6,7) refl refl] assms(5) i by auto
  obtain ins where ins: "bv_inv ins" "bits ins = take idx (bits (insertions e)) @ True # drop idx (bits (insertions e))"
    "BitVector_Insert 1 (int idx) (insertions e) = Some ins"
    using bv.insert_abs [OF inv(2), of "int idx" 1] len assms(3) by auto
  define e' where "e' = (if isComposite v then EditTree_setChildCompositeValue (int idx) (Some (NewEditTree v)) (setInsertions ins ?e2)
                 else EditTree_setChildScalarValue (int idx) (Some v) (setInsertions ins ?e2))"
  have "EditTree_unsafeInsertArray (int idx) v e = Some e'"
    using ins(3) len by (simp add: EditTree_unsafeInsertArray_def coll tree_simps e'_def Let_def del: upt_Suc)
  then have res: "EditTree_Insert A (MNumber (of_int i)) v e = Some (Inr (NewEditTree v), e')"
    using assms(1) inv(1) len by (simp add: EditTree_Insert_def toIndex_def i)
  have f: "etvalue e' = Some (MArray xs)" "insertions e' = ins" using inv(1) by (simp_all add: e'_def tree_simps)
  have gone: "scalars e' (k + 1) = None" "composites e' (k + 1) = None" using lost assms(5) i by (auto simp: e'_def tree_simps)
  have bit: "0 \<le> k" "bits (insertions e) ! nat k" using children_at [OF inv(3), of k] assms(6) by auto
  define n where "n = nat k"
  have n: "k = int n" "idx \<le> n" "nat (k + 1) = Suc n" using bit(1) assms(5) i by (auto simp: n_def)
  then have "bits ins ! Suc n" "Suc n < length (bits ins)"
    using bit(2) k by (simp_all add: ins(2) nth_append Suc_diff_le)
  then show ?thesis using res gone f Render_missing [OF f(1), of "Suc n"] ins(1) n by (simp add: add.commute)
qed

text \<open>A null and an empty array inserted into an empty array.\<close>

definition ex_one_child :: EditTree where
  "ex_one_child = the (EditTree_unsafeInsertArray (int 0) MNull (NewEditTree (MArray [])))"

definition ex_two_children :: EditTree where
  "ex_two_children = the (EditTree_unsafeInsertArray (int 1) (MArray []) ex_one_child)"

lemma ex_children:
  "childCompositeValues ex_one_child = []" "length (bits (insertions ex_one_child)) = 1" "length (bits (insertions ex_two_children)) = 2"
  "scalars ex_two_children 0 \<noteq> None" "composites ex_two_children (0 + 1) \<noteq> None"
  by code_simp+

lemma ex_two_children_ok: "array_ok [] ex_two_children"
proof -
  have "array_ok [] (NewEditTree (MArray []))" by (rule NewEditTree_array(1)) simp
  then obtain e1 where "EditTree_unsafeInsertArray (int 0) MNull (NewEditTree (MArray [])) = Some e1" "array_ok [] e1"
    using unsafeInsertArray_correct [of "[]" "NewEditTree (MArray [])" 0 MNull]
    by (auto simp: fits_def no_clash_def NewEditTree_def array_ok_def)
  then have ok: "array_ok [] ex_one_child" by (simp add: ex_one_child_def)
  then obtain e2 where "EditTree_unsafeInsertArray (int 1) (MArray []) ex_one_child = Some e2" "array_ok [] e2"
    using unsafeInsertArray_correct [of "[]" ex_one_child 1 "MArray []"] ex_children by (auto simp: fits_def no_clash_def)
  then show ?thesis by (simp add: ex_two_children_def)
qed

theorem insert_loses_scalar_witness:
  "\<exists>e'. EditTree_Insert sample_ops (MNumber (of_int 0)) (MBool True) ex_two_children = Some (Inr (NewEditTree (MBool True)), e') \<and>
    EditTree_Render e' = None"
proof -
  have A: "NumberInt sample_ops (of_int 0) = Some 0" by (simp add: sample_ops_def)
  show ?thesis
    using insert_loses_scalar [OF A ex_two_children_ok _ order_refl order_refl ex_children(4,5), of "MBool True"] ex_children(3) by auto
qed

text \<open>A path through an index is unfolded with the element of the original array at that index, although an insertion
  has moved the elements: the element at index 1 is replaced by a copy of its neighbour.\<close>

lemma unfold_wrong_element:
  "do {
     (_, e1) \<leftarrow> EditTree_Insert sample_ops (MNumber 0) MNull (NewEditTree (MArray [MArray [], MArray [MNull]]));
     (r, e2) \<leftarrow> EditTree_InsertAtPath sample_ops [MNumber 1, MNumber 0] (MBool True) e1;
     Some (EditTree_Render e1, EditTree_Render e2) }
   = Some (Some (Some (MArray [MNull, MArray [], MArray [MNull]])), Some (Some (MArray [MNull, MArray [MBool True, MNull], MArray [MNull]])))"
  by code_simp

text \<open>A deleted element of a set still exists, and rendering at it panics.\<close>

lemma deleted_element_exists:
  "do {
     (_, e1) \<leftarrow> EditTree_Delete sample_ops (MString (str ''a'')) (NewEditTree (MSet {|MString (str ''a'')|}));
     (b, e2) \<leftarrow> EditTree_Exists sample_ops [MString (str ''a'')] e1;
     Some (EditTree_Render e1, b, EditTree_RenderAtPath sample_ops [MString (str ''a'')] e2) }
   = Some (Some (Some (MSet {||})), True, None)"
  by (simp add: EditTree_Delete_def deleteSet_def isComposite_def NewEditTree_def EditTree_getKeyHash_def getKeyHash_loop.simps EditTree_fallbackDelete_def
      sample_ops_def render_node_def EditTree_RenderAtPath_def unfold_set_def at_scalar_def nil_or_def) auto

end
