(* ===== verification/Spec2Isabelle.thy ===== *)
theory Spec2Isabelle
  imports Bit_Vector Example Builtins_Machine Iropt Store_Tree Patch_Heap Inmem_Locks Edit_Tree_Edits
begin

text \<open>
  A verification development for EOPA, the Open Policy Agent with a byte-code engine.

  \<^bold>\<open>The program.\<close>  OPA's planner turns Rego policies into an intermediate representation (IR).  The compiler
  (src/pkg/vm/compiler.go) translates the IR into an executable, one slice of bytes with a header, a string
  table, functions and plans (src/pkg/vm/executable.go).  The machine decodes and runs the bytes in place
  (src/pkg/vm/statements.go, src/pkg/vm/vm.go): registers live in linked buckets of 32 values, calls run in an
  inner state, results of calls are memoized, \<open>with\<close> replaces part of the input or data for a block, and a
  counter of instructions bounds the work.  Answers of queries can be cached (src/pkg/vm/cache.go).  An edit tree
  (src/pkg/internal/edittree) records insertions and deletions on a term and renders the result; its index structure for
  arrays is the bit vector of src/pkg/internal/edittree/bitvector.
  Values are JSON values of src/pkg/json: documents with sorted objects, and sets and objects in hash tables that
  evaluation builds.

  \<^bold>\<open>The theories.\<close>
  \<^item> \<open>Prelude\<close>: names of Go's integer types, collections of rewrite rules, generic lemmas.
  \<^item> \<open>Bit_Vector\<close>: bitvector.go, all operations on 8-bit words.  Each operation is proved equal to the operation
    on the list of bits it represents, with its bounds check and the well-formedness of the result.
  \<^item> \<open>Bytes\<close> and \<open>Executable\<close>: executable.go.  The encoders and decoders of every structure, in the order of the
    file; what a decoder returns on the output of its encoder; the limits of the 24-bit length field.
  \<^item> \<open>Compiler\<close>: compiler.go.  \<open>Compile_Checks\<close> says what it accepts.
  \<^item> \<open>Registers\<close>: the buckets and the bit set of vm.go, with a locale for their contract as one array.
  \<^item> \<open>VM_State\<close>, \<open>VM_Exec\<close>, \<open>VM_Eval\<close>: the state, the execution of each statement, function and plan, and \<open>Eval\<close>
    with the cache of answers and the statistics of the context.
  \<^item> \<open>IR_Semantics\<close>: the meaning of the IR, the abstract specification.  \<open>Program_Layout\<close> and \<open>Simulation\<close> prove
    that the machine running compiled bytes implements it; \<open>Compile_Correct\<close> closes the argument for whole
    policies.
  \<^item> \<open>VM_Invariant\<close>: what execution of arbitrary bytes keeps.  \<open>Termination\<close>: fuel.  \<open>VM_Caches\<close>: memoization
    (a locale of tables interpreted on the memo table), the string cache, limits, the cache of answers.
  \<^item> \<open>Json_Number\<close>: numbers as text, their exact value and their double; \<open>compareFloat\<close> with its
    shortcut for what is zero as a \<open>big.Float\<close> and its panic on exponents that \<open>big.Rat\<close> does not take.
  \<^item> \<open>Json_Table\<close>: the hash tables of set.go and object2.go, compact and large, with the locale \<open>hashed_values\<close>
    of an equality and a hash that respects it; sets refine finite sets and objects finite maps.
  \<^item> \<open>Json\<close>: values, order (json.go), hash (hash.go), equality (compare.go).  \<open>Json_Meaning\<close>: what values stand for,
    and that equality and hash follow it.  \<open>Json_Values\<close> interprets the locale on them.  \<open>Json_Union\<close>: union.go and
    the \<open>Union\<close> and \<open>Diff\<close> methods, against a relation that says what a union is.
  \<^item> \<open>Data_Ops\<close>: data.go, the operations of the machine on JSON values and on objects outside of memory that are
    read through an interface.  \<open>vrep\<close> says what a value stands for; each operation refines one on meanings.
  \<^item> \<open>Json_Patch\<close>: ptr.go, JSON pointers; reading operations of a patch; and what a patch does to a document, as a
    specification.  \<open>Patch_Heap\<close> (after the store): patch.go on values in memory, with shallow clones that share names,
    refines it on values that share nothing, and copies show what happens otherwise.  \<open>Deep_Copy\<close>: deep copies.
  \<^item> \<open>Json_Heap\<close>: the representations of arrays and objects in memory (array.go, array_strings.go, object.go,
    object_strings.go), changed in place, on a heap with Go slices.  \<open>Json_Heap_Correct\<close>: each operation does what the list
    of elements or members says, and what else it may change.
  \<^item> \<open>Store\<close>: the transactions of the in-memory store (src/pkg/storage/inmem) on that heap.  \<open>Store_Correct\<close>: footprints
    of values, what they stand for, and what an update in place does to it.  \<open>Store_Txn\<close>: transactions refine changes of
    documents that do not overlap, through objects; below arrays they do not, which is shown on examples.
  \<^item> \<open>Inmem\<close>: the interface of that store (inmem.go) with its locks, directories and merging.  \<open>Inmem_Locks\<close>: concurrent
    transactions as a step relation, with its invariant, isolation of readers (root, policies and committed document) and
    progress of commits.
  \<^item> \<open>Store_Tree\<close>: the virtual store (tree.go, store.go) that routes paths to a root store and to attached stores.
  \<^item> \<open>Builtins\<close>: builtins.go, the builtins the machine implements itself and their table.  \<open>Builtins_Correct\<close> (lookups,
    selections, arrays, sets), \<open>Builtins_Walk\<close> (paths) and \<open>Builtins_Text\<close> (strings, runes, ranges) say what they compute on
    meanings; \<open>Builtins_Machine\<close> states the properties and puts data operations and builtins into the machine.
  \<^item> \<open>Iropt\<close>: src/pkg/iropt, the optimiser of the IR: traversals, register analysis, loop-invariant code motion,
    replacement of empty loops.  What the passes keep in the IR semantics, and where they change the meaning.
  \<^item> \<open>Edit_Tree\<close>: edittree.go, nodes, insertion, deletion, paths, rendering and \<open>Exists\<close>.  \<open>Edit_Tree_Correct\<close>: a node over an
    array renders to the surviving elements woven with the inserted ones, what the rewriting of the indexes does to
    them, insertion and deletion at an index.  \<open>Edit_Tree_Object\<close>: the table of keys with linear probing, objects and sets as
    finite sets of entries, paths through objects.  \<open>Edit_Tree_Edits\<close>: the properties, and what the bookkeeping of indexes
    gets wrong.
  \<^item> \<open>Example\<close>: a small policy, its executable and a state, the inputs of the witnesses.

  \<^bold>\<open>Conventions.\<close>  A Go method \<open>m\<close> of type \<open>T\<close> is \<open>T_m\<close>.  \<open>None\<close> is a panic; errors are the left summand of a sum.
  Go's undefined value, nil, is \<open>None\<close> of the register's type \<open>'v option\<close>.  Go's \<open>int\<close> is \<open>int\<close>; all narrower
  types are words, with their conversions written out.

  \<^bold>\<open>Fuel.\<close>  The executor recurses through nested blocks and calls, so \<open>statement_Execute\<close> takes fuel and returns
  \<open>None\<close> without it.  \<open>Termination\<close> computes a bound from the policy (\<open>fuel_bound\<close>: nesting depth times the chain
  of functions, which the compiler keeps acyclic) and proves that it is enough for every policy without dynamic
  calls; more fuel never changes a result.  A dynamic call can reach any function, so no static bound exists.

  \<^bold>\<open>Parameters.\<close>  In the machine the operations on values (src/pkg/vm/data.go) are the record \<open>ops\<close>, builtins and OPA's AST
  functions are parts of \<open>env\<close> and \<open>cache_env\<close>.  The theorems on the machine hold for every instance.  The digest
  (xxhash) is a parameter of the hash of values; nothing depends on it, collisions included.
  OPA's storage paths are the record \<open>path_ops\<close> of the store (their laws are \<open>path_laws\<close>), the growth of Go's slices is the
  function \<open>grow\<close>, of which only that it makes room is assumed, and the stores below the virtual store are the record \<open>backend\<close>.
  OPA's hashes of terms, integers of numbers and search of paths in terms are the record \<open>ast_ops\<close> of the edit tree (\<open>finds\<close> is what
  is assumed of the search).  In \<open>Builtins_Machine\<close> the builtins that are not modelled are parameters as well, of which the
  theorem there assumes that they keep the machine's invariant.

  \<^bold>\<open>Simplifications.\<close>  The statistics are \<open>int64\<close> in the code and unbounded here: the instruction counter is exact as long
  as the limit of instructions and the size of one block together are below 2 ^ 63.  \<open>DataOperations_ObjectInsert\<close> changes the
  object of a register in place in the code; here it is a returned value.  A panic of a data operation is an ordinary error
  where data operations are put into the machine (\<open>Builtins_Machine.data_ops\<close>).  Numbers are compared and hashed by their exact
  values where these are within the range of doubles; the limits are part of \<open>json_ok\<close>.

  \<^bold>\<open>Not modelled.\<close>  Export of intermediate results into the request context, the conversion of the runtime term,
  the goroutine that turns a cancelled context into a flag (\<open>env_cancelled\<close> says at which check the flag is
  seen), parsing of the cache's configuration, \<open>sprintf\<close> and \<open>json.unmarshal\<close>, the disk and SQL backends of storage, triggers
  and \<open>Truncate\<close>, \<open>Filter\<close> and \<open>String\<close> of the edit tree, binary documents, snapshots and deltas, bundle activation, plugins, the
  server and the reflection-driven JSON codec.
\<close>

section \<open>The compiled policy means what the policy means\<close>

text \<open>C1.  Compiler correctness, end to end: evaluating a query on the executable compiled from a policy gives what
  the plan of that name means, for every policy whose numbers fit their fields (\<open>wf_policy\<close>) and whose executable
  is shorter than 2 ^ 24 bytes.  The result or the error, the answer cache and the statistics after the query are the
  same, and so are panics; within the evaluation the two sides go through the same states, with their memoized
  results, limits and cancellation.\<close>

theorem VM_Eval_correct:
  assumes "Compile be p = Some (Inr (env_executable env))" and "length (env_executable env) < 2 ^ 24" and "wf_policy p"
  shows "VM_Eval env ce fuel name opts = ir_eval be env ce p fuel name opts"
proof (rule VM_Eval_sim)
  show "runs be p env" using assms by (simp add: runs_def)
qed

theorem VM_Eval_correct_witness:
  "map_option fst (VM_Eval ex_env ex_cache 3 (str ''main'') ex_opts) = Some (Inr (str ''[hi]''))"
  using VM_Eval_correct [of ex_builtins ex_policy ex_env ex_cache 3 "str ''main''" ex_opts] ex_runs ex_result
  by (simp add: runs_def)

text \<open>C2.  Correctness of one statement: the machine executes the bytes of a compiled statement, whatever follows
  them, as the statement itself is executed, and reports the length of the bytes as the size to skip.\<close>

theorem statement_Execute_correct:
  assumes "runs be p env" and "compileStmt (index_of (take k (ir_names p))) stmt = Some (Inr d)" and "wf_stmt stmt"
    and "length d < 2 ^ 24"
  shows "statement_Execute env fuel (d @ r) s = with_size (length d) (ir_exec be env p fuel stmt s)"
  using simD [OF statement_sim [OF assms(1)] _ assms(2-4)] index_ok_prefix [of p "take k (ir_names p)" "drop k (ir_names p)"]
  by simp

theorem statement_Execute_correct_witness:
  "statement_Execute ex_env 1 (the (breakStmt_Write 2) @ [0]) ex_state = Some ((True, 2, 8, None), ex_state)"
  using statement_Execute_correct [of ex_builtins ex_policy ex_env 0 "BreakStmt 2" "the (breakStmt_Write 2)" 1 "[0]" ex_state] ex_runs
  by (simp add: compile_simple_def breakStmt_Write_eq with_size_def ir_step_def ir_simple_def leave_def)

text \<open>C3.  Termination: a policy without dynamic calls is evaluated within a depth computed from the policy.  With
  that fuel the bottom of the recursion is never reached: any executor put there gives the same result, and so
  does any larger fuel.\<close>

theorem VM_Eval_terminates:
  assumes "runs be p env" and "static_policy p" and "fuel_bound p \<le> fuel"
  shows "VM_Eval env ce fuel name opts = ir_eval_from bottom be env ce p (fuel_bound p) name opts"
  using VM_Eval_bottom [OF assms] .

theorem VM_Eval_terminates_witness:
  "VM_Eval ex_env ex_cache 100 (str ''main'') ex_opts =
   ir_eval_from (\<lambda>env stmt s. leave 1 s) ex_builtins ex_env ex_cache ex_policy 2 (str ''main'') ex_opts"
proof -
  have "static_policy ex_policy" and "fuel_bound ex_policy = 2" by code_simp+
  then show ?thesis using VM_Eval_terminates [OF ex_runs, of 100] by simp
qed

text \<open> On any executable, compiled or not, more fuel never changes a result.\<close>

theorem VM_Eval_more_fuel:
  assumes "VM_Eval env ce n name opts = Some r" and "n \<le> m"
  shows "VM_Eval env ce m name opts = Some r"
  using VM_Eval_approx [OF assms(2), of env ce name opts] assms(1) by (simp add: approx_def)

theorem VM_Eval_more_fuel_witness:
  "map_option fst (VM_Eval ex_env ex_cache 9 (str ''main'') ex_opts) = Some (Inr (str ''[hi]''))"
proof -
  obtain r where r: "ir_eval ex_builtins ex_env ex_cache ex_policy 3 (str ''main'') ex_opts = Some r" "fst r = Inr (str ''[hi]'')"
    using ex_result by auto
  then have "VM_Eval ex_env ex_cache 3 (str ''main'') ex_opts = Some r" by (simp only: VM_Eval_sim [OF ex_runs])
  then show ?thesis using VM_Eval_more_fuel [of ex_env ex_cache 3 "str ''main''" ex_opts r 9] r(2) by simp
qed

text \<open> A query for a name that is no plan ends with \<open>ErrQueryNotFound\<close> and leaves the cache alone.\<close>

theorem VM_Eval_unknown_query:
  assumes "runs be p env" and "name \<notin> set (map pl_Name (po_Plans p))"
  shows "VM_Eval env ce fuel name opts = Some (Inl ErrQueryNotFound, eo_InterQueryBuiltinCache opts, eo_Statistics opts)"
proof -
  have "position name (map pl_Name (po_Plans p)) = None" using assms(2) by (simp only: position_None) simp
  then show ?thesis by (simp add: VM_Eval_sim [OF assms(1)] ir_eval_def)
qed

theorem VM_Eval_unknown_query_witness:
  "VM_Eval ex_env ex_cache 1 (str ''other'') ex_opts = Some (Inl ErrQueryNotFound, Some Map.empty, eo_Statistics ex_opts)"
proof -
  have "str ''other'' \<notin> set (map pl_Name (po_Plans ex_policy))" by code_simp
  from VM_Eval_unknown_query [OF ex_runs this, of ex_cache 1 ex_opts] show ?thesis by (simp add: ex_opts_def)
qed

text \<open> A dynamic call finds the function by its path: \<open>FindByPath\<close> skips the builtins and returns the number of
  the first function with exactly that path, or nothing.\<close>

theorem FindByPath_correct:
  assumes "runs be p env"
  shows "map_option (map_option snd) (State_FindByPath env path) =
    Some (map_option (\<lambda>j. int (length (po_BuiltinFuncs p) + j)) (position path (map fn_Path (po_Funcs p))))"
  by (rule find_path_sim [OF assms statement_sim [OF assms, of 0], where path = path]) simp_all

theorem FindByPath_correct_witness:
  "map_option (map_option snd) (State_FindByPath ex_env [str ''f'']) = Some (Some 0)"
  using FindByPath_correct [OF ex_runs, of "[str ''f'']"] by (simp add: ex_policy_def)

text \<open> The string cache is transparent: any sequence of lookups of string constants, starting from an empty
  cache, gives the strings of the policy.\<close>

theorem string_cache_transparent:
  assumes "runs be p env" and "Executable_Strings (env_executable env) = Some ss"
    and "list_all (\<lambda>i. 0 \<le> i \<and> i < int (length (po_Strings p))) is"
  shows "string_lookups mk ss (replicate (length (po_Strings p)) None) is = Some (map (\<lambda>i. mk (po_Strings p ! nat i)) is)"
proof (rule string_lookups_ok)
  fix i assume "i < length (po_Strings p)"
  then have "VM_string (env_executable env) (int i) = Some (po_Strings p ! i)"
    by (simp add: VM_string_runs [OF assms(1)] ir_string_def)
  then show "strings_bytes ss (int i) = Some (po_Strings p ! i)"
    by (auto simp: VM_string_def assms(2) bind_eq_Some_conv split: if_splits)
qed (use assms(3) in \<open>simp_all add: string_cache_new\<close>)

theorem string_cache_transparent_witness:
  "\<exists>ss. string_lookups VStr ss [None] [0, 0] = Some [VStr (str ''hi''), VStr (str ''hi'')]"
proof -
  have "VM_string (env_executable ex_env) 0 = Some (str ''hi'')"
    by (simp add: VM_string_runs [OF ex_runs] ir_string_def ex_policy_def)
  then obtain ss where "Executable_Strings (env_executable ex_env) = Some ss" by (auto simp: VM_string_def bind_eq_Some_conv)
  from string_cache_transparent [OF ex_runs this, of "[0, 0]" VStr] show ?thesis by (auto simp: ex_policy_def)
qed

section \<open>What the compiler accepts\<close>

text \<open>C4.  The compiler accepts only sound policies: when it succeeds, every declared builtin has an implementation,
  every function has parameters, no statement is of an unsupported type, and every static call goes to a builtin
  or to an earlier function, so that there is no recursion and no dangling call.\<close>

theorem Compile_accepts_only:
  assumes "Compile be p = Some (Inr e)"
  shows "policy_ok be p"
  using Compile_sound [OF assms] .

theorem Compile_accepts_only_witness: "policy_ok ex_builtins ex_policy"
  using Compile_accepts_only [OF ex_compile] .

text \<open> A block compiles exactly when its statements are supported and call only known functions, given that the
  numbers in it fit their fields.\<close>

theorem compileBlock_iff:
  assumes "list_all wf_stmt b" and "list_all stmt_small b"
  shows "(\<exists>d. compileBlock fi b = Some (Inr d)) \<longleftrightarrow> list_all (stmt_ok (\<lambda>f. fi f \<noteq> None)) b"
  using compileStmt_sound(2) [of fi b] compileStmt_complete(2) [of fi b] assms
  by (auto simp: compileBlock_def and_then_Inr block_Write_eq)

theorem compileBlock_iff_witness:
  "\<not> (\<exists>d. compileBlock Map.empty [NotStmt [CallStmt (str ''g'') [] 3]] = Some (Inr d))"
  using compileBlock_iff [of "[NotStmt [CallStmt (str ''g'') [] 3]]" Map.empty] by (simp add: wf_local_def)

section \<open>What execution keeps\<close>

text \<open>C6.  Invariant of execution, on any bytes: the registers stay well formed, the memoization tables below the
  current one and their number do not change, and the instruction counter never goes down, if the builtins
  that are given to the machine keep all this themselves (\<open>builtins_keep\<close>).\<close>

theorem statement_Execute_invariant:
  assumes "builtins_keep env" and "state_ok s"
  shows "case statement_Execute env fuel d s of
      None \<Rightarrow> True
    | Some (r, s') \<Rightarrow> state_ok s' \<and> butlast (g_memoize (s_Globals s')) = butlast (g_memoize (s_Globals s)) \<and>
        g_EvalInstructions (s_Globals s) \<le> g_EvalInstructions (s_Globals s')"
  using keeps_st [OF keeps_statement [OF assms(1)], of fuel d s] assms(2)
  by (auto simp: keeps_def split: option.split prod.split)

theorem statement_Execute_invariant_witness:
  "case statement_Execute ex_env 3 (drop 200 ex_executable) ex_state of
      None \<Rightarrow> True
    | Some (r, s') \<Rightarrow> state_ok s' \<and> butlast (g_memoize (s_Globals s')) = butlast (g_memoize (s_Globals ex_state)) \<and>
        g_EvalInstructions (s_Globals ex_state) \<le> g_EvalInstructions (s_Globals s')"
  using statement_Execute_invariant [OF ex_builtins_keep ex_state_ok] .

text \<open>C5.  \<open>with\<close> undoes itself on every way out, errors and breaks included: the local it replaced has its old value,
  and the stack of memoized results is the one before the statement, if the builtins given to the machine leave
  the registers well formed and the tables below the current one alone (\<open>builtins_keep\<close>).\<close>

theorem with_Execute_restores:
  fixes s :: "('v, 'a, 'e) State"
  assumes "builtins_keep env" and "state_ok s" and "with_Execute env (statement_Execute env fuel) w s = Some (r, s')"
  shows "\<exists>local. with_Local w = Some local \<and> State_Local s' local = State_Local s local \<and>
    g_memoize (s_Globals s') = g_memoize (s_Globals s)"
proof -
  obtain local and a :: "('v, 'a, 'e) State" where w: "with_Local w = Some local" "g_memoize (s_Globals s') = g_memoize (s_Globals s)" "state_ok a"
    "s_locals s' = s_locals (State_SetValue local (State_Local s local) a)"
    by (rule with_Execute_state [OF keeps_statement [OF assms(1)] assms(2,3)]) blast
  then have "State_Local s' local = State_Local s local"
    by (simp add: State_Local_def State_SetValue_def map_locals_def regs.read_write state_ok_def)
  with w show ?thesis by blast
qed

theorem with_Execute_restores_witness:
  "map_option (\<lambda>(r, s). State_Local s 1) (with_Execute ex_env (statement_Execute ex_env 2) ex_with ex_state) =
   Some (Some (VObj []))"
proof -
  obtain r s' where run: "with_Execute ex_env (statement_Execute ex_env 2) ex_with ex_state = Some (r, s')"
  proof -
    have "with_Execute ex_env (statement_Execute ex_env 2) ex_with ex_state \<noteq> None"
      by code_simp
    then show thesis using that by fast
  qed
  have "with_Local ex_with = Some 1" and "State_Local ex_state 1 = Some (VObj [])" by code_simp+
  then show ?thesis
    using with_Execute_restores [OF ex_builtins_keep ex_state_ok run] run by simp
qed

text \<open>C8.  Frame of calls: a static or dynamic call changes no register of the caller but its target, and neither the
  marks of data locals nor the local to return.\<close>

theorem call_frame:
  assumes "regs_ok (l_registers (s_locals s))"
    and "call_Execute env st c s = Some (r, s') \<and> t = call_Result c \<or>
      callDynamic_Execute env st c s = Some (r, s') \<and> t = callDynamic_Result c"
  shows "l_ret (s_locals s') = l_ret (s_locals s) \<and> l_data (s_locals s') = l_data (s_locals s) \<and>
    (\<forall>w \<ge> 0. t \<noteq> Some w \<longrightarrow> State_Local s' w = State_Local s w)"
  using call_only [OF assms(1), of c env st] callDynamic_only [OF assms(1), of c env st] assms(2)
  unfolding onlyM_def only_def by blast

theorem call_frame_witness:
  "map_option (\<lambda>(r, s). State_Local s 1) (call_Execute ex_env (statement_Execute ex_env 2) ex_call ex_state) =
   Some (Some (VObj []))"
proof -
  have "call_Execute ex_env (statement_Execute ex_env 2) ex_call ex_state \<noteq> None" by code_simp
  then obtain r s' where run: "call_Execute ex_env (statement_Execute ex_env 2) ex_call ex_state = Some (r, s')" by fast
  have "call_Result ex_call = Some 5" and "State_Local ex_state 1 = Some (VObj [])" by code_simp+
  moreover have "\<forall>w \<ge> 0. call_Result ex_call \<noteq> Some w \<longrightarrow> State_Local s' w = State_Local ex_state w"
    using call_frame [OF ex_state_regs, of ex_env _ ex_call r s' "call_Result ex_call"] run by blast
  ultimately show ?thesis using run by simp
qed

section \<open>Caches and limits\<close>

text \<open>C7.  Memoization: once a function has returned for arguments that can be hashed, a second call in a fresh
  activation with the same table returns the same result, without executing any statement of it.\<close>

theorem function_Execute_memoized:
  assumes "function_Execute env st f s args = Some (None, s1)"
    and "function_ParamsLen f = Some np" and "args_slice args 2 (unat np) = Some funArgs" and "isHashable env funArgs"
    and "regs_ok (l_registers (s_locals s))" and "l_ret (s_locals s) = - 1"
  shows "\<exists>t1. (\<forall>st'. function_Execute env st' f (State_New env s1) args = Some (None, t1)) \<and> call_result t1 = call_result s1"
proof -
  have t: "last (g_memoize (s_Globals (State_New env s1))) = last (g_memoize (s_Globals s1))"
    "regs_ok (l_registers (s_locals (State_New env s1)))" "l_ret (s_locals (State_New env s1)) = - 1"
    by (simp_all add: State_New_def newState_def State_SetData_def State_SetValue_def op_defs regs_new regs_write_abs
        split: option.split)
  from function_memoized [OF assms t] show ?thesis by metis
qed

theorem function_Execute_memoized_witness:
  "\<exists>t1. function_Execute ex_env (\<lambda>d s. None) ex_function
      (State_New ex_env (snd (the (function_Execute ex_env (statement_Execute ex_env 2) ex_function ex_state ex_args)))) ex_args =
    Some (None, t1) \<and> call_result t1 = Some (VNum 7)"
proof -
  let ?run = "function_Execute ex_env (statement_Execute ex_env 2) ex_function ex_state ex_args"
  have "map_option (\<lambda>(e, s). (e = None, call_result s)) ?run = Some (True, Some (VNum 7))" by code_simp
  then obtain s1 where run: "?run = Some (None, s1)" and r: "call_result s1 = Some (VNum 7)" by auto
  have "function_ParamsLen ex_function = Some 3" "args_slice ex_args 2 (unat (3 :: u32)) = Some [Some (VNum 7)]"
    "isHashable ex_env [Some (VNum 7)]" "l_ret (s_locals ex_state) = - 1" by code_simp+
  from function_Execute_memoized [OF run this(1-3) ex_state_regs this(4)] show ?thesis using run r by auto
qed

text \<open> Tables of memoized results only return values of the function they memoize, provided that arguments with
  one key have one value.\<close>

theorem memoize_sound:
  assumes "\<And>a b. memo_arg a \<Longrightarrow> memo_arg b \<Longrightarrow> memo_key env a = memo_key env b \<Longrightarrow> f a = f b"
    and "list_all memo_arg as" and "last (g_memoize (s_Globals s)) = Map.empty"
    and "memo_arg a" and "memo_get env (foldl (\<lambda>s a. memo_put env a (f a) s) s as) a = Some v"
  shows "v = f a"
proof -
  have "memo.sound env f s"
    using assms(3) by (auto simp: memo.sound_def memo_get_def State_MemoizeGet_def)
  then have "memo.sound env f (foldl (\<lambda>s a. memo_put env a (f a) s) s as)"
    using memo.sound_puts [of env f s as] assms(1,2) by blast
  then show ?thesis using assms(4,5) unfolding memo.sound_def by blast
qed

theorem memoize_sound_witness:
  "memo_get ex_env (memo_put ex_env (3, [Some (VNum 1)]) (Some VNull) ex_state) (3, [Some (VNum 1)]) = Some (Some VNull)"
proof -
  have "last (g_memoize (s_Globals ex_state)) = Map.empty"
    by (simp add: ex_state_def newState_def State_SetData_def State_SetValue_def op_defs new_globals_def split: option.split)
  moreover have "\<exists>v. memo_get ex_env (memo_put ex_env (3, [Some (VNum 1)]) (Some VNull) ex_state) (3, [Some (VNum 1)]) = Some v"
    by (simp add: memo_get_put memo_arg_def)
  ultimately show ?thesis
    using memoize_sound [of ex_env "\<lambda>_. Some VNull" "[(3, [Some (VNum 1)])]" ex_state "(3, [Some (VNum 1)])"]
    by (auto simp: memo_arg_def)
qed

text \<open> The proviso fails: an undefined argument and the empty string have the same key, so the result memoized
  for one is returned for the other.\<close>

theorem memoize_undefined_is_empty_string:
  assumes "op_String (env_ops env) x = Some []"
    and "State_MemoizeInsert env i (as @ None # bs) v s = Some s'"
  shows "State_MemoizeGet env s' i (as @ Some x # bs) = Some (Some v)"
  using MemoizeInsert_get [OF assms(2)] memo_h_collision [OF assms(1)] by (simp add: State_MemoizeGet_def split: if_splits)

theorem memoize_undefined_is_empty_string_witness:
  "State_MemoizeGet ex_env (the (State_MemoizeInsert ex_env 3 [None] (Some VNull) ex_state)) 3 [Some (VStr [])] = Some (Some (Some VNull))"
  using memoize_undefined_is_empty_string [of ex_env "VStr []" 3 "[]" "[]" "Some VNull" ex_state
      "the (State_MemoizeInsert ex_env 3 [None] (Some VNull) ex_state)"]
  by (simp add: ex_env_def val_ops_def State_MemoizeInsert_def)

text \<open> The instruction limit stops a block before its first statement once the counter has passed it, whatever the
  statements are; only the count of checks changes.\<close>

theorem block_Execute_limit:
  assumes "env_Instructions env < g_EvalInstructions (s_Globals s)" and "\<And>n. \<not> env_cancelled env n"
    and "statements_Statement (block_Statements b) = Some d" and "statements_Len (block_Statements b) = Some n" and "0 < n"
  shows "block_Execute env st b s =
    raise ErrInstructionsLimitExceeded (map_globals (\<lambda>g. g\<lparr>g_checks := Suc (Suc (g_checks g))\<rparr>) s)"
  using block_limit [OF assms] .

theorem block_Execute_limit_witness:
  "\<exists>s'. block_Execute (ex_env\<lparr>env_Instructions := - 1\<rparr>) (\<lambda>d s. None) (the (block_Write [the nop_Write])) ex_state =
    Some ((False, 0, Some ErrInstructionsLimitExceeded), s')"
proof -
  let ?b = "the (block_Write [the nop_Write])"
  have "statements_Statement (block_Statements ?b) = Some (the nop_Write)" "statements_Len (block_Statements ?b) = Some 1"
    by code_simp+
  moreover have "g_EvalInstructions (s_Globals ex_state) = 0"
    by (simp add: ex_state_def newState_def State_SetData_def State_SetValue_def op_defs new_globals_def ex_opts_def split: option.split)
  ultimately show ?thesis
    using block_Execute_limit [of "ex_env\<lparr>env_Instructions := - 1\<rparr>" ex_state ?b "the nop_Write" 1 "\<lambda>d s. None"]
    by (auto simp: ex_env_def raise_def)
qed

text \<open> Answers are cached: with an empty cache, an input and a configured cache, an answer is returned again to the
  same query until its time to live is over, without evaluating the plan.  Printing and parsing of values (OPA) are
  assumed inverse.\<close>

theorem VM_Eval_answers_again:
  assumes "VM_Eval env ce fuel name opts = Some (Inr v, Some c', st)" and "eo_InterQueryBuiltinCache opts = Some Map.empty"
    and "eo_Input opts = Some x" and "ce_config ce = Some (paths, ttl)" and "\<And>v. ce_MustParseTerm ce (ce_String ce v) = v"
    and "t' \<le> eo_Time opts + ttl"
  shows "VM_Eval env ce 0 name (opts\<lparr>eo_InterQueryBuiltinCache := Some c', eo_Time := t'\<rparr>) = Some (Inr v, Some c', eo_Statistics opts)"
  using VM_Eval_cached [OF assms] .

theorem VM_Eval_answers_again_witness:
  "\<exists>c'. map_option fst (VM_Eval ex_env ex_cache 0 (str ''main'') (ex_opts\<lparr>eo_InterQueryBuiltinCache := Some c', eo_Time := 10\<rparr>)) =
     Some (Inr (str ''[hi]''))"
proof -
  have "map_option (\<lambda>(r, c, st). (r, c \<noteq> None)) (ir_eval ex_builtins ex_env ex_cache ex_policy 3 (str ''main'') ex_opts) =
      Some (Inr (str ''[hi]''), True)" by code_simp
  then obtain c' st where c': "VM_Eval ex_env ex_cache 3 (str ''main'') ex_opts = Some (Inr (str ''[hi]''), Some c', st)"
    unfolding VM_Eval_sim [OF ex_runs] by auto
  show ?thesis
    using VM_Eval_answers_again [OF c', of "VObj [(VStr (str ''user''), VStr (str ''bob''))]" "[[str ''user'']]" 10 10]
    by (auto simp: ex_opts_def ex_cache_def)
qed

text \<open> An input object without a key that the cache is configured for makes the computation of the cache key panic:
  the nil value of the failed lookup reaches \<open>ToAST\<close>, for which nil is not implemented.\<close>

theorem getEvalCacheKey_panics:
  assumes "ce_config ce = Some ((k # path) # paths, ttl)" and "ce_object ce input = Some get" and "get k = None"
    and "op_ToAST ops None = None"
  shows "getEvalCacheKey ops ce plan (Some input) = None"
  using assms cache_values_panic [of ce "k # path" input ops "[]" paths] by (simp add: getEvalCacheKey_def)

theorem getEvalCacheKey_panics_witness: "getEvalCacheKey val_ops ex_cache 0 (Some (VObj [])) = None"
  using getEvalCacheKey_panics [of ex_cache "str ''user''" "[]" "[]" 10 "VObj []" "\<lambda>k. None" val_ops 0]
  by (simp add: ex_cache_def val_ops_def)

end
